(* ===== verification/Prelude.thy ===== *)
theory Prelude
  imports Complex_Main
begin

text \<open>
  Shared vocabulary of the development: JavaScript values as the validators see them
  (\<open>unknown\<close> inputs), the string operations the sources use, fallible results, and the
  generic state-machine interface whose lemmas the stateful components reuse.

  Strings are HOL strings, one \<open>char\<close> per UTF-16 code unit; only the code units
  U+0000 to U+00FF exist in the model, so \<open>length\<close> is JavaScript's \<open>.length\<close> and
  \<open>utf8_len\<close> is \<open>Buffer.byteLength(s, "utf8")\<close> on that fragment.
\<close>

named_theorems guard_simps \<open>unfolding of the guards and predicates of the code\<close>
named_theorems inv_intros \<open>invariant preservation, one rule per operation\<close>

section \<open>JavaScript values\<close>

text \<open>
  \<open>JNum\<close> is a finite number (every finite double is a rational), \<open>JNonFinite\<close> stands for NaN
  and the infinities. Objects are own enumerable string-keyed data properties in
  insertion order.
\<close>

datatype jsval =
    JUndef
  | JNull
  | JBool bool
  | JNum rat
  | JNonFinite
  | JStr string
  | JArr "jsval list"
  | JObj "(string \<times> jsval) list"

fun is_plain_object :: "jsval \<Rightarrow> bool" where
  "is_plain_object (JObj _) = True"
| "is_plain_object _ = False"

text \<open>\<open>value === null || typeof value !== "object"\<close> negated: arrays pass this weaker test.\<close>

fun is_objectish :: "jsval \<Rightarrow> bool" where
  "is_objectish (JObj _) = True"
| "is_objectish (JArr _) = True"
| "is_objectish _ = False"

fun js_get :: "jsval \<Rightarrow> string \<Rightarrow> jsval" where
  "js_get (JObj kvs) k = (case map_of kvs k of Some v \<Rightarrow> v | None \<Rightarrow> JUndef)"
| "js_get _ k = JUndef"

fun js_keys :: "jsval \<Rightarrow> string list" where
  "js_keys (JObj kvs) = map fst kvs"
| "js_keys _ = []"

definition js_has :: "jsval \<Rightarrow> string \<Rightarrow> bool" where
  "js_has v k = (k \<in> set (js_keys v))"

fun js_int :: "jsval \<Rightarrow> int option" where
  "js_int (JNum q) = (if of_int \<lfloor>q\<rfloor> = q then Some \<lfloor>q\<rfloor> else None)"
| "js_int _ = None"

definition max_safe_integer :: int where
  "max_safe_integer = 9007199254740991"

definition js_safe_int :: "jsval \<Rightarrow> int option" where
  "js_safe_int v = (case js_int v of
      None \<Rightarrow> None
    | Some n \<Rightarrow> if \<bar>n\<bar> \<le> max_safe_integer then Some n else None)"

fun js_str :: "jsval \<Rightarrow> string option" where
  "js_str (JStr s) = Some s"
| "js_str _ = None"

fun js_bool :: "jsval \<Rightarrow> bool option" where
  "js_bool (JBool b) = Some b"
| "js_bool _ = None"

lemma js_int_of_int [simp]: "js_int (JNum (of_int n)) = Some n"
  by simp

lemma js_safe_int_bound: "js_safe_int v = Some n \<Longrightarrow> \<bar>n\<bar> \<le> max_safe_integer"
  by (auto simp: js_safe_int_def split: option.splits if_splits)

lemma js_safe_int_int: "js_safe_int v = Some n \<Longrightarrow> js_int v = Some n"
  by (auto simp: js_safe_int_def split: option.splits if_splits)

section \<open>Strings\<close>

text \<open>\<open>String.prototype.trim\<close>: white space and line terminators below U+0100.\<close>

definition js_space :: "char \<Rightarrow> bool" where
  "js_space c \<longleftrightarrow> of_char c \<in> {9, 10, 11, 12, 13, 32, 160 :: nat}"

definition js_trim :: "string \<Rightarrow> string" where
  "js_trim s = rev (dropWhile js_space (rev (dropWhile js_space s)))"

definition blank :: "string \<Rightarrow> bool" where
  "blank s \<longleftrightarrow> js_trim s = []"

definition utf8_len :: "string \<Rightarrow> nat" where
  "utf8_len s = sum_list (map (\<lambda>c. if (of_char c :: nat) < 128 then 1 else 2) s)"

definition starts_with :: "string \<Rightarrow> string \<Rightarrow> bool" where
  "starts_with s p \<longleftrightarrow> take (length p) s = p"

definition ends_with :: "string \<Rightarrow> string \<Rightarrow> bool" where
  "ends_with s p \<longleftrightarrow> starts_with (rev s) (rev p)"

text \<open>\<open>s.includes(p)\<close>.\<close>

fun has_substring :: "string \<Rightarrow> string \<Rightarrow> bool" where
  "has_substring s [] = True"
| "has_substring [] (p # ps) = False"
| "has_substring (c # s) (p # ps) = (starts_with (c # s) (p # ps) \<or> has_substring s (p # ps))"

text \<open>\<open>split("/")\<close>: never empty, consecutive separators give empty segments.\<close>

fun split_on :: "char \<Rightarrow> string \<Rightarrow> string list" where
  "split_on d [] = [[]]"
| "split_on d (c # cs) =
     (if c = d then [] # split_on d cs
      else (case split_on d cs of [] \<Rightarrow> [[c]] | s # ss \<Rightarrow> (c # s) # ss))"

fun join_with :: "string \<Rightarrow> string list \<Rightarrow> string" where
  "join_with sep [] = []"
| "join_with sep [s] = s"
| "join_with sep (s # t # ss) = s @ sep @ join_with sep (t # ss)"

text \<open>Character classes and the patterns several validators share.\<close>

definition is_lower :: "char \<Rightarrow> bool" where
  "is_lower c = (97 \<le> (of_char c :: nat) \<and> (of_char c :: nat) \<le> 122)"

definition is_upper :: "char \<Rightarrow> bool" where
  "is_upper c = (65 \<le> (of_char c :: nat) \<and> (of_char c :: nat) \<le> 90)"

definition is_digit :: "char \<Rightarrow> bool" where
  "is_digit c = (48 \<le> (of_char c :: nat) \<and> (of_char c :: nat) \<le> 57)"

definition is_hex :: "char \<Rightarrow> bool" where
  "is_hex c = (is_digit c \<or> (97 \<le> (of_char c :: nat) \<and> (of_char c :: nat) \<le> 102))"

text \<open>\<open>/^sha256:[a-f0-9]{64}$/\<close>\<close>

definition digest_pattern :: "string \<Rightarrow> bool" where
  "digest_pattern s =
     (starts_with s ''sha256:'' \<and> length s = 71 \<and> list_all is_hex (drop 7 s))"

text \<open>Decimal rendering of an index in an error detail.\<close>

fun dec :: "nat \<Rightarrow> string" where
  "dec n = (if n < 10 then [char_of (48 + n)] else dec (n div 10) @ [char_of (48 + n mod 10)])"

declare dec.simps [simp del]

definition undec :: "string \<Rightarrow> nat" where
  "undec s = foldl (\<lambda>a c. 10 * a + (of_char c - 48)) 0 s"

lemma undec_dec: "undec (dec n) = n"
proof (induction n rule: dec.induct)
  case (1 n)
  show ?case
  proof (cases "n < 10")
    case True
    then show ?thesis by (subst dec.simps) (simp add: undec_def)
  next
    case False
    then have "undec (dec (n div 10)) = n div 10" by (rule 1)
    then show ?thesis using False by (subst dec.simps) (simp add: undec_def)
  qed
qed

lemma is_digit_code: "is_digit c \<longleftrightarrow> (\<exists>k < 10. c = char_of (48 + k :: nat))"
proof
  assume d: "is_digit c"
  then have "c = char_of (48 + (of_char c - 48) :: nat)" "of_char c - 48 < (10 :: nat)"
    by (auto simp: is_digit_def)
  then show "\<exists>k < 10. c = char_of (48 + k :: nat)" by blast
qed (auto simp: is_digit_def)

lemma dec_is_digit: "c \<in> set (dec n) \<Longrightarrow> is_digit c"
proof (induction n rule: dec.induct)
  case (1 n)
  show ?case
  proof (cases "n < 10")
    case True
    with 1(2) show ?thesis by (subst (asm) dec.simps) (auto simp: is_digit_code)
  next
    case False
    have "is_digit (char_of (48 + n mod 10))" unfolding is_digit_code by (intro exI [of _ "n mod 10"]) simp
    with 1 False show ?thesis by (subst (asm) (2) dec.simps) auto
  qed
qed

lemma dec_ne [simp]: "dec n \<noteq> []"
  by (subst dec.simps) simp

lemma dec_hd_digit: "is_digit (hd (dec n))"
  by (rule dec_is_digit [of _ n]) simp

text \<open>A decimal numeral ends where the digits end.\<close>

lemma takeWhile_dec:
  assumes "r = [] \<or> \<not> is_digit (hd r)"
  shows "takeWhile is_digit (dec m @ r) = dec m" "dropWhile is_digit (dec m @ r) = r"
proof -
  have "\<forall>c \<in> set (dec m). is_digit c" using dec_is_digit by blast
  moreover have "takeWhile is_digit r = []" "dropWhile is_digit r = r" using assms by (cases r; auto)+
  ultimately show "takeWhile is_digit (dec m @ r) = dec m" "dropWhile is_digit (dec m @ r) = r"
    by (simp_all add: takeWhile_append2 dropWhile_append2)
qed

lemma dec_unique:
  assumes "dec m @ r = dec n @ r'" "r = [] \<or> \<not> is_digit (hd r)" "r' = [] \<or> \<not> is_digit (hd r')"
  shows "m = n \<and> r = r'"
  using assms takeWhile_dec [OF assms(2)] takeWhile_dec [OF assms(3)] by (metis undec_dec)

lemma dropWhile_none: "(\<forall>x \<in> set xs. P x) \<longleftrightarrow> dropWhile P xs = []"
  by (rule dropWhile_eq_Nil_conv [symmetric])

lemma all_spaces_trim: "\<forall>c \<in> set s. js_space c \<Longrightarrow> js_trim s = []"
  by (auto simp: js_trim_def dest: set_dropWhileD)

lemma blank_iff: "blank s \<longleftrightarrow> (\<forall>c \<in> set s. js_space c)"
proof
  assume b: "blank s"
  show "\<forall>c \<in> set s. js_space c"
  proof (rule ccontr)
    assume "\<not> ?thesis"
    then have ne: "dropWhile js_space s \<noteq> []" unfolding dropWhile_none .
    have h: "\<not> js_space (hd (dropWhile js_space s))" by (rule hd_dropWhile [OF ne])
    have "hd (dropWhile js_space s) \<in> set (rev (dropWhile js_space s))"
      unfolding set_rev by (rule hd_in_set [OF ne])
    with h have "\<not> (\<forall>c \<in> set (rev (dropWhile js_space s)). js_space c)" by blast
    then have "dropWhile js_space (rev (dropWhile js_space s)) \<noteq> []"
      unfolding dropWhile_none .
    then show False using b unfolding blank_def js_trim_def by blast
  qed
next
  assume "\<forall>c \<in> set s. js_space c"
  then show "blank s" by (simp add: blank_def all_spaces_trim)
qed

lemma trim_trim [simp]: "js_trim (js_trim s) = js_trim s"
proof -
  let ?a = "dropWhile js_space s"
  have "dropWhile js_space (js_trim s) = js_trim s"
  proof (cases "js_trim s")
    case (Cons c r)
    obtain t where t: "?a = js_trim s @ t"
      unfolding js_trim_def by (metis rev_append rev_rev_ident takeWhile_dropWhile_id)
    have "?a \<noteq> []" using t Cons by simp
    from hd_dropWhile [OF this] have "\<not> js_space c" using t Cons by simp
    then show ?thesis using Cons by simp
  qed simp
  moreover have "dropWhile js_space (rev (js_trim s)) = rev (js_trim s)"
    unfolding js_trim_def by simp
  ultimately show ?thesis unfolding js_trim_def [of "js_trim s"] by simp
qed

lemma utf8_len_Nil [simp]: "utf8_len [] = 0"
  and utf8_len_Cons: "utf8_len (c # s) = (if (of_char c :: nat) < 128 then 1 else 2) + utf8_len s"
  and utf8_len_append [simp]: "utf8_len (s @ t) = utf8_len s + utf8_len t"
  by (simp_all add: utf8_len_def)

lemma length_le_utf8_len: "length s \<le> utf8_len s"
  by (induction s) (auto simp: utf8_len_Cons)

lemma starts_with_append: "starts_with s p \<longleftrightarrow> (\<exists>t. s = p @ t)"
  by (metis append_eq_conv_conj append_take_drop_id starts_with_def)

lemma starts_with_refl [simp]: "starts_with s s"
  by (simp add: starts_with_def)

lemma starts_with_trans: "starts_with a b \<Longrightarrow> starts_with b c \<Longrightarrow> starts_with a c"
  by (auto simp: starts_with_append)

lemma ends_with_append: "ends_with s p \<longleftrightarrow> (\<exists>t. s = t @ p)"
  unfolding ends_with_def starts_with_append
  by (metis rev_append rev_rev_ident)

lemma split_on_ne [simp]: "split_on d s \<noteq> []"
  by (induction s) (auto split: list.splits)

lemma split_on_no_sep: "seg \<in> set (split_on d s) \<Longrightarrow> d \<notin> set seg"
  by (induction s arbitrary: seg) (force split: list.splits if_splits)+

lemma split_on_append:
  "split_on d (s @ d # t) = split_on d s @ split_on d t"
  by (induction s) (auto split: list.splits)

lemma split_on_plain: "d \<notin> set s \<Longrightarrow> split_on d s = [s]"
  by (induction s) auto

lemma split_join:
  "ss \<noteq> [] \<Longrightarrow> \<forall>s \<in> set ss. d \<notin> set s \<Longrightarrow> split_on d (join_with [d] ss) = ss"
  by (induction "[d]" ss rule: join_with.induct) (auto simp: split_on_plain split_on_append)

section \<open>First occurrences: \<open>[...new Set(xs)]\<close> keeps insertion order\<close>

fun uniq_acc :: "'a list \<Rightarrow> 'a list \<Rightarrow> 'a list" where
  "uniq_acc acc [] = acc"
| "uniq_acc acc (x # xs) = uniq_acc (if x \<in> set acc then acc else acc @ [x]) xs"

definition uniq :: "'a list \<Rightarrow> 'a list" where
  "uniq xs = uniq_acc [] xs"

lemma set_uniq_acc: "set (uniq_acc acc xs) = set acc \<union> set xs"
  by (induction acc xs rule: uniq_acc.induct) auto

lemma distinct_uniq_acc: "distinct acc \<Longrightarrow> distinct (uniq_acc acc xs)"
  by (induction acc xs rule: uniq_acc.induct) auto

lemma set_uniq [simp]: "set (uniq xs) = set xs"
  by (simp add: uniq_def set_uniq_acc)

lemma distinct_uniq [simp]: "distinct (uniq xs)"
  by (simp add: uniq_def distinct_uniq_acc)

section \<open>First failure of a chain of checks\<close>

lemma first_some_None: "(case x of None \<Rightarrow> y | Some e \<Rightarrow> Some e) = None \<longleftrightarrow> x = None \<and> y = None"
  by (cases x) auto

lemma first_some_Some:
  "(case x of None \<Rightarrow> y | Some e \<Rightarrow> Some e) = Some e \<longleftrightarrow> x = Some e \<or> (x = None \<and> y = Some e)"
  by (cases x) auto

lemmas first_some = first_some_None first_some_Some

section \<open>Fallible steps in sequence\<close>

text \<open>A call whose exception propagates, and a check that throws when it fails.\<close>

definition and_then :: "'e + 'a \<Rightarrow> ('a \<Rightarrow> 'e + 'b) \<Rightarrow> 'e + 'b" where
  "and_then r f = (case r of Inl e \<Rightarrow> Inl e | Inr a \<Rightarrow> f a)"

definition ensure :: "bool \<Rightarrow> 'e \<Rightarrow> 'e + 'b \<Rightarrow> 'e + 'b" where
  "ensure c e k = (if c then k else Inl e)"

lemma and_then_simps [simp]: "and_then (Inl e) f = Inl e" "and_then (Inr a) f = f a"
  by (simp_all add: and_then_def)

lemma and_then_Inr: "and_then r f = Inr b \<longleftrightarrow> (\<exists>a. r = Inr a \<and> f a = Inr b)"
  by (cases r) auto

lemma and_then_Inl: "and_then r f = Inl e \<longleftrightarrow> r = Inl e \<or> (\<exists>a. r = Inr a \<and> f a = Inl e)"
  by (cases r) auto

lemma ensure_Inr: "ensure c e k = Inr b \<longleftrightarrow> c \<and> k = Inr b"
  by (simp add: ensure_def)

lemma ensure_simps [simp]: "ensure True e k = k" "ensure False e k = Inl e"
  by (simp_all add: ensure_def)

lemma and_then_cong [fundef_cong]:
  "r = r' \<Longrightarrow> (\<And>a. r' = Inr a \<Longrightarrow> f a = g a) \<Longrightarrow> and_then r f = and_then r' g"
  by (cases r') (auto simp: and_then_def)

lemma ensure_cong [fundef_cong]:
  "c = c' \<Longrightarrow> (c' \<Longrightarrow> k = k') \<Longrightarrow> ensure c e k = ensure c' e k'"
  by (simp add: ensure_def)

lemma succeeds_iff: "(case x of Inl _ \<Rightarrow> False | Inr _ \<Rightarrow> True) \<longleftrightarrow> (\<exists>y. x = Inr y)"
  by (cases x) auto

lemma option_Inr:
  "(case x of None \<Rightarrow> Inl e | Some a \<Rightarrow> f a) = Inr b \<longleftrightarrow> (\<exists>a. x = Some a \<and> f a = Inr b)"
  by (cases x) auto

lemmas accepts = and_then_Inr ensure_Inr succeeds_iff

section \<open>The interface of a stateful component\<close>

text \<open>
  A component is a state with operations; \<open>invar\<close> holds initially and every operation
  keeps it. What follows for runs is proved once, here.
\<close>

locale op_machine =
  fixes start :: 's
    and app :: "'o \<Rightarrow> 's \<Rightarrow> 's"
    and invar :: "'s \<Rightarrow> bool"
  assumes invar_start: "invar start"
    and invar_app: "invar s \<Longrightarrow> invar (app x s)"
begin

lemma invar_fold: "invar s \<Longrightarrow> invar (fold app xs s)"
  by (induction xs arbitrary: s) (auto intro: invar_app)

lemma invar_run: "invar (fold app xs start)"
  by (rule invar_fold [OF invar_start])

end

text \<open>A machine with a preorder that every operation climbs: monotone along runs.\<close>

locale mono_machine = op_machine +
  fixes below :: "'a \<Rightarrow> 'a \<Rightarrow> bool"
  assumes below_refl: "below s s"
    and below_trans: "below s t \<Longrightarrow> below t u \<Longrightarrow> below s u"
    and below_app: "invar s \<Longrightarrow> below s (app x s)"
begin

lemma below_fold: "invar s \<Longrightarrow> below s (fold app xs s)"
proof (induction xs arbitrary: s)
  case Nil
  show ?case by (simp add: below_refl)
next
  case (Cons x xs)
  have "below s (app x s)" by (rule below_app [OF Cons.prems])
  moreover have "below (app x s) (fold app xs (app x s))"
    by (rule Cons.IH [OF invar_app [OF Cons.prems]])
  ultimately show ?case by (simp add: below_trans)
qed

lemma below_later: "below (fold app xs start) (fold app (xs @ ys) start)"
  using below_fold [OF invar_run, of xs ys] by simp

end

text \<open>
  A refinement: through \<open>abs\<close>, every operation on a state that satisfies the invariant is a step of the
  specification or changes nothing there. Then so is every run.
\<close>

locale refinement =
  fixes app :: "'o \<Rightarrow> 's \<Rightarrow> 's"
    and invar :: "'s \<Rightarrow> bool"
    and abs :: "'s \<Rightarrow> 'a"
    and spec_step :: "'a \<Rightarrow> 'a \<Rightarrow> bool"
  assumes invar_op: "invar s \<Longrightarrow> invar (app x s)"
    and simulates: "invar s \<Longrightarrow> abs (app x s) = abs s \<or> spec_step (abs s) (abs (app x s))"
begin

lemma run_invar: "invar s \<Longrightarrow> invar (fold app xs s)"
  by (induction xs arbitrary: s) (auto intro: invar_op)

lemma run_refines: "invar s \<Longrightarrow> rtranclp spec_step (abs s) (abs (fold app xs s))"
proof (induction xs arbitrary: s)
  case (Cons x xs)
  have "rtranclp spec_step (abs s) (abs (app x s))"
    using simulates [OF Cons.prems, of x] by auto
  then show ?case using Cons.IH [OF invar_op [OF Cons.prems]] by (simp add: rtranclp_trans)
qed simp

end

end
