(* ===== verification/JsMap.thy ===== *)
theory JsMap
  imports Prelude
begin

text \<open>
  JavaScript's \<open>Map\<close>: keys in insertion order, \<open>set\<close> on a present key keeps its place,
  iteration visits the entries in that order. The locale is the interface the stateful
  components rely on; the interpretation discharges it for the model of \<open>Map\<close>.
\<close>

type_synonym ('k, 'v) jsmap = "('k \<times> 'v) list"

definition map_get :: "('k, 'v) jsmap \<Rightarrow> 'k \<Rightarrow> 'v option" where
  "map_get m k = map_of m k"

fun map_set :: "('k, 'v) jsmap \<Rightarrow> 'k \<Rightarrow> 'v \<Rightarrow> ('k, 'v) jsmap" where
  "map_set [] k v = [(k, v)]"
| "map_set (p # m) k v = (if fst p = k then (k, v) # m else p # map_set m k v)"

definition map_delete :: "('k, 'v) jsmap \<Rightarrow> 'k \<Rightarrow> ('k, 'v) jsmap" where
  "map_delete m k = filter (\<lambda>p. fst p \<noteq> k) m"

definition map_has :: "('k, 'v) jsmap \<Rightarrow> 'k \<Rightarrow> bool" where
  "map_has m k \<longleftrightarrow> k \<in> fst ` set m"

definition map_keys :: "('k, 'v) jsmap \<Rightarrow> 'k list" where
  "map_keys m = map fst m"

definition map_values :: "('k, 'v) jsmap \<Rightarrow> 'v list" where
  "map_values m = map snd m"

definition map_wf :: "('k, 'v) jsmap \<Rightarrow> bool" where
  "map_wf m \<longleftrightarrow> distinct (map fst m)"

lemma keys_map_set: "fst ` set (map_set m k v) = insert k (fst ` set m)"
  by (induction m) force+

lemma map_wf_Nil [simp, intro]: "map_wf []"
  by (simp add: map_wf_def)

lemma map_wf_set [intro]: "map_wf m \<Longrightarrow> map_wf (map_set m k v)"
proof (induction m)
  case Nil
  show ?case by (simp add: map_wf_def)
next
  case (Cons p m)
  then show ?case
    using keys_map_set [of m k v] by (auto simp: map_wf_def)
qed

lemma map_wf_delete [intro]: "map_wf m \<Longrightarrow> map_wf (map_delete m k)"
  by (auto simp: map_wf_def map_delete_def intro: distinct_map_filter)

lemma map_get_Nil [simp]: "map_get [] k = None"
  by (simp add: map_get_def)

lemma map_get_set [simp]: "map_get (map_set m k v) j = (if j = k then Some v else map_get m j)"
  by (induction m) (auto simp: map_get_def)

lemma map_get_delete [simp]: "map_get (map_delete m k) j = (if j = k then None else map_get m j)"
  by (induction m) (auto simp: map_get_def map_delete_def)

lemma map_has_get: "map_has m k \<longleftrightarrow> map_get m k \<noteq> None"
  by (simp add: map_has_def map_get_def map_of_eq_None_iff)

lemma map_get_mem: "map_get m k = Some v \<Longrightarrow> (k, v) \<in> set m"
  by (simp add: map_get_def map_of_SomeD)

lemma map_get_iff: "map_wf m \<Longrightarrow> map_get m k = Some v \<longleftrightarrow> (k, v) \<in> set m"
  by (simp add: map_get_def map_wf_def)

lemma map_values_get: "map_wf m \<Longrightarrow> v \<in> set (map_values m) \<longleftrightarrow> (\<exists>k. map_get m k = Some v)"
  by (force simp: map_values_def map_get_iff)

lemma map_set_absent: "\<not> map_has m k \<Longrightarrow> map_set m k v = m @ [(k, v)]"
  by (induction m) (auto simp: map_has_def)

lemma length_map_set:
  "length (map_set m k v) = (if map_has m k then length m else Suc (length m))"
  by (induction m) (auto simp: map_has_def)

lemma length_map_delete: "length (map_delete m k) \<le> length m"
  by (simp add: map_delete_def)

lemma length_map_delete_present:
  assumes "map_has m k"
  shows "length (map_delete m k) < length m"
proof -
  from assms obtain p where "p \<in> set m" "fst p = k" by (auto simp: map_has_def)
  then show ?thesis
    unfolding map_delete_def by (intro length_filter_less [of p]) auto
qed

lemma set_map_set:
  "map_wf m \<Longrightarrow> set (map_set m k v) = insert (k, v) {p \<in> set m. fst p \<noteq> k}"
  by (induction m) (auto simp: map_wf_def image_iff)

lemma set_map_delete: "set (map_delete m k) = {p \<in> set m. fst p \<noteq> k}"
  by (auto simp: map_delete_def)

lemma list_all_map_set [intro]: "list_all P m \<Longrightarrow> P (k, v) \<Longrightarrow> list_all P (map_set m k v)"
  by (induction m) auto

lemma list_all_map_delete [intro]: "list_all P m \<Longrightarrow> list_all P (map_delete m k)"
  by (auto simp: map_delete_def list_all_iff)

lemma list_all_map_get: "list_all P m \<Longrightarrow> map_get m k = Some v \<Longrightarrow> P (k, v)"
  by (auto simp: list_all_iff dest: map_get_mem)

lemma length_map_of_wf: "map_wf m \<Longrightarrow> length m = card (fst ` set m)"
  by (metis distinct_card length_map list.set_map map_wf_def)

text \<open>
  A plain object used as a dictionary, \<open>obj[key]\<close>: a key that is no own property but a name
  of \<open>Object.prototype\<close> reads the inherited (truthy) member.
\<close>

datatype 'v prop_value = Own 'v | Inherited | Absent

definition proto_names :: "string list" where
  "proto_names = [''constructor'', ''__proto__'', ''hasOwnProperty'', ''isPrototypeOf'',
     ''propertyIsEnumerable'', ''toLocaleString'', ''toString'', ''valueOf'',
     ''__defineGetter__'', ''__defineSetter__'', ''__lookupGetter__'', ''__lookupSetter__'']"

definition prop_read :: "(string, 'v) jsmap \<Rightarrow> string \<Rightarrow> 'v prop_value" where
  "prop_read m k = (case map_get m k of
      Some v \<Rightarrow> Own v
    | None \<Rightarrow> if k \<in> set proto_names then Inherited else Absent)"

text \<open>\<open>obj[key] = "..."\<close> on a fresh plain object: assigning a primitive to \<open>__proto__\<close> is ignored.\<close>

definition assign_primitive :: "(string, 'v) jsmap \<Rightarrow> string \<Rightarrow> 'v \<Rightarrow> (string, 'v) jsmap" where
  "assign_primitive m k v = (if k = ''__proto__'' then m else map_set m k v)"

lemma prop_read_Own: "prop_read m k = Own v \<longleftrightarrow> map_get m k = Some v"
  by (auto simp: prop_read_def split: option.splits)

text \<open>The interface: what a client of a keyed store may rely on.\<close>

locale keyed_store =
  fixes empty :: 'm
    and lookup :: "'m \<Rightarrow> 'k \<Rightarrow> 'v option"
    and update :: "'m \<Rightarrow> 'k \<Rightarrow> 'v \<Rightarrow> 'm"
    and remove :: "'m \<Rightarrow> 'k \<Rightarrow> 'm"
    and size_of :: "'m \<Rightarrow> nat"
    and wf :: "'m \<Rightarrow> bool"
  assumes wf_empty: "wf empty"
    and wf_update: "wf m \<Longrightarrow> wf (update m k v)"
    and wf_remove: "wf m \<Longrightarrow> wf (remove m k)"
    and lookup_empty: "lookup empty k = None"
    and lookup_update: "lookup (update m k v) j = (if j = k then Some v else lookup m j)"
    and lookup_remove: "lookup (remove m k) j = (if j = k then None else lookup m j)"
    and size_update: "size_of (update m k v) = (if lookup m k = None then Suc (size_of m) else size_of m)"
    and size_remove: "size_of (remove m k) \<le> size_of m"
begin

lemma lookup_update_remove: "lookup (remove (update m k v) k) j = lookup (remove m k) j"
  by (simp add: lookup_update lookup_remove)

lemma wf_updates: "wf m \<Longrightarrow> wf (fold (\<lambda>(k, v) m. update m k v) kvs m)"
  by (induction kvs arbitrary: m) (auto intro: wf_update)

lemma lookup_updates_other:
  "k \<notin> fst ` set kvs \<Longrightarrow> lookup (fold (\<lambda>(k, v) m. update m k v) kvs m) k = lookup m k"
  by (induction kvs arbitrary: m) (auto simp: lookup_update)

lemma size_capped_update:
  "size_of m < cap \<or> (lookup m k \<noteq> None \<and> size_of m \<le> cap) \<Longrightarrow> size_of (update m k v) \<le> cap"
  by (auto simp: size_update)

end

interpretation js_map: keyed_store "[]" map_get map_set map_delete length map_wf
  by unfold_locales
     (auto simp: length_map_set map_has_get length_map_delete)

lemmas map_specs = js_map.lookup_update js_map.lookup_remove js_map.lookup_empty

end
