(* ===== verification/CoreContracts.thy ===== *)
theory CoreContracts
  imports JsMap
begin

text \<open>
  packages/core/src/contracts.ts: the readers of requests, documents, feedback, model responses and tools, and the
  redaction every value passes before it is stored or returned. The regular expressions are written out as matchers;
  messages and details of errors are left out. A value is a tree, so a reference that occurs twice is two values
  (the code replaces the second by a marker), and a non-finite number is NaN.
\<close>

section \<open>Errors\<close>

record core_error =
  ce_code :: string
  ce_retryable :: bool
  ce_status :: int

text \<open>What a \<open>catch\<close> receives: a \<open>CoreError\<close> or anything else.\<close>

datatype thrown = Core core_error | Foreign

definition ValidationError :: thrown where
  "ValidationError = Core \<lparr>ce_code = ''VALIDATION_ERROR'', ce_retryable = False, ce_status = 400\<rparr>"

record error_summary =
  es_code :: string
  es_retryable :: bool

definition structuredError :: "thrown \<Rightarrow> error_summary" where
  "structuredError e = (case e of
      Core c \<Rightarrow> \<lparr>es_code = ce_code c, es_retryable = ce_retryable c\<rparr>
    | Foreign \<Rightarrow> \<lparr>es_code = ''INTERNAL_ERROR'', es_retryable = False\<rparr>)"

section \<open>Redaction\<close>

definition lower_char :: "char \<Rightarrow> char" where
  "lower_char c = (if is_upper c then char_of (of_char c + 32 :: nat) else c)"

definition word_char :: "char \<Rightarrow> bool" where
  "word_char c = (is_lower c \<or> is_upper c \<or> is_digit c \<or> c = CHR ''_'')"

text \<open>A literal at the head of a text, whatever its case; a keyword is one literal or two with an optional mark between.\<close>

definition literal_length :: "string \<Rightarrow> string \<Rightarrow> nat option" where
  "literal_length lit s = (if map lower_char (take (length lit) s) = lit then Some (length lit) else None)"

definition mark_length :: "string \<Rightarrow> nat" where
  "mark_length s = (case s of [] \<Rightarrow> 0 | c # _ \<Rightarrow> if c = CHR ''-'' \<or> c = CHR ''_'' then 1 else 0)"

definition keyword_length :: "string \<times> string \<Rightarrow> string \<Rightarrow> nat option" where
  "keyword_length w s = (case literal_length (fst w) s of
      None \<Rightarrow> None
    | Some n \<Rightarrow>
        if snd w = [] then Some n
        else let k = mark_length (drop n s)
             in case literal_length (snd w) (drop (n + k) s) of None \<Rightarrow> None | Some m \<Rightarrow> Some (n + k + m))"

fun first_keyword :: "(string \<times> string) list \<Rightarrow> string \<Rightarrow> nat option" where
  "first_keyword [] s = None"
| "first_keyword (w # ws) s = (case keyword_length w s of Some n \<Rightarrow> Some n | None \<Rightarrow> first_keyword ws s)"

definition SECRET_KEY_WORDS :: "(string \<times> string) list" where
  "SECRET_KEY_WORDS = [(''api'', ''key''), (''authorization'', []), (''cookie'', []), (''credential'', []), (''password'', []),
     (''private'', ''key''), (''secret'', []), (''session'', ''key''), (''token'', []), (''webhook'', [])]"

definition SECRET_KEY_PATTERN :: "string \<Rightarrow> bool" where
  "SECRET_KEY_PATTERN k = list_ex (\<lambda>n. first_keyword SECRET_KEY_WORDS (drop n k) \<noteq> None) [0..<length k]"

definition REDACTED :: string where
  "REDACTED = ''[REDACTED]''"

definition word_start :: "char option \<Rightarrow> bool" where
  "word_start before = (case before of None \<Rightarrow> True | Some c \<Rightarrow> \<not> word_char c)"

text \<open>A matcher sees the character before and the text from here; it answers how much it consumes and what replaces it.\<close>

type_synonym matcher = "char option \<Rightarrow> string \<Rightarrow> (nat \<times> string) option"

definition bearer_char :: "char \<Rightarrow> bool" where
  "bearer_char c = (is_lower c \<or> is_upper c \<or> is_digit c \<or> c \<in> set ''._~+/=-'')"

text \<open>\<open>/\bBearer\s+[A-Za-z0-9._~+/=-]+/gi\<close>\<close>

definition bearer_match :: matcher where
  "bearer_match before s =
     (if \<not> word_start before then None
      else case literal_length ''bearer'' s of
          None \<Rightarrow> None
        | Some n \<Rightarrow>
            let spaces = takeWhile js_space (drop n s); token = takeWhile bearer_char (drop (n + length spaces) s)
            in if spaces = [] \<or> token = [] then None
               else Some (n + length spaces + length token, ''Bearer '' @ REDACTED))"

text \<open>\<open>/\b((?:api[-_]?key|...|token)\s*[:=]\s*)[^\s,;]+/gi\<close>\<close>

definition ASSIGNED_WORDS :: "(string \<times> string) list" where
  "ASSIGNED_WORDS = [(''api'', ''key''), (''access'', ''token''), (''auth'', ''token''), (''client'', ''secret''), (''password'', []),
     (''secret'', []), (''token'', [])]"

definition assigned_char :: "char \<Rightarrow> bool" where
  "assigned_char c = (\<not> js_space c \<and> c \<noteq> CHR '','' \<and> c \<noteq> CHR '';'')"

definition assignment_match :: matcher where
  "assignment_match before s =
     (if \<not> word_start before then None
      else case first_keyword ASSIGNED_WORDS s of
          None \<Rightarrow> None
        | Some n \<Rightarrow>
            let k = n + length (takeWhile js_space (drop n s))
            in case drop k s of
                 [] \<Rightarrow> None
               | c # r \<Rightarrow>
                   let m = k + 1 + length (takeWhile js_space r); secret = takeWhile assigned_char (drop m s)
                   in if (c \<noteq> CHR '':'' \<and> c \<noteq> CHR ''='') \<or> secret = [] then None
                      else Some (m + length secret, take m s @ REDACTED))"

text \<open>\<open>/([?&](?:access_token|api_key|key|secret|signature|token)=)[^&#\s]+/gi\<close>\<close>

definition QUERY_WORDS :: "(string \<times> string) list" where
  "QUERY_WORDS = [(''access_token'', []), (''api_key'', []), (''key'', []), (''secret'', []), (''signature'', []), (''token'', [])]"

definition query_char :: "char \<Rightarrow> bool" where
  "query_char c = (c \<noteq> CHR ''&'' \<and> c \<noteq> CHR ''#'' \<and> \<not> js_space c)"

definition query_match :: matcher where
  "query_match before s = (case s of
      [] \<Rightarrow> None
    | c # r \<Rightarrow>
        if c \<noteq> CHR ''?'' \<and> c \<noteq> CHR ''&'' then None
        else (case first_keyword QUERY_WORDS r of
                None \<Rightarrow> None
              | Some n \<Rightarrow>
                  let secret = takeWhile query_char (drop (n + 1) r)
                  in if \<not> starts_with (drop n r) ''='' \<or> secret = [] then None
                     else Some (n + 2 + length secret, take (n + 2) s @ REDACTED)))"

text \<open>\<open>String.prototype.replace\<close> with a global expression; a match consumes at least one character.\<close>

fun replace_all :: "matcher \<Rightarrow> char option \<Rightarrow> string \<Rightarrow> string" where
  "replace_all m before [] = []"
| "replace_all m before (c # s) = (case m before (c # s) of
      None \<Rightarrow> c # replace_all m (Some c) s
    | Some (n, r) \<Rightarrow> r @ replace_all m (Some ((c # s) ! (n - 1))) (drop (n - 1) s))"

definition redactText :: "string \<Rightarrow> string" where
  "redactText s = replace_all query_match None (replace_all assignment_match None (replace_all bearer_match None s))"

fun sanitizeDetails :: "jsval \<Rightarrow> jsval" where
  "sanitizeDetails (JStr s) = JStr (redactText s)"
| "sanitizeDetails (JArr vs) = JArr (map sanitizeDetails vs)"
| "sanitizeDetails (JObj kvs) = JObj (filter (\<lambda>p. snd p \<noteq> JUndef)
     (map (\<lambda>p. (fst p, if SECRET_KEY_PATTERN (fst p) then JStr REDACTED else sanitizeDetails (snd p))) kvs))"
| "sanitizeDetails v = v"

section \<open>Readers\<close>

definition js_truthy :: "jsval \<Rightarrow> bool" where
  "js_truthy v = (case v of
      JUndef \<Rightarrow> False | JNull \<Rightarrow> False | JNonFinite \<Rightarrow> False | JBool b \<Rightarrow> b | JNum q \<Rightarrow> q \<noteq> 0 | JStr s \<Rightarrow> s \<noteq> []
    | JArr _ \<Rightarrow> True | JObj _ \<Rightarrow> True)"

text \<open>\<open>a ?? b\<close>\<close>

definition nullish :: "jsval \<Rightarrow> jsval \<Rightarrow> jsval" where
  "nullish v w = (if v = JUndef \<or> v = JNull then w else v)"

definition MAX_MESSAGE_LENGTH :: nat where
  "MAX_MESSAGE_LENGTH = 20000"

definition validateOptionalId :: "jsval \<Rightarrow> thrown + string option" where
  "validateOptionalId v =
     (if v = JUndef \<or> v = JNull then Inr None
      else case v of
          JStr s \<Rightarrow> ensure (\<not> (blank s \<or> length s > 256)) ValidationError (Inr (Some (js_trim s)))
        | _ \<Rightarrow> Inl ValidationError)"

definition cloneMetadata :: "jsval \<Rightarrow> thrown + jsval" where
  "cloneMetadata v =
     (if v = JUndef then Inr (JObj []) else ensure (is_plain_object v) ValidationError (Inr (sanitizeDetails v)))"

record answer_request =
  ar_request :: "string option"
  ar_actor :: string
  ar_session :: string
  ar_message :: string
  ar_metadata :: jsval

definition or_else :: "'a option \<Rightarrow> 'a option \<Rightarrow> 'a option" where
  "or_else x y = (case x of Some _ \<Rightarrow> x | None \<Rightarrow> y)"

definition or_default :: "'a option \<Rightarrow> 'a \<Rightarrow> 'a" where
  "or_default x d = (case x of Some v \<Rightarrow> v | None \<Rightarrow> d)"

definition validateAnswerRequest :: "nat \<Rightarrow> jsval \<Rightarrow> thrown + answer_request" where
  "validateAnswerRequest maxMessageLength v =
     ensure (is_plain_object v) ValidationError
    (case js_get v ''message'' of
       JStr message \<Rightarrow>
         ensure (\<not> blank message) ValidationError
        (ensure (\<not> length message > maxMessageLength) ValidationError
        (and_then (validateOptionalId (js_get v ''actorId'')) (\<lambda>actor.
         and_then (validateOptionalId (js_get v ''sessionId'')) (\<lambda>session0.
         let session = or_else session0 actor
         in and_then (validateOptionalId (js_get v ''requestId'')) (\<lambda>request.
            and_then (cloneMetadata (js_get v ''metadata'')) (\<lambda>metadata.
              Inr \<lparr>ar_request = request, ar_actor = or_default (or_else actor session) ''anonymous'',
                    ar_session = or_default session ''anonymous'', ar_message = js_trim message,
                    ar_metadata = metadata\<rparr>))))))
     | _ \<Rightarrow> Inl ValidationError)"

record feedback_record =
  fb_verified :: bool
  fb_note :: "string option"
  fb_metadata :: jsval

definition trimmed_text :: "jsval \<Rightarrow> string option" where
  "trimmed_text v = (case v of JStr s \<Rightarrow> if blank s then None else Some (js_trim s) | _ \<Rightarrow> None)"

definition validateFeedback :: "jsval \<Rightarrow> thrown + feedback_record" where
  "validateFeedback v =
     ensure (is_plain_object v) ValidationError
    (and_then (cloneMetadata (js_get v ''metadata'')) (\<lambda>metadata.
       Inr \<lparr>fb_verified = (js_get v ''verified'' = JBool True),
             fb_note = map_option (take 2000) (trimmed_text (js_get v ''note'')), fb_metadata = metadata\<rparr>))"

record tool_call =
  tc_id :: string
  tc_name :: string
  tc_input :: jsval

record model_response =
  mr_answer :: "string option"
  mr_confidence :: "rat option"
  mr_citations :: "string list"
  mr_calls :: "tool_call list"
  mr_escalate :: bool
  mr_reason :: "string option"

definition read_confidence :: "jsval \<Rightarrow> thrown + rat option" where
  "read_confidence v =
     (if v = JUndef \<or> v = JNull then Inr None
      else case v of
          JNum q \<Rightarrow> ensure (\<not> (q < 0 \<or> q > 1)) ValidationError (Inr (Some q))
        | _ \<Rightarrow> Inl ValidationError)"

definition citation_id :: "jsval \<Rightarrow> string option" where
  "citation_id v = (case v of
      JStr s \<Rightarrow> if s = [] then None else Some s
    | JObj _ \<Rightarrow> (case js_get v ''id'' of JStr s \<Rightarrow> if s = [] then None else Some s | _ \<Rightarrow> None)
    | _ \<Rightarrow> None)"

definition read_list :: "jsval \<Rightarrow> thrown + jsval list" where
  "read_list v = (case v of JArr vs \<Rightarrow> Inr vs | _ \<Rightarrow> Inl ValidationError)"

definition call_legal :: "jsval \<Rightarrow> bool" where
  "call_legal v \<longleftrightarrow> is_plain_object v \<and> (case js_get v ''name'' of JStr s \<Rightarrow> \<not> blank s | _ \<Rightarrow> False)"

definition read_call :: "nat \<Rightarrow> jsval \<Rightarrow> tool_call" where
  "read_call index v = \<lparr>tc_id = or_default (trimmed_text (js_get v ''id'')) (''tool-call-'' @ dec (index + 1)),
     tc_name = or_default (trimmed_text (js_get v ''name'')) [],
     tc_input = (if is_objectish (js_get v ''input'') then sanitizeDetails (js_get v ''input'') else JObj [])\<rparr>"

definition read_response :: "jsval \<Rightarrow> thrown + model_response" where
  "read_response v =
       (let answer = trimmed_text (nullish (js_get v ''answer'') (js_get v ''text''));
            escalate = (js_get v ''escalate'' = JBool True \<or> js_get v ''needsHuman'' = JBool True)
        in ensure (is_plain_object v) ValidationError
          (and_then (read_confidence (js_get v ''confidence'')) (\<lambda>confidence.
           and_then (read_list (nullish (nullish (js_get v ''citationIds'') (js_get v ''citations'')) (JArr []))) (\<lambda>citations.
           and_then (read_list (nullish (js_get v ''toolCalls'') (JArr []))) (\<lambda>calls.
           ensure (list_all call_legal calls) ValidationError
          (ensure (\<not> (answer = None \<and> calls = [] \<and> \<not> escalate)) ValidationError
            (Inr \<lparr>mr_answer = answer, mr_confidence = confidence, mr_citations = List.map_filter citation_id citations,
                  mr_calls = map (\<lambda>(n, c). read_call n c) (enumerate 0 calls), mr_escalate = escalate,
                  mr_reason = (case js_get v ''escalationReason'' of JStr s \<Rightarrow> Some (take 500 (js_trim s)) | _ \<Rightarrow> None)\<rparr>)))))))"

definition validateModelResponse :: "jsval \<Rightarrow> thrown + model_response" where
  "validateModelResponse v = (case v of
      JStr s \<Rightarrow>
        ensure (\<not> blank s) ValidationError
          (Inr \<lparr>mr_answer = Some (js_trim s), mr_confidence = None, mr_citations = [], mr_calls = [], mr_escalate = False,
                mr_reason = None\<rparr>)
    | _ \<Rightarrow> read_response v)"

record tool =
  tl_name :: string
  tl_description :: string
  tl_write :: bool
  tl_schema :: jsval

text \<open>The \<open>execute\<close> member is the function the host provides; \<open>callable\<close> says whether there is one.\<close>

definition validateTool :: "bool \<Rightarrow> jsval \<Rightarrow> thrown + tool" where
  "validateTool callable v =
     ensure (is_plain_object v) ValidationError
    (and_then (validateOptionalId (js_get v ''name'')) (\<lambda>name.
     case name of
       None \<Rightarrow> Inl ValidationError
     | Some name \<Rightarrow>
         ensure callable ValidationError
        (let mode = nullish (js_get v ''mode'') (JStr ''read'')
         in ensure (mode = JStr ''read'' \<or> mode = JStr ''write'') ValidationError
           (Inr \<lparr>tl_name = name,
                 tl_description = (case js_get v ''description'' of JStr s \<Rightarrow> js_trim s | _ \<Rightarrow> []),
                 tl_write = (mode = JStr ''write''),
                 tl_schema = (if is_plain_object (js_get v ''inputSchema'') then sanitizeDetails (js_get v ''inputSchema'')
                              else JUndef)\<rparr>))))"

record document_source =
  so_type :: string
  so_uri :: string
  so_id :: "string option"
  so_name :: "string option"
  so_updated :: jsval

record source_document =
  sd_id :: string
  sd_text :: string
  sd_title :: string
  sd_source :: document_source
  sd_metadata :: jsval

definition read_source :: "jsval \<Rightarrow> thrown + document_source" where
  "read_source v = (case v of
      JStr s \<Rightarrow> Inr \<lparr>so_type = ''unknown'', so_uri = s, so_id = None, so_name = None, so_updated = JUndef\<rparr>
    | _ \<Rightarrow>
       ensure (is_plain_object v) ValidationError
      (and_then (validateOptionalId (js_get v ''type'')) (\<lambda>kind.
       and_then (validateOptionalId (js_get v ''id'')) (\<lambda>i.
       and_then (validateOptionalId (js_get v ''uri'')) (\<lambda>uri0.
       let uri = or_else uri0 (case (kind, i) of (Some k, Some n) \<Rightarrow> Some (k @ ''://'' @ n) | _ \<Rightarrow> None)
       in case (kind, uri) of
            (Some k, Some u) \<Rightarrow>
              and_then (if js_truthy (js_get v ''name'') then validateOptionalId (js_get v ''name'') else Inr None) (\<lambda>name.
                Inr \<lparr>so_type = k, so_uri = u, so_id = i, so_name = name,
                      so_updated = sanitizeDetails (js_get v ''updatedAt'')\<rparr>)
          | _ \<Rightarrow> Inl ValidationError)))))"

definition validateDocument :: "jsval \<Rightarrow> thrown + source_document" where
  "validateDocument v =
     ensure (is_plain_object v) ValidationError
    (and_then (validateOptionalId (js_get v ''id'')) (\<lambda>i.
     case i of
       None \<Rightarrow> Inl ValidationError
     | Some i \<Rightarrow>
         (case trimmed_text (nullish (js_get v ''text'') (js_get v ''content'')) of
            None \<Rightarrow> Inl ValidationError
          | Some body \<Rightarrow>
              and_then (read_source (js_get v ''source'')) (\<lambda>source.
              and_then (cloneMetadata (js_get v ''metadata'')) (\<lambda>metadata.
                Inr \<lparr>sd_id = i, sd_text = body, sd_title = or_default (trimmed_text (js_get v ''title'')) i,
                      sd_source = source, sd_metadata = metadata\<rparr>)))))"

section \<open>What the redaction promises\<close>

fun clean :: "jsval \<Rightarrow> bool" where
  "clean (JStr s) = (\<exists>t. s = redactText t)"
| "clean (JArr vs) = list_all clean vs"
| "clean (JObj kvs) = list_all (\<lambda>p. snd p \<noteq> JUndef \<and> (SECRET_KEY_PATTERN (fst p) \<longrightarrow> snd p = JStr REDACTED) \<and> clean (snd p)) kvs"
| "clean v = True"

lemma redacted_marker: "clean (JStr REDACTED)"
proof -
  have "redactText REDACTED = REDACTED" by code_simp
  then show ?thesis unfolding clean.simps by metis
qed

lemma redaction_samples:
  "redactText ''Authorization: Bearer ab.c-1 x'' = ''Authorization: Bearer [REDACTED] x''"
  "redactText ''API-Key = k1; apikeys'' = ''API-Key = [REDACTED]; apikeys''"
  "redactText ''/q?a=1&signature=zz#f'' = ''/q?a=1&signature=[REDACTED]#f''"
  by code_simp+

text \<open>Whatever value is sanitized, at any depth of the result a member with a secret name holds only the marker, no
  member is undefined, and every string has passed the redaction of texts.\<close>

theorem sanitized_values_are_clean: "clean (sanitizeDetails v)"
proof (induction v rule: sanitizeDetails.induct)
  case (3 kvs)
  then show ?case using redacted_marker by (auto simp: list_all_iff)
qed (auto simp: list_all_iff)

definition response_sound :: "model_response \<Rightarrow> bool" where
  "response_sound r \<longleftrightarrow>
     (case mr_answer r of None \<Rightarrow> True | Some a \<Rightarrow> a \<noteq> []) \<and>
     (case mr_confidence r of None \<Rightarrow> True | Some q \<Rightarrow> 0 \<le> q \<and> q \<le> 1) \<and>
     list_all (\<lambda>c. tc_name c \<noteq> []) (mr_calls r) \<and> (mr_answer r \<noteq> None \<or> mr_calls r \<noteq> [] \<or> mr_escalate r)"

lemma trimmed_nonempty: "trimmed_text v = Some s \<Longrightarrow> s \<noteq> []"
  by (auto simp: trimmed_text_def blank_def split: jsval.splits if_splits)

lemma trimmed_legal: "call_legal v \<Longrightarrow> tc_name (read_call n v) \<noteq> []"
  by (auto simp: call_legal_def read_call_def or_default_def trimmed_text_def blank_def split: jsval.splits)

lemma map_read_calls: "list_all call_legal cs \<Longrightarrow> list_all (\<lambda>c. tc_name c \<noteq> []) (map (\<lambda>(n, c). read_call n c) (enumerate k cs))"
  by (induction cs arbitrary: k) (auto simp: trimmed_legal)

lemma confidence_range: "read_confidence v = Inr (Some q) \<Longrightarrow> 0 \<le> q \<and> q \<le> 1"
  by (auto simp: read_confidence_def ensure_Inr split: jsval.splits if_splits)

lemma read_response_sound:
  assumes "read_response v = Inr r"
  shows "response_sound r"
proof -
  define answer where "answer = trimmed_text (nullish (js_get v ''answer'') (js_get v ''text''))"
  define escalate where "escalate = (js_get v ''escalate'' = JBool True \<or> js_get v ''needsHuman'' = JBool True)"
  obtain confidence calls where r: "read_confidence (js_get v ''confidence'') = Inr confidence"
    "list_all call_legal calls" "\<not> (answer = None \<and> calls = [] \<and> \<not> escalate)"
    "mr_answer r = answer" "mr_confidence r = confidence" "mr_escalate r = escalate"
    "mr_calls r = map (\<lambda>(n, c). read_call n c) (enumerate 0 calls)"
    using assms unfolding read_response_def Let_def answer_def [symmetric] escalate_def [symmetric] accepts by fastforce
  have "calls = [] \<longleftrightarrow> mr_calls r = []"
    using r(7) by (metis enumerate_simps(1) length_0_conv length_enumerate map_is_Nil_conv)
  then show ?thesis
    using r map_read_calls [OF r(2), of 0] confidence_range trimmed_nonempty unfolding answer_def
    by (auto simp: response_sound_def split: option.split)
qed

lemma plain_answer_sound: "validateModelResponse (JStr s) = Inr r \<Longrightarrow> response_sound r"
  by (auto simp: validateModelResponse_def ensure_Inr blank_def response_sound_def)

lemma validated_response: "validateModelResponse v = Inr r \<Longrightarrow> response_sound r"
  by (cases v) (auto intro: read_response_sound plain_answer_sound simp: validateModelResponse_def)

end
