(* ===== verification/OrgPermissions.thy ===== *)
theory OrgPermissions
  imports JsMap "HOL-Library.Sublist"
begin

text \<open>
  packages/engine/src/org-permissions.ts: the permission artifact, the evaluation of tool calls
  and of context reads against it, the gate that records the denials of a turn, and the strict
  artifact validator. \<open>positions\<close> is a plain object used as a dictionary: a read of a name of
  \<open>Object.prototype\<close> yields an inherited member, on which every later field access throws. A
  position called \<open>__proto__\<close>, which the validator's assignment would turn into a prototype
  change, is kept here as an ordinary entry.
\<close>

section \<open>Types\<close>

definition ORG_PERMISSIONS_SCHEMA_VERSION :: string where
  "ORG_PERMISSIONS_SCHEMA_VERSION = ''org-permissions.v1''"

definition READ_TOOL_ALLOWLIST :: "string list" where
  "READ_TOOL_ALLOWLIST = [''Read'', ''Grep'', ''Glob'']"

datatype permission_tier = Tier_owner | Tier_worker

datatype position_mode = Mode_read_only | Mode_approval_required

text \<open>\<open>writes\<close> is the constant "deny" of the type and carries no information.\<close>

record authority_scope =
  tools_allow :: "string list"
  tools_deny :: "string list"
  delegation_allow :: bool
  delegation_targets :: "string list"
  escalate_to :: "string option"

record position_permissions =
  pp_position :: string
  pp_tier :: permission_tier
  pp_mode :: "position_mode option"
  pp_read :: "string list"
  pp_authority :: authority_scope

record org_permissions =
  op_business :: string
  op_owner :: string
  op_positions :: "(string, position_permissions) jsmap"

datatype denial_code = Authority_denied | Context_denied | Position_unknown_code

datatype permission_decision = Allowed | Denied denial_code string

datatype permission_error =
    Position_unknown string
  | Path_invalid
  | Member_undefined

section \<open>Evaluation\<close>

text \<open>\<open>None\<close> on the right is an inherited member, which is truthy and so returned.\<close>

definition permissionsFor ::
  "org_permissions \<Rightarrow> string \<Rightarrow> permission_error + position_permissions option" where
  "permissionsFor perms positionId = (case prop_read (op_positions perms) positionId of
      Own entry \<Rightarrow> Inr (Some entry)
    | Inherited \<Rightarrow> Inr None
    | Absent \<Rightarrow> Inl (Position_unknown positionId))"

definition effectiveMode :: "position_permissions \<Rightarrow> position_mode" where
  "effectiveMode entry = (case pp_mode entry of None \<Rightarrow> Mode_read_only | Some m \<Rightarrow> m)"

definition evaluateToolAuthority ::
  "org_permissions \<Rightarrow> string \<Rightarrow> string \<Rightarrow> permission_error + permission_decision" where
  "evaluateToolAuthority perms positionId tool = (case permissionsFor perms positionId of
      Inl e \<Rightarrow> Inl e
    | Inr None \<Rightarrow> Inl Member_undefined
    | Inr (Some entry) \<Rightarrow>
        (if tool \<in> set (tools_allow (pp_authority entry)) then Inr Allowed
         else Inr (Denied Authority_denied (op_owner perms))))"

definition drive_prefix :: "string \<Rightarrow> bool" where
  "drive_prefix s = (case s of
      c # d # _ \<Rightarrow> d = CHR '':'' \<and>
        (let n = of_char c :: nat in (65 \<le> n \<and> n \<le> 90) \<or> (97 \<le> n \<and> n \<le> 122))
    | _ \<Rightarrow> False)"

text \<open>The loop over the segments: empty and \<open>.\<close> are skipped, \<open>..\<close> throws.\<close>

fun collect_segments :: "string list \<Rightarrow> string list option" where
  "collect_segments [] = Some []"
| "collect_segments (s # ss) =
     (if s = [] \<or> s = ''.'' then collect_segments ss
      else if s = ''..'' then None
      else map_option ((#) s) (collect_segments ss))"

definition normalized_segments :: "string \<Rightarrow> string list option" where
  "normalized_segments requested = (let trimmed = js_trim requested in
     if trimmed = [] then None
     else if CHR 0x5C \<in> set trimmed then None
     else if drive_prefix trimmed then None
     else let withoutDot = (if starts_with trimmed ''./'' then drop 2 trimmed else trimmed);
              absolute = starts_with withoutDot ''/''
          in case collect_segments (split_on (CHR ''/'') withoutDot) of
               None \<Rightarrow> None
             | Some segments \<Rightarrow> if absolute \<and> 0 < length segments then None else Some segments)"

definition normalizeContextPath :: "string \<Rightarrow> permission_error + string" where
  "normalizeContextPath requested = (case normalized_segments requested of
      None \<Rightarrow> Inl Path_invalid
    | Some segments \<Rightarrow> Inr (''./'' @ join_with ''/'' segments))"

text \<open>One scope of the loop: \<open>scope.replace(/\/$/, "")\<close> drops one final slash.\<close>

definition drop_slash :: "string \<Rightarrow> string" where
  "drop_slash s = (if ends_with s ''/'' then butlast s else s)"

definition scope_admits :: "string \<Rightarrow> string \<Rightarrow> bool" where
  "scope_admits normalized scope =
     (if scope = ''./'' then True
      else let prefix = (if ends_with scope ''/'' then scope else scope @ ''/'')
           in normalized = drop_slash scope \<or> starts_with normalized prefix)"

definition evaluateContextAccess ::
  "org_permissions \<Rightarrow> string \<Rightarrow> string \<Rightarrow> permission_error + permission_decision" where
  "evaluateContextAccess perms positionId requestedPath =
     (case permissionsFor perms positionId of
        Inl e \<Rightarrow> Inl e
      | Inr entry \<Rightarrow>
          (case normalizeContextPath requestedPath of
             Inl e \<Rightarrow> Inl e
           | Inr normalized \<Rightarrow>
               (case entry of
                  None \<Rightarrow> Inl Member_undefined
                | Some p \<Rightarrow>
                    (if list_ex (scope_admits normalized) (pp_read p) then Inr Allowed
                     else Inr (Denied Context_denied (op_owner perms))))))"

section \<open>The gate\<close>

record denial_attempt =
  da_position :: string
  da_requested :: string
  da_code :: denial_code
  da_redirect :: string

record permission_summary =
  ps_allow :: nat
  ps_deny :: nat
  ps_codes :: "denial_code list"
  ps_redirects :: "string list"

record permission_gate =
  pg_denials :: "denial_attempt list"
  pg_allow :: nat

definition new_gate :: permission_gate where
  "new_gate = \<lparr>pg_denials = [], pg_allow = 0\<rparr>"

definition gate_check_position :: "org_permissions \<Rightarrow> string \<Rightarrow> bool" where
  "gate_check_position perms positionId = (case prop_read (op_positions perms) positionId of
      Absent \<Rightarrow> False | _ \<Rightarrow> True)"

definition gate_record :: "string \<Rightarrow> string \<Rightarrow> permission_decision \<Rightarrow> permission_gate \<Rightarrow> permission_gate" where
  "gate_record positionId requested d g = (case d of
      Allowed \<Rightarrow> g\<lparr>pg_allow := pg_allow g + 1\<rparr>
    | Denied code redirect \<Rightarrow>
        g\<lparr>pg_denials := pg_denials g @ [\<lparr>da_position = positionId, da_requested = requested,
                                         da_code = code, da_redirect = redirect\<rparr>]\<rparr>)"

definition gate_context_read ::
  "org_permissions \<Rightarrow> string \<Rightarrow> string \<Rightarrow> permission_gate \<Rightarrow> permission_decision \<times> permission_gate" where
  "gate_context_read perms positionId requestedPath g =
     (let d = (case evaluateContextAccess perms positionId requestedPath of
                 Inr d \<Rightarrow> d | Inl _ \<Rightarrow> Denied Context_denied (op_owner perms))
      in (d, gate_record positionId requestedPath d g))"

definition gate_tool_call ::
  "org_permissions \<Rightarrow> string \<Rightarrow> string \<Rightarrow> permission_gate \<Rightarrow> permission_decision \<times> permission_gate" where
  "gate_tool_call perms positionId tool g =
     (let d = (case evaluateToolAuthority perms positionId tool of
                 Inr d \<Rightarrow> d | Inl _ \<Rightarrow> Denied Authority_denied (op_owner perms))
      in (d, gate_record positionId tool d g))"

definition gate_summary :: "permission_gate \<Rightarrow> permission_summary" where
  "gate_summary g = \<lparr>ps_allow = pg_allow g, ps_deny = length (pg_denials g),
     ps_codes = uniq (map da_code (pg_denials g)),
     ps_redirects = uniq (map da_redirect (pg_denials g))\<rparr>"

section \<open>The artifact validator\<close>

text \<open>\<open>!Array.isArray(v) || v.some(x => typeof x !== "string" || x.length === 0)\<close>, negated.\<close>

fun nonempty_strings :: "jsval list \<Rightarrow> string list option" where
  "nonempty_strings [] = Some []"
| "nonempty_strings (v # vs) = (case js_str v of
      None \<Rightarrow> None
    | Some s \<Rightarrow> if s = [] then None else map_option ((#) s) (nonempty_strings vs))"

definition string_list :: "jsval \<Rightarrow> string list option" where
  "string_list v = (case v of JArr vs \<Rightarrow> nonempty_strings vs | _ \<Rightarrow> None)"

definition tier_of :: "jsval \<Rightarrow> permission_tier option" where
  "tier_of v = (if v = JStr ''owner'' then Some Tier_owner
                else if v = JStr ''worker'' then Some Tier_worker else None)"

definition mode_of :: "jsval \<Rightarrow> position_mode option option" where
  "mode_of v = (if v = JUndef then Some None
                else if v = JStr ''read_only'' then Some (Some Mode_read_only)
                else if v = JStr ''approval_required'' then Some (Some Mode_approval_required)
                else None)"

definition escalate_of :: "jsval \<Rightarrow> string option option" where
  "escalate_of v = (case v of JNull \<Rightarrow> Some None | JStr s \<Rightarrow> Some (Some s) | _ \<Rightarrow> None)"

definition validate_authority :: "string \<Rightarrow> jsval \<Rightarrow> string + authority_scope" where
  "validate_authority i authority =
     (if \<not> is_plain_object authority then Inl (''authority_scope:'' @ i)
      else if js_get authority ''writes'' \<noteq> JStr ''deny'' then Inl (''writes:'' @ i)
      else let tools = js_get authority ''tools'' in
      if \<not> is_plain_object tools then Inl (''tools:'' @ i)
      else (case string_list (js_get tools ''allow'') of
          None \<Rightarrow> Inl (''tools_allow:'' @ i)
        | Some allow \<Rightarrow>
      (case string_list (js_get tools ''deny'') of
          None \<Rightarrow> Inl (''tools_deny:'' @ i)
        | Some deny \<Rightarrow>
      let delegation = js_get authority ''delegation'' in
      if \<not> is_plain_object delegation then Inl (''delegation:'' @ i)
      else (case js_bool (js_get delegation ''allow'') of
          None \<Rightarrow> Inl (''delegation_allow:'' @ i)
        | Some dallow \<Rightarrow>
      (case string_list (js_get delegation ''targets'') of
          None \<Rightarrow> Inl (''delegation_targets:'' @ i)
        | Some targets \<Rightarrow>
      (case escalate_of (js_get delegation ''escalateTo'') of
          None \<Rightarrow> Inl (''delegation_escalate:'' @ i)
        | Some esc \<Rightarrow>
            Inr \<lparr>tools_allow = allow, tools_deny = deny, delegation_allow = dallow,
                 delegation_targets = targets, escalate_to = esc\<rparr>))))))"

definition validate_position :: "string \<Rightarrow> jsval \<Rightarrow> string + position_permissions" where
  "validate_position i p =
     (if \<not> is_plain_object p then Inl (''position:'' @ i)
      else if js_get p ''position'' \<noteq> JStr i then Inl (''position_mismatch:'' @ i)
      else (case tier_of (js_get p ''tier'') of
          None \<Rightarrow> Inl (''tier:'' @ i)
        | Some tier \<Rightarrow>
      (case mode_of (js_get p ''mode'') of
          None \<Rightarrow> Inl (''mode:'' @ i)
        | Some mode \<Rightarrow>
      let contextScope = js_get p ''contextScope'' in
      if \<not> is_plain_object contextScope then Inl (''context_scope:'' @ i)
      else (case string_list (js_get contextScope ''read'') of
          None \<Rightarrow> Inl (''context_scope_read:'' @ i)
        | Some read \<Rightarrow>
      (case validate_authority i (js_get p ''authorityScope'') of
          Inl e \<Rightarrow> Inl e
        | Inr authority \<Rightarrow>
            Inr \<lparr>pp_position = i, pp_tier = tier, pp_mode = mode, pp_read = read,
                 pp_authority = authority\<rparr>)))))"

fun validate_positions ::
  "(string \<times> jsval) list \<Rightarrow> (string, position_permissions) jsmap \<Rightarrow>
   string + (string, position_permissions) jsmap" where
  "validate_positions [] validated = Inr validated"
| "validate_positions ((i, entry) # entries) validated = (case validate_position i entry of
      Inl e \<Rightarrow> Inl e
    | Inr p \<Rightarrow> validate_positions entries (map_set validated i p))"

definition object_entries :: "jsval \<Rightarrow> (string \<times> jsval) list" where
  "object_entries v = (case v of JObj kvs \<Rightarrow> kvs | _ \<Rightarrow> [])"

definition nonempty_str :: "jsval \<Rightarrow> string option" where
  "nonempty_str v = (case js_str v of
      None \<Rightarrow> None | Some s \<Rightarrow> if s = [] then None else Some s)"

definition validateOrganizationPermissionsArtifact :: "jsval \<Rightarrow> string + org_permissions" where
  "validateOrganizationPermissionsArtifact v =
     (if \<not> is_plain_object v then Inl ''not_an_object''
      else if js_get v ''schemaVersion'' \<noteq> JStr ORG_PERMISSIONS_SCHEMA_VERSION
      then Inl ''schema_version''
      else (case nonempty_str (js_get v ''business'') of
          None \<Rightarrow> Inl ''business''
        | Some business \<Rightarrow>
      (case nonempty_str (js_get v ''owner'') of
          None \<Rightarrow> Inl ''owner''
        | Some owner \<Rightarrow>
      let positions = js_get v ''positions'' in
      if \<not> is_plain_object positions then Inl ''positions''
      else (case validate_positions (object_entries positions) [] of
          Inl e \<Rightarrow> Inl e
        | Inr validated \<Rightarrow>
            Inr \<lparr>op_business = business, op_owner = owner, op_positions = validated\<rparr>))))"

text \<open>The JSON artifact of a permission table, as \<open>org apply\<close> writes it.\<close>

definition strings_json :: "string list \<Rightarrow> jsval" where
  "strings_json ss = JArr (map JStr ss)"

definition authority_json :: "authority_scope \<Rightarrow> jsval" where
  "authority_json a = JObj
     [(''writes'', JStr ''deny''),
      (''tools'', JObj [(''allow'', strings_json (tools_allow a)), (''deny'', strings_json (tools_deny a))]),
      (''delegation'', JObj [(''allow'', JBool (delegation_allow a)),
         (''targets'', strings_json (delegation_targets a)),
         (''escalateTo'', case escalate_to a of None \<Rightarrow> JNull | Some s \<Rightarrow> JStr s)])]"

definition mode_json :: "position_mode \<Rightarrow> jsval" where
  "mode_json m = JStr (case m of Mode_read_only \<Rightarrow> ''read_only''
                       | Mode_approval_required \<Rightarrow> ''approval_required'')"

definition position_json :: "position_permissions \<Rightarrow> jsval" where
  "position_json p = JObj
     ([(''position'', JStr (pp_position p)),
       (''tier'', JStr (case pp_tier p of Tier_owner \<Rightarrow> ''owner'' | Tier_worker \<Rightarrow> ''worker''))]
      @ (case pp_mode p of None \<Rightarrow> [] | Some m \<Rightarrow> [(''mode'', mode_json m)])
      @ [(''contextScope'', JObj [(''read'', strings_json (pp_read p))]),
         (''authorityScope'', authority_json (pp_authority p))])"

definition artifact_json :: "org_permissions \<Rightarrow> jsval" where
  "artifact_json perms = JObj
     [(''schemaVersion'', JStr ORG_PERMISSIONS_SCHEMA_VERSION),
      (''business'', JStr (op_business perms)),
      (''owner'', JStr (op_owner perms)),
      (''positions'', JObj (map (\<lambda>(i, p). (i, position_json p)) (op_positions perms)))]"

definition authority_wf :: "authority_scope \<Rightarrow> bool" where
  "authority_wf a \<longleftrightarrow> [] \<notin> set (tools_allow a) \<and> [] \<notin> set (tools_deny a) \<and>
     [] \<notin> set (delegation_targets a)"

definition permissions_wf :: "org_permissions \<Rightarrow> bool" where
  "permissions_wf perms \<longleftrightarrow> op_business perms \<noteq> [] \<and> op_owner perms \<noteq> [] \<and>
     map_wf (op_positions perms) \<and>
     list_all (\<lambda>(i, p). pp_position p = i \<and> [] \<notin> set (pp_read p) \<and> authority_wf (pp_authority p))
       (op_positions perms)"

section \<open>The validator accepts exactly the well-formed tables\<close>

lemma nonempty_strings_map: "[] \<notin> set ss \<Longrightarrow> nonempty_strings (map JStr ss) = Some ss"
  by (induction ss) auto

lemma nonempty_strings_ok: "nonempty_strings vs = Some ss \<Longrightarrow> [] \<notin> set ss \<and> vs = map JStr ss"
proof (induction vs arbitrary: ss)
  case Nil
  then show ?case by simp
next
  case (Cons v vs)
  then show ?case by (cases v) (auto split: if_splits)
qed

lemma string_list_json: "[] \<notin> set ss \<Longrightarrow> string_list (strings_json ss) = Some ss"
  by (simp add: string_list_def strings_json_def nonempty_strings_map)

lemma string_list_ok: "string_list v = Some ss \<Longrightarrow> [] \<notin> set ss"
  by (auto simp: string_list_def dest: nonempty_strings_ok split: jsval.splits)

lemma validate_authority_json:
  "authority_wf a \<Longrightarrow> validate_authority i (authority_json a) = Inr a"
  by (cases "escalate_to a")
     (simp_all add: validate_authority_def authority_json_def authority_wf_def string_list_json
       escalate_of_def)

lemma validate_position_json:
  assumes "[] \<notin> set (pp_read p)" "authority_wf (pp_authority p)"
  shows "validate_position (pp_position p) (position_json p) = Inr p"
proof -
  have "tier_of (JStr (case pp_tier p of Tier_owner \<Rightarrow> ''owner'' | Tier_worker \<Rightarrow> ''worker'')) = Some (pp_tier p)"
    by (cases "pp_tier p") (simp_all add: tier_of_def)
  moreover have "mode_of (js_get (position_json p) ''mode'') = Some (pp_mode p)"
    by (auto simp: mode_of_def mode_json_def position_json_def split: option.split position_mode.split)
  moreover have "js_get (position_json p) ''contextScope'' = JObj [(''read'', strings_json (pp_read p))]"
    "js_get (position_json p) ''authorityScope'' = authority_json (pp_authority p)"
    by (auto simp: position_json_def split: option.split)
  moreover have "js_get (position_json p) ''position'' = JStr (pp_position p)"
    "js_get (position_json p) ''tier'' = JStr (case pp_tier p of Tier_owner \<Rightarrow> ''owner'' | Tier_worker \<Rightarrow> ''worker'')"
    "is_plain_object (position_json p)"
    by (simp_all add: position_json_def)
  ultimately show ?thesis using assms
    by (simp add: validate_position_def string_list_json validate_authority_json)
qed

lemma map_set_append: "k \<notin> fst ` set m \<Longrightarrow> map_set m k v = m @ [(k, v)]"
  by (induction m) auto

lemma validate_positions_json:
  "distinct (map fst (acc @ ps)) \<Longrightarrow>
   \<forall>(i, p) \<in> set ps. pp_position p = i \<and> [] \<notin> set (pp_read p) \<and> authority_wf (pp_authority p) \<Longrightarrow>
   validate_positions (map (\<lambda>(i, p). (i, position_json p)) ps) acc = Inr (acc @ ps)"
proof (induction ps arbitrary: acc)
  case Nil
  then show ?case by simp
next
  case (Cons q ps)
  obtain i p where q: "q = (i, p)" by force
  have "validate_position i (position_json p) = Inr p"
    using Cons.prems(2) q validate_position_json by auto
  moreover have "map_set acc i p = acc @ [(i, p)]"
    using Cons.prems(1) q by (intro map_set_append) auto
  moreover have "validate_positions (map (\<lambda>(i, p). (i, position_json p)) ps) (acc @ [(i, p)])
      = Inr ((acc @ [(i, p)]) @ ps)"
    using Cons.prems q by (intro Cons.IH) auto
  ultimately show ?case using q by simp
qed

lemma validate_authority_wf: "validate_authority i v = Inr a \<Longrightarrow> authority_wf a"
  by (auto simp: validate_authority_def authority_wf_def Let_def
      dest: string_list_ok split: if_splits option.splits)

lemma validate_position_wf:
  "validate_position i v = Inr p \<Longrightarrow>
   pp_position p = i \<and> [] \<notin> set (pp_read p) \<and> authority_wf (pp_authority p)"
  by (auto simp: validate_position_def Let_def dest: string_list_ok validate_authority_wf
      split: if_splits option.splits sum.splits)

lemma map_set_all:
  assumes "list_all P m" and "P (k, v)"
  shows "list_all P (map_set m k v)"
  using assms by (induction m) auto

lemma validate_positions_wf:
  "validate_positions es acc = Inr ps \<Longrightarrow> map_wf acc \<Longrightarrow>
   list_all (\<lambda>(i, p). pp_position p = i \<and> [] \<notin> set (pp_read p) \<and> authority_wf (pp_authority p)) acc \<Longrightarrow>
   map_wf ps \<and>
   list_all (\<lambda>(i, p). pp_position p = i \<and> [] \<notin> set (pp_read p) \<and> authority_wf (pp_authority p)) ps"
proof (induction es acc rule: validate_positions.induct)
  case (1 acc)
  then show ?case by simp
next
  case (2 i entry es acc)
  then obtain p where p: "validate_position i entry = Inr p"
    by (auto split: sum.splits)
  show ?case
    using 2 p validate_position_wf [OF p] by (simp add: map_wf_set map_set_all)
qed

lemma validated_artifact_wf:
  "validateOrganizationPermissionsArtifact v = Inr perms \<Longrightarrow> permissions_wf perms"
  by (auto simp: validateOrganizationPermissionsArtifact_def permissions_wf_def nonempty_str_def Let_def
      dest: validate_positions_wf split: if_splits option.splits sum.splits)

lemma artifact_round_trip:
  assumes "permissions_wf perms"
  shows "validateOrganizationPermissionsArtifact (artifact_json perms) = Inr perms"
proof -
  have "validate_positions (map (\<lambda>(i, p). (i, position_json p)) (op_positions perms)) []
      = Inr ([] @ op_positions perms)"
    using assms by (intro validate_positions_json) (auto simp: permissions_wf_def map_wf_def list_all_iff)
  then show ?thesis using assms
    by (simp add: validateOrganizationPermissionsArtifact_def artifact_json_def nonempty_str_def
        object_entries_def permissions_wf_def)
qed

section \<open>Paths: a directory scope admits exactly its subtree\<close>

text \<open>A segment the normalizer lets through.\<close>

definition plain_segment :: "string \<Rightarrow> bool" where
  "plain_segment s \<longleftrightarrow> s \<noteq> [] \<and> s \<noteq> ''.'' \<and> s \<noteq> ''..'' \<and> CHR ''/'' \<notin> set s"

text \<open>The scope of a directory, as derived for a position: \<open>./a/b/\<close>, and \<open>./\<close> for the root.\<close>

definition dir_scope :: "string list \<Rightarrow> string" where
  "dir_scope ds = ''./'' @ concat (map (\<lambda>d. d @ ''/'') ds)"

lemma collect_segments_plain:
  "collect_segments ss = Some segs \<Longrightarrow> \<forall>s \<in> set ss. CHR ''/'' \<notin> set s \<Longrightarrow> list_all plain_segment segs"
  by (induction ss arbitrary: segs) (auto simp: plain_segment_def split: if_splits)

lemma normalized_segments_plain:
  "normalized_segments r = Some segs \<Longrightarrow> list_all plain_segment segs"
  by (auto simp: normalized_segments_def Let_def split: if_splits option.splits
      dest!: collect_segments_plain dest: split_on_no_sep)

lemma concat_slash_join: "ds \<noteq> [] \<Longrightarrow> concat (map (\<lambda>d. d @ ''/'') ds) = join_with ''/'' ds @ ''/''"
  by (induction "''/'' :: string" ds rule: join_with.induct) auto

lemma join_with_append:
  "as \<noteq> [] \<Longrightarrow> bs \<noteq> [] \<Longrightarrow> join_with sep (as @ bs) = join_with sep as @ sep @ join_with sep bs"
  by (induction sep as rule: join_with.induct) (auto simp: neq_Nil_conv)

lemma join_starts_dir:
  assumes "list_all plain_segment ds" "list_all plain_segment segs" "ds \<noteq> []" "segs \<noteq> []"
  shows "starts_with (join_with ''/'' segs) (join_with ''/'' ds @ ''/'') \<longleftrightarrow> strict_prefix ds segs"
proof
  assume "starts_with (join_with ''/'' segs) (join_with ''/'' ds @ ''/'')"
  then obtain t where t: "join_with ''/'' segs = join_with ''/'' ds @ CHR ''/'' # t"
    by (auto simp: starts_with_append)
  have "segs = split_on (CHR ''/'') (join_with ''/'' segs)"
    using assms by (intro split_join [symmetric]) (auto simp: plain_segment_def list_all_iff)
  also have "\<dots> = split_on (CHR ''/'') (join_with ''/'' ds) @ split_on (CHR ''/'') t"
    unfolding t by (rule split_on_append)
  also have "split_on (CHR ''/'') (join_with ''/'' ds) = ds"
    using assms by (intro split_join) (auto simp: plain_segment_def list_all_iff)
  finally show "strict_prefix ds segs" by (simp add: strict_prefix_def)
next
  assume "strict_prefix ds segs"
  then obtain e es where "segs = ds @ e # es" by (auto elim: strict_prefixE')
  then show "starts_with (join_with ''/'' segs) (join_with ''/'' ds @ ''/'')"
    using assms by (auto simp: join_with_append starts_with_append)
qed

lemma join_inj:
  assumes "list_all plain_segment ds" "list_all plain_segment segs" "ds \<noteq> []" "segs \<noteq> []"
  shows "join_with ''/'' segs = join_with ''/'' ds \<longleftrightarrow> segs = ds"
  using assms split_join [of segs "CHR ''/''"] split_join [of ds "CHR ''/''"]
  by (metis (no_types, lifting) list_all_iff plain_segment_def)

lemma join_nonempty: "list_all plain_segment ds \<Longrightarrow> ds \<noteq> [] \<Longrightarrow> join_with ''/'' ds \<noteq> []"
  by (cases "(''/'', ds)" rule: join_with.cases) (auto simp: plain_segment_def)

lemma drop_slash_slash: "drop_slash (s @ ''/'') = s"
  by (simp add: drop_slash_def ends_with_append)

lemma scope_admits_dir:
  assumes ds: "list_all plain_segment ds" and segs: "list_all plain_segment segs"
  shows "scope_admits (''./'' @ join_with ''/'' segs) (dir_scope ds) \<longleftrightarrow> prefix ds segs"
proof (cases "ds = []")
  case True
  then show ?thesis by (simp add: scope_admits_def dir_scope_def)
next
  case False
  let ?d = "join_with ''/'' ds"
  have eq: "dir_scope ds = (''./'' @ ?d) @ ''/''"
    using False by (simp add: dir_scope_def concat_slash_join)
  have ne: "?d \<noteq> []" using ds False by (rule join_nonempty)
  have "scope_admits (''./'' @ join_with ''/'' segs) (dir_scope ds) \<longleftrightarrow>
      join_with ''/'' segs = ?d \<or> starts_with (join_with ''/'' segs) (?d @ ''/'')"
    unfolding scope_admits_def eq drop_slash_slash Let_def
    using ne by (auto simp: ends_with_append starts_with_append)
  also have "\<dots> \<longleftrightarrow> prefix ds segs"
  proof (cases "segs = []")
    case True
    then show ?thesis using False ne by (auto simp: starts_with_append)
  next
    case segs_ne: False
    show ?thesis
      unfolding join_starts_dir [OF ds segs False segs_ne] join_inj [OF ds segs False segs_ne]
      by auto
  qed
  finally show ?thesis .
qed

lemma context_access_dirs:
  assumes "map_get (op_positions perms) i = Some p"
    and "pp_read p = map dir_scope dss" and "list_all (list_all plain_segment) dss"
  shows "evaluateContextAccess perms i requested = (case normalized_segments requested of
      None \<Rightarrow> Inl Path_invalid
    | Some segs \<Rightarrow> Inr (if list_ex (\<lambda>ds. prefix ds segs) dss then Allowed
                        else Denied Context_denied (op_owner perms)))"
proof (cases "normalized_segments requested")
  case None
  with assms(1) show ?thesis
    by (simp add: evaluateContextAccess_def permissionsFor_def prop_read_def normalizeContextPath_def)
next
  case (Some segs)
  note plain = normalized_segments_plain [OF Some]
  have "list_ex (scope_admits (''./'' @ join_with ''/'' segs)) (map dir_scope dss)
      \<longleftrightarrow> list_ex (\<lambda>ds. prefix ds segs) dss"
    using assms(3) scope_admits_dir [OF _ plain] by (auto simp: list_ex_iff list_all_iff)
  with assms Some show ?thesis
    by (simp add: evaluateContextAccess_def permissionsFor_def prop_read_def normalizeContextPath_def)
qed

section \<open>The gate as a machine\<close>

datatype gate_request =
    Read_context string string
  | Call_tool string string

definition gate_decide :: "org_permissions \<Rightarrow> gate_request \<Rightarrow> permission_decision" where
  "gate_decide perms r = (case r of
      Read_context i path \<Rightarrow> fst (gate_context_read perms i path new_gate)
    | Call_tool i tool \<Rightarrow> fst (gate_tool_call perms i tool new_gate))"

definition gate_step :: "org_permissions \<Rightarrow> gate_request \<Rightarrow> permission_gate \<Rightarrow> permission_gate" where
  "gate_step perms r g = (case r of
      Read_context i path \<Rightarrow> snd (gate_context_read perms i path g)
    | Call_tool i tool \<Rightarrow> snd (gate_tool_call perms i tool g))"

definition gate_run :: "org_permissions \<Rightarrow> gate_request list \<Rightarrow> permission_gate" where
  "gate_run perms rs = fold (gate_step perms) rs new_gate"

definition gate_inv :: "org_permissions \<Rightarrow> permission_gate \<Rightarrow> bool" where
  "gate_inv perms g \<longleftrightarrow> (\<forall>a \<in> set (pg_denials g). da_redirect a = op_owner perms)"

definition gate_below :: "permission_gate \<Rightarrow> permission_gate \<Rightarrow> bool" where
  "gate_below g h \<longleftrightarrow> prefix (pg_denials g) (pg_denials h) \<and> pg_allow g \<le> pg_allow h"

lemma evaluate_redirects:
  "evaluateContextAccess perms i path = Inr (Denied c r) \<Longrightarrow> r = op_owner perms \<and> c = Context_denied"
  "evaluateToolAuthority perms i tool = Inr (Denied c r) \<Longrightarrow> r = op_owner perms \<and> c = Authority_denied"
  by (auto simp: evaluateContextAccess_def evaluateToolAuthority_def
      split: sum.splits option.splits if_splits)

lemma gate_step_record:
  "\<exists>i q d. gate_step perms r g = gate_record i q d g \<and> gate_decide perms r = d \<and>
     (case d of Allowed \<Rightarrow> True | Denied c red \<Rightarrow> red = op_owner perms)"
  by (cases r)
     (auto simp: gate_step_def gate_decide_def gate_context_read_def gate_tool_call_def Let_def
       dest: evaluate_redirects split: permission_decision.split sum.split)

interpretation gate: mono_machine new_gate "gate_step perms" "gate_inv perms" gate_below for perms
proof unfold_locales
  show "gate_inv perms new_gate" by (simp add: gate_inv_def new_gate_def)
  show "gate_inv perms (gate_step perms r g)" if "gate_inv perms g" for r g
    using that gate_step_record [of perms r g]
    by (auto simp: gate_inv_def gate_record_def split: permission_decision.splits)
  show "gate_below g g" for g by (simp add: gate_below_def)
  show "gate_below f h" if "gate_below f g" "gate_below g h" for f g h
    using that by (auto simp: gate_below_def)
  show "gate_below g (gate_step perms r g)" for r g
    using gate_step_record [of perms r g]
    by (auto simp: gate_below_def gate_record_def split: permission_decision.splits)
qed

lemma gate_step_counts:
  "pg_allow (gate_step perms r g) = pg_allow g + (if gate_decide perms r = Allowed then 1 else 0)"
  "length (pg_denials (gate_step perms r g)) =
     length (pg_denials g) + (if gate_decide perms r = Allowed then 0 else 1)"
  using gate_step_record [of perms r g]
  by (auto simp: gate_record_def split: permission_decision.splits)

lemma gate_fold_counts:
  "pg_allow (fold (gate_step perms) rs g) =
     pg_allow g + length (filter (\<lambda>r. gate_decide perms r = Allowed) rs)"
  "length (pg_denials (fold (gate_step perms) rs g)) =
     length (pg_denials g) + length (filter (\<lambda>r. gate_decide perms r \<noteq> Allowed) rs)"
  by (induction rs arbitrary: g) (auto simp: gate_step_counts)

section \<open>Properties\<close>

text \<open>a position whose read scopes are directories may read a path exactly when the path
  normalizes and one of the directories is a segment-wise prefix of it; a path that leaves the
  workspace fails closed and a denial points at the owner.\<close>

theorem directory_scopes_admit_exactly_their_subtrees:
  assumes "map_get (op_positions perms) i = Some p"
    and "pp_read p = map dir_scope dss" and "list_all (list_all plain_segment) dss"
  shows "evaluateContextAccess perms i requested = (case normalized_segments requested of
      None \<Rightarrow> Inl Path_invalid
    | Some segs \<Rightarrow> Inr (if list_ex (\<lambda>ds. prefix ds segs) dss then Allowed
                        else Denied Context_denied (op_owner perms)))"
  using assms by (rule context_access_dirs)

definition sample_permissions :: org_permissions where
  "sample_permissions = \<lparr>op_business = ''acme'', op_owner = ''lead'',
     op_positions = [(''lead'', \<lparr>pp_position = ''lead'', pp_tier = Tier_owner, pp_mode = None,
         pp_read = [''./''], pp_authority = \<lparr>tools_allow = READ_TOOL_ALLOWLIST, tools_deny = [],
           delegation_allow = True, delegation_targets = [''faq''], escalate_to = None\<rparr>\<rparr>),
       (''faq'', \<lparr>pp_position = ''faq'', pp_tier = Tier_worker, pp_mode = Some Mode_read_only,
         pp_read = [''./positions/faq/'', ''./context/''],
         pp_authority = \<lparr>tools_allow = [''Read''], tools_deny = [''Grep'', ''Glob''],
           delegation_allow = False, delegation_targets = [], escalate_to = Some ''lead''\<rparr>\<rparr>)]\<rparr>"

theorem directory_scopes_admit_exactly_their_subtrees_witness:
  "evaluateContextAccess sample_permissions ''faq'' ''positions/faq/../lead''
     = Inl Path_invalid
   \<and> evaluateContextAccess sample_permissions ''faq'' ''./positions/faq2/notes''
     = Inr (Denied Context_denied ''lead'')
   \<and> evaluateContextAccess sample_permissions ''faq'' ''./positions//faq/./notes'' = Inr Allowed"
proof -
  let ?p = "snd (op_positions sample_permissions ! 1)"
  let ?d = "[[''positions'', ''faq''], [''context'']]"
  have h: "map_get (op_positions sample_permissions) ''faq'' = Some ?p"
    "pp_read ?p = map dir_scope ?d" "list_all (list_all plain_segment) ?d"
    by (simp_all add: sample_permissions_def map_get_def dir_scope_def plain_segment_def)
  note t = directory_scopes_admit_exactly_their_subtrees [OF h]
  have "normalized_segments ''positions/faq/../lead'' = None"
    "normalized_segments ''./positions/faq2/notes'' = Some [''positions'', ''faq2'', ''notes'']"
    "normalized_segments ''./positions//faq/./notes'' = Some [''positions'', ''faq'', ''notes'']"
    by code_simp+
  then show ?thesis unfolding t by (simp add: sample_permissions_def)
qed

text \<open>Whatever path is requested, the normalized path has no empty, dot or parent segment:
  it is the workspace root followed by plain segments.\<close>

theorem normalized_paths_stay_inside_the_workspace:
  "case normalizeContextPath requested of
     Inl e \<Rightarrow> e = Path_invalid \<and> normalized_segments requested = None
   | Inr path \<Rightarrow> (case normalized_segments requested of
       None \<Rightarrow> False
     | Some segs \<Rightarrow> path = ''./'' @ join_with ''/'' segs \<and> list_all plain_segment segs \<and>
         (segs = [] \<or> split_on (CHR ''/'') path = ''.'' # segs))"
proof (cases "normalized_segments requested")
  case None
  then show ?thesis by (simp add: normalizeContextPath_def)
next
  case (Some segs)
  note plain = normalized_segments_plain [OF Some]
  have "split_on (CHR ''/'') (join_with ''/'' segs) = segs" if "segs \<noteq> []"
    using that plain by (intro split_join) (auto simp: plain_segment_def list_all_iff)
  then show ?thesis using Some plain by (auto simp: normalizeContextPath_def)
qed

text \<open>over any sequence of requests the gate allows exactly the requests the permission
  table allows, counts every other one as a denial, never forgets a denial, and every denial
  redirects to the owner.\<close>

theorem gate_accounts_for_every_request:
  "ps_allow (gate_summary (gate_run perms rs)) =
     length (filter (\<lambda>r. gate_decide perms r = Allowed) rs)
   \<and> ps_allow (gate_summary (gate_run perms rs)) + ps_deny (gate_summary (gate_run perms rs))
     = length rs
   \<and> set (ps_redirects (gate_summary (gate_run perms rs))) \<subseteq> {op_owner perms}
   \<and> prefix (pg_denials (gate_run perms rs)) (pg_denials (gate_run perms (rs @ later)))"
proof -
  have "gate_inv perms (gate_run perms rs)"
    unfolding gate_run_def by (rule gate.invar_run)
  then have "set (ps_redirects (gate_summary (gate_run perms rs))) \<subseteq> {op_owner perms}"
    by (auto simp: gate_summary_def gate_inv_def)
  moreover have "prefix (pg_denials (gate_run perms rs)) (pg_denials (gate_run perms (rs @ later)))"
    using gate.below_later [of perms rs later] by (simp add: gate_run_def gate_below_def)
  moreover have "length (filter (\<lambda>r. gate_decide perms r = Allowed) rs)
      + length (filter (\<lambda>r. gate_decide perms r \<noteq> Allowed) rs) = length rs"
    by (rule sum_length_filter_compl)
  ultimately show ?thesis
    by (simp add: gate_summary_def gate_run_def gate_fold_counts new_gate_def)
qed

text \<open>The strict validator accepts what it writes: the artifact of a well-formed permission
  table validates to that table, and everything it accepts is well-formed.\<close>

theorem permission_artifact_round_trip:
  "(permissions_wf perms \<longrightarrow> validateOrganizationPermissionsArtifact (artifact_json perms) = Inr perms)
   \<and> (case validateOrganizationPermissionsArtifact v of
        Inl _ \<Rightarrow> True
      | Inr accepted \<Rightarrow> permissions_wf accepted \<and>
          validateOrganizationPermissionsArtifact (artifact_json accepted) = Inr accepted)"
  using artifact_round_trip validated_artifact_wf by (auto split: sum.split)

theorem permission_artifact_round_trip_witness:
  "permissions_wf sample_permissions \<and>
   validateOrganizationPermissionsArtifact (artifact_json sample_permissions) = Inr sample_permissions"
proof -
  have "permissions_wf sample_permissions" by code_simp
  with permission_artifact_round_trip [of sample_permissions JNull] show ?thesis by simp
qed

end
