(* ===== verification/Budget.thy ===== *)
theory Budget
  imports JsMap
begin

text \<open>
  packages/engine/src/budget.ts: the budget declaration and its fail-closed validation, the
  check of an increment against the caps (day scope first), and the in-memory reference
  ledger behind \<open>BudgetLedgerPort\<close>. Counts are integers.
\<close>

definition MAX_BUDGET_CAP :: int where
  "MAX_BUDGET_CAP = 1000000000"

record budget_scope =
  scope_tokens :: "int option"
  scope_iterations :: "int option"

record position_budget =
  per_task :: budget_scope
  per_day :: budget_scope

record budget_usage =
  task_used_tokens :: int
  task_used_iterations :: int
  day_used_tokens :: int
  day_used_iterations :: int

datatype budget_dimension =
    Position_day_tokens
  | Position_day_iterations
  | Position_task_tokens
  | Position_task_iterations
  | Turn_tokens
  | Turn_iterations

record budget_exceeded =
  be_dimension :: budget_dimension
  be_used :: int
  be_limit :: int

datatype budget_error =
    Budget_missing
  | Budget_not_allocated
  | Budget_invalid

definition isPositiveBoundedInt :: "jsval \<Rightarrow> bool" where
  "isPositiveBoundedInt v = (case js_int v of
      None \<Rightarrow> False
    | Some n \<Rightarrow> 0 < n \<and> n \<le> MAX_BUDGET_CAP)"

definition scopeAllocated :: "jsval \<Rightarrow> bool" where
  "scopeAllocated scope =
     (isPositiveBoundedInt (js_get scope ''tokens'') \<or>
      isPositiveBoundedInt (js_get scope ''iterations''))"

text \<open>The loop over one scope's keys: the first illegal key or value rejects.\<close>

definition scope_keys_legal :: "jsval \<Rightarrow> bool" where
  "scope_keys_legal scope =
     list_all (\<lambda>key. (key = ''tokens'' \<or> key = ''iterations'') \<and>
                     isPositiveBoundedInt (js_get scope key)) (js_keys scope)"

definition scope_of :: "jsval \<Rightarrow> budget_scope" where
  "scope_of scope = \<lparr>scope_tokens = js_int (js_get scope ''tokens''),
                     scope_iterations = js_int (js_get scope ''iterations'')\<rparr>"

definition validatePositionBudgetDeclaration :: "jsval \<Rightarrow> budget_error + position_budget" where
  "validatePositionBudgetDeclaration v =
     (if \<not> is_plain_object v then Inl Budget_missing
      else let perTask = js_get v ''perTask''; perDay = js_get v ''perDay'' in
        if \<not> is_plain_object perTask \<or> \<not> is_plain_object perDay then Inl Budget_not_allocated
        else if \<not> scope_keys_legal perTask \<or> \<not> scope_keys_legal perDay then Inl Budget_invalid
        else if \<not> scopeAllocated perTask \<or> \<not> scopeAllocated perDay then Inl Budget_not_allocated
        else Inr \<lparr>per_task = scope_of perTask, per_day = scope_of perDay\<rparr>)"

definition emptyBudgetUsage :: budget_usage where
  "emptyBudgetUsage = \<lparr>task_used_tokens = 0, task_used_iterations = 0,
                       day_used_tokens = 0, day_used_iterations = 0\<rparr>"

section \<open>The in-memory ledger\<close>

type_synonym ledger = "(string, budget_usage) jsmap"

record ledger_entry =
  le_position :: string
  le_task :: string
  le_day :: string
  le_tokens :: int
  le_iterations :: int

definition ledger_key :: "string \<Rightarrow> string \<Rightarrow> string \<Rightarrow> string" where
  "ledger_key positionId taskId dayKey =
     positionId @ [CHR 0x00] @ taskId @ [CHR 0x00] @ dayKey"

definition ledger_read :: "ledger \<Rightarrow> string \<Rightarrow> string \<Rightarrow> string \<Rightarrow> budget_usage" where
  "ledger_read store positionId taskId dayKey =
     (case map_get store (ledger_key positionId taskId dayKey) of
        Some u \<Rightarrow> u | None \<Rightarrow> emptyBudgetUsage)"

definition ledger_commit :: "ledger \<Rightarrow> ledger_entry \<Rightarrow> ledger" where
  "ledger_commit store e =
     (let k = ledger_key (le_position e) (le_task e) (le_day e);
          current = (case map_get store k of Some u \<Rightarrow> u | None \<Rightarrow> emptyBudgetUsage)
      in map_set store k
           \<lparr>task_used_tokens = task_used_tokens current + le_tokens e,
            task_used_iterations = task_used_iterations current + le_iterations e,
            day_used_tokens = day_used_tokens current + le_tokens e,
            day_used_iterations = day_used_iterations current + le_iterations e\<rparr>)"

section \<open>The budget check\<close>

definition over :: "int option \<Rightarrow> int \<Rightarrow> budget_dimension \<Rightarrow> budget_exceeded option" where
  "over cap n dm = (case cap of
      None \<Rightarrow> None
    | Some limit \<Rightarrow> if n > limit
        then Some \<lparr>be_dimension = dm, be_used = n, be_limit = limit\<rparr> else None)"

definition checkPositionBudget ::
  "position_budget \<Rightarrow> budget_usage \<Rightarrow> int \<Rightarrow> int \<Rightarrow> budget_exceeded option" where
  "checkPositionBudget d u inc_tokens inc_iterations =
     (case over (scope_tokens (per_day d)) (day_used_tokens u + inc_tokens)
             Position_day_tokens of Some e \<Rightarrow> Some e
      | None \<Rightarrow>
     (case over (scope_iterations (per_day d)) (day_used_iterations u + inc_iterations)
             Position_day_iterations of Some e \<Rightarrow> Some e
      | None \<Rightarrow>
     (case over (scope_tokens (per_task d)) (task_used_tokens u + inc_tokens)
             Position_task_tokens of Some e \<Rightarrow> Some e
      | None \<Rightarrow>
        over (scope_iterations (per_task d)) (task_used_iterations u + inc_iterations)
             Position_task_iterations)))"

section \<open>Validation\<close>

definition cap_ok :: "int option \<Rightarrow> bool" where
  "cap_ok c = (case c of None \<Rightarrow> True | Some n \<Rightarrow> 0 < n \<and> n \<le> MAX_BUDGET_CAP)"

definition scope_ok :: "budget_scope \<Rightarrow> bool" where
  "scope_ok s \<longleftrightarrow> cap_ok (scope_tokens s) \<and> cap_ok (scope_iterations s) \<and>
                 (scope_tokens s \<noteq> None \<or> scope_iterations s \<noteq> None)"

lemma positive_bounded_int:
  "isPositiveBoundedInt v \<longleftrightarrow> (\<exists>n. js_int v = Some n \<and> 0 < n \<and> n \<le> MAX_BUDGET_CAP)"
  by (auto simp: isPositiveBoundedInt_def split: option.splits)

lemma legal_field:
  assumes "scope_keys_legal s"
  shows "js_get s k = JUndef \<or> isPositiveBoundedInt (js_get s k)"
proof (cases s)
  case (JObj kvs)
  show ?thesis
  proof (cases "map_of kvs k")
    case None
    with JObj show ?thesis by simp
  next
    case (Some v)
    then have "k \<in> set (js_keys s)" by (auto simp: JObj dest: map_of_SomeD intro: rev_image_eqI)
    then show ?thesis using assms by (auto simp: scope_keys_legal_def list_all_iff)
  qed
qed simp_all

lemma scope_of_ok:
  assumes "scope_keys_legal s" and "scopeAllocated s"
  shows "scope_ok (scope_of s)"
proof -
  have "cap_ok (js_int (js_get s k))" for k
    using legal_field [OF assms(1), of k]
    by (auto simp: cap_ok_def positive_bounded_int)
  then show ?thesis
    using assms(2) by (auto simp: scope_ok_def scope_of_def scopeAllocated_def positive_bounded_int)
qed

lemma validated_declaration:
  "validatePositionBudgetDeclaration v = Inr d \<Longrightarrow> scope_ok (per_task d) \<and> scope_ok (per_day d)"
  by (auto simp: validatePositionBudgetDeclaration_def Let_def scope_of_ok split: if_splits)

definition within_cap :: "int option \<Rightarrow> int \<Rightarrow> bool" where
  "within_cap c n = (case c of None \<Rightarrow> True | Some l \<Rightarrow> n \<le> l)"

lemma over_None: "over c n dm = None \<longleftrightarrow> within_cap c n"
  by (auto simp: over_def within_cap_def split: option.splits)

lemma over_Some:
  "over c n dm = Some e \<longleftrightarrow>
     (\<exists>l. c = Some l \<and> l < n \<and> e = \<lparr>be_dimension = dm, be_used = n, be_limit = l\<rparr>)"
  by (auto simp: over_def split: option.splits)

lemma check_fits:
  "checkPositionBudget d u t i = None \<longleftrightarrow>
     within_cap (scope_tokens (per_day d)) (day_used_tokens u + t) \<and>
     within_cap (scope_iterations (per_day d)) (day_used_iterations u + i) \<and>
     within_cap (scope_tokens (per_task d)) (task_used_tokens u + t) \<and>
     within_cap (scope_iterations (per_task d)) (task_used_iterations u + i)"
  by (simp only: checkPositionBudget_def first_some over_None)

text \<open>What a rejection says: the named cap is declared, and the value after the increment is
  above it.\<close>

definition names_exceeded_cap ::
  "position_budget \<Rightarrow> budget_usage \<Rightarrow> int \<Rightarrow> int \<Rightarrow> budget_exceeded \<Rightarrow> bool" where
  "names_exceeded_cap d u t i e \<longleftrightarrow> be_limit e < be_used e \<and>
     (case be_dimension e of
        Position_day_tokens \<Rightarrow> scope_tokens (per_day d) = Some (be_limit e) \<and>
          be_used e = day_used_tokens u + t
      | Position_day_iterations \<Rightarrow> scope_iterations (per_day d) = Some (be_limit e) \<and>
          be_used e = day_used_iterations u + i
      | Position_task_tokens \<Rightarrow> scope_tokens (per_task d) = Some (be_limit e) \<and>
          be_used e = task_used_tokens u + t
      | Position_task_iterations \<Rightarrow> scope_iterations (per_task d) = Some (be_limit e) \<and>
          be_used e = task_used_iterations u + i
      | _ \<Rightarrow> False)"

lemma check_exceeded: "checkPositionBudget d u t i = Some e \<Longrightarrow> names_exceeded_cap d u t i e"
  unfolding checkPositionBudget_def first_some
  by (auto simp: over_Some names_exceeded_cap_def)

section \<open>The ledger interface\<close>

text \<open>
  \<open>BudgetLedgerPort\<close>: what the executor relies on. \<open>same\<close> says which commits a read sees.
\<close>

locale budget_ledger =
  fixes rd :: "'l \<Rightarrow> string \<Rightarrow> string \<Rightarrow> string \<Rightarrow> budget_usage"
    and cm :: "'l \<Rightarrow> ledger_entry \<Rightarrow> 'l"
    and same :: "ledger_entry \<Rightarrow> string \<Rightarrow> string \<Rightarrow> string \<Rightarrow> bool"
  assumes read_commit_same: "same e p t d \<Longrightarrow>
      rd (cm l e) p t d =
        \<lparr>task_used_tokens = task_used_tokens (rd l p t d) + le_tokens e,
         task_used_iterations = task_used_iterations (rd l p t d) + le_iterations e,
         day_used_tokens = day_used_tokens (rd l p t d) + le_tokens e,
         day_used_iterations = day_used_iterations (rd l p t d) + le_iterations e\<rparr>"
    and read_commit_other: "\<not> same e p t d \<Longrightarrow> rd (cm l e) p t d = rd l p t d"
begin

lemma tokens_after_commits:
  "task_used_tokens (rd (fold (\<lambda>e l. cm l e) es l) p t d) =
     task_used_tokens (rd l p t d) + sum_list (map le_tokens (filter (\<lambda>e. same e p t d) es))"
  by (induction es arbitrary: l) (auto simp: read_commit_same read_commit_other)

lemma iterations_after_commits:
  "task_used_iterations (rd (fold (\<lambda>e l. cm l e) es l) p t d) =
     task_used_iterations (rd l p t d)
       + sum_list (map le_iterations (filter (\<lambda>e. same e p t d) es))"
  by (induction es arbitrary: l) (auto simp: read_commit_same read_commit_other)

lemma day_tokens_after_commits:
  "day_used_tokens (rd (fold (\<lambda>e l. cm l e) es l) p t d) =
     day_used_tokens (rd l p t d) + sum_list (map le_tokens (filter (\<lambda>e. same e p t d) es))"
  by (induction es arbitrary: l) (auto simp: read_commit_same read_commit_other)

end

definition same_ledger_key :: "ledger_entry \<Rightarrow> string \<Rightarrow> string \<Rightarrow> string \<Rightarrow> bool" where
  "same_ledger_key e p t d \<longleftrightarrow> ledger_key (le_position e) (le_task e) (le_day e) = ledger_key p t d"

interpretation mem_ledger: budget_ledger ledger_read ledger_commit same_ledger_key
  by unfold_locales
     (auto simp: ledger_read_def ledger_commit_def same_ledger_key_def Let_def
        emptyBudgetUsage_def split: option.splits)

text \<open>The key is injective on identifiers without NUL.\<close>

lemma nul_split:
  "CHR 0x00 \<notin> set a \<Longrightarrow> CHR 0x00 \<notin> set b \<Longrightarrow>
   a @ CHR 0x00 # x = b @ CHR 0x00 # y \<longleftrightarrow> a = b \<and> x = y"
  by (auto simp: append_eq_append_conv2 append_eq_Cons_conv Cons_eq_append_conv)

lemma ledger_key_inj:
  assumes "CHR 0x00 \<notin> set p" "CHR 0x00 \<notin> set t" "CHR 0x00 \<notin> set p'" "CHR 0x00 \<notin> set t'"
  shows "ledger_key p t d = ledger_key p' t' d' \<longleftrightarrow> p = p' \<and> t = t' \<and> d = d'"
  using assms by (auto simp: ledger_key_def nul_split)

section \<open>Properties\<close>

text \<open>A declaration that validates allocates both scopes, and every cap it carries is a
  positive integer of at most 10^9.\<close>

theorem validated_budget_is_allocated:
  assumes "validatePositionBudgetDeclaration v = Inr d"
  shows "scope_ok (per_task d) \<and> scope_ok (per_day d)"
  using assms by (rule validated_declaration)

theorem validated_budget_is_allocated_witness:
  "\<exists>d. validatePositionBudgetDeclaration
         (JObj [(''perTask'', JObj [(''tokens'', JNum 500)]),
                (''perDay'', JObj [(''iterations'', JNum 7)])]) = Inr d \<and>
       scope_ok (per_task d) \<and> scope_ok (per_day d)"
proof -
  have v: "validatePositionBudgetDeclaration
         (JObj [(''perTask'', JObj [(''tokens'', JNum 500)]),
                (''perDay'', JObj [(''iterations'', JNum 7)])]) =
      Inr \<lparr>per_task = \<lparr>scope_tokens = Some 500, scope_iterations = None\<rparr>,
           per_day = \<lparr>scope_tokens = None, scope_iterations = Some 7\<rparr>\<rparr>"
    by (simp add: validatePositionBudgetDeclaration_def scope_keys_legal_def scopeAllocated_def
        isPositiveBoundedInt_def MAX_BUDGET_CAP_def scope_of_def)
  then show ?thesis using validated_budget_is_allocated [OF v] by blast
qed

text \<open>The check accepts an increment exactly when all four caps hold afterwards, and a
  rejection names a cap the increment really exceeds.\<close>

theorem check_accepts_iff_all_caps_hold:
  "case checkPositionBudget d u t i of
     None \<Rightarrow>
       within_cap (scope_tokens (per_day d)) (day_used_tokens u + t) \<and>
       within_cap (scope_iterations (per_day d)) (day_used_iterations u + i) \<and>
       within_cap (scope_tokens (per_task d)) (task_used_tokens u + t) \<and>
       within_cap (scope_iterations (per_task d)) (task_used_iterations u + i)
   | Some e \<Rightarrow> names_exceeded_cap d u t i e"
  by (simp add: check_fits check_exceeded split: option.split)

text \<open>The reference ledger's usage for a position, task and day is the sum of the commits
  made under that key.\<close>

theorem ledger_sums_commits:
  "task_used_tokens (ledger_read (fold (\<lambda>e l. ledger_commit l e) es []) p t d) =
     sum_list (map le_tokens (filter (\<lambda>e. same_ledger_key e p t d) es)) \<and>
   task_used_iterations (ledger_read (fold (\<lambda>e l. ledger_commit l e) es []) p t d) =
     sum_list (map le_iterations (filter (\<lambda>e. same_ledger_key e p t d) es))"
  by (simp add: mem_ledger.tokens_after_commits mem_ledger.iterations_after_commits)
     (simp add: ledger_read_def emptyBudgetUsage_def)

text \<open>The day dimension of the reference ledger is not shared between the tasks of one
  position and day: consumption committed for another task leaves the usage the check sees
  unchanged, so a per-day cap never aggregates over tasks.\<close>

theorem day_usage_ignores_other_tasks:
  assumes "CHR 0x00 \<notin> set p" and "CHR 0x00 \<notin> set t" and "CHR 0x00 \<notin> set t'" and "t' \<noteq> t"
  shows "day_used_tokens (ledger_read (ledger_commit l
           \<lparr>le_position = p, le_task = t', le_day = d, le_tokens = n, le_iterations = i\<rparr>) p t d)
         = day_used_tokens (ledger_read l p t d)"
proof -
  have "\<not> same_ledger_key \<lparr>le_position = p, le_task = t', le_day = d,
          le_tokens = n, le_iterations = i\<rparr> p t d"
    using assms by (simp add: same_ledger_key_def ledger_key_inj)
  then show ?thesis by (simp add: mem_ledger.read_commit_other)
qed

theorem day_usage_ignores_other_tasks_witness:
  "day_used_tokens (ledger_read (ledger_commit []
      \<lparr>le_position = ''ops'', le_task = ''t2'', le_day = ''2026-01-01'',
       le_tokens = 900, le_iterations = 1\<rparr>) ''ops'' ''t1'' ''2026-01-01'') = 0"
  using day_usage_ignores_other_tasks [of "''ops''" "''t1''" "''t2''" "[]" "''2026-01-01''" 900 1]
  by (simp add: ledger_read_def emptyBudgetUsage_def)

end
