(* ===== verification/OrgDocument.thy ===== *)
theory OrgDocument
  imports OrgPermissions Budget
begin

text \<open>
  apps/cli/org/budget.ts: the validation of an organization document and of its position
  budgets, with the memory-scope entry of apps/cli/org/permissions.ts it calls. Errors carry
  the stable detail of the thrown code.
\<close>

definition WORKSPACE_ORG_SCHEMA_VERSION :: string where
  "WORKSPACE_ORG_SCHEMA_VERSION = ''workspace-org.v1''"

definition BUDGET_LIMIT_MAX :: int where
  "BUDGET_LIMIT_MAX = 1000000000"

definition BUDGET_SCOPE_KEYS :: "string list" where
  "BUDGET_SCOPE_KEYS = [''perTask'', ''perDay'']"

definition BUDGET_LIMIT_KEYS :: "string list" where
  "BUDGET_LIMIT_KEYS = [''tokens'', ''iterations'']"

definition ORGANIZATION_NAME_MAX_LENGTH :: nat where
  "ORGANIZATION_NAME_MAX_LENGTH = 64"

datatype org_error =
    Org_budget_missing string
  | Org_budget_not_allocated string
  | Org_budget_invalid string
  | Org_document_invalid string

section \<open>Position budgets\<close>

definition limit_ok :: "jsval \<Rightarrow> bool" where
  "limit_ok raw = (case js_int raw of
      None \<Rightarrow> False | Some n \<Rightarrow> \<not> n \<le> 0 \<and> \<not> n > BUDGET_LIMIT_MAX)"

text \<open>One scope of the loop: unknown keys, then each declared limit, then at least one.\<close>

definition validate_scope :: "string \<Rightarrow> jsval \<Rightarrow> string \<Rightarrow> org_error + budget_scope" where
  "validate_scope i v scopeName =
     (if \<not> js_has v scopeName then Inl (Org_budget_not_allocated i)
      else let s = js_get v scopeName in
      if \<not> is_plain_object s then Inl (Org_budget_invalid i)
      else if \<not> list_all (\<lambda>k. k \<in> set BUDGET_LIMIT_KEYS) (js_keys s) then Inl (Org_budget_invalid i)
      else if \<not> list_all (\<lambda>limit. \<not> js_has s limit \<or> limit_ok (js_get s limit)) BUDGET_LIMIT_KEYS
      then Inl (Org_budget_invalid i)
      else if filter (js_has s) BUDGET_LIMIT_KEYS = [] then Inl (Org_budget_not_allocated i)
      else Inr \<lparr>scope_tokens = js_int (js_get s ''tokens''),
                scope_iterations = js_int (js_get s ''iterations'')\<rparr>)"

definition validatePositionBudget :: "string \<Rightarrow> jsval \<Rightarrow> org_error + position_budget" where
  "validatePositionBudget i v =
     (if v = JUndef \<or> v = JNull then Inl (Org_budget_missing i)
      else if \<not> is_plain_object v then Inl (Org_budget_invalid i)
      else if \<not> list_all (\<lambda>k. k \<in> set BUDGET_SCOPE_KEYS) (js_keys v) then Inl (Org_budget_invalid i)
      else (case validate_scope i v ''perTask'' of
          Inl e \<Rightarrow> Inl e
        | Inr t \<Rightarrow> (case validate_scope i v ''perDay'' of
              Inl e \<Rightarrow> Inl e
            | Inr d \<Rightarrow> Inr \<lparr>per_task = t, per_day = d\<rparr>)))"

fun validateOrganizationBudgets ::
  "(string \<times> jsval) list \<Rightarrow> (string, position_budget) jsmap \<Rightarrow>
   org_error + (string, position_budget) jsmap" where
  "validateOrganizationBudgets [] budgets = Inr budgets"
| "validateOrganizationBudgets ((i, b) # roles) budgets = (case validatePositionBudget i b of
      Inl e \<Rightarrow> Inl e
    | Inr pb \<Rightarrow> validateOrganizationBudgets roles (map_set budgets i pb))"

section \<open>Memory scopes\<close>

definition isLegacyMemoryScopeNoOp :: "string \<Rightarrow> bool" where
  "isLegacyMemoryScopeNoOp memoryScope =
     (js_trim memoryScope = ''/'' \<or> js_trim memoryScope = ''./'')"

definition workerMemoryScopeReadEntry :: "string \<Rightarrow> permission_error + string option" where
  "workerMemoryScopeReadEntry memoryScope =
     (if isLegacyMemoryScopeNoOp memoryScope then Inr None
      else (case normalizeContextPath memoryScope of
          Inl e \<Rightarrow> Inl e
        | Inr normalized \<Rightarrow>
            (if normalized = ''./'' then Inr None
             else Inr (Some (if ends_with normalized ''/'' then normalized else normalized @ ''/'')))))"

section \<open>The document\<close>

record role_package =
  pk_name :: string
  pk_version :: string
  pk_digest :: string
  pk_reference :: string

record org_role =
  role_id :: string
  role_name :: string
  role_description :: string
  report_to :: "string option"
  role_package :: role_package
  role_mode :: position_mode
  memory_scope :: string
  tool_allow :: "string list"
  tool_deny :: "string list"
  role_metadata :: "(string, string) jsmap"
  role_budget :: position_budget

record org_document =
  od_business :: string
  od_description :: string
  od_owner :: string
  od_roles :: "org_role list"
  od_updated_at :: string

text \<open>\<open>^[a-z0-9]+(?:-[a-z0-9]+)*$\<close>: non-empty runs separated by single hyphens.\<close>

definition name_pattern :: "string \<Rightarrow> bool" where
  "name_pattern s = list_all (\<lambda>run. run \<noteq> [] \<and> list_all (\<lambda>c. is_lower c \<or> is_digit c) run)
     (split_on (CHR ''-'') s)"

definition validateName :: "string \<Rightarrow> bool" where
  "validateName s = (\<not> (length s = 0 \<or> length s > ORGANIZATION_NAME_MAX_LENGTH \<or> \<not> name_pattern s))"

definition doc_invalid :: "string \<Rightarrow> org_error + 'a" where
  "doc_invalid detail = Inl (Org_document_invalid detail)"

definition requireString :: "jsval \<Rightarrow> string \<Rightarrow> string \<Rightarrow> org_error + string" where
  "requireString container key detail = (case js_str (js_get container key) of
      None \<Rightarrow> doc_invalid detail | Some s \<Rightarrow> Inr s)"

definition DOCUMENT_KEYS :: "string list" where
  "DOCUMENT_KEYS = [''$schema'', ''schemaVersion'', ''business'', ''description'', ''owner'',
     ''roles'', ''updatedAt'']"

definition ROLE_KEYS :: "string list" where
  "ROLE_KEYS = [''id'', ''name'', ''description'', ''reportTo'', ''package'', ''mode'',
     ''memoryScope'', ''toolAllow'', ''toolDeny'', ''metadata'', ''budget'']"

definition PACKAGE_KEYS :: "string list" where
  "PACKAGE_KEYS = [''name'', ''version'', ''digest'', ''localReference'']"

definition rd :: "nat \<Rightarrow> string \<Rightarrow> string" where
  "rd index detail = ''role_'' @ dec index @ detail"

definition read_report_to :: "nat \<Rightarrow> jsval \<Rightarrow> org_error + string option" where
  "read_report_to index v = (case v of
      JNull \<Rightarrow> Inr None
    | JStr s \<Rightarrow> ensure (validateName s) (Org_document_invalid (rd index ''_report_to'')) (Inr (Some s))
    | _ \<Rightarrow> doc_invalid (rd index ''_report_to''))"

definition read_package :: "nat \<Rightarrow> jsval \<Rightarrow> org_error + role_package" where
  "read_package index v =
     ensure (is_plain_object v) (Org_document_invalid (rd index ''_package''))
    (ensure (list_all (\<lambda>k. k \<in> set PACKAGE_KEYS) (js_keys v))
       (Org_document_invalid (rd index ''_package_unknown_key''))
    (and_then (requireString v ''name'' (rd index ''_package_name'')) (\<lambda>name.
     and_then (requireString v ''version'' (rd index ''_package_version'')) (\<lambda>version.
     and_then (requireString v ''digest'' (rd index ''_package_digest'')) (\<lambda>digest.
     ensure (digest_pattern digest) (Org_document_invalid (rd index ''_package_digest''))
    (and_then (requireString v ''localReference'' (rd index ''_package_local_reference'')) (\<lambda>reference.
     ensure (reference \<noteq> []) (Org_document_invalid (rd index ''_package_local_reference''))
       (Inr \<lparr>pk_name = name, pk_version = version, pk_digest = digest, pk_reference = reference\<rparr>))))))))"

definition read_mode :: "nat \<Rightarrow> jsval \<Rightarrow> org_error + position_mode" where
  "read_mode index raw =
     (if raw = JUndef then Inr Mode_read_only
      else if raw = JStr ''read_only'' then Inr Mode_read_only
      else if raw = JStr ''approval_required'' then Inr Mode_approval_required
      else doc_invalid (rd index ''_mode''))"

fun read_tools :: "string \<Rightarrow> nat \<Rightarrow> jsval list \<Rightarrow> org_error + string list" where
  "read_tools detail toolIndex [] = Inr []"
| "read_tools detail toolIndex (v # vs) = (case js_str v of
      None \<Rightarrow> doc_invalid (detail @ ''_'' @ dec toolIndex)
    | Some tool \<Rightarrow>
        (if length tool = 0 \<or> length tool > 64 then doc_invalid (detail @ ''_'' @ dec toolIndex)
         else and_then (read_tools detail (Suc toolIndex) vs) (\<lambda>tools. Inr (tool # tools))))"

definition readToolList :: "nat \<Rightarrow> jsval \<Rightarrow> string \<Rightarrow> org_error + string list" where
  "readToolList index entry key = (case js_get entry key of
      JArr vs \<Rightarrow> read_tools (rd index (''_'' @ key)) 0 vs
    | _ \<Rightarrow> doc_invalid (rd index (''_'' @ key)))"

fun read_metadata ::
  "nat \<Rightarrow> (string \<times> jsval) list \<Rightarrow> (string, string) jsmap \<Rightarrow> org_error + (string, string) jsmap" where
  "read_metadata index [] metadata = Inr metadata"
| "read_metadata index ((k, v) # kvs) metadata = (case js_str v of
      None \<Rightarrow> doc_invalid (rd index ''_metadata'')
    | Some s \<Rightarrow> read_metadata index kvs (assign_primitive metadata k s))"

definition read_role :: "nat \<Rightarrow> string list \<Rightarrow> jsval \<Rightarrow> org_error + org_role" where
  "read_role index seen entry =
     ensure (is_plain_object entry) (Org_document_invalid (''role_'' @ dec index))
    (ensure (list_all (\<lambda>k. k \<in> set ROLE_KEYS) (js_keys entry))
       (Org_document_invalid (rd index ''_unknown_key''))
    (and_then (requireString entry ''id'' (rd index ''_id'')) (\<lambda>i.
     ensure (validateName i) (Org_document_invalid (rd index ''_id''))
    (ensure (i \<notin> set seen) (Org_document_invalid (rd index ''_duplicate_id''))
    (and_then (requireString entry ''name'' (rd index ''_name'')) (\<lambda>name.
     ensure (\<not> (length name = 0 \<or> length name > 128)) (Org_document_invalid (rd index ''_name''))
    (and_then (requireString entry ''description'' (rd index ''_description'')) (\<lambda>description.
     ensure (\<not> length description > 2000) (Org_document_invalid (rd index ''_description''))
    (and_then (read_report_to index (js_get entry ''reportTo'')) (\<lambda>reportTo.
     and_then (read_package index (js_get entry ''package'')) (\<lambda>package.
     and_then (read_mode index (js_get entry ''mode'')) (\<lambda>mode.
     and_then (requireString entry ''memoryScope'' (rd index ''_memory_scope'')) (\<lambda>memoryScope.
     ensure (length memoryScope \<noteq> 0) (Org_document_invalid (rd index ''_memory_scope''))
    (ensure (case workerMemoryScopeReadEntry memoryScope of Inl _ \<Rightarrow> False | Inr _ \<Rightarrow> True)
       (Org_document_invalid (rd index ''_memory_scope''))
    (and_then (readToolList index entry ''toolAllow'') (\<lambda>toolAllow.
     and_then (readToolList index entry ''toolDeny'') (\<lambda>toolDeny.
     ensure (is_plain_object (js_get entry ''metadata''))
       (Org_document_invalid (rd index ''_metadata''))
    (and_then (read_metadata index (object_entries (js_get entry ''metadata'')) []) (\<lambda>metadata.
     and_then (validatePositionBudget i (js_get entry ''budget'')) (\<lambda>budget.
       Inr \<lparr>role_id = i, role_name = name, role_description = description, report_to = reportTo,
            role_package = package, role_mode = mode, memory_scope = memoryScope,
            tool_allow = toolAllow, tool_deny = toolDeny, role_metadata = metadata,
            role_budget = budget\<rparr>))))))))))))))))))))"

fun read_roles :: "nat \<Rightarrow> string list \<Rightarrow> jsval list \<Rightarrow> org_error + org_role list" where
  "read_roles index seen [] = Inr []"
| "read_roles index seen (entry # entries) =
     and_then (read_role index seen entry) (\<lambda>r.
     and_then (read_roles (Suc index) (seen @ [role_id r]) entries) (\<lambda>rs. Inr (r # rs)))"

definition find_role :: "org_role list \<Rightarrow> string \<Rightarrow> org_role option" where
  "find_role roles i = find (\<lambda>r. role_id r = i) roles"

lemma find_role_Some: "find_role roles i = Some r \<Longrightarrow> r \<in> set roles \<and> role_id r = i"
  by (auto simp: find_role_def find_Some_iff)

text \<open>The walk up the reporting line from a role; \<open>False\<close> is the thrown \<open>reporting_cycle\<close>.\<close>

function reporting_line_ends :: "org_role list \<Rightarrow> string list \<Rightarrow> org_role \<Rightarrow> bool" where
  "reporting_line_ends roles visited current =
     (if role_id current \<in> set visited then False
      else (case report_to current of
          None \<Rightarrow> True
        | Some superior \<Rightarrow> (case find_role roles superior of
              None \<Rightarrow> True
            | Some r \<Rightarrow> reporting_line_ends roles (role_id current # visited) r)))"
  by pat_completeness auto

termination
proof (relation "measure (\<lambda>(roles, visited, current).
    card (insert (role_id current) (role_id ` set roles) - set visited))", goal_cases)
  case (2 roles visited current superior r)
  then have r: "r \<in> set roles" by (simp add: find_role_Some)
  let ?old = "insert (role_id current) (role_id ` set roles) - set visited"
  let ?new = "insert (role_id r) (role_id ` set roles) - set (role_id current # visited)"
  have "?new \<subseteq> ?old" using r by auto
  moreover have "role_id current \<in> ?old" "role_id current \<notin> ?new" using 2 by auto
  ultimately have "?new \<subset> ?old" by blast
  then show ?case by (simp add: psubset_card_mono)
qed simp

declare reporting_line_ends.simps [simp del]

definition check_roles :: "string \<Rightarrow> org_role list \<Rightarrow> org_error + unit" where
  "check_roles owner roles =
     ensure (owner \<in> role_id ` set roles) (Org_document_invalid ''owner_not_a_role'')
    (ensure (case find_role roles owner of Some r \<Rightarrow> report_to r = None | None \<Rightarrow> True)
       (Org_document_invalid ''owner_must_be_root'')
    (case find (\<lambda>r. case report_to r of None \<Rightarrow> False | Some s \<Rightarrow> s \<notin> role_id ` set roles) roles of
       Some r \<Rightarrow> doc_invalid (''role_'' @ role_id r @ ''_dangling_report_to'')
     | None \<Rightarrow>
         ensure (list_all (reporting_line_ends roles []) roles)
           (Org_document_invalid ''reporting_cycle'') (Inr ())))"

definition validateOrganizationDocument :: "jsval \<Rightarrow> org_error + org_document" where
  "validateOrganizationDocument v =
     ensure (is_plain_object v) (Org_document_invalid ''root'')
    (ensure (list_all (\<lambda>k. k \<in> set DOCUMENT_KEYS) (js_keys v)) (Org_document_invalid ''unknown_key'')
    (ensure (js_get v ''$schema'' = JUndef \<or> js_str (js_get v ''$schema'') \<noteq> None)
       (Org_document_invalid ''schema_ref'')
    (and_then (requireString v ''schemaVersion'' ''schema_version'') (\<lambda>schemaVersion.
     ensure (schemaVersion = WORKSPACE_ORG_SCHEMA_VERSION) (Org_document_invalid ''schema_version'')
    (and_then (requireString v ''business'' ''business'') (\<lambda>business.
     ensure (validateName business) (Org_document_invalid ''business'')
    (and_then (if js_get v ''description'' = JUndef then Inr []
               else requireString v ''description'' ''description'') (\<lambda>description.
     and_then (requireString v ''owner'' ''owner'') (\<lambda>owner.
     ensure (validateName owner) (Org_document_invalid ''owner'')
    (and_then (requireString v ''updatedAt'' ''updated_at'') (\<lambda>updatedAt.
     ensure (length updatedAt \<noteq> 0) (Org_document_invalid ''updated_at'')
    (case js_get v ''roles'' of
       JArr (entry # entries) \<Rightarrow>
         and_then (read_roles 0 [] (entry # entries)) (\<lambda>roles.
         and_then (check_roles owner roles) (\<lambda>_.
           Inr \<lparr>od_business = business, od_description = description, od_owner = owner,
                od_roles = roles, od_updated_at = updatedAt\<rparr>))
     | _ \<Rightarrow> doc_invalid ''roles''))))))))))))"

section \<open>The two budget validators agree\<close>

lemma limit_ok_positive: "limit_ok v = isPositiveBoundedInt v"
  by (auto simp: limit_ok_def isPositiveBoundedInt_def MAX_BUDGET_CAP_def BUDGET_LIMIT_MAX_def
      split: option.splits)

lemma js_get_missing: "\<not> js_has v k \<Longrightarrow> js_get v k = JUndef"
  by (cases v) (simp_all add: js_has_def map_of_eq_None_iff [THEN iffD2])

lemma not_positive_undef [simp]: "\<not> isPositiveBoundedInt JUndef"
  by (simp add: isPositiveBoundedInt_def)

lemma list_all_two_keys:
  "list_all (\<lambda>k. (k = a \<or> k = b) \<and> P k) ks \<longleftrightarrow>
     list_all (\<lambda>k. k = a \<or> k = b) ks \<and> (a \<notin> set ks \<or> P a) \<and> (b \<notin> set ks \<or> P b)"
  by (auto simp: list_all_iff)

lemma validate_scope_iff:
  "validate_scope i v k = Inr s \<longleftrightarrow>
     is_plain_object (js_get v k) \<and> scope_keys_legal (js_get v k) \<and> scopeAllocated (js_get v k)
     \<and> s = scope_of (js_get v k)"
proof -
  have has: "js_has v k" if "is_plain_object (js_get v k)"
    using that js_get_missing [of v k] by (cases "js_has v k") auto
  have legal: "scope_keys_legal o' \<longleftrightarrow> list_all (\<lambda>k. k \<in> set BUDGET_LIMIT_KEYS) (js_keys o') \<and>
      list_all (\<lambda>limit. \<not> js_has o' limit \<or> limit_ok (js_get o' limit)) BUDGET_LIMIT_KEYS" for o'
    unfolding scope_keys_legal_def list_all_two_keys
    by (simp add: BUDGET_LIMIT_KEYS_def limit_ok_positive js_has_def)
  have alloc: "scopeAllocated o' \<longleftrightarrow> filter (js_has o') BUDGET_LIMIT_KEYS \<noteq> []"
    if "scope_keys_legal o'" for o'
  proof -
    have "isPositiveBoundedInt (js_get o' k) \<longleftrightarrow> js_has o' k" if "k \<in> set BUDGET_LIMIT_KEYS" for k
    proof (cases "js_has o' k")
      case True
      then show ?thesis using \<open>scope_keys_legal o'\<close>
        by (simp add: scope_keys_legal_def list_all_iff js_has_def)
    qed (simp add: js_get_missing)
    then show ?thesis by (simp add: scopeAllocated_def BUDGET_LIMIT_KEYS_def)
  qed
  show ?thesis
  proof (cases "is_plain_object (js_get v k) \<and> scope_keys_legal (js_get v k)")
    case True
    then show ?thesis using has legal [of "js_get v k"] alloc [of "js_get v k"]
      by (auto simp: validate_scope_def Let_def scope_of_def)
  next
    case False
    then show ?thesis using legal [of "js_get v k"] by (auto simp: validate_scope_def Let_def)
  qed
qed

lemma budget_validators_agree:
  "validatePositionBudget i v = Inr b \<longleftrightarrow>
     validatePositionBudgetDeclaration v = Inr b \<and> set (js_keys v) \<subseteq> set BUDGET_SCOPE_KEYS"
proof (cases "is_plain_object v")
  case False
  then show ?thesis by (auto simp: validatePositionBudget_def validatePositionBudgetDeclaration_def)
next
  case True
  have eq: "validatePositionBudget i v = Inr b \<longleftrightarrow> set (js_keys v) \<subseteq> set BUDGET_SCOPE_KEYS \<and>
      (\<exists>t d. validate_scope i v ''perTask'' = Inr t \<and> validate_scope i v ''perDay'' = Inr d \<and>
        b = \<lparr>per_task = t, per_day = d\<rparr>)"
    using True by (auto simp: validatePositionBudget_def list_all_iff subset_iff split: sum.splits)
  show ?thesis
    unfolding eq validate_scope_iff
    using True by (auto simp: validatePositionBudgetDeclaration_def Let_def)
qed

section \<open>What a validated document guarantees\<close>

definition role_wf :: "org_role \<Rightarrow> bool" where
  "role_wf r \<longleftrightarrow> validateName (role_id r) \<and>
     (case report_to r of None \<Rightarrow> True | Some s \<Rightarrow> validateName s) \<and>
     digest_pattern (pk_digest (role_package r)) \<and>
     (\<exists>entry. workerMemoryScopeReadEntry (memory_scope r) = Inr entry) \<and>
     [] \<notin> set (tool_allow r) \<and> [] \<notin> set (tool_deny r) \<and>
     scope_ok (per_task (role_budget r)) \<and> scope_ok (per_day (role_budget r))"

definition document_wf :: "org_document \<Rightarrow> bool" where
  "document_wf d \<longleftrightarrow> validateName (od_business d) \<and> validateName (od_owner d) \<and>
     distinct (map role_id (od_roles d)) \<and>
     (\<forall>r \<in> set (od_roles d). role_wf r) \<and>
     (\<exists>r \<in> set (od_roles d). role_id r = od_owner d \<and> report_to r = None) \<and>
     (\<forall>r \<in> set (od_roles d). \<forall>s. report_to r = Some s \<longrightarrow> s \<in> role_id ` set (od_roles d)) \<and>
     (\<forall>r \<in> set (od_roles d). reporting_line_ends (od_roles d) [] r)"

lemma read_tools_ok: "read_tools detail n vs = Inr ts \<Longrightarrow> [] \<notin> set ts"
  by (induction vs arbitrary: n ts)
     (auto simp: doc_invalid_def accepts split: option.splits if_splits)

lemma readToolList_ok: "readToolList n e k = Inr ts \<Longrightarrow> [] \<notin> set ts"
  by (auto simp: readToolList_def doc_invalid_def dest: read_tools_ok split: jsval.splits)

lemma read_report_to_ok:
  "read_report_to n v = Inr r \<Longrightarrow> (case r of None \<Rightarrow> True | Some s \<Rightarrow> validateName s)"
  by (auto simp: read_report_to_def doc_invalid_def accepts split: jsval.splits)

lemma read_package_ok: "read_package n v = Inr p \<Longrightarrow> digest_pattern (pk_digest p)"
  by (auto simp: read_package_def accepts)

lemma validatePositionBudget_ok:
  "validatePositionBudget i v = Inr b \<Longrightarrow> scope_ok (per_task b) \<and> scope_ok (per_day b)"
  unfolding budget_validators_agree using validated_declaration by blast

lemma read_role_ok:
  "read_role n seen v = Inr r \<Longrightarrow> role_wf r \<and> role_id r \<notin> set seen"
  by (auto simp: read_role_def accepts role_wf_def dest: readToolList_ok read_report_to_ok
      read_package_ok validatePositionBudget_ok)

lemma read_roles_ok:
  "read_roles n seen vs = Inr rs \<Longrightarrow>
   distinct (map role_id rs) \<and> set seen \<inter> role_id ` set rs = {} \<and> (\<forall>r \<in> set rs. role_wf r)"
proof (induction n seen vs arbitrary: rs rule: read_roles.induct)
  case (1 n seen)
  then show ?case by simp
next
  case (2 n seen v vs)
  then obtain r rs' where r: "read_role n seen v = Inr r"
    and rs': "read_roles (Suc n) (seen @ [role_id r]) vs = Inr rs'" and eq: "rs = r # rs'"
    by (auto simp: accepts)
  show ?case using "2.IH" [OF r rs'] read_role_ok [OF r] eq by auto
qed

lemma find_role_mem: "i \<in> role_id ` set roles \<Longrightarrow> \<exists>r. find_role roles i = Some r"
  unfolding find_role_def by (metis (mono_tags, lifting) find_None_iff imageE not_Some_eq)

lemma find_role_unique:
  "distinct (map role_id roles) \<Longrightarrow> r \<in> set roles \<Longrightarrow> find_role roles (role_id r) = Some r"
proof -
  assume d: "distinct (map role_id roles)" and r: "r \<in> set roles"
  obtain q where "find_role roles (role_id r) = Some q" using find_role_mem r by blast
  moreover have "q = r" using find_role_Some [OF calculation] d r
    by (metis distinct_map inj_on_eq_iff)
  ultimately show ?thesis by simp
qed

lemma check_roles_ok:
  assumes "check_roles owner roles = Inr u"
  shows "\<exists>r \<in> set roles. role_id r = owner \<and> report_to r = None"
    and "\<forall>r \<in> set roles. \<forall>s. report_to r = Some s \<longrightarrow> s \<in> role_id ` set roles"
    and "\<forall>r \<in> set roles. reporting_line_ends roles [] r"
proof -
  have mem: "owner \<in> role_id ` set roles"
    using assms by (auto simp: check_roles_def accepts)
  then obtain r where r: "find_role roles owner = Some r" using find_role_mem by blast
  with assms show "\<exists>r \<in> set roles. role_id r = owner \<and> report_to r = None"
    using find_role_Some [OF r] by (auto simp: check_roles_def accepts)
  let ?f = "find (\<lambda>r. case report_to r of None \<Rightarrow> False | Some s \<Rightarrow> s \<notin> role_id ` set roles) roles"
  have none: "?f = None" and ends: "list_all (reporting_line_ends roles []) roles"
    using assms by (auto simp: check_roles_def accepts doc_invalid_def split: option.splits)
  from none show "\<forall>r \<in> set roles. \<forall>s. report_to r = Some s \<longrightarrow> s \<in> role_id ` set roles"
    unfolding find_None_iff by (auto split: option.splits)
  from ends show "\<forall>r \<in> set roles. reporting_line_ends roles [] r"
    by (simp add: list_all_iff)
qed

lemma roles_case:
  "(case x of JArr (e # es) \<Rightarrow> f e es | _ \<Rightarrow> doc_invalid detail) = Inr d \<longleftrightarrow>
   (\<exists>e es. x = JArr (e # es) \<and> f e es = Inr d)"
  by (auto simp: doc_invalid_def split: jsval.splits list.splits)

lemma validated_document_wf:
  assumes "validateOrganizationDocument v = Inr d"
  shows "document_wf d"
proof -
  obtain vs roles u where *: "read_roles 0 [] vs = Inr roles"
    "check_roles (od_owner d) roles = Inr u" "od_roles d = roles"
    "validateName (od_business d)" "validateName (od_owner d)"
    using assms unfolding validateOrganizationDocument_def accepts roles_case
    by (auto simp del: read_roles.simps intro: that)
  show ?thesis
    using read_roles_ok [OF *(1)] check_roles_ok [OF *(2)] *(3-5)
    by (simp add: document_wf_def)
qed

end
