(* ===== verification/OrgDerivation.thy ===== *)
theory OrgDerivation
  imports OrgDocument "HOL-Library.List_Lexorder" "HOL-Library.Char_ord"
begin

text \<open>
  apps/cli/org/permissions.ts: the permission table derived from a validated organization
  document. The theorems are about every document the validator accepts: derivation cannot
  throw, it grants the least privilege, and the read scopes isolate the workers.
\<close>

definition by_id :: "org_role list \<Rightarrow> string \<Rightarrow> org_role option" where
  "by_id roles = map_of (rev (map (\<lambda>r. (role_id r, r)) roles))"

lemma by_id_Some: "by_id roles i = Some r \<Longrightarrow> r \<in> set roles \<and> role_id r = i"
  unfolding by_id_def by (drule map_of_SomeD) auto

text \<open>The loop up the reporting line; \<open>None\<close> is the thrown \<open>reporting_cycle\<close>.\<close>

function directory_walk ::
  "org_role list \<Rightarrow> string list \<Rightarrow> string list \<Rightarrow> string \<Rightarrow> string list option" where
  "directory_walk roles visited segments current =
     (if current \<in> set visited then None
      else (case by_id roles current of
          None \<Rightarrow> Some (current # segments)
        | Some role \<Rightarrow> (case report_to role of
              None \<Rightarrow> Some (current # segments)
            | Some superior \<Rightarrow>
                directory_walk roles (current # visited) (current # segments) superior)))"
  by pat_completeness auto

termination
proof (relation "measure (\<lambda>(roles, visited, segments, current).
    card (role_id ` set roles - set visited))", goal_cases)
  case (2 roles visited segments current role superior)
  then have "current \<in> role_id ` set roles - set visited"
    using by_id_Some by fastforce
  then have "role_id ` set roles - set (current # visited) \<subset> role_id ` set roles - set visited"
    by auto
  then show ?case by (simp add: psubset_card_mono)
qed simp

declare directory_walk.simps [simp del]

definition positionDirectorySegments :: "org_role list \<Rightarrow> string \<Rightarrow> string list option" where
  "positionDirectorySegments roles positionId = directory_walk roles [] [] positionId"

fun derive_allow :: "string list \<Rightarrow> string list \<Rightarrow> string list \<Rightarrow> string list" where
  "derive_allow deny [] allow = allow"
| "derive_allow deny (tool # declared) allow =
     derive_allow deny declared
       (if tool \<in> set READ_TOOL_ALLOWLIST \<and> tool \<notin> set deny \<and> tool \<notin> set allow
        then allow @ [tool] else allow)"

definition deriveAuthority :: "org_document \<Rightarrow> org_role \<Rightarrow> permission_tier \<Rightarrow> authority_scope" where
  "deriveAuthority model role tier =
     (let declared = (if 0 < length (tool_allow role) then tool_allow role else READ_TOOL_ALLOWLIST);
          allow = derive_allow (tool_deny role) declared [];
          directReports = (if tier = Tier_owner
            then sort (map role_id (filter (\<lambda>e. report_to e = Some (role_id role)) (od_roles model)))
            else [])
      in if tier = Tier_owner
         then \<lparr>tools_allow = allow, tools_deny = tool_deny role, delegation_allow = True,
               delegation_targets = directReports, escalate_to = None\<rparr>
         else \<lparr>tools_allow = allow, tools_deny = tool_deny role, delegation_allow = False,
               delegation_targets = [], escalate_to = report_to role\<rparr>)"

datatype derivation_error = Reporting_cycle | Memory_scope_invalid

definition position_scope :: "string list \<Rightarrow> string" where
  "position_scope segments = ''./positions/'' @ join_with ''/'' segments @ ''/''"

definition SHARED_CONTEXT_SCOPE :: string where
  "SHARED_CONTEXT_SCOPE = ''./context/''"

definition deriveContextScope ::
  "org_document \<Rightarrow> org_role \<Rightarrow> permission_tier \<Rightarrow> derivation_error + string list" where
  "deriveContextScope model role tier =
     (if tier = Tier_owner then Inr [''./'']
      else (case positionDirectorySegments (od_roles model) (role_id role) of
          None \<Rightarrow> Inl Reporting_cycle
        | Some segments \<Rightarrow>
            let read = [position_scope segments, SHARED_CONTEXT_SCOPE] in
            (case workerMemoryScopeReadEntry (memory_scope role) of
               Inl _ \<Rightarrow> Inl Memory_scope_invalid
             | Inr None \<Rightarrow> Inr read
             | Inr (Some extra) \<Rightarrow>
                 Inr (if extra \<in> set read then read else read @ [extra]))))"

definition tier_for :: "org_document \<Rightarrow> org_role \<Rightarrow> permission_tier" where
  "tier_for model role = (if role_id role = od_owner model then Tier_owner else Tier_worker)"

definition derive_position :: "org_document \<Rightarrow> org_role \<Rightarrow> derivation_error + position_permissions" where
  "derive_position model role =
     and_then (deriveContextScope model role (tier_for model role)) (\<lambda>read.
       Inr \<lparr>pp_position = role_id role, pp_tier = tier_for model role,
            pp_mode = Some (role_mode role), pp_read = read,
            pp_authority = deriveAuthority model role (tier_for model role)\<rparr>)"

fun derive_positions ::
  "org_document \<Rightarrow> org_role list \<Rightarrow> (string, position_permissions) jsmap \<Rightarrow>
   derivation_error + (string, position_permissions) jsmap" where
  "derive_positions model [] positions = Inr positions"
| "derive_positions model (role # roles) positions =
     and_then (derive_position model role) (\<lambda>p.
       derive_positions model roles (map_set positions (role_id role) p))"

definition deriveOrganizationPermissions :: "org_document \<Rightarrow> derivation_error + org_permissions" where
  "deriveOrganizationPermissions model =
     and_then (derive_positions model (od_roles model) []) (\<lambda>positions.
       Inr \<lparr>op_business = od_business model, op_owner = od_owner model, op_positions = positions\<rparr>)"

section \<open>The directory of a position\<close>

lemma validated_name_plain: "validateName s \<Longrightarrow> plain_segment s"
proof -
  assume v: "validateName s"
  have all: "\<forall>c \<in> set s. is_lower c \<or> is_digit c \<or> c = CHR ''-''"
    if "list_all (\<lambda>run. list_all (\<lambda>c. is_lower c \<or> is_digit c) run) (split_on (CHR ''-'') s)" for s
    using that by (induction s) (auto split: if_splits list.splits)
  have "list_all (\<lambda>run. list_all (\<lambda>c. is_lower c \<or> is_digit c) run) (split_on (CHR ''-'') s)"
    using v by (auto simp: validateName_def name_pattern_def list_all_iff)
  from all [OF this] have "CHR ''.'' \<notin> set s" "CHR ''/'' \<notin> set s"
    by (auto simp: is_lower_def is_digit_def)
  moreover have "s \<noteq> []" using v by (simp add: validateName_def)
  ultimately show ?thesis by (auto simp: plain_segment_def)
qed

lemma by_id_find:
  assumes "distinct (map role_id roles)"
  shows "by_id roles i = find_role roles i"
proof (cases "find_role roles i")
  case None
  then have "i \<notin> role_id ` set roles" by (auto simp: find_role_def find_None_iff)
  then show ?thesis using None by_id_Some by (cases "by_id roles i") fastforce+
next
  case (Some r)
  then have "r \<in> set roles" "role_id r = i" by (auto dest: find_role_Some)
  then have "(i, r) \<in> set (rev (map (\<lambda>r. (role_id r, r)) roles))" by auto
  moreover have "distinct (map fst (rev (map (\<lambda>r. (role_id r, r)) roles)))"
    using assms by (simp add: rev_map [symmetric] comp_def)
  ultimately show ?thesis using Some by (simp add: by_id_def)
qed

text \<open>One step of a reporting line, superior first.\<close>

definition reports_to :: "org_role list \<Rightarrow> string \<Rightarrow> string \<Rightarrow> bool" where
  "reports_to roles a b \<longleftrightarrow> (\<exists>r. by_id roles b = Some r \<and> report_to r = Some a)"

definition at_root :: "org_role list \<Rightarrow> string \<Rightarrow> bool" where
  "at_root roles i \<longleftrightarrow> (case by_id roles i of None \<Rightarrow> True | Some r \<Rightarrow> report_to r = None)"

lemma directory_walk_total:
  assumes "distinct (map role_id roles)"
    and "\<forall>r \<in> set roles. \<forall>s. report_to r = Some s \<longrightarrow> s \<in> role_id ` set roles"
  shows "reporting_line_ends roles visited r \<Longrightarrow> r \<in> set roles \<Longrightarrow>
    directory_walk roles visited segments (role_id r) \<noteq> None"
  using assms
proof (induction roles visited r arbitrary: segments rule: reporting_line_ends.induct)
  case (1 roles visited r)
  have new: "role_id r \<notin> set visited"
    using "1.prems"(1) by (subst (asm) reporting_line_ends.simps) (auto split: if_splits)
  have me: "by_id roles (role_id r) = Some r"
    using "1.prems" by (simp add: by_id_find find_role_unique)
  show ?case
  proof (cases "report_to r")
    case None
    then show ?thesis using new me by (subst directory_walk.simps) simp
  next
    case (Some s)
    then have "s \<in> role_id ` set roles" using "1.prems"(2,4) by blast
    then obtain q where q: "find_role roles s = Some q" using find_role_mem by blast
    have ends: "reporting_line_ends roles (role_id r # visited) q"
      using "1.prems"(1) new Some q by (subst (asm) reporting_line_ends.simps) simp
    have "directory_walk roles (role_id r # visited) (role_id r # segments) (role_id q) \<noteq> None"
      using find_role_Some [OF q] by (intro "1.IH" [OF new Some q ends] "1.prems") simp
    then show ?thesis using new me Some find_role_Some [OF q]
      by (subst directory_walk.simps) simp
  qed
qed

lemma directory_walk_line:
  "directory_walk roles visited segments current = Some path \<Longrightarrow>
   successively (reports_to roles) (current # segments) \<Longrightarrow>
   successively (reports_to roles) path \<and> suffix (current # segments) path \<and> at_root roles (hd path)"
proof (induction roles visited segments current rule: directory_walk.induct)
  case (1 roles visited segments current)
  have new: "current \<notin> set visited"
    using "1.prems"(1) by (subst (asm) directory_walk.simps) (auto split: if_splits)
  show ?case
  proof (cases "by_id roles current")
    case None
    then have "path = current # segments"
      using "1.prems"(1) new by (subst (asm) directory_walk.simps) simp
    with None "1.prems"(2) show ?thesis by (simp add: at_root_def)
  next
    case (Some r)
    show ?thesis
    proof (cases "report_to r")
      case None
      then have "path = current # segments"
        using "1.prems"(1) new Some by (subst (asm) directory_walk.simps) simp
      with None Some "1.prems"(2) show ?thesis by (simp add: at_root_def)
    next
      case (Some s)
      have step: "directory_walk roles (current # visited) (current # segments) s = Some path"
        using "1.prems"(1) new \<open>by_id roles current = Some r\<close> Some
        by (subst (asm) directory_walk.simps) simp
      have "reports_to roles s current"
        using \<open>by_id roles current = Some r\<close> Some by (auto simp: reports_to_def)
      then have "successively (reports_to roles) (s # current # segments)"
        using "1.prems"(2) by simp
      from "1.IH" [OF new \<open>by_id roles current = Some r\<close> Some step this]
      show ?thesis by (auto dest: suffix_ConsD)
    qed
  qed
qed

lemma reports_to_superiors:
  "successively (reports_to roles) path \<Longrightarrow> x \<in> set (butlast path) \<Longrightarrow> \<exists>r \<in> set roles. report_to r = Some x"
proof (induction path rule: induct_list012)
  case (3 a b xs)
  then show ?case by (auto simp: reports_to_def dest: by_id_Some)
qed auto

text \<open>A validated document gives every position its directory: the reporting line from a root
  down to the position, in plain segments.\<close>

lemma directory_of_position:
  assumes "document_wf d" and "r \<in> set (od_roles d)"
  obtains path where "positionDirectorySegments (od_roles d) (role_id r) = Some path"
    "successively (reports_to (od_roles d)) path" "path \<noteq> []" "last path = role_id r"
    "at_root (od_roles d) (hd path)" "list_all plain_segment path"
proof -
  have "directory_walk (od_roles d) [] [] (role_id r) \<noteq> None"
    using assms by (intro directory_walk_total) (auto simp: document_wf_def)
  then obtain path where path: "directory_walk (od_roles d) [] [] (role_id r) = Some path" by blast
  have line: "successively (reports_to (od_roles d)) path" "suffix [role_id r] path"
    "at_root (od_roles d) (hd path)"
    using directory_walk_line [OF path] by auto
  then have last: "path \<noteq> []" "last path = role_id r" by (auto simp: suffix_def)
  have "plain_segment x" if "x \<in> set path" for x
  proof (cases "x = role_id r")
    case True
    then show ?thesis using assms by (auto simp: document_wf_def role_wf_def intro: validated_name_plain)
  next
    case False
    have "set path = set (butlast path) \<union> {last path}"
      using last(1) by (metis Un_insert_right append_butlast_last_id list.simps(15) set_append sup_bot.right_neutral empty_set)
    then have "x \<in> set (butlast path)" using that False last by auto
    then obtain q where "q \<in> set (od_roles d)" "report_to q = Some x"
      using reports_to_superiors line(1) by blast
    then show ?thesis using assms(1)
      by (auto simp: document_wf_def role_wf_def intro!: validated_name_plain split: option.splits dest!: bspec)
  qed
  then show thesis using path line last
    by (intro that [of path]) (auto simp: positionDirectorySegments_def list_all_iff)
qed

section \<open>Derivation never throws on a validated document\<close>



definition worker_dirs :: "org_role \<Rightarrow> string list \<Rightarrow> string list list" where
  "worker_dirs r path = [''positions'' # path, [''context'']]
     @ (case normalized_segments (memory_scope r) of Some (m # ms) \<Rightarrow> [m # ms] | _ \<Rightarrow> [])"

lemma legacy_scope_segments: "isLegacyMemoryScopeNoOp m \<Longrightarrow> normalized_segments m = Some []"
  unfolding isLegacyMemoryScopeNoOp_def normalized_segments_def
  by (auto simp: drive_prefix_def starts_with_def)

lemma join_plain_end:
  assumes "list_all plain_segment segs" "segs \<noteq> []"
  shows "\<not> ends_with (''./'' @ join_with ''/'' segs) ''/''"
proof
  assume "ends_with (''./'' @ join_with ''/'' segs) ''/''"
  moreover have ne: "join_with ''/'' segs \<noteq> []" using assms by (rule join_nonempty)
  ultimately obtain t where t: "join_with ''/'' segs = t @ ''/''"
    by (auto simp: ends_with_append append_eq_append_conv2 Cons_eq_append_conv)
  have "split_on (CHR ''/'') (join_with ''/'' segs) = segs"
    using assms by (intro split_join) (auto simp: plain_segment_def list_all_iff)
  then have "segs = split_on (CHR ''/'') t @ [[]]" unfolding t using split_on_append [of "CHR ''/''" t "[]"] by simp
  then have "[] \<in> set segs" by simp
  then show False using assms(1) by (auto simp: list_all_iff plain_segment_def)
qed

lemma memory_entry:
  assumes "workerMemoryScopeReadEntry m = Inr e"
  shows "e = (case normalized_segments m of Some (s # ss) \<Rightarrow> Some (dir_scope (s # ss)) | _ \<Rightarrow> None)"
proof (cases "isLegacyMemoryScopeNoOp m")
  case True
  with assms show ?thesis by (simp add: workerMemoryScopeReadEntry_def legacy_scope_segments)
next
  case False
  then obtain segs where segs: "normalized_segments m = Some segs"
    using assms by (auto simp: workerMemoryScopeReadEntry_def normalizeContextPath_def split: option.splits)
  note plain = normalized_segments_plain [OF segs]
  show ?thesis
  proof (cases segs)
    case Nil
    with assms False segs show ?thesis
      by (simp add: workerMemoryScopeReadEntry_def normalizeContextPath_def)
  next
    case (Cons s ss)
    then have "join_with ''/'' segs \<noteq> []" using join_nonempty plain by blast
    moreover have "dir_scope segs = (''./'' @ join_with ''/'' segs) @ ''/''"
      using Cons concat_slash_join [of segs] by (simp add: dir_scope_def)
    ultimately show ?thesis using assms False segs Cons join_plain_end [OF plain]
      by (auto simp: workerMemoryScopeReadEntry_def normalizeContextPath_def)
  qed
qed

lemma dir_scope_inj:
  assumes "list_all plain_segment as" "list_all plain_segment bs" "dir_scope as = dir_scope bs"
  shows "as = bs"
proof -
  have "prefix as bs \<and> prefix bs as"
    using scope_admits_dir [OF assms(1,2)] scope_admits_dir [OF assms(2,1)]
      scope_admits_dir [OF assms(1,1)] scope_admits_dir [OF assms(2,2)] assms(3) by simp
  then show ?thesis by (simp add: prefix_order.antisym)
qed

lemma worker_context_scope:
  assumes "document_wf d" "r \<in> set (od_roles d)"
    and path: "positionDirectorySegments (od_roles d) (role_id r) = Some path"
    and "list_all plain_segment path" "path \<noteq> []"
  obtains dss where "deriveContextScope d r Tier_worker = Inr (map dir_scope dss)"
    "set dss = set (worker_dirs r path)" "list_all (list_all plain_segment) dss"
proof -
  obtain e where e: "workerMemoryScopeReadEntry (memory_scope r) = Inr e"
    using assms(1,2) by (auto simp: document_wf_def role_wf_def)
  have base: "position_scope path = dir_scope (''positions'' # path)"
    "SHARED_CONTEXT_SCOPE = dir_scope [''context'']"
    using assms(5)
    by (simp_all add: position_scope_def SHARED_CONTEXT_SCOPE_def dir_scope_def concat_slash_join)
  have plain: "list_all plain_segment (''positions'' # path)" "list_all plain_segment [''context'']"
    using assms(4) by (simp_all add: plain_segment_def)
  show thesis
  proof (cases e)
    case None
    then have none: "case normalized_segments (memory_scope r) of Some (m # ms) \<Rightarrow> False | _ \<Rightarrow> True"
      using memory_entry [OF e] by (auto split: option.splits list.splits)
    show thesis
      using e None path plain none
      by (intro that [of "[''positions'' # path, [''context'']]"])
         (auto simp: deriveContextScope_def base worker_dirs_def Let_def split: option.splits list.splits)
  next
    case (Some s)
    then obtain m ms where m: "normalized_segments (memory_scope r) = Some (m # ms)" "s = dir_scope (m # ms)"
      using memory_entry [OF e] by (auto split: option.splits list.splits)
    note pm = normalized_segments_plain [OF m(1)]
    let ?base = "[''positions'' # path, [''context'']]"
    have mem: "s \<in> dir_scope ` set ?base \<longleftrightarrow> m # ms \<in> set ?base"
      unfolding m(2) using dir_scope_inj [OF pm plain(1)] dir_scope_inj [OF pm plain(2)] by auto
    have derived: "deriveContextScope d r Tier_worker
        = Inr (if s \<in> dir_scope ` set ?base then map dir_scope ?base else map dir_scope ?base @ [s])"
      using e Some path by (simp add: deriveContextScope_def base Let_def)
    show thesis
    proof (cases "m # ms \<in> set ?base")
      case True
      then show thesis using derived mem plain m
        by (intro that [of ?base]) (auto simp: worker_dirs_def)
    next
      case False
      then show thesis using derived mem plain m pm
        by (intro that [of "?base @ [m # ms]"]) (auto simp: worker_dirs_def)
    qed
  qed
qed

lemma derive_position_total:
  assumes "document_wf d" "r \<in> set (od_roles d)"
  obtains p where "derive_position d r = Inr p"
proof (cases "tier_for d r")
  case Tier_owner
  then show thesis by (intro that) (simp add: derive_position_def deriveContextScope_def)
next
  case Tier_worker
  obtain path where path: "positionDirectorySegments (od_roles d) (role_id r) = Some path"
    "path \<noteq> []" "list_all plain_segment path"
    using directory_of_position [OF assms] by metis
  obtain dss where "deriveContextScope d r Tier_worker = Inr (map dir_scope dss)"
    using worker_context_scope [OF assms path(1,3,2)] by metis
  then show thesis using Tier_worker by (intro that) (simp add: derive_position_def)
qed

lemma derive_positions_get:
  "derive_positions d rs acc = Inr ps \<Longrightarrow> distinct (map role_id rs) \<Longrightarrow>
   map_get ps i = (case find_role rs i of
       None \<Rightarrow> map_get acc i
     | Some r \<Rightarrow> (case derive_position d r of Inr p \<Rightarrow> Some p | Inl _ \<Rightarrow> None))"
proof (induction d rs acc rule: derive_positions.induct)
  case (1 d acc)
  then show ?case by (simp add: find_role_def)
next
  case (2 d r rs acc)
  then obtain p where p: "derive_position d r = Inr p" by (auto simp: accepts)
  have "find_role rs (role_id r) = None"
    using 2(3) find_role_Some [of rs "role_id r"]
    by (cases "find_role rs (role_id r)") (simp, metis distinct.simps(2) list.simps(9) imageI list.set_map)
  then show ?case using 2 p
    by (auto simp: find_role_def split: option.splits)
qed

lemma derive_positions_total:
  "(\<And>r. r \<in> set rs \<Longrightarrow> \<exists>p. derive_position d r = Inr p) \<Longrightarrow> \<exists>ps. derive_positions d rs acc = Inr ps"
proof (induction rs arbitrary: acc)
  case Nil
  show ?case by simp
next
  case (Cons r rs)
  then obtain p where "derive_position d r = Inr p" by auto
  then show ?case using Cons by auto
qed

lemma derive_total:
  assumes "document_wf d"
  obtains perms where "deriveOrganizationPermissions d = Inr perms"
    "op_owner perms = od_owner d" "op_business perms = od_business d"
    "\<And>i. map_get (op_positions perms) i = (case find_role (od_roles d) i of
        None \<Rightarrow> None | Some r \<Rightarrow> (case derive_position d r of Inr p \<Rightarrow> Some p | Inl _ \<Rightarrow> None))"
proof -
  have "\<exists>ps. derive_positions d (od_roles d) [] = Inr ps"
    using derive_position_total [OF assms] by (intro derive_positions_total) blast
  then obtain ps where ps: "derive_positions d (od_roles d) [] = Inr ps" by blast
  show thesis
    using ps assms derive_positions_get [OF ps]
    by (intro that [of "\<lparr>op_business = od_business d, op_owner = od_owner d, op_positions = ps\<rparr>"])
       (auto simp: deriveOrganizationPermissions_def document_wf_def split: option.split)
qed

section \<open>The derived table is a well-formed artifact\<close>











lemma worker_access:
  assumes "document_wf d" "r \<in> set (od_roles d)" "role_id r \<noteq> od_owner d"
    and "deriveOrganizationPermissions d = Inr perms"
    and "positionDirectorySegments (od_roles d) (role_id r) = Some path"
  shows "evaluateContextAccess perms (role_id r) requested = (case normalized_segments requested of
      None \<Rightarrow> Inl Path_invalid
    | Some segs \<Rightarrow> Inr (if list_ex (\<lambda>ds. prefix ds segs) (worker_dirs r path) then Allowed
                        else Denied Context_denied (od_owner d)))"
proof -
  have path: "path \<noteq> []" "list_all plain_segment path"
    using directory_of_position [OF assms(1,2)] assms(5) by (metis option.inject)+
  obtain dss where dss: "deriveContextScope d r Tier_worker = Inr (map dir_scope dss)"
    "set dss = set (worker_dirs r path)" "list_all (list_all plain_segment) dss"
    using worker_context_scope [OF assms(1,2,5) path(2,1)] by metis
  obtain perms' where perms': "deriveOrganizationPermissions d = Inr perms'"
    "op_owner perms' = od_owner d"
    "\<And>i. map_get (op_positions perms') i = (case find_role (od_roles d) i of
        None \<Rightarrow> None | Some r \<Rightarrow> (case derive_position d r of Inr p \<Rightarrow> Some p | Inl _ \<Rightarrow> None))"
    using derive_total [OF assms(1)] by metis
  have same: "perms' = perms" using perms'(1) assms(4) by simp
  have "find_role (od_roles d) (role_id r) = Some r"
    using assms(1,2) by (intro find_role_unique) (auto simp: document_wf_def)
  then obtain p where p: "map_get (op_positions perms) (role_id r) = Some p" "pp_read p = map dir_scope dss"
    using perms'(3) [of "role_id r"] dss(1) assms(3) same by (auto simp: derive_position_def tier_for_def)
  show ?thesis
    unfolding context_access_dirs [OF p dss(3)] using dss(2) perms'(2) same
    by (auto simp: list_ex_iff split: option.split)
qed

section \<open>Properties\<close>

definition sample_role :: "string \<Rightarrow> jsval \<Rightarrow> jsval \<Rightarrow> jsval" where
  "sample_role i superior tools = JObj [(''id'', JStr i), (''name'', JStr i), (''description'', JStr i),
     (''reportTo'', superior),
     (''package'', JObj [(''name'', JStr i), (''version'', JStr ''1''),
        (''digest'', JStr (''sha256:'' @ replicate 64 (CHR ''a''))), (''localReference'', JStr ''p'')]),
     (''memoryScope'', JStr ''./notes''), (''toolAllow'', tools),
     (''toolDeny'', JArr [JStr ''Glob'']), (''metadata'', JObj []),
     (''budget'', JObj [(''perTask'', JObj [(''tokens'', JNum 10)]), (''perDay'', JObj [(''tokens'', JNum 90)])])]"

definition sample_document :: jsval where
  "sample_document = JObj [(''schemaVersion'', JStr ''workspace-org.v1''), (''business'', JStr ''acme''),
     (''owner'', JStr ''lead''), (''updatedAt'', JStr ''now''),
     (''roles'', JArr [sample_role ''lead'' JNull (JArr []),
        sample_role ''faq'' (JStr ''lead'') (JArr [JStr ''Read'', JStr ''Write'', JStr ''Glob''])])]"

definition sample_parsed :: "string \<Rightarrow> string option \<Rightarrow> string list \<Rightarrow> org_role" where
  "sample_parsed i superior tools = \<lparr>role_id = i, role_name = i, role_description = i,
     report_to = superior,
     role_package = \<lparr>pk_name = i, pk_version = ''1'',
       pk_digest = ''sha256:'' @ replicate 64 (CHR ''a''), pk_reference = ''p''\<rparr>,
     role_mode = Mode_read_only, memory_scope = ''./notes'', tool_allow = tools,
     tool_deny = [''Glob''], role_metadata = [],
     role_budget = \<lparr>per_task = \<lparr>scope_tokens = Some 10, scope_iterations = None\<rparr>,
       per_day = \<lparr>scope_tokens = Some 90, scope_iterations = None\<rparr>\<rparr>\<rparr>"

definition sample_model :: org_document where
  "sample_model = \<lparr>od_business = ''acme'', od_description = [], od_owner = ''lead'',
     od_roles = [sample_parsed ''lead'' None [], sample_parsed ''faq'' (Some ''lead'') [''Read'', ''Write'', ''Glob'']],
     od_updated_at = ''now''\<rparr>"

lemma sample_accepted: "validateOrganizationDocument sample_document = Inr sample_model"
  by code_simp

definition sample_worker :: org_role where
  "sample_worker = od_roles sample_model ! 1"

definition sample_table :: org_permissions where
  "sample_table = (case deriveOrganizationPermissions sample_model of
      Inr p \<Rightarrow> p | Inl _ \<Rightarrow> sample_permissions)"

lemma sample_worker_mem: "sample_worker \<in> set (od_roles sample_model)"
proof -
  have "length (od_roles sample_model) = 2" by code_simp
  then show ?thesis by (simp add: sample_worker_def)
qed

lemma sample_facts:
  "deriveOrganizationPermissions sample_model = Inr sample_table"
  "role_id sample_worker = ''faq''"
  "od_owner sample_model = ''lead''"
  "positionDirectorySegments (od_roles sample_model) ''faq'' = Some [''lead'', ''faq'']"
proof -
  have "case deriveOrganizationPermissions sample_model of Inr _ \<Rightarrow> True | Inl _ \<Rightarrow> False"
    by code_simp
  then show "deriveOrganizationPermissions sample_model = Inr sample_table"
    by (auto simp: sample_table_def split: sum.splits)
  show "role_id sample_worker = ''faq''" by code_simp
  show "od_owner sample_model = ''lead''" by code_simp
  show "positionDirectorySegments (od_roles sample_model) ''faq'' = Some [''lead'', ''faq'']" by code_simp
qed



text \<open>a worker reads exactly its own directory subtree, the shared context directory and its
  declared memory scope: every other path that normalizes is denied and redirected to the
  owner, every path that does not is refused.\<close>

theorem workers_read_only_their_own_scope:
  assumes "validateOrganizationDocument v = Inr d"
    and "r \<in> set (od_roles d)" and "role_id r \<noteq> od_owner d"
    and "deriveOrganizationPermissions d = Inr perms"
    and "positionDirectorySegments (od_roles d) (role_id r) = Some path"
  shows "evaluateContextAccess perms (role_id r) requested = (case normalized_segments requested of
      None \<Rightarrow> Inl Path_invalid
    | Some segs \<Rightarrow> Inr (if prefix (''positions'' # path) segs \<or> prefix [''context''] segs \<or>
          (case normalized_segments (memory_scope r) of Some (m # ms) \<Rightarrow> prefix (m # ms) segs | _ \<Rightarrow> False)
        then Allowed else Denied Context_denied (od_owner d)))"
  using worker_access [OF validated_document_wf [OF assms(1)] assms(2-5)]
  by (auto simp: worker_dirs_def split: option.splits list.splits)

theorem workers_read_only_their_own_scope_witness:
  "evaluateContextAccess sample_table ''faq'' ''./positions/lead/spec.md'' = Inr (Denied Context_denied ''lead'')
   \<and> evaluateContextAccess sample_table ''faq'' ''positions/lead/faq/spec.md'' = Inr Allowed
   \<and> evaluateContextAccess sample_table ''faq'' ''notes/today'' = Inr Allowed"
proof -
  have "role_id sample_worker \<noteq> od_owner sample_model"
    and "positionDirectorySegments (od_roles sample_model) (role_id sample_worker) = Some [''lead'', ''faq'']"
    by (simp_all add: sample_facts)
  note t = workers_read_only_their_own_scope
    [OF sample_accepted sample_worker_mem this(1) sample_facts(1) this(2), unfolded sample_facts(2)]
  have "normalized_segments ''./positions/lead/spec.md'' = Some [''positions'', ''lead'', ''spec.md'']"
    "normalized_segments ''positions/lead/faq/spec.md'' = Some [''positions'', ''lead'', ''faq'', ''spec.md'']"
    "normalized_segments ''notes/today'' = Some [''notes'', ''today'']"
    "normalized_segments (memory_scope sample_worker) = Some [''notes'']"
    by code_simp+
  then show ?thesis unfolding t by (simp add: sample_facts)
qed

text \<open>in a validated document every position has a directory, the loop that computes it ends
  without finding a cycle, and the directory is the reporting line from a root down to the
  position, in segments that are safe path components.\<close>

theorem directory_is_the_reporting_line:
  assumes "validateOrganizationDocument v = Inr d" and "r \<in> set (od_roles d)"
  shows "\<exists>path. positionDirectorySegments (od_roles d) (role_id r) = Some path
    \<and> path \<noteq> [] \<and> last path = role_id r \<and> successively (reports_to (od_roles d)) path
    \<and> at_root (od_roles d) (hd path) \<and> list_all plain_segment path"
  using directory_of_position [OF validated_document_wf [OF assms(1)] assms(2)] by metis

theorem directory_is_the_reporting_line_witness:
  "\<exists>path. positionDirectorySegments (od_roles sample_model) ''faq'' = Some path \<and> last path = ''faq''
     \<and> list_all plain_segment path"
  using directory_is_the_reporting_line [OF sample_accepted sample_worker_mem] sample_facts(2) by auto

text \<open>the organization's budget validator and the engine's accept the same declarations with the
  same result, up to unknown keys beside the two scopes, which only the organization rejects.\<close>

theorem budget_validators_agree_on_scopes:
  "validatePositionBudget i v = Inr b \<longleftrightarrow>
     validatePositionBudgetDeclaration v = Inr b \<and> set (js_keys v) \<subseteq> set BUDGET_SCOPE_KEYS"
  by (rule budget_validators_agree)

end
