(* ===== verification/PositionConnectors.thy ===== *)
theory PositionConnectors
  imports CoreContracts OrgDerivation
begin

text \<open>
  packages/core/src/position-connectors.ts: the connectors a position declares, each with the names of the environment
  variables it may read. The registry of connectors is the parameter \<open>registered\<close>.
\<close>

datatype connector_kind = Channel_kind | Source_kind

datatype connector_error =
    Connector_field_invalid string
  | Connector_field_unknown string
  | Connector_inline_credential string
  | Connector_duplicate connector_kind string
  | Connector_unregistered connector_kind string
  | Connector_schema_unsupported

record connector_binding =
  cb_id :: string
  cb_env :: "(string \<times> string) list option"

record position_connectors =
  cn_channels :: "connector_binding list"
  cn_sources :: "connector_binding list"

definition MAX_BINDINGS :: nat where
  "MAX_BINDINGS = 16"

definition MAX_ENV_ENTRIES :: nat where
  "MAX_ENV_ENTRIES = 16"

text \<open>A character of one class followed by at most \<open>n\<close> of another: the shape of the three patterns.\<close>

definition bounded_name :: "(char \<Rightarrow> bool) \<Rightarrow> (char \<Rightarrow> bool) \<Rightarrow> nat \<Rightarrow> string \<Rightarrow> bool" where
  "bounded_name first rest n s = (case s of [] \<Rightarrow> False | c # r \<Rightarrow> first c \<and> list_all rest r \<and> length r \<le> n)"

definition CONNECTOR_ID_PATTERN :: "string \<Rightarrow> bool" where
  "CONNECTOR_ID_PATTERN = bounded_name (\<lambda>c. is_lower c \<or> is_digit c)
     (\<lambda>c. is_lower c \<or> is_digit c \<or> c = CHR ''.'' \<or> c = CHR ''_'' \<or> c = CHR ''-'') 127"

definition ENV_NAME_PATTERN :: "string \<Rightarrow> bool" where
  "ENV_NAME_PATTERN = bounded_name is_upper (\<lambda>c. is_upper c \<or> is_digit c \<or> c = CHR ''_'') 127"

definition ENV_KEY_PATTERN :: "string \<Rightarrow> bool" where
  "ENV_KEY_PATTERN = bounded_name (\<lambda>c. is_upper c \<or> is_lower c) word_char 63"

text \<open>One alternative of the credential pattern at the head of a text, whatever the case.\<close>

definition credential_head :: "string \<Rightarrow> bool" where
  "credential_head s =
     (list_ex (\<lambda>lit. literal_length lit s \<noteq> None) [''ghp_'', ''github_pat_'', ''sk-'', ''-----begin''] \<or>
      (literal_length ''xox'' s \<noteq> None \<and> (case drop 3 s of
         c # d # _ \<Rightarrow> lower_char c \<in> set ''baprs'' \<and> d = CHR ''-'' | _ \<Rightarrow> False)) \<or>
      (literal_length ''bearer'' s \<noteq> None \<and> (case drop 6 s of c # _ \<Rightarrow> js_space c | [] \<Rightarrow> False)))"

definition CREDENTIAL_VALUE_PATTERN :: "string \<Rightarrow> bool" where
  "CREDENTIAL_VALUE_PATTERN s = list_ex (\<lambda>n. credential_head (drop n s)) [0..<length s]"

definition knownKeys :: "jsval \<Rightarrow> string list \<Rightarrow> string \<Rightarrow> connector_error + jsval" where
  "knownKeys v allowed label =
     ensure (is_plain_object v) (Connector_field_invalid label)
       (case List.find (\<lambda>k. k \<notin> set allowed) (js_keys v) of
          Some k \<Rightarrow> Inl (Connector_field_unknown (label @ ''.'' @ k)) | None \<Rightarrow> Inr v)"

definition require_text :: "jsval \<Rightarrow> string \<Rightarrow> (string \<Rightarrow> bool) \<Rightarrow> nat \<Rightarrow> connector_error + string" where
  "require_text v label pattern n = (case js_str v of
      None \<Rightarrow> Inl (Connector_field_invalid label)
    | Some s \<Rightarrow> ensure (\<not> (s = [] \<or> length s > n \<or> \<not> pattern s)) (Connector_field_invalid label) (Inr s))"

fun read_env :: "string \<Rightarrow> (string \<times> jsval) list \<Rightarrow> connector_error + (string \<times> string) list" where
  "read_env label [] = Inr []"
| "read_env label ((k, v) # kvs) =
     ensure (\<not> (\<not> ENV_KEY_PATTERN k \<or> length k > 64)) (Connector_field_invalid (label @ ''.'' @ k))
    (case js_str v of
       None \<Rightarrow> Inl (Connector_inline_credential (label @ ''.'' @ k))
     | Some entry \<Rightarrow>
        ensure (\<not> CREDENTIAL_VALUE_PATTERN entry) (Connector_inline_credential (label @ ''.'' @ k))
       (ensure (ENV_NAME_PATTERN entry) (Connector_inline_credential (label @ ''.'' @ k))
       (and_then (read_env label kvs) (\<lambda>env. Inr ((k, entry) # env)))))"

definition validateEnv :: "jsval \<Rightarrow> string \<Rightarrow> connector_error + (string \<times> string) list option" where
  "validateEnv v label =
     (if v = JUndef then Inr None
      else ensure (is_plain_object v) (Connector_field_invalid label)
          (ensure (\<not> length (js_keys v) > MAX_ENV_ENTRIES) (Connector_field_invalid label)
          (and_then (read_env label (object_entries v)) (\<lambda>env. Inr (Some env)))))"

definition kind_label :: "connector_kind \<Rightarrow> string" where
  "kind_label kind = (case kind of Channel_kind \<Rightarrow> ''channels'' | Source_kind \<Rightarrow> ''sources'')"

fun read_bindings ::
  "(connector_kind \<Rightarrow> string \<Rightarrow> bool) \<Rightarrow> connector_kind \<Rightarrow> nat \<Rightarrow> string list \<Rightarrow> jsval list \<Rightarrow>
   connector_error + connector_binding list" where
  "read_bindings registered kind n ids [] = Inr []"
| "read_bindings registered kind n ids (v # vs) =
     (let label = kind_label kind @ ''['' @ dec n @ '']''
      in and_then (knownKeys v [''id'', ''env''] label) (\<lambda>entry.
         and_then (require_text (js_get entry ''id'') (label @ ''.id'') CONNECTOR_ID_PATTERN 128) (\<lambda>i.
         ensure (i \<notin> set ids) (Connector_duplicate kind i)
        (ensure (registered kind i) (Connector_unregistered kind i)
        (and_then (validateEnv (js_get entry ''env'') (label @ ''.env'')) (\<lambda>env.
         and_then (read_bindings registered kind (n + 1) (ids @ [i]) vs) (\<lambda>bindings.
           Inr (\<lparr>cb_id = i, cb_env = env\<rparr> # bindings))))))))"

definition validateBindings ::
  "(connector_kind \<Rightarrow> string \<Rightarrow> bool) \<Rightarrow> connector_kind \<Rightarrow> jsval \<Rightarrow> connector_error + connector_binding list" where
  "validateBindings registered kind v = (case v of
      JArr vs \<Rightarrow> ensure (\<not> length vs > MAX_BINDINGS) (Connector_field_invalid (kind_label kind))
        (read_bindings registered kind 0 [] vs)
    | _ \<Rightarrow> Inl (Connector_field_invalid (kind_label kind)))"

definition validatePositionConnectors ::
  "(connector_kind \<Rightarrow> string \<Rightarrow> bool) \<Rightarrow> jsval \<Rightarrow> connector_error + position_connectors" where
  "validatePositionConnectors registered v =
     and_then (knownKeys v [''schemaVersion'', ''channels'', ''sources''] ''manifest'') (\<lambda>m.
     ensure (js_get m ''schemaVersion'' = JStr ''position-connectors.v1'') Connector_schema_unsupported
    (and_then (validateBindings registered Channel_kind (js_get m ''channels'')) (\<lambda>channels.
     and_then (validateBindings registered Source_kind (js_get m ''sources'')) (\<lambda>sources.
       Inr \<lparr>cn_channels = channels, cn_sources = sources\<rparr>))))"

section \<open>What an accepted declaration holds\<close>

text \<open>An environment entry names a variable, and holds no value.\<close>

definition env_ok :: "(string \<times> string) list option \<Rightarrow> bool" where
  "env_ok env = (case env of
      None \<Rightarrow> True
    | Some kvs \<Rightarrow> list_all (\<lambda>p. ENV_NAME_PATTERN (snd p) \<and> \<not> CREDENTIAL_VALUE_PATTERN (snd p)) kvs)"

definition bindings_ok :: "(connector_kind \<Rightarrow> string \<Rightarrow> bool) \<Rightarrow> connector_kind \<Rightarrow> connector_binding list \<Rightarrow> bool" where
  "bindings_ok registered kind bs \<longleftrightarrow>
     distinct (map cb_id bs) \<and> length bs \<le> MAX_BINDINGS \<and> list_all (\<lambda>b. registered kind (cb_id b) \<and> env_ok (cb_env b)) bs"

lemma read_env_ok: "read_env label kvs = Inr env \<Longrightarrow> env_ok (Some env)"
  by (induction label kvs arbitrary: env rule: read_env.induct) (auto simp: env_ok_def accepts split: option.splits)

lemma validateEnv_ok: "validateEnv v label = Inr env \<Longrightarrow> env_ok env"
  using read_env_ok by (auto simp: validateEnv_def accepts split: if_splits) (simp add: env_ok_def)

lemma read_bindings_ok:
  "read_bindings registered kind n ids vs = Inr bs \<Longrightarrow>
   distinct (map cb_id bs) \<and> set ids \<inter> cb_id ` set bs = {} \<and> length bs = length vs \<and>
   list_all (\<lambda>b. registered kind (cb_id b) \<and> env_ok (cb_env b)) bs"
proof (induction registered kind n ids vs arbitrary: bs rule: read_bindings.induct)
  case (2 registered kind n ids v vs)
  then obtain entry i env bs' where b: "knownKeys v [''id'', ''env''] (kind_label kind @ ''['' @ dec n @ '']'') = Inr entry"
    "require_text (js_get entry ''id'') ((kind_label kind @ ''['' @ dec n @ '']'') @ ''.id'') CONNECTOR_ID_PATTERN 128 = Inr i"
    "i \<notin> set ids" "registered kind i"
    "validateEnv (js_get entry ''env'') ((kind_label kind @ ''['' @ dec n @ '']'') @ ''.env'') = Inr env"
    "read_bindings registered kind (n + 1) (ids @ [i]) vs = Inr bs'" "bs = \<lparr>cb_id = i, cb_env = env\<rparr> # bs'"
    unfolding read_bindings.simps Let_def accepts by blast
  from 2(1) [OF refl b(1,2) b(3,4,5,6)] show ?case using b validateEnv_ok [OF b(5)] by auto
qed auto

lemma validateBindings_ok: "validateBindings registered kind v = Inr bs \<Longrightarrow> bindings_ok registered kind bs"
  using read_bindings_ok by (fastforce simp: validateBindings_def bindings_ok_def accepts split: jsval.splits)

text \<open>The connectors of an accepted declaration are registered ones, each at most once per kind and at most sixteen, and
  every environment entry is the name of a variable: no entry carries a credential.\<close>

theorem connectors_carry_no_credentials:
  "case validatePositionConnectors registered v of
      Inl _ \<Rightarrow> True
    | Inr c \<Rightarrow> bindings_ok registered Channel_kind (cn_channels c) \<and> bindings_ok registered Source_kind (cn_sources c)"
  using validateBindings_ok by (auto simp: validatePositionConnectors_def accepts split: sum.split)

end
