(* ===== verification/OrgModel.thy ===== *)
theory OrgModel
  imports PositionConnectors "HOL-Library.Multiset"
begin

text \<open>
  apps/cli/org/model.ts: the directory tree of the positions, the declarations read from it, the difference to the current
  organization, and \<open>org apply\<close> with its writes in order. The file system is a record of what the reads find; entries
  of a directory are listed in the order the code sorts them. Package inspection and digests, the connector registry and the
  clock are parameters. Position ids hold lower-case letters, digits and hyphens, for which \<open>localeCompare\<close> is the order of
  the code units.
\<close>

section \<open>The directory tree\<close>

text \<open>An entry is a real directory, with or without a regular manifest file in it, or anything else.\<close>

datatype tree_entry = Other_entry string | Directory string bool "tree_entry list"

record scanned_position =
  sp_id :: string
  sp_directory :: string
  sp_report_to :: "string option"
  sp_segments :: "string list"
  sp_depth :: nat

datatype apply_error =
    Workspace_not_initialized
  | Org_model_invalid
  | Org_file_invalid
  | Positions_missing
  | Tree_invalid_position_id
  | Tree_duplicate_position
  | Tree_position_invalid
  | Budget_missing string
  | Budget_invalid string
  | Document_rejected org_error
  | Package_rejected string
  | Connectors_unreadable string
  | Connectors_rejected connector_error
  | State_dir_invalid
  | Derivation_failed derivation_error
  | Write_failed
  | File_error

definition register :: "scanned_position list \<Rightarrow> scanned_position \<Rightarrow> apply_error + scanned_position list" where
  "register positions p =
     ensure (validateName (sp_id p)) Tree_invalid_position_id
    (ensure (sp_id p \<notin> sp_id ` set positions) Tree_duplicate_position (Inr (positions @ [p])))"

definition child_position :: "scanned_position \<Rightarrow> string \<Rightarrow> scanned_position" where
  "child_position parent name = \<lparr>sp_id = name, sp_directory = sp_directory parent @ ''/'' @ name,
     sp_report_to = Some (sp_id parent), sp_segments = sp_segments parent @ [name], sp_depth = sp_depth parent + 1\<rparr>"

fun scanChildren ::
  "scanned_position \<Rightarrow> tree_entry list \<Rightarrow> scanned_position list \<Rightarrow> apply_error + scanned_position list" where
  "scanChildren parent [] positions = Inr positions"
| "scanChildren parent (Other_entry name # entries) positions = scanChildren parent entries positions"
| "scanChildren parent (Directory name manifest below # entries) positions =
     (if \<not> manifest then scanChildren parent entries positions
      else and_then (register positions (child_position parent name)) (\<lambda>positions.
           and_then (scanChildren (child_position parent name) below positions) (\<lambda>positions.
             scanChildren parent entries positions)))"

definition top_position :: "string \<Rightarrow> string \<Rightarrow> scanned_position" where
  "top_position base name = \<lparr>sp_id = name, sp_directory = base @ ''/'' @ name, sp_report_to = None, sp_segments = [name], sp_depth = 1\<rparr>"

fun scan_top :: "string \<Rightarrow> tree_entry list \<Rightarrow> scanned_position list \<Rightarrow> apply_error + scanned_position list" where
  "scan_top base [] positions = Inr positions"
| "scan_top base (Other_entry name # entries) positions = Inl Tree_position_invalid"
| "scan_top base (Directory name manifest below # entries) positions =
     ensure manifest Tree_position_invalid
    (and_then (register positions (top_position base name)) (\<lambda>positions.
     and_then (scanChildren (top_position base name) below positions) (\<lambda>positions.
       scan_top base entries positions)))"

section \<open>The workspace\<close>

text \<open>What reading a JSON file finds: nothing there, an \<open>lstat\<close> that fails for another reason, no regular file, a failing read,
  no JSON, or a value.\<close>

datatype stored_json = No_file | Stat_fails | Not_a_file | Unreadable | Not_json | Json jsval

record package_manifest =
  pm_name :: string
  pm_version :: string
  pm_description :: string
  pm_mode :: position_mode

text \<open>The files of one position; \<open>None\<close> is a package that the inspection or the digest rejects.\<close>

record position_files =
  pf_budget :: stored_json
  pf_package :: "(package_manifest \<times> string) option"
  pf_connectors :: stored_json

record change_set =
  ch_hired :: "org_role list"
  ch_moved :: "(string \<times> string option \<times> string option) list"
  ch_dismissed :: "org_role list"
  ch_budget_updated :: "string list"

record audit_entry =
  oa_at :: string
  oa_bootstrapped :: bool
  oa_changes :: change_set
  oa_position_count :: nat

record workspace =
  ws_directory :: bool
  ws_root :: string
  ws_tree :: "tree_entry list option"
  ws_files :: "string \<Rightarrow> position_files"
  ws_organization :: stored_json
  ws_state_dir :: "bool option"
  ws_model :: stored_json
  ws_audit :: "audit_entry list"
  ws_permissions :: "org_permissions option"

definition scanPositionsTree :: "workspace \<Rightarrow> apply_error + scanned_position list" where
  "scanPositionsTree w = (case ws_tree w of
      None \<Rightarrow> Inl Positions_missing | Some entries \<Rightarrow> scan_top (ws_root w @ ''/positions'') entries [])"

section \<open>Declarations\<close>

record position_declaration =
  pd_position :: scanned_position
  pd_manifest :: package_manifest
  pd_budget :: position_budget
  pd_digest :: string
  pd_connectors :: "position_connectors option"

definition readOptionalConnectors ::
  "(connector_kind \<Rightarrow> string \<Rightarrow> bool) \<Rightarrow> string \<Rightarrow> stored_json \<Rightarrow> apply_error + position_connectors option" where
  "readOptionalConnectors registered i f = (case f of
      No_file \<Rightarrow> Inr None
    | Json v \<Rightarrow> (case validatePositionConnectors registered v of
          Inl e \<Rightarrow> Inl (Connectors_rejected e) | Inr c \<Rightarrow> Inr (Some c))
    | _ \<Rightarrow> Inl (Connectors_unreadable i))"

definition read_budget :: "string \<Rightarrow> stored_json \<Rightarrow> apply_error + position_budget" where
  "read_budget i f = (case f of
      No_file \<Rightarrow> Inl (Budget_missing i)
    | Stat_fails \<Rightarrow> Inl File_error
    | Json v \<Rightarrow> (case validatePositionBudget i v of Inl e \<Rightarrow> Inl (Document_rejected e) | Inr b \<Rightarrow> Inr b)
    | _ \<Rightarrow> Inl (Budget_invalid i))"

definition readPositionDeclaration ::
  "(connector_kind \<Rightarrow> string \<Rightarrow> bool) \<Rightarrow> workspace \<Rightarrow> scanned_position \<Rightarrow> apply_error + position_declaration" where
  "readPositionDeclaration registered w p =
     (let files = ws_files w (sp_directory p)
      in and_then (read_budget (sp_id p) (pf_budget files)) (\<lambda>budget.
         case pf_package files of
           None \<Rightarrow> Inl (Package_rejected (sp_id p))
         | Some (manifest, digest) \<Rightarrow>
             and_then (readOptionalConnectors registered (sp_id p) (pf_connectors files)) (\<lambda>connectors.
               Inr \<lparr>pd_position = p, pd_manifest = manifest, pd_budget = budget, pd_digest = digest, pd_connectors = connectors\<rparr>)))"

fun read_declarations ::
  "(connector_kind \<Rightarrow> string \<Rightarrow> bool) \<Rightarrow> workspace \<Rightarrow> scanned_position list \<Rightarrow> apply_error + position_declaration list" where
  "read_declarations registered w [] = Inr []"
| "read_declarations registered w (p # ps) =
     and_then (readPositionDeclaration registered w p) (\<lambda>d. and_then (read_declarations registered w ps) (\<lambda>ds. Inr (d # ds)))"

definition loadOrgModel :: "workspace \<Rightarrow> apply_error + (org_document \<times> bool)" where
  "loadOrgModel w =
     ensure (ws_directory w) Workspace_not_initialized
    (case ws_model w of
       Json v \<Rightarrow> (case validateOrganizationDocument v of Inl _ \<Rightarrow> Inl Org_model_invalid | Inr d \<Rightarrow> Inr (d, False))
     | Not_json \<Rightarrow> Inl Org_model_invalid
     | No_file \<Rightarrow>
        (case ws_organization w of
           Json v \<Rightarrow> (case validateOrganizationDocument v of Inl _ \<Rightarrow> Inl Org_file_invalid | Inr d \<Rightarrow> Inr (d, True))
         | Not_json \<Rightarrow> Inl Org_file_invalid
         | No_file \<Rightarrow> Inl Workspace_not_initialized
         | _ \<Rightarrow> Inl File_error)
     | _ \<Rightarrow> Inl File_error)"

section \<open>The difference and the applied organization\<close>

definition fresh_package :: "position_declaration \<Rightarrow> role_package" where
  "fresh_package x = \<lparr>pk_name = pm_name (pd_manifest x), pk_version = pm_version (pd_manifest x), pk_digest = pd_digest x,
     pk_reference = sp_directory (pd_position x)\<rparr>"

definition buildRoleRecord :: "position_declaration \<Rightarrow> org_role" where
  "buildRoleRecord x = \<lparr>role_id = sp_id (pd_position x), role_name = pm_name (pd_manifest x),
     role_description = pm_description (pd_manifest x), report_to = sp_report_to (pd_position x),
     role_package = fresh_package x, role_mode = pm_mode (pd_manifest x),
     memory_scope = ''./work/'' @ sp_id (pd_position x) @ ''/'', tool_allow = [], tool_deny = [], role_metadata = [],
     role_budget = pd_budget x\<rparr>"

definition diff_position :: "org_document \<Rightarrow> change_set \<Rightarrow> position_declaration \<Rightarrow> change_set" where
  "diff_position current ch x = (case by_id (od_roles current) (sp_id (pd_position x)) of
      None \<Rightarrow> ch\<lparr>ch_hired := ch_hired ch @ [buildRoleRecord x]\<rparr>
    | Some r \<Rightarrow>
        let ch = (if report_to r \<noteq> sp_report_to (pd_position x)
                  then ch\<lparr>ch_moved := ch_moved ch @ [(sp_id (pd_position x), report_to r, sp_report_to (pd_position x))]\<rparr> else ch)
        in if role_budget r \<noteq> pd_budget x
           then ch\<lparr>ch_budget_updated := ch_budget_updated ch @ [sp_id (pd_position x)]\<rparr> else ch)"

definition no_changes :: change_set where
  "no_changes = \<lparr>ch_hired = [], ch_moved = [], ch_dismissed = [], ch_budget_updated = []\<rparr>"

definition diffOrganization :: "org_document \<Rightarrow> position_declaration list \<Rightarrow> change_set" where
  "diffOrganization current xs =
     (foldl (diff_position current) no_changes xs)
       \<lparr>ch_dismissed := filter (\<lambda>r. role_id r \<notin> set (map (\<lambda>x. sp_id (pd_position x)) xs)) (od_roles current)\<rparr>"

definition applied_role :: "org_document \<Rightarrow> position_declaration \<Rightarrow> org_role" where
  "applied_role current x = (case by_id (od_roles current) (sp_id (pd_position x)) of
      None \<Rightarrow> buildRoleRecord x
    | Some r \<Rightarrow> r\<lparr>report_to := sp_report_to (pd_position x), role_package := fresh_package x, role_budget := pd_budget x\<rparr>)"

definition buildAppliedOrganization :: "org_document \<Rightarrow> position_declaration list \<Rightarrow> string \<Rightarrow> org_document" where
  "buildAppliedOrganization current xs updatedAt = \<lparr>od_business = od_business current, od_description = od_description current,
     od_owner = od_owner current, od_roles = map (applied_role current) xs, od_updated_at = updatedAt\<rparr>"

section \<open>Writing it\<close>

text \<open>The model as JSON: members that are undefined are left out.\<close>

definition limit_member :: "string \<Rightarrow> int option \<Rightarrow> (string \<times> jsval) list" where
  "limit_member k x = (case x of None \<Rightarrow> [] | Some n \<Rightarrow> [(k, JNum (of_int n))])"

definition scope_json :: "budget_scope \<Rightarrow> jsval" where
  "scope_json s = JObj (limit_member ''tokens'' (scope_tokens s) @ limit_member ''iterations'' (scope_iterations s))"

definition budget_json :: "position_budget \<Rightarrow> jsval" where
  "budget_json b = JObj [(''perTask'', scope_json (per_task b)), (''perDay'', scope_json (per_day b))]"

definition report_json :: "string option \<Rightarrow> jsval" where
  "report_json x = (case x of None \<Rightarrow> JNull | Some s \<Rightarrow> JStr s)"

definition mode_json :: "position_mode \<Rightarrow> jsval" where
  "mode_json m = JStr (case m of Mode_read_only \<Rightarrow> ''read_only'' | Mode_approval_required \<Rightarrow> ''approval_required'')"

definition package_json :: "role_package \<Rightarrow> jsval" where
  "package_json p = JObj [(''name'', JStr (pk_name p)), (''version'', JStr (pk_version p)), (''digest'', JStr (pk_digest p)),
     (''localReference'', JStr (pk_reference p))]"

definition role_json :: "org_role \<Rightarrow> jsval" where
  "role_json r = JObj [(''id'', JStr (role_id r)), (''name'', JStr (role_name r)), (''description'', JStr (role_description r)),
     (''reportTo'', report_json (report_to r)), (''package'', package_json (role_package r)), (''mode'', mode_json (role_mode r)),
     (''memoryScope'', JStr (memory_scope r)), (''toolAllow'', JArr (map JStr (tool_allow r))),
     (''toolDeny'', JArr (map JStr (tool_deny r))),
     (''metadata'', JObj (map (\<lambda>p. (fst p, JStr (snd p))) (role_metadata r))), (''budget'', budget_json (role_budget r))]"

definition document_json :: "string \<Rightarrow> org_document \<Rightarrow> jsval" where
  "document_json schema d = JObj [(''$schema'', JStr schema), (''schemaVersion'', JStr WORKSPACE_ORG_SCHEMA_VERSION),
     (''business'', JStr (od_business d)), (''description'', JStr (od_description d)), (''owner'', JStr (od_owner d)),
     (''roles'', JArr (map role_json (od_roles d))), (''updatedAt'', JStr (od_updated_at d))]"

text \<open>Which writes succeed: making the state directory, the model, the audit line, the permissions.\<close>

record write_outcome =
  wo_state_dir :: bool
  wo_model :: bool
  wo_audit :: bool
  wo_permissions :: bool

definition ensureOrgStateDir :: "write_outcome \<Rightarrow> workspace \<Rightarrow> apply_error option \<times> workspace" where
  "ensureOrgStateDir o' w = (case ws_state_dir w of
      Some True \<Rightarrow> (None, w)
    | Some False \<Rightarrow> (Some State_dir_invalid, w)
    | None \<Rightarrow> if wo_state_dir o' then (None, w\<lparr>ws_state_dir := Some True\<rparr>) else (Some File_error, w))"

record apply_result =
  ap_model :: org_document
  ap_changes :: change_set
  ap_bootstrapped :: bool
  ap_permissions :: org_permissions

text \<open>What \<open>org apply\<close> decides before it writes.\<close>

definition plan_apply ::
  "(connector_kind \<Rightarrow> string \<Rightarrow> bool) \<Rightarrow> string \<Rightarrow> string \<Rightarrow> workspace \<Rightarrow> apply_error + (org_document \<times> change_set \<times> bool)" where
  "plan_apply registered schema now w =
     and_then (loadOrgModel w) (\<lambda>(current, bootstrapped).
     and_then (scanPositionsTree w) (\<lambda>scanned.
     and_then (read_declarations registered w scanned) (\<lambda>xs.
       let changes = diffOrganization current xs; model = buildAppliedOrganization current xs now
       in case validateOrganizationDocument (document_json schema model) of
            Inl e \<Rightarrow> Inl (Document_rejected e)
          | Inr _ \<Rightarrow> Inr (model, changes, bootstrapped))))"

definition write_apply ::
  "string \<Rightarrow> write_outcome \<Rightarrow> org_document \<Rightarrow> change_set \<Rightarrow> bool \<Rightarrow> workspace \<Rightarrow> (apply_error + apply_result) \<times> workspace" where
  "write_apply schema o' model changes bootstrapped w =
     (if \<not> wo_model o' then (Inl Write_failed, w)
      else let w = w\<lparr>ws_model := Json (document_json schema model)\<rparr>
      in if \<not> wo_audit o' then (Inl Write_failed, w)
      else let w = w\<lparr>ws_audit := ws_audit w @ [\<lparr>oa_at = od_updated_at model, oa_bootstrapped = bootstrapped, oa_changes = changes,
                 oa_position_count = length (od_roles model)\<rparr>]\<rparr>
      in case deriveOrganizationPermissions model of
           Inl e \<Rightarrow> (Inl (Derivation_failed e), w)
         | Inr permissions \<Rightarrow>
            if \<not> wo_permissions o' then (Inl Write_failed, w)
            else (Inr \<lparr>ap_model = model, ap_changes = changes, ap_bootstrapped = bootstrapped, ap_permissions = permissions\<rparr>,
                  w\<lparr>ws_permissions := Some permissions\<rparr>))"

definition applyOrganization ::
  "(connector_kind \<Rightarrow> string \<Rightarrow> bool) \<Rightarrow> string \<Rightarrow> string \<Rightarrow> write_outcome \<Rightarrow> workspace \<Rightarrow> (apply_error + apply_result) \<times> workspace" where
  "applyOrganization registered schema now o' w = (case plan_apply registered schema now w of
      Inl e \<Rightarrow> (Inl e, w)
    | Inr (model, changes, bootstrapped) \<Rightarrow>
        (case ensureOrgStateDir o' w of
           (Some e, w) \<Rightarrow> (Inl e, w)
         | (None, w) \<Rightarrow> write_apply schema o' model changes bootstrapped w))"

section \<open>The reporting tree\<close>

datatype org_tree_node =
  Tree_node (tn_id: string) (tn_name: string) (tn_report_to: "string option") (tn_mode: position_mode) (tn_budget: position_budget)
    (tn_children: "org_tree_node list")

definition children_of :: "org_role list \<Rightarrow> string option \<Rightarrow> org_role list" where
  "children_of roles parent = sort_key role_id (filter (\<lambda>r. report_to r = parent) roles)"

text \<open>The recursion of \<open>build\<close>, on a fuel; \<open>None\<close> when it runs out.\<close>

fun build_node :: "org_role list \<Rightarrow> nat \<Rightarrow> org_role \<Rightarrow> org_tree_node option" where
  "build_node roles 0 r = None"
| "build_node roles (Suc fuel) r =
     map_option (Tree_node (role_id r) (role_name r) (report_to r) (role_mode r) (role_budget r))
       (those (map (build_node roles fuel) (children_of roles (Some (role_id r)))))"

fun node_depth :: "org_tree_node \<Rightarrow> nat" where
  "node_depth (Tree_node _ _ _ _ _ children) = Suc (fold max (map node_depth children) 0)"

record org_tree =
  ot_business :: string
  ot_owner :: string
  ot_updated_at :: string
  ot_position_count :: nat
  ot_depth :: nat
  ot_tree :: "org_tree_node list"

definition buildOrgTree :: "org_document \<Rightarrow> org_tree option" where
  "buildOrgTree model =
     map_option (\<lambda>nodes. \<lparr>ot_business = od_business model, ot_owner = od_owner model, ot_updated_at = od_updated_at model,
         ot_position_count = length (od_roles model), ot_depth = fold max (map node_depth nodes) 0, ot_tree = nodes\<rparr>)
       (those (map (build_node (od_roles model) (length (od_roles model))) (children_of (od_roles model) None)))"

section \<open>The scanned tree\<close>

text \<open>What holds of every scanned position among all of them: its segments lead from a top-level position to it along
  the reporting lines, without repetition.\<close>

definition scanned_ok :: "string \<Rightarrow> scanned_position list \<Rightarrow> scanned_position \<Rightarrow> bool" where
  "scanned_ok base ps p \<longleftrightarrow>
     validateName (sp_id p) \<and> sp_segments p \<noteq> [] \<and> last (sp_segments p) = sp_id p \<and> distinct (sp_segments p) \<and>
     set (sp_segments p) \<subseteq> sp_id ` set ps \<and> sp_depth p = length (sp_segments p) \<and>
     sp_directory p = base @ concat (map (\<lambda>s. ''/'' @ s) (sp_segments p)) \<and>
     successively (\<lambda>a b. \<exists>q \<in> set ps. sp_id q = b \<and> sp_report_to q = Some a) (sp_segments p) \<and>
     (\<exists>q \<in> set ps. sp_id q = hd (sp_segments p) \<and> sp_report_to q = None)"

definition scan_inv :: "string \<Rightarrow> scanned_position list \<Rightarrow> bool" where
  "scan_inv base ps \<longleftrightarrow> distinct (map sp_id ps) \<and> list_all (scanned_ok base ps) ps"

lemma scanned_ok_more:
  assumes "scanned_ok base ps p" "set ps \<subseteq> set qs"
  shows "scanned_ok base qs p"
proof -
  have "successively (\<lambda>a b. \<exists>q \<in> set qs. sp_id q = b \<and> sp_report_to q = Some a) (sp_segments p)"
    using assms by (auto simp: scanned_ok_def elim!: successively_mono)
  then show ?thesis using assms unfolding scanned_ok_def by blast
qed

lemma register_inv:
  assumes "register ps p = Inr qs" "scan_inv base ps"
    and "(\<exists>parent \<in> set ps. p = child_position parent (sp_id p)) \<or> p = top_position base (sp_id p)"
  shows "qs = ps @ [p] \<and> scan_inv base qs"
proof -
  have r: "qs = ps @ [p]" "validateName (sp_id p)" "sp_id p \<notin> sp_id ` set ps"
    using assms(1) by (auto simp: register_def accepts)
  have "scanned_ok base qs p"
    using assms(3)
  proof
    assume "\<exists>parent \<in> set ps. p = child_position parent (sp_id p)"
    then obtain q where q: "q \<in> set ps" "p = child_position q (sp_id p)" by blast
    then have p: "sp_segments p = sp_segments q @ [sp_id p]" "sp_report_to p = Some (sp_id q)"
      "sp_depth p = sp_depth q + 1" "sp_directory p = sp_directory q @ ''/'' @ sp_id p"
      by (metis child_position_def scanned_position.simps)+
    have "scanned_ok base qs q" using assms(2) q(1) r(1) scanned_ok_more [of base ps q qs] by (auto simp: scan_inv_def list_all_iff)
    moreover have "set (sp_segments q) \<subseteq> sp_id ` set ps" using assms(2) q(1) by (auto simp: scan_inv_def list_all_iff scanned_ok_def)
    ultimately show ?thesis using p r unfolding scanned_ok_def by (auto simp: successively_append_iff)
  next
    assume t: "p = top_position base (sp_id p)"
    then have "sp_segments p = [sp_id p]" "sp_report_to p = None" "sp_depth p = 1" "sp_directory p = base @ ''/'' @ sp_id p"
      by (metis top_position_def scanned_position.simps)+
    then show ?thesis using r unfolding scanned_ok_def by auto
  qed
  moreover have "list_all (scanned_ok base qs) ps"
    using assms(2) r(1) scanned_ok_more [of base ps _ qs] by (auto simp: scan_inv_def list_all_iff)
  ultimately show ?thesis using assms(2) r by (simp add: scan_inv_def)
qed

lemma scanChildren_inv:
  "scanChildren parent es ps = Inr qs \<Longrightarrow> scan_inv base ps \<Longrightarrow> parent \<in> set ps \<Longrightarrow> set ps \<subseteq> set qs \<and> scan_inv base qs"
proof (induction parent es ps arbitrary: qs rule: scanChildren.induct)
  case (3 parent name manifest below entries ps)
  show ?case
  proof (cases manifest)
    case True
    obtain ps1 ps2 where s: "register ps (child_position parent name) = Inr ps1"
      "scanChildren (child_position parent name) below ps1 = Inr ps2" "scanChildren parent entries ps2 = Inr qs"
      using "3.prems"(1) True by (auto simp: accepts)
    have "sp_id (child_position parent name) = name" by (simp add: child_position_def)
    then have r: "ps1 = ps @ [child_position parent name]" "scan_inv base ps1"
      using register_inv [OF s(1) "3.prems"(2)] "3.prems"(3) by auto
    then have "set ps1 \<subseteq> set ps2" "scan_inv base ps2" using "3.IH"(2) [OF _ s(1,2)] True by auto
    then show ?thesis using "3.IH"(3) [OF _ s(1,2,3)] True r "3.prems"(3) by auto
  next
    case False
    then show ?thesis using "3.IH"(1) "3.prems" by auto
  qed
qed auto

lemma scan_top_inv:
  "scan_top base es ps = Inr qs \<Longrightarrow> scan_inv base ps \<Longrightarrow> scan_inv base qs"
proof (induction base es ps arbitrary: qs rule: scan_top.induct)
  case (3 base name manifest below entries ps)
  obtain ps1 ps2 where s: "register ps (top_position base name) = Inr ps1"
    "scanChildren (top_position base name) below ps1 = Inr ps2" "scan_top base entries ps2 = Inr qs"
    using "3.prems"(1) by (auto simp: accepts)
  have "sp_id (top_position base name) = name" by (simp add: top_position_def)
  then have r: "ps1 = ps @ [top_position base name]" "scan_inv base ps1" using register_inv [OF s(1) "3.prems"(2)] by auto
  then have "scan_inv base ps2" using scanChildren_inv [OF s(2)] by auto
  moreover have manifest using "3.prems"(1) by (simp add: accepts)
  ultimately show ?case using "3.IH" [OF _ s(1,2,3)] by blast
qed auto

lemma scan_ok: "scanPositionsTree w = Inr ps \<Longrightarrow> scan_inv (ws_root w @ ''/positions'') ps"
  using scan_top_inv by (auto simp: scanPositionsTree_def scan_inv_def split: option.splits)

section \<open>The directory tree is the reporting tree\<close>

text \<open>The walk up from a position does not depend on what was visited and collected before, and meets no position twice.\<close>

lemma walk_split:
  "directory_walk roles visited segments current = Some path \<Longrightarrow>
   \<exists>line. path = line @ segments \<and> distinct line \<and> set line \<inter> set visited = {} \<and>
     (\<forall>v s. set v \<inter> set line = {} \<longrightarrow> directory_walk roles v s current = Some (line @ s))"
proof (induction roles visited segments current arbitrary: path rule: directory_walk.induct)
  case (1 roles visited segments current)
  have new: "current \<notin> set visited" using "1.prems" by (subst (asm) directory_walk.simps) (auto split: if_splits)
  show ?case
  proof (cases "case by_id roles current of None \<Rightarrow> None | Some r \<Rightarrow> report_to r")
    case None
    then have e: "directory_walk roles v s current = (if current \<in> set v then None else Some (current # s))" for v s
      by (subst directory_walk.simps) (auto split: option.splits)
    show ?thesis using "1.prems" new by (intro exI [of _ "[current]"]) (auto simp: e)
  next
    case (Some s)
    then obtain r where r: "by_id roles current = Some r" "report_to r = Some s" by (auto split: option.splits)
    have e: "directory_walk roles v z current =
        (if current \<in> set v then None else directory_walk roles (current # v) (current # z) s)" for v z
      using r by (subst directory_walk.simps) simp
    obtain line where l: "path = line @ current # segments" "distinct line" "set line \<inter> set (current # visited) = {}"
      "\<forall>v z. set v \<inter> set line = {} \<longrightarrow> directory_walk roles v z s = Some (line @ z)"
      using "1.IH" [OF new r, of path] "1.prems" new by (auto simp: e)
    show ?thesis using l new by (intro exI [of _ "line @ [current]"]) (auto simp: e)
  qed
qed

text \<open>A line without repetition that follows the reporting lines down from a root is what the walk finds.\<close>

lemma walk_of_line:
  assumes "distinct line" "line \<noteq> []" "successively (reports_to roles) line" "at_root roles (hd line)"
  shows "positionDirectorySegments roles (last line) = Some line"
proof -
  have "directory_walk roles v s (last line) = Some (line @ s)" if "set v \<inter> set line = {}" for v s
    using assms that
  proof (induction line arbitrary: v s rule: rev_induct)
    case (snoc x xs)
    show ?case
    proof (cases "xs = []")
      case True
      then show ?thesis
        using snoc.prems by (subst directory_walk.simps) (auto simp: at_root_def split: option.splits)
    next
      case False
      then have x: "reports_to roles (last xs) x" "successively (reports_to roles) xs" "at_root roles (hd xs)"
        using snoc.prems by (auto simp: successively_append_iff)
      then obtain r where r: "by_id roles x = Some r" "report_to r = Some (last xs)" by (auto simp: reports_to_def)
      have "directory_walk roles (x # v) (x # s) (last xs) = Some (xs @ x # s)"
        using snoc.prems x False by (intro snoc.IH) auto
      then show ?thesis using r snoc.prems by (subst directory_walk.simps) auto
    qed
  qed simp
  then show ?thesis by (simp add: positionDirectorySegments_def)
qed

text \<open>The roles of the applied organization are the scanned positions, in order.\<close>

lemma applied_role_facts [simp]:
  "role_id (applied_role d x) = sp_id (pd_position x)" "report_to (applied_role d x) = sp_report_to (pd_position x)"
  "role_budget (applied_role d x) = pd_budget x" "role_package (applied_role d x) = fresh_package x"
  by (auto simp: applied_role_def buildRoleRecord_def split: option.split dest: by_id_Some)

lemma by_id_mem: "distinct (map role_id roles) \<Longrightarrow> r \<in> set roles \<Longrightarrow> by_id roles (role_id r) = Some r"
  by (simp add: by_id_find find_role_unique)

lemma declared_positions: "read_declarations registered w ps = Inr xs \<Longrightarrow> map pd_position xs = ps"
  by (induction ps arbitrary: xs)
    (auto simp: accepts readPositionDeclaration_def Let_def split: option.splits)

lemma applied_positions:
  assumes "map pd_position xs = ps" "scan_inv base ps" "p \<in> set ps"
  shows "positionDirectorySegments (od_roles (buildAppliedOrganization d xs now)) (sp_id p) = Some (sp_segments p)"
proof -
  let ?roles = "map (applied_role d) xs"
  have "map role_id ?roles = map sp_id ps" using assms(1) by auto
  then have dist: "distinct (map role_id ?roles)" using assms(2) by (simp add: scan_inv_def)
  have role: "\<exists>r \<in> set ?roles. role_id r = sp_id q \<and> report_to r = sp_report_to q" if "q \<in> set ps" for q
    using that assms(1) by force
  have got: "\<exists>r. by_id ?roles (sp_id q) = Some r \<and> report_to r = sp_report_to q" if "q \<in> set ps" for q
    using role [OF that] by_id_mem [OF dist] by metis
  have ok: "scanned_ok base ps p" using assms(2,3) by (simp add: scan_inv_def list_all_iff)
  have "successively (reports_to ?roles) (sp_segments p)"
  proof (rule successively_mono)
    show "successively (\<lambda>a b. \<exists>q \<in> set ps. sp_id q = b \<and> sp_report_to q = Some a) (sp_segments p)"
      using ok by (simp add: scanned_ok_def)
    show "reports_to ?roles a b" if "\<exists>q \<in> set ps. sp_id q = b \<and> sp_report_to q = Some a" for a b
      using that got unfolding reports_to_def by metis
  qed
  moreover have "at_root ?roles (hd (sp_segments p))"
  proof -
    obtain q where q: "q \<in> set ps" "sp_id q = hd (sp_segments p)" "sp_report_to q = None" using ok by (auto simp: scanned_ok_def)
    then show ?thesis using got [OF q(1)] by (auto simp: at_root_def)
  qed
  ultimately have "positionDirectorySegments ?roles (last (sp_segments p)) = Some (sp_segments p)"
    using ok by (intro walk_of_line) (auto simp: scanned_ok_def)
  then show ?thesis using ok by (simp add: scanned_ok_def buildAppliedOrganization_def)
qed

section \<open>What is written is read back\<close>

lemma scope_json_read: "scope_of (scope_json s) = s"
proof -
  have "js_get (scope_json s) ''tokens'' = (case scope_tokens s of None \<Rightarrow> JUndef | Some n \<Rightarrow> JNum (of_int n))"
    "js_get (scope_json s) ''iterations'' = (case scope_iterations s of None \<Rightarrow> JUndef | Some n \<Rightarrow> JNum (of_int n))"
    by (auto simp: scope_json_def limit_member_def split: option.split)
  then show ?thesis by (cases s) (auto simp: scope_of_def split: option.split)
qed

lemma budget_json_read: "validatePositionBudget i (budget_json b) = Inr b' \<Longrightarrow> b' = b"
proof -
  assume "validatePositionBudget i (budget_json b) = Inr b'"
  then obtain t d where "validate_scope i (budget_json b) ''perTask'' = Inr t" "validate_scope i (budget_json b) ''perDay'' = Inr d"
    "b' = \<lparr>per_task = t, per_day = d\<rparr>"
    by (auto simp: validatePositionBudget_def split: if_splits sum.splits)
  moreover have "js_get (budget_json b) ''perTask'' = scope_json (per_task b)" "js_get (budget_json b) ''perDay'' = scope_json (per_day b)"
    by (simp_all add: budget_json_def)
  ultimately show ?thesis by (simp add: validate_scope_iff scope_json_read)
qed

lemma tools_json_read: "read_tools detail n (map JStr ts) = Inr us \<Longrightarrow> us = ts"
  by (induction ts arbitrary: n us) (auto simp: doc_invalid_def accepts split: if_splits)

lemma package_json_read: "read_package n (package_json p) = Inr q \<Longrightarrow> q = p"
  by (cases p) (auto simp: read_package_def package_json_def requireString_def accepts)

lemma report_json_read: "read_report_to n (report_json x) = Inr y \<Longrightarrow> y = x"
  by (auto simp: read_report_to_def report_json_def accepts split: option.splits)

lemma mode_json_read: "read_mode n (mode_json m) = Inr m' \<Longrightarrow> m' = m"
  by (cases m) (auto simp: read_mode_def mode_json_def doc_invalid_def split: if_splits)

text \<open>Metadata that was once read: no key twice, none that assignment drops.\<close>

definition metadata_ok :: "(string, string) jsmap \<Rightarrow> bool" where
  "metadata_ok m \<longleftrightarrow> map_wf m \<and> ''__proto__'' \<notin> fst ` set m"

lemma metadata_json_read:
  "read_metadata n (map (\<lambda>p. (fst p, JStr (snd p))) kvs) m = Inr m' \<Longrightarrow> metadata_ok (m @ kvs) \<Longrightarrow> m' = m @ kvs"
proof (induction kvs arbitrary: m)
  case (Cons p kvs)
  then have "assign_primitive m (fst p) (snd p) = m @ [p]"
    by (cases p) (auto simp: metadata_ok_def map_wf_def assign_primitive_def map_set_absent map_has_def)
  then show ?case using Cons.IH [of "m @ [p]"] Cons.prems by simp
qed simp

lemma metadata_empty: "metadata_ok []"
  by (simp add: metadata_ok_def)

lemma read_metadata_ok: "read_metadata n kvs m = Inr m' \<Longrightarrow> metadata_ok m \<Longrightarrow> metadata_ok m'"
proof (induction n kvs m rule: read_metadata.induct)
  case (2 n k v kvs m)
  have "metadata_ok (assign_primitive m k s)" for s
    using 2(3) by (auto simp: metadata_ok_def assign_primitive_def keys_map_set)
  then show ?case using 2(1,2) by (auto simp: doc_invalid_def split: option.splits)
qed simp

lemma role_metadata_ok: "read_role n seen v = Inr r \<Longrightarrow> metadata_ok (role_metadata r)"
  by (auto simp: read_role_def accepts dest: read_metadata_ok [OF _ metadata_empty])

lemma roles_metadata_ok: "read_roles n seen vs = Inr rs \<Longrightarrow> r \<in> set rs \<Longrightarrow> metadata_ok (role_metadata r)"
  by (induction n seen vs arbitrary: rs rule: read_roles.induct) (auto simp: accepts dest: role_metadata_ok)


lemma role_json_get:
  "js_get (role_json r) ''id'' = JStr (role_id r)" "js_get (role_json r) ''name'' = JStr (role_name r)"
  "js_get (role_json r) ''description'' = JStr (role_description r)" "js_get (role_json r) ''reportTo'' = report_json (report_to r)"
  "js_get (role_json r) ''package'' = package_json (role_package r)" "js_get (role_json r) ''mode'' = mode_json (role_mode r)"
  "js_get (role_json r) ''memoryScope'' = JStr (memory_scope r)" "js_get (role_json r) ''toolAllow'' = JArr (map JStr (tool_allow r))"
  "js_get (role_json r) ''toolDeny'' = JArr (map JStr (tool_deny r))"
  "js_get (role_json r) ''metadata'' = JObj (map (\<lambda>p. (fst p, JStr (snd p))) (role_metadata r))"
  "js_get (role_json r) ''budget'' = budget_json (role_budget r)"
  by (simp_all add: role_json_def)

lemma role_json_read:
  assumes "read_role n seen (role_json r) = Inr q" "metadata_ok (role_metadata r)"
  shows "q = r"
  using assms(1) metadata_json_read [of n "role_metadata r" "[]"] assms(2)
  unfolding read_role_def accepts role_json_get requireString_def readToolList_def object_entries_def
  by (cases r) (auto dest!: report_json_read package_json_read mode_json_read tools_json_read budget_json_read)

lemma roles_json_read:
  "read_roles n seen (map role_json rs) = Inr qs \<Longrightarrow> list_all (\<lambda>r. metadata_ok (role_metadata r)) rs \<Longrightarrow> qs = rs"
  by (induction rs arbitrary: n seen qs) (auto simp: accepts dest!: role_json_read)

lemma document_json_get:
  "js_get (document_json schema d) ''business'' = JStr (od_business d)"
  "js_get (document_json schema d) ''description'' = JStr (od_description d)"
  "js_get (document_json schema d) ''owner'' = JStr (od_owner d)"
  "js_get (document_json schema d) ''roles'' = JArr (map role_json (od_roles d))"
  "js_get (document_json schema d) ''updatedAt'' = JStr (od_updated_at d)"
  by (simp_all add: document_json_def)

lemma document_json_read:
  assumes "validateOrganizationDocument (document_json schema d) = Inr e" "list_all (\<lambda>r. metadata_ok (role_metadata r)) (od_roles d)"
  shows "e = d"
proof -
  obtain rs where r: "read_roles 0 [] (map role_json (od_roles d)) = Inr rs" "od_roles e = rs"
    "od_business e = od_business d" "od_description e = od_description d" "od_owner e = od_owner d" "od_updated_at e = od_updated_at d"
    using assms(1) unfolding validateOrganizationDocument_def accepts roles_case document_json_get requireString_def
    by (auto simp del: read_roles.simps)
  then show ?thesis using roles_json_read [OF r(1) assms(2)] by (cases d, cases e) simp
qed


section \<open>Applying\<close>

lemma loaded_metadata:
  assumes "loadOrgModel w = Inr (d, b)"
  shows "list_all (\<lambda>r. metadata_ok (role_metadata r)) (od_roles d)"
proof -
  obtain v where v: "validateOrganizationDocument v = Inr d"
    using assms by (auto simp: loadOrgModel_def accepts split: stored_json.splits sum.splits)
  obtain vs where "read_roles 0 [] vs = Inr (od_roles d)"
    using v unfolding validateOrganizationDocument_def accepts roles_case by (auto simp del: read_roles.simps)
  then show ?thesis using roles_metadata_ok by (auto simp: list_all_iff)
qed

lemma applied_metadata:
  "list_all (\<lambda>r. metadata_ok (role_metadata r)) (od_roles d) \<Longrightarrow>
   list_all (\<lambda>r. metadata_ok (role_metadata r)) (od_roles (buildAppliedOrganization d xs now))"
  by (auto simp: buildAppliedOrganization_def applied_role_def buildRoleRecord_def list_all_iff metadata_empty
      split: option.split dest: by_id_Some)

lemma plan_facts:
  assumes "plan_apply registered schema now w = Inr (m, ch, b)"
  obtains current ps xs where "loadOrgModel w = Inr (current, b)" "scanPositionsTree w = Inr ps"
    "read_declarations registered w ps = Inr xs" "m = buildAppliedOrganization current xs now"
    "ch = diffOrganization current xs" "validateOrganizationDocument (document_json schema m) = Inr m"
proof -
  obtain current b' ps xs where p: "loadOrgModel w = Inr (current, b')" "scanPositionsTree w = Inr ps"
    "read_declarations registered w ps = Inr xs"
    and j: "(case validateOrganizationDocument (document_json schema (buildAppliedOrganization current xs now)) of
        Inl e \<Rightarrow> Inl (Document_rejected e)
      | Inr _ \<Rightarrow> Inr (buildAppliedOrganization current xs now, diffOrganization current xs, b')) = Inr (m, ch, b)"
    using assms unfolding plan_apply_def Let_def accepts case_prod_beta by (metis prod.collapse)
  obtain m' where q: "b' = b" "m = buildAppliedOrganization current xs now" "ch = diffOrganization current xs"
    "validateOrganizationDocument (document_json schema m) = Inr m'"
    using j by (cases "validateOrganizationDocument (document_json schema (buildAppliedOrganization current xs now))") auto
  have "m' = m" using document_json_read [OF q(4)] applied_metadata [OF loaded_metadata [OF p(1)]] q(2) by simp
  then show thesis using p q that by simp
qed

lemma derivation_succeeds: "validateOrganizationDocument v = Inr m \<Longrightarrow> \<exists>p. deriveOrganizationPermissions m = Inr p"
  using derive_total [OF validated_document_wf] by metis

text \<open>What an apply leaves behind.\<close>

definition untouched :: "workspace \<Rightarrow> workspace \<Rightarrow> bool" where
  "untouched w w' \<longleftrightarrow> ws_model w' = ws_model w \<and> ws_audit w' = ws_audit w \<and> ws_permissions w' = ws_permissions w"

definition applied_to :: "string \<Rightarrow> workspace \<Rightarrow> apply_error + apply_result \<Rightarrow> workspace \<Rightarrow> org_document \<Rightarrow> bool" where
  "applied_to schema w r w' m \<longleftrightarrow>
     ws_model w' = Json (document_json schema m) \<and> validateOrganizationDocument (document_json schema m) = Inr m \<and>
     (case r of
        Inl e \<Rightarrow> e = Write_failed
      | Inr x \<Rightarrow> ap_model x = m \<and> deriveOrganizationPermissions m = Inr (ap_permissions x) \<and>
          ws_permissions w' = Some (ap_permissions x) \<and>
          ws_audit w' = ws_audit w @ [\<lparr>oa_at = od_updated_at m, oa_bootstrapped = ap_bootstrapped x,
            oa_changes = ap_changes x, oa_position_count = length (od_roles m)\<rparr>])"

lemma state_dir_untouched: "ensureOrgStateDir o' w = (e, w') \<Longrightarrow> untouched w w' \<and> w' = w\<lparr>ws_state_dir := ws_state_dir w'\<rparr>"
  by (auto simp: ensureOrgStateDir_def untouched_def split: option.splits bool.splits if_splits)

lemma write_applied:
  assumes "validateOrganizationDocument (document_json schema m) = Inr m" "write_apply schema o' m ch b w = (r, w')"
  shows "untouched w w' \<and> r = Inl Write_failed \<or> applied_to schema w r w' m"
proof -
  obtain p where "deriveOrganizationPermissions m = Inr p" using derivation_succeeds [OF assms(1)] by blast
  then show ?thesis
    using assms by (auto simp: write_apply_def untouched_def applied_to_def Let_def split: if_splits)
qed

text \<open>C25: An apply validates everything before its first write. Either it leaves the model, the audit log and the permissions as
  they were and fails, or the stored model is one the validator reads back unchanged; then the only failure left is a
  failing write, and a success has appended one audit entry and stored the permissions derived from that model.\<close>

theorem apply_validates_before_it_writes:
  "case applyOrganization registered schema now o' w of
      (r, w') \<Rightarrow> untouched w w' \<and> (case r of Inl _ \<Rightarrow> True | Inr _ \<Rightarrow> False) \<or> (\<exists>m. applied_to schema w r w' m)"
proof -
  obtain r w' where r: "applyOrganization registered schema now o' w = (r, w')" by fastforce
  show ?thesis
  proof (cases "plan_apply registered schema now w")
    case (Inl e)
    then show ?thesis using r by (auto simp: applyOrganization_def untouched_def)
  next
    case (Inr plan)
    obtain m ch b where m: "plan = (m, ch, b)" by (cases plan) auto
    then have v: "validateOrganizationDocument (document_json schema m) = Inr m" using plan_facts Inr by metis
    obtain e w1 where e: "ensureOrgStateDir o' w = (e, w1)" by fastforce
    note u = state_dir_untouched [OF e]
    show ?thesis
    proof (cases e)
      case None
      then have "write_apply schema o' m ch b w1 = (r, w')" using r Inr m e by (simp add: applyOrganization_def)
      from write_applied [OF v this] u show ?thesis using r by (auto simp: untouched_def applied_to_def split: sum.splits)
    qed (use r Inr m e u in \<open>auto simp: applyOrganization_def\<close>)
  qed
qed


text \<open>A success, and what an apply does not touch.\<close>

lemma apply_success:
  assumes "applyOrganization registered schema now o' w = (Inr x, w')"
  shows "plan_apply registered schema now w = Inr (ap_model x, ap_changes x, ap_bootstrapped x) \<and>
    ws_model w' = Json (document_json schema (ap_model x)) \<and> ws_directory w' = ws_directory w \<and> ws_root w' = ws_root w \<and>
    ws_tree w' = ws_tree w \<and> ws_files w' = ws_files w"
  using assms
  by (auto simp: applyOrganization_def ensureOrgStateDir_def write_apply_def Let_def
      split: sum.splits prod.splits option.splits bool.splits if_splits)

lemma restamp:
  assumes "validateOrganizationDocument (document_json schema d) = Inr d" "t \<noteq> []"
  shows "validateOrganizationDocument (document_json schema (d\<lparr>od_updated_at := t\<rparr>)) = Inr (d\<lparr>od_updated_at := t\<rparr>)"
proof -
  have "js_keys (document_json schema e) = DOCUMENT_KEYS" "js_get (document_json schema e) ''$schema'' = JStr schema"
    "js_get (document_json schema e) ''schemaVersion'' = JStr WORKSPACE_ORG_SCHEMA_VERSION" for e
    by (simp_all add: document_json_def DOCUMENT_KEYS_def)
  then show ?thesis
    using assms unfolding validateOrganizationDocument_def accepts roles_case document_json_get requireString_def
    by (cases d) (auto simp del: read_roles.simps simp: document_json_def)
qed

lemma same_files: "ws_files w' = ws_files w \<Longrightarrow> read_declarations registered w' ps = read_declarations registered w ps"
  by (induction ps) (simp_all add: readPositionDeclaration_def)

lemma applied_again:
  assumes "distinct (map (\<lambda>x. sp_id (pd_position x)) xs)"
  shows "diffOrganization (buildAppliedOrganization d xs now) xs = no_changes \<and>
    buildAppliedOrganization (buildAppliedOrganization d xs now) xs later = (buildAppliedOrganization d xs now)\<lparr>od_updated_at := later\<rparr>"
proof -
  let ?m = "buildAppliedOrganization d xs now"
  have r: "od_roles ?m = map (applied_role d) xs" by (simp add: buildAppliedOrganization_def)
  have g: "by_id (od_roles ?m) (sp_id (pd_position x)) = Some (applied_role d x)" if "x \<in> set xs" for x
    using by_id_mem [of "od_roles ?m" "applied_role d x"] that assms by (simp add: r comp_def)
  have "foldl (diff_position ?m) no_changes ys = no_changes" if "set ys \<subseteq> set xs" for ys
    using that by (induction ys rule: rev_induct) (auto simp: diff_position_def g Let_def)
  then have "diffOrganization ?m xs = no_changes" by (auto simp: diffOrganization_def r no_changes_def)
  moreover have "applied_role ?m x = applied_role d x" if "x \<in> set xs" for x
    unfolding applied_role_def [of ?m] using g [OF that] applied_role_facts [of d x] by (cases "applied_role d x") simp
  then have "map (applied_role ?m) xs = map (applied_role d) xs" by simp
  then have "buildAppliedOrganization ?m xs later = ?m\<lparr>od_updated_at := later\<rparr>"
    unfolding buildAppliedOrganization_def [of ?m] by (simp add: buildAppliedOrganization_def)
  ultimately show ?thesis by blast
qed

text \<open>Applying again what has just been applied changes nothing: the stored model is read back as it was, no position is
  hired, moved or dismissed, no budget is updated, and only the time stamp is new.\<close>

theorem apply_is_stable:
  "case applyOrganization registered schema now o' w of
      (Inl _, _) \<Rightarrow> True
    | (Inr x, w') \<Rightarrow>
        if later = [] then True
        else plan_apply registered schema later w' = Inr ((ap_model x)\<lparr>od_updated_at := later\<rparr>, no_changes, False)"
proof -
  have "plan_apply registered schema later w' = Inr ((ap_model x)\<lparr>od_updated_at := later\<rparr>, no_changes, False)"
    if a: "applyOrganization registered schema now o' w = (Inr x, w')" and l: "later \<noteq> []" for x w'
  proof -
    note s = apply_success [OF a]
    then obtain current ps xs where p: "scanPositionsTree w = Inr ps" "read_declarations registered w ps = Inr xs"
      "ap_model x = buildAppliedOrganization current xs now"
      "validateOrganizationDocument (document_json schema (ap_model x)) = Inr (ap_model x)"
      using plan_facts by metis
    have "map (\<lambda>x. sp_id (pd_position x)) xs = map sp_id ps" using declared_positions [OF p(2)] by auto
    then have d: "distinct (map (\<lambda>x. sp_id (pd_position x)) xs)" using scan_ok [OF p(1)] by (simp add: scan_inv_def)
    have dir: "ws_directory w" using s by (auto simp: plan_apply_def loadOrgModel_def accepts)
    have "loadOrgModel w' = Inr (ap_model x, False)" using s p(4) dir by (simp add: loadOrgModel_def ensure_Inr)
    moreover have "scanPositionsTree w' = scanPositionsTree w"
      using s by (simp add: scanPositionsTree_def split: option.split)
    moreover have "read_declarations registered w' ps = Inr xs" using s p(2) same_files [of w' w] by simp
    ultimately show ?thesis
      using applied_again [OF d, of current now later] restamp [OF p(4) l] p(1,3) by (simp add: plan_apply_def Let_def)
  qed
  then show ?thesis by (auto split: prod.split sum.split)
qed

text \<open>A position whose reporting line, as directories, is the directory it was found in.\<close>

definition in_place :: "workspace \<Rightarrow> org_document \<Rightarrow> scanned_position \<Rightarrow> bool" where
  "in_place w m p \<longleftrightarrow> positionDirectorySegments (od_roles m) (sp_id p) = Some (sp_segments p) \<and>
     sp_directory p = ws_root w @ ''/positions'' @ concat (map (\<lambda>s. ''/'' @ s) (sp_segments p))"

text \<open>C26: After an apply the organization is the directory tree: its roles are the scanned positions, and the directory computed
  for a position from the reporting lines, which its read permissions are built on, is the directory it was found in.\<close>

theorem directories_are_reporting_lines:
  "case (scanPositionsTree w, applyOrganization registered schema now o' w) of
      (Inr ps, (Inr x, _)) \<Rightarrow>
        map role_id (od_roles (ap_model x)) = map sp_id ps \<and>
        list_all (in_place w (ap_model x)) ps
    | _ \<Rightarrow> True"
proof -
  have "map role_id (od_roles (ap_model x)) = map sp_id ps \<and>
      list_all (in_place w (ap_model x)) ps"
    if s: "scanPositionsTree w = Inr ps" and a: "applyOrganization registered schema now o' w = (Inr x, w')" for ps x w'
  proof -
    obtain current xs where p: "read_declarations registered w ps = Inr xs" "ap_model x = buildAppliedOrganization current xs now"
      using apply_success [OF a] plan_facts s by (metis sum.inject(2))
    note m = declared_positions [OF p(1)] and i = scan_ok [OF s]
    have "map role_id (od_roles (ap_model x)) = map sp_id ps"
      using m p(2) by (auto simp: buildAppliedOrganization_def)
    then show ?thesis
      using applied_positions [OF m i] i p(2) by (auto simp: in_place_def list_all_iff scan_inv_def scanned_ok_def)
  qed
  then show ?thesis
    by (cases "scanPositionsTree w"; cases "fst (applyOrganization registered schema now o' w)")
      (simp_all add: case_prod_beta prod_eq_iff)
qed


section \<open>The tree shows every position once\<close>

text \<open>The line of a role: itself and its superiors, from the root down.\<close>

definition line_of :: "org_role list \<Rightarrow> org_role \<Rightarrow> string list" where
  "line_of roles r = (case positionDirectorySegments roles (role_id r) of None \<Rightarrow> [] | Some p \<Rightarrow> p)"

lemma line_facts:
  assumes "document_wf d" "r \<in> set (od_roles d)"
  shows "positionDirectorySegments (od_roles d) (role_id r) = Some (line_of (od_roles d) r) \<and>
    line_of (od_roles d) r \<noteq> [] \<and> last (line_of (od_roles d) r) = role_id r \<and> distinct (line_of (od_roles d) r) \<and>
    successively (reports_to (od_roles d)) (line_of (od_roles d) r) \<and> set (line_of (od_roles d) r) \<subseteq> role_id ` set (od_roles d)"
proof -
  let ?roles = "od_roles d"
  obtain path where p: "positionDirectorySegments ?roles (role_id r) = Some path" "successively (reports_to ?roles) path"
    "path \<noteq> []" "last path = role_id r" "at_root ?roles (hd path)"
    using directory_of_position [OF assms] by metis
  have "distinct path" using walk_split [of ?roles "[]" "[]" "role_id r" path] p(1) by (auto simp: positionDirectorySegments_def)
  moreover have "x \<in> role_id ` set ?roles" if "x \<in> set path" for x
  proof (cases "x = role_id r")
    case False
    have "path = butlast path @ [role_id r]" using p(3,4) by (metis append_butlast_last_id)
    then have "x \<in> set (butlast path)" using that False by (metis Un_iff empty_iff empty_set insert_iff list.simps(15) set_append)
    then obtain q where "q \<in> set ?roles" "report_to q = Some x" using reports_to_superiors [OF p(2)] by blast
    then show ?thesis using assms(1) by (auto simp: document_wf_def)
  qed (use assms(2) in simp)
  ultimately show ?thesis using p by (auto simp: line_of_def)
qed

lemma line_of_child:
  assumes "document_wf d" "c \<in> set (od_roles d)" "r \<in> set (od_roles d)" "report_to c = Some (role_id r)"
  shows "line_of (od_roles d) c = line_of (od_roles d) r @ [role_id c]"
proof -
  let ?roles = "od_roles d"
  have dist: "distinct (map role_id ?roles)" using assms(1) by (simp add: document_wf_def)
  have "directory_walk ?roles [] [] (role_id c) = Some (line_of ?roles c)"
    using line_facts [OF assms(1,2)] by (simp add: positionDirectorySegments_def)
  then have "directory_walk ?roles [role_id c] [role_id c] (role_id r) = Some (line_of ?roles c)"
    using by_id_mem [OF dist assms(2)] assms(4) by (subst (asm) directory_walk.simps) simp
  from walk_split [OF this] obtain line where "line_of ?roles c = line @ [role_id c]"
    "directory_walk ?roles [] [] (role_id r) = Some line" by fastforce
  then show ?thesis using line_facts [OF assms(1,3)] by (simp add: positionDirectorySegments_def)
qed

lemma line_of_root: "document_wf d \<Longrightarrow> r \<in> set (od_roles d) \<Longrightarrow> report_to r = None \<Longrightarrow> line_of (od_roles d) r = [role_id r]"
proof -
  assume d: "document_wf d" and r: "r \<in> set (od_roles d)" "report_to r = None"
  then have "by_id (od_roles d) (role_id r) = Some r" by (intro by_id_mem) (simp_all add: document_wf_def)
  then have "directory_walk (od_roles d) [] [] (role_id r) = Some [role_id r]" using r by (subst directory_walk.simps) simp
  then show ?thesis by (simp add: line_of_def positionDirectorySegments_def)
qed

lemma line_length: "document_wf d \<Longrightarrow> r \<in> set (od_roles d) \<Longrightarrow> length (line_of (od_roles d) r) \<le> length (od_roles d)"
proof -
  assume d: "document_wf d" and r: "r \<in> set (od_roles d)"
  have "length (line_of (od_roles d) r) = card (set (line_of (od_roles d) r))"
    using line_facts [OF d r] by (simp add: distinct_card)
  also have "\<dots> \<le> card (role_id ` set (od_roles d))" using line_facts [OF d r] by (intro card_mono) auto
  also have "\<dots> \<le> length (od_roles d)" by (metis card_length length_map list.set_map)
  finally show ?thesis .
qed

text \<open>The roles at or below a role.\<close>

definition below :: "org_role list \<Rightarrow> org_role \<Rightarrow> string set" where
  "below roles r = role_id ` {q \<in> set roles. prefix (line_of roles r) (line_of roles q)}"

fun node_ids :: "org_tree_node \<Rightarrow> string list" where
  "node_ids (Tree_node i _ _ _ _ children) = i # concat (map node_ids children)"

lemma set_children: "c \<in> set (children_of roles p) \<longleftrightarrow> c \<in> set roles \<and> report_to c = p"
  by (auto simp: children_of_def)

text \<open>Below a role are the role itself and what is below its direct reports.\<close>

lemma below_children:
  assumes "document_wf d" "r \<in> set (od_roles d)"
  shows "below (od_roles d) r = insert (role_id r) (\<Union>c \<in> set (children_of (od_roles d) (Some (role_id r))). below (od_roles d) c)"
    and "\<forall>c \<in> set (children_of (od_roles d) (Some (role_id r))). role_id r \<notin> below (od_roles d) c"
proof -
  let ?roles = "od_roles d"
  let ?l = "line_of ?roles"
  have dist: "distinct (map role_id ?roles)" using assms(1) by (simp add: document_wf_def)
  have child: "?l c = ?l r @ [role_id c]" if "c \<in> set (children_of ?roles (Some (role_id r)))" for c
    using that line_of_child [OF assms(1) _ assms(2)] by (auto simp: set_children)
  show "\<forall>c \<in> set (children_of ?roles (Some (role_id r))). role_id r \<notin> below ?roles c"
  proof
    fix c assume c: "c \<in> set (children_of ?roles (Some (role_id r)))"
    show "role_id r \<notin> below ?roles c"
    proof
      assume "role_id r \<in> below ?roles c"
      then obtain q where q: "q \<in> set ?roles" "role_id q = role_id r" "prefix (?l c) (?l q)" by (auto simp: below_def)
      then have "q = r" using dist assms(2) by (metis by_id_mem option.inject)
      then show False using q(3) child [OF c] prefix_length_le [of "?l c" "?l r"] by simp
    qed
  qed
  have down: "role_id q = role_id r \<or> (\<exists>c \<in> set (children_of ?roles (Some (role_id r))). prefix (?l c) (?l q))"
    if q: "q \<in> set ?roles" "prefix (?l r) (?l q)" for q
  proof -
    obtain zs where z: "?l q = ?l r @ zs" using q(2) by (auto simp: prefix_def)
    show ?thesis
    proof (cases zs)
      case Nil
      then show ?thesis using z line_facts [OF assms] line_facts [OF assms(1) q(1)] by simp
    next
      case (Cons x xs)
      then have "reports_to ?roles (last (?l r)) x"
        using line_facts [OF assms(1) q(1)] line_facts [OF assms] z by (simp add: successively_append_iff)
      then obtain c where c: "by_id ?roles x = Some c" "report_to c = Some (role_id r)"
        using line_facts [OF assms] by (auto simp: reports_to_def)
      then have "c \<in> set (children_of ?roles (Some (role_id r)))" "role_id c = x" using by_id_Some by (auto simp: set_children)
      then have "prefix (?l c) (?l q)" using child [of c] z Cons by (auto intro: prefixI [of _ _ xs])
      then show ?thesis using \<open>c \<in> set (children_of _ _)\<close> by blast
    qed
  qed
  show "below ?roles r = insert (role_id r) (\<Union>c \<in> set (children_of ?roles (Some (role_id r))). below ?roles c)"
  proof
    show "below ?roles r \<subseteq> insert (role_id r) (\<Union>c \<in> set (children_of ?roles (Some (role_id r))). below ?roles c)"
      using down unfolding below_def by blast
    have "prefix (?l r) (?l q)" if "c \<in> set (children_of ?roles (Some (role_id r)))" "prefix (?l c) (?l q)" for c q
      using that child [OF that(1)] by (auto simp: prefix_def)
    then show "insert (role_id r) (\<Union>c \<in> set (children_of ?roles (Some (role_id r))). below ?roles c) \<subseteq> below ?roles r"
      using assms(2) unfolding below_def by auto
  qed
qed

lemma below_disjoint:
  assumes "document_wf d" "a \<in> set (od_roles d)" "b \<in> set (od_roles d)" "role_id a \<noteq> role_id b"
    "length (line_of (od_roles d) a) = length (line_of (od_roles d) b)"
  shows "below (od_roles d) a \<inter> below (od_roles d) b = {}"
proof -
  let ?roles = "od_roles d"
  have dist: "distinct (map role_id ?roles)" using assms(1) by (simp add: document_wf_def)
  have "False" if "p \<in> set ?roles" "q \<in> set ?roles" "role_id p = role_id q"
    "prefix (line_of ?roles a) (line_of ?roles p)" "prefix (line_of ?roles b) (line_of ?roles q)" for p q
  proof -
    have "p = q" using that dist by (metis by_id_mem option.inject)
    then have "line_of ?roles a = line_of ?roles b" using that(4,5) assms(5) by (auto simp: prefix_def append_eq_append_conv)
    then show False using line_facts [OF assms(1,2)] line_facts [OF assms(1,3)] assms(4) by simp
  qed
  then show ?thesis unfolding below_def by fastforce
qed


lemma those_map:
  "(\<And>x. x \<in> set xs \<Longrightarrow> \<exists>y. f x = Some y \<and> P x y) \<Longrightarrow> \<exists>ys. those (map f xs) = Some ys \<and> list_all2 P xs ys"
proof (induction xs)
  case (Cons x xs)
  then obtain y ys where "f x = Some y" "P x y" "those (map f xs) = Some ys" "list_all2 P xs ys" by fastforce
  then show ?case by auto
qed simp

text \<open>A list of trees that show disjoint sets without repetition shows their union without repetition.\<close>

definition shows_below :: "org_role list \<Rightarrow> org_role \<Rightarrow> org_tree_node \<Rightarrow> bool" where
  "shows_below roles r t \<longleftrightarrow> distinct (node_ids t) \<and> set (node_ids t) = below roles r"

lemma forest_ids:
  assumes "list_all2 (shows_below roles) rs ts" "distinct (map role_id rs)"
    and "\<And>a b. a \<in> set rs \<Longrightarrow> b \<in> set rs \<Longrightarrow> role_id a \<noteq> role_id b \<Longrightarrow> below roles a \<inter> below roles b = {}"
  shows "distinct (concat (map node_ids ts)) \<and> set (concat (map node_ids ts)) = (\<Union>r \<in> set rs. below roles r)"
  using assms
proof (induction rs ts rule: list_all2_induct)
  case (Cons r rs t ts)
  have i: "distinct (concat (map node_ids ts)) \<and> set (concat (map node_ids ts)) = (\<Union>r \<in> set rs. below roles r)"
    using Cons by (intro Cons.IH) auto
  have "below roles r \<inter> below roles x = {}" if "x \<in> set rs" for x
    using Cons.prems that by (intro Cons.prems(2)) auto
  then show ?case using i Cons.hyps(1) by (auto simp: shows_below_def)
qed simp

lemma children_distinct: "distinct (map role_id roles) \<Longrightarrow> distinct (map role_id (children_of roles p))"
proof -
  assume d: "distinct (map role_id roles)"
  have "mset (map role_id (children_of roles p)) = mset (map role_id (filter (\<lambda>r. report_to r = p) roles))"
    by (simp add: children_of_def)
  then show ?thesis using d by (metis distinct_map_filter mset_eq_imp_distinct_iff)
qed

lemma build_node_shows:
  assumes "document_wf d"
  shows "r \<in> set (od_roles d) \<Longrightarrow> length (od_roles d) < length (line_of (od_roles d) r) + fuel \<Longrightarrow>
    \<exists>t. build_node (od_roles d) fuel r = Some t \<and> shows_below (od_roles d) r t"
proof (induction fuel arbitrary: r)
  case 0
  then show ?case using line_length [OF assms 0(1)] by simp
next
  case (Suc fuel)
  let ?roles = "od_roles d"
  let ?cs = "children_of ?roles (Some (role_id r))"
  have dist: "distinct (map role_id ?roles)" using assms by (simp add: document_wf_def)
  have mem: "c \<in> set ?roles" "line_of ?roles c = line_of ?roles r @ [role_id c]" if "c \<in> set ?cs" for c
    using that line_of_child [OF assms _ Suc.prems(1)] by (auto simp: set_children)
  have "\<exists>ts. those (map (build_node ?roles fuel) ?cs) = Some ts \<and> list_all2 (shows_below ?roles) ?cs ts"
    using mem Suc.prems(2) by (intro those_map Suc.IH) auto
  then obtain ts where ts: "those (map (build_node ?roles fuel) ?cs) = Some ts" "list_all2 (shows_below ?roles) ?cs ts" by blast
  have "distinct (concat (map node_ids ts)) \<and> set (concat (map node_ids ts)) = (\<Union>c \<in> set ?cs. below ?roles c)"
    using ts(2) children_distinct [OF dist]
    by (rule forest_ids) (rule below_disjoint [OF assms], auto simp: mem)
  then show ?case using ts(1) below_children [OF assms Suc.prems(1)] by (auto simp: shows_below_def)
qed

text \<open>C27: For every document the validator accepts, building the reporting tree ends, and the tree shows every position of the
  organization exactly once.\<close>

theorem tree_shows_every_position_once:
  "case validateOrganizationDocument v of
      Inl _ \<Rightarrow> True
    | Inr d \<Rightarrow>
       (case buildOrgTree d of
          None \<Rightarrow> False
        | Some t \<Rightarrow> mset (concat (map node_ids (ot_tree t))) = mset (map role_id (od_roles d)))"
proof (cases "validateOrganizationDocument v")
  case (Inr d)
  note wf = validated_document_wf [OF Inr]
  let ?roles = "od_roles d"
  let ?rs = "children_of ?roles None"
  have dist: "distinct (map role_id ?roles)" using wf by (simp add: document_wf_def)
  have mem: "r \<in> set ?roles" "line_of ?roles r = [role_id r]" if "r \<in> set ?rs" for r
    using that line_of_root [OF wf] by (auto simp: set_children)
  have "\<exists>ts. those (map (build_node ?roles (length ?roles)) ?rs) = Some ts \<and> list_all2 (shows_below ?roles) ?rs ts"
    using mem by (intro those_map build_node_shows [OF wf]) auto
  then obtain ts where ts: "those (map (build_node ?roles (length ?roles)) ?rs) = Some ts" "list_all2 (shows_below ?roles) ?rs ts"
    by blast
  have u: "distinct (concat (map node_ids ts)) \<and> set (concat (map node_ids ts)) = (\<Union>r \<in> set ?rs. below ?roles r)"
    using ts(2) children_distinct [OF dist] by (rule forest_ids) (rule below_disjoint [OF wf], auto simp: mem)
  have "(\<Union>r \<in> set ?rs. below ?roles r) = role_id ` set ?roles"
  proof
    show "(\<Union>r \<in> set ?rs. below ?roles r) \<subseteq> role_id ` set ?roles" by (auto simp: below_def)
    have "\<exists>r \<in> set ?rs. role_id q \<in> below ?roles r" if q: "q \<in> set ?roles" for q
    proof -
      note l = line_facts [OF wf q]
      obtain x xs where x: "line_of ?roles q = x # xs" using l by (cases "line_of ?roles q") auto
      have "directory_walk ?roles [] [] (role_id q) = Some (x # xs)" using l x by (simp add: positionDirectorySegments_def)
      then have "at_root ?roles x" using directory_walk_line [of ?roles "[]" "[]" "role_id q" "x # xs"] by simp
      moreover obtain r where r: "r \<in> set ?roles" "role_id r = x" using l x by auto
      ultimately have "report_to r = None" using by_id_mem [OF dist r(1)] by (simp add: at_root_def)
      then have "r \<in> set ?rs" using r by (simp add: set_children)
      moreover have "prefix (line_of ?roles r) (line_of ?roles q)" using mem(2) [OF \<open>r \<in> set ?rs\<close>] x r by simp
      ultimately show ?thesis using q unfolding below_def by blast
    qed
    then show "role_id ` set ?roles \<subseteq> (\<Union>r \<in> set ?rs. below ?roles r)" by blast
  qed
  then have "mset (concat (map node_ids ts)) = mset (map role_id ?roles)"
    using u dist by (subst set_eq_iff_mset_eq_distinct [symmetric]) auto
  then show ?thesis using Inr ts(1) by (simp add: buildOrgTree_def)
qed simp

end
