(* ===== verification/TurnContract.thy ===== *)
theory TurnContract
  imports OrgPermissions Budget
begin

text \<open>
  packages/engine/src/contracts.ts, approval.ts and output-schema-guard.ts: the turn request and
  its fail-closed validation, the terminal vocabulary, the preview gate and the expiry of a
  verdict, and the preparation of the terminal schema. Fields TypeScript declares as strings are
  strings; the fields whose run-time shape is checked (numbers, the budget declaration, the
  permission artifact, input and schema) are JavaScript values, \<open>JUndef\<close> for an absent one.
  \<open>dparse\<close> is \<open>Date.parse\<close> (None for NaN), \<open>stringify\<close> is \<open>JSON.stringify\<close> (None when it gives
  undefined or throws) and \<open>compile\<close> is Ajv's \<open>compile\<close> on the parsed text (None when it throws).
\<close>

section \<open>The request\<close>

datatype terminal_reason =
    Goal_met
  | Invalid_output_exhausted
  | Turn_budget_exceeded
  | Position_budget_exceeded
  | Iteration_cap
  | Doom_loop
  | Deadline_exceeded
  | Cancelled
  | Permission_denied
  | Memory_unavailable
  | Memory_denied
  | Context_unavailable
  | Context_access_denied
  | Engine_internal_error

record turn_budget =
  tb_max_iterations :: jsval
  tb_max_tokens :: jsval
  tb_max_context_bytes :: jsval

record preview_ref =
  pr_version :: string
  pr_id :: string
  pr_digest :: string
  pr_state :: string

record approval_action =
  aa_kind :: string
  aa_description :: string
  aa_target :: "string option"
  aa_preview :: preview_ref

record pending_approval =
  pa_id :: string
  pa_decision :: string
  pa_decided_by :: string
  pa_scope :: "string option"
  pa_reason :: "string option"
  pa_expires_at :: "string option"

record turn_request =
  tr_workspace :: string
  tr_position :: string
  tr_turn :: string
  tr_run :: string
  tr_input :: jsval
  tr_budget :: turn_budget
  tr_output_schema :: jsval
  tr_instructions :: "string option"
  tr_spec :: "string option"
  tr_deadline :: "string option"
  tr_position_budget :: jsval
  tr_task :: "string option"
  tr_day :: "string option"
  tr_permissions :: jsval
  tr_context_reads :: "string list"
  tr_tools :: "string list"
  tr_approval_action :: "approval_action option"
  tr_pending :: "pending_approval option"
  tr_pendings :: "pending_approval list option"

definition MAX_ID_LENGTH :: nat where
  "MAX_ID_LENGTH = 256"

definition MAX_INPUT_BYTES :: nat where
  "MAX_INPUT_BYTES = 256 * 1024"

definition APPROVAL_ACTION_KINDS :: "string list" where
  "APPROVAL_ACTION_KINDS = [''exec'', ''write'', ''network'', ''tool'']"

definition APPROVAL_DESCRIPTION_MAX_BYTES :: nat where
  "APPROVAL_DESCRIPTION_MAX_BYTES = 1024"

definition APPROVAL_TARGET_MAX_BYTES :: nat where
  "APPROVAL_TARGET_MAX_BYTES = 512"

section \<open>Validation\<close>

text \<open>The left side is the message of the thrown \<open>EngineRequestError\<close>, whose code is always
  \<open>engine.input_invalid\<close>.\<close>

definition assertBoundedId :: "string option \<Rightarrow> string \<Rightarrow> string + string" where
  "assertBoundedId value label = (case value of
      None \<Rightarrow> Inl (label @ '' must be a non-empty string'')
    | Some v \<Rightarrow>
        ensure (length (js_trim v) \<noteq> 0) (label @ '' must be a non-empty string'')
       (ensure (\<not> length v > MAX_ID_LENGTH) (label @ '' exceeds the bounded identifier length'')
       (Inr v)))"

definition assertBoundedText :: "string \<Rightarrow> string \<Rightarrow> nat \<Rightarrow> string + string" where
  "assertBoundedText v label maxBytes =
     ensure (length (js_trim v) \<noteq> 0) (label @ '' must be a non-empty string'')
    (ensure (\<not> utf8_len v > maxBytes) (label @ '' exceeds the bounded size'') (Inr v))"

definition assertOptionalTimestamp ::
  "(string \<Rightarrow> int option) \<Rightarrow> string option \<Rightarrow> string \<Rightarrow> string + unit" where
  "assertOptionalTimestamp dparse value label = (case value of
      None \<Rightarrow> Inr ()
    | Some v \<Rightarrow> ensure (dparse v \<noteq> None) (label @ '' must be a valid ISO 8601 timestamp'') (Inr ()))"

definition positive_integer :: "jsval \<Rightarrow> bool" where
  "positive_integer v = (case js_int v of None \<Rightarrow> False | Some n \<Rightarrow> \<not> n < 1)"

definition validatePendingApproval ::
  "(string \<Rightarrow> int option) \<Rightarrow> pending_approval \<Rightarrow> string \<Rightarrow> string + unit" where
  "validatePendingApproval dparse p label =
     and_then (assertBoundedId (Some (pa_id p)) (label @ ''.approvalId'')) (\<lambda>_.
     ensure (pa_decision p = ''granted'' \<or> pa_decision p = ''denied'')
       (label @ ''.decision must be granted or denied'')
    (ensure (pa_decided_by p = ''operator'') (label @ ''.decidedBy must be operator'')
    (ensure (pa_scope p \<in> {None, Some ''once'', Some ''run''})
       (label @ ''.scope must be once or run when present'')
    (and_then (case pa_reason p of None \<Rightarrow> Inr []
               | Some r \<Rightarrow> assertBoundedText r (label @ ''.reason'') APPROVAL_DESCRIPTION_MAX_BYTES) (\<lambda>_.
     assertOptionalTimestamp dparse (pa_expires_at p) (label @ ''.expiresAt''))))))"

fun validate_batch ::
  "(string \<Rightarrow> int option) \<Rightarrow> nat \<Rightarrow> string list \<Rightarrow> string option \<Rightarrow> pending_approval list \<Rightarrow> string + unit" where
  "validate_batch dparse index ids decision [] = Inr ()"
| "validate_batch dparse index ids decision (p # ps) =
     and_then (validatePendingApproval dparse p (''pendingApprovals['' @ dec index @ '']'')) (\<lambda>_.
     ensure (pa_id p \<notin> set ids) ''pendingApprovals must not repeat an approvalId''
    (ensure (decision = None \<or> decision = Some (pa_decision p))
       ''pendingApprovals must use one decision so recovery is atomic''
    (validate_batch dparse (Suc index) (ids @ [pa_id p]) (Some (pa_decision p)) ps)))"

definition validate_action :: "approval_action \<Rightarrow> string + unit" where
  "validate_action a =
     ensure (aa_kind a \<in> set APPROVAL_ACTION_KINDS)
       ''approvalAction.kind must be one of exec, write, network, tool''
    (and_then (assertBoundedText (aa_description a) ''approvalAction.description''
       APPROVAL_DESCRIPTION_MAX_BYTES) (\<lambda>_.
     and_then (case aa_target a of None \<Rightarrow> Inr []
               | Some t \<Rightarrow> assertBoundedText t ''approvalAction.target'' APPROVAL_TARGET_MAX_BYTES) (\<lambda>_.
     and_then (assertBoundedId (Some (pr_id (aa_preview a))) ''approvalAction.preview.previewId'') (\<lambda>_.
     and_then (assertBoundedId (Some (pr_digest (aa_preview a))) ''approvalAction.preview.previewDigest'') (\<lambda>_.
     and_then (assertBoundedId (Some (pr_version (aa_preview a))) ''approvalAction.preview.version'') (\<lambda>_.
     and_then (assertBoundedId (Some (pr_state (aa_preview a))) ''approvalAction.preview.state'') (\<lambda>_.
       Inr ())))))))"

definition validateApprovalRequestFields ::
  "(string \<Rightarrow> int option) \<Rightarrow> turn_request \<Rightarrow> string + unit" where
  "validateApprovalRequestFields dparse r =
     ensure (\<not> ((tr_approval_action r \<noteq> None \<and> (tr_pending r \<noteq> None \<or> tr_pendings r \<noteq> None)) \<or>
                (tr_pending r \<noteq> None \<and> tr_pendings r \<noteq> None)))
       ''approvalAction, pendingApproval and pendingApprovals are mutually exclusive within one turn''
    (and_then (case tr_approval_action r of None \<Rightarrow> Inr () | Some a \<Rightarrow> validate_action a) (\<lambda>_.
     and_then (case tr_pending r of None \<Rightarrow> Inr ()
               | Some p \<Rightarrow> validatePendingApproval dparse p ''pendingApproval'') (\<lambda>_.
     (case tr_pendings r of
        None \<Rightarrow> Inr ()
      | Some ps \<Rightarrow>
          ensure (\<not> (length ps < 2 \<or> length ps > 32)) ''pendingApprovals must contain 2 to 32 verdicts''
         (validate_batch dparse 0 [] None ps)))))"

definition validateTurnRequest ::
  "(string \<Rightarrow> int option) \<Rightarrow> turn_request \<Rightarrow> string + turn_request" where
  "validateTurnRequest dparse r =
     and_then (assertBoundedId (Some (tr_workspace r)) ''workspaceRef'') (\<lambda>_.
     and_then (assertBoundedId (Some (tr_position r)) ''positionId'') (\<lambda>_.
     and_then (assertBoundedId (Some (tr_turn r)) ''turnId'') (\<lambda>_.
     and_then (assertBoundedId (Some (tr_run r)) ''runId'') (\<lambda>_.
     ensure (\<not> (case tr_input r of JStr s \<Rightarrow> utf8_len s > MAX_INPUT_BYTES | _ \<Rightarrow> False))
       ''turn input exceeds the bounded size''
    (ensure (positive_integer (tb_max_iterations (tr_budget r)))
       ''budget.maxIterations must be a positive integer''
    (ensure (tb_max_tokens (tr_budget r) = JUndef \<or> positive_integer (tb_max_tokens (tr_budget r)))
       ''budget.maxTokens must be a positive integer when present''
    (ensure (tb_max_context_bytes (tr_budget r) = JUndef \<or>
             positive_integer (tb_max_context_bytes (tr_budget r)))
       ''budget.maxContextBytes must be a positive integer when present''
    (and_then (assertOptionalTimestamp dparse (tr_deadline r) ''deadline'') (\<lambda>_.
     and_then
       (if tr_position_budget r = JUndef then Inr []
        else ensure (case validatePositionBudgetDeclaration (tr_position_budget r) of
                       Inl _ \<Rightarrow> False | Inr _ \<Rightarrow> True)
               ''positionBudget must be fully allocated (perTask and perDay caps)''
            (and_then (assertBoundedId (tr_task r) ''taskId'') (\<lambda>_.
             assertBoundedId (tr_day r) ''dayKey''))) (\<lambda>_.
     and_then (validateApprovalRequestFields dparse r) (\<lambda>_.
       Inr r)))))))))))"

section \<open>The approval gate\<close>

definition WRITE_APPROVAL_VERSION :: string where
  "WRITE_APPROVAL_VERSION = ''write-approval.v1''"

definition APPROVAL_REQUIRED_CODE :: string where
  "APPROVAL_REQUIRED_CODE = ''engine.approval_required''"

definition APPROVAL_DENIED_CODE :: string where
  "APPROVAL_DENIED_CODE = ''engine.approval_denied''"

definition APPROVAL_EXPIRED_CODE :: string where
  "APPROVAL_EXPIRED_CODE = ''engine.approval_expired''"

definition APPROVAL_PREVIEW_INVALID_CODE :: string where
  "APPROVAL_PREVIEW_INVALID_CODE = ''engine.approval_preview_invalid''"

text \<open>\<open>None\<close> is allowed; \<open>Some\<close> carries the code and the message of the refusal.\<close>

definition previewGateAllows :: "approval_action \<Rightarrow> (string \<times> string) option" where
  "previewGateAllows a =
     (if pr_version (aa_preview a) \<noteq> WRITE_APPROVAL_VERSION
      then Some (APPROVAL_PREVIEW_INVALID_CODE,
        ''approval request requires a '' @ WRITE_APPROVAL_VERSION @ '' preview, got '' @ pr_version (aa_preview a))
      else if pr_state (aa_preview a) \<noteq> ''preview_validated''
      then Some (APPROVAL_PREVIEW_INVALID_CODE,
        ''approval request requires a preview in state preview_validated, got '' @ pr_state (aa_preview a))
      else None)"

definition pendingApprovalExpired ::
  "(string \<Rightarrow> int option) \<Rightarrow> pending_approval \<Rightarrow> int \<Rightarrow> bool" where
  "pendingApprovalExpired dparse p nowMs = (case pa_expires_at p of
      None \<Rightarrow> False
    | Some s \<Rightarrow> (case dparse s of None \<Rightarrow> True | Some parsed \<Rightarrow> nowMs > parsed))"

section \<open>The terminal schema\<close>

datatype guard_error = Schema_too_large | Schema_invalid

record compiled_schema =
  cs_async :: bool
  cs_validate :: "jsval \<Rightarrow> bool"

definition ENGINE_MAX_OUTPUT_SCHEMA_BYTES :: nat where
  "ENGINE_MAX_OUTPUT_SCHEMA_BYTES = 16 * 1024"

definition prepareTerminalSchema ::
  "(jsval \<Rightarrow> string option) \<Rightarrow> (string \<Rightarrow> compiled_schema option) \<Rightarrow> jsval \<Rightarrow> nat \<Rightarrow>
   guard_error + (jsval \<Rightarrow> bool) option" where
  "prepareTerminalSchema stringify compile schema maxBytes =
     (if schema = JUndef then Inr None
      else (case stringify schema of
          None \<Rightarrow> Inl Schema_invalid
        | Some json \<Rightarrow>
            ensure (length json \<noteq> 0) Schema_invalid
           (ensure (\<not> utf8_len json > maxBytes) Schema_too_large
           (case compile json of
              None \<Rightarrow> Inl Schema_invalid
            | Some compiled \<Rightarrow>
                ensure (\<not> cs_async compiled) Schema_invalid
                  (Inr (Some (cs_validate compiled)))))))"

section \<open>Terminal errors\<close>

definition error_code_char :: "char \<Rightarrow> bool" where
  "error_code_char c = (is_lower c \<or> is_digit c \<or> c = CHR ''.'' \<or> c = CHR ''_'' \<or> c = CHR ''-'')"

text \<open>\<open>/^[a-z0-9][a-z0-9._-]{0,127}$/\<close>\<close>

definition ENGINE_ERROR_CODE_PATTERN :: "string \<Rightarrow> bool" where
  "ENGINE_ERROR_CODE_PATTERN s = (case s of
      [] \<Rightarrow> False
    | c # cs \<Rightarrow> (is_lower c \<or> is_digit c) \<and> length cs \<le> 127 \<and> list_all error_code_char cs)"

record engine_error =
  ee_code :: string
  ee_message :: string
  ee_retryable :: bool
  ee_reason :: terminal_reason

definition terminalError ::
  "string \<Rightarrow> string \<Rightarrow> terminal_reason \<Rightarrow> bool \<Rightarrow> string + engine_error" where
  "terminalError code message reason retryable =
     ensure (ENGINE_ERROR_CODE_PATTERN code)
       (''terminal error code violates the machine-code pattern: '' @ code)
       (Inr \<lparr>ee_code = code, ee_message = message, ee_retryable = retryable, ee_reason = reason\<rparr>)"

end
