(* ===== verification/DoomLoop.thy ===== *)
theory DoomLoop
  imports Prelude
begin

text \<open>
  packages/engine/src/doom-loop.ts: the detector's configuration check, its bounded window of
  output digests and the two counters. \<open>sha\<close> is \<open>digestOutput\<close> (SHA-256 of node:crypto).
\<close>

datatype doom_signal = Sig_none | Sig_repetition | Sig_oscillation

record doom_config =
  repetitionThreshold :: int
  oscillationCycles :: int
  windowSize :: int

definition DEFAULT_DOOM_LOOP_CONFIG :: doom_config where
  "DEFAULT_DOOM_LOOP_CONFIG =
     \<lparr>repetitionThreshold = 3, oscillationCycles = 2, windowSize = 16\<rparr>"

record doom_detector =
  dd_config :: doom_config
  dd_history :: "string list"

text \<open>The constructor: the two thresholds are checked, the window size is not.\<close>

definition new_detector :: "doom_config \<Rightarrow> string + doom_detector" where
  "new_detector c =
     (if repetitionThreshold c < 2 then Inl ''repetitionThreshold must be an integer >= 2''
      else if oscillationCycles c < 1 then Inl ''oscillationCycles must be an integer >= 1''
      else Inr \<lparr>dd_config = c, dd_history = []\<rparr>)"

text \<open>The backward loop of \<open>repetitionCount\<close>, over the reversed history.\<close>

fun count_run :: "string \<Rightarrow> string list \<Rightarrow> nat" where
  "count_run x [] = 0"
| "count_run x (y # ys) = (if y \<noteq> x then 0 else Suc (count_run x ys))"

definition repetition_count :: "string list \<Rightarrow> nat" where
  "repetition_count h = (if h = [] then 0 else count_run (last h) (rev h))"

text \<open>The backward loop of \<open>oscillationCycles\<close>: the expected digest alternates.\<close>

fun count_alternating :: "string \<Rightarrow> string \<Rightarrow> string list \<Rightarrow> nat" where
  "count_alternating x y [] = 0"
| "count_alternating x y (z # zs) = (if z \<noteq> x then 0 else Suc (count_alternating y x zs))"

definition oscillation_cycles :: "string list \<Rightarrow> nat" where
  "oscillation_cycles h =
     (if length h < 4 then 0
      else let a = h ! (length h - 2); b = h ! (length h - 1) in
        if a = b then 0 else count_alternating b a (rev h) div 4)"

definition push_window :: "int \<Rightarrow> string list \<Rightarrow> string \<Rightarrow> string list" where
  "push_window w h d = (let h' = h @ [d] in if int (length h') > w then tl h' else h')"

definition observe :: "(string \<Rightarrow> string) \<Rightarrow> doom_detector \<Rightarrow> string \<Rightarrow> doom_signal \<times> doom_detector" where
  "observe sha dd text =
     (let h = push_window (windowSize (dd_config dd)) (dd_history dd) (sha text);
          dd' = dd\<lparr>dd_history := h\<rparr>
      in (if int (repetition_count h) \<ge> repetitionThreshold (dd_config dd) then Sig_repetition
          else if int (oscillation_cycles h) \<ge> oscillationCycles (dd_config dd)
            then Sig_oscillation
          else Sig_none, dd'))"

definition reset_detector :: "doom_detector \<Rightarrow> doom_detector" where
  "reset_detector dd = dd\<lparr>dd_history := []\<rparr>"

section \<open>The window is a suffix of what was observed\<close>

definition last_n :: "nat \<Rightarrow> 'a list \<Rightarrow> 'a list" where
  "last_n n xs = rev (take n (rev xs))"

definition observed :: "(string \<Rightarrow> string) \<Rightarrow> doom_detector \<Rightarrow> string list \<Rightarrow> doom_detector" where
  "observed sha dd texts = fold (\<lambda>t dd. snd (observe sha dd t)) texts dd"

lemma observe_history:
  "dd_history (snd (observe sha dd t)) =
     push_window (windowSize (dd_config dd)) (dd_history dd) (sha t)"
  "dd_config (snd (observe sha dd t)) = dd_config dd"
  by (simp_all add: observe_def Let_def)

lemma last_n_drop: "last_n n xs = drop (length xs - n) xs"
  by (cases "n \<le> length xs") (simp_all add: last_n_def take_rev)

lemma length_last_n [simp]: "length (last_n n xs) = min n (length xs)"
  by (simp add: last_n_def min_def)

lemma last_n_snoc: "last_n (Suc n) (xs @ [x]) = last_n n xs @ [x]"
  by (simp add: last_n_def)

lemma last_n_all: "length xs \<le> n \<Longrightarrow> last_n n xs = xs"
  by (simp add: last_n_def)

lemma last_n_Suc: "n < length xs \<Longrightarrow> tl (last_n (Suc n) xs) = last_n n xs"
  by (simp add: last_n_drop Suc_diff_Suc tl_drop flip: drop_Suc)

lemma push_last_n:
  assumes "0 < w"
  shows "push_window w (last_n (nat w) xs) x = last_n (nat w) (xs @ [x])"
proof -
  from assms obtain n where n: "nat w = Suc n" by (metis gr0_implies_Suc zero_less_nat_eq)
  then have w: "w = 1 + int n" using assms by simp
  show ?thesis
  proof (cases "n < length xs")
    case True
    then have "length (last_n (Suc n) xs) = Suc n" by simp
    moreover from this have "tl (last_n (Suc n) xs @ [x]) = tl (last_n (Suc n) xs) @ [x]"
      by (metis list.size(3) old.nat.distinct(2) tl_append2)
    ultimately show ?thesis
      using True unfolding push_window_def Let_def n by (simp add: w last_n_snoc last_n_Suc)
  next
    case False
    then show ?thesis
      unfolding push_window_def Let_def n by (simp add: w last_n_all)
  qed
qed

lemma observed_config [simp]: "dd_config (observed sha dd ts) = dd_config dd"
  unfolding observed_def by (induction ts arbitrary: dd) (simp_all add: observe_history)

lemma observed_snoc: "observed sha dd (ts @ [t]) = snd (observe sha (observed sha dd ts) t)"
  by (simp add: observed_def)

lemma observed_history:
  assumes "0 < windowSize (dd_config dd)" and "dd_history dd = []"
  shows "dd_history (observed sha dd ts) = last_n (nat (windowSize (dd_config dd))) (map sha ts)"
proof (induction ts rule: rev_induct)
  case Nil
  show ?case using assms by (simp add: observed_def last_n_def)
next
  case (snoc t ts)
  then show ?case using assms by (simp add: observed_snoc observe_history push_last_n)
qed

section \<open>What the counters count\<close>

lemma count_run_ge: "n \<le> count_run x ys \<longleftrightarrow> n \<le> length ys \<and> take n ys = replicate n x"
proof (induction ys arbitrary: n)
  case Nil
  then show ?case by auto
next
  case (Cons y ys)
  then show ?case by (cases n) auto
qed

lemma count_run_le: "count_run x ys \<le> length ys"
  by (induction ys) auto

lemma rev_last_n: "rev (last_n n xs) = take n (rev xs)"
  by (simp add: last_n_def)

lemma repetition_count_ge:
  assumes "0 < n"
  shows "n \<le> repetition_count h \<longleftrightarrow> n \<le> length h \<and> (\<exists>x. last_n n h = replicate n x)"
proof (cases "h = []")
  case True
  with assms show ?thesis by (simp add: repetition_count_def)
next
  case False
  have "last_n n h = replicate n x \<Longrightarrow> n \<le> length h \<Longrightarrow> x = last h" for x
  proof -
    assume r: "last_n n h = replicate n x" and l: "n \<le> length h"
    have "last (last_n n h) = last h" using assms False l by (simp add: last_n_drop)
    then show ?thesis using r assms by simp
  qed
  moreover have "take n (rev h) = replicate n x \<longleftrightarrow> last_n n h = replicate n x" for x
    by (metis rev_last_n rev_replicate rev_rev_ident)
  ultimately show ?thesis
    using False by (auto simp: repetition_count_def count_run_ge)
qed

lemma last_n_last_n: "n \<le> w \<Longrightarrow> last_n n (last_n w xs) = last_n n xs"
  by (simp add: last_n_def min_def)

lemma repetition_in_window:
  assumes "0 < n" and "n \<le> w"
  shows "n \<le> repetition_count (last_n w xs) \<longleftrightarrow> n \<le> repetition_count xs"
  using assms by (auto simp: repetition_count_ge last_n_last_n)

lemma count_alternating_first:
  "0 < count_alternating x y zs \<Longrightarrow> zs \<noteq> [] \<and> hd zs = x"
  by (cases zs) (auto split: if_splits)

lemma count_alternating_third:
  "3 \<le> count_alternating x y zs \<Longrightarrow> \<exists>rest. zs = x # y # x # rest"
  by (cases zs; cases "tl zs"; cases "tl (tl zs)") (auto split: if_splits)

text \<open>An oscillation needs an output equal to the one two before it.\<close>

lemma oscillation_repeats:
  assumes "0 < oscillation_cycles h"
  shows "\<exists>a b pre. h = pre @ [b, a, b] \<and> a \<noteq> b"
proof -
  let ?a = "h ! (length h - 2)" and ?b = "h ! (length h - 1)"
  have ne: "?a \<noteq> ?b" and "3 \<le> count_alternating ?b ?a (rev h)"
    using assms by (auto simp: oscillation_cycles_def Let_def split: if_splits)
  from count_alternating_third [OF this(2)] obtain rest where "rev h = ?b # ?a # ?b # rest"
    by blast
  then have "h = rev rest @ [?b, ?a, ?b]" by (metis append.simps rev.simps rev_rev_ident append_assoc)
  with ne show ?thesis by metis
qed

lemma repetition_repeats:
  assumes "2 \<le> repetition_count h"
  shows "\<exists>a pre. h = pre @ [a, a]"
proof -
  from assms obtain x where l: "2 \<le> length h" and x: "last_n 2 h = replicate 2 x"
    by (auto simp: repetition_count_ge)
  have "h = take (length h - 2) h @ last_n 2 h" by (simp add: last_n_drop)
  with x show ?thesis by (metis numeral_2_eq_2 replicate_Suc replicate_0)
qed

section \<open>Properties\<close>

text \<open>With a window of at least the threshold, an observation reports repetition exactly
  when the last \<open>repetitionThreshold\<close> outputs all have the same digest, however long the run
  has been.\<close>

theorem repetition_signal_iff:
  assumes "new_detector c = Inr dd" and "repetitionThreshold c \<le> windowSize c"
  shows "fst (observe sha (observed sha dd ts) t) = Sig_repetition \<longleftrightarrow>
         nat (repetitionThreshold c) \<le> Suc (length ts) \<and>
         (\<exists>d. last_n (nat (repetitionThreshold c)) (map sha (ts @ [t])) =
              replicate (nat (repetitionThreshold c)) d)"
proof -
  let ?n = "nat (repetitionThreshold c)" and ?w = "nat (windowSize c)"
  from assms have thr: "2 \<le> repetitionThreshold c" and dd: "dd = \<lparr>dd_config = c, dd_history = []\<rparr>"
    by (auto simp: new_detector_def split: if_splits)
  have w: "0 < windowSize c" using thr assms(2) by simp
  have h: "push_window (windowSize c) (dd_history (observed sha dd ts)) (sha t) =
        last_n ?w (map sha (ts @ [t]))"
    using observed_history [of dd sha ts] w by (simp add: dd push_last_n)
  have "fst (observe sha (observed sha dd ts) t) = Sig_repetition \<longleftrightarrow>
        ?n \<le> repetition_count (last_n ?w (map sha (ts @ [t])))"
    using h thr by (auto simp: observe_def Let_def dd nat_le_iff)
  also have "\<dots> \<longleftrightarrow> ?n \<le> repetition_count (map sha (ts @ [t]))"
    using thr assms(2) by (intro repetition_in_window) auto
  finally show ?thesis using thr by (simp add: repetition_count_ge)
qed

theorem repetition_signal_iff_witness:
  "fst (observe (\<lambda>s. s) (observed (\<lambda>s. s) \<lparr>dd_config = DEFAULT_DOOM_LOOP_CONFIG, dd_history = []\<rparr>
       [''a'', ''b'', ''b'']) ''b'') = Sig_repetition"
proof -
  have n: "new_detector DEFAULT_DOOM_LOOP_CONFIG =
      Inr \<lparr>dd_config = DEFAULT_DOOM_LOOP_CONFIG, dd_history = []\<rparr>"
    by (simp add: new_detector_def DEFAULT_DOOM_LOOP_CONFIG_def)
  have w: "repetitionThreshold DEFAULT_DOOM_LOOP_CONFIG \<le> windowSize DEFAULT_DOOM_LOOP_CONFIG"
    by (simp add: DEFAULT_DOOM_LOOP_CONFIG_def)
  show ?thesis
    unfolding repetition_signal_iff [OF n w]
    by (auto simp: DEFAULT_DOOM_LOOP_CONFIG_def last_n_def numeral_3_eq_3)
qed

text \<open>Output that keeps changing never trips the detector: if no two outputs that are
  adjacent or two apart have the same digest, every observation reports nothing.\<close>

theorem changing_output_never_trips:
  assumes "new_detector c = Inr dd" and "0 < windowSize c"
    and "\<forall>i < length ts. sha (ts ! i) \<noteq> sha ((ts @ [t]) ! Suc i)"
    and "\<forall>i. Suc i < length ts \<longrightarrow> sha (ts ! i) \<noteq> sha ((ts @ [t]) ! Suc (Suc i))"
  shows "fst (observe sha (observed sha dd ts) t) = Sig_none"
proof -
  let ?xs = "map sha (ts @ [t])" and ?w = "nat (windowSize c)"
  from assms have thr: "2 \<le> repetitionThreshold c" and osc: "1 \<le> oscillationCycles c"
    and dd: "dd = \<lparr>dd_config = c, dd_history = []\<rparr>"
    by (auto simp: new_detector_def split: if_splits)
  have h: "push_window (windowSize c) (dd_history (observed sha dd ts)) (sha t) = last_n ?w ?xs"
    using observed_history [of dd sha ts] assms(2) by (simp add: dd push_last_n)
  have suffix: "\<exists>p. ?xs = p @ last_n ?w ?xs" by (metis append_take_drop_id last_n_drop)
  have adj: "?xs \<noteq> p @ [a, a]" for p a
  proof
    assume e: "?xs = p @ [a, a]"
    then have l: "length ts = Suc (length p)" by (metis Suc_eq_plus1 add_Suc_right diff_Suc_1 length_append length_Cons length_map list.size(3) add_0)
    have "?xs ! length p = a" "?xs ! Suc (length p) = a" using e by (simp_all add: nth_append)
    then have "sha (ts ! length p) = sha ((ts @ [t]) ! Suc (length p))"
      using l by (simp add: nth_append)
    then show False using assms(3) l by simp
  qed
  have two: "?xs \<noteq> p @ [b, a, b]" for p a b
  proof
    assume e: "?xs = p @ [b, a, b]"
    then have l: "length ts = Suc (Suc (length p))" by (metis Suc_eq_plus1 add_Suc_right diff_Suc_1 length_append length_Cons length_map list.size(3) add_0)
    have "?xs ! length p = b" "?xs ! Suc (Suc (length p)) = b" using e by (simp_all add: nth_append)
    then have "sha (ts ! length p) = sha ((ts @ [t]) ! Suc (Suc (length p)))"
      using l by (simp add: nth_append)
    then show False using assms(4) l by simp
  qed
  have "\<not> 2 \<le> repetition_count (last_n ?w ?xs)"
    using repetition_repeats suffix adj by (metis append_assoc)
  moreover have "\<not> 0 < oscillation_cycles (last_n ?w ?xs)"
    using oscillation_repeats suffix two by (metis append_assoc)
  ultimately show ?thesis using h thr osc by (simp add: observe_def Let_def dd)
qed

theorem changing_output_never_trips_witness:
  "fst (observe (\<lambda>s. s) (observed (\<lambda>s. s) \<lparr>dd_config = DEFAULT_DOOM_LOOP_CONFIG, dd_history = []\<rparr>
       [''a'', ''b'']) ''c'') = Sig_none"
  by (rule changing_output_never_trips [where c = DEFAULT_DOOM_LOOP_CONFIG])
     (auto simp: new_detector_def DEFAULT_DOOM_LOOP_CONFIG_def less_Suc_eq)

end
