(* ===== verification/Escalation.thy ===== *)
theory Escalation
  imports Budget
begin

text \<open>
  packages/engine/src/escalation.ts: the structured escalation record, the routing along the
  reporting line and the in-memory sink.
\<close>

datatype escalation_cause =
    Cause_turn_budget_exceeded
  | Cause_position_budget_exceeded
  | Cause_iteration_cap
  | Cause_doom_loop
  | Cause_deadline_exceeded

record escalation_snapshot =
  es_dimension :: "budget_dimension option" \<comment> \<open>None for the literal none\<close>
  es_used :: int
  es_limit :: int

datatype resolved_from = From_report_to | From_operator_default

record escalation_routing =
  direct_superior :: string
  resolved_from :: resolved_from

record escalation_record =
  er_id :: string
  er_workspace :: string
  er_position :: string
  er_turn :: string
  er_run :: string
  er_cause :: escalation_cause
  er_snapshot :: escalation_snapshot
  er_routing :: escalation_routing
  er_occurred_at :: int

text \<open>\<open>OrgReportingLookup.reportTo\<close>: a superior, null for the top, undefined when unknown.\<close>

datatype report_to = Superior string | Top_position | Unknown_position

definition WORKSPACE_OPERATOR_ENTRY :: string where
  "WORKSPACE_OPERATOR_ENTRY = ''workspace.operator''"

definition resolveEscalationRouting ::
  "string \<Rightarrow> (string \<Rightarrow> report_to) option \<Rightarrow> escalation_routing" where
  "resolveEscalationRouting positionId lookup =
     (case (case lookup of None \<Rightarrow> Unknown_position | Some f \<Rightarrow> f positionId) of
        Superior s \<Rightarrow>
          if js_trim s \<noteq> [] then \<lparr>direct_superior = s, resolved_from = From_report_to\<rparr>
          else \<lparr>direct_superior = WORKSPACE_OPERATOR_ENTRY, resolved_from = From_operator_default\<rparr>
      | _ \<Rightarrow> \<lparr>direct_superior = WORKSPACE_OPERATOR_ENTRY, resolved_from = From_operator_default\<rparr>)"

definition sink_write :: "'r list \<Rightarrow> 'r \<Rightarrow> 'r list" where
  "sink_write stored r = stored @ [r]"

lemma operator_not_blank: "js_trim WORKSPACE_OPERATOR_ENTRY \<noteq> []"
  by (simp add: WORKSPACE_OPERATOR_ENTRY_def js_trim_def js_space_def)

lemma routing_never_blank: "js_trim (direct_superior (resolveEscalationRouting p l)) \<noteq> []"
  by (auto simp: resolveEscalationRouting_def operator_not_blank split: report_to.splits option.splits)

lemma routing_along_report_line:
  "resolved_from (resolveEscalationRouting p l) = From_report_to \<longleftrightarrow>
     (\<exists>f s. l = Some f \<and> f p = Superior s \<and> js_trim s \<noteq> [] \<and>
            direct_superior (resolveEscalationRouting p l) = s)"
  by (auto simp: resolveEscalationRouting_def split: report_to.splits option.splits)

text \<open>Every escalation has a non-blank addressee, and it is the position's own superior
  exactly when the lookup names one; otherwise it is the workspace operator.\<close>

theorem escalation_always_routed:
  "js_trim (direct_superior (resolveEscalationRouting p l)) \<noteq> [] \<and>
   (resolved_from (resolveEscalationRouting p l) = From_report_to \<longleftrightarrow>
     (\<exists>f s. l = Some f \<and> f p = Superior s \<and> js_trim s \<noteq> [] \<and>
            direct_superior (resolveEscalationRouting p l) = s)) \<and>
   (resolved_from (resolveEscalationRouting p l) = From_operator_default \<longleftrightarrow>
     \<not> (\<exists>f s. l = Some f \<and> f p = Superior s \<and> js_trim s \<noteq> []))"
  using routing_never_blank routing_along_report_line
  by (auto simp: resolveEscalationRouting_def split: report_to.splits option.splits)

end
