(* ===== verification/Freshness.thy ===== *)
theory Freshness
  imports JsMap
begin

text \<open>
  packages/engine/src/context-freshness.ts: expiry and digest filtering of recalled context.
  \<open>dparse\<close> is \<open>Date.parse\<close> (None for NaN), whose result outside the ISO profile is
  implementation-defined; lifetimes are integers (milliseconds).
\<close>

datatype item_kind = Raw_excerpt | Entity_mention | Task_marker

datatype eviction_reason = Expired | Digest_mismatch

record context_entry =
  ci_kind :: item_kind
  ci_text :: string
  ci_artifact_id :: string
  ci_locator :: string
  ci_source_digest :: string
  ci_artifact_digest :: string
  ci_source_revision :: int
  ci_derived_revision :: int
  ci_event_at :: string
  ci_ttl :: "int option"
  ci_expires_at :: "string option"
  ci_eviction :: "eviction_reason option"

record evicted_entry =
  ev_id :: string
  ev_reason :: eviction_reason

definition resolveExpiryMs :: "(string \<Rightarrow> int option) \<Rightarrow> context_entry \<Rightarrow> int option" where
  "resolveExpiryMs dparse e =
     (case ci_expires_at e of
        Some s \<Rightarrow> dparse s
      | None \<Rightarrow> (case ci_ttl e of
          Some t \<Rightarrow> if t \<ge> 0 then map_option (\<lambda>anchor. anchor + t) (dparse (ci_event_at e)) else None
        | None \<Rightarrow> None))"

definition entryId :: "context_entry \<Rightarrow> string" where
  "entryId e = ci_artifact_id e"

text \<open>One turn of the loop: the reason for evicting an entry, if any.\<close>

definition eviction_of ::
  "(string \<Rightarrow> int option) \<Rightarrow> int \<Rightarrow> (string, string) jsmap \<Rightarrow> context_entry \<Rightarrow> eviction_reason option" where
  "eviction_of dparse nowMs expected e =
     (if (case resolveExpiryMs dparse e of None \<Rightarrow> False | Some x \<Rightarrow> x \<le> nowMs) then Some Expired
      else (case prop_read expected (ci_artifact_id e) of
              Absent \<Rightarrow> None
            | Inherited \<Rightarrow> Some Digest_mismatch
            | Own d \<Rightarrow> if d \<noteq> ci_source_digest e then Some Digest_mismatch else None))"

fun filter_fresh_loop ::
  "(string \<Rightarrow> int option) \<Rightarrow> int \<Rightarrow> (string, string) jsmap \<Rightarrow> context_entry list \<Rightarrow>
   context_entry list \<Rightarrow> evicted_entry list \<Rightarrow> context_entry list \<times> evicted_entry list" where
  "filter_fresh_loop dparse nowMs expected [] fresh evicted = (fresh, evicted)"
| "filter_fresh_loop dparse nowMs expected (e # es) fresh evicted =
     (case eviction_of dparse nowMs expected e of
        Some r \<Rightarrow> filter_fresh_loop dparse nowMs expected es fresh
                    (evicted @ [\<lparr>ev_id = entryId e, ev_reason = r\<rparr>])
      | None \<Rightarrow> filter_fresh_loop dparse nowMs expected es
                    (fresh @ [if ci_eviction e \<noteq> None then e\<lparr>ci_eviction := None\<rparr> else e]) evicted)"

definition filterFreshContext ::
  "(string \<Rightarrow> int option) \<Rightarrow> context_entry list \<Rightarrow> int \<Rightarrow> (string, string) jsmap \<Rightarrow>
   context_entry list \<times> evicted_entry list" where
  "filterFreshContext dparse entries nowMs expected =
     filter_fresh_loop dparse nowMs expected entries [] []"

lemma strip_eviction: "(if ci_eviction e \<noteq> None then e\<lparr>ci_eviction := None\<rparr> else e) = e\<lparr>ci_eviction := None\<rparr>"
  by simp

lemma filter_fresh_loop_eq:
  "filter_fresh_loop dparse nowMs expected es fresh evicted =
     (fresh @ map (\<lambda>e. e\<lparr>ci_eviction := None\<rparr>)
        (filter (\<lambda>e. eviction_of dparse nowMs expected e = None) es),
      evicted @ map (\<lambda>e. \<lparr>ev_id = entryId e, ev_reason = the (eviction_of dparse nowMs expected e)\<rparr>)
        (filter (\<lambda>e. eviction_of dparse nowMs expected e \<noteq> None) es))"
  by (induction dparse nowMs expected es fresh evicted rule: filter_fresh_loop.induct)
     (simp_all add: strip_eviction del: if_split split: option.split)

lemmas filter_fresh_eq = filterFreshContext_def filter_fresh_loop_eq

text \<open>Filtering partitions the bundle in order: the fresh list is exactly the entries that
  are neither expired nor of another digest than expected, each without an eviction label;
  every other entry is reported once with its reason, expiry before digest.\<close>

theorem freshness_partitions:
  "filterFreshContext dparse es nowMs expected =
     (map (\<lambda>e. e\<lparr>ci_eviction := None\<rparr>)
        (filter (\<lambda>e. eviction_of dparse nowMs expected e = None) es),
      map (\<lambda>e. \<lparr>ev_id = ci_artifact_id e, ev_reason = the (eviction_of dparse nowMs expected e)\<rparr>)
        (filter (\<lambda>e. eviction_of dparse nowMs expected e \<noteq> None) es)) \<and>
   length (fst (filterFreshContext dparse es nowMs expected)) +
     length (snd (filterFreshContext dparse es nowMs expected)) = length es"
  using sum_length_filter_compl [of "\<lambda>e. eviction_of dparse nowMs expected e = None" es]
  by (simp add: filter_fresh_eq entryId_def)

end
