(* ===== verification/Assembler.thy ===== *)
theory Assembler
  imports Prelude "HOL-Library.Sublist"
begin

text \<open>
  packages/engine/src/context-assembler.ts: the deterministic context assembly with its byte
  limits. Bytes are the numbers 0 to 255; \<open>(b & 0xc0) === 0x80\<close> is \<open>b div 64 = 2\<close>.
  \<open>digest\<close> is the SHA-256 over the JSON serialization of the slot and text pairs.
\<close>

datatype context_slot =
    Position_instructions
  | Position_spec
  | Turn_input
  | Memory_recall
  | Context_bundle

definition CONTEXT_SLOT_ORDER :: "context_slot list" where
  "CONTEXT_SLOT_ORDER =
     [Position_instructions, Position_spec, Turn_input, Memory_recall, Context_bundle]"

record context_block =
  cb_slot :: context_slot
  cb_text :: string
  cb_byte_length :: nat
  cb_truncated :: nat

record assembly_manifest =
  am_position :: string
  am_turn :: string
  am_order :: "context_slot list"
  am_blocks :: "(context_slot \<times> nat \<times> nat) list"
  am_digest :: string

record assemble_input =
  ai_position :: string
  ai_turn :: string
  ai_instructions :: "string option"
  ai_spec :: "string option"
  ai_turn_input :: string
  ai_memory_recall :: "string list"
  ai_context_bundle :: "string list"

record window_limits =
  max_block_bytes :: "nat option"
  max_total_bytes :: "int option"

text \<open>\<open>maxBlockBytes\<close> is a byte count; only the remaining total can become negative.\<close>

definition no_limits :: window_limits where
  "no_limits = \<lparr>max_block_bytes = None, max_total_bytes = None\<rparr>"

section \<open>UTF-8 on the modelled code units\<close>

definition utf8_char :: "char \<Rightarrow> nat list" where
  "utf8_char c = (let n = of_char c in
     if n < 128 then [n] else [192 + n div 64, 128 + n mod 64])"

definition utf8_encode :: "string \<Rightarrow> nat list" where
  "utf8_encode s = concat (map utf8_char s)"

fun utf8_decode :: "nat list \<Rightarrow> string" where
  "utf8_decode [] = []"
| "utf8_decode [b] = (if b < 128 then [char_of b] else [])"
| "utf8_decode (b # b2 # bs) =
     (if b < 128 then char_of b # utf8_decode (b2 # bs)
      else char_of ((b - 192) * 64 + (b2 - 128)) # utf8_decode bs)"

definition continuation :: "nat \<Rightarrow> bool" where
  "continuation b \<longleftrightarrow> b div 64 = 2"

text \<open>\<open>while (end > 0 && (buffer[end]! & 0xc0) === 0x80) end -= 1\<close>; past the buffer the read
  is undefined, whose bits are 0.\<close>

fun walk_back :: "nat list \<Rightarrow> nat \<Rightarrow> nat" where
  "walk_back bs 0 = 0"
| "walk_back bs (Suc n) =
     (if Suc n < length bs \<and> continuation (bs ! Suc n) then walk_back bs n else Suc n)"

definition truncateToByteBudget :: "string \<Rightarrow> nat \<Rightarrow> string \<times> nat" where
  "truncateToByteBudget text maxBytes =
     (if utf8_len text \<le> maxBytes then (text, 0)
      else let buffer = utf8_encode text; e = walk_back buffer maxBytes
           in (utf8_decode (take e buffer), utf8_len text - e))"

definition candidate_text :: "assemble_input \<Rightarrow> context_slot \<Rightarrow> string option" where
  "candidate_text i slot = (case slot of
      Position_instructions \<Rightarrow> ai_instructions i
    | Position_spec \<Rightarrow> ai_spec i
    | Turn_input \<Rightarrow> Some (ai_turn_input i)
    | Memory_recall \<Rightarrow>
        (if ai_memory_recall i \<noteq> [] then Some (join_with [CHR 0x0A] (ai_memory_recall i)) else None)
    | Context_bundle \<Rightarrow>
        (if ai_context_bundle i \<noteq> [] then Some (join_with [CHR 0x0A] (ai_context_bundle i)) else None))"

text \<open>The loop body: the block cut first, then what remains of the total.\<close>

fun assemble_blocks ::
  "assemble_input \<Rightarrow> nat option \<Rightarrow> context_slot list \<Rightarrow> int option \<Rightarrow> context_block list" where
  "assemble_blocks i maxBlock [] remaining = []"
| "assemble_blocks i maxBlock (slot # slots) remaining =
     (case candidate_text i slot of
        None \<Rightarrow> assemble_blocks i maxBlock slots remaining
      | Some text0 \<Rightarrow>
          let (text1, cut1) = (case maxBlock of
                None \<Rightarrow> (text0, 0)
              | Some m \<Rightarrow> truncateToByteBudget text0 m);
              (text2, cut2) = (case remaining of
                None \<Rightarrow> (text1, 0)
              | Some r \<Rightarrow> truncateToByteBudget text1 (nat (max 0 r)));
              remaining' = map_option (\<lambda>r. r - int (utf8_len text2)) remaining
          in (if text2 = [] \<and> cut1 + cut2 = 0 then assemble_blocks i maxBlock slots remaining'
              else \<lparr>cb_slot = slot, cb_text = text2, cb_byte_length = utf8_len text2,
                     cb_truncated = cut1 + cut2\<rparr>
                   # assemble_blocks i maxBlock slots remaining'))"

definition assembleContext ::
  "((context_slot \<times> string) list \<Rightarrow> string) \<Rightarrow> assemble_input \<Rightarrow> window_limits \<Rightarrow>
   string + (context_block list \<times> assembly_manifest)" where
  "assembleContext digest i limits =
     (if ai_turn_input i = [] then Inl ''turnInput must be a non-empty string''
      else let blocks = assemble_blocks i (max_block_bytes limits) CONTEXT_SLOT_ORDER
                          (max_total_bytes limits)
           in Inr (blocks,
                \<lparr>am_position = ai_position i, am_turn = ai_turn i, am_order = CONTEXT_SLOT_ORDER,
                 am_blocks = map (\<lambda>b. (cb_slot b, cb_byte_length b, cb_truncated b)) blocks,
                 am_digest = digest (map (\<lambda>b. (cb_slot b, cb_text b)) blocks)\<rparr>))"

section \<open>Truncation keeps the longest prefix that fits\<close>

lemma of_char_256: "(of_char c :: nat) < 256"
  by (rule nat_of_char_less_256)

lemma utf8_char_cases:
  obtains (one) "utf8_char c = [of_char c]" "(of_char c :: nat) < 128"
  | (two) h l where "utf8_char c = [h, l]" "h div 64 = 3" "continuation l"
      "(h - 192) * 64 + (l - 128) = of_char c" "\<not> h < 128" "\<not> (of_char c :: nat) < 128"
proof (cases "(of_char c :: nat) < 128")
  case True
  then show ?thesis by (intro one) (simp_all add: utf8_char_def Let_def)
next
  case False
  let ?n = "of_char c :: nat"
  have lt: "?n < 256" by (rule of_char_256)
  have "utf8_char c = [192 + ?n div 64, 128 + ?n mod 64]" using False by (simp add: utf8_char_def Let_def)
  moreover have "(192 + ?n div 64) div 64 = 3" using lt by linarith
  moreover have "continuation (128 + ?n mod 64)" unfolding continuation_def by linarith
  moreover have "(192 + ?n div 64 - 192) * 64 + (128 + ?n mod 64 - 128) = ?n" by simp
  ultimately show ?thesis using False by - (rule two, assumption+, simp_all)
qed

lemma length_utf8_encode: "length (utf8_encode s) = utf8_len s"
  by (induction s) (auto simp: utf8_encode_def utf8_char_def utf8_len_Cons Let_def)

lemma utf8_encode_Cons: "utf8_encode (c # s) = utf8_char c @ utf8_encode s"
  by (simp add: utf8_encode_def)

lemma utf8_encode_append: "utf8_encode (s @ t) = utf8_encode s @ utf8_encode t"
  by (simp add: utf8_encode_def)

lemma utf8_decode_encode [simp]: "utf8_decode (utf8_encode s) = s"
proof (induction s)
  case Nil
  show ?case by (simp add: utf8_encode_def)
next
  case (Cons c s)
  show ?case
  proof (cases c rule: utf8_char_cases)
    case one
    then show ?thesis using Cons
      by (cases "utf8_encode s") (simp_all add: utf8_encode_Cons)
  next
    case (two h l)
    then show ?thesis using Cons by (simp add: utf8_encode_Cons)
  qed
qed

lemma utf8_inj: "utf8_encode s = utf8_encode t \<Longrightarrow> s = t"
  by (metis utf8_decode_encode)

text \<open>The byte offsets at which a character starts, as the encoded lengths of the prefixes.\<close>

definition boundary :: "string \<Rightarrow> nat \<Rightarrow> bool" where
  "boundary s e \<longleftrightarrow> (\<exists>k \<le> length s. e = utf8_len (take k s))"

lemma boundary_0: "boundary s 0"
  unfolding boundary_def by (rule exI [of _ 0]) simp

lemma boundary_Cons:
  "boundary (c # s) e \<longleftrightarrow> e = 0 \<or> (length (utf8_char c) \<le> e \<and> boundary s (e - length (utf8_char c)))"
proof
  assume "boundary (c # s) e"
  then obtain k where k: "k \<le> Suc (length s)" "e = utf8_len (take k (c # s))"
    by (auto simp: boundary_def)
  then show "e = 0 \<or> (length (utf8_char c) \<le> e \<and> boundary s (e - length (utf8_char c)))"
    by (cases k) (auto simp: boundary_def utf8_len_Cons utf8_char_def Let_def)
next
  assume "e = 0 \<or> (length (utf8_char c) \<le> e \<and> boundary s (e - length (utf8_char c)))"
  then show "boundary (c # s) e"
  proof
    assume "e = 0" then show ?thesis by (simp add: boundary_0)
  next
    assume a: "length (utf8_char c) \<le> e \<and> boundary s (e - length (utf8_char c))"
    then obtain k where "k \<le> length s" "e - length (utf8_char c) = utf8_len (take k s)"
      by (auto simp: boundary_def)
    then show ?thesis using a unfolding boundary_def
      by (intro exI [of _ "Suc k"]) (auto simp: utf8_len_Cons utf8_char_def Let_def split: if_splits)
  qed
qed

lemma boundary_iff:
  "e < utf8_len s \<Longrightarrow> boundary s e \<longleftrightarrow> \<not> continuation (utf8_encode s ! e)"
proof (induction s arbitrary: e)
  case Nil
  then show ?case by simp
next
  case (Cons c s)
  show ?case
  proof (cases c rule: utf8_char_cases)
    case one
    then show ?thesis using Cons
      by (cases e) (auto simp: boundary_Cons utf8_encode_Cons continuation_def utf8_len_Cons)
  next
    case (two h l)
    consider "e = 0" | "e = 1" | n where "e = Suc (Suc n)" by (metis One_nat_def not0_implies_Suc)
    then show ?thesis
      using two Cons
      by cases (auto simp: boundary_Cons utf8_encode_Cons continuation_def utf8_len_Cons)
  qed
qed

lemma walk_back_le: "walk_back bs n \<le> n"
  by (induction bs n rule: walk_back.induct) auto

lemma walk_back_boundary:
  "n < utf8_len s \<Longrightarrow> boundary s (walk_back (utf8_encode s) n)"
  by (induction "utf8_encode s" n rule: walk_back.induct)
     (auto simp: boundary_0 boundary_iff length_utf8_encode)

lemma walk_back_greatest:
  "n < utf8_len s \<Longrightarrow> boundary s e \<Longrightarrow> e \<le> n \<Longrightarrow> e \<le> walk_back (utf8_encode s) n"
proof (induction "utf8_encode s" n rule: walk_back.induct)
  case 1
  then show ?case by simp
next
  case (2 n)
  show ?case
  proof (cases "continuation (utf8_encode s ! Suc n)")
    case True
    then have "e \<noteq> Suc n" using "2.prems" boundary_iff by blast
    then show ?thesis using 2 True by (auto simp: length_utf8_encode)
  next
    case False
    then show ?thesis using "2.prems" by simp
  qed
qed

lemma take_encode: "take (utf8_len (take k s)) (utf8_encode s) = utf8_encode (take k s)"
  by (metis append_eq_conv_conj append_take_drop_id length_utf8_encode utf8_encode_append)

lemma utf8_len_take_mono: "j \<le> k \<Longrightarrow> utf8_len (take j s) \<le> utf8_len (take k s)"
  by (metis le_add1 min.absorb1 take_take append_take_drop_id utf8_len_append)

lemma truncate_spec:
  obtains k where "fst (truncateToByteBudget s m) = take k s" "k \<le> length s"
    "utf8_len (take k s) \<le> m" "\<And>j. j \<le> length s \<Longrightarrow> utf8_len (take j s) \<le> m \<Longrightarrow> utf8_len (take j s) \<le> utf8_len (take k s)"
    "snd (truncateToByteBudget s m) = utf8_len s - utf8_len (take k s)"
proof (cases "utf8_len s \<le> m")
  case True
  have "utf8_len (take j s) \<le> utf8_len (take (length s) s)" if "j \<le> length s" for j
    using that by (rule utf8_len_take_mono)
  with True show ?thesis
    by (intro that [of "length s"]) (auto simp: truncateToByteBudget_def)
next
  case False
  then have lt: "m < utf8_len s" by simp
  let ?e = "walk_back (utf8_encode s) m"
  from walk_back_boundary [OF lt] obtain k where k: "k \<le> length s" "?e = utf8_len (take k s)"
    by (auto simp: boundary_def)
  have "fst (truncateToByteBudget s m) = take k s"
    using False k(2) by (simp add: truncateToByteBudget_def Let_def take_encode)
  moreover have "snd (truncateToByteBudget s m) = utf8_len s - utf8_len (take k s)"
    using False k(2) by (simp add: truncateToByteBudget_def Let_def)
  moreover have "utf8_len (take k s) \<le> m" using walk_back_le [of "utf8_encode s" m] k(2) by simp
  moreover have "utf8_len (take j s) \<le> utf8_len (take k s)"
    if "j \<le> length s" "utf8_len (take j s) \<le> m" for j
    using walk_back_greatest [OF lt, of "utf8_len (take j s)"] that k(2)
    by (auto simp: boundary_def)
  ultimately show ?thesis using k(1) by (intro that)
qed

lemma truncate_bound: "utf8_len (fst (truncateToByteBudget s m)) \<le> m"
  by (rule truncate_spec [of s m]) simp

lemma truncate_accounts:
  "utf8_len (fst (truncateToByteBudget s m)) + snd (truncateToByteBudget s m) = utf8_len s"
proof (rule truncate_spec [of s m])
  fix k assume "fst (truncateToByteBudget s m) = take k s"
    "snd (truncateToByteBudget s m) = utf8_len s - utf8_len (take k s)" "k \<le> length s"
  moreover have "utf8_len (take k s) \<le> utf8_len s"
    by (metis append_take_drop_id le_add1 utf8_len_append)
  ultimately show ?thesis by simp
qed

section \<open>The assembled blocks\<close>

definition total_bytes :: "context_block list \<Rightarrow> nat" where
  "total_bytes bs = sum_list (map cb_byte_length bs)"

lemma assemble_total_bound:
  "int (total_bytes (assemble_blocks i mb slots (Some r))) \<le> max 0 r"
proof (induction slots arbitrary: r)
  case Nil
  show ?case by (simp add: total_bytes_def)
next
  case (Cons slot slots)
  show ?case
  proof (cases "candidate_text i slot")
    case None
    with Cons show ?thesis by simp
  next
    case (Some text0)
    obtain text1 cut1 where t1: "(case mb of None \<Rightarrow> (text0, 0) | Some m \<Rightarrow> truncateToByteBudget text0 m) = (text1, cut1)"
      by (metis surj_pair)
    obtain text2 cut2 where t2: "truncateToByteBudget text1 (nat (max 0 r)) = (text2, cut2)"
      by (metis surj_pair)
    have b: "int (utf8_len text2) \<le> max 0 r"
      using truncate_bound [of text1 "nat (max 0 r)"] t2 by simp
    have IH: "int (total_bytes (assemble_blocks i mb slots (Some (r - int (utf8_len text2)))))
        \<le> max 0 (r - int (utf8_len text2))" by (rule Cons.IH)
    have "int (utf8_len text2) + int (total_bytes (assemble_blocks i mb slots (Some (r - int (utf8_len text2))))) \<le> max 0 r"
      using b IH by linarith
    then show ?thesis
      using Some t1 t2 by (auto simp: total_bytes_def Let_def)
  qed
qed

lemma assemble_slots_subseq: "subseq (map cb_slot (assemble_blocks i mb slots r)) slots"
  by (induction slots arbitrary: r)
     (auto simp: Let_def split: option.split prod.split)

lemma assemble_byte_lengths:
  "b \<in> set (assemble_blocks i mb slots r) \<Longrightarrow> cb_byte_length b = utf8_len (cb_text b)"
  by (induction slots arbitrary: r) (auto simp: Let_def split: option.splits prod.splits if_splits)

lemma truncate_twice_spec:
  assumes "(text1, cut1) = (case mb of None \<Rightarrow> (text0, 0) | Some m \<Rightarrow> truncateToByteBudget text0 m)"
    and "(text2, cut2) = (case r of None \<Rightarrow> (text1, 0) | Some r' \<Rightarrow> truncateToByteBudget text1 (nat (max 0 r')))"
  shows "utf8_len text2 + (cut1 + cut2) = utf8_len text0 \<and> (\<exists>k. text2 = take k text0)"
proof -
  have 1: "utf8_len text1 + cut1 = utf8_len text0 \<and> (\<exists>k. text1 = take k text0)"
  proof (cases mb)
    case None
    with assms(1) show ?thesis by (auto intro: exI [of _ "length text0"])
  next
    case (Some m)
    with assms(1) show ?thesis
      using truncate_accounts [of text0 m] truncate_spec [of text0 m]
      by (metis fst_conv option.simps(5) snd_conv)
  qed
  have 2: "utf8_len text2 + cut2 = utf8_len text1 \<and> (\<exists>k. text2 = take k text1)"
  proof (cases r)
    case None
    with assms(2) show ?thesis by (auto intro: exI [of _ "length text1"])
  next
    case (Some r')
    with assms(2) show ?thesis
      using truncate_accounts [of text1 "nat (max 0 r')"] truncate_spec [of text1 "nat (max 0 r')"]
      by (metis fst_conv option.simps(5) snd_conv)
  qed
  from 1 2 show ?thesis by (auto simp: take_take)
qed

lemma assemble_block_accounts:
  "b \<in> set (assemble_blocks i mb slots r) \<Longrightarrow>
   (\<exists>text k. candidate_text i (cb_slot b) = Some text \<and> cb_text b = take k text \<and>
      cb_byte_length b + cb_truncated b = utf8_len text)"
proof (induction slots arbitrary: r)
  case Nil
  then show ?case by simp
next
  case (Cons slot slots)
  show ?case
  proof (cases "candidate_text i slot")
    case None
    with Cons show ?thesis by simp
  next
    case (Some text0)
    obtain text1 cut1 where t1: "(text1, cut1) = (case mb of None \<Rightarrow> (text0, 0) | Some m \<Rightarrow> truncateToByteBudget text0 m)"
      by (metis surj_pair)
    obtain text2 cut2 where t2: "(text2, cut2) = (case r of None \<Rightarrow> (text1, 0) | Some r' \<Rightarrow> truncateToByteBudget text1 (nat (max 0 r')))"
      by (metis surj_pair)
    have "b = \<lparr>cb_slot = slot, cb_text = text2, cb_byte_length = utf8_len text2, cb_truncated = cut1 + cut2\<rparr>
        \<or> b \<in> set (assemble_blocks i mb slots (map_option (\<lambda>r. r - int (utf8_len text2)) r))"
      using Cons.prems Some t1 [symmetric] t2 [symmetric] by (auto simp: Let_def split: if_splits)
    then show ?thesis
    proof
      assume "b = \<lparr>cb_slot = slot, cb_text = text2, cb_byte_length = utf8_len text2, cb_truncated = cut1 + cut2\<rparr>"
      then show ?thesis using truncate_twice_spec [OF t1 t2] Some by auto
    qed (rule Cons.IH)
  qed
qed

section \<open>Properties\<close>

text \<open>Truncation keeps the longest prefix of whole characters whose UTF-8 encoding fits the
  byte budget, and the bytes kept and the bytes reported as removed add up to the text.\<close>

theorem truncation_keeps_longest_fitting_prefix:
  "\<exists>k \<le> length s. fst (truncateToByteBudget s m) = take k s
     \<and> utf8_len (take k s) \<le> m
     \<and> (\<forall>j \<le> length s. utf8_len (take j s) \<le> m \<longrightarrow> utf8_len (take j s) \<le> utf8_len (take k s))
     \<and> utf8_len (take k s) + snd (truncateToByteBudget s m) = utf8_len s"
  by (metis truncate_accounts truncate_spec)

theorem truncation_keeps_longest_fitting_prefix_witness:
  "fst (truncateToByteBudget [CHR ''a'', CHR 0xE9, CHR ''b''] 2) = ''a''
   \<and> snd (truncateToByteBudget [CHR ''a'', CHR 0xE9, CHR ''b''] 2) = 3
   \<and> (\<exists>k \<le> 3. take k [CHR ''a'', CHR 0xE9, CHR ''b''] = ''a'')"
proof -
  have "truncateToByteBudget [CHR ''a'', CHR 0xE9, CHR ''b''] 2 = (''a'', 3)"
    by code_simp
  with truncation_keeps_longest_fitting_prefix [of "[CHR ''a'', CHR 0xE9, CHR ''b'']" 2]
  show ?thesis by (auto simp: eval_nat_numeral)
qed

text \<open>C18: an assembled window never exceeds the total byte limit, its blocks follow the fixed
  slot order, and every block is a prefix of its slot's text whose kept and removed bytes
  add up.\<close>

theorem assembled_window_is_bounded_and_ordered:
  "case assembleContext digest i limits of
     Inl _ \<Rightarrow> ai_turn_input i = []
   | Inr (blocks, manifest) \<Rightarrow>
       (case max_total_bytes limits of None \<Rightarrow> True
        | Some r \<Rightarrow> int (total_bytes blocks) \<le> max 0 r)
       \<and> subseq (map cb_slot blocks) CONTEXT_SLOT_ORDER
       \<and> list_all (\<lambda>b. case candidate_text i (cb_slot b) of
             None \<Rightarrow> False
           | Some text \<Rightarrow> starts_with text (cb_text b)
               \<and> cb_byte_length b = utf8_len (cb_text b)
               \<and> cb_byte_length b + cb_truncated b = utf8_len text) blocks
       \<and> am_blocks manifest = map (\<lambda>b. (cb_slot b, cb_byte_length b, cb_truncated b)) blocks"
proof (cases "ai_turn_input i = []")
  case True
  then show ?thesis by (simp add: assembleContext_def)
next
  case False
  let ?bs = "assemble_blocks i (max_block_bytes limits) CONTEXT_SLOT_ORDER (max_total_bytes limits)"
  have "case candidate_text i (cb_slot b) of None \<Rightarrow> False
      | Some text \<Rightarrow> starts_with text (cb_text b) \<and> cb_byte_length b = utf8_len (cb_text b)
          \<and> cb_byte_length b + cb_truncated b = utf8_len text" if "b \<in> set ?bs" for b
  proof -
    from assemble_block_accounts [OF that] obtain t k where
      *: "candidate_text i (cb_slot b) = Some t" "cb_text b = take k t"
         "cb_byte_length b + cb_truncated b = utf8_len t" by blast
    have "starts_with t (take k t)"
      unfolding starts_with_append by (intro exI [of _ "drop k t"]) simp
    with * assemble_byte_lengths [OF that] show ?thesis by simp
  qed
  moreover have "case max_total_bytes limits of None \<Rightarrow> True
      | Some r \<Rightarrow> int (total_bytes ?bs) \<le> max 0 r"
    using assemble_total_bound [of i "max_block_bytes limits" CONTEXT_SLOT_ORDER]
    by (cases "max_total_bytes limits") auto
  ultimately show ?thesis using False assemble_slots_subseq
    by (simp add: assembleContext_def Let_def list_all_iff)
qed

end
