(* ===== verification/TurnExecutor.thy ===== *)
theory TurnExecutor
  imports TurnContract DoomLoop Escalation Freshness Assembler
begin

text \<open>
  packages/engine/src/turn-executor.ts with the record of turn-evidence.ts: one turn, from the
  permission pre-check to its terminal event.

  The generator is a chain of stages over an explicit state. Everything it does to the outside
  (the events it yields, the evidence and escalation writes, the port and model calls, the ledger
  commits) is appended to the trace, in order; what the outside answers is an oracle of the
  environment, indexed by the number of earlier calls of the same kind, so the theorems hold for
  every behaviour of the ports, of the clock and of the abort signal. The trace of a turn is
  what a consumer that drains the generator sees; \<open>runId\<close> and \<open>timestamp\<close>, which every event
  carries, are left out. \<open>Rejected\<close> is a generator that ends by throwing.
\<close>

section \<open>Ports and options\<close>

datatype port_mode = Optional_mode | Required_mode

text \<open>A port answers, throws its typed error with a code, or throws something else.\<close>

datatype 'a port_result = Port_ok 'a | Port_error string | Port_threw

record recall_item =
  ri_text :: string
  ri_digest :: string
  ri_locator :: string
  ri_kind :: string
  ri_state_version :: int
  ri_provenance :: string

record memory_recall =
  mr_schema :: string
  mr_retrieved_at :: string
  mr_items :: "recall_item list"
  mr_warnings :: "string list"

record memory_options =
  mo_enabled :: bool
  mo_workspace_instance :: string
  mo_session :: string
  mo_scope :: string
  mo_mode :: port_mode
  mo_adapter :: string
  mo_recall :: "memory_recall port_result"

record context_bundle =
  cb_workspace :: string
  cb_position :: string
  cb_principal :: string
  cb_retrieved_at :: string
  cb_digest :: string
  cb_watermark :: int
  cb_items :: "context_entry list"
  cb_warnings :: "string list"

record context_options =
  co_enabled :: bool
  co_workspace :: string
  co_mode :: port_mode
  co_adapter :: string
  co_default_ttl :: "int option"
  co_expected_digests :: "(string, string) jsmap"
  co_recall :: "context_bundle port_result"

record model_result =
  mt_text :: string
  mt_input_tokens :: "int option"
  mt_output_tokens :: "int option"

record ledger_port =
  lp_read :: "nat \<Rightarrow> budget_usage option"
  lp_commit :: "nat \<Rightarrow> bool"

record turn_env =
  env_evidence_sink :: "(nat \<Rightarrow> bool) option"
  env_escalation_sink :: "(nat \<Rightarrow> bool) option"
  env_ledger :: "ledger_port option"
  env_model :: "nat \<Rightarrow> string + model_result"
  env_org :: "(string \<Rightarrow> report_to) option"
  env_doom :: doom_config
  env_memory :: "memory_options option"
  env_context :: "context_options option"
  env_aborted :: "nat \<Rightarrow> bool"
  env_attempt_clock :: "nat \<Rightarrow> int"
  env_approval_clock :: "nat \<Rightarrow> int"
  env_context_clock :: int
  env_stamp :: "nat \<Rightarrow> int"
  env_timestamp :: string
  env_new_id :: "nat \<Rightarrow> string"
  env_dparse :: "string \<Rightarrow> int option"
  env_sha :: "string \<Rightarrow> string"
  env_stringify :: "jsval \<Rightarrow> string option"
  env_parse :: "string \<Rightarrow> jsval option"
  env_compile :: "string \<Rightarrow> compiled_schema option"
  env_assembly_digest :: "(context_slot \<times> string) list \<Rightarrow> string"

section \<open>Evidence, events and effects\<close>

datatype approval_outcome = Requested | Granted | Refused | Lapsed

record approval_ref =
  ar_id :: string
  ar_preview :: "string option"
  ar_outcome :: approval_outcome

record memory_evidence =
  me_mode :: port_mode
  me_adapter :: string
  me_scope :: string
  me_retrieved_at :: string
  me_item_count :: nat
  me_total_bytes :: nat
  me_items :: "(string \<times> string \<times> string \<times> int \<times> nat \<times> string) list"
  me_warnings :: "string list"

record context_evidence =
  ce_mode :: port_mode
  ce_adapter :: string
  ce_retrieved_at :: string
  ce_bundle_digest :: string
  ce_watermark :: int
  ce_item_count :: nat
  ce_total_bytes :: nat
  ce_items :: "(string \<times> string \<times> item_kind \<times> int \<times> int \<times> nat) list"
  ce_warnings :: "string list"
  ce_evicted :: "nat option"

record turn_evidence =
  tv_workspace :: string
  tv_position :: string
  tv_turn :: string
  tv_run :: string
  tv_input_digest :: string
  tv_output_digest :: string
  tv_iterations :: nat
  tv_tokens :: int
  tv_max_iterations :: jsval
  tv_max_tokens :: jsval
  tv_position_usage :: "budget_usage option"
  tv_completed :: bool
  tv_reason :: terminal_reason
  tv_code :: "string option"
  tv_escalation :: "string option"
  tv_approval :: "approval_ref option"
  tv_approvals :: "approval_ref list option"
  tv_permissions :: "(permission_summary \<times> denial_attempt list) option"
  tv_memory :: "memory_evidence option"
  tv_context :: "context_evidence option"
  tv_assembly_digest :: string

datatype engine_event =
    Run_started
  | Model_delta string
  | Usage "int option" "int option"
  | Run_completed jsval
  | Run_failed engine_error
  | Approval_requested string approval_action "string option"
  | Approval_granted string string
  | Approval_denied string "string option"

datatype turn_effect =
    Emit engine_event
  | Evidence_write turn_evidence bool
  | Escalation_write escalation_record bool
  | Memory_call
  | Context_call
  | Model_call "context_block list" "(nat \<times> string) list"
  | Ledger_read "budget_usage option"
  | Ledger_commit ledger_entry

definition isTerminalEngineEvent :: "engine_event \<Rightarrow> bool" where
  "isTerminalEngineEvent e = (case e of Run_completed _ \<Rightarrow> True | Run_failed _ \<Rightarrow> True | _ \<Rightarrow> False)"

record turn_state =
  st_trace :: "turn_effect list"
  st_gate :: "permission_gate option"
  st_schema :: "(jsval \<Rightarrow> bool) option"
  st_recall_lines :: "string list"
  st_memory :: "memory_evidence option"
  st_context_lines :: "string list"
  st_context :: "context_evidence option"
  st_blocks :: "context_block list"
  st_digest :: string
  st_detector :: doom_detector
  st_violations :: "(nat \<times> string) list"
  st_iterations :: nat
  st_tokens :: int
  st_usage :: budget_usage
  st_approval :: "approval_ref option"
  st_approvals :: "approval_ref list option"

datatype turn_exit = Returned | Rejected string

text \<open>A stage ends the generator or passes the state on.\<close>

datatype outcome = Halt turn_state turn_exit | Go turn_state

definition on_go :: "outcome \<Rightarrow> (turn_state \<Rightarrow> outcome) \<Rightarrow> outcome" where
  "on_go r f = (case r of Halt s x \<Rightarrow> Halt s x | Go s \<Rightarrow> f s)"

definition start_state :: turn_state where
  "start_state = \<lparr>st_trace = [], st_gate = None, st_schema = None, st_recall_lines = [],
     st_memory = None, st_context_lines = [], st_context = None, st_blocks = [], st_digest = [],
     st_detector = \<lparr>dd_config = DEFAULT_DOOM_LOOP_CONFIG, dd_history = []\<rparr>, st_violations = [],
     st_iterations = 0, st_tokens = 0, st_usage = emptyBudgetUsage, st_approval = None,
     st_approvals = None\<rparr>"

definition log_effect :: "turn_effect \<Rightarrow> turn_state \<Rightarrow> turn_state" where
  "log_effect x s = s\<lparr>st_trace := st_trace s @ [x]\<rparr>"

definition emit :: "engine_event \<Rightarrow> turn_state \<Rightarrow> turn_state" where
  "emit e s = log_effect (Emit e) s"

definition count_effects :: "(turn_effect \<Rightarrow> bool) \<Rightarrow> turn_state \<Rightarrow> nat" where
  "count_effects P s = length (filter P (st_trace s))"

fun is_evidence :: "turn_effect \<Rightarrow> bool" where
  "is_evidence (Evidence_write _ _) = True"
| "is_evidence _ = False"

fun is_escalation :: "turn_effect \<Rightarrow> bool" where
  "is_escalation (Escalation_write _ _) = True"
| "is_escalation _ = False"

fun is_model_call :: "turn_effect \<Rightarrow> bool" where
  "is_model_call (Model_call _ _) = True"
| "is_model_call _ = False"

fun is_ledger_read :: "turn_effect \<Rightarrow> bool" where
  "is_ledger_read (Ledger_read _) = True"
| "is_ledger_read _ = False"

fun is_ledger_commit :: "turn_effect \<Rightarrow> bool" where
  "is_ledger_commit (Ledger_commit _) = True"
| "is_ledger_commit _ = False"

section \<open>The shared steps\<close>

fun REASON_TO_CODE :: "terminal_reason \<Rightarrow> string" where
  "REASON_TO_CODE Goal_met = ''engine.goal_met''"
| "REASON_TO_CODE Invalid_output_exhausted = ''engine.output_invalid''"
| "REASON_TO_CODE Turn_budget_exceeded = ''engine.turn_budget_exceeded''"
| "REASON_TO_CODE Position_budget_exceeded = ''engine.position_budget_exceeded''"
| "REASON_TO_CODE Iteration_cap = ''engine.iteration_cap_reached''"
| "REASON_TO_CODE Doom_loop = ''engine.doom_loop_detected''"
| "REASON_TO_CODE Deadline_exceeded = ''engine.deadline_exceeded''"
| "REASON_TO_CODE Cancelled = ''engine.cancelled''"
| "REASON_TO_CODE Permission_denied = ''engine.permission_denied''"
| "REASON_TO_CODE Memory_unavailable = ''engine.memory_unavailable''"
| "REASON_TO_CODE Memory_denied = ''engine.memory_denied''"
| "REASON_TO_CODE Context_unavailable = ''engine.context_unavailable''"
| "REASON_TO_CODE Context_access_denied = ''engine.context_denied''"
| "REASON_TO_CODE Engine_internal_error = ''engine.internal_error''"

definition RETRYABLE_REASONS :: "terminal_reason list" where
  "RETRYABLE_REASONS = [Invalid_output_exhausted, Deadline_exceeded, Memory_unavailable,
     Context_unavailable, Engine_internal_error]"

definition CONTEXT_BUDGET_EXCEEDED_CODE :: string where
  "CONTEXT_BUDGET_EXCEEDED_CODE = ''engine.context_budget_exceeded''"

text \<open>Every code the executor passes satisfies the pattern, so \<open>terminalError\<close> never throws; the
  lemma \<open>executor_codes_well_formed\<close> states it.\<close>

definition fail_turn :: "string \<Rightarrow> string \<Rightarrow> terminal_reason \<Rightarrow> bool \<Rightarrow> turn_state \<Rightarrow> turn_state" where
  "fail_turn code message reason retryable s =
     emit (Run_failed \<lparr>ee_code = code, ee_message = message, ee_retryable = retryable,
                       ee_reason = reason\<rparr>) s"

definition halt_failed :: "string \<Rightarrow> string \<Rightarrow> terminal_reason \<Rightarrow> bool \<Rightarrow> turn_state \<Rightarrow> outcome" where
  "halt_failed code message reason retryable s = Halt (fail_turn code message reason retryable s) Returned"

definition digestOutputValue :: "turn_env \<Rightarrow> jsval \<Rightarrow> string" where
  "digestOutputValue env v = env_sha env (case env_stringify env v of None \<Rightarrow> ''null'' | Some j \<Rightarrow> j)"

definition use_position_budget :: "turn_env \<Rightarrow> turn_request \<Rightarrow> bool" where
  "use_position_budget env r =
     (tr_position_budget r \<noteq> JUndef \<and> tr_position_budget r \<noteq> JNull \<and> env_ledger env \<noteq> None \<and>
      (case tr_task r of None \<Rightarrow> False | Some t \<Rightarrow> t \<noteq> []) \<and>
      (case tr_day r of None \<Rightarrow> False | Some t \<Rightarrow> t \<noteq> []))"

text \<open>An evidence write: without a sink nothing happens; a write that throws gives \<open>False\<close>.\<close>

definition write_record :: "turn_env \<Rightarrow> turn_evidence \<Rightarrow> turn_state \<Rightarrow> bool \<times> turn_state" where
  "write_record env record s = (case env_evidence_sink env of
      None \<Rightarrow> (True, s)
    | Some ok \<Rightarrow> (let b = ok (count_effects is_evidence s) in (b, log_effect (Evidence_write record b) s)))"

definition evidence_record ::
  "turn_env \<Rightarrow> turn_request \<Rightarrow> bool \<Rightarrow> terminal_reason \<Rightarrow> string option \<Rightarrow> jsval \<Rightarrow> string option \<Rightarrow>
   turn_state \<Rightarrow> turn_evidence" where
  "evidence_record env r completed reason code output escalation s =
     \<lparr>tv_workspace = tr_workspace r, tv_position = tr_position r, tv_turn = tr_turn r,
      tv_run = tr_run r, tv_input_digest = st_digest s,
      tv_output_digest = digestOutputValue env output,
      tv_iterations = st_iterations s, tv_tokens = st_tokens s,
      tv_max_iterations = tb_max_iterations (tr_budget r), tv_max_tokens = tb_max_tokens (tr_budget r),
      tv_position_usage = (if use_position_budget env r then Some (st_usage s) else None),
      tv_completed = completed, tv_reason = reason, tv_code = code,
      tv_escalation = escalation, tv_approval = st_approval s, tv_approvals = st_approvals s,
      tv_permissions = map_option (\<lambda>g. (gate_summary g, pg_denials g)) (st_gate s),
      tv_memory = st_memory s, tv_context = st_context s, tv_assembly_digest = st_digest s\<rparr>"

definition writeEvidence ::
  "turn_env \<Rightarrow> turn_request \<Rightarrow> bool \<Rightarrow> terminal_reason \<Rightarrow> string option \<Rightarrow> jsval \<Rightarrow> string option \<Rightarrow>
   turn_state \<Rightarrow> bool \<times> turn_state" where
  "writeEvidence env r completed reason code output escalation s =
     write_record env (evidence_record env r completed reason code output escalation s) s"

definition writeEscalation ::
  "turn_env \<Rightarrow> turn_request \<Rightarrow> escalation_cause \<Rightarrow> escalation_snapshot \<Rightarrow> turn_state \<Rightarrow>
   bool \<times> string option \<times> turn_state" where
  "writeEscalation env r cause snapshot s = (case env_escalation_sink env of
      None \<Rightarrow> (True, None, s)
    | Some ok \<Rightarrow>
        (let escalationId = env_new_id env (length (st_trace s));
             record = \<lparr>er_id = escalationId, er_workspace = tr_workspace r,
               er_position = tr_position r, er_turn = tr_turn r, er_run = tr_run r,
               er_cause = cause, er_snapshot = snapshot,
               er_routing = resolveEscalationRouting (tr_position r) (env_org env),
               er_occurred_at = env_stamp env (length (st_trace s))\<rparr>;
             b = ok (count_effects is_escalation s)
         in (b, Some escalationId, log_effect (Escalation_write record b) s)))"

text \<open>Escalation, then evidence, then the terminal event; a failing side effect fails closed.\<close>

definition stopWithEscalation ::
  "turn_env \<Rightarrow> turn_request \<Rightarrow> terminal_reason \<Rightarrow> string \<Rightarrow> escalation_cause \<Rightarrow> escalation_snapshot \<Rightarrow>
   string option \<Rightarrow> turn_state \<Rightarrow> turn_state" where
  "stopWithEscalation env r reason message cause snapshot override s =
     (let surfacedCode = (case override of None \<Rightarrow> REASON_TO_CODE reason | Some c \<Rightarrow> c);
          (ok1, ref, s1) = writeEscalation env r cause snapshot s
      in if \<not> ok1 then fail_turn ''engine.internal_error'' ''stop sequence side effects failed''
                         Engine_internal_error False s1
         else let (ok2, s2) = writeEvidence env r False reason (Some surfacedCode) JNull ref s1
           in if \<not> ok2 then fail_turn ''engine.internal_error'' ''stop sequence side effects failed''
                              Engine_internal_error False s2
              else fail_turn surfacedCode message reason (reason \<in> set RETRYABLE_REASONS) s2)"

section \<open>Permission pre-check\<close>

text \<open>The two loops stop at the first denial; the result is the code and the message.\<close>

fun check_reads ::
  "org_permissions \<Rightarrow> string \<Rightarrow> string list \<Rightarrow> permission_gate \<Rightarrow> (denial_code \<times> string) option \<times> permission_gate" where
  "check_reads perms i [] g = (None, g)"
| "check_reads perms i (requested # rs) g =
     (case gate_context_read perms i requested g of
        (Denied code _, g') \<Rightarrow> (Some (code, ''context read out of scope: '' @ requested), g')
      | (Allowed, g') \<Rightarrow> check_reads perms i rs g')"

fun check_tools ::
  "org_permissions \<Rightarrow> string \<Rightarrow> string list \<Rightarrow> permission_gate \<Rightarrow> (denial_code \<times> string) option \<times> permission_gate" where
  "check_tools perms i [] g = (None, g)"
| "check_tools perms i (tool # ts) g =
     (case gate_tool_call perms i tool g of
        (Denied code _, g') \<Rightarrow> (Some (code, ''tool call out of authority: '' @ tool), g')
      | (Allowed, g') \<Rightarrow> check_tools perms i ts g')"

fun denial_code_string :: "denial_code \<Rightarrow> string" where
  "denial_code_string Authority_denied = ''workspace_org_authority_denied''"
| "denial_code_string Context_denied = ''workspace_org_context_denied''"
| "denial_code_string Position_unknown_code = ''workspace_org_position_unknown''"

definition precheck ::
  "org_permissions \<Rightarrow> turn_request \<Rightarrow> (denial_code \<times> string) option \<times> permission_gate" where
  "precheck perms r =
     (if \<not> gate_check_position perms (tr_position r)
      then (Some (Position_unknown_code,
              ''position not present in the permissions artifact: '' @ tr_position r), new_gate)
      else (case check_reads perms (tr_position r) (tr_context_reads r) new_gate of
          (Some d, g) \<Rightarrow> (Some d, g)
        | (None, g) \<Rightarrow> check_tools perms (tr_position r) (tr_tools r) g))"

definition or_zero :: "jsval \<Rightarrow> jsval" where
  "or_zero v = (if v = JUndef \<or> v = JNull then JNum 0 else v)"

definition denial_record ::
  "turn_env \<Rightarrow> org_permissions \<Rightarrow> turn_request \<Rightarrow> denial_code \<Rightarrow> permission_gate \<Rightarrow> turn_evidence" where
  "denial_record env perms r code g =
     (let unknown = (code = Position_unknown_code);
          denials = (if unknown
            then [\<lparr>da_position = tr_position r, da_requested = tr_position r, da_code = code,
                   da_redirect = op_owner perms\<rparr>] else pg_denials g);
          summary = (if unknown
            then \<lparr>ps_allow = 0, ps_deny = 1, ps_codes = [code], ps_redirects = [op_owner perms]\<rparr>
            else gate_summary g)
      in \<lparr>tv_workspace = tr_workspace r, tv_position = tr_position r, tv_turn = tr_turn r,
          tv_run = tr_run r, tv_input_digest = digestOutputValue env (tr_input r),
          tv_output_digest = digestOutputValue env JNull,
          tv_iterations = 0, tv_tokens = 0,
          tv_max_iterations = or_zero (tb_max_iterations (tr_budget r)),
          tv_max_tokens = tb_max_tokens (tr_budget r), tv_position_usage = None,
          tv_completed = False, tv_reason = Permission_denied,
          tv_code = Some (denial_code_string code), tv_escalation = None, tv_approval = None,
          tv_approvals = None, tv_permissions = Some (summary, denials), tv_memory = None,
          tv_context = None, tv_assembly_digest = env_sha env ''[]''\<rparr>)"

definition permission_stage :: "turn_env \<Rightarrow> turn_request \<Rightarrow> turn_state \<Rightarrow> outcome" where
  "permission_stage env r s =
     (if tr_permissions r = JUndef then Go s
      else (case validateOrganizationPermissionsArtifact (tr_permissions r) of
          Inl _ \<Rightarrow> halt_failed ''engine.permissions_invalid''
                     ''permissions artifact is missing or malformed'' Engine_internal_error False s
        | Inr perms \<Rightarrow>
            (case precheck perms r of
               (None, g) \<Rightarrow> Go (s\<lparr>st_gate := Some g\<rparr>)
             | (Some (code, message), g) \<Rightarrow>
                 (let (ok, s') = write_record env (denial_record env perms r code g) (s\<lparr>st_gate := Some g\<rparr>)
                  in if \<not> ok
                     then halt_failed ''engine.internal_error'' ''permission denial evidence write failed''
                            Engine_internal_error False s'
                     else halt_failed (denial_code_string code) message Permission_denied False s'))))"

section \<open>Validation and the terminal schema\<close>

definition validation_stage :: "turn_env \<Rightarrow> turn_request \<Rightarrow> turn_state \<Rightarrow> outcome" where
  "validation_stage env r s =
     (let s1 = emit Run_started s in
      case validateTurnRequest (env_dparse env) r of
        Inl message \<Rightarrow> halt_failed ''engine.input_invalid'' message Engine_internal_error False s1
      | Inr _ \<Rightarrow> Go s1)"

fun guard_code :: "guard_error \<Rightarrow> string" where
  "guard_code Schema_too_large = ''engine.output_schema_too_large''"
| "guard_code Schema_invalid = ''engine.output_schema_invalid''"

definition schema_stage :: "turn_env \<Rightarrow> turn_request \<Rightarrow> turn_state \<Rightarrow> outcome" where
  "schema_stage env r s =
     (case prepareTerminalSchema (env_stringify env) (env_compile env) (tr_output_schema r)
             ENGINE_MAX_OUTPUT_SCHEMA_BYTES of
        Inl e \<Rightarrow> halt_failed (guard_code e) ''output schema rejected'' Engine_internal_error False s
      | Inr schema \<Rightarrow> Go (s\<lparr>st_schema := schema\<rparr>))"

section \<open>The memory and context seams\<close>

definition adapter_char :: "char \<Rightarrow> bool" where
  "adapter_char c = (is_lower c \<or> is_upper c \<or> is_digit c \<or>
     c \<in> {CHR ''.'', CHR ''_'', CHR '':'', CHR ''@'', CHR ''-''})"

text \<open>\<open>/^[A-Za-z0-9][A-Za-z0-9._:@-]{0,127}$/\<close>\<close>

definition ADAPTER_IDENTITY_PATTERN :: "string \<Rightarrow> bool" where
  "ADAPTER_IDENTITY_PATTERN s = (case s of
      [] \<Rightarrow> False
    | c # cs \<Rightarrow> (is_lower c \<or> is_upper c \<or> is_digit c) \<and> length cs \<le> 127 \<and> list_all adapter_char cs)"

text \<open>\<open>derivePositionPrincipal\<close> throws the typed error unless \<open>/^[a-z0-9][a-z0-9._-]{0,118}$/\<close>.\<close>

definition derivePositionPrincipal :: "string \<Rightarrow> string option" where
  "derivePositionPrincipal i = (case i of
      [] \<Rightarrow> None
    | c # cs \<Rightarrow>
        if (is_lower c \<or> is_digit c) \<and> length cs \<le> 118 \<and> list_all error_code_char cs
        then Some (''position.'' @ i) else None)"

definition deriveContextPrincipal :: "string \<Rightarrow> string" where
  "deriveContextPrincipal i = ''position.'' @ i"

definition MEMORY_RECALL_SCHEMA_VERSION :: string where
  "MEMORY_RECALL_SCHEMA_VERSION = ''memory-recall.v1''"

definition memory_outage :: "turn_env \<Rightarrow> memory_options \<Rightarrow> memory_evidence" where
  "memory_outage env m = \<lparr>me_mode = Optional_mode, me_adapter = mo_adapter m, me_scope = mo_scope m,
     me_retrieved_at = env_timestamp env, me_item_count = 0, me_total_bytes = 0, me_items = [],
     me_warnings = [''MEMORY_UNAVAILABLE'']\<rparr>"

definition recall_evidence :: "turn_env \<Rightarrow> memory_options \<Rightarrow> memory_recall \<Rightarrow> memory_evidence" where
  "recall_evidence env m recall = \<lparr>me_mode = mo_mode m, me_adapter = mo_adapter m,
     me_scope = mo_scope m, me_retrieved_at = mr_retrieved_at recall,
     me_item_count = length (mr_items recall),
     me_total_bytes = sum_list (map (\<lambda>i. utf8_len (ri_text i)) (mr_items recall)),
     me_items = map (\<lambda>i. (ri_digest i, ri_locator i, ri_kind i, ri_state_version i,
                          utf8_len (ri_text i), env_sha env (ri_provenance i))) (mr_items recall),
     me_warnings = mr_warnings recall\<rparr>"

text \<open>What \<open>port.recall\<close> yields: the principal is derived while its argument is built.\<close>

definition memory_answer :: "memory_options \<Rightarrow> turn_request \<Rightarrow> memory_recall port_result" where
  "memory_answer m r = (case derivePositionPrincipal (tr_position r) of
      None \<Rightarrow> Port_error ''MEMORY_SCOPE_INVALID''
    | Some _ \<Rightarrow> mo_recall m)"

definition memory_stage :: "turn_env \<Rightarrow> turn_request \<Rightarrow> turn_state \<Rightarrow> outcome" where
  "memory_stage env r s = (case env_memory env of
      None \<Rightarrow> Go s
    | Some m \<Rightarrow>
       (if \<not> mo_enabled m then Go s
        else if \<not> ADAPTER_IDENTITY_PATTERN (mo_adapter m)
        then halt_failed (REASON_TO_CODE Memory_denied) ''memory adapter identity is missing or malformed''
               Memory_denied False s
        else let s1 = (if derivePositionPrincipal (tr_position r) = None then s else log_effect Memory_call s) in
          (case memory_answer m r of
             Port_ok recall \<Rightarrow>
               (if mr_schema recall \<noteq> MEMORY_RECALL_SCHEMA_VERSION
                then halt_failed (REASON_TO_CODE Memory_denied)
                       ''memory recall returned an unexpected wire schema version'' Memory_denied False s1
                else Go (s1\<lparr>st_recall_lines := map ri_text (mr_items recall),
                             st_memory := Some (recall_evidence env m recall)\<rparr>))
           | Port_error code \<Rightarrow>
               (if mo_mode m = Optional_mode \<and> code = ''MEMORY_UNAVAILABLE''
                then Go (s1\<lparr>st_memory := Some (memory_outage env m)\<rparr>)
                else if code = ''MEMORY_UNAVAILABLE''
                then halt_failed (REASON_TO_CODE Memory_unavailable)
                       ''durable memory is unavailable in required mode'' Memory_unavailable True s1
                else halt_failed (REASON_TO_CODE Memory_denied)
                       (''memory recall failed closed: '' @ code) Memory_denied False s1)
           | Port_threw \<Rightarrow>
               halt_failed (REASON_TO_CODE Memory_denied) ''memory recall failed closed''
                 Memory_denied False s1)))"

definition context_outage :: "turn_env \<Rightarrow> context_options \<Rightarrow> context_evidence" where
  "context_outage env c = \<lparr>ce_mode = Optional_mode, ce_adapter = co_adapter c,
     ce_retrieved_at = env_timestamp env, ce_bundle_digest = env_sha env ''context-bundle.v1:empty'',
     ce_watermark = 0, ce_item_count = 0, ce_total_bytes = 0, ce_items = [],
     ce_warnings = [''CONTEXT_UNAVAILABLE''], ce_evicted = None\<rparr>"

definition projected_entries :: "context_options \<Rightarrow> context_bundle \<Rightarrow> context_entry list" where
  "projected_entries c bundle = map (\<lambda>e. case co_default_ttl c of
      None \<Rightarrow> e | Some t \<Rightarrow> e\<lparr>ci_ttl := Some t\<rparr>) (cb_items bundle)"

definition bundle_evidence ::
  "context_options \<Rightarrow> context_bundle \<Rightarrow> context_entry list \<Rightarrow> nat \<Rightarrow> context_evidence" where
  "bundle_evidence c bundle fresh evicted = \<lparr>ce_mode = co_mode c, ce_adapter = co_adapter c,
     ce_retrieved_at = cb_retrieved_at bundle, ce_bundle_digest = cb_digest bundle,
     ce_watermark = cb_watermark bundle, ce_item_count = length fresh,
     ce_total_bytes = sum_list (map (\<lambda>e. utf8_len (ci_text e)) fresh),
     ce_items = map (\<lambda>e. (ci_artifact_digest e, ci_locator e, ci_kind e, ci_source_revision e,
                          ci_derived_revision e, utf8_len (ci_text e))) fresh,
     ce_warnings = cb_warnings bundle,
     ce_evicted = (if co_default_ttl c \<noteq> None \<or> 0 < length (map_keys (co_expected_digests c))
                   then Some evicted else None)\<rparr>"

definition context_stage :: "turn_env \<Rightarrow> turn_request \<Rightarrow> turn_state \<Rightarrow> outcome" where
  "context_stage env r s = (case env_context env of
      None \<Rightarrow> Go s
    | Some c \<Rightarrow>
       (if \<not> co_enabled c then Go s
        else if \<not> ADAPTER_IDENTITY_PATTERN (co_adapter c)
        then halt_failed (REASON_TO_CODE Context_access_denied) ''context adapter identity is missing or malformed''
               Context_access_denied False s
        else let s1 = log_effect Context_call s in
          (case co_recall c of
             Port_ok bundle \<Rightarrow>
               (if cb_workspace bundle \<noteq> co_workspace c \<or> cb_position bundle \<noteq> tr_position r \<or>
                   cb_principal bundle \<noteq> deriveContextPrincipal (tr_position r)
                then halt_failed (REASON_TO_CODE Context_access_denied)
                       ''context recall returned a bundle outside the pinned scope'' Context_access_denied False s1
                else let (fresh, evicted) = filterFreshContext (env_dparse env)
                           (projected_entries c bundle) (env_context_clock env) (co_expected_digests c)
                     in Go (s1\<lparr>st_context_lines := map ci_text fresh,
                               st_context := Some (bundle_evidence c bundle fresh (length evicted))\<rparr>))
           | Port_error code \<Rightarrow>
               (if co_mode c = Optional_mode \<and> code = ''CONTEXT_UNAVAILABLE''
                then Go (s1\<lparr>st_context := Some (context_outage env c)\<rparr>)
                else if code = ''CONTEXT_UNAVAILABLE''
                then halt_failed (REASON_TO_CODE Context_unavailable)
                       ''workbench context is unavailable in required mode'' Context_unavailable True s1
                else halt_failed (REASON_TO_CODE Context_access_denied)
                       (''context recall failed closed: '' @ code) Context_access_denied False s1)
           | Port_threw \<Rightarrow>
               halt_failed (REASON_TO_CODE Context_access_denied) ''context recall failed closed''
                 Context_access_denied False s1)))"

section \<open>Assembly, detector and ledger\<close>

text \<open>Outside any \<open>try\<close>: an empty turn input, a bad detector configuration or a failing first
  ledger read rejects the generator.\<close>

definition turn_input_text :: "turn_env \<Rightarrow> turn_request \<Rightarrow> string" where
  "turn_input_text env r = (case tr_input r of
      JStr t \<Rightarrow> t
    | v \<Rightarrow> (case env_stringify env v of None \<Rightarrow> [] | Some j \<Rightarrow> j))"

definition assemble_stage :: "turn_env \<Rightarrow> turn_request \<Rightarrow> turn_state \<Rightarrow> outcome" where
  "assemble_stage env r s =
     (case assembleContext (env_assembly_digest env)
        \<lparr>ai_position = tr_position r, ai_turn = tr_turn r, ai_instructions = tr_instructions r,
         ai_spec = tr_spec r, ai_turn_input = turn_input_text env r,
         ai_memory_recall = st_recall_lines s, ai_context_bundle = st_context_lines s\<rparr> no_limits of
        Inl e \<Rightarrow> Halt s (Rejected e)
      | Inr (blocks, manifest) \<Rightarrow> Go (s\<lparr>st_blocks := blocks, st_digest := am_digest manifest\<rparr>))"

definition detector_stage :: "turn_env \<Rightarrow> turn_state \<Rightarrow> outcome" where
  "detector_stage env s = (case new_detector (env_doom env) of
      Inl e \<Rightarrow> Halt s (Rejected e)
    | Inr d \<Rightarrow> Go (s\<lparr>st_detector := d\<rparr>))"

text \<open>The read usage goes into the state; \<open>False\<close> when the read throws.\<close>

definition read_usage :: "turn_env \<Rightarrow> turn_state \<Rightarrow> bool \<times> turn_state" where
  "read_usage env s = (case env_ledger env of
      None \<Rightarrow> (True, s)
    | Some l \<Rightarrow> (let u = lp_read l (count_effects is_ledger_read s);
                    s' = log_effect (Ledger_read u) s
                in (case u of None \<Rightarrow> (False, s') | Some usage \<Rightarrow> (True, s'\<lparr>st_usage := usage\<rparr>))))"

definition ledger_stage :: "turn_env \<Rightarrow> turn_request \<Rightarrow> turn_state \<Rightarrow> outcome" where
  "ledger_stage env r s =
     (if \<not> use_position_budget env r then Go s
      else (let (ok, s') = read_usage env s
            in if ok then Go s' else Halt s' (Rejected ''ledger read failed'')))"

definition no_snapshot :: "int \<Rightarrow> int \<Rightarrow> escalation_snapshot" where
  "no_snapshot used limit = \<lparr>es_dimension = None, es_used = used, es_limit = limit\<rparr>"

definition context_cap_stage :: "turn_env \<Rightarrow> turn_request \<Rightarrow> turn_state \<Rightarrow> outcome" where
  "context_cap_stage env r s = (case js_int (tb_max_context_bytes (tr_budget r)) of
      None \<Rightarrow> Go s
    | Some cap \<Rightarrow>
        (let contextBytes = int (sum_list (map cb_byte_length (st_blocks s))) in
         if contextBytes > cap
         then Halt (stopWithEscalation env r Turn_budget_exceeded
                ''assembled context envelope exceeds maxContextBytes'' Cause_turn_budget_exceeded
                \<lparr>es_dimension = Some Turn_tokens, es_used = contextBytes, es_limit = cap\<rparr>
                (Some CONTEXT_BUDGET_EXCEEDED_CODE) s) Returned
         else Go s))"

section \<open>Approval gate\<close>

definition approval_internal :: "turn_state \<Rightarrow> outcome" where
  "approval_internal s = halt_failed ''engine.internal_error'' ''approval settlement side effects failed''
     Engine_internal_error False s"

text \<open>Evidence first, then the events, then the terminal failure.\<close>

definition settle ::
  "turn_env \<Rightarrow> turn_request \<Rightarrow> terminal_reason \<Rightarrow> string \<Rightarrow> engine_event list \<Rightarrow> string \<Rightarrow> bool \<Rightarrow>
   turn_state \<Rightarrow> outcome" where
  "settle env r reason code events message retryable s =
     (let (ok, s1) = writeEvidence env r False reason (Some code) JNull None s
      in if \<not> ok then approval_internal s1
         else halt_failed code message reason retryable (fold emit events s1))"

definition granted_event :: "pending_approval \<Rightarrow> engine_event" where
  "granted_event p = Approval_granted (pa_id p) (case pa_scope p of None \<Rightarrow> ''once'' | Some sc \<Rightarrow> sc)"

definition refs_of :: "approval_outcome \<Rightarrow> pending_approval list \<Rightarrow> approval_ref list" where
  "refs_of out ps = map (\<lambda>p. \<lparr>ar_id = pa_id p, ar_preview = None, ar_outcome = out\<rparr>) ps"

definition batch_stage :: "turn_env \<Rightarrow> turn_request \<Rightarrow> pending_approval list \<Rightarrow> turn_state \<Rightarrow> outcome" where
  "batch_stage env r ps s =
     (if list_ex (\<lambda>(i, p). pendingApprovalExpired (env_dparse env) p (env_approval_clock env i))
           (enumerate 0 ps)
      then settle env r Cancelled APPROVAL_EXPIRED_CODE []
             ''one or more pending approval verdicts are expired or unusable; the batch was not settled''
             False (s\<lparr>st_approvals := Some (refs_of Lapsed ps)\<rparr>)
      else if pa_decision (hd ps) = ''denied''
      then settle env r Cancelled APPROVAL_DENIED_CODE
             (map (\<lambda>p. Approval_denied (pa_id p) (pa_reason p)) ps)
             ''operator denied the approval batch; the turn settles without retry''
             False (s\<lparr>st_approvals := Some (refs_of Refused ps)\<rparr>)
      else Go (fold emit (map granted_event ps) (s\<lparr>st_approvals := Some (refs_of Granted ps)\<rparr>)))"

definition pending_stage :: "turn_env \<Rightarrow> turn_request \<Rightarrow> pending_approval \<Rightarrow> turn_state \<Rightarrow> outcome" where
  "pending_stage env r p s =
     (if pendingApprovalExpired (env_dparse env) p (env_approval_clock env 0)
      then settle env r Cancelled APPROVAL_EXPIRED_CODE []
             ''pending approval verdict is expired or unusable; fail closed, re-issue the verdict''
             False (s\<lparr>st_approval := Some \<lparr>ar_id = pa_id p, ar_preview = None, ar_outcome = Lapsed\<rparr>\<rparr>)
      else if pa_decision p = ''denied''
      then settle env r Cancelled APPROVAL_DENIED_CODE [Approval_denied (pa_id p) (pa_reason p)]
             ''operator denied the approval; the turn settles without retry''
             False (s\<lparr>st_approval := Some \<lparr>ar_id = pa_id p, ar_preview = None, ar_outcome = Refused\<rparr>\<rparr>)
      else Go (emit (granted_event p)
             (s\<lparr>st_approval := Some \<lparr>ar_id = pa_id p, ar_preview = None, ar_outcome = Granted\<rparr>\<rparr>)))"

definition action_stage :: "turn_env \<Rightarrow> turn_request \<Rightarrow> approval_action \<Rightarrow> turn_state \<Rightarrow> outcome" where
  "action_stage env r a s = (case previewGateAllows a of
      Some (code, message) \<Rightarrow> settle env r Engine_internal_error code [] message False s
    | None \<Rightarrow>
        (let approvalId = env_new_id env (length (st_trace s)) in
         settle env r Cancelled APPROVAL_REQUIRED_CODE [Approval_requested approvalId a (tr_deadline r)]
           ''turn stopped at the capability gate awaiting an operator approval verdict; resume with a turn carrying pendingApproval''
           True (s\<lparr>st_approval := Some \<lparr>ar_id = approvalId,
             ar_preview = Some (pr_id (aa_preview a)), ar_outcome = Requested\<rparr>\<rparr>)))"

definition approval_stage :: "turn_env \<Rightarrow> turn_request \<Rightarrow> turn_state \<Rightarrow> outcome" where
  "approval_stage env r s = (case tr_pendings r of
      Some ps \<Rightarrow> batch_stage env r ps s
    | None \<Rightarrow> (case tr_pending r of
          Some p \<Rightarrow> pending_stage env r p s
        | None \<Rightarrow> (case tr_approval_action r of
              Some a \<Rightarrow> action_stage env r a s
            | None \<Rightarrow> Go s)))"

section \<open>The loop\<close>

text \<open>One attempt ends the turn, throws into the surrounding \<open>catch\<close>, or asks for another.\<close>

datatype attempt = Ended turn_state | Threw string turn_state | Again turn_state

definition over_tokens :: "turn_request \<Rightarrow> turn_state \<Rightarrow> int option" where
  "over_tokens r s = (case js_int (tb_max_tokens (tr_budget r)) of
      None \<Rightarrow> None | Some m \<Rightarrow> if st_tokens s > m then Some m else None)"

definition the_budget :: "turn_request \<Rightarrow> position_budget" where
  "the_budget r = (case validatePositionBudgetDeclaration (tr_position_budget r) of
      Inr d \<Rightarrow> d
    | Inl _ \<Rightarrow> \<lparr>per_task = \<lparr>scope_tokens = None, scope_iterations = None\<rparr>,
                per_day = \<lparr>scope_tokens = None, scope_iterations = None\<rparr>\<rparr>)"

definition exceeded_snapshot :: "budget_exceeded \<Rightarrow> escalation_snapshot" where
  "exceeded_snapshot e = \<lparr>es_dimension = Some (be_dimension e), es_used = be_used e, es_limit = be_limit e\<rparr>"

definition stop_tokens :: "turn_env \<Rightarrow> turn_request \<Rightarrow> int \<Rightarrow> turn_state \<Rightarrow> attempt" where
  "stop_tokens env r m s = Ended (stopWithEscalation env r Turn_budget_exceeded
     ''turn token budget exceeded'' Cause_turn_budget_exceeded
     \<lparr>es_dimension = Some Turn_tokens, es_used = st_tokens s, es_limit = m\<rparr> None s)"

definition stop_position :: "turn_env \<Rightarrow> turn_request \<Rightarrow> budget_exceeded \<Rightarrow> turn_state \<Rightarrow> attempt" where
  "stop_position env r e s = Ended (stopWithEscalation env r Position_budget_exceeded
     ''position budget exceeded'' Cause_position_budget_exceeded (exceeded_snapshot e) None s)"

definition call_tokens :: "model_result \<Rightarrow> int" where
  "call_tokens m = (case mt_input_tokens m of None \<Rightarrow> 0 | Some n \<Rightarrow> n) +
                   (case mt_output_tokens m of None \<Rightarrow> 0 | Some n \<Rightarrow> n)"

text \<open>\<open>goal_met\<close>: the evidence write is inside the \<open>try\<close>, so its failure is caught below.\<close>

definition complete_turn :: "turn_env \<Rightarrow> turn_request \<Rightarrow> jsval \<Rightarrow> turn_state \<Rightarrow> attempt" where
  "complete_turn env r output s =
     (let (ok, s1) = writeEvidence env r True Goal_met None output None s
      in if \<not> ok then Threw ''evidence write failed'' s1 else Ended (emit (Run_completed output) s1))"

definition judge_output :: "turn_env \<Rightarrow> turn_request \<Rightarrow> nat \<Rightarrow> string \<Rightarrow> turn_state \<Rightarrow> attempt" where
  "judge_output env r att text s = (case st_schema s of
      None \<Rightarrow> complete_turn env r (JStr text) s
    | Some valid \<Rightarrow>
        (case env_parse env text of
           None \<Rightarrow> Again (s\<lparr>st_violations := st_violations s @ [(att, ''output is not valid JSON'')]\<rparr>)
         | Some candidate \<Rightarrow>
             (if valid candidate then complete_turn env r candidate s
              else Again (s\<lparr>st_violations := st_violations s @
                     [(att, ''output failed terminal schema validation'')]\<rparr>))))"

definition after_commit :: "turn_env \<Rightarrow> turn_request \<Rightarrow> nat \<Rightarrow> model_result \<Rightarrow> turn_state \<Rightarrow> attempt" where
  "after_commit env r att m s =
     (case over_tokens r s of
        Some limit \<Rightarrow> stop_tokens env r limit s
      | None \<Rightarrow>
          (let s1 = emit (Model_delta (mt_text m)) s;
               (signal, d) = observe (env_sha env) (st_detector s1) (mt_text m);
               s2 = s1\<lparr>st_detector := d\<rparr>
           in if signal \<noteq> Sig_none
              then Ended (stopWithEscalation env r Doom_loop
                     (''doom loop detected ('' @ (if signal = Sig_repetition then ''repetition'' else ''oscillation'') @ '')'')
                     Cause_doom_loop (no_snapshot 0 0) None s2)
              else judge_output env r att (mt_text m) s2))"

definition commit_usage :: "turn_env \<Rightarrow> turn_request \<Rightarrow> nat \<Rightarrow> model_result \<Rightarrow> turn_state \<Rightarrow> attempt" where
  "commit_usage env r att m s =
     (if \<not> use_position_budget env r then after_commit env r att m s
      else (case env_ledger env of
          None \<Rightarrow> after_commit env r att m s
        | Some l \<Rightarrow>
           (let entry = \<lparr>le_position = tr_position r, le_task = the (tr_task r), le_day = the (tr_day r),
                         le_tokens = call_tokens m, le_iterations = 1\<rparr>;
                s1 = log_effect (Ledger_commit entry) s
            in if \<not> lp_commit l (count_effects is_ledger_commit s) then Threw ''ledger commit failed'' s1
               else (let (ok, s2) = read_usage env s1
                     in if \<not> ok then Threw ''ledger read failed'' s2
                        else (case checkPositionBudget (the_budget r) (st_usage s2) 0 0 of
                           Some e \<Rightarrow> stop_position env r e s2
                         | None \<Rightarrow> after_commit env r att m s2)))))"

definition consume :: "turn_env \<Rightarrow> turn_request \<Rightarrow> nat \<Rightarrow> turn_state \<Rightarrow> attempt" where
  "consume env r att s =
     (let s1 = log_effect (Model_call (st_blocks s) (st_violations s)) s in
      (case env_model env (count_effects is_model_call s) of
         Inl message \<Rightarrow> Threw message s1
       | Inr m \<Rightarrow>
           (let s2 = s1\<lparr>st_iterations := st_iterations s1 + 1, st_tokens := st_tokens s1 + call_tokens m\<rparr>;
                s3 = (if mt_input_tokens m \<noteq> None \<or> mt_output_tokens m \<noteq> None
                      then emit (Usage (mt_input_tokens m) (mt_output_tokens m)) s2 else s2)
            in commit_usage env r att m s3)))"

definition run_attempt :: "turn_env \<Rightarrow> turn_request \<Rightarrow> nat \<Rightarrow> turn_state \<Rightarrow> attempt" where
  "run_attempt env r att s =
     (if env_aborted env att
      then Ended (fail_turn ''engine.cancelled'' ''turn cancelled'' Cancelled False
             (snd (writeEvidence env r False Cancelled (Some (REASON_TO_CODE Cancelled)) JNull None s)))
      else if (case tr_deadline r of None \<Rightarrow> False
               | Some d \<Rightarrow> (case env_dparse env d of None \<Rightarrow> False | Some t \<Rightarrow> env_attempt_clock env att > t))
      then Ended (stopWithEscalation env r Deadline_exceeded ''turn deadline exceeded''
             Cause_deadline_exceeded (no_snapshot 0 0) None s)
      else (case over_tokens r s of
          Some limit \<Rightarrow> stop_tokens env r limit s
        | None \<Rightarrow>
            (case (if use_position_budget env r
                   then checkPositionBudget (the_budget r) (st_usage s) 0 1 else None) of
               Some e \<Rightarrow> stop_position env r e s
             | None \<Rightarrow> consume env r att s)))"

text \<open>The remaining attempts; \<open>Again\<close> is the loop running out.\<close>

fun run_attempts :: "turn_env \<Rightarrow> turn_request \<Rightarrow> nat \<Rightarrow> nat \<Rightarrow> turn_state \<Rightarrow> attempt" where
  "run_attempts env r 0 att s = Again s"
| "run_attempts env r (Suc n) att s = (case run_attempt env r att s of
      Ended s' \<Rightarrow> Ended s'
    | Threw message s' \<Rightarrow> Threw message s'
    | Again s' \<Rightarrow> run_attempts env r n (Suc att) s')"

definition max_iterations :: "turn_request \<Rightarrow> nat" where
  "max_iterations r = (case js_int (tb_max_iterations (tr_budget r)) of None \<Rightarrow> 0 | Some n \<Rightarrow> nat n)"

definition exhausted :: "turn_env \<Rightarrow> turn_request \<Rightarrow> turn_state \<Rightarrow> attempt" where
  "exhausted env r s =
     (if st_schema s = None
      then Ended (stopWithEscalation env r Iteration_cap ''iteration budget exhausted''
             Cause_iteration_cap (no_snapshot (int (st_iterations s)) (int (max_iterations r))) None s)
      else (let (ok, s1) = writeEvidence env r False Invalid_output_exhausted
                             (Some (REASON_TO_CODE Invalid_output_exhausted)) JNull None s
            in if \<not> ok then Threw ''evidence write failed'' s1
               else Ended (fail_turn ''engine.output_invalid''
                      ''output failed terminal schema validation after bounded repair attempts''
                      Invalid_output_exhausted True s1)))"

definition catch_stage :: "turn_env \<Rightarrow> turn_request \<Rightarrow> string \<Rightarrow> turn_state \<Rightarrow> turn_state" where
  "catch_stage env r message s =
     fail_turn ''engine.internal_error'' message Engine_internal_error True
       (snd (writeEvidence env r False Engine_internal_error
               (Some (REASON_TO_CODE Engine_internal_error)) JNull None s))"

definition loop_stage :: "turn_env \<Rightarrow> turn_request \<Rightarrow> turn_state \<Rightarrow> outcome" where
  "loop_stage env r s =
     (case (case run_attempts env r (max_iterations r) 1 s of
              Again s' \<Rightarrow> exhausted env r s' | other \<Rightarrow> other) of
        Ended s' \<Rightarrow> Halt s' Returned
      | Threw message s' \<Rightarrow> Halt (catch_stage env r message s') Returned
      | Again s' \<Rightarrow> Halt s' Returned)"

definition turn_stages :: "turn_env \<Rightarrow> turn_request \<Rightarrow> outcome" where
  "turn_stages env r =
     on_go (permission_stage env r start_state) (\<lambda>s.
     on_go (validation_stage env r s) (\<lambda>s.
     on_go (schema_stage env r s) (\<lambda>s.
     on_go (memory_stage env r s) (\<lambda>s.
     on_go (context_stage env r s) (\<lambda>s.
     on_go (assemble_stage env r s) (\<lambda>s.
     on_go (detector_stage env s) (\<lambda>s.
     on_go (ledger_stage env r s) (\<lambda>s.
     on_go (context_cap_stage env r s) (\<lambda>s.
     on_go (approval_stage env r s) (\<lambda>s.
       loop_stage env r s))))))))))"

definition executeTurn :: "turn_env \<Rightarrow> turn_request \<Rightarrow> turn_effect list \<times> turn_exit" where
  "executeTurn env r = (case turn_stages env r of
      Halt s x \<Rightarrow> (st_trace s, x)
    | Go s \<Rightarrow> (st_trace s, Returned))"

end
