(* ===== verification/TurnSafety.thy ===== *)
theory TurnSafety
  imports TurnExecutor
begin

text \<open>
  The contract of one turn and the proof that the executor keeps it. \<open>allowed\<close> says which
  effect may follow which trace: nothing after a terminal event, a model call only behind the
  gates and within the budgets, a completion only with a valid output that evidence records, a
  governed stop only after its escalation and its evidence. A trace is \<open>legal\<close> when every effect
  was allowed where it happened; the stages are shown to keep it, whatever the environment does.
\<close>

section \<open>The contract\<close>

fun is_terminal_effect :: "turn_effect \<Rightarrow> bool" where
  "is_terminal_effect (Emit e) = isTerminalEngineEvent e"
| "is_terminal_effect _ = False"

definition terminal_in :: "turn_effect list \<Rightarrow> bool" where
  "terminal_in tr = list_ex is_terminal_effect tr"

definition how_many :: "(turn_effect \<Rightarrow> bool) \<Rightarrow> turn_effect list \<Rightarrow> nat" where
  "how_many P tr = length (filter P tr)"

fun usage_of :: "turn_effect \<Rightarrow> int" where
  "usage_of (Emit (Usage i out)) = (case i of None \<Rightarrow> 0 | Some n \<Rightarrow> n) + (case out of None \<Rightarrow> 0 | Some n \<Rightarrow> n)"
| "usage_of _ = 0"

definition usage_total :: "turn_effect list \<Rightarrow> int" where
  "usage_total tr = sum_list (map usage_of tr)"

fun last_reading_rev :: "turn_effect list \<Rightarrow> budget_usage option" where
  "last_reading_rev [] = None"
| "last_reading_rev (Ledger_read u # xs) = u"
| "last_reading_rev (_ # xs) = last_reading_rev xs"

definition last_reading :: "turn_effect list \<Rightarrow> budget_usage option" where
  "last_reading tr = last_reading_rev (rev tr)"

definition permitted :: "turn_env \<Rightarrow> turn_request \<Rightarrow> bool" where
  "permitted env r \<longleftrightarrow> tr_permissions r = JUndef \<or>
     (case validateOrganizationPermissionsArtifact (tr_permissions r) of
        Inl _ \<Rightarrow> False | Inr perms \<Rightarrow> fst (precheck perms r) = None)"

definition verdict_clear :: "turn_env \<Rightarrow> nat \<Rightarrow> pending_approval \<Rightarrow> bool" where
  "verdict_clear env i p \<longleftrightarrow>
     \<not> pendingApprovalExpired (env_dparse env) p (env_approval_clock env i) \<and> pa_decision p = ''granted''"

definition verdicts_clear :: "turn_env \<Rightarrow> turn_request \<Rightarrow> bool" where
  "verdicts_clear env r \<longleftrightarrow> tr_approval_action r = None \<and>
     (case tr_pending r of None \<Rightarrow> True | Some p \<Rightarrow> verdict_clear env 0 p) \<and>
     (case tr_pendings r of None \<Rightarrow> True
      | Some ps \<Rightarrow> list_all (\<lambda>(i, p). verdict_clear env i p) (enumerate 0 ps))"

definition within_optional :: "jsval \<Rightarrow> int \<Rightarrow> bool" where
  "within_optional cap n \<longleftrightarrow> (case js_int cap of None \<Rightarrow> True | Some m \<Rightarrow> n \<le> m)"

definition may_call :: "turn_env \<Rightarrow> turn_request \<Rightarrow> turn_effect list \<Rightarrow> context_block list \<Rightarrow> bool" where
  "may_call env r tr blocks \<longleftrightarrow>
     validateTurnRequest (env_dparse env) r = Inr r \<and> permitted env r \<and> verdicts_clear env r \<and>
     Emit Run_started \<in> set tr \<and>
     how_many is_model_call tr < max_iterations r \<and>
     within_optional (tb_max_tokens (tr_budget r)) (usage_total tr) \<and>
     within_optional (tb_max_context_bytes (tr_budget r)) (int (sum_list (map cb_byte_length blocks))) \<and>
     (use_position_budget env r \<longrightarrow>
        how_many is_ledger_commit tr = how_many is_model_call tr \<and>
        how_many is_ledger_read tr = Suc (how_many is_ledger_commit tr) \<and>
        (case last_reading tr of None \<Rightarrow> False
         | Some u \<Rightarrow> checkPositionBudget (the_budget r) u 0 1 = None))"

definition evidenced ::
  "turn_env \<Rightarrow> turn_effect list \<Rightarrow> bool \<Rightarrow> terminal_reason \<Rightarrow> string option \<Rightarrow> bool" where
  "evidenced env tr completed reason code \<longleftrightarrow> env_evidence_sink env = None \<or>
     (\<exists>rec. Evidence_write rec True \<in> set tr \<and> tv_completed rec = completed \<and>
        tv_reason rec = reason \<and> tv_code rec = code)"

definition output_evidenced :: "turn_env \<Rightarrow> turn_effect list \<Rightarrow> jsval \<Rightarrow> bool" where
  "output_evidenced env tr v \<longleftrightarrow> env_evidence_sink env = None \<or>
     (\<exists>rec. Evidence_write rec True \<in> set tr \<and> tv_completed rec \<and> tv_reason rec = Goal_met \<and>
        tv_output_digest rec = digestOutputValue env v)"

fun cause_of :: "terminal_reason \<Rightarrow> escalation_cause option" where
  "cause_of Turn_budget_exceeded = Some Cause_turn_budget_exceeded"
| "cause_of Position_budget_exceeded = Some Cause_position_budget_exceeded"
| "cause_of Iteration_cap = Some Cause_iteration_cap"
| "cause_of Doom_loop = Some Cause_doom_loop"
| "cause_of Deadline_exceeded = Some Cause_deadline_exceeded"
| "cause_of _ = None"

text \<open>A governed stop: the escalation was persisted, and the evidence refers to it.\<close>

definition stop_recorded :: "turn_env \<Rightarrow> turn_effect list \<Rightarrow> terminal_reason \<Rightarrow> string \<Rightarrow> bool" where
  "stop_recorded env tr reason code \<longleftrightarrow> (\<exists>ref.
     (env_escalation_sink env = None \<or>
        (\<exists>er. Escalation_write er True \<in> set tr \<and> cause_of reason = Some (er_cause er) \<and> ref = Some (er_id er))) \<and>
     (env_evidence_sink env = None \<or>
        (\<exists>rec. Evidence_write rec True \<in> set tr \<and> \<not> tv_completed rec \<and> tv_reason rec = reason \<and>
          tv_code rec = Some code \<and> tv_escalation rec = ref)))"

definition failure_backed :: "turn_env \<Rightarrow> turn_effect list \<Rightarrow> engine_error \<Rightarrow> bool" where
  "failure_backed env tr e \<longleftrightarrow> (case ee_reason e of
      Goal_met \<Rightarrow> False
    | Engine_internal_error \<Rightarrow> True
    | Memory_unavailable \<Rightarrow> True
    | Memory_denied \<Rightarrow> True
    | Context_unavailable \<Rightarrow> True
    | Context_access_denied \<Rightarrow> True
    | Permission_denied \<Rightarrow> evidenced env tr False Permission_denied (Some (ee_code e))
    | Invalid_output_exhausted \<Rightarrow> evidenced env tr False Invalid_output_exhausted (Some (ee_code e))
    | Cancelled \<Rightarrow> ee_code e = REASON_TO_CODE Cancelled \<or> evidenced env tr False Cancelled (Some (ee_code e))
    | reason \<Rightarrow> stop_recorded env tr reason (ee_code e))"

definition output_valid :: "turn_env \<Rightarrow> turn_request \<Rightarrow> jsval \<Rightarrow> bool" where
  "output_valid env r v \<longleftrightarrow>
     (case prepareTerminalSchema (env_stringify env) (env_compile env) (tr_output_schema r)
             ENGINE_MAX_OUTPUT_SCHEMA_BYTES of
        Inl _ \<Rightarrow> False | Inr None \<Rightarrow> js_str v \<noteq> None | Inr (Some valid) \<Rightarrow> valid v)"

definition allowed :: "turn_env \<Rightarrow> turn_request \<Rightarrow> turn_effect list \<Rightarrow> turn_effect \<Rightarrow> bool" where
  "allowed env r tr x \<longleftrightarrow> \<not> terminal_in tr \<and> (case x of
      Emit (Run_completed v) \<Rightarrow> output_valid env r v \<and> output_evidenced env tr v
    | Emit (Run_failed e) \<Rightarrow> failure_backed env tr e \<and> ENGINE_ERROR_CODE_PATTERN (ee_code e)
    | Evidence_write rec _ \<Rightarrow> tv_iterations rec \<le> how_many is_model_call tr
    | Model_call blocks _ \<Rightarrow> may_call env r tr blocks
    | Ledger_commit _ \<Rightarrow> how_many is_ledger_commit tr < how_many is_model_call tr
    | Ledger_read u \<Rightarrow> how_many is_ledger_read tr = how_many is_ledger_commit tr \<and>
        (case env_ledger env of None \<Rightarrow> False | Some l \<Rightarrow> u = lp_read l (how_many is_ledger_read tr))
    | _ \<Rightarrow> True)"

fun legal_rev :: "turn_env \<Rightarrow> turn_request \<Rightarrow> turn_effect list \<Rightarrow> bool" where
  "legal_rev env r [] = True"
| "legal_rev env r (x # xs) = (allowed env r (rev xs) x \<and> legal_rev env r xs)"

definition legal :: "turn_env \<Rightarrow> turn_request \<Rightarrow> turn_effect list \<Rightarrow> bool" where
  "legal env r tr = legal_rev env r (rev tr)"

lemma legal_Nil [simp]: "legal env r []"
  by (simp add: legal_def)

lemma legal_snoc: "legal env r (tr @ [x]) \<longleftrightarrow> legal env r tr \<and> allowed env r tr x"
  by (auto simp: legal_def)

lemma legal_prefix: "legal env r (tr @ xs) \<Longrightarrow> legal env r tr"
proof (induction xs rule: rev_induct)
  case (snoc x xs)
  then show ?case by (metis append.assoc legal_snoc)
qed simp

lemma trace_facts [simp]:
  "terminal_in [] = False"
  "terminal_in (tr @ [x]) = (terminal_in tr \<or> is_terminal_effect x)"
  "how_many P [] = 0"
  "how_many P (tr @ [x]) = how_many P tr + (if P x then 1 else 0)"
  "usage_total [] = 0"
  "usage_total (tr @ [x]) = usage_total tr + usage_of x"
  "last_reading [] = None"
  "last_reading (tr @ [Ledger_read u]) = u"
  by (auto simp: terminal_in_def how_many_def usage_total_def last_reading_def)

lemma last_reading_other [simp]: "\<not> is_ledger_read x \<Longrightarrow> last_reading (tr @ [x]) = last_reading tr"
  by (cases x) (auto simp: last_reading_def)

section \<open>States in which the turn goes on, and states in which it is over\<close>

definition open_state :: "turn_env \<Rightarrow> turn_request \<Rightarrow> turn_state \<Rightarrow> bool" where
  "open_state env r s \<longleftrightarrow> legal env r (st_trace s) \<and> \<not> terminal_in (st_trace s) \<and>
     st_iterations s \<le> how_many is_model_call (st_trace s) \<and>
     st_tokens s = usage_total (st_trace s)"

definition closed_state :: "turn_env \<Rightarrow> turn_request \<Rightarrow> turn_state \<Rightarrow> bool" where
  "closed_state env r s \<longleftrightarrow> legal env r (st_trace s) \<and> st_trace s \<noteq> [] \<and>
     is_terminal_effect (last (st_trace s))"

text \<open>The three places outside the \<open>try\<close> that can reject the generator.\<close>

definition reject_cause :: "turn_env \<Rightarrow> turn_request \<Rightarrow> bool" where
  "reject_cause env r \<longleftrightarrow> turn_input_text env r = [] \<or>
     (case new_detector (env_doom env) of Inl _ \<Rightarrow> True | Inr _ \<Rightarrow> False) \<or>
     (use_position_budget env r \<and> (case env_ledger env of None \<Rightarrow> False | Some l \<Rightarrow> lp_read l 0 = None))"

definition stage_ok ::
  "turn_env \<Rightarrow> turn_request \<Rightarrow> (turn_state \<Rightarrow> bool) \<Rightarrow> outcome \<Rightarrow> bool" where
  "stage_ok env r Q out \<longleftrightarrow> (case out of
      Go s \<Rightarrow> open_state env r s \<and> Q s
    | Halt s Returned \<Rightarrow> closed_state env r s
    | Halt s (Rejected _) \<Rightarrow> open_state env r s \<and> how_many is_model_call (st_trace s) = 0 \<and> reject_cause env r)"

lemma stage_ok_on_go:
  assumes "stage_ok env r Q out"
    and "\<And>s. open_state env r s \<Longrightarrow> Q s \<Longrightarrow> stage_ok env r R (f s)"
  shows "stage_ok env r R (on_go out f)"
proof (cases out)
  case (Go s)
  then show ?thesis using assms(1) assms(2) [of s] by (simp add: stage_ok_def on_go_def)
qed (use assms(1) in \<open>simp add: stage_ok_def on_go_def\<close>)

lemma trace_log [simp]: "st_trace (log_effect x s) = st_trace s @ [x]"
  "st_iterations (log_effect x s) = st_iterations s" "st_tokens (log_effect x s) = st_tokens s"
  "st_usage (log_effect x s) = st_usage s" "st_schema (log_effect x s) = st_schema s"
  "st_blocks (log_effect x s) = st_blocks s" "st_detector (log_effect x s) = st_detector s"
  "st_violations (log_effect x s) = st_violations s"
  by (simp_all add: log_effect_def)

lemma open_log:
  "open_state env r s \<Longrightarrow> allowed env r (st_trace s) x \<Longrightarrow> \<not> is_terminal_effect x \<Longrightarrow> usage_of x = 0 \<Longrightarrow>
   open_state env r (log_effect x s)"
  by (auto simp: open_state_def legal_snoc)

lemma open_emit:
  "open_state env r s \<Longrightarrow> \<not> isTerminalEngineEvent e \<Longrightarrow> (\<And>i out. e \<noteq> Usage i out) \<Longrightarrow>
   open_state env r (emit e s)"
  unfolding emit_def
  by (rule open_log) (auto simp: allowed_def open_state_def isTerminalEngineEvent_def split: engine_event.splits)

lemma fail_closed:
  "open_state env r s \<Longrightarrow> ENGINE_ERROR_CODE_PATTERN code \<Longrightarrow>
   failure_backed env (st_trace s) \<lparr>ee_code = code, ee_message = message, ee_retryable = retryable, ee_reason = reason\<rparr> \<Longrightarrow>
   closed_state env r (fail_turn code message reason retryable s)"
  by (simp add: closed_state_def fail_turn_def emit_def legal_snoc open_state_def allowed_def isTerminalEngineEvent_def)

lemma failure_backed_simple:
  "reason \<in> {Engine_internal_error, Memory_unavailable, Memory_denied, Context_unavailable, Context_access_denied} \<Longrightarrow>
   failure_backed env tr \<lparr>ee_code = code, ee_message = message, ee_retryable = retryable, ee_reason = reason\<rparr>"
  by (auto simp: failure_backed_def)

lemma halt_failed_ok:
  "open_state env r s \<Longrightarrow> ENGINE_ERROR_CODE_PATTERN code \<Longrightarrow>
   failure_backed env (st_trace s) \<lparr>ee_code = code, ee_message = message, ee_retryable = retryable, ee_reason = reason\<rparr> \<Longrightarrow>
   stage_ok env r Q (halt_failed code message reason retryable s)"
  by (simp add: stage_ok_def halt_failed_def fail_closed)

text \<open>Every code the executor uses is a machine code: \<open>terminalError\<close> does not throw.\<close>

lemmas code_pattern_defs = ENGINE_ERROR_CODE_PATTERN_def error_code_char_def is_lower_def is_digit_def
  CONTEXT_BUDGET_EXCEEDED_CODE_def APPROVAL_REQUIRED_CODE_def APPROVAL_DENIED_CODE_def
  APPROVAL_EXPIRED_CODE_def APPROVAL_PREVIEW_INVALID_CODE_def

lemma reason_code_well_formed: "ENGINE_ERROR_CODE_PATTERN (REASON_TO_CODE reason)"
  by (cases reason) (simp_all add: code_pattern_defs)

lemma denial_code_well_formed: "ENGINE_ERROR_CODE_PATTERN (denial_code_string dc)"
  by (cases dc) (simp_all add: code_pattern_defs)

lemma guard_code_well_formed: "ENGINE_ERROR_CODE_PATTERN (guard_code ge)"
  by (cases ge) (simp_all add: code_pattern_defs)

lemma literal_codes_well_formed:
  "ENGINE_ERROR_CODE_PATTERN ''engine.permissions_invalid''"
  "ENGINE_ERROR_CODE_PATTERN ''engine.internal_error''"
  "ENGINE_ERROR_CODE_PATTERN ''engine.input_invalid''"
  "ENGINE_ERROR_CODE_PATTERN ''engine.cancelled''"
  "ENGINE_ERROR_CODE_PATTERN ''engine.output_invalid''"
  "ENGINE_ERROR_CODE_PATTERN CONTEXT_BUDGET_EXCEEDED_CODE"
  "ENGINE_ERROR_CODE_PATTERN APPROVAL_REQUIRED_CODE"
  "ENGINE_ERROR_CODE_PATTERN APPROVAL_DENIED_CODE"
  "ENGINE_ERROR_CODE_PATTERN APPROVAL_EXPIRED_CODE"
  "ENGINE_ERROR_CODE_PATTERN APPROVAL_PREVIEW_INVALID_CODE"
  by (simp_all add: code_pattern_defs)

lemmas executor_codes = reason_code_well_formed denial_code_well_formed guard_code_well_formed
  literal_codes_well_formed

section \<open>Evidence, escalation and the stop sequence\<close>

lemma write_record_ok:
  assumes "open_state env r s" and "tv_iterations rec \<le> how_many is_model_call (st_trace s)"
    and "write_record env rec s = (ok, s')"
  shows "open_state env r s'"
    and "ok \<Longrightarrow> env_evidence_sink env = None \<or> Evidence_write rec True \<in> set (st_trace s')"
    and "set (st_trace s) \<subseteq> set (st_trace s')"
    and "how_many is_model_call (st_trace s') = how_many is_model_call (st_trace s)"
proof -
  have "open_state env r (log_effect (Evidence_write rec b) s)" for b
    using assms(1,2) by (intro open_log) (auto simp: allowed_def open_state_def)
  then show "open_state env r s'"
    using assms(1,3) by (auto simp: write_record_def Let_def split: option.splits)
qed (use assms in \<open>auto simp: write_record_def Let_def split: option.splits\<close>)

lemma writeEvidence_ok:
  assumes "open_state env r s"
    and "writeEvidence env r completed reason code output ref s = (ok, s')"
  shows "open_state env r s'"
    and "ok \<Longrightarrow> evidenced env (st_trace s') completed reason code"
    and "ok \<Longrightarrow> completed \<Longrightarrow> reason = Goal_met \<Longrightarrow> output_evidenced env (st_trace s') output"
    and "set (st_trace s) \<subseteq> set (st_trace s')"
proof -
  let ?rec = "evidence_record env r completed reason code output ref s"
  have it: "tv_iterations ?rec \<le> how_many is_model_call (st_trace s)"
    using assms(1) by (simp add: evidence_record_def open_state_def)
  note w = write_record_ok [OF assms(1) it assms(2) [unfolded writeEvidence_def]]
  show "open_state env r s'" "set (st_trace s) \<subseteq> set (st_trace s')" by (rule w)+
  show "evidenced env (st_trace s') completed reason code" if ok
    using w(2) [OF that] unfolding evidenced_def
    by (auto intro!: exI [of _ ?rec] simp: evidence_record_def)
  show "output_evidenced env (st_trace s') output" if ok completed "reason = Goal_met"
    using w(2) [OF that(1)] that unfolding output_evidenced_def
    by (auto intro!: exI [of _ ?rec] simp: evidence_record_def)
qed

lemma stop_closed:
  assumes op: "open_state env r s" and cause: "cause_of reason = Some cause"
    and code: "ENGINE_ERROR_CODE_PATTERN (case override of None \<Rightarrow> REASON_TO_CODE reason | Some c \<Rightarrow> c)"
  shows "closed_state env r (stopWithEscalation env r reason message cause snapshot override s)"
proof -
  let ?code = "case override of None \<Rightarrow> REASON_TO_CODE reason | Some c \<Rightarrow> c"
  obtain ok1 ref s1 where esc: "writeEscalation env r cause snapshot s = (ok1, ref, s1)"
    by (metis prod_cases3)
  obtain ok2 s2 where ev: "writeEvidence env r False reason (Some ?code) JNull ref s1 = (ok2, s2)"
    by (metis surj_pair)
  have "open_state env r (log_effect (Escalation_write er b) s)" for er b
    using op by (intro open_log) (auto simp: allowed_def open_state_def)
  then have op1: "open_state env r s1"
    using op esc by (auto simp: writeEscalation_def Let_def split: option.splits)
  have rec1: "env_escalation_sink env = None \<or>
      (\<exists>er. Escalation_write er True \<in> set (st_trace s1) \<and> er_cause er = cause \<and> ref = Some (er_id er))" if ok1
    using esc that by (auto simp: writeEscalation_def Let_def split: option.splits)
  note w = writeEvidence_ok [OF op1 ev]
  let ?rec = "evidence_record env r False reason (Some ?code) JNull ref s1"
  have it: "tv_iterations ?rec \<le> how_many is_model_call (st_trace s1)"
    using op1 by (simp add: evidence_record_def open_state_def)
  have "env_evidence_sink env = None \<or> Evidence_write ?rec True \<in> set (st_trace s2)" if ok2
    using write_record_ok(2) [OF op1 it ev [unfolded writeEvidence_def] that] .
  then have "stop_recorded env (st_trace s2) reason ?code" if ok1 ok2
    unfolding stop_recorded_def using rec1 that w(4) cause
    by (intro exI [of _ ref] conjI)
       (blast, auto intro!: exI [of _ ?rec] simp: evidence_record_def)
  moreover have "failure_backed env (st_trace s2) \<lparr>ee_code = ?code, ee_message = message,
      ee_retryable = rt, ee_reason = reason\<rparr> \<longleftrightarrow> stop_recorded env (st_trace s2) reason ?code" for rt
    using cause by (cases reason) (simp_all add: failure_backed_def)
  ultimately have good: "closed_state env r (fail_turn ?code message reason rt s2)" if ok1 ok2 for rt
    using that w(1) code by (intro fail_closed) auto
  have bad: "closed_state env r (fail_turn ''engine.internal_error'' m Engine_internal_error rt t)"
    if "open_state env r t" for m rt t
    using that by (intro fail_closed executor_codes) (simp_all add: failure_backed_def)
  show ?thesis
    using esc ev good bad op1 w(1) by (simp add: stopWithEscalation_def Let_def)
qed

section \<open>The stages before the loop\<close>

definition base :: "turn_env \<Rightarrow> turn_request \<Rightarrow> turn_state \<Rightarrow> bool" where
  "base env r s \<longleftrightarrow> permitted env r \<and> validateTurnRequest (env_dparse env) r = Inr r \<and>
     Emit Run_started \<in> set (st_trace s) \<and> how_many is_model_call (st_trace s) = 0 \<and>
     how_many is_ledger_commit (st_trace s) = 0 \<and> how_many is_ledger_read (st_trace s) = 0"

lemma validate_returns: "validateTurnRequest d r = Inr q \<Longrightarrow> q = r"
  by (auto simp: validateTurnRequest_def accepts)

lemma permission_stage_ok:
  "stage_ok env r (\<lambda>s. st_trace s = [] \<and> permitted env r) (permission_stage env r start_state)"
proof -
  have op: "open_state env r (start_state\<lparr>st_gate := g\<rparr>)" for g
    by (simp add: open_state_def start_state_def)
  have op0: "open_state env r start_state"
    by (simp add: open_state_def start_state_def)
  show ?thesis
  proof (cases "tr_permissions r = JUndef")
    case True
    then show ?thesis using op0
      by (simp add: permission_stage_def stage_ok_def permitted_def start_state_def)
  next
    case notab: False
    show ?thesis
    proof (cases "validateOrganizationPermissionsArtifact (tr_permissions r)")
      case (Inl e)
      then show ?thesis using notab op0
        by (simp add: permission_stage_def halt_failed_ok executor_codes failure_backed_def)
    next
      case (Inr perms)
      obtain d g where pre: "precheck perms r = (d, g)" by force
      show ?thesis
      proof (cases d)
        case None
        then show ?thesis using notab Inr pre op
          by (simp add: permission_stage_def stage_ok_def permitted_def start_state_def)
      next
        case (Some cm)
        obtain code m where cm: "cm = (code, m)" by force
        obtain ok s' where w: "write_record env (denial_record env perms r code g)
            (start_state\<lparr>st_gate := Some g\<rparr>) = (ok, s')" by force
        have it: "tv_iterations (denial_record env perms r code g) \<le>
            how_many is_model_call (st_trace (start_state\<lparr>st_gate := Some g\<rparr>))"
          by (simp add: denial_record_def Let_def)
        note wr = write_record_ok [OF op it w]
        have "evidenced env (st_trace s') False Permission_denied (Some (denial_code_string code))" if ok
          using wr(2) [OF that] unfolding evidenced_def
          by (auto intro!: exI [of _ "denial_record env perms r code g"] simp: denial_record_def Let_def)
        then have "stage_ok env r Q (halt_failed (denial_code_string code) m Permission_denied False s')" if ok for Q
          using that wr(1) by (intro halt_failed_ok executor_codes) (auto simp: failure_backed_def)
        moreover have "stage_ok env r Q (halt_failed ''engine.internal_error'' m' Engine_internal_error False s')" for Q m'
          using wr(1) by (intro halt_failed_ok executor_codes) (auto simp: failure_backed_def)
        ultimately show ?thesis using notab Inr pre Some cm w
          by (simp add: permission_stage_def)
      qed
    qed
  qed
qed

lemma halt_simple_ok:
  assumes "open_state env r s" "ENGINE_ERROR_CODE_PATTERN code"
    and "reason \<in> {Engine_internal_error, Memory_unavailable, Memory_denied, Context_unavailable, Context_access_denied}"
  shows "stage_ok env r Q (halt_failed code message reason retryable s)"
  using assms by (intro halt_failed_ok failure_backed_simple)

lemma go_ok: "open_state env r s \<Longrightarrow> Q s \<Longrightarrow> stage_ok env r Q (Go s)"
  by (simp add: stage_ok_def)

lemma validation_stage_ok:
  assumes "open_state env r s" "st_trace s = []" "permitted env r"
  shows "stage_ok env r (base env r) (validation_stage env r s)"
proof -
  have op: "open_state env r (emit Run_started s)"
    using assms(1) by (rule open_emit) (simp_all add: isTerminalEngineEvent_def)
  show ?thesis
  proof (cases "validateTurnRequest (env_dparse env) r")
    case (Inl m)
    then show ?thesis using op
      by (simp add: validation_stage_def Let_def halt_simple_ok executor_codes)
  next
    case (Inr q)
    moreover have "base env r (emit Run_started s)"
      using Inr validate_returns [OF Inr] assms(2,3) by (simp add: base_def emit_def how_many_def)
    ultimately show ?thesis using op by (simp add: validation_stage_def Let_def go_ok)
  qed
qed

definition schema_ready :: "turn_env \<Rightarrow> turn_request \<Rightarrow> turn_state \<Rightarrow> bool" where
  "schema_ready env r s \<longleftrightarrow> base env r s \<and>
     prepareTerminalSchema (env_stringify env) (env_compile env) (tr_output_schema r)
       ENGINE_MAX_OUTPUT_SCHEMA_BYTES = Inr (st_schema s)"

lemma schema_stage_ok:
  assumes "open_state env r s" "base env r s"
  shows "stage_ok env r (schema_ready env r) (schema_stage env r s)"
proof (cases "prepareTerminalSchema (env_stringify env) (env_compile env) (tr_output_schema r) ENGINE_MAX_OUTPUT_SCHEMA_BYTES")
  case (Inl e)
  then show ?thesis using assms by (simp add: schema_stage_def halt_simple_ok executor_codes)
next
  case (Inr sc)
  then show ?thesis using assms
    by (simp add: schema_stage_def stage_ok_def open_state_def schema_ready_def base_def)
qed

lemma open_log_call:
  "open_state env r s \<Longrightarrow> x \<in> {Memory_call, Context_call} \<Longrightarrow> open_state env r (log_effect x s)"
  by (rule open_log) (auto simp: allowed_def open_state_def)

lemma ready_log_call:
  "schema_ready env r s \<Longrightarrow> x \<in> {Memory_call, Context_call} \<Longrightarrow> schema_ready env r (log_effect x s)"
  by (auto simp: schema_ready_def base_def)

lemma memory_stage_ok:
  assumes "open_state env r s" "schema_ready env r s"
  shows "stage_ok env r (schema_ready env r) (memory_stage env r s)"
proof -
  define s1 where "s1 = (if derivePositionPrincipal (tr_position r) = None then s else log_effect Memory_call s)"
  have s1: "open_state env r s1" "schema_ready env r s1"
    using assms by (simp_all add: s1_def open_log_call ready_log_call)
  have upd: "stage_ok env r (schema_ready env r) (Go (s1\<lparr>st_recall_lines := a, st_memory := b\<rparr>))"
    "stage_ok env r (schema_ready env r) (Go (s1\<lparr>st_memory := b\<rparr>))" for a b
    using s1 by (simp_all add: stage_ok_def open_state_def schema_ready_def base_def)
  show ?thesis
    unfolding memory_stage_def Let_def s1_def [symmetric]
    using assms s1 upd
    by (auto simp: halt_simple_ok executor_codes go_ok simp del: REASON_TO_CODE.simps
        split: option.split port_result.split)
qed

lemma context_stage_ok:
  assumes "open_state env r s" "schema_ready env r s"
  shows "stage_ok env r (schema_ready env r) (context_stage env r s)"
proof -
  define s1 where "s1 = log_effect Context_call s"
  have s1: "open_state env r s1" "schema_ready env r s1"
    using assms by (simp_all add: s1_def open_log_call ready_log_call)
  have upd: "stage_ok env r (schema_ready env r) (Go (s1\<lparr>st_context_lines := a, st_context := b\<rparr>))"
    "stage_ok env r (schema_ready env r) (Go (s1\<lparr>st_context := b\<rparr>))" for a b
    using s1 by (simp_all add: stage_ok_def open_state_def schema_ready_def base_def)
  show ?thesis
    using assms s1 upd
    by (auto simp: context_stage_def Let_def s1_def [symmetric] halt_simple_ok executor_codes go_ok simp del: REASON_TO_CODE.simps
        split: option.split port_result.split prod.split)
qed

lemma assemble_stage_ok:
  assumes "open_state env r s" "schema_ready env r s"
  shows "stage_ok env r (schema_ready env r) (assemble_stage env r s)"
  using assms
  by (auto simp: assemble_stage_def assembleContext_def reject_cause_def Let_def stage_ok_def open_state_def schema_ready_def base_def
      split: sum.split)

lemma detector_stage_ok:
  assumes "open_state env r s" "schema_ready env r s"
  shows "stage_ok env r (schema_ready env r) (detector_stage env s)"
  using assms
  by (auto simp: detector_stage_def reject_cause_def stage_ok_def open_state_def schema_ready_def base_def
      split: sum.split)

lemma read_usage_ok:
  assumes "open_state env r s" "read_usage env s = (ok, s')"
    and "how_many is_ledger_read (st_trace s) = how_many is_ledger_commit (st_trace s)"
  shows "open_state env r s'"
    and "set (st_trace s) \<subseteq> set (st_trace s')"
    and "how_many is_model_call (st_trace s') = how_many is_model_call (st_trace s)"
    and "how_many is_ledger_commit (st_trace s') = how_many is_ledger_commit (st_trace s)"
    and "st_schema s' = st_schema s" and "st_blocks s' = st_blocks s"
    and "ok \<Longrightarrow> env_ledger env \<noteq> None \<Longrightarrow> last_reading (st_trace s') = Some (st_usage s') \<and>
      how_many is_ledger_read (st_trace s') = Suc (how_many is_ledger_read (st_trace s))"
proof -
  have "open_state env r (log_effect (Ledger_read (lp_read l (count_effects is_ledger_read s))) s)"
    if "env_ledger env = Some l" for l
    using assms(1,3) that
    by (intro open_log) (auto simp: allowed_def open_state_def count_effects_def how_many_def)
  moreover have "open_state env r (t\<lparr>st_usage := u\<rparr>) = open_state env r t" for t u
    by (simp add: open_state_def)
  ultimately show "open_state env r s'"
    using assms by (auto simp: read_usage_def Let_def split: option.splits)
qed (use assms(2) in \<open>auto simp: read_usage_def Let_def split: option.splits\<close>)

definition ledger_ready :: "turn_env \<Rightarrow> turn_request \<Rightarrow> turn_state \<Rightarrow> bool" where
  "ledger_ready env r s \<longleftrightarrow> permitted env r \<and> validateTurnRequest (env_dparse env) r = Inr r \<and>
     Emit Run_started \<in> set (st_trace s) \<and> how_many is_model_call (st_trace s) = 0 \<and>
     how_many is_ledger_commit (st_trace s) = 0 \<and>
     prepareTerminalSchema (env_stringify env) (env_compile env) (tr_output_schema r)
       ENGINE_MAX_OUTPUT_SCHEMA_BYTES = Inr (st_schema s) \<and>
     (use_position_budget env r \<longrightarrow> last_reading (st_trace s) = Some (st_usage s) \<and>
        how_many is_ledger_read (st_trace s) = 1)"

lemma ledger_stage_ok:
  assumes "open_state env r s" "schema_ready env r s"
  shows "stage_ok env r (ledger_ready env r) (ledger_stage env r s)"
proof (cases "use_position_budget env r")
  case False
  then show ?thesis using assms
    by (simp add: ledger_stage_def stage_ok_def ledger_ready_def schema_ready_def base_def)
next
  case True
  then have l: "env_ledger env \<noteq> None" by (simp add: use_position_budget_def)
  obtain ok s' where rd: "read_usage env s = (ok, s')" by force
  have "how_many is_ledger_read (st_trace s) = how_many is_ledger_commit (st_trace s)"
    using assms(2) by (simp add: schema_ready_def base_def)
  note ru = read_usage_ok [OF assms(1) rd this]
  have "reject_cause env r" if "\<not> ok"
    using that rd l True assms(2)
    by (auto simp: read_usage_def Let_def reject_cause_def schema_ready_def base_def count_effects_def
        how_many_def split: option.splits)
  then show ?thesis
    using True rd ru(1-5) ru(7) [OF _ l] assms(2)
    by (auto simp: ledger_stage_def stage_ok_def ledger_ready_def schema_ready_def base_def)
qed

definition cap_ready :: "turn_env \<Rightarrow> turn_request \<Rightarrow> turn_state \<Rightarrow> bool" where
  "cap_ready env r s \<longleftrightarrow> ledger_ready env r s \<and>
     within_optional (tb_max_context_bytes (tr_budget r)) (int (sum_list (map cb_byte_length (st_blocks s))))"

lemma context_cap_stage_ok:
  assumes "open_state env r s" "ledger_ready env r s"
  shows "stage_ok env r (cap_ready env r) (context_cap_stage env r s)"
  using assms stop_closed [OF assms(1), of Turn_budget_exceeded Cause_turn_budget_exceeded "Some CONTEXT_BUDGET_EXCEEDED_CODE"]
  by (auto simp: context_cap_stage_def stage_ok_def cap_ready_def within_optional_def Let_def
      executor_codes split: option.split)

section \<open>The approval gate\<close>

definition static :: "turn_env \<Rightarrow> turn_request \<Rightarrow> turn_state \<Rightarrow> bool" where
  "static env r s \<longleftrightarrow> permitted env r \<and> validateTurnRequest (env_dparse env) r = Inr r \<and>
     verdicts_clear env r \<and> Emit Run_started \<in> set (st_trace s) \<and>
     prepareTerminalSchema (env_stringify env) (env_compile env) (tr_output_schema r)
       ENGINE_MAX_OUTPUT_SCHEMA_BYTES = Inr (st_schema s) \<and>
     within_optional (tb_max_context_bytes (tr_budget r)) (int (sum_list (map cb_byte_length (st_blocks s))))"

definition running :: "turn_env \<Rightarrow> turn_request \<Rightarrow> turn_state \<Rightarrow> bool" where
  "running env r s \<longleftrightarrow> open_state env r s \<and> static env r s \<and>
     (use_position_budget env r \<longrightarrow> last_reading (st_trace s) = Some (st_usage s) \<and>
        how_many is_ledger_commit (st_trace s) = how_many is_model_call (st_trace s) \<and>
        how_many is_ledger_read (st_trace s) = Suc (how_many is_ledger_commit (st_trace s)))"

lemma static_mono:
  "static env r s \<Longrightarrow> set (st_trace s) \<subseteq> set (st_trace s') \<Longrightarrow> st_schema s' = st_schema s \<Longrightarrow>
   st_blocks s' = st_blocks s \<Longrightarrow> static env r s'"
  by (auto simp: static_def)

lemma emit_facts [simp]:
  "st_trace (emit e s) = st_trace s @ [Emit e]" "st_schema (emit e s) = st_schema s"
  "st_blocks (emit e s) = st_blocks s" "st_usage (emit e s) = st_usage s"
  "st_iterations (emit e s) = st_iterations s" "st_tokens (emit e s) = st_tokens s"
  "st_detector (emit e s) = st_detector s"
  by (simp_all add: emit_def)

lemma fold_emit_facts:
  "st_trace (fold emit es s) = st_trace s @ map Emit es"
  "st_schema (fold emit es s) = st_schema s" "st_blocks (fold emit es s) = st_blocks s"
  "st_usage (fold emit es s) = st_usage s"
  by (induction es arbitrary: s) simp_all

definition plain_event :: "engine_event \<Rightarrow> bool" where
  "plain_event e \<longleftrightarrow> \<not> isTerminalEngineEvent e \<and> (case e of Usage _ _ \<Rightarrow> False | _ \<Rightarrow> True)"

lemma open_plain: "open_state env r s \<Longrightarrow> plain_event e \<Longrightarrow> open_state env r (emit e s)"
  by (rule open_emit) (auto simp: plain_event_def)

lemma open_fold_emit:
  "open_state env r s \<Longrightarrow> list_all plain_event es \<Longrightarrow> open_state env r (fold emit es s)"
  by (induction es arbitrary: s) (auto intro: open_plain)

lemma evidenced_mono:
  "evidenced env tr c reason code \<Longrightarrow> set tr \<subseteq> set tr' \<Longrightarrow> evidenced env tr' c reason code"
  by (auto simp: evidenced_def)

lemma settle_ok:
  assumes "open_state env r s" "ENGINE_ERROR_CODE_PATTERN code" "list_all plain_event events"
    and "reason \<in> {Cancelled, Engine_internal_error}"
  shows "stage_ok env r Q (settle env r reason code events message retryable s)"
proof -
  obtain ok s1 where w: "writeEvidence env r False reason (Some code) JNull None s = (ok, s1)" by force
  note e = writeEvidence_ok [OF assms(1) w]
  have "stage_ok env r Q (approval_internal s1)"
    using e(1) by (simp add: approval_internal_def halt_simple_ok executor_codes)
  moreover have "stage_ok env r Q (halt_failed code message reason retryable (fold emit events s1))" if ok
  proof (rule halt_failed_ok [OF open_fold_emit [OF e(1) assms(3)] assms(2)])
    have "evidenced env (st_trace (fold emit events s1)) False reason (Some code)"
      using evidenced_mono [OF e(2) [OF that]] by (simp add: fold_emit_facts)
    then show "failure_backed env (st_trace (fold emit events s1))
        \<lparr>ee_code = code, ee_message = message, ee_retryable = retryable, ee_reason = reason\<rparr>"
      using assms(4) by (auto simp: failure_backed_def)
  qed
  ultimately show ?thesis using w by (simp add: settle_def)
qed

lemma open_update [simp]:
  "open_state env r (s\<lparr>st_approval := a\<rparr>) = open_state env r s"
  "open_state env r (s\<lparr>st_approvals := b\<rparr>) = open_state env r s"
  "open_state env r (s\<lparr>st_violations := v\<rparr>) = open_state env r s"
  "open_state env r (s\<lparr>st_detector := d\<rparr>) = open_state env r s"
  by (simp_all add: open_state_def)

text \<open>What validation guarantees of the verdicts.\<close>

lemma validated_decision:
  "validatePendingApproval d p l = Inr u \<Longrightarrow> pa_decision p = ''granted'' \<or> pa_decision p = ''denied''"
  by (auto simp: validatePendingApproval_def accepts)

lemma validated_batch:
  "validate_batch d n ids d0 ps = Inr u \<Longrightarrow>
   (\<forall>p \<in> set ps. (pa_decision p = ''granted'' \<or> pa_decision p = ''denied'') \<and>
      pa_decision p = pa_decision (hd ps)) \<and> (\<forall>x. d0 = Some x \<longrightarrow> (\<forall>p \<in> set ps. pa_decision p = x))"
proof (induction d n ids d0 ps arbitrary: u rule: validate_batch.induct)
  case (1 d n ids d0)
  then show ?case by simp
next
  case (2 d n ids d0 p ps)
  then obtain u1 u2 where v: "validatePendingApproval d p (''pendingApprovals['' @ dec n @ '']'') = Inr u1"
    "d0 = None \<or> d0 = Some (pa_decision p)"
    "validate_batch d (Suc n) (ids @ [pa_id p]) (Some (pa_decision p)) ps = Inr u2" "pa_id p \<notin> set ids"
    unfolding validate_batch.simps accepts by blast
  have same: "\<forall>q \<in> set ps. pa_decision q = pa_decision p"
    using "2.IH" [OF v(1) v(4) v(2) v(3)] by blast
  moreover have "pa_decision p = ''granted'' \<or> pa_decision p = ''denied''"
    by (rule validated_decision [OF v(1)])
  ultimately show ?case using v(2) by (auto simp del: validate_batch.simps)
qed

lemma validated_approvals:
  assumes "validateTurnRequest d r = Inr r"
  shows "tr_pendings r = Some ps \<Longrightarrow> tr_approval_action r = None \<and> tr_pending r = None"
    and "tr_pending r = Some p \<Longrightarrow> tr_approval_action r = None \<and> tr_pendings r = None \<and>
      (pa_decision p = ''granted'' \<or> pa_decision p = ''denied'')"
    and "tr_pendings r = Some ps \<Longrightarrow> (\<forall>p \<in> set ps. (pa_decision p = ''granted'' \<or> pa_decision p = ''denied'') \<and>
      pa_decision p = pa_decision (hd ps))"
proof -
  obtain u where v: "validateApprovalRequestFields d r = Inr u"
    using assms by (auto simp: validateTurnRequest_def accepts)
  then have ex: "\<not> ((tr_approval_action r \<noteq> None \<and> (tr_pending r \<noteq> None \<or> tr_pendings r \<noteq> None)) \<or>
      (tr_pending r \<noteq> None \<and> tr_pendings r \<noteq> None))"
    by (auto simp: validateApprovalRequestFields_def accepts)
  then show "tr_pendings r = Some ps \<Longrightarrow> tr_approval_action r = None \<and> tr_pending r = None" by auto
  show "tr_pending r = Some p \<Longrightarrow> tr_approval_action r = None \<and> tr_pendings r = None \<and>
      (pa_decision p = ''granted'' \<or> pa_decision p = ''denied'')"
    using ex v validated_decision [of d p "''pendingApproval''"]
    by (auto simp: validateApprovalRequestFields_def accepts)
  show "tr_pendings r = Some ps \<Longrightarrow> (\<forall>p \<in> set ps. (pa_decision p = ''granted'' \<or> pa_decision p = ''denied'') \<and>
      pa_decision p = pa_decision (hd ps))"
    using v validated_batch [of d 0 "[]" None ps]
    by (auto simp: validateApprovalRequestFields_def accepts)
qed

lemma running_from_cap:
  assumes "open_state env r s" "cap_ready env r s" "verdicts_clear env r"
    and "set (st_trace s) \<subseteq> set (st_trace s')" "st_schema s' = st_schema s" "st_blocks s' = st_blocks s"
    and "st_usage s' = st_usage s" "last_reading (st_trace s') = last_reading (st_trace s)"
    and "how_many is_model_call (st_trace s') = 0" "how_many is_ledger_commit (st_trace s') = 0"
    and "how_many is_ledger_read (st_trace s') = how_many is_ledger_read (st_trace s)"
    and "open_state env r s'"
  shows "running env r s' \<and> how_many is_model_call (st_trace s') = 0"
  using assms
  by (auto simp: running_def static_def cap_ready_def ledger_ready_def)

lemma map_emit_facts:
  "how_many is_model_call (tr @ map Emit es) = how_many is_model_call tr"
  "how_many is_ledger_commit (tr @ map Emit es) = how_many is_ledger_commit tr"
  "how_many is_ledger_read (tr @ map Emit es) = how_many is_ledger_read tr"
  "last_reading (tr @ map Emit es) = last_reading tr"
proof -
  have "last_reading_rev (map Emit (rev es) @ xs) = last_reading_rev xs" for xs
    by (induction "rev es" arbitrary: es) (auto, metis (no_types, lifting) append_Cons last_reading_rev.simps(3) list.simps(9) rev_swap)
  then show "last_reading (tr @ map Emit es) = last_reading tr"
    by (simp add: last_reading_def rev_map)
qed (simp_all add: how_many_def)

lemma approval_stage_ok:
  assumes op: "open_state env r s" and ready: "cap_ready env r s"
  shows "stage_ok env r (\<lambda>s. running env r s \<and> how_many is_model_call (st_trace s) = 0) (approval_stage env r s)"
    (is "stage_ok env r ?Q _")
proof -
  have valid: "validateTurnRequest (env_dparse env) r = Inr r"
    and zero: "how_many is_model_call (st_trace s) = 0" "how_many is_ledger_commit (st_trace s) = 0"
    using ready by (auto simp: cap_ready_def ledger_ready_def)
  note va = validated_approvals [OF valid]
  note settle = settle_ok executor_codes
  have granted: "stage_ok env r ?Q (Go (fold emit (map granted_event ps) s'))"
    if "verdicts_clear env r" "s' = s\<lparr>st_approval := a, st_approvals := b\<rparr>" for ps s' a b
  proof -
    have "list_all plain_event (map granted_event ps)"
      by (auto simp: list_all_iff plain_event_def granted_event_def isTerminalEngineEvent_def)
    then have "open_state env r (fold emit (map granted_event ps) s')"
      using op that(2) by (intro open_fold_emit) simp_all
    then have "?Q (fold emit (map granted_event ps) s')"
      using that zero by (intro running_from_cap [OF op ready]) (auto simp: fold_emit_facts map_emit_facts simp del: map_map)
    with \<open>open_state env r (fold emit (map granted_event ps) s')\<close> show ?thesis by (simp add: stage_ok_def)
  qed
  consider (batch) ps where "tr_pendings r = Some ps" | (single) p where "tr_pendings r = None" "tr_pending r = Some p"
    | (action) a where "tr_pendings r = None" "tr_pending r = None" "tr_approval_action r = Some a"
    | (none) "tr_pendings r = None" "tr_pending r = None" "tr_approval_action r = None"
    by (cases "tr_pendings r"; cases "tr_pending r"; cases "tr_approval_action r") auto
  then show ?thesis
  proof cases
    case batch
    let ?exp = "list_ex (\<lambda>(i, p). pendingApprovalExpired (env_dparse env) p (env_approval_clock env i)) (enumerate 0 ps)"
    show ?thesis
    proof (cases "?exp \<or> pa_decision (hd ps) = ''denied''")
      case True
      then show ?thesis using batch op
        by (auto simp: approval_stage_def batch_stage_def list_all_iff plain_event_def isTerminalEngineEvent_def
            intro!: settle)
    next
      case False
      have "verdict_clear env i p" if "(i, p) \<in> set (enumerate 0 ps)" for i p
      proof -
        have p: "p \<in> set ps" using that by (auto simp: in_set_enumerate_eq)
        then have "pa_decision p = ''granted''" using va(3) [OF batch] False by force
        then show ?thesis using that False by (auto simp: verdict_clear_def list_ex_iff)
      qed
      then have "verdicts_clear env r" using batch va(1,2) by (auto simp: verdicts_clear_def list_all_iff)
      then show ?thesis using batch False granted [where s' = "s\<lparr>st_approvals := Some (refs_of Granted ps)\<rparr>"
          and a = "st_approval s" and b = "Some (refs_of Granted ps)" and ps = ps]
        by (auto simp: approval_stage_def batch_stage_def)
    qed
  next
    case single
    show ?thesis
    proof (cases "pendingApprovalExpired (env_dparse env) p (env_approval_clock env 0) \<or> pa_decision p = ''denied''")
      case True
      then show ?thesis using single op
        by (auto simp: approval_stage_def pending_stage_def plain_event_def isTerminalEngineEvent_def intro!: settle)
    next
      case False
      then have "verdicts_clear env r" using single va(1,2)
        by (auto simp: verdicts_clear_def verdict_clear_def)
      then show ?thesis
        using single False granted [where s' = "s\<lparr>st_approval := Some \<lparr>ar_id = pa_id p, ar_preview = None, ar_outcome = Granted\<rparr>\<rparr>"
            and a = "Some \<lparr>ar_id = pa_id p, ar_preview = None, ar_outcome = Granted\<rparr>"
            and b = "st_approvals s" and ps = "[p]"]
        by (auto simp: approval_stage_def pending_stage_def)
    qed
  next
    case action
    have "ENGINE_ERROR_CODE_PATTERN code" if "previewGateAllows a = Some (code, m)" for code m
      using that by (auto simp: previewGateAllows_def executor_codes split: if_splits)
    then show ?thesis using action op
      by (auto simp: approval_stage_def action_stage_def Let_def plain_event_def isTerminalEngineEvent_def
          intro!: settle split: option.split)
  next
    case none
    then have "verdicts_clear env r" by (simp add: verdicts_clear_def)
    then show ?thesis using none granted [where s' = s and a = "st_approval s" and b = "st_approvals s" and ps = "[]"]
      by (simp add: approval_stage_def)
  qed
qed

section \<open>The loop\<close>

definition attempt_ok :: "turn_env \<Rightarrow> turn_request \<Rightarrow> nat \<Rightarrow> attempt \<Rightarrow> bool" where
  "attempt_ok env r calls a \<longleftrightarrow> (case a of
      Ended s \<Rightarrow> closed_state env r s
    | Threw _ s \<Rightarrow> open_state env r s
    | Again s \<Rightarrow> running env r s \<and> how_many is_model_call (st_trace s) \<le> calls)"

lemma running_open: "running env r s \<Longrightarrow> open_state env r s"
  by (simp add: running_def)

lemma complete_turn_ok:
  assumes "open_state env r s" "output_valid env r v"
  shows "attempt_ok env r n (complete_turn env r v s)"
proof -
  obtain ok s1 where w: "writeEvidence env r True Goal_met None v None s = (ok, s1)" by force
  note e = writeEvidence_ok [OF assms(1) w]
  have "closed_state env r (emit (Run_completed v) s1)" if ok
    using e(1) e(3) [OF that] assms(2)
    by (simp add: closed_state_def open_state_def legal_snoc allowed_def isTerminalEngineEvent_def)
  then show ?thesis using w e(1) by (simp add: complete_turn_def attempt_ok_def)
qed

lemma running_violations:
  "running env r s \<Longrightarrow> running env r (s\<lparr>st_violations := v\<rparr>)"
  by (simp add: running_def static_def)

lemma judge_output_ok:
  assumes "running env r s" "how_many is_model_call (st_trace s) \<le> n"
  shows "attempt_ok env r n (judge_output env r att text s)"
proof -
  have prep: "prepareTerminalSchema (env_stringify env) (env_compile env) (tr_output_schema r)
      ENGINE_MAX_OUTPUT_SCHEMA_BYTES = Inr (st_schema s)"
    using assms(1) by (simp add: running_def static_def)
  have again: "attempt_ok env r n (Again (s\<lparr>st_violations := v\<rparr>))" for v
    using assms running_violations by (simp add: attempt_ok_def)
  show ?thesis
    using prep again complete_turn_ok [OF running_open [OF assms(1)]]
    by (auto simp: judge_output_def output_valid_def split: option.split)
qed

lemma stop_ok:
  assumes "open_state env r s" "cause_of reason = Some cause"
  shows "attempt_ok env r n (Ended (stopWithEscalation env r reason m cause snapshot None s))"
  using assms by (simp add: attempt_ok_def stop_closed executor_codes del: REASON_TO_CODE.simps)

lemma after_commit_ok:
  assumes "running env r s" "how_many is_model_call (st_trace s) \<le> n"
  shows "attempt_ok env r n (after_commit env r att m s)"
proof (cases "over_tokens r s")
  case (Some limit)
  then show ?thesis using running_open [OF assms(1)]
    by (simp add: after_commit_def stop_tokens_def stop_ok)
next
  case None
  obtain signal d where obs: "observe (env_sha env) (st_detector s) (mt_text m) = (signal, d)" by force
  let ?s2 = "(emit (Model_delta (mt_text m)) s)\<lparr>st_detector := d\<rparr>"
  have op: "open_state env r ?s2"
    using running_open [OF assms(1)] by (simp add: open_plain plain_event_def isTerminalEngineEvent_def)
  have run: "running env r ?s2"
    using op assms(1) by (auto simp: running_def static_def)
  have "attempt_ok env r n (judge_output env r att (mt_text m) ?s2)"
    using run assms(2) by (intro judge_output_ok) simp_all
  moreover have "attempt_ok env r n (Ended (stopWithEscalation env r Doom_loop msg Cause_doom_loop (no_snapshot 0 0) None ?s2))" for msg
    using op by (intro stop_ok) simp_all
  ultimately show ?thesis using None obs by (simp add: after_commit_def Let_def)
qed

lemma commit_usage_ok:
  assumes op: "open_state env r s" and st: "static env r s"
    and n: "how_many is_model_call (st_trace s) \<le> n"
    and sync: "use_position_budget env r \<Longrightarrow>
      how_many is_ledger_commit (st_trace s) < how_many is_model_call (st_trace s) \<and>
      Suc (how_many is_ledger_commit (st_trace s)) = how_many is_model_call (st_trace s) \<and>
      how_many is_ledger_read (st_trace s) = Suc (how_many is_ledger_commit (st_trace s))"
  shows "attempt_ok env r n (commit_usage env r att m s)"
proof (cases "use_position_budget env r")
  case False
  then have "running env r s" using op st by (simp add: running_def)
  then show ?thesis using False n by (simp add: commit_usage_def after_commit_ok)
next
  case True
  then obtain l where l: "env_ledger env = Some l" by (auto simp: use_position_budget_def)
  let ?entry = "\<lparr>le_position = tr_position r, le_task = the (tr_task r), le_day = the (tr_day r),
      le_tokens = call_tokens m, le_iterations = 1\<rparr>"
  let ?s1 = "log_effect (Ledger_commit ?entry) s"
  have op1: "open_state env r ?s1"
    using op sync [OF True] by (intro open_log) (auto simp: allowed_def open_state_def)
  obtain ok s2 where rd: "read_usage env ?s1 = (ok, s2)" by force
  have "how_many is_ledger_read (st_trace ?s1) = how_many is_ledger_commit (st_trace ?s1)"
    using sync [OF True] by simp
  note ru = read_usage_ok [OF op1 rd this]
  have run: "running env r s2" if ok
  proof -
    have "static env r s2" using ru(2,5,6) by (intro static_mono [OF st]) auto
    then show ?thesis using ru(1,3,4) ru(7) [OF that] l sync [OF True]
      by (simp add: running_def)
  qed
  have "attempt_ok env r n (after_commit env r att m s2)" if ok
    using run [OF that] n ru(3) by (intro after_commit_ok) simp_all
  moreover have "attempt_ok env r n (stop_position env r e s2)" for e
    using ru(1) by (simp add: stop_position_def stop_ok)
  ultimately show ?thesis using True l rd op1 ru(1)
    by (auto simp: commit_usage_def Let_def attempt_ok_def split: option.split)
qed

lemma consume_ok:
  assumes run: "running env r s" and n: "Suc (how_many is_model_call (st_trace s)) \<le> n"
    and may: "may_call env r (st_trace s) (st_blocks s)"
  shows "attempt_ok env r n (consume env r att s)"
proof -
  define s1 where "s1 = log_effect (Model_call (st_blocks s) (st_violations s)) s"
  note op = running_open [OF run]
  have op1: "open_state env r s1"
    unfolding s1_def using op may by (intro open_log) (auto simp: allowed_def open_state_def)
  have s1: "set (st_trace s) \<subseteq> set (st_trace s1)" "st_schema s1 = st_schema s" "st_blocks s1 = st_blocks s"
    "st_iterations s1 < how_many is_model_call (st_trace s1)"
    "how_many is_model_call (st_trace s1) = Suc (how_many is_model_call (st_trace s))"
    "how_many is_ledger_commit (st_trace s1) = how_many is_ledger_commit (st_trace s)"
    "how_many is_ledger_read (st_trace s1) = how_many is_ledger_read (st_trace s)"
    using op by (auto simp: s1_def open_state_def)
  show ?thesis
  proof (cases "env_model env (count_effects is_model_call s)")
    case (Inl msg)
    then show ?thesis using op1 by (simp add: consume_def attempt_ok_def s1_def)
  next
    case (Inr m)
    let ?s2 = "s1\<lparr>st_iterations := st_iterations s1 + 1, st_tokens := st_tokens s1 + call_tokens m\<rparr>"
    define s3 where "s3 = (if mt_input_tokens m \<noteq> None \<or> mt_output_tokens m \<noteq> None
        then emit (Usage (mt_input_tokens m) (mt_output_tokens m)) ?s2 else ?s2)"
    have op3: "open_state env r s3"
      using op1 s1(4) by (auto simp: s3_def open_state_def legal_snoc allowed_def call_tokens_def isTerminalEngineEvent_def)
    have tr3: "set (st_trace s) \<subseteq> set (st_trace s3)" "st_schema s3 = st_schema s" "st_blocks s3 = st_blocks s"
      "how_many is_model_call (st_trace s3) = Suc (how_many is_model_call (st_trace s))"
      "how_many is_ledger_commit (st_trace s3) = how_many is_ledger_commit (st_trace s)"
      "how_many is_ledger_read (st_trace s3) = how_many is_ledger_read (st_trace s)"
      using s1 by (simp_all add: s3_def subset_insertI2)
    have "static env r s" using run by (simp add: running_def)
    then have st3: "static env r s3" using tr3(1-3) by (rule static_mono)
    have sync: "how_many is_ledger_commit (st_trace s) = how_many is_model_call (st_trace s) \<and>
        how_many is_ledger_read (st_trace s) = Suc (how_many is_ledger_commit (st_trace s))"
      if "use_position_budget env r" using run that by (simp add: running_def)
    have "attempt_ok env r n (commit_usage env r att m s3)"
    proof (rule commit_usage_ok [OF op3 st3])
      show "how_many is_model_call (st_trace s3) \<le> n" using n tr3(4) by simp
    qed (use sync tr3(4-6) in simp_all)
    moreover have "consume env r att s = commit_usage env r att m s3"
      unfolding consume_def Let_def s1_def [symmetric] Inr sum.case s3_def ..
    ultimately show ?thesis by simp
  qed
qed

lemma run_attempt_ok:
  assumes run: "running env r s" and n: "Suc (how_many is_model_call (st_trace s)) \<le> n" and max: "n \<le> max_iterations r"
  shows "attempt_ok env r n (run_attempt env r att s)"
proof -
  note op = running_open [OF run]
  obtain ok s1 where w: "writeEvidence env r False Cancelled (Some (REASON_TO_CODE Cancelled)) JNull None s = (ok, s1)"
    by force
  have "closed_state env r (fail_turn ''engine.cancelled'' ''turn cancelled'' Cancelled False s1)"
    using writeEvidence_ok(1) [OF op w] by (intro fail_closed executor_codes) (simp_all add: failure_backed_def)
  then have abort: "attempt_ok env r n (Ended (fail_turn ''engine.cancelled'' ''turn cancelled'' Cancelled False
      (snd (writeEvidence env r False Cancelled (Some (REASON_TO_CODE Cancelled)) JNull None s))))"
    using w by (simp add: attempt_ok_def)
  have tok: "attempt_ok env r n (stop_tokens env r limit s)" for limit
    using op by (simp add: stop_tokens_def stop_ok)
  have pos: "attempt_ok env r n (stop_position env r e s)" for e
    using op by (simp add: stop_position_def stop_ok)
  have dl: "attempt_ok env r n (Ended (stopWithEscalation env r Deadline_exceeded m Cause_deadline_exceeded
      (no_snapshot 0 0) None s))" for m
    using op by (intro stop_ok) simp_all
  have go: "attempt_ok env r n (consume env r att s)"
    if "over_tokens r s = None" "(if use_position_budget env r
        then checkPositionBudget (the_budget r) (st_usage s) 0 1 else None) = None"
  proof (rule consume_ok [OF run n])
    show "may_call env r (st_trace s) (st_blocks s)"
      using run that n max
      by (auto simp: may_call_def running_def static_def open_state_def over_tokens_def within_optional_def
          split: option.splits if_splits)
  qed
  show ?thesis
    unfolding run_attempt_def using abort tok pos dl go by (auto split: option.split)
qed

lemma run_attempts_ok:
  assumes "running env r s" "how_many is_model_call (st_trace s) + k \<le> max_iterations r"
  shows "attempt_ok env r (max_iterations r) (run_attempts env r k att s)"
  using assms
proof (induction k arbitrary: att s)
  case 0
  then show ?case by (simp add: attempt_ok_def)
next
  case (Suc k)
  have a: "attempt_ok env r (Suc (how_many is_model_call (st_trace s))) (run_attempt env r att s)"
    using Suc.prems by (intro run_attempt_ok) simp_all
  show ?case
  proof (cases "run_attempt env r att s")
    case (Again s')
    then have "running env r s'" "how_many is_model_call (st_trace s') + k \<le> max_iterations r"
      using a Suc.prems by (auto simp: attempt_ok_def)
    then show ?thesis using Suc.IH Again by simp
  qed (use a in \<open>simp_all add: attempt_ok_def\<close>)
qed

lemma exhausted_ok:
  assumes "open_state env r s"
  shows "attempt_ok env r n (exhausted env r s) \<and> (\<forall>t. exhausted env r s \<noteq> Again t)"
proof -
  obtain ok s1 where w: "writeEvidence env r False Invalid_output_exhausted
      (Some (REASON_TO_CODE Invalid_output_exhausted)) JNull None s = (ok, s1)" by force
  note e = writeEvidence_ok [OF assms w]
  have "closed_state env r (fail_turn ''engine.output_invalid'' m Invalid_output_exhausted True s1)" if ok for m
    using e(1) e(2) [OF that] by (intro fail_closed executor_codes) (simp_all add: failure_backed_def)
  then show ?thesis using w e(1) stop_ok [OF assms, of Iteration_cap Cause_iteration_cap n]
    by (auto simp: exhausted_def attempt_ok_def)
qed

lemma loop_stage_ok:
  assumes "running env r s" "how_many is_model_call (st_trace s) = 0"
  shows "stage_ok env r (\<lambda>_. False) (loop_stage env r s)"
proof -
  have catch: "closed_state env r (catch_stage env r m t)" if "open_state env r t" for m t
  proof -
    obtain ok s1 where w: "writeEvidence env r False Engine_internal_error
        (Some (REASON_TO_CODE Engine_internal_error)) JNull None t = (ok, s1)" by force
    show ?thesis using writeEvidence_ok(1) [OF that w] w
      by (simp add: catch_stage_def fail_closed executor_codes failure_backed_def)
  qed
  have a: "attempt_ok env r (max_iterations r) (run_attempts env r (max_iterations r) 1 s)"
    using assms by (intro run_attempts_ok) simp_all
  show ?thesis
  proof (cases "run_attempts env r (max_iterations r) 1 s")
    case (Again t)
    then have "open_state env r t" using a by (simp add: attempt_ok_def running_open)
    from exhausted_ok [OF this, of 0] show ?thesis using Again catch
      by (cases "exhausted env r t") (auto simp: loop_stage_def stage_ok_def attempt_ok_def)
  qed (use a catch in \<open>auto simp: loop_stage_def stage_ok_def attempt_ok_def\<close>)
qed

lemma turn_stages_ok: "stage_ok env r (\<lambda>_. False) (turn_stages env r)"
  unfolding turn_stages_def
  by (rule stage_ok_on_go [OF permission_stage_ok], elim conjE,
      rule stage_ok_on_go [OF validation_stage_ok], assumption+,
      rule stage_ok_on_go [OF schema_stage_ok], assumption+,
      rule stage_ok_on_go [OF memory_stage_ok], assumption+,
      rule stage_ok_on_go [OF context_stage_ok], assumption+,
      rule stage_ok_on_go [OF assemble_stage_ok], assumption+,
      rule stage_ok_on_go [OF detector_stage_ok], assumption+,
      rule stage_ok_on_go [OF ledger_stage_ok], assumption+,
      rule stage_ok_on_go [OF context_cap_stage_ok], assumption+,
      rule stage_ok_on_go [OF approval_stage_ok], assumption+, elim conjE,
      rule loop_stage_ok, assumption+)

lemma executor_contract:
  "case executeTurn env r of (tr, exit) \<Rightarrow> legal env r tr \<and>
     (case exit of Returned \<Rightarrow> tr \<noteq> [] \<and> is_terminal_effect (last tr)
      | Rejected _ \<Rightarrow> \<not> terminal_in tr \<and> how_many is_model_call tr = 0 \<and> reject_cause env r)"
  using turn_stages_ok [of env r]
  by (auto simp: executeTurn_def stage_ok_def closed_state_def open_state_def
      split: outcome.splits turn_exit.splits)

section \<open>Consequences of the contract\<close>

lemma legal_nth: "legal env r tr \<Longrightarrow> i < length tr \<Longrightarrow> allowed env r (take i tr) (tr ! i)"
proof (induction tr rule: rev_induct)
  case (snoc x xs)
  then show ?case by (cases "i = length xs") (auto simp: legal_snoc nth_append)
qed simp

lemma executor_legal: "legal env r (fst (executeTurn env r))"
  using executor_contract [of env r] by (auto split: prod.splits)

lemma executor_allowed:
  "i < length (fst (executeTurn env r)) \<Longrightarrow>
   allowed env r (take i (fst (executeTurn env r))) (fst (executeTurn env r) ! i)"
  by (rule legal_nth [OF executor_legal])

lemma model_calls_bounded:
  "legal env r tr \<Longrightarrow> how_many is_model_call tr \<le> max_iterations r"
proof (induction tr rule: rev_induct)
  case (snoc x xs)
  then show ?case by (cases x) (auto simp: legal_snoc allowed_def may_call_def)
qed simp

lemma terminal_unique:
  "legal env r tr \<Longrightarrow> tr \<noteq> [] \<Longrightarrow> is_terminal_effect (last tr) \<Longrightarrow> filter is_terminal_effect tr = [last tr]"
proof (cases tr rule: rev_cases)
  case (snoc xs x)
  assume "legal env r tr" "is_terminal_effect (last tr)"
  then have "\<not> terminal_in xs" "is_terminal_effect x" using snoc by (auto simp: legal_snoc allowed_def)
  then show ?thesis using snoc by (auto simp: terminal_in_def list_ex_iff filter_empty_conv)
qed simp

lemma last_reading_indexed:
  "legal env r tr \<Longrightarrow> env_ledger env = Some l \<Longrightarrow> last_reading tr = Some u \<Longrightarrow>
   \<exists>k. how_many is_ledger_read tr = Suc k \<and> lp_read l k = Some u"
proof (induction tr rule: rev_induct)
  case (snoc x xs)
  then show ?case
    by (cases "is_ledger_read x") (auto simp: legal_snoc allowed_def elim!: is_ledger_read.elims)
qed simp

lemma within_iteration_cap:
  assumes "checkPositionBudget d u 0 1 = None" "scope_iterations (per_task d) = Some cap"
  shows "task_used_iterations u + 1 \<le> cap"
  using assms by (auto simp: checkPositionBudget_def over_def split: option.splits if_splits)

lemma capped_model_calls:
  assumes "env_ledger env = Some l" "use_position_budget env r"
    and cap: "scope_iterations (per_task (the_budget r)) = Some cap"
    and honest: "\<And>k u. lp_read l k = Some u \<Longrightarrow> used + int k \<le> task_used_iterations u"
  shows "legal env r tr \<Longrightarrow> used + int (how_many is_model_call tr) \<le> max used cap"
proof (induction tr rule: rev_induct)
  case Nil
  show ?case by simp
next
  case (snoc x xs)
  show ?case
  proof (cases x)
    case (Model_call blocks vs)
    then have may: "may_call env r xs blocks" using snoc.prems by (simp add: legal_snoc allowed_def)
    then obtain u where u: "last_reading xs = Some u" "checkPositionBudget (the_budget r) u 0 1 = None"
      "how_many is_ledger_commit xs = how_many is_model_call xs"
      "how_many is_ledger_read xs = Suc (how_many is_ledger_commit xs)"
      using assms(2) by (auto simp: may_call_def split: option.splits)
    have "legal env r xs" using snoc.prems by (simp add: legal_snoc)
    from last_reading_indexed [OF this assms(1) u(1)] u(3,4)
    have "lp_read l (how_many is_model_call xs) = Some u" by auto
    from honest [OF this] within_iteration_cap [OF u(2) cap]
    show ?thesis using Model_call by simp
  qed (use snoc in \<open>simp_all add: legal_snoc\<close>)
qed

section \<open>Sample turns\<close>

definition sample_ledger :: ledger_port where
  "sample_ledger = \<lparr>lp_read = (\<lambda>k. Some \<lparr>task_used_tokens = 0, task_used_iterations = int k,
       day_used_tokens = 0, day_used_iterations = int k\<rparr>), lp_commit = (\<lambda>_. True)\<rparr>"

definition sample_env :: turn_env where
  "sample_env = \<lparr>env_evidence_sink = Some (\<lambda>_. True), env_escalation_sink = Some (\<lambda>_. True),
     env_ledger = Some sample_ledger, env_model = (\<lambda>k. Inr \<lparr>mt_text = (if k = 0 then ''x'' else ''{}''),
       mt_input_tokens = Some 3, mt_output_tokens = Some 4\<rparr>),
     env_org = None, env_doom = DEFAULT_DOOM_LOOP_CONFIG, env_memory = None, env_context = None,
     env_aborted = (\<lambda>_. False), env_attempt_clock = (\<lambda>_. 0), env_approval_clock = (\<lambda>_. 0),
     env_context_clock = 0, env_stamp = (\<lambda>_. 0), env_timestamp = ''t'', env_new_id = (\<lambda>_. ''id''),
     env_dparse = (\<lambda>_. None), env_sha = (\<lambda>s. s), env_stringify = (\<lambda>_. Some ''{}''),
     env_parse = (\<lambda>s. if s = ''{}'' then Some (JObj []) else None),
     env_compile = (\<lambda>_. Some \<lparr>cs_async = False, cs_validate = is_plain_object\<rparr>),
     env_assembly_digest = (\<lambda>_. ''d'')\<rparr>"

definition sample_request :: turn_request where
  "sample_request = \<lparr>tr_workspace = ''w'', tr_position = ''faq'', tr_turn = ''t1'', tr_run = ''r1'',
     tr_input = JStr ''hello'', tr_budget = \<lparr>tb_max_iterations = JNum 5, tb_max_tokens = JNum 100,
       tb_max_context_bytes = JUndef\<rparr>, tr_output_schema = JObj [], tr_instructions = None,
     tr_spec = None, tr_deadline = None,
     tr_position_budget = JObj [(''perTask'', JObj [(''iterations'', JNum 3)]), (''perDay'', JObj [(''tokens'', JNum 9)])],
     tr_task = Some ''task'', tr_day = Some ''day'', tr_permissions = JUndef, tr_context_reads = [],
     tr_tools = [], tr_approval_action = None, tr_pending = None, tr_pendings = None\<rparr>"

lemma on_go_eval:
  "on_go (Go s) f = f s" "on_go (Halt s x) f = Halt s x"
  by (simp_all add: on_go_def)

lemma on_go_weak: "out = out' \<Longrightarrow> on_go out f = on_go out' f"
  by simp

lemmas turn_defs = executeTurn_def turn_stages_def on_go_eval start_state_def permission_stage_def
  validation_stage_def schema_stage_def memory_stage_def context_stage_def assemble_stage_def
  detector_stage_def ledger_stage_def context_cap_stage_def approval_stage_def loop_stage_def
  run_attempt_def consume_def commit_usage_def after_commit_def judge_output_def complete_turn_def
  log_effect_def emit_def count_effects_def write_record_def writeEvidence_def read_usage_def
  over_tokens_def call_tokens_def
  halt_failed_def fail_turn_def

lemmas request_defs = validateTurnRequest_def assertBoundedId_def assertOptionalTimestamp_def
  positive_integer_def validateApprovalRequestFields_def validatePositionBudgetDeclaration_def
  isPositiveBoundedInt_def scope_keys_legal_def scopeAllocated_def scope_of_def MAX_BUDGET_CAP_def
  MAX_ID_LENGTH_def MAX_INPUT_BYTES_def utf8_len_def js_trim_def js_space_def
  prepareTerminalSchema_def ENGINE_MAX_OUTPUT_SCHEMA_BYTES_def

lemma sample_run:
  "validateTurnRequest (env_dparse sample_env) sample_request = Inr sample_request"
  "the_budget sample_request = \<lparr>per_task = \<lparr>scope_tokens = None, scope_iterations = Some 3\<rparr>,
     per_day = \<lparr>scope_tokens = Some 9, scope_iterations = None\<rparr>\<rparr>"
  "use_position_budget sample_env sample_request"
  "max_iterations sample_request = Suc (Suc (Suc (Suc (Suc 0))))"
  by (simp_all add: request_defs the_budget_def use_position_budget_def max_iterations_def
      sample_env_def sample_request_def Let_def)

lemma sample_fields:
  "env_evidence_sink sample_env = Some (\<lambda>_. True)"
  "env_escalation_sink sample_env = Some (\<lambda>_. True)"
  "env_ledger sample_env = Some sample_ledger"
  "env_model sample_env k = Inr \<lparr>mt_text = (if k = 0 then ''x'' else ''{}''), mt_input_tokens = Some 3, mt_output_tokens = Some 4\<rparr>"
  "env_doom sample_env = DEFAULT_DOOM_LOOP_CONFIG"
  "env_memory sample_env = None"
  "env_context sample_env = None"
  "env_aborted sample_env k = False"
  "env_sha sample_env x = x"
  "env_stringify sample_env v = Some ''{}''"
  "env_parse sample_env x = (if x = ''{}'' then Some (JObj []) else None)"
  "env_compile sample_env x = Some \<lparr>cs_async = False, cs_validate = is_plain_object\<rparr>"
  "env_assembly_digest sample_env b = ''d''"
  "tr_input sample_request = JStr ''hello''"
  "tr_budget sample_request = \<lparr>tb_max_iterations = JNum 5, tb_max_tokens = JNum 100, tb_max_context_bytes = JUndef\<rparr>"
  "tr_output_schema sample_request = JObj []"
  "tr_instructions sample_request = None"
  "tr_spec sample_request = None"
  "tr_deadline sample_request = None"
  "tr_permissions sample_request = JUndef"
  "tr_approval_action sample_request = None"
  "tr_pending sample_request = None"
  "tr_pendings sample_request = None"
  by (simp_all add: sample_env_def sample_request_def)

lemma sample_calls: "how_many is_model_call (fst (executeTurn sample_env sample_request)) = 2"
  by (simp add: turn_defs sample_fields sample_run how_many_def assembleContext_def CONTEXT_SLOT_ORDER_def
      candidate_text_def no_limits_def turn_input_text_def new_detector_def DEFAULT_DOOM_LOOP_CONFIG_def
      prepareTerminalSchema_def ENGINE_MAX_OUTPUT_SCHEMA_BYTES_def utf8_len_def sample_ledger_def
      checkPositionBudget_def over_def observe_def push_window_def repetition_count_def
      oscillation_cycles_def Let_def cong: on_go_weak)

section \<open>Properties\<close>

text \<open>C1: the generator of a turn either returns, and then exactly one of its effects is a terminal
  event, the last one, or it throws, and then it emitted no terminal event, called no model, and
  the cause is an empty turn input, an invalid doom-loop configuration or a failing first read
  of the budget ledger.\<close>

theorem turn_ends_with_one_terminal_event:
  "case executeTurn env r of
     (tr, Returned) \<Rightarrow> tr \<noteq> [] \<and> filter is_terminal_effect tr = [last tr]
   | (tr, Rejected _) \<Rightarrow> filter is_terminal_effect tr = [] \<and> filter is_model_call tr = [] \<and> reject_cause env r"
  using executor_contract [of env r] terminal_unique
  by (auto simp: terminal_in_def list_ex_iff filter_empty_conv how_many_def split: turn_exit.splits)

text \<open>C2: the model is called only in a validated, permitted turn with all approval verdicts granted
  and unexpired, after \<open>run.started\<close>, with a context within its byte cap, while the tokens used so
  far are within the turn budget and the last ledger reading admits one more iteration; and it is
  called at most \<open>maxIterations\<close> times.\<close>

theorem model_calls_stay_behind_the_gates:
  "case executeTurn env r of (tr, exit) \<Rightarrow>
     list_all (\<lambda>i. case tr ! i of Model_call blocks _ \<Rightarrow> may_call env r (take i tr) blocks | _ \<Rightarrow> True)
       [0..<length tr]
     \<and> how_many is_model_call tr \<le> max_iterations r"
proof (cases "executeTurn env r")
  case (Pair tr exit)
  have "case tr ! i of Model_call blocks _ \<Rightarrow> may_call env r (take i tr) blocks | _ \<Rightarrow> True"
    if "i < length tr" for i
    using executor_allowed [of i env r] that Pair by (auto simp: allowed_def split: turn_effect.splits)
  then show ?thesis
    using model_calls_bounded [OF executor_legal, of env r] Pair by (simp add: list_all_iff)
qed

text \<open>C3: a turn completes only with an output its terminal schema accepts (any text when there is no
  schema), after the evidence of that output was written.\<close>

theorem completion_is_valid_and_evidenced:
  "case executeTurn env r of (tr, exit) \<Rightarrow>
     list_all (\<lambda>i. case tr ! i of Emit (Run_completed v) \<Rightarrow>
         output_valid env r v \<and> output_evidenced env (take i tr) v | _ \<Rightarrow> True) [0..<length tr]"
proof (cases "executeTurn env r")
  case (Pair tr exit)
  have "case tr ! i of Emit (Run_completed v) \<Rightarrow>
      output_valid env r v \<and> output_evidenced env (take i tr) v | _ \<Rightarrow> True"
    if "i < length tr" for i
    using executor_allowed [of i env r] that Pair
    by (auto simp: allowed_def split: turn_effect.splits engine_event.splits)
  then show ?thesis using Pair by (simp add: list_all_iff)
qed

text \<open>C4: a governed stop (turn or position budget, iteration cap, doom loop, deadline) becomes a
  terminal event only after the escalation with its cause was persisted and evidence naming that
  escalation, the reason and the code was written; permission denials, settled approvals and
  exhausted repairs are evidenced before their terminal event; every code is a machine code.\<close>

theorem failures_are_recorded_before_they_surface:
  "case executeTurn env r of (tr, exit) \<Rightarrow>
     list_all (\<lambda>i. case tr ! i of Emit (Run_failed e) \<Rightarrow>
         failure_backed env (take i tr) e \<and> ENGINE_ERROR_CODE_PATTERN (ee_code e) | _ \<Rightarrow> True) [0..<length tr]"
proof (cases "executeTurn env r")
  case (Pair tr exit)
  have "case tr ! i of Emit (Run_failed e) \<Rightarrow>
      failure_backed env (take i tr) e \<and> ENGINE_ERROR_CODE_PATTERN (ee_code e) | _ \<Rightarrow> True"
    if "i < length tr" for i
    using executor_allowed [of i env r] that Pair
    by (auto simp: allowed_def split: turn_effect.splits engine_event.splits)
  then show ?thesis using Pair by (simp add: list_all_iff)
qed

text \<open>with a ledger whose readings account for the iterations committed so far, a turn calls the
  model only as often as the position's per-task iteration cap leaves room for.\<close>

theorem position_iteration_cap_bounds_model_calls:
  assumes "env_ledger env = Some l" and "use_position_budget env r"
    and "scope_iterations (per_task (the_budget r)) = Some cap"
    and "\<And>k u. lp_read l k = Some u \<Longrightarrow> used + int k \<le> task_used_iterations u"
  shows "used + int (how_many is_model_call (fst (executeTurn env r))) \<le> max used cap"
  by (rule capped_model_calls [OF assms executor_legal])

theorem position_iteration_cap_bounds_model_calls_witness:
  "0 + int (how_many is_model_call (fst (executeTurn sample_env sample_request))) \<le> max 0 3 \<and>
   how_many is_model_call (fst (executeTurn sample_env sample_request)) = 2"
proof -
  have "env_ledger sample_env = Some sample_ledger" by (simp add: sample_env_def)
  moreover have "use_position_budget sample_env sample_request" by (rule sample_run)
  moreover have "scope_iterations (per_task (the_budget sample_request)) = Some 3" by (simp add: sample_run)
  moreover have "0 + int k \<le> task_used_iterations u" if "lp_read sample_ledger k = Some u" for k u
    using that by (auto simp: sample_ledger_def)
  ultimately have "0 + int (how_many is_model_call (fst (executeTurn sample_env sample_request))) \<le> max 0 3"
    by (rule position_iteration_cap_bounds_model_calls)
  with sample_calls show ?thesis by blast
qed

text \<open>An empty string input passes the request validation, and yet the turn ends by throwing,
  after \<open>run.started\<close> and without any terminal event or evidence.\<close>

theorem empty_input_throws_without_terminal:
  assumes "tr_input r = JStr []" and "validateTurnRequest (env_dparse env) r = Inr r"
    and "tr_permissions r = JUndef" and "tr_output_schema r = JUndef"
    and "env_memory env = None" and "env_context env = None"
  shows "executeTurn env r = ([Emit Run_started], Rejected ''turnInput must be a non-empty string'')"
  using assms
  by (simp add: turn_defs prepareTerminalSchema_def assembleContext_def turn_input_text_def cong: on_go_weak)

definition empty_request :: turn_request where
  "empty_request = sample_request\<lparr>tr_input := JStr [], tr_output_schema := JUndef\<rparr>"

theorem empty_input_throws_without_terminal_witness:
  "validateTurnRequest (env_dparse sample_env) empty_request = Inr empty_request \<and>
   executeTurn sample_env empty_request = ([Emit Run_started], Rejected ''turnInput must be a non-empty string'')"
proof -
  have v: "validateTurnRequest (env_dparse sample_env) empty_request = Inr empty_request"
    by (simp add: request_defs sample_env_def sample_request_def empty_request_def Let_def)
  have "executeTurn sample_env empty_request = ([Emit Run_started], Rejected ''turnInput must be a non-empty string'')"
    by (rule empty_input_throws_without_terminal [OF _ v])
       (simp_all add: empty_request_def sample_fields)
  with v show ?thesis by blast
qed

end
