(* ===== verification/TurnEvidence.thy ===== *)
theory TurnEvidence
  imports TurnSafety
begin

text \<open>
  packages/engine/src/turn-evidence.ts: the structural conformance check of a
  \<open>turn-evidence.v1\<close> record, the in-memory sink and the content audit, over the JSON value the
  executor builds. The check is a typing judgement for evidence: the last section shows that the
  executor only writes records it accepts. A violation is its field and its code; the message,
  which repeats them, is left out. \<open>dparse\<close> is \<open>Date.parse\<close>.
\<close>

section \<open>The record as the executor builds it\<close>

definition TURN_EVIDENCE_VERSION :: string where
  "TURN_EVIDENCE_VERSION = ''turn-evidence.v1''"

definition ENGINE_VERSION :: string where
  "ENGINE_VERSION = ''0.1.0''"

fun reason_string :: "terminal_reason \<Rightarrow> string" where
  "reason_string Goal_met = ''goal_met''"
| "reason_string Invalid_output_exhausted = ''invalid_output_exhausted''"
| "reason_string Turn_budget_exceeded = ''turn_budget_exceeded''"
| "reason_string Position_budget_exceeded = ''position_budget_exceeded''"
| "reason_string Iteration_cap = ''iteration_cap''"
| "reason_string Doom_loop = ''doom_loop''"
| "reason_string Deadline_exceeded = ''deadline_exceeded''"
| "reason_string Cancelled = ''cancelled''"
| "reason_string Permission_denied = ''permission_denied''"
| "reason_string Memory_unavailable = ''memory_unavailable''"
| "reason_string Memory_denied = ''memory_denied''"
| "reason_string Context_unavailable = ''context_unavailable''"
| "reason_string Context_access_denied = ''context_denied''"
| "reason_string Engine_internal_error = ''engine_internal_error''"

fun outcome_string :: "approval_outcome \<Rightarrow> string" where
  "outcome_string Requested = ''requested''"
| "outcome_string Granted = ''granted''"
| "outcome_string Refused = ''denied''"
| "outcome_string Lapsed = ''expired''"

fun mode_string :: "port_mode \<Rightarrow> string" where
  "mode_string Optional_mode = ''optional''"
| "mode_string Required_mode = ''required''"

abbreviation JInt :: "int \<Rightarrow> jsval" where
  "JInt n \<equiv> JNum (of_int n)"

text \<open>\<open>...(x !== undefined ? { key: x } : {})\<close>\<close>

definition opt_key :: "string \<Rightarrow> jsval option \<Rightarrow> (string \<times> jsval) list" where
  "opt_key k v = (case v of None \<Rightarrow> [] | Some x \<Rightarrow> [(k, x)])"

definition approval_value :: "approval_ref \<Rightarrow> jsval" where
  "approval_value a = JObj ([(''approvalId'', JStr (ar_id a))]
     @ opt_key ''previewId'' (map_option JStr (ar_preview a))
     @ [(''outcome'', JStr (outcome_string (ar_outcome a)))])"

definition denial_value :: "denial_attempt \<Rightarrow> jsval" where
  "denial_value d = JObj [(''positionId'', JStr (da_position d)), (''requested'', JStr (da_requested d)),
     (''code'', JStr (denial_code_string (da_code d))), (''redirectTo'', JStr (da_redirect d))]"

definition summary_value :: "permission_summary \<Rightarrow> jsval" where
  "summary_value p = JObj [(''allowCount'', JInt (int (ps_allow p))), (''denyCount'', JInt (int (ps_deny p))),
     (''codesSeen'', JArr (map (\<lambda>c. JStr (denial_code_string c)) (ps_codes p))),
     (''redirectToTargets'', JArr (map JStr (ps_redirects p)))]"

definition usage_value :: "budget_usage \<Rightarrow> jsval" where
  "usage_value u = JObj [(''taskUsedTokens'', JInt (task_used_tokens u)),
     (''taskUsedIterations'', JInt (task_used_iterations u)),
     (''dayUsedTokens'', JInt (day_used_tokens u)), (''dayUsedIterations'', JInt (day_used_iterations u))]"

definition warnings_value :: "string list \<Rightarrow> jsval" where
  "warnings_value ws = JArr (map (\<lambda>c. JObj [(''code'', JStr c)]) ws)"

definition memory_value :: "memory_evidence \<Rightarrow> jsval" where
  "memory_value m = JObj [(''mode'', JStr (mode_string (me_mode m))), (''adapterIdentity'', JStr (me_adapter m)),
     (''memoryScope'', JStr (me_scope m)), (''retrievedAt'', JStr (me_retrieved_at m)),
     (''itemCount'', JInt (int (me_item_count m))), (''totalBytes'', JInt (int (me_total_bytes m))),
     (''items'', JArr (map (\<lambda>(dg, loc, kd, sv, len, pd). JObj [(''digest'', JStr dg), (''locator'', JStr loc),
        (''kind'', JStr kd), (''stateVersion'', JInt sv), (''byteLength'', JInt (int len)),
        (''provenanceDigest'', JStr pd)]) (me_items m))),
     (''warnings'', warnings_value (me_warnings m))]"

fun kind_string :: "item_kind \<Rightarrow> string" where
  "kind_string Raw_excerpt = ''raw_excerpt''"
| "kind_string Entity_mention = ''entity_mention''"
| "kind_string Task_marker = ''task_marker''"

definition context_value :: "context_evidence \<Rightarrow> jsval" where
  "context_value c = JObj ([(''mode'', JStr (mode_string (ce_mode c))), (''adapterIdentity'', JStr (ce_adapter c)),
     (''retrievedAt'', JStr (ce_retrieved_at c)), (''bundleDigest'', JStr (ce_bundle_digest c)),
     (''watermarkRevision'', JInt (ce_watermark c)), (''itemCount'', JInt (int (ce_item_count c))),
     (''totalBytes'', JInt (int (ce_total_bytes c))),
     (''items'', JArr (map (\<lambda>(dg, loc, kd, sr, dr, len). JObj [(''artifactDigest'', JStr dg),
        (''locator'', JStr loc), (''kind'', JStr (kind_string kd)), (''sourceRevision'', JInt sr),
        (''derivedRevision'', JInt dr), (''byteLength'', JInt (int len))]) (ce_items c))),
     (''warnings'', warnings_value (ce_warnings c))]
     @ opt_key ''evictedCount'' (map_option (\<lambda>n. JInt (int n)) (ce_evicted c)))"

definition budget_value :: "turn_evidence \<Rightarrow> jsval" where
  "budget_value e = JObj ([(''turn'', JObj ([(''iterationsUsed'', JInt (int (tv_iterations e))),
       (''tokensUsed'', JInt (tv_tokens e)), (''maxIterations'', tv_max_iterations e)]
       @ (if tv_max_tokens e \<noteq> JUndef then [(''maxTokens'', tv_max_tokens e)] else [])))]
     @ opt_key ''position'' (map_option usage_value (tv_position_usage e)))"

definition terminal_value :: "turn_evidence \<Rightarrow> jsval" where
  "terminal_value e = JObj ([(''status'', JStr (if tv_completed e then ''completed'' else ''failed'')),
       (''reason'', JStr (reason_string (tv_reason e)))]
     @ opt_key ''errorCode'' (map_option JStr (tv_code e)))"

definition permissions_value :: "permission_summary \<times> denial_attempt list \<Rightarrow> jsval" where
  "permissions_value p = JObj [(''summary'', summary_value (fst p)),
     (''denials'', JArr (map denial_value (snd p)))]"

text \<open>The sealed record: the fields the model of the turn keeps, with the evidence id, the engine
  version and the two time stamps the executor adds.\<close>

definition evidence_value :: "string \<Rightarrow> string \<Rightarrow> string \<Rightarrow> turn_evidence \<Rightarrow> jsval" where
  "evidence_value evidenceId startedAt completedAt e = JObj ([
       (''schemaVersion'', JStr TURN_EVIDENCE_VERSION), (''evidenceId'', JStr evidenceId),
       (''workspaceRef'', JStr (tv_workspace e)), (''positionId'', JStr (tv_position e)),
       (''turnId'', JStr (tv_turn e)), (''runId'', JStr (tv_run e)),
       (''engineVersion'', JStr ENGINE_VERSION), (''inputDigest'', JStr (tv_input_digest e)),
       (''outputDigest'', JStr (tv_output_digest e)), (''budget'', budget_value e),
       (''terminal'', terminal_value e)]
     @ opt_key ''escalationRef'' (map_option JStr (tv_escalation e))
     @ opt_key ''approvalRef'' (map_option approval_value (tv_approval e))
     @ opt_key ''approvalRefs'' (map_option (\<lambda>rs. JArr (map approval_value rs)) (tv_approvals e))
     @ opt_key ''permissions'' (map_option permissions_value (tv_permissions e))
     @ opt_key ''memory'' (map_option memory_value (tv_memory e))
     @ opt_key ''context'' (map_option context_value (tv_context e))
     @ [(''assemblyManifestDigest'', JStr (tv_assembly_digest e)),
        (''timeBounds'', JObj [(''startedAt'', JStr startedAt), (''completedAt'', JStr completedAt)])])"

section \<open>The conformance check\<close>

type_synonym violation = "string \<times> string"

definition check_that :: "bool \<Rightarrow> string \<Rightarrow> string \<Rightarrow> violation list" where
  "check_that ok field code = (if ok then [] else [(field, code)])"

text \<open>\<open>/^[0-9a-f]{64}$/\<close>\<close>

definition HEX_64 :: "string \<Rightarrow> bool" where
  "HEX_64 s = (length s = 64 \<and> list_all is_hex s)"

definition matches_layout :: "string \<Rightarrow> string \<Rightarrow> bool" where
  "matches_layout m s = list_all2 (\<lambda>x c. if x = CHR ''d'' then is_digit c else c = x) m s"

definition zone_part :: "string \<Rightarrow> bool" where
  "zone_part s = (s = ''Z'' \<or> matches_layout ''+dd:dd'' s \<or> matches_layout ''-dd:dd'' s)"

definition fraction_and_zone :: "string \<Rightarrow> bool" where
  "fraction_and_zone s = (case s of
      [] \<Rightarrow> False
    | c # ds \<Rightarrow> (if c = CHR ''.'' then takeWhile is_digit ds \<noteq> [] \<and> zone_part (dropWhile is_digit ds)
                else zone_part s))"

text \<open>\<open>/^\d{4}-\d{2}-\d{2}T\d{2}:\d{2}:\d{2}(?:\.\d+)?(?:Z|[+-]\d{2}:\d{2})$/\<close>\<close>

definition ISO_8601 :: "string \<Rightarrow> bool" where
  "ISO_8601 s = (matches_layout ''dddd-dd-ddTdd:dd:dd'' (take 19 s) \<and> fraction_and_zone (drop 19 s))"

definition TERMINAL_REASONS :: "string list" where
  "TERMINAL_REASONS = [''goal_met'', ''invalid_output_exhausted'', ''turn_budget_exceeded'',
     ''position_budget_exceeded'', ''iteration_cap'', ''doom_loop'', ''deadline_exceeded'', ''cancelled'',
     ''permission_denied'', ''memory_unavailable'', ''memory_denied'', ''context_unavailable'',
     ''context_denied'', ''engine_internal_error'']"

definition APPROVAL_OUTCOMES :: "string list" where
  "APPROVAL_OUTCOMES = [''requested'', ''granted'', ''denied'', ''expired'']"

definition ALLOWED_TOP_LEVEL_KEYS :: "string list" where
  "ALLOWED_TOP_LEVEL_KEYS = [''schemaVersion'', ''evidenceId'', ''workspaceRef'', ''positionId'', ''turnId'',
     ''runId'', ''engineVersion'', ''inputDigest'', ''outputDigest'', ''budget'', ''terminal'', ''escalationRef'',
     ''approvalRef'', ''approvalRefs'', ''permissions'', ''memory'', ''context'', ''assemblyManifestDigest'',
     ''timeBounds'']"

definition isNonNegativeInt :: "jsval \<Rightarrow> bool" where
  "isNonNegativeInt v = (case js_int v of None \<Rightarrow> False | Some n \<Rightarrow> n \<ge> 0)"

definition is_string :: "jsval \<Rightarrow> bool" where
  "is_string v = (js_str v \<noteq> None)"

definition non_empty_string :: "jsval \<Rightarrow> bool" where
  "non_empty_string v = (case js_str v of None \<Rightarrow> False | Some s \<Rightarrow> s \<noteq> [])"

definition string_in :: "string list \<Rightarrow> jsval \<Rightarrow> bool" where
  "string_in xs v = (case js_str v of None \<Rightarrow> False | Some s \<Rightarrow> s \<in> set xs)"

definition string_matching :: "(string \<Rightarrow> bool) \<Rightarrow> jsval \<Rightarrow> bool" where
  "string_matching p v = (case js_str v of None \<Rightarrow> False | Some s \<Rightarrow> p s)"

text \<open>The keys outside the list, each reported under its path.\<close>

definition unknown_fields :: "string \<Rightarrow> string list \<Rightarrow> jsval \<Rightarrow> violation list" where
  "unknown_fields path known v =
     concat (map (\<lambda>k. check_that (k \<in> set known) (path @ k) ''unknown_field'') (js_keys v))"

definition fields_of :: "(string \<Rightarrow> jsval \<Rightarrow> violation list) \<Rightarrow> jsval \<Rightarrow> string list \<Rightarrow> violation list" where
  "fields_of f v ks = concat (map (\<lambda>k. f k (js_get v k)) ks)"

definition identity_violations :: "jsval \<Rightarrow> violation list" where
  "identity_violations v =
     unknown_fields [] ALLOWED_TOP_LEVEL_KEYS v
   @ check_that (js_get v ''schemaVersion'' = JStr TURN_EVIDENCE_VERSION) ''schemaVersion'' ''schema_version_mismatch''
   @ fields_of (\<lambda>k x. check_that (non_empty_string x) k ''non_empty_string_required'') v
       [''evidenceId'', ''workspaceRef'', ''positionId'', ''turnId'', ''engineVersion'']
   @ check_that (is_string (js_get v ''runId'')) ''runId'' ''string_required''
   @ fields_of (\<lambda>k x. check_that (string_matching HEX_64 x) k ''sha256_hex_required'') v
       [''inputDigest'', ''outputDigest'', ''assemblyManifestDigest'']"

definition turn_budget_violations :: "jsval \<Rightarrow> violation list" where
  "turn_budget_violations turn =
     (if \<not> is_plain_object turn then [(''budget.turn'', ''object_required'')]
      else unknown_fields ''budget.turn.'' [''iterationsUsed'', ''tokensUsed'', ''maxIterations'', ''maxTokens''] turn
         @ fields_of (\<lambda>k x. check_that (isNonNegativeInt x) (''budget.turn.'' @ k) ''non_negative_int_required'')
             turn [''iterationsUsed'', ''tokensUsed'', ''maxIterations'']
         @ check_that (js_get turn ''maxTokens'' = JUndef \<or> isNonNegativeInt (js_get turn ''maxTokens''))
             ''budget.turn.maxTokens'' ''non_negative_int_required''
         @ (case (js_int (js_get turn ''iterationsUsed''), js_int (js_get turn ''maxIterations'')) of
              (Some used, Some cap) \<Rightarrow>
                check_that (\<not> (used \<ge> 0 \<and> cap \<ge> 0 \<and> used > cap)) ''budget.turn.iterationsUsed'' ''counter_exceeds_cap''
            | _ \<Rightarrow> []))"

definition position_budget_violations :: "jsval \<Rightarrow> violation list" where
  "position_budget_violations pos =
     (if pos = JUndef then []
      else if \<not> is_plain_object pos then [(''budget.position'', ''object_required'')]
      else fields_of (\<lambda>k x. check_that (isNonNegativeInt x) (''budget.position.'' @ k) ''non_negative_int_required'')
             pos [''taskUsedTokens'', ''taskUsedIterations'', ''dayUsedTokens'', ''dayUsedIterations''])"

definition budget_violations :: "jsval \<Rightarrow> violation list" where
  "budget_violations budget =
     (if \<not> is_plain_object budget then [(''budget'', ''object_required'')]
      else unknown_fields ''budget.'' [''turn'', ''position''] budget
         @ turn_budget_violations (js_get budget ''turn'')
         @ position_budget_violations (js_get budget ''position''))"

definition terminal_violations :: "jsval \<Rightarrow> violation list" where
  "terminal_violations t =
     (if \<not> is_plain_object t then [(''terminal'', ''object_required'')]
      else unknown_fields ''terminal.'' [''status'', ''reason'', ''errorCode''] t
         @ check_that (js_get t ''status'' = JStr ''completed'' \<or> js_get t ''status'' = JStr ''failed'')
             ''terminal.status'' ''status_enum''
         @ check_that (string_in TERMINAL_REASONS (js_get t ''reason'')) ''terminal.reason'' ''reason_enum''
         @ (if js_get t ''errorCode'' \<noteq> JUndef
            then check_that (string_matching ENGINE_ERROR_CODE_PATTERN (js_get t ''errorCode''))
                   ''terminal.errorCode'' ''error_code_pattern''
            else check_that (js_get t ''status'' \<noteq> JStr ''failed'')
                   ''terminal.errorCode'' ''error_code_required_on_failure''))"

text \<open>\<open>continue\<close> leaves the instant undefined.\<close>

definition instant_of :: "(string \<Rightarrow> int option) \<Rightarrow> jsval \<Rightarrow> int option" where
  "instant_of dparse v = (case js_str v of
      None \<Rightarrow> None | Some s \<Rightarrow> if ISO_8601 s then dparse s else None)"

definition time_violations :: "(string \<Rightarrow> int option) \<Rightarrow> jsval \<Rightarrow> violation list" where
  "time_violations dparse t =
     (if \<not> is_plain_object t then [(''timeBounds'', ''object_required'')]
      else unknown_fields ''timeBounds.'' [''startedAt'', ''completedAt''] t
         @ fields_of (\<lambda>k x. check_that (instant_of dparse x \<noteq> None) (''timeBounds.'' @ k) ''iso_8601_required'')
             t [''startedAt'', ''completedAt'']
         @ (case (instant_of dparse (js_get t ''startedAt''), instant_of dparse (js_get t ''completedAt'')) of
              (Some a, Some b) \<Rightarrow> check_that (\<not> b < a) ''timeBounds.completedAt'' ''negative_duration''
            | _ \<Rightarrow> []))"

definition approval_violations :: "string \<Rightarrow> jsval \<Rightarrow> violation list" where
  "approval_violations field a =
     (if \<not> is_plain_object a then [(field, ''object_required'')]
      else check_that (non_empty_string (js_get a ''approvalId'')) (field @ ''.approvalId'') ''non_empty_string_required''
         @ check_that (js_get a ''previewId'' = JUndef \<or> is_string (js_get a ''previewId''))
             (field @ ''.previewId'') ''string_required''
         @ check_that (string_in APPROVAL_OUTCOMES (js_get a ''outcome'')) (field @ ''.outcome'') ''outcome_enum'')"

definition approvals_violations :: "jsval \<Rightarrow> violation list" where
  "approvals_violations v = (case v of
      JUndef \<Rightarrow> []
    | JArr xs \<Rightarrow> check_that (\<not> (length xs < 2 \<or> length xs > 32)) ''approvalRefs'' ''array_length''
        @ concat (map (\<lambda>(i, x). approval_violations (''approvalRefs['' @ dec i @ '']'') x) (enumerate 0 xs))
    | _ \<Rightarrow> [(''approvalRefs'', ''array_required'')])"

definition strings_only :: "jsval \<Rightarrow> bool" where
  "strings_only v = (case v of JArr xs \<Rightarrow> list_all is_string xs | _ \<Rightarrow> False)"

definition summary_violations :: "jsval \<Rightarrow> violation list" where
  "summary_violations s =
     (if \<not> is_plain_object s then [(''permissions.summary'', ''object_required'')]
      else check_that (isNonNegativeInt (js_get s ''allowCount'')) ''permissions.summary.allowCount'' ''non_negative_int_required''
         @ check_that (isNonNegativeInt (js_get s ''denyCount'')) ''permissions.summary.denyCount'' ''non_negative_int_required''
         @ check_that (strings_only (js_get s ''codesSeen'')) ''permissions.summary.codesSeen'' ''string_array_required''
         @ check_that (strings_only (js_get s ''redirectToTargets'')) ''permissions.summary.redirectToTargets'' ''string_array_required'')"

definition denial_violations :: "nat \<Rightarrow> jsval \<Rightarrow> violation list" where
  "denial_violations i d =
     (let field = ''permissions.denials['' @ dec i @ '']'' in
      if \<not> is_plain_object d then [(field, ''object_required'')]
      else fields_of (\<lambda>k x. check_that (is_string x) (field @ ''.'' @ k) ''string_required'') d
             [''positionId'', ''requested'', ''redirectTo'']
         @ check_that (js_get d ''code'' \<in> {JStr ''workspace_org_authority_denied'',
             JStr ''workspace_org_context_denied'', JStr ''workspace_org_position_unknown''})
             (field @ ''.code'') ''denial_code_enum'')"

definition permission_violations :: "jsval \<Rightarrow> violation list" where
  "permission_violations p =
     (if p = JUndef then []
      else if \<not> is_plain_object p then [(''permissions'', ''object_required'')]
      else summary_violations (js_get p ''summary'')
         @ (case js_get p ''denials'' of
              JArr ds \<Rightarrow> concat (map (\<lambda>(i, d). denial_violations i d) (enumerate 0 ds))
            | _ \<Rightarrow> [(''permissions.denials'', ''array_required'')]))"

definition validateTurnEvidenceRecord :: "(string \<Rightarrow> int option) \<Rightarrow> jsval \<Rightarrow> violation list" where
  "validateTurnEvidenceRecord dparse v =
     (if \<not> is_plain_object v then [([], ''not_an_object'')]
      else identity_violations v
         @ budget_violations (js_get v ''budget'')
         @ terminal_violations (js_get v ''terminal'')
         @ time_violations dparse (js_get v ''timeBounds'')
         @ check_that (js_get v ''escalationRef'' = JUndef \<or> is_string (js_get v ''escalationRef''))
             ''escalationRef'' ''string_required''
         @ (if js_get v ''approvalRef'' = JUndef then [] else approval_violations ''approvalRef'' (js_get v ''approvalRef''))
         @ approvals_violations (js_get v ''approvalRefs'')
         @ permission_violations (js_get v ''permissions''))"

section \<open>The sink and the content audit\<close>

definition sink_write :: "turn_evidence \<Rightarrow> turn_evidence list \<Rightarrow> turn_evidence list" where
  "sink_write record stored = stored @ [record]"

definition evidenceRecordContainsForbiddenMaterial :: "string \<Rightarrow> string list \<Rightarrow> bool" where
  "evidenceRecordContainsForbiddenMaterial serialized probes =
     list_ex (\<lambda>p. length p > 0 \<and> has_substring serialized p) probes"


section \<open>Well-formed records\<close>

text \<open>The typing judgement the check decides on the executor's records.\<close>

definition usage_natural :: "budget_usage \<Rightarrow> bool" where
  "usage_natural u \<longleftrightarrow> 0 \<le> task_used_tokens u \<and> 0 \<le> task_used_iterations u \<and>
     0 \<le> day_used_tokens u \<and> 0 \<le> day_used_iterations u"

definition ref_ok :: "approval_ref \<Rightarrow> bool" where
  "ref_ok a \<longleftrightarrow> ar_id a \<noteq> []"

definition refs_ok :: "approval_ref list \<Rightarrow> bool" where
  "refs_ok rs \<longleftrightarrow> list_all ref_ok rs \<and> 2 \<le> length rs \<and> length rs \<le> 32"

definition limits_ok :: "turn_evidence \<Rightarrow> bool" where
  "limits_ok e \<longleftrightarrow> 0 \<le> tv_tokens e \<and>
     (case js_int (tv_max_iterations e) of None \<Rightarrow> False | Some m \<Rightarrow> int (tv_iterations e) \<le> m) \<and>
     (tv_max_tokens e = JUndef \<or> isNonNegativeInt (tv_max_tokens e)) \<and>
     (case tv_position_usage e of None \<Rightarrow> True | Some u \<Rightarrow> usage_natural u)"

definition wf_evidence :: "turn_evidence \<Rightarrow> bool" where
  "wf_evidence e \<longleftrightarrow> tv_workspace e \<noteq> [] \<and> tv_position e \<noteq> [] \<and> tv_turn e \<noteq> [] \<and>
     HEX_64 (tv_input_digest e) \<and> HEX_64 (tv_output_digest e) \<and> HEX_64 (tv_assembly_digest e) \<and>
     limits_ok e \<and> (case tv_code e of None \<Rightarrow> tv_completed e | Some c \<Rightarrow> ENGINE_ERROR_CODE_PATTERN c) \<and>
     (case tv_approval e of None \<Rightarrow> True | Some a \<Rightarrow> ref_ok a) \<and>
     (case tv_approvals e of None \<Rightarrow> True | Some rs \<Rightarrow> refs_ok rs)"

lemma check_that_nil [simp]: "check_that ok f c = [] \<longleftrightarrow> ok"
  by (simp add: check_that_def)

lemma fields_of_nil: "fields_of f v ks = [] \<longleftrightarrow> list_all (\<lambda>k. f k (js_get v k) = []) ks"
  by (simp add: fields_of_def list_all_iff)

lemma unknown_fields_nil: "unknown_fields p ks v = [] \<longleftrightarrow> list_all (\<lambda>k. k \<in> set ks) (js_keys v)"
  by (simp add: unknown_fields_def list_all_iff)

lemma map_of_opt_key [simp]: "map_of (opt_key k v) j = (if j = k then v else None)"
  by (simp add: opt_key_def split: option.split)

lemma keys_opt_key: "list_all P (map fst (opt_key k v)) \<longleftrightarrow> (v \<noteq> None \<longrightarrow> P k)"
  by (simp add: opt_key_def split: option.split)

lemma js_get_cons:
  "js_get (JObj ((k, x) # kvs)) j = (if j = k then x else js_get (JObj kvs) j)"
  by simp

lemma js_get_opt_key:
  "js_get (JObj (opt_key k v @ kvs)) j =
     (if j = k \<and> v \<noteq> None then the v else js_get (JObj kvs) j)"
  by (auto simp: opt_key_def split: option.split)

lemma isNonNegativeInt_JInt [simp]: "isNonNegativeInt (JInt n) \<longleftrightarrow> 0 \<le> n"
  by (simp add: isNonNegativeInt_def)

lemma isNonNegativeInt_of_nat [simp]: "isNonNegativeInt (JNum (of_nat n))"
  using isNonNegativeInt_JInt [of "int n"] by simp

lemma js_int_of_nat [simp]: "js_int (JNum (of_nat n)) = Some (int n)"
  using js_int_of_int [of "int n"] by simp

lemma string_values [simp]:
  "is_string (JStr s)" "non_empty_string (JStr s) \<longleftrightarrow> s \<noteq> []"
  "string_in xs (JStr s) \<longleftrightarrow> s \<in> set xs" "string_matching p (JStr s) \<longleftrightarrow> p s"
  by (simp_all add: is_string_def non_empty_string_def string_in_def string_matching_def)

lemma reason_known: "reason_string r \<in> set TERMINAL_REASONS"
  by (cases r) (simp_all add: TERMINAL_REASONS_def)

lemma outcome_known: "outcome_string a \<in> set APPROVAL_OUTCOMES"
  by (cases a) (simp_all add: APPROVAL_OUTCOMES_def)

lemma approval_conforms: "ref_ok a \<Longrightarrow> approval_violations f (approval_value a) = []"
  by (cases "ar_preview a")
     (simp_all add: approval_violations_def approval_value_def opt_key_def ref_ok_def outcome_known)

lemma approvals_conform: "refs_ok rs \<Longrightarrow> approvals_violations (JArr (map approval_value rs)) = []"
  by (auto simp: approvals_violations_def refs_ok_def list_all_iff in_set_enumerate_eq intro!: approval_conforms)

lemma denial_conforms: "denial_violations i (denial_value d) = []"
  by (cases "da_code d") (simp_all add: denial_violations_def denial_value_def fields_of_nil)

lemma permissions_conform: "permission_violations (permissions_value p) = []"
  by (auto simp: permission_violations_def permissions_value_def summary_violations_def summary_value_def
      strings_only_def list_all_iff in_set_enumerate_eq denial_conforms)

lemma budget_conforms:
  assumes "limits_ok e"
  shows "budget_violations (budget_value e) = []"
proof -
  obtain m where m: "js_int (tv_max_iterations e) = Some m" "int (tv_iterations e) \<le> m"
    using assms by (auto simp: limits_ok_def split: option.splits)
  then have nn: "isNonNegativeInt (tv_max_iterations e)" by (simp add: isNonNegativeInt_def)
  show ?thesis
    using assms m nn
    by (cases "tv_position_usage e")
       (auto simp: budget_violations_def budget_value_def turn_budget_violations_def
         position_budget_violations_def unknown_fields_nil fields_of_nil opt_key_def usage_value_def
         limits_ok_def usage_natural_def)
qed

lemma terminal_conforms:
  "(case tv_code e of None \<Rightarrow> tv_completed e | Some c \<Rightarrow> ENGINE_ERROR_CODE_PATTERN c) \<Longrightarrow>
   terminal_violations (terminal_value e) = []"
  by (auto simp: terminal_violations_def terminal_value_def unknown_fields_nil opt_key_def reason_known
      split: option.splits)

lemma evidence_fields:
  fixes i a b :: string and e :: turn_evidence
  defines "v \<equiv> evidence_value i a b e"
  shows "js_get v ''schemaVersion'' = JStr TURN_EVIDENCE_VERSION" "js_get v ''evidenceId'' = JStr i"
    "js_get v ''workspaceRef'' = JStr (tv_workspace e)" "js_get v ''positionId'' = JStr (tv_position e)"
    "js_get v ''turnId'' = JStr (tv_turn e)" "js_get v ''runId'' = JStr (tv_run e)"
    "js_get v ''engineVersion'' = JStr ENGINE_VERSION" "js_get v ''inputDigest'' = JStr (tv_input_digest e)"
    "js_get v ''outputDigest'' = JStr (tv_output_digest e)" "js_get v ''budget'' = budget_value e"
    "js_get v ''terminal'' = terminal_value e"
    "js_get v ''assemblyManifestDigest'' = JStr (tv_assembly_digest e)"
    "js_get v ''timeBounds'' = JObj [(''startedAt'', JStr a), (''completedAt'', JStr b)]"
    "js_get v ''escalationRef'' = (case tv_escalation e of None \<Rightarrow> JUndef | Some x \<Rightarrow> JStr x)"
    "js_get v ''approvalRef'' = (case tv_approval e of None \<Rightarrow> JUndef | Some x \<Rightarrow> approval_value x)"
    "js_get v ''approvalRefs'' = (case tv_approvals e of None \<Rightarrow> JUndef | Some rs \<Rightarrow> JArr (map approval_value rs))"
    "js_get v ''permissions'' = (case tv_permissions e of None \<Rightarrow> JUndef | Some p \<Rightarrow> permissions_value p)"
  unfolding v_def evidence_value_def
  by (simp_all add: map_add_def split: option.split)

lemma evidence_keys_known:
  "list_all (\<lambda>k. k \<in> set ALLOWED_TOP_LEVEL_KEYS) (js_keys (evidence_value i a b e))"
  by (simp add: evidence_value_def keys_opt_key ALLOWED_TOP_LEVEL_KEYS_def)

lemma evidence_is_object: "is_plain_object (evidence_value i a b e)"
  by (simp add: evidence_value_def)

lemma time_conforms:
  assumes "ISO_8601 startedAt" "ISO_8601 completedAt"
    and "dparse startedAt = Some a" "dparse completedAt = Some b" "a \<le> b"
  shows "time_violations dparse (JObj [(''startedAt'', JStr startedAt), (''completedAt'', JStr completedAt)]) = []"
  using assms by (simp add: time_violations_def unknown_fields_nil fields_of_nil instant_of_def)

lemma evidence_conforms:
  assumes "wf_evidence e" "evidenceId \<noteq> []"
    and "ISO_8601 startedAt" "ISO_8601 completedAt"
    and "dparse startedAt = Some a" "dparse completedAt = Some b" "a \<le> b"
  shows "validateTurnEvidenceRecord dparse (evidence_value evidenceId startedAt completedAt e) = []"
proof -
  have "identity_violations (evidence_value evidenceId startedAt completedAt e) = []"
    using assms(1,2)
    by (simp add: identity_violations_def unknown_fields_nil evidence_keys_known fields_of_nil
        evidence_fields wf_evidence_def ENGINE_VERSION_def)
  moreover have "budget_violations (budget_value e) = []"
    using assms(1) by (simp add: wf_evidence_def budget_conforms)
  moreover have "terminal_violations (terminal_value e) = []"
    using assms(1) by (simp add: wf_evidence_def terminal_conforms)
  moreover have "time_violations dparse (js_get (evidence_value evidenceId startedAt completedAt e) ''timeBounds'') = []"
    unfolding evidence_fields by (rule time_conforms [OF assms(3-7)])
  moreover have "js_get (evidence_value evidenceId startedAt completedAt e) ''escalationRef'' = JUndef \<or>
      is_string (js_get (evidence_value evidenceId startedAt completedAt e) ''escalationRef'')"
    unfolding evidence_fields by (cases "tv_escalation e") simp_all
  moreover have "js_get (evidence_value evidenceId startedAt completedAt e) ''approvalRef'' = JUndef \<or>
      approval_violations ''approvalRef'' (js_get (evidence_value evidenceId startedAt completedAt e) ''approvalRef'') = []"
    using assms(1) unfolding evidence_fields wf_evidence_def
    by (cases "tv_approval e") (simp_all add: approval_conforms)
  moreover have "approvals_violations (js_get (evidence_value evidenceId startedAt completedAt e) ''approvalRefs'') = []"
  proof (cases "tv_approvals e")
    case None
    then show ?thesis unfolding evidence_fields by (simp add: approvals_violations_def)
  next
    case (Some rs)
    with assms(1) show ?thesis unfolding evidence_fields wf_evidence_def by (simp add: approvals_conform)
  qed
  moreover have "permission_violations (js_get (evidence_value evidenceId startedAt completedAt e) ''permissions'') = []"
  proof (cases "tv_permissions e")
    case None
    then show ?thesis unfolding evidence_fields by (simp add: permission_violations_def)
  next
    case (Some p)
    then show ?thesis unfolding evidence_fields by (simp add: permissions_conform)
  qed
  ultimately show ?thesis
    unfolding validateTurnEvidenceRecord_def evidence_fields(10,11)
    by (simp add: evidence_is_object del: js_get.simps) blast
qed

section \<open>The executor writes well-formed records only\<close>

text \<open>What is asked of the surroundings: SHA-256 digests are 64 hexadecimal digits, identifiers are
  not empty, and the model and the ledger report no negative usage.\<close>

definition sound_env :: "turn_env \<Rightarrow> bool" where
  "sound_env env \<longleftrightarrow> (\<forall>x. HEX_64 (env_sha env x)) \<and> (\<forall>b. HEX_64 (env_assembly_digest env b)) \<and>
     (\<forall>k. env_new_id env k \<noteq> []) \<and>
     (\<forall>k. case env_model env k of Inl _ \<Rightarrow> True | Inr m \<Rightarrow> 0 \<le> call_tokens m) \<and>
     (\<forall>k. case env_ledger env of None \<Rightarrow> True | Some l \<Rightarrow>
        (case lp_read l k of None \<Rightarrow> True | Some u \<Rightarrow> usage_natural u))"

definition sound_request :: "turn_env \<Rightarrow> turn_request \<Rightarrow> bool" where
  "sound_request env r \<longleftrightarrow> validateTurnRequest (env_dparse env) r = Inr r"

fun effect_ok :: "turn_effect \<Rightarrow> bool" where
  "effect_ok (Evidence_write e _) = wf_evidence e"
| "effect_ok _ = True"

definition tidy :: "turn_state \<Rightarrow> bool" where
  "tidy s \<longleftrightarrow> list_all effect_ok (st_trace s) \<and> 0 \<le> st_tokens s \<and> usage_natural (st_usage s) \<and>
     (case st_approval s of None \<Rightarrow> True | Some a \<Rightarrow> ref_ok a) \<and>
     (case st_approvals s of None \<Rightarrow> True | Some rs \<Rightarrow> refs_ok rs)"

text \<open>Nothing has been consumed yet.\<close>

definition fresh :: "turn_state \<Rightarrow> bool" where
  "fresh s \<longleftrightarrow> tidy s \<and> st_iterations s = 0"

text \<open>A state from which a record may be written after \<open>n\<close> model calls.\<close>

definition ready :: "nat \<Rightarrow> turn_state \<Rightarrow> bool" where
  "ready n s \<longleftrightarrow> tidy s \<and> HEX_64 (st_digest s) \<and> st_iterations s \<le> n"

definition leaves :: "(turn_state \<Rightarrow> bool) \<Rightarrow> outcome \<Rightarrow> bool" where
  "leaves Q out \<longleftrightarrow> (case out of Halt s _ \<Rightarrow> list_all effect_ok (st_trace s) | Go s \<Rightarrow> Q s)"

lemma leaves_on_go: "leaves Q out \<Longrightarrow> (\<And>s. Q s \<Longrightarrow> leaves R (f s)) \<Longrightarrow> leaves R (on_go out f)"
  by (cases out) (simp_all add: leaves_def on_go_def)

lemma leaves_simps [simp]:
  "leaves Q (Go s) = Q s" "leaves Q (Halt s x) = list_all effect_ok (st_trace s)"
  by (simp_all add: leaves_def)

lemma tidy_trace: "tidy s \<Longrightarrow> list_all effect_ok (st_trace s)"
  by (simp add: tidy_def)

lemma log_fields [simp]:
  "st_approval (log_effect x s) = st_approval s" "st_approvals (log_effect x s) = st_approvals s"
  "st_digest (log_effect x s) = st_digest s" "st_gate (log_effect x s) = st_gate s"
  by (simp_all add: log_effect_def)

lemma tidy_log: "tidy s \<Longrightarrow> effect_ok x \<Longrightarrow> tidy (log_effect x s)"
  by (simp add: tidy_def)

lemma ready_log: "ready n s \<Longrightarrow> effect_ok x \<Longrightarrow> ready n (log_effect x s)"
  by (simp add: ready_def tidy_log)

lemma fresh_log: "fresh s \<Longrightarrow> effect_ok x \<Longrightarrow> fresh (log_effect x s)"
  by (simp add: fresh_def tidy_log)

lemma emit_keeps: "tidy s \<Longrightarrow> tidy (emit e s)" "ready n s \<Longrightarrow> ready n (emit e s)" "fresh s \<Longrightarrow> fresh (emit e s)"
  by (simp_all add: emit_def tidy_log ready_log fresh_log)

lemma fold_emit_ready: "ready n s \<Longrightarrow> ready n (fold emit es s)"
  by (induction es arbitrary: s) (auto intro: emit_keeps)

lemma ready_mono: "ready m s \<Longrightarrow> m \<le> n \<Longrightarrow> ready n s"
  by (auto simp: ready_def)

lemma leaves_halt_failed: "tidy s \<Longrightarrow> leaves Q (halt_failed c m r b s)"
  by (simp add: halt_failed_def fail_turn_def emit_keeps tidy_trace)

lemma trace_fail: "tidy s \<Longrightarrow> list_all effect_ok (st_trace (fail_turn c m r b s))"
  by (simp add: fail_turn_def emit_keeps tidy_trace)

section \<open>One write\<close>

lemma iteration_bound:
  assumes "validateTurnRequest (env_dparse env) r = Inr r"
  obtains m where "js_int (tb_max_iterations (tr_budget r)) = Some m" "max_iterations r = nat m" "1 \<le> m"
proof -
  have "positive_integer (tb_max_iterations (tr_budget r))"
    using assms by (simp add: validateTurnRequest_def accepts)
  then show thesis
    using that by (auto simp: positive_integer_def max_iterations_def split: option.splits)
qed

lemma request_ids:
  assumes "validateTurnRequest d r = Inr r"
  shows "tr_workspace r \<noteq> [] \<and> tr_position r \<noteq> [] \<and> tr_turn r \<noteq> [] \<and> tr_run r \<noteq> []"
  using assms by (auto simp: validateTurnRequest_def accepts assertBoundedId_def js_trim_def)

lemma request_tokens:
  assumes "validateTurnRequest d r = Inr r"
  shows "tb_max_tokens (tr_budget r) = JUndef \<or> isNonNegativeInt (tb_max_tokens (tr_budget r))"
  using assms
  by (auto simp: validateTurnRequest_def accepts positive_integer_def isNonNegativeInt_def split: option.splits)

lemma written_record_ok:
  assumes "sound_env env" "sound_request env r" "ready n s" "n \<le> max_iterations r"
    and "case code of None \<Rightarrow> completed | Some c \<Rightarrow> ENGINE_ERROR_CODE_PATTERN c"
  shows "wf_evidence (evidence_record env r completed reason code v ref s)"
proof -
  have valid: "validateTurnRequest (env_dparse env) r = Inr r"
    using assms(2) by (simp add: sound_request_def)
  obtain m where m: "js_int (tb_max_iterations (tr_budget r)) = Some m" "max_iterations r = nat m" "1 \<le> m"
    by (rule iteration_bound [OF valid])
  have t: "tidy s" and d: "HEX_64 (st_digest s)" and i: "st_iterations s \<le> n"
    using assms(3) by (simp_all add: ready_def)
  have l: "limits_ok (evidence_record env r completed reason code v ref s)"
    using t i m assms(4) request_tokens [OF valid]
    by (auto simp: limits_ok_def evidence_record_def tidy_def)
  have h: "HEX_64 (digestOutputValue env v)"
    using assms(1) by (simp add: sound_env_def digestOutputValue_def)
  show ?thesis
    using request_ids [OF valid] t d l h assms(5)
    by (cases code) (simp_all add: wf_evidence_def evidence_record_def tidy_def)
qed

lemma write_ready:
  assumes "sound_env env" "sound_request env r" "ready n s" "n \<le> max_iterations r"
    and "case code of None \<Rightarrow> completed | Some c \<Rightarrow> ENGINE_ERROR_CODE_PATTERN c"
  shows "ready n (snd (writeEvidence env r completed reason code v ref s))"
  using assms(3) written_record_ok [OF assms]
  by (simp add: writeEvidence_def write_record_def Let_def ready_log split: option.split)

lemma escalation_ready: "ready n s \<Longrightarrow> ready n (snd (snd (writeEscalation env r cause snap s)))"
  by (simp add: writeEscalation_def Let_def ready_log split: option.split)

lemma fail_ready: "ready n s \<Longrightarrow> ready n (fail_turn c m rs b s)"
  by (simp add: fail_turn_def emit_keeps)

lemma stop_ready:
  assumes "sound_env env" "sound_request env r" "ready n s" "n \<le> max_iterations r"
    and "case ov of None \<Rightarrow> True | Some c \<Rightarrow> ENGINE_ERROR_CODE_PATTERN c"
  shows "ready n (stopWithEscalation env r reason message cause snap ov s)"
proof -
  obtain ok1 ref s1 where e: "writeEscalation env r cause snap s = (ok1, ref, s1)" by (metis prod.collapse)
  define code where "code = (case ov of None \<Rightarrow> REASON_TO_CODE reason | Some c \<Rightarrow> c)"
  obtain ok2 s2 where w: "writeEvidence env r False reason (Some code) JNull ref s1 = (ok2, s2)"
    by (metis prod.collapse)
  have r1: "ready n s1" using escalation_ready [OF assms(3), of env r cause snap] e by simp
  have "ENGINE_ERROR_CODE_PATTERN code"
    using assms(5) by (auto simp: code_def reason_code_well_formed split: option.splits)
  then have r2: "ready n s2"
    using write_ready [OF assms(1,2) r1 assms(4), where code = "Some code" and completed = False and reason = reason and v = JNull and ref = ref] w by simp
  show ?thesis
    using r1 r2 e w by (simp add: stopWithEscalation_def Let_def fail_ready flip: code_def)
qed

section \<open>The stages\<close>

lemma fresh_start: "fresh start_state"
  by (simp add: fresh_def tidy_def start_state_def usage_natural_def emptyBudgetUsage_def)

lemma denial_record_ok:
  assumes "sound_env env" "sound_request env r"
  shows "wf_evidence (denial_record env perms r dc g)"
proof -
  have valid: "validateTurnRequest (env_dparse env) r = Inr r"
    using assms(2) by (simp add: sound_request_def)
  obtain m where m: "js_int (tb_max_iterations (tr_budget r)) = Some m" "1 \<le> m"
    by (rule iteration_bound [OF valid])
  then have "or_zero (tb_max_iterations (tr_budget r)) = tb_max_iterations (tr_budget r)"
    by (auto simp: or_zero_def)
  then show ?thesis
    using m request_ids [OF valid] request_tokens [OF valid] assms(1)
    by (simp add: wf_evidence_def denial_record_def limits_ok_def sound_env_def digestOutputValue_def
        denial_code_well_formed Let_def)
qed

lemma fresh_gate: "fresh s \<Longrightarrow> fresh (s\<lparr>st_gate := g\<rparr>)"
  by (simp add: fresh_def tidy_def)

lemma permission_leaves:
  assumes "sound_env env" "sound_request env r" "fresh s"
  shows "leaves fresh (permission_stage env r s)"
proof (cases "tr_permissions r = JUndef")
  case True
  then show ?thesis using assms(3) by (simp add: permission_stage_def)
next
  case False
  show ?thesis
  proof (cases "validateOrganizationPermissionsArtifact (tr_permissions r)")
    case (Inl e)
    then show ?thesis
      using False assms(3) by (simp add: permission_stage_def leaves_halt_failed fresh_def)
  next
    case (Inr perms)
    obtain d g where p: "precheck perms r = (d, g)" by (metis prod.collapse)
    show ?thesis
    proof (cases d)
      case None
      then show ?thesis using False Inr p assms(3) by (simp add: permission_stage_def fresh_gate)
    next
      case (Some cm)
      obtain dc message where cm: "cm = (dc, message)" by (cases cm)
      obtain ok s' where w: "write_record env (denial_record env perms r dc g) (s\<lparr>st_gate := Some g\<rparr>) = (ok, s')"
        by (metis prod.collapse)
      have "fresh (snd (write_record env (denial_record env perms r dc g) (s\<lparr>st_gate := Some g\<rparr>)))"
        using fresh_gate [OF assms(3)] denial_record_ok [OF assms(1,2)]
        by (simp add: write_record_def Let_def fresh_log split: option.split)
      then have "tidy s'" using w by (simp add: fresh_def)
      then show ?thesis
        using False Inr p Some cm w by (simp add: permission_stage_def leaves_halt_failed)
    qed
  qed
qed

lemma validation_leaves: "fresh s \<Longrightarrow> leaves fresh (validation_stage env r s)"
  using emit_keeps(3) [of s Run_started]
  by (auto simp: validation_stage_def Let_def leaves_halt_failed fresh_def split: sum.split)

lemma schema_leaves: "fresh s \<Longrightarrow> leaves fresh (schema_stage env r s)"
  by (auto simp: schema_stage_def leaves_halt_failed fresh_def tidy_def split: sum.split)

lemma fresh_updates:
  "fresh s \<Longrightarrow> fresh (s\<lparr>st_recall_lines := l, st_memory := m\<rparr>)"
  "fresh s \<Longrightarrow> fresh (s\<lparr>st_memory := m\<rparr>)"
  "fresh s \<Longrightarrow> fresh (s\<lparr>st_context_lines := l, st_context := c\<rparr>)"
  "fresh s \<Longrightarrow> fresh (s\<lparr>st_context := c\<rparr>)"
  by (simp_all add: fresh_def tidy_def)

lemma memory_leaves: "fresh s \<Longrightarrow> leaves fresh (memory_stage env r s)"
proof -
  assume f: "fresh s"
  define s1 where "s1 = (if derivePositionPrincipal (tr_position r) = None then s else log_effect Memory_call s)"
  have f1: "fresh s1" using f by (simp add: s1_def fresh_log)
  then have "tidy s" "tidy s1" using f by (simp_all add: fresh_def)
  then show ?thesis
    unfolding memory_stage_def Let_def s1_def [symmetric]
    using f f1 by (auto simp: leaves_halt_failed fresh_updates split: option.split port_result.split)
qed

lemma context_leaves: "fresh s \<Longrightarrow> leaves fresh (context_stage env r s)"
proof -
  assume f: "fresh s"
  then have f1: "fresh (log_effect Context_call s)" by (simp add: fresh_log)
  then have "tidy s" "tidy (log_effect Context_call s)" using f by (simp_all add: fresh_def)
  then show ?thesis
    unfolding context_stage_def Let_def
    using f f1
    by (auto simp: leaves_halt_failed fresh_updates split: option.split port_result.split prod.split)
qed

lemma assemble_leaves:
  assumes "sound_env env" "fresh s"
  shows "leaves (ready 0) (assemble_stage env r s)"
  using assms
  by (auto simp: assemble_stage_def assembleContext_def Let_def ready_def fresh_def tidy_def sound_env_def
      split: sum.split if_splits)

lemma detector_leaves: "ready 0 s \<Longrightarrow> leaves (ready 0) (detector_stage env s)"
  by (auto simp: detector_stage_def ready_def tidy_def split: sum.split)

lemma read_usage_ready:
  assumes "sound_env env" "ready n s"
  shows "ready n (snd (read_usage env s))"
proof (cases "env_ledger env")
  case None
  then show ?thesis using assms(2) by (simp add: read_usage_def)
next
  case (Some l)
  define u where "u = lp_read l (count_effects is_ledger_read s)"
  have u: "case u of None \<Rightarrow> True | Some x \<Rightarrow> usage_natural x"
    using assms(1) Some by (simp add: sound_env_def u_def)
  have "ready n (log_effect (Ledger_read u) s)" using assms(2) by (simp add: ready_log)
  then show ?thesis
    using Some u by (cases u) (simp_all add: read_usage_def Let_def ready_def tidy_def flip: u_def)
qed

lemma ledger_leaves:
  assumes "sound_env env" "ready 0 s"
  shows "leaves (ready 0) (ledger_stage env r s)"
  using assms(2) read_usage_ready [OF assms]
  by (auto simp: ledger_stage_def split_beta ready_def tidy_trace)

lemma ready_trace: "ready n s \<Longrightarrow> list_all effect_ok (st_trace s)"
  by (simp add: ready_def tidy_trace)

lemma context_cap_leaves:
  assumes "sound_env env" "sound_request env r" "ready 0 s"
  shows "leaves (ready 0) (context_cap_stage env r s)"
proof -
  have "ready 0 (stopWithEscalation env r Turn_budget_exceeded message cause snap (Some CONTEXT_BUDGET_EXCEEDED_CODE) s)"
    for message cause snap
    by (rule stop_ready [OF assms]) (simp_all add: literal_codes_well_formed)
  then show ?thesis
    using assms(3)
    by (auto simp: context_cap_stage_def Let_def dest: ready_trace split: option.split)
qed

text \<open>The approval gate: the references it records name validated or freshly made identifiers.\<close>

lemma pending_id: "validatePendingApproval d p l = Inr u \<Longrightarrow> pa_id p \<noteq> []"
  by (auto simp: validatePendingApproval_def accepts assertBoundedId_def js_trim_def)

lemma batch_ids: "validate_batch d n ids d0 ps = Inr u \<Longrightarrow> list_all (\<lambda>p. pa_id p \<noteq> []) ps"
  by (induction d n ids d0 ps arbitrary: u rule: validate_batch.induct)
     (auto simp: accepts dest: pending_id)

lemma approval_ids:
  assumes "sound_request env r"
  shows "tr_pending r = Some p \<Longrightarrow> pa_id p \<noteq> []"
    and "tr_pendings r = Some ps \<Longrightarrow> list_all (\<lambda>p. pa_id p \<noteq> []) ps \<and> 2 \<le> length ps \<and> length ps \<le> 32"
proof -
  obtain u where v: "validateApprovalRequestFields (env_dparse env) r = Inr u"
    using assms by (auto simp: sound_request_def validateTurnRequest_def accepts)
  show "tr_pending r = Some p \<Longrightarrow> pa_id p \<noteq> []"
    using v by (auto simp: validateApprovalRequestFields_def accepts dest: pending_id)
  show "tr_pendings r = Some ps \<Longrightarrow> list_all (\<lambda>p. pa_id p \<noteq> []) ps \<and> 2 \<le> length ps \<and> length ps \<le> 32"
    using v by (auto simp: validateApprovalRequestFields_def accepts dest: batch_ids)
qed

lemma refs_of_ok:
  "list_all (\<lambda>p. pa_id p \<noteq> []) ps \<and> 2 \<le> length ps \<and> length ps \<le> 32 \<Longrightarrow> refs_ok (refs_of out ps)"
  by (simp add: refs_ok_def refs_of_def list_all_iff ref_ok_def)

lemma ready_approval: "ready n s \<Longrightarrow> ref_ok a \<Longrightarrow> ready n (s\<lparr>st_approval := Some a\<rparr>)"
  and ready_approvals: "ready n s \<Longrightarrow> refs_ok rs \<Longrightarrow> ready n (s\<lparr>st_approvals := Some rs\<rparr>)"
  by (simp_all add: ready_def tidy_def)

lemma settle_leaves:
  assumes "sound_env env" "sound_request env r" "ready 0 s" "ENGINE_ERROR_CODE_PATTERN code"
  shows "leaves Q (settle env r reason code events message retryable s)"
proof -
  obtain ok s1 where w: "writeEvidence env r False reason (Some code) JNull None s = (ok, s1)"
    by (metis prod.collapse)
  have "ready 0 s1"
    using write_ready [OF assms(1-3) le0, where code = "Some code" and completed = False and reason = reason
        and v = JNull and ref = None] assms(4) w by simp
  then have "tidy s1" "tidy (fold emit events s1)"
    using fold_emit_ready [of 0 s1 events] by (simp_all add: ready_def)
  then show ?thesis
    using w by (simp add: settle_def approval_internal_def leaves_halt_failed)
qed

lemma preview_code: "previewGateAllows a = Some (code, m) \<Longrightarrow> ENGINE_ERROR_CODE_PATTERN code"
  by (auto simp: previewGateAllows_def literal_codes_well_formed split: if_splits)

lemma approval_leaves:
  assumes "sound_env env" "sound_request env r" "ready 0 s"
  shows "leaves (ready 0) (approval_stage env r s)"
proof -
  note se = settle_leaves [OF assms(1,2)]
  show ?thesis
  proof (cases "tr_pendings r")
    case (Some ps)
    have ok: "ready 0 (s\<lparr>st_approvals := Some (refs_of out ps)\<rparr>)" for out
      by (rule ready_approvals [OF assms(3) refs_of_ok [OF approval_ids(2) [OF assms(2) Some]]])
    show ?thesis
      using Some ok by (simp add: approval_stage_def batch_stage_def se literal_codes_well_formed fold_emit_ready)
  next
    case no_batch: None
    show ?thesis
    proof (cases "tr_pending r")
      case (Some p)
      have "ready 0 (s\<lparr>st_approval := Some \<lparr>ar_id = pa_id p, ar_preview = pv, ar_outcome = out\<rparr>\<rparr>)" for pv out
        using approval_ids(1) [OF assms(2) Some] by (simp add: ready_approval [OF assms(3)] ref_ok_def)
      then show ?thesis
        using no_batch Some
        by (simp add: approval_stage_def pending_stage_def se literal_codes_well_formed emit_keeps)
    next
      case no_pending: None
      show ?thesis
      proof (cases "tr_approval_action r")
        case None
        then show ?thesis using no_batch no_pending assms(3) by (simp add: approval_stage_def)
      next
        case (Some a)
        have "ready 0 (s\<lparr>st_approval := Some \<lparr>ar_id = env_new_id env k, ar_preview = pv, ar_outcome = out\<rparr>\<rparr>)" for k pv out
          using assms(1) by (simp add: ready_approval [OF assms(3)] ref_ok_def sound_env_def)
        then show ?thesis
          using no_batch no_pending Some assms(3)
          by (auto simp: approval_stage_def action_stage_def Let_def se literal_codes_well_formed
              dest: preview_code split: option.split)
      qed
    qed
  qed
qed

section \<open>The loop\<close>

definition attempt_ready :: "nat \<Rightarrow> attempt \<Rightarrow> bool" where
  "attempt_ready n a = (case a of Ended s \<Rightarrow> ready n s | Threw m s \<Rightarrow> ready n s | Again s \<Rightarrow> ready n s)"

lemma attempt_ready_simps [simp]:
  "attempt_ready n (Ended s) = ready n s" "attempt_ready n (Threw m s) = ready n s"
  "attempt_ready n (Again s) = ready n s"
  by (simp_all add: attempt_ready_def)

lemma attempt_mono: "attempt_ready m a \<Longrightarrow> m \<le> n \<Longrightarrow> attempt_ready n a"
  by (cases a) (auto intro: ready_mono)

lemma complete_ready:
  assumes "sound_env env" "sound_request env r" "ready n s" "n \<le> max_iterations r"
  shows "attempt_ready n (complete_turn env r v s)"
proof -
  obtain ok s1 where w: "writeEvidence env r True Goal_met None v None s = (ok, s1)" by (metis prod.collapse)
  have "ready n s1"
    using write_ready [OF assms, where code = None and completed = True and reason = Goal_met
        and v = v and ref = None] w by simp
  then show ?thesis using w by (simp add: complete_turn_def emit_keeps)
qed

lemma ready_violations: "ready n s \<Longrightarrow> ready n (s\<lparr>st_violations := vs\<rparr>)"
  and ready_detector: "ready n s \<Longrightarrow> ready n (s\<lparr>st_detector := d\<rparr>)"
  by (simp_all add: ready_def tidy_def)

lemma judge_ready:
  assumes "sound_env env" "sound_request env r" "ready n s" "n \<le> max_iterations r"
  shows "attempt_ready n (judge_output env r att t s)"
  by (auto simp: judge_output_def complete_ready [OF assms] ready_violations [OF assms(3)] split: option.split)

lemma stop_attempt_ready:
  assumes "sound_env env" "sound_request env r" "ready n s" "n \<le> max_iterations r"
  shows "attempt_ready n (stop_tokens env r m s)" "attempt_ready n (stop_position env r e s)"
  by (simp_all add: stop_tokens_def stop_position_def stop_ready [OF assms])

lemma after_commit_ready:
  assumes "sound_env env" "sound_request env r" "ready n s" "n \<le> max_iterations r"
  shows "attempt_ready n (after_commit env r att m s)"
proof (cases "over_tokens r s")
  case (Some l)
  then show ?thesis by (simp add: after_commit_def stop_attempt_ready [OF assms])
next
  case None
  obtain sg d where o: "observe (env_sha env) (st_detector (emit (Model_delta (mt_text m)) s)) (mt_text m) = (sg, d)"
    by (metis prod.collapse)
  have "ready n (emit (Model_delta (mt_text m)) s\<lparr>st_detector := d\<rparr>)"
    by (rule ready_detector [OF emit_keeps(2) [OF assms(3)]])
  then show ?thesis
    using None o stop_ready [OF assms(1,2) _ assms(4)] judge_ready [OF assms(1,2) _ assms(4)]
    by (simp add: after_commit_def Let_def)
qed

lemma commit_ready:
  assumes "sound_env env" "sound_request env r" "ready n s" "n \<le> max_iterations r"
  shows "attempt_ready n (commit_usage env r att m s)"
proof (cases "use_position_budget env r")
  case False
  then show ?thesis by (simp add: commit_usage_def after_commit_ready [OF assms])
next
  case use: True
  show ?thesis
  proof (cases "env_ledger env")
    case None
    then show ?thesis by (simp add: commit_usage_def after_commit_ready [OF assms])
  next
    case (Some l)
    define s1 where "s1 = log_effect (Ledger_commit \<lparr>le_position = tr_position r, le_task = the (tr_task r),
      le_day = the (tr_day r), le_tokens = call_tokens m, le_iterations = 1\<rparr>) s"
    have r1: "ready n s1" using assms(3) by (simp add: s1_def ready_log)
    obtain ok s2 where u: "read_usage env s1 = (ok, s2)" by (metis prod.collapse)
    have r2: "ready n s2" using read_usage_ready [OF assms(1) r1] u by simp
    show ?thesis
      using use Some r1 r2 u after_commit_ready [OF assms(1,2) r2 assms(4)]
        stop_attempt_ready(2) [OF assms(1,2) r2 assms(4)]
      by (simp add: commit_usage_def Let_def flip: s1_def split: option.split)
  qed
qed

lemma consume_ready:
  assumes "sound_env env" "sound_request env r" "ready n s" "Suc n \<le> max_iterations r"
  shows "attempt_ready (Suc n) (consume env r att s)"
proof -
  define s1 where "s1 = log_effect (Model_call (st_blocks s) (st_violations s)) s"
  have r1: "ready n s1" using assms(3) by (simp add: s1_def ready_log)
  show ?thesis
  proof (cases "env_model env (count_effects is_model_call s)")
    case (Inl e)
    then show ?thesis using ready_mono [OF r1, of "Suc n"] by (simp add: consume_def Let_def flip: s1_def)
  next
    case (Inr m)
    define s2 where "s2 = s1\<lparr>st_iterations := st_iterations s1 + 1, st_tokens := st_tokens s1 + call_tokens m\<rparr>"
    define s3 where "s3 = (if mt_input_tokens m \<noteq> None \<or> mt_output_tokens m \<noteq> None
      then emit (Usage (mt_input_tokens m) (mt_output_tokens m)) s2 else s2)"
    have "0 \<le> call_tokens m"
      using assms(1) Inr unfolding sound_env_def by (metis (no_types, lifting) sum.simps(6))
    then have "ready (Suc n) s2" using r1 by (simp add: ready_def tidy_def s2_def)
    then have "ready (Suc n) s3" by (simp add: s3_def emit_keeps)
    moreover have "consume env r att s = commit_usage env r att m s3"
      using Inr by (simp add: consume_def Let_def s1_def s2_def s3_def)
    ultimately show ?thesis using commit_ready [OF assms(1,2) _ assms(4)] by simp
  qed
qed

lemma run_attempt_ready:
  assumes "sound_env env" "sound_request env r" "ready n s" "Suc n \<le> max_iterations r"
  shows "attempt_ready (Suc n) (run_attempt env r att s)"
proof -
  have n: "n \<le> max_iterations r" using assms(4) by simp
  have w: "ready n (snd (writeEvidence env r False Cancelled (Some (REASON_TO_CODE Cancelled)) JNull None s))"
    by (rule write_ready [OF assms(1,2,3) n]) (simp add: reason_code_well_formed del: REASON_TO_CODE.simps)
  have d: "ready n (stopWithEscalation env r Deadline_exceeded t c sn None s)" for t c sn
    by (rule stop_ready [OF assms(1,2,3) n]) simp
  have st: "attempt_ready (Suc n) (stop_tokens env r m s)" for m
    by (rule attempt_mono [OF stop_attempt_ready(1) [OF assms(1,2,3) n]]) simp
  have sp: "attempt_ready (Suc n) (stop_position env r e s)" for e
    by (rule attempt_mono [OF stop_attempt_ready(2) [OF assms(1,2,3) n]]) simp
  show ?thesis
    unfolding run_attempt_def
    using ready_mono [OF fail_ready [OF w]] ready_mono [OF d] st sp consume_ready [OF assms]
    by (simp split: option.split)
qed

lemma run_attempts_ready:
  "sound_env env \<Longrightarrow> sound_request env r \<Longrightarrow> ready n s \<Longrightarrow> n + k \<le> max_iterations r \<Longrightarrow>
   attempt_ready (n + k) (run_attempts env r k att s)"
proof (induction k arbitrary: n att s)
  case 0
  then show ?case by simp
next
  case (Suc k)
  have a: "attempt_ready (Suc n) (run_attempt env r att s)"
    by (rule run_attempt_ready [OF Suc.prems(1-3)]) (use Suc.prems(4) in simp)
  show ?case
  proof (cases "run_attempt env r att s")
    case (Again s')
    then show ?thesis using a Suc.IH [OF Suc.prems(1,2), of "Suc n" s' "Suc att"] Suc.prems(4) by simp
  qed (use a attempt_mono [OF a, of "n + Suc k"] in simp_all)
qed

lemma loop_leaves:
  assumes "sound_env env" "sound_request env r" "ready 0 s"
  shows "leaves Q (loop_stage env r s)"
proof -
  define n where "n = max_iterations r"
  have a: "attempt_ready n (run_attempts env r n 1 s)"
    using run_attempts_ready [OF assms, of n 1] by (simp add: n_def)
  have ex: "attempt_ready n (exhausted env r s')" if "ready n s'" for s'
  proof -
    obtain ok s1 where w: "writeEvidence env r False Invalid_output_exhausted
        (Some (REASON_TO_CODE Invalid_output_exhausted)) JNull None s' = (ok, s1)" by (metis prod.collapse)
    have "ready n (snd (writeEvidence env r False Invalid_output_exhausted
        (Some (REASON_TO_CODE Invalid_output_exhausted)) JNull None s'))"
      by (rule write_ready [OF assms(1,2) that])
         (simp_all add: n_def reason_code_well_formed del: REASON_TO_CODE.simps)
    moreover have "ready n (stopWithEscalation env r Iteration_cap t c sn None s')" for t c sn
      by (rule stop_ready [OF assms(1,2) that]) (simp_all add: n_def)
    ultimately show ?thesis
      using w by (simp add: exhausted_def fail_ready del: REASON_TO_CODE.simps)
  qed
  have b: "attempt_ready n (case run_attempts env r n 1 s of Again s' \<Rightarrow> exhausted env r s' | other \<Rightarrow> other)"
    using a ex by (auto split: attempt.split)
  have c: "list_all effect_ok (st_trace (catch_stage env r m s'))" if "ready n s'" for m s'
  proof -
    have "ready n (snd (writeEvidence env r False Engine_internal_error
        (Some (REASON_TO_CODE Engine_internal_error)) JNull None s'))"
      by (rule write_ready [OF assms(1,2) that])
         (simp_all add: n_def reason_code_well_formed del: REASON_TO_CODE.simps)
    then show ?thesis
      by (simp add: catch_stage_def ready_def trace_fail del: REASON_TO_CODE.simps)
  qed
  show ?thesis
    unfolding loop_stage_def n_def [symmetric]
    using b c by (auto dest: ready_trace split: attempt.split)
qed

lemma turn_leaves:
  assumes "sound_env env" "sound_request env r"
  shows "leaves (\<lambda>_. False) (turn_stages env r)"
  unfolding turn_stages_def
  by (intro leaves_on_go [OF permission_leaves [OF assms fresh_start]] leaves_on_go [OF validation_leaves]
      leaves_on_go [OF schema_leaves] leaves_on_go [OF memory_leaves] leaves_on_go [OF context_leaves]
      leaves_on_go [OF assemble_leaves] leaves_on_go [OF detector_leaves] leaves_on_go [OF ledger_leaves]
      leaves_on_go [OF context_cap_leaves] leaves_on_go [OF approval_leaves] loop_leaves assms)

lemma executor_effects_ok:
  assumes "sound_env env" "sound_request env r"
  shows "list_all effect_ok (fst (executeTurn env r))"
  using turn_leaves [OF assms] by (simp add: executeTurn_def leaves_def split: outcome.splits)

section \<open>A sample turn\<close>

definition evidence_env :: turn_env where
  "evidence_env = sample_env\<lparr>env_sha := (\<lambda>_. replicate 64 (CHR ''a'')),
     env_assembly_digest := (\<lambda>_. replicate 64 (CHR ''b'')), env_aborted := (\<lambda>_. True)\<rparr>"

lemma evidence_env_sound: "sound_env evidence_env" "sound_request evidence_env sample_request"
  using sample_run(1)
  by (simp_all add: sound_env_def sound_request_def evidence_env_def sample_env_def sample_ledger_def
      usage_natural_def call_tokens_def HEX_64_def is_hex_def is_digit_def list_all_iff)

lemma evidence_env_fields:
  "env_evidence_sink evidence_env = Some (\<lambda>_. True)" "env_ledger evidence_env = Some sample_ledger"
  "env_doom evidence_env = DEFAULT_DOOM_LOOP_CONFIG" "env_memory evidence_env = None"
  "env_context evidence_env = None" "env_aborted evidence_env k = True"
  "env_stringify evidence_env v = Some ''{}''"
  "env_compile evidence_env x = Some \<lparr>cs_async = False, cs_validate = is_plain_object\<rparr>"
  by (simp_all add: evidence_env_def sample_env_def)

lemma evidence_env_writes:
  "\<exists>e. Evidence_write e True \<in> set (fst (executeTurn evidence_env sample_request))"
proof -
  have u: "use_position_budget evidence_env sample_request"
    using sample_run(3) by (simp add: use_position_budget_def evidence_env_def)
  have v: "validateTurnRequest (env_dparse evidence_env) sample_request = Inr sample_request"
    using sample_run(1) by (simp add: evidence_env_def)
  show ?thesis
    by (simp add: turn_defs u v evidence_env_fields sample_fields sample_run assembleContext_def CONTEXT_SLOT_ORDER_def
        candidate_text_def no_limits_def turn_input_text_def new_detector_def DEFAULT_DOOM_LOOP_CONFIG_def
        prepareTerminalSchema_def ENGINE_MAX_OUTPUT_SCHEMA_BYTES_def utf8_len_def sample_ledger_def
        Let_def cong: on_go_weak)
qed

section \<open>Properties\<close>

text \<open>C19: Every evidence record that a turn with a valid request writes, on whatever path it ends, passes the conformance check,
  provided that the digests are 64 hex digits, the identifiers are not empty, the model port reports natural numbers of tokens,
  the ledger holds natural numbers, and the record is sealed with a non-empty evidence id and ordered ISO time stamps. The
  executor enforces none of these on the ports it is given.\<close>

theorem executor_evidence_conforms:
  assumes "sound_env env" "sound_request env r"
    and "Evidence_write e written \<in> set (fst (executeTurn env r))"
    and "evidenceId \<noteq> []" "ISO_8601 startedAt" "ISO_8601 completedAt"
    and "dparse startedAt = Some a" "dparse completedAt = Some b" "a \<le> b"
  shows "validateTurnEvidenceRecord dparse (evidence_value evidenceId startedAt completedAt e) = []"
proof -
  have "effect_ok (Evidence_write e written)"
    using executor_effects_ok [OF assms(1,2)] assms(3) by (auto simp: list_all_iff)
  then show ?thesis
    using evidence_conforms [OF _ assms(4-9)] by simp
qed

theorem executor_evidence_conforms_witness:
  "\<exists>e. Evidence_write e True \<in> set (fst (executeTurn evidence_env sample_request)) \<and>
     validateTurnEvidenceRecord (\<lambda>_. Some 0) (evidence_value ''ev''
       ''2026-01-02T03:04:05.678Z'' ''2026-01-02T03:04:06+08:00'' e) = []"
proof -
  obtain e where e: "Evidence_write e True \<in> set (fst (executeTurn evidence_env sample_request))"
    using evidence_env_writes by blast
  have "validateTurnEvidenceRecord (\<lambda>_. Some 0) (evidence_value ''ev''
       ''2026-01-02T03:04:05.678Z'' ''2026-01-02T03:04:06+08:00'' e) = []"
    by (rule executor_evidence_conforms [OF evidence_env_sound e, where a = 0 and b = 0])
       (simp_all add: ISO_8601_def matches_layout_def fraction_and_zone_def zone_part_def is_digit_def)
  with e show ?thesis by blast
qed

end
