(* ===== verification/WriteApproval.thy ===== *)
theory WriteApproval
  imports JsMap "HOL-Library.List_Lexorder" "HOL-Library.Char_ord" "HOL-Library.Multiset"
begin

text \<open>
  packages/core/src/write-approval.ts and write-approval-engine.ts: validation of requests and
  decisions, the canonical preview digest, the guard, and the stateful engine. \<open>sha\<close> is SHA-256,
  \<open>stringify\<close> is \<open>JSON.stringify\<close>; \<open>randomUUID\<close> and the clock are arguments of the operations.

  \<open>execute\<close> awaits its executor, so it is two steps: \<open>begin_execute\<close> up to the await and
  \<open>finish_execute\<close> after it. Other operations may run in between; the executor is in flight
  exactly while the entry's state is \<open>executing\<close>. The engine hands out its preview object by
  reference; callers are assumed not to write to it. \<open>JObj\<close> lists properties in assignment order;
  \<open>stringify\<close> is where the language's own enumeration order applies. \<open>submitDecision\<close> stores the
  decision object it was given; the record has the fields its type declares.
\<close>

section \<open>Types\<close>

datatype wa_state =
    Preview_pending
  | Preview_validated
  | Approved
  | Denied
  | Expired_state
  | Executing
  | Success
  | Failed
  | Partial_fail

datatype wa_error =
    Tampered_preview
  | Stale_attempt
  | Fencing_mismatch
  | Already_consumed
  | Approval_expired

record write_request =
  wr_task :: string
  wr_tool :: string
  wr_target :: jsval
  wr_effect :: jsval
  wr_declared :: "string list option"

record write_preview =
  wp_id :: string
  wp_state :: wa_state
  wp_request :: write_request
  wp_digest :: string
  wp_key :: string
  wp_attempt :: int
  wp_token :: string
  wp_created :: int

record write_decision =
  wd_id :: string
  wd_approved :: bool
  wd_digest :: string
  wd_attempt :: jsval
  wd_token :: string
  wd_expires :: jsval
  wd_decided_by :: string
  wd_reason :: "string option"

record write_result =
  rs_id :: string
  rs_state :: wa_state
  rs_success :: bool
  rs_revision :: "string option"
  rs_error :: "string option"
  rs_compensation :: "(bool \<times> string) option"
  rs_key :: string
  rs_executed :: int

section \<open>Validation\<close>

fun all_strings :: "jsval list \<Rightarrow> string list option" where
  "all_strings [] = Some []"
| "all_strings (v # vs) = (case js_str v of
      None \<Rightarrow> None | Some s \<Rightarrow> map_option ((#) s) (all_strings vs))"

definition require_text :: "jsval \<Rightarrow> string \<Rightarrow> string \<Rightarrow> string + string" where
  "require_text obj key detail = (case js_str (js_get obj key) of
      None \<Rightarrow> Inl detail | Some s \<Rightarrow> ensure (length s \<noteq> 0) detail (Inr s))"

definition declared_tools :: "jsval \<Rightarrow> string + string list option" where
  "declared_tools v = (case v of
      JUndef \<Rightarrow> Inr None
    | JArr vs \<Rightarrow> (case all_strings vs of
          None \<Rightarrow> Inl ''declaredTools entries must be strings'' | Some ts \<Rightarrow> Inr (Some ts))
    | _ \<Rightarrow> Inl ''declaredTools must be an array'')"

definition validateWritePreviewRequest :: "jsval \<Rightarrow> string + write_request" where
  "validateWritePreviewRequest obj =
     ensure (is_objectish obj) ''input must be a non-null object''
    (and_then (require_text obj ''taskId'' ''taskId must be a non-empty string'') (\<lambda>taskId.
     and_then (require_text obj ''toolName'' ''toolName must be a non-empty string'') (\<lambda>toolName.
     ensure (is_objectish (js_get obj ''target'')) ''target must be a non-null object''
    (and_then (require_text (js_get obj ''target'') ''uri'' ''target.uri must be a non-empty string'') (\<lambda>_.
     ensure (is_objectish (js_get obj ''effect'')) ''effect must be a non-null object''
    (and_then (require_text (js_get obj ''effect'') ''type'' ''effect.type must be a non-empty string'') (\<lambda>_.
     ensure (js_str (js_get (js_get obj ''effect'') ''canonicalPayload'') \<noteq> None)
       ''effect.canonicalPayload must be a string''
    (and_then (declared_tools (js_get obj ''declaredTools'')) (\<lambda>declared.
       Inr \<lparr>wr_task = taskId, wr_tool = toolName, wr_target = js_get obj ''target'',
            wr_effect = js_get obj ''effect'', wr_declared = declared\<rparr>)))))))))"

fun is_number :: "jsval \<Rightarrow> bool" where
  "is_number (JNum _) = True"
| "is_number JNonFinite = True"
| "is_number _ = False"

definition validateWriteApprovalDecision :: "jsval \<Rightarrow> write_preview \<Rightarrow> string + write_decision" where
  "validateWriteApprovalDecision obj p =
     ensure (is_objectish obj) ''decision must be a non-null object''
    (ensure (js_get obj ''previewId'' = JStr (wp_id p)) ''decision.previewId must match preview''
    (case js_bool (js_get obj ''approved'') of
       None \<Rightarrow> Inl ''decision.approved must be a boolean''
     | Some approved \<Rightarrow>
    (case js_str (js_get obj ''previewDigest'') of
       None \<Rightarrow> Inl ''decision.previewDigest must be a string''
     | Some digest \<Rightarrow>
     ensure (is_number (js_get obj ''attempt'')) ''decision.attempt must be a number''
    (case js_str (js_get obj ''fencingToken'') of
       None \<Rightarrow> Inl ''decision.fencingToken must be a string''
     | Some token \<Rightarrow>
     ensure (is_number (js_get obj ''expiresAt'')) ''decision.expiresAt must be a number''
    (case js_str (js_get obj ''decidedBy'') of
       None \<Rightarrow> Inl ''decision.decidedBy must be a string''
     | Some by \<Rightarrow>
       Inr \<lparr>wd_id = wp_id p, wd_approved = approved, wd_digest = digest,
            wd_attempt = js_get obj ''attempt'', wd_token = token,
            wd_expires = js_get obj ''expiresAt'', wd_decided_by = by,
            wd_reason = js_str (js_get obj ''reason'')\<rparr>)))))"

section \<open>Canonical digest\<close>

text \<open>Object keys in code-unit order at every level; assigning \<open>__proto__\<close> on the fresh object
  creates no own property, so that key is dropped.\<close>

fun canonicalJson :: "jsval \<Rightarrow> jsval" where
  "canonicalJson (JArr vs) = JArr (map canonicalJson vs)"
| "canonicalJson (JObj kvs) =
     JObj (sort_key fst (filter (\<lambda>p. fst p \<noteq> ''__proto__'') (map (\<lambda>p. (fst p, canonicalJson (snd p))) kvs)))"
| "canonicalJson v = v"

definition computePreviewDigest ::
  "(string \<Rightarrow> string) \<Rightarrow> (jsval \<Rightarrow> string) \<Rightarrow> jsval \<Rightarrow> jsval \<Rightarrow> string" where
  "computePreviewDigest sha stringify target eff =
     sha (stringify (JObj [(''target'', canonicalJson target), (''effect'', canonicalJson eff)]))"

definition deriveIdempotencyKey ::
  "(string \<Rightarrow> string) \<Rightarrow> string \<Rightarrow> string \<Rightarrow> string \<Rightarrow> string \<Rightarrow> string \<Rightarrow> string" where
  "deriveIdempotencyKey sha taskId toolName targetUri effectType previewDigest =
     sha (join_with ''|'' [taskId, toolName, targetUri, effectType, previewDigest])"

section \<open>The guard\<close>

text \<open>\<open>nowMs > expiresAt\<close>; false for NaN, which \<open>JNonFinite\<close> is read as here.\<close>

definition after_expiry :: "int \<Rightarrow> jsval \<Rightarrow> bool" where
  "after_expiry nowMs v = (case v of JNum q \<Rightarrow> of_int nowMs > q | _ \<Rightarrow> False)"

definition classifyApprovalGuard ::
  "write_decision \<Rightarrow> int \<Rightarrow> string list \<Rightarrow> write_preview \<Rightarrow> wa_error option" where
  "classifyApprovalGuard d nowMs consumed p =
     (if wd_digest d \<noteq> wp_digest p then Some Tampered_preview
      else if wd_attempt d \<noteq> JNum (of_int (wp_attempt p)) then Some Stale_attempt
      else if wd_token d \<noteq> wp_token p then Some Fencing_mismatch
      else if wp_key p \<in> set consumed then Some Already_consumed
      else if after_expiry nowMs (wd_expires d) then Some Approval_expired
      else None)"

section \<open>The engine\<close>

record wa_entry =
  en_preview :: write_preview
  en_decision :: "write_decision option"
  en_result :: "write_result option"
  en_timeline :: "(wa_state \<times> int) list"

record wa_engine =
  wa_entries :: "(string, wa_entry) jsmap"
  wa_consumed :: "string list"
  wa_cache :: "(string, write_result) jsmap"

definition new_engine :: wa_engine where
  "new_engine = \<lparr>wa_entries = [], wa_consumed = [], wa_cache = []\<rparr>"

text \<open>A state change of an entry, with its timeline mark.\<close>

definition mark :: "wa_state \<Rightarrow> int \<Rightarrow> wa_entry \<Rightarrow> wa_entry" where
  "mark st now e = e\<lparr>en_preview := (en_preview e)\<lparr>wp_state := st\<rparr>,
                     en_timeline := en_timeline e @ [(st, now)]\<rparr>"

definition put_entry :: "string \<Rightarrow> wa_entry \<Rightarrow> wa_engine \<Rightarrow> wa_engine" where
  "put_entry i e s = s\<lparr>wa_entries := map_set (wa_entries s) i e\<rparr>"

definition createPreview ::
  "(string \<Rightarrow> string) \<Rightarrow> (jsval \<Rightarrow> string) \<Rightarrow> jsval \<Rightarrow> string \<Rightarrow> string \<Rightarrow> int \<Rightarrow> wa_engine \<Rightarrow>
   string + (write_preview \<times> wa_engine)" where
  "createPreview sha stringify request previewId fencingToken now s =
     and_then (validateWritePreviewRequest request) (\<lambda>v.
     ensure (case wr_declared v of None \<Rightarrow> True | Some ts \<Rightarrow> wr_tool v \<in> set ts)
       (''undeclared_tool: '' @ wr_tool v)
    (let digest = computePreviewDigest sha stringify (wr_target v) (wr_effect v);
         text_of = (\<lambda>o' k. case js_str (js_get o' k) of None \<Rightarrow> [] | Some t \<Rightarrow> t);
         key = deriveIdempotencyKey sha (wr_task v) (wr_tool v) (text_of (wr_target v) ''uri'')
                 (text_of (wr_effect v) ''type'') digest;
         preview = \<lparr>wp_id = previewId, wp_state = Preview_validated, wp_request = v,
           wp_digest = digest, wp_key = key, wp_attempt = 1, wp_token = fencingToken,
           wp_created = now\<rparr>;
         entry = \<lparr>en_preview = preview, en_decision = None, en_result = None,
           en_timeline = [(Preview_pending, now), (Preview_validated, now)]\<rparr>
     in Inr (preview, put_entry previewId entry s)))"

text \<open>The guard's clock reading is the one of the timeline mark.\<close>

definition submitDecision :: "jsval \<Rightarrow> int \<Rightarrow> wa_engine \<Rightarrow> string + wa_engine" where
  "submitDecision d now s =
     (case (case js_str (js_get d ''previewId'') of None \<Rightarrow> None | Some i \<Rightarrow> map_get (wa_entries s) i) of
        None \<Rightarrow> Inl ''unknown previewId''
      | Some e \<Rightarrow>
          and_then (validateWriteApprovalDecision d (en_preview e)) (\<lambda>dec.
          ensure (wp_state (en_preview e) = Preview_validated)
            ''invalid state transition: cannot submit decision''
         (if \<not> wd_approved dec
          then Inr (put_entry (wd_id dec) ((mark Denied now e)\<lparr>en_decision := Some dec\<rparr>) s)
          else (case classifyApprovalGuard dec now (wa_consumed s) (en_preview e) of
              Some _ \<Rightarrow> Inl ''guard_failed''
            | None \<Rightarrow> Inr (put_entry (wd_id dec) ((mark Approved now e)\<lparr>en_decision := Some dec\<rparr>) s)))))"

text \<open>\<open>execute\<close> up to the await: the cached result, an error, or the executor started.\<close>

datatype begun = Cached write_result | Started wa_engine

definition begin_execute :: "string \<Rightarrow> int \<Rightarrow> wa_engine \<Rightarrow> string + begun" where
  "begin_execute previewId now s = (case map_get (wa_entries s) previewId of
      None \<Rightarrow> Inl ''unknown previewId''
    | Some e \<Rightarrow>
        (case (case map_get (wa_cache s) (wp_key (en_preview e)) of
                 None \<Rightarrow> None | Some c \<Rightarrow> if rs_success c then Some c else None) of
           Some c \<Rightarrow> Inr (Cached c)
         | None \<Rightarrow>
             ensure (wp_state (en_preview e) = Approved \<or> wp_state (en_preview e) = Failed)
               ''invalid state transition: cannot execute''
               (Inr (Started (put_entry previewId (mark Executing now e) s)))))"

datatype exec_outcome =
    Exec_threw string
  | Exec_done bool "string option" "string option" "(bool \<times> string) option"

definition needs_compensation :: "(bool \<times> string) option \<Rightarrow> bool" where
  "needs_compensation c = (case c of None \<Rightarrow> False | Some (req, _) \<Rightarrow> req)"

definition finish_execute ::
  "string \<Rightarrow> exec_outcome \<Rightarrow> string \<Rightarrow> int \<Rightarrow> wa_engine \<Rightarrow> (write_result \<times> wa_engine) option" where
  "finish_execute previewId outcome newToken now s = (case map_get (wa_entries s) previewId of
      None \<Rightarrow> None
    | Some e \<Rightarrow>
        (if wp_state (en_preview e) \<noteq> Executing then None
         else (case outcome of
             Exec_threw message \<Rightarrow>
               (let result = \<lparr>rs_id = previewId, rs_state = Failed, rs_success = False,
                      rs_revision = None, rs_error = Some message, rs_compensation = None,
                      rs_key = wp_key (en_preview e), rs_executed = now\<rparr>
                in Some (result, put_entry previewId ((mark Failed now e)\<lparr>en_result := Some result\<rparr>) s))
           | Exec_done success revision errorCode compensation \<Rightarrow>
               (let final = (if success then Success
                             else if needs_compensation compensation then Partial_fail else Failed);
                    result = \<lparr>rs_id = previewId, rs_state = final, rs_success = success,
                      rs_revision = revision, rs_error = errorCode, rs_compensation = compensation,
                      rs_key = wp_key (en_preview e), rs_executed = now\<rparr>;
                    e1 = (mark final now e)\<lparr>en_result := Some result\<rparr>
                in if success
                   then Some (result, (put_entry previewId e1 s)
                          \<lparr>wa_consumed := wp_key (en_preview e) # wa_consumed s,
                           wa_cache := map_set (wa_cache s) (wp_key (en_preview e)) result\<rparr>)
                   else let p1 = (en_preview e1)\<lparr>wp_attempt := wp_attempt (en_preview e1) + 1,
                                                 wp_token := newToken\<rparr>
                        in Some (result, put_entry previewId
                             (mark Preview_validated now (e1\<lparr>en_preview := p1\<rparr>)) s)))))"

definition getAuditEvent :: "string \<Rightarrow> wa_engine \<Rightarrow> string + wa_entry" where
  "getAuditEvent previewId s = (case map_get (wa_entries s) previewId of
      None \<Rightarrow> Inl ''unknown previewId'' | Some e \<Rightarrow> Inr e)"

section \<open>The engine as a machine\<close>

text \<open>A call that throws leaves the engine as it was.\<close>

datatype wa_op =
    Create jsval string string int
  | Decide jsval int
  | Begin string int
  | Finish string exec_outcome string int

definition wa_step ::
  "(string \<Rightarrow> string) \<Rightarrow> (jsval \<Rightarrow> string) \<Rightarrow> wa_op \<Rightarrow> wa_engine \<Rightarrow> wa_engine" where
  "wa_step sha stringify x s = (case x of
      Create request i token now \<Rightarrow>
        (case createPreview sha stringify request i token now s of Inl _ \<Rightarrow> s | Inr (_, t) \<Rightarrow> t)
    | Decide d now \<Rightarrow> (case submitDecision d now s of Inl _ \<Rightarrow> s | Inr t \<Rightarrow> t)
    | Begin i now \<Rightarrow> (case begin_execute i now s of Inr (Started t) \<Rightarrow> t | _ \<Rightarrow> s)
    | Finish i r token now \<Rightarrow>
        (case finish_execute i r token now s of None \<Rightarrow> s | Some (_, t) \<Rightarrow> t))"

definition wa_run ::
  "(string \<Rightarrow> string) \<Rightarrow> (jsval \<Rightarrow> string) \<Rightarrow> wa_op list \<Rightarrow> wa_engine" where
  "wa_run sha stringify xs = fold (wa_step sha stringify) xs new_engine"

text \<open>The documented lifecycle, as a relation on states.\<close>

inductive wa_next :: "wa_state \<Rightarrow> wa_state \<Rightarrow> bool" where
  validate: "wa_next Preview_pending Preview_validated"
| approve: "wa_next Preview_validated Approved"
| deny: "wa_next Preview_validated Denied"
| execute: "wa_next Approved Executing"
| retry: "wa_next Failed Executing"
| succeed: "wa_next Executing Success"
| fail: "wa_next Executing Failed"
| part: "wa_next Executing Partial_fail"
| revalidate: "wa_next Failed Preview_validated"
| revalidate_part: "wa_next Partial_fail Preview_validated"

inductive_simps wa_next_simps [simp]:
  "wa_next Preview_pending s" "wa_next Preview_validated s" "wa_next Approved s"
  "wa_next Denied s" "wa_next Expired_state s" "wa_next Executing s" "wa_next Success s"
  "wa_next Failed s" "wa_next Partial_fail s"

definition lifecycle :: "wa_state list \<Rightarrow> bool" where
  "lifecycle xs \<longleftrightarrow> xs \<noteq> [] \<and> hd xs = Preview_pending \<and> successively wa_next xs"

lemma lifecycle_snoc: "lifecycle xs \<Longrightarrow> wa_next (last xs) st \<Longrightarrow> lifecycle (xs @ [st])"
  by (auto simp: lifecycle_def successively_append_iff)

text \<open>Reading a timeline: an execution needs an approval granted since the preview was last validated.\<close>

fun authorised :: "bool \<Rightarrow> wa_state list \<Rightarrow> bool" where
  "authorised ok [] \<longleftrightarrow> True"
| "authorised ok (st # sts) \<longleftrightarrow> (st = Executing \<longrightarrow> ok) \<and>
     authorised (st = Approved \<or> (ok \<and> st \<noteq> Preview_validated)) sts"

lemma path_authorised:
  "successively wa_next (st # sts) \<Longrightarrow> (st \<in> {Approved, Executing, Failed} \<Longrightarrow> ok) \<Longrightarrow> authorised ok sts"
proof (induction sts arbitrary: st ok)
  case Nil
  show ?case by simp
next
  case (Cons a sts)
  have next_a: "wa_next st a" and path: "successively wa_next (a # sts)"
    using Cons.prems(1) by auto
  have "authorised (a = Approved \<or> (ok \<and> a \<noteq> Preview_validated)) sts"
    using next_a Cons.prems(2) by (intro Cons.IH [OF path]) (cases st; auto)
  moreover have "a = Executing \<longrightarrow> ok"
    using next_a Cons.prems(2) by (cases st) auto
  ultimately show ?case by simp
qed

lemma lifecycle_authorised: "lifecycle xs \<Longrightarrow> authorised False xs"
  by (cases xs) (auto simp: lifecycle_def intro: path_authorised)

section \<open>Invariant\<close>

definition bound_approval :: "write_preview \<Rightarrow> write_decision \<Rightarrow> bool" where
  "bound_approval p d \<longleftrightarrow> wd_approved d \<and> wd_id d = wp_id p \<and> wd_digest d = wp_digest p \<and>
     wd_attempt d = JNum (of_int (wp_attempt p)) \<and> wd_token d = wp_token p"

definition decided :: "wa_entry \<Rightarrow> bool" where
  "decided e \<longleftrightarrow> (case wp_state (en_preview e) of
      Preview_validated \<Rightarrow> True
    | Denied \<Rightarrow> (case en_decision e of None \<Rightarrow> False | Some d \<Rightarrow> \<not> wd_approved d)
    | Approved \<Rightarrow> (case en_decision e of None \<Rightarrow> False | Some d \<Rightarrow> bound_approval (en_preview e) d)
    | Executing \<Rightarrow> (case en_decision e of None \<Rightarrow> False | Some d \<Rightarrow> bound_approval (en_preview e) d)
    | Success \<Rightarrow> (case en_decision e of None \<Rightarrow> False | Some d \<Rightarrow> bound_approval (en_preview e) d)
    | Failed \<Rightarrow> (case en_decision e of None \<Rightarrow> False | Some d \<Rightarrow> bound_approval (en_preview e) d)
    | _ \<Rightarrow> False)"

definition en_states :: "wa_entry \<Rightarrow> wa_state list" where
  "en_states e = map fst (en_timeline e)"

definition entry_inv :: "string list \<Rightarrow> string \<times> wa_entry \<Rightarrow> bool" where
  "entry_inv consumed = (\<lambda>(i, e). wp_id (en_preview e) = i \<and> lifecycle (en_states e) \<and>
     last (en_states e) = wp_state (en_preview e) \<and> decided e \<and>
     (wp_state (en_preview e) = Success \<longrightarrow> wp_key (en_preview e) \<in> set consumed))"

definition cache_inv :: "string list \<Rightarrow> (string, write_result) jsmap \<Rightarrow> bool" where
  "cache_inv consumed cache \<longleftrightarrow>
     (\<forall>k. k \<in> set consumed \<longleftrightarrow> map_get cache k \<noteq> None) \<and>
     (\<forall>k r. map_get cache k = Some r \<longrightarrow> rs_success r \<and> rs_key r = k \<and> rs_state r = Success)"

definition wa_inv :: "wa_engine \<Rightarrow> bool" where
  "wa_inv s \<longleftrightarrow> list_all (entry_inv (wa_consumed s)) (wa_entries s) \<and>
     cache_inv (wa_consumed s) (wa_cache s)"

lemma put_entry_inv:
  "wa_inv s \<Longrightarrow> entry_inv (wa_consumed s) (i, e) \<Longrightarrow> wa_inv (put_entry i e s)"
  by (auto simp: wa_inv_def put_entry_def)

lemma wa_inv_entry: "wa_inv s \<Longrightarrow> map_get (wa_entries s) i = Some e \<Longrightarrow> entry_inv (wa_consumed s) (i, e)"
  by (auto simp: wa_inv_def intro: list_all_map_get)

lemma entry_inv_grow: "entry_inv cs p \<Longrightarrow> set cs \<subseteq> set cs' \<Longrightarrow> entry_inv cs' p"
  by (auto simp: entry_inv_def split: prod.splits)

lemma mark_fields [simp]:
  "en_decision (mark st now e) = en_decision e"
  "en_timeline (mark st now e) = en_timeline e @ [(st, now)]"
  by (simp_all add: mark_def)

lemma mark_entry_inv:
  assumes "entry_inv cs (i, e)" "en_preview e' = (en_preview e)\<lparr>wp_state := st\<rparr>"
    and "en_timeline e' = en_timeline e @ [(st, now)]"
    and "wa_next (wp_state (en_preview e)) st" "decided e'"
    and "st = Success \<Longrightarrow> wp_key (en_preview e) \<in> set cs"
  shows "entry_inv cs (i, e')"
  using assms lifecycle_snoc [of "en_states e" st] by (auto simp: entry_inv_def en_states_def)

lemma preview_of_mark [simp]: "en_preview (mark st now e) = (en_preview e)\<lparr>wp_state := st\<rparr>"
  by (simp add: mark_def)

lemma checked_decision_id:
  "validateWriteApprovalDecision d p = Inr x \<Longrightarrow> wd_id x = wp_id p"
  by (auto simp: validateWriteApprovalDecision_def accepts split: option.splits)

lemma guard_passes:
  "classifyApprovalGuard d now consumed p = None \<longleftrightarrow>
     wd_digest d = wp_digest p \<and> wd_attempt d = JNum (of_int (wp_attempt p)) \<and>
     wd_token d = wp_token p \<and> wp_key p \<notin> set consumed \<and> \<not> after_expiry now (wd_expires d)"
  by (auto simp: classifyApprovalGuard_def)

lemma createPreview_inv:
  assumes "wa_inv s" "createPreview sha stringify request i token now s = Inr (p, t)"
  shows "wa_inv t"
proof -
  have t: "t = put_entry i \<lparr>en_preview = p, en_decision = None, en_result = None,
      en_timeline = [(Preview_pending, now), (Preview_validated, now)]\<rparr> s"
    and p: "wp_id p = i" "wp_state p = Preview_validated"
    using assms(2) by (auto simp: createPreview_def accepts Let_def)
  show ?thesis unfolding t using p
    by (intro put_entry_inv [OF assms(1)]) (simp add: entry_inv_def en_states_def lifecycle_def decided_def)
qed

lemma submitDecision_cases:
  assumes "submitDecision d now s = Inr t"
  obtains i e x where "js_str (js_get d ''previewId'') = Some i" "map_get (wa_entries s) i = Some e"
    "validateWriteApprovalDecision d (en_preview e) = Inr x" "wd_id x = wp_id (en_preview e)"
    "wp_state (en_preview e) = Preview_validated"
    "\<not> wd_approved x \<and> t = put_entry (wd_id x) ((mark Denied now e)\<lparr>en_decision := Some x\<rparr>) s \<or>
     wd_approved x \<and> classifyApprovalGuard x now (wa_consumed s) (en_preview e) = None \<and>
     t = put_entry (wd_id x) ((mark Approved now e)\<lparr>en_decision := Some x\<rparr>) s"
proof -
  from assms obtain i e where i: "js_str (js_get d ''previewId'') = Some i"
    and e: "map_get (wa_entries s) i = Some e"
    by (auto simp: submitDecision_def split: option.splits)
  from assms i e obtain x where x: "validateWriteApprovalDecision d (en_preview e) = Inr x"
    and rest: "ensure (wp_state (en_preview e) = Preview_validated)
            ''invalid state transition: cannot submit decision''
         (if \<not> wd_approved x
          then Inr (put_entry (wd_id x) ((mark Denied now e)\<lparr>en_decision := Some x\<rparr>) s)
          else (case classifyApprovalGuard x now (wa_consumed s) (en_preview e) of
              Some _ \<Rightarrow> Inl ''guard_failed''
            | None \<Rightarrow> Inr (put_entry (wd_id x) ((mark Approved now e)\<lparr>en_decision := Some x\<rparr>) s)))
         = Inr t"
    by (auto simp: submitDecision_def and_then_Inr)
  show thesis
    by (rule that [OF i e x checked_decision_id [OF x]])
       (use rest in \<open>auto simp: ensure_Inr split: if_splits option.splits\<close>)
qed

lemma submitDecision_inv:
  assumes inv: "wa_inv s" and "submitDecision d now s = Inr t"
  shows "wa_inv t"
  using assms(2)
proof (cases rule: submitDecision_cases)
  case (1 i e x)
  have e: "entry_inv (wa_consumed s) (i, e)" by (rule wa_inv_entry [OF inv 1(2)])
  then have i: "wd_id x = i" using 1(4) by (simp add: entry_inv_def)
  have "entry_inv (wa_consumed s) (i, mark st now e\<lparr>en_decision := Some x\<rparr>)"
    if "st = Denied \<and> \<not> wd_approved x \<or>
        st = Approved \<and> wd_approved x \<and> classifyApprovalGuard x now (wa_consumed s) (en_preview e) = None" for st
    using that 1(4) by (intro mark_entry_inv [OF e])
      (auto simp: 1(5) decided_def bound_approval_def guard_passes split: wa_state.splits)
  then have "wa_inv (put_entry i ((mark st now e)\<lparr>en_decision := Some x\<rparr>) s)"
    if "st = Denied \<and> \<not> wd_approved x \<or>
        st = Approved \<and> wd_approved x \<and> classifyApprovalGuard x now (wa_consumed s) (en_preview e) = None" for st
    using that by (intro put_entry_inv [OF inv]) simp
  with 1(6) show ?thesis unfolding i by auto
qed

lemma begin_execute_cases:
  assumes "begin_execute i now s = Inr (Started t)"
  obtains e where "map_get (wa_entries s) i = Some e"
    "wp_state (en_preview e) = Approved \<or> wp_state (en_preview e) = Failed"
    "t = put_entry i (mark Executing now e) s"
  using assms by (auto simp: begin_execute_def ensure_Inr split: option.splits if_splits)

lemma begin_execute_inv:
  assumes inv: "wa_inv s" and "begin_execute i now s = Inr (Started t)"
  shows "wa_inv t"
  using assms(2)
proof (cases rule: begin_execute_cases)
  case (1 e)
  have e: "entry_inv (wa_consumed s) (i, e)" by (rule wa_inv_entry [OF inv 1(1)])
  have "decided (mark Executing now e)"
    using e 1(2) by (auto simp: entry_inv_def decided_def bound_approval_def split: option.splits)
  then have "entry_inv (wa_consumed s) (i, mark Executing now e)"
    using 1(2) by (intro mark_entry_inv [OF e]) auto
  then show ?thesis unfolding 1(3) by (rule put_entry_inv [OF inv])
qed

lemma bound_decision_state:
  "decided e \<Longrightarrow> wp_state (en_preview e) \<in> {Approved, Executing, Success, Failed} \<Longrightarrow>
   (\<exists>d. en_decision e = Some d \<and> bound_approval (en_preview e) d)"
  by (auto simp: decided_def split: option.splits)

lemma bound_approval_state [simp]:
  "bound_approval (p\<lparr>wp_state := st\<rparr>) d = bound_approval p d"
  by (simp add: bound_approval_def)

lemma finish_threw_inv:
  assumes inv: "wa_inv s" and e: "entry_inv (wa_consumed s) (i, e)"
    and st: "wp_state (en_preview e) = Executing"
  shows "wa_inv (put_entry i ((mark Failed now e)\<lparr>en_result := r\<rparr>) s)"
proof (rule put_entry_inv [OF inv], rule mark_entry_inv [OF e])
  show "decided ((mark Failed now e)\<lparr>en_result := r\<rparr>)"
    using bound_decision_state [of e] e st by (auto simp: decided_def entry_inv_def split: option.splits)
qed (use st in auto)

lemma finish_failed_inv:
  assumes inv: "wa_inv s" and e: "entry_inv (wa_consumed s) (i, e)"
    and st: "wp_state (en_preview e) = Executing" and final: "final = Partial_fail \<or> final = Failed"
    and e1: "en_preview e1 = (en_preview e)\<lparr>wp_state := final\<rparr>"
      "en_timeline e1 = en_timeline e @ [(final, now)]"
    and p1: "wp_id p1 = wp_id (en_preview e)"
  shows "wa_inv (put_entry i (mark Preview_validated now (e1\<lparr>en_preview := p1\<rparr>)) s)"
proof (rule put_entry_inv [OF inv])
  have old: "lifecycle (en_states e)" "last (en_states e) = Executing" "wp_id (en_preview e) = i"
    using e st by (auto simp: entry_inv_def)
  have l1: "lifecycle (en_states e @ [final])"
    by (rule lifecycle_snoc [OF old(1)]) (use final old(2) in auto)
  have "lifecycle ((en_states e @ [final]) @ [Preview_validated])"
    by (rule lifecycle_snoc [OF l1]) (use final in auto)
  then show "entry_inv (wa_consumed s) (i, mark Preview_validated now (e1\<lparr>en_preview := p1\<rparr>))"
    using e1 p1 old(3) by (simp add: entry_inv_def en_states_def decided_def)
qed

lemma finish_success_inv:
  assumes inv: "wa_inv s" and e: "entry_inv (wa_consumed s) (i, e)"
    and st: "wp_state (en_preview e) = Executing" and key: "key = wp_key (en_preview e)"
    and r: "rs_success r" "rs_key r = key" "rs_state r = Success"
  shows "wa_inv ((put_entry i ((mark Success now e)\<lparr>en_result := Some r\<rparr>) s)
    \<lparr>wa_consumed := key # wa_consumed s, wa_cache := map_set (wa_cache s) key r\<rparr>)"
proof -
  let ?cs = "key # wa_consumed s"
  have "list_all (entry_inv ?cs) (wa_entries s)"
    using inv by (auto simp: wa_inv_def list_all_iff intro: entry_inv_grow)
  moreover have "entry_inv ?cs (i, (mark Success now e)\<lparr>en_result := Some r\<rparr>)"
  proof (rule mark_entry_inv)
    show "entry_inv ?cs (i, e)" using e by (rule entry_inv_grow) auto
    show "decided ((mark Success now e)\<lparr>en_result := Some r\<rparr>)"
      using bound_decision_state [of e] e st by (auto simp: decided_def entry_inv_def split: option.splits)
  qed (use st key in auto)
  moreover have "cache_inv ?cs (map_set (wa_cache s) key r)"
    using inv r by (auto simp: wa_inv_def cache_inv_def)
  ultimately show ?thesis by (auto simp: wa_inv_def put_entry_def)
qed

lemma finish_execute_inv:
  assumes inv: "wa_inv s" and fin: "finish_execute i outcome token now s = Some (r, t)"
  shows "wa_inv t"
proof -
  obtain e where get: "map_get (wa_entries s) i = Some e" and st: "wp_state (en_preview e) = Executing"
    using fin by (auto simp: finish_execute_def split: option.splits if_splits)
  have e: "entry_inv (wa_consumed s) (i, e)" by (rule wa_inv_entry [OF inv get])
  show ?thesis
  proof (cases outcome)
    case (Exec_threw m)
    then show ?thesis using fin get st finish_threw_inv [OF inv e st]
      by (auto simp: finish_execute_def Let_def)
  next
    case (Exec_done success revision code compensation)
    show ?thesis
    proof (cases success)
      case True
      with Exec_done fin get st have "t = (put_entry i ((mark Success now e)\<lparr>en_result := Some r\<rparr>) s)
          \<lparr>wa_consumed := wp_key (en_preview e) # wa_consumed s,
           wa_cache := map_set (wa_cache s) (wp_key (en_preview e)) r\<rparr>"
        and "rs_success r" "rs_key r = wp_key (en_preview e)" "rs_state r = Success"
        by (auto simp: finish_execute_def Let_def)
      then show ?thesis using finish_success_inv [OF inv e st refl] by simp
    next
      case False
      with Exec_done fin get st show ?thesis
        by (auto simp: finish_execute_def Let_def
            intro!: finish_failed_inv [OF inv e st, where final = "if needs_compensation compensation then Partial_fail else Failed"]
            split: if_splits)
    qed
  qed
qed

section \<open>Runs\<close>

lemma wa_step_inv: "wa_inv s \<Longrightarrow> wa_inv (wa_step sha stringify x s)"
  by (auto simp: wa_step_def split: wa_op.splits sum.splits option.splits begun.splits
      intro: createPreview_inv submitDecision_inv begin_execute_inv finish_execute_inv)

definition keeps_results :: "wa_engine \<Rightarrow> wa_engine \<Rightarrow> bool" where
  "keeps_results s t \<longleftrightarrow> (\<forall>k. map_get (wa_cache s) k \<noteq> None \<longrightarrow> map_get (wa_cache t) k \<noteq> None)"

lemma put_entry_cache [simp]: "wa_cache (put_entry i e s) = wa_cache s"
  by (simp add: put_entry_def)

lemma finish_keeps_results: "finish_execute i r token now s = Some (x, t) \<Longrightarrow> keeps_results s t"
  by (auto simp: finish_execute_def keeps_results_def Let_def
      split: option.splits if_splits exec_outcome.splits)

lemma wa_step_keeps_results: "keeps_results s (wa_step sha stringify x s)"
proof (cases x)
  case (Create request i token now)
  then show ?thesis
    by (auto simp: wa_step_def keeps_results_def createPreview_def accepts Let_def split: sum.splits)
next
  case (Decide d now)
  then show ?thesis
    by (auto simp: wa_step_def keeps_results_def split: sum.splits elim!: submitDecision_cases)
next
  case (Begin i now)
  then show ?thesis
    by (auto simp: wa_step_def keeps_results_def split: sum.splits begun.splits elim!: begin_execute_cases)
next
  case (Finish i r token now)
  then show ?thesis
    using finish_keeps_results by (auto simp: wa_step_def keeps_results_def split: option.splits prod.splits)
qed

interpretation approvals: mono_machine new_engine "wa_step sha stringify" wa_inv keeps_results
  for sha stringify
proof unfold_locales
  show "wa_inv new_engine" by (simp add: wa_inv_def new_engine_def cache_inv_def)
qed (auto simp: wa_step_inv wa_step_keeps_results, auto simp: keeps_results_def)

lemma wa_run_inv: "wa_inv (wa_run sha stringify xs)"
  unfolding wa_run_def by (rule approvals.invar_run)

section \<open>The digest forgets the order of keys\<close>

text \<open>Values that differ only in the order of object keys, at any depth.\<close>

inductive same_json :: "jsval \<Rightarrow> jsval \<Rightarrow> bool" where
  same: "same_json v v"
| permuted: "distinct (map fst kvs) \<Longrightarrow> mset kvs = mset kvs' \<Longrightarrow> same_json (JObj kvs) (JObj kvs')"
| elements: "list_all2 same_json vs ws \<Longrightarrow> same_json (JArr vs) (JArr ws)"
| members: "list_all2 (\<lambda>p q. fst p = fst q \<and> same_json (snd p) (snd q)) kvs kvs' \<Longrightarrow>
    same_json (JObj kvs) (JObj kvs')"
| chain: "same_json u v \<Longrightarrow> same_json v w \<Longrightarrow> same_json u w"

lemma sort_key_perm_eq:
  assumes "distinct (map f xs)" "mset xs = mset ys"
  shows "sort_key f xs = sort_key f ys"
proof (rule properties_for_sort_key)
  show "mset (sort_key f ys) = mset xs" using assms(2) by simp
  show "sorted (map f (sort_key f ys))" by simp
  fix k assume k: "k \<in> set (sort_key f ys)"
  have d: "distinct (map f ys)" using assms by (metis mset_eq_imp_distinct_iff mset_map)
  have one: "filter (\<lambda>y. f k = f y) zs = [k]" if "distinct (map f zs)" "k \<in> set zs" for zs
    using that
  proof (induction zs)
    case Nil
    then show ?case by simp
  next
    case (Cons z zs)
    show ?case
    proof (cases "z = k")
      case True
      then have "filter (\<lambda>y. f k = f y) zs = []"
        using Cons.prems(1) by (auto simp: filter_empty_conv)
      then show ?thesis using True by simp
    next
      case False
      then have mem: "k \<in> set zs" using Cons.prems(2) by simp
      then have "f k \<noteq> f z" using Cons.prems(1) by (auto simp: image_iff)
      then show ?thesis using Cons.IH mem Cons.prems(1) by simp
    qed
  qed
  have "k \<in> set xs" using k assms(2) by (metis set_mset_mset set_sort)
  have "filter (\<lambda>y. f k = f y) (sort_key f ys) = [k]"
    using k d by (intro one) (simp_all add: mset_map [symmetric] distinct_map)
  then show "filter (\<lambda>y. f k = f y) (sort_key f ys) = filter (\<lambda>y. f k = f y) xs"
    using one [OF assms(1) \<open>k \<in> set xs\<close>] by simp
qed

lemma canonical_members:
  "list_all2 (\<lambda>p q. fst p = fst q \<and> canonicalJson (snd p) = canonicalJson (snd q)) kvs kvs' \<Longrightarrow>
   map (\<lambda>p. (fst p, canonicalJson (snd p))) kvs = map (\<lambda>p. (fst p, canonicalJson (snd p))) kvs'"
  by (induction rule: list_all2_induct) auto

lemma canonical_elements:
  "list_all2 (\<lambda>p q. canonicalJson p = canonicalJson q) vs ws \<Longrightarrow> map canonicalJson vs = map canonicalJson ws"
  by (induction rule: list_all2_induct) auto

lemma same_json_canonical: "same_json v w \<Longrightarrow> canonicalJson v = canonicalJson w"
proof (induction rule: same_json.induct)
  case (permuted kvs kvs')
  let ?f = "\<lambda>kvs. filter (\<lambda>p. fst p \<noteq> ''__proto__'') (map (\<lambda>p. (fst p, canonicalJson (snd p))) kvs)"
  have "distinct (map fst (?f kvs))"
    using permuted.hyps(1) by (intro distinct_map_filter) (simp add: comp_def)
  moreover have "mset (?f kvs) = mset (?f kvs')" using permuted.hyps(2) by (simp add: mset_filter)
  ultimately show ?case by (simp add: sort_key_perm_eq)
next
  case (elements vs ws)
  have "list_all2 (\<lambda>p q. canonicalJson p = canonicalJson q) vs ws"
    using elements.IH by (rule list_all2_mono) auto
  then show ?case by (simp add: canonical_elements)
next
  case (members kvs kvs')
  have "list_all2 (\<lambda>p q. fst p = fst q \<and> canonicalJson (snd p) = canonicalJson (snd q)) kvs kvs'"
    using members.IH by (rule list_all2_mono) auto
  then show ?case by (simp add: canonical_members)
qed auto

section \<open>Properties\<close>

lemma cached_key_returns:
  assumes inv: "wa_inv s" and "map_get (wa_cache s) (wp_key (en_preview e)) \<noteq> None"
    and e: "map_get (wa_entries s) i = Some e"
  shows "\<exists>c. begin_execute i now s = Inr (Cached c) \<and> rs_success c \<and> rs_key c = wp_key (en_preview e)"
  using assms by (auto simp: begin_execute_def wa_inv_def cache_inv_def)

lemma cached_key_not_approved:
  assumes inv: "wa_inv s" and c: "map_get (wa_cache s) (wp_key (en_preview e)) \<noteq> None"
    and e: "map_get (wa_entries s) i = Some e"
    and d: "js_get d ''previewId'' = JStr i" "js_get d ''approved'' = JBool True"
  shows "\<exists>err. submitDecision d now s = Inl err"
proof (rule ccontr)
  assume "\<nexists>err. submitDecision d now s = Inl err"
  then obtain t where "submitDecision d now s = Inr t" by (cases "submitDecision d now s") auto
  then show False
  proof (cases rule: submitDecision_cases)
    case (1 j e' x)
    have "e' = e" using 1(1,2) d(1) e by simp
    moreover have "wd_approved x"
      using 1(3) d(2) by (auto simp: validateWriteApprovalDecision_def accepts split: option.splits)
    ultimately have "wp_key (en_preview e) \<notin> set (wa_consumed s)" using 1(6) by (simp add: guard_passes)
    then show False using inv c by (auto simp: wa_inv_def cache_inv_def)
  qed
qed

text \<open>C7: In every run of the engine, every preview's audit timeline is a path of the documented
  lifecycle from \<open>preview_pending\<close> to its current state, in which each execution (retries included)
  was preceded by an approval granted since the preview was last validated; an approved, executing,
  failed or successful preview holds the approving decision, bound to its digest, attempt and
  fencing token.\<close>

theorem writes_follow_the_approval_lifecycle:
  "list_all (\<lambda>(i, e). wp_id (en_preview e) = i \<and> lifecycle (en_states e) \<and>
      authorised False (en_states e) \<and> last (en_states e) = wp_state (en_preview e) \<and> decided e)
    (wa_entries (wa_run sha stringify xs))"
proof -
  have "list_all (entry_inv (wa_consumed (wa_run sha stringify xs))) (wa_entries (wa_run sha stringify xs))"
    using wa_run_inv [of sha stringify xs] by (simp add: wa_inv_def)
  then show ?thesis
    by (rule list.pred_mono_strong) (auto simp: entry_inv_def lifecycle_authorised)
qed

lemma finish_success_cached:
  "finish_execute j (Exec_done True revn code cmp) token t1 s = Some (r, s1) \<Longrightarrow>
   map_get (wa_cache s1) (rs_key r) \<noteq> None"
  by (auto simp: finish_execute_def Let_def split: option.splits if_splits)

text \<open>C8: Once an execution has succeeded, its idempotency key is spent: after any further
  operations, executing any preview with that key returns a recorded success without starting the
  executor, and no such preview can be approved.\<close>

theorem successful_write_runs_once:
  assumes "finish_execute j (Exec_done True revn code cmp) token t1 (wa_run sha stringify xs) = Some (r, s1)"
    and "map_get (wa_entries (wa_run sha stringify (xs @ Finish j (Exec_done True revn code cmp) token t1 # ys))) i = Some e"
    and "wp_key (en_preview e) = rs_key r"
    and "js_get d ''previewId'' = JStr i" "js_get d ''approved'' = JBool True"
  shows "(\<exists>c. begin_execute i now (wa_run sha stringify (xs @ Finish j (Exec_done True revn code cmp) token t1 # ys))
            = Inr (Cached c) \<and> rs_success c \<and> rs_key c = rs_key r) \<and>
         (\<exists>err. submitDecision d now (wa_run sha stringify (xs @ Finish j (Exec_done True revn code cmp) token t1 # ys))
            = Inl err)"
proof -
  let ?fin = "Finish j (Exec_done True revn code cmp) token t1"
  let ?s = "wa_run sha stringify (xs @ ?fin # ys)"
  have "wa_run sha stringify (xs @ [?fin]) = s1"
    using assms(1) by (simp add: wa_run_def wa_step_def)
  then have "map_get (wa_cache (wa_run sha stringify (xs @ [?fin]))) (rs_key r) \<noteq> None"
    using finish_success_cached [OF assms(1)] by simp
  moreover have "keeps_results (wa_run sha stringify (xs @ [?fin])) ?s"
    unfolding wa_run_def using approvals.below_later [of sha stringify "xs @ [?fin]" ys] by simp
  ultimately have c: "map_get (wa_cache ?s) (wp_key (en_preview e)) \<noteq> None"
    using assms(3) by (auto simp: keeps_results_def)
  show ?thesis
    using cached_key_returns [OF wa_run_inv c assms(2)]
      cached_key_not_approved [OF wa_run_inv c assms(2,4,5)] assms(3) by simp
qed

text \<open>A run with two previews of one write, both approved; the first is executing.\<close>

definition demo_request :: jsval where
  "demo_request = JObj [(''taskId'', JStr ''t''), (''toolName'', JStr ''w''),
     (''target'', JObj [(''uri'', JStr ''u'')]),
     (''effect'', JObj [(''type'', JStr ''e''), (''canonicalPayload'', JStr [])])]"

definition demo_decision :: "string \<Rightarrow> string \<Rightarrow> jsval" where
  "demo_decision i token = JObj [(''previewId'', JStr i), (''approved'', JBool True),
     (''previewDigest'', JStr ''d''), (''attempt'', JNum 1), (''fencingToken'', JStr token),
     (''expiresAt'', JNum 9), (''decidedBy'', JStr ''b'')]"

definition demo_ops :: "wa_op list" where
  "demo_ops = [Create demo_request ''p'' ''x'' 1, Create demo_request ''q'' ''y'' 1,
     Decide (demo_decision ''p'' ''x'') 2, Decide (demo_decision ''q'' ''y'') 2]"

definition demo_preview :: "string \<Rightarrow> string \<Rightarrow> wa_state \<Rightarrow> write_preview" where
  "demo_preview i token st = \<lparr>wp_id = i, wp_state = st,
     wp_request = \<lparr>wr_task = ''t'', wr_tool = ''w'', wr_target = JObj [(''uri'', JStr ''u'')],
       wr_effect = JObj [(''type'', JStr ''e''), (''canonicalPayload'', JStr [])], wr_declared = None\<rparr>,
     wp_digest = ''d'', wp_key = ''d'', wp_attempt = 1, wp_token = token, wp_created = 1\<rparr>"

definition demo_entry :: "string \<Rightarrow> string \<Rightarrow> wa_entry" where
  "demo_entry i token = \<lparr>en_preview = demo_preview i token Approved,
     en_decision = Some \<lparr>wd_id = i, wd_approved = True, wd_digest = ''d'', wd_attempt = JNum 1,
       wd_token = token, wd_expires = JNum 9, wd_decided_by = ''b'', wd_reason = None\<rparr>,
     en_result = None, en_timeline = [(Preview_pending, 1), (Preview_validated, 1), (Approved, 2)]\<rparr>"

lemma demo_run: "wa_run (\<lambda>_. ''d'') (\<lambda>_. []) demo_ops =
  \<lparr>wa_entries = [(''p'', demo_entry ''p'' ''x''), (''q'', demo_entry ''q'' ''y'')],
   wa_consumed = [], wa_cache = []\<rparr>"
  by (simp add: wa_run_def demo_ops_def wa_step_def createPreview_def submitDecision_def new_engine_def
      validateWritePreviewRequest_def demo_request_def demo_decision_def require_text_def
      declared_tools_def computePreviewDigest_def deriveIdempotencyKey_def put_entry_def mark_def
      validateWriteApprovalDecision_def classifyApprovalGuard_def after_expiry_def map_get_def Let_def
      demo_entry_def demo_preview_def)

lemma demo_begun: "wa_run (\<lambda>_. ''d'') (\<lambda>_. []) (demo_ops @ [Begin ''p'' 3]) =
  \<lparr>wa_entries = [(''p'', mark Executing 3 (demo_entry ''p'' ''x'')), (''q'', demo_entry ''q'' ''y'')],
   wa_consumed = [], wa_cache = []\<rparr>"
  using demo_run by (simp add: wa_run_def wa_step_def begin_execute_def map_get_def put_entry_def
      demo_entry_def demo_preview_def)

lemma successful_write_runs_once_witness:
  "\<exists>err. submitDecision (demo_decision ''q'' ''y'') 5
     (wa_run (\<lambda>_. ''d'') (\<lambda>_. []) ((demo_ops @ [Begin ''p'' 3]) @
        Finish ''p'' (Exec_done True None None None) ''z'' 4 # [])) = Inl err"
proof -
  let ?s = "wa_run (\<lambda>_. ''d'') (\<lambda>_. []) (demo_ops @ [Begin ''p'' 3])"
  obtain r s1 where fin: "finish_execute ''p'' (Exec_done True None None None) ''z'' 4 ?s = Some (r, s1)"
    and r: "rs_key r = ''d''"
    and q: "map_get (wa_entries s1) ''q'' = Some (demo_entry ''q'' ''y'')"
    unfolding demo_begun
    by (simp add: finish_execute_def map_get_def Let_def put_entry_def demo_entry_def demo_preview_def)
  have e: "map_get (wa_entries (wa_run (\<lambda>_. ''d'') (\<lambda>_. []) ((demo_ops @ [Begin ''p'' 3]) @
        Finish ''p'' (Exec_done True None None None) ''z'' 4 # []))) ''q'' = Some (demo_entry ''q'' ''y'')"
    using fin q by (simp add: wa_run_def wa_step_def)
  have key: "wp_key (en_preview (demo_entry ''q'' ''y'')) = rs_key r"
    by (simp add: r demo_entry_def demo_preview_def)
  show ?thesis
    using successful_write_runs_once [OF fin e key, of "demo_decision ''q'' ''y''" 5]
    by (simp add: demo_decision_def)
qed

text \<open>Until a success is recorded the key protects nothing: of two approved previews of the
  same write, both executors start, and both executions are reported as successful.\<close>

theorem concurrent_previews_both_execute:
  assumes "map_get (wa_entries s) i = Some e" "map_get (wa_entries s) j = Some f" "i \<noteq> j"
    and "wp_state (en_preview e) = Approved" "wp_state (en_preview f) = Approved"
    and "wp_key (en_preview e) = k" "wp_key (en_preview f) = k" "map_get (wa_cache s) k = None"
  shows "\<exists>s1 s2 s3 s4 r1 r2. begin_execute i t1 s = Inr (Started s1) \<and>
     begin_execute j t2 s1 = Inr (Started s2) \<and>
     finish_execute i (Exec_done True revn code cmp) tok1 t3 s2 = Some (r1, s3) \<and>
     finish_execute j (Exec_done True revn' code' cmp') tok2 t4 s3 = Some (r2, s4) \<and>
     rs_success r1 \<and> rs_success r2 \<and> rs_key r1 = k \<and> rs_key r2 = k"
  using assms by (simp add: begin_execute_def finish_execute_def put_entry_def Let_def)

lemma concurrent_previews_both_execute_witness:
  "\<exists>s1 s2. begin_execute ''p'' 3 (wa_run (\<lambda>_. ''d'') (\<lambda>_. []) demo_ops) = Inr (Started s1) \<and>
     begin_execute ''q'' 4 s1 = Inr (Started s2)"
proof -
  let ?s = "wa_run (\<lambda>_. ''d'') (\<lambda>_. []) demo_ops"
  have 1: "map_get (wa_entries ?s) ''p'' = Some (demo_entry ''p'' ''x'')"
    "map_get (wa_entries ?s) ''q'' = Some (demo_entry ''q'' ''y'')" "map_get (wa_cache ?s) ''d'' = None"
    by (simp_all add: demo_run map_get_def)
  have 2: "wp_state (en_preview (demo_entry i t)) = Approved" "wp_key (en_preview (demo_entry i t)) = ''d''" for i t
    by (simp_all add: demo_entry_def demo_preview_def)
  show ?thesis
    using concurrent_previews_both_execute [OF 1(1,2) _ 2(1) 2(1) 2(2) 2(2) 1(3),
        where ?t1.0 = 3 and ?t2.0 = 4] by simp metis
qed

text \<open>The preview digest, and with it the idempotency key, does not depend on the order in
  which the object keys of target and effect are written, at any depth.\<close>

theorem digest_ignores_key_order:
  assumes "same_json target target'" "same_json eff eff'"
  shows "computePreviewDigest sha stringify target eff = computePreviewDigest sha stringify target' eff'"
  using assms by (simp add: computePreviewDigest_def same_json_canonical)

lemma digest_ignores_key_order_witness:
  "computePreviewDigest (\<lambda>s. s) (\<lambda>v. if v = JNull then [] else ''x'') (JObj [(''a'', JNull), (''b'', JStr [])]) JNull =
   computePreviewDigest (\<lambda>s. s) (\<lambda>v. if v = JNull then [] else ''x'') (JObj [(''b'', JStr []), (''a'', JNull)]) JNull"
  by (rule digest_ignores_key_order [OF same_json.permuted same_json.same]) simp_all

end
