(* ===== verification/Delegation.thy ===== *)
theory Delegation
  imports OrgPermissions TurnContract WriteApproval
begin

text \<open>
  packages/engine/src/delegation.ts: the delegation envelope, admission against the delegation
  history, the effective scope of a delegated worker, and the event stream of one delegation.
  \<open>parse_date\<close> is \<open>Date.parse\<close> (None for NaN), \<open>sha\<close> and \<open>stringify\<close> are SHA-256 and
  \<open>JSON.stringify\<close>. Error messages are left out; the codes are the constructors.
\<close>

section \<open>Types\<close>

datatype delegation_error =
    Envelope_invalid
  | Identity_invalid
  | Route_denied
  | Attempt_invalid
  | Engine_unsupported
  | Instruction_invalid
  | Deadline_invalid
  | Envelope_digest_mismatch
  | Scope_invalid
  | Duplicate_identity
  | Retry_invalid
  | Second_child_denied
  | History_invalid
  | Task_invalid
  | Applied_state_stale
  | Delegation_context_denied
  | Child_terminal_invalid
  | Child_indeterminate
  | Type_error

datatype delegation_engine = Qoder | Claude_code

record delegation_envelope =
  de_task :: string
  de_parent :: string
  de_child :: string
  de_by :: string
  de_to :: string
  de_attempt :: int
  de_retry :: "string option"
  de_engine :: delegation_engine
  de_instruction :: string
  de_org_digest :: string
  de_perm_digest :: string
  de_deadline :: string
  de_digest :: string

text \<open>\<open>do_json\<close> and \<open>dp_json\<close> are the whole objects, as the digest sees them.\<close>

record delegation_organization =
  do_owner :: string
  do_roles :: "(string \<times> string option) list"
  do_json :: jsval

record delegation_position =
  dq_read :: "string list"
  dq_tool_allow :: "string list"
  dq_tool_deny :: "string list"
  dq_allow :: bool
  dq_targets :: "string list"

record delegation_permissions =
  dp_owner :: string
  dp_positions :: "(string, delegation_position) jsmap"
  dp_json :: jsval

record effective_scope =
  ec_read :: "string list"
  ec_tool_allow :: "string list"
  ec_tool_deny :: "string list"

record delegation_ref =
  dr_task :: string
  dr_parent :: string
  dr_child :: string
  dr_attempt :: int
  dr_retry :: "string option"

section \<open>The envelope\<close>

definition MAX_ID_BYTES :: nat where
  "MAX_ID_BYTES = 256"

definition MAX_INSTRUCTION_BYTES :: nat where
  "MAX_INSTRUCTION_BYTES = 20000"

definition MAX_HISTORY_RECORDS :: nat where
  "MAX_HISTORY_RECORDS = 1024"

definition ENVELOPE_KEYS :: "string list" where
  "ENVELOPE_KEYS = [''schemaVersion'', ''taskId'', ''parentTurnId'', ''childTurnId'',
     ''delegatedBy'', ''routedTo'', ''trigger'', ''delegationDepth'', ''attempt'',
     ''retryOfTaskId'', ''engine'', ''instruction'', ''organizationDigest'',
     ''permissionsDigest'', ''deadline'', ''envelopeDigest'']"

definition HISTORY_KEYS :: "string list" where
  "HISTORY_KEYS = [''taskId'', ''parentTurnId'', ''childTurnId'', ''attempt'', ''retryOfTaskId'']"

text \<open>\<open>canonicalValue\<close> repeats \<open>canonicalJson\<close> of the write approvals word for word.\<close>

definition canonicalValue :: "jsval \<Rightarrow> jsval" where
  "canonicalValue v = canonicalJson v"

definition computeCanonicalDigest ::
  "(string \<Rightarrow> string) \<Rightarrow> (jsval \<Rightarrow> string) \<Rightarrow> jsval \<Rightarrow> string" where
  "computeCanonicalDigest sha stringify v =
     ''sha256:'' @ sha (if v = JUndef then ''null'' else stringify (canonicalValue v))"

definition computeDelegationEnvelopeDigest ::
  "(string \<Rightarrow> string) \<Rightarrow> (jsval \<Rightarrow> string) \<Rightarrow> jsval \<Rightarrow> string" where
  "computeDelegationEnvelopeDigest sha stringify body =
     computeCanonicalDigest sha stringify
       (case body of JObj kvs \<Rightarrow> JObj (filter (\<lambda>p. fst p \<noteq> ''envelopeDigest'') kvs) | _ \<Rightarrow> JObj [])"

definition control_char :: "char \<Rightarrow> bool" where
  "control_char c = ((of_char c :: nat) < 32 \<or> (of_char c :: nat) = 127)"

definition valid_id :: "string \<Rightarrow> bool" where
  "valid_id s = (\<not> blank s \<and> utf8_len s \<le> MAX_ID_BYTES \<and> \<not> list_ex control_char s)"

definition requireId :: "jsval \<Rightarrow> delegation_error + string" where
  "requireId v = (case js_str v of
      None \<Rightarrow> Inl Envelope_invalid
    | Some s \<Rightarrow> ensure (valid_id s) Envelope_invalid (Inr s))"

definition requireDigest :: "jsval \<Rightarrow> delegation_error + string" where
  "requireDigest v = (case js_str v of
      None \<Rightarrow> Inl Envelope_invalid
    | Some s \<Rightarrow> ensure (digest_pattern s) Envelope_invalid (Inr s))"

text \<open>An id or null.\<close>

definition require_retry :: "jsval \<Rightarrow> delegation_error + string option" where
  "require_retry v = (if v = JNull then Inr None else and_then (requireId v) (\<lambda>s. Inr (Some s)))"

definition engine_of :: "jsval \<Rightarrow> delegation_engine option" where
  "engine_of v = (if v = JStr ''qoder'' then Some Qoder
                  else if v = JStr ''claude-code'' then Some Claude_code else None)"

text \<open>\<open>/^\d{4}-\d{2}-\d{2}T/\<close>\<close>

definition iso_date_prefix :: "string \<Rightarrow> bool" where
  "iso_date_prefix s = (11 \<le> length s \<and> list_all is_digit (take 4 s) \<and> s ! 4 = CHR ''-'' \<and>
     list_all is_digit (take 2 (drop 5 s)) \<and> s ! 7 = CHR ''-'' \<and>
     list_all is_digit (take 2 (drop 8 s)) \<and> s ! 10 = CHR ''T'')"

definition parseDelegationEnvelope ::
  "(string \<Rightarrow> string) \<Rightarrow> (jsval \<Rightarrow> string) \<Rightarrow> (string \<Rightarrow> int option) \<Rightarrow> jsval \<Rightarrow>
   delegation_error + delegation_envelope" where
  "parseDelegationEnvelope sha stringify parse_date raw =
     ensure (is_plain_object raw) Envelope_invalid
    (ensure (list_all (\<lambda>k. k \<in> set ENVELOPE_KEYS) (js_keys raw) \<and> list_all (js_has raw) ENVELOPE_KEYS)
       Envelope_invalid
    (ensure (js_get raw ''schemaVersion'' = JStr ''delegation-envelope.v1'') Envelope_invalid
    (and_then (requireId (js_get raw ''taskId'')) (\<lambda>taskId.
     and_then (requireId (js_get raw ''parentTurnId'')) (\<lambda>parentTurnId.
     and_then (requireId (js_get raw ''childTurnId'')) (\<lambda>childTurnId.
     and_then (requireId (js_get raw ''delegatedBy'')) (\<lambda>delegatedBy.
     and_then (requireId (js_get raw ''routedTo'')) (\<lambda>routedTo.
     ensure (\<not> (taskId = parentTurnId \<or> taskId = childTurnId \<or> parentTurnId = childTurnId)) Identity_invalid
    (ensure (js_get raw ''trigger'' = JStr ''user_explicit'' \<and> js_get raw ''delegationDepth'' = JNum 1) Route_denied
    (case js_int (js_get raw ''attempt'') of
       None \<Rightarrow> Inl Attempt_invalid
     | Some attempt \<Rightarrow>
     ensure (1 \<le> attempt) Attempt_invalid
    (and_then (require_retry (js_get raw ''retryOfTaskId'')) (\<lambda>retry.
     ensure (\<not> (attempt = 1 \<and> retry \<noteq> None \<or> attempt > 1 \<and> retry = None \<or> retry = Some taskId)) Attempt_invalid
    (case engine_of (js_get raw ''engine'') of
       None \<Rightarrow> Inl Engine_unsupported
     | Some engine \<Rightarrow>
    (case js_str (js_get raw ''instruction'') of
       None \<Rightarrow> Inl Instruction_invalid
     | Some instruction \<Rightarrow>
     ensure (\<not> blank instruction \<and> utf8_len instruction \<le> MAX_INSTRUCTION_BYTES) Instruction_invalid
    (and_then (requireDigest (js_get raw ''organizationDigest'')) (\<lambda>organizationDigest.
     and_then (requireDigest (js_get raw ''permissionsDigest'')) (\<lambda>permissionsDigest.
    (case js_str (js_get raw ''deadline'') of
       None \<Rightarrow> Inl Deadline_invalid
     | Some deadline \<Rightarrow>
     ensure (iso_date_prefix deadline \<and> parse_date deadline \<noteq> None) Deadline_invalid
    (and_then (requireDigest (js_get raw ''envelopeDigest'')) (\<lambda>envelopeDigest.
     ensure (envelopeDigest = computeDelegationEnvelopeDigest sha stringify raw) Envelope_digest_mismatch
       (Inr \<lparr>de_task = taskId, de_parent = parentTurnId, de_child = childTurnId,
             de_by = delegatedBy, de_to = routedTo, de_attempt = attempt, de_retry = retry,
             de_engine = engine, de_instruction = instruction,
             de_org_digest = organizationDigest, de_perm_digest = permissionsDigest,
             de_deadline = deadline, de_digest = envelopeDigest\<rparr>)))))))))))))))))))))"

section \<open>Scopes\<close>

definition normalizeScope :: "string \<Rightarrow> delegation_error + string" where
  "normalizeScope v =
     ensure (\<not> (v = [] \<or> CHR 0x5C \<in> set v \<or> starts_with v ''/'' \<or> drive_prefix v)) Scope_invalid
    (let directory = ends_with v ''/'';
         source = (if starts_with v ''./'' then drop 2 v else v);
         segments = filter (\<lambda>seg. seg \<noteq> [] \<and> seg \<noteq> ''.'') (split_on (CHR ''/'') source)
     in ensure (''..'' \<notin> set segments) Scope_invalid
       (Inr (if segments = [] then ''./''
             else ''./'' @ join_with ''/'' segments @ (if directory then ''/'' else []))))"

definition scopeContains :: "string \<Rightarrow> string \<Rightarrow> bool" where
  "scopeContains container candidate =
     (container = ''./'' \<or> candidate = container \<or>
      starts_with candidate (if ends_with container ''/'' then container else container @ ''/''))"

fun scope_pairs :: "string \<Rightarrow> string list \<Rightarrow> delegation_error + string list" where
  "scope_pairs a [] = Inr []"
| "scope_pairs a (r # rs) = and_then (normalizeScope r) (\<lambda>b.
     and_then (scope_pairs a rs) (\<lambda>found.
       Inr ((if scopeContains a b then [b] else if scopeContains b a then [a] else []) @ found)))"

fun scope_rows :: "string list \<Rightarrow> string list \<Rightarrow> delegation_error + string list" where
  "scope_rows [] right = Inr []"
| "scope_rows (l # ls) right = and_then (normalizeScope l) (\<lambda>a.
     and_then (scope_pairs a right) (\<lambda>found.
       and_then (scope_rows ls right) (\<lambda>rest. Inr (found @ rest))))"

text \<open>The second loop: shortest first, keeping what no kept scope contains.\<close>

fun minimal_scopes :: "string list \<Rightarrow> string list \<Rightarrow> string list" where
  "minimal_scopes kept [] = kept"
| "minimal_scopes kept (s # ss) =
     minimal_scopes (if list_ex (\<lambda>e. scopeContains e s) kept then kept else kept @ [s]) ss"

definition by_length :: "string list \<Rightarrow> string list" where
  "by_length xs = sort_key length (sort xs)"

definition intersectContextScopes :: "string list \<Rightarrow> string list \<Rightarrow> delegation_error + string list" where
  "intersectContextScopes left right = and_then (scope_rows left right) (\<lambda>found.
     Inr (sort (minimal_scopes [] (by_length (uniq found)))))"

definition deriveEffectiveDelegationScope ::
  "delegation_position \<Rightarrow> delegation_position \<Rightarrow> delegation_error + effective_scope" where
  "deriveEffectiveDelegationScope parent worker =
     (let toolDeny = sort (uniq (dq_tool_deny parent @ dq_tool_deny worker));
          toolAllow = sort (uniq (filter (\<lambda>t. t \<in> set (dq_tool_allow worker) \<and> t \<notin> set toolDeny)
                                    (dq_tool_allow parent)))
      in and_then (intersectContextScopes (dq_read parent) (dq_read worker)) (\<lambda>contextRead.
           Inr \<lparr>ec_read = contextRead, ec_tool_allow = toolAllow, ec_tool_deny = toolDeny\<rparr>))"

section \<open>History and admission\<close>

definition parse_ref :: "jsval \<Rightarrow> delegation_error + delegation_ref" where
  "parse_ref entry =
     ensure (is_plain_object entry \<and> length (js_keys entry) = length HISTORY_KEYS \<and>
             list_all (js_has entry) HISTORY_KEYS) History_invalid
    (case (requireId (js_get entry ''taskId''), requireId (js_get entry ''parentTurnId''),
           requireId (js_get entry ''childTurnId''), require_retry (js_get entry ''retryOfTaskId'')) of
       (Inr taskId, Inr parentTurnId, Inr childTurnId, Inr retry) \<Rightarrow>
         ensure (\<not> (taskId = parentTurnId \<or> taskId = childTurnId \<or> parentTurnId = childTurnId)) History_invalid
        (case js_int (js_get entry ''attempt'') of
           None \<Rightarrow> Inl History_invalid
         | Some attempt \<Rightarrow> ensure (1 \<le> attempt) History_invalid
             (Inr \<lparr>dr_task = taskId, dr_parent = parentTurnId, dr_child = childTurnId,
                   dr_attempt = attempt, dr_retry = retry\<rparr>))
     | _ \<Rightarrow> Inl History_invalid)"

text \<open>The first loop, with the two sets of identities seen so far.\<close>

fun history_refs :: "string list \<Rightarrow> string list \<Rightarrow> jsval list \<Rightarrow> delegation_error + delegation_ref list" where
  "history_refs taskIds childTurnIds [] = Inr []"
| "history_refs taskIds childTurnIds (entry # rest) = and_then (parse_ref entry) (\<lambda>r.
     ensure (dr_task r \<notin> set taskIds \<and> dr_child r \<notin> set childTurnIds) History_invalid
    (and_then (history_refs (dr_task r # taskIds) (dr_child r # childTurnIds) rest) (\<lambda>refs.
       Inr (r # refs))))"

fun group_by_parent ::
  "(string, delegation_ref list) jsmap \<Rightarrow> delegation_ref list \<Rightarrow> (string, delegation_ref list) jsmap" where
  "group_by_parent m [] = m"
| "group_by_parent m (r # rs) = group_by_parent
     (map_set m (dr_parent r) ((case map_get m (dr_parent r) of None \<Rightarrow> [] | Some g \<Rightarrow> g) @ [r])) rs"

fun linear_chain :: "int \<Rightarrow> string option \<Rightarrow> delegation_ref list \<Rightarrow> bool" where
  "linear_chain attempt prior [] \<longleftrightarrow> True"
| "linear_chain attempt prior (e # es) \<longleftrightarrow> dr_attempt e = attempt \<and> dr_retry e = prior \<and>
     linear_chain (attempt + 1) (Some (dr_task e)) es"

definition validateExistingDelegationHistory :: "jsval list \<Rightarrow> delegation_error + delegation_ref list" where
  "validateExistingDelegationHistory existing =
     ensure (length existing \<le> MAX_HISTORY_RECORDS) History_invalid
    (and_then (history_refs [] [] existing) (\<lambda>refs.
     ensure (list_all (\<lambda>g. linear_chain 1 None (sort_key dr_attempt g))
               (map_values (group_by_parent [] refs))) History_invalid
       (Inr refs)))"

definition parseExistingDelegationHistory :: "jsval \<Rightarrow> delegation_error + delegation_ref list" where
  "parseExistingDelegationHistory raw = (case raw of
      JArr existing \<Rightarrow> validateExistingDelegationHistory existing | _ \<Rightarrow> Inl History_invalid)"

definition validateDelegationAdmission :: "delegation_envelope \<Rightarrow> jsval list \<Rightarrow> delegation_error + unit" where
  "validateDelegationAdmission envelope existing =
     and_then (validateExistingDelegationHistory existing) (\<lambda>refs.
     ensure (\<not> list_ex (\<lambda>r. dr_task r = de_task envelope \<or> dr_child r = de_child envelope) refs)
       Duplicate_identity
    (let siblings = sort_key dr_attempt (filter (\<lambda>r. dr_parent r = de_parent envelope) refs)
     in if siblings = []
        then ensure (de_attempt envelope = 1 \<and> de_retry envelope = None) Retry_invalid (Inr ())
        else ensure (de_retry envelope \<noteq> None) Second_child_denied
            (ensure (de_retry envelope = Some (dr_task (last siblings)) \<and>
                     de_attempt envelope = dr_attempt (last siblings) + 1) Retry_invalid
              (Inr ()))))"

section \<open>The task record\<close>

definition strings_value :: "string list \<Rightarrow> jsval" where
  "strings_value xs = JArr (map JStr xs)"

text \<open>The effective scope as the object the code builds; writes and delegation are always denied.\<close>

definition scope_value :: "effective_scope \<Rightarrow> jsval" where
  "scope_value s = JObj [(''contextRead'', strings_value (ec_read s)),
     (''toolAllow'', strings_value (ec_tool_allow s)), (''toolDeny'', strings_value (ec_tool_deny s)),
     (''writes'', JStr ''deny''), (''delegation'', JStr ''deny'')]"

record task_record =
  tr_envelope :: delegation_envelope
  tr_parent_conversation :: string
  tr_child_conversation :: string
  tr_scope :: effective_scope
  tr_scope_digest :: string
  tr_status :: string
  tr_created :: string
  tr_updated :: string

definition createRequestedTaskRecord ::
  "(string \<Rightarrow> string) \<Rightarrow> (jsval \<Rightarrow> string) \<Rightarrow> (string \<Rightarrow> int option) \<Rightarrow> delegation_envelope \<Rightarrow>
   jsval \<Rightarrow> jsval \<Rightarrow> effective_scope \<Rightarrow> string \<Rightarrow> delegation_error + task_record" where
  "createRequestedTaskRecord sha stringify parse_date envelope parentConversation childConversation scope createdAt =
     and_then (requireId parentConversation) (\<lambda>pc.
     and_then (requireId childConversation) (\<lambda>cc.
     ensure (parse_date createdAt \<noteq> None) Task_invalid
      (Inr \<lparr>tr_envelope = envelope, tr_parent_conversation = pc, tr_child_conversation = cc,
            tr_scope = scope, tr_scope_digest = computeCanonicalDigest sha stringify (scope_value scope),
            tr_status = ''requested'', tr_created = createdAt, tr_updated = createdAt\<rparr>)))"

section \<open>Route and digests\<close>

text \<open>\<open>positions[id]\<close> on a plain object: an inherited member is truthy and has no
  \<open>authorityScope\<close>, so reading through it is a TypeError.\<close>

definition validateRouteAndDigests ::
  "(string \<Rightarrow> string) \<Rightarrow> (jsval \<Rightarrow> string) \<Rightarrow> delegation_envelope \<Rightarrow> delegation_organization \<Rightarrow>
   delegation_permissions \<Rightarrow> delegation_error + effective_scope" where
  "validateRouteAndDigests sha stringify envelope org perms =
     ensure (de_org_digest envelope = computeCanonicalDigest sha stringify (do_json org) \<and>
             de_perm_digest envelope = computeCanonicalDigest sha stringify (dp_json perms))
       Applied_state_stale
    (ensure (do_owner org = dp_owner perms \<and> de_by envelope = do_owner org \<and>
             de_to envelope \<noteq> de_by envelope) Route_denied
    (case find (\<lambda>r. fst r = de_to envelope) (do_roles org) of
       None \<Rightarrow> Inl Route_denied
     | Some role \<Rightarrow>
         ensure (snd role = Some (de_by envelope)) Route_denied
        (case (prop_read (dp_positions perms) (de_by envelope),
               prop_read (dp_positions perms) (de_to envelope)) of
           (Absent, _) \<Rightarrow> Inl Route_denied
         | (_, Absent) \<Rightarrow> Inl Route_denied
         | (Inherited, _) \<Rightarrow> Inl Type_error
         | (Own parent, worker) \<Rightarrow>
             ensure (dq_allow parent \<and> de_to envelope \<in> set (dq_targets parent)) Route_denied
            (case worker of
               Own w \<Rightarrow>
                 ensure (\<not> dq_allow w) Route_denied
                (and_then (deriveEffectiveDelegationScope parent w) (\<lambda>scope.
                 ensure (ec_read scope \<noteq> []) Delegation_context_denied (Inr scope)))
             | _ \<Rightarrow> Inl Type_error))))"

section \<open>Executing a delegation\<close>

text \<open>The terminal error comes from the child port; its types are checked at run time.\<close>

record terminal_error =
  te_code :: string
  te_message :: jsval
  te_retryable :: jsval

definition ERROR_CODE_PATTERN :: "string \<Rightarrow> bool" where
  "ERROR_CODE_PATTERN s = ENGINE_ERROR_CODE_PATTERN s"

definition validateTerminalError :: "terminal_error \<Rightarrow> delegation_error + unit" where
  "validateTerminalError e =
     ensure (ERROR_CODE_PATTERN (te_code e) \<and>
             (case js_str (te_message e) of None \<Rightarrow> False | Some m \<Rightarrow> utf8_len m \<le> 2000) \<and>
             js_bool (te_retryable e) \<noteq> None) Child_terminal_invalid (Inr ())"

record child_run_request =
  cr_run :: string
  cr_engine :: delegation_engine
  cr_position :: string
  cr_instruction :: string
  cr_deadline :: string
  cr_scope :: effective_scope

datatype child_signal =
    On_started
  | On_usage jsval jsval jsval

datatype child_outcome =
    Child_threw
  | Child_completed jsval
  | Child_failed terminal_error
  | Child_cancelled terminal_error

datatype delegation_payload =
    D_started string
  | D_usage "(string \<times> int) list"
  | D_completed string string string
  | D_failed string terminal_error
  | D_cancelled string terminal_error

record delegation_event =
  dv_id :: string
  dv_sequence :: nat
  dv_task :: string
  dv_parent :: string
  dv_child :: string
  dv_by :: string
  dv_to :: string
  dv_attempt :: int
  dv_time :: string
  dv_payload :: delegation_payload

text \<open>The child calls its callbacks before it settles; \<open>dx_now k\<close> and \<open>dx_id k\<close> are the values of
  the k-th call of the clock and of \<open>newId\<close>.\<close>

record delegation_options =
  dx_organization :: delegation_organization
  dx_permissions :: delegation_permissions
  dx_existing :: "jsval list"
  dx_now :: "nat \<Rightarrow> string"
  dx_id :: "nat \<Rightarrow> string"
  dx_run_id :: string
  dx_child :: "child_run_request \<Rightarrow> child_signal list \<times> child_outcome"

datatype delegation_exit = D_returned | D_threw delegation_error | D_rethrown

record delegation_run =
  dn_child :: "child_run_request option"
  dn_events :: "delegation_event list"
  dn_exit :: delegation_exit

definition bounded_usage :: "(string \<times> jsval) list \<Rightarrow> (string \<times> int) list" where
  "bounded_usage kvs = concat (map (\<lambda>(k, v). case js_safe_int v of
      None \<Rightarrow> [] | Some n \<Rightarrow> if 0 \<le> n then [(k, n)] else []) kvs)"

text \<open>The callbacks: whether \<open>startedAt\<close> is set, and the usage entries collected.\<close>

fun child_callbacks :: "bool \<Rightarrow> child_signal list \<Rightarrow> bool \<times> (string \<times> int) list list" where
  "child_callbacks started [] = (started, [])"
| "child_callbacks started (On_started # xs) = child_callbacks True xs"
| "child_callbacks started (On_usage i out tot # xs) =
     (let (s, us) = child_callbacks started xs;
          b = bounded_usage [(''inputTokens'', i), (''outputTokens'', out), (''totalTokens'', tot)]
      in (s, if started \<and> b \<noteq> [] then b # us else us))"

definition delegation_common ::
  "delegation_envelope \<Rightarrow> delegation_options \<Rightarrow> nat \<Rightarrow> delegation_payload \<Rightarrow> delegation_event" where
  "delegation_common envelope opts k payload =
     \<lparr>dv_id = dx_id opts k, dv_sequence = Suc k, dv_task = de_task envelope,
      dv_parent = de_parent envelope, dv_child = de_child envelope, dv_by = de_by envelope,
      dv_to = de_to envelope, dv_attempt = de_attempt envelope, dv_time = dx_now opts k,
      dv_payload = payload\<rparr>"

fun engine_value :: "delegation_engine \<Rightarrow> jsval" where
  "engine_value Qoder = JStr ''qoder''"
| "engine_value Claude_code = JStr ''claude-code''"

definition evidence_value :: "delegation_envelope \<Rightarrow> string \<Rightarrow> string \<Rightarrow> string \<Rightarrow> jsval" where
  "evidence_value envelope runId scopeDigest outputDigest = JObj
     [(''schemaVersion'', JStr ''delegation-evidence.v1''), (''taskId'', JStr (de_task envelope)),
      (''parentTurnId'', JStr (de_parent envelope)), (''childTurnId'', JStr (de_child envelope)),
      (''runId'', JStr runId), (''engine'', engine_value (de_engine envelope)),
      (''organizationDigest'', JStr (de_org_digest envelope)),
      (''permissionsDigest'', JStr (de_perm_digest envelope)),
      (''scopeDigest'', JStr scopeDigest), (''outputDigest'', JStr outputDigest)]"

text \<open>The final payload of a child that settled; a failure is checked first.\<close>

definition terminal_payload ::
  "(string \<Rightarrow> string) \<Rightarrow> (jsval \<Rightarrow> string) \<Rightarrow> delegation_envelope \<Rightarrow> string \<Rightarrow> string \<Rightarrow> child_outcome \<Rightarrow>
   delegation_error + delegation_payload" where
  "terminal_payload sha stringify envelope runId scopeDigest outcome = (case outcome of
      Child_completed output \<Rightarrow>
        (let outputDigest = computeCanonicalDigest sha stringify output
         in Inr (D_completed runId outputDigest
              (computeCanonicalDigest sha stringify (evidence_value envelope runId scopeDigest outputDigest))))
    | Child_failed e \<Rightarrow> and_then (validateTerminalError e) (\<lambda>_. Inr (D_failed runId e))
    | Child_cancelled e \<Rightarrow> and_then (validateTerminalError e) (\<lambda>_. Inr (D_cancelled runId e))
    | Child_threw \<Rightarrow> Inl Child_indeterminate)"

text \<open>The events after the child has run; the started event carries the clock value of the first
  \<open>onStarted\<close>, the clock's first call. A child that throws is rethrown after the started event.\<close>

definition settle_delegation ::
  "(string \<Rightarrow> string) \<Rightarrow> (jsval \<Rightarrow> string) \<Rightarrow> delegation_envelope \<Rightarrow> delegation_options \<Rightarrow>
   effective_scope \<Rightarrow> child_signal list \<Rightarrow> child_outcome \<Rightarrow> delegation_event list \<times> delegation_exit" where
  "settle_delegation sha stringify envelope opts scope signals outcome =
     (let (started, usage) = child_callbacks False signals;
          scopeDigest = computeCanonicalDigest sha stringify (scope_value scope);
          event = delegation_common envelope opts;
          first = event 0 (D_started scopeDigest);
          before = first # map (\<lambda>(k, u). event (Suc k) (D_usage u)) (enumerate 0 usage)
      in if outcome = Child_threw then (if started then [first] else [], D_rethrown)
         else if \<not> started then ([], D_threw Child_indeterminate)
         else (case terminal_payload sha stringify envelope (dx_run_id opts) scopeDigest outcome of
             Inl err \<Rightarrow> (before, D_threw err)
           | Inr payload \<Rightarrow> (before @ [event (length before) payload], D_returned)))"

definition executeDelegation ::
  "(string \<Rightarrow> string) \<Rightarrow> (jsval \<Rightarrow> string) \<Rightarrow> delegation_envelope \<Rightarrow> delegation_options \<Rightarrow> delegation_run" where
  "executeDelegation sha stringify envelope opts =
     (case and_then (validateDelegationAdmission envelope (dx_existing opts)) (\<lambda>_.
              validateRouteAndDigests sha stringify envelope (dx_organization opts) (dx_permissions opts)) of
        Inl e \<Rightarrow> \<lparr>dn_child = None, dn_events = [], dn_exit = D_threw e\<rparr>
      | Inr scope \<Rightarrow>
          (let request = \<lparr>cr_run = dx_run_id opts, cr_engine = de_engine envelope,
                 cr_position = de_to envelope, cr_instruction = de_instruction envelope,
                 cr_deadline = de_deadline envelope, cr_scope = scope\<rparr>;
               (signals, outcome) = dx_child opts request;
               (events, exit) = settle_delegation sha stringify envelope opts scope signals outcome
           in \<lparr>dn_child = Some request, dn_events = events, dn_exit = exit\<rparr>))"

section \<open>The effective scope is an intersection\<close>

definition scope_prefix :: "string \<Rightarrow> string" where
  "scope_prefix s = (if ends_with s ''/'' then s else s @ ''/'')"

definition scope_form :: "string \<Rightarrow> bool" where
  "scope_form s \<longleftrightarrow> starts_with s ''./''"

lemma normalized_scope_form: "normalizeScope v = Inr s \<Longrightarrow> scope_form s"
  by (auto simp: normalizeScope_def scope_form_def starts_with_append ensure_Inr Let_def split: if_splits)

lemma contains_unfold:
  "scopeContains a p \<longleftrightarrow> a = ''./'' \<or> p = a \<or> (\<exists>t. p = scope_prefix a @ t)"
  by (auto simp: scopeContains_def scope_prefix_def starts_with_append)

lemma contains_refl [simp]: "scopeContains a a"
  by (simp add: contains_unfold)

lemma prefix_of_scope: "\<exists>t. scope_prefix a = a @ t \<and> length t \<le> 1"
  by (simp add: scope_prefix_def)

lemma prefix_longer: "scope_form a \<Longrightarrow> a \<noteq> ''./'' \<Longrightarrow> 2 < length (scope_prefix a)"
  by (auto simp: scope_form_def scope_prefix_def starts_with_append)

lemma contains_root:
  assumes "scope_form a" "scopeContains a ''./''"
  shows "a = ''./''"
proof (rule ccontr)
  assume n: "a \<noteq> ''./''"
  with assms(2) obtain t where t: "''./'' = scope_prefix a @ t" by (auto simp: contains_unfold)
  have "length (scope_prefix a) \<le> length ''./''" unfolding t by simp
  with prefix_longer [OF assms(1) n] show False by simp
qed

lemma contains_trans:
  assumes "scope_form a" "scopeContains a b" "scopeContains b p"
  shows "scopeContains a p"
proof (cases "b = ''./''")
  case True
  with assms contains_root [of a] show ?thesis by (simp add: contains_unfold)
next
  case False
  have "\<exists>t. scope_prefix b = scope_prefix a @ t" if "b = scope_prefix a @ u" for u
    using that prefix_of_scope [of b] by auto
  then show ?thesis using assms(2,3) False by (auto simp: contains_unfold)
qed

lemma prefix_compare:
  assumes "scope_prefix a @ t = scope_prefix b @ u" "length (scope_prefix a) \<le> length (scope_prefix b)"
  shows "scopeContains a b \<or> scopeContains b a"
proof -
  obtain v where v: "scope_prefix b = scope_prefix a @ v"
    using assms by (auto simp: append_eq_append_conv_if) (metis append_take_drop_id)
  show ?thesis
  proof (cases "ends_with b ''/'' \<or> v = []")
    case True
    then show ?thesis
    proof
      assume "ends_with b ''/''"
      then show ?thesis using v by (auto simp: contains_unfold scope_prefix_def [of b])
    next
      assume "v = []"
      then show ?thesis using v
        by (auto simp: contains_unfold scope_prefix_def split: if_splits)
    qed
  next
    case False
    then obtain w c where "v = w @ [c]" by (metis rev_exhaust)
    with v False have "b = scope_prefix a @ w" by (simp add: scope_prefix_def [of b])
    then show ?thesis by (auto simp: contains_unfold)
  qed
qed

lemma contains_comparable:
  assumes "scopeContains a p" "scopeContains b p"
  shows "scopeContains a b \<or> scopeContains b a"
proof -
  consider "a = ''./'' \<or> b = ''./''" | "p = a" | "p = b"
    | t u where "p = scope_prefix a @ t" "p = scope_prefix b @ u"
    using assms unfolding contains_unfold by blast
  then show ?thesis
  proof cases
    case 1
    then show ?thesis by (auto simp: contains_unfold)
  next
    case 4
    then have eq: "scope_prefix a @ t = scope_prefix b @ u" by simp
    show ?thesis
      using prefix_compare [OF eq] prefix_compare [OF eq [symmetric]] by linarith
  qed (use assms in auto)
qed

lemma contains_length:
  assumes "scope_form b" "scopeContains a b"
  shows "length a \<le> length b" and "length a = length b \<Longrightarrow> a = b"
  using assms prefix_of_scope [of a]
  by (auto simp: contains_unfold scope_form_def starts_with_append)

lemma minimal_scopes_mem: "set (minimal_scopes kept ss) \<subseteq> set kept \<union> set ss"
  by (induction kept ss rule: minimal_scopes.induct) (auto split: if_splits)

lemma minimal_scopes_kept: "set kept \<subseteq> set (minimal_scopes kept ss)"
  by (induction kept ss rule: minimal_scopes.induct) (auto split: if_splits)

lemma minimal_scopes_cover:
  "s \<in> set ss \<Longrightarrow> \<exists>e \<in> set (minimal_scopes kept ss). scopeContains e s"
proof (induction kept ss rule: minimal_scopes.induct)
  case (2 kept x ss)
  show ?case
  proof (cases "s \<in> set ss")
    case True
    then show ?thesis using 2 by simp
  next
    case False
    with 2(2) have x: "s = x" by simp
    let ?k = "if list_ex (\<lambda>e. scopeContains e x) kept then kept else kept @ [x]"
    have "\<exists>e \<in> set ?k. scopeContains e x" by (auto simp: list_ex_iff)
    then have "\<exists>e \<in> set (minimal_scopes ?k ss). scopeContains e x"
      using minimal_scopes_kept [of ?k ss] by blast
    then show ?thesis by (simp add: x)
  qed
qed simp

definition unrelated :: "string \<Rightarrow> string \<Rightarrow> bool" where
  "unrelated a b \<longleftrightarrow> \<not> scopeContains a b \<and> \<not> scopeContains b a"

lemma minimal_scopes_unrelated:
  assumes "sorted_wrt unrelated kept" "list_all scope_form kept" "list_all scope_form ss"
    and "sorted (map length ss)" "distinct (kept @ ss)"
    and "\<And>k s. k \<in> set kept \<Longrightarrow> s \<in> set ss \<Longrightarrow> length k \<le> length s"
  shows "sorted_wrt unrelated (minimal_scopes kept ss)"
  using assms
proof (induction kept ss rule: minimal_scopes.induct)
  case (2 kept x ss)
  show ?case
  proof (cases "list_ex (\<lambda>e. scopeContains e x) kept")
    case True
    then show ?thesis using 2 by simp
  next
    case False
    have "\<not> scopeContains x k" if "k \<in> set kept" for k
    proof
      assume c: "scopeContains x k"
      have "scope_form k" using that 2(3) by (auto simp: list_all_iff)
      from contains_length [OF this c] that 2(7) [of k x] have "x = k" by auto
      with that 2(6) show False by auto
    qed
    with False have "\<forall>k \<in> set kept. unrelated k x" by (auto simp: unrelated_def list_ex_iff)
    then have "sorted_wrt unrelated (kept @ [x])" using 2(2) by (simp add: sorted_wrt_append)
    then show ?thesis using 2 False by auto
  qed
qed simp

lemma set_by_length [simp]: "set (by_length xs) = set xs"
  by (simp add: by_length_def)

lemma scope_pairs_mem:
  "scope_pairs a rs = Inr found \<Longrightarrow>
   s \<in> set found \<longleftrightarrow> (\<exists>r \<in> set rs. \<exists>b. normalizeScope r = Inr b \<and>
     (scopeContains a b \<and> s = b \<or> \<not> scopeContains a b \<and> scopeContains b a \<and> s = a))"
proof (induction rs arbitrary: found)
  case Nil
  then show ?case by simp
next
  case (Cons r rs)
  then obtain b f where b: "normalizeScope r = Inr b" and f: "scope_pairs a rs = Inr f"
    and found: "found = (if scopeContains a b then [b] else if scopeContains b a then [a] else []) @ f"
    by (auto simp: accepts)
  have "s \<in> set found \<longleftrightarrow> (scopeContains a b \<and> s = b \<or> \<not> scopeContains a b \<and> scopeContains b a \<and> s = a) \<or>
      s \<in> set f" by (auto simp: found)
  then show ?case unfolding Cons.IH [OF f] using b by simp
qed

lemma scope_pairs_all: "scope_pairs a rs = Inr found \<Longrightarrow> r \<in> set rs \<Longrightarrow> \<exists>b. normalizeScope r = Inr b"
  by (induction rs arbitrary: found) (auto simp: accepts)

lemma scope_rows_mem:
  "scope_rows ls rs = Inr found \<Longrightarrow>
   s \<in> set found \<longleftrightarrow> (\<exists>l \<in> set ls. \<exists>a. normalizeScope l = Inr a \<and>
     (\<exists>r \<in> set rs. \<exists>b. normalizeScope r = Inr b \<and>
        (scopeContains a b \<and> s = b \<or> \<not> scopeContains a b \<and> scopeContains b a \<and> s = a)))"
proof (induction ls arbitrary: found)
  case Nil
  then show ?case by simp
next
  case (Cons l ls)
  then obtain a f rest where a: "normalizeScope l = Inr a" and f: "scope_pairs a rs = Inr f"
    and rest: "scope_rows ls rs = Inr rest" and found: "found = f @ rest"
    by (auto simp: accepts)
  show ?case unfolding found set_append Un_iff Cons.IH [OF rest] scope_pairs_mem [OF f] using a by simp
qed

lemma unrelated_distinct: "sorted_wrt unrelated xs \<Longrightarrow> distinct xs"
  by (induction xs) (auto simp: unrelated_def)

definition scope_grants :: "string list \<Rightarrow> string \<Rightarrow> bool" where
  "scope_grants scopes p \<longleftrightarrow>
     list_ex (\<lambda>r. case normalizeScope r of Inl _ \<Rightarrow> False | Inr s \<Rightarrow> scopeContains s p) scopes"

lemma scope_grants_iff:
  "scope_grants scopes p \<longleftrightarrow> (\<exists>r \<in> set scopes. \<exists>s. normalizeScope r = Inr s \<and> scopeContains s p)"
proof -
  have "(case normalizeScope r of Inl _ \<Rightarrow> False | Inr s \<Rightarrow> scopeContains s p) \<longleftrightarrow>
      (\<exists>s. normalizeScope r = Inr s \<and> scopeContains s p)" for r
    by (cases "normalizeScope r") auto
  then show ?thesis by (simp add: scope_grants_def list_ex_iff)
qed

lemma rows_grant:
  assumes "scope_rows ls rs = Inr found"
  shows "(\<exists>s \<in> set found. scopeContains s p) \<longleftrightarrow> scope_grants ls p \<and> scope_grants rs p"
proof
  assume "\<exists>s \<in> set found. scopeContains s p"
  then obtain s where s0: "s \<in> set found" and p: "scopeContains s p" by blast
  from s0 [unfolded scope_rows_mem [OF assms]] obtain l a r b where l: "l \<in> set ls" "normalizeScope l = Inr a" and r: "r \<in> set rs" "normalizeScope r = Inr b"
    and s: "scopeContains a b \<and> s = b \<or> \<not> scopeContains a b \<and> scopeContains b a \<and> s = a"
    by blast
  have "scopeContains a p" "scopeContains b p"
    using s p contains_trans normalized_scope_form [OF l(2)] normalized_scope_form [OF r(2)] by blast+
  then show "scope_grants ls p \<and> scope_grants rs p"
    unfolding scope_grants_iff using l r by blast
next
  assume "scope_grants ls p \<and> scope_grants rs p"
  then obtain l a r b where l: "l \<in> set ls" "normalizeScope l = Inr a" "scopeContains a p"
    and r: "r \<in> set rs" "normalizeScope r = Inr b" "scopeContains b p"
    unfolding scope_grants_iff by blast
  have "(if scopeContains a b then b else a) \<in> set found"
    unfolding scope_rows_mem [OF assms] using contains_comparable [OF l(3) r(3)] l(1,2) r(1,2) by auto
  then show "\<exists>s \<in> set found. scopeContains s p" using l(3) r(3) by (auto split: if_splits)
qed

lemma intersect_spec:
  assumes "intersectContextScopes ls rs = Inr out"
  shows "(\<exists>s \<in> set out. scopeContains s p) \<longleftrightarrow> scope_grants ls p \<and> scope_grants rs p"
    and "distinct out" and "\<And>a b. a \<in> set out \<Longrightarrow> b \<in> set out \<Longrightarrow> scopeContains a b \<Longrightarrow> a = b"
proof -
  obtain found where found: "scope_rows ls rs = Inr found"
    and out: "out = sort (minimal_scopes [] (by_length (uniq found)))"
    using assms by (auto simp: intersectContextScopes_def accepts)
  let ?m = "minimal_scopes [] (by_length (uniq found))"
  have forms: "scope_form s" if "s \<in> set found" for s
    using that scope_rows_mem [OF found] normalized_scope_form by blast
  have sub: "set ?m \<subseteq> set found" using minimal_scopes_mem [of "[]" "by_length (uniq found)"] by simp
  have "(\<exists>s \<in> set ?m. scopeContains s p) \<longleftrightarrow> (\<exists>s \<in> set found. scopeContains s p)"
  proof
    assume "\<exists>s \<in> set found. scopeContains s p"
    then obtain s where s: "s \<in> set found" "scopeContains s p" by blast
    then obtain e where e: "e \<in> set ?m" "scopeContains e s"
      using minimal_scopes_cover [of s "by_length (uniq found)" "[]"] by auto
    with sub forms have "scope_form e" by blast
    then show "\<exists>s \<in> set ?m. scopeContains s p" using contains_trans e s by blast
  qed (use sub in blast)
  then show "(\<exists>s \<in> set out. scopeContains s p) \<longleftrightarrow> scope_grants ls p \<and> scope_grants rs p"
    using rows_grant [OF found] by (simp add: out)
  have un: "sorted_wrt unrelated ?m"
    using forms by (intro minimal_scopes_unrelated) (auto simp: by_length_def list_all_iff distinct_sort)
  then show "distinct out"
    unfolding out distinct_sort by (rule unrelated_distinct)
  show "a = b" if "a \<in> set out" "b \<in> set out" "scopeContains a b" for a b
  proof (rule ccontr)
    assume n: "a \<noteq> b"
    have ab: "a \<in> set ?m" "b \<in> set ?m" using that by (simp_all add: out)
    then obtain i j where "i < length ?m" "j < length ?m" "?m ! i = a" "?m ! j = b"
      by (auto simp: in_set_conv_nth)
    with n un have "unrelated a b \<or> unrelated b a"
      by (metis linorder_neqE_nat sorted_wrt_nth_less)
    with that(3) show False by (auto simp: unrelated_def)
  qed
qed

section \<open>Histories that admission builds\<close>

text \<open>A store that records every admitted delegation, in the reference shape of the history.\<close>

definition ref_of :: "delegation_envelope \<Rightarrow> delegation_ref" where
  "ref_of e = \<lparr>dr_task = de_task e, dr_parent = de_parent e, dr_child = de_child e,
               dr_attempt = de_attempt e, dr_retry = de_retry e\<rparr>"

definition ref_value :: "delegation_ref \<Rightarrow> jsval" where
  "ref_value r = JObj [(''taskId'', JStr (dr_task r)), (''parentTurnId'', JStr (dr_parent r)),
     (''childTurnId'', JStr (dr_child r)), (''attempt'', JNum (of_int (dr_attempt r))),
     (''retryOfTaskId'', case dr_retry r of None \<Rightarrow> JNull | Some t \<Rightarrow> JStr t)]"

definition admit_step ::
  "(string \<Rightarrow> string) \<Rightarrow> (jsval \<Rightarrow> string) \<Rightarrow> (string \<Rightarrow> int option) \<Rightarrow> jsval \<Rightarrow> jsval list \<Rightarrow> jsval list" where
  "admit_step sha stringify parse_date raw history =
     (case parseDelegationEnvelope sha stringify parse_date raw of
        Inl _ \<Rightarrow> history
      | Inr e \<Rightarrow> (case validateDelegationAdmission e history of
            Inl _ \<Rightarrow> history | Inr _ \<Rightarrow> history @ [ref_value (ref_of e)]))"

definition ref_wf :: "delegation_ref \<Rightarrow> bool" where
  "ref_wf r \<longleftrightarrow> valid_id (dr_task r) \<and> valid_id (dr_parent r) \<and> valid_id (dr_child r) \<and>
     dr_task r \<noteq> dr_parent r \<and> dr_task r \<noteq> dr_child r \<and> dr_parent r \<noteq> dr_child r \<and> 1 \<le> dr_attempt r \<and>
     (case dr_retry r of None \<Rightarrow> True | Some t \<Rightarrow> valid_id t)"

definition siblings_of :: "string \<Rightarrow> delegation_ref list \<Rightarrow> delegation_ref list" where
  "siblings_of p refs = filter (\<lambda>r. dr_parent r = p) refs"

definition history_ok :: "delegation_ref list \<Rightarrow> bool" where
  "history_ok refs \<longleftrightarrow> list_all ref_wf refs \<and> distinct (map dr_task refs) \<and>
     distinct (map dr_child refs) \<and> (\<forall>p. linear_chain 1 None (siblings_of p refs))"

lemma requireId_Inr: "requireId v = Inr s \<longleftrightarrow> v = JStr s \<and> valid_id s"
  by (cases v) (auto simp: requireId_def ensure_Inr)

lemma require_retry_Inr:
  "require_retry v = Inr x \<longleftrightarrow> (case x of None \<Rightarrow> v = JNull | Some t \<Rightarrow> v = JStr t \<and> valid_id t)"
  by (cases x) (auto simp: require_retry_def accepts requireId_Inr)

lemma parsed_ref_wf:
  assumes "parseDelegationEnvelope sha stringify parse_date raw = Inr e"
  shows "ref_wf (ref_of e)"
  using assms
  unfolding parseDelegationEnvelope_def accepts option_Inr requireId_Inr require_retry_Inr
  by (elim exE conjE) (auto simp: ref_wf_def ref_of_def split: option.splits)

lemma parse_ref_value: "ref_wf r \<Longrightarrow> parse_ref (ref_value r) = Inr r"
proof -
  assume wf: "ref_wf r"
  have get: "js_get (ref_value r) ''taskId'' = JStr (dr_task r)"
    "js_get (ref_value r) ''parentTurnId'' = JStr (dr_parent r)"
    "js_get (ref_value r) ''childTurnId'' = JStr (dr_child r)"
    "js_get (ref_value r) ''attempt'' = JNum (of_int (dr_attempt r))"
    "js_get (ref_value r) ''retryOfTaskId'' = (case dr_retry r of None \<Rightarrow> JNull | Some t \<Rightarrow> JStr t)"
    by (simp_all add: ref_value_def)
  have ids: "requireId (JStr (dr_task r)) = Inr (dr_task r)" "requireId (JStr (dr_parent r)) = Inr (dr_parent r)"
    "requireId (JStr (dr_child r)) = Inr (dr_child r)"
    "require_retry (case dr_retry r of None \<Rightarrow> JNull | Some t \<Rightarrow> JStr t) = Inr (dr_retry r)"
    using wf by (auto simp: ref_wf_def requireId_Inr require_retry_Inr split: option.splits)
  have shape: "is_plain_object (ref_value r)" "js_keys (ref_value r) = HISTORY_KEYS"
    "list_all (js_has (ref_value r)) HISTORY_KEYS"
    by (simp_all add: ref_value_def HISTORY_KEYS_def js_has_def)
  show ?thesis
    unfolding parse_ref_def get ids shape(2) using shape wf
    by (simp add: ref_wf_def ensure_def del: js_int.simps)
qed

lemma history_refs_values:
  "list_all ref_wf refs \<Longrightarrow> distinct (map dr_task refs) \<Longrightarrow> distinct (map dr_child refs) \<Longrightarrow>
   set ts \<inter> dr_task ` set refs = {} \<Longrightarrow> set cs \<inter> dr_child ` set refs = {} \<Longrightarrow>
   history_refs ts cs (map ref_value refs) = Inr refs"
  by (induction refs arbitrary: ts cs) (auto simp: parse_ref_value ensure_def)

lemma group_by_parent_get:
  "map_get (group_by_parent m refs) p =
     (case map_get m p of
        None \<Rightarrow> if siblings_of p refs = [] then None else Some (siblings_of p refs)
      | Some g \<Rightarrow> Some (g @ siblings_of p refs))"
  by (induction m refs rule: group_by_parent.induct) (auto simp: siblings_of_def split: option.splits)

lemma group_by_parent_wf: "map_wf m \<Longrightarrow> map_wf (group_by_parent m refs)"
  by (induction m refs rule: group_by_parent.induct) auto

lemma group_values:
  "g \<in> set (map_values (group_by_parent [] refs)) \<Longrightarrow> \<exists>p. g = siblings_of p refs"
  by (auto simp: map_values_get group_by_parent_wf group_by_parent_get split: if_splits)

lemma linear_chain_sorted: "linear_chain n p xs \<Longrightarrow> sorted (map dr_attempt xs) \<and> (\<forall>x \<in> set xs. n \<le> dr_attempt x)"
  by (induction n p xs rule: linear_chain.induct) fastforce+

lemma linear_chain_sort: "linear_chain n p xs \<Longrightarrow> sort_key dr_attempt xs = xs"
  by (simp add: linear_chain_sorted sort_key_id_if_sorted)

lemma linear_chain_snoc:
  "linear_chain n p (xs @ [e]) \<longleftrightarrow> linear_chain n p xs \<and> dr_attempt e = n + int (length xs) \<and>
     dr_retry e = (if xs = [] then p else Some (dr_task (last xs)))"
  by (induction n p xs rule: linear_chain.induct) auto

lemma linear_chain_last: "linear_chain n p xs \<Longrightarrow> xs \<noteq> [] \<Longrightarrow> dr_attempt (last xs) = n + int (length xs) - 1"
  by (induction n p xs rule: linear_chain.induct) auto

lemma history_validates:
  assumes "history_ok refs" "length refs \<le> MAX_HISTORY_RECORDS"
  shows "validateExistingDelegationHistory (map ref_value refs) = Inr refs"
proof -
  have "list_all (\<lambda>g. linear_chain 1 None (sort_key dr_attempt g)) (map_values (group_by_parent [] refs))"
    using assms(1) by (auto simp: list_all_iff history_ok_def dest!: group_values)
      (metis linear_chain_sort)
  moreover have "history_refs [] [] (map ref_value refs) = Inr refs"
    using assms(1) by (intro history_refs_values) (auto simp: history_ok_def)
  ultimately show ?thesis using assms(2) by (simp add: validateExistingDelegationHistory_def)
qed

definition admit_inv :: "jsval list \<Rightarrow> bool" where
  "admit_inv history \<longleftrightarrow>
     (\<exists>refs. history = map ref_value refs \<and> history_ok refs \<and> length refs \<le> Suc MAX_HISTORY_RECORDS)"

lemma admission_extends:
  assumes ok: "history_ok refs" and wf: "ref_wf (ref_of e)" and len: "length refs \<le> MAX_HISTORY_RECORDS"
    and adm: "validateDelegationAdmission e (map ref_value refs) = Inr ()"
  shows "history_ok (refs @ [ref_of e])"
proof -
  let ?sib = "siblings_of (de_parent e) refs"
  have chain: "linear_chain 1 None ?sib" using ok by (simp add: history_ok_def)
  have new: "de_task e \<notin> dr_task ` set refs" "de_child e \<notin> dr_child ` set refs"
    and next_in: "if ?sib = [] then de_attempt e = 1 \<and> de_retry e = None
       else de_retry e = Some (dr_task (last ?sib)) \<and> de_attempt e = dr_attempt (last ?sib) + 1"
    using adm linear_chain_sort [OF chain]
    by (auto simp: validateDelegationAdmission_def history_validates [OF ok len] ensure_Inr Let_def
        list_ex_iff siblings_of_def [symmetric] split: if_splits)
  have ext: "linear_chain 1 None (?sib @ [ref_of e])"
    unfolding linear_chain_snoc using chain next_in linear_chain_last [OF chain]
    by (auto simp: ref_of_def split: if_splits)
  have "linear_chain 1 None (siblings_of p (refs @ [ref_of e]))" for p
    using ext ok by (cases "p = de_parent e") (auto simp: siblings_of_def ref_of_def history_ok_def)
  then show ?thesis using ok wf new by (auto simp: history_ok_def ref_of_def)
qed

lemma admit_step_inv:
  assumes "admit_inv history"
  shows "admit_inv (admit_step sha stringify parse_date raw history)"
proof -
  obtain refs where refs: "history = map ref_value refs" "history_ok refs"
    using assms by (auto simp: admit_inv_def)
  show ?thesis
  proof (cases "\<exists>e. parseDelegationEnvelope sha stringify parse_date raw = Inr e \<and>
      validateDelegationAdmission e history = Inr ()")
    case False
    then have "admit_step sha stringify parse_date raw history = history"
      by (auto simp: admit_step_def split: sum.splits)
    then show ?thesis using assms by simp
  next
    case True
    then obtain e where e: "parseDelegationEnvelope sha stringify parse_date raw = Inr e"
      and adm: "validateDelegationAdmission e history = Inr ()" by blast
    have len: "length refs \<le> MAX_HISTORY_RECORDS"
      using adm refs(1) by (auto simp: validateDelegationAdmission_def validateExistingDelegationHistory_def accepts)
    have "history_ok (refs @ [ref_of e])"
      using admission_extends [OF refs(2) parsed_ref_wf [OF e] len] adm refs(1) by simp
    moreover have "admit_step sha stringify parse_date raw history = map ref_value (refs @ [ref_of e])"
      using e adm refs(1) by (simp add: admit_step_def)
    ultimately show ?thesis using len unfolding admit_inv_def by (intro exI [of _ "refs @ [ref_of e]"]) simp
  qed
qed

interpretation admissions: op_machine "[]" "admit_step sha stringify parse_date" admit_inv
  for sha stringify parse_date
  by unfold_locales (auto simp: admit_step_inv, simp add: admit_inv_def history_ok_def siblings_of_def)

section \<open>Properties\<close>

text \<open>C5: The scope a delegated worker runs with is the intersection of the delegating position's and
  the worker's: a path is readable exactly when both read scopes contain it, no listed scope lies
  within another, and a tool is allowed exactly when both allow it and neither denies it.\<close>

theorem delegated_scope_is_the_intersection:
  assumes "deriveEffectiveDelegationScope parent worker = Inr scope"
  shows "list_ex (\<lambda>s. scopeContains s p) (ec_read scope) =
      (scope_grants (dq_read parent) p \<and> scope_grants (dq_read worker) p) \<and>
    distinct (ec_read scope) \<and>
    list_all (\<lambda>a. list_all (\<lambda>b. scopeContains a b = (a = b)) (ec_read scope)) (ec_read scope) \<and>
    set (ec_tool_allow scope) =
      set (dq_tool_allow parent) \<inter> set (dq_tool_allow worker) - (set (dq_tool_deny parent) \<union> set (dq_tool_deny worker)) \<and>
    set (ec_tool_deny scope) = set (dq_tool_deny parent) \<union> set (dq_tool_deny worker)"
proof -
  have r: "intersectContextScopes (dq_read parent) (dq_read worker) = Inr (ec_read scope)"
    and t: "ec_tool_deny scope = sort (uniq (dq_tool_deny parent @ dq_tool_deny worker))"
      "ec_tool_allow scope = sort (uniq (filter (\<lambda>t. t \<in> set (dq_tool_allow worker) \<and>
         t \<notin> set (sort (uniq (dq_tool_deny parent @ dq_tool_deny worker)))) (dq_tool_allow parent)))"
    using assms by (auto simp: deriveEffectiveDelegationScope_def accepts Let_def)
  have "list_ex (\<lambda>s. scopeContains s p) (ec_read scope) =
      (scope_grants (dq_read parent) p \<and> scope_grants (dq_read worker) p)"
    using intersect_spec(1) [OF r] by (auto simp: list_ex_iff)
  moreover have "list_all (\<lambda>a. list_all (\<lambda>b. scopeContains a b = (a = b)) (ec_read scope)) (ec_read scope)"
    using intersect_spec(3) [OF r] by (auto simp: list_all_iff)
  ultimately show ?thesis using intersect_spec(2) [OF r] by (auto simp: t)
qed

lemma delegated_scope_is_the_intersection_witness:
  "list_ex (\<lambda>s. scopeContains s ''./a/b'') [''./a/''] =
     (scope_grants [''a/'', ''c''] ''./a/b'' \<and> scope_grants [''./''] ''./a/b'')"
proof -
  let ?p = "\<lparr>dq_read = [''a/'', ''c''], dq_tool_allow = [''r''], dq_tool_deny = [], dq_allow = True, dq_targets = [''w'']\<rparr>"
  let ?w = "\<lparr>dq_read = [''./''], dq_tool_allow = [], dq_tool_deny = [''r''], dq_allow = False, dq_targets = []\<rparr>"
  have "deriveEffectiveDelegationScope ?p ?w =
    Inr \<lparr>ec_read = [''./a/'', ''./c''], ec_tool_allow = [], ec_tool_deny = [''r'']\<rparr>"
    by code_simp
  from delegated_scope_is_the_intersection [OF this, of "''./a/b''"] show ?thesis
    by (simp add: scopeContains_def starts_with_def ends_with_def)
qed

lemma histories_are_linear:
  assumes "admit_inv history"
  shows "\<exists>refs. history = map ref_value refs \<and> history_ok refs \<and> length refs \<le> Suc MAX_HISTORY_RECORDS"
  using assms by (simp add: admit_inv_def)

text \<open>C17: Whatever envelopes arrive, a store that records each admitted delegation holds one linear
  retry chain per parent turn: in order of admission its attempts are 1, 2, 3 and so on, each retry
  names the task before it, and task and child-turn identities are unique. At most 1025
  delegations are ever admitted to one store.\<close>

theorem admitted_delegations_form_linear_chains:
  "\<exists>refs. fold (admit_step sha stringify parse_date) raws [] = map ref_value refs \<and>
     distinct (map dr_task refs) \<and> distinct (map dr_child refs) \<and> list_all ref_wf refs \<and>
     (\<forall>p. linear_chain 1 None (siblings_of p refs)) \<and> length refs \<le> 1025"
  using histories_are_linear [OF admissions.invar_run [of sha stringify parse_date raws]]
  by (auto simp: history_ok_def MAX_HISTORY_RECORDS_def)

definition declared_route :: "delegation_envelope \<Rightarrow> delegation_organization \<Rightarrow> delegation_permissions \<Rightarrow> bool" where
  "declared_route e org perms \<longleftrightarrow>
     de_by e = do_owner org \<and> dp_owner perms = do_owner org \<and> de_to e \<noteq> de_by e \<and>
     (case find (\<lambda>r. fst r = de_to e) (do_roles org) of
        None \<Rightarrow> False | Some role \<Rightarrow> snd role = Some (de_by e)) \<and>
     (case (map_get (dp_positions perms) (de_by e), map_get (dp_positions perms) (de_to e)) of
        (Some parent, Some worker) \<Rightarrow> dq_allow parent \<and> de_to e \<in> set (dq_targets parent) \<and> \<not> dq_allow worker
      | _ \<Rightarrow> False)"

lemma route_declared:
  assumes "validateRouteAndDigests sha stringify e org perms = Inr scope"
  shows "declared_route e org perms \<and> ec_read scope \<noteq> [] \<and>
    de_org_digest e = computeCanonicalDigest sha stringify (do_json org) \<and>
    de_perm_digest e = computeCanonicalDigest sha stringify (dp_json perms)"
  using assms unfolding validateRouteAndDigests_def accepts option_Inr
  by (auto simp: declared_route_def accepts prop_read_Own split: prop_value.splits)

text \<open>C6: A child executor is started only for an admitted delegation from the applied owner to
  one of its declared direct reports, under unchanged organization and permission digests, with a
  worker that may not delegate further and a non-empty context scope; otherwise no event is
  emitted and the generator throws.\<close>

theorem delegation_runs_only_on_declared_routes:
  "case dn_child (executeDelegation sha stringify e opts) of
     None \<Rightarrow> dn_events (executeDelegation sha stringify e opts) = [] \<and>
             (case dn_exit (executeDelegation sha stringify e opts) of D_threw _ \<Rightarrow> True | _ \<Rightarrow> False)
   | Some request \<Rightarrow> validateDelegationAdmission e (dx_existing opts) = Inr () \<and>
             declared_route e (dx_organization opts) (dx_permissions opts) \<and>
             de_org_digest e = computeCanonicalDigest sha stringify (do_json (dx_organization opts)) \<and>
             de_perm_digest e = computeCanonicalDigest sha stringify (dp_json (dx_permissions opts)) \<and>
             cr_position request = de_to e \<and> ec_read (cr_scope request) \<noteq> []"
proof (cases "and_then (validateDelegationAdmission e (dx_existing opts)) (\<lambda>_.
    validateRouteAndDigests sha stringify e (dx_organization opts) (dx_permissions opts))")
  case (Inl err)
  then show ?thesis by (simp add: executeDelegation_def)
next
  case (Inr scope)
  then have "validateDelegationAdmission e (dx_existing opts) = Inr ()"
    and r: "validateRouteAndDigests sha stringify e (dx_organization opts) (dx_permissions opts) = Inr scope"
    by (auto simp: accepts)
  then show ?thesis using route_declared [OF r] by (simp add: executeDelegation_def Let_def split: prod.splits)
qed

text \<open>The contract of the event stream: what each kind of payload may carry.\<close>

definition usage_ok :: "(string \<times> int) list \<Rightarrow> bool" where
  "usage_ok u \<longleftrightarrow> u \<noteq> [] \<and> list_all (\<lambda>(k, n). 0 \<le> n \<and> n \<le> max_safe_integer) u"

definition terminal_ok ::
  "(jsval \<Rightarrow> string) \<Rightarrow> delegation_envelope \<Rightarrow> string \<Rightarrow> string \<Rightarrow> delegation_payload \<Rightarrow> bool" where
  "terminal_ok digest e runId scopeDigest p \<longleftrightarrow> (case p of
      D_completed r outputDigest evidenceDigest \<Rightarrow> r = runId \<and>
        evidenceDigest = digest (evidence_value e runId scopeDigest outputDigest)
    | D_failed r err \<Rightarrow> r = runId \<and> validateTerminalError err = Inr ()
    | D_cancelled r err \<Rightarrow> r = runId \<and> validateTerminalError err = Inr ()
    | _ \<Rightarrow> False)"

definition event_of :: "delegation_envelope \<Rightarrow> nat \<Rightarrow> delegation_event \<Rightarrow> bool" where
  "event_of e k v \<longleftrightarrow> dv_sequence v = Suc k \<and> dv_task v = de_task e \<and> dv_parent v = de_parent e \<and>
     dv_child v = de_child e \<and> dv_by v = de_by e \<and> dv_to v = de_to e \<and> dv_attempt v = de_attempt e"

definition numbered :: "delegation_envelope \<Rightarrow> delegation_event list \<Rightarrow> bool" where
  "numbered e vs \<longleftrightarrow> list_all (\<lambda>(k, v). event_of e k v) (enumerate 0 vs)"

text \<open>The events with the given payloads, numbered in order.\<close>

definition stamped :: "delegation_envelope \<Rightarrow> delegation_options \<Rightarrow> delegation_payload list \<Rightarrow> delegation_event list" where
  "stamped e opts ps = map (\<lambda>(k, p). delegation_common e opts k p) (enumerate 0 ps)"

lemma numbered_stamped: "numbered e (stamped e opts ps)"
  by (auto simp: stamped_def numbered_def list_all_iff in_set_enumerate_eq event_of_def delegation_common_def nth_enumerate_eq)

lemma callbacks_usage_ok: "child_callbacks b xs = (s, us) \<Longrightarrow> list_all usage_ok us"
proof (induction b xs arbitrary: s us rule: child_callbacks.induct)
  case (3 b i out tot xs)
  have bounded: "list_all (\<lambda>(k, n). 0 \<le> n \<and> n \<le> max_safe_integer) (bounded_usage kvs)" for kvs
    unfolding bounded_usage_def
    by (induction kvs) (auto split: option.splits dest!: js_safe_int_bound)
  obtain s' us' where r: "child_callbacks b xs = (s', us')" by fastforce
  then show ?case using 3 bounded by (auto simp: usage_ok_def Let_def split: if_splits)
qed auto

definition payload_trace ::
  "(jsval \<Rightarrow> string) \<Rightarrow> delegation_envelope \<Rightarrow> string \<Rightarrow> string \<Rightarrow> delegation_payload list \<Rightarrow> delegation_exit \<Rightarrow> bool" where
  "payload_trace digest e runId scopeDigest ps exit \<longleftrightarrow>
     (\<exists>us. list_all usage_ok us \<and>
       (if exit = D_returned
        then \<exists>t. terminal_ok digest e runId scopeDigest t \<and> ps = D_started scopeDigest # map D_usage us @ [t]
        else ps = [] \<or> ps = D_started scopeDigest # map D_usage us))"

lemma stamped_usage:
  "delegation_common e opts 0 a # map (\<lambda>(k, u). delegation_common e opts (Suc k) (D_usage u)) (enumerate 0 us) =
   stamped e opts (a # map D_usage us)"
  unfolding stamped_def by (rule nth_equalityI) (auto simp: nth_enumerate_eq nth_Cons split: nat.splits)

lemma stamped_Nil [simp]: "stamped e opts [] = []"
  and stamped_one: "stamped e opts [p] = [delegation_common e opts 0 p]"
  and stamped_snoc: "stamped e opts (ps @ [t]) = stamped e opts ps @ [delegation_common e opts (length ps) t]"
  and length_stamped [simp]: "length (stamped e opts ps) = length ps"
  by (simp_all add: stamped_def enumerate_append_eq)

lemma payloads_stamped [simp]: "map dv_payload (stamped e opts ps) = ps"
  unfolding stamped_def by (rule nth_equalityI) (auto simp: nth_enumerate_eq delegation_common_def)

lemma payload_trace_open:
  "exit \<noteq> D_returned \<Longrightarrow> list_all usage_ok us \<Longrightarrow> ps = [] \<or> ps = D_started sd # map D_usage us \<Longrightarrow>
   payload_trace d e r sd ps exit"
  by (auto simp: payload_trace_def)

lemma payload_trace_closed:
  "list_all usage_ok us \<Longrightarrow> terminal_ok d e r sd t \<Longrightarrow>
   payload_trace d e r sd ((D_started sd # map D_usage us) @ [t]) D_returned"
  by (auto simp: payload_trace_def)

lemma terminal_payload_ok:
  "terminal_payload sha stringify e runId scopeDigest outcome = Inr p \<Longrightarrow>
   terminal_ok (computeCanonicalDigest sha stringify) e runId scopeDigest p"
  by (auto simp: terminal_payload_def terminal_ok_def accepts Let_def split: child_outcome.splits)

lemma settle_stream:
  assumes st: "settle_delegation sha stringify e opts scope signals outcome = (events, exit)"
    and d: "d = computeCanonicalDigest sha stringify"
  shows "\<exists>ps. events = stamped e opts ps \<and> payload_trace d e (dx_run_id opts) (d (scope_value scope)) ps exit"
proof -
  obtain started us where cb: "child_callbacks False signals = (started, us)" by fastforce
  note us = callbacks_usage_ok [OF cb]
  let ?first = "D_started (d (scope_value scope))"
  let ?t = "terminal_payload sha stringify e (dx_run_id opts) (d (scope_value scope)) outcome"
  have settle: "(events, exit) =
     (if outcome = Child_threw then (if started then [delegation_common e opts 0 ?first] else [], D_rethrown)
      else if \<not> started then ([], D_threw Child_indeterminate)
      else (case ?t of
          Inl err \<Rightarrow> (stamped e opts (?first # map D_usage us), D_threw err)
        | Inr payload \<Rightarrow> (stamped e opts (?first # map D_usage us) @
            [delegation_common e opts (length (?first # map D_usage us)) payload], D_returned)))"
    using st [symmetric]
    unfolding settle_delegation_def Let_def cb prod.case stamped_usage d by (simp only: length_stamped)
  consider "outcome = Child_threw" | "outcome \<noteq> Child_threw" "\<not> started"
    | err where "outcome \<noteq> Child_threw" started "?t = Inl err"
    | p where "outcome \<noteq> Child_threw" started "?t = Inr p"
    by (cases ?t) auto
  then show ?thesis
  proof cases
    case 1
    then have "events = stamped e opts (if started then [?first] else [])" "exit = D_rethrown"
      using settle by (auto simp: stamped_one)
    then show ?thesis using payload_trace_open [of exit "[]"] by (intro exI conjI) auto
  next
    case 2
    then have "events = stamped e opts []" "exit = D_threw Child_indeterminate" using settle by auto
    then show ?thesis using payload_trace_open [of exit "[]"] by (intro exI [of _ "[]"]) auto
  next
    case 3
    then have "events = stamped e opts (?first # map D_usage us)" "exit = D_threw err" using settle by auto
    then show ?thesis using payload_trace_open [OF _ us] by (intro exI conjI) auto
  next
    case 4
    then have ev: "events = stamped e opts ((?first # map D_usage us) @ [p])" and "exit = D_returned"
      using settle unfolding stamped_snoc by auto
    then show ?thesis
      using payload_trace_closed [OF us terminal_payload_ok [OF 4(3), folded d]] by (intro exI conjI) auto
  qed
qed

text \<open>The events of a delegation carry the envelope's identities and consecutive sequence numbers
  from 1; they are one started event with the digest of the effective scope, then usage events
  with bounded counts, then, exactly when the generator returns, one terminal event: a completion whose
  evidence digest binds envelope, scope and output, or a failure that passed the error contract.\<close>

theorem delegation_stream_is_well_formed:
  "case executeDelegation sha stringify e opts of run \<Rightarrow>
     numbered e (dn_events run) \<and>
     (case dn_child run of
        None \<Rightarrow> dn_events run = [] \<and> dn_exit run \<noteq> D_returned
      | Some request \<Rightarrow> payload_trace (computeCanonicalDigest sha stringify) e (cr_run request)
          (computeCanonicalDigest sha stringify (scope_value (cr_scope request)))
          (map dv_payload (dn_events run)) (dn_exit run))"
proof (cases "and_then (validateDelegationAdmission e (dx_existing opts)) (\<lambda>_.
    validateRouteAndDigests sha stringify e (dx_organization opts) (dx_permissions opts))")
  case (Inl err)
  then show ?thesis by (simp add: executeDelegation_def numbered_def)
next
  case (Inr scope)
  let ?req = "\<lparr>cr_run = dx_run_id opts, cr_engine = de_engine e, cr_position = de_to e,
    cr_instruction = de_instruction e, cr_deadline = de_deadline e, cr_scope = scope\<rparr>"
  obtain signals outcome events exit where c: "dx_child opts ?req = (signals, outcome)"
    and st: "settle_delegation sha stringify e opts scope signals outcome = (events, exit)"
    by (metis surj_pair)
  from settle_stream [OF st refl] obtain ps where ps: "events = stamped e opts ps"
    "payload_trace (computeCanonicalDigest sha stringify) e (dx_run_id opts)
       (computeCanonicalDigest sha stringify (scope_value scope)) ps exit" by blast
  show ?thesis using Inr c st ps(2) numbered_stamped [of e opts ps]
    unfolding executeDelegation_def ps(1) by (simp add: Let_def)
qed

end
