(* ===== verification/ReplayGuard.thy ===== *)
theory ReplayGuard
  imports JsMap
begin

text \<open>
  packages/core/src/runner-replay-guard.ts: the process-local replay guard. A claim is read as a
  plain object of own enumerable data properties (proxies, accessors and foreign prototypes are
  outside the value model). \<open>parse_date\<close> is \<open>Date.parse\<close>, \<open>iso_of\<close> is \<open>toISOString\<close>; the clock
  reading of a call is an argument, None when the clock throws or yields no valid date.

  The locale states what any replay guard promises its callers; the durable guard of
  \<open>DurableStore\<close> is its second interpretation.
\<close>

section \<open>Claims\<close>

record replay_claim =
  rc_runner :: string
  rc_task :: string
  rc_nonce :: string
  rc_token :: int
  rc_expires :: string

datatype guard_failure =
    Claim_invalid
  | Clock_invalid
  | Guard_capacity

definition claim_id_char :: "char \<Rightarrow> bool" where
  "claim_id_char c = (is_lower c \<or> is_upper c \<or> is_digit c \<or> c \<in> set ''._:/-'')"

text \<open>\<open>/^[A-Za-z0-9](?:[A-Za-z0-9._:/-]{0,199})$/\<close>\<close>

definition CLAIM_ID_PATTERN :: "string \<Rightarrow> bool" where
  "CLAIM_ID_PATTERN s = (case s of
      [] \<Rightarrow> False
    | c # cs \<Rightarrow> (is_lower c \<or> is_upper c \<or> is_digit c) \<and> length cs \<le> 199 \<and> list_all claim_id_char cs)"

text \<open>The six bits of a base64url character.\<close>

definition base64url_value :: "char \<Rightarrow> nat option" where
  "base64url_value c = (if is_upper c then Some (of_char c - 65)
     else if is_lower c then Some (of_char c - 71)
     else if is_digit c then Some (of_char c + 4)
     else if c = CHR ''-'' then Some 62
     else if c = CHR ''_'' then Some 63 else None)"

definition BASE64URL_PATTERN :: "string \<Rightarrow> bool" where
  "BASE64URL_PATTERN s = (s \<noteq> [] \<and> list_all (\<lambda>c. base64url_value c \<noteq> None) s)"

text \<open>
  Decoding a string over the alphabet yields \<open>6 n div 8\<close> bytes, and encoding them again gives the string
  back exactly when no bits are left over: \<open>n mod 4 \<noteq> 1\<close> and the unused low bits of the last character are zero.
\<close>

definition base64url_bytes :: "string \<Rightarrow> nat" where
  "base64url_bytes s = 6 * length s div 8"

definition base64url_canonical :: "string \<Rightarrow> bool" where
  "base64url_canonical s = (case length s mod 4 of
      0 \<Rightarrow> True
    | Suc 0 \<Rightarrow> False
    | Suc (Suc 0) \<Rightarrow> (case base64url_value (last s) of None \<Rightarrow> False | Some v \<Rightarrow> v mod 16 = 0)
    | _ \<Rightarrow> (case base64url_value (last s) of None \<Rightarrow> False | Some v \<Rightarrow> v mod 4 = 0))"

definition valid_nonce :: "string \<Rightarrow> bool" where
  "valid_nonce s = (BASE64URL_PATTERN s \<and> 16 \<le> base64url_bytes s \<and> base64url_bytes s \<le> 64 \<and>
     base64url_canonical s)"

definition CLAIM_KEYS :: "string list" where
  "CLAIM_KEYS = [''runnerId'', ''taskId'', ''nonce'', ''fencingToken'', ''expiresAt'']"

text \<open>The checks of a claim before the clock is read.\<close>

definition read_claim :: "jsval \<Rightarrow> replay_claim option" where
  "read_claim v =
     (if is_plain_object v \<and> length (js_keys v) = 5 \<and> list_all (js_has v) CLAIM_KEYS
      then (case (js_str (js_get v ''runnerId''), js_str (js_get v ''taskId''), js_str (js_get v ''nonce''),
                  js_safe_int (js_get v ''fencingToken''), js_str (js_get v ''expiresAt'')) of
          (Some runnerId, Some taskId, Some nonce, Some token, Some expiresAt) \<Rightarrow>
            if CLAIM_ID_PATTERN runnerId \<and> CLAIM_ID_PATTERN taskId \<and> valid_nonce nonce \<and> 1 \<le> token
            then Some \<lparr>rc_runner = runnerId, rc_task = taskId, rc_nonce = nonce, rc_token = token,
                       rc_expires = expiresAt\<rparr>
            else None
        | _ \<Rightarrow> None)
      else None)"

text \<open>\<open>/^\d{4}-\d{2}-\d{2}T\d{2}:\d{2}:\d{2}\.\d{3}Z$/\<close>\<close>

definition iso_millis_pattern :: "string \<Rightarrow> bool" where
  "iso_millis_pattern s = (length s = 24 \<and>
     list_all2 (\<lambda>c m. if m = CHR ''d'' then is_digit c else c = m) s ''dddd-dd-ddTdd:dd:dd.dddZ'')"

definition validTimestamp :: "(string \<Rightarrow> int option) \<Rightarrow> (int \<Rightarrow> string) \<Rightarrow> string \<Rightarrow> int option" where
  "validTimestamp parse_date iso_of s = (if iso_millis_pattern s then
     (case parse_date s of None \<Rightarrow> None | Some t \<Rightarrow> if iso_of t = s then Some t else None) else None)"

section \<open>The guard\<close>

record replay_guard =
  rg_nonces :: "(string, int) jsmap"
  rg_marks :: "(string, int) jsmap"
  rg_max :: nat
  rg_last :: "int option"

definition new_guard :: "int \<Rightarrow> guard_failure + replay_guard" where
  "new_guard maxEntries = ensure (1 \<le> maxEntries \<and> maxEntries \<le> max_safe_integer) Claim_invalid
     (Inr \<lparr>rg_nonces = [], rg_marks = [], rg_max = nat maxEntries, rg_last = None\<rparr>)"

text \<open>\<open>`${runnerId.length}:${runnerId}${nonce.length}:${nonce}`\<close>\<close>

definition nonce_key :: "string \<Rightarrow> string \<Rightarrow> string" where
  "nonce_key runnerId nonce = dec (length runnerId) @ '':'' @ runnerId @ dec (length nonce) @ '':'' @ nonce"

text \<open>One call: the answer, or the error thrown, with the guard it leaves.\<close>

definition guard_claim ::
  "(string \<Rightarrow> int option) \<Rightarrow> (int \<Rightarrow> string) \<Rightarrow> jsval \<Rightarrow> int option \<Rightarrow> replay_guard \<Rightarrow>
   (guard_failure + bool) \<times> replay_guard" where
  "guard_claim parse_date iso_of v clock g = (case read_claim v of
      None \<Rightarrow> (Inl Claim_invalid, g)
    | Some c \<Rightarrow> (case clock of
          None \<Rightarrow> (Inl Clock_invalid, g)
        | Some now \<Rightarrow>
            if (case rg_last g of None \<Rightarrow> False | Some l \<Rightarrow> now < l) then (Inl Clock_invalid, g)
            else (let g1 = g\<lparr>rg_last := Some now\<rparr> in
              case validTimestamp parse_date iso_of (rc_expires c) of
                None \<Rightarrow> (Inl Claim_invalid, g1)
              | Some expiry \<Rightarrow>
                  (let g2 = g1\<lparr>rg_nonces := filter (\<lambda>p. \<not> snd p \<le> now) (rg_nonces g1)\<rparr>;
                       key = nonce_key (rc_runner c) (rc_nonce c);
                       mark = map_get (rg_marks g2) (rc_task c)
                   in if expiry \<le> now then (Inr False, g2)
                      else if map_has (rg_nonces g2) key then (Inr False, g2)
                      else if (case mark of None \<Rightarrow> False | Some w \<Rightarrow> w > rc_token c) then (Inr False, g2)
                      else if rg_max g2 \<le> length (rg_nonces g2) \<or> (mark = None \<and> rg_max g2 \<le> length (rg_marks g2))
                      then (Inl Guard_capacity, g2)
                      else (Inr True,
                        g2\<lparr>rg_marks := map_set (rg_marks g2) (rc_task c)
                               (case mark of None \<Rightarrow> rc_token c | Some w \<Rightarrow> max w (rc_token c)),
                           rg_nonces := map_set (rg_nonces g2) key expiry\<rparr>)))))"

section \<open>The contract of a replay guard\<close>

text \<open>
  Operations on a guard may grant a claim. \<open>remembers s c\<close> says the guard still holds what it must
  know of a granted claim; \<open>conflicts c c'\<close> that granting \<open>c'\<close> after \<open>c\<close> would be a replay or would
  step back behind a fencing token.
\<close>

fun grants_of ::
  "('o \<Rightarrow> 's \<Rightarrow> 'c option) \<Rightarrow> ('o \<Rightarrow> 's \<Rightarrow> 's) \<Rightarrow> 's \<Rightarrow> 'o list \<Rightarrow> 'c list" where
  "grants_of granted app s [] = []"
| "grants_of granted app s (x # xs) =
     (case granted x s of None \<Rightarrow> [] | Some c \<Rightarrow> [c]) @ grants_of granted app (app x s) xs"

locale claim_guard = op_machine start app invar
  for start :: "'s" and app :: "'o \<Rightarrow> 's \<Rightarrow> 's" and invar :: "'s \<Rightarrow> bool" +
  fixes granted :: "'o \<Rightarrow> 's \<Rightarrow> 'c option"
    and remembers :: "'s \<Rightarrow> 'c \<Rightarrow> bool"
    and conflicts :: "'c \<Rightarrow> 'c \<Rightarrow> bool"
  assumes grant_remembered: "invar s \<Longrightarrow> granted x s = Some c \<Longrightarrow> remembers (app x s) c"
    and keeps_remembering: "invar s \<Longrightarrow> remembers s c \<Longrightarrow> remembers (app x s) c"
    and refuses: "invar s \<Longrightarrow> remembers s c \<Longrightarrow> granted x s = Some d \<Longrightarrow> \<not> conflicts c d"
begin

lemma grants_respect: "invar s \<Longrightarrow> remembers s c \<Longrightarrow> d \<in> set (grants_of granted app s xs) \<Longrightarrow> \<not> conflicts c d"
proof (induction xs arbitrary: s)
  case (Cons x xs)
  have "\<not> conflicts c d" if "granted x s = Some d" using refuses [OF Cons.prems(1,2) that] .
  moreover have "\<not> conflicts c d" if "d \<in> set (grants_of granted app (app x s) xs)"
    by (rule Cons.IH [OF invar_app [OF Cons.prems(1)] keeps_remembering [OF Cons.prems(1,2)] that])
  ultimately show ?case using Cons.prems(3) by (auto split: option.splits)
qed simp

lemma grants_never_conflict: "invar s \<Longrightarrow> sorted_wrt (\<lambda>c d. \<not> conflicts c d) (grants_of granted app s xs)"
proof (induction xs arbitrary: s)
  case (Cons x xs)
  have rest: "sorted_wrt (\<lambda>c d. \<not> conflicts c d) (grants_of granted app (app x s) xs)"
    by (rule Cons.IH [OF invar_app [OF Cons.prems]])
  show ?case
  proof (cases "granted x s")
    case None
    then show ?thesis using rest by simp
  next
    case (Some c)
    have "\<not> conflicts c d" if "d \<in> set (grants_of granted app (app x s) xs)" for d
      by (rule grants_respect [OF invar_app [OF Cons.prems] grant_remembered [OF Cons.prems Some] that])
    then show ?thesis using rest Some by simp
  qed
qed simp

lemma run_grants_never_conflict: "sorted_wrt (\<lambda>c d. \<not> conflicts c d) (grants_of granted app start xs)"
  by (rule grants_never_conflict [OF invar_start])

end

section \<open>Nonce keys\<close>

lemma dec_digits: "c \<in> set (dec n) \<Longrightarrow> c \<noteq> CHR '':''"
  using dec_is_digit [of c n] by (auto simp: is_digit_def)

lemma split_at_colon:
  "a @ CHR '':'' # x = b @ CHR '':'' # y \<Longrightarrow> CHR '':'' \<notin> set a \<Longrightarrow> CHR '':'' \<notin> set b \<Longrightarrow> a = b \<and> x = y"
proof (induction a arbitrary: b)
  case Nil
  then show ?case by (cases b) auto
next
  case (Cons c a)
  then show ?case by (cases b) auto
qed

lemma dec_prefix: "dec m @ '':'' @ x = dec n @ '':'' @ y \<longleftrightarrow> m = n \<and> x = y"
  using split_at_colon [of "dec m" x "dec n" y] dec_digits undec_dec by (metis append_Cons append_Nil)

lemma nonce_key_inj: "nonce_key r n = nonce_key r' n' \<longleftrightarrow> r = r' \<and> n = n'"
proof
  assume "nonce_key r n = nonce_key r' n'"
  then have "length r = length r'" "r @ dec (length n) @ '':'' @ n = r' @ dec (length n') @ '':'' @ n'"
    unfolding nonce_key_def dec_prefix by auto
  then have "r = r'" and rest: "dec (length n) @ '':'' @ n = dec (length n') @ '':'' @ n'" by auto
  then show "r = r' \<and> n = n'" using rest [unfolded dec_prefix] by simp
qed simp

section \<open>The process-local guard keeps the contract\<close>

type_synonym guard_call = "jsval \<times> int option"

record granted_claim =
  gc_claim :: replay_claim
  gc_expiry :: int
  gc_at :: int

definition guard_step ::
  "(string \<Rightarrow> int option) \<Rightarrow> (int \<Rightarrow> string) \<Rightarrow> guard_call \<Rightarrow> replay_guard \<Rightarrow> replay_guard" where
  "guard_step parse_date iso_of x g = snd (guard_claim parse_date iso_of (fst x) (snd x) g)"

definition guard_granted ::
  "(string \<Rightarrow> int option) \<Rightarrow> (int \<Rightarrow> string) \<Rightarrow> guard_call \<Rightarrow> replay_guard \<Rightarrow> granted_claim option" where
  "guard_granted parse_date iso_of x g =
     (if fst (guard_claim parse_date iso_of (fst x) (snd x) g) = Inr True
      then (case (read_claim (fst x), snd x) of
          (Some c, Some now) \<Rightarrow>
            map_option (\<lambda>e. \<lparr>gc_claim = c, gc_expiry = e, gc_at = now\<rparr>)
              (validTimestamp parse_date iso_of (rc_expires c))
        | _ \<Rightarrow> None)
      else None)"

definition purged :: "int \<Rightarrow> (string, int) jsmap \<Rightarrow> (string, int) jsmap" where
  "purged now m = filter (\<lambda>p. \<not> snd p \<le> now) m"

definition clock_ok :: "int \<Rightarrow> replay_guard \<Rightarrow> bool" where
  "clock_ok now g \<longleftrightarrow> (case rg_last g of None \<Rightarrow> True | Some l \<Rightarrow> l \<le> now)"

lemma guard_claim_accepts:
  assumes "guard_claim pdt isof v clock g = (Inr True, g')"
  obtains c now e where "read_claim v = Some c" "clock = Some now" "validTimestamp pdt isof (rc_expires c) = Some e"
    "clock_ok now g" "now < e"
    "map_get (purged now (rg_nonces g)) (nonce_key (rc_runner c) (rc_nonce c)) = None"
    "case map_get (rg_marks g) (rc_task c) of None \<Rightarrow> length (rg_marks g) < rg_max g | Some w \<Rightarrow> w \<le> rc_token c"
    "length (purged now (rg_nonces g)) < rg_max g"
    "g' = g\<lparr>rg_last := Some now, rg_marks := map_set (rg_marks g) (rc_task c) (rc_token c),
            rg_nonces := map_set (purged now (rg_nonces g)) (nonce_key (rc_runner c) (rc_nonce c)) e\<rparr>"
  using assms
  by (auto simp: guard_claim_def purged_def clock_ok_def Let_def map_has_get max_def
      split: option.splits if_splits)

lemma guard_claim_refuses:
  assumes "guard_claim pdt isof v clock g = (r, g')" "r \<noteq> Inr True"
  shows "g' = g \<or> (case clock of None \<Rightarrow> False | Some now \<Rightarrow> clock_ok now g \<and>
    (g' = g\<lparr>rg_last := Some now\<rparr> \<or> g' = g\<lparr>rg_last := Some now, rg_nonces := purged now (rg_nonces g)\<rparr>))"
  using assms
  by (auto simp: guard_claim_def purged_def clock_ok_def Let_def split: option.splits if_splits)

definition guard_inv :: "replay_guard \<Rightarrow> bool" where
  "guard_inv g \<longleftrightarrow> map_wf (rg_nonces g) \<and> length (rg_nonces g) \<le> rg_max g \<and> length (rg_marks g) \<le> rg_max g"

definition guard_remembers :: "replay_guard \<Rightarrow> granted_claim \<Rightarrow> bool" where
  "guard_remembers g c \<longleftrightarrow>
     (case rg_last g of None \<Rightarrow> False | Some l \<Rightarrow> gc_expiry c \<le> l \<or>
        map_get (rg_nonces g) (nonce_key (rc_runner (gc_claim c)) (rc_nonce (gc_claim c))) = Some (gc_expiry c)) \<and>
     (case map_get (rg_marks g) (rc_task (gc_claim c)) of None \<Rightarrow> False | Some w \<Rightarrow> rc_token (gc_claim c) \<le> w)"

text \<open>A replay is a claim with the same runner and nonce made before the first one's expiry.\<close>

definition replays :: "granted_claim \<Rightarrow> granted_claim \<Rightarrow> bool" where
  "replays c d \<longleftrightarrow> rc_runner (gc_claim d) = rc_runner (gc_claim c) \<and>
     rc_nonce (gc_claim d) = rc_nonce (gc_claim c) \<and> gc_at d < gc_expiry c"

definition steps_back :: "granted_claim \<Rightarrow> granted_claim \<Rightarrow> bool" where
  "steps_back c d \<longleftrightarrow> rc_task (gc_claim d) = rc_task (gc_claim c) \<and> rc_token (gc_claim d) < rc_token (gc_claim c)"

lemma map_get_purged:
  assumes "map_wf m" "map_get m k = Some e" "now < e"
  shows "map_get (purged now m) k = Some e"
proof -
  have "map_wf (purged now m)" using assms(1) by (auto simp: map_wf_def purged_def intro: distinct_map_filter)
  then show ?thesis using assms by (auto simp: map_get_iff purged_def)
qed

lemma map_wf_purged: "map_wf m \<Longrightarrow> map_wf (purged now m)"
  by (auto simp: map_wf_def purged_def intro: distinct_map_filter)

lemma length_purged: "length (purged now m) \<le> length m"
  by (simp add: purged_def)

lemma guard_step_inv: "guard_inv g \<Longrightarrow> guard_inv (guard_step pdt isof x g)"
proof -
  assume inv: "guard_inv g"
  obtain r g' where r: "guard_claim pdt isof (fst x) (snd x) g = (r, g')" by fastforce
  show ?thesis
  proof (cases "r = Inr True")
    case True
    with r have "guard_claim pdt isof (fst x) (snd x) g = (Inr True, g')" by simp
    then show ?thesis
    proof (cases rule: guard_claim_accepts)
      case (1 c now e)
      have "map_wf (rg_nonces g')" using inv by (simp add: 1(9) guard_inv_def map_wf_purged map_wf_set)
      moreover have "length (rg_nonces g') \<le> rg_max g'" using 1(6,8) by (simp add: 1(9) length_map_set map_has_get)
      moreover have "length (rg_marks g') \<le> rg_max g'"
        using 1(7) inv by (auto simp: 1(9) length_map_set map_has_get guard_inv_def split: option.splits)
      ultimately show ?thesis using r by (simp add: guard_step_def guard_inv_def)
    qed
  next
    case False
    from guard_claim_refuses [OF r False] show ?thesis
      using r inv by (auto simp: guard_step_def guard_inv_def map_wf_purged
          intro: order_trans [OF length_purged] split: option.splits)
  qed
qed

lemma guard_grantedE:
  assumes "guard_granted pdt isof x g = Some c"
  obtains "guard_claim pdt isof (fst x) (snd x) g = (Inr True, guard_step pdt isof x g)"
    "read_claim (fst x) = Some (gc_claim c)" "snd x = Some (gc_at c)"
    "validTimestamp pdt isof (rc_expires (gc_claim c)) = Some (gc_expiry c)"
  using assms by (auto simp: guard_granted_def guard_step_def split: option.splits if_splits)
     (metis prod.collapse)

lemma guard_grant_remembered: "guard_granted pdt isof x g = Some c \<Longrightarrow> guard_remembers (guard_step pdt isof x g) c"
  by (erule guard_grantedE, erule guard_claim_accepts) (auto simp: guard_remembers_def)

lemma guard_keeps:
  assumes inv: "guard_inv g" and rem: "guard_remembers g c"
  shows "guard_remembers (guard_step pdt isof x g) c"
proof -
  obtain r g' where r: "guard_claim pdt isof (fst x) (snd x) g = (r, g')" by fastforce
  let ?k = "nonce_key (rc_runner (gc_claim c)) (rc_nonce (gc_claim c))"
  have keep: "gc_expiry c \<le> now \<or> map_get (purged now (rg_nonces g)) ?k = Some (gc_expiry c)"
    if "clock_ok now g" for now
    using rem inv that map_get_purged [of "rg_nonces g" ?k "gc_expiry c" now]
    by (cases "now < gc_expiry c") (auto simp: guard_remembers_def guard_inv_def clock_ok_def split: option.splits)
  show ?thesis
  proof (cases "r = Inr True")
    case True
    with r have "guard_claim pdt isof (fst x) (snd x) g = (Inr True, g')" by simp
    then show ?thesis
    proof (cases rule: guard_claim_accepts)
      case (1 d now e)
      show ?thesis
        using rem keep [OF 1(4)] 1 r
        by (auto simp: guard_step_def guard_remembers_def split: option.splits if_splits)
    qed
  next
    case False
    from guard_claim_refuses [OF r False] show ?thesis
      using r rem keep [of "the (snd x)"]
      by (auto simp: guard_step_def guard_remembers_def clock_ok_def split: option.splits)
  qed
qed

lemma guard_no_conflict:
  assumes inv: "guard_inv g" and rem: "guard_remembers g c" and grant: "guard_granted pdt isof x g = Some d"
  shows "\<not> (replays c d \<or> steps_back c d)"
  using grant
proof (rule guard_grantedE)
  assume *: "guard_claim pdt isof (fst x) (snd x) g = (Inr True, guard_step pdt isof x g)"
    "read_claim (fst x) = Some (gc_claim d)" "snd x = Some (gc_at d)"
  from *(1) show ?thesis
  proof (cases rule: guard_claim_accepts)
    case (1 d' now e)
    then have d: "d' = gc_claim d" "now = gc_at d" using * by auto
    show ?thesis
      using rem 1 inv map_get_purged [of "rg_nonces g" _ "gc_expiry c" now]
      unfolding d guard_remembers_def replays_def steps_back_def guard_inv_def clock_ok_def
      by (auto split: option.splits)
  qed
qed

lemma guard_step_max [simp]: "rg_max (guard_step pdt isof x g) = rg_max g"
  by (auto simp: guard_step_def guard_claim_def Let_def split: option.splits)

lemma guard_run_max: "rg_max (fold (guard_step pdt isof) xs g) = rg_max g"
  by (induction xs arbitrary: g) auto

definition empty_guard :: "nat \<Rightarrow> replay_guard" where
  "empty_guard n = \<lparr>rg_nonces = [], rg_marks = [], rg_max = n, rg_last = None\<rparr>"

interpretation local_guard: claim_guard "empty_guard n" "guard_step pdt isof" guard_inv
    "guard_granted pdt isof" guard_remembers "\<lambda>c d. replays c d \<or> steps_back c d"
  for n pdt isof
proof unfold_locales
  show "guard_inv (empty_guard n)" by (simp add: guard_inv_def empty_guard_def)
qed (auto simp: guard_step_inv guard_keeps intro: guard_grant_remembered dest: guard_no_conflict)

text \<open>C14: Whatever calls a process-local guard receives, with whatever clock readings, the claims it
  grants contain no replay (no two share runner and nonce while the first is unexpired) and, per
  task, never a smaller fencing token after a larger one; neither table outgrows its limit.\<close>

theorem granted_claims_are_fresh_and_fenced:
  "sorted_wrt (\<lambda>c d. \<not> (replays c d \<or> steps_back c d))
     (grants_of (guard_granted parse_date iso_of) (guard_step parse_date iso_of) (empty_guard n) calls) \<and>
   length (rg_nonces (fold (guard_step parse_date iso_of) calls (empty_guard n))) \<le> n \<and>
   length (rg_marks (fold (guard_step parse_date iso_of) calls (empty_guard n))) \<le> n"
  using local_guard.run_grants_never_conflict [of parse_date iso_of n calls]
    local_guard.invar_run [of parse_date iso_of calls n]
    guard_run_max [of parse_date iso_of calls "empty_guard n"]
  by (simp add: guard_inv_def empty_guard_def)

end
