(* ===== verification/DurableStore.thy ===== *)
theory DurableStore
  imports ReplayGuard "HOL-Library.List_Lexorder" "HOL-Library.Char_ord"
begin

text \<open>
  packages/core/src/runner-durable-store.ts: deployments, attempts and the outbox of the reference
  store, and the replay guard on top of it. Time stamps are ISO strings compared as strings; the
  clock reading of a call is an argument. Entries are handed out by reference; callers are assumed
  not to write to them.
\<close>

section \<open>Types\<close>

definition DURABLE_STORE_SCHEMA_VERSION :: nat where
  "DURABLE_STORE_SCHEMA_VERSION = 1"

definition DURABLE_OUTBOX_MAX_SIZE :: nat where
  "DURABLE_OUTBOX_MAX_SIZE = 4096"

definition DURABLE_OUTBOX_MAX_RETRIES :: nat where
  "DURABLE_OUTBOX_MAX_RETRIES = 16"

definition DURABLE_STORE_MAX_DEPLOYMENTS :: nat where
  "DURABLE_STORE_MAX_DEPLOYMENTS = 256"

datatype corruption_kind = Schema_version_mismatch | Checksum_invalid | Data_truncated | Unknown_corruption

record store_corruption =
  sc_kind :: corruption_kind
  sc_message :: string
  sc_detected :: string

datatype degraded_reason = Readonly | Compaction_overdue | Near_capacity

record deployment =
  dy_employee :: string
  dy_version :: string
  dy_digest :: string
  dy_package :: string
  dy_host :: string
  dy_registered :: string
  dy_health :: "string option"

datatype attempt_status = At_claimed | At_running | At_completed | At_failed | At_superseded

record attempt_state =
  at_task :: string
  at_runner :: string
  at_nonce :: string
  at_token :: int
  at_status :: attempt_status
  at_events :: int
  at_receipt :: "string option"
  at_claimed :: string
  at_expires :: string

datatype outbox_kind = Outbox_event | Outbox_receipt

datatype outbox_status = Ob_pending | Ob_inflight | Ob_acknowledged | Ob_dead

record outbox_entry =
  ox_sequence :: nat
  ox_kind :: outbox_kind
  ox_task :: string
  ox_token :: int
  ox_payload :: string
  ox_status :: outbox_status
  ox_retries :: nat
  ox_next_retry :: "string option"
  ox_created :: string

datatype store_error = Digest_mismatch | Store_capacity | Outbox_overflow

section \<open>The outbox\<close>

record outbox =
  ob_entries :: "outbox_entry list"
  ob_next :: nat

definition new_outbox :: outbox where
  "new_outbox = \<lparr>ob_entries = [], ob_next = 1\<rparr>"

text \<open>The draft of an append: kind, task, token, payload and optional retry time.\<close>

definition outbox_append ::
  "outbox_kind \<Rightarrow> string \<Rightarrow> int \<Rightarrow> string \<Rightarrow> string option \<Rightarrow> string \<Rightarrow> outbox \<Rightarrow>
   store_error + (outbox_entry \<times> outbox)" where
  "outbox_append kind task token payload retryAt now b =
     ensure (length (ob_entries b) < DURABLE_OUTBOX_MAX_SIZE) Outbox_overflow
    (let full = \<lparr>ox_sequence = ob_next b, ox_kind = kind, ox_task = task, ox_token = token,
           ox_payload = payload, ox_status = Ob_pending, ox_retries = 0, ox_next_retry = retryAt,
           ox_created = now\<rparr>
     in Inr (full, \<lparr>ob_entries = ob_entries b @ [full], ob_next = ob_next b + 1\<rparr>))"

definition eligible :: "string \<Rightarrow> outbox_entry \<Rightarrow> bool" where
  "eligible now e = (ox_status e = Ob_pending \<or>
     (ox_status e = Ob_inflight \<and>
      (case ox_next_retry e of None \<Rightarrow> False | Some t \<Rightarrow> t \<noteq> [] \<and> t \<le> now)))"

definition outbox_pending :: "nat \<Rightarrow> string \<Rightarrow> outbox \<Rightarrow> outbox_entry list" where
  "outbox_pending limit now b = take limit (sort_key ox_sequence (filter (eligible now) (ob_entries b)))"

text \<open>\<open>find\<close> by sequence and a write to the entry found.\<close>

definition find_entry :: "nat \<Rightarrow> outbox \<Rightarrow> outbox_entry option" where
  "find_entry n b = find (\<lambda>e. ox_sequence e = n) (ob_entries b)"

fun write_first :: "nat \<Rightarrow> (outbox_entry \<Rightarrow> outbox_entry) \<Rightarrow> outbox_entry list \<Rightarrow> outbox_entry list" where
  "write_first n f [] = []"
| "write_first n f (e # es) = (if ox_sequence e = n then f e # es else e # write_first n f es)"

definition write_entry :: "nat \<Rightarrow> (outbox_entry \<Rightarrow> outbox_entry) \<Rightarrow> outbox \<Rightarrow> outbox" where
  "write_entry n f b = b\<lparr>ob_entries := write_first n f (ob_entries b)\<rparr>"

definition settled :: "outbox_entry \<Rightarrow> bool" where
  "settled e = (ox_status e = Ob_acknowledged \<or> ox_status e = Ob_dead)"

definition markInflight :: "nat \<Rightarrow> outbox \<Rightarrow> bool \<times> outbox" where
  "markInflight n b = (case find_entry n b of
      None \<Rightarrow> (False, b)
    | Some e \<Rightarrow> if settled e then (False, b)
               else (True, write_entry n (\<lambda>e. e\<lparr>ox_status := Ob_inflight\<rparr>) b))"

definition markRetry :: "nat \<Rightarrow> string \<Rightarrow> outbox \<Rightarrow> bool \<times> outbox" where
  "markRetry n nextRetryAt b = (case find_entry n b of
      None \<Rightarrow> (False, b)
    | Some e \<Rightarrow>
        if settled e then (False, b)
        else if DURABLE_OUTBOX_MAX_RETRIES \<le> ox_retries e + 1
        then (False, write_entry n (\<lambda>e. e\<lparr>ox_retries := ox_retries e + 1, ox_status := Ob_dead\<rparr>) b)
        else (True, write_entry n (\<lambda>e. e\<lparr>ox_retries := ox_retries e + 1, ox_status := Ob_pending,
                                        ox_next_retry := Some nextRetryAt\<rparr>) b))"

definition ack :: "nat \<Rightarrow> outbox \<Rightarrow> bool \<times> outbox" where
  "ack n b = (case find_entry n b of
      None \<Rightarrow> (False, b)
    | Some e \<Rightarrow> (True, write_entry n (\<lambda>e. e\<lparr>ox_status := Ob_acknowledged\<rparr>) b))"

definition compact :: "outbox \<Rightarrow> nat \<times> outbox" where
  "compact b = (length (filter settled (ob_entries b)), b\<lparr>ob_entries := filter (\<lambda>e. \<not> settled e) (ob_entries b)\<rparr>)"

section \<open>The store\<close>

record durable_store =
  ds_deployments :: "(string, deployment) jsmap"
  ds_attempts :: "(string, attempt_state) jsmap"
  ds_outbox :: outbox
  ds_corrupted :: "store_corruption option"

definition new_store :: durable_store where
  "new_store = \<lparr>ds_deployments = [], ds_attempts = [], ds_outbox = new_outbox, ds_corrupted = None\<rparr>"

definition degradedState :: "durable_store \<Rightarrow> degraded_reason option" where
  "degradedState s = (if of_nat (length (ob_entries (ds_outbox s))) > (of_nat DURABLE_OUTBOX_MAX_SIZE * 9 / 10 :: rat)
     then Some Near_capacity else None)"

definition injectCorruption :: "store_corruption \<Rightarrow> durable_store \<Rightarrow> durable_store" where
  "injectCorruption c s = s\<lparr>ds_corrupted := Some c\<rparr>"

definition pair_key :: "string \<Rightarrow> string \<Rightarrow> string" where
  "pair_key a b = a @ ''::'' @ b"

definition putDeployment :: "deployment \<Rightarrow> durable_store \<Rightarrow> store_error + durable_store" where
  "putDeployment r s =
     (let key = pair_key (dy_employee r) (dy_version r);
          existing = map_get (ds_deployments s) key
      in ensure (case existing of None \<Rightarrow> True | Some e \<Rightarrow> dy_digest e = dy_digest r) Digest_mismatch
        (ensure (\<not> (DURABLE_STORE_MAX_DEPLOYMENTS \<le> length (ds_deployments s) \<and> existing = None)) Store_capacity
          (Inr (s\<lparr>ds_deployments := map_set (ds_deployments s) key r\<rparr>))))"

definition getDeployment :: "string \<Rightarrow> string \<Rightarrow> durable_store \<Rightarrow> deployment option" where
  "getDeployment employee version s = map_get (ds_deployments s) (pair_key employee version)"

definition listDeployments :: "durable_store \<Rightarrow> deployment list" where
  "listDeployments s = map_values (ds_deployments s)"

definition removeDeployment :: "string \<Rightarrow> string \<Rightarrow> durable_store \<Rightarrow> bool \<times> durable_store" where
  "removeDeployment employee version s =
     (map_has (ds_deployments s) (pair_key employee version),
      s\<lparr>ds_deployments := map_delete (ds_deployments s) (pair_key employee version)\<rparr>)"

definition claimNonce :: "attempt_state \<Rightarrow> durable_store \<Rightarrow> bool \<times> durable_store" where
  "claimNonce a s =
     (let key = pair_key (at_task a) (at_nonce a)
      in if map_has (ds_attempts s) key then (False, s)
         else if list_ex (\<lambda>e. at_task e = at_task a \<and> (at_token e = 0 \<or> at_token e > at_token a))
                   (map_values (ds_attempts s)) then (False, s)
         else (True, s\<lparr>ds_attempts := map_set (ds_attempts s) key a\<rparr>))"

definition getAttempt :: "string \<Rightarrow> string \<Rightarrow> durable_store \<Rightarrow> attempt_state option" where
  "getAttempt task nonce s = map_get (ds_attempts s) (pair_key task nonce)"

record attempt_update =
  au_status :: "attempt_status option"
  au_events :: "int option"
  au_receipt :: "string option"

definition apply_update :: "attempt_update \<Rightarrow> attempt_state \<Rightarrow> attempt_state" where
  "apply_update u a = a\<lparr>at_status := (case au_status u of None \<Rightarrow> at_status a | Some x \<Rightarrow> x),
     at_events := (case au_events u of None \<Rightarrow> at_events a | Some x \<Rightarrow> x),
     at_receipt := (case au_receipt u of None \<Rightarrow> at_receipt a | Some x \<Rightarrow> Some x)\<rparr>"

definition advanceAttempt :: "string \<Rightarrow> string \<Rightarrow> attempt_update \<Rightarrow> durable_store \<Rightarrow> bool \<times> durable_store" where
  "advanceAttempt task nonce upd s =
     (let key = pair_key task nonce in
      case map_get (ds_attempts s) key of
        None \<Rightarrow> (False, s)
      | Some e \<Rightarrow>
          if list_ex (\<lambda>other. at_task other = task \<and> at_nonce other \<noteq> nonce \<and> at_token other > at_token e)
               (map_values (ds_attempts s))
          then (False, s\<lparr>ds_attempts := map_set (ds_attempts s) key (e\<lparr>at_status := At_superseded\<rparr>)\<rparr>)
          else (True, s\<lparr>ds_attempts := map_set (ds_attempts s) key (apply_update upd e)\<rparr>))"

section \<open>The durable replay guard\<close>

text \<open>The run-time type checks of a claim; \<open>now\<close> and \<open>now_iso\<close> are one clock reading.\<close>

definition durable_read_claim :: "jsval \<Rightarrow> replay_claim option" where
  "durable_read_claim v =
     (if is_objectish v
      then (case (js_str (js_get v ''runnerId''), js_str (js_get v ''taskId''), js_str (js_get v ''nonce''),
                  js_safe_int (js_get v ''fencingToken''), js_str (js_get v ''expiresAt'')) of
          (Some runnerId, Some taskId, Some nonce, Some token, Some expiresAt) \<Rightarrow>
            if 1 \<le> token
            then Some \<lparr>rc_runner = runnerId, rc_task = taskId, rc_nonce = nonce, rc_token = token,
                       rc_expires = expiresAt\<rparr>
            else None
        | _ \<Rightarrow> None)
      else None)"

definition durable_claim ::
  "(string \<Rightarrow> int option) \<Rightarrow> jsval \<Rightarrow> int \<Rightarrow> string \<Rightarrow> durable_store \<Rightarrow> guard_failure + (bool \<times> durable_store)" where
  "durable_claim parse_date v now now_iso s = (case durable_read_claim v of
      None \<Rightarrow> Inl Claim_invalid
    | Some c \<Rightarrow>
        if (case parse_date (rc_expires c) of None \<Rightarrow> True | Some expiry \<Rightarrow> expiry \<le> now) then Inr (False, s)
        else Inr (claimNonce \<lparr>at_task = rc_task c, at_runner = rc_runner c, at_nonce = rc_nonce c,
               at_token = rc_token c, at_status = At_claimed, at_events = 0, at_receipt = None,
               at_claimed = now_iso, at_expires = rc_expires c\<rparr> s))"

section \<open>The outbox as a machine\<close>

datatype outbox_op =
    Ob_append outbox_kind string int string "string option" string
  | Ob_mark_inflight nat
  | Ob_mark_retry nat string
  | Ob_ack nat
  | Ob_compact

definition outbox_step :: "outbox_op \<Rightarrow> outbox \<Rightarrow> outbox" where
  "outbox_step x b = (case x of
      Ob_append kind task token payload retryAt now \<Rightarrow>
        (case outbox_append kind task token payload retryAt now b of Inl _ \<Rightarrow> b | Inr (_, c) \<Rightarrow> c)
    | Ob_mark_inflight n \<Rightarrow> snd (markInflight n b)
    | Ob_mark_retry n t \<Rightarrow> snd (markRetry n t b)
    | Ob_ack n \<Rightarrow> snd (ack n b)
    | Ob_compact \<Rightarrow> snd (compact b))"

definition outbox_run :: "outbox_op list \<Rightarrow> outbox" where
  "outbox_run xs = fold outbox_step xs new_outbox"

definition retry_ok :: "outbox_entry \<Rightarrow> bool" where
  "retry_ok e \<longleftrightarrow> ox_retries e \<le> DURABLE_OUTBOX_MAX_RETRIES \<and>
     (settled e \<or> ox_retries e < DURABLE_OUTBOX_MAX_RETRIES)"

definition outbox_inv :: "outbox \<Rightarrow> bool" where
  "outbox_inv b \<longleftrightarrow> sorted_wrt (<) (map ox_sequence (ob_entries b)) \<and>
     (\<forall>e \<in> set (ob_entries b). ox_sequence e < ob_next b \<and> retry_ok e) \<and>
     length (ob_entries b) \<le> DURABLE_OUTBOX_MAX_SIZE"

text \<open>A sequence number that is closed: used, and whatever entry still carries it is settled.\<close>

definition closed_in :: "outbox \<Rightarrow> nat \<Rightarrow> bool" where
  "closed_in b n \<longleftrightarrow> n < ob_next b \<and> (\<forall>e \<in> set (ob_entries b). ox_sequence e = n \<longrightarrow> settled e)"

definition keeps_closed :: "outbox \<Rightarrow> outbox \<Rightarrow> bool" where
  "keeps_closed b c \<longleftrightarrow> (\<forall>n. closed_in b n \<longrightarrow> closed_in c n)"

lemma write_first_seq: "(\<And>e. ox_sequence (f e) = ox_sequence e) \<Longrightarrow> map ox_sequence (write_first n f es) = map ox_sequence es"
  by (induction es) auto

lemma write_first_mem: "e \<in> set (write_first n f es) \<Longrightarrow>
    e \<in> set es \<or> (\<exists>d. find (\<lambda>e. ox_sequence e = n) es = Some d \<and> e = f d)"
  by (induction es) (auto split: if_splits)

lemma length_write_first [simp]: "length (write_first n f es) = length es"
  by (induction es) auto

lemma find_entry_mem: "find_entry n b = Some e \<Longrightarrow> e \<in> set (ob_entries b) \<and> ox_sequence e = n"
  by (auto simp: find_entry_def find_Some_iff)

lemma write_entry_inv:
  assumes "outbox_inv b" "find_entry n b = Some d" "retry_ok (f d)" "\<And>e. ox_sequence (f e) = ox_sequence e"
  shows "outbox_inv (write_entry n f b)"
  using assms find_entry_mem [OF assms(2)]
  by (auto simp: outbox_inv_def write_entry_def write_first_seq find_entry_def dest!: write_first_mem)

lemma write_entry_closed:
  assumes "find_entry n b = Some d" "settled d \<Longrightarrow> settled (f d)" "\<And>e. ox_sequence (f e) = ox_sequence e"
  shows "keeps_closed b (write_entry n f b)"
  using assms find_entry_mem [OF assms(1)]
  by (auto simp: keeps_closed_def closed_in_def write_entry_def find_entry_def dest!: write_first_mem)

lemma keeps_closed_refl [simp]: "keeps_closed b b"
  by (simp add: keeps_closed_def)

lemma entry_retry_ok: "outbox_inv b \<Longrightarrow> find_entry n b = Some e \<Longrightarrow> retry_ok e"
  using find_entry_mem by (auto simp: outbox_inv_def)

lemma outbox_step_ok:
  assumes inv: "outbox_inv b"
  shows "outbox_inv (outbox_step x b) \<and> keeps_closed b (outbox_step x b)"
proof (cases x)
  case (Ob_append kind task token payload retryAt now)
  show ?thesis
  proof (cases "length (ob_entries b) < DURABLE_OUTBOX_MAX_SIZE")
    case True
    then show ?thesis using inv
      by (auto simp: Ob_append outbox_step_def outbox_append_def outbox_inv_def keeps_closed_def closed_in_def
          sorted_wrt_append retry_ok_def DURABLE_OUTBOX_MAX_RETRIES_def less_Suc_eq Let_def)
  next
    case False
    then show ?thesis using inv by (simp add: Ob_append outbox_step_def outbox_append_def)
  qed
next
  case (Ob_mark_inflight n)
  show ?thesis
  proof (cases "find_entry n b")
    case (Some e)
    then show ?thesis using inv entry_retry_ok [OF inv Some]
      by (auto simp: Ob_mark_inflight outbox_step_def markInflight_def
          intro!: write_entry_inv write_entry_closed) (auto simp: retry_ok_def settled_def)
  qed (use inv in \<open>simp add: Ob_mark_inflight outbox_step_def markInflight_def\<close>)
next
  case (Ob_mark_retry n t)
  show ?thesis
  proof (cases "find_entry n b")
    case (Some e)
    then show ?thesis using inv entry_retry_ok [OF inv Some]
      by (auto simp: Ob_mark_retry outbox_step_def markRetry_def
          intro!: write_entry_inv write_entry_closed) (auto simp: retry_ok_def settled_def)
  qed (use inv in \<open>simp add: Ob_mark_retry outbox_step_def markRetry_def\<close>)
next
  case (Ob_ack n)
  show ?thesis
  proof (cases "find_entry n b")
    case (Some e)
    then show ?thesis using inv entry_retry_ok [OF inv Some]
      by (auto simp: Ob_ack outbox_step_def ack_def
          intro!: write_entry_inv write_entry_closed) (auto simp: retry_ok_def settled_def)
  qed (use inv in \<open>simp add: Ob_ack outbox_step_def ack_def\<close>)
next
  case Ob_compact
  have "sorted_wrt (<) (map ox_sequence (filter (\<lambda>e. \<not> settled e) (ob_entries b)))"
    using inv by (simp add: outbox_inv_def sorted_wrt_map sorted_wrt_filter)
  then show ?thesis using inv le_trans [OF length_filter_le]
    by (auto simp: Ob_compact outbox_step_def compact_def outbox_inv_def keeps_closed_def closed_in_def)
qed

interpretation outboxes: mono_machine new_outbox outbox_step outbox_inv keeps_closed
  by unfold_locales
     (use outbox_step_ok in \<open>auto simp: outbox_inv_def new_outbox_def keeps_closed_def\<close>)

lemma find_entry_closed:
  assumes inv: "outbox_inv b" and e: "find_entry n b = Some e" "settled e"
  shows "closed_in b n"
proof -
  have "distinct (map ox_sequence (ob_entries b))"
    using inv by (auto simp: outbox_inv_def strict_sorted_iff)
  then have "d = e" if "d \<in> set (ob_entries b)" "ox_sequence d = n" for d
    using that find_entry_mem [OF e(1)] by (metis distinct_map inj_onD)
  then show ?thesis using inv e find_entry_mem [OF e(1)] by (auto simp: closed_in_def outbox_inv_def)
qed

lemma pending_mem: "e \<in> set (outbox_pending limit now b) \<Longrightarrow> e \<in> set (ob_entries b) \<and> \<not> settled e"
  by (auto simp: outbox_pending_def eligible_def settled_def dest!: in_set_takeD)

lemma pending_ordered:
  assumes "outbox_inv b"
  shows "sorted_wrt (<) (map ox_sequence (outbox_pending limit now b))"
proof -
  let ?xs = "filter (eligible now) (ob_entries b)"
  have s: "sorted_wrt (<) (map ox_sequence ?xs)"
    using assms by (simp add: outbox_inv_def sorted_wrt_map sorted_wrt_filter)
  then have "sort_key ox_sequence ?xs = ?xs"
    by (intro sort_key_id_if_sorted) (simp add: strict_sorted_iff)
  then show ?thesis using s by (simp add: outbox_pending_def take_map [symmetric] sorted_wrt_take)
qed

text \<open>An outbox entry that was acknowledged or went dead is never handed out for delivery again,
  whatever operations follow; what is handed out is in strictly increasing sequence order, has
  been retried fewer than 16 times, and the outbox never holds more than 4096 entries.\<close>

theorem settled_entries_are_never_redelivered:
  assumes "find_entry n (outbox_run xs) = Some e" "settled e"
  shows "list_all (\<lambda>d. ox_sequence d \<noteq> n \<and> ox_retries d < 16) (outbox_pending limit now (outbox_run (xs @ ys))) \<and>
    sorted_wrt (<) (map ox_sequence (outbox_pending limit now (outbox_run (xs @ ys)))) \<and>
    length (ob_entries (outbox_run (xs @ ys))) \<le> 4096"
proof -
  have inv: "outbox_inv (outbox_run zs)" for zs unfolding outbox_run_def by (rule outboxes.invar_run)
  have "keeps_closed (outbox_run xs) (outbox_run (xs @ ys))"
    unfolding outbox_run_def by (rule outboxes.below_later)
  then have "closed_in (outbox_run (xs @ ys)) n"
    using find_entry_closed [OF inv assms] by (auto simp: keeps_closed_def)
  moreover have "retry_ok d" if "d \<in> set (ob_entries (outbox_run (xs @ ys)))" for d
    using inv that by (auto simp: outbox_inv_def)
  ultimately show ?thesis
    using pending_mem [of _ limit now "outbox_run (xs @ ys)"] pending_ordered [OF inv] inv [of "xs @ ys"]
    by (auto simp: list_all_iff closed_in_def retry_ok_def outbox_inv_def
        DURABLE_OUTBOX_MAX_RETRIES_def DURABLE_OUTBOX_MAX_SIZE_def)
qed

lemma settled_entries_are_never_redelivered_witness:
  "list_all (\<lambda>d. ox_sequence d \<noteq> 1 \<and> ox_retries d < 16)
     (outbox_pending 5 ''b'' (outbox_run ([Ob_append Outbox_event ''t'' 1 ''p'' None ''a'', Ob_ack 1] @
        [Ob_append Outbox_event ''t'' 1 ''q'' None ''a'', Ob_mark_retry 1 ''b''])))"
proof -
  let ?e = "\<lparr>ox_sequence = 1, ox_kind = Outbox_event, ox_task = ''t'', ox_token = 1, ox_payload = ''p'',
    ox_status = Ob_acknowledged, ox_retries = 0, ox_next_retry = None, ox_created = ''a''\<rparr>"
  have "find_entry 1 (outbox_run [Ob_append Outbox_event ''t'' 1 ''p'' None ''a'', Ob_ack 1]) = Some ?e"
    by (simp add: outbox_run_def outbox_step_def outbox_append_def new_outbox_def ack_def find_entry_def
        write_entry_def DURABLE_OUTBOX_MAX_SIZE_def Let_def)
  from settled_entries_are_never_redelivered [OF this, of 5 "''b''"
      "[Ob_append Outbox_event ''t'' 1 ''q'' None ''a'', Ob_mark_retry 1 ''b'']"]
  show ?thesis by (simp add: settled_def)
qed

section \<open>The store as a claim guard\<close>

datatype store_op =
    St_claim jsval int string
  | St_claim_nonce attempt_state
  | St_advance string string attempt_update
  | St_put deployment
  | St_remove string string
  | St_corrupt store_corruption
  | St_outbox outbox_op

definition store_step :: "(string \<Rightarrow> int option) \<Rightarrow> store_op \<Rightarrow> durable_store \<Rightarrow> durable_store" where
  "store_step parse_date x s = (case x of
      St_claim v now now_iso \<Rightarrow> (case durable_claim parse_date v now now_iso s of Inl _ \<Rightarrow> s | Inr (_, t) \<Rightarrow> t)
    | St_claim_nonce a \<Rightarrow> snd (claimNonce a s)
    | St_advance task nonce u \<Rightarrow> snd (advanceAttempt task nonce u s)
    | St_put r \<Rightarrow> (case putDeployment r s of Inl _ \<Rightarrow> s | Inr t \<Rightarrow> t)
    | St_remove e v \<Rightarrow> snd (removeDeployment e v s)
    | St_corrupt c \<Rightarrow> injectCorruption c s
    | St_outbox y \<Rightarrow> s\<lparr>ds_outbox := outbox_step y (ds_outbox s)\<rparr>)"

text \<open>A granted claim: task, nonce, fencing token.\<close>

type_synonym durable_grant = "string \<times> string \<times> int"

definition store_granted ::
  "(string \<Rightarrow> int option) \<Rightarrow> store_op \<Rightarrow> durable_store \<Rightarrow> durable_grant option" where
  "store_granted parse_date x s = (case x of
      St_claim v now now_iso \<Rightarrow>
        (case durable_claim parse_date v now now_iso s of
           Inr (True, _) \<Rightarrow> map_option (\<lambda>c. (rc_task c, rc_nonce c, rc_token c)) (durable_read_claim v)
         | _ \<Rightarrow> None)
    | St_claim_nonce a \<Rightarrow> (if fst (claimNonce a s) then Some (at_task a, at_nonce a, at_token a) else None)
    | _ \<Rightarrow> None)"

definition store_remembers :: "durable_store \<Rightarrow> durable_grant \<Rightarrow> bool" where
  "store_remembers s = (\<lambda>(task, nonce, token).
     (case map_get (ds_attempts s) (pair_key task nonce) of
        None \<Rightarrow> False | Some a \<Rightarrow> at_task a = task \<and> at_token a = token))"

definition durable_conflicts :: "durable_grant \<Rightarrow> durable_grant \<Rightarrow> bool" where
  "durable_conflicts = (\<lambda>(task, nonce, token) (task', nonce', token').
     task' = task \<and> (nonce' = nonce \<or> token' < token))"

definition store_inv :: "durable_store \<Rightarrow> bool" where
  "store_inv s \<longleftrightarrow> outbox_inv (ds_outbox s) \<and> length (ds_deployments s) \<le> DURABLE_STORE_MAX_DEPLOYMENTS"

lemma claimNonce_grants:
  "fst (claimNonce a s) \<longleftrightarrow> map_get (ds_attempts s) (pair_key (at_task a) (at_nonce a)) = None \<and>
     (\<forall>e \<in> set (map_values (ds_attempts s)). at_task e = at_task a \<longrightarrow> at_token e \<noteq> 0 \<and> at_token e \<le> at_token a)"
  by (auto simp: claimNonce_def map_has_get list_ex_iff Let_def)

lemma claimNonce_state:
  "snd (claimNonce a s) = (if fst (claimNonce a s)
     then s\<lparr>ds_attempts := map_set (ds_attempts s) (pair_key (at_task a) (at_nonce a)) a\<rparr> else s)"
  by (auto simp: claimNonce_def Let_def)

lemma map_get_value: "map_get m k = Some v \<Longrightarrow> v \<in> set (map_values m)"
  by (force simp: map_values_def dest: map_get_mem)

lemma store_remembers_iff:
  "store_remembers s (task, nonce, token) \<longleftrightarrow>
     (\<exists>a. map_get (ds_attempts s) (pair_key task nonce) = Some a \<and> at_task a = task \<and> at_token a = token)"
  by (simp add: store_remembers_def split: option.splits)

lemma store_remembers_cong: "ds_attempts t = ds_attempts s \<Longrightarrow> store_remembers t c = store_remembers s c"
  by (cases c) (simp add: store_remembers_iff)

lemma claimNonce_keeps: "store_remembers s c \<Longrightarrow> store_remembers (snd (claimNonce a s)) c"
  by (cases c) (auto simp: claimNonce_state claimNonce_grants store_remembers_iff)

lemma claimNonce_refuses:
  "store_remembers s c \<Longrightarrow> fst (claimNonce a s) \<Longrightarrow> \<not> durable_conflicts c (at_task a, at_nonce a, at_token a)"
  by (cases c) (auto simp: claimNonce_grants store_remembers_iff durable_conflicts_def dest: map_get_value)

lemma claimNonce_remembered:
  "fst (claimNonce a s) \<Longrightarrow> store_remembers (snd (claimNonce a s)) (at_task a, at_nonce a, at_token a)"
  by (simp add: claimNonce_state store_remembers_def)

lemma advance_keeps: "store_remembers s c \<Longrightarrow> store_remembers (snd (advanceAttempt task nonce u s)) c"
  by (cases c) (auto simp: advanceAttempt_def store_remembers_iff apply_update_def Let_def split: option.splits)

text \<open>A claim through the guard is a claim of an attempt, or none at all.\<close>

lemma durable_claim_cases:
  assumes "durable_claim pdt v now iso_now s = Inr (b, t)"
  obtains "b = False" "t = s"
  | c a where "durable_read_claim v = Some c" "claimNonce a s = (b, t)"
      "at_task a = rc_task c" "at_nonce a = rc_nonce c" "at_token a = rc_token c"
  using assms by (fastforce simp: durable_claim_def split: option.splits if_splits)

lemma store_step_keeps: "store_remembers s c \<Longrightarrow> store_remembers (store_step pdt x s) c"
proof (cases x)
  case (St_claim v now iso_now)
  assume rem: "store_remembers s c"
  show ?thesis
  proof (cases "durable_claim pdt v now iso_now s")
    case (Inl e)
    then show ?thesis using rem by (simp add: St_claim store_step_def)
  next
    case (Inr r)
    obtain b t where r: "r = (b, t)" by fastforce
    have "durable_claim pdt v now iso_now s = Inr (b, t)" using Inr r by simp
    then show ?thesis
      by (cases rule: durable_claim_cases)
         (use rem Inr r claimNonce_keeps [OF rem] in \<open>auto simp: St_claim store_step_def\<close>, metis snd_conv)
  qed
next
  case (St_put r)
  assume "store_remembers s c"
  moreover have "ds_attempts (store_step pdt x s) = ds_attempts s"
    by (auto simp: St_put store_step_def putDeployment_def accepts Let_def split: sum.splits)
  ultimately show ?thesis using store_remembers_cong by blast
next
  case (St_claim_nonce a)
  then show "store_remembers s c \<Longrightarrow> ?thesis" by (simp add: store_step_def claimNonce_keeps)
next
  case (St_advance task nonce u)
  then show "store_remembers s c \<Longrightarrow> ?thesis" by (simp add: store_step_def advance_keeps)
qed (simp_all add: store_step_def removeDeployment_def injectCorruption_def store_remembers_def)

lemma store_grantedE:
  assumes "store_granted pdt x s = Some d"
  obtains a where "fst (claimNonce a s)" "store_step pdt x s = snd (claimNonce a s)"
    "d = (at_task a, at_nonce a, at_token a)"
proof (cases x)
  case (St_claim v now iso_now)
  with assms obtain t c where t: "durable_claim pdt v now iso_now s = Inr (True, t)"
    and c: "durable_read_claim v = Some c" "d = (rc_task c, rc_nonce c, rc_token c)"
    by (auto simp: store_granted_def split: sum.splits bool.splits)
  from t show ?thesis
  proof (cases rule: durable_claim_cases)
    case (2 c' a)
    then show ?thesis using c t that [of a] by (simp add: St_claim store_step_def)
  qed simp
next
  case (St_claim_nonce a)
  then show ?thesis using assms that [of a] by (auto simp: store_granted_def store_step_def split: if_splits)
qed (use assms in \<open>auto simp: store_granted_def\<close>)

lemma put_inv: "store_inv s \<Longrightarrow> putDeployment r s = Inr t \<Longrightarrow> store_inv t"
  by (auto simp: putDeployment_def store_inv_def accepts length_map_set map_has_get Let_def)

lemma claimNonce_inv: "store_inv s \<Longrightarrow> store_inv (snd (claimNonce a s))"
  by (simp add: claimNonce_state store_inv_def)

lemma store_step_inv: "store_inv s \<Longrightarrow> store_inv (store_step pdt x s)"
proof (cases x)
  case (St_claim v now iso_now)
  assume inv: "store_inv s"
  show ?thesis
  proof (cases "durable_claim pdt v now iso_now s")
    case (Inl e)
    then show ?thesis using inv by (simp add: St_claim store_step_def)
  next
    case (Inr r)
    obtain b t where r: "r = (b, t)" by fastforce
    have "durable_claim pdt v now iso_now s = Inr (b, t)" using Inr r by simp
    then show ?thesis
      by (cases rule: durable_claim_cases)
         (use inv Inr r claimNonce_inv [OF inv] in \<open>auto simp: St_claim store_step_def\<close>, metis snd_conv)
  qed
next
  case (St_put r)
  then show "store_inv s \<Longrightarrow> ?thesis" by (auto simp: store_step_def put_inv split: sum.splits)
next
  case (St_claim_nonce a)
  then show "store_inv s \<Longrightarrow> ?thesis" by (simp add: store_step_def claimNonce_inv)
next
  case (St_advance task nonce u)
  then show "store_inv s \<Longrightarrow> ?thesis"
    by (auto simp: store_step_def advanceAttempt_def store_inv_def Let_def split: option.splits)
next
  case (St_remove e v)
  then show "store_inv s \<Longrightarrow> ?thesis"
    using le_trans [OF length_map_delete]
    by (auto simp: store_step_def removeDeployment_def store_inv_def)
qed (simp_all add: store_step_def injectCorruption_def store_inv_def outbox_step_ok)

interpretation durable_guard: claim_guard new_store "store_step pdt" store_inv "store_granted pdt"
    store_remembers durable_conflicts
  for pdt
proof unfold_locales
  show "store_inv new_store"
    by (simp add: store_inv_def new_store_def outbox_inv_def new_outbox_def)
next
  fix s x c d
  assume "store_remembers s c" "store_granted pdt x s = Some d"
  then show "\<not> durable_conflicts c d" by (metis store_grantedE claimNonce_refuses)
next
  fix s x c
  assume "store_granted pdt x s = Some c"
  then show "store_remembers (store_step pdt x s) c" by (metis store_grantedE claimNonce_remembered)
qed (simp_all add: store_step_inv store_step_keeps)

text \<open>Over any sequence of claims, attempt updates, deployment changes and outbox operations, the
  durable store never grants the same task and nonce twice, and never grants a task a smaller
  fencing token than one it granted before; it never holds more than 256 deployments.\<close>

theorem durable_claims_are_fresh_and_fenced:
  "sorted_wrt (\<lambda>c d. \<not> durable_conflicts c d)
     (grants_of (store_granted parse_date) (store_step parse_date) new_store ops) \<and>
   length (ds_deployments (fold (store_step parse_date) ops new_store)) \<le> 256"
  using durable_guard.run_grants_never_conflict [of parse_date ops] durable_guard.invar_run [of parse_date ops]
  by (simp add: store_inv_def DURABLE_STORE_MAX_DEPLOYMENTS_def)

end
