(* ===== verification/TaskIntake.thy ===== *)
theory TaskIntake
  imports JsMap
begin

text \<open>
  packages/core/src/task-intake-approval.ts: the owner's gate in front of task intake. \<open>sha\<close> is
  SHA-256, \<open>parse_date\<close> reads a date string (None for an invalid date), \<open>iso_of\<close> is \<open>toISOString\<close>.
  A call's clock reading is an argument, and the reading its event takes a second one (\<open>stamp\<close>).
  Records are handed out by reference; callers are assumed not to write to them.
\<close>

section \<open>Types\<close>

definition TASK_INTAKE_DEFAULT_TIMEOUT_MS :: int where
  "TASK_INTAKE_DEFAULT_TIMEOUT_MS = 300000"

definition TASK_INTAKE_MAX_TIMEOUT_MS :: int where
  "TASK_INTAKE_MAX_TIMEOUT_MS = 3600000"

definition TASK_INTAKE_MIN_TIMEOUT_MS :: int where
  "TASK_INTAKE_MIN_TIMEOUT_MS = 10000"

datatype intake_error =
    Intake_already_decided
  | Intake_expired
  | Intake_not_found
  | Intake_policy_invalid
  | Intake_request_invalid
  | Intake_range_error

datatype intake_state = In_pending | In_approved | In_declined | In_expired | In_auto_accepted

record intake_policy =
  ip_require :: bool
  ip_timeout :: "int option"

record intake_request =
  iq_task :: string
  iq_lease :: string
  iq_lease_expires :: string
  iq_employee :: string
  iq_runner :: string
  iq_requested :: string

record intake_record =
  ir_request :: intake_request
  ir_state :: intake_state
  ir_decided_at :: "string option"
  ir_decided_by :: "string option"
  ir_reason :: "string option"
  ir_expires :: string
  ir_digest :: string

record intake_decision =
  id_task :: string
  id_approved :: bool
  id_by :: string
  id_reason :: "string option"

record intake_event =
  ie_task :: string
  ie_lease :: string
  ie_previous :: "intake_state option"
  ie_new :: intake_state
  ie_timestamp :: string
  ie_digest :: string

fun state_name :: "intake_state \<Rightarrow> string" where
  "state_name In_pending = ''pending''"
| "state_name In_approved = ''approved''"
| "state_name In_declined = ''declined''"
| "state_name In_expired = ''expired''"
| "state_name In_auto_accepted = ''auto_accepted''"

section \<open>Validation\<close>

definition validateTaskIntakePolicy :: "jsval \<Rightarrow> intake_error + intake_policy" where
  "validateTaskIntakePolicy obj =
     ensure (is_objectish obj) Intake_policy_invalid
    (case js_bool (js_get obj ''requireOwnerApproval'') of
       None \<Rightarrow> Inl Intake_policy_invalid
     | Some req \<Rightarrow>
        (if js_get obj ''timeoutMs'' = JUndef then Inr \<lparr>ip_require = req, ip_timeout = None\<rparr>
         else case js_safe_int (js_get obj ''timeoutMs'') of
           None \<Rightarrow> Inl Intake_policy_invalid
         | Some t \<Rightarrow> ensure (\<not> (t < TASK_INTAKE_MIN_TIMEOUT_MS \<or> t > TASK_INTAKE_MAX_TIMEOUT_MS))
             Intake_policy_invalid (Inr \<lparr>ip_require = req, ip_timeout = Some t\<rparr>)))"

definition nonempty_field :: "jsval \<Rightarrow> string \<Rightarrow> intake_error + string" where
  "nonempty_field obj k = (case js_str (js_get obj k) of
      None \<Rightarrow> Inl Intake_request_invalid | Some s \<Rightarrow> ensure (s \<noteq> []) Intake_request_invalid (Inr s))"

definition validateTaskIntakeRequest :: "jsval \<Rightarrow> intake_error + intake_request" where
  "validateTaskIntakeRequest obj =
     ensure (is_objectish obj) Intake_request_invalid
    (and_then (nonempty_field obj ''taskId'') (\<lambda>taskId.
     and_then (nonempty_field obj ''leaseId'') (\<lambda>leaseId.
     and_then (nonempty_field obj ''leaseExpiresAt'') (\<lambda>leaseExpiresAt.
     and_then (nonempty_field obj ''employeeId'') (\<lambda>employeeId.
     and_then (nonempty_field obj ''runnerId'') (\<lambda>runnerId.
     and_then (nonempty_field obj ''requestedAt'') (\<lambda>requestedAt.
       Inr \<lparr>iq_task = taskId, iq_lease = leaseId, iq_lease_expires = leaseExpiresAt,
            iq_employee = employeeId, iq_runner = runnerId, iq_requested = requestedAt\<rparr>)))))))"

definition computeTaskIntakeDigest :: "(string \<Rightarrow> string) \<Rightarrow> intake_request \<Rightarrow> intake_state \<Rightarrow> string" where
  "computeTaskIntakeDigest sha q st = sha (join_with ''|'' [iq_task q, iq_lease q, state_name st, iq_requested q])"

definition evaluateIntakeGate :: "intake_policy \<Rightarrow> bool" where
  "evaluateIntakeGate p = ip_require p"

section \<open>The gate\<close>

record intake_gate =
  ig_policy :: intake_policy
  ig_records :: "(string, intake_record) jsmap"
  ig_events :: "intake_event list"

definition new_intake_gate :: "intake_policy \<Rightarrow> intake_gate" where
  "new_intake_gate p = \<lparr>ig_policy = p, ig_records = [], ig_events = []\<rparr>"

definition intake_event_of ::
  "(string \<Rightarrow> string) \<Rightarrow> (int \<Rightarrow> string) \<Rightarrow> intake_record \<Rightarrow> intake_state option \<Rightarrow> intake_state \<Rightarrow> int \<Rightarrow> intake_event" where
  "intake_event_of sha iso_of r prev st stamp =
     \<lparr>ie_task = iq_task (ir_request r), ie_lease = iq_lease (ir_request r), ie_previous = prev, ie_new = st,
      ie_timestamp = iso_of stamp,
      ie_digest = sha (join_with ''|'' [''task-intake-approval.v1'', iq_task (ir_request r),
        iq_lease (ir_request r), (case prev of None \<Rightarrow> ''null'' | Some p \<Rightarrow> state_name p),
        state_name st, iso_of stamp])\<rparr>"

text \<open>The record written and its event emitted.\<close>

definition commit_record ::
  "(string \<Rightarrow> string) \<Rightarrow> (int \<Rightarrow> string) \<Rightarrow> intake_record \<Rightarrow> intake_state option \<Rightarrow> int \<Rightarrow> intake_gate \<Rightarrow> intake_gate" where
  "commit_record sha iso_of r prev stamp g =
     g\<lparr>ig_records := map_set (ig_records g) (iq_task (ir_request r)) r,
       ig_events := ig_events g @ [intake_event_of sha iso_of r prev (ir_state r) stamp]\<rparr>"

definition submit ::
  "(string \<Rightarrow> string) \<Rightarrow> (string \<Rightarrow> int option) \<Rightarrow> (int \<Rightarrow> string) \<Rightarrow> jsval \<Rightarrow> int \<Rightarrow> int \<Rightarrow> intake_gate \<Rightarrow>
   intake_error + (intake_record \<times> intake_gate)" where
  "submit sha parse_date iso_of request now stamp g =
     and_then (validateTaskIntakeRequest request) (\<lambda>q.
     ensure (\<not> map_has (ig_records g) (iq_task q)) Intake_already_decided
    (let timeoutMs = (case ip_timeout (ig_policy g) of None \<Rightarrow> TASK_INTAKE_DEFAULT_TIMEOUT_MS | Some t \<Rightarrow> t);
         policyExpiry = now + timeoutMs
     in case parse_date (iq_lease_expires q) of
          None \<Rightarrow> Inl Intake_range_error
        | Some leaseExpiry \<Rightarrow>
            (let expiresAt = (if policyExpiry < leaseExpiry then policyExpiry else leaseExpiry);
                 initial = (if ip_require (ig_policy g) then In_pending else In_auto_accepted);
                 auto = (initial = In_auto_accepted);
                 r = \<lparr>ir_request = q, ir_state = initial,
                   ir_decided_at = (if auto then Some (iso_of now) else None),
                   ir_decided_by = (if auto then Some ''policy:auto_accept'' else None),
                   ir_reason = None, ir_expires = iso_of expiresAt,
                   ir_digest = computeTaskIntakeDigest sha q initial\<rparr>
             in Inr (r, commit_record sha iso_of r None stamp g))))"

text \<open>\<open>now >= new Date(record.expiresAt)\<close>; false for an invalid date.\<close>

definition reached :: "(string \<Rightarrow> int option) \<Rightarrow> int \<Rightarrow> intake_record \<Rightarrow> bool" where
  "reached parse_date now r = (case parse_date (ir_expires r) of None \<Rightarrow> False | Some t \<Rightarrow> now \<ge> t)"

definition settle_record ::
  "(string \<Rightarrow> string) \<Rightarrow> (int \<Rightarrow> string) \<Rightarrow> intake_state \<Rightarrow> int \<Rightarrow> string \<Rightarrow> intake_record \<Rightarrow> intake_record" where
  "settle_record sha iso_of st now who r = r\<lparr>ir_state := st, ir_decided_at := Some (iso_of now),
     ir_decided_by := Some who, ir_digest := computeTaskIntakeDigest sha (ir_request r) st\<rparr>"

text \<open>A decision that comes too late expires the record before it throws.\<close>

definition decide ::
  "(string \<Rightarrow> string) \<Rightarrow> (string \<Rightarrow> int option) \<Rightarrow> (int \<Rightarrow> string) \<Rightarrow> intake_decision \<Rightarrow> int \<Rightarrow> int \<Rightarrow>
   intake_gate \<Rightarrow> (intake_error + intake_record) \<times> intake_gate" where
  "decide sha parse_date iso_of d now stamp g =
     (if id_task d = [] then (Inl Intake_request_invalid, g)
      else case map_get (ig_records g) (id_task d) of
        None \<Rightarrow> (Inl Intake_not_found, g)
      | Some r \<Rightarrow>
          if ir_state r \<noteq> In_pending then (Inl Intake_already_decided, g)
          else if reached parse_date now r
          then (Inl Intake_expired,
                commit_record sha iso_of (settle_record sha iso_of In_expired now ''system:timeout'' r)
                  (Some In_pending) stamp g)
          else (let r' = (settle_record sha iso_of (if id_approved d then In_approved else In_declined) now (id_by d) r)
                           \<lparr>ir_reason := id_reason d\<rparr>
                in (Inr r', commit_record sha iso_of r' (Some In_pending) stamp g)))"

text \<open>The loop over the records; \<open>stamp k\<close> is the reading the k-th event takes.\<close>

fun expire_loop ::
  "(string \<Rightarrow> string) \<Rightarrow> (string \<Rightarrow> int option) \<Rightarrow> (int \<Rightarrow> string) \<Rightarrow> int \<Rightarrow> (nat \<Rightarrow> int) \<Rightarrow>
   intake_record list \<Rightarrow> string list \<times> intake_gate \<Rightarrow> string list \<times> intake_gate" where
  "expire_loop sha parse_date iso_of now stamp [] acc = acc"
| "expire_loop sha parse_date iso_of now stamp (r # rs) (expired, g) =
     expire_loop sha parse_date iso_of now stamp rs
       (if ir_state r = In_pending \<and> reached parse_date now r
        then (expired @ [iq_task (ir_request r)],
              commit_record sha iso_of (settle_record sha iso_of In_expired now ''system:timeout'' r)
                (Some In_pending) (stamp (length expired)) g)
        else (expired, g))"

definition expirePending ::
  "(string \<Rightarrow> string) \<Rightarrow> (string \<Rightarrow> int option) \<Rightarrow> (int \<Rightarrow> string) \<Rightarrow> int \<Rightarrow> (nat \<Rightarrow> int) \<Rightarrow> intake_gate \<Rightarrow>
   string list \<times> intake_gate" where
  "expirePending sha parse_date iso_of now stamp g =
     expire_loop sha parse_date iso_of now stamp (map_values (ig_records g)) ([], g)"

definition canLaunch :: "string \<Rightarrow> intake_gate \<Rightarrow> bool" where
  "canLaunch taskId g = (case map_get (ig_records g) taskId of
      None \<Rightarrow> False | Some r \<Rightarrow> ir_state r = In_approved \<or> ir_state r = In_auto_accepted)"

definition drainEvents :: "intake_gate \<Rightarrow> intake_event list \<times> intake_gate" where
  "drainEvents g = (ig_events g, g\<lparr>ig_events := []\<rparr>)"

definition pendingCount :: "intake_gate \<Rightarrow> nat" where
  "pendingCount g = length (filter (\<lambda>r. ir_state r = In_pending) (map_values (ig_records g)))"

section \<open>The gate as a machine\<close>

datatype intake_op =
    In_submit jsval int int
  | In_decide intake_decision int int
  | In_expire int "nat \<Rightarrow> int"
  | In_drain

text \<open>The state with the events drained so far.\<close>

definition intake_step ::
  "(string \<Rightarrow> string) \<Rightarrow> (string \<Rightarrow> int option) \<Rightarrow> (int \<Rightarrow> string) \<Rightarrow> intake_op \<Rightarrow>
   intake_event list \<times> intake_gate \<Rightarrow> intake_event list \<times> intake_gate" where
  "intake_step sha parse_date iso_of x = (\<lambda>(past, g). case x of
      In_submit request now stamp \<Rightarrow>
        (past, case submit sha parse_date iso_of request now stamp g of Inl _ \<Rightarrow> g | Inr (_, h) \<Rightarrow> h)
    | In_decide d now stamp \<Rightarrow> (past, snd (decide sha parse_date iso_of d now stamp g))
    | In_expire now stamp \<Rightarrow> (past, snd (expirePending sha parse_date iso_of now stamp g))
    | In_drain \<Rightarrow> (past @ fst (drainEvents g), snd (drainEvents g)))"

definition transitions :: "string \<Rightarrow> intake_event list \<Rightarrow> (intake_state option \<times> intake_state) list" where
  "transitions i evs = map (\<lambda>e. (ie_previous e, ie_new e)) (filter (\<lambda>e. ie_task e = i) evs)"

text \<open>The promised life of a task: accepted at once, or held and decided at most once.\<close>

definition intake_path :: "bool \<Rightarrow> intake_state \<Rightarrow> (intake_state option \<times> intake_state) list \<Rightarrow> bool" where
  "intake_path req st ts \<longleftrightarrow> (case st of
      In_auto_accepted \<Rightarrow> \<not> req \<and> ts = [(None, In_auto_accepted)]
    | In_pending \<Rightarrow> req \<and> ts = [(None, In_pending)]
    | _ \<Rightarrow> req \<and> ts = [(None, In_pending), (Some In_pending, st)])"

text \<open>An approval or a refusal was recorded at a time before the record's expiry.\<close>

definition decided_in_time :: "(string \<Rightarrow> int option) \<Rightarrow> (int \<Rightarrow> string) \<Rightarrow> intake_record \<Rightarrow> bool" where
  "decided_in_time parse_date iso_of r \<longleftrightarrow>
     (if ir_state r = In_approved \<or> ir_state r = In_declined
      then \<exists>t. ir_decided_at r = Some (iso_of t) \<and> \<not> reached parse_date t r else True)"

definition record_ok ::
  "(string \<Rightarrow> string) \<Rightarrow> (string \<Rightarrow> int option) \<Rightarrow> (int \<Rightarrow> string) \<Rightarrow> bool \<Rightarrow> intake_event list \<Rightarrow>
   string \<times> intake_record \<Rightarrow> bool" where
  "record_ok sha parse_date iso_of req evs = (\<lambda>(i, r). iq_task (ir_request r) = i \<and>
     ir_digest r = computeTaskIntakeDigest sha (ir_request r) (ir_state r) \<and>
     intake_path req (ir_state r) (transitions i evs) \<and> decided_in_time parse_date iso_of r)"

definition intake_inv ::
  "(string \<Rightarrow> string) \<Rightarrow> (string \<Rightarrow> int option) \<Rightarrow> (int \<Rightarrow> string) \<Rightarrow> intake_policy \<Rightarrow>
   intake_event list \<times> intake_gate \<Rightarrow> bool" where
  "intake_inv sha parse_date iso_of p = (\<lambda>(past, g). ig_policy g = p \<and> map_wf (ig_records g) \<and>
     list_all (record_ok sha parse_date iso_of (ip_require p) (past @ ig_events g)) (ig_records g) \<and>
     (\<forall>e \<in> set (past @ ig_events g). map_has (ig_records g) (ie_task e)))"

lemma transitions_append [simp]: "transitions i (xs @ ys) = transitions i xs @ transitions i ys"
  by (simp add: transitions_def)

lemma transitions_event [simp]:
  "transitions i [intake_event_of sha isof r prev st stamp] = (if iq_task (ir_request r) = i then [(prev, st)] else [])"
  by (simp add: transitions_def intake_event_of_def)

lemma map_has_set: "map_has (map_set m k v) j \<longleftrightarrow> j = k \<or> map_has m j"
  by (simp add: map_has_get)

lemma commit_inv:
  assumes inv: "intake_inv sha pdt isof p (past, g)"
    and ok: "record_ok sha pdt isof (ip_require p) (past @ ig_events (commit_record sha isof r prev stamp g)) (iq_task (ir_request r), r)"
  shows "intake_inv sha pdt isof p (past, commit_record sha isof r prev stamp g)"
proof -
  let ?i = "iq_task (ir_request r)" and ?h = "commit_record sha isof r prev stamp g"
  have wf: "map_wf (ig_records g)" using inv by (simp add: intake_inv_def)
  have "record_ok sha pdt isof (ip_require p) (past @ ig_events ?h) x" if x: "x \<in> set (ig_records ?h)" for x
  proof (cases "fst x = ?i")
    case True
    with x wf have "x = (?i, r)" by (auto simp: commit_record_def set_map_set)
    then show ?thesis using ok by simp
  next
    case False
    with x wf have "x \<in> set (ig_records g)" by (auto simp: commit_record_def set_map_set)
    then have "record_ok sha pdt isof (ip_require p) (past @ ig_events g) x"
      using inv by (simp add: intake_inv_def list_all_iff)
    then show ?thesis using False by (auto simp: record_ok_def commit_record_def split: prod.splits)
  qed
  then show ?thesis using inv
    by (auto simp: intake_inv_def commit_record_def map_wf_set map_has_set intake_event_of_def list_all_iff)
qed

lemma inv_record:
  "intake_inv sha pdt isof p (past, g) \<Longrightarrow> map_get (ig_records g) i = Some r \<Longrightarrow>
   record_ok sha pdt isof (ip_require p) (past @ ig_events g) (i, r)"
  by (auto simp: intake_inv_def intro: list_all_map_get)

lemma settle_inv:
  assumes inv: "intake_inv sha pdt isof p (past, g)"
    and get: "map_get (ig_records g) (iq_task (ir_request r)) = Some r" and st: "ir_state r = In_pending"
    and r': "ir_request r' = ir_request r" "ir_state r' \<in> {In_approved, In_declined, In_expired}"
      "ir_digest r' = computeTaskIntakeDigest sha (ir_request r') (ir_state r')" "decided_in_time pdt isof r'"
  shows "intake_inv sha pdt isof p (past, commit_record sha isof r' (Some In_pending) stamp g)"
proof (rule commit_inv [OF inv])
  have "record_ok sha pdt isof (ip_require p) (past @ ig_events g) (iq_task (ir_request r), r)"
    by (rule inv_record [OF inv get])
  then show "record_ok sha pdt isof (ip_require p)
      (past @ ig_events (commit_record sha isof r' (Some In_pending) stamp g)) (iq_task (ir_request r'), r')"
    using st r' by (auto simp: record_ok_def intake_path_def commit_record_def)
qed

lemma submit_inv:
  assumes inv: "intake_inv sha pdt isof p (past, g)" and s: "submit sha pdt isof request now stamp g = Inr (r, h)"
  shows "intake_inv sha pdt isof p (past, h)"
proof -
  have h: "h = commit_record sha isof r None stamp g" and new: "\<not> map_has (ig_records g) (iq_task (ir_request r))"
    and r: "ir_state r = (if ip_require (ig_policy g) then In_pending else In_auto_accepted)"
      "ir_digest r = computeTaskIntakeDigest sha (ir_request r) (ir_state r)"
    using s by (auto simp: submit_def accepts option_Inr Let_def)
  have "transitions (iq_task (ir_request r)) (past @ ig_events g) = []"
  proof -
    have all: "\<forall>e \<in> set (past @ ig_events g). map_has (ig_records g) (ie_task e)"
      using inv by (simp add: intake_inv_def)
    have "ie_task e \<noteq> iq_task (ir_request r)" if "e \<in> set (past @ ig_events g)" for e
      using all new that by metis
    then show ?thesis by (simp add: transitions_def filter_empty_conv)
  qed
  then show ?thesis unfolding h using inv r
    by (intro commit_inv [OF inv])
       (auto simp: record_ok_def commit_record_def intake_path_def decided_in_time_def intake_inv_def)
qed

lemma decide_inv:
  assumes inv: "intake_inv sha pdt isof p (past, g)"
  shows "intake_inv sha pdt isof p (past, snd (decide sha pdt isof d now stamp g))"
proof (cases "map_get (ig_records g) (id_task d)")
  case None
  then show ?thesis using inv by (simp add: decide_def)
next
  case (Some r)
  have id: "iq_task (ir_request r) = id_task d" using inv_record [OF inv Some] by (simp add: record_ok_def)
  show ?thesis
  proof (cases "id_task d = [] \<or> ir_state r \<noteq> In_pending")
    case True
    then show ?thesis using inv Some by (auto simp: decide_def)
  next
    case False
    then show ?thesis using Some
      by (auto simp: decide_def settle_record_def decided_in_time_def reached_def Let_def
          intro!: settle_inv [OF inv, where r = r] simp: id)
  qed
qed

lemma expire_loop_inv:
  "intake_inv sha pdt isof p (past, g) \<Longrightarrow> distinct (map (\<lambda>r. iq_task (ir_request r)) rs) \<Longrightarrow>
   (\<forall>r \<in> set rs. map_get (ig_records g) (iq_task (ir_request r)) = Some r) \<Longrightarrow>
   intake_inv sha pdt isof p (past, snd (expire_loop sha pdt isof now stamp rs (expired, g)))"
proof (induction rs arbitrary: expired g)
  case (Cons r rs)
  show ?case
  proof (cases "ir_state r = In_pending \<and> reached pdt now r")
    case True
    let ?r = "settle_record sha isof In_expired now ''system:timeout'' r"
    let ?g = "commit_record sha isof ?r (Some In_pending) (stamp (length expired)) g"
    have "intake_inv sha pdt isof p (past, ?g)"
      using Cons.prems True
      by (intro settle_inv [where r = r]) (auto simp: settle_record_def decided_in_time_def)
    moreover have "map_get (ig_records ?g) (iq_task (ir_request x)) = Some x" if "x \<in> set rs" for x
      using Cons.prems(2,3) that by (auto simp: commit_record_def settle_record_def image_iff)
    ultimately show ?thesis using Cons.IH Cons.prems(2) True by simp
  next
    case False
    then show ?thesis using Cons by auto
  qed
qed simp

lemma expirePending_inv:
  assumes inv: "intake_inv sha pdt isof p (past, g)"
  shows "intake_inv sha pdt isof p (past, snd (expirePending sha pdt isof now stamp g))"
proof -
  have wf: "map_wf (ig_records g)" using inv by (simp add: intake_inv_def)
  have id: "iq_task (ir_request r) = i" if "(i, r) \<in> set (ig_records g)" for i r
    using inv that by (auto simp: intake_inv_def list_all_iff record_ok_def)
  have "map (\<lambda>r. iq_task (ir_request r)) (map_values (ig_records g)) = map fst (ig_records g)"
    by (auto simp: map_values_def id)
  then have "distinct (map (\<lambda>r. iq_task (ir_request r)) (map_values (ig_records g)))"
    using wf by (simp add: map_wf_def)
  moreover have "map_get (ig_records g) (iq_task (ir_request r)) = Some r" if "r \<in> set (map_values (ig_records g))" for r
    using that wf id by (auto simp: map_values_def map_get_iff)
  ultimately show ?thesis unfolding expirePending_def by (intro expire_loop_inv [OF inv]) auto
qed

lemma intake_step_inv: "intake_inv sha pdt isof p s \<Longrightarrow> intake_inv sha pdt isof p (intake_step sha pdt isof x s)"
proof (cases s)
  fix past g
  assume s: "s = (past, g)" and inv: "intake_inv sha pdt isof p s"
  then show ?thesis
    by (cases x) (auto simp: intake_step_def submit_inv decide_inv expirePending_inv split: sum.splits,
        simp add: intake_inv_def drainEvents_def)
qed

interpretation intake: op_machine "([], new_intake_gate p)" "intake_step sha pdt isof" "intake_inv sha pdt isof p"
  for p sha pdt isof
  by unfold_locales (auto simp: intake_step_inv, simp add: intake_inv_def new_intake_gate_def)

text \<open>C16: Over any sequence of submissions, decisions, expiry sweeps and drains, each task's events
  are one path: auto-accepted at once when the policy asks for no approval, otherwise held and
  decided at most once. A task can launch exactly when it was auto-accepted under such a policy
  or approved at a time before its expiry; the record's digest is that of its current state.\<close>

theorem intake_decides_each_task_once:
  "case fold (intake_step sha parse_date iso_of) ops ([], new_intake_gate p) of (past, g) \<Rightarrow>
     list_all (\<lambda>(i, r). intake_path (ip_require p) (ir_state r) (transitions i (past @ ig_events g)) \<and>
       ir_digest r = computeTaskIntakeDigest sha (ir_request r) (ir_state r) \<and>
       decided_in_time parse_date iso_of r \<and>
       canLaunch i g = (if ip_require p then ir_state r = In_approved else True)) (ig_records g)"
proof -
  obtain past g where s: "fold (intake_step sha parse_date iso_of) ops ([], new_intake_gate p) = (past, g)" by fastforce
  have inv: "intake_inv sha parse_date iso_of p (past, g)" using intake.invar_run [of sha parse_date iso_of p ops] s by simp
  have wf: "map_wf (ig_records g)" using inv by (simp add: intake_inv_def)
  have "intake_path (ip_require p) (ir_state r) (transitions i (past @ ig_events g)) \<and>
       ir_digest r = computeTaskIntakeDigest sha (ir_request r) (ir_state r) \<and>
       decided_in_time parse_date iso_of r \<and>
       canLaunch i g = (if ip_require p then ir_state r = In_approved else True)"
    if "(i, r) \<in> set (ig_records g)" for i r
  proof -
    have get: "map_get (ig_records g) i = Some r" using that wf by (simp add: map_get_iff)
    show ?thesis using inv_record [OF inv get] get
      by (cases "ir_state r") (auto simp: record_ok_def canLaunch_def intake_path_def)
  qed
  then show ?thesis unfolding s by (auto simp: list_all_iff)
qed

end
