(* ===== verification/JsonText.thy ===== *)
theory JsonText
  imports JsMap "HOL-Library.List_Lexorder" "HOL-Library.Char_ord" "HOL-Library.Multiset"
begin

text \<open>
  Deterministic JSON text: \<open>canonicalJson\<close> of packages/core/src/runner-protocol.ts, which every
  digest and signature of the runner protocol is computed over, with the proof that the text
  determines the value. \<open>JSON.stringify\<close> of strings is written out on the modelled code units;
  of numbers only integers are (the text of a fraction is a parameter). An object has distinct
  keys; proxies, accessors, cycles and foreign prototypes are outside the value model, and
  negative zero is not told apart from zero.
\<close>

section \<open>The encoder\<close>

definition hex_digit :: "nat \<Rightarrow> char" where
  "hex_digit n = (if n < 10 then char_of (48 + n) else char_of (87 + n))"

definition json_escape :: "char \<Rightarrow> string" where
  "json_escape c = (let n = of_char c :: nat in
     if c = CHR 0x22 then [CHR 0x5C, CHR 0x22]
     else if c = CHR 0x5C then [CHR 0x5C, CHR 0x5C]
     else if c = CHR 0x08 then [CHR 0x5C, CHR ''b'']
     else if c = CHR 0x09 then [CHR 0x5C, CHR ''t'']
     else if c = CHR 0x0A then [CHR 0x5C, CHR ''n'']
     else if c = CHR 0x0C then [CHR 0x5C, CHR ''f'']
     else if c = CHR 0x0D then [CHR 0x5C, CHR ''r'']
     else if n < 32 then [CHR 0x5C, CHR ''u'', CHR ''0'', CHR ''0'', hex_digit (n div 16), hex_digit (n mod 16)]
     else [c])"

definition json_quote :: "string \<Rightarrow> string" where
  "json_quote s = CHR 0x22 # concat (map json_escape s) @ [CHR 0x22]"

definition json_int :: "int \<Rightarrow> string" where
  "json_int n = (if n < 0 then CHR ''-'' # dec (nat (- n)) else dec (nat n))"

text \<open>\<open>None\<close> is the thrown error, whose code is always \<open>RUNNER_ENVELOPE_INVALID\<close>.\<close>

fun canonical_text :: "bool \<Rightarrow> (rat \<Rightarrow> string) \<Rightarrow> jsval \<Rightarrow> string option" where
  "canonical_text integersOnly fraction JUndef = None"
| "canonical_text integersOnly fraction JNonFinite = None"
| "canonical_text integersOnly fraction JNull = Some ''null''"
| "canonical_text integersOnly fraction (JBool b) = Some (if b then ''true'' else ''false'')"
| "canonical_text integersOnly fraction (JStr s) = Some (json_quote s)"
| "canonical_text integersOnly fraction (JNum q) = (case js_safe_int (JNum q) of
      Some n \<Rightarrow> Some (json_int n)
    | None \<Rightarrow> if integersOnly then None else Some (fraction q))"
| "canonical_text integersOnly fraction (JArr vs) =
     (case those (map (canonical_text integersOnly fraction) vs) of
        None \<Rightarrow> None
      | Some ts \<Rightarrow> Some (''['' @ join_with '','' ts @ '']''))"
| "canonical_text integersOnly fraction (JObj kvs) =
     (case those (map (\<lambda>p. map_option (Pair (fst p)) (canonical_text integersOnly fraction (snd p))) kvs) of
        None \<Rightarrow> None
      | Some fs \<Rightarrow> Some (''{'' @ join_with '',''
            (map (\<lambda>(k, t). json_quote k @ '':'' @ t) (sort_key fst fs)) @ ''}''))"

definition canonicalRunnerJson :: "jsval \<Rightarrow> string option" where
  "canonicalRunnerJson v = canonical_text True (\<lambda>_. []) v"

section \<open>The value behind a text\<close>

text \<open>The same value with the keys of every object sorted.\<close>

fun key_sorted :: "jsval \<Rightarrow> jsval" where
  "key_sorted (JArr vs) = JArr (map key_sorted vs)"
| "key_sorted (JObj kvs) = JObj (sort_key fst (map (\<lambda>p. (fst p, key_sorted (snd p))) kvs))"
| "key_sorted v = v"

text \<open>The encoder on members already in order.\<close>

definition member_text :: "string \<times> string \<Rightarrow> string" where
  "member_text p = json_quote (fst p) @ '':'' @ snd p"

lemma sort_key_apsnd: "sort_key fst (map (\<lambda>p. (fst p, f (snd p))) xs) = map (\<lambda>p. (fst p, f (snd p))) (sort_key fst xs)"
proof (induction xs)
  case (Cons x xs)
  have "insort_key fst (fst x, f (snd x)) (map (\<lambda>p. (fst p, f (snd p))) ys) =
      map (\<lambda>p. (fst p, f (snd p))) (insort_key fst x ys)" for ys
    by (induction ys) auto
  then show ?case using Cons.IH by simp
qed simp

section \<open>Strings\<close>

definition hex_value :: "char \<Rightarrow> nat" where
  "hex_value c = (if is_digit c then of_char c - 48 else of_char c - 87)"

lemma hex_value_digit: "n < 16 \<Longrightarrow> hex_value (hex_digit n) = n"
  by (simp add: hex_value_def hex_digit_def is_digit_def)

definition hex_char :: "char \<Rightarrow> char \<Rightarrow> char" where
  "hex_char x y = char_of (16 * hex_value x + hex_value y)"

text \<open>The inverse of one escape, which makes the escapes uniquely readable.\<close>

fun unescape :: "string \<Rightarrow> char \<times> string" where
  "unescape [] = (CHR 0x00, [])"
| "unescape (c # r) = (if c \<noteq> CHR 0x5C then (c, r)
     else (case r of
         [] \<Rightarrow> (CHR 0x00, [])
       | d # t \<Rightarrow>
           if d = CHR ''b'' then (CHR 0x08, t)
           else if d = CHR ''t'' then (CHR 0x09, t)
           else if d = CHR ''n'' then (CHR 0x0A, t)
           else if d = CHR ''f'' then (CHR 0x0C, t)
           else if d = CHR ''r'' then (CHR 0x0D, t)
           else if d = CHR ''u'' then (hex_char (t ! 2) (t ! 3), drop 4 t)
           else (d, t)))"

lemma hex_pair:
  assumes "n < 32"
  shows "hex_char (hex_digit (n div 16)) (hex_digit (n mod 16)) = char_of n"
proof -
  have "n div 16 < 16" "n mod 16 < 16" using assms by simp_all
  then have "16 * hex_value (hex_digit (n div 16)) + hex_value (hex_digit (n mod 16)) = n"
    by (simp only: hex_value_digit) simp
  then show ?thesis by (simp only: hex_char_def)
qed

lemma unescape_control:
  "unescape ([CHR 0x5C, CHR ''u'', CHR ''0'', CHR ''0'', x, y] @ r) =
     (hex_char x y, r)"
  by simp

lemma unescape_escape: "unescape (json_escape c @ r) = (c, r)"
proof (cases "(of_char c :: nat) < 32 \<and> c \<notin> {CHR 0x08, CHR 0x09, CHR 0x0A, CHR 0x0C, CHR 0x0D}")
  case True
  then have lt: "(of_char c :: nat) < 32" by (rule conjunct1)
  have "c \<noteq> CHR 0x22" "c \<noteq> CHR 0x5C" using lt by auto
  then have e: "json_escape c = [CHR 0x5C, CHR ''u'', CHR ''0'', CHR ''0'',
      hex_digit (of_char c div 16), hex_digit (of_char c mod 16)]"
    using True unfolding json_escape_def Let_def by simp
  show ?thesis
    unfolding e unescape_control using hex_pair [of "of_char c"] True by simp
next
  case False
  show ?thesis
  proof (cases "c \<in> {CHR 0x22, CHR 0x5C, CHR 0x08, CHR 0x09, CHR 0x0A, CHR 0x0C, CHR 0x0D}")
    case True
    then show ?thesis by (auto simp: json_escape_def)
  next
    case other: False
    then have "json_escape c = [c]"
      using False unfolding json_escape_def Let_def by simp
    then show ?thesis using other by simp
  qed
qed

lemma escape_unique:
  assumes "json_escape c @ r = json_escape d @ r'"
  shows "c = d \<and> r = r'"
proof -
  have "(c, r) = (d, r')"
    unfolding unescape_escape [symmetric] by (rule arg_cong [OF assms])
  then show ?thesis by (rule prod.inject [THEN iffD1])
qed

lemma escape_no_quote: "json_escape c @ r \<noteq> CHR 0x22 # r'"
proof
  assume e: "json_escape c @ r = CHR 0x22 # r'"
  then have "c = CHR 0x22" using unescape_escape [of c r] by simp
  with e show False by (simp add: json_escape_def)
qed

lemma quote_body_unique:
  assumes "concat (map json_escape s) @ CHR 0x22 # r = concat (map json_escape t) @ CHR 0x22 # r'"
  shows "s = t \<and> r = r'"
  using assms
proof (induction s arbitrary: t)
  case Nil
  show ?case
  proof (cases t)
    case (Cons d u)
    have "json_escape d @ (concat (map json_escape u) @ CHR 0x22 # r') = CHR 0x22 # r"
      using Nil Cons by simp
    then show ?thesis using escape_no_quote by blast
  qed (use Nil in simp)
next
  case (Cons c s)
  show ?case
  proof (cases t)
    case Nil
    have "json_escape c @ (concat (map json_escape s) @ CHR 0x22 # r) = CHR 0x22 # r'"
      using Cons.prems Nil by simp
    then show ?thesis using escape_no_quote by blast
  next
    case t: (Cons d u)
    have "json_escape c @ (concat (map json_escape s) @ CHR 0x22 # r) =
        json_escape d @ (concat (map json_escape u) @ CHR 0x22 # r')"
      using Cons.prems t by simp
    from escape_unique [OF this] show ?thesis using Cons.IH t by blast
  qed
qed

lemma json_quote_unique: "json_quote s @ r = json_quote t @ r' \<Longrightarrow> s = t \<and> r = r'"
  by (rule quote_body_unique) (simp add: json_quote_def)

section \<open>Numbers\<close>

text \<open>What may follow a value: the end, a comma or a closing bracket.\<close>

definition ends_value :: "string \<Rightarrow> bool" where
  "ends_value r \<longleftrightarrow> r = [] \<or> hd r \<in> {CHR '','', CHR '']'', CHR ''}''}"

lemma ends_no_digit: "ends_value r \<Longrightarrow> r = [] \<or> \<not> is_digit (hd r)"
  by (auto simp: ends_value_def is_digit_def)

lemma json_int_unique:
  assumes "json_int m @ r = json_int n @ r'" "ends_value r" "ends_value r'"
  shows "m = n \<and> r = r'"
proof -
  have no: "dec k @ x \<noteq> CHR ''-'' # y" for k x y
    using dec_hd_digit [of k] by (cases "dec k") (auto simp: is_digit_def)
  show ?thesis
  proof (cases "m < 0"; cases "n < 0")
    assume "m < 0" "n < 0"
    then show ?thesis
      using assms dec_unique [of "nat (- m)" r "nat (- n)" r'] ends_no_digit by (auto simp: json_int_def)
  next
    assume "\<not> m < 0" "\<not> n < 0"
    then show ?thesis
      using assms dec_unique [of "nat m" r "nat n" r'] ends_no_digit by (auto simp: json_int_def)
  next
    assume "m < 0" "\<not> n < 0"
    then show ?thesis using assms(1) no [of "nat n" r'] by (metis append_Cons json_int_def)
  next
    assume "\<not> m < 0" "n < 0"
    then show ?thesis using assms(1) no [of "nat m" r] by (metis append_Cons json_int_def)
  qed
qed

section \<open>The text determines the value\<close>

abbreviation text_of :: "jsval \<Rightarrow> string option" where
  "text_of v \<equiv> canonical_text True (\<lambda>_. []) v"

definition separated :: "string list \<Rightarrow> string" where
  "separated ts = concat (map (\<lambda>t. '','' @ t) ts)"

lemma join_separated: "ts \<noteq> [] \<Longrightarrow> join_with '','' ts = tl (separated ts)"
  by (induction "'',''" ts rule: join_with.induct) (auto simp: separated_def)

text \<open>One value is readable in front of anything that can follow it.\<close>

definition readable :: "jsval \<Rightarrow> bool" where
  "readable v \<longleftrightarrow> (\<forall>w s t r r'. text_of v = Some s \<longrightarrow> text_of w = Some t \<longrightarrow> ends_value r \<longrightarrow>
     ends_value r' \<longrightarrow> s @ r = t @ r' \<longrightarrow> key_sorted v = key_sorted w \<and> r = r')"

lemma readableD:
  "readable v \<Longrightarrow> text_of v = Some s \<Longrightarrow> text_of w = Some t \<Longrightarrow> ends_value r \<Longrightarrow> ends_value r' \<Longrightarrow>
   s @ r = t @ r' \<Longrightarrow> key_sorted v = key_sorted w \<and> r = r'"
  unfolding readable_def by blast

lemma separated_ends [simp]: "c \<in> {CHR '']'', CHR ''}''} \<Longrightarrow> ends_value (separated ts @ c # r)"
  by (cases ts) (auto simp: separated_def ends_value_def)

lemma elements_unique:
  assumes "\<forall>v \<in> set vs. readable v"
    and "list_all2 (\<lambda>v s. text_of v = Some s) vs ss" "list_all2 (\<lambda>w t. text_of w = Some t) ws ts"
    and "separated ss @ CHR '']'' # r = separated ts @ CHR '']'' # r'"
  shows "map key_sorted vs = map key_sorted ws \<and> r = r'"
  using assms
proof (induction vs arbitrary: ss ws ts)
  case Nil
  then have "ss = []" by simp
  then have "ts = []" using Nil.prems(4) by (cases ts) (simp_all add: separated_def)
  then show ?case using \<open>ss = []\<close> Nil.prems by (simp add: separated_def)
next
  case (Cons v vs)
  obtain s ss' where ss: "ss = s # ss'" "text_of v = Some s" "list_all2 (\<lambda>v s. text_of v = Some s) vs ss'"
    using Cons.prems(2) by (auto simp: list_all2_Cons1)
  have "ts \<noteq> []" using Cons.prems(4) ss(1) by (auto simp: separated_def)
  then obtain w t ws' ts' where ts: "ws = w # ws'" "ts = t # ts'" "text_of w = Some t"
    "list_all2 (\<lambda>w t. text_of w = Some t) ws' ts'"
    using Cons.prems(3) by (cases ts) (auto simp: list_all2_Cons2)
  have e: "s @ (separated ss' @ CHR '']'' # r) = t @ (separated ts' @ CHR '']'' # r')"
    using Cons.prems(4) ss(1) ts(2) by (simp add: separated_def)
  have "key_sorted v = key_sorted w \<and> separated ss' @ CHR '']'' # r = separated ts' @ CHR '']'' # r'"
    by (rule readableD [OF _ ss(2) ts(3) _ _ e]) (use Cons.prems(1) in simp_all)
  then show ?case using Cons.IH [OF _ ss(3) ts(4)] Cons.prems(1) ts(1) by simp
qed

lemma members_unique:
  assumes "\<forall>p \<in> set ps. readable (snd p)"
    and "list_all2 (\<lambda>p m. fst m = fst p \<and> text_of (snd p) = Some (snd m)) ps ms"
    and "list_all2 (\<lambda>p m. fst m = fst p \<and> text_of (snd p) = Some (snd m)) qs ns"
    and "separated (map member_text ms) @ CHR ''}'' # r = separated (map member_text ns) @ CHR ''}'' # r'"
  shows "map (\<lambda>p. (fst p, key_sorted (snd p))) ps = map (\<lambda>p. (fst p, key_sorted (snd p))) qs \<and> r = r'"
  using assms
proof (induction ps arbitrary: ms qs ns)
  case Nil
  then have "ms = []" by simp
  then have "ns = []" using Nil.prems(4) by (cases ns) (simp_all add: separated_def)
  then show ?case using \<open>ms = []\<close> Nil.prems by (simp add: separated_def)
next
  case (Cons p ps)
  obtain m ms' where ms: "ms = m # ms'" "fst m = fst p" "text_of (snd p) = Some (snd m)"
    "list_all2 (\<lambda>p m. fst m = fst p \<and> text_of (snd p) = Some (snd m)) ps ms'"
    using Cons.prems(2) by (auto simp: list_all2_Cons1)
  have "ns \<noteq> []" using Cons.prems(4) ms(1) by (auto simp: separated_def)
  then obtain q n qs' ns' where ns: "qs = q # qs'" "ns = n # ns'" "fst n = fst q"
    "text_of (snd q) = Some (snd n)"
    "list_all2 (\<lambda>p m. fst m = fst p \<and> text_of (snd p) = Some (snd m)) qs' ns'"
    using Cons.prems(3) by (cases ns) (auto simp: list_all2_Cons2)
  let ?r = "separated (map member_text ms') @ CHR ''}'' # r"
  let ?r' = "separated (map member_text ns') @ CHR ''}'' # r'"
  have "json_quote (fst m) @ (CHR '':'' # snd m @ ?r) = json_quote (fst n) @ (CHR '':'' # snd n @ ?r')"
    using Cons.prems(4) ms(1) ns(2) by (simp add: separated_def member_text_def [of m] member_text_def [of n])
  from json_quote_unique [OF this] have k: "fst m = fst n" and e: "snd m @ ?r = snd n @ ?r'" by simp_all
  have "key_sorted (snd p) = key_sorted (snd q) \<and> ?r = ?r'"
    by (rule readableD [OF _ ms(3) ns(4) _ _ e]) (use Cons.prems(1) in simp_all)
  then show ?case using Cons.IH [OF _ ms(4) ns(5)] Cons.prems(1) ns(1,3) ms(2) k by simp
qed

lemma those_list_all2: "those xs = Some ys \<longleftrightarrow> list_all2 (\<lambda>x y. x = Some y) xs ys"
proof (induction xs arbitrary: ys)
  case (Cons x xs)
  then show ?case by (cases x; cases ys) (auto simp: list_all2_Cons1)
qed auto

lemma array_text:
  assumes "text_of (JArr vs) = Some s"
  obtains ss where "s = ''['' @ join_with '','' ss @ '']''" "list_all2 (\<lambda>v s. text_of v = Some s) vs ss"
  using assms by (auto simp: those_list_all2 list_all2_map1 split: option.splits)

lemma object_text:
  assumes "text_of (JObj kvs) = Some s"
  obtains ms where "s = ''{'' @ join_with '','' (map member_text ms) @ ''}''"
    "list_all2 (\<lambda>p m. fst m = fst p \<and> text_of (snd p) = Some (snd m)) (sort_key fst kvs) ms"
proof -
  obtain fs where fs: "s = ''{'' @ join_with '','' (map (\<lambda>(k, t). json_quote k @ '':'' @ t) (sort_key fst fs)) @ ''}''"
    "list_all2 (\<lambda>p m. map_option (Pair (fst p)) (text_of (snd p)) = Some m) kvs fs"
    using assms by (auto simp: those_list_all2 list_all2_map1 split: option.splits)
  define f where "f = (\<lambda>v. the (text_of v))"
  have "fs = map (\<lambda>p. (fst p, f (snd p))) kvs"
    using fs(2) by (induction rule: list_all2_induct) (auto simp: f_def)
  then have sorted: "sort_key fst fs = map (\<lambda>p. (fst p, f (snd p))) (sort_key fst kvs)"
    by (simp add: sort_key_apsnd)
  have "\<forall>p \<in> set kvs. text_of (snd p) \<noteq> None"
    using fs(2) by (induction rule: list_all2_induct) auto
  then have "list_all2 (\<lambda>p m. fst m = fst p \<and> text_of (snd p) = Some (snd m)) (sort_key fst kvs) (sort_key fst fs)"
    unfolding sorted list_all2_map2 by (intro list.rel_refl_strong) (auto simp: f_def)
  moreover have "(\<lambda>(k, t). json_quote k @ '':'' @ t) = member_text"
    by (auto simp: member_text_def fun_eq_iff)
  ultimately show thesis using that fs(1) by simp
qed

text \<open>The first character tells the kind of value.\<close>

definition lead :: "char \<Rightarrow> nat" where
  "lead c = (if c = CHR ''n'' then 0 else if c = CHR ''t'' then 1 else if c = CHR ''f'' then 2
     else if c = CHR 0x22 then 3 else if c = CHR ''['' then 4 else if c = CHR ''{'' then 5 else 6)"

fun value_kind :: "jsval \<Rightarrow> nat" where
  "value_kind JNull = 0"
| "value_kind (JBool b) = (if b then 1 else 2)"
| "value_kind (JStr s) = 3"
| "value_kind (JArr vs) = 4"
| "value_kind (JObj kvs) = 5"
| "value_kind v = 6"

lemma json_int_lead: "lead (hd (json_int n)) = 6 \<and> json_int n \<noteq> []"
  using dec_hd_digit [of "nat n"] by (auto simp: json_int_def lead_def is_digit_def)

lemma text_lead:
  assumes "text_of v = Some s"
  shows "s \<noteq> [] \<and> lead (hd s) = value_kind v"
proof (cases v)
  case (JNum q)
  then show ?thesis using assms json_int_lead by (auto split: option.splits)
next
  case (JStr x)
  then show ?thesis using assms by (auto simp: json_quote_def lead_def)
next
  case (JArr vs)
  then show ?thesis using assms by (auto simp: lead_def split: option.splits)
next
  case (JObj kvs)
  then show ?thesis using assms by (auto simp: lead_def split: option.splits)
qed (use assms in \<open>auto simp: lead_def split: if_splits\<close>)

lemma same_kind:
  assumes "text_of v = Some s" "text_of w = Some t" "s @ r = t @ r'"
  shows "value_kind v = value_kind w"
  using text_lead [OF assms(1)] text_lead [OF assms(2)] assms(3) by (metis hd_append2)

lemma join_bracket:
  assumes "join_with '','' ss @ c # r = join_with '','' ts @ c # r'"
    and "\<forall>s \<in> set ss. s \<noteq> [] \<and> hd s \<noteq> c" "\<forall>t \<in> set ts. t \<noteq> [] \<and> hd t \<noteq> c"
  shows "separated ss @ c # r = separated ts @ c # r'"
proof (cases "ss = []"; cases "ts = []")
  have first: "\<exists>h u. join_with '','' xs @ c # z = h # u \<and> h \<noteq> c"
    if "xs \<noteq> []" "\<forall>x \<in> set xs. x \<noteq> [] \<and> hd x \<noteq> c" for xs z
    using that by (cases xs; cases "tl xs"; cases "hd xs") auto
  {
    assume "ss = []" "ts \<noteq> []"
    then show ?thesis using first [OF _ assms(3), of r'] assms(1) by auto
  next
    assume "ss \<noteq> []" "ts = []"
    then show ?thesis using first [OF _ assms(2), of r] assms(1) by auto
  next
    assume ne: "ss \<noteq> []" "ts \<noteq> []"
    have "separated xs = CHR '','' # join_with '','' xs" if "xs \<noteq> []" for xs
      using that join_separated [OF that] by (cases xs) (auto simp: separated_def)
    then show ?thesis using ne assms(1) by simp
  }
qed (use assms in simp)

lemma text_not_bracket:
  assumes "text_of v = Some s"
  shows "s \<noteq> [] \<and> hd s \<noteq> CHR '']''"
proof (cases "\<exists>q. v = JNum q")
  case True
  then obtain n where "s = json_int n" using assms by (auto split: option.splits)
  then show ?thesis
    using json_int_lead [of n] dec_hd_digit [of "nat n"] by (auto simp: json_int_def is_digit_def)
next
  case False
  then have "value_kind v \<noteq> 6" using assms by (cases v) auto
  then show ?thesis using text_lead [OF assms] by (auto simp: lead_def)
qed

theorem all_readable: "readable v"
proof (induction v)
  case (JArr vs)
  show ?case unfolding readable_def
  proof (intro allI impI)
    fix w s t r r'
    assume a: "text_of (JArr vs) = Some s" "text_of w = Some t" "s @ r = t @ r'"
    obtain ws where w: "w = JArr ws" using same_kind [OF a] by (cases w) (auto split: if_splits)
    obtain ss where ss: "s = ''['' @ join_with '','' ss @ '']''" "list_all2 (\<lambda>v s. text_of v = Some s) vs ss"
      using a(1) by (rule array_text)
    obtain ts where ts: "t = ''['' @ join_with '','' ts @ '']''" "list_all2 (\<lambda>v s. text_of v = Some s) ws ts"
      using a(2) unfolding w by (rule array_text)
    have nb: "\<forall>x \<in> set xs. x \<noteq> [] \<and> hd x \<noteq> CHR '']''" if "list_all2 (\<lambda>v s. text_of v = Some s) us xs" for us xs
      using that by (induction rule: list_all2_induct) (auto dest: text_not_bracket)
    have "join_with '','' ss @ CHR '']'' # r = join_with '','' ts @ CHR '']'' # r'"
      using a(3) ss(1) ts(1) by simp
    from join_bracket [OF this nb [OF ss(2)] nb [OF ts(2)]]
    show "key_sorted (JArr vs) = key_sorted w \<and> r = r'"
      using elements_unique [OF _ ss(2) ts(2)] JArr w by simp
  qed
next
  case (JObj kvs)
  show ?case unfolding readable_def
  proof (intro allI impI)
    fix w s t r r'
    assume a: "text_of (JObj kvs) = Some s" "text_of w = Some t" "s @ r = t @ r'"
    obtain kws where w: "w = JObj kws" using same_kind [OF a] by (cases w) (auto split: if_splits)
    obtain ms where ms: "s = ''{'' @ join_with '','' (map member_text ms) @ ''}''"
      "list_all2 (\<lambda>p m. fst m = fst p \<and> text_of (snd p) = Some (snd m)) (sort_key fst kvs) ms"
      using a(1) by (rule object_text)
    obtain ns where ns: "t = ''{'' @ join_with '','' (map member_text ns) @ ''}''"
      "list_all2 (\<lambda>p m. fst m = fst p \<and> text_of (snd p) = Some (snd m)) (sort_key fst kws) ns"
      using a(2) unfolding w by (rule object_text)
    have nb: "\<forall>x \<in> set (map member_text xs). x \<noteq> [] \<and> hd x \<noteq> CHR ''}''" for xs
      by (auto simp: member_text_def json_quote_def)
    have "join_with '','' (map member_text ms) @ CHR ''}'' # r = join_with '','' (map member_text ns) @ CHR ''}'' # r'"
      using a(3) ms(1) ns(1) by simp
    note eq = join_bracket [OF this nb nb]
    have "\<forall>p \<in> set (sort_key fst kvs). readable (snd p)" using JObj by auto
    from members_unique [OF this ms(2) ns(2) eq]
    show "key_sorted (JObj kvs) = key_sorted w \<and> r = r'"
      using w by (simp add: sort_key_apsnd)
  qed
next
  case (JNum q)
  show ?case unfolding readable_def
  proof (intro allI impI)
    fix w s t r r'
    assume a: "text_of (JNum q) = Some s" "text_of w = Some t" "s @ r = t @ r'" and e: "ends_value r" "ends_value r'"
    have "value_kind w = 6" using same_kind [OF a] by simp
    then obtain q' where w: "w = JNum q'" using a(2) by (cases w) (auto split: if_splits)
    obtain m n where mn: "js_safe_int (JNum q) = Some m" "s = json_int m" "js_safe_int (JNum q') = Some n" "t = json_int n"
      using a(1,2) w by (auto split: option.splits)
    then have "m = n \<and> r = r'" using json_int_unique [of m r n r'] a(3) e by simp
    moreover have "q = of_int m" "q' = of_int n"
      using js_safe_int_int [OF mn(1)] js_safe_int_int [OF mn(3)] by (auto split: if_splits)
    ultimately show "key_sorted (JNum q) = key_sorted w \<and> r = r'" using w by simp
  qed
next
  case (JStr x)
  show ?case unfolding readable_def
  proof (intro allI impI)
    fix w s t r r'
    assume a: "text_of (JStr x) = Some s" "text_of w = Some t" "s @ r = t @ r'"
    obtain y where w: "w = JStr y" using same_kind [OF a] by (cases w) (auto split: if_splits)
    then show "key_sorted (JStr x) = key_sorted w \<and> r = r'"
      using json_quote_unique [of x r y r'] a by simp
  qed
next
  case (JBool b)
  show ?case unfolding readable_def
  proof (intro allI impI)
    fix w s t r r'
    assume a: "text_of (JBool b) = Some s" "text_of w = Some t" "s @ r = t @ r'"
    have "w = JBool b" using same_kind [OF a] by (cases w) (auto split: if_splits)
    then show "key_sorted (JBool b) = key_sorted w \<and> r = r'" using a by simp
  qed
next
  case JNull
  show ?case unfolding readable_def
  proof (intro allI impI)
    fix w s t r r'
    assume a: "text_of JNull = Some s" "text_of w = Some t" "s @ r = t @ r'"
    have "w = JNull" using same_kind [OF a] by (cases w) (auto split: if_splits)
    then show "key_sorted JNull = key_sorted w \<and> r = r'" using a by simp
  qed
qed (simp_all add: readable_def)

theorem canonical_text_injective:
  assumes "canonicalRunnerJson v = Some t" "canonicalRunnerJson w = Some t"
  shows "key_sorted v = key_sorted w"
proof -
  have "text_of v = Some t" "text_of w = Some t" using assms by (simp_all add: canonicalRunnerJson_def)
  then show ?thesis
    using readableD [OF all_readable, of v t w t "[]" "[]"] by (simp add: ends_value_def)
qed

section \<open>The length of a text\<close>

lemma length_dec: "n < 10 ^ Suc k \<Longrightarrow> length (dec n) \<le> Suc k"
proof (induction k arbitrary: n)
  case 0
  then show ?case by (subst dec.simps) simp
next
  case (Suc k)
  then have "n div 10 < 10 ^ Suc k" by (simp add: div_less_iff_less_mult)
  then have "length (dec (n div 10)) \<le> Suc k" by (rule Suc.IH)
  then show ?case by (subst dec.simps) simp
qed

lemma utf8_len_digits: "list_all is_digit s \<Longrightarrow> utf8_len s = length s"
  by (induction s) (auto simp: utf8_len_Cons is_digit_def)

lemma json_int_length:
  assumes "\<bar>n\<bar> \<le> max_safe_integer"
  shows "utf8_len (json_int n) \<le> 17"
proof -
  have "nat \<bar>n\<bar> < 10 ^ Suc 15" using assms by (simp add: max_safe_integer_def nat_less_iff)
  from length_dec [OF this] have "length (dec (nat \<bar>n\<bar>)) \<le> 16" by simp
  moreover have "list_all is_digit (dec (nat \<bar>n\<bar>))" using dec_is_digit by (auto simp: list_all_iff)
  ultimately show ?thesis
    using utf8_len_digits [of "dec (nat \<bar>n\<bar>)"] by (auto simp: json_int_def utf8_len_Cons)
qed

text \<open>An upper bound of the bytes of the text, computed from the value.\<close>

fun text_weight :: "jsval \<Rightarrow> nat" where
  "text_weight (JStr s) = utf8_len (json_quote s)"
| "text_weight (JNum q) = 17"
| "text_weight (JArr vs) = 2 + sum_list (map (\<lambda>v. text_weight v + 1) vs)"
| "text_weight (JObj kvs) = 2 + sum_list (map (\<lambda>p. utf8_len (json_quote (fst p)) + text_weight (snd p) + 2) kvs)"
| "text_weight v = 5"

lemma utf8_len_join: "utf8_len (join_with '','' ts) \<le> sum_list (map (\<lambda>t. utf8_len t + 1) ts)"
  by (induction "'',''" ts rule: join_with.induct) (auto simp: utf8_len_Cons)

lemma sum_list_sort_key: "sum_list (map f (sort_key fst xs)) = sum_list (map (f :: _ \<Rightarrow> nat) xs)"
  by (metis mset_map mset_sort sum_mset_sum_list)

lemma list_all2_sum:
  "list_all2 (\<lambda>x y. (f y :: nat) \<le> g x) xs ys \<Longrightarrow> sum_list (map f ys) \<le> sum_list (map g xs)"
  by (induction rule: list_all2_induct) auto

theorem text_weight_bounds: "text_of v = Some t \<Longrightarrow> utf8_len t \<le> text_weight v"
proof (induction v arbitrary: t)
  case (JNum q)
  then show ?case using json_int_length js_safe_int_bound by (auto split: option.splits)
next
  case (JArr vs)
  obtain ss where ss: "t = ''['' @ join_with '','' ss @ '']''" "list_all2 (\<lambda>v s. text_of v = Some s) vs ss"
    using JArr.prems by (rule array_text)
  have "list_all2 (\<lambda>v s. utf8_len s + 1 \<le> text_weight v + 1) vs ss"
    using ss(2) JArr.IH by (auto simp: list_all2_conv_all_nth)
  then have "sum_list (map (\<lambda>s. utf8_len s + 1) ss) \<le> sum_list (map (\<lambda>v. text_weight v + 1) vs)"
    by (rule list_all2_sum)
  then show ?case using ss(1) utf8_len_join [of ss] by (simp add: utf8_len_Cons)
next
  case (JObj kvs)
  obtain ms where ms: "t = ''{'' @ join_with '','' (map member_text ms) @ ''}''"
    "list_all2 (\<lambda>p m. fst m = fst p \<and> text_of (snd p) = Some (snd m)) (sort_key fst kvs) ms"
    using JObj.prems by (rule object_text)
  let ?w = "\<lambda>p. utf8_len (json_quote (fst p)) + text_weight (snd p) + 2"
  have ih: "utf8_len (snd m) \<le> text_weight (snd p)" if "p \<in> set (sort_key fst kvs)" "text_of (snd p) = Some (snd m)" for p m
  proof -
    have "p \<in> set kvs" using that(1) by (metis set_sort)
    moreover have "snd p \<in> Basic_BNFs.snds p" by (simp add: snds.intros)
    ultimately show ?thesis using JObj.IH that(2) by blast
  qed
  have "list_all2 (\<lambda>p m. utf8_len (member_text m) + 1 \<le> ?w p) (sort_key fst kvs) ms"
    using ms(2)
  proof (rule list.rel_mono_strong)
    fix p m assume "p \<in> set (sort_key fst kvs)" "fst m = fst p \<and> text_of (snd p) = Some (snd m)"
    then show "utf8_len (member_text m) + 1 \<le> ?w p"
      using ih [of p m] by (simp add: member_text_def utf8_len_Cons)
  qed
  then have "sum_list (map (\<lambda>m. utf8_len (member_text m) + 1) ms) \<le> sum_list (map ?w (sort_key fst kvs))"
    by (rule list_all2_sum)
  then show ?case
    using ms(1) utf8_len_join [of "map member_text ms"] sum_list_sort_key [of ?w kvs]
    by (simp add: utf8_len_Cons comp_def)
qed (auto simp: utf8_len_Cons)

text \<open>Values without undefined, non-finite or fractional parts have a text.\<close>

fun encodable :: "jsval \<Rightarrow> bool" where
  "encodable JUndef = False"
| "encodable JNonFinite = False"
| "encodable (JNum q) = (js_safe_int (JNum q) \<noteq> None)"
| "encodable (JArr vs) = list_all encodable vs"
| "encodable (JObj kvs) = list_all (\<lambda>p. encodable (snd p)) kvs"
| "encodable v = True"

lemma those_exists: "(\<exists>ys. those xs = Some ys) \<longleftrightarrow> (\<forall>x \<in> set xs. x \<noteq> None)"
  by (induction xs) (auto split: option.split)

theorem text_exists: "encodable v \<Longrightarrow> \<exists>t. text_of v = Some t"
proof (induction v)
  case (JNum q)
  then show ?case by (cases "js_safe_int (JNum q)") auto
next
  case (JArr vs)
  then have "\<exists>ts. those (map text_of vs) = Some ts"
    unfolding those_exists by (auto simp: list_all_iff)
  then show ?case by auto
next
  case (JObj kvs)
  have "\<exists>ts. those (map (\<lambda>p. map_option (Pair (fst p)) (text_of (snd p))) kvs) = Some ts"
    unfolding those_exists using JObj by (fastforce simp: list_all_iff)
  then show ?case by auto
qed auto

section \<open>Reading a sorted object\<close>

lemma map_of_sort_key: "distinct (map fst xs) \<Longrightarrow> map_of (sort_key fst xs) = map_of xs"
  by (subst map_of_inject_set) (auto simp: distinct_map inj_on_def)

lemma js_get_key_sorted:
  assumes "distinct (map fst kvs)"
  shows "js_get (key_sorted (JObj kvs)) k = key_sorted (js_get (JObj kvs) k)"
proof -
  have "map_of (sort_key fst (map (\<lambda>p. (fst p, key_sorted (snd p))) kvs)) k =
      map_of (map (\<lambda>p. (fst p, key_sorted (snd p))) kvs) k"
    by (subst map_of_sort_key) (use assms in \<open>simp_all add: comp_def\<close>)
  also have "\<dots> = map_option key_sorted (map_of kvs k)"
    by (induction kvs) auto
  finally show ?thesis by (cases "map_of kvs k") simp_all
qed

text \<open>On a value without fractional numbers the text does not depend on how they are written.\<close>

lemma encodable_text: "encodable v \<Longrightarrow> canonical_text False fraction v = text_of v"
proof (induction v)
  case (JNum q)
  then show ?case by (cases "js_safe_int (JNum q)") auto
next
  case (JArr vs)
  have "map (canonical_text False fraction) vs = map text_of vs"
    using JArr by (auto simp: list_all_iff)
  then show ?case by (simp only: canonical_text.simps)
next
  case (JObj kvs)
  have "map (\<lambda>p. map_option (Pair (fst p)) (canonical_text False fraction (snd p))) kvs =
      map (\<lambda>p. map_option (Pair (fst p)) (text_of (snd p))) kvs"
    using JObj by (fastforce simp: list_all_iff)
  then show ?case by (simp only: canonical_text.simps)
qed auto

end
