(* ===== verification/RunnerProtocol.thy ===== *)
theory RunnerProtocol
  imports JsonText ReplayGuard Assembler
begin

text \<open>
  packages/core/src/runner-protocol.ts: the signed envelopes, tasks, events and receipts of the
  outbound runner. Byte buffers are lists of numbers below 256; base64url is written out. The
  code runs on libraries that are parameters here, collected in \<open>runner_env\<close>: SHA-256, Ed25519
  (with the two key constructors), \<open>Date.parse\<close>, \<open>toISOString\<close>, \<open>JSON.parse\<close> and the text of a
  fractional number. Inputs are plain values: proxies, accessors, symbols and foreign prototypes,
  which \<open>dataRecord\<close> refuses, are outside the value model, and the keys of an object are distinct.
\<close>

section \<open>Bytes and base64url\<close>

definition base64url_char :: "nat \<Rightarrow> char" where
  "base64url_char v = (if v < 26 then char_of (65 + v) else if v < 52 then char_of (71 + v)
     else if v < 62 then char_of (v - 4) else if v = 62 then CHR ''-'' else CHR ''_'')"

text \<open>\<open>buffer.toString("base64url")\<close>\<close>

fun base64url_encode :: "nat list \<Rightarrow> string" where
  "base64url_encode [] = []"
| "base64url_encode [a] = map base64url_char [a div 4, a mod 4 * 16]"
| "base64url_encode [a, b] = map base64url_char [a div 4, a mod 4 * 16 + b div 16, b mod 16 * 4]"
| "base64url_encode (a # b # c # bs) =
     map base64url_char [a div 4, a mod 4 * 16 + b div 16, b mod 16 * 4 + c div 64, c mod 64]
     @ base64url_encode bs"

text \<open>\<open>Buffer.from(value, "base64url")\<close> on a string over the alphabet: bits that do not fill a byte are
  dropped.\<close>

fun sextets_to_bytes :: "nat list \<Rightarrow> nat list" where
  "sextets_to_bytes (w # x # y # z # vs) =
     [w * 4 + x div 16, x mod 16 * 16 + y div 4, y mod 4 * 64 + z] @ sextets_to_bytes vs"
| "sextets_to_bytes [w, x, y] = [w * 4 + x div 16, x mod 16 * 16 + y div 4]"
| "sextets_to_bytes [w, x] = [w * 4 + x div 16]"
| "sextets_to_bytes vs = []"

definition base64url_decode :: "string \<Rightarrow> nat list" where
  "base64url_decode s = sextets_to_bytes (map (\<lambda>c. case base64url_value c of None \<Rightarrow> 0 | Some v \<Rightarrow> v) s)"

section \<open>Vocabulary\<close>

datatype protocol_error =
    Envelope_invalid
  | Signature_invalid
  | Key_invalid
  | Task_invalid
  | Event_invalid
  | Chain_invalid
  | Receipt_invalid

record runner_env =
  rn_date :: "string \<Rightarrow> int option"
  rn_iso :: "int \<Rightarrow> string"
  rn_sha :: "nat list \<Rightarrow> string"
  rn_json :: "string \<Rightarrow> jsval option"
  rn_fraction :: "rat \<Rightarrow> string"
  rn_private :: "string \<Rightarrow> bool"
  rn_public :: "string \<Rightarrow> bool"
  rn_sign :: "string \<Rightarrow> nat list \<Rightarrow> nat list option"
  rn_verify :: "string \<Rightarrow> nat list \<Rightarrow> nat list \<Rightarrow> bool option"

record signed_envelope =
  se_key :: string
  se_payload :: string
  se_signature :: string

record opaque_data =
  od_media :: string
  od_data :: string

record runner_employee =
  em_id :: string
  em_version :: string
  em_package :: string

record runner_task =
  rt_task :: string
  rt_run :: string
  rt_attempt :: int
  rt_token :: int
  rt_lease :: string
  rt_quote :: string
  rt_reservation :: string
  rt_seller :: string
  rt_runner :: string
  rt_employee :: runner_employee
  rt_engine :: string
  rt_input :: opaque_data
  rt_issued :: string
  rt_expires :: string
  rt_lease_expires :: string
  rt_nonce :: string

record runner_event =
  ev_task :: string
  ev_run :: string
  ev_attempt :: int
  ev_token :: int
  ev_lease :: string
  ev_quote :: string
  ev_runner :: string
  ev_employee :: string
  ev_package :: string
  ev_sequence :: int
  ev_timestamp :: string
  ev_type :: string
  ev_data :: opaque_data
  ev_previous :: string

record chained_event =
  ce_event :: runner_event
  ce_digest :: string

record runner_usage =
  us_input :: int
  us_output :: int
  us_duration :: int
  us_actions :: "(string \<times> int) list"

datatype runner_outcome =
    Outcome_completed "opaque_data option"
  | Outcome_failed string
  | Outcome_cancelled string

record runner_receipt =
  rr_task :: string
  rr_run :: string
  rr_attempt :: int
  rr_token :: int
  rr_lease :: string
  rr_quote :: string
  rr_reservation :: string
  rr_seller :: string
  rr_runner :: string
  rr_employee :: runner_employee
  rr_engine :: string
  rr_started :: string
  rr_completed :: string
  rr_event_count :: int
  rr_final_digest :: string
  rr_usage :: runner_usage
  rr_outcome :: runner_outcome
  rr_evidence :: "opaque_data option"

definition RUNNER_PROTOCOL_VERSION :: string where
  "RUNNER_PROTOCOL_VERSION = ''digital-employee.runner-protocol.v1''"

definition RUNNER_SIGNATURE_ALGORITHM :: string where
  "RUNNER_SIGNATURE_ALGORITHM = ''Ed25519''"

definition RUNNER_TASK_DOMAIN :: string where
  "RUNNER_TASK_DOMAIN = ''digital-employee.runner-task.v1''"

definition RUNNER_EVENT_DOMAIN :: string where
  "RUNNER_EVENT_DOMAIN = ''digital-employee.runner-event.v1''"

definition RUNNER_RECEIPT_DOMAIN :: string where
  "RUNNER_RECEIPT_DOMAIN = ''digital-employee.runner-receipt.v1''"

definition RUNNER_EVENT_GENESIS_DIGEST :: string where
  "RUNNER_EVENT_GENESIS_DIGEST = ''sha256:'' @ replicate 64 (CHR ''0'')"

definition MAX_RUNNER_CLOCK_SKEW_MS :: int where
  "MAX_RUNNER_CLOCK_SKEW_MS = 30000"

definition MAX_RUNNER_ATTEMPTS :: int where
  "MAX_RUNNER_ATTEMPTS = 32"

definition MIN_RUNNER_LEASE_MILLISECONDS :: int where
  "MIN_RUNNER_LEASE_MILLISECONDS = 10000"

definition MAX_ENVELOPE_PAYLOAD_BYTES :: nat where
  "MAX_ENVELOPE_PAYLOAD_BYTES = 256 * 1024"

definition MAX_OPAQUE_DATA_BYTES :: nat where
  "MAX_OPAQUE_DATA_BYTES = 128 * 1024"

definition MAX_ID_LENGTH :: nat where
  "MAX_ID_LENGTH = 200"

definition MAX_EVENTS :: nat where
  "MAX_EVENTS = 1024"

definition MAX_ACTIONS :: nat where
  "MAX_ACTIONS = 128"

section \<open>Patterns\<close>

definition alnum :: "char \<Rightarrow> bool" where
  "alnum c = (is_lower c \<or> is_upper c \<or> is_digit c)"

text \<open>\<open>/^[A-Za-z0-9](?:[A-Za-z0-9._:/-]{0,199})$/\<close>\<close>

definition ID_PATTERN :: "string \<Rightarrow> bool" where
  "ID_PATTERN s = (case s of
      [] \<Rightarrow> False
    | c # cs \<Rightarrow> alnum c \<and> length cs \<le> 199 \<and> list_all (\<lambda>d. alnum d \<or> d \<in> set ''._:/-'') cs)"

text \<open>\<open>/^[a-z][a-z0-9._-]{0,127}$/\<close>\<close>

definition MACHINE_CODE_PATTERN :: "string \<Rightarrow> bool" where
  "MACHINE_CODE_PATTERN s = (case s of
      [] \<Rightarrow> False
    | c # cs \<Rightarrow> is_lower c \<and> length cs \<le> 127 \<and>
        list_all (\<lambda>d. is_lower d \<or> is_digit d \<or> d \<in> set ''._-'') cs)"

text \<open>\<open>0|[1-9]\d*\<close>\<close>

definition semver_number :: "string \<Rightarrow> bool" where
  "semver_number s = (s \<noteq> [] \<and> list_all is_digit s \<and> (hd s = CHR ''0'' \<longrightarrow> s = ''0''))"

definition semver_char :: "char \<Rightarrow> bool" where
  "semver_char c = (alnum c \<or> c = CHR ''-'')"

text \<open>\<open>0|[1-9]\d*|\d*[A-Za-z-][0-9A-Za-z-]*\<close>\<close>

definition prerelease_part :: "string \<Rightarrow> bool" where
  "prerelease_part s = (semver_number s \<or>
     (s \<noteq> [] \<and> list_all semver_char s \<and> \<not> list_all is_digit s))"

text \<open>The text before the first \<open>d\<close>, and what follows it when there is one.\<close>

definition cut_at :: "char \<Rightarrow> string \<Rightarrow> string \<times> string option" where
  "cut_at d s = (takeWhile (\<lambda>c. c \<noteq> d) s,
     (case dropWhile (\<lambda>c. c \<noteq> d) s of [] \<Rightarrow> None | _ # t \<Rightarrow> Some t))"

text \<open>Build metadata starts at the first plus sign; before it the first hyphen starts the
  prerelease, since the core holds only digits and dots.\<close>

definition SEMVER_PATTERN :: "string \<Rightarrow> bool" where
  "SEMVER_PATTERN s =
     (let (head, build) = cut_at (CHR ''+'') s; (core, pre) = cut_at (CHR ''-'') head
      in (let parts = split_on (CHR ''.'') core in length parts = 3 \<and> list_all semver_number parts) \<and>
         (case pre of None \<Rightarrow> True | Some p \<Rightarrow> list_all prerelease_part (split_on (CHR ''.'') p)) \<and>
         (case build of None \<Rightarrow> True
          | Some b \<Rightarrow> list_all (\<lambda>x. x \<noteq> [] \<and> list_all semver_char x) (split_on (CHR ''.'') b)))"

definition media_name :: "string \<Rightarrow> bool" where
  "media_name s = (case s of
      [] \<Rightarrow> False
    | c # cs \<Rightarrow> alnum c \<and> length cs \<le> 63 \<and> list_all (\<lambda>d. alnum d \<or> d \<in> set ''!#$&^_.+-'') cs)"

text \<open>\<open>name/name\<close>\<close>

definition MEDIA_TYPE_PATTERN :: "string \<Rightarrow> bool" where
  "MEDIA_TYPE_PATTERN s = (case split_on (CHR ''/'') s of
      [a, b] \<Rightarrow> media_name a \<and> media_name b | _ \<Rightarrow> False)"

text \<open>\<open>/^[A-Za-z0-9_-]*$/\<close>\<close>

definition BASE64URL_TEXT :: "string \<Rightarrow> bool" where
  "BASE64URL_TEXT s = list_all (\<lambda>c. base64url_value c \<noteq> None) s"

section \<open>Field readers\<close>

definition dataRecord :: "string list \<Rightarrow> protocol_error \<Rightarrow> jsval \<Rightarrow> protocol_error + jsval" where
  "dataRecord allowedKeys code v =
     ensure (is_plain_object v \<and> distinct (js_keys v) \<and> length (js_keys v) = length allowedKeys \<and>
             list_all (\<lambda>k. k \<in> set allowedKeys) (js_keys v)) code (Inr v)"

definition optionalDataRecord ::
  "string list \<Rightarrow> string list \<Rightarrow> protocol_error \<Rightarrow> jsval \<Rightarrow> protocol_error + jsval" where
  "optionalDataRecord requiredKeys optionalKeys code v =
     ensure (is_plain_object v \<and> distinct (js_keys v) \<and> list_all (js_has v) requiredKeys \<and>
             list_all (\<lambda>k. k \<in> set requiredKeys \<or> k \<in> set optionalKeys) (js_keys v)) code (Inr v)"

definition dataArray :: "nat \<Rightarrow> protocol_error \<Rightarrow> jsval \<Rightarrow> protocol_error + jsval list" where
  "dataArray maximumLength code v = (case v of
      JArr xs \<Rightarrow> ensure (length xs \<le> maximumLength) code (Inr xs)
    | _ \<Rightarrow> Inl code)"

definition stringField ::
  "(string \<Rightarrow> bool) \<Rightarrow> nat \<Rightarrow> protocol_error \<Rightarrow> jsval \<Rightarrow> protocol_error + string" where
  "stringField pattern maxLength code v = (case v of
      JStr s \<Rightarrow> ensure (1 \<le> length s \<and> length s \<le> maxLength \<and> pattern s) code (Inr s)
    | _ \<Rightarrow> Inl code)"

definition safeInteger :: "int \<Rightarrow> int \<Rightarrow> protocol_error \<Rightarrow> jsval \<Rightarrow> protocol_error + int" where
  "safeInteger minimum maximum code v = (case js_safe_int v of
      Some n \<Rightarrow> ensure (minimum \<le> n \<and> n \<le> maximum) code (Inr n)
    | None \<Rightarrow> Inl code)"

definition timestamp :: "runner_env \<Rightarrow> protocol_error \<Rightarrow> jsval \<Rightarrow> protocol_error + (string \<times> int)" where
  "timestamp env code v = (case v of
      JStr s \<Rightarrow> (case validTimestamp (rn_date env) (rn_iso env) s of
          Some t \<Rightarrow> Inr (s, t) | None \<Rightarrow> Inl code)
    | _ \<Rightarrow> Inl code)"

text \<open>\<open>Math.ceil((maxBytes * 4) / 3)\<close>\<close>

definition base64url_length_limit :: "nat \<Rightarrow> nat" where
  "base64url_length_limit maxBytes = (maxBytes * 4 + 2) div 3"

definition decodeBase64Url :: "protocol_error \<Rightarrow> nat \<Rightarrow> jsval \<Rightarrow> protocol_error + nat list" where
  "decodeBase64Url code maxBytes v = (case v of
      JStr s \<Rightarrow>
        ensure (BASE64URL_TEXT s \<and> \<not> length s > base64url_length_limit maxBytes) code
       (let decoded = base64url_decode s in
        ensure (\<not> length decoded > maxBytes \<and> base64url_encode decoded = s) code (Inr decoded))
    | _ \<Rightarrow> Inl code)"

definition opaqueData :: "protocol_error \<Rightarrow> jsval \<Rightarrow> protocol_error + opaque_data" where
  "opaqueData code v =
     and_then (dataRecord [''mediaType'', ''encoding'', ''data''] code v) (\<lambda>r.
     and_then (stringField MEDIA_TYPE_PATTERN 255 code (js_get r ''mediaType'')) (\<lambda>mediaType.
     ensure (js_get r ''encoding'' = JStr ''base64url'') code
    (and_then (decodeBase64Url code MAX_OPAQUE_DATA_BYTES (js_get r ''data'')) (\<lambda>bytes.
       Inr \<lparr>od_media = mediaType, od_data = base64url_encode bytes\<rparr>))))"

definition digestField :: "protocol_error \<Rightarrow> jsval \<Rightarrow> protocol_error + string" where
  "digestField code v = stringField digest_pattern 71 code v"

definition idField :: "protocol_error \<Rightarrow> jsval \<Rightarrow> protocol_error + string" where
  "idField code v = stringField ID_PATTERN MAX_ID_LENGTH code v"

definition machineCodeField :: "protocol_error \<Rightarrow> jsval \<Rightarrow> protocol_error + string" where
  "machineCodeField code v = stringField MACHINE_CODE_PATTERN 128 code v"

definition semverField :: "protocol_error \<Rightarrow> jsval \<Rightarrow> protocol_error + string" where
  "semverField code v = stringField SEMVER_PATTERN 128 code v"

section \<open>Opaque JSON\<close>

definition encodeOpaqueJson :: "runner_env \<Rightarrow> jsval \<Rightarrow> protocol_error + opaque_data" where
  "encodeOpaqueJson env v = (case canonical_text False (rn_fraction env) v of
      None \<Rightarrow> Inl Envelope_invalid
    | Some t \<Rightarrow>
        (let bytes = utf8_encode t in
         ensure (\<not> length bytes > MAX_OPAQUE_DATA_BYTES) Envelope_invalid
           (Inr \<lparr>od_media = ''application/json'', od_data = base64url_encode bytes\<rparr>)))"

definition opaque_value :: "opaque_data \<Rightarrow> jsval" where
  "opaque_value d = JObj [(''mediaType'', JStr (od_media d)), (''encoding'', JStr ''base64url''),
     (''data'', JStr (od_data d))]"

text \<open>The text behind UTF-8 bytes; bytes that are not the encoding of their own decoding are refused.\<close>

definition utf8_text :: "nat list \<Rightarrow> string option" where
  "utf8_text bytes = (let t = utf8_decode bytes in if utf8_encode t = bytes then Some t else None)"

definition decodeOpaqueJson :: "runner_env \<Rightarrow> jsval \<Rightarrow> protocol_error + jsval" where
  "decodeOpaqueJson env v =
     and_then (opaqueData Task_invalid v) (\<lambda>d.
     ensure (od_media d = ''application/json'') Task_invalid
    (case utf8_text (base64url_decode (od_data d)) of
       None \<Rightarrow> Inl Task_invalid
     | Some t \<Rightarrow> (case rn_json env t of None \<Rightarrow> Inl Task_invalid | Some x \<Rightarrow> Inr x)))"

section \<open>Envelopes\<close>

text \<open>\<open>Buffer.concat([Buffer.from(`${domain}\n`, "ascii"), payload])\<close>\<close>

definition envelopeSigningBytes :: "string \<Rightarrow> nat list \<Rightarrow> nat list" where
  "envelopeSigningBytes domain payload = map of_char (domain @ [CHR 0x0A]) @ payload"

definition runnerPrivateKey :: "runner_env \<Rightarrow> string \<Rightarrow> protocol_error + string" where
  "runnerPrivateKey env key = ensure (rn_private env key) Key_invalid (Inr key)"

definition runnerPublicKey :: "runner_env \<Rightarrow> string \<Rightarrow> protocol_error + string" where
  "runnerPublicKey env key = ensure (rn_public env key) Key_invalid (Inr key)"

definition envelope_value :: "signed_envelope \<Rightarrow> jsval" where
  "envelope_value e = JObj [(''protocolVersion'', JStr RUNNER_PROTOCOL_VERSION), (''keyId'', JStr (se_key e)),
     (''algorithm'', JStr RUNNER_SIGNATURE_ALGORITHM), (''payload'', JStr (se_payload e)),
     (''signature'', JStr (se_signature e))]"

definition validateSignedEnvelope :: "jsval \<Rightarrow> protocol_error + signed_envelope" where
  "validateSignedEnvelope v =
     and_then (dataRecord [''protocolVersion'', ''keyId'', ''algorithm'', ''payload'', ''signature'']
       Envelope_invalid v) (\<lambda>r.
     ensure (js_get r ''protocolVersion'' = JStr RUNNER_PROTOCOL_VERSION \<and>
             js_get r ''algorithm'' = JStr RUNNER_SIGNATURE_ALGORITHM) Envelope_invalid
    (and_then (decodeBase64Url Envelope_invalid MAX_ENVELOPE_PAYLOAD_BYTES (js_get r ''payload'')) (\<lambda>payload.
     ensure (length payload \<noteq> 0) Envelope_invalid
    (and_then (decodeBase64Url Envelope_invalid 64 (js_get r ''signature'')) (\<lambda>signature.
     ensure (length signature = 64) Envelope_invalid
    (and_then (idField Envelope_invalid (js_get r ''keyId'')) (\<lambda>keyId.
       Inr \<lparr>se_key = keyId, se_payload = base64url_encode payload,
            se_signature = base64url_encode signature\<rparr>)))))))"

definition signRunnerEnvelope ::
  "runner_env \<Rightarrow> string \<Rightarrow> string \<Rightarrow> string \<Rightarrow> nat list \<Rightarrow> protocol_error + signed_envelope" where
  "signRunnerEnvelope env domain keyId privateKey payload =
     ensure (domain = RUNNER_TASK_DOMAIN \<or> domain = RUNNER_RECEIPT_DOMAIN) Envelope_invalid
    (and_then (idField Envelope_invalid (JStr keyId)) (\<lambda>keyId.
     ensure (\<not> (length payload = 0 \<or> length payload > MAX_ENVELOPE_PAYLOAD_BYTES)) Envelope_invalid
    (and_then (runnerPrivateKey env privateKey) (\<lambda>key.
     (case rn_sign env key (envelopeSigningBytes domain payload) of
        None \<Rightarrow> Inl Key_invalid
      | Some signature \<Rightarrow> Inr \<lparr>se_key = keyId, se_payload = base64url_encode payload,
                             se_signature = base64url_encode signature\<rparr>)))))"

definition verifyRunnerEnvelope ::
  "runner_env \<Rightarrow> string \<Rightarrow> jsval \<Rightarrow> string \<Rightarrow> protocol_error + nat list" where
  "verifyRunnerEnvelope env domain v publicKey =
     ensure (domain = RUNNER_TASK_DOMAIN \<or> domain = RUNNER_RECEIPT_DOMAIN) Envelope_invalid
    (and_then (validateSignedEnvelope v) (\<lambda>e.
     let payload = base64url_decode (se_payload e); signature = base64url_decode (se_signature e) in
     and_then (runnerPublicKey env publicKey) (\<lambda>key.
     (case rn_verify env key (envelopeSigningBytes domain payload) signature of
        None \<Rightarrow> Inl Key_invalid
      | Some valid \<Rightarrow> ensure valid Signature_invalid (Inr payload)))))"

definition parsePayload :: "runner_env \<Rightarrow> protocol_error \<Rightarrow> nat list \<Rightarrow> protocol_error + jsval" where
  "parsePayload env code bytes = (case utf8_text bytes of
      None \<Rightarrow> Inl code
    | Some t \<Rightarrow> (case rn_json env t of None \<Rightarrow> Inl code | Some v \<Rightarrow> Inr v))"

section \<open>Tasks\<close>

definition employee_value :: "runner_employee \<Rightarrow> jsval" where
  "employee_value e = JObj [(''id'', JStr (em_id e)), (''version'', JStr (em_version e)),
     (''packageDigest'', JStr (em_package e))]"

definition read_employee :: "protocol_error \<Rightarrow> jsval \<Rightarrow> protocol_error + runner_employee" where
  "read_employee code v =
     and_then (dataRecord [''id'', ''version'', ''packageDigest''] code v) (\<lambda>e.
     and_then (idField code (js_get e ''id'')) (\<lambda>i.
     and_then (semverField code (js_get e ''version'')) (\<lambda>version.
     and_then (digestField code (js_get e ''packageDigest'')) (\<lambda>digest.
       Inr \<lparr>em_id = i, em_version = version, em_package = digest\<rparr>))))"

definition TASK_KEYS :: "string list" where
  "TASK_KEYS = [''protocolVersion'', ''kind'', ''taskId'', ''runId'', ''attempt'', ''fencingToken'', ''leaseId'',
     ''quoteId'', ''reservationId'', ''sellerId'', ''runnerId'', ''employee'', ''engine'', ''input'', ''issuedAt'',
     ''expiresAt'', ''leaseExpiresAt'', ''nonce'']"

definition task_value :: "runner_task \<Rightarrow> jsval" where
  "task_value t = JObj [(''protocolVersion'', JStr RUNNER_PROTOCOL_VERSION), (''kind'', JStr ''runner.task''),
     (''taskId'', JStr (rt_task t)), (''runId'', JStr (rt_run t)),
     (''attempt'', JNum (of_int (rt_attempt t))), (''fencingToken'', JNum (of_int (rt_token t))),
     (''leaseId'', JStr (rt_lease t)), (''quoteId'', JStr (rt_quote t)),
     (''reservationId'', JStr (rt_reservation t)), (''sellerId'', JStr (rt_seller t)),
     (''runnerId'', JStr (rt_runner t)), (''employee'', employee_value (rt_employee t)),
     (''engine'', JStr (rt_engine t)), (''input'', opaque_value (rt_input t)),
     (''issuedAt'', JStr (rt_issued t)), (''expiresAt'', JStr (rt_expires t)),
     (''leaseExpiresAt'', JStr (rt_lease_expires t)), (''nonce'', JStr (rt_nonce t))]"

definition validateRunnerTask :: "runner_env \<Rightarrow> jsval \<Rightarrow> protocol_error + runner_task" where
  "validateRunnerTask env v =
    (let code = Task_invalid in
     and_then (dataRecord TASK_KEYS code v) (\<lambda>r.
     ensure (js_get r ''protocolVersion'' = JStr RUNNER_PROTOCOL_VERSION \<and>
             js_get r ''kind'' = JStr ''runner.task'') code
    (and_then (timestamp env code (js_get r ''issuedAt'')) (\<lambda>(issued, issuedMs).
     and_then (timestamp env code (js_get r ''expiresAt'')) (\<lambda>(expires, expiresMs).
     and_then (timestamp env code (js_get r ''leaseExpiresAt'')) (\<lambda>(leaseExpires, leaseMs).
     ensure (\<not> (expiresMs \<le> issuedMs \<or> leaseMs - issuedMs < MIN_RUNNER_LEASE_MILLISECONDS \<or>
                leaseMs > expiresMs)) code
    (and_then (decodeBase64Url code 64 (js_get r ''nonce'')) (\<lambda>nonce.
     ensure (\<not> length nonce < 16) code
    (and_then (idField code (js_get r ''taskId'')) (\<lambda>taskId.
     and_then (idField code (js_get r ''runId'')) (\<lambda>runId.
     and_then (safeInteger 1 MAX_RUNNER_ATTEMPTS code (js_get r ''attempt'')) (\<lambda>attempt.
     and_then (safeInteger 1 max_safe_integer code (js_get r ''fencingToken'')) (\<lambda>token.
     and_then (idField code (js_get r ''leaseId'')) (\<lambda>leaseId.
     and_then (idField code (js_get r ''quoteId'')) (\<lambda>quoteId.
     and_then (idField code (js_get r ''reservationId'')) (\<lambda>reservationId.
     and_then (idField code (js_get r ''sellerId'')) (\<lambda>sellerId.
     and_then (idField code (js_get r ''runnerId'')) (\<lambda>runnerId.
     and_then (read_employee code (js_get r ''employee'')) (\<lambda>employee.
     and_then (idField code (js_get r ''engine'')) (\<lambda>engine.
     and_then (opaqueData code (js_get r ''input'')) (\<lambda>inp.
       Inr \<lparr>rt_task = taskId, rt_run = runId, rt_attempt = attempt, rt_token = token,
            rt_lease = leaseId, rt_quote = quoteId, rt_reservation = reservationId,
            rt_seller = sellerId, rt_runner = runnerId, rt_employee = employee, rt_engine = engine,
            rt_input = inp, rt_issued = issued, rt_expires = expires,
            rt_lease_expires = leaseExpires, rt_nonce = base64url_encode nonce\<rparr>)))))))))))))))))))))"

text \<open>A payload is signed over the canonical text of the validated value.\<close>

definition canonical_bytes :: "jsval \<Rightarrow> protocol_error + nat list" where
  "canonical_bytes v = (case canonicalRunnerJson v of
      None \<Rightarrow> Inl Envelope_invalid | Some t \<Rightarrow> Inr (utf8_encode t))"

definition signRunnerTask ::
  "runner_env \<Rightarrow> jsval \<Rightarrow> string \<Rightarrow> string \<Rightarrow> protocol_error + signed_envelope" where
  "signRunnerTask env v keyId privateKey =
     and_then (validateRunnerTask env v) (\<lambda>task.
     and_then (canonical_bytes (task_value task)) (\<lambda>payload.
       signRunnerEnvelope env RUNNER_TASK_DOMAIN keyId privateKey payload))"

definition verifyRunnerTask :: "runner_env \<Rightarrow> jsval \<Rightarrow> string \<Rightarrow> protocol_error + runner_task" where
  "verifyRunnerTask env v publicKey =
     and_then (verifyRunnerEnvelope env RUNNER_TASK_DOMAIN v publicKey) (\<lambda>payload.
     and_then (parsePayload env Task_invalid payload) (\<lambda>parsed.
     and_then (validateRunnerTask env parsed) (\<lambda>task.
     and_then (canonical_bytes (task_value task)) (\<lambda>bytes.
       ensure (bytes = payload) Task_invalid (Inr task)))))"

section \<open>Events\<close>

definition EVENT_KEYS :: "string list" where
  "EVENT_KEYS = [''protocolVersion'', ''kind'', ''taskId'', ''runId'', ''attempt'', ''fencingToken'', ''leaseId'',
     ''quoteId'', ''runnerId'', ''employeeId'', ''packageDigest'', ''sequence'', ''timestamp'', ''type'', ''data'',
     ''previousDigest'']"

definition event_members :: "runner_event \<Rightarrow> (string \<times> jsval) list" where
  "event_members e = [(''protocolVersion'', JStr RUNNER_PROTOCOL_VERSION), (''kind'', JStr ''runner.event''),
     (''taskId'', JStr (ev_task e)), (''runId'', JStr (ev_run e)),
     (''attempt'', JNum (of_int (ev_attempt e))), (''fencingToken'', JNum (of_int (ev_token e))),
     (''leaseId'', JStr (ev_lease e)), (''quoteId'', JStr (ev_quote e)), (''runnerId'', JStr (ev_runner e)),
     (''employeeId'', JStr (ev_employee e)), (''packageDigest'', JStr (ev_package e)),
     (''sequence'', JNum (of_int (ev_sequence e))), (''timestamp'', JStr (ev_timestamp e)),
     (''type'', JStr (ev_type e)), (''data'', opaque_value (ev_data e)),
     (''previousDigest'', JStr (ev_previous e))]"

definition event_value :: "runner_event \<Rightarrow> jsval" where
  "event_value e = JObj (event_members e)"

definition chained_value :: "chained_event \<Rightarrow> jsval" where
  "chained_value c = JObj (event_members (ce_event c) @ [(''digest'', JStr (ce_digest c))])"

definition runnerEventWithoutDigest :: "runner_env \<Rightarrow> jsval \<Rightarrow> protocol_error + runner_event" where
  "runnerEventWithoutDigest env v =
    (let code = Event_invalid in
     and_then (dataRecord EVENT_KEYS code v) (\<lambda>r.
     ensure (js_get r ''protocolVersion'' = JStr RUNNER_PROTOCOL_VERSION \<and>
             js_get r ''kind'' = JStr ''runner.event'') code
    (and_then (idField code (js_get r ''taskId'')) (\<lambda>taskId.
     and_then (idField code (js_get r ''runId'')) (\<lambda>runId.
     and_then (safeInteger 1 MAX_RUNNER_ATTEMPTS code (js_get r ''attempt'')) (\<lambda>attempt.
     and_then (safeInteger 1 max_safe_integer code (js_get r ''fencingToken'')) (\<lambda>token.
     and_then (idField code (js_get r ''leaseId'')) (\<lambda>leaseId.
     and_then (idField code (js_get r ''quoteId'')) (\<lambda>quoteId.
     and_then (idField code (js_get r ''runnerId'')) (\<lambda>runnerId.
     and_then (idField code (js_get r ''employeeId'')) (\<lambda>employeeId.
     and_then (digestField code (js_get r ''packageDigest'')) (\<lambda>package.
     and_then (safeInteger 1 (int MAX_EVENTS) code (js_get r ''sequence'')) (\<lambda>sequence.
     and_then (timestamp env code (js_get r ''timestamp'')) (\<lambda>(stamp, _).
     and_then (machineCodeField code (js_get r ''type'')) (\<lambda>type.
     and_then (opaqueData code (js_get r ''data'')) (\<lambda>data.
     and_then (digestField code (js_get r ''previousDigest'')) (\<lambda>previous.
       Inr \<lparr>ev_task = taskId, ev_run = runId, ev_attempt = attempt, ev_token = token, ev_lease = leaseId,
            ev_quote = quoteId, ev_runner = runnerId, ev_employee = employeeId, ev_package = package,
            ev_sequence = sequence, ev_timestamp = stamp, ev_type = type, ev_data = data,
            ev_previous = previous\<rparr>)))))))))))))))))"

text \<open>The digest over the event's domain and canonical text.\<close>

definition digest_event :: "runner_env \<Rightarrow> runner_event \<Rightarrow> protocol_error + string" where
  "digest_event env e =
     and_then (canonical_bytes (event_value e)) (\<lambda>bytes.
       Inr (''sha256:'' @ rn_sha env (map of_char (RUNNER_EVENT_DOMAIN @ [CHR 0x0A]) @ bytes)))"

definition hashRunnerEvent :: "runner_env \<Rightarrow> jsval \<Rightarrow> protocol_error + string" where
  "hashRunnerEvent env v = and_then (runnerEventWithoutDigest env v) (\<lambda>e. digest_event env e)"

definition createRunnerEvent :: "runner_env \<Rightarrow> jsval \<Rightarrow> protocol_error + chained_event" where
  "createRunnerEvent env v =
     and_then (runnerEventWithoutDigest env v) (\<lambda>e.
     and_then (hashRunnerEvent env (event_value e)) (\<lambda>digest.
       Inr \<lparr>ce_event = e, ce_digest = digest\<rparr>))"

definition without_digest :: "jsval \<Rightarrow> jsval" where
  "without_digest r = JObj (map (\<lambda>k. (k, js_get r k)) EVENT_KEYS)"

definition validateRunnerEvent :: "runner_env \<Rightarrow> jsval \<Rightarrow> protocol_error + chained_event" where
  "validateRunnerEvent env v =
     and_then (dataRecord (EVENT_KEYS @ [''digest'']) Event_invalid v) (\<lambda>r.
     and_then (digestField Event_invalid (js_get r ''digest'')) (\<lambda>digest.
     and_then (runnerEventWithoutDigest env (without_digest r)) (\<lambda>e.
     and_then (hashRunnerEvent env (event_value e)) (\<lambda>h.
     ensure (h = digest) Event_invalid (Inr \<lparr>ce_event = e, ce_digest = digest\<rparr>)))))"

section \<open>The chain\<close>

record chain_identity =
  ci_task :: string
  ci_run :: string
  ci_attempt :: int
  ci_token :: int
  ci_lease :: string
  ci_quote :: string
  ci_runner :: string
  ci_employee :: string
  ci_package :: string

definition event_identity :: "runner_event \<Rightarrow> chain_identity" where
  "event_identity e = \<lparr>ci_task = ev_task e, ci_run = ev_run e, ci_attempt = ev_attempt e, ci_token = ev_token e,
     ci_lease = ev_lease e, ci_quote = ev_quote e, ci_runner = ev_runner e, ci_employee = ev_employee e,
     ci_package = ev_package e\<rparr>"

text \<open>The loop from \<open>index\<close> on, with the digest the next event has to name.\<close>

fun chain_loop ::
  "runner_env \<Rightarrow> chain_identity option \<Rightarrow> nat \<Rightarrow> string \<Rightarrow> jsval list \<Rightarrow>
   protocol_error + (chained_event list \<times> string)" where
  "chain_loop env expected index previous [] = Inr ([], previous)"
| "chain_loop env expected index previous (v # vs) =
     (case validateRunnerEvent env v of
        Inl _ \<Rightarrow> Inl Chain_invalid
      | Inr c \<Rightarrow>
          ensure (\<not> (ev_sequence (ce_event c) \<noteq> int index + 1 \<or> ev_previous (ce_event c) \<noteq> previous \<or>
                     (case expected of None \<Rightarrow> False | Some i \<Rightarrow> event_identity (ce_event c) \<noteq> i))) Chain_invalid
         (and_then (chain_loop env expected (Suc index) (ce_digest c) vs) (\<lambda>(cs, final).
            Inr (c # cs, final))))"

definition verifyRunnerEventChain ::
  "runner_env \<Rightarrow> chain_identity option \<Rightarrow> jsval \<Rightarrow> protocol_error + (chained_event list \<times> string)" where
  "verifyRunnerEventChain env expected v =
     and_then (dataArray MAX_EVENTS Chain_invalid v) (\<lambda>events.
       chain_loop env expected 0 RUNNER_EVENT_GENESIS_DIGEST events)"

section \<open>Receipts\<close>

fun read_actions :: "protocol_error \<Rightarrow> string option \<Rightarrow> jsval list \<Rightarrow> protocol_error + (string \<times> int) list" where
  "read_actions code previousName [] = Inr []"
| "read_actions code previousName (v # vs) =
     and_then (dataRecord [''name'', ''count''] code v) (\<lambda>a.
     and_then (machineCodeField code (js_get a ''name'')) (\<lambda>name.
     ensure (\<not> (case previousName of None \<Rightarrow> False | Some p \<Rightarrow> name \<le> p)) code
    (and_then (safeInteger 0 max_safe_integer code (js_get a ''count'')) (\<lambda>count.
     and_then (read_actions code (Some name) vs) (\<lambda>rest. Inr ((name, count) # rest))))))"

definition usageSummary :: "protocol_error \<Rightarrow> jsval \<Rightarrow> protocol_error + runner_usage" where
  "usageSummary code v =
     and_then (dataRecord [''inputTokens'', ''outputTokens'', ''durationMilliseconds'', ''actions''] code v) (\<lambda>r.
     and_then (dataArray MAX_ACTIONS code (js_get r ''actions'')) (\<lambda>rawActions.
     and_then (read_actions code None rawActions) (\<lambda>actions.
     and_then (safeInteger 0 max_safe_integer code (js_get r ''inputTokens'')) (\<lambda>inputTokens.
     and_then (safeInteger 0 max_safe_integer code (js_get r ''outputTokens'')) (\<lambda>outputTokens.
     and_then (safeInteger 0 max_safe_integer code (js_get r ''durationMilliseconds'')) (\<lambda>duration.
       Inr \<lparr>us_input = inputTokens, us_output = outputTokens, us_duration = duration, us_actions = actions\<rparr>))))))"

definition read_optional_opaque :: "protocol_error \<Rightarrow> jsval \<Rightarrow> protocol_error + opaque_data option" where
  "read_optional_opaque code v =
     (if v = JUndef then Inr None else and_then (opaqueData code v) (\<lambda>d. Inr (Some d)))"

definition runnerOutcome :: "protocol_error \<Rightarrow> jsval \<Rightarrow> protocol_error + runner_outcome" where
  "runnerOutcome code v =
     ensure (is_plain_object v \<and> js_has v ''status'') code
    (let status = js_get v ''status'' in
     if status = JStr ''completed''
     then and_then (optionalDataRecord [''status''] [''output''] code v) (\<lambda>r.
          and_then (read_optional_opaque code (js_get r ''output'')) (\<lambda>out. Inr (Outcome_completed out)))
     else if status = JStr ''failed''
     then and_then (dataRecord [''status'', ''errorCode''] code v) (\<lambda>r.
          and_then (machineCodeField code (js_get r ''errorCode'')) (\<lambda>c. Inr (Outcome_failed c)))
     else if status = JStr ''cancelled_by_runner''
     then and_then (dataRecord [''status'', ''reasonCode''] code v) (\<lambda>r.
          and_then (machineCodeField code (js_get r ''reasonCode'')) (\<lambda>c. Inr (Outcome_cancelled c)))
     else Inl code)"

definition RECEIPT_KEYS :: "string list" where
  "RECEIPT_KEYS = [''protocolVersion'', ''kind'', ''taskId'', ''runId'', ''attempt'', ''fencingToken'', ''leaseId'',
     ''quoteId'', ''reservationId'', ''sellerId'', ''runnerId'', ''employee'', ''engine'', ''startedAt'',
     ''completedAt'', ''eventCount'', ''finalEventDigest'', ''usage'', ''outcome'']"

definition validateRunnerReceipt :: "runner_env \<Rightarrow> jsval \<Rightarrow> protocol_error + runner_receipt" where
  "validateRunnerReceipt env v =
    (let code = Receipt_invalid in
     and_then (optionalDataRecord RECEIPT_KEYS [''providerEvidence''] code v) (\<lambda>r.
     ensure (js_get r ''protocolVersion'' = JStr RUNNER_PROTOCOL_VERSION \<and>
             js_get r ''kind'' = JStr ''runner.receipt'') code
    (and_then (timestamp env code (js_get r ''startedAt'')) (\<lambda>(started, startedMs).
     and_then (timestamp env code (js_get r ''completedAt'')) (\<lambda>(completed, completedMs).
     ensure (\<not> completedMs < startedMs) code
    (and_then (safeInteger 0 (int MAX_EVENTS) code (js_get r ''eventCount'')) (\<lambda>eventCount.
     and_then (digestField code (js_get r ''finalEventDigest'')) (\<lambda>finalDigest.
     ensure (\<not> ((eventCount = 0 \<and> finalDigest \<noteq> RUNNER_EVENT_GENESIS_DIGEST) \<or>
                (eventCount > 0 \<and> finalDigest = RUNNER_EVENT_GENESIS_DIGEST))) code
    (and_then (idField code (js_get r ''taskId'')) (\<lambda>taskId.
     and_then (idField code (js_get r ''runId'')) (\<lambda>runId.
     and_then (safeInteger 1 MAX_RUNNER_ATTEMPTS code (js_get r ''attempt'')) (\<lambda>attempt.
     and_then (safeInteger 1 max_safe_integer code (js_get r ''fencingToken'')) (\<lambda>token.
     and_then (idField code (js_get r ''leaseId'')) (\<lambda>leaseId.
     and_then (idField code (js_get r ''quoteId'')) (\<lambda>quoteId.
     and_then (idField code (js_get r ''reservationId'')) (\<lambda>reservationId.
     and_then (idField code (js_get r ''sellerId'')) (\<lambda>sellerId.
     and_then (idField code (js_get r ''runnerId'')) (\<lambda>runnerId.
     and_then (read_employee code (js_get r ''employee'')) (\<lambda>employee.
     and_then (idField code (js_get r ''engine'')) (\<lambda>engine.
     and_then (usageSummary code (js_get r ''usage'')) (\<lambda>usage.
     and_then (runnerOutcome code (js_get r ''outcome'')) (\<lambda>out.
     and_then (read_optional_opaque code (js_get r ''providerEvidence'')) (\<lambda>evidence.
       Inr \<lparr>rr_task = taskId, rr_run = runId, rr_attempt = attempt, rr_token = token, rr_lease = leaseId,
            rr_quote = quoteId, rr_reservation = reservationId, rr_seller = sellerId, rr_runner = runnerId,
            rr_employee = employee, rr_engine = engine, rr_started = started, rr_completed = completed,
            rr_event_count = eventCount, rr_final_digest = finalDigest, rr_usage = usage, rr_outcome = out,
            rr_evidence = evidence\<rparr>)))))))))))))))))))))))"

fun outcome_value :: "runner_outcome \<Rightarrow> jsval" where
  "outcome_value (Outcome_completed None) = JObj [(''status'', JStr ''completed'')]"
| "outcome_value (Outcome_completed (Some d)) = JObj [(''status'', JStr ''completed''), (''output'', opaque_value d)]"
| "outcome_value (Outcome_failed c) = JObj [(''status'', JStr ''failed''), (''errorCode'', JStr c)]"
| "outcome_value (Outcome_cancelled c) = JObj [(''status'', JStr ''cancelled_by_runner''), (''reasonCode'', JStr c)]"

definition usage_value :: "runner_usage \<Rightarrow> jsval" where
  "usage_value u = JObj [(''inputTokens'', JNum (of_int (us_input u))), (''outputTokens'', JNum (of_int (us_output u))),
     (''durationMilliseconds'', JNum (of_int (us_duration u))),
     (''actions'', JArr (map (\<lambda>(n, c). JObj [(''name'', JStr n), (''count'', JNum (of_int c))]) (us_actions u)))]"

definition receipt_value :: "runner_receipt \<Rightarrow> jsval" where
  "receipt_value r = JObj ([(''protocolVersion'', JStr RUNNER_PROTOCOL_VERSION), (''kind'', JStr ''runner.receipt''),
     (''taskId'', JStr (rr_task r)), (''runId'', JStr (rr_run r)), (''attempt'', JNum (of_int (rr_attempt r))),
     (''fencingToken'', JNum (of_int (rr_token r))), (''leaseId'', JStr (rr_lease r)), (''quoteId'', JStr (rr_quote r)),
     (''reservationId'', JStr (rr_reservation r)), (''sellerId'', JStr (rr_seller r)),
     (''runnerId'', JStr (rr_runner r)), (''employee'', employee_value (rr_employee r)),
     (''engine'', JStr (rr_engine r)), (''startedAt'', JStr (rr_started r)), (''completedAt'', JStr (rr_completed r)),
     (''eventCount'', JNum (of_int (rr_event_count r))), (''finalEventDigest'', JStr (rr_final_digest r)),
     (''usage'', usage_value (rr_usage r)), (''outcome'', outcome_value (rr_outcome r))]
     @ (case rr_evidence r of None \<Rightarrow> [] | Some d \<Rightarrow> [(''providerEvidence'', opaque_value d)]))"

definition signRunnerReceipt ::
  "runner_env \<Rightarrow> jsval \<Rightarrow> string \<Rightarrow> string \<Rightarrow> protocol_error + signed_envelope" where
  "signRunnerReceipt env v keyId privateKey =
     and_then (validateRunnerReceipt env v) (\<lambda>receipt.
     and_then (canonical_bytes (receipt_value receipt)) (\<lambda>payload.
       signRunnerEnvelope env RUNNER_RECEIPT_DOMAIN keyId privateKey payload))"

definition verifyRunnerReceipt :: "runner_env \<Rightarrow> jsval \<Rightarrow> string \<Rightarrow> protocol_error + runner_receipt" where
  "verifyRunnerReceipt env v publicKey =
     and_then (verifyRunnerEnvelope env RUNNER_RECEIPT_DOMAIN v publicKey) (\<lambda>payload.
     and_then (parsePayload env Receipt_invalid payload) (\<lambda>parsed.
     and_then (validateRunnerReceipt env parsed) (\<lambda>receipt.
     and_then (canonical_bytes (receipt_value receipt)) (\<lambda>bytes.
       ensure (bytes = payload) Receipt_invalid (Inr receipt)))))"

section \<open>The execution bundle\<close>

definition task_identity :: "runner_task \<Rightarrow> chain_identity" where
  "task_identity t = \<lparr>ci_task = rt_task t, ci_run = rt_run t, ci_attempt = rt_attempt t, ci_token = rt_token t,
     ci_lease = rt_lease t, ci_quote = rt_quote t, ci_runner = rt_runner t, ci_employee = em_id (rt_employee t),
     ci_package = em_package (rt_employee t)\<rparr>"

definition receipt_matches :: "runner_receipt \<Rightarrow> runner_task \<Rightarrow> bool" where
  "receipt_matches r t = (rr_task r = rt_task t \<and> rr_run r = rt_run t \<and> rr_attempt r = rt_attempt t \<and>
     rr_token r = rt_token t \<and> rr_lease r = rt_lease t \<and> rr_quote r = rt_quote t \<and>
     rr_reservation r = rt_reservation t \<and> rr_seller r = rt_seller t \<and> rr_runner r = rt_runner t \<and>
     em_id (rr_employee r) = em_id (rt_employee t) \<and> em_version (rr_employee r) = em_version (rt_employee t) \<and>
     em_package (rr_employee r) = em_package (rt_employee t) \<and> rr_engine r = rt_engine t)"

text \<open>\<open>Date.parse\<close> of a stamp that has been validated; None would be NaN.\<close>

definition millis :: "runner_env \<Rightarrow> string \<Rightarrow> int" where
  "millis env s = (case rn_date env s of None \<Rightarrow> 0 | Some t \<Rightarrow> t)"

fun check_event_times ::
  "runner_env \<Rightarrow> int \<Rightarrow> int \<Rightarrow> int \<Rightarrow> int \<Rightarrow> chained_event list \<Rightarrow> bool" where
  "check_event_times env previous completed hardExpiry observed [] = True"
| "check_event_times env previous completed hardExpiry observed (c # cs) =
     (let t = millis env (ev_timestamp (ce_event c)) in
      \<not> (t < previous \<or> t > completed \<or> t \<ge> hardExpiry \<or> t > observed + MAX_RUNNER_CLOCK_SKEW_MS) \<and>
      check_event_times env t completed hardExpiry observed cs)"

record execution_bundle =
  eb_task :: runner_task
  eb_events :: "chained_event list"
  eb_receipt :: runner_receipt

definition bindRunnerExecutionBundle ::
  "runner_env \<Rightarrow> runner_task \<Rightarrow> jsval \<Rightarrow> runner_receipt \<Rightarrow> string \<Rightarrow> protocol_error + execution_bundle" where
  "bindRunnerExecutionBundle env task events receipt observedAt =
     and_then (timestamp env Receipt_invalid (JStr observedAt)) (\<lambda>(_, observed).
     ensure (receipt_matches receipt task) Receipt_invalid
    (and_then (verifyRunnerEventChain env (Some (task_identity task)) events) (\<lambda>(chain, final).
     ensure (\<not> (rr_event_count receipt \<noteq> int (length chain) \<or> rr_final_digest receipt \<noteq> final)) Receipt_invalid
    (let issued = millis env (rt_issued task);
         hardExpiry = min (millis env (rt_expires task)) (millis env (rt_lease_expires task));
         started = millis env (rr_started receipt);
         completed = millis env (rr_completed receipt)
     in ensure (\<not> (started < issued - MAX_RUNNER_CLOCK_SKEW_MS \<or> completed \<ge> hardExpiry \<or>
                   completed > observed + MAX_RUNNER_CLOCK_SKEW_MS)) Receipt_invalid
       (ensure (check_event_times env started completed hardExpiry observed chain) Chain_invalid
          (Inr \<lparr>eb_task = task, eb_events = chain, eb_receipt = receipt\<rparr>))))))"

definition verifyRunnerExecutionBundle ::
  "runner_env \<Rightarrow> jsval \<Rightarrow> string \<Rightarrow> jsval \<Rightarrow> jsval \<Rightarrow> string \<Rightarrow> string \<Rightarrow> protocol_error + execution_bundle" where
  "verifyRunnerExecutionBundle env taskEnvelope platformKey events receiptEnvelope runnerKey observedAt =
     and_then (verifyRunnerTask env taskEnvelope platformKey) (\<lambda>task.
     and_then (verifyRunnerReceipt env receiptEnvelope runnerKey) (\<lambda>receipt.
       bindRunnerExecutionBundle env task events receipt observedAt))"

end
