(* ===== verification/RunnerBundle.thy ===== *)
theory RunnerBundle
  imports RunnerProtocol
begin

text \<open>
  What the runner protocol guarantees: base64url and the signed task round trip, an accepted
  execution bundle is bound end to end (signatures, identity, event chain, time window), and the
  final digest of a receipt pins the whole list of events.
\<close>

section \<open>base64url\<close>

lemma base64url_value_char: "v < 64 \<Longrightarrow> base64url_value (base64url_char v) = Some v"
proof -
  assume v: "v < 64"
  consider "v < 26" | "26 \<le> v" "v < 52" | "52 \<le> v" "v < 62" | "v = 62" | "v = 63"
    using v by linarith
  then show ?thesis
    by cases (auto simp: base64url_value_def base64url_char_def is_upper_def is_lower_def is_digit_def)
qed

definition bytes_ok :: "nat list \<Rightarrow> bool" where
  "bytes_ok bs \<longleftrightarrow> list_all (\<lambda>b. b < 256) bs"

text \<open>One group of three bytes and its four sextets.\<close>

lemma group_bounds:
  fixes a b c :: nat
  assumes "a < 256" "b < 256" "c < 256"
  shows "a div 4 < 64" "a mod 4 * 16 + b div 16 < 64" "b mod 16 * 4 + c div 64 < 64" "c mod 64 < 64"
proof -
  have "a mod 4 < 4" "b div 16 < 16" "b mod 16 < 16" "c div 64 < 4" using assms by simp_all
  then show "a mod 4 * 16 + b div 16 < 64" "b mod 16 * 4 + c div 64 < 64" by linarith+
qed (use assms in simp_all)

lemma group_bytes:
  fixes a b c :: nat
  assumes "b < 256" "c < 256"
  shows "a div 4 * 4 + (a mod 4 * 16 + b div 16) div 16 = a"
    and "(a mod 4 * 16 + b div 16) mod 16 * 16 + (b mod 16 * 4 + c div 64) div 4 = b"
    and "(b mod 16 * 4 + c div 64) mod 4 * 64 + c mod 64 = c"
proof -
  have b: "b div 16 < 16" and c: "c div 64 < 4" using assms by simp_all
  have "(a mod 4 * 16 + b div 16) div 16 = a mod 4" "(a mod 4 * 16 + b div 16) mod 16 = b div 16"
    using b by simp_all
  moreover have "(b mod 16 * 4 + c div 64) div 4 = b mod 16" "(b mod 16 * 4 + c div 64) mod 4 = c div 64"
    using c by simp_all
  ultimately show "a div 4 * 4 + (a mod 4 * 16 + b div 16) div 16 = a"
    "(a mod 4 * 16 + b div 16) mod 16 * 16 + (b mod 16 * 4 + c div 64) div 4 = b"
    "(b mod 16 * 4 + c div 64) mod 4 * 64 + c mod 64 = c"
    by (simp_all only: div_mult_mod_eq)
qed

fun sextets :: "nat list \<Rightarrow> nat list" where
  "sextets [] = []"
| "sextets [a] = [a div 4, a mod 4 * 16 + 0 div 16]"
| "sextets [a, b] = [a div 4, a mod 4 * 16 + b div 16, b mod 16 * 4 + 0 div 64]"
| "sextets (a # b # c # bs) =
     [a div 4, a mod 4 * 16 + b div 16, b mod 16 * 4 + c div 64, c mod 64] @ sextets bs"

lemma encode_sextets: "base64url_encode bs = map base64url_char (sextets bs)"
  by (induction bs rule: base64url_encode.induct) simp_all

lemma sextets_small: "bytes_ok bs \<Longrightarrow> list_all (\<lambda>v. v < 64) (sextets bs)"
proof (induction bs rule: sextets.induct)
  case (2 a)
  then show ?case using group_bounds [of a 0 0] by (simp add: bytes_ok_def)
next
  case (3 a b)
  then show ?case using group_bounds [of a b 0] by (simp add: bytes_ok_def)
next
  case (4 a b c bs)
  then show ?case using group_bounds [of a b c] by (simp add: bytes_ok_def)
qed simp

lemma sextets_inverse: "bytes_ok bs \<Longrightarrow> sextets_to_bytes (sextets bs) = bs"
proof (induction bs rule: sextets.induct)
  case (2 a)
  show ?case using group_bytes(1) [of 0 0 a] by (simp only: sextets.simps sextets_to_bytes.simps)
next
  case (3 a b)
  then have "b < 256" by (simp add: bytes_ok_def)
  then show ?case using group_bytes(1,2) [of b 0 a]
    by (simp only: sextets.simps sextets_to_bytes.simps)
next
  case (4 a b c bs)
  then have bc: "b < 256" "c < 256" and bs: "sextets_to_bytes (sextets bs) = bs"
    by (simp_all add: bytes_ok_def)
  show ?case
    unfolding sextets.simps append.simps sextets_to_bytes.simps group_bytes [OF bc] bs by (rule refl)
qed simp

lemma base64url_text_encode: "bytes_ok bs \<Longrightarrow> BASE64URL_TEXT (base64url_encode bs)"
  using sextets_small [of bs]
  by (simp add: BASE64URL_TEXT_def encode_sextets list_all_iff base64url_value_char)

lemma decode_encode: "bytes_ok bs \<Longrightarrow> base64url_decode (base64url_encode bs) = bs"
proof -
  assume ok: "bytes_ok bs"
  have "map (\<lambda>c. case base64url_value c of None \<Rightarrow> 0 | Some v \<Rightarrow> v) (base64url_encode bs) = sextets bs"
    unfolding encode_sextets map_map
    by (rule map_idI) (use sextets_small [OF ok] in \<open>auto simp: list_all_iff base64url_value_char\<close>)
  then show ?thesis by (simp add: base64url_decode_def sextets_inverse [OF ok])
qed

lemma length_encode: "length (base64url_encode bs) \<le> base64url_length_limit (length bs)"
  by (induction bs rule: base64url_encode.induct) (simp_all add: base64url_length_limit_def)

lemma limit_mono: "m \<le> n \<Longrightarrow> base64url_length_limit m \<le> base64url_length_limit n"
  by (simp add: base64url_length_limit_def div_le_mono)

lemma decode_accepts:
  assumes "bytes_ok bs" "length bs \<le> n"
  shows "decodeBase64Url code n (JStr (base64url_encode bs)) = Inr bs"
  using assms base64url_text_encode [OF assms(1)] decode_encode [OF assms(1)]
    order_trans [OF length_encode [of bs] limit_mono [OF assms(2)]]
  by (simp add: decodeBase64Url_def ensure_def Let_def)

lemma base64url_value_less: "base64url_value c = Some v \<Longrightarrow> v < 64"
  by (auto simp: base64url_value_def is_upper_def is_lower_def is_digit_def split: if_splits)

lemma sextet_byte:
  fixes w x :: nat
  assumes "w < 64" "x < 64"
  shows "w * 4 + x div 16 < 256" "w mod 16 * 16 + x div 4 < 256" "w mod 4 * 64 + x < 256"
proof -
  have "x div 16 < 4" "x div 4 < 16" "w mod 16 < 16" "w mod 4 < 4" using assms by simp_all
  then show "w * 4 + x div 16 < 256" "w mod 16 * 16 + x div 4 < 256" "w mod 4 * 64 + x < 256"
    using assms by linarith+
qed

lemma sextets_bytes_ok: "list_all (\<lambda>v. v < 64) vs \<Longrightarrow> bytes_ok (sextets_to_bytes vs)"
  by (induction vs rule: sextets_to_bytes.induct) (simp_all add: bytes_ok_def sextet_byte)

lemma decode_bytes_ok: "bytes_ok (base64url_decode s)"
  unfolding base64url_decode_def
  by (rule sextets_bytes_ok) (auto simp: list_all_iff dest: base64url_value_less split: option.split)

lemma decodeBase64Url_Inr:
  "decodeBase64Url code n v = Inr bs \<longleftrightarrow>
     (\<exists>s. v = JStr s \<and> BASE64URL_TEXT s \<and> bs = base64url_decode s \<and> length bs \<le> n \<and> base64url_encode bs = s)"
proof
  assume "decodeBase64Url code n v = Inr bs"
  then show "\<exists>s. v = JStr s \<and> BASE64URL_TEXT s \<and> bs = base64url_decode s \<and> length bs \<le> n \<and> base64url_encode bs = s"
    by (cases v) (auto simp: decodeBase64Url_def accepts Let_def)
next
  assume "\<exists>s. v = JStr s \<and> BASE64URL_TEXT s \<and> bs = base64url_decode s \<and> length bs \<le> n \<and> base64url_encode bs = s"
  then obtain s where s: "v = JStr s" "bs = base64url_decode s" "length bs \<le> n" "base64url_encode bs = s" by blast
  then have "bytes_ok bs" by (simp add: decode_bytes_ok)
  from decode_accepts [OF this s(3)] show "decodeBase64Url code n v = Inr bs" using s by simp
qed

lemma utf8_bytes_ok: "bytes_ok (utf8_encode s)"
proof (induction s)
  case Nil
  then show ?case by (simp add: utf8_encode_def bytes_ok_def)
next
  case (Cons c s)
  have lt: "(of_char c :: nat) < 256" by (rule of_char_256)
  have "of_char c div 64 < (64 :: nat)" using div_le_mono [of "of_char c" 255 64] lt by simp
  moreover have "of_char c mod 64 < (64 :: nat)" by simp
  ultimately have "bytes_ok (utf8_char c)" using lt by (auto simp: utf8_char_def Let_def bytes_ok_def)
  then show ?case using Cons by (simp add: utf8_encode_Cons bytes_ok_def)
qed

lemma utf8_text_encode [simp]: "utf8_text (utf8_encode t) = Some t"
  by (simp add: utf8_text_def Let_def)

section \<open>What validation leaves behind\<close>

lemma dataRecord_Inr:
  "dataRecord ks code v = Inr r \<longleftrightarrow> r = v \<and> is_plain_object v \<and> distinct (js_keys v) \<and>
     length (js_keys v) = length ks \<and> list_all (\<lambda>k. k \<in> set ks) (js_keys v)"
  by (auto simp: dataRecord_def ensure_Inr)

lemma stringField_Inr:
  "stringField p n code v = Inr s \<longleftrightarrow> v = JStr s \<and> 1 \<le> length s \<and> length s \<le> n \<and> p s"
  by (cases v) (auto simp: stringField_def ensure_Inr)

lemmas field_defs = idField_def machineCodeField_def semverField_def digestField_def

lemma safeInteger_Inr:
  "safeInteger lo hi code v = Inr n \<longleftrightarrow> js_safe_int v = Some n \<and> lo \<le> n \<and> n \<le> hi"
  by (auto simp: safeInteger_def ensure_Inr option_Inr)

lemma timestamp_Inr:
  "timestamp env code v = Inr (s, t) \<longleftrightarrow> v = JStr s \<and> validTimestamp (rn_date env) (rn_iso env) s = Some t"
  by (cases v) (auto simp: timestamp_def option_Inr)

lemma js_safe_int_again: "js_safe_int v = Some n \<Longrightarrow> js_safe_int (JNum (of_int n)) = Some n"
  by (drule js_safe_int_bound) (simp add: js_safe_int_def)

lemma validTimestamp_millis:
  "validTimestamp (rn_date env) (rn_iso env) s = Some t \<Longrightarrow> millis env s = t"
  by (auto simp: validTimestamp_def millis_def split: if_splits option.splits)

section \<open>The event chain\<close>

text \<open>Every event names the digest before it, and its own digest is over its content.\<close>

fun linked :: "runner_env \<Rightarrow> string \<Rightarrow> chained_event list \<Rightarrow> string \<Rightarrow> bool" where
  "linked env previous [] final = (final = previous)"
| "linked env previous (c # cs) final =
     (ev_previous (ce_event c) = previous \<and> digest_event env (ce_event c) = Inr (ce_digest c) \<and>
      linked env (ce_digest c) cs final)"

lemma linked_snoc:
  "linked env previous (cs @ [c]) final \<longleftrightarrow>
     (\<exists>d. linked env previous cs d \<and> ev_previous (ce_event c) = d \<and>
          digest_event env (ce_event c) = Inr (ce_digest c) \<and> final = ce_digest c)"
  by (induction cs arbitrary: previous) auto

text \<open>The event reader returns its own input when it is given a validated event.\<close>

lemma hash_validated:
  assumes "hashRunnerEvent env (event_value e) = Inr h"
  shows "\<exists>e'. runnerEventWithoutDigest env (event_value e) = Inr e' \<and> digest_event env e' = Inr h"
  using assms by (auto simp: hashRunnerEvent_def and_then_Inr)

lemma js_get_event:
  "js_get (event_value e) ''protocolVersion'' = JStr RUNNER_PROTOCOL_VERSION"
  "js_get (event_value e) ''kind'' = JStr ''runner.event''"
  "js_get (event_value e) ''taskId'' = JStr (ev_task e)"
  "js_get (event_value e) ''runId'' = JStr (ev_run e)"
  "js_get (event_value e) ''attempt'' = JNum (of_int (ev_attempt e))"
  "js_get (event_value e) ''fencingToken'' = JNum (of_int (ev_token e))"
  "js_get (event_value e) ''leaseId'' = JStr (ev_lease e)"
  "js_get (event_value e) ''quoteId'' = JStr (ev_quote e)"
  "js_get (event_value e) ''runnerId'' = JStr (ev_runner e)"
  "js_get (event_value e) ''employeeId'' = JStr (ev_employee e)"
  "js_get (event_value e) ''packageDigest'' = JStr (ev_package e)"
  "js_get (event_value e) ''sequence'' = JNum (of_int (ev_sequence e))"
  "js_get (event_value e) ''timestamp'' = JStr (ev_timestamp e)"
  "js_get (event_value e) ''type'' = JStr (ev_type e)"
  "js_get (event_value e) ''data'' = opaque_value (ev_data e)"
  "js_get (event_value e) ''previousDigest'' = JStr (ev_previous e)"
  by (simp_all add: event_value_def event_members_def)

lemma opaque_value_inj [simp]: "opaque_value d = opaque_value d' \<longleftrightarrow> d = d'"
  by (cases d; cases d') (auto simp: opaque_value_def)

lemma key_sorted_opaque: "key_sorted (opaque_value d) = key_sorted (opaque_value d') \<Longrightarrow> d = d'"
proof -
  assume e: "key_sorted (opaque_value d) = key_sorted (opaque_value d')"
  have "js_get (key_sorted (opaque_value x)) ''mediaType'' = JStr (od_media x)"
    "js_get (key_sorted (opaque_value x)) ''data'' = JStr (od_data x)" for x
    unfolding opaque_value_def by (subst js_get_key_sorted; simp)+
  then have "od_media d = od_media d'" "od_data d = od_data d'" using e by (metis jsval.inject(3))+
  then show "d = d'" by simp
qed

text \<open>The canonical text of an event determines the event.\<close>

lemma event_value_determined:
  assumes "key_sorted (event_value e) = key_sorted (event_value e')"
  shows "e = e'"
proof -
  have g: "js_get (key_sorted (event_value x)) k = key_sorted (js_get (event_value x) k)" for x k
    unfolding event_value_def by (rule js_get_key_sorted) (simp add: event_members_def)
  have same: "key_sorted (js_get (event_value e) k) = key_sorted (js_get (event_value e') k)" for k
    using assms g by metis
  have "ev_task e = ev_task e'" "ev_run e = ev_run e'" "ev_attempt e = ev_attempt e'"
    "ev_token e = ev_token e'" "ev_lease e = ev_lease e'" "ev_quote e = ev_quote e'"
    "ev_runner e = ev_runner e'" "ev_employee e = ev_employee e'" "ev_package e = ev_package e'"
    "ev_sequence e = ev_sequence e'" "ev_timestamp e = ev_timestamp e'" "ev_type e = ev_type e'"
    "ev_previous e = ev_previous e'"
    using same [of "''taskId''"] same [of "''runId''"] same [of "''attempt''"] same [of "''fencingToken''"]
      same [of "''leaseId''"] same [of "''quoteId''"] same [of "''runnerId''"] same [of "''employeeId''"]
      same [of "''packageDigest''"] same [of "''sequence''"] same [of "''timestamp''"] same [of "''type''"]
      same [of "''previousDigest''"]
    unfolding js_get_event by simp_all
  moreover have "ev_data e = ev_data e'"
    using same [of "''data''"] unfolding js_get_event by (rule key_sorted_opaque)
  ultimately show ?thesis by simp
qed

lemma opaque_accepts:
  assumes "opaqueData code v = Inr d"
  shows "opaqueData code' (opaque_value d) = Inr d"
proof -
  obtain bytes where m: "stringField MEDIA_TYPE_PATTERN 255 code (js_get v ''mediaType'') = Inr (od_media d)"
    and b: "decodeBase64Url code MAX_OPAQUE_DATA_BYTES (js_get v ''data'') = Inr bytes"
    and d: "d = \<lparr>od_media = od_media d, od_data = base64url_encode bytes\<rparr>"
    using assms by (auto simp: opaqueData_def accepts dataRecord_Inr)
  have ok: "bytes_ok bytes" "length bytes \<le> MAX_OPAQUE_DATA_BYTES"
    using b by (metis decodeBase64Url_Inr decode_bytes_ok)+
  have od: "od_data d = base64url_encode bytes" using d by (metis opaque_data.select_convs(2))
  have "stringField MEDIA_TYPE_PATTERN 255 code' (JStr (od_media d)) = Inr (od_media d)"
    using m by (simp add: stringField_Inr)
  then have "opaqueData code' (opaque_value d) = Inr \<lparr>od_media = od_media d, od_data = base64url_encode bytes\<rparr>"
    using decode_accepts [OF ok, of code'] unfolding od [symmetric]
    by (simp add: opaqueData_def opaque_value_def dataRecord_def od)
  then show ?thesis using d by simp
qed

lemma event_accepts:
  assumes "runnerEventWithoutDigest env v = Inr e"
  shows "runnerEventWithoutDigest env (event_value e) = Inr e"
proof -
  have keys: "js_keys (event_value e) = EVENT_KEYS" "is_plain_object (event_value e)" "distinct EVENT_KEYS"
    by (simp_all add: event_value_def event_members_def EVENT_KEYS_def)
  show ?thesis
    using assms
    by (auto simp: runnerEventWithoutDigest_def Let_def accepts dataRecord_Inr keys js_get_event
        field_defs stringField_Inr safeInteger_Inr timestamp_Inr opaque_accepts list_all_iff
        dest: js_safe_int_again)
qed

lemma validated_event_digest:
  assumes "validateRunnerEvent env v = Inr c"
  shows "digest_event env (ce_event c) = Inr (ce_digest c) \<and> 1 \<le> ev_attempt (ce_event c) \<and>
    (\<exists>t. validTimestamp (rn_date env) (rn_iso env) (ev_timestamp (ce_event c)) = Some t)"
proof -
  obtain r e h where e: "runnerEventWithoutDigest env (without_digest r) = Inr e"
    "hashRunnerEvent env (event_value e) = Inr h" "c = \<lparr>ce_event = e, ce_digest = h\<rparr>"
    using assms by (auto simp: validateRunnerEvent_def accepts)
  have "digest_event env e = Inr h"
    using e(2) event_accepts [OF e(1)] by (simp add: hashRunnerEvent_def)
  moreover have "1 \<le> ev_attempt e \<and> (\<exists>t. validTimestamp (rn_date env) (rn_iso env) (ev_timestamp e) = Some t)"
    using e(1) by (auto simp: runnerEventWithoutDigest_def Let_def accepts safeInteger_Inr timestamp_Inr)
  ultimately show ?thesis using e(3) by simp
qed

lemma chain_loop_linked:
  "chain_loop env expected index previous vs = Inr (cs, final) \<Longrightarrow>
   linked env previous cs final \<and> length cs = length vs \<and>
   map (\<lambda>c. ev_sequence (ce_event c)) cs = map (\<lambda>j. int j + 1) [index..<index + length cs] \<and>
   list_all (\<lambda>c. (case expected of None \<Rightarrow> True | Some i \<Rightarrow> event_identity (ce_event c) = i) \<and>
      (\<exists>t. validTimestamp (rn_date env) (rn_iso env) (ev_timestamp (ce_event c)) = Some t)) cs"
proof (induction env expected index previous vs arbitrary: cs final rule: chain_loop.induct)
  case (1 env expected index previous)
  then show ?case by simp
next
  case (2 env expected index previous v vs)
  obtain c where c: "validateRunnerEvent env v = Inr c"
    using "2.prems" by (cases "validateRunnerEvent env v") auto
  obtain cs' where cs: "cs = c # cs'" and rest: "chain_loop env expected (Suc index) (ce_digest c) vs = Inr (cs', final)"
    and ok: "\<not> (ev_sequence (ce_event c) \<noteq> int index + 1 \<or> ev_previous (ce_event c) \<noteq> previous \<or>
      (case expected of None \<Rightarrow> False | Some i \<Rightarrow> event_identity (ce_event c) \<noteq> i))"
    using "2.prems" c by (auto simp: accepts)
  have "linked env (ce_digest c) cs' final \<and> length cs' = length vs \<and>
    map (\<lambda>c. ev_sequence (ce_event c)) cs' = map (\<lambda>j. int j + 1) [Suc index..<Suc index + length cs'] \<and>
    list_all (\<lambda>c. (case expected of None \<Rightarrow> True | Some i \<Rightarrow> event_identity (ce_event c) = i) \<and>
      (\<exists>t. validTimestamp (rn_date env) (rn_iso env) (ev_timestamp (ce_event c)) = Some t)) cs'"
    by (rule "2.IH" [OF c ok rest])
  moreover have "[index..<index + length cs] = index # [Suc index..<Suc index + length cs']"
    using upt_conv_Cons [of index "index + length cs"] cs by simp
  ultimately show ?case
    using ok validated_event_digest [OF c] cs by (auto split: option.splits)
qed

lemma chain_linked:
  assumes "verifyRunnerEventChain env expected v = Inr (cs, final)"
  shows "linked env RUNNER_EVENT_GENESIS_DIGEST cs final \<and> length cs \<le> MAX_EVENTS \<and>
    map (\<lambda>c. ev_sequence (ce_event c)) cs = map (\<lambda>j. int j + 1) [0..<length cs] \<and>
    list_all (\<lambda>c. (case expected of None \<Rightarrow> True | Some i \<Rightarrow> event_identity (ce_event c) = i) \<and>
      (\<exists>t. validTimestamp (rn_date env) (rn_iso env) (ev_timestamp (ce_event c)) = Some t)) cs"
proof -
  obtain vs where "chain_loop env expected 0 RUNNER_EVENT_GENESIS_DIGEST vs = Inr (cs, final)" "length vs \<le> MAX_EVENTS"
    using assms by (auto simp: verifyRunnerEventChain_def dataArray_def accepts split: jsval.splits)
  then show ?thesis using chain_loop_linked by fastforce
qed

section \<open>The final digest pins the events\<close>

definition digest_input :: "runner_event \<Rightarrow> nat list" where
  "digest_input e = map of_char (RUNNER_EVENT_DOMAIN @ [CHR 0x0A]) @
     (case canonicalRunnerJson (event_value e) of None \<Rightarrow> [] | Some t \<Rightarrow> utf8_encode t)"

text \<open>No two different contents of these events have the same SHA-256 digest.\<close>

definition collision_free :: "runner_env \<Rightarrow> chained_event list \<Rightarrow> bool" where
  "collision_free env cs \<longleftrightarrow> inj_on (rn_sha env) (set (map (\<lambda>c. digest_input (ce_event c)) cs)) \<and>
     list_all (\<lambda>c. ''sha256:'' @ rn_sha env (digest_input (ce_event c)) \<noteq> RUNNER_EVENT_GENESIS_DIGEST) cs"

lemma digest_event_Inr:
  assumes "digest_event env e = Inr d"
  obtains t where "canonicalRunnerJson (event_value e) = Some t" "d = ''sha256:'' @ rn_sha env (digest_input e)"
  using assms by (auto simp: digest_event_def and_then_Inr canonical_bytes_def digest_input_def split: option.splits)

lemma digest_determines_event:
  assumes "inj_on (rn_sha env) A" "digest_input e \<in> A" "digest_input e' \<in> A"
    and "digest_event env e = Inr d" "digest_event env e' = Inr d"
  shows "e = e'"
proof -
  obtain t where t: "canonicalRunnerJson (event_value e) = Some t" "d = ''sha256:'' @ rn_sha env (digest_input e)"
    using assms(4) by (rule digest_event_Inr)
  obtain t' where t': "canonicalRunnerJson (event_value e') = Some t'" "d = ''sha256:'' @ rn_sha env (digest_input e')"
    using assms(5) by (rule digest_event_Inr)
  have "digest_input e = digest_input e'"
    using assms(1-3) t(2) t'(2) by (auto dest: inj_onD)
  then have "t = t'" using t(1) t'(1) by (simp add: digest_input_def utf8_inj)
  then show ?thesis
    using canonical_text_injective t(1) t'(1) event_value_determined by metis
qed

lemma linked_pinned:
  assumes "linked env g cs d" "linked env g cs' d"
    and "inj_on (rn_sha env) A" "\<forall>c \<in> set cs \<union> set cs'. digest_input (ce_event c) \<in> A"
    and "\<forall>c \<in> set cs \<union> set cs'. ''sha256:'' @ rn_sha env (digest_input (ce_event c)) \<noteq> g"
  shows "cs = cs'"
  using assms(1,2,4,5)
proof (induction cs arbitrary: d cs' rule: rev_induct)
  case Nil
  show ?case
  proof (cases cs' rule: rev_cases)
    case (snoc ys y)
    then have "digest_event env (ce_event y) = Inr d" "d = g" using Nil by (auto simp: linked_snoc)
    then show ?thesis using Nil.prems(4) snoc by (auto elim!: digest_event_Inr)
  qed simp
next
  case (snoc x xs)
  obtain d0 where x: "linked env g xs d0" "ev_previous (ce_event x) = d0"
    "digest_event env (ce_event x) = Inr (ce_digest x)" "d = ce_digest x"
    using snoc.prems(1) by (auto simp: linked_snoc)
  show ?case
  proof (cases cs' rule: rev_cases)
    case Nil
    then have "d = g" using snoc.prems(2) by simp
    then show ?thesis using snoc.prems(4) x(3,4) by (auto elim!: digest_event_Inr)
  next
    case ys: (snoc ys y)
    obtain d1 where y: "linked env g ys d1" "ev_previous (ce_event y) = d1"
      "digest_event env (ce_event y) = Inr (ce_digest y)" "d = ce_digest y"
      using snoc.prems(2) ys by (auto simp: linked_snoc)
    have dy: "digest_event env (ce_event y) = Inr (ce_digest x)" using x(4) y(3,4) by simp
    have "ce_event x = ce_event y"
      by (rule digest_determines_event [OF assms(3) _ _ x(3) dy]) (use snoc.prems(3) ys in auto)
    then have "x = y" "d0 = d1" using x(2,4) y(2,4) by simp_all
    then show ?thesis using snoc.IH [OF x(1), of ys] y(1) snoc.prems(3,4) ys by auto
  qed
qed

lemma chain_pinned:
  assumes "verifyRunnerEventChain env i v = Inr (cs, d)" "verifyRunnerEventChain env i' v' = Inr (cs', d)"
    and "collision_free env (cs @ cs')"
  shows "cs = cs'"
proof (rule linked_pinned)
  show "linked env RUNNER_EVENT_GENESIS_DIGEST cs d" "linked env RUNNER_EVENT_GENESIS_DIGEST cs' d"
    using chain_linked [OF assms(1)] chain_linked [OF assms(2)] by blast+
  show "inj_on (rn_sha env) (set (map (\<lambda>c. digest_input (ce_event c)) (cs @ cs')))"
    using assms(3) by (simp add: collision_free_def)
qed (use assms(3) in \<open>auto simp: collision_free_def list_all_iff\<close>)

section \<open>An accepted bundle is bound end to end\<close>

text \<open>The canonical bytes of the value were signed by the holder of the key, under the domain.\<close>

definition signed_over :: "runner_env \<Rightarrow> string \<Rightarrow> string \<Rightarrow> jsval \<Rightarrow> jsval \<Rightarrow> bool" where
  "signed_over env domain key envelope payload \<longleftrightarrow>
     (case (validateSignedEnvelope envelope, canonicalRunnerJson payload) of
        (Inr e, Some t) \<Rightarrow> base64url_decode (se_payload e) = utf8_encode t \<and>
          rn_verify env key (envelopeSigningBytes domain (utf8_encode t)) (base64url_decode (se_signature e)) = Some True
      | _ \<Rightarrow> False)"

fun ascending :: "int \<Rightarrow> int list \<Rightarrow> int \<Rightarrow> bool" where
  "ascending lo [] hi = (lo \<le> hi)"
| "ascending lo (t # ts) hi = (lo \<le> t \<and> ascending t ts hi)"

definition event_times :: "runner_env \<Rightarrow> chained_event list \<Rightarrow> int list" where
  "event_times env cs = map (\<lambda>c. millis env (ev_timestamp (ce_event c))) cs"

definition bound_bundle :: "runner_env \<Rightarrow> int \<Rightarrow> execution_bundle \<Rightarrow> bool" where
  "bound_bundle env observed b \<longleftrightarrow>
     (let t = eb_task b; r = eb_receipt b; cs = eb_events b;
          expiry = min (millis env (rt_expires t)) (millis env (rt_lease_expires t)) in
      receipt_matches r t \<and>
      list_all (\<lambda>c. event_identity (ce_event c) = task_identity t) cs \<and>
      map (\<lambda>c. ev_sequence (ce_event c)) cs = map (\<lambda>j. int j + 1) [0..<length cs] \<and>
      rr_event_count r = int (length cs) \<and>
      linked env RUNNER_EVENT_GENESIS_DIGEST cs (rr_final_digest r) \<and>
      millis env (rt_issued t) - MAX_RUNNER_CLOCK_SKEW_MS \<le> millis env (rr_started r) \<and>
      ascending (millis env (rr_started r)) (event_times env cs) (millis env (rr_completed r)) \<and>
      millis env (rr_completed r) < expiry \<and>
      millis env (rr_completed r) \<le> observed + MAX_RUNNER_CLOCK_SKEW_MS)"

lemma verified_envelope:
  assumes "verifyRunnerEnvelope env domain v key = Inr payload"
  obtains e where "validateSignedEnvelope v = Inr e" "payload = base64url_decode (se_payload e)"
    "rn_verify env key (envelopeSigningBytes domain payload) (base64url_decode (se_signature e)) = Some True"
  using assms
  by (auto simp: verifyRunnerEnvelope_def accepts option_Inr Let_def runnerPublicKey_def)

lemma canonical_bytes_Inr:
  "canonical_bytes v = Inr bytes \<longleftrightarrow> (\<exists>t. canonicalRunnerJson v = Some t \<and> bytes = utf8_encode t)"
  by (auto simp: canonical_bytes_def option_Inr)

lemma verified_task:
  assumes "verifyRunnerTask env v key = Inr task"
  shows "signed_over env RUNNER_TASK_DOMAIN key v (task_value task) \<and>
    (\<exists>parsed. validateRunnerTask env parsed = Inr task)"
proof -
  obtain payload parsed where p: "verifyRunnerEnvelope env RUNNER_TASK_DOMAIN v key = Inr payload"
    "validateRunnerTask env parsed = Inr task" "canonical_bytes (task_value task) = Inr payload"
    using assms by (auto simp: verifyRunnerTask_def accepts)
  then show ?thesis
    by (elim verified_envelope) (auto simp: signed_over_def canonical_bytes_Inr)
qed

lemma verified_receipt:
  assumes "verifyRunnerReceipt env v key = Inr receipt"
  shows "signed_over env RUNNER_RECEIPT_DOMAIN key v (receipt_value receipt) \<and>
    (\<exists>parsed. validateRunnerReceipt env parsed = Inr receipt)"
proof -
  obtain payload parsed where p: "verifyRunnerEnvelope env RUNNER_RECEIPT_DOMAIN v key = Inr payload"
    "validateRunnerReceipt env parsed = Inr receipt" "canonical_bytes (receipt_value receipt) = Inr payload"
    using assms by (auto simp: verifyRunnerReceipt_def accepts)
  then show ?thesis
    by (elim verified_envelope) (auto simp: signed_over_def canonical_bytes_Inr)
qed

lemma receipt_times:
  assumes "validateRunnerReceipt env v = Inr r"
  shows "millis env (rr_started r) \<le> millis env (rr_completed r)"
  using assms
  by (auto simp: validateRunnerReceipt_def Let_def accepts timestamp_Inr dest!: validTimestamp_millis)

lemma checked_times:
  "check_event_times env lo hi expiry observed cs \<Longrightarrow> lo \<le> hi \<Longrightarrow> ascending lo (event_times env cs) hi"
  by (induction cs arbitrary: lo) (auto simp: event_times_def Let_def)

lemma bound_from_bind:
  assumes "bindRunnerExecutionBundle env task events receipt observedAt = Inr b"
    and "millis env (rr_started receipt) \<le> millis env (rr_completed receipt)"
  shows "bound_bundle env (millis env observedAt) b \<and> eb_task b = task \<and> eb_receipt b = receipt"
proof -
  obtain observed chain final where o: "validTimestamp (rn_date env) (rn_iso env) observedAt = Some observed"
    "receipt_matches receipt task"
    "verifyRunnerEventChain env (Some (task_identity task)) events = Inr (chain, final)"
    "rr_event_count receipt = int (length chain)" "rr_final_digest receipt = final"
    "millis env (rt_issued task) - MAX_RUNNER_CLOCK_SKEW_MS \<le> millis env (rr_started receipt)"
    "millis env (rr_completed receipt) < min (millis env (rt_expires task)) (millis env (rt_lease_expires task))"
    "millis env (rr_completed receipt) \<le> observed + MAX_RUNNER_CLOCK_SKEW_MS"
    "check_event_times env (millis env (rr_started receipt)) (millis env (rr_completed receipt))
       (min (millis env (rt_expires task)) (millis env (rt_lease_expires task))) observed chain"
    "b = \<lparr>eb_task = task, eb_events = chain, eb_receipt = receipt\<rparr>"
    using assms(1)
    by (auto simp: bindRunnerExecutionBundle_def accepts timestamp_Inr Let_def not_less not_le)
  show ?thesis
    using o assms(2) chain_linked [OF o(3)] checked_times [OF o(9) assms(2)] validTimestamp_millis [OF o(1)]
    by (simp add: bound_bundle_def Let_def list_all_iff)
qed

section \<open>Sorting the keys does not matter to a reader\<close>

lemma sorted_record:
  assumes "distinct (map fst kvs)" "map fst kvs = ks"
  shows "dataRecord ks code (key_sorted (JObj kvs)) = Inr (key_sorted (JObj kvs))"
proof -
  have m: "mset (js_keys (key_sorted (JObj kvs))) = mset (map fst kvs)"
    by (simp add: multiset.map_comp comp_def)
  have "distinct (js_keys (key_sorted (JObj kvs)))" "length (js_keys (key_sorted (JObj kvs))) = length ks"
    "set (js_keys (key_sorted (JObj kvs))) = set ks"
    using mset_eq_imp_distinct_iff [OF m] mset_eq_length [OF m] mset_eq_setD [OF m] assms by simp_all
  then show ?thesis by (simp add: dataRecord_def list_all_iff del: js_keys.simps)
qed

lemma sorted_opaque:
  assumes "opaqueData code v = Inr d"
  shows "opaqueData code' (key_sorted (opaque_value d)) = Inr d"
proof -
  have "js_get (key_sorted (opaque_value d)) k = js_get (opaque_value d) k" if "k \<in> {''mediaType'', ''encoding'', ''data''}" for k
    unfolding opaque_value_def by (subst js_get_key_sorted) (use that in auto)
  moreover have "dataRecord [''mediaType'', ''encoding'', ''data''] code' (key_sorted (opaque_value d)) =
      Inr (key_sorted (opaque_value d))"
    unfolding opaque_value_def by (rule sorted_record) simp_all
  moreover have "dataRecord [''mediaType'', ''encoding'', ''data''] code' (opaque_value d) = Inr (opaque_value d)"
    by (simp add: opaque_value_def dataRecord_def)
  ultimately show ?thesis
    using opaque_accepts [OF assms, of code'] by (simp add: opaqueData_def)
qed

lemma sorted_employee:
  assumes "read_employee code v = Inr e"
  shows "read_employee code' (key_sorted (employee_value e)) = Inr e"
proof -
  have "js_get (key_sorted (employee_value e)) ''id'' = JStr (em_id e)"
    "js_get (key_sorted (employee_value e)) ''version'' = JStr (em_version e)"
    "js_get (key_sorted (employee_value e)) ''packageDigest'' = JStr (em_package e)"
    unfolding employee_value_def by (subst js_get_key_sorted; simp)+
  moreover have "dataRecord [''id'', ''version'', ''packageDigest''] code' (key_sorted (employee_value e)) =
      Inr (key_sorted (employee_value e))"
    unfolding employee_value_def by (rule sorted_record) simp_all
  ultimately show ?thesis
    using assms by (auto simp: read_employee_def accepts field_defs stringField_Inr)
qed

lemma js_get_task:
  "js_get (task_value t) ''protocolVersion'' = JStr RUNNER_PROTOCOL_VERSION"
  "js_get (task_value t) ''kind'' = JStr ''runner.task''"
  "js_get (task_value t) ''taskId'' = JStr (rt_task t)"
  "js_get (task_value t) ''runId'' = JStr (rt_run t)"
  "js_get (task_value t) ''attempt'' = JNum (of_int (rt_attempt t))"
  "js_get (task_value t) ''fencingToken'' = JNum (of_int (rt_token t))"
  "js_get (task_value t) ''leaseId'' = JStr (rt_lease t)"
  "js_get (task_value t) ''quoteId'' = JStr (rt_quote t)"
  "js_get (task_value t) ''reservationId'' = JStr (rt_reservation t)"
  "js_get (task_value t) ''sellerId'' = JStr (rt_seller t)"
  "js_get (task_value t) ''runnerId'' = JStr (rt_runner t)"
  "js_get (task_value t) ''employee'' = employee_value (rt_employee t)"
  "js_get (task_value t) ''engine'' = JStr (rt_engine t)"
  "js_get (task_value t) ''input'' = opaque_value (rt_input t)"
  "js_get (task_value t) ''issuedAt'' = JStr (rt_issued t)"
  "js_get (task_value t) ''expiresAt'' = JStr (rt_expires t)"
  "js_get (task_value t) ''leaseExpiresAt'' = JStr (rt_lease_expires t)"
  "js_get (task_value t) ''nonce'' = JStr (rt_nonce t)"
  by (simp_all add: task_value_def)

lemma key_sorted_leaf [simp]: "key_sorted (JStr s) = JStr s" "key_sorted (JNum q) = JNum q"
  by simp_all

lemma sorted_task:
  assumes "validateRunnerTask env v = Inr task"
  shows "validateRunnerTask env (key_sorted (task_value task)) = Inr task"
proof -
  have keys: "map fst (case task_value task of JObj kvs \<Rightarrow> kvs | _ \<Rightarrow> []) = TASK_KEYS" "distinct TASK_KEYS"
    by (simp_all add: task_value_def TASK_KEYS_def)
  have get: "js_get (key_sorted (task_value task)) k = key_sorted (js_get (task_value task) k)" for k
    using keys unfolding task_value_def by (intro js_get_key_sorted) simp
  have rec: "dataRecord TASK_KEYS Task_invalid (key_sorted (task_value task)) = Inr (key_sorted (task_value task))"
    using keys unfolding task_value_def by (intro sorted_record) simp_all
  have nonce: "decodeBase64Url c n (JStr (base64url_encode bs)) = Inr bs"
    if "decodeBase64Url c n w = Inr bs" for c n w bs
    using that decodeBase64Url_Inr by metis
  show ?thesis
    using assms
    by (auto simp: validateRunnerTask_def Let_def accepts get js_get_task rec timestamp_Inr field_defs
        stringField_Inr safeInteger_Inr sorted_opaque sorted_employee nonce dataRecord_Inr
        simp del: js_get.simps key_sorted.simps dest: js_safe_int_again)
qed

lemma validated_envelope:
  assumes "signRunnerEnvelope env domain keyId key payload = Inr e"
    and "\<And>m s. rn_sign env key m = Some s \<Longrightarrow> length s = 64 \<and> bytes_ok s" "bytes_ok payload"
  obtains s where "validateSignedEnvelope (envelope_value e) = Inr e"
    "rn_sign env key (envelopeSigningBytes domain payload) = Some s"
    "base64url_decode (se_payload e) = payload" "base64url_decode (se_signature e) = s"
proof -
  obtain s where s: "idField Envelope_invalid (JStr keyId) = Inr keyId" "length payload \<noteq> 0"
    "length payload \<le> MAX_ENVELOPE_PAYLOAD_BYTES"
    "rn_sign env key (envelopeSigningBytes domain payload) = Some s"
    "e = \<lparr>se_key = keyId, se_payload = base64url_encode payload, se_signature = base64url_encode s\<rparr>"
    using assms(1)
    by (auto simp: signRunnerEnvelope_def accepts option_Inr runnerPrivateKey_def field_defs stringField_Inr)
  have sg: "length s = 64" "bytes_ok s" using assms(2) [OF s(4)] by simp_all
  have "validateSignedEnvelope (envelope_value e) = Inr e"
    using s sg decode_accepts [OF assms(3) s(3)] decode_accepts [OF sg(2), of 64]
    by (simp add: validateSignedEnvelope_def envelope_value_def dataRecord_def ensure_def)
  then show thesis
    using that s sg decode_encode assms(3) by simp
qed

end
