(* ===== verification/RunnerFits.thy ===== *)
theory RunnerFits
  imports RunnerBundle
begin

text \<open>
  The size of canonical text: every string the protocol's patterns accept is written without escapes,
  one byte a character, so a validated task has a canonical text within the payload bound.
\<close>

section \<open>A validated task always fits an envelope\<close>

definition plain_char :: "char \<Rightarrow> bool" where
  "plain_char c \<longleftrightarrow> alnum c \<or> c \<in> set ''._:/-!#$&^+''"

lemma plain_alnum: "alnum c \<Longrightarrow> plain_char c"
  unfolding plain_char_def by (rule disjI1)

lemma plain_sets: "c \<in> set ''._:/-'' \<Longrightarrow> plain_char c" "c \<in> set ''!#$&^_.+-'' \<Longrightarrow> plain_char c"
proof -
  have sub: "set ''._:/-'' \<subseteq> set ''._:/-!#$&^+''" "set ''!#$&^_.+-'' \<subseteq> set ''._:/-!#$&^+''" by simp_all
  show "c \<in> set ''._:/-'' \<Longrightarrow> plain_char c" "c \<in> set ''!#$&^_.+-'' \<Longrightarrow> plain_char c"
    using sub unfolding plain_char_def by blast+
qed

lemma plain_char_code: "plain_char c \<Longrightarrow> (of_char c :: nat) < 128 \<and> 32 \<le> (of_char c :: nat) \<and> of_char c \<noteq> (34 :: nat) \<and> of_char c \<noteq> (92 :: nat)"
proof -
  assume "plain_char c"
  then consider "alnum c" | "c \<in> set ''._:/-!#$&^+''" unfolding plain_char_def by blast
  then show ?thesis
  proof cases
    case 1
    then show ?thesis by (auto simp: alnum_def is_lower_def is_upper_def is_digit_def)
  next
    case 2
    then show ?thesis by auto
  qed
qed

lemma plain_char_quote:
  assumes "plain_char c"
  shows "utf8_len (json_escape c) = 1"
proof -
  have n: "(of_char c :: nat) < 128" "\<not> (of_char c :: nat) < 32" "of_char c \<noteq> (34 :: nat)" "of_char c \<noteq> (92 :: nat)"
    using plain_char_code [OF assms] by simp_all
  have "c \<noteq> CHR 0x22" "c \<noteq> CHR 0x5C" using n(3,4) by auto
  moreover have "c \<noteq> CHR 0x08" "c \<noteq> CHR 0x09" "c \<noteq> CHR 0x0A" "c \<noteq> CHR 0x0C" "c \<noteq> CHR 0x0D"
    using n(2) by auto
  ultimately have "json_escape c = [c]" using n(2) by (simp add: json_escape_def Let_def)
  then show ?thesis using n(1) by (simp add: utf8_len_Cons)
qed

lemma utf8_len_quote_plain: "list_all plain_char s \<Longrightarrow> utf8_len (json_quote s) = length s + 2"
proof -
  assume "list_all plain_char s"
  then have "utf8_len (concat (map json_escape s)) = length s"
    by (induction s) (simp_all add: plain_char_quote)
  then show ?thesis by (simp add: json_quote_def utf8_len_Cons)
qed

lemma split_on_chars: "c \<in> set s \<Longrightarrow> c = d \<or> (\<exists>p \<in> set (split_on d s). c \<in> set p)"
  by (induction s) (auto split: list.splits)

lemma cut_at_chars:
  assumes "cut_at d s = (a, b)" "c \<in> set s"
  shows "c \<in> set a \<or> c = d \<or> (\<exists>t. b = Some t \<and> c \<in> set t)"
proof -
  have "c \<in> set (takeWhile (\<lambda>c. c \<noteq> d) s @ dropWhile (\<lambda>c. c \<noteq> d) s)" using assms(2) by simp
  moreover have "x = d" if "dropWhile (\<lambda>c. c \<noteq> d) s = x # t" for x t
    using hd_dropWhile [of "\<lambda>c. c \<noteq> d" s] that by simp
  ultimately show ?thesis
    using assms(1) by (cases "dropWhile (\<lambda>c. c \<noteq> d) s") (auto simp: cut_at_def)
qed

lemma plain_id:
  assumes "ID_PATTERN s"
  shows "list_all plain_char s"
proof (cases s)
  case (Cons c cs)
  then have "alnum c" "list_all (\<lambda>d. alnum d \<or> d \<in> set ''._:/-'') cs" using assms by (simp_all add: ID_PATTERN_def)
  then show ?thesis using Cons plain_alnum plain_sets(1) by (simp only: list_all_iff list.set) blast
qed simp

lemma plain_digest:
  assumes "digest_pattern s"
  shows "list_all plain_char s"
proof -
  have t: "take (length ''sha256:'') s = ''sha256:''" "list_all is_hex (drop 7 s)"
    using assms unfolding digest_pattern_def starts_with_def by blast+
  have "length ''sha256:'' = 7" by simp
  then have s: "s = ''sha256:'' @ drop 7 s"
    using append_take_drop_id [of 7 s] t(1) by metis
  have "list_all plain_char ''sha256:''"
    by (simp add: plain_char_def alnum_def is_lower_def is_digit_def)
  moreover have "is_hex c \<Longrightarrow> plain_char c" for c
    by (rule plain_alnum) (auto simp: is_hex_def alnum_def is_lower_def)
  ultimately have "list_all plain_char (''sha256:'' @ drop 7 s)"
    using t(2) by (metis list_all_append list.pred_mono_strong)
  then show ?thesis using s by metis
qed

lemma plain_layout:
  "list_all2 (\<lambda>c m. if m = CHR ''d'' then is_digit c else c = m) s m \<Longrightarrow>
   list_all (\<lambda>c. c = CHR ''d'' \<or> plain_char c) m \<Longrightarrow> list_all plain_char s"
  by (induction rule: list_all2_induct) (auto simp: plain_char_def alnum_def split: if_splits)

lemma plain_stamp: "iso_millis_pattern s \<Longrightarrow> list_all plain_char s"
  unfolding iso_millis_pattern_def
  by (erule conjE, erule plain_layout) (simp add: plain_char_def alnum_def is_upper_def)

lemma plain_base64url:
  assumes "BASE64URL_TEXT s"
  shows "list_all plain_char s"
proof -
  have "plain_char c" if "base64url_value c \<noteq> None" for c
  proof (cases "alnum c")
    case False
    then have "c = CHR ''-'' \<or> c = CHR ''_''"
      using that by (simp add: base64url_value_def alnum_def split: if_splits)
    then show ?thesis using plain_sets(1) [of c] by auto
  qed (rule plain_alnum)
  then show ?thesis using assms unfolding BASE64URL_TEXT_def list_all_iff by blast
qed

lemma plain_media_name:
  assumes "media_name n" "c \<in> set n"
  shows "plain_char c"
proof (cases n)
  case (Cons d ds)
  then have "alnum d" "list_all (\<lambda>d. alnum d \<or> d \<in> set ''!#$&^_.+-'') ds"
    using assms(1) by (simp_all add: media_name_def)
  then show ?thesis
    using Cons assms(2) plain_alnum plain_sets(2) by (simp only: list_all_iff list.set) blast
qed (use assms in simp)

lemma plain_media:
  assumes "MEDIA_TYPE_PATTERN s"
  shows "list_all plain_char s"
proof -
  obtain a b where ab: "split_on (CHR ''/'') s = [a, b]" "media_name a" "media_name b"
    using assms by (auto simp: MEDIA_TYPE_PATTERN_def split: list.splits)
  have "plain_char (CHR ''/'')" by (rule plain_sets(1)) simp
  moreover have "c = CHR ''/'' \<or> c \<in> set a \<or> c \<in> set b" if "c \<in> set s" for c
    using split_on_chars [OF that, of "CHR ''/''"] ab(1) by simp
  ultimately show ?thesis using plain_media_name ab(2,3) unfolding list_all_iff by blast
qed

lemma plain_semver: "SEMVER_PATTERN s \<Longrightarrow> list_all plain_char s"
proof -
  assume v: "SEMVER_PATTERN s"
  obtain head build where h: "cut_at (CHR ''+'') s = (head, build)" by (metis prod.collapse)
  obtain core pre where c: "cut_at (CHR ''-'') head = (core, pre)" by (metis prod.collapse)
  have ok: "list_all semver_number (split_on (CHR ''.'') core)"
    "case pre of None \<Rightarrow> True | Some p \<Rightarrow> list_all prerelease_part (split_on (CHR ''.'') p)"
    "case build of None \<Rightarrow> True
      | Some b \<Rightarrow> list_all (\<lambda>x. x \<noteq> [] \<and> list_all semver_char x) (split_on (CHR ''.'') b)"
    using v by (simp_all add: SEMVER_PATTERN_def h c Let_def)
  have seps: "plain_char (CHR ''+'')" "plain_char (CHR ''-'')" "plain_char (CHR ''.'')"
    using plain_sets(2) by simp_all
  have num: "plain_char d" if "semver_number x" "d \<in> set x" for x d
    by (rule plain_alnum) (use that in \<open>auto simp: semver_number_def alnum_def list_all_iff\<close>)
  have part: "plain_char d" if "list_all semver_char x" "d \<in> set x" for x d
    using that plain_alnum seps(2) unfolding semver_char_def list_all_iff by blast
  have dots: "list_all plain_char t" if "\<forall>x \<in> set (split_on (CHR ''.'') t). \<forall>d \<in> set x. plain_char d" for t
    using that split_on_chars [of _ t "CHR ''.''"] seps(3) by (metis list_all_iff)
  have "list_all plain_char core" by (rule dots) (use ok(1) num in \<open>auto simp: list_all_iff\<close>)
  moreover have "list_all plain_char p" if "pre = Some p" for p
    by (rule dots) (use ok(2) that num part in \<open>auto simp: list_all_iff prerelease_part_def\<close>)
  moreover have "list_all plain_char b" if "build = Some b" for b
    by (rule dots) (use ok(3) that part in \<open>auto simp: list_all_iff\<close>)
  ultimately show ?thesis
    using cut_at_chars [OF h] cut_at_chars [OF c] seps by (metis list_all_iff)
qed

lemmas plain_patterns = plain_id plain_digest plain_stamp plain_base64url plain_media plain_semver

lemma quoted_length: "list_all plain_char s \<Longrightarrow> length s \<le> n \<Longrightarrow> utf8_len (json_quote s) \<le> n + 2"
  by (simp add: utf8_len_quote_plain)

lemma read_opaque_weight:
  assumes "opaqueData code v = Inr d"
  shows "text_weight (opaque_value d) \<le> 175200"
proof -
  obtain w bytes where m: "length (od_media d) \<le> 255" "MEDIA_TYPE_PATTERN (od_media d)"
    and w: "decodeBase64Url code MAX_OPAQUE_DATA_BYTES w = Inr bytes" and "od_data d = base64url_encode bytes"
    using assms by (auto simp: opaqueData_def accepts stringField_Inr)
  then have b: "bytes_ok bytes" "length bytes \<le> MAX_OPAQUE_DATA_BYTES" "od_data d = base64url_encode bytes"
    using decodeBase64Url_Inr decode_bytes_ok by metis+
  have "length (od_data d) \<le> 174763"
    using order_trans [OF length_encode [of bytes] limit_mono [OF b(2)]] b(3)
    by (simp add: MAX_OPAQUE_DATA_BYTES_def base64url_length_limit_def)
  then have "utf8_len (json_quote (od_data d)) \<le> 174765"
    using quoted_length [OF plain_base64url [OF base64url_text_encode [OF b(1)]], of 174763] b(3) by simp
  moreover have "utf8_len (json_quote (od_media d)) \<le> 257"
    using quoted_length [OF plain_media [OF m(2)] m(1)] by simp
  moreover have "utf8_len (json_quote ''mediaType'') = 11" "utf8_len (json_quote ''encoding'') = 10"
    "utf8_len (json_quote ''base64url'') = 11" "utf8_len (json_quote ''data'') = 6"
    by (simp_all add: utf8_len_quote_plain plain_char_def alnum_def is_lower_def is_upper_def is_digit_def)
  ultimately show ?thesis by (simp add: opaque_value_def)
qed

lemma read_employee_weight:
  assumes "read_employee code v = Inr e"
  shows "text_weight (employee_value e) \<le> 600"
proof -
  have r: "ID_PATTERN (em_id e)" "length (em_id e) \<le> 200" "SEMVER_PATTERN (em_version e)" "length (em_version e) \<le> 128"
    "digest_pattern (em_package e)" "length (em_package e) \<le> 71"
    using assms by (auto simp: read_employee_def accepts field_defs stringField_Inr MAX_ID_LENGTH_def)
  have "utf8_len (json_quote (em_id e)) \<le> 202" "utf8_len (json_quote (em_version e)) \<le> 130"
    "utf8_len (json_quote (em_package e)) \<le> 73"
    using quoted_length [OF plain_id [OF r(1)] r(2)] quoted_length [OF plain_semver [OF r(3)] r(4)]
      quoted_length [OF plain_digest [OF r(5)] r(6)] by simp_all
  moreover have "utf8_len (json_quote ''id'') = 4" "utf8_len (json_quote ''version'') = 9"
    "utf8_len (json_quote ''packageDigest'') = 15"
    by (simp_all add: utf8_len_quote_plain plain_char_def alnum_def is_lower_def is_upper_def is_digit_def)
  ultimately show ?thesis by (simp add: employee_value_def)
qed

text \<open>What the reader of a task has read, field by field.\<close>

lemma task_read:
  assumes "validateRunnerTask env v = Inr task"
  shows "list_all2 (\<lambda>k s. idField Task_invalid (js_get v k) = Inr s)
      [''taskId'', ''runId'', ''leaseId'', ''quoteId'', ''reservationId'', ''sellerId'', ''runnerId'', ''engine'']
      [rt_task task, rt_run task, rt_lease task, rt_quote task, rt_reservation task, rt_seller task, rt_runner task,
       rt_engine task]"
    and "js_safe_int (js_get v ''attempt'') = Some (rt_attempt task)"
    and "js_safe_int (js_get v ''fencingToken'') = Some (rt_token task)"
    and "list_all2 (\<lambda>k s. \<exists>t. timestamp env Task_invalid (js_get v k) = Inr (s, t))
      [''issuedAt'', ''expiresAt'', ''leaseExpiresAt''] [rt_issued task, rt_expires task, rt_lease_expires task]"
    and "\<exists>b. decodeBase64Url Task_invalid 64 (js_get v ''nonce'') = Inr b \<and> rt_nonce task = base64url_encode b"
    and "read_employee Task_invalid (js_get v ''employee'') = Inr (rt_employee task)"
    and "opaqueData Task_invalid (js_get v ''input'') = Inr (rt_input task)"
  using assms by (auto simp: validateRunnerTask_def Let_def accepts dataRecord_Inr safeInteger_Inr)

lemma task_encodable:
  assumes "validateRunnerTask env v = Inr task"
  shows "encodable (task_value task)"
proof -
  have "js_safe_int (JNum (of_int (rt_attempt task))) \<noteq> None" "js_safe_int (JNum (of_int (rt_token task))) \<noteq> None"
    using js_safe_int_again [OF task_read(2) [OF assms]] js_safe_int_again [OF task_read(3) [OF assms]] by simp_all
  then show ?thesis by (simp add: task_value_def employee_value_def opaque_value_def)
qed

lemma idField_Inr: "idField code v = Inr s \<longleftrightarrow> v = JStr s \<and> ID_PATTERN s \<and> 1 \<le> length s \<and> length s \<le> 200"
  by (auto simp: idField_def stringField_Inr MAX_ID_LENGTH_def)

lemma validTimestamp_pattern: "validTimestamp parse_date iso_of s = Some t \<Longrightarrow> iso_millis_pattern s"
  by (simp add: validTimestamp_def split: if_splits)

lemma quoted_stamp: "timestamp env code v = Inr (s, t) \<Longrightarrow> utf8_len (json_quote s) = 26"
  using utf8_len_quote_plain [OF plain_stamp, of s]
  by (auto simp: timestamp_Inr iso_millis_pattern_def dest!: validTimestamp_pattern)

lemma quoted_id: "idField code v = Inr s \<Longrightarrow> utf8_len (json_quote s) \<le> 202"
  using quoted_length [OF plain_id, of s 200] by (simp add: idField_Inr)

lemma quoted_nonce:
  assumes "decodeBase64Url code 64 v = Inr b"
  shows "utf8_len (json_quote (base64url_encode b)) \<le> 88"
proof -
  have ok: "bytes_ok b" "length b \<le> 64" using assms by (metis decodeBase64Url_Inr decode_bytes_ok)+
  have "length (base64url_encode b) \<le> 86"
    using order_trans [OF length_encode [of b] limit_mono [OF ok(2)]] by (simp add: base64url_length_limit_def)
  then show ?thesis
    using quoted_length [OF plain_base64url [OF base64url_text_encode [OF ok(1)]], of 86] by simp
qed

lemma task_weight:
  assumes "validateRunnerTask env v = Inr task"
  shows "text_weight (task_value task) \<le> MAX_ENVELOPE_PAYLOAD_BYTES"
proof -
  have ids: "list_all (\<lambda>s. utf8_len (json_quote s) \<le> 202) [rt_task task, rt_run task, rt_lease task, rt_quote task,
      rt_reservation task, rt_seller task, rt_runner task, rt_engine task]"
    using task_read(1) [OF assms] by (auto dest!: quoted_id)
  have stamps: "list_all (\<lambda>s. utf8_len (json_quote s) = 26) [rt_issued task, rt_expires task, rt_lease_expires task]"
    using task_read(4) [OF assms] by (auto dest!: quoted_stamp)
  have nonce: "utf8_len (json_quote (rt_nonce task)) \<le> 88"
    using task_read(5) [OF assms] by (auto dest!: quoted_nonce)
  have keys: "sum_list (map (\<lambda>k. utf8_len (json_quote k)) TASK_KEYS) \<le> 250"
    by (simp add: TASK_KEYS_def utf8_len_quote_plain plain_char_def alnum_def is_lower_def is_upper_def is_digit_def)
  have fixed: "utf8_len (json_quote RUNNER_PROTOCOL_VERSION) \<le> 40" "utf8_len (json_quote ''runner.task'') \<le> 40"
    by (simp_all add: RUNNER_PROTOCOL_VERSION_def utf8_len_quote_plain plain_char_def alnum_def is_lower_def is_digit_def)
  show ?thesis
    using ids stamps nonce keys fixed read_employee_weight [OF task_read(6) [OF assms]]
      read_opaque_weight [OF task_read(7) [OF assms]]
    by (simp add: task_value_def TASK_KEYS_def MAX_ENVELOPE_PAYLOAD_BYTES_def)
qed

lemma text_ne: "text_of (JObj kvs) = Some t \<Longrightarrow> t \<noteq> []"
  by (auto split: option.splits)

lemma fits:
  assumes "encodable v" "text_weight v \<le> MAX_ENVELOPE_PAYLOAD_BYTES" "v = JObj kvs"
  obtains t where "canonicalRunnerJson v = Some t" "utf8_encode t \<noteq> []"
    "length (utf8_encode t) \<le> MAX_ENVELOPE_PAYLOAD_BYTES"
proof -
  obtain t where t: "text_of v = Some t" using text_exists [OF assms(1)] by blast
  have "utf8_len t \<le> MAX_ENVELOPE_PAYLOAD_BYTES" using text_weight_bounds [OF t] assms(2) by simp
  moreover have "utf8_len t \<noteq> 0" using length_le_utf8_len [of t] text_ne [of kvs t] t assms(3) by (cases t) simp_all
  ultimately show thesis
    using that [of t] t length_utf8_encode [of t] by (cases "utf8_encode t") (auto simp: canonicalRunnerJson_def)
qed

lemma task_fits:
  assumes "validateRunnerTask env v = Inr task"
  obtains t where "canonicalRunnerJson (task_value task) = Some t" "utf8_encode t \<noteq> []"
    "length (utf8_encode t) \<le> MAX_ENVELOPE_PAYLOAD_BYTES"
  using fits [OF task_encodable [OF assms] task_weight [OF assms] task_value_def] by blast

end
