(* ===== verification/RunnerSample.thy ===== *)
theory RunnerSample
  imports RunnerFits
begin

text \<open>
  One concrete execution of the runner protocol, at which the hypotheses of its properties hold:
  a task, one event, a receipt and their envelopes, with constant functions for the digest and
  the signature and the two canonical texts for \<open>JSON.parse\<close>.
\<close>

section \<open>A concrete execution\<close>

definition early :: string where
  "early = ''2026-01-01T00:00:00.000Z''"

definition late :: string where
  "late = ''2026-01-01T01:00:00.000Z''"

definition sample_digest :: string where
  "sample_digest = ''sha256:'' @ replicate 64 (CHR ''a'')"

definition sample_employee :: runner_employee where
  "sample_employee = \<lparr>em_id = ''e'', em_version = ''1.0.0'', em_package = sample_digest\<rparr>"

definition sample_data :: opaque_data where
  "sample_data = \<lparr>od_media = ''a/b'', od_data = ''AQID''\<rparr>"

definition sample_task :: runner_task where
  "sample_task = \<lparr>rt_task = ''t'', rt_run = ''r'', rt_attempt = 1, rt_token = 1, rt_lease = ''l'', rt_quote = ''q'',
     rt_reservation = ''v'', rt_seller = ''s'', rt_runner = ''n'', rt_employee = sample_employee, rt_engine = ''g'',
     rt_input = sample_data, rt_issued = early, rt_expires = late, rt_lease_expires = late,
     rt_nonce = ''AAAAAAAAAAAAAAAAAAAAAA''\<rparr>"

definition sample_event :: runner_event where
  "sample_event = \<lparr>ev_task = ''t'', ev_run = ''r'', ev_attempt = 1, ev_token = 1, ev_lease = ''l'', ev_quote = ''q'',
     ev_runner = ''n'', ev_employee = ''e'', ev_package = sample_digest, ev_sequence = 1, ev_timestamp = early,
     ev_type = ''x'', ev_data = sample_data, ev_previous = RUNNER_EVENT_GENESIS_DIGEST\<rparr>"

definition sample_receipt :: runner_receipt where
  "sample_receipt = \<lparr>rr_task = ''t'', rr_run = ''r'', rr_attempt = 1, rr_token = 1, rr_lease = ''l'', rr_quote = ''q'',
     rr_reservation = ''v'', rr_seller = ''s'', rr_runner = ''n'', rr_employee = sample_employee, rr_engine = ''g'',
     rr_started = early, rr_completed = early, rr_event_count = 1, rr_final_digest = sample_digest,
     rr_usage = \<lparr>us_input = 1, us_output = 1, us_duration = 1, us_actions = []\<rparr>,
     rr_outcome = Outcome_failed ''x'', rr_evidence = None\<rparr>"

definition sample_parse :: "string \<Rightarrow> jsval option" where
  "sample_parse t = (if Some t = canonicalRunnerJson (task_value sample_task)
     then Some (key_sorted (task_value sample_task)) else Some (receipt_value sample_receipt))"

definition execution_env :: runner_env where
  "execution_env = \<lparr>rn_date = (\<lambda>s. if s = early then Some 0 else if s = late then Some 3600000 else None),
     rn_iso = (\<lambda>t. if t = 0 then early else late), rn_sha = (\<lambda>_. replicate 64 (CHR ''a'')), rn_json = sample_parse,
     rn_fraction = (\<lambda>_. []), rn_private = (\<lambda>_. True), rn_public = (\<lambda>_. True),
     rn_sign = (\<lambda>_ _. Some (replicate 64 7)), rn_verify = (\<lambda>_ _ _. Some True)\<rparr>"

lemma sample_digest_pattern: "digest_pattern sample_digest" "length sample_digest = 71"
  by (simp_all add: sample_digest_def digest_pattern_def starts_with_def is_hex_def list_all_iff)

lemma sample_stamps: "validTimestamp (rn_date execution_env) (rn_iso execution_env) early = Some 0"
  "validTimestamp (rn_date execution_env) (rn_iso execution_env) late = Some 3600000"
  "millis execution_env early = 0" "millis execution_env late = 3600000"
  by (simp_all add: execution_env_def validTimestamp_def iso_millis_pattern_def is_digit_def early_def late_def millis_def)

lemma sample_ids: "list_all ID_PATTERN [''t'', ''r'', ''l'', ''q'', ''v'', ''s'', ''n'', ''g'', ''e'', ''k'']"
  by (simp add: ID_PATTERN_def alnum_def is_lower_def)

lemma sample_codes: "MACHINE_CODE_PATTERN ''x''" "SEMVER_PATTERN ''1.0.0''" "MEDIA_TYPE_PATTERN ''a/b''"
  by (simp_all add: MACHINE_CODE_PATTERN_def SEMVER_PATTERN_def semver_number_def cut_at_def media_name_def
      MEDIA_TYPE_PATTERN_def alnum_def is_lower_def is_digit_def)

definition zeros :: "nat list" where
  "zeros = [0, 0, 0, 0, 0, 0, 0, 0, 0, 0, 0, 0, 0, 0, 0, 0]"

lemma sample_text: "base64url_encode zeros = ''AAAAAAAAAAAAAAAAAAAAAA''" "base64url_encode [1, 2, 3] = ''AQID''"
  by (simp_all add: zeros_def base64url_char_def) code_simp+

lemma sample_bytes: "decodeBase64Url code 64 (JStr ''AAAAAAAAAAAAAAAAAAAAAA'') = Inr zeros"
  "decodeBase64Url code MAX_OPAQUE_DATA_BYTES (JStr ''AQID'') = Inr [1, 2, 3]"
  using decode_accepts [of zeros 64] decode_accepts [of "[1, 2, 3]" MAX_OPAQUE_DATA_BYTES]
  unfolding sample_text by (simp_all add: bytes_ok_def zeros_def MAX_OPAQUE_DATA_BYTES_def)

lemma task_record: "dataRecord TASK_KEYS code (task_value t) = Inr (task_value t)"
  by (simp add: dataRecord_def task_value_def TASK_KEYS_def)

lemma sample_parts: "read_employee code (employee_value sample_employee) = Inr sample_employee"
  "opaqueData code (opaque_value sample_data) = Inr sample_data"
  using sample_digest_pattern sample_ids sample_codes sample_bytes sample_text
  by (simp_all add: read_employee_def employee_value_def sample_employee_def dataRecord_def field_defs stringField_def
      MAX_ID_LENGTH_def opaqueData_def opaque_value_def sample_data_def)

lemma sample_task_valid: "validateRunnerTask execution_env (task_value sample_task) = Inr sample_task"
  using sample_ids sample_stamps sample_bytes sample_text sample_parts
  by (simp add: zeros_def validateRunnerTask_def task_record js_get_task sample_task_def timestamp_def field_defs stringField_def
      safeInteger_def MAX_ID_LENGTH_def js_safe_int_def MAX_RUNNER_ATTEMPTS_def max_safe_integer_def
      MIN_RUNNER_LEASE_MILLISECONDS_def del: js_get.simps)

text \<open>An event with its digest reads as the event and the digest.\<close>

lemma chained_record: "dataRecord (EVENT_KEYS @ [''digest'']) code (chained_value c) = Inr (chained_value c)"
  by (simp add: dataRecord_def chained_value_def event_members_def EVENT_KEYS_def)

lemma js_get_chained: "js_get (chained_value c) ''digest'' = JStr (ce_digest c)"
  "without_digest (chained_value c) = event_value (ce_event c)"
  by (simp_all add: chained_value_def event_members_def without_digest_def EVENT_KEYS_def event_value_def)

lemma event_record: "dataRecord EVENT_KEYS code (event_value e) = Inr (event_value e)"
  by (simp add: dataRecord_def event_value_def event_members_def EVENT_KEYS_def)

lemma genesis_pattern: "digest_pattern RUNNER_EVENT_GENESIS_DIGEST" "length RUNNER_EVENT_GENESIS_DIGEST = 71"
  by (simp_all add: RUNNER_EVENT_GENESIS_DIGEST_def digest_pattern_def starts_with_def is_hex_def is_digit_def list_all_iff)

lemma sample_event_valid: "runnerEventWithoutDigest execution_env (event_value sample_event) = Inr sample_event"
  using sample_ids sample_codes sample_stamps sample_parts(2) sample_digest_pattern genesis_pattern
  by (simp add: runnerEventWithoutDigest_def event_record js_get_event sample_event_def timestamp_def field_defs
      stringField_def safeInteger_def MAX_ID_LENGTH_def js_safe_int_def MAX_RUNNER_ATTEMPTS_def max_safe_integer_def
      MAX_EVENTS_def del: js_get.simps)

lemma event_text: "\<exists>t. canonicalRunnerJson (event_value sample_event) = Some t"
  unfolding canonicalRunnerJson_def
  by (rule text_exists) (simp add: event_value_def event_members_def sample_event_def opaque_value_def js_safe_int_def
      max_safe_integer_def)

lemma sample_hash: "digest_event execution_env sample_event = Inr sample_digest"
  using event_text by (auto simp: digest_event_def canonical_bytes_def execution_env_def sample_digest_def)

definition sample_chained :: chained_event where
  "sample_chained = \<lparr>ce_event = sample_event, ce_digest = sample_digest\<rparr>"

lemma sample_chained_valid: "validateRunnerEvent execution_env (chained_value sample_chained) = Inr sample_chained"
  using sample_event_valid sample_hash sample_digest_pattern
  by (simp add: validateRunnerEvent_def chained_record js_get_chained sample_chained_def digestField_def stringField_def
      hashRunnerEvent_def del: js_get.simps)

definition sample_events :: jsval where
  "sample_events = JArr [chained_value sample_chained]"

lemma sample_chain:
  "verifyRunnerEventChain execution_env (Some (task_identity sample_task)) sample_events = Inr ([sample_chained], sample_digest)"
  using sample_chained_valid
  by (simp add: verifyRunnerEventChain_def sample_events_def dataArray_def MAX_EVENTS_def)
    (simp add: sample_chained_def sample_event_def event_identity_def task_identity_def sample_task_def sample_employee_def)

lemma js_get_receipt:
  "js_get (receipt_value r) ''protocolVersion'' = JStr RUNNER_PROTOCOL_VERSION"
  "js_get (receipt_value r) ''kind'' = JStr ''runner.receipt''"
  "js_get (receipt_value r) ''taskId'' = JStr (rr_task r)"
  "js_get (receipt_value r) ''runId'' = JStr (rr_run r)"
  "js_get (receipt_value r) ''attempt'' = JNum (of_int (rr_attempt r))"
  "js_get (receipt_value r) ''fencingToken'' = JNum (of_int (rr_token r))"
  "js_get (receipt_value r) ''leaseId'' = JStr (rr_lease r)"
  "js_get (receipt_value r) ''quoteId'' = JStr (rr_quote r)"
  "js_get (receipt_value r) ''reservationId'' = JStr (rr_reservation r)"
  "js_get (receipt_value r) ''sellerId'' = JStr (rr_seller r)"
  "js_get (receipt_value r) ''runnerId'' = JStr (rr_runner r)"
  "js_get (receipt_value r) ''employee'' = employee_value (rr_employee r)"
  "js_get (receipt_value r) ''engine'' = JStr (rr_engine r)"
  "js_get (receipt_value r) ''startedAt'' = JStr (rr_started r)"
  "js_get (receipt_value r) ''completedAt'' = JStr (rr_completed r)"
  "js_get (receipt_value r) ''eventCount'' = JNum (of_int (rr_event_count r))"
  "js_get (receipt_value r) ''finalEventDigest'' = JStr (rr_final_digest r)"
  "js_get (receipt_value r) ''usage'' = usage_value (rr_usage r)"
  "js_get (receipt_value r) ''outcome'' = outcome_value (rr_outcome r)"
  "js_get (receipt_value r) ''providerEvidence'' = (case rr_evidence r of None \<Rightarrow> JUndef | Some d \<Rightarrow> opaque_value d)"
  by (simp_all add: receipt_value_def split: option.split)

lemma receipt_record:
  "optionalDataRecord RECEIPT_KEYS [''providerEvidence''] code (receipt_value r) = Inr (receipt_value r)"
  by (simp add: optionalDataRecord_def receipt_value_def RECEIPT_KEYS_def js_has_def split: option.split)

lemma sample_outcome: "usageSummary code (usage_value (rr_usage sample_receipt)) = Inr (rr_usage sample_receipt)"
  "runnerOutcome code (outcome_value (rr_outcome sample_receipt)) = Inr (rr_outcome sample_receipt)"
  using sample_codes
  by (simp_all add: usageSummary_def usage_value_def sample_receipt_def dataRecord_def dataArray_def MAX_ACTIONS_def
      safeInteger_def js_safe_int_def max_safe_integer_def runnerOutcome_def field_defs stringField_def js_has_def)

lemma sample_receipt_valid: "validateRunnerReceipt execution_env (receipt_value sample_receipt) = Inr sample_receipt"
  using sample_ids sample_codes sample_stamps sample_parts(1) sample_digest_pattern sample_outcome
  by (simp add: validateRunnerReceipt_def receipt_record js_get_receipt timestamp_def field_defs
      stringField_def safeInteger_def MAX_ID_LENGTH_def js_safe_int_def MAX_RUNNER_ATTEMPTS_def max_safe_integer_def
      MAX_EVENTS_def read_optional_opaque_def del: js_get.simps)
    (simp add: sample_receipt_def RUNNER_EVENT_GENESIS_DIGEST_def sample_digest_def)


section \<open>The sample envelopes\<close>

definition sealed :: "jsval \<Rightarrow> jsval" where
  "sealed v = (case canonicalRunnerJson v of
      None \<Rightarrow> JNull
    | Some t \<Rightarrow> envelope_value \<lparr>se_key = ''k'', se_payload = base64url_encode (utf8_encode t),
        se_signature = base64url_encode (replicate 64 7)\<rparr>)"

definition sealed_envelope :: "string \<Rightarrow> signed_envelope" where
  "sealed_envelope t = \<lparr>se_key = ''k'', se_payload = base64url_encode (utf8_encode t),
     se_signature = base64url_encode (replicate 64 7)\<rparr>"

lemma sealed_valid:
  assumes "canonicalRunnerJson v = Some t" "utf8_encode t \<noteq> []" "length (utf8_encode t) \<le> MAX_ENVELOPE_PAYLOAD_BYTES"
  shows "validateSignedEnvelope (sealed v) = Inr (sealed_envelope t) \<and> envelope_value (sealed_envelope t) = sealed v"
proof -
  have e: "signRunnerEnvelope execution_env RUNNER_TASK_DOMAIN ''k'' [] (utf8_encode t) = Inr (sealed_envelope t)"
    using assms sample_ids
    by (simp add: signRunnerEnvelope_def field_defs stringField_def MAX_ID_LENGTH_def runnerPrivateKey_def
        execution_env_def sealed_envelope_def)
  have sound: "length s = 64 \<and> bytes_ok s" if "rn_sign execution_env key m = Some s" for key m s
    using that by (auto simp: execution_env_def bytes_ok_def list_all_iff)
  have "sealed v = envelope_value (sealed_envelope t)" using assms(1) by (simp add: sealed_def sealed_envelope_def)
  then show ?thesis using validated_envelope [OF e _ utf8_bytes_ok] sound by auto
qed

lemma sample_envelope:
  assumes "canonicalRunnerJson v = Some t" "utf8_encode t \<noteq> []" "length (utf8_encode t) \<le> MAX_ENVELOPE_PAYLOAD_BYTES"
    and "domain = RUNNER_TASK_DOMAIN \<or> domain = RUNNER_RECEIPT_DOMAIN"
  shows "verifyRunnerEnvelope execution_env domain (sealed v) key = Inr (utf8_encode t)"
  using sealed_valid [OF assms(1-3)] assms(4) decode_encode [OF utf8_bytes_ok, of t]
  by (simp add: verifyRunnerEnvelope_def runnerPublicKey_def Let_def)
    (simp add: execution_env_def sealed_envelope_def)

lemma receipt_encodable: "encodable (receipt_value sample_receipt)"
  by (simp add: receipt_value_def sample_receipt_def sample_employee_def employee_value_def usage_value_def
      js_safe_int_def max_safe_integer_def)

lemma receipt_weight: "text_weight (receipt_value sample_receipt) \<le> MAX_ENVELOPE_PAYLOAD_BYTES"
proof -
  have d: "utf8_len (json_quote sample_digest) = 73"
    using utf8_len_quote_plain [OF plain_digest] sample_digest_pattern by simp
  have s: "utf8_len (json_quote early) = 26"
    using utf8_len_quote_plain [OF plain_stamp] validTimestamp_pattern [OF sample_stamps(1)]
    by (simp add: iso_millis_pattern_def)
  show ?thesis
    by (simp add: receipt_value_def sample_receipt_def sample_employee_def employee_value_def usage_value_def d s
        RUNNER_PROTOCOL_VERSION_def MAX_ENVELOPE_PAYLOAD_BYTES_def utf8_len_quote_plain plain_char_def alnum_def
        is_lower_def is_upper_def is_digit_def)
qed

lemma receipt_fits:
  obtains t where "canonicalRunnerJson (receipt_value sample_receipt) = Some t" "utf8_encode t \<noteq> []"
    "length (utf8_encode t) \<le> MAX_ENVELOPE_PAYLOAD_BYTES"
  using fits [OF receipt_encodable receipt_weight] by (auto simp: receipt_value_def)

lemma texts_differ:
  assumes "canonicalRunnerJson (task_value t) = Some s" "canonicalRunnerJson (receipt_value r) = Some s"
  shows False
proof -
  have e: "key_sorted (task_value t) = key_sorted (receipt_value r)" using assms by (rule canonical_text_injective)
  have "js_get (key_sorted (task_value t)) ''kind'' = JStr ''runner.task''"
    unfolding task_value_def by (subst js_get_key_sorted) simp_all
  moreover have "js_get (key_sorted (receipt_value r)) ''kind'' = JStr ''runner.receipt''"
    unfolding receipt_value_def by (subst js_get_key_sorted) (simp_all split: option.split)
  ultimately show False using e by simp
qed

lemma execution_parsed:
  "canonicalRunnerJson (task_value sample_task) = Some t \<Longrightarrow> rn_json execution_env t = Some (key_sorted (task_value sample_task))"
  "canonicalRunnerJson (receipt_value sample_receipt) = Some t \<Longrightarrow> rn_json execution_env t = Some (receipt_value sample_receipt)"
  using texts_differ [of sample_task t sample_receipt] by (auto simp: execution_env_def sample_parse_def)

lemma sample_task_verified: "verifyRunnerTask execution_env (sealed (task_value sample_task)) key = Inr sample_task"
proof -
  obtain t where t: "canonicalRunnerJson (task_value sample_task) = Some t" "utf8_encode t \<noteq> []"
    "length (utf8_encode t) \<le> MAX_ENVELOPE_PAYLOAD_BYTES"
    using sample_task_valid by (rule task_fits)
  show ?thesis
    using sample_envelope [OF t, of RUNNER_TASK_DOMAIN key] execution_parsed(1) [OF t(1)] sorted_task [OF sample_task_valid] t(1)
    by (simp add: verifyRunnerTask_def parsePayload_def canonical_bytes_def)
qed

lemma sample_receipt_verified:
  "verifyRunnerReceipt execution_env (sealed (receipt_value sample_receipt)) key = Inr sample_receipt"
proof -
  obtain t where t: "canonicalRunnerJson (receipt_value sample_receipt) = Some t" "utf8_encode t \<noteq> []"
    "length (utf8_encode t) \<le> MAX_ENVELOPE_PAYLOAD_BYTES"
    by (rule receipt_fits)
  show ?thesis
    using sample_envelope [OF t, of RUNNER_RECEIPT_DOMAIN key] execution_parsed(2) [OF t(1)] sample_receipt_valid t(1)
    by (simp add: verifyRunnerReceipt_def parsePayload_def canonical_bytes_def)
qed

definition sample_bundle :: execution_bundle where
  "sample_bundle = \<lparr>eb_task = sample_task, eb_events = [sample_chained], eb_receipt = sample_receipt\<rparr>"

lemma sample_bound: "bindRunnerExecutionBundle execution_env sample_task sample_events sample_receipt early = Inr sample_bundle"
proof -
  have "receipt_matches sample_receipt sample_task"
    by (simp add: receipt_matches_def sample_receipt_def sample_task_def)
  moreover have "rr_event_count sample_receipt = 1" "rr_final_digest sample_receipt = sample_digest"
    "rr_started sample_receipt = early" "rr_completed sample_receipt = early" "rt_issued sample_task = early"
    "rt_expires sample_task = late" "rt_lease_expires sample_task = late"
    "ev_timestamp (ce_event sample_chained) = early"
    by (simp_all add: sample_receipt_def sample_task_def sample_chained_def sample_event_def)
  ultimately show ?thesis
    using sample_chain sample_stamps
    by (simp add: bindRunnerExecutionBundle_def timestamp_def MAX_RUNNER_CLOCK_SKEW_MS_def sample_bundle_def)
qed

lemma bundle_accepted:
  "verifyRunnerExecutionBundle execution_env (sealed (task_value sample_task)) ''p'' sample_events
     (sealed (receipt_value sample_receipt)) ''r'' early = Inr sample_bundle"
  using sample_task_verified sample_receipt_verified sample_bound by (simp add: verifyRunnerExecutionBundle_def)

end
