(* ===== verification/RunnerSealing.thy ===== *)
theory RunnerSealing
  imports RunnerSample
begin

text \<open>
  The properties of the runner protocol: a validated task always fits the envelope it is signed in
  and reads back from it, an accepted bundle is bound end to end, and a receipt pins the events.
\<close>

section \<open>The properties\<close>

text \<open>C13: A validated task always fits an envelope and comes back from it: for every value the task reader
  accepts, signing succeeds (the canonical text is never empty and never longer than the payload bound),
  and verifying the envelope under the matching key returns exactly the validated task, when the
  signature scheme is correct and \<open>JSON.parse\<close> reads back the canonical text of the task.\<close>

theorem signed_task_verifies:
  assumes "validateRunnerTask env v = Inr task" "ID_PATTERN keyId" "rn_private env key" "rn_public env pub"
    and "\<And>m. \<exists>s. rn_sign env key m = Some s \<and> length s = 64 \<and> bytes_ok s \<and> rn_verify env pub m s = Some True"
    and "\<And>t. canonicalRunnerJson (task_value task) = Some t \<Longrightarrow> rn_json env t = Some (key_sorted (task_value task))"
  shows "case signRunnerTask env v keyId key of
      Inl _ \<Rightarrow> False
    | Inr e \<Rightarrow> verifyRunnerTask env (envelope_value e) pub = Inr task"
proof -
  obtain t where t: "canonicalRunnerJson (task_value task) = Some t" "utf8_encode t \<noteq> []"
    "length (utf8_encode t) \<le> MAX_ENVELOPE_PAYLOAD_BYTES"
    using assms(1) by (rule task_fits)
  have keyId: "idField Envelope_invalid (JStr keyId) = Inr keyId"
    using assms(2) by (auto simp: idField_Inr ID_PATTERN_def split: list.splits)
  obtain s where s: "rn_sign env key (envelopeSigningBytes RUNNER_TASK_DOMAIN (utf8_encode t)) = Some s"
    "rn_verify env pub (envelopeSigningBytes RUNNER_TASK_DOMAIN (utf8_encode t)) s = Some True"
    using assms(5) by blast
  obtain e where e: "signRunnerEnvelope env RUNNER_TASK_DOMAIN keyId key (utf8_encode t) = Inr e"
    using keyId t(2,3) s(1) assms(3) by (simp add: signRunnerEnvelope_def runnerPrivateKey_def)
  have sound: "length s = 64 \<and> bytes_ok s" if "rn_sign env key m = Some s" for m s
    using assms(5) [of m] that by auto
  obtain s' where v: "validateSignedEnvelope (envelope_value e) = Inr e"
    "rn_sign env key (envelopeSigningBytes RUNNER_TASK_DOMAIN (utf8_encode t)) = Some s'"
    "base64url_decode (se_payload e) = utf8_encode t" "base64url_decode (se_signature e) = s'"
    by (rule validated_envelope [OF e _ utf8_bytes_ok]) (use sound in blast)+
  have "verifyRunnerEnvelope env RUNNER_TASK_DOMAIN (envelope_value e) pub = Inr (utf8_encode t)"
    using v s assms(4) by (simp add: verifyRunnerEnvelope_def runnerPublicKey_def Let_def)
  then have "verifyRunnerTask env (envelope_value e) pub = Inr task"
    using assms(6) [OF t(1)] sorted_task [OF assms(1)] t(1)
    by (simp add: verifyRunnerTask_def parsePayload_def canonical_bytes_def)
  then show ?thesis using e assms(1) t(1) by (simp add: signRunnerTask_def canonical_bytes_def)
qed

lemma signed_task_verifies_witness:
  "case signRunnerTask execution_env (task_value sample_task) ''k'' ''p'' of
      Inl _ \<Rightarrow> False
    | Inr e \<Rightarrow> verifyRunnerTask execution_env (envelope_value e) ''p'' = Inr sample_task"
proof (rule signed_task_verifies [OF sample_task_valid])
  show "ID_PATTERN ''k''" using sample_ids by simp
  show "\<exists>s. rn_sign execution_env ''p'' m = Some s \<and> length s = 64 \<and> bytes_ok s \<and> rn_verify execution_env ''p'' m s = Some True" for m
    by (simp add: execution_env_def bytes_ok_def list_all_iff)
qed (simp_all add: execution_parsed(1), simp_all add: execution_env_def)

text \<open>C9: An accepted execution bundle is bound end to end: the task and receipt envelopes are signed over the
  canonical text of the task and the receipt in it, the receipt and every event name the task's identity,
  the events are numbered from 1 and linked by their digests from the genesis digest to the receipt's final
  digest, their times ascend within the receipt's window, and the receipt completed before the task or its
  lease expired and not in the observer's future.\<close>

theorem bundle_binds_everything:
  assumes "verifyRunnerExecutionBundle env taskEnvelope platformKey events receiptEnvelope runnerKey observedAt = Inr b"
  shows "signed_over env RUNNER_TASK_DOMAIN platformKey taskEnvelope (task_value (eb_task b)) \<and>
    signed_over env RUNNER_RECEIPT_DOMAIN runnerKey receiptEnvelope (receipt_value (eb_receipt b)) \<and>
    bound_bundle env (millis env observedAt) b"
proof -
  obtain task receipt where p: "verifyRunnerTask env taskEnvelope platformKey = Inr task"
    "verifyRunnerReceipt env receiptEnvelope runnerKey = Inr receipt"
    "bindRunnerExecutionBundle env task events receipt observedAt = Inr b"
    using assms by (auto simp: verifyRunnerExecutionBundle_def accepts)
  obtain parsed where "validateRunnerReceipt env parsed = Inr receipt" using verified_receipt [OF p(2)] by blast
  then show ?thesis
    using bound_from_bind [OF p(3) receipt_times] verified_task [OF p(1)] verified_receipt [OF p(2)] by simp
qed

lemma bundle_binds_everything_witness:
  "signed_over execution_env RUNNER_TASK_DOMAIN ''p'' (sealed (task_value sample_task)) (task_value (eb_task sample_bundle)) \<and>
    signed_over execution_env RUNNER_RECEIPT_DOMAIN ''r'' (sealed (receipt_value sample_receipt))
      (receipt_value (eb_receipt sample_bundle)) \<and>
    bound_bundle execution_env (millis execution_env early) sample_bundle"
  by (rule bundle_binds_everything [OF bundle_accepted])

text \<open>A receipt pins the execution: two bundles accepted with the same receipt envelope and runner key hold
  the same events, in the same order with the same contents, unless the digest function collides on them.\<close>

theorem receipt_pins_events:
  assumes "verifyRunnerExecutionBundle env te pk events re rk observed = Inr b"
    and "verifyRunnerExecutionBundle env te' pk' events' re rk observed' = Inr b'"
    and "collision_free env (eb_events b @ eb_events b')"
  shows "eb_events b = eb_events b'"
proof -
  obtain task receipt where p: "verifyRunnerReceipt env re rk = Inr receipt"
    "bindRunnerExecutionBundle env task events receipt observed = Inr b"
    using assms(1) by (auto simp: verifyRunnerExecutionBundle_def accepts)
  obtain task' where p': "bindRunnerExecutionBundle env task' events' receipt observed' = Inr b'"
    using assms(2) p(1) by (auto simp: verifyRunnerExecutionBundle_def accepts)
  have "verifyRunnerEventChain env (Some (task_identity task)) events = Inr (eb_events b, rr_final_digest receipt)"
    using p(2) by (auto simp: bindRunnerExecutionBundle_def accepts Let_def)
  moreover have "verifyRunnerEventChain env (Some (task_identity task')) events' = Inr (eb_events b', rr_final_digest receipt)"
    using p' by (auto simp: bindRunnerExecutionBundle_def accepts Let_def)
  ultimately show ?thesis using assms(3) by (rule chain_pinned)
qed

lemma receipt_pins_events_witness:
  "collision_free execution_env (eb_events sample_bundle @ eb_events sample_bundle) \<and> length (eb_events sample_bundle) = 1 \<and>
   eb_events sample_bundle = eb_events sample_bundle"
proof -
  have "collision_free execution_env (eb_events sample_bundle @ eb_events sample_bundle)"
    by (simp add: collision_free_def sample_bundle_def execution_env_def RUNNER_EVENT_GENESIS_DIGEST_def)
  moreover from this have "eb_events sample_bundle = eb_events sample_bundle"
    by (rule receipt_pins_events [OF bundle_accepted bundle_accepted])
  ultimately show ?thesis by (simp add: sample_bundle_def)
qed

end
