(* ===== verification/RunnerLease.thy ===== *)
theory RunnerLease
  imports RunnerSample
begin

text \<open>
  packages/core/src/runner-lease.ts: the lease a runner holds on a task. The state is the object's
  private fields; the abort signal is the reason it was aborted for, the timer the delay it was armed
  with. Every reading of the clock is an argument, None when the clock throws or yields no valid date;
  the captured clock refuses readings that step back. \<open>acceptRenewal\<close> is split at its await, so
  that other operations interleave with the lookup of the key.

  The lease refines an abstract grant: an identity held until a time that only moves forward, and that
  ends once.
\<close>

section \<open>State and operations\<close>

definition MAX_TIMER_DELAY_MS :: int where
  "MAX_TIMER_DELAY_MS = 2147483647"

definition RUNNER_LEASE_SAFETY_MARGIN_MS :: int where
  "RUNNER_LEASE_SAFETY_MARGIN_MS = 5000"

datatype lease_error =
    Lease_clock_invalid
  | Lease_key_unavailable
  | Lease_identity_mismatch
  | Lease_not_yet_valid
  | Lease_expired
  | Lease_not_extended
  | Lease_protocol protocol_error

datatype abort_reason = State_closed | Signed_lease_expired

record runner_lease =
  rl_task :: runner_task
  rl_envelope :: signed_envelope
  rl_previous :: "int option"
  rl_timer :: "int option"
  rl_closed :: bool
  rl_abort :: "abort_reason option"

text \<open>An error of the protocol layer passes through unchanged.\<close>

definition passed :: "protocol_error + 'a \<Rightarrow> lease_error + 'a" where
  "passed r = (case r of Inl e \<Rightarrow> Inl (Lease_protocol e) | Inr x \<Rightarrow> Inr x)"

text \<open>The members of a task other than \<open>leaseExpiresAt\<close>.\<close>

definition taskWithoutLeaseExpiry :: "runner_task \<Rightarrow> jsval" where
  "taskWithoutLeaseExpiry t = (case task_value t of
      JObj kvs \<Rightarrow> JObj (filter (\<lambda>p. fst p \<noteq> ''leaseExpiresAt'') kvs) | v \<Rightarrow> v)"

definition capturedClock :: "int option \<Rightarrow> runner_lease \<Rightarrow> (lease_error + int) \<times> runner_lease" where
  "capturedClock c s = (case c of
      None \<Rightarrow> (Inl Lease_clock_invalid, s)
    | Some m \<Rightarrow>
        (if (case rl_previous s of None \<Rightarrow> False | Some p \<Rightarrow> m < p) then (Inl Lease_clock_invalid, s)
         else (Inr m, s\<lparr>rl_previous := Some m\<rparr>)))"

definition verifiedTask ::
  "runner_env \<Rightarrow> jsval \<Rightarrow> (string \<Rightarrow> string option) \<Rightarrow> lease_error + (signed_envelope \<times> runner_task)" where
  "verifiedTask env v resolvePlatformPublicKey =
     and_then (passed (validateSignedEnvelope v)) (\<lambda>e.
     case resolvePlatformPublicKey (se_key e) of
       None \<Rightarrow> Inl Lease_key_unavailable
     | Some key \<Rightarrow> and_then (passed (verifyRunnerTask env (envelope_value e) key)) (\<lambda>task. Inr (e, task)))"

definition lease_expiry :: "runner_env \<Rightarrow> runner_lease \<Rightarrow> int" where
  "lease_expiry env s = millis env (rt_lease_expires (rl_task s))"

definition expire :: "runner_lease \<Rightarrow> runner_lease" where
  "expire s = s\<lparr>rl_abort := (case rl_abort s of None \<Rightarrow> Some Signed_lease_expired | r \<Rightarrow> r), rl_timer := None\<rparr>"

definition scheduleExpiry ::
  "runner_env \<Rightarrow> int option \<Rightarrow> runner_lease \<Rightarrow> (lease_error + unit) \<times> runner_lease" where
  "scheduleExpiry env c s =
     (if rl_closed s \<or> rl_abort s \<noteq> None then (Inr (), s)
      else (case capturedClock c (s\<lparr>rl_timer := None\<rparr>) of
          (Inl e, s1) \<Rightarrow> (Inl e, s1)
        | (Inr m, s1) \<Rightarrow>
            (let remaining = lease_expiry env s - RUNNER_LEASE_SAFETY_MARGIN_MS - m in
             if remaining \<le> 0 then (Inr (), expire s1)
             else (Inr (), s1\<lparr>rl_timer := Some (min remaining MAX_TIMER_DELAY_MS)\<rparr>))))"

text \<open>The callback of the timer, when it is still armed.\<close>

definition timer_fires :: "runner_env \<Rightarrow> int option \<Rightarrow> int option \<Rightarrow> runner_lease \<Rightarrow> runner_lease" where
  "timer_fires env c1 c2 s = (case rl_timer s of
      None \<Rightarrow> s
    | Some _ \<Rightarrow> (case capturedClock c1 (s\<lparr>rl_timer := None\<rparr>) of
          (Inl _, s1) \<Rightarrow> expire s1
        | (Inr m, s1) \<Rightarrow>
            (if m \<ge> lease_expiry env s1 - RUNNER_LEASE_SAFETY_MARGIN_MS then expire s1
             else (case scheduleExpiry env c2 s1 of (Inl _, s2) \<Rightarrow> expire s2 | (Inr _, s2) \<Rightarrow> s2))))"

text \<open>\<open>create\<close>, up to the validation of its options object.\<close>

definition create_lease ::
  "runner_env \<Rightarrow> jsval \<Rightarrow> (string \<Rightarrow> string option) \<Rightarrow> int option \<Rightarrow> int option \<Rightarrow> lease_error + runner_lease" where
  "create_lease env initialEnvelope resolve c1 c2 =
     and_then (verifiedTask env initialEnvelope resolve) (\<lambda>(e, task).
     let s = \<lparr>rl_task = task, rl_envelope = e, rl_previous = None, rl_timer = None, rl_closed = False,
              rl_abort = None\<rparr>
     in (case capturedClock c1 s of
          (Inl x, _) \<Rightarrow> Inl x
        | (Inr current, s1) \<Rightarrow>
            ensure (\<not> millis env (rt_issued task) > current + MAX_RUNNER_CLOCK_SKEW_MS) Lease_not_yet_valid
           (ensure (\<not> (current \<ge> millis env (rt_lease_expires task) - RUNNER_LEASE_SAFETY_MARGIN_MS \<or>
                       current \<ge> millis env (rt_expires task))) Lease_expired
             (case scheduleExpiry env c2 s1 of (Inl x, _) \<Rightarrow> Inl x | (Inr _, s2) \<Rightarrow> Inr s2))))"

definition matchesTask :: "runner_env \<Rightarrow> runner_lease \<Rightarrow> runner_task \<Rightarrow> bool" where
  "matchesTask env s task = (case validateRunnerTask env (task_value task) of
      Inl _ \<Rightarrow> False
    | Inr normalized \<Rightarrow>
        (case (canonicalRunnerJson (taskWithoutLeaseExpiry normalized),
               canonicalRunnerJson (taskWithoutLeaseExpiry (rl_task s))) of
           (Some a, Some b) \<Rightarrow> a = b
         | _ \<Rightarrow> False))"

definition assertActive ::
  "runner_env \<Rightarrow> int option \<Rightarrow> runner_lease \<Rightarrow> (lease_error + unit) \<times> runner_lease" where
  "assertActive env c s =
     (if rl_closed s \<or> rl_abort s \<noteq> None then (Inl Lease_expired, s)
      else (case capturedClock c s of
          (Inl e, s1) \<Rightarrow> (Inl e, s1)
        | (Inr current, s1) \<Rightarrow>
            (if current \<ge> lease_expiry env s1 - RUNNER_LEASE_SAFETY_MARGIN_MS \<or>
                current \<ge> millis env (rt_expires (rl_task s1))
             then (Inl Lease_expired, expire s1) else (Inr (), s1))))"

text \<open>\<open>acceptRenewal\<close> up to the lookup of the key: the envelope whose key is awaited.\<close>

definition begin_renewal ::
  "runner_env \<Rightarrow> jsval \<Rightarrow> int option \<Rightarrow> runner_lease \<Rightarrow> (lease_error + signed_envelope) \<times> runner_lease" where
  "begin_renewal env v c s = (case assertActive env c s of
      (Inl e, s1) \<Rightarrow> (Inl e, s1)
    | (Inr _, s1) \<Rightarrow> (passed (validateSignedEnvelope v), s1))"

text \<open>\<open>acceptRenewal\<close> once the key is there, or its lookup has failed.\<close>

definition finish_renewal ::
  "runner_env \<Rightarrow> signed_envelope \<Rightarrow> string option \<Rightarrow> int option \<Rightarrow> int option \<Rightarrow> int option \<Rightarrow> runner_lease \<Rightarrow>
   (lease_error + runner_task) \<times> runner_lease" where
  "finish_renewal env e key c1 c2 c3 s = (case key of
      None \<Rightarrow> (Inl Lease_key_unavailable, s)
    | Some k \<Rightarrow> (case passed (verifyRunnerTask env (envelope_value e) k) of
          Inl x \<Rightarrow> (Inl x, s)
        | Inr task \<Rightarrow> (case assertActive env c1 s of
              (Inl x, s1) \<Rightarrow> (Inl x, s1)
            | (Inr _, s1) \<Rightarrow>
                (if \<not> matchesTask env s1 task then (Inl Lease_identity_mismatch, s1)
                 else
                   (let nextExpiry = millis env (rt_lease_expires task); currentExpiry = lease_expiry env s1 in
                    if nextExpiry = currentExpiry \<and> e = rl_envelope s1 then (Inr (rl_task s1), s1)
                    else if nextExpiry \<le> currentExpiry then (Inl Lease_not_extended, s1)
                    else (case capturedClock c2 s1 of
                        (Inl x, s2) \<Rightarrow> (Inl x, s2)
                      | (Inr m, s2) \<Rightarrow>
                          (if nextExpiry \<le> m + RUNNER_LEASE_SAFETY_MARGIN_MS then (Inl Lease_expired, s2)
                           else (case scheduleExpiry env c3 (s2\<lparr>rl_task := task, rl_envelope := e\<rparr>) of
                               (Inl x, s3) \<Rightarrow> (Inl x, s3)
                             | (Inr _, s3) \<Rightarrow> (Inr (rl_task s3), s3)))))))))"

definition close_lease :: "runner_lease \<Rightarrow> runner_lease" where
  "close_lease s = s\<lparr>rl_closed := True, rl_timer := None,
     rl_abort := (case rl_abort s of None \<Rightarrow> Some State_closed | r \<Rightarrow> r)\<rparr>"

text \<open>What may happen to a lease, in any order.\<close>

datatype lease_op =
    Assert_active "int option"
  | Begin_renewal jsval "int option"
  | Finish_renewal signed_envelope "string option" "int option" "int option" "int option"
  | Timer "int option" "int option"
  | Close

fun lease_step :: "runner_env \<Rightarrow> lease_op \<Rightarrow> runner_lease \<Rightarrow> runner_lease" where
  "lease_step env (Assert_active c) s = snd (assertActive env c s)"
| "lease_step env (Begin_renewal v c) s = snd (begin_renewal env v c s)"
| "lease_step env (Finish_renewal e key c1 c2 c3) s = snd (finish_renewal env e key c1 c2 c3 s)"
| "lease_step env (Timer c1 c2) s = timer_fires env c1 c2 s"
| "lease_step env Close s = close_lease s"

section \<open>The identity of a task\<close>

lemma task_accepts:
  assumes "validateRunnerTask env v = Inr task"
  shows "validateRunnerTask env (task_value task) = Inr task"
proof -
  have nonce: "decodeBase64Url c n (JStr (base64url_encode bs)) = Inr bs"
    if "decodeBase64Url c n w = Inr bs" for c n w bs
    using that decodeBase64Url_Inr by metis
  have employee: "read_employee c (employee_value e) = Inr e" if "read_employee c' w = Inr e" for c c' w e
    using that by (auto simp: read_employee_def accepts field_defs stringField_Inr employee_value_def dataRecord_def)
  show ?thesis
    using assms
    by (auto simp: validateRunnerTask_def Let_def accepts js_get_task task_record timestamp_Inr field_defs
        stringField_Inr safeInteger_Inr opaque_accepts employee nonce dataRecord_Inr
        simp del: js_get.simps dest: js_safe_int_again)
qed

text \<open>The identity: everything but the expiry of the lease.\<close>

definition identity_of :: "runner_task \<Rightarrow> runner_task" where
  "identity_of t = t\<lparr>rt_lease_expires := []\<rparr>"

lemma js_get_without: "k \<noteq> ''leaseExpiresAt'' \<Longrightarrow> js_get (taskWithoutLeaseExpiry t) k = js_get (task_value t) k"
  by (simp add: taskWithoutLeaseExpiry_def task_value_def)

lemma key_sorted_employee: "key_sorted (employee_value e) = key_sorted (employee_value e') \<Longrightarrow> e = e'"
proof -
  assume e: "key_sorted (employee_value e) = key_sorted (employee_value e')"
  have "js_get (key_sorted (employee_value x)) ''id'' = JStr (em_id x)"
    "js_get (key_sorted (employee_value x)) ''version'' = JStr (em_version x)"
    "js_get (key_sorted (employee_value x)) ''packageDigest'' = JStr (em_package x)" for x
    unfolding employee_value_def by (subst js_get_key_sorted; simp)+
  then have "em_id e = em_id e'" "em_version e = em_version e'" "em_package e = em_package e'"
    using e by (metis jsval.inject(3))+
  then show "e = e'" by simp
qed

lemma identity_determined:
  assumes "key_sorted (taskWithoutLeaseExpiry t) = key_sorted (taskWithoutLeaseExpiry t')"
  shows "identity_of t = identity_of t'"
proof -
  have g: "js_get (key_sorted (taskWithoutLeaseExpiry x)) k = key_sorted (js_get (taskWithoutLeaseExpiry x) k)" for x k
    unfolding taskWithoutLeaseExpiry_def task_value_def jsval.case by (rule js_get_key_sorted) simp
  have same: "key_sorted (js_get (task_value t) k) = key_sorted (js_get (task_value t') k)" if "k \<noteq> ''leaseExpiresAt''" for k
    using assms g js_get_without [OF that] by metis
  have "rt_task t = rt_task t'" "rt_run t = rt_run t'" "rt_attempt t = rt_attempt t'" "rt_token t = rt_token t'"
    "rt_lease t = rt_lease t'" "rt_quote t = rt_quote t'" "rt_reservation t = rt_reservation t'"
    "rt_seller t = rt_seller t'" "rt_runner t = rt_runner t'" "rt_engine t = rt_engine t'"
    "rt_issued t = rt_issued t'" "rt_expires t = rt_expires t'" "rt_nonce t = rt_nonce t'"
    using same [of "''taskId''"] same [of "''runId''"] same [of "''attempt''"] same [of "''fencingToken''"]
      same [of "''leaseId''"] same [of "''quoteId''"] same [of "''reservationId''"] same [of "''sellerId''"]
      same [of "''runnerId''"] same [of "''engine''"] same [of "''issuedAt''"] same [of "''expiresAt''"]
      same [of "''nonce''"]
    unfolding js_get_task by simp_all
  moreover have "rt_employee t = rt_employee t'" "rt_input t = rt_input t'"
    using same [of "''employee''"] same [of "''input''"] key_sorted_employee key_sorted_opaque
    unfolding js_get_task by simp_all
  ultimately show ?thesis by (simp add: identity_of_def)
qed

lemma matches_identity:
  assumes "matchesTask env s task" "validateRunnerTask env v = Inr task"
  shows "identity_of task = identity_of (rl_task s)"
proof -
  obtain a where "canonicalRunnerJson (taskWithoutLeaseExpiry task) = Some a"
    "canonicalRunnerJson (taskWithoutLeaseExpiry (rl_task s)) = Some a"
    using assms(1) task_accepts [OF assms(2)] by (auto simp: matchesTask_def split: option.splits)
  then show ?thesis using canonical_text_injective identity_determined by blast
qed

section \<open>The grant behind a lease\<close>

datatype grant = Granted runner_task int | Ended

inductive grant_step :: "runner_env \<Rightarrow> grant \<Rightarrow> grant \<Rightarrow> bool" for env where
  extend: "until < later \<Longrightarrow> later \<le> millis env (rt_expires i) \<Longrightarrow> grant_step env (Granted i until) (Granted i later)"
| finish: "grant_step env (Granted i until) Ended"

inductive_cases grant_stepE: "grant_step env g h"
inductive_simps grant_step_ended: "grant_step env Ended h"

definition lease_abs :: "runner_env \<Rightarrow> runner_lease \<Rightarrow> grant" where
  "lease_abs env s = (if rl_abort s = None then Granted (identity_of (rl_task s)) (lease_expiry env s) else Ended)"

text \<open>The envelope the lease holds is a verified envelope of its task; the signal and the timer agree.\<close>

definition held_task :: "runner_env \<Rightarrow> runner_lease \<Rightarrow> bool" where
  "held_task env s \<longleftrightarrow> (\<exists>key. verifyRunnerTask env (envelope_value (rl_envelope s)) key = Inr (rl_task s))"

definition lease_inv :: "runner_env \<Rightarrow> runner_lease \<Rightarrow> bool" where
  "lease_inv env s \<longleftrightarrow> held_task env s \<and> (rl_closed s \<longrightarrow> rl_abort s \<noteq> None) \<and>
     (rl_abort s \<noteq> None \<longrightarrow> rl_timer s = None) \<and>
     (case rl_timer s of None \<Rightarrow> True | Some d \<Rightarrow> 0 < d \<and> d \<le> MAX_TIMER_DELAY_MS)"

text \<open>A step of the abstract grant, or none.\<close>

definition grant_moves :: "runner_env \<Rightarrow> runner_lease \<Rightarrow> runner_lease \<Rightarrow> bool" where
  "grant_moves env s s' \<longleftrightarrow> lease_abs env s' = lease_abs env s \<or> grant_step env (lease_abs env s) (lease_abs env s')"

lemma clock_keeps:
  assumes "capturedClock c s = (r, s')"
  shows "rl_task s' = rl_task s \<and> rl_envelope s' = rl_envelope s \<and> rl_timer s' = rl_timer s \<and>
    rl_closed s' = rl_closed s \<and> rl_abort s' = rl_abort s"
  using assms by (auto simp: capturedClock_def split: option.splits if_splits)

lemma expire_ends: "grant_moves env s (expire s)"
  by (cases "rl_abort s") (simp_all add: grant_moves_def lease_abs_def expire_def grant_step.finish)

lemma expire_inv: "lease_inv env s \<Longrightarrow> lease_inv env (expire s)"
  by (auto simp: lease_inv_def held_task_def expire_def split: option.splits)

lemma moves_trans_same: "lease_abs env s' = lease_abs env s \<Longrightarrow> grant_moves env s' u \<Longrightarrow> grant_moves env s u"
  by (simp add: grant_moves_def)

lemma same_abs:
  "rl_task s' = rl_task s \<Longrightarrow> rl_abort s' = rl_abort s \<Longrightarrow> lease_abs env s' = lease_abs env s"
  by (simp add: lease_abs_def lease_expiry_def)

lemma clock_inv: "capturedClock c s = (r, s') \<Longrightarrow> lease_inv env s \<Longrightarrow> lease_inv env s' \<and> lease_abs env s' = lease_abs env s"
  using clock_keeps [of c s r s'] same_abs [of s' s env] by (simp add: lease_inv_def held_task_def)

lemma schedule_inv:
  assumes "scheduleExpiry env c s = (r, s')" "lease_inv env s"
  shows "lease_inv env s' \<and> grant_moves env s s'"
proof (cases "rl_closed s \<or> rl_abort s \<noteq> None")
  case True
  then show ?thesis using assms by (auto simp: scheduleExpiry_def grant_moves_def)
next
  case False
  obtain x s1 where c: "capturedClock c (s\<lparr>rl_timer := None\<rparr>) = (x, s1)" by fastforce
  have i: "lease_inv env (s\<lparr>rl_timer := None\<rparr>)" using assms(2) by (simp add: lease_inv_def held_task_def)
  have s1: "lease_inv env s1" "lease_abs env s1 = lease_abs env s"
    using clock_inv [OF c i] by (simp_all add: lease_abs_def lease_expiry_def)
  have armed: "lease_inv env (s1\<lparr>rl_timer := Some (min d MAX_TIMER_DELAY_MS)\<rparr>)" if "0 < d" for d
    using s1(1) False that clock_keeps [OF c] by (simp add: lease_inv_def held_task_def MAX_TIMER_DELAY_MS_def)
  show ?thesis
    using assms(1) False c s1 armed expire_inv [OF s1(1)] moves_trans_same [OF s1(2) expire_ends]
    by (auto simp: scheduleExpiry_def Let_def grant_moves_def lease_abs_def lease_expiry_def split: sum.splits if_splits)
qed

lemma assert_inv:
  assumes "assertActive env c s = (r, s')" "lease_inv env s"
  shows "lease_inv env s' \<and> grant_moves env s s'"
proof (cases "rl_closed s \<or> rl_abort s \<noteq> None")
  case True
  then show ?thesis using assms by (auto simp: assertActive_def grant_moves_def)
next
  case False
  obtain x s1 where c: "capturedClock c s = (x, s1)" by fastforce
  note s1 = clock_inv [OF c assms(2)]
  show ?thesis
    using assms(1) False c s1 expire_inv [of env s1] moves_trans_same [of env s1 s, OF _ expire_ends]
    by (auto simp: assertActive_def grant_moves_def split: sum.splits if_splits)
qed

lemma assert_live:
  assumes "assertActive env c s = (Inr u, s')"
  shows "rl_abort s = None \<and> rl_closed s = rl_closed s' \<and> rl_abort s' = None \<and> rl_task s' = rl_task s \<and>
    rl_envelope s' = rl_envelope s \<and> rl_timer s' = rl_timer s \<and>
    (\<exists>m. c = Some m \<and> rl_previous s' = Some m \<and> m < lease_expiry env s - RUNNER_LEASE_SAFETY_MARGIN_MS \<and>
         m < millis env (rt_expires (rl_task s)) \<and>
         (case rl_previous s of None \<Rightarrow> True | Some p \<Rightarrow> p \<le> m))"
  using assms
  by (auto simp: assertActive_def capturedClock_def lease_expiry_def not_less not_le split: sum.splits if_splits option.splits)

lemma held_validated: "held_task env s \<Longrightarrow> \<exists>v. validateRunnerTask env v = Inr (rl_task s)"
  using verified_task by (auto simp: held_task_def)

lemma validated_times:
  assumes "validateRunnerTask env v = Inr t"
  shows "millis env (rt_lease_expires t) \<le> millis env (rt_expires t) \<and>
    millis env (rt_issued t) + MIN_RUNNER_LEASE_MILLISECONDS \<le> millis env (rt_lease_expires t)"
  using assms
  by (auto simp: validateRunnerTask_def Let_def accepts timestamp_Inr dest!: validTimestamp_millis)

text \<open>What a renewal that is neither refused nor a replay has gone through.\<close>

lemma renewal_cases:
  assumes "finish_renewal env e key c1 c2 c3 s = (r, s')" "lease_inv env s"
  obtains (kept) "\<exists>x. lease_inv env s' \<and> grant_moves env s s' \<and> (rl_task s' = rl_task s) \<and> x = r \<and>
      (case r of Inl _ \<Rightarrow> True | Inr t \<Rightarrow> t = rl_task s \<and> rl_abort s' = None)"
  | (extended) k task m s1 s2 where "key = Some k" "verifyRunnerTask env (envelope_value e) k = Inr task"
      "assertActive env c1 s = (Inr (), s1)" "matchesTask env s1 task" "capturedClock c2 s1 = (Inr m, s2)"
      "lease_expiry env s1 < millis env (rt_lease_expires task)"
      "m + RUNNER_LEASE_SAFETY_MARGIN_MS < millis env (rt_lease_expires task)"
      "snd (scheduleExpiry env c3 (s2\<lparr>rl_task := task, rl_envelope := e\<rparr>)) = s'"
      "\<And>t. r = Inr t \<Longrightarrow> t = rl_task s'"
proof (cases key)
  case None
  then show ?thesis using assms kept by (auto simp: finish_renewal_def grant_moves_def)
next
  case k: (Some k)
  show ?thesis
  proof (cases "verifyRunnerTask env (envelope_value e) k")
    case (Inl x)
    then show ?thesis using assms kept k by (auto simp: finish_renewal_def grant_moves_def passed_def)
  next
    case v: (Inr task)
    obtain a s1 where a: "assertActive env c1 s = (a, s1)" by fastforce
    note i = assert_inv [OF a assms(2)]
    have same: "rl_task s1 = rl_task s"
      using a by (auto simp: assertActive_def capturedClock_def expire_def split: sum.splits if_splits option.splits)
    show ?thesis
    proof (cases a)
      case (Inl x)
      then show ?thesis using assms kept k v a i same by (auto simp: finish_renewal_def passed_def)
    next
      case (Inr u)
      note live = assert_live [OF a [unfolded Inr]]
      obtain b s2 where c: "capturedClock c2 s1 = (b, s2)" by fastforce
      have i2: "lease_inv env s2" "grant_moves env s s2" "rl_task s2 = rl_task s" "rl_abort s2 = None"
        using clock_inv [OF c] clock_keeps [OF c] i live same by (auto simp: grant_moves_def)
      show ?thesis
      proof (cases "matchesTask env s1 task \<and> lease_expiry env s1 < millis env (rt_lease_expires task) \<and>
          (\<exists>m. b = Inr m \<and> m + RUNNER_LEASE_SAFETY_MARGIN_MS < millis env (rt_lease_expires task))")
        case True
        then obtain m where m: "b = Inr m" "m + RUNNER_LEASE_SAFETY_MARGIN_MS < millis env (rt_lease_expires task)" by blast
        have "snd (scheduleExpiry env c3 (s2\<lparr>rl_task := task, rl_envelope := e\<rparr>)) = s' \<and> (\<forall>t. r = Inr t \<longrightarrow> t = rl_task s')"
          using assms(1) k v a Inr c True m
          by (auto simp: finish_renewal_def passed_def Let_def split: prod.splits sum.splits)
        then show ?thesis using extended [OF k v _ _ _ _ m(2)] a Inr True c m(1) by simp
      next
        case False
        then show ?thesis
          using assms(1) k v a Inr c kept i i2 same live
          by (auto simp: finish_renewal_def passed_def Let_def not_less not_le split: sum.splits if_splits)
      qed
    qed
  qed
qed

lemma finish_inv:
  assumes "finish_renewal env e key c1 c2 c3 s = (r, s')" "lease_inv env s"
  shows "lease_inv env s' \<and> grant_moves env s s'"
  using assms
proof (cases rule: renewal_cases)
  case (extended k task m s1 s2)
  let ?s = "s2\<lparr>rl_task := task, rl_envelope := e\<rparr>"
  note live = assert_live [OF extended(3)]
  have s1: "lease_inv env s1" using assert_inv [OF extended(3) assms(2)] by blast
  have s2: "lease_inv env s2" "rl_abort s2 = None" "rl_task s2 = rl_task s"
    using clock_inv [OF extended(5) s1] clock_keeps [OF extended(5)] live by auto
  have held: "lease_inv env ?s" using s2(1) extended(2) by (auto simp: lease_inv_def held_task_def)
  obtain v where v: "validateRunnerTask env v = Inr task" using verified_task [OF extended(2)] by blast
  have id: "identity_of task = identity_of (rl_task s)"
    using matches_identity [OF extended(4) v] live by simp
  then have hard: "rt_expires (identity_of (rl_task s)) = rt_expires task"
    by (metis identity_of_def runner_task.ext_inject runner_task.surjective runner_task.update_convs(15))
  have step: "grant_step env (lease_abs env s) (lease_abs env ?s)"
    using live s2 extended(6) validated_times [OF v] id hard
    by (auto simp: lease_abs_def lease_expiry_def intro!: grant_step.extend)
  obtain q where q: "scheduleExpiry env c3 ?s = (q, s')" using extended(8) by (metis prod.collapse)
  have "lease_inv env s'" "grant_moves env ?s s'" using schedule_inv [OF q held] by blast+
  moreover have "lease_abs env s' = Ended \<or> lease_abs env s' = lease_abs env ?s"
    using q by (auto simp: scheduleExpiry_def Let_def lease_abs_def lease_expiry_def expire_def capturedClock_def
        split: sum.splits if_splits option.splits)
  ultimately show ?thesis
    using step live grant_step.finish by (auto simp: grant_moves_def lease_abs_def)
qed blast

lemma timer_inv:
  assumes "lease_inv env s"
  shows "lease_inv env (timer_fires env c1 c2 s) \<and> grant_moves env s (timer_fires env c1 c2 s)"
proof (cases "rl_timer s")
  case None
  then show ?thesis using assms by (simp add: timer_fires_def grant_moves_def)
next
  case (Some d)
  obtain a s1 where a: "capturedClock c1 (s\<lparr>rl_timer := None\<rparr>) = (a, s1)" by fastforce
  have i: "lease_inv env (s\<lparr>rl_timer := None\<rparr>)" using assms by (simp add: lease_inv_def held_task_def)
  have s1: "lease_inv env s1" "lease_abs env s1 = lease_abs env s"
    using clock_inv [OF a i] by (simp_all add: lease_abs_def lease_expiry_def)
  obtain b s2 where b: "scheduleExpiry env c2 s1 = (b, s2)" by fastforce
  have s2: "lease_inv env s2" "grant_moves env s1 s2" using schedule_inv [OF b s1(1)] by blast+
  have e2: "lease_inv env (expire s2)" "lease_abs env (expire s2) = Ended"
    using expire_inv [OF s2(1)] by (auto simp: lease_abs_def expire_def split: option.splits)
  have g2: "grant_moves env s1 (expire s2)"
    using e2(2) grant_step.finish by (auto simp: grant_moves_def lease_abs_def)
  have r: "timer_fires env c1 c2 s = expire s1 \<or> timer_fires env c1 c2 s = expire s2 \<or> timer_fires env c1 c2 s = s2"
    using Some a b by (auto simp: timer_fires_def split: sum.splits)
  show ?thesis
    using r expire_inv [OF s1(1)] e2(1) s2 moves_trans_same [OF s1(2)] g2 expire_ends [of env s1] by metis
qed

lemma close_inv: "lease_inv env s \<Longrightarrow> lease_inv env (close_lease s) \<and> grant_moves env s (close_lease s)"
  by (cases "rl_abort s")
    (simp_all add: lease_inv_def held_task_def close_lease_def grant_moves_def lease_abs_def grant_step.finish)

lemma begin_inv:
  assumes "lease_inv env s"
  shows "lease_inv env (snd (begin_renewal env v c s)) \<and> grant_moves env s (snd (begin_renewal env v c s))"
proof -
  obtain a s1 where a: "assertActive env c s = (a, s1)" by fastforce
  then have "snd (begin_renewal env v c s) = s1" by (simp add: begin_renewal_def split: sum.split)
  then show ?thesis using assert_inv [OF a assms] by simp
qed

lemma step_inv: "lease_inv env s \<Longrightarrow> lease_inv env (lease_step env x s) \<and> grant_moves env s (lease_step env x s)"
  by (cases x) (simp_all add: assert_inv [OF prod.collapse [symmetric]] finish_inv [OF prod.collapse [symmetric]]
      begin_inv timer_inv close_inv)

section \<open>The refinement\<close>

interpretation held: refinement "lease_step env" "lease_inv env" "lease_abs env" "grant_step env"
  by unfold_locales (use step_inv in \<open>auto simp: grant_moves_def\<close>)

lemma create_inv:
  assumes "create_lease env v resolve c1 c2 = Inr s"
  shows "lease_inv env s"
proof -
  obtain e task where vt: "verifiedTask env v resolve = Inr (e, task)"
    using assms by (auto simp: create_lease_def and_then_Inr)
  let ?s = "\<lparr>rl_task = task, rl_envelope = e, rl_previous = None, rl_timer = None, rl_closed = False, rl_abort = None\<rparr>"
  obtain key where "verifyRunnerTask env (envelope_value e) key = Inr task"
    using vt by (auto simp: verifiedTask_def and_then_Inr passed_def split: sum.splits option.splits)
  then have i: "lease_inv env ?s" by (auto simp: lease_inv_def held_task_def)
  obtain m s1 where c: "capturedClock c1 ?s = (Inr m, s1)"
    using assms vt by (auto simp: create_lease_def Let_def split: prod.splits sum.splits)
  obtain q s2 where q: "scheduleExpiry env c2 s1 = (q, s2)" by fastforce
  have "s = s2" using assms vt c q by (auto simp: create_lease_def Let_def ensure_Inr split: sum.splits)
  then show ?thesis using schedule_inv [OF q] clock_inv [OF c i] by simp
qed

lemma ended_is_final: "rtranclp (grant_step env) Ended h \<Longrightarrow> h = Ended"
  by (induction rule: rtranclp_induct) (auto simp: grant_step_ended)

lemma grant_grows:
  "rtranclp (grant_step env) (Granted i u) h \<Longrightarrow> h = Ended \<or> (\<exists>w. h = Granted i w \<and> u \<le> w)"
proof (induction rule: rtranclp_induct)
  case (step g h)
  from step.hyps(2) step.IH show ?case by (cases rule: grant_stepE) auto
qed simp

text \<open>C10: The runner lease refines an abstract grant. Whatever happens to a lease and in whatever order (checks,
  renewals whose key lookups finish at any time, timer callbacks, closing), the lease seen from outside is
  a grant of one task identity until some time: each step changes nothing, moves the time strictly forward
  and never past the task's own expiry, or ends the grant for good.\<close>

theorem lease_refines_grant:
  "case create_lease env v resolve c1 c2 of
      Inl _ \<Rightarrow> True
    | Inr s \<Rightarrow> rtranclp (grant_step env) (lease_abs env s) (lease_abs env (fold (lease_step env) ops s))"
  using held.run_refines [OF create_inv] by (auto split: sum.split)

text \<open>Work under a lease is always covered by a signed task: when a lease that went through any operations
  passes its activity check, the reading of the clock is more than the safety margin before the expiry of a
  task that verified against a platform key and has the identity the lease was created with, the expiry
  is not before the one it was created with, and it is not past the task's own expiry.\<close>

theorem active_lease_is_covered:
  "case create_lease env v resolve c1 c2 of
      Inl _ \<Rightarrow> True
    | Inr s0 \<Rightarrow>
        (let s = fold (lease_step env) ops s0 in
         case assertActive env c s of
           (Inl _, _) \<Rightarrow> True
         | (Inr _, s') \<Rightarrow> held_task env s' \<and> identity_of (rl_task s') = identity_of (rl_task s0) \<and>
             lease_expiry env s0 \<le> lease_expiry env s' \<and> lease_expiry env s' \<le> millis env (rt_expires (rl_task s')) \<and>
             (\<exists>m. c = Some m \<and> m + RUNNER_LEASE_SAFETY_MARGIN_MS < lease_expiry env s'))"
proof (cases "create_lease env v resolve c1 c2")
  case (Inr s0)
  define s where "s = fold (lease_step env) ops s0"
  have i: "lease_inv env s0" "lease_inv env s" using create_inv [OF Inr] held.run_invar by (simp_all add: s_def)
  have r: "rtranclp (grant_step env) (lease_abs env s0) (lease_abs env s)"
    using held.run_refines [OF i(1)] by (simp add: s_def)
  have "held_task env s' \<and> identity_of (rl_task s') = identity_of (rl_task s0) \<and>
      lease_expiry env s0 \<le> lease_expiry env s' \<and> lease_expiry env s' \<le> millis env (rt_expires (rl_task s')) \<and>
      (\<exists>m. c = Some m \<and> m + RUNNER_LEASE_SAFETY_MARGIN_MS < lease_expiry env s')"
    if a: "assertActive env c s = (Inr u, s')" for u s'
  proof -
    note live = assert_live [OF a]
    have h: "held_task env s'" using assert_inv [OF a i(2)] by (simp add: lease_inv_def)
    obtain w where "validateRunnerTask env w = Inr (rl_task s')" using held_validated [OF h] by blast
    then have "lease_expiry env s' \<le> millis env (rt_expires (rl_task s'))"
      using validated_times by (simp add: lease_expiry_def)
    moreover have "rl_abort s0 = None"
      using r ended_is_final [of env "lease_abs env s"] live by (auto simp: lease_abs_def split: if_splits)
    then have "identity_of (rl_task s) = identity_of (rl_task s0) \<and> lease_expiry env s0 \<le> lease_expiry env s"
      using r grant_grows [of env "identity_of (rl_task s0)" "lease_expiry env s0" "lease_abs env s"] live
      by (auto simp: lease_abs_def)
    ultimately show ?thesis using h live by (auto simp: lease_expiry_def)
  qed
  then show ?thesis using Inr by (auto simp: s_def Let_def split: prod.splits sum.splits)
qed simp

section \<open>The expiry timer\<close>

fun readings_of :: "lease_op \<Rightarrow> int option list" where
  "readings_of (Assert_active c) = [c]"
| "readings_of (Begin_renewal v c) = [c]"
| "readings_of (Finish_renewal e key c1 c2 c3) = [c1, c2, c3]"
| "readings_of (Timer c1 c2) = [c1, c2]"
| "readings_of Close = []"

text \<open>The clock never fails and never steps back.\<close>

fun clock_fine :: "int option \<Rightarrow> int option list \<Rightarrow> bool" where
  "clock_fine p [] = True"
| "clock_fine p (None # cs) = False"
| "clock_fine p (Some m # cs) = ((case p of None \<Rightarrow> True | Some q \<Rightarrow> q \<le> m) \<and> clock_fine (Some m) cs)"

lemma fine_drop: "clock_fine p (c # cs) \<Longrightarrow> clock_fine p cs"
  by (induction p "c # cs" rule: clock_fine.induct; cases cs; cases "hd cs") (auto split: option.splits)

lemma fine_append: "clock_fine p (xs @ cs) \<Longrightarrow> clock_fine p cs"
  by (induction xs) (auto dest: fine_drop)

lemma fine_read:
  assumes "clock_fine (rl_previous s) (c # cs)"
  obtains m where "capturedClock c s = (Inr m, s\<lparr>rl_previous := Some m\<rparr>)" "clock_fine (Some m) cs"
  using assms by (cases c) (auto simp: capturedClock_def split: option.splits)

text \<open>As long as the lease is live its timer is armed.\<close>

definition timer_armed :: "runner_lease \<Rightarrow> bool" where
  "timer_armed s \<longleftrightarrow> (if rl_abort s = None then rl_timer s \<noteq> None else True)"

lemma timer_armedI: "(rl_abort s = None \<Longrightarrow> rl_timer s \<noteq> None) \<Longrightarrow> timer_armed s"
  by (simp add: timer_armed_def)

lemma expire_armed [simp]: "(rl_abort (expire s) = None) = False" "rl_previous (expire s) = rl_previous s"
  by (auto simp: expire_def split: option.splits)

lemma schedule_arms:
  assumes "scheduleExpiry env c s = (q, s')" "clock_fine (rl_previous s) (c # cs)" "rl_closed s \<longrightarrow> rl_abort s \<noteq> None"
  shows "q = Inr () \<and> timer_armed s' \<and> clock_fine (rl_previous s') cs"
proof (cases "rl_closed s \<or> rl_abort s \<noteq> None")
  case True
  then show ?thesis using assms fine_drop by (auto simp: scheduleExpiry_def timer_armed_def)
next
  case False
  have f: "clock_fine (rl_previous (s\<lparr>rl_timer := None\<rparr>)) (c # cs)" using assms(2) by simp
  obtain m where m: "capturedClock c (s\<lparr>rl_timer := None\<rparr>) = (Inr m, s\<lparr>rl_timer := None, rl_previous := Some m\<rparr>)"
    "clock_fine (Some m) cs"
    using f by (elim fine_read) auto
  then show ?thesis
    using assms(1) False
    by (auto simp: scheduleExpiry_def Let_def timer_armed_def split: if_splits)
qed

lemma assert_armed:
  assumes "assertActive env c s = (q, s')" "timer_armed s" "clock_fine (rl_previous s) (c # cs)"
  shows "timer_armed s' \<and> clock_fine (rl_previous s') cs"
proof (cases "rl_closed s \<or> rl_abort s \<noteq> None")
  case True
  then show ?thesis using assms fine_drop by (auto simp: assertActive_def)
next
  case False
  obtain m where m: "capturedClock c s = (Inr m, s\<lparr>rl_previous := Some m\<rparr>)" "clock_fine (Some m) cs"
    using assms(3) by (rule fine_read)
  then show ?thesis
    using assms(1,2) False
    by (auto simp: assertActive_def timer_armed_def split: if_splits)
qed

lemma finish_armed:
  assumes "finish_renewal env e key c1 c2 c3 s = (r, s')" "lease_inv env s" "timer_armed s"
    and "clock_fine (rl_previous s) (c1 # c2 # c3 # cs)"
  shows "timer_armed s' \<and> clock_fine (rl_previous s') cs"
proof -
  have start: "timer_armed s \<and> clock_fine (rl_previous s) cs" using assms(3,4) fine_drop by blast
  obtain a s1 where a: "assertActive env c1 s = (a, s1)" by fastforce
  have s1: "timer_armed s1" "clock_fine (rl_previous s1) (c2 # c3 # cs)" "clock_fine (rl_previous s1) cs"
    using assert_armed [OF a assms(3,4)] fine_drop by blast+
  obtain m where m: "capturedClock c2 s1 = (Inr m, s1\<lparr>rl_previous := Some m\<rparr>)" "clock_fine (Some m) (c3 # cs)"
    using s1(2) by (rule fine_read)
  have s2: "timer_armed (s1\<lparr>rl_previous := Some m\<rparr>)" "clock_fine (Some m) cs"
    using s1(1) m(2) fine_drop by (auto simp: timer_armed_def)
  have closed: "rl_closed s1 \<longrightarrow> rl_abort s1 \<noteq> None"
    using assert_inv [OF a assms(2)] by (simp add: lease_inv_def)
  have arm: "timer_armed s3 \<and> clock_fine (rl_previous s3) cs"
    if "scheduleExpiry env c3 (s1\<lparr>rl_previous := Some m, rl_task := task, rl_envelope := e\<rparr>) = (q, s3)" for task q s3
    using schedule_arms [OF that, of cs] m(2) closed by simp
  show ?thesis
    using assms(1) start a s1(1,3) m(1) s2 arm
    by (auto simp: finish_renewal_def passed_def Let_def split: option.splits sum.splits if_splits prod.splits)
qed

lemma timer_armed_again:
  assumes "lease_inv env s" "timer_armed s" "clock_fine (rl_previous s) (c1 # c2 # cs)"
  shows "timer_armed (timer_fires env c1 c2 s) \<and> clock_fine (rl_previous (timer_fires env c1 c2 s)) cs"
proof (cases "rl_timer s")
  case None
  then show ?thesis using assms fine_drop [OF fine_drop [OF assms(3)]] by (simp add: timer_fires_def)
next
  case (Some d)
  have f: "clock_fine (rl_previous (s\<lparr>rl_timer := None\<rparr>)) (c1 # c2 # cs)" using assms(3) by simp
  obtain m where m: "capturedClock c1 (s\<lparr>rl_timer := None\<rparr>) = (Inr m, s\<lparr>rl_timer := None, rl_previous := Some m\<rparr>)"
    "clock_fine (Some m) (c2 # cs)"
    using f by (elim fine_read) auto
  let ?s1 = "s\<lparr>rl_timer := None, rl_previous := Some m\<rparr>"
  obtain q s2 where q: "scheduleExpiry env c2 ?s1 = (q, s2)" by fastforce
  have "q = Inr () \<and> timer_armed s2 \<and> clock_fine (rl_previous s2) cs"
    using schedule_arms [OF q, of cs] m(2) assms(1) by (simp add: lease_inv_def)
  then show ?thesis
    using Some m q fine_drop [OF m(2)] by (auto simp: timer_fires_def timer_armed_def)
qed

lemma step_armed:
  assumes "lease_inv env s" "timer_armed s" "clock_fine (rl_previous s) (readings_of x @ cs)"
  shows "timer_armed (lease_step env x s) \<and> clock_fine (rl_previous (lease_step env x s)) cs"
proof (cases x)
  case (Assert_active c)
  then show ?thesis using assms assert_armed [OF prod.collapse [symmetric]] by simp
next
  case (Begin_renewal v c)
  obtain a s1 where a: "assertActive env c s = (a, s1)" by fastforce
  then show ?thesis
    using Begin_renewal assms assert_armed [OF a, of cs] by (simp add: begin_renewal_def split: sum.splits)
next
  case (Finish_renewal e key c1 c2 c3)
  then show ?thesis using assms finish_armed [OF prod.collapse [symmetric]] by simp
next
  case (Timer c1 c2)
  then show ?thesis using assms timer_armed_again by simp
next
  case Close
  then show ?thesis using assms by (auto simp: close_lease_def timer_armed_def split: option.splits)
qed

lemma run_armed:
  "lease_inv env s \<Longrightarrow> timer_armed s \<Longrightarrow> clock_fine (rl_previous s) (concat (map readings_of ops)) \<Longrightarrow>
   timer_armed (fold (lease_step env) ops s)"
proof (induction ops arbitrary: s)
  case (Cons x ops)
  then show ?case using step_armed [of env s x "concat (map readings_of ops)"] held.invar_op by simp
qed simp

lemma create_armed:
  assumes "create_lease env v resolve c1 c2 = Inr s"
  shows "timer_armed s"
proof -
  obtain e task where vt: "verifiedTask env v resolve = Inr (e, task)"
    using assms by (auto simp: create_lease_def and_then_Inr)
  let ?s = "\<lparr>rl_task = task, rl_envelope = e, rl_previous = None, rl_timer = None, rl_closed = False, rl_abort = None\<rparr>"
  obtain m s1 where c: "capturedClock c1 ?s = (Inr m, s1)"
    using assms vt by (auto simp: create_lease_def Let_def split: prod.splits sum.splits)
  have "scheduleExpiry env c2 s1 = (Inr (), s)"
    using assms vt c by (auto simp: create_lease_def Let_def ensure_Inr split: prod.splits sum.splits)
  then show ?thesis
    using clock_keeps [OF c]
    by (auto simp: scheduleExpiry_def Let_def timer_armed_def split: sum.splits if_splits prod.splits)
qed

text \<open>As long as the clock works, a live lease expires by itself: if no reading of the clock fails or steps
  back, then after any operations the lease has ended or its expiry timer is armed.\<close>

theorem live_lease_has_timer:
  assumes "create_lease env v resolve c1 c2 = Inr s"
    and "clock_fine (rl_previous s) (concat (map readings_of ops))"
  shows "timer_armed (fold (lease_step env) ops s)"
  using run_armed [OF create_inv [OF assms(1)] create_armed [OF assms(1)] assms(2)] .

text \<open>A clock that fails or steps back between two readings of one renewal loses the timer: the renewal has
  been applied, the call is rejected, and the lease is live without a timer.\<close>

lemma renewal_without_timer:
  assumes "finish_renewal env e key c1 c2 None s = (Inl Lease_clock_invalid, s')" "lease_inv env s"
    and "rl_task s' \<noteq> rl_task s"
  shows "rl_abort s' = None \<and> rl_timer s' = None"
  using assms(1,2)
proof (cases rule: renewal_cases)
  case (extended k task m s1 s2)
  have "rl_abort s2 = None" "\<not> rl_closed s2"
    using assert_live [OF extended(3)] clock_keeps [OF extended(5)] assms(2)
    by (auto simp: lease_inv_def)
  then show ?thesis using extended(8) by (auto simp: scheduleExpiry_def capturedClock_def)
qed (use assms(3) in simp)

section \<open>A concrete lease\<close>

lemma sample_lease:
  "create_lease execution_env (sealed (task_value sample_task)) (\<lambda>_. Some ''p'') (Some 0) (Some 0) =
     Inr \<lparr>rl_task = sample_task, rl_envelope = sealed_envelope (the (canonicalRunnerJson (task_value sample_task))),
          rl_previous = Some 0, rl_timer = Some 3595000, rl_closed = False, rl_abort = None\<rparr>"
proof -
  obtain t where t: "canonicalRunnerJson (task_value sample_task) = Some t" "utf8_encode t \<noteq> []"
    "length (utf8_encode t) \<le> MAX_ENVELOPE_PAYLOAD_BYTES"
    using sample_task_valid by (rule task_fits)
  have "verifiedTask execution_env (sealed (task_value sample_task)) (\<lambda>_. Some ''p'') = Inr (sealed_envelope t, sample_task)"
    using sealed_valid [OF t] sample_task_verified by (simp add: verifiedTask_def passed_def)
  moreover have "rt_issued sample_task = early" "rt_expires sample_task = late" "rt_lease_expires sample_task = late"
    by (simp_all add: sample_task_def)
  ultimately show ?thesis
    using sample_stamps t(1)
    by (simp add: create_lease_def capturedClock_def scheduleExpiry_def lease_expiry_def
        RUNNER_LEASE_SAFETY_MARGIN_MS_def MAX_RUNNER_CLOCK_SKEW_MS_def MAX_TIMER_DELAY_MS_def)
qed

lemma live_lease_has_timer_witness:
  "\<exists>s. create_lease execution_env (sealed (task_value sample_task)) (\<lambda>_. Some ''p'') (Some 0) (Some 0) = Inr s \<and>
     timer_armed (fold (lease_step execution_env) [Assert_active (Some 1), Timer (Some 2) (Some 3), Assert_active (Some 4)] s)"
proof -
  let ?ops = "[Assert_active (Some 1), Timer (Some 2) (Some 3), Assert_active (Some 4)]"
  obtain s where s: "create_lease execution_env (sealed (task_value sample_task)) (\<lambda>_. Some ''p'') (Some 0) (Some 0) = Inr s"
    "rl_previous s = Some 0"
    using sample_lease by simp
  have "timer_armed (fold (lease_step execution_env) ?ops s)"
    by (rule live_lease_has_timer [OF s(1)]) (simp add: s(2))
  then show ?thesis using s(1) by blast
qed

end
