(* ===== verification/RunnerDevice.thy ===== *)
theory RunnerDevice
  imports JsMap
begin

text \<open>
  packages/core/src/runner-device.ts and the retry helper of runner-transport.ts: device enrollment,
  rotation eligibility, rotation acknowledgments, and the backoff of a failed transport call. Numbers
  are exact rationals: the rounding of doubles below an integer millisecond is not modelled. The random
  number of a call is an argument. Error messages are left out.
\<close>

section \<open>Devices\<close>

definition RUNNER_DEVICE_VERSION :: string where
  "RUNNER_DEVICE_VERSION = ''runner-device.v1''"

definition RUNNER_DEVICE_MIN_LIFETIME_SECONDS :: int where
  "RUNNER_DEVICE_MIN_LIFETIME_SECONDS = 86400"

datatype device_error = Rotation_too_early | Device_store_failed

datatype device_status = Dv_active | Dv_rotating | Dv_revoked | Dv_expired

record device_key =
  dk_id :: string
  dk_status :: device_status
  dk_since :: string
  dk_revoked :: "string option"
  dk_next :: "string option"

record device_enrollment =
  de_runner :: string
  de_seller :: string
  de_key :: string
  de_spki :: string
  de_enrolled :: string

record rotation_ack =
  ra_current :: string
  ra_next :: string
  ra_overlap :: string
  ra_acknowledged :: string

text \<open>\<open>device:\<close> and the first 16 hexadecimal digits of the digest of the exported key.\<close>

definition deriveDeviceKeyId :: "(nat list \<Rightarrow> string) \<Rightarrow> nat list \<Rightarrow> string" where
  "deriveDeviceKeyId sha spkiDer = ''device:'' @ take 16 (sha spkiDer)"

definition required_string :: "jsval \<Rightarrow> string \<Rightarrow> device_error + string" where
  "required_string v k = (case js_get v k of
      JStr s \<Rightarrow> ensure (s \<noteq> []) Device_store_failed (Inr s)
    | _ \<Rightarrow> Inl Device_store_failed)"

definition validateDeviceEnrollment :: "jsval \<Rightarrow> device_error + device_enrollment" where
  "validateDeviceEnrollment v =
     ensure (is_plain_object v) Device_store_failed
    (ensure (js_get v ''version'' = JStr RUNNER_DEVICE_VERSION) Device_store_failed
    (and_then (required_string v ''runnerId'') (\<lambda>runner.
     and_then (required_string v ''sellerId'') (\<lambda>seller.
     and_then (required_string v ''keyId'') (\<lambda>key.
     and_then (required_string v ''publicKeySpki'') (\<lambda>spki.
     and_then (required_string v ''enrolledAt'') (\<lambda>enrolled.
       Inr \<lparr>de_runner = runner, de_seller = seller, de_key = key, de_spki = spki, de_enrolled = enrolled\<rparr>)))))))"

text \<open>With \<open>activeSince\<close> that is no date the active time is NaN, and NaN is below no minimum.\<close>

definition validateRotationEligibility ::
  "(string \<Rightarrow> int option) \<Rightarrow> device_key \<Rightarrow> int \<Rightarrow> device_error + unit" where
  "validateRotationEligibility parse_date k now =
     ensure (dk_status k = Dv_active) Rotation_too_early
    (ensure (\<not> (case parse_date (dk_since k) of
                  None \<Rightarrow> False
                | Some since \<Rightarrow> now - since < RUNNER_DEVICE_MIN_LIFETIME_SECONDS * 1000)) Rotation_too_early
      (Inr ()))"

definition validateRotationAck :: "jsval \<Rightarrow> string \<Rightarrow> string \<Rightarrow> device_error + rotation_ack" where
  "validateRotationAck v current new =
     ensure (is_plain_object v) Device_store_failed
    (ensure (js_get v ''version'' = JStr RUNNER_DEVICE_VERSION) Device_store_failed
    (ensure (js_get v ''currentKeyId'' = JStr current) Device_store_failed
    (ensure (js_get v ''nextKeyId'' = JStr new) Device_store_failed
    (and_then (required_string v ''overlapExpiresAt'') (\<lambda>overlap.
     and_then (required_string v ''acknowledgedAt'') (\<lambda>acknowledged.
       Inr \<lparr>ra_current = current, ra_next = new, ra_overlap = overlap, ra_acknowledged = acknowledged\<rparr>))))))"

section \<open>Transport errors and backoff\<close>

definition RUNNER_TRANSPORT_MAX_RETRIES :: nat where
  "RUNNER_TRANSPORT_MAX_RETRIES = 5"

definition RUNNER_TRANSPORT_BASE_BACKOFF_MS :: int where
  "RUNNER_TRANSPORT_BASE_BACKOFF_MS = 500"

definition RUNNER_TRANSPORT_MAX_BACKOFF_MS :: int where
  "RUNNER_TRANSPORT_MAX_BACKOFF_MS = 30000"

datatype transport_code =
    Transport_unavailable
  | Transport_timeout
  | Transport_unauthorized
  | Transport_forbidden
  | Transport_conflict
  | Transport_rate_limited
  | Transport_payload_rejected

record transport_error =
  te_code :: transport_code
  te_retry_after :: "rat option"

definition te_retryable :: "transport_error \<Rightarrow> bool" where
  "te_retryable e = (te_code e = Transport_unavailable \<or> te_code e = Transport_timeout \<or>
     te_code e = Transport_rate_limited)"

text \<open>\<open>Math.round\<close>\<close>

definition js_round :: "rat \<Rightarrow> int" where
  "js_round x = \<lfloor>x + 1 / 2\<rfloor>"

text \<open>A delay with a quarter of it added or taken away, by a random number below 1.\<close>

definition jittered :: "rat \<Rightarrow> rat \<Rightarrow> rat" where
  "jittered delay random = delay + delay * (1 / 4) * (random * 2 - 1)"

definition computeTransportBackoff :: "transport_error \<Rightarrow> nat \<Rightarrow> rat \<Rightarrow> bool \<times> int" where
  "computeTransportBackoff e attempt random =
     (if \<not> te_retryable e \<or> attempt \<ge> RUNNER_TRANSPORT_MAX_RETRIES then (False, 0)
      else
        (let baseDelay = (case te_retry_after e of None \<Rightarrow> of_int RUNNER_TRANSPORT_BASE_BACKOFF_MS | Some d \<Rightarrow> d);
             exponentialDelay = min (baseDelay * 2 ^ attempt) (of_int RUNNER_TRANSPORT_MAX_BACKOFF_MS)
         in (True, max 0 (js_round (jittered exponentialDelay random)))))"

lemma jittered_bounds:
  assumes "0 \<le> d" "0 \<le> r" "r < 1"
  shows "3 / 4 * d \<le> jittered d r" "jittered d r \<le> 5 / 4 * d"
proof -
  have j: "jittered d r = d * (3 / 4 + r / 2)" by (simp add: jittered_def algebra_simps)
  show "3 / 4 * d \<le> jittered d r" unfolding j using mult_left_mono [of "3 / 4" "3 / 4 + r / 2" d] assms by simp
  show "jittered d r \<le> 5 / 4 * d" unfolding j using mult_left_mono [of "3 / 4 + r / 2" "5 / 4" d] assms by simp
qed

lemma js_round_mono: "x \<le> y \<Longrightarrow> js_round x \<le> js_round y"
  by (simp add: js_round_def floor_mono)

lemma js_round_of_int [simp]: "js_round (of_int n) = n"
  by (simp add: js_round_def floor_eq_iff)

text \<open>Retrying stops, and a delay exceeds the maximum by at most the jitter.\<close>

lemma backoff_bounds:
  assumes "computeTransportBackoff e attempt r = (True, d)" "0 \<le> r" "r < 1"
    and "\<And>x. te_retry_after e = Some x \<Longrightarrow> 0 \<le> x"
  shows "attempt < RUNNER_TRANSPORT_MAX_RETRIES \<and> 0 \<le> d \<and> d \<le> 37500"
proof -
  define b where "b = (case te_retry_after e of None \<Rightarrow> of_int RUNNER_TRANSPORT_BASE_BACKOFF_MS | Some x \<Rightarrow> x)"
  define x where "x = min (b * 2 ^ attempt) (of_int RUNNER_TRANSPORT_MAX_BACKOFF_MS)"
  have "0 \<le> b" using assms(4) by (auto simp: b_def RUNNER_TRANSPORT_BASE_BACKOFF_MS_def split: option.split)
  then have x: "0 \<le> x" "x \<le> 30000" by (simp_all add: x_def RUNNER_TRANSPORT_MAX_BACKOFF_MS_def min_le_iff_disj)
  have "jittered x r \<le> of_int 37500" using jittered_bounds(2) [OF x(1) assms(2,3)] x(2) by simp
  then have "js_round (jittered x r) \<le> 37500" using js_round_mono js_round_of_int by metis
  moreover have "d = max 0 (js_round (jittered x r))" "attempt < RUNNER_TRANSPORT_MAX_RETRIES"
    using assms(1) by (auto simp: computeTransportBackoff_def Let_def x_def b_def split: if_splits)
  ultimately show ?thesis by simp
qed

end
