(* ===== verification/RunnerLifecycle.thy ===== *)
theory RunnerLifecycle
  imports DurableStore RunnerDevice
begin

text \<open>
  packages/core/src/runner-lifecycle.ts: initialisation, the doctor's checks, and the outbound loop of a
  runner process over the reference outbox of \<open>DurableStore\<close>. The loop is an asynchronous function: its
  program counter is \<open>loop_at\<close>, one step runs it to its next await, and replies, timers, aborts, \<open>stop\<close>
  and writers of the outbox come in between in any order. Clock readings and random numbers are
  arguments of a step; \<open>parse\<close> is the decoding of an outbox payload (\<open>JSON.parse\<close> of its bytes). What
  the transport does with a request is the reply it gives. Messages of checks and errors are left out,
  and the drain is the only consumer of the outbox.
\<close>

section \<open>Initialisation\<close>

definition RUNNER_POLL_MAX_BACKOFF_MS :: int where
  "RUNNER_POLL_MAX_BACKOFF_MS = 60000"

definition RUNNER_POLL_BASE_INTERVAL_MS :: int where
  "RUNNER_POLL_BASE_INTERVAL_MS = 2000"

definition RUNNER_MAX_CONSECUTIVE_FAILURES :: nat where
  "RUNNER_MAX_CONSECUTIVE_FAILURES = 10"

datatype lifecycle_error = Already_initialized | Config_invalid

record runner_config =
  cf_runner :: string
  cf_seller :: string
  cf_endpoint :: string
  cf_created :: string

definition runnerInit ::
  "string \<Rightarrow> string \<Rightarrow> string \<Rightarrow> string \<Rightarrow> runner_config option \<Rightarrow> lifecycle_error + runner_config" where
  "runnerInit runnerId sellerId platformEndpoint now existingConfig =
     ensure (existingConfig = None) Already_initialized
    (ensure (runnerId \<noteq> []) Config_invalid
    (ensure (sellerId \<noteq> []) Config_invalid
    (ensure (platformEndpoint \<noteq> []) Config_invalid
      (Inr \<lparr>cf_runner = runnerId, cf_seller = sellerId, cf_endpoint = platformEndpoint, cf_created = now\<rparr>))))"

section \<open>The doctor\<close>

datatype doctor_check_name =
    Platform_support
  | Config_present
  | Check_device_key
  | Check_durable_store
  | Check_deployments
  | Transport_connectivity

datatype check_result = Check_pass | Check_fail | Check_warn | Check_skip

text \<open>The answers of the ports, None for a call that throws.\<close>

record doctor_ports =
  dp_win32 :: bool
  dp_config :: "runner_config option"
  dp_key :: "device_key option option"
  dp_corruption :: "store_corruption option option"
  dp_version :: "nat option option"
  dp_deployments :: "nat option"

definition check_device_key :: "doctor_ports \<Rightarrow> check_result" where
  "check_device_key d = (case dp_key d of
      None \<Rightarrow> Check_fail
    | Some None \<Rightarrow> Check_fail
    | Some (Some k) \<Rightarrow> if dk_status k = Dv_revoked then Check_fail else Check_pass)"

definition check_durable_store :: "doctor_ports \<Rightarrow> check_result" where
  "check_durable_store d = (case dp_corruption d of
      None \<Rightarrow> Check_fail
    | Some (Some _) \<Rightarrow> Check_fail
    | Some None \<Rightarrow> (case dp_version d of
          None \<Rightarrow> Check_fail
        | Some v \<Rightarrow> if v \<noteq> Some DURABLE_STORE_SCHEMA_VERSION then Check_warn else Check_pass))"

definition check_deployments :: "doctor_ports \<Rightarrow> check_result" where
  "check_deployments d = (case dp_deployments d of
      None \<Rightarrow> Check_fail
    | Some n \<Rightarrow> if n = 0 then Check_warn else Check_pass)"

definition runnerDoctor :: "doctor_ports \<Rightarrow> (doctor_check_name \<times> check_result) list \<times> bool" where
  "runnerDoctor d =
     (let checks = [(Platform_support, if dp_win32 d then Check_fail else Check_pass),
            (Config_present, if dp_config d = None then Check_fail else Check_pass),
            (Check_device_key, check_device_key d),
            (Check_durable_store, check_durable_store d),
            (Check_deployments, check_deployments d),
            (Transport_connectivity, Check_skip)]
      in (checks, list_all (\<lambda>(_, r). r = Check_pass \<or> r = Check_skip \<or> r = Check_warn) checks))"

section \<open>The process\<close>

datatype process_status =
    Ps_stopped
  | Ps_starting
  | Ps_idle
  | Ps_claiming
  | Ps_executing
  | Ps_stopping
  | Ps_degraded

record request_meta =
  rm_device_key :: string
  rm_nonce :: string
  rm_requested :: string
  rm_runner :: string

datatype transport_request =
    Submit_receipt request_meta string jsval
  | Append_events request_meta string string "jsval list"

text \<open>What the process shows to the outside, in order.\<close>

datatype process_effect =
    Status_changed process_status
  | Sent nat transport_request
  | Delivered nat
  | Retried nat

text \<open>Where the loop stands: at its condition, in front of the next pending entry, waiting for the
  outbox to mark it, waiting for the transport, asleep, woken by an abort, or returned.\<close>

datatype loop_at =
    Loop_test
  | Draining "outbox_entry list"
  | Marking outbox_entry "outbox_entry list"
  | Calling outbox_entry "outbox_entry list"
  | Sleeping int
  | Woken
  | Loop_done

record runner_process =
  rp_runner :: string
  rp_status :: process_status
  rp_since :: string
  rp_failures :: nat
  rp_success :: "string option"
  rp_reachable :: bool
  rp_stopped :: bool
  rp_aborted :: bool
  rp_at :: loop_at
  rp_outbox :: outbox
  rp_trace :: "process_effect list"

definition shown :: "process_effect \<Rightarrow> runner_process \<Rightarrow> runner_process" where
  "shown x p = p\<lparr>rp_trace := rp_trace p @ [x]\<rparr>"

definition setStatus :: "process_status \<Rightarrow> string \<Rightarrow> runner_process \<Rightarrow> runner_process" where
  "setStatus s stamp p = (if rp_status p = s then p
     else shown (Status_changed s) (p\<lparr>rp_status := s, rp_since := stamp\<rparr>))"

definition runnerStart :: "string \<Rightarrow> bool \<Rightarrow> string \<Rightarrow> outbox \<Rightarrow> runner_process" where
  "runnerStart runnerId signalAborted stamp b =
     setStatus Ps_idle stamp
       \<lparr>rp_runner = runnerId, rp_status = Ps_starting, rp_since = stamp, rp_failures = 0, rp_success = None,
        rp_reachable = False, rp_stopped = False, rp_aborted = signalAborted, rp_at = Loop_test,
        rp_outbox = b, rp_trace = []\<rparr>"

definition pollBackoff :: "nat \<Rightarrow> rat \<Rightarrow> int" where
  "pollBackoff failures random = (if failures = 0 then RUNNER_POLL_BASE_INTERVAL_MS
     else (let delay = min (of_int RUNNER_POLL_BASE_INTERVAL_MS * 2 ^ failures) (of_int RUNNER_POLL_MAX_BACKOFF_MS)
           in max RUNNER_POLL_BASE_INTERVAL_MS (js_round (jittered delay random))))"

definition entry_request :: "string \<Rightarrow> string \<Rightarrow> outbox_entry \<Rightarrow> jsval \<Rightarrow> transport_request" where
  "entry_request runnerId stamp e payload =
     (let meta = \<lparr>rm_device_key = ''pending'', rm_nonce = ''outbox-'' @ dec (ox_sequence e), rm_requested = stamp,
            rm_runner = runnerId\<rparr>
      in if ox_kind e = Outbox_receipt then Submit_receipt meta (ox_task e) payload
         else Append_events meta (ox_task e) (ox_task e) (case payload of JArr vs \<Rightarrow> vs | v \<Rightarrow> [v]))"

text \<open>The catch of a delivery: the entry is read by reference, so its retry count is the current one.\<close>

definition retry_entry :: "(int \<Rightarrow> string) \<Rightarrow> int \<Rightarrow> outbox_entry \<Rightarrow> outbox_entry list \<Rightarrow> runner_process \<Rightarrow> runner_process" where
  "retry_entry iso_of now e es p =
     (let retries = (case find_entry (ox_sequence e) (rp_outbox p) of None \<Rightarrow> ox_retries e | Some d \<Rightarrow> ox_retries d);
          nextRetry = iso_of (now + RUNNER_TRANSPORT_BASE_BACKOFF_MS * 2 ^ retries)
      in shown (Retried (ox_sequence e))
           (p\<lparr>rp_outbox := snd (markRetry (ox_sequence e) nextRetry (rp_outbox p)), rp_at := Draining es\<rparr>))"

text \<open>\<open>sleep\<close> returns at once when the signal is already aborted.\<close>

definition begin_sleep :: "rat \<Rightarrow> runner_process \<Rightarrow> runner_process" where
  "begin_sleep random p = p\<lparr>rp_at := (if rp_aborted p then Woken else Sleeping (pollBackoff (rp_failures p) random))\<rparr>"

definition leave_loop :: "string \<Rightarrow> runner_process \<Rightarrow> runner_process" where
  "leave_loop stamp p = (setStatus Ps_stopped stamp p)\<lparr>rp_at := Loop_done\<rparr>"

text \<open>The loop from where it stands to its next await.\<close>

definition proceed ::
  "(string \<Rightarrow> jsval option) \<Rightarrow> (int \<Rightarrow> string) \<Rightarrow> int \<Rightarrow> rat \<Rightarrow> runner_process \<Rightarrow> runner_process" where
  "proceed parse iso_of now random p = (case rp_at p of
      Loop_test \<Rightarrow>
        (if \<not> rp_aborted p \<and> \<not> rp_stopped p
         then p\<lparr>rp_at := Draining (outbox_pending 32 (iso_of now) (rp_outbox p))\<rparr>
         else leave_loop (iso_of now) p)
    | Draining [] \<Rightarrow> begin_sleep random p
    | Draining (e # es) \<Rightarrow>
        (if rp_aborted p then begin_sleep random p
         else p\<lparr>rp_outbox := snd (markInflight (ox_sequence e) (rp_outbox p)), rp_at := Marking e es\<rparr>)
    | Marking e es \<Rightarrow>
        (case parse (ox_payload e) of
           None \<Rightarrow> retry_entry iso_of now e es p
         | Some payload \<Rightarrow>
             shown (Sent (ox_sequence e) (entry_request (rp_runner p) (iso_of now) e payload))
               (p\<lparr>rp_at := Calling e es\<rparr>))
    | Woken \<Rightarrow> leave_loop (iso_of now) p
    | _ \<Rightarrow> p)"

definition reply :: "(int \<Rightarrow> string) \<Rightarrow> bool \<Rightarrow> int \<Rightarrow> runner_process \<Rightarrow> runner_process" where
  "reply iso_of accepted now p = (case rp_at p of
      Calling e es \<Rightarrow>
        (if accepted
         then shown (Delivered (ox_sequence e))
                (p\<lparr>rp_outbox := snd (ack (ox_sequence e) (rp_outbox p)), rp_failures := 0,
                   rp_success := Some (iso_of now), rp_reachable := True, rp_at := Draining es\<rparr>)
         else retry_entry iso_of now e es p)
    | _ \<Rightarrow> p)"

definition timer_wakes :: "string \<Rightarrow> runner_process \<Rightarrow> runner_process" where
  "timer_wakes stamp p = (case rp_at p of
      Sleeping _ \<Rightarrow>
        (if rp_failures p \<ge> RUNNER_MAX_CONSECUTIVE_FAILURES then setStatus Ps_degraded stamp p
         else if rp_status p = Ps_degraded \<and> rp_failures p = 0 then setStatus Ps_idle stamp p
         else p)\<lparr>rp_at := Loop_test\<rparr>
    | _ \<Rightarrow> p)"

definition abort_process :: "runner_process \<Rightarrow> runner_process" where
  "abort_process p = p\<lparr>rp_aborted := True, rp_at := (case rp_at p of Sleeping _ \<Rightarrow> Woken | a \<Rightarrow> a)\<rparr>"

definition stop_process :: "string \<Rightarrow> runner_process \<Rightarrow> runner_process" where
  "stop_process stamp p = (if rp_stopped p then p
     else abort_process (setStatus Ps_stopping stamp (p\<lparr>rp_stopped := True\<rparr>)))"

section \<open>Status\<close>

datatype key_status = Key_missing | Key_is device_status

record runner_status =
  rs_runner :: string
  rs_seller :: string
  rs_status :: process_status
  rs_since :: string
  rs_failures :: nat
  rs_success :: "string option"
  rs_key :: key_status
  rs_deployments :: nat
  rs_healthy :: bool
  rs_reachable :: bool

definition buildStatus :: "string \<Rightarrow> runner_process \<Rightarrow> runner_status" where
  "buildStatus sellerId p = \<lparr>rs_runner = rp_runner p, rs_seller = sellerId, rs_status = rp_status p,
     rs_since = rp_since p, rs_failures = rp_failures p, rs_success = rp_success p, rs_key = Key_is Dv_active,
     rs_deployments = 0, rs_healthy = True, rs_reachable = rp_reachable p\<rparr>"

definition runnerStatus :: "doctor_ports \<Rightarrow> (string \<times> runner_process) option \<Rightarrow> string \<Rightarrow> runner_status" where
  "runnerStatus d running now =
     (let key = (case dp_key d of Some (Some k) \<Rightarrow> Key_is (dk_status k) | _ \<Rightarrow> Key_missing);
          count = (case dp_deployments d of None \<Rightarrow> 0 | Some n \<Rightarrow> n);
          healthy = (dp_corruption d = Some None)
      in case running of
           Some (sellerId, p) \<Rightarrow>
             (buildStatus sellerId p)\<lparr>rs_key := key, rs_deployments := count, rs_healthy := healthy\<rparr>
         | None \<Rightarrow>
             \<lparr>rs_runner = (case dp_config d of None \<Rightarrow> ''unknown'' | Some c \<Rightarrow> cf_runner c),
              rs_seller = (case dp_config d of None \<Rightarrow> ''unknown'' | Some c \<Rightarrow> cf_seller c),
              rs_status = Ps_stopped, rs_since = now, rs_failures = 0, rs_success = None, rs_key = key,
              rs_deployments = count, rs_healthy = healthy, rs_reachable = False\<rparr>)"

section \<open>Everything that can happen to a process\<close>

datatype process_op =
    Proceed int rat
  | Reply bool int
  | Timer_wakes string
  | Signal_aborts
  | Stop_called string
  | Entry_appended outbox_kind string int string "string option" string
  | Outbox_compacted

fun process_step :: "(string \<Rightarrow> jsval option) \<Rightarrow> (int \<Rightarrow> string) \<Rightarrow> process_op \<Rightarrow> runner_process \<Rightarrow> runner_process" where
  "process_step parse iso_of (Proceed now random) p = proceed parse iso_of now random p"
| "process_step parse iso_of (Reply accepted now) p = reply iso_of accepted now p"
| "process_step parse iso_of (Timer_wakes stamp) p = timer_wakes stamp p"
| "process_step parse iso_of Signal_aborts p = abort_process p"
| "process_step parse iso_of (Stop_called stamp) p = stop_process stamp p"
| "process_step parse iso_of (Entry_appended kind task token payload retryAt now) p =
     p\<lparr>rp_outbox := outbox_step (Ob_append kind task token payload retryAt now) (rp_outbox p)\<rparr>"
| "process_step parse iso_of Outbox_compacted p = p\<lparr>rp_outbox := outbox_step Ob_compact (rp_outbox p)\<rparr>"

definition process_run ::
  "(string \<Rightarrow> jsval option) \<Rightarrow> (int \<Rightarrow> string) \<Rightarrow> string \<Rightarrow> bool \<Rightarrow> string \<Rightarrow> outbox_op list \<Rightarrow> process_op list \<Rightarrow>
   runner_process" where
  "process_run parse iso_of runnerId signalAborted stamp stored ops =
     fold (process_step parse iso_of) ops (runnerStart runnerId signalAborted stamp (outbox_run stored))"

section \<open>An outbox entry, seen from outside\<close>

datatype entry_view = Open nat | Closed | Unused

definition view :: "outbox \<Rightarrow> nat \<Rightarrow> entry_view" where
  "view b n = (case find_entry n b of
      Some d \<Rightarrow> if settled d then Closed else Open (ox_retries d)
    | None \<Rightarrow> if n < ob_next b then Closed else Unused)"

lemma find_iff: "outbox_inv b \<Longrightarrow> find_entry n b = Some e \<longleftrightarrow> e \<in> set (ob_entries b) \<and> ox_sequence e = n"
proof
  assume b: "outbox_inv b" and e: "e \<in> set (ob_entries b) \<and> ox_sequence e = n"
  have "distinct (map ox_sequence (ob_entries b))" using b by (auto simp: outbox_inv_def strict_sorted_iff)
  then have "\<And>d. d \<in> set (ob_entries b) \<Longrightarrow> ox_sequence d = n \<Longrightarrow> d = e"
    using e by (metis distinct_map inj_onD)
  moreover obtain d where d: "find_entry n b = Some d"
    using e by (cases "find_entry n b") (auto simp: find_entry_def find_None_iff)
  ultimately show "find_entry n b = Some e" using find_entry_mem [OF d] by auto
qed (simp add: find_entry_mem)

lemma find_write:
  assumes "\<And>e. ox_sequence (f e) = ox_sequence e"
  shows "find_entry m (write_entry n f b) = (if m = n then map_option f (find_entry n b) else find_entry m b)"
proof -
  have "find (\<lambda>e. ox_sequence e = m) (write_first n f es) =
      (if m = n then map_option f (find (\<lambda>e. ox_sequence e = n) es) else find (\<lambda>e. ox_sequence e = m) es)" for es
    by (induction es) (auto simp: assms)
  then show ?thesis by (simp add: find_entry_def write_entry_def)
qed

lemma write_next [simp]: "ob_next (write_entry n f b) = ob_next b"
  by (simp add: write_entry_def)

lemma view_open: "outbox_inv b \<Longrightarrow> view b n = Open k \<Longrightarrow> k < DURABLE_OUTBOX_MAX_RETRIES"
  using entry_retry_ok [of b n] by (auto simp: view_def retry_ok_def split: option.splits if_splits)

lemma view_inflight: "view (snd (markInflight m b)) n = view b n"
  by (auto simp: markInflight_def view_def find_write settled_def split: option.splits)

lemma view_ack: "view (snd (ack m b)) n = (if n = m \<and> view b n \<noteq> Unused then Closed else view b n)"
  by (auto simp: ack_def view_def find_write settled_def split: option.splits)

lemma view_retry:
  "view (snd (markRetry m t b)) n = (if n = m then
      (case view b n of
         Open k \<Rightarrow> if DURABLE_OUTBOX_MAX_RETRIES \<le> k + 1 then Closed else Open (k + 1) | v \<Rightarrow> v)
    else view b n)"
  by (auto simp: markRetry_def view_def find_write settled_def split: option.splits)

lemma view_compact: "outbox_inv b \<Longrightarrow> view (outbox_step Ob_compact b) n = view b n"
proof -
  assume b: "outbox_inv b"
  have c: "outbox_inv (outbox_step Ob_compact b)" using outbox_step_ok [OF b] by blast
  have f: "find_entry n (outbox_step Ob_compact b) = Some e \<longleftrightarrow> find_entry n b = Some e \<and> \<not> settled e" for e
    unfolding find_iff [OF b] find_iff [OF c] by (auto simp: outbox_step_def compact_def)
  show ?thesis
  proof (cases "find_entry n b")
    case None
    then have "find_entry n (outbox_step Ob_compact b) = None" using f by (metis option.exhaust)
    then show ?thesis using None by (simp add: view_def outbox_step_def compact_def)
  next
    case (Some e)
    have "n < ob_next b" using find_entry_mem [OF Some] b by (auto simp: outbox_inv_def)
    moreover have "find_entry n (outbox_step Ob_compact b) = (if settled e then None else Some e)"
      using f Some by (metis option.exhaust option.inject)
    ultimately show ?thesis using Some by (simp add: view_def outbox_step_def compact_def)
  qed
qed

lemma find_snoc: "find P (xs @ [x]) = (case find P xs of None \<Rightarrow> if P x then Some x else None | Some y \<Rightarrow> Some y)"
  by (induction xs) auto

lemma view_append:
  assumes "outbox_inv b"
  shows "view (outbox_step (Ob_append kind task token payload retryAt now) b) n = view b n \<or>
    (view b n = Unused \<and> view (outbox_step (Ob_append kind task token payload retryAt now) b) n = Open 0)"
proof (cases "length (ob_entries b) < DURABLE_OUTBOX_MAX_SIZE")
  case True
  have "find (\<lambda>e. ox_sequence e = ob_next b) (ob_entries b) = None"
    using assms by (auto simp: find_None_iff outbox_inv_def)
  then show ?thesis
    using True by (auto simp: outbox_step_def outbox_append_def view_def find_entry_def settled_def Let_def
        find_snoc split: option.splits)
qed (simp add: outbox_step_def outbox_append_def)

lemma pending_open: "outbox_inv b \<Longrightarrow> e \<in> set (outbox_pending limit now b) \<Longrightarrow> \<exists>k. view b (ox_sequence e) = Open k"
  using pending_mem [of e limit now b] find_iff [of b "ox_sequence e" e] by (auto simp: view_def)

section \<open>The invariant of a process\<close>

definition calls :: "nat \<Rightarrow> process_effect list \<Rightarrow> nat" where
  "calls n tr = length (filter (\<lambda>x. case x of Sent m _ \<Rightarrow> m = n | _ \<Rightarrow> False) tr)"

lemma calls_simps [simp]:
  "calls n [] = 0" "calls n (tr @ [Sent m q]) = calls n tr + (if m = n then 1 else 0)"
  "calls n (tr @ [Status_changed s]) = calls n tr" "calls n (tr @ [Delivered m]) = calls n tr"
  "calls n (tr @ [Retried m]) = calls n tr"
  by (simp_all add: calls_def)

text \<open>No request for an entry follows its delivery.\<close>

fun repeats :: "process_effect \<Rightarrow> process_effect \<Rightarrow> bool" where
  "repeats (Delivered n) (Sent m q) = (m = n)"
| "repeats _ _ = False"

definition stays_delivered :: "process_effect list \<Rightarrow> bool" where
  "stays_delivered = sorted_wrt (\<lambda>x y. \<not> repeats x y)"

fun held_entries :: "loop_at \<Rightarrow> outbox_entry list" where
  "held_entries (Draining es) = es"
| "held_entries (Marking e es) = e # es"
| "held_entries (Calling e es) = e # es"
| "held_entries _ = []"

fun waits_for :: "loop_at \<Rightarrow> nat \<Rightarrow> bool" where
  "waits_for (Calling e es) n = (ox_sequence e = n)"
| "waits_for _ n = False"

definition entry_ok :: "outbox \<Rightarrow> loop_at \<Rightarrow> process_effect list \<Rightarrow> nat \<Rightarrow> bool" where
  "entry_ok b a tr n \<longleftrightarrow> (case view b n of
      Open k \<Rightarrow> calls n tr \<le> k + (if waits_for a n then 1 else 0) \<and> Delivered n \<notin> set tr
    | Closed \<Rightarrow> calls n tr \<le> 16
    | Unused \<Rightarrow> calls n tr = 0 \<and> Delivered n \<notin> set tr)"

definition process_inv :: "runner_process \<Rightarrow> bool" where
  "process_inv p \<longleftrightarrow> outbox_inv (rp_outbox p) \<and> distinct (map ox_sequence (held_entries (rp_at p))) \<and>
     (\<forall>e \<in> set (held_entries (rp_at p)). \<exists>k. view (rp_outbox p) (ox_sequence e) = Open k) \<and>
     (\<forall>n. entry_ok (rp_outbox p) (rp_at p) (rp_trace p) n) \<and> stays_delivered (rp_trace p) \<and>
     (rp_stopped p \<longrightarrow> rp_aborted p) \<and> (rp_aborted p \<longrightarrow> (\<forall>d. rp_at p \<noteq> Sleeping d)) \<and>
     rp_failures p = 0 \<and> rp_status p \<noteq> Ps_degraded"

lemma repeats_iff: "repeats x (Sent m q) \<longleftrightarrow> x = Delivered m"
  by (cases x) auto

lemma repeats_none: "\<not> repeats x (Status_changed s)" "\<not> repeats x (Delivered m)" "\<not> repeats x (Retried m)"
  by (cases x; simp)+

lemma stays_snoc [simp]:
  "stays_delivered (tr @ [Sent m q]) \<longleftrightarrow> stays_delivered tr \<and> Delivered m \<notin> set tr"
  "stays_delivered (tr @ [Status_changed s]) \<longleftrightarrow> stays_delivered tr"
  "stays_delivered (tr @ [Delivered m]) \<longleftrightarrow> stays_delivered tr"
  "stays_delivered (tr @ [Retried m]) \<longleftrightarrow> stays_delivered tr"
  by (auto simp: stays_delivered_def sorted_wrt_append repeats_iff repeats_none)

lemma entry_ok_snoc [simp]:
  "entry_ok b a (tr @ [Status_changed s]) n \<longleftrightarrow> entry_ok b a tr n"
  "entry_ok b a (tr @ [Retried m]) n \<longleftrightarrow> entry_ok b a tr n"
  by (simp_all add: entry_ok_def split: entry_view.split)

lemma status_inv:
  "process_inv p \<Longrightarrow> s \<noteq> Ps_degraded \<Longrightarrow> process_inv (setStatus s t p)"
  by (simp add: process_inv_def setStatus_def shown_def)

lemma status_keeps [simp]:
  "rp_at (setStatus s t p) = rp_at p" "rp_outbox (setStatus s t p) = rp_outbox p"
  "rp_aborted (setStatus s t p) = rp_aborted p" "rp_stopped (setStatus s t p) = rp_stopped p"
  "rp_status (setStatus s t p) = s" "rp_failures (setStatus s t p) = rp_failures p"
  by (simp_all add: setStatus_def shown_def)

text \<open>Moving to a place that holds no more entries and waits for none keeps the invariant.\<close>

lemma move_inv:
  assumes "process_inv p" "\<And>n. \<not> waits_for (rp_at p) n" "held_entries a = []" "\<And>n. \<not> waits_for a n"
    and "rp_aborted p \<Longrightarrow> \<forall>d. a \<noteq> Sleeping d"
  shows "process_inv (p\<lparr>rp_at := a\<rparr>)"
  using assms by (auto simp: process_inv_def entry_ok_def split: entry_view.splits)

lemma leave_inv: "process_inv p \<Longrightarrow> (\<And>n. \<not> waits_for (rp_at p) n) \<Longrightarrow> process_inv (leave_loop t p)"
  unfolding leave_loop_def by (rule move_inv) (simp_all add: status_inv)

lemma sleep_inv: "process_inv p \<Longrightarrow> (\<And>n. \<not> waits_for (rp_at p) n) \<Longrightarrow> process_inv (begin_sleep r p)"
  unfolding begin_sleep_def by (rule move_inv) simp_all

lemma start_inv: "outbox_inv b \<Longrightarrow> process_inv (runnerStart r sa t b)"
  unfolding runnerStart_def
  by (rule status_inv)
    (auto simp: process_inv_def entry_ok_def stays_delivered_def split: entry_view.splits)

lemma outbox_ops:
  assumes "outbox_inv b"
  shows "outbox_inv (snd (markInflight m b))" "outbox_inv (snd (markRetry m t b))" "outbox_inv (snd (ack m b))"
  using outbox_step_ok [OF assms, of "Ob_mark_inflight m"] outbox_step_ok [OF assms, of "Ob_mark_retry m t"]
    outbox_step_ok [OF assms, of "Ob_ack m"] by (simp_all add: outbox_step_def)

lemma entry_ok_view: "view b' n = view b n \<Longrightarrow> entry_ok b' a tr n \<longleftrightarrow> entry_ok b a tr n"
  by (simp add: entry_ok_def)

lemma inflight_inv: "process_inv p \<Longrightarrow> process_inv (p\<lparr>rp_outbox := snd (markInflight m (rp_outbox p))\<rparr>)"
  by (simp add: process_inv_def outbox_ops view_inflight entry_ok_view [OF view_inflight])

lemma head_entry:
  assumes "process_inv p" "held_entries (rp_at p) = e # es"
  obtains k where "view (rp_outbox p) (ox_sequence e) = Open k" "k < 16" "distinct (map ox_sequence es)"
    "\<forall>d \<in> set es. ox_sequence d \<noteq> ox_sequence e \<and> (\<exists>k. view (rp_outbox p) (ox_sequence d) = Open k)"
proof -
  have b: "outbox_inv (rp_outbox p)" and held: "distinct (map ox_sequence (e # es))"
    "\<forall>d \<in> set (e # es). \<exists>k. view (rp_outbox p) (ox_sequence d) = Open k"
    using assms by (simp_all add: process_inv_def)
  then obtain k where k: "view (rp_outbox p) (ox_sequence e) = Open k" by auto
  have "ox_sequence d \<noteq> ox_sequence e" if "d \<in> set es" for d
    using held(1) that by simp (metis imageI)
  then show thesis
    by (intro that [OF k]) (use view_open [OF b k] held in \<open>simp_all add: DURABLE_OUTBOX_MAX_RETRIES_def\<close>)
qed

text \<open>While an entry is at the head, the others wait for nothing.\<close>

lemma head_counts:
  assumes "process_inv p" "held_entries (rp_at p) = e # es" "view (rp_outbox p) (ox_sequence e) = Open k"
  shows "calls (ox_sequence e) (rp_trace p) \<le> k + 1 \<and> Delivered (ox_sequence e) \<notin> set (rp_trace p) \<and>
    (\<forall>n. n \<noteq> ox_sequence e \<longrightarrow> \<not> waits_for (rp_at p) n)"
proof -
  have "\<forall>n. n \<noteq> ox_sequence e \<longrightarrow> \<not> waits_for (rp_at p) n" using assms(2) by (cases "rp_at p") auto
  moreover have "entry_ok (rp_outbox p) (rp_at p) (rp_trace p) (ox_sequence e)"
    using assms(1) by (simp add: process_inv_def)
  ultimately show ?thesis using assms(3) by (auto simp: entry_ok_def split: if_splits)
qed

lemma others_ok:
  assumes "process_inv p" "\<not> waits_for (rp_at p) n" "\<not> waits_for a n" "view b n = view (rp_outbox p) n"
  shows "entry_ok b a (rp_trace p) n"
proof -
  have "entry_ok (rp_outbox p) (rp_at p) (rp_trace p) n" using assms(1) by (simp add: process_inv_def)
  then show ?thesis using assms(2-4) by (cases "view (rp_outbox p) n") (simp_all add: entry_ok_def)
qed

lemma retry_inv:
  assumes "process_inv p" "held_entries (rp_at p) = e # es"
  shows "process_inv (retry_entry iso_of now e es p)"
proof -
  obtain k where k: "view (rp_outbox p) (ox_sequence e) = Open k" "k < 16" "distinct (map ox_sequence es)"
    "\<forall>d \<in> set es. ox_sequence d \<noteq> ox_sequence e \<and> (\<exists>k. view (rp_outbox p) (ox_sequence d) = Open k)"
    using assms by (rule head_entry)
  note c = head_counts [OF assms k(1)]
  obtain t where t: "retry_entry iso_of now e es p = shown (Retried (ox_sequence e))
      (p\<lparr>rp_outbox := snd (markRetry (ox_sequence e) t (rp_outbox p)), rp_at := Draining es\<rparr>)"
    by (simp add: retry_entry_def Let_def)
  have "entry_ok (snd (markRetry (ox_sequence e) t (rp_outbox p))) (Draining es) (rp_trace p) n" for n
  proof (cases "n = ox_sequence e")
    case True
    then show ?thesis using c k(1,2) by (simp add: entry_ok_def view_retry DURABLE_OUTBOX_MAX_RETRIES_def)
  next
    case False
    then show ?thesis using others_ok [OF assms(1), of n] c by (simp add: view_retry)
  qed
  then show ?thesis
    using assms(1) k(3,4) by (simp add: t shown_def process_inv_def outbox_ops view_retry)
qed

lemma deliver_inv:
  assumes "process_inv p" "rp_at p = Calling e es"
  shows "process_inv (reply iso_of True now p)"
proof -
  have held: "held_entries (rp_at p) = e # es" using assms(2) by simp
  obtain k where k: "view (rp_outbox p) (ox_sequence e) = Open k" "k < 16" "distinct (map ox_sequence es)"
    "\<forall>d \<in> set es. ox_sequence d \<noteq> ox_sequence e \<and> (\<exists>k. view (rp_outbox p) (ox_sequence d) = Open k)"
    using assms(1) held by (rule head_entry)
  note c = head_counts [OF assms(1) held k(1)]
  have "entry_ok (snd (ack (ox_sequence e) (rp_outbox p))) (Draining es) (rp_trace p @ [Delivered (ox_sequence e)]) n" for n
  proof (cases "n = ox_sequence e")
    case True
    then show ?thesis using c k(1,2) by (simp add: entry_ok_def view_ack)
  next
    case False
    then have "entry_ok (snd (ack (ox_sequence e) (rp_outbox p))) (Draining es) (rp_trace p) n"
      using others_ok [OF assms(1), of n] c by (simp add: view_ack)
    then show ?thesis using False by (simp add: entry_ok_def split: entry_view.splits)
  qed
  then show ?thesis
    using assms k(3,4) by (simp add: reply_def shown_def process_inv_def outbox_ops view_ack)
qed

lemma send_inv:
  assumes "process_inv p" "rp_at p = Marking e es"
  shows "process_inv (shown (Sent (ox_sequence e) q) (p\<lparr>rp_at := Calling e es\<rparr>))"
proof -
  have held: "held_entries (rp_at p) = e # es" using assms(2) by simp
  obtain k where k: "view (rp_outbox p) (ox_sequence e) = Open k" using assms(1) held by (rule head_entry)
  have e: "entry_ok (rp_outbox p) (rp_at p) (rp_trace p) (ox_sequence e)" using assms(1) by (simp add: process_inv_def)
  have "entry_ok (rp_outbox p) (Calling e es) (rp_trace p @ [Sent (ox_sequence e) q]) n" for n
  proof (cases "n = ox_sequence e")
    case True
    then show ?thesis using e k assms(2) by (simp add: entry_ok_def)
  next
    case False
    then have "entry_ok (rp_outbox p) (Calling e es) (rp_trace p) n"
      using others_ok [OF assms(1), of n] assms(2) by simp
    then show ?thesis using False by (auto simp: entry_ok_def split: entry_view.splits)
  qed
  then show ?thesis using assms head_counts [OF assms(1) held k] by (simp add: shown_def process_inv_def)
qed

lemma drain_inv:
  assumes "process_inv p" "rp_at p = Loop_test"
  shows "process_inv (p\<lparr>rp_at := Draining (outbox_pending 32 t (rp_outbox p))\<rparr>)"
proof -
  have b: "outbox_inv (rp_outbox p)" using assms(1) by (simp add: process_inv_def)
  have "entry_ok (rp_outbox p) (Draining es) (rp_trace p) n" for es n
    using others_ok [OF assms(1), of n] assms(2) by simp
  then show ?thesis
    using assms(1) pending_ordered [OF b, of 32 t] pending_open [OF b, of _ 32 t]
    by (simp add: process_inv_def strict_sorted_iff)
qed

lemma proceed_inv:
  assumes "process_inv p"
  shows "process_inv (proceed parse iso_of now random p)"
proof (cases "rp_at p")
  case Loop_test
  then show ?thesis using assms drain_inv [OF assms Loop_test] leave_inv [OF assms] by (simp add: proceed_def)
next
  case (Draining es)
  show ?thesis
  proof (cases "es = [] \<or> rp_aborted p")
    case True
    then show ?thesis using Draining sleep_inv [OF assms] by (auto simp: proceed_def split: list.split)
  next
    case False
    then obtain d ds where es: "es = d # ds" by (cases es) auto
    let ?p = "p\<lparr>rp_outbox := snd (markInflight (ox_sequence d) (rp_outbox p))\<rparr>"
    have i: "process_inv ?p" by (rule inflight_inv [OF assms])
    have "entry_ok (rp_outbox ?p) (Marking d ds) (rp_trace ?p) n" for n
      using others_ok [OF i, of n] Draining by simp
    then have "process_inv (?p\<lparr>rp_at := Marking d ds\<rparr>)"
      using i Draining es by (simp add: process_inv_def)
    then show ?thesis using False Draining es by (simp add: proceed_def)
  qed
next
  case (Marking d ds)
  have "process_inv (retry_entry iso_of now d ds p)" by (rule retry_inv [OF assms]) (simp add: Marking)
  then show ?thesis
    using Marking send_inv [OF assms Marking] by (simp add: proceed_def split: option.split)
next
  case Woken
  then show ?thesis using leave_inv [OF assms] by (simp add: proceed_def)
qed (use assms in \<open>simp_all add: proceed_def\<close>)

lemma outbox_change_inv:
  assumes "process_inv p" "outbox_inv b"
    and "\<And>n. view b n = view (rp_outbox p) n \<or> (view (rp_outbox p) n = Unused \<and> view b n = Open 0)"
  shows "process_inv (p\<lparr>rp_outbox := b\<rparr>)"
proof -
  have "entry_ok b (rp_at p) (rp_trace p) n" for n
  proof -
    have "entry_ok (rp_outbox p) (rp_at p) (rp_trace p) n" using assms(1) by (simp add: process_inv_def)
    then show ?thesis using assms(3) [of n] by (elim disjE conjE) (simp_all add: entry_ok_def)
  qed
  moreover have "\<exists>k. view b (ox_sequence e) = Open k" if "e \<in> set (held_entries (rp_at p))" for e
    using assms(1) assms(3) [of "ox_sequence e"] that by (auto simp: process_inv_def)
  ultimately show ?thesis using assms(1,2) by (simp add: process_inv_def)
qed

lemma abort_inv: "process_inv p \<Longrightarrow> process_inv (abort_process p)"
  by (cases "rp_at p") (auto simp: abort_process_def process_inv_def entry_ok_def split: entry_view.splits)

lemma stop_inv: "process_inv p \<Longrightarrow> process_inv (stop_process t p)"
proof -
  assume p: "process_inv p"
  have "process_inv (setStatus Ps_stopping t p)" by (rule status_inv [OF p]) simp
  then have a: "process_inv (abort_process (setStatus Ps_stopping t p))" by (rule abort_inv)
  have "abort_process (setStatus Ps_stopping t (p\<lparr>rp_stopped := True\<rparr>)) =
      (abort_process (setStatus Ps_stopping t p))\<lparr>rp_stopped := True\<rparr>"
    by (simp add: abort_process_def setStatus_def shown_def)
  then show ?thesis using p a by (simp add: stop_process_def) (simp add: process_inv_def abort_process_def)
qed

lemma process_step_inv: "process_inv p \<Longrightarrow> process_inv (process_step parse iso_of x p)"
proof (cases x)
  case (Proceed now random)
  then show "process_inv p \<Longrightarrow> ?thesis" by (simp add: proceed_inv)
next
  case (Reply accepted now)
  assume p: "process_inv p"
  show ?thesis
  proof (cases "rp_at p")
    case (Calling d ds)
    then have "held_entries (rp_at p) = d # ds" by simp
    from retry_inv [OF p this] deliver_inv [OF p Calling] show ?thesis
      using Reply Calling by (cases accepted) (simp_all add: reply_def)
  qed (use p Reply in \<open>simp_all add: reply_def\<close>)
next
  case (Timer_wakes t)
  assume p: "process_inv p"
  show ?thesis
  proof (cases "rp_at p")
    case (Sleeping d)
    then show ?thesis
      using Timer_wakes move_inv [OF p, of Loop_test] p
      by (simp add: timer_wakes_def process_inv_def RUNNER_MAX_CONSECUTIVE_FAILURES_def)
  qed (use p Timer_wakes in \<open>simp_all add: timer_wakes_def\<close>)
next
  case Signal_aborts
  then show "process_inv p \<Longrightarrow> ?thesis" by (simp add: abort_inv)
next
  case (Stop_called t)
  then show "process_inv p \<Longrightarrow> ?thesis" by (simp add: stop_inv)
next
  case (Entry_appended kind task token payload retryAt now)
  assume p: "process_inv p"
  then have b: "outbox_inv (rp_outbox p)" by (simp add: process_inv_def)
  show ?thesis
    using Entry_appended outbox_change_inv [OF p conjunct1 [OF outbox_step_ok [OF b]] view_append [OF b]] by simp
next
  case Outbox_compacted
  assume p: "process_inv p"
  then have b: "outbox_inv (rp_outbox p)" by (simp add: process_inv_def)
  show ?thesis
    using Outbox_compacted outbox_change_inv [OF p conjunct1 [OF outbox_step_ok [OF b]]] view_compact [OF b] by simp
qed

section \<open>The properties\<close>

interpretation processes: op_machine "runnerStart runnerId signalAborted t (outbox_run stored)"
    "process_step parse iso_of" process_inv
  for runnerId signalAborted t stored parse iso_of
  by unfold_locales (rule start_inv, unfold outbox_run_def, rule outboxes.invar_run, rule process_step_inv)

lemma run_inv: "process_inv (process_run parse iso_of runnerId signalAborted t stored ops)"
  unfolding process_run_def by (rule processes.invar_run)

lemma calls_bounded:
  assumes "process_inv p"
  shows "calls n (rp_trace p) \<le> 16"
proof -
  have b: "outbox_inv (rp_outbox p)" and e: "entry_ok (rp_outbox p) (rp_at p) (rp_trace p) n"
    using assms by (simp_all add: process_inv_def)
  show ?thesis
  proof (cases "view (rp_outbox p) n")
    case (Open k)
    then show ?thesis
      using e view_open [OF b Open] by (auto simp: entry_ok_def DURABLE_OUTBOX_MAX_RETRIES_def split: if_splits)
  qed (use e in \<open>simp_all add: entry_ok_def\<close>)
qed

text \<open>C11: The outbound loop delivers each outbox entry at most once and tries it at most 16 times: over any
  sequence of loop steps, transport replies, timers, aborts, stops, appended entries and compactions, starting
  from any outbox, no request for an entry follows the delivery of that entry, and no entry is sent more
  than 16 times.\<close>

theorem entries_are_sent_boundedly:
  "let p = process_run parse iso_of runnerId signalAborted t stored ops in
   stays_delivered (rp_trace p) \<and> (\<forall>n. calls n (rp_trace p) \<le> 16)"
  using run_inv [of parse iso_of runnerId signalAborted t stored ops] calls_bounded
  by (auto simp: Let_def process_inv_def)

text \<open>The entry an aborted loop may still send: the one whose marking it was waiting for.\<close>

fun last_call :: "loop_at \<Rightarrow> nat \<Rightarrow> nat" where
  "last_call (Marking e es) n = (if ox_sequence e = n then 1 else 0)"
| "last_call _ n = 0"

lemma aborted_sends_last:
  assumes "rp_aborted p"
  shows "rp_aborted (process_step parse iso_of x p) \<and>
    calls n (rp_trace (process_step parse iso_of x p)) + last_call (rp_at (process_step parse iso_of x p)) n
      \<le> calls n (rp_trace p) + last_call (rp_at p) n"
  using assms
  by (cases x)
    (auto simp: proceed_def reply_def timer_wakes_def abort_process_def stop_process_def retry_entry_def leave_loop_def
      begin_sleep_def setStatus_def shown_def Let_def split: loop_at.split list.split option.split)

lemma aborted_run_sends_last:
  "rp_aborted p \<Longrightarrow> calls n (rp_trace (fold (process_step parse iso_of) ops p)) +
     last_call (rp_at (fold (process_step parse iso_of) ops p)) n \<le> calls n (rp_trace p) + last_call (rp_at p) n"
proof (induction ops arbitrary: p)
  case (Cons x ops)
  from aborted_sends_last [OF Cons.prems, of parse iso_of x n] Cons.IH [of "process_step parse iso_of x p"]
  show ?case by simp
qed simp

text \<open>An abort stops the sending: whatever happens before and after the process is told to abort, no request is
  sent after it, except one for the entry whose marking as in flight the loop was waiting for.\<close>

theorem abort_stops_sending:
  "let p = process_run parse iso_of runnerId signalAborted t stored ops in
   calls n (rp_trace (process_run parse iso_of runnerId signalAborted t stored (ops @ Signal_aborts # later)))
     \<le> calls n (rp_trace p) + last_call (rp_at p) n"
proof -
  let ?p = "process_run parse iso_of runnerId signalAborted t stored ops"
  have "rp_aborted (abort_process ?p)" "rp_trace (abort_process ?p) = rp_trace ?p"
    "last_call (rp_at (abort_process ?p)) n = last_call (rp_at ?p) n"
    by (simp_all add: abort_process_def split: loop_at.split)
  then show ?thesis using aborted_run_sends_last [of "abort_process ?p" n parse iso_of later] by (simp add: process_run_def Let_def)
qed

lemma aborted_loop_ends:
  assumes "rp_aborted p" "\<And>d. rp_at p \<noteq> Sleeping d"
  shows "let q = fold (process_step parse iso_of) [Proceed t1 r1, Reply ok t2, Proceed t3 r3, Proceed t4 r4] p in
    rp_at q = Loop_done \<and> rp_status q = (if rp_at p = Loop_done then rp_status p else Ps_stopped)"
proof -
  have drained: "rp_at (proceed parse iso_of t4 r4 (proceed parse iso_of t3 r3 q)) = Loop_done \<and>
      rp_status (proceed parse iso_of t4 r4 (proceed parse iso_of t3 r3 q)) = Ps_stopped"
    if "rp_at q = Draining es" "rp_aborted q" for q es
    using that by (cases es) (simp_all add: proceed_def begin_sleep_def leave_loop_def)
  have called: "rp_at (reply iso_of ok t2 q) = Draining es" "rp_aborted (reply iso_of ok t2 q)"
    if "rp_at q = Calling e es" "rp_aborted q" for q e es
    using that by (auto simp: reply_def retry_entry_def shown_def Let_def)
  show ?thesis
  proof (cases "rp_at p")
    case (Draining es)
    then show ?thesis
      using assms(1) by (cases es) (simp_all add: Let_def reply_def proceed_def begin_sleep_def leave_loop_def)
  next
    case (Marking e es)
    show ?thesis
    proof (cases "parse (ox_payload e)")
      case None
      then have "rp_at (proceed parse iso_of t1 r1 p) = Draining es" "rp_aborted (proceed parse iso_of t1 r1 p)"
        using Marking assms(1) by (simp_all add: proceed_def retry_entry_def shown_def Let_def)
      then show ?thesis using drained Marking by (simp add: Let_def reply_def)
    next
      case (Some v)
      then have "rp_at (proceed parse iso_of t1 r1 p) = Calling e es" "rp_aborted (proceed parse iso_of t1 r1 p)"
        using Marking assms(1) by (simp_all add: proceed_def shown_def)
      from drained [OF called [OF this]] show ?thesis using Marking by (simp add: Let_def)
    qed
  next
    case (Calling e es)
    then have "proceed parse iso_of t1 r1 p = p" by (simp add: proceed_def)
    with drained [OF called [OF Calling assms(1)]] show ?thesis using Calling by (simp add: Let_def)
  qed (use assms in \<open>simp_all add: Let_def reply_def proceed_def leave_loop_def\<close>)
qed

text \<open>C12: A graceful stop ends the loop as soon as the request in flight is answered: after \<open>stop\<close>, at most three
  steps of the loop and one reply end it, and the process then reports that it is stopped. The only exception
  is a process whose loop had already ended on its signal before the first \<open>stop\<close>: it reports that it
  is stopping from then on.\<close>

theorem stop_ends_the_loop:
  "let p = process_run parse iso_of runnerId signalAborted t stored ops;
       q = fold (process_step parse iso_of)
             [Stop_called t0, Proceed t1 r1, Reply ok t2, Proceed t3 r3, Proceed t4 r4] p
   in rp_at q = Loop_done \<and>
      rp_status q = (if rp_at p \<noteq> Loop_done then Ps_stopped else if rp_stopped p then rp_status p else Ps_stopping)"
proof -
  let ?p = "process_run parse iso_of runnerId signalAborted t stored ops"
  have inv: "process_inv ?p" by (rule run_inv)
  show ?thesis
  proof (cases "rp_stopped ?p")
    case True
    then have "rp_aborted ?p" "\<And>d. rp_at ?p \<noteq> Sleeping d" using inv by (auto simp: process_inv_def)
    from aborted_loop_ends [OF this, of parse iso_of t1 r1 ok t2 t3 r3 t4 r4] show ?thesis
      using True by (simp add: stop_process_def Let_def)
  next
    case False
    let ?q = "stop_process t0 ?p"
    have q: "rp_aborted ?q" "rp_status ?q = Ps_stopping" "rp_at ?q = (case rp_at ?p of Sleeping _ \<Rightarrow> Woken | a \<Rightarrow> a)"
      using False by (simp_all add: stop_process_def abort_process_def)
    then have "\<And>d. rp_at ?q \<noteq> Sleeping d" by (simp split: loop_at.splits)
    from aborted_loop_ends [OF q(1) this, of parse iso_of t1 r1 ok t2 t3 r3 t4 r4] show ?thesis
      using False q(2,3) by (auto simp: Let_def split: loop_at.splits)
  qed
qed

text \<open>No failure is ever counted, so the process never reports that it is degraded.\<close>

lemma never_degraded:
  "rp_failures (process_run parse iso_of runnerId signalAborted t stored ops) = 0 \<and>
   rp_status (process_run parse iso_of runnerId signalAborted t stored ops) \<noteq> Ps_degraded"
  using run_inv [of parse iso_of runnerId signalAborted t stored ops] by (simp add: process_inv_def)

text \<open>The doctor reports health exactly when no check fails.\<close>

lemma doctor_healthy_iff:
  "snd (runnerDoctor d) \<longleftrightarrow> \<not> dp_win32 d \<and> dp_config d \<noteq> None \<and>
     (\<exists>k. dp_key d = Some (Some k) \<and> dk_status k \<noteq> Dv_revoked) \<and>
     dp_corruption d = Some None \<and> dp_version d \<noteq> None \<and> dp_deployments d \<noteq> None"
  by (auto simp: runnerDoctor_def check_device_key_def check_durable_store_def check_deployments_def
      split: option.splits if_splits)

text \<open>A poll waits between the base interval and a quarter above the maximum.\<close>

lemma poll_bounds:
  assumes "0 \<le> r" "r < 1"
  shows "RUNNER_POLL_BASE_INTERVAL_MS \<le> pollBackoff n r \<and> pollBackoff n r \<le> 75000"
proof -
  define x where "x = min (of_int RUNNER_POLL_BASE_INTERVAL_MS * 2 ^ n) (of_int RUNNER_POLL_MAX_BACKOFF_MS :: rat)"
  have x: "0 \<le> x" "x \<le> 60000"
    by (simp_all add: x_def RUNNER_POLL_MAX_BACKOFF_MS_def RUNNER_POLL_BASE_INTERVAL_MS_def min_le_iff_disj)
  have "jittered x r \<le> of_int 75000" using jittered_bounds(2) [OF x(1) assms] x(2) by simp
  then have "js_round (jittered x r) \<le> 75000" using js_round_mono js_round_of_int by metis
  then show ?thesis
    by (simp add: pollBackoff_def Let_def x_def [symmetric]) (simp add: RUNNER_POLL_BASE_INTERVAL_MS_def)
qed

end
