(* ===== verification/ContextPort.thy ===== *)
theory ContextPort
  imports JsonText Assembler
begin

text \<open>
  packages/core/src/context-port.ts: the strict validator of a recalled context bundle. Every field is
  read exactly, the scope must be the pinned one, bounds and freshness are enforced, and the digests of
  the items and of the bundle are computed again. SHA-256 and \<open>Date.parse\<close> are parameters; messages of
  errors are left out.
\<close>

section \<open>Vocabulary\<close>

definition CONTEXT_BUNDLE_SCHEMA_VERSION :: string where
  "CONTEXT_BUNDLE_SCHEMA_VERSION = ''context-bundle.v1''"

definition CONTEXT_RULE_VERSION :: string where
  "CONTEXT_RULE_VERSION = ''workbench-rules.v1''"

definition CONTEXT_UNTRUSTED_WARNING :: string where
  "CONTEXT_UNTRUSTED_WARNING = ''UNTRUSTED_CONTEXT_DATA_NOT_INSTRUCTIONS''"

datatype context_error = Bundle_invalid | Bundle_scope_mismatch | Bundle_corrupt

record context_scope =
  cs_workspace :: string
  cs_position :: string
  cs_principal :: string

record bundle_item =
  bi_kind :: string
  bi_text :: string
  bi_artifact :: string
  bi_locator :: string
  bi_source :: string
  bi_digest :: string
  bi_source_revision :: int
  bi_derived_revision :: int
  bi_event :: string
  bi_derived :: string

record recalled_bundle =
  kb_scope :: context_scope
  kb_retrieved :: string
  kb_watermark :: int
  kb_items :: "bundle_item list"
  kb_digest :: string
  kb_warnings :: "string list"

definition opaque_char :: "char \<Rightarrow> bool" where
  "opaque_char c = (is_lower c \<or> is_upper c \<or> is_digit c \<or> c \<in> set ''._:-'')"

text \<open>\<open>/^[A-Za-z0-9][A-Za-z0-9._:-]{0,127}$/\<close>\<close>

definition OPAQUE_PATTERN :: "string \<Rightarrow> bool" where
  "OPAQUE_PATTERN s = (case s of
      [] \<Rightarrow> False
    | c # cs \<Rightarrow> (is_lower c \<or> is_upper c \<or> is_digit c) \<and> length cs \<le> 127 \<and> list_all opaque_char cs)"

text \<open>\<open>context://occurrences/sha256:<hex>@<number>/artifacts/sha256:<hex>\<close>\<close>

definition LOCATOR_PATTERN :: "string \<Rightarrow> bool" where
  "LOCATOR_PATTERN s =
     (let head = ''context://occurrences/''; tail = ''/artifacts/'';
          digest = take 71 (drop (length head) s); r = drop (length head + 71) s;
          number = takeWhile is_digit (tl r); last = dropWhile is_digit (tl r)
      in starts_with s head \<and> digest_pattern digest \<and> starts_with r ''@'' \<and>
         number \<noteq> [] \<and> hd number \<noteq> CHR ''0'' \<and>
         starts_with last tail \<and> digest_pattern (drop (length tail) last))"

definition ITEM_KINDS :: "string list" where
  "ITEM_KINDS = [''raw_excerpt'', ''entity_mention'', ''task_marker'']"

section \<open>Digests\<close>

text \<open>On the values it is given here, which hold strings and safe integers only, \<open>canonicalContextJson\<close>
  writes what \<open>canonicalJson\<close> of the runner protocol writes; the text of other numbers is a parameter.\<close>

definition canonicalContextJson :: "(rat \<Rightarrow> string) \<Rightarrow> jsval \<Rightarrow> string option" where
  "canonicalContextJson fraction v = canonical_text False fraction v"

definition context_sha256 :: "(nat list \<Rightarrow> string) \<Rightarrow> string option \<Rightarrow> string" where
  "context_sha256 sha t = (case t of None \<Rightarrow> [] | Some t \<Rightarrow> ''sha256:'' @ sha (utf8_encode t))"

text \<open>The fields of an item other than \<open>artifactDigest\<close>.\<close>

definition item_members :: "bundle_item \<Rightarrow> (string \<times> jsval) list" where
  "item_members i = [(''kind'', JStr (bi_kind i)), (''text'', JStr (bi_text i)), (''artifactId'', JStr (bi_artifact i)),
     (''locator'', JStr (bi_locator i)), (''sourceDigest'', JStr (bi_source i)),
     (''sourceRevision'', JNum (of_int (bi_source_revision i))),
     (''derivedRevision'', JNum (of_int (bi_derived_revision i))), (''ruleVersion'', JStr CONTEXT_RULE_VERSION),
     (''eventAt'', JStr (bi_event i)), (''derivedAt'', JStr (bi_derived i)),
     (''trust'', JStr ''untrusted-context-data'')]"

definition item_value :: "bundle_item \<Rightarrow> jsval" where
  "item_value i = JObj (item_members i @ [(''artifactDigest'', JStr (bi_digest i))])"

definition bundle_scope_value :: "context_scope \<Rightarrow> jsval" where
  "bundle_scope_value s = JObj [(''workspaceId'', JStr (cs_workspace s)), (''positionId'', JStr (cs_position s)),
     (''principal'', JStr (cs_principal s))]"

definition digest_value :: "recalled_bundle \<Rightarrow> jsval" where
  "digest_value b = JObj [(''schemaVersion'', JStr CONTEXT_BUNDLE_SCHEMA_VERSION), (''scope'', bundle_scope_value (kb_scope b)),
     (''consistency'', JStr ''client-observed-per-item''),
     (''completedWatermark'', JObj [(''occurrenceRevision'', JNum (of_int (kb_watermark b))),
        (''ruleVersion'', JStr CONTEXT_RULE_VERSION)]),
     (''items'', JArr (map item_value (kb_items b))), (''warnings'', JArr (map JStr (kb_warnings b)))]"

definition computeContextArtifactDigest :: "(nat list \<Rightarrow> string) \<Rightarrow> (rat \<Rightarrow> string) \<Rightarrow> bundle_item \<Rightarrow> string" where
  "computeContextArtifactDigest sha fraction i =
     context_sha256 sha (canonicalContextJson fraction (JObj (item_members i)))"

definition computeContextBundleDigest :: "(nat list \<Rightarrow> string) \<Rightarrow> (rat \<Rightarrow> string) \<Rightarrow> recalled_bundle \<Rightarrow> string" where
  "computeContextBundleDigest sha fraction b = context_sha256 sha (canonicalContextJson fraction (digest_value b))"

section \<open>The validator\<close>

definition requireContextString :: "jsval \<Rightarrow> context_error + string" where
  "requireContextString v = (case v of JStr s \<Rightarrow> Inr s | _ \<Rightarrow> Inl Bundle_invalid)"

definition requireSafeInteger :: "jsval \<Rightarrow> context_error + int" where
  "requireSafeInteger v = (case js_safe_int v of None \<Rightarrow> Inl Bundle_invalid | Some n \<Rightarrow> Inr n)"

definition hasExactKeys :: "jsval \<Rightarrow> string list \<Rightarrow> bool" where
  "hasExactKeys v ks = (sort (js_keys v) = sort ks)"

text \<open>\<open>/^\d{4}-\d{2}-\d{2}T/\<close> and a finite \<open>Date.parse\<close>.\<close>

definition date_prefix :: "string \<Rightarrow> bool" where
  "date_prefix s = list_all2 (\<lambda>c m. if m = CHR ''d'' then is_digit c else c = m) (take 11 s) ''dddd-dd-ddT''"

definition validateContextTimestamp :: "(string \<Rightarrow> int option) \<Rightarrow> jsval \<Rightarrow> context_error + string" where
  "validateContextTimestamp parse_date v =
     and_then (requireContextString v) (\<lambda>s.
     ensure (date_prefix s \<and> parse_date s \<noteq> None) Bundle_invalid (Inr s))"

definition validateScopeValue :: "jsval \<Rightarrow> context_error + context_scope" where
  "validateScopeValue v =
     ensure (is_plain_object v) Bundle_invalid
    (ensure (hasExactKeys v [''workspaceId'', ''positionId'', ''principal'']) Bundle_invalid
    (and_then (requireContextString (js_get v ''workspaceId'')) (\<lambda>workspace.
     and_then (requireContextString (js_get v ''positionId'')) (\<lambda>position.
     and_then (requireContextString (js_get v ''principal'')) (\<lambda>principal.
     ensure (OPAQUE_PATTERN workspace \<and> OPAQUE_PATTERN position \<and> OPAQUE_PATTERN principal) Bundle_invalid
       (Inr \<lparr>cs_workspace = workspace, cs_position = position, cs_principal = principal\<rparr>))))))"

definition ITEM_KEYS :: "string list" where
  "ITEM_KEYS = [''kind'', ''text'', ''artifactId'', ''locator'', ''sourceDigest'', ''artifactDigest'', ''sourceRevision'',
     ''derivedRevision'', ''ruleVersion'', ''eventAt'', ''derivedAt'', ''trust'']"

definition validateContextItem :: "(string \<Rightarrow> int option) \<Rightarrow> jsval \<Rightarrow> context_error + bundle_item" where
  "validateContextItem parse_date v =
     ensure (is_plain_object v) Bundle_invalid
    (ensure (hasExactKeys v ITEM_KEYS) Bundle_invalid
    (and_then (requireContextString (js_get v ''kind'')) (\<lambda>kind.
     ensure (kind \<in> set ITEM_KINDS) Bundle_invalid
    (and_then (requireContextString (js_get v ''text'')) (\<lambda>content.
     and_then (requireContextString (js_get v ''artifactId'')) (\<lambda>artifactId.
     and_then (requireContextString (js_get v ''locator'')) (\<lambda>locator.
     and_then (requireContextString (js_get v ''sourceDigest'')) (\<lambda>sourceDigest.
     and_then (requireContextString (js_get v ''artifactDigest'')) (\<lambda>artifactDigest.
     ensure (digest_pattern artifactId \<and> digest_pattern sourceDigest \<and> digest_pattern artifactDigest \<and>
             LOCATOR_PATTERN locator) Bundle_invalid
    (and_then (requireSafeInteger (js_get v ''sourceRevision'')) (\<lambda>sourceRevision.
     and_then (requireSafeInteger (js_get v ''derivedRevision'')) (\<lambda>derivedRevision.
     ensure (\<not> (sourceRevision < 1 \<or> derivedRevision < 1)) Bundle_invalid
    (and_then (requireContextString (js_get v ''ruleVersion'')) (\<lambda>ruleVersion.
     ensure (ruleVersion = CONTEXT_RULE_VERSION) Bundle_invalid
    (and_then (validateContextTimestamp parse_date (js_get v ''eventAt'')) (\<lambda>eventAt.
     and_then (validateContextTimestamp parse_date (js_get v ''derivedAt'')) (\<lambda>derivedAt.
     and_then (requireContextString (js_get v ''trust'')) (\<lambda>trust.
     ensure (trust = ''untrusted-context-data'') Bundle_invalid
       (Inr \<lparr>bi_kind = kind, bi_text = content, bi_artifact = artifactId, bi_locator = locator, bi_source = sourceDigest,
             bi_digest = artifactDigest, bi_source_revision = sourceRevision, bi_derived_revision = derivedRevision,
             bi_event = eventAt, bi_derived = derivedAt\<rparr>)))))))))))))))))))"

fun read_each :: "('a \<Rightarrow> 'e + 'b) \<Rightarrow> 'a list \<Rightarrow> 'e + 'b list" where
  "read_each f [] = Inr []"
| "read_each f (x # xs) = and_then (f x) (\<lambda>y. and_then (read_each f xs) (\<lambda>ys. Inr (y # ys)))"

text \<open>The byte count after each item, against the bound.\<close>

fun over_bytes :: "int \<Rightarrow> nat \<Rightarrow> bundle_item list \<Rightarrow> bool" where
  "over_bytes maxBytes used [] = False"
| "over_bytes maxBytes used (i # is) =
     (int (used + utf8_len (bi_text i)) > maxBytes \<or> over_bytes maxBytes (used + utf8_len (bi_text i)) is)"

definition read_watermark :: "jsval \<Rightarrow> context_error + int" where
  "read_watermark v =
     ensure (is_plain_object v) Bundle_invalid
    (ensure (hasExactKeys v [''occurrenceRevision'', ''ruleVersion'']) Bundle_invalid
    (and_then (requireSafeInteger (js_get v ''occurrenceRevision'')) (\<lambda>revision.
     ensure (\<not> revision < 0) Bundle_invalid
    (ensure (js_get v ''ruleVersion'' = JStr CONTEXT_RULE_VERSION) Bundle_corrupt (Inr revision)))))"

record bundle_bounds =
  bb_max_items :: int
  bb_max_bytes :: int
  bb_now :: int
  bb_max_age :: "int option"
  bb_max_skew :: "int option"

definition stale :: "(string \<Rightarrow> int option) \<Rightarrow> bundle_bounds \<Rightarrow> string \<Rightarrow> bool" where
  "stale parse_date bounds retrieved =
     (let maxAge = (case bb_max_age bounds of None \<Rightarrow> 5 * 60000 | Some n \<Rightarrow> n);
          maxSkew = (case bb_max_skew bounds of None \<Rightarrow> 60000 | Some n \<Rightarrow> n)
      in case parse_date retrieved of
           None \<Rightarrow> False
         | Some t \<Rightarrow> t > bb_now bounds + maxSkew \<or> t < bb_now bounds - maxAge)"

definition BUNDLE_KEYS :: "string list" where
  "BUNDLE_KEYS = [''schemaVersion'', ''scope'', ''retrievedAt'', ''consistency'', ''completedWatermark'', ''items'',
     ''bundleDigest'', ''warnings'']"

definition validateContextBundle ::
  "(nat list \<Rightarrow> string) \<Rightarrow> (rat \<Rightarrow> string) \<Rightarrow> (string \<Rightarrow> int option) \<Rightarrow> jsval \<Rightarrow> context_scope \<Rightarrow> bundle_bounds \<Rightarrow>
   context_error + recalled_bundle" where
  "validateContextBundle sha fraction parse_date v expected bounds =
     ensure (is_plain_object v) Bundle_invalid
    (ensure (hasExactKeys v BUNDLE_KEYS) Bundle_invalid
    (ensure (js_get v ''schemaVersion'' = JStr CONTEXT_BUNDLE_SCHEMA_VERSION) Bundle_invalid
    (and_then (validateScopeValue (js_get v ''scope'')) (\<lambda>scope.
     ensure (cs_workspace scope = cs_workspace expected \<and> cs_position scope = cs_position expected \<and>
             cs_principal scope = cs_principal expected) Bundle_scope_mismatch
    (and_then (validateContextTimestamp parse_date (js_get v ''retrievedAt'')) (\<lambda>retrieved.
     ensure (\<not> stale parse_date bounds retrieved) Bundle_invalid
    (ensure (js_get v ''consistency'' = JStr ''client-observed-per-item'') Bundle_invalid
    (and_then (read_watermark (js_get v ''completedWatermark'')) (\<lambda>watermark.
     case js_get v ''items'' of
       JArr xs \<Rightarrow>
        ensure (\<not> int (length xs) > bb_max_items bounds) Bundle_invalid
       (and_then (read_each (validateContextItem parse_date) xs) (\<lambda>items.
        ensure (\<not> over_bytes (bb_max_bytes bounds) 0 items) Bundle_invalid
       (case js_get v ''warnings'' of
          JArr ws \<Rightarrow>
           and_then (read_each requireContextString ws) (\<lambda>warnings.
           ensure (CONTEXT_UNTRUSTED_WARNING \<in> set warnings) Bundle_invalid
          (and_then (requireContextString (js_get v ''bundleDigest'')) (\<lambda>digest.
           ensure (digest_pattern digest) Bundle_invalid
          (let bundle = \<lparr>kb_scope = scope, kb_retrieved = retrieved, kb_watermark = watermark, kb_items = items,
                 kb_digest = digest, kb_warnings = warnings\<rparr>
           in ensure (list_all (\<lambda>i. computeContextArtifactDigest sha fraction i = bi_digest i) items) Bundle_corrupt
             (ensure (computeContextBundleDigest sha fraction bundle = digest) Bundle_corrupt (Inr bundle))))))
        | _ \<Rightarrow> Inl Bundle_invalid)))
     | _ \<Rightarrow> Inl Bundle_invalid)))))))))"

section \<open>What acceptance means\<close>

lemma read_each_Inr: "read_each f xs = Inr ys \<longleftrightarrow> list_all2 (\<lambda>x y. f x = Inr y) xs ys"
  by (induction xs arbitrary: ys) (auto simp: and_then_Inr list_all2_Cons1)

lemma over_bytes_Cons:
  "\<not> over_bytes m used (i # is) \<longleftrightarrow> int (used + sum_list (map (\<lambda>i. utf8_len (bi_text i)) (i # is))) \<le> m"
proof (induction "is" arbitrary: used i)
  case (Cons j js)
  have "\<not> over_bytes m used (i # j # js) \<longleftrightarrow>
      int (used + utf8_len (bi_text i)) \<le> m \<and> \<not> over_bytes m (used + utf8_len (bi_text i)) (j # js)"
    by (subst over_bytes.simps) (simp only: de_Morgan_disj not_less)
  then show ?case unfolding Cons.IH by (auto simp: algebra_simps)
qed (simp add: not_less)

lemma over_bytes_iff:
  "\<not> over_bytes m used is \<longleftrightarrow> is = [] \<or> int (used + sum_list (map (\<lambda>i. utf8_len (bi_text i)) is)) \<le> m"
  using over_bytes_Cons by (cases "is") auto

text \<open>The promise of the validator: pinned scope, bounds, freshness, the warning, and verified digests.\<close>

definition item_sound ::
  "(nat list \<Rightarrow> string) \<Rightarrow> (rat \<Rightarrow> string) \<Rightarrow> (string \<Rightarrow> int option) \<Rightarrow> bundle_item \<Rightarrow> bool" where
  "item_sound sha fraction parse_date i \<longleftrightarrow>
     bi_kind i \<in> set ITEM_KINDS \<and> LOCATOR_PATTERN (bi_locator i) \<and> digest_pattern (bi_artifact i) \<and>
     digest_pattern (bi_source i) \<and> 1 \<le> bi_source_revision i \<and> bi_source_revision i \<le> max_safe_integer \<and>
     1 \<le> bi_derived_revision i \<and> bi_derived_revision i \<le> max_safe_integer \<and>
     parse_date (bi_event i) \<noteq> None \<and> parse_date (bi_derived i) \<noteq> None \<and>
     computeContextArtifactDigest sha fraction i = bi_digest i"

definition bundle_sound ::
  "(nat list \<Rightarrow> string) \<Rightarrow> (rat \<Rightarrow> string) \<Rightarrow> (string \<Rightarrow> int option) \<Rightarrow> context_scope \<Rightarrow> bundle_bounds \<Rightarrow>
   recalled_bundle \<Rightarrow> bool" where
  "bundle_sound sha fraction parse_date expected bounds b \<longleftrightarrow>
     kb_scope b = expected \<and> int (length (kb_items b)) \<le> bb_max_items bounds \<and>
     (if kb_items b = [] then True
      else int (sum_list (map (\<lambda>i. utf8_len (bi_text i)) (kb_items b))) \<le> bb_max_bytes bounds) \<and>
     (case parse_date (kb_retrieved b) of
        None \<Rightarrow> False
      | Some t \<Rightarrow> bb_now bounds - (case bb_max_age bounds of None \<Rightarrow> 5 * 60000 | Some n \<Rightarrow> n) \<le> t \<and>
          t \<le> bb_now bounds + (case bb_max_skew bounds of None \<Rightarrow> 60000 | Some n \<Rightarrow> n)) \<and>
     CONTEXT_UNTRUSTED_WARNING \<in> set (kb_warnings b) \<and>
     0 \<le> kb_watermark b \<and> kb_watermark b \<le> max_safe_integer \<and>
     list_all (item_sound sha fraction parse_date) (kb_items b) \<and>
     computeContextBundleDigest sha fraction b = kb_digest b"

lemma scope_unique:
  fixes s t :: context_scope
  shows "cs_workspace s = cs_workspace t \<Longrightarrow> cs_position s = cs_position t \<Longrightarrow> cs_principal s = cs_principal t \<Longrightarrow> s = t"
  by simp

lemma timestamp_dated: "validateContextTimestamp parse_date v = Inr s \<Longrightarrow> parse_date s \<noteq> None"
  by (auto simp: validateContextTimestamp_def accepts)

lemma safe_bound: "requireSafeInteger v = Inr n \<Longrightarrow> n \<le> max_safe_integer"
  using js_safe_int_bound [of v n] by (auto simp: requireSafeInteger_def split: option.splits)

lemma validated_item:
  assumes "validateContextItem parse_date v = Inr i" "computeContextArtifactDigest sha fraction i = bi_digest i"
  shows "item_sound sha fraction parse_date i"
proof -
  have "bi_kind i \<in> set ITEM_KINDS" "LOCATOR_PATTERN (bi_locator i)" "digest_pattern (bi_artifact i)"
    "digest_pattern (bi_source i)" "\<not> bi_source_revision i < 1" "\<not> bi_derived_revision i < 1"
    "requireSafeInteger (js_get v ''sourceRevision'') = Inr (bi_source_revision i)"
    "requireSafeInteger (js_get v ''derivedRevision'') = Inr (bi_derived_revision i)"
    "validateContextTimestamp parse_date (js_get v ''eventAt'') = Inr (bi_event i)"
    "validateContextTimestamp parse_date (js_get v ''derivedAt'') = Inr (bi_derived i)"
    using assms(1) by (auto simp: validateContextItem_def accepts simp del: js_get.simps)
  then show ?thesis using assms(2) timestamp_dated safe_bound by (auto simp: item_sound_def)
qed

lemma watermark_natural: "read_watermark v = Inr n \<Longrightarrow> 0 \<le> n \<and> n \<le> max_safe_integer"
  using safe_bound by (auto simp: read_watermark_def accepts)

lemma array_Inr:
  "(case v of JArr xs \<Rightarrow> f xs | _ \<Rightarrow> Inl e) = Inr b \<longleftrightarrow> (\<exists>xs. v = JArr xs \<and> f xs = Inr b)"
  by (cases v) auto

lemma validated_bundle:
  assumes "validateContextBundle sha fraction parse_date v expected bounds = Inr b"
  obtains xs where "validateScopeValue (js_get v ''scope'') = Inr (kb_scope b)"
    "cs_workspace (kb_scope b) = cs_workspace expected" "cs_position (kb_scope b) = cs_position expected"
    "cs_principal (kb_scope b) = cs_principal expected"
    "validateContextTimestamp parse_date (js_get v ''retrievedAt'') = Inr (kb_retrieved b)"
    "\<not> stale parse_date bounds (kb_retrieved b)" "read_watermark (js_get v ''completedWatermark'') = Inr (kb_watermark b)"
    "\<not> int (length xs) > bb_max_items bounds" "read_each (validateContextItem parse_date) xs = Inr (kb_items b)"
    "\<not> over_bytes (bb_max_bytes bounds) 0 (kb_items b)" "CONTEXT_UNTRUSTED_WARNING \<in> set (kb_warnings b)"
    "list_all (\<lambda>i. computeContextArtifactDigest sha fraction i = bi_digest i) (kb_items b)"
    "computeContextBundleDigest sha fraction b = kb_digest b"
  using assms
  by (auto simp: validateContextBundle_def accepts array_Inr Let_def simp del: js_get.simps)

lemma context_bundle_accepted:
  assumes "validateContextBundle sha fraction parse_date v expected bounds = Inr b"
  shows "bundle_sound sha fraction parse_date expected bounds b"
  using assms
proof (rule validated_bundle)
  fix xs
  assume a: "cs_workspace (kb_scope b) = cs_workspace expected" "cs_position (kb_scope b) = cs_position expected"
    "cs_principal (kb_scope b) = cs_principal expected"
    "validateContextTimestamp parse_date (js_get v ''retrievedAt'') = Inr (kb_retrieved b)"
    "\<not> stale parse_date bounds (kb_retrieved b)" "read_watermark (js_get v ''completedWatermark'') = Inr (kb_watermark b)"
    "\<not> int (length xs) > bb_max_items bounds" "read_each (validateContextItem parse_date) xs = Inr (kb_items b)"
    "\<not> over_bytes (bb_max_bytes bounds) 0 (kb_items b)" "CONTEXT_UNTRUSTED_WARNING \<in> set (kb_warnings b)"
    "list_all (\<lambda>i. computeContextArtifactDigest sha fraction i = bi_digest i) (kb_items b)"
    "computeContextBundleDigest sha fraction b = kb_digest b"
  have two: "list_all2 (\<lambda>x y. validateContextItem parse_date x = Inr y) xs (kb_items b)"
    using a(8) by (simp add: read_each_Inr)
  have "item_sound sha fraction parse_date i" if "i \<in> set (kb_items b)" for i
    using two that a(11) validated_item by (fastforce simp: list_all2_conv_all_nth in_set_conv_nth list_all_iff)
  then have items: "list_all (item_sound sha fraction parse_date) (kb_items b)" by (simp add: list_all_iff)
  obtain t where t: "parse_date (kb_retrieved b) = Some t" using timestamp_dated [OF a(4)] by blast
  show ?thesis
    unfolding bundle_sound_def
    using scope_unique [OF a(1-3)] a(5,7,9,10,12) t items watermark_natural [OF a(6)] list_all2_lengthD [OF two]
    by (auto simp: over_bytes_iff stale_def Let_def not_less)
qed

text \<open>C20: A context bundle the validator accepts keeps every promise of the plane: it is in exactly the pinned scope, no
  larger than the bounds, recent, labelled as untrusted, each item is well formed and carries the digest
  of its own fields, and the bundle carries the digest of its contents.\<close>

theorem accepted_bundles_are_sound:
  "case validateContextBundle sha fraction parse_date v expected bounds of
      Inl _ \<Rightarrow> True
    | Inr b \<Rightarrow> bundle_sound sha fraction parse_date expected bounds b"
  using context_bundle_accepted by (auto split: sum.split)

section \<open>The digest determines the bundle\<close>

lemma safe_number: "0 \<le> n \<Longrightarrow> n \<le> max_safe_integer \<Longrightarrow> js_safe_int (JNum (of_int n)) = Some n"
  by (simp add: js_safe_int_def)

lemma encodable_item: "item_sound sha fraction parse_date i \<Longrightarrow> encodable (item_value i)"
  by (simp add: item_value_def item_members_def item_sound_def safe_number)

lemma encodable_bundle: "bundle_sound sha fraction parse_date expected bounds b \<Longrightarrow> encodable (digest_value b)"
  using encodable_item by (auto simp: digest_value_def bundle_sound_def bundle_scope_value_def safe_number list_all_iff)

lemma item_determined:
  assumes "key_sorted (item_value i) = key_sorted (item_value j)"
  shows "i = j"
proof -
  have g: "js_get (key_sorted (item_value x)) k = key_sorted (js_get (item_value x) k)" for x k
    unfolding item_value_def by (rule js_get_key_sorted) (simp add: item_members_def)
  have same: "key_sorted (js_get (item_value i) k) = key_sorted (js_get (item_value j) k)" for k
    using assms g by metis
  show ?thesis
    using same [of "''kind''"] same [of "''text''"] same [of "''artifactId''"] same [of "''locator''"]
      same [of "''sourceDigest''"] same [of "''sourceRevision''"] same [of "''derivedRevision''"]
      same [of "''eventAt''"] same [of "''derivedAt''"] same [of "''artifactDigest''"]
    by (simp add: item_value_def item_members_def)
qed

text \<open>What the bundle digest covers: everything but the time of the recall and the digest itself.\<close>

definition bundle_content :: "recalled_bundle \<Rightarrow> context_scope \<times> int \<times> bundle_item list \<times> string list" where
  "bundle_content b = (kb_scope b, kb_watermark b, kb_items b, kb_warnings b)"

lemma map_key_sorted_items: "map (\<lambda>i. key_sorted (item_value i)) xs = map (\<lambda>i. key_sorted (item_value i)) ys \<Longrightarrow> xs = ys"
  by (rule map_injective) (auto intro!: injI item_determined)

lemma content_determined:
  assumes "key_sorted (digest_value b) = key_sorted (digest_value c)"
  shows "bundle_content b = bundle_content c"
proof -
  have g: "js_get (key_sorted (digest_value x)) k = key_sorted (js_get (digest_value x) k)" for x k
    unfolding digest_value_def by (rule js_get_key_sorted) simp
  have same: "key_sorted (js_get (digest_value b) k) = key_sorted (js_get (digest_value c) k)" for k
    using assms g by metis
  have items: "kb_items b = kb_items c"
    using same [of "''items''"] by (intro map_key_sorted_items) (simp add: digest_value_def comp_def)
  have "map (\<lambda>w. JStr w) (kb_warnings b) = map (\<lambda>w. JStr w) (kb_warnings c)"
    using same [of "''warnings''"] by (simp add: digest_value_def comp_def)
  then have warnings: "kb_warnings b = kb_warnings c" by (rule map_injective) (auto intro: injI)
  have gs: "js_get (key_sorted (bundle_scope_value s)) k = key_sorted (js_get (bundle_scope_value s) k)" for s k
    unfolding bundle_scope_value_def by (rule js_get_key_sorted) simp
  have "key_sorted (bundle_scope_value (kb_scope b)) = key_sorted (bundle_scope_value (kb_scope c))"
    using same [of "''scope''"] by (simp add: digest_value_def)
  then have ss: "key_sorted (js_get (bundle_scope_value (kb_scope b)) k) = key_sorted (js_get (bundle_scope_value (kb_scope c)) k)" for k
    using gs by metis
  have "kb_scope b = kb_scope c"
    using ss [of "''workspaceId''"] ss [of "''positionId''"] ss [of "''principal''"] by (simp add: bundle_scope_value_def)
  moreover have "kb_watermark b = kb_watermark c"
  proof -
    let ?w = "\<lambda>x. JObj [(''occurrenceRevision'', JNum (of_int (kb_watermark x))), (''ruleVersion'', JStr CONTEXT_RULE_VERSION)]"
    have "key_sorted (?w b) = key_sorted (?w c)" using same [of "''completedWatermark''"] by (simp add: digest_value_def)
    moreover have "js_get (key_sorted (?w x)) ''occurrenceRevision'' = JNum (of_int (kb_watermark x))" for x
      by (subst js_get_key_sorted) simp_all
    ultimately show ?thesis by (metis jsval.inject(2) of_int_eq_iff)
  qed
  ultimately show ?thesis using items warnings by (simp add: bundle_content_def)
qed

text \<open>The digest of a bundle pins what was recalled: two accepted bundles with the same digest, whoever asked for
  them and whenever, hold the same scope, watermark, items and warnings, unless SHA-256 collides on
  the two texts.\<close>

theorem bundle_digest_pins_content:
  assumes "validateContextBundle sha fraction parse_date v expected bounds = Inr b"
    and "validateContextBundle sha fraction parse_date v' expected' bounds' = Inr c"
    and "kb_digest b = kb_digest c"
    and "inj_on sha (utf8_encode ` {t. canonicalContextJson fraction (digest_value b) = Some t \<or>
           canonicalContextJson fraction (digest_value c) = Some t})" (is "inj_on sha ?texts")
  shows "bundle_content b = bundle_content c"
proof -
  have sound: "bundle_sound sha fraction parse_date expected bounds b" "bundle_sound sha fraction parse_date expected' bounds' c"
    using context_bundle_accepted assms(1,2) by blast+
  have e: "encodable (digest_value b)" "encodable (digest_value c)" using encodable_bundle sound by blast+
  obtain s t where st: "text_of (digest_value b) = Some s" "text_of (digest_value c) = Some t"
    using text_exists e by metis
  then have c: "canonicalContextJson fraction (digest_value b) = Some s" "canonicalContextJson fraction (digest_value c) = Some t"
    using encodable_text e by (simp_all add: canonicalContextJson_def)
  have "''sha256:'' @ sha (utf8_encode s) = ''sha256:'' @ sha (utf8_encode t)"
    using sound assms(3) c by (simp add: bundle_sound_def computeContextBundleDigest_def context_sha256_def)
  then have "sha (utf8_encode s) = sha (utf8_encode t)" by simp
  moreover have "utf8_encode s \<in> ?texts" "utf8_encode t \<in> ?texts" using c by blast+
  ultimately have "utf8_encode s = utf8_encode t" using inj_onD [OF assms(4)] by blast
  then have "s = t" by (metis utf8_decode_encode)
  then have "key_sorted (digest_value b) = key_sorted (digest_value c)"
    using canonical_text_injective [of "digest_value b" s "digest_value c"] st unfolding canonicalRunnerJson_def by blast
  then show ?thesis by (rule content_determined)
qed

text \<open>Two recalls of one empty bundle, a second apart.\<close>

definition empty_scope :: context_scope where
  "empty_scope = \<lparr>cs_workspace = ''w'', cs_position = ''p'', cs_principal = ''w:p''\<rparr>"

definition empty_recall :: "string \<Rightarrow> jsval" where
  "empty_recall time = JObj [(''schemaVersion'', JStr CONTEXT_BUNDLE_SCHEMA_VERSION), (''scope'', bundle_scope_value empty_scope),
     (''retrievedAt'', JStr time), (''consistency'', JStr ''client-observed-per-item''),
     (''completedWatermark'', JObj [(''occurrenceRevision'', JNum 3), (''ruleVersion'', JStr CONTEXT_RULE_VERSION)]),
     (''items'', JArr []), (''bundleDigest'', JStr (''sha256:'' @ replicate 64 CHR ''a'')),
     (''warnings'', JArr [JStr CONTEXT_UNTRUSTED_WARNING])]"

definition empty_bundle :: "string \<Rightarrow> recalled_bundle" where
  "empty_bundle time = \<lparr>kb_scope = empty_scope, kb_retrieved = time, kb_watermark = 3, kb_items = [],
     kb_digest = ''sha256:'' @ replicate 64 CHR ''a'', kb_warnings = [CONTEXT_UNTRUSTED_WARNING]\<rparr>"

definition empty_bounds :: bundle_bounds where
  "empty_bounds = \<lparr>bb_max_items = 4, bb_max_bytes = 100, bb_now = 5, bb_max_age = None, bb_max_skew = None\<rparr>"

abbreviation recall_empty :: "string \<Rightarrow> context_error + recalled_bundle" where
  "recall_empty time \<equiv> validateContextBundle (\<lambda>_. replicate 64 CHR ''a'') (\<lambda>_. []) (\<lambda>_. Some 0) (empty_recall time)
     empty_scope empty_bounds"

lemma empty_accepted:
  "recall_empty ''2026-07-11T00:00:00Z'' = Inr (empty_bundle ''2026-07-11T00:00:00Z'')"
  "recall_empty ''2026-07-11T00:00:01Z'' = Inr (empty_bundle ''2026-07-11T00:00:01Z'')"
  by code_simp+

lemma empty_digested: "digest_value (empty_bundle t) = digest_value (empty_bundle u)"
  by (simp add: digest_value_def empty_bundle_def)

theorem bundle_digest_pins_content_witness:
  "bundle_content (empty_bundle ''2026-07-11T00:00:00Z'') = bundle_content (empty_bundle ''2026-07-11T00:00:01Z'')"
proof (rule bundle_digest_pins_content [OF empty_accepted])
  show "kb_digest (empty_bundle ''2026-07-11T00:00:00Z'') = kb_digest (empty_bundle ''2026-07-11T00:00:01Z'')"
    by (simp add: empty_bundle_def)
qed (auto simp only: empty_digested [of "''2026-07-11T00:00:00Z''" "''2026-07-11T00:00:01Z''"] intro!: inj_onI)

end
