(* ===== verification/MemoryPort.thy ===== *)
theory MemoryPort
  imports TurnEvidence ContextPort
begin

text \<open>
  packages/core/src/memory-port.ts: the task-state, write-request and recall contracts of durable memory,
  and the idempotency key of a write. SHA-256 and \<open>Date.parse\<close> are parameters; messages of errors are
  left out. \<open>derivePositionPrincipal\<close> is in TurnExecutor, which calls it too.
\<close>

section \<open>Vocabulary\<close>

datatype memory_error = Memory_record_invalid | Memory_scope_invalid | Memory_scope_mismatch

definition TASK_STATE_SCHEMA_VERSION :: string where
  "TASK_STATE_SCHEMA_VERSION = ''task-state.v1''"

definition MEMORY_WRITE_REQUEST_SCHEMA_VERSION :: string where
  "MEMORY_WRITE_REQUEST_SCHEMA_VERSION = ''memory-write-request.v1''"

definition TASK_STATE_MAX_SUMMARY_BYTES :: nat where
  "TASK_STATE_MAX_SUMMARY_BYTES = 16 * 1024"

definition MEMORY_RECALL_MAX_ITEMS :: nat where
  "MEMORY_RECALL_MAX_ITEMS = 20"

definition MEMORY_RECALL_MAX_ITEM_BYTES :: nat where
  "MEMORY_RECALL_MAX_ITEM_BYTES = 16 * 1024"

definition MEMORY_RECALL_MAX_TOTAL_BYTES :: nat where
  "MEMORY_RECALL_MAX_TOTAL_BYTES = 64 * 1024"

text \<open>\<open>/^[A-Za-z0-9][A-Za-z0-9._:-]{0,255}$/\<close>\<close>

definition ID_PATTERN :: "string \<Rightarrow> bool" where
  "ID_PATTERN s = (case s of
      [] \<Rightarrow> False
    | c # cs \<Rightarrow> (is_lower c \<or> is_upper c \<or> is_digit c) \<and> length cs \<le> 255 \<and> list_all opaque_char cs)"

text \<open>\<open>/^[0-9a-f]{8}-[0-9a-f]{4}-[1-8][0-9a-f]{3}-[89ab][0-9a-f]{3}-[0-9a-f]{12}$/\<close>, by a mask.\<close>

definition uuid_slot :: "char \<Rightarrow> char \<Rightarrow> bool" where
  "uuid_slot c m =
     (if m = CHR ''h'' then is_hex c
      else if m = CHR ''v'' then 49 \<le> (of_char c :: nat) \<and> (of_char c :: nat) \<le> 56
      else if m = CHR ''n'' then of_char c \<in> {56, 57, 97, 98 :: nat}
      else c = m)"

definition UUID_PATTERN :: "string \<Rightarrow> bool" where
  "UUID_PATTERN s = list_all2 uuid_slot s ''hhhhhhhh-hhhh-vhhh-nhhh-hhhhhhhhhhhh''"

definition RAW_SHA256_PATTERN :: "string \<Rightarrow> bool" where
  "RAW_SHA256_PATTERN s = (length s = 64 \<and> list_all is_hex s)"

text \<open>The capture groups of the two patterns; a failed match is \<open>None\<close>.\<close>

definition MEMORY_PATH :: string where
  "MEMORY_PATH = ''mem://memories/''"

definition memory_id_chars :: "string \<Rightarrow> bool" where
  "memory_id_chars s = (length s = 36 \<and> list_all (\<lambda>c. is_hex c \<or> c = CHR ''-'') s)"

definition MEMORY_CITATION_PATTERN :: "string \<Rightarrow> string option" where
  "MEMORY_CITATION_PATTERN s =
     (let r = drop (length MEMORY_PATH) s in if starts_with s MEMORY_PATH \<and> memory_id_chars r then Some r else None)"

definition MEMORY_LOCATOR_PATTERN :: "string \<Rightarrow> (string \<times> string) option" where
  "MEMORY_LOCATOR_PATTERN s =
     (let r = drop (length MEMORY_PATH) s; i = take 36 r; number = drop 37 r
      in if starts_with s MEMORY_PATH \<and> memory_id_chars i \<and> starts_with (drop 36 r) ''@'' \<and>
            number \<noteq> [] \<and> hd number \<noteq> CHR ''0'' \<and> list_all is_digit number
         then Some (i, number) else None)"

datatype task_status = Task_completed | Task_failed | Task_cancelled

record task_state =
  ts_task :: string
  ts_status :: task_status
  ts_summary :: string
  ts_digest :: string
  ts_recorded :: string

record write_request =
  wq_workspace :: string
  wq_session :: string
  wq_turn :: string
  wq_position :: string
  wq_principal :: string
  wq_scope :: string
  wq_state :: task_state

record recall_provenance =
  rp_type :: string
  rp_ref :: "string option"
  rp_agent :: "string option"
  rp_session :: "string option"
  rp_task :: "string option"

record memory_item =
  mi_id :: string
  mi_kind :: string
  mi_text :: string
  mi_digest :: string
  mi_citation :: string
  mi_locator :: string
  mi_version :: int
  mi_recorded :: string
  mi_provenance :: recall_provenance

text \<open>\<open>warnings\<close> can only hold the one warning, so it is kept as their number.\<close>

record recalled_memory =
  rm_workspace :: string
  rm_session :: string
  rm_position :: string
  rm_principal :: string
  rm_retrieved :: string
  rm_items :: "memory_item list"
  rm_warnings :: nat

section \<open>Readers\<close>

definition exactKeys :: "jsval \<Rightarrow> string list \<Rightarrow> string list \<Rightarrow> bool" where
  "exactKeys v required optional \<longleftrightarrow>
     list_all (js_has v) required \<and> list_all (\<lambda>k. k \<in> set required \<or> k \<in> set optional) (js_keys v)"

definition single_line :: "string \<Rightarrow> bool" where
  "single_line s = list_all (\<lambda>c. \<not> ((of_char c :: nat) \<le> 31 \<or> (of_char c :: nat) = 127)) s"

definition read_memory :: "(string \<Rightarrow> bool) \<Rightarrow> jsval \<Rightarrow> memory_error + string" where
  "read_memory pattern v = (case v of
      JStr s \<Rightarrow> ensure (pattern s) Memory_record_invalid (Inr s)
    | _ \<Rightarrow> Inl Memory_record_invalid)"

definition boundedId :: "jsval \<Rightarrow> memory_error + string" where
  "boundedId v = read_memory ID_PATTERN v"

definition bounded_text :: "nat \<Rightarrow> string \<Rightarrow> bool" where
  "bounded_text maxBytes s \<longleftrightarrow> s \<noteq> [] \<and> js_trim s = s \<and> utf8_len s \<le> maxBytes \<and> single_line s"

definition boundedText :: "nat \<Rightarrow> jsval \<Rightarrow> memory_error + string" where
  "boundedText maxBytes v = read_memory (bounded_text maxBytes) v"

definition uuid :: "jsval \<Rightarrow> memory_error + string" where
  "uuid v = read_memory UUID_PATTERN v"

definition rfc3339_legal :: "(string \<Rightarrow> int option) \<Rightarrow> string \<Rightarrow> bool" where
  "rfc3339_legal parse_date s \<longleftrightarrow> length s \<le> 64 \<and> date_prefix s \<and> parse_date s \<noteq> None"

definition rfc3339 :: "(string \<Rightarrow> int option) \<Rightarrow> jsval \<Rightarrow> memory_error + string" where
  "rfc3339 parse_date v = read_memory (rfc3339_legal parse_date) v"

definition canonical_scope :: "string \<Rightarrow> bool" where
  "canonical_scope s \<longleftrightarrow> \<not> length s < 2 \<and> \<not> length s > 1024 \<and> s = js_trim s \<and> starts_with s ''/'' \<and> \<not> ends_with s ''/'' \<and>
     \<not> has_substring s ''//'' \<and> single_line s \<and>
     list_all (\<lambda>g. \<not> (g = [] \<or> g = ''.'' \<or> g = ''..'')) (split_on (CHR ''/'') (drop 1 s))"

definition normalizeMemoryScope :: "jsval \<Rightarrow> memory_error + string" where
  "normalizeMemoryScope v = (case v of
      JStr s \<Rightarrow> ensure (canonical_scope s) Memory_scope_invalid (Inr s)
    | _ \<Rightarrow> Inl Memory_scope_invalid)"

definition position_principal :: "jsval \<Rightarrow> memory_error + (string \<times> string)" where
  "position_principal v =
     (let i = (case js_str v of None \<Rightarrow> [] | Some i \<Rightarrow> i)
      in case derivePositionPrincipal i of None \<Rightarrow> Inl Memory_scope_invalid | Some p \<Rightarrow> Inr (i, p))"

section \<open>Task states and write requests\<close>

definition TASK_STATE_KEYS :: "string list" where
  "TASK_STATE_KEYS = [''schemaVersion'', ''taskId'', ''status'', ''summary'', ''terminalOutputDigest'', ''recordedAt'']"

definition status_string :: "task_status \<Rightarrow> string" where
  "status_string s = (case s of
      Task_completed \<Rightarrow> ''completed'' | Task_failed \<Rightarrow> ''failed'' | Task_cancelled \<Rightarrow> ''cancelled'')"

definition read_status :: "jsval \<Rightarrow> memory_error + task_status" where
  "read_status v =
     (if v = JStr ''completed'' then Inr Task_completed else if v = JStr ''failed'' then Inr Task_failed
      else if v = JStr ''cancelled'' then Inr Task_cancelled else Inl Memory_record_invalid)"

definition summary_legal :: "string \<Rightarrow> bool" where
  "summary_legal s \<longleftrightarrow> js_trim s = s \<and> s \<noteq> [] \<and> utf8_len s \<le> TASK_STATE_MAX_SUMMARY_BYTES"

definition validateTaskState :: "(string \<Rightarrow> int option) \<Rightarrow> jsval \<Rightarrow> memory_error + task_state" where
  "validateTaskState parse_date v =
     ensure (is_plain_object v \<and> exactKeys v TASK_STATE_KEYS []) Memory_record_invalid
    (ensure (js_get v ''schemaVersion'' = JStr TASK_STATE_SCHEMA_VERSION) Memory_record_invalid
    (and_then (boundedId (js_get v ''taskId'')) (\<lambda>task.
     and_then (read_status (js_get v ''status'')) (\<lambda>status.
     and_then (read_memory summary_legal (js_get v ''summary'')) (\<lambda>summary.
     and_then (read_memory digest_pattern (js_get v ''terminalOutputDigest'')) (\<lambda>digest.
     and_then (rfc3339 parse_date (js_get v ''recordedAt'')) (\<lambda>recorded.
       Inr \<lparr>ts_task = task, ts_status = status, ts_summary = summary, ts_digest = digest, ts_recorded = recorded\<rparr>)))))))"

definition WRITE_REQUEST_KEYS :: "string list" where
  "WRITE_REQUEST_KEYS = [''schemaVersion'', ''workspaceInstanceId'', ''sessionId'', ''turnId'', ''positionId'', ''principal'',
     ''memoryScope'', ''taskState'']"

definition validateMemoryWriteRequest :: "(string \<Rightarrow> int option) \<Rightarrow> jsval \<Rightarrow> memory_error + write_request" where
  "validateMemoryWriteRequest parse_date v =
     ensure (is_plain_object v \<and> exactKeys v WRITE_REQUEST_KEYS []) Memory_record_invalid
    (ensure (js_get v ''schemaVersion'' = JStr MEMORY_WRITE_REQUEST_SCHEMA_VERSION) Memory_record_invalid
    (and_then (position_principal (js_get v ''positionId'')) (\<lambda>(position, principal).
     ensure (js_get v ''principal'' = JStr principal) Memory_scope_mismatch
    (and_then (uuid (js_get v ''workspaceInstanceId'')) (\<lambda>workspace.
     and_then (uuid (js_get v ''sessionId'')) (\<lambda>session.
     and_then (boundedId (js_get v ''turnId'')) (\<lambda>turn.
     and_then (normalizeMemoryScope (js_get v ''memoryScope'')) (\<lambda>scope.
     and_then (validateTaskState parse_date (js_get v ''taskState'')) (\<lambda>state.
       Inr \<lparr>wq_workspace = workspace, wq_session = session, wq_turn = turn, wq_position = position,
             wq_principal = principal, wq_scope = scope, wq_state = state\<rparr>)))))))))"

text \<open>\<open>JSON.stringify\<close> of the six strings, in the order of the literal.\<close>

definition projection_fields :: "write_request \<Rightarrow> (string \<times> string) list" where
  "projection_fields q = [(''schemaVersion'', MEMORY_WRITE_REQUEST_SCHEMA_VERSION),
     (''workspaceInstanceId'', wq_workspace q), (''sessionId'', wq_session q), (''turnId'', wq_turn q),
     (''positionId'', wq_position q), (''terminalOutputDigest'', ts_digest (wq_state q))]"

definition idempotencyProjection :: "write_request \<Rightarrow> string" where
  "idempotencyProjection q =
     ''{'' @ join_with '','' (map (\<lambda>(k, s). json_quote k @ '':'' @ json_quote s) (projection_fields q)) @ ''}''"

definition computeMemoryIdempotencyKey ::
  "(nat list \<Rightarrow> string) \<Rightarrow> (string \<Rightarrow> int option) \<Rightarrow> jsval \<Rightarrow> memory_error + string" where
  "computeMemoryIdempotencyKey sha parse_date v =
     and_then (validateMemoryWriteRequest parse_date v) (\<lambda>q.
       Inr (''de-task-state-v1:'' @ sha (utf8_encode (idempotencyProjection q))))"

section \<open>Recalls\<close>

definition optional_field :: "(jsval \<Rightarrow> memory_error + string) \<Rightarrow> jsval \<Rightarrow> memory_error + string option" where
  "optional_field f v = (if v = JUndef then Inr None else and_then (f v) (\<lambda>s. Inr (Some s)))"

definition validateRecallProvenance :: "jsval \<Rightarrow> memory_error + recall_provenance" where
  "validateRecallProvenance v =
     ensure (is_plain_object v \<and>
        exactKeys v [''sourceType''] [''sourceRef'', ''producerAgent'', ''producerSession'', ''producerTask''])
       Memory_record_invalid
    (and_then (boundedId (js_get v ''sourceType'')) (\<lambda>kind.
     and_then (optional_field (boundedText 2048) (js_get v ''sourceRef'')) (\<lambda>ref.
     and_then (optional_field boundedId (js_get v ''producerAgent'')) (\<lambda>agent.
     and_then (optional_field boundedId (js_get v ''producerSession'')) (\<lambda>session.
     and_then (optional_field boundedId (js_get v ''producerTask'')) (\<lambda>task.
       Inr \<lparr>rp_type = kind, rp_ref = ref, rp_agent = agent, rp_session = session, rp_task = task\<rparr>))))))"

text \<open>\<open>Number(locatorMatch[2])\<close> is compared with a safe integer, so the rounding of longer numerals,
  which stay above the safe range, changes nothing.\<close>

definition RECALL_ITEM_KEYS :: "string list" where
  "RECALL_ITEM_KEYS = [''memoryId'', ''kind'', ''text'', ''digest'', ''citation'', ''locator'', ''stateVersion'', ''recordedAt'',
     ''provenance'', ''trust'', ''authority'']"

definition validateRecallItem :: "(string \<Rightarrow> int option) \<Rightarrow> jsval \<Rightarrow> memory_error + memory_item" where
  "validateRecallItem parse_date v =
     ensure (is_plain_object v \<and> exactKeys v RECALL_ITEM_KEYS []) Memory_record_invalid
    (and_then (uuid (js_get v ''memoryId'')) (\<lambda>i.
     and_then (read_memory (\<lambda>s. utf8_len s \<le> MEMORY_RECALL_MAX_ITEM_BYTES) (js_get v ''text'')) (\<lambda>body.
     and_then (read_memory RAW_SHA256_PATTERN (js_get v ''digest'')) (\<lambda>digest.
     and_then (read_memory (\<lambda>s. MEMORY_CITATION_PATTERN s = Some i) (js_get v ''citation'')) (\<lambda>citation.
     and_then (read_memory (\<lambda>s. map_option fst (MEMORY_LOCATOR_PATTERN s) = Some i) (js_get v ''locator'')) (\<lambda>locator.
     ensure (js_get v ''trust'' = JStr ''untrusted'' \<and> js_get v ''authority'' = JStr ''none'') Memory_record_invalid
    (case js_safe_int (js_get v ''stateVersion'') of
       None \<Rightarrow> Inl Memory_record_invalid
     | Some n \<Rightarrow>
        ensure (\<not> n < 1 \<and> map_option (\<lambda>m. int (undec (snd m))) (MEMORY_LOCATOR_PATTERN locator) = Some n)
          Memory_record_invalid
       (and_then (boundedId (js_get v ''kind'')) (\<lambda>kind.
        and_then (rfc3339 parse_date (js_get v ''recordedAt'')) (\<lambda>recorded.
        and_then (validateRecallProvenance (js_get v ''provenance'')) (\<lambda>provenance.
          Inr \<lparr>mi_id = i, mi_kind = kind, mi_text = body, mi_digest = digest, mi_citation = citation,
                mi_locator = locator, mi_version = n, mi_recorded = recorded, mi_provenance = provenance\<rparr>)))))))))))"

definition warning_value :: jsval where
  "warning_value = JObj [(''code'', JStr ''MEMORY_UNAVAILABLE''),
     (''message'', JStr ''Durable memory is temporarily unavailable.''), (''retryable'', JBool True)]"

definition warning_legal :: "jsval \<Rightarrow> bool" where
  "warning_legal v \<longleftrightarrow> is_plain_object v \<and> exactKeys v [''code'', ''message'', ''retryable''] [] \<and>
     js_get v ''code'' = JStr ''MEMORY_UNAVAILABLE'' \<and>
     js_get v ''message'' = JStr ''Durable memory is temporarily unavailable.'' \<and> js_get v ''retryable'' = JBool True"

definition MEMORY_RECALL_KEYS :: "string list" where
  "MEMORY_RECALL_KEYS = [''schemaVersion'', ''workspaceInstanceId'', ''sessionId'', ''positionId'', ''principal'', ''retrievedAt'',
     ''items'', ''warnings'']"

definition recall_bytes :: "memory_item list \<Rightarrow> nat" where
  "recall_bytes xs = sum_list (map (\<lambda>i. utf8_len (mi_text i)) xs)"

definition validateMemoryRecall :: "(string \<Rightarrow> int option) \<Rightarrow> jsval \<Rightarrow> memory_error + recalled_memory" where
  "validateMemoryRecall parse_date v =
     ensure (is_plain_object v \<and> exactKeys v MEMORY_RECALL_KEYS []) Memory_record_invalid
    (ensure (js_get v ''schemaVersion'' = JStr MEMORY_RECALL_SCHEMA_VERSION) Memory_record_invalid
    (and_then (position_principal (js_get v ''positionId'')) (\<lambda>(position, principal).
     ensure (js_get v ''principal'' = JStr principal) Memory_scope_mismatch
    (case js_get v ''items'' of
       JArr xs \<Rightarrow>
        ensure (length xs \<le> MEMORY_RECALL_MAX_ITEMS) Memory_record_invalid
       (and_then (read_each (validateRecallItem parse_date) xs) (\<lambda>items.
        ensure (recall_bytes items \<le> MEMORY_RECALL_MAX_TOTAL_BYTES) Memory_record_invalid
       (case js_get v ''warnings'' of
          JArr ws \<Rightarrow>
           ensure (length ws \<le> 1 \<and> list_all warning_legal ws) Memory_record_invalid
          (ensure (\<not> (length ws > 0 \<and> length items > 0)) Memory_record_invalid
          (and_then (uuid (js_get v ''workspaceInstanceId'')) (\<lambda>workspace.
           and_then (uuid (js_get v ''sessionId'')) (\<lambda>session.
           and_then (rfc3339 parse_date (js_get v ''retrievedAt'')) (\<lambda>retrieved.
             Inr \<lparr>rm_workspace = workspace, rm_session = session, rm_position = position, rm_principal = principal,
                   rm_retrieved = retrieved, rm_items = items, rm_warnings = length ws\<rparr>)))))
        | _ \<Rightarrow> Inl Memory_record_invalid)))
     | _ \<Rightarrow> Inl Memory_record_invalid))))"

section \<open>What acceptance means\<close>

lemma read_memory_Inr: "read_memory pattern v = Inr s \<longleftrightarrow> v = JStr s \<and> pattern s"
  by (cases v) (auto simp: read_memory_def ensure_Inr)

lemmas read_fields = boundedId_def boundedText_def uuid_def rfc3339_def read_memory_Inr

lemma principal_named: "derivePositionPrincipal i = Some p \<Longrightarrow> p = ''position.'' @ i \<and> i \<noteq> []"
  by (cases i) (auto simp: derivePositionPrincipal_def split: if_splits)

lemma no_principal: "derivePositionPrincipal [] = None"
  by (simp add: derivePositionPrincipal_def)

lemma position_principal_Inr:
  "position_principal v = Inr (i, p) \<longleftrightarrow> v = JStr i \<and> derivePositionPrincipal i = Some p"
  by (cases v) (auto simp: position_principal_def no_principal split: option.splits)

lemma undec_snoc: "undec (ds @ [c]) = 10 * undec ds + (of_char c - 48)"
  by (simp add: undec_def)

lemma undec_positive: "ds \<noteq> [] \<Longrightarrow> list_all is_digit ds \<Longrightarrow> hd ds \<noteq> CHR ''0'' \<Longrightarrow> 0 < undec ds"
proof (induction ds rule: rev_induct)
  case (snoc c ds)
  show ?case
  proof (cases "ds = []")
    case True
    then have "is_digit c" "c \<noteq> CHR ''0''" using snoc.prems by auto
    then obtain k where "k < 10" "c = char_of (48 + k :: nat)" unfolding is_digit_code by blast
    moreover have "char_of (48 + 0 :: nat) = CHR ''0''" by code_simp
    then have "k \<noteq> 0" using \<open>c \<noteq> CHR ''0''\<close> \<open>c = char_of (48 + k :: nat)\<close> by metis
    ultimately show ?thesis using True by (simp add: undec_def)
  next
    case False
    then show ?thesis using snoc by (simp add: undec_snoc)
  qed
qed simp

lemma dec_undec:
  "ds \<noteq> [] \<Longrightarrow> list_all is_digit ds \<Longrightarrow> hd ds \<noteq> CHR ''0'' \<Longrightarrow> dec (undec ds) = ds"
proof (induction ds rule: rev_induct)
  case (snoc c ds)
  obtain k where k: "k < 10" "c = char_of (48 + k :: nat)" using snoc.prems is_digit_code by auto
  then have code: "of_char c - 48 = k" by simp
  show ?case
  proof (cases "ds = []")
    case True
    then show ?thesis using k by (subst dec.simps) (simp add: undec_def)
  next
    case False
    then have "0 < undec ds" "dec (undec ds) = ds" using snoc undec_positive by auto
    then show ?thesis using k code by (subst dec.simps) (simp add: undec_snoc)
  qed
qed simp

lemma citation_match: "MEMORY_CITATION_PATTERN s = Some i \<Longrightarrow> s = MEMORY_PATH @ i"
  by (auto simp: MEMORY_CITATION_PATTERN_def Let_def starts_with_append split: if_splits)

lemma locator_match:
  assumes "MEMORY_LOCATOR_PATTERN s = Some (i, ds)"
  shows "s = MEMORY_PATH @ i @ ''@'' @ dec (undec ds)"
proof -
  define r where "r = drop (length MEMORY_PATH) s"
  have m: "starts_with s MEMORY_PATH" "i = take 36 r" "ds = drop 37 r" "starts_with (drop 36 r) ''@''"
    "ds \<noteq> []" "hd ds \<noteq> CHR ''0''" "list_all is_digit ds"
    using assms by (auto simp: MEMORY_LOCATOR_PATTERN_def Let_def r_def split: if_splits)
  have "s = MEMORY_PATH @ r" using m(1) by (auto simp: starts_with_append r_def)
  moreover have "r = i @ drop 36 r" using m(2) by simp
  moreover obtain u where u: "drop 36 r = ''@'' @ u" using m(4) starts_with_append by blast
  moreover have "u = ds" using m(3) arg_cong [OF u, of "drop 1"] by simp
  ultimately show ?thesis using dec_undec m(5-7) by simp
qed

text \<open>What an accepted item and recall promise.\<close>

definition recall_item_sound :: "memory_item \<Rightarrow> bool" where
  "recall_item_sound i \<longleftrightarrow>
     UUID_PATTERN (mi_id i) \<and> utf8_len (mi_text i) \<le> MEMORY_RECALL_MAX_ITEM_BYTES \<and>
     1 \<le> mi_version i \<and> mi_version i \<le> max_safe_integer \<and>
     mi_citation i = MEMORY_PATH @ mi_id i \<and> mi_locator i = mi_citation i @ ''@'' @ dec (nat (mi_version i))"

definition recall_sound :: "(string \<Rightarrow> int option) \<Rightarrow> recalled_memory \<Rightarrow> bool" where
  "recall_sound parse_date r \<longleftrightarrow>
     derivePositionPrincipal (rm_position r) = Some (rm_principal r) \<and>
     UUID_PATTERN (rm_workspace r) \<and> UUID_PATTERN (rm_session r) \<and> parse_date (rm_retrieved r) \<noteq> None \<and>
     length (rm_items r) \<le> MEMORY_RECALL_MAX_ITEMS \<and> recall_bytes (rm_items r) \<le> MEMORY_RECALL_MAX_TOTAL_BYTES \<and>
     (if rm_warnings r = 0 then True else rm_warnings r = 1 \<and> rm_items r = []) \<and>
     list_all recall_item_sound (rm_items r)"

lemma validated_recall_item:
  assumes "validateRecallItem parse_date v = Inr i"
  shows "recall_item_sound i"
proof -
  have f: "UUID_PATTERN (mi_id i)" "utf8_len (mi_text i) \<le> MEMORY_RECALL_MAX_ITEM_BYTES"
    "MEMORY_CITATION_PATTERN (mi_citation i) = Some (mi_id i)"
    "map_option fst (MEMORY_LOCATOR_PATTERN (mi_locator i)) = Some (mi_id i)"
    "js_safe_int (js_get v ''stateVersion'') = Some (mi_version i)" "\<not> mi_version i < 1"
    "map_option (\<lambda>m. int (undec (snd m))) (MEMORY_LOCATOR_PATTERN (mi_locator i)) = Some (mi_version i)"
    using assms
    by (auto simp: validateRecallItem_def accepts read_fields option_Inr simp del: js_get.simps)
  obtain ds where l: "MEMORY_LOCATOR_PATTERN (mi_locator i) = Some (mi_id i, ds)" using f(4) by auto
  then have "nat (mi_version i) = undec ds" using f(7) by simp
  then show ?thesis
    using f(1,2,6) citation_match [OF f(3)] locator_match [OF l] js_safe_int_bound [OF f(5)]
    by (simp add: recall_item_sound_def)
qed

lemma validated_recall:
  assumes "validateMemoryRecall parse_date v = Inr r"
  obtains xs where "derivePositionPrincipal (rm_position r) = Some (rm_principal r)"
    "length xs \<le> MEMORY_RECALL_MAX_ITEMS" "read_each (validateRecallItem parse_date) xs = Inr (rm_items r)"
    "recall_bytes (rm_items r) \<le> MEMORY_RECALL_MAX_TOTAL_BYTES" "rm_warnings r \<le> 1"
    "0 < rm_warnings r \<longrightarrow> rm_items r = []"
    "UUID_PATTERN (rm_workspace r)" "UUID_PATTERN (rm_session r)" "rfc3339_legal parse_date (rm_retrieved r)"
  using assms
  by (auto simp: validateMemoryRecall_def accepts read_fields array_Inr position_principal_Inr simp del: js_get.simps)

lemma accepted_recall:
  assumes "validateMemoryRecall parse_date v = Inr r"
  shows "recall_sound parse_date r"
  using assms
proof (rule validated_recall)
  fix xs
  assume a: "derivePositionPrincipal (rm_position r) = Some (rm_principal r)"
    "length xs \<le> MEMORY_RECALL_MAX_ITEMS" "read_each (validateRecallItem parse_date) xs = Inr (rm_items r)"
    "recall_bytes (rm_items r) \<le> MEMORY_RECALL_MAX_TOTAL_BYTES" "rm_warnings r \<le> 1"
    "0 < rm_warnings r \<longrightarrow> rm_items r = []"
    "UUID_PATTERN (rm_workspace r)" "UUID_PATTERN (rm_session r)" "rfc3339_legal parse_date (rm_retrieved r)"
  have two: "list_all2 (\<lambda>x y. validateRecallItem parse_date x = Inr y) xs (rm_items r)" using a(3) by (simp add: read_each_Inr)
  have "list_all recall_item_sound (rm_items r)"
    using two validated_recall_item by (fastforce simp: list_all2_conv_all_nth list_all_length)
  moreover have "length (rm_items r) \<le> MEMORY_RECALL_MAX_ITEMS" using a(2) list_all2_lengthD [OF two] by simp
  ultimately show ?thesis
    using a(1,4,5,6,7,8,9) by (auto simp: recall_sound_def rfc3339_legal_def)
qed

text \<open>A recall the port accepts is bounded and consistent: it belongs to the addressed position, holds at most
  twenty items and 64 KiB of text, every item is cited and located under its own id and version, and a
  degraded recall is empty.\<close>

theorem accepted_recalls_are_sound:
  "case validateMemoryRecall parse_date v of Inl _ \<Rightarrow> True | Inr r \<Rightarrow> recall_sound parse_date r"
  using accepted_recall by (auto split: sum.split)

section \<open>Accepted recalls are stable\<close>

text \<open>The value a recall stands for, with its members in the order of the returned literal.\<close>

definition optional_member :: "string \<Rightarrow> string option \<Rightarrow> (string \<times> jsval) list" where
  "optional_member k x = (case x of None \<Rightarrow> [] | Some s \<Rightarrow> [(k, JStr s)])"

definition provenance_value :: "recall_provenance \<Rightarrow> jsval" where
  "provenance_value p = JObj ((''sourceType'', JStr (rp_type p)) # optional_member ''sourceRef'' (rp_ref p) @
     optional_member ''producerAgent'' (rp_agent p) @ optional_member ''producerSession'' (rp_session p) @
     optional_member ''producerTask'' (rp_task p))"

definition recall_item_value :: "memory_item \<Rightarrow> jsval" where
  "recall_item_value i = JObj [(''memoryId'', JStr (mi_id i)), (''kind'', JStr (mi_kind i)), (''text'', JStr (mi_text i)),
     (''digest'', JStr (mi_digest i)), (''citation'', JStr (mi_citation i)), (''locator'', JStr (mi_locator i)),
     (''stateVersion'', JNum (of_int (mi_version i))), (''recordedAt'', JStr (mi_recorded i)),
     (''provenance'', provenance_value (mi_provenance i)), (''trust'', JStr ''untrusted''), (''authority'', JStr ''none'')]"

definition recall_value :: "recalled_memory \<Rightarrow> jsval" where
  "recall_value r = JObj [(''schemaVersion'', JStr MEMORY_RECALL_SCHEMA_VERSION), (''workspaceInstanceId'', JStr (rm_workspace r)),
     (''sessionId'', JStr (rm_session r)), (''positionId'', JStr (rm_position r)), (''principal'', JStr (rm_principal r)),
     (''retrievedAt'', JStr (rm_retrieved r)), (''items'', JArr (map recall_item_value (rm_items r))),
     (''warnings'', JArr (replicate (rm_warnings r) warning_value))]"

lemma optional_field_Inr:
  "optional_field f v = Inr x \<longleftrightarrow> v = JUndef \<and> x = None \<or> (v \<noteq> JUndef \<and> (\<exists>s. f v = Inr s \<and> x = Some s))"
  by (auto simp: optional_field_def and_then_Inr)

lemma provenance_stable:
  assumes "validateRecallProvenance v = Inr p"
  shows "validateRecallProvenance (provenance_value p) = Inr p"
proof -
  have f: "ID_PATTERN (rp_type p)" "pred_option (bounded_text 2048) (rp_ref p)" "pred_option ID_PATTERN (rp_agent p)"
    "pred_option ID_PATTERN (rp_session p)" "pred_option ID_PATTERN (rp_task p)"
    using assms by (auto simp: validateRecallProvenance_def accepts optional_field_Inr read_fields simp del: js_get.simps)
  show ?thesis
    using f
    by (cases "rp_ref p"; cases "rp_agent p"; cases "rp_session p"; cases "rp_task p")
       (auto simp: validateRecallProvenance_def accepts optional_field_Inr read_fields provenance_value_def
          optional_member_def exactKeys_def js_has_def)
qed

lemma recall_item_stable:
  assumes "validateRecallItem parse_date v = Inr i"
  shows "validateRecallItem parse_date (recall_item_value i) = Inr i"
proof -
  have f: "UUID_PATTERN (mi_id i)" "utf8_len (mi_text i) \<le> MEMORY_RECALL_MAX_ITEM_BYTES"
    "RAW_SHA256_PATTERN (mi_digest i)" "MEMORY_CITATION_PATTERN (mi_citation i) = Some (mi_id i)"
    "map_option fst (MEMORY_LOCATOR_PATTERN (mi_locator i)) = Some (mi_id i)"
    "js_safe_int (js_get v ''stateVersion'') = Some (mi_version i)" "1 \<le> mi_version i"
    "map_option (\<lambda>m. int (undec (snd m))) (MEMORY_LOCATOR_PATTERN (mi_locator i)) = Some (mi_version i)"
    "ID_PATTERN (mi_kind i)" "rfc3339_legal parse_date (mi_recorded i)"
    "\<exists>w. validateRecallProvenance w = Inr (mi_provenance i)"
    using assms
    by (auto simp: validateRecallItem_def accepts read_fields option_Inr simp del: js_get.simps)
  have n: "js_safe_int (JNum (of_int (mi_version i))) = Some (mi_version i)"
    using f(7) js_safe_int_bound [OF f(6)] by (simp add: safe_number)
  have p: "validateRecallProvenance (provenance_value (mi_provenance i)) = Inr (mi_provenance i)"
    using f(11) provenance_stable by blast
  have keys: "is_plain_object (recall_item_value i)" "exactKeys (recall_item_value i) RECALL_ITEM_KEYS []"
    by (simp_all add: recall_item_value_def exactKeys_def js_has_def RECALL_ITEM_KEYS_def)
  have g: "js_get (recall_item_value i) ''memoryId'' = JStr (mi_id i)" "js_get (recall_item_value i) ''kind'' = JStr (mi_kind i)"
    "js_get (recall_item_value i) ''text'' = JStr (mi_text i)" "js_get (recall_item_value i) ''digest'' = JStr (mi_digest i)"
    "js_get (recall_item_value i) ''citation'' = JStr (mi_citation i)" "js_get (recall_item_value i) ''locator'' = JStr (mi_locator i)"
    "js_get (recall_item_value i) ''stateVersion'' = JNum (of_int (mi_version i))"
    "js_get (recall_item_value i) ''recordedAt'' = JStr (mi_recorded i)"
    "js_get (recall_item_value i) ''provenance'' = provenance_value (mi_provenance i)"
    "js_get (recall_item_value i) ''trust'' = JStr ''untrusted''" "js_get (recall_item_value i) ''authority'' = JStr ''none''"
    by (simp_all add: recall_item_value_def)
  show ?thesis
    using f keys unfolding validateRecallItem_def g n p accepts read_fields option_Inr by simp
qed

text \<open>Validation is stable: the recall the port returns is accepted again, unchanged.\<close>

theorem accepted_recalls_are_stable:
  "case validateMemoryRecall parse_date v of
      Inl _ \<Rightarrow> True
    | Inr r \<Rightarrow> validateMemoryRecall parse_date (recall_value r) = Inr r"
proof -
  have "validateMemoryRecall parse_date (recall_value r) = Inr r" if a: "validateMemoryRecall parse_date v = Inr r" for r
    using a
  proof (rule validated_recall)
    fix xs
    assume f: "derivePositionPrincipal (rm_position r) = Some (rm_principal r)"
      "length xs \<le> MEMORY_RECALL_MAX_ITEMS" "read_each (validateRecallItem parse_date) xs = Inr (rm_items r)"
      "recall_bytes (rm_items r) \<le> MEMORY_RECALL_MAX_TOTAL_BYTES" "rm_warnings r \<le> 1"
      "0 < rm_warnings r \<longrightarrow> rm_items r = []"
      "UUID_PATTERN (rm_workspace r)" "UUID_PATTERN (rm_session r)" "rfc3339_legal parse_date (rm_retrieved r)"
    have two: "list_all2 (\<lambda>x y. validateRecallItem parse_date x = Inr y) xs (rm_items r)" using f(3) by (simp add: read_each_Inr)
    then have n: "length (rm_items r) \<le> MEMORY_RECALL_MAX_ITEMS" using f(2) list_all2_lengthD by fastforce
    have "validateRecallItem parse_date (recall_item_value i) = Inr i" if "i \<in> set (rm_items r)" for i
      using two that recall_item_stable by (fastforce simp: list_all2_conv_all_nth in_set_conv_nth)
    then have items: "read_each (validateRecallItem parse_date) (map recall_item_value (rm_items r)) = Inr (rm_items r)"
      by (auto simp: read_each_Inr list_all2_conv_all_nth)
    have w: "list_all warning_legal (replicate (rm_warnings r) warning_value)"
      by (simp add: list_all_iff warning_legal_def warning_value_def exactKeys_def js_has_def)
    have keys: "is_plain_object (recall_value r)" "exactKeys (recall_value r) MEMORY_RECALL_KEYS []"
      by (simp_all add: recall_value_def exactKeys_def js_has_def MEMORY_RECALL_KEYS_def)
    have g: "js_get (recall_value r) ''schemaVersion'' = JStr MEMORY_RECALL_SCHEMA_VERSION"
      "js_get (recall_value r) ''positionId'' = JStr (rm_position r)" "js_get (recall_value r) ''principal'' = JStr (rm_principal r)"
      "js_get (recall_value r) ''items'' = JArr (map recall_item_value (rm_items r))"
      "js_get (recall_value r) ''warnings'' = JArr (replicate (rm_warnings r) warning_value)"
      "js_get (recall_value r) ''workspaceInstanceId'' = JStr (rm_workspace r)"
      "js_get (recall_value r) ''sessionId'' = JStr (rm_session r)" "js_get (recall_value r) ''retrievedAt'' = JStr (rm_retrieved r)"
      by (simp_all add: recall_value_def)
    have p: "position_principal (JStr (rm_position r)) = Inr (rm_position r, rm_principal r)" using f(1) by (simp add: position_principal_Inr)
    show ?thesis
      using f(4-9) n items w keys
      unfolding validateMemoryRecall_def g p by (auto simp: accepts read_fields)
  qed
  then show ?thesis by (auto split: sum.split)
qed

section \<open>The idempotency key\<close>

text \<open>What the key of a write covers.\<close>

definition write_identity :: "write_request \<Rightarrow> string \<times> string \<times> string \<times> string \<times> string" where
  "write_identity q = (wq_workspace q, wq_session q, wq_turn q, wq_position q, ts_digest (wq_state q))"

lemma projection_identity: "idempotencyProjection q = idempotencyProjection q' \<Longrightarrow> write_identity q = write_identity q'"
  using json_quote_unique [of _ "[]" _ "[]"]
  by (auto simp: idempotencyProjection_def projection_fields_def write_identity_def dest!: json_quote_unique)

text \<open>Two writes have the same idempotency key exactly when they report the same output of the same turn of the same
  position and session, unless SHA-256 collides on the two texts; the summary, the status and the time of the task
  state do not matter.\<close>

theorem idempotency_key_identifies_the_write:
  assumes "validateMemoryWriteRequest parse_date v = Inr q" "validateMemoryWriteRequest parse_date w = Inr q'"
    and "sha (utf8_encode (idempotencyProjection q)) = sha (utf8_encode (idempotencyProjection q')) \<Longrightarrow>
         utf8_encode (idempotencyProjection q) = utf8_encode (idempotencyProjection q')"
  shows "computeMemoryIdempotencyKey sha parse_date v = computeMemoryIdempotencyKey sha parse_date w \<longleftrightarrow>
         write_identity q = write_identity q'"
proof
  assume "computeMemoryIdempotencyKey sha parse_date v = computeMemoryIdempotencyKey sha parse_date w"
  then have "utf8_encode (idempotencyProjection q) = utf8_encode (idempotencyProjection q')"
    using assms by (simp add: computeMemoryIdempotencyKey_def)
  then have "idempotencyProjection q = idempotencyProjection q'" by (metis utf8_decode_encode)
  then show "write_identity q = write_identity q'" by (rule projection_identity)
next
  assume "write_identity q = write_identity q'"
  then have "idempotencyProjection q = idempotencyProjection q'"
    by (simp add: write_identity_def idempotencyProjection_def projection_fields_def)
  then show "computeMemoryIdempotencyKey sha parse_date v = computeMemoryIdempotencyKey sha parse_date w"
    using assms(1,2) by (simp add: computeMemoryIdempotencyKey_def)
qed

text \<open>Two task states of one turn: the second is a failure with another summary.\<close>

definition sample_write :: "string \<Rightarrow> string \<Rightarrow> jsval" where
  "sample_write status summary = JObj [(''schemaVersion'', JStr MEMORY_WRITE_REQUEST_SCHEMA_VERSION),
     (''workspaceInstanceId'', JStr ''0f9a1b2c-0000-4000-8000-000000000001''),
     (''sessionId'', JStr ''0f9a1b2c-0000-4000-8000-000000000002''), (''turnId'', JStr ''turn-1''), (''positionId'', JStr ''ops''),
     (''principal'', JStr ''position.ops''), (''memoryScope'', JStr ''/teams/ops''),
     (''taskState'', JObj [(''schemaVersion'', JStr TASK_STATE_SCHEMA_VERSION), (''taskId'', JStr ''task-1''),
        (''status'', JStr status), (''summary'', JStr summary),
        (''terminalOutputDigest'', JStr (''sha256:'' @ replicate 64 CHR ''a'')), (''recordedAt'', JStr ''2026-07-11T00:00:00Z'')])]"

definition sample_write_request :: "task_status \<Rightarrow> string \<Rightarrow> write_request" where
  "sample_write_request status summary = \<lparr>wq_workspace = ''0f9a1b2c-0000-4000-8000-000000000001'',
     wq_session = ''0f9a1b2c-0000-4000-8000-000000000002'', wq_turn = ''turn-1'', wq_position = ''ops'',
     wq_principal = ''position.ops'', wq_scope = ''/teams/ops'',
     wq_state = \<lparr>ts_task = ''task-1'', ts_status = status, ts_summary = summary,
       ts_digest = ''sha256:'' @ replicate 64 CHR ''a'', ts_recorded = ''2026-07-11T00:00:00Z''\<rparr>\<rparr>"

lemma sample_writes_accepted:
  "validateMemoryWriteRequest (\<lambda>_. Some 0) (sample_write ''completed'' ''done'') = Inr (sample_write_request Task_completed ''done'')"
  "validateMemoryWriteRequest (\<lambda>_. Some 0) (sample_write ''failed'' ''broken'') = Inr (sample_write_request Task_failed ''broken'')"
  by code_simp+

theorem idempotency_key_identifies_the_write_witness:
  "computeMemoryIdempotencyKey (\<lambda>_. []) (\<lambda>_. Some 0) (sample_write ''completed'' ''done'') =
   computeMemoryIdempotencyKey (\<lambda>_. []) (\<lambda>_. Some 0) (sample_write ''failed'' ''broken'')"
proof -
  have "idempotencyProjection (sample_write_request Task_completed ''done'') =
      idempotencyProjection (sample_write_request Task_failed ''broken'')"
    by (simp add: idempotencyProjection_def projection_fields_def sample_write_request_def)
  then show ?thesis
    by (subst idempotency_key_identifies_the_write [OF sample_writes_accepted])
       (simp_all add: write_identity_def sample_write_request_def)
qed

end
