(* ===== verification/MemHttp.thy ===== *)
theory MemHttp
  imports MemoryPort
begin

text \<open>
  packages/core/src/mem-http-memory-adapter.ts: the durable memory behind HTTP. The adapter checks the pinned revision and the
  rights of its token before every operation, reads back what it wrote, and hands out recalled items of its own scope only. The
  server is an argument: the reply to a call, given the calls before it. \<open>JSON.parse\<close>, the URL parser, \<open>encodeURIComponent\<close>,
  SHA-256, \<open>Date.parse\<close>, the clock and the environment variables are parameters; messages of errors are left out.
\<close>

section \<open>Errors and replies\<close>

text \<open>\<open>Foreign_failure\<close> is a thrown value that is no error of the port.\<close>

datatype mem_error =
    Mem_record memory_error
  | Configuration_invalid
  | Contract_unsupported
  | Memory_conflict
  | Memory_denied
  | Memory_not_found
  | Memory_unavailable
  | Revision_mismatch
  | Readback_mismatch
  | Foreign_failure

definition scope_mismatch :: mem_error where
  "scope_mismatch = Mem_record Memory_scope_mismatch"

definition port_result :: "memory_error + 'a \<Rightarrow> mem_error + 'a" where
  "port_result r = (case r of Inl e \<Rightarrow> Inl (Mem_record e) | Inr a \<Rightarrow> Inr a)"

record http_call =
  hc_post :: bool
  hc_path :: string
  hc_token :: "string option"
  hc_key :: "string option"
  hc_body :: "jsval option"

datatype http_reply = Fetch_failed | Body_failed | Reply int string

type_synonym http_server = "http_call list \<Rightarrow> http_call \<Rightarrow> http_reply"

record parsed_url =
  pu_protocol :: string
  pu_hostname :: string
  pu_username :: string
  pu_password :: string
  pu_search :: string
  pu_hash :: string
  pu_pathname :: string
  pu_origin :: string

record mem_env =
  me_parse :: "string \<Rightarrow> jsval option"
  me_url :: "string \<Rightarrow> parsed_url option"
  me_encode :: "string \<Rightarrow> string"
  me_sha :: "nat list \<Rightarrow> string"
  me_date :: "string \<Rightarrow> int option"
  me_now :: string
  me_process_env :: jsval

section \<open>Configuration\<close>

definition DEFAULT_TIMEOUT_MS :: int where
  "DEFAULT_TIMEOUT_MS = 10000"

definition MAX_TIMEOUT_MS :: int where
  "MAX_TIMEOUT_MS = 30000"

definition MAX_RESPONSE_BYTES :: nat where
  "MAX_RESPONSE_BYTES = 1024 * 1024"

text \<open>\<open>/^MEM_[A-Z0-9_]{1,100}_TOKEN$/\<close>\<close>

definition TOKEN_ENV_PATTERN :: "string \<Rightarrow> bool" where
  "TOKEN_ENV_PATTERN s =
     (let middle = take (length s - 10) (drop 4 s)
      in starts_with s ''MEM_'' \<and> ends_with s ''_TOKEN'' \<and> 11 \<le> length s \<and> length s \<le> 110 \<and>
         list_all (\<lambda>c. is_upper c \<or> is_digit c \<or> c = CHR ''_'') middle)"

text \<open>\<open>/^mem_[A-Za-z0-9_-]{8,}$/\<close>\<close>

definition TOKEN_VALUE_PATTERN :: "string \<Rightarrow> bool" where
  "TOKEN_VALUE_PATTERN s =
     (starts_with s ''mem_'' \<and> 12 \<le> length s \<and>
      list_all (\<lambda>c. is_lower c \<or> is_upper c \<or> is_digit c \<or> c = CHR ''_'' \<or> c = CHR ''-'') (drop 4 s))"

text \<open>\<open>/^[A-Za-z0-9][A-Za-z0-9._:-]{0,127}$/\<close>; with the bound on the length.\<close>

definition revision_pattern :: "string \<Rightarrow> bool" where
  "revision_pattern s = (case s of
      [] \<Rightarrow> False
    | c # cs \<Rightarrow> (is_lower c \<or> is_upper c \<or> is_digit c) \<and> length s \<le> 128 \<and> js_trim s = s \<and> list_all opaque_char cs)"

record adapter_config =
  mc_base :: string
  mc_mem_workspace :: string
  mc_workspace :: string
  mc_position :: string
  mc_principal :: string
  mc_scope :: string
  mc_token_env :: string
  mc_revision :: string
  mc_timeout :: int
  mc_environment :: jsval

definition config_uuid :: "jsval \<Rightarrow> mem_error + string" where
  "config_uuid v = (case v of
      JStr s \<Rightarrow> ensure (UUID_PATTERN s) Configuration_invalid (Inr s)
    | _ \<Rightarrow> Inl Configuration_invalid)"

definition loopback :: "string \<Rightarrow> bool" where
  "loopback host = (host \<in> set [''127.0.0.1'', ''localhost'', ''::1'', ''[::1]''])"

definition origin_only :: "parsed_url \<Rightarrow> bool" where
  "origin_only u =
     ((pu_protocol u = ''https:'' \<or> (pu_protocol u = ''http:'' \<and> loopback (pu_hostname u))) \<and> pu_username u = [] \<and>
      pu_password u = [] \<and> pu_search u = [] \<and> pu_hash u = [] \<and> (pu_pathname u = [] \<or> pu_pathname u = ''/''))"

definition normalizeBaseUrl :: "mem_env \<Rightarrow> jsval \<Rightarrow> mem_error + string" where
  "normalizeBaseUrl env v = (case v of
      JStr s \<Rightarrow> ensure (js_trim s = s) Configuration_invalid
        (case me_url env s of
           None \<Rightarrow> Inl Configuration_invalid
         | Some u \<Rightarrow> ensure (origin_only u) Configuration_invalid (Inr (pu_origin u)))
    | _ \<Rightarrow> Inl Configuration_invalid)"

definition OPTION_KEYS :: "string list" where
  "OPTION_KEYS = [''baseUrl'', ''memWorkspaceId'', ''workspaceInstanceId'', ''positionId'', ''memoryScope'', ''tokenEnv'',
     ''pinnedRevision'']"

definition config_text :: "(string \<Rightarrow> bool) \<Rightarrow> jsval \<Rightarrow> mem_error + string" where
  "config_text pattern v = (case v of
      JStr s \<Rightarrow> ensure (pattern s) Configuration_invalid (Inr s)
    | _ \<Rightarrow> Inl Configuration_invalid)"

definition read_timeout :: "jsval \<Rightarrow> mem_error + int" where
  "read_timeout v =
     (if v = JUndef \<or> v = JNull then Inr DEFAULT_TIMEOUT_MS
      else case js_safe_int v of
        None \<Rightarrow> Inl Configuration_invalid
      | Some n \<Rightarrow> ensure (\<not> n < 100 \<and> \<not> n > MAX_TIMEOUT_MS) Configuration_invalid (Inr n))"

definition validateOptions :: "mem_env \<Rightarrow> jsval \<Rightarrow> mem_error + adapter_config" where
  "validateOptions env v =
     ensure (is_plain_object v \<and> exactKeys v OPTION_KEYS [''timeoutMs'', ''environment'']) Configuration_invalid
    (and_then (read_timeout (js_get v ''timeoutMs'')) (\<lambda>timeout.
     and_then (config_text TOKEN_ENV_PATTERN (js_get v ''tokenEnv'')) (\<lambda>tokenEnv.
     and_then (config_text revision_pattern (js_get v ''pinnedRevision'')) (\<lambda>revision.
     ensure (js_get v ''environment'' = JUndef \<or> is_plain_object (js_get v ''environment'')) Configuration_invalid
    (and_then (normalizeBaseUrl env (js_get v ''baseUrl'')) (\<lambda>base.
     and_then (config_uuid (js_get v ''memWorkspaceId'')) (\<lambda>memWorkspace.
     and_then (config_uuid (js_get v ''workspaceInstanceId'')) (\<lambda>workspace.
     and_then (port_result (position_principal (js_get v ''positionId''))) (\<lambda>(position, principal).
     and_then (port_result (normalizeMemoryScope (js_get v ''memoryScope''))) (\<lambda>scope.
       Inr \<lparr>mc_base = base, mc_mem_workspace = memWorkspace, mc_workspace = workspace, mc_position = position,
             mc_principal = principal, mc_scope = scope, mc_token_env = tokenEnv, mc_revision = revision, mc_timeout = timeout,
             mc_environment = (if js_get v ''environment'' = JUndef then me_process_env env else js_get v ''environment'')\<rparr>))))))))))"

definition tokenFromEnvironment :: "adapter_config \<Rightarrow> mem_error + string" where
  "tokenFromEnvironment cfg = config_text TOKEN_VALUE_PATTERN (js_get (mc_environment cfg) (mc_token_env cfg))"

section \<open>Calls\<close>

text \<open>A program that calls the server: it extends the calls made and gives a result.\<close>

type_synonym 'a calls = "http_call list \<Rightarrow> http_call list \<times> (mem_error + 'a)"

definition pure_result :: "mem_error + 'a \<Rightarrow> 'a calls" where
  "pure_result r tr = (tr, r)"

definition then_call :: "'a calls \<Rightarrow> ('a \<Rightarrow> 'b calls) \<Rightarrow> 'b calls" where
  "then_call m f tr = (case m tr of (tr1, Inl e) \<Rightarrow> (tr1, Inl e) | (tr1, Inr a) \<Rightarrow> f a tr1)"

definition mapHttpError :: "int \<Rightarrow> jsval \<Rightarrow> mem_error" where
  "mapHttpError status body =
     (let code = (if is_plain_object body then js_get body ''error'' else JUndef)
      in if status = 409 \<and> code = JStr ''idempotency_conflict'' then Memory_conflict
         else if status = 400 \<and> code = JStr ''contract_unsupported'' then Contract_unsupported
         else if status = 401 \<or> status = 403 then Memory_denied
         else if status = 404 \<or> status = 410 then Memory_not_found
         else if status \<ge> 500 then Memory_unavailable
         else Contract_unsupported)"

text \<open>A body that cannot be read throws what the reader throws; an empty body is null.\<close>

definition read_reply :: "mem_env \<Rightarrow> http_reply \<Rightarrow> mem_error + jsval" where
  "read_reply env r = (case r of
      Fetch_failed \<Rightarrow> Inl Memory_unavailable
    | Body_failed \<Rightarrow> Inl Foreign_failure
    | Reply status body \<Rightarrow>
        ensure (\<not> utf8_len body > MAX_RESPONSE_BYTES) Contract_unsupported
       (and_then (if body = [] then Inr JNull else case me_parse env body of None \<Rightarrow> Inl Contract_unsupported | Some v \<Rightarrow> Inr v)
          (\<lambda>v. ensure (200 \<le> status \<and> status \<le> 299) (mapHttpError status v) (Inr v))))"

definition requestJson :: "mem_env \<Rightarrow> http_server \<Rightarrow> http_call \<Rightarrow> jsval calls" where
  "requestJson env server call tr = (tr @ [call], read_reply env (server tr call))"

definition get_call :: "string \<Rightarrow> string option \<Rightarrow> http_call" where
  "get_call path token = \<lparr>hc_post = False, hc_path = path, hc_token = token, hc_key = None, hc_body = None\<rparr>"

definition post_call :: "string \<Rightarrow> string \<Rightarrow> string option \<Rightarrow> jsval \<Rightarrow> http_call" where
  "post_call path token key body = \<lparr>hc_post = True, hc_path = path, hc_token = Some token, hc_key = key, hc_body = Some body\<rparr>"

section \<open>The preflight\<close>

definition CAPABILITY_KEYS :: "string list" where
  "CAPABILITY_KEYS = [''deployment_mode'', ''registration_mode'', ''workspace'', ''workspace_restore_modes'',
     ''workspace_bundle_schema_versions'', ''features'', ''handoff_schema_versions'', ''permissions'']"

definition WORKSPACE_KEYS :: "string list" where
  "WORKSPACE_KEYS = [''id'', ''name'', ''resource_owner_user_id'', ''role'', ''created_at'']"

definition FEATURE_KEYS :: "string list" where
  "FEATURE_KEYS = [''context'', ''handoff'', ''memory'', ''ask'', ''index_generation_status'', ''index_generation_execution'',
     ''workspace_export'', ''workspace_import'']"

definition PERMISSION_KEYS :: "string list" where
  "PERMISSION_KEYS = [''read'', ''search'', ''write'', ''delete'', ''provider_read'', ''provider_modify'', ''permissions_manage'',
     ''workspace_export'', ''workspace_import'']"

definition exact_object :: "string list \<Rightarrow> jsval \<Rightarrow> bool" where
  "exact_object ks v = (is_plain_object v \<and> exactKeys v ks [])"

definition assertExactBooleanRecord :: "jsval \<Rightarrow> string list \<Rightarrow> mem_error + jsval" where
  "assertExactBooleanRecord v ks =
     ensure (exact_object ks v \<and> list_all (\<lambda>k. js_bool (js_get v k) \<noteq> None) ks) Contract_unsupported (Inr v)"

definition minimal_permissions :: "jsval \<Rightarrow> bool" where
  "minimal_permissions v =
     (list_all (\<lambda>k. js_get v k = JBool True) [''read'', ''write''] \<and>
      list_all (\<lambda>k. js_get v k = JBool False)
        [''search'', ''delete'', ''permissions_manage'', ''provider_modify'', ''workspace_export'', ''workspace_import''])"

definition validateCapabilities :: "adapter_config \<Rightarrow> jsval \<Rightarrow> mem_error + unit" where
  "validateCapabilities cfg v =
     ensure (exact_object CAPABILITY_KEYS v) Contract_unsupported
    (ensure (exact_object WORKSPACE_KEYS (js_get v ''workspace'')) Contract_unsupported
    (ensure (js_get (js_get v ''workspace'') ''id'' = JStr (mc_mem_workspace cfg)) scope_mismatch
    (and_then (assertExactBooleanRecord (js_get v ''features'') FEATURE_KEYS) (\<lambda>features.
     and_then (assertExactBooleanRecord (js_get v ''permissions'') PERMISSION_KEYS) (\<lambda>permissions.
     ensure (js_get features ''memory'' = JBool True) Memory_unavailable
    (ensure (minimal_permissions permissions) Memory_denied (Inr ())))))))"

definition check_version :: "adapter_config \<Rightarrow> jsval \<Rightarrow> mem_error + unit" where
  "check_version cfg v =
     ensure (exact_object [''version''] v) Contract_unsupported
    (case js_get v ''version'' of
       JStr s \<Rightarrow> ensure (s = mc_revision cfg) Revision_mismatch (Inr ())
     | _ \<Rightarrow> Inl Contract_unsupported)"

definition version_call :: http_call where
  "version_call = get_call ''/v1/version'' None"

definition capabilities_call :: "string \<Rightarrow> http_call" where
  "capabilities_call token = get_call ''/v1/capabilities'' (Some token)"

definition preflight :: "mem_env \<Rightarrow> http_server \<Rightarrow> adapter_config \<Rightarrow> string \<Rightarrow> unit calls" where
  "preflight env server cfg token =
     then_call (requestJson env server version_call) (\<lambda>version.
     then_call (pure_result (check_version cfg version)) (\<lambda>_.
     then_call (requestJson env server (capabilities_call token)) (\<lambda>capabilities.
       pure_result (validateCapabilities cfg capabilities))))"

section \<open>Stored memories\<close>

record mem_memory =
  mm_id :: string
  mm_workspace :: string
  mm_kind :: string
  mm_content :: string
  mm_path :: string
  mm_source :: string
  mm_ref :: "string option"
  mm_agent :: "string option"
  mm_session :: "string option"
  mm_task :: "string option"
  mm_digest :: string
  mm_status :: string
  mm_version :: int
  mm_event :: "string option"
  mm_created :: string

record mem_provenance =
  mp_workspace :: string
  mp_source :: string
  mp_ref :: "string option"
  mp_agent :: "string option"
  mp_session :: "string option"
  mp_task :: "string option"

definition MEMORY_REQUIRED :: "string list" where
  "MEMORY_REQUIRED = [''id'', ''workspace_id'', ''kind'', ''content'', ''path'', ''source_type'', ''content_sha256'',
     ''lifecycle_status'', ''state_version'', ''created_at'']"

definition MEMORY_KEYS :: "string list" where
  "MEMORY_KEYS = [''id'', ''workspace_id'', ''created_by_user_id'', ''kind'', ''content'', ''attributes'', ''path'', ''event_at'',
     ''source_type'', ''source_ref'', ''source_file_id'', ''source_file_sha256'', ''source_locator'', ''producer_agent'',
     ''producer_session'', ''producer_task'', ''content_sha256'', ''lifecycle_status'', ''state_version'', ''pinned'', ''pinned_at'',
     ''useful_count'', ''not_useful_count'', ''feedback_score'', ''feedback_count'', ''feedback_at'', ''forgotten_at'',
     ''created_at'', ''updated_at'']"

definition PROVENANCE_KEYS :: "string list" where
  "PROVENANCE_KEYS = [''workspace_id'', ''created_by_user_id'', ''event_at'', ''source_type'', ''source_ref'', ''source_file_id'',
     ''source_file_sha256'', ''source_locator'', ''producer_agent'', ''producer_session'', ''producer_task'']"

definition reply_text :: "(string \<Rightarrow> bool) \<Rightarrow> jsval \<Rightarrow> mem_error + string" where
  "reply_text pattern v = (case v of
      JStr s \<Rightarrow> ensure (pattern s) Contract_unsupported (Inr s)
    | _ \<Rightarrow> Inl Contract_unsupported)"

definition optionalString :: "jsval \<Rightarrow> string \<Rightarrow> mem_error + string option" where
  "optionalString v k =
     (if js_get v k = JUndef then Inr None else and_then (reply_text (\<lambda>_. True) (js_get v k)) (\<lambda>s. Inr (Some s)))"

definition reply_version :: "jsval \<Rightarrow> mem_error + int" where
  "reply_version v = (case js_safe_int v of
      None \<Rightarrow> Inl Contract_unsupported
    | Some n \<Rightarrow> ensure (\<not> n < 1) Contract_unsupported (Inr n))"

definition parses :: "mem_env \<Rightarrow> string \<Rightarrow> bool" where
  "parses env s = (me_date env s \<noteq> None)"

definition memMemory :: "mem_env \<Rightarrow> jsval \<Rightarrow> mem_error + mem_memory" where
  "memMemory env v =
     ensure (is_plain_object v \<and> exactKeys v MEMORY_REQUIRED MEMORY_KEYS) Contract_unsupported
    (and_then (reply_text UUID_PATTERN (js_get v ''id'')) (\<lambda>i.
     and_then (reply_text UUID_PATTERN (js_get v ''workspace_id'')) (\<lambda>workspace.
     and_then (reply_text (\<lambda>_. True) (js_get v ''kind'')) (\<lambda>kind.
     and_then (reply_text (\<lambda>_. True) (js_get v ''content'')) (\<lambda>content.
     and_then (reply_text (\<lambda>_. True) (js_get v ''path'')) (\<lambda>path.
     and_then (reply_text (\<lambda>_. True) (js_get v ''source_type'')) (\<lambda>source.
     and_then (reply_text RAW_SHA256_PATTERN (js_get v ''content_sha256'')) (\<lambda>digest.
     and_then (reply_text (\<lambda>_. True) (js_get v ''lifecycle_status'')) (\<lambda>status.
     and_then (reply_version (js_get v ''state_version'')) (\<lambda>version.
     and_then (reply_text (parses env) (js_get v ''created_at'')) (\<lambda>created.
     and_then (optionalString v ''event_at'') (\<lambda>event.
     ensure (case event of None \<Rightarrow> True | Some s \<Rightarrow> parses env s) Contract_unsupported
    (and_then (optionalString v ''source_ref'') (\<lambda>ref.
     and_then (optionalString v ''producer_agent'') (\<lambda>agent.
     and_then (optionalString v ''producer_session'') (\<lambda>session.
     and_then (optionalString v ''producer_task'') (\<lambda>task.
       Inr \<lparr>mm_id = i, mm_workspace = workspace, mm_kind = kind, mm_content = content, mm_path = path, mm_source = source,
             mm_ref = ref, mm_agent = agent, mm_session = session, mm_task = task, mm_digest = digest, mm_status = status,
             mm_version = version, mm_event = event, mm_created = created\<rparr>)))))))))))))))))"

definition memoryProjection :: "jsval \<Rightarrow> jsval" where
  "memoryProjection v = JObj (filter (\<lambda>p. fst p \<in> set MEMORY_KEYS) (case v of JObj kvs \<Rightarrow> kvs | _ \<Rightarrow> []))"

definition memProvenance :: "jsval \<Rightarrow> mem_error + mem_provenance" where
  "memProvenance v =
     ensure (is_plain_object v \<and> exactKeys v [''workspace_id'', ''source_type''] PROVENANCE_KEYS) Contract_unsupported
    (and_then (reply_text UUID_PATTERN (js_get v ''workspace_id'')) (\<lambda>workspace.
     and_then (reply_text (\<lambda>_. True) (js_get v ''source_type'')) (\<lambda>source.
     and_then (optionalString v ''source_ref'') (\<lambda>ref.
     and_then (optionalString v ''producer_agent'') (\<lambda>agent.
     and_then (optionalString v ''producer_session'') (\<lambda>session.
     and_then (optionalString v ''producer_task'') (\<lambda>task.
       Inr \<lparr>mp_workspace = workspace, mp_source = source, mp_ref = ref, mp_agent = agent, mp_session = session, mp_task = task\<rparr>)))))))"

section \<open>Writing\<close>

definition bindRequest :: "mem_env \<Rightarrow> adapter_config \<Rightarrow> jsval \<Rightarrow> mem_error + write_request" where
  "bindRequest env cfg v =
     and_then (port_result (validateMemoryWriteRequest (me_date env) v)) (\<lambda>q.
     ensure (wq_workspace q = mc_workspace cfg \<and> wq_position q = mc_position cfg \<and> wq_principal q = mc_principal cfg \<and>
             wq_scope q = mc_scope cfg) scope_mismatch (Inr q))"

definition state_fields :: "task_state \<Rightarrow> (string \<times> string) list" where
  "state_fields t = [(''schemaVersion'', TASK_STATE_SCHEMA_VERSION), (''taskId'', ts_task t), (''status'', status_string (ts_status t)),
     (''summary'', ts_summary t), (''terminalOutputDigest'', ts_digest t), (''recordedAt'', ts_recorded t)]"

definition canonicalTaskState :: "task_state \<Rightarrow> string" where
  "canonicalTaskState t =
     ''{'' @ join_with '','' (map (\<lambda>(k, s). json_quote k @ '':'' @ json_quote s) (state_fields t)) @ ''}''"

definition TASK_STATE_REF :: string where
  "TASK_STATE_REF = ''digital-employee://task-state.v1''"

definition memory_matches :: "adapter_config \<Rightarrow> write_request \<Rightarrow> string \<Rightarrow> string \<Rightarrow> mem_memory \<Rightarrow> bool" where
  "memory_matches cfg q content digest m =
     (mm_workspace m = mc_mem_workspace cfg \<and> mm_kind m = ''task_state'' \<and> mm_path m = mc_scope cfg \<and> mm_source m = ''agent'' \<and>
      mm_ref m = Some TASK_STATE_REF \<and> mm_agent m = Some ''digital-employee'' \<and> mm_session m = Some (wq_session q) \<and>
      mm_task m = Some (ts_task (wq_state q)) \<and> mm_status m = ''active'' \<and> mm_content m = content \<and> mm_digest m = digest)"

definition assertReadback ::
  "mem_env \<Rightarrow> adapter_config \<Rightarrow> write_request \<Rightarrow> string \<Rightarrow> string \<Rightarrow> mem_memory \<Rightarrow> mem_error + task_state" where
  "assertReadback env cfg q content digest m =
     ensure (memory_matches cfg q content digest m) Readback_mismatch
    (case me_parse env (mm_content m) of
       None \<Rightarrow> Inl Readback_mismatch
     | Some v \<Rightarrow>
        and_then (port_result (validateTaskState (me_date env) v)) (\<lambda>state.
        ensure (canonicalTaskState state = content) Readback_mismatch (Inr state)))"

definition write_body :: "adapter_config \<Rightarrow> write_request \<Rightarrow> string \<Rightarrow> jsval" where
  "write_body cfg q content =
     (let t = wq_state q
      in JObj [(''kind'', JStr ''task_state''), (''content'', JStr content), (''path'', JStr (mc_scope cfg)),
           (''event_at'', JStr (ts_recorded t)),
           (''source'', JObj [(''type'', JStr ''agent''), (''ref'', JStr TASK_STATE_REF),
              (''locator'', JObj [(''schema_version'', JStr TASK_STATE_SCHEMA_VERSION),
                 (''workspace_instance_id'', JStr (wq_workspace q)), (''position_id'', JStr (wq_position q)),
                 (''principal'', JStr (wq_principal q)), (''turn_id'', JStr (wq_turn q)),
                 (''terminal_output_digest'', JStr (ts_digest t))])]),
           (''producer'', JObj [(''agent_id'', JStr ''digital-employee''), (''session_id'', JStr (wq_session q)),
              (''task_id'', JStr (ts_task t))]),
           (''attributes'', JObj [(''schema_version'', JStr TASK_STATE_SCHEMA_VERSION), (''reviewed'', JBool True)])])"

record write_result =
  wr_id :: string
  wr_citation :: string
  wr_version :: int
  wr_digest :: string
  wr_replayed :: bool
  wr_state :: task_state

definition write_call :: "mem_env \<Rightarrow> adapter_config \<Rightarrow> string \<Rightarrow> string \<Rightarrow> write_request \<Rightarrow> http_call" where
  "write_call env cfg token key q = post_call ''/v1/memories'' token (Some key) (write_body cfg q (canonicalTaskState (wq_state q)))"

definition read_call :: "mem_env \<Rightarrow> adapter_config \<Rightarrow> string \<Rightarrow> string \<Rightarrow> http_call" where
  "read_call env cfg token i = get_call (''/v1/memories/'' @ i @ ''?scope='' @ me_encode env (mc_scope cfg)) (Some token)"

text \<open>The answer to the write: the stored memory and whether it was there before.\<close>

definition read_written :: "mem_env \<Rightarrow> adapter_config \<Rightarrow> write_request \<Rightarrow> string \<Rightarrow> jsval \<Rightarrow> mem_error + (mem_memory \<times> bool)" where
  "read_written env cfg q digest v =
     ensure (exact_object [''memory'', ''replayed''] v) Contract_unsupported
    (case js_bool (js_get v ''replayed'') of
       None \<Rightarrow> Inl Contract_unsupported
     | Some replayed \<Rightarrow>
        and_then (memMemory env (js_get v ''memory'')) (\<lambda>m.
        and_then (assertReadback env cfg q (canonicalTaskState (wq_state q)) digest m) (\<lambda>_. Inr (m, replayed))))"

definition read_back :: "mem_env \<Rightarrow> adapter_config \<Rightarrow> write_request \<Rightarrow> string \<Rightarrow> mem_memory \<Rightarrow> bool \<Rightarrow> jsval \<Rightarrow> mem_error + write_result" where
  "read_back env cfg q digest written replayed v =
     ensure (is_plain_object v \<and> exactKeys v ([''citation'', ''provenance''] @ MEMORY_REQUIRED) (MEMORY_KEYS @ [''citation'', ''provenance'']))
       Contract_unsupported
    (and_then (memMemory env (memoryProjection v)) (\<lambda>m.
     and_then (assertReadback env cfg q (canonicalTaskState (wq_state q)) digest m) (\<lambda>state.
     and_then (memProvenance (js_get v ''provenance'')) (\<lambda>provenance.
     ensure (js_get v ''citation'' = JStr (MEMORY_PATH @ mm_id written) \<and> mm_id m = mm_id written \<and>
             mm_version m = mm_version written \<and> mp_workspace provenance = mc_mem_workspace cfg \<and> mp_source provenance = ''agent'')
       Readback_mismatch
       (Inr \<lparr>wr_id = mm_id written, wr_citation = MEMORY_PATH @ mm_id written, wr_version = mm_version written,
              wr_digest = digest, wr_replayed = replayed, wr_state = state\<rparr>)))))"

definition writeTaskState :: "mem_env \<Rightarrow> http_server \<Rightarrow> adapter_config \<Rightarrow> jsval \<Rightarrow> write_result calls" where
  "writeTaskState env server cfg v =
     then_call (pure_result (bindRequest env cfg v)) (\<lambda>q.
     then_call (pure_result (tokenFromEnvironment cfg)) (\<lambda>token.
     then_call (preflight env server cfg token) (\<lambda>_.
     let digest = me_sha env (utf8_encode (canonicalTaskState (wq_state q)))
     in then_call (pure_result (port_result (computeMemoryIdempotencyKey (me_sha env) (me_date env) v))) (\<lambda>key.
        then_call (requestJson env server (write_call env cfg token key q)) (\<lambda>answer.
        then_call (pure_result (read_written env cfg q digest answer)) (\<lambda>(written, replayed).
        then_call (requestJson env server (read_call env cfg token (mm_id written))) (\<lambda>found.
          pure_result (read_back env cfg q digest written replayed found))))))))"

section \<open>Recalling\<close>

record recall_request =
  rq_session :: string
  rq_optional :: bool
  rq_limit :: int

definition RECALL_REQUEST_KEYS :: "string list" where
  "RECALL_REQUEST_KEYS = [''workspaceInstanceId'', ''sessionId'', ''positionId'', ''principal'', ''memoryScope'', ''mode'']"

definition read_recall_limit :: "jsval \<Rightarrow> mem_error + int" where
  "read_recall_limit v =
     (if v = JUndef \<or> v = JNull then Inr 10
      else case js_safe_int v of
        None \<Rightarrow> Inl (Mem_record Memory_record_invalid)
      | Some n \<Rightarrow> ensure (\<not> n < 1 \<and> \<not> n > int MEMORY_RECALL_MAX_ITEMS) (Mem_record Memory_record_invalid) (Inr n))"

definition validateRecallRequest :: "adapter_config \<Rightarrow> jsval \<Rightarrow> mem_error + recall_request" where
  "validateRecallRequest cfg v =
     ensure (is_plain_object v \<and> exactKeys v RECALL_REQUEST_KEYS [''limit'']) (Mem_record Memory_record_invalid)
    (ensure (js_get v ''mode'' = JStr ''optional'' \<or> js_get v ''mode'' = JStr ''required'') (Mem_record Memory_record_invalid)
    (and_then (read_recall_limit (js_get v ''limit'')) (\<lambda>limit.
     ensure (js_get v ''workspaceInstanceId'' = JStr (mc_workspace cfg) \<and> js_get v ''positionId'' = JStr (mc_position cfg) \<and>
             js_get v ''principal'' = JStr (mc_principal cfg)) scope_mismatch
    (and_then (port_result (normalizeMemoryScope (js_get v ''memoryScope''))) (\<lambda>scope.
     ensure (scope = mc_scope cfg) scope_mismatch
    (case js_get v ''sessionId'' of
       JStr s \<Rightarrow> ensure (UUID_PATTERN s) scope_mismatch
         (Inr \<lparr>rq_session = s, rq_optional = (js_get v ''mode'' = JStr ''optional''), rq_limit = limit\<rparr>)
     | _ \<Rightarrow> Inl scope_mismatch))))))"

definition recall_reply :: "mem_env \<Rightarrow> adapter_config \<Rightarrow> recall_request \<Rightarrow> jsval list \<Rightarrow> jsval list \<Rightarrow> jsval" where
  "recall_reply env cfg rq items warnings =
     JObj [(''schemaVersion'', JStr MEMORY_RECALL_SCHEMA_VERSION), (''workspaceInstanceId'', JStr (mc_workspace cfg)),
       (''sessionId'', JStr (rq_session rq)), (''positionId'', JStr (mc_position cfg)), (''principal'', JStr (mc_principal cfg)),
       (''retrievedAt'', JStr (me_now env)), (''items'', JArr items), (''warnings'', JArr warnings)]"

definition degradedRecall :: "mem_env \<Rightarrow> adapter_config \<Rightarrow> recall_request \<Rightarrow> mem_error + recalled_memory" where
  "degradedRecall env cfg rq = port_result (validateMemoryRecall (me_date env) (recall_reply env cfg rq [] [warning_value]))"

definition hit_in_scope :: "adapter_config \<Rightarrow> jsval \<Rightarrow> mem_memory \<Rightarrow> mem_provenance \<Rightarrow> bool" where
  "hit_in_scope cfg hit m p =
     (mm_workspace m = mc_mem_workspace cfg \<and> mp_workspace p = mc_mem_workspace cfg \<and> mm_path m = mc_scope cfg \<and>
      mm_status m = ''active'' \<and> js_get hit ''state_version'' = JNum (of_int (mm_version m)) \<and>
      js_get hit ''locator'' = JStr (MEMORY_PATH @ mm_id m @ ''@'' @ dec (nat (mm_version m))))"

definition hit_item :: "jsval \<Rightarrow> mem_memory \<Rightarrow> mem_provenance \<Rightarrow> jsval" where
  "hit_item hit m p =
     JObj [(''memoryId'', JStr (mm_id m)), (''kind'', JStr (mm_kind m)), (''text'', JStr (mm_content m)), (''digest'', JStr (mm_digest m)),
       (''citation'', JStr (MEMORY_PATH @ mm_id m)), (''locator'', js_get hit ''locator''), (''stateVersion'', JNum (of_int (mm_version m))),
       (''recordedAt'', JStr (case mm_event m of None \<Rightarrow> mm_created m | Some s \<Rightarrow> s)),
       (''provenance'', JObj ((''sourceType'', JStr (mp_source p)) # optional_member ''sourceRef'' (mp_ref p) @
          optional_member ''producerAgent'' (mp_agent p) @ optional_member ''producerSession'' (mp_session p) @
          optional_member ''producerTask'' (mp_task p))),
       (''trust'', JStr ''untrusted''), (''authority'', JStr ''none'')]"

definition read_hit :: "mem_env \<Rightarrow> adapter_config \<Rightarrow> jsval \<Rightarrow> mem_error + jsval" where
  "read_hit env cfg hit =
     ensure (exact_object [''memory'', ''locator'', ''state_version'', ''provenance''] hit) Contract_unsupported
    (and_then (memMemory env (js_get hit ''memory'')) (\<lambda>m.
     and_then (memProvenance (js_get hit ''provenance'')) (\<lambda>p.
     ensure (hit_in_scope cfg hit m p) scope_mismatch (Inr (hit_item hit m p)))))"

definition MEM_DURABLE_CONTEXT_CONTRACT :: string where
  "MEM_DURABLE_CONTEXT_CONTRACT = ''durable-context.v1''"

definition read_recalled :: "mem_env \<Rightarrow> adapter_config \<Rightarrow> recall_request \<Rightarrow> jsval \<Rightarrow> mem_error + recalled_memory" where
  "read_recalled env cfg rq v =
     ensure (exact_object [''contract'', ''principal'', ''hits''] v \<and> js_get v ''contract'' = JStr MEM_DURABLE_CONTEXT_CONTRACT \<and>
             js_get v ''principal'' = JStr (mc_principal cfg)) Contract_unsupported
    (case js_get v ''hits'' of
       JArr hits \<Rightarrow>
         ensure (\<not> int (length hits) > rq_limit rq) Contract_unsupported
        (and_then (read_each (read_hit env cfg) hits) (\<lambda>items.
           port_result (validateMemoryRecall (me_date env) (recall_reply env cfg rq items []))))
     | _ \<Rightarrow> Inl Contract_unsupported)"

definition recall_call :: "adapter_config \<Rightarrow> string \<Rightarrow> recall_request \<Rightarrow> http_call" where
  "recall_call cfg token rq = post_call ''/v1/durable-context/recall'' token None
     (JObj [(''contract'', JStr MEM_DURABLE_CONTEXT_CONTRACT), (''principal'', JStr (mc_principal cfg)),
        (''session_ref'', JStr (rq_session rq)), (''limit'', JNum (of_int (rq_limit rq)))])"

definition recall_attempt :: "mem_env \<Rightarrow> http_server \<Rightarrow> adapter_config \<Rightarrow> recall_request \<Rightarrow> recalled_memory calls" where
  "recall_attempt env server cfg rq =
     then_call (pure_result (tokenFromEnvironment cfg)) (\<lambda>token.
     then_call (preflight env server cfg token) (\<lambda>_.
     then_call (requestJson env server (recall_call cfg token rq)) (\<lambda>answer.
       pure_result (read_recalled env cfg rq answer))))"

definition recall :: "mem_env \<Rightarrow> http_server \<Rightarrow> adapter_config \<Rightarrow> jsval \<Rightarrow> recalled_memory calls" where
  "recall env server cfg v =
     then_call (pure_result (validateRecallRequest cfg v)) (\<lambda>rq tr.
       case recall_attempt env server cfg rq tr of
         (tr1, Inr m) \<Rightarrow> (tr1, Inr m)
       | (tr1, Inl e) \<Rightarrow>
           (tr1, if rq_optional rq \<and> e = Memory_unavailable then degradedRecall env cfg rq else Inl e))"

section \<open>The pin comes before the token\<close>

definition accepted :: "'e + 'a \<Rightarrow> bool" where
  "accepted r = (case r of Inl _ \<Rightarrow> False | Inr _ \<Rightarrow> True)"

text \<open>
  The first call asks for the revision, without a token; the second, made when the revision is the pinned one, asks for the rights of
  the token; every other call is made when the rights are the minimal ones.
\<close>

definition gated :: "mem_env \<Rightarrow> http_server \<Rightarrow> adapter_config \<Rightarrow> http_call list \<Rightarrow> bool" where
  "gated env server cfg tr = (case tr of
      [] \<Rightarrow> True
    | c # cs \<Rightarrow> c = version_call \<and> (case cs of
        [] \<Rightarrow> True
      | d # ds \<Rightarrow> accepted (and_then (read_reply env (server [] c)) (check_version cfg)) \<and>
          \<not> hc_post d \<and> hc_path d = ''/v1/capabilities'' \<and>
          (if ds = [] then True else accepted (and_then (read_reply env (server [c] d)) (validateCapabilities cfg)))))"

lemma then_call_Inr:
  "then_call m f tr = (tr2, Inr b) \<longleftrightarrow> (\<exists>tr1 a. m tr = (tr1, Inr a) \<and> f a tr1 = (tr2, Inr b))"
  by (auto simp: then_call_def split: prod.splits sum.splits)

lemma then_call_pure: "then_call (pure_result r) f tr = (case r of Inl e \<Rightarrow> (tr, Inl e) | Inr a \<Rightarrow> f a tr)"
  by (simp add: then_call_def pure_result_def split: sum.split)

lemma then_call_request:
  "then_call (requestJson env server call) f tr = (case read_reply env (server tr call) of
      Inl e \<Rightarrow> (tr @ [call], Inl e) | Inr v \<Rightarrow> f v (tr @ [call]))"
  by (simp add: then_call_def requestJson_def split: sum.split)

lemmas calls_simps = then_call_pure then_call_request pure_result_def

lemma preflight_cases:
  obtains (stopped) tr e where "preflight env server cfg token [] = (tr, Inl e)" "gated env server cfg tr"
  | (passed) "preflight env server cfg token [] = ([version_call, capabilities_call token], Inr ())"
      "\<And>xs. gated env server cfg (version_call # capabilities_call token # xs)"
proof (cases "and_then (read_reply env (server [] version_call)) (check_version cfg)")
  case (Inl e)
  then have "\<exists>e. preflight env server cfg token [] = ([version_call], Inl e)"
    by (cases "read_reply env (server [] version_call)") (auto simp: preflight_def calls_simps)
  then show ?thesis using stopped by (auto simp: gated_def)
next
  case version: (Inr u)
  then obtain v where v: "read_reply env (server [] version_call) = Inr v" "check_version cfg v = Inr ()"
    by (auto simp: and_then_Inr)
  have d: "\<not> hc_post (capabilities_call token)" "hc_path (capabilities_call token) = ''/v1/capabilities''"
    by (simp_all add: capabilities_call_def get_call_def)
  show ?thesis
  proof (cases "and_then (read_reply env (server [version_call] (capabilities_call token))) (validateCapabilities cfg)")
    case (Inl e)
    then have "\<exists>e. preflight env server cfg token [] = ([version_call, capabilities_call token], Inl e)"
      using v by (cases "read_reply env (server [version_call] (capabilities_call token))") (auto simp: preflight_def calls_simps)
    then show ?thesis using stopped version d by (auto simp: gated_def accepted_def)
  next
    case (Inr w)
    then obtain c where c: "read_reply env (server [version_call] (capabilities_call token)) = Inr c" "validateCapabilities cfg c = Inr ()"
      by (auto simp: and_then_Inr)
    show ?thesis
      using v c version Inr d by (intro passed) (simp_all add: preflight_def calls_simps gated_def accepted_def)
  qed
qed

lemma preflight_then:
  assumes "\<And>xs. gated env server cfg (version_call # capabilities_call token # xs) \<Longrightarrow>
      \<exists>ys. fst (f () [version_call, capabilities_call token]) = version_call # capabilities_call token # ys"
  shows "gated env server cfg (fst (then_call (preflight env server cfg token) f []))"
proof (cases rule: preflight_cases [of env server cfg token])
  case (stopped tr e)
  then show ?thesis by (simp add: then_call_def)
next
  case passed
  obtain ys where "fst (f () [version_call, capabilities_call token]) = version_call # capabilities_call token # ys"
    using assms [OF passed(2)] by blast
  then show ?thesis using passed by (simp add: then_call_def)
qed

lemma writes_are_gated: "gated env server cfg (fst (writeTaskState env server cfg v []))"
proof (cases "bindRequest env cfg v")
  case (Inr q)
  show ?thesis
  proof (cases "tokenFromEnvironment cfg")
    case token: (Inr token)
    show ?thesis
      unfolding writeTaskState_def then_call_pure Inr token sum.case
      by (rule preflight_then) (auto simp: Let_def calls_simps split: sum.split)
  qed (simp add: writeTaskState_def then_call_pure Inr gated_def)
qed (simp add: writeTaskState_def then_call_pure gated_def)

lemma attempts_are_gated: "gated env server cfg (fst (recall_attempt env server cfg rq []))"
proof (cases "tokenFromEnvironment cfg")
  case (Inr token)
  show ?thesis
    unfolding recall_attempt_def then_call_pure Inr sum.case
    by (rule preflight_then) (auto simp: calls_simps split: sum.split)
qed (simp add: recall_attempt_def then_call_pure gated_def)

lemma recalls_are_gated: "gated env server cfg (fst (recall env server cfg v []))"
proof (cases "validateRecallRequest cfg v")
  case (Inr rq)
  show ?thesis
  proof (cases "recall_attempt env server cfg rq []")
    case (Pair tr out)
    then have "fst (recall env server cfg v []) = tr"
      by (cases out) (simp_all add: recall_def then_call_pure Inr)
    then show ?thesis using attempts_are_gated [of env server cfg rq] Pair by simp
  qed
qed (simp add: recall_def then_call_pure gated_def)

text \<open>The token of the position leaves only after the server has shown the pinned revision, and nothing is written or recalled
  before the server has confirmed that the token has the minimal rights for the configured workspace.\<close>

theorem token_follows_the_pin:
  "gated env server cfg (fst (writeTaskState env server cfg v [])) \<and> gated env server cfg (fst (recall env server cfg w []))"
  using writes_are_gated recalls_are_gated by blast

end
