(* ===== verification/SessionStore.thy ===== *)
theory SessionStore
  imports CoreContracts
begin

text \<open>
  packages/core/src/session-store.ts: conversations in memory, with a time to live, a bound on their number (the least
  recently active one goes) and on the messages of each. Every reading of the clock is a value of \<open>clock\<close>;
  \<open>String(value)\<close> of a name that is no string is the parameter \<open>to_string\<close>.
\<close>

section \<open>State\<close>

datatype session_role = User | Assistant | Tool_role | System_role

record session_message =
  sm_role :: session_role
  sm_content :: string
  sm_name :: "string option"
  sm_metadata :: "jsval option"
  sm_at :: int

record session =
  se_id :: string
  se_state :: string
  se_messages :: "session_message list"
  se_metadata :: jsval
  se_created :: int
  se_active :: int

record session_store =
  ss_ttl :: int
  ss_max_sessions :: int
  ss_max_messages :: int
  ss_sessions :: "(string, session) jsmap"
  ss_reads :: nat

definition validatePositive :: "jsval \<Rightarrow> thrown + int" where
  "validatePositive v = (case js_int v of
      None \<Rightarrow> Inl ValidationError | Some n \<Rightarrow> ensure (\<not> n < 1) ValidationError (Inr n))"

definition new_sessions :: "jsval \<Rightarrow> thrown + session_store" where
  "new_sessions v =
     and_then (validatePositive (nullish (js_get v ''ttlMs'') (JNum (5 * 60000)))) (\<lambda>ttl.
     and_then (validatePositive (nullish (js_get v ''maxSessions'') (JNum 1000))) (\<lambda>maxSessions.
     and_then (validatePositive (nullish (js_get v ''maxMessages'') (JNum 20))) (\<lambda>maxMessages.
       Inr \<lparr>ss_ttl = ttl, ss_max_sessions = maxSessions, ss_max_messages = maxMessages, ss_sessions = [], ss_reads = 0\<rparr>)))"

definition tick :: "(nat \<Rightarrow> int) \<Rightarrow> session_store \<Rightarrow> int \<times> session_store" where
  "tick clock s = (clock (ss_reads s), s\<lparr>ss_reads := ss_reads s + 1\<rparr>)"

section \<open>Operations\<close>

definition validateId :: "jsval \<Rightarrow> thrown + string" where
  "validateId v = (case v of
      JStr s \<Rightarrow> ensure (\<not> blank s) ValidationError (Inr (js_trim s)) | _ \<Rightarrow> Inl ValidationError)"

definition isExpired :: "(nat \<Rightarrow> int) \<Rightarrow> session \<Rightarrow> session_store \<Rightarrow> bool \<times> session_store" where
  "isExpired clock x s = (let (now, s) = tick clock s in (now - se_active x \<ge> ss_ttl s, s))"

fun prune_sessions :: "(nat \<Rightarrow> int) \<Rightarrow> (string \<times> session) list \<Rightarrow> session_store \<Rightarrow> session_store" where
  "prune_sessions clock [] s = s"
| "prune_sessions clock (p # ps) s =
     (let (expired, s) = isExpired clock (snd p) s
      in prune_sessions clock ps (if expired then s\<lparr>ss_sessions := map_delete (ss_sessions s) (fst p)\<rparr> else s))"

definition prune_store :: "(nat \<Rightarrow> int) \<Rightarrow> session_store \<Rightarrow> session_store" where
  "prune_store clock s = prune_sessions clock (ss_sessions s) s"

fun oldest_of :: "session option \<Rightarrow> session list \<Rightarrow> session option" where
  "oldest_of best [] = best"
| "oldest_of best (x # xs) =
     oldest_of (case best of None \<Rightarrow> Some x | Some b \<Rightarrow> if se_active x < se_active b then Some x else Some b) xs"

definition ensureCapacity :: "session_store \<Rightarrow> session_store" where
  "ensureCapacity s =
     (if int (length (ss_sessions s)) < ss_max_sessions s then s
      else case oldest_of None (map_values (ss_sessions s)) of
          None \<Rightarrow> s
        | Some x \<Rightarrow> s\<lparr>ss_sessions := map_delete (ss_sessions s) (se_id x)\<rparr>)"

definition copy_message :: "session_message \<Rightarrow> session_message" where
  "copy_message m = (case sm_metadata m of
      None \<Rightarrow> m
    | Some v \<Rightarrow> if js_truthy v then m\<lparr>sm_metadata := Some (sanitizeDetails v)\<rparr> else m)"

definition copy_session :: "session \<Rightarrow> session" where
  "copy_session x = x\<lparr>se_metadata := sanitizeDetails (se_metadata x), se_messages := map copy_message (se_messages x)\<rparr>"

definition get_session :: "(nat \<Rightarrow> int) \<Rightarrow> string \<Rightarrow> session_store \<Rightarrow> session option \<times> session_store" where
  "get_session clock i s = (case map_get (ss_sessions s) i of
      None \<Rightarrow> (None, s)
    | Some x \<Rightarrow>
        let (expired, s) = isExpired clock x s
        in if expired then (None, s\<lparr>ss_sessions := map_delete (ss_sessions s) i\<rparr>) else (Some (copy_session x), s))"

text \<open>The session that \<open>getOrCreate\<close> leaves in the store.\<close>

definition getOrCreate :: "(nat \<Rightarrow> int) \<Rightarrow> string \<Rightarrow> jsval \<Rightarrow> session_store \<Rightarrow> session \<times> session_store" where
  "getOrCreate clock i metadata s0 =
     (let s = prune_store clock s0
      in case map_get (ss_sessions s) i of
           Some x \<Rightarrow> (x, s)
         | None \<Rightarrow>
             let (now, s) = tick clock (ensureCapacity s);
                 x = \<lparr>se_id = i, se_state = ''idle'', se_messages = [], se_metadata = sanitizeDetails metadata,
                      se_created = now, se_active = now\<rparr>
             in (x, s\<lparr>ss_sessions := map_set (ss_sessions s) i x\<rparr>))"

definition session_role_of :: "jsval \<Rightarrow> session_role option" where
  "session_role_of v =
     (if v = JStr ''user'' then Some User else if v = JStr ''assistant'' then Some Assistant
      else if v = JStr ''tool'' then Some Tool_role else if v = JStr ''system'' then Some System_role else None)"

definition read_message :: "(jsval \<Rightarrow> string) \<Rightarrow> jsval \<Rightarrow> thrown + (int \<Rightarrow> session_message)" where
  "read_message to_string v =
     ensure (is_plain_object v) ValidationError
    (case session_role_of (js_get v ''role'') of
       None \<Rightarrow> Inl ValidationError
     | Some role \<Rightarrow>
        (case trimmed_text (js_get v ''content'') of
           None \<Rightarrow> Inl ValidationError
         | Some content \<Rightarrow>
             Inr (\<lambda>time. \<lparr>sm_role = role, sm_content = content,
               sm_name = (if js_truthy (js_get v ''name'')
                          then Some (case js_get v ''name'' of JStr s \<Rightarrow> s | w \<Rightarrow> to_string w) else None),
               sm_metadata = (if js_truthy (js_get v ''metadata'')
                              then Some (sanitizeDetails (js_get v ''metadata'')) else None),
               sm_at = time\<rparr>)))"

definition last_part :: "int \<Rightarrow> 'a list \<Rightarrow> 'a list" where
  "last_part n xs = drop (nat (int (length xs) - n)) xs"

text \<open>The updates of the two mutators once the session is there.\<close>

definition push_message ::
  "(nat \<Rightarrow> int) \<Rightarrow> string \<Rightarrow> (int \<Rightarrow> session_message) \<Rightarrow> session_store \<Rightarrow> session_store" where
  "push_message clock i m s =
     (let (x, s) = getOrCreate clock i (JObj []) s; (time, s) = tick clock s;
          messages = last_part (ss_max_messages s) (se_messages x @ [m time]); (now, s) = tick clock s
      in s\<lparr>ss_sessions := map_set (ss_sessions s) i (x\<lparr>se_messages := messages, se_active := now\<rparr>)\<rparr>)"

definition put_state :: "(nat \<Rightarrow> int) \<Rightarrow> string \<Rightarrow> string \<Rightarrow> session_store \<Rightarrow> session_store" where
  "put_state clock i state s =
     (let (x, s) = getOrCreate clock i (JObj []) s; (now, s) = tick clock s
      in s\<lparr>ss_sessions := map_set (ss_sessions s) i (x\<lparr>se_state := state, se_active := now\<rparr>)\<rparr>)"

definition append_message ::
  "(jsval \<Rightarrow> string) \<Rightarrow> (nat \<Rightarrow> int) \<Rightarrow> jsval \<Rightarrow> jsval \<Rightarrow> session_store \<Rightarrow> (thrown + unit) \<times> session_store" where
  "append_message to_string clock i v s = (case validateId i of
      Inl e \<Rightarrow> (Inl e, s)
    | Inr i \<Rightarrow> (case read_message to_string v of Inl e \<Rightarrow> (Inl e, s) | Inr m \<Rightarrow> (Inr (), push_message clock i m s)))"

definition setState :: "(nat \<Rightarrow> int) \<Rightarrow> jsval \<Rightarrow> jsval \<Rightarrow> session_store \<Rightarrow> (thrown + unit) \<times> session_store" where
  "setState clock i v s = (case validateId i of
      Inl e \<Rightarrow> (Inl e, s)
    | Inr i \<Rightarrow> (case trimmed_text v of None \<Rightarrow> (Inl ValidationError, s) | Some st \<Rightarrow> (Inr (), put_state clock i st s)))"

definition history ::
  "(nat \<Rightarrow> int) \<Rightarrow> jsval \<Rightarrow> jsval \<Rightarrow> session_store \<Rightarrow> (thrown + session_message list) \<times> session_store" where
  "history clock i limit s = (case js_int limit of
      None \<Rightarrow> (Inl ValidationError, s)
    | Some n \<Rightarrow>
        if n < 0 then (Inl ValidationError, s)
        else case validateId i of
            Inl e \<Rightarrow> (Inl e, s)
          | Inr i \<Rightarrow> (case get_session clock i s of
                (None, s) \<Rightarrow> (Inr [], s)
              | (Some x, s) \<Rightarrow> (Inr (if n = 0 then [] else last_part n (se_messages x)), s)))"

record exchange =
  ex_question :: string
  ex_answer :: string
  ex_metadata :: jsval

text \<open>The search runs from the end; here over the messages in reverse.\<close>

fun exchange_in :: "session_message list \<Rightarrow> exchange option" where
  "exchange_in (answer # question # ms) =
     (if sm_role answer = Assistant \<and> sm_role question = User
      then Some \<lparr>ex_question = sm_content question, ex_answer = sm_content answer,
                 ex_metadata = or_default (sm_metadata answer) (JObj [])\<rparr>
      else exchange_in (question # ms))"
| "exchange_in _ = None"

definition lastExchange :: "(nat \<Rightarrow> int) \<Rightarrow> jsval \<Rightarrow> session_store \<Rightarrow> (thrown + exchange option) \<times> session_store" where
  "lastExchange clock i s = (case validateId i of
      Inl e \<Rightarrow> (Inl e, s)
    | Inr i \<Rightarrow> (case get_session clock i s of
          (None, s) \<Rightarrow> (Inr None, s) | (Some x, s) \<Rightarrow> (Inr (exchange_in (rev (se_messages x))), s)))"

definition close_session :: "jsval \<Rightarrow> session_store \<Rightarrow> (thrown + bool) \<times> session_store" where
  "close_session i s = (case validateId i of
      Inl e \<Rightarrow> (Inl e, s)
    | Inr i \<Rightarrow> (Inr (map_has (ss_sessions s) i), s\<lparr>ss_sessions := map_delete (ss_sessions s) i\<rparr>))"

section \<open>The conversations it keeps\<close>

datatype session_op =
    Get_session jsval
  | Get_or_create jsval jsval
  | Append_message jsval jsval
  | Set_state jsval jsval
  | History jsval jsval
  | Last_exchange jsval
  | Close_session jsval
  | Prune_sessions

definition session_step :: "(jsval \<Rightarrow> string) \<Rightarrow> (nat \<Rightarrow> int) \<Rightarrow> session_op \<Rightarrow> session_store \<Rightarrow> session_store" where
  "session_step to_string clock x s = (case x of
      Get_session i \<Rightarrow> (case validateId i of Inl _ \<Rightarrow> s | Inr i \<Rightarrow> snd (get_session clock i s))
    | Get_or_create i m \<Rightarrow> (case validateId i of Inl _ \<Rightarrow> s | Inr i \<Rightarrow> snd (getOrCreate clock i m s))
    | Append_message i m \<Rightarrow> snd (append_message to_string clock i m s)
    | Set_state i v \<Rightarrow> snd (setState clock i v s)
    | History i n \<Rightarrow> snd (history clock i n s)
    | Last_exchange i \<Rightarrow> snd (lastExchange clock i s)
    | Close_session i \<Rightarrow> snd (close_session i s)
    | Prune_sessions \<Rightarrow> prune_store clock s)"

text \<open>The specification: a finite map of conversations. A conversation leaves it when it has been idle for the time to
  live, when it is the least recently active one of a full map, or when it is closed.\<close>

inductive conversation_move ::
  "string set \<Rightarrow> (nat \<Rightarrow> int) \<Rightarrow> int \<Rightarrow> int \<Rightarrow> int \<Rightarrow> (string \<Rightarrow> session option) \<Rightarrow> (string \<Rightarrow> session option) \<Rightarrow> bool"
  for closed clock ttl maxSessions maxMessages where
  session_expires: "f i = Some x \<Longrightarrow> clock n - se_active x \<ge> ttl \<Longrightarrow>
    conversation_move closed clock ttl maxSessions maxMessages f (f(i := None))"
| session_evicted: "f i = Some x \<Longrightarrow> int (card (dom f)) \<ge> maxSessions \<Longrightarrow> \<forall>j y. f j = Some y \<longrightarrow> se_active x \<le> se_active y \<Longrightarrow>
    conversation_move closed clock ttl maxSessions maxMessages f (f(i := None))"
| session_opened: "f i = None \<Longrightarrow> int (card (dom f)) < maxSessions \<Longrightarrow> se_id x = i \<Longrightarrow> se_messages x = [] \<Longrightarrow>
    conversation_move closed clock ttl maxSessions maxMessages f (f(i \<mapsto> x))"
| message_added: "f i = Some x \<Longrightarrow>
    conversation_move closed clock ttl maxSessions maxMessages f
      (f(i \<mapsto> x\<lparr>se_messages := last_part maxMessages (se_messages x @ [m]), se_active := clock n\<rparr>))"
| state_changed: "f i = Some x \<Longrightarrow>
    conversation_move closed clock ttl maxSessions maxMessages f (f(i \<mapsto> x\<lparr>se_state := st, se_active := clock n\<rparr>))"
| session_closed: "i \<in> closed \<Longrightarrow> conversation_move closed clock ttl maxSessions maxMessages f (f(i := None))"

definition store_inv :: "int \<Rightarrow> int \<Rightarrow> int \<Rightarrow> session_store \<Rightarrow> bool" where
  "store_inv ttl maxSessions maxMessages s \<longleftrightarrow>
     ss_ttl s = ttl \<and> ss_max_sessions s = maxSessions \<and> ss_max_messages s = maxMessages \<and>
     1 \<le> maxSessions \<and> 1 \<le> maxMessages \<and> map_wf (ss_sessions s) \<and> int (length (ss_sessions s)) \<le> maxSessions \<and>
     list_all (\<lambda>p. se_id (snd p) = fst p \<and> int (length (se_messages (snd p))) \<le> maxMessages) (ss_sessions s)"

abbreviation conversations :: "session_store \<Rightarrow> string \<Rightarrow> session option" where
  "conversations s \<equiv> map_get (ss_sessions s)"

lemma dom_conversations: "dom (map_get m) = fst ` set m"
  using dom_map_of_conv_image_fst [of m] by (simp add: map_get_def [abs_def])

lemma card_conversations: "map_wf m \<Longrightarrow> card (dom (map_get m)) = length m"
  by (simp add: dom_conversations length_map_of_wf)

lemma get_delete_fun: "map_get (map_delete m k) = (map_get m)(k := None)"
  by auto

lemma get_set_fun: "map_get (map_set m k v) = (map_get m)(k \<mapsto> v)"
  by auto

lemma last_part_length: "0 \<le> n \<Longrightarrow> int (length (last_part n xs)) \<le> n"
  by (simp add: last_part_def)

lemma inv_delete: "store_inv t ms mm s \<Longrightarrow> store_inv t ms mm (s\<lparr>ss_sessions := map_delete (ss_sessions s) k\<rparr>)"
  using length_map_delete [of "ss_sessions s" k] by (auto simp: store_inv_def)

lemma inv_reads [simp]: "store_inv t ms mm (s\<lparr>ss_reads := n\<rparr>) = store_inv t ms mm s"
  by (simp add: store_inv_def)

definition store_leads :: "string set \<Rightarrow> (nat \<Rightarrow> int) \<Rightarrow> int \<Rightarrow> int \<Rightarrow> int \<Rightarrow> session_store \<Rightarrow> session_store \<Rightarrow> bool" where
  "store_leads C clock t ms mm s s' \<longleftrightarrow>
     store_inv t ms mm s' \<and> rtranclp (conversation_move C clock t ms mm) (conversations s) (conversations s')"

lemma leads_refl: "store_inv t ms mm s \<Longrightarrow> store_leads C clock t ms mm s s"
  by (simp add: store_leads_def)

lemma leads_trans: "store_leads C clock t ms mm s s' \<Longrightarrow> store_leads C clock t ms mm s' s'' \<Longrightarrow> store_leads C clock t ms mm s s''"
  by (auto simp: store_leads_def intro: rtranclp_trans)

lemma leads_tick: "store_inv t ms mm s \<Longrightarrow> store_leads C clock t ms mm s (s\<lparr>ss_reads := n\<rparr>)"
  by (simp add: store_leads_def)

lemma prune_sessions_leads:
  assumes "store_inv t ms mm s" "distinct (map fst ps)" "\<forall>p \<in> set ps. conversations s (fst p) = Some (snd p)"
  shows "store_leads C clock t ms mm s (prune_sessions clock ps s)"
  using assms
proof (induction ps arbitrary: s)
  case Nil
  then show ?case by (simp add: leads_refl)
next
  case (Cons p ps)
  let ?s = "s\<lparr>ss_reads := ss_reads s + 1\<rparr>"
  let ?d = "?s\<lparr>ss_sessions := map_delete (ss_sessions s) (fst p)\<rparr>"
  have i: "store_inv t ms mm ?s" using Cons.prems(1) by simp
  show ?case
  proof (cases "clock (ss_reads s) - se_active (snd p) \<ge> t")
    case True
    have d: "store_inv t ms mm ?d" using inv_delete [OF i] by simp
    moreover have "conversation_move C clock t ms mm (conversations s) (conversations ?d)"
      using session_expires [of "conversations s" "fst p" "snd p" t clock "ss_reads s"] True Cons.prems(3)
      by (simp add: get_delete_fun)
    ultimately have "store_leads C clock t ms mm s ?d" by (simp add: store_leads_def r_into_rtranclp)
    moreover have "store_leads C clock t ms mm ?d (prune_sessions clock ps ?d)"
      using Cons.prems d by (intro Cons.IH) (auto simp: image_iff)
    ultimately have "store_leads C clock t ms mm s (prune_sessions clock ps ?d)" by (rule leads_trans)
    then show ?thesis using True Cons.prems(1) by (simp add: isExpired_def tick_def store_inv_def)
  next
    case False
    have "store_leads C clock t ms mm ?s (prune_sessions clock ps ?s)" using Cons.prems i by (intro Cons.IH) auto
    then show ?thesis
      using leads_trans [OF leads_tick] False Cons.prems(1) by (simp add: isExpired_def tick_def store_inv_def store_leads_def)
  qed
qed

lemma prune_leads: "store_inv t ms mm s \<Longrightarrow> store_leads C clock t ms mm s (prune_store clock s)"
  unfolding prune_store_def by (rule prune_sessions_leads) (auto simp: store_inv_def map_wf_def map_get_def)

lemma get_leads: "store_inv t ms mm s \<Longrightarrow> store_leads C clock t ms mm s (snd (get_session clock i s))"
proof (cases "conversations s i")
  case None
  assume "store_inv t ms mm s"
  then show ?thesis using None by (simp add: get_session_def leads_refl)
next
  case (Some x)
  assume i: "store_inv t ms mm s"
  let ?s = "s\<lparr>ss_reads := ss_reads s + 1\<rparr>"
  show ?thesis
  proof (cases "clock (ss_reads s) - se_active x \<ge> t")
    case True
    have "conversation_move C clock t ms mm (conversations s) ((conversations s)(i := None))"
      using Some True by (rule session_expires)
    moreover have "store_inv t ms mm (?s\<lparr>ss_sessions := map_delete (ss_sessions s) i\<rparr>)"
      using inv_delete [of t ms mm ?s i] i by simp
    ultimately show ?thesis
      using i Some True
      by (simp add: get_session_def isExpired_def tick_def store_leads_def get_delete_fun r_into_rtranclp store_inv_def)
  next
    case False
    then show ?thesis
      using i Some leads_tick [OF i, of C clock "ss_reads s + 1"]
      by (simp add: get_session_def isExpired_def tick_def store_inv_def)
  qed
qed

lemma oldest_of_min:
  "oldest_of best xs = Some x \<Longrightarrow> x \<in> set_option best \<union> set xs \<and> (\<forall>y \<in> set_option best \<union> set xs. se_active x \<le> se_active y)"
proof (induction best xs rule: oldest_of.induct)
  case (2 best y ys)
  then show ?case by (cases best) (fastforce split: if_splits)+
qed auto

lemma oldest_of_None: "oldest_of best xs = None \<longleftrightarrow> best = None \<and> xs = []"
  by (induction best xs rule: oldest_of.induct) (auto split: option.split)

lemma capacity_leads:
  assumes "store_inv t ms mm s"
  shows "store_leads C clock t ms mm s (ensureCapacity s) \<and> int (length (ss_sessions (ensureCapacity s))) < ms \<and>
    dom (conversations (ensureCapacity s)) \<subseteq> dom (conversations s)"
proof (cases "int (length (ss_sessions s)) < ms")
  case True
  then show ?thesis using assms by (simp add: ensureCapacity_def store_inv_def leads_refl)
next
  case False
  then have ne: "map_values (ss_sessions s) \<noteq> []" using assms by (auto simp: store_inv_def map_values_def)
  then obtain x where x: "oldest_of None (map_values (ss_sessions s)) = Some x"
    using oldest_of_None [of None] by (cases "oldest_of None (map_values (ss_sessions s))") auto
  have wf: "map_wf (ss_sessions s)" using assms by (simp add: store_inv_def)
  obtain k where k: "conversations s k = Some x" using oldest_of_min [OF x] map_values_get [OF wf] by auto
  then have id: "se_id x = k" using assms list_all_map_get by (fastforce simp: store_inv_def)
  have e: "ensureCapacity s = s\<lparr>ss_sessions := map_delete (ss_sessions s) k\<rparr>"
    using False x id assms by (simp add: ensureCapacity_def store_inv_def)
  have "conversation_move C clock t ms mm (conversations s) ((conversations s)(k := None))"
    using k False oldest_of_min [OF x] map_values_get [OF wf] card_conversations [OF wf]
    by (intro session_evicted) auto
  moreover have "length (map_delete (ss_sessions s) k) < length (ss_sessions s)"
    using k by (intro length_map_delete_present) (simp add: map_has_get)
  ultimately show ?thesis
    unfolding e using assms inv_delete [OF assms, of k]
    by (auto simp: store_leads_def get_delete_fun r_into_rtranclp store_inv_def)
qed

lemma put_leads:
  assumes "store_inv t ms mm s" "conversations s i = Some x" "se_id y = i" "int (length (se_messages y)) \<le> mm"
    and "conversation_move C clock t ms mm (conversations s) ((conversations s)(i \<mapsto> y))"
  shows "store_leads C clock t ms mm s (s\<lparr>ss_sessions := map_set (ss_sessions s) i y\<rparr>)"
proof -
  have "length (map_set (ss_sessions s) i y) = length (ss_sessions s)"
    using assms(2) by (simp add: length_map_set map_has_get)
  then show ?thesis
    using assms by (auto simp: store_leads_def store_inv_def get_set_fun r_into_rtranclp intro!: list_all_map_set)
qed

lemma open_leads:
  assumes "store_inv t ms mm s" "getOrCreate clock i m s = (x, s')"
  shows "store_leads C clock t ms mm s s' \<and> conversations s' i = Some x"
proof (cases "conversations (prune_store clock s) i")
  case (Some y)
  then show ?thesis using assms prune_leads by (auto simp: getOrCreate_def Let_def)
next
  case None
  let ?p = "prune_store clock s"
  let ?e = "ensureCapacity ?p"
  let ?k = "?e\<lparr>ss_reads := ss_reads ?e + 1\<rparr>"
  have p: "store_leads C clock t ms mm s ?p" using prune_leads assms(1) by blast
  then have ip: "store_inv t ms mm ?p" by (simp add: store_leads_def)
  have e: "store_leads C clock t ms mm ?p ?e" "int (length (ss_sessions ?e)) < ms" "conversations ?e i = None"
    using capacity_leads [OF ip] None by auto
  then have ie: "store_inv t ms mm ?e" by (simp add: store_leads_def)
  have x: "se_id x = i" "se_messages x = []" and s': "s' = ?k\<lparr>ss_sessions := map_set (ss_sessions ?e) i x\<rparr>"
    using assms(2) None by (auto simp: getOrCreate_def tick_def Let_def)
  have "conversation_move C clock t ms mm (conversations ?e) ((conversations ?e)(i \<mapsto> x))"
    using e x ie card_conversations [of "ss_sessions ?e"] by (intro session_opened) (auto simp: store_inv_def)
  moreover have "store_inv t ms mm s'"
    using ie e(2,3) x unfolding s' by (auto simp: store_inv_def length_map_set map_has_get intro!: list_all_map_set)
  ultimately have "store_leads C clock t ms mm ?e s'" unfolding s' by (simp add: store_leads_def get_set_fun r_into_rtranclp)
  then show ?thesis using leads_trans [OF leads_trans [OF p e(1)]] unfolding s' by auto
qed

text \<open>A mutator opens the conversation, reads the clock and writes it back.\<close>

lemma open_inv:
  "store_inv t ms mm s \<Longrightarrow> getOrCreate clock i m s = (x, s') \<Longrightarrow> store_inv t ms mm s' \<and> se_id x = i \<and> int (length (se_messages x)) \<le> mm"
  using open_leads [of t ms mm s clock i m x s' "{}"] list_all_map_get [of _ "ss_sessions s'" i x]
  by (fastforce simp: store_leads_def store_inv_def)

lemma push_leads:
  assumes "store_inv t ms mm s"
  shows "store_leads C clock t ms mm s (push_message clock i m s)"
proof -
  obtain x s1 where o: "getOrCreate clock i (JObj []) s = (x, s1)" by fastforce
  note l = open_leads [OF assms o] and i = open_inv [OF assms o]
  let ?s = "s1\<lparr>ss_reads := ss_reads s1 + 1 + 1\<rparr>"
  let ?y = "x\<lparr>se_messages := last_part mm (se_messages x @ [m (clock (ss_reads s1))]), se_active := clock (ss_reads s1 + 1)\<rparr>"
  have "1 \<le> mm" using assms by (simp add: store_inv_def)
  then have "store_leads C clock t ms mm ?s (?s\<lparr>ss_sessions := map_set (ss_sessions ?s) i ?y\<rparr>)"
    using i l message_added [where f = "conversations s1" and i = i and x = x and n = "ss_reads s1 + 1"]
    by (intro put_leads [where x = x]) (auto simp: last_part_length)
  moreover have "push_message clock i m s = ?s\<lparr>ss_sessions := map_set (ss_sessions ?s) i ?y\<rparr>"
    using o i by (simp add: push_message_def tick_def store_inv_def Let_def)
  ultimately show ?thesis using l i leads_trans leads_tick by metis
qed

lemma put_state_leads:
  assumes "store_inv t ms mm s"
  shows "store_leads C clock t ms mm s (put_state clock i st s)"
proof -
  obtain x s1 where o: "getOrCreate clock i (JObj []) s = (x, s1)" by fastforce
  note l = open_leads [OF assms o] and i = open_inv [OF assms o]
  let ?s = "s1\<lparr>ss_reads := ss_reads s1 + 1\<rparr>"
  let ?y = "x\<lparr>se_state := st, se_active := clock (ss_reads s1)\<rparr>"
  have "store_leads C clock t ms mm ?s (?s\<lparr>ss_sessions := map_set (ss_sessions ?s) i ?y\<rparr>)"
    using i l state_changed [where f = "conversations s1" and i = i and x = x and n = "ss_reads s1"]
    by (intro put_leads [where x = x]) auto
  moreover have "put_state clock i st s = ?s\<lparr>ss_sessions := map_set (ss_sessions ?s) i ?y\<rparr>"
    using o by (simp add: put_state_def tick_def Let_def)
  ultimately show ?thesis using l i leads_trans leads_tick by metis
qed

text \<open>The ids an operation closes.\<close>

definition closes :: "session_op \<Rightarrow> string set" where
  "closes x = (case x of Close_session v \<Rightarrow> (case validateId v of Inl _ \<Rightarrow> {} | Inr i \<Rightarrow> {i}) | _ \<Rightarrow> {})"

lemma step_leads:
  assumes "store_inv t ms mm s" "closes x \<subseteq> C"
  shows "store_leads C clock t ms mm s (session_step to_string clock x s)"
proof (cases x)
  case (Get_session i)
  then show ?thesis using assms(1) get_leads leads_refl by (auto simp: session_step_def split: sum.split)
next
  case (Get_or_create i m)
  then show ?thesis
    using assms(1) open_leads [of t ms mm s clock _ m] leads_refl prod.collapse
    by (auto simp: session_step_def split: sum.split) (metis prod.collapse)
next
  case (Append_message i m)
  then show ?thesis
    using assms(1) push_leads leads_refl by (auto simp: session_step_def append_message_def split: sum.split)
next
  case (Set_state i v)
  then show ?thesis
    using assms(1) put_state_leads leads_refl
    by (auto simp: session_step_def setState_def split: sum.split option.split)
next
  case (History i n)
  then show ?thesis
    using assms(1) get_leads leads_refl
    by (auto simp: session_step_def history_def split: sum.split option.split prod.split) (metis snd_conv)+
next
  case (Last_exchange i)
  then show ?thesis
    using assms(1) get_leads leads_refl
    by (auto simp: session_step_def lastExchange_def split: sum.split option.split prod.split) (metis snd_conv)+
next
  case (Close_session i)
  then show ?thesis
    using assms inv_delete session_closed leads_refl
    by (auto simp: session_step_def close_session_def closes_def store_leads_def get_delete_fun r_into_rtranclp split: sum.splits)
next
  case Prune_sessions
  then show ?thesis using assms(1) prune_leads by (simp add: session_step_def)
qed

lemma new_sessions_inv:
  "new_sessions v = Inr s \<Longrightarrow> store_inv (ss_ttl s) (ss_max_sessions s) (ss_max_messages s) s \<and> ss_sessions s = []"
  by (auto simp: new_sessions_def validatePositive_def store_inv_def accepts option_Inr)

lemma run_leads:
  "store_inv t ms mm s \<Longrightarrow> store_leads (\<Union>x \<in> set ops. closes x) clock t ms mm s (fold (session_step to_string clock) ops s)"
proof (induction ops rule: rev_induct)
  case Nil
  then show ?case by (simp add: leads_refl)
next
  case (snoc x ops)
  let ?C = "\<Union>x \<in> set (ops @ [x]). closes x" and ?s = "fold (session_step to_string clock) ops s"
  have more: "conversation_move C' clock t ms mm f g" if "conversation_move C clock t ms mm f g" "C \<subseteq> C'" for C C' f g
    using that by (cases rule: conversation_move.cases) (auto intro: conversation_move.intros)
  have "store_leads (\<Union>x \<in> set ops. closes x) clock t ms mm s ?s" using snoc by blast
  then have "store_leads ?C clock t ms mm s ?s"
    using more [of "\<Union>x \<in> set ops. closes x" _ _ ?C] mono_rtranclp [rule_format, of "conversation_move (\<Union>x \<in> set ops. closes x) clock t ms mm"
        "conversation_move ?C clock t ms mm" "conversations s" "conversations ?s"]
    by (simp add: store_leads_def le_supI1)
  moreover have "store_leads ?C clock t ms mm ?s (session_step to_string clock x ?s)"
    using snoc by (intro step_leads) (auto simp: store_leads_def)
  ultimately show ?case using leads_trans by simp
qed


text \<open>The bounds, for every conversation at every moment.\<close>

theorem session_store_is_bounded:
  "case new_sessions v of
      Inl _ \<Rightarrow> True
    | Inr s \<Rightarrow>
        int (length (ss_sessions (fold (session_step to_string clock) ops s))) \<le> ss_max_sessions s \<and>
        list_all (\<lambda>p. int (length (se_messages (snd p))) \<le> ss_max_messages s)
          (ss_sessions (fold (session_step to_string clock) ops s))"
proof (cases "new_sessions v")
  case (Inr s)
  then show ?thesis
    using run_leads [of "ss_ttl s" "ss_max_sessions s" "ss_max_messages s" s ops clock to_string] new_sessions_inv [OF Inr]
    by (auto simp: store_leads_def store_inv_def list_all_iff)
qed simp

end
