(* ===== verification/JobRunner.thy ===== *)
theory JobRunner
  imports JsMap "HOL-Library.Multiset"
begin

text \<open>
  packages/core/src/job-runner.ts: the queue in front of the answer loop. A request is refused, begins at
  once, or waits; a task that settles makes room for the next ones; a timer or the closing of the runner
  refuses what still waits. Every reading of the clock is a value of the parameter \<open>clock\<close>; a task is the
  moment it settles, and does not call the runner before its first await. The ghost fields are the
  suspended calls of \<open>#start\<close>, the number of requests made, what happened to them, and the recorded jobs.
\<close>

section \<open>Options\<close>

datatype job_error = Runner_closed | Job_invalid | Duplicate_request | Actor_busy | Rate_limited int | Queue_full | Queue_timeout

definition positiveInteger :: "bool \<Rightarrow> jsval \<Rightarrow> job_error + int" where
  "positiveInteger allowZero v = (case js_int v of
      None \<Rightarrow> Inl Job_invalid
    | Some n \<Rightarrow> if n < (if allowZero then 0 else 1) then Inl Job_invalid else Inr n)"

record job_options =
  jo_concurrent :: int
  jo_queue :: int
  jo_timeout :: int
  jo_cooldown :: int
  jo_window :: int
  jo_seen :: int
  jo_actors :: int

text \<open>\<open>options.name ?? DEFAULTS.name\<close>\<close>

definition job_option :: "jsval \<Rightarrow> string \<Rightarrow> int \<Rightarrow> jsval" where
  "job_option v k d = (if js_get v k \<in> {JUndef, JNull} then JNum (of_int d) else js_get v k)"

definition read_job_options :: "jsval \<Rightarrow> job_error + job_options" where
  "read_job_options v =
     and_then (positiveInteger False (job_option v ''maxConcurrent'' 2)) (\<lambda>concurrent.
     and_then (positiveInteger True (job_option v ''maxQueueSize'' 50)) (\<lambda>queue.
     and_then (positiveInteger False (job_option v ''queueTimeoutMs'' 30000)) (\<lambda>timeout.
     and_then (positiveInteger True (job_option v ''cooldownMs'' 0)) (\<lambda>cooldown.
     and_then (positiveInteger True (job_option v ''dedupeWindowMs'' (5 * 60000))) (\<lambda>window.
     and_then (positiveInteger False (job_option v ''maxSeenJobs'' 1000)) (\<lambda>seen.
     and_then (positiveInteger False (job_option v ''maxTrackedActors'' 1000)) (\<lambda>actors.
       Inr \<lparr>jo_concurrent = concurrent, jo_queue = queue, jo_timeout = timeout, jo_cooldown = cooldown,
             jo_window = window, jo_seen = seen, jo_actors = actors\<rparr>)))))))"

section \<open>State\<close>

record job_identity =
  ji_actor :: string
  ji_job :: "string option"

record queued_job =
  qj_request :: nat
  qj_identity :: job_identity

datatype job_event = Began nat | Refused nat job_error | Settled nat

record job_runner =
  jr_running :: int
  jr_running_actors :: "string list"
  jr_queued_actors :: "string list"
  jr_queue :: "queued_job list"
  jr_seen :: "(string, int) jsmap"
  jr_started :: "(string, int) jsmap"
  jr_closed :: bool
  jr_reads :: nat
  jr_active :: "(nat \<times> job_identity) list"
  jr_requests :: nat
  jr_events :: "job_event list"
  jr_recorded :: "(string \<times> int) list"

definition new_runner :: job_runner where
  "new_runner = \<lparr>jr_running = 0, jr_running_actors = [], jr_queued_actors = [], jr_queue = [], jr_seen = [],
     jr_started = [], jr_closed = False, jr_reads = 0, jr_active = [], jr_requests = 0, jr_events = [], jr_recorded = []\<rparr>"

definition set_add :: "'a list \<Rightarrow> 'a \<Rightarrow> 'a list" where
  "set_add xs x = (if x \<in> set xs then xs else xs @ [x])"

definition set_remove :: "'a list \<Rightarrow> 'a \<Rightarrow> 'a list" where
  "set_remove xs x = filter (\<lambda>y. y \<noteq> x) xs"

definition noted :: "job_event \<Rightarrow> job_runner \<Rightarrow> job_runner" where
  "noted e s = s\<lparr>jr_events := jr_events s @ [e]\<rparr>"

definition read_clock :: "(nat \<Rightarrow> int) \<Rightarrow> job_runner \<Rightarrow> int \<times> job_runner" where
  "read_clock clock s = (clock (jr_reads s), s\<lparr>jr_reads := jr_reads s + 1\<rparr>)"

section \<open>Operations\<close>

definition trimmed_field :: "jsval \<Rightarrow> string \<Rightarrow> string option" where
  "trimmed_field v k = (case js_get v k of
      JStr s \<Rightarrow> if blank s then None else Some (js_trim s)
    | _ \<Rightarrow> None)"

definition validateIdentity :: "jsval \<Rightarrow> job_error + job_identity" where
  "validateIdentity v =
     ensure (is_plain_object v) Job_invalid
       (Inr \<lparr>ji_actor = (case trimmed_field v ''actorId'' of None \<Rightarrow> ''anonymous'' | Some a \<Rightarrow> a),
             ji_job = trimmed_field v ''jobId''\<rparr>)"

definition prune :: "job_options \<Rightarrow> (nat \<Rightarrow> int) \<Rightarrow> job_runner \<Rightarrow> job_runner" where
  "prune cfg clock s =
     (let (now, s) = read_clock clock s
      in s\<lparr>jr_seen := filter (\<lambda>p. \<not> now - snd p \<ge> jo_window cfg) (jr_seen s),
           jr_started := filter (\<lambda>p. \<not> now - snd p \<ge> jo_cooldown cfg) (jr_started s)\<rparr>)"

definition assertAccepted :: "job_options \<Rightarrow> (nat \<Rightarrow> int) \<Rightarrow> job_identity \<Rightarrow> job_runner \<Rightarrow> job_error option \<times> job_runner" where
  "assertAccepted cfg clock i s =
     (let (now, s) = read_clock clock s;
          duplicate = (case ji_job i of
              None \<Rightarrow> False
            | Some j \<Rightarrow> jo_window cfg > 0 \<and>
                (case map_get (jr_seen s) j of None \<Rightarrow> False | Some t \<Rightarrow> now - t < jo_window cfg))
      in (if duplicate then Some Duplicate_request
          else if ji_actor i \<in> set (jr_running_actors s) \<or> ji_actor i \<in> set (jr_queued_actors s) then Some Actor_busy
          else (case map_get (jr_started s) (ji_actor i) of
                  None \<Rightarrow> None
                | Some t \<Rightarrow>
                    if jo_cooldown cfg > 0 \<and> now - t < jo_cooldown cfg
                    then Some (Rate_limited (jo_cooldown cfg - (now - t))) else None),
          s))"

text \<open>\<open>#setBounded\<close>: the key moves to the end, then the oldest keys go.\<close>

definition setBounded :: "(string, int) jsmap \<Rightarrow> string \<Rightarrow> int \<Rightarrow> int \<Rightarrow> (string, int) jsmap" where
  "setBounded m k v maximum = (let m = map_set (map_delete m k) k v in drop (nat (int (length m) - maximum)) m)"

definition recordJob :: "job_options \<Rightarrow> (nat \<Rightarrow> int) \<Rightarrow> string option \<Rightarrow> job_runner \<Rightarrow> job_runner" where
  "recordJob cfg clock job s = (case job of
      None \<Rightarrow> s
    | Some j \<Rightarrow>
        if jo_window cfg > 0
        then let (now, s) = read_clock clock s
             in s\<lparr>jr_seen := setBounded (jr_seen s) j now (jo_seen cfg), jr_recorded := jr_recorded s @ [(j, now)]\<rparr>
        else s)"

definition start_job :: "job_options \<Rightarrow> (nat \<Rightarrow> int) \<Rightarrow> nat \<Rightarrow> job_identity \<Rightarrow> job_runner \<Rightarrow> job_runner" where
  "start_job cfg clock n i s =
     (let s = s\<lparr>jr_running := jr_running s + 1, jr_running_actors := set_add (jr_running_actors s) (ji_actor i)\<rparr>;
          s = (if jo_cooldown cfg > 0
               then let (now, s) = read_clock clock s
                    in s\<lparr>jr_started := setBounded (jr_started s) (ji_actor i) now (jo_actors cfg)\<rparr>
               else s)
      in noted (Began n) (s\<lparr>jr_active := jr_active s @ [(n, i)]\<rparr>))"

definition enqueue :: "nat \<Rightarrow> job_identity \<Rightarrow> job_runner \<Rightarrow> job_runner" where
  "enqueue n i s =
     s\<lparr>jr_queued_actors := set_add (jr_queued_actors s) (ji_actor i),
       jr_queue := jr_queue s @ [\<lparr>qj_request = n, qj_identity = i\<rparr>]\<rparr>"

definition run_request :: "job_options \<Rightarrow> (nat \<Rightarrow> int) \<Rightarrow> bool \<Rightarrow> jsval \<Rightarrow> nat \<Rightarrow> job_runner \<Rightarrow> job_runner" where
  "run_request cfg clock callable v n s =
     (if jr_closed s then noted (Refused n Runner_closed) s
      else if \<not> callable then noted (Refused n Job_invalid) s
      else case validateIdentity v of
          Inl e \<Rightarrow> noted (Refused n e) s
        | Inr i \<Rightarrow>
            let (refusal, s) = assertAccepted cfg clock i (prune cfg clock s)
            in case refusal of
                 Some e \<Rightarrow> noted (Refused n e) s
               | None \<Rightarrow>
                   if jr_running s < jo_concurrent cfg
                   then start_job cfg clock n i (recordJob cfg clock (ji_job i) s)
                   else if int (length (jr_queue s)) \<ge> jo_queue cfg then noted (Refused n Queue_full) s
                   else enqueue n i (recordJob cfg clock (ji_job i) s))"

text \<open>The loop of \<open>#drain\<close> over the queue as it is when the loop begins.\<close>

fun drain_loop :: "job_options \<Rightarrow> (nat \<Rightarrow> int) \<Rightarrow> queued_job list \<Rightarrow> job_runner \<Rightarrow> job_runner" where
  "drain_loop cfg clock [] s = s"
| "drain_loop cfg clock (e # q) s =
     (if \<not> jr_closed s \<and> jr_running s < jo_concurrent cfg
      then drain_loop cfg clock q
        (start_job cfg clock (qj_request e) (qj_identity e)
          (s\<lparr>jr_queue := q, jr_queued_actors := set_remove (jr_queued_actors s) (ji_actor (qj_identity e))\<rparr>))
      else s)"

definition drain :: "job_options \<Rightarrow> (nat \<Rightarrow> int) \<Rightarrow> job_runner \<Rightarrow> job_runner" where
  "drain cfg clock s = drain_loop cfg clock (jr_queue s) s"

text \<open>The \<open>finally\<close> block of \<open>#start\<close>, when the task of the request settles.\<close>

definition task_settles :: "job_options \<Rightarrow> (nat \<Rightarrow> int) \<Rightarrow> nat \<Rightarrow> job_runner \<Rightarrow> job_runner" where
  "task_settles cfg clock n s = (case map_of (jr_active s) n of
      None \<Rightarrow> s
    | Some i \<Rightarrow>
        noted (Settled n) (drain cfg clock
          (s\<lparr>jr_running := jr_running s - 1, jr_running_actors := set_remove (jr_running_actors s) (ji_actor i),
             jr_active := filter (\<lambda>p. fst p \<noteq> n) (jr_active s)\<rparr>)))"

definition queue_timer :: "nat \<Rightarrow> job_runner \<Rightarrow> job_runner" where
  "queue_timer n s = (case List.find (\<lambda>e. qj_request e = n) (jr_queue s) of
      None \<Rightarrow> s
    | Some e \<Rightarrow>
        noted (Refused n Queue_timeout)
          (s\<lparr>jr_queue := filter (\<lambda>e. qj_request e \<noteq> n) (jr_queue s),
             jr_queued_actors := set_remove (jr_queued_actors s) (ji_actor (qj_identity e))\<rparr>))"

fun reject_all :: "queued_job list \<Rightarrow> job_runner \<Rightarrow> job_runner" where
  "reject_all [] s = s"
| "reject_all (e # q) s =
     reject_all q (noted (Refused (qj_request e) Runner_closed)
       (s\<lparr>jr_queued_actors := set_remove (jr_queued_actors s) (ji_actor (qj_identity e))\<rparr>))"

definition close_runner :: "job_runner \<Rightarrow> job_runner" where
  "close_runner s =
     (if jr_closed s then s else reject_all (jr_queue s) (s\<lparr>jr_closed := True, jr_queue := []\<rparr>))"

record runner_snapshot =
  sn_running :: int
  sn_queued :: nat
  sn_max_concurrent :: int
  sn_max_queue :: int
  sn_closed :: bool

definition snapshot :: "job_options \<Rightarrow> job_runner \<Rightarrow> runner_snapshot" where
  "snapshot cfg s = \<lparr>sn_running = jr_running s, sn_queued = length (jr_queue s), sn_max_concurrent = jo_concurrent cfg,
     sn_max_queue = jo_queue cfg, sn_closed = jr_closed s\<rparr>"

datatype job_op = Run bool jsval | Task_settles nat | Timer_fires nat | Close_runner

definition job_step :: "job_options \<Rightarrow> (nat \<Rightarrow> int) \<Rightarrow> job_op \<Rightarrow> job_runner \<Rightarrow> job_runner" where
  "job_step cfg clock x s = (case x of
      Run callable v \<Rightarrow> run_request cfg clock callable v (jr_requests s) (s\<lparr>jr_requests := jr_requests s + 1\<rparr>)
    | Task_settles n \<Rightarrow> task_settles cfg clock n s
    | Timer_fires n \<Rightarrow> queue_timer n s
    | Close_runner \<Rightarrow> close_runner s)"

section \<open>The invariant\<close>

fun begun :: "job_event list \<Rightarrow> nat list" where
  "begun [] = []"
| "begun (Began n # es) = n # begun es"
| "begun (_ # es) = begun es"

fun concluded :: "job_event list \<Rightarrow> nat list" where
  "concluded [] = []"
| "concluded (Began _ # es) = concluded es"
| "concluded (Refused n _ # es) = n # concluded es"
| "concluded (Settled n # es) = n # concluded es"

lemma begun_append [simp]: "begun (xs @ ys) = begun xs @ begun ys"
  by (induction xs rule: begun.induct) auto

lemma concluded_append [simp]: "concluded (xs @ ys) = concluded xs @ concluded ys"
  by (induction xs rule: concluded.induct) auto

definition waiting :: "job_runner \<Rightarrow> nat list" where
  "waiting s = map qj_request (jr_queue s)"

definition slots :: "job_options \<Rightarrow> job_runner \<Rightarrow> bool" where
  "slots cfg s \<longleftrightarrow>
     jr_running s = int (length (jr_active s)) \<and> jr_running s \<le> jo_concurrent cfg \<and>
     int (length (jr_queue s)) \<le> jo_queue cfg \<and>
     jr_running_actors s = map (\<lambda>p. ji_actor (snd p)) (jr_active s) \<and>
     jr_queued_actors s = map (\<lambda>e. ji_actor (qj_identity e)) (jr_queue s) \<and>
     distinct (map (\<lambda>p. ji_actor (snd p)) (jr_active s) @ map (\<lambda>e. ji_actor (qj_identity e)) (jr_queue s)) \<and>
     (jr_closed s \<longrightarrow> jr_queue s = [])"

text \<open>The requests of \<open>P\<close> are being handled: neither running nor waiting nor concluded.\<close>

definition accounts :: "nat list \<Rightarrow> job_runner \<Rightarrow> bool" where
  "accounts P s \<longleftrightarrow> mset (map fst (jr_active s) @ waiting s @ concluded (jr_events s) @ P) = mset [0..<jr_requests s]"

definition in_order :: "job_runner \<Rightarrow> bool" where
  "in_order s \<longleftrightarrow> sorted_wrt (<) (begun (jr_events s) @ waiting s)"

definition below_next :: "nat \<Rightarrow> job_runner \<Rightarrow> bool" where
  "below_next n s \<longleftrightarrow> list_all (\<lambda>m. m < n) (begun (jr_events s) @ waiting s)"

text \<open>No free slot is left while requests wait.\<close>

definition saturated :: "job_options \<Rightarrow> job_runner \<Rightarrow> bool" where
  "saturated cfg s \<longleftrightarrow> (if jr_queue s = [] then True else jr_running s = jo_concurrent cfg)"

definition job_core :: "job_options \<Rightarrow> nat list \<Rightarrow> job_runner \<Rightarrow> bool" where
  "job_core cfg P s \<longleftrightarrow> slots cfg s \<and> accounts P s \<and> in_order s \<and> below_next (jr_requests s) s"

definition job_inv :: "job_options \<Rightarrow> job_runner \<Rightarrow> bool" where
  "job_inv cfg s \<longleftrightarrow> job_core cfg [] s \<and> saturated cfg s"

lemmas core_defs = job_core_def slots_def accounts_def in_order_def below_next_def waiting_def

named_theorems same_jobs \<open>operations that leave the requests alone\<close>

definition job_view where
  "job_view s = (jr_running s, jr_running_actors s, jr_queued_actors s, jr_queue s, jr_closed s, jr_active s, jr_requests s, jr_events s)"

lemma view_core: "job_view s = job_view t \<Longrightarrow> job_core cfg P s = job_core cfg P t"
  by (simp add: job_view_def core_defs)

lemma view_saturated: "job_view s = job_view t \<Longrightarrow> saturated cfg s = saturated cfg t"
  by (simp add: job_view_def saturated_def)

lemma view_prune [same_jobs]: "job_view (prune cfg clock s) = job_view s"
  by (simp add: prune_def read_clock_def job_view_def)

lemma view_accepted [same_jobs]: "assertAccepted cfg clock i s = (r, t) \<Longrightarrow> job_view t = job_view s"
  by (auto simp: assertAccepted_def read_clock_def job_view_def Let_def)

lemma view_recorded [same_jobs]: "job_view (recordJob cfg clock j s) = job_view s"
  by (simp add: recordJob_def read_clock_def job_view_def Let_def split: option.split)

lemma not_busy:
  "assertAccepted cfg clock i s = (None, t) \<Longrightarrow> ji_actor i \<notin> set (jr_running_actors s) \<union> set (jr_queued_actors s)"
  by (auto simp: assertAccepted_def read_clock_def Let_def split: if_splits)

text \<open>What \<open>#start\<close> does to the requests, whatever the clock.\<close>

lemma view_start:
  "job_view (start_job cfg clock n i s) =
     (jr_running s + 1, set_add (jr_running_actors s) (ji_actor i), jr_queued_actors s, jr_queue s, jr_closed s,
      jr_active s @ [(n, i)], jr_requests s, jr_events s @ [Began n])"
  by (simp add: start_job_def read_clock_def noted_def job_view_def Let_def)

lemma start_core:
  assumes "job_core cfg (n # P) s" "jr_running s < jo_concurrent cfg"
    and "ji_actor i \<notin> set (jr_running_actors s) \<union> set (jr_queued_actors s)"
    and "sorted_wrt (<) (begun (jr_events s) @ n # waiting s)" "n < jr_requests s"
  shows "job_core cfg P (start_job cfg clock n i s)"
  using view_start [of cfg clock n i s] assms
  by (auto simp: job_view_def core_defs set_add_def)

lemma enqueue_core:
  assumes "job_core cfg (n # P) s" "int (length (jr_queue s)) < jo_queue cfg" "\<not> jr_closed s"
    and "ji_actor i \<notin> set (jr_running_actors s) \<union> set (jr_queued_actors s)"
    and "below_next n s" "n < jr_requests s"
  shows "job_core cfg P (enqueue n i s)"
  using assms by (auto simp: enqueue_def core_defs set_add_def list_all_iff sorted_wrt_append)

lemma concluded_core:
  "job_core cfg (n # P) s \<Longrightarrow> concluded [e] = [n] \<Longrightarrow> begun [e] = [] \<Longrightarrow> job_core cfg P (noted e s)"
  by (auto simp: core_defs noted_def)

lemma noted_saturated [simp]: "saturated cfg (noted e s) = saturated cfg s"
  by (simp add: saturated_def noted_def)

text \<open>The loop of \<open>#drain\<close> starts waiting requests in order until the slots are full.\<close>

lemma drain_core:
  assumes "job_core cfg P s" "jr_queue s = q"
  shows "job_core cfg P (drain_loop cfg clock q s) \<and> saturated cfg (drain_loop cfg clock q s)"
  using assms
proof (induction q arbitrary: s)
  case Nil
  then show ?case by (simp add: saturated_def)
next
  case (Cons e q)
  show ?case
  proof (cases "\<not> jr_closed s \<and> jr_running s < jo_concurrent cfg")
    case True
    let ?s = "s\<lparr>jr_queue := q, jr_queued_actors := set_remove (jr_queued_actors s) (ji_actor (qj_identity e))\<rparr>"
    let ?t = "start_job cfg clock (qj_request e) (qj_identity e) ?s"
    have "set_remove (jr_queued_actors s) (ji_actor (qj_identity e)) = map (\<lambda>e. ji_actor (qj_identity e)) q"
      using Cons.prems by (auto simp: core_defs set_remove_def intro: filter_True)
    then have "job_core cfg P ?t"
      using Cons.prems True by (intro start_core) (auto simp: core_defs sorted_wrt_append)
    moreover have "jr_queue ?t = q" using view_start [of cfg clock "qj_request e" "qj_identity e" ?s] by (simp add: job_view_def)
    ultimately show ?thesis using Cons.IH True by simp
  next
    case False
    then have "drain_loop cfg clock (e # q) s = s" by (auto simp: Let_def)
    moreover have "saturated cfg s" using False Cons.prems by (auto simp: saturated_def core_defs split: if_splits)
    ultimately show ?thesis using Cons.prems(1) by metis
  qed
qed

text \<open>Removing one request from a list with unique keys.\<close>

lemma filter_other: "k \<notin> f ` set xs \<Longrightarrow> filter (\<lambda>y. f y \<noteq> k) xs = xs"
  by (rule filter_True) auto

lemma filter_key: "distinct (map f xs) \<Longrightarrow> x \<in> set xs \<Longrightarrow> filter (\<lambda>y. f y \<noteq> f x) xs = remove1 x xs"
proof (induction xs)
  case (Cons y ys)
  then show ?case using filter_other [of "f x" f ys] by (cases "y = x") auto
qed simp

lemma set_remove_map: "distinct (map f xs) \<Longrightarrow> x \<in> set xs \<Longrightarrow> set_remove (map f xs) (f x) = map f (remove1 x xs)"
  by (simp add: set_remove_def filter_map comp_def filter_key)

lemma accounts_distinct:
  "accounts P s \<Longrightarrow> distinct (map fst (jr_active s) @ waiting s @ concluded (jr_events s) @ P)"
  unfolding accounts_def by (metis distinct_upt mset_eq_imp_distinct_iff)

lemma accounts_open: "accounts P s \<Longrightarrow> distinct (map fst (jr_active s)) \<and> distinct (waiting s)"
  using accounts_distinct [of P s] by (auto simp: distinct_append)

lemma remove_mset: "x \<in> set xs \<Longrightarrow> mset (map f xs) = add_mset (f x) (mset (map f (remove1 x xs)))"
  by (induction xs) auto

lemma remove_length: "x \<in> set xs \<Longrightarrow> int (length xs) = int (length (remove1 x xs)) + 1"
  by (induction xs) auto

lemma remove_sub: "f ` set (remove1 x xs) \<subseteq> f ` set xs"
  by (rule image_mono [OF set_remove1_subset])

lemma sorted_remove: "sorted_wrt (<) (bs @ map f xs) \<Longrightarrow> sorted_wrt (<) (bs @ map f (remove1 x xs))"
proof (induction xs arbitrary: bs)
  case (Cons y ys)
  then show ?case using Cons.IH [of "bs @ [f y]"] by (auto simp: sorted_wrt_append)
qed simp

lemma distinct_remove: "distinct (map f xs) \<Longrightarrow> distinct (map f (remove1 x xs))"
  by (induction xs) (auto dest: set_remove1_subset [THEN subsetD])

lemma all_remove: "list_all P (map f xs) \<Longrightarrow> list_all P (map f (remove1 x xs))"
  by (induction xs) auto

lemma settle_core:
  assumes "job_core cfg P s" "map_of (jr_active s) n = Some i"
  shows "job_core cfg (n # P) (s\<lparr>jr_running := jr_running s - 1,
           jr_running_actors := set_remove (jr_running_actors s) (ji_actor i),
           jr_active := filter (\<lambda>p. fst p \<noteq> n) (jr_active s)\<rparr>)"
proof -
  have m: "(n, i) \<in> set (jr_active s)" using assms(2) by (rule map_of_SomeD)
  have a: "slots cfg s" "accounts P s" "in_order s" "below_next (jr_requests s) s" using assms(1) by (auto simp: job_core_def)
  let ?r = "remove1 (n, i) (jr_active s)"
  have f: "filter (\<lambda>p. fst p \<noteq> n) (jr_active s) = ?r"
    using filter_key [of fst "jr_active s" "(n, i)"] accounts_open [OF a(2)] m by simp
  have r: "set_remove (map (\<lambda>p. ji_actor (snd p)) (jr_active s)) (ji_actor i) = map (\<lambda>p. ji_actor (snd p)) ?r"
    using set_remove_map [of "\<lambda>p. ji_actor (snd p)" "jr_active s" "(n, i)"] a(1) m by (simp add: slots_def)
  have "slots cfg (s\<lparr>jr_running := jr_running s - 1, jr_running_actors := set_remove (jr_running_actors s) (ji_actor i),
       jr_active := ?r\<rparr>)"
    using a(1) r remove_length [OF m] distinct_remove [of "\<lambda>p. ji_actor (snd p)" "jr_active s" "(n, i)"]
      remove_sub [of "\<lambda>p. ji_actor (snd p)" "(n, i)" "jr_active s"]
    by (auto simp: slots_def)
  moreover have "accounts (n # P) (s\<lparr>jr_running := jr_running s - 1,
       jr_running_actors := set_remove (jr_running_actors s) (ji_actor i), jr_active := ?r\<rparr>)"
    using a(2) remove_mset [OF m, of fst] by (simp add: accounts_def waiting_def)
  ultimately show ?thesis
    using a(3,4) unfolding f by (simp add: job_core_def in_order_def below_next_def waiting_def)
qed

lemma leave_queue_core:
  assumes "job_core cfg P s" "e \<in> set (jr_queue s)" "qj_request e = n"
  shows "job_core cfg (n # P) (s\<lparr>jr_queue := filter (\<lambda>e. qj_request e \<noteq> n) (jr_queue s),
           jr_queued_actors := set_remove (jr_queued_actors s) (ji_actor (qj_identity e))\<rparr>)"
proof -
  have a: "slots cfg s" "accounts P s" "in_order s" "below_next (jr_requests s) s" using assms(1) by (auto simp: job_core_def)
  let ?r = "remove1 e (jr_queue s)"
  have f: "filter (\<lambda>e. qj_request e \<noteq> n) (jr_queue s) = ?r"
    using filter_key [of qj_request "jr_queue s" e] accounts_open [OF a(2)] assms(2,3) by (simp add: waiting_def)
  have r: "set_remove (map (\<lambda>e. ji_actor (qj_identity e)) (jr_queue s)) (ji_actor (qj_identity e)) =
      map (\<lambda>e. ji_actor (qj_identity e)) ?r"
    using set_remove_map [of "\<lambda>e. ji_actor (qj_identity e)" "jr_queue s" e] a(1) assms(2) by (simp add: slots_def)
  have "slots cfg (s\<lparr>jr_queue := ?r, jr_queued_actors := set_remove (jr_queued_actors s) (ji_actor (qj_identity e))\<rparr>)"
    using a(1) r remove_length [OF assms(2)] distinct_remove [of "\<lambda>e. ji_actor (qj_identity e)" "jr_queue s" e]
      remove_sub [of "\<lambda>e. ji_actor (qj_identity e)" e "jr_queue s"]
    by (auto simp: slots_def)
  moreover have "accounts (n # P) (s\<lparr>jr_queue := ?r,
      jr_queued_actors := set_remove (jr_queued_actors s) (ji_actor (qj_identity e))\<rparr>)"
    using a(2) assms(3) remove_mset [OF assms(2), of qj_request] by (simp add: accounts_def waiting_def)
  ultimately show ?thesis
    using a(3,4) sorted_remove [of "begun (jr_events s)" qj_request "jr_queue s" e]
      all_remove [of "\<lambda>m. m < jr_requests s" qj_request "jr_queue s" e] unfolding f by (simp add: job_core_def in_order_def below_next_def waiting_def)
qed

lemma reject_all_view:
  assumes "jr_queued_actors s = map (\<lambda>e. ji_actor (qj_identity e)) q" "distinct (jr_queued_actors s)"
  shows "reject_all q s =
    s\<lparr>jr_queued_actors := [], jr_events := jr_events s @ map (\<lambda>e. Refused (qj_request e) Runner_closed) q\<rparr>"
  using assms
proof (induction q arbitrary: s)
  case (Cons e q)
  have "set_remove (jr_queued_actors s) (ji_actor (qj_identity e)) = map (\<lambda>e. ji_actor (qj_identity e)) q"
    using Cons.prems by (auto simp: set_remove_def intro: filter_True)
  then show ?case using Cons by (simp add: noted_def)
qed simp

lemma concluded_refusals: "concluded (map (\<lambda>e. Refused (f e) x) q) = map f q" "begun (map (\<lambda>e. Refused (f e) x) q) = []"
  by (induction q) auto

lemma job_close_inv:
  assumes "job_inv cfg s"
  shows "job_inv cfg (close_runner s)"
proof (cases "jr_closed s")
  case False
  have "reject_all (jr_queue s) (s\<lparr>jr_closed := True, jr_queue := []\<rparr>) =
      s\<lparr>jr_closed := True, jr_queue := [], jr_queued_actors := [],
        jr_events := jr_events s @ map (\<lambda>e. Refused (qj_request e) Runner_closed) (jr_queue s)\<rparr>"
    using assms by (subst reject_all_view) (auto simp: job_inv_def core_defs)
  then show ?thesis
    using assms False
    by (auto simp: job_inv_def core_defs saturated_def close_runner_def concluded_refusals ac_simps sorted_wrt_append)
qed (use assms in \<open>simp add: close_runner_def\<close>)

lemma job_timer_inv:
  assumes "job_inv cfg s"
  shows "job_inv cfg (queue_timer n s)"
proof (cases "List.find (\<lambda>e. qj_request e = n) (jr_queue s)")
  case (Some e)
  then have e: "e \<in> set (jr_queue s)" "qj_request e = n" by (auto simp: find_Some_iff)
  have "job_core cfg [] (queue_timer n s)"
    unfolding queue_timer_def Some using assms
    by (auto intro!: concluded_core leave_queue_core e simp: job_inv_def)
  moreover have "saturated cfg (queue_timer n s)"
    using assms Some e by (auto simp: queue_timer_def job_inv_def saturated_def noted_def split: if_splits)
  ultimately show ?thesis by (simp add: job_inv_def)
qed (use assms in \<open>simp add: queue_timer_def\<close>)

lemma job_settle_inv:
  assumes "job_inv cfg s"
  shows "job_inv cfg (task_settles cfg clock n s)"
proof (cases "map_of (jr_active s) n")
  case (Some i)
  let ?s = "s\<lparr>jr_running := jr_running s - 1, jr_running_actors := set_remove (jr_running_actors s) (ji_actor i),
      jr_active := filter (\<lambda>p. fst p \<noteq> n) (jr_active s)\<rparr>"
  have "job_core cfg [n] ?s" using settle_core [OF _ Some] assms by (auto simp: job_inv_def)
  then have "job_core cfg [n] (drain cfg clock ?s)" "saturated cfg (drain cfg clock ?s)"
    unfolding drain_def using drain_core by blast+
  then show ?thesis using Some by (simp add: task_settles_def job_inv_def concluded_core)
qed (use assms in \<open>simp add: task_settles_def\<close>)

text \<open>A request that is refused, begun or queued, from a state where it is the one being handled.\<close>

lemma run_core:
  assumes "job_core cfg [n] s" "saturated cfg s" "below_next n s" "n < jr_requests s"
  shows "job_inv cfg (run_request cfg clock callable v n s)"
proof -
  have refuse: "job_inv cfg (noted (Refused n e) t)" if "job_view t = job_view s" for t e
    using assms(1,2) concluded_core [of cfg n "[]" t "Refused n e"] view_core [OF that] view_saturated [OF that]
    by (simp add: job_inv_def)
  show ?thesis
  proof (cases "jr_closed s \<or> \<not> callable \<or> (\<exists>e. validateIdentity v = Inl e)")
    case True
    then show ?thesis using refuse by (auto simp: run_request_def)
  next
    case False
    then obtain i where open_identity: "\<not> jr_closed s" "callable" "validateIdentity v = Inr i"
      by (cases "validateIdentity v") auto
    obtain refusal t where t: "assertAccepted cfg clock i (prune cfg clock s) = (refusal, t)" by fastforce
    have view: "job_view t = job_view s" using view_accepted [OF t] view_prune by metis
    let ?t = "recordJob cfg clock (ji_job i) t"
    have "job_view ?t = job_view s" using view view_recorded by metis
    note rec = this view_core [OF this] view_saturated [OF this]
    show ?thesis
    proof (cases refusal)
      case (Some e)
      then show ?thesis using open_identity t refuse [OF view] by (simp add: run_request_def)
    next
      case None
      then have free: "ji_actor i \<notin> set (jr_running_actors s) \<union> set (jr_queued_actors s)"
        using not_busy t view_prune [of cfg clock s] by (fastforce simp: job_view_def)
      have core: "job_core cfg [n] ?t" using assms(1) rec(2) by blast
      show ?thesis
      proof (cases "jr_running s < jo_concurrent cfg")
        case True
        then have e: "jr_queue s = []" using assms(2) by (auto simp: saturated_def split: if_splits)
        have "sorted_wrt (<) (begun (jr_events s) @ n # waiting s)"
          using core rec(1) e assms(3)
          by (auto simp: job_core_def in_order_def below_next_def waiting_def job_view_def list_all_iff sorted_wrt_append)
        then have "job_core cfg [] (start_job cfg clock n i ?t)"
          using start_core [OF core, of i clock] True free assms(4) rec(1) by (simp add: job_view_def waiting_def)
        moreover have "saturated cfg (start_job cfg clock n i ?t)"
          using view_start [of cfg clock n i ?t] e rec(1) by (simp add: saturated_def job_view_def)
        moreover have "jr_running t = jr_running s" using view by (simp add: job_view_def)
        ultimately show ?thesis using open_identity t None True by (simp add: run_request_def job_inv_def)
      next
        case full: False
        have same: "jr_running t = jr_running s" "jr_queue t = jr_queue s" using view by (simp_all add: job_view_def)
        show ?thesis
        proof (cases "int (length (jr_queue s)) \<ge> jo_queue cfg")
          case True
          then show ?thesis using open_identity t None full same refuse [OF view] by (simp add: run_request_def)
        next
          case room: False
          have "job_core cfg [] (enqueue n i ?t)"
            using enqueue_core [OF core, of i] room free assms(3,4) rec(1) open_identity
            by (simp add: job_view_def below_next_def waiting_def)
          moreover have "saturated cfg (enqueue n i ?t)"
            using core full rec(1) by (auto simp: saturated_def enqueue_def core_defs job_view_def)
          ultimately show ?thesis using open_identity t None full room same by (simp add: run_request_def job_inv_def)
        qed
      qed
    qed
  qed
qed

lemma job_step_inv: "job_inv cfg s \<Longrightarrow> job_inv cfg (job_step cfg clock x s)"
proof (cases x)
  case (Run callable v)
  assume i: "job_inv cfg s"
  let ?s = "s\<lparr>jr_requests := jr_requests s + 1\<rparr>"
  have "job_core cfg [jr_requests s] ?s"
    using i by (auto simp: job_inv_def core_defs list_all_iff less_Suc_eq)
  moreover have "saturated cfg ?s" "below_next (jr_requests s) ?s"
    using i by (auto simp: job_inv_def saturated_def core_defs)
  ultimately show ?thesis using Run run_core by (simp add: job_step_def)
qed (auto simp: job_step_def job_settle_inv job_timer_inv job_close_inv)

lemma new_runner_inv:
  assumes "read_job_options v = Inr cfg"
  shows "job_inv cfg new_runner"
proof -
  have "1 \<le> jo_concurrent cfg" "0 \<le> jo_queue cfg"
    using assms by (auto simp: read_job_options_def accepts positiveInteger_def option_Inr split: option.splits if_splits)
  then show ?thesis by (simp add: job_inv_def core_defs saturated_def new_runner_def)
qed

section \<open>The scheduler it refines\<close>

text \<open>What a client sees: who waits, in order; who runs, in the order of beginning; whether the runner is closed.\<close>

definition job_abs :: "job_runner \<Rightarrow> nat list \<times> nat list \<times> bool" where
  "job_abs s = (waiting s, map fst (jr_active s), jr_closed s)"

inductive fifo_step :: "nat \<Rightarrow> nat \<Rightarrow> nat list \<times> nat list \<times> bool \<Rightarrow> nat list \<times> nat list \<times> bool \<Rightarrow> bool"
  for slots capacity where
  fifo_begin: "length rs < slots \<Longrightarrow> fifo_step slots capacity ([], rs, False) ([], rs @ [n], False)"
| fifo_wait: "length rs = slots \<Longrightarrow> length ws < capacity \<Longrightarrow> fifo_step slots capacity (ws, rs, False) (ws @ [n], rs, False)"
| fifo_settle: "n \<in> set rs \<Longrightarrow> k = slots - (length rs - 1) \<Longrightarrow>
    fifo_step slots capacity (ws, rs, False) (drop k ws, remove1 n rs @ take k ws, False)"
| fifo_last: "n \<in> set rs \<Longrightarrow> fifo_step slots capacity ([], rs, True) ([], remove1 n rs, True)"
| fifo_leave: "n \<in> set ws \<Longrightarrow> fifo_step slots capacity (ws, rs, c) (remove1 n ws, rs, c)"
| fifo_close: "fifo_step slots capacity (ws, rs, False) ([], rs, True)"

lemma abs_view: "job_view s = job_view t \<Longrightarrow> job_abs s = job_abs t"
  by (simp add: job_view_def job_abs_def waiting_def)

lemma abs_start: "job_abs (start_job cfg clock n i s) = (waiting s, map fst (jr_active s) @ [n], jr_closed s)"
  using view_start [of cfg clock n i s] by (simp add: job_view_def job_abs_def waiting_def)

lemma abs_noted [simp]: "job_abs (noted e s) = job_abs s"
  by (simp add: job_abs_def noted_def waiting_def)

lemma abs_drain:
  assumes "jr_queue s = q" "\<not> jr_closed s" "k = nat (jo_concurrent cfg - jr_running s)"
  shows "job_abs (drain_loop cfg clock q s) =
    (drop k (map qj_request q), map fst (jr_active s) @ take k (map qj_request q), False)"
  using assms
proof (induction q arbitrary: s k)
  case Nil
  then show ?case by (simp add: job_abs_def waiting_def)
next
  case (Cons e q)
  show ?case
  proof (cases "jr_running s < jo_concurrent cfg")
    case True
    let ?s = "s\<lparr>jr_queue := q, jr_queued_actors := set_remove (jr_queued_actors s) (ji_actor (qj_identity e))\<rparr>"
    let ?t = "start_job cfg clock (qj_request e) (qj_identity e) ?s"
    have t: "jr_queue ?t = q" "\<not> jr_closed ?t" "jr_running ?t = jr_running s + 1"
      "jr_active ?t = jr_active s @ [(qj_request e, qj_identity e)]"
      using view_start [of cfg clock "qj_request e" "qj_identity e" ?s] Cons.prems by (simp_all add: job_view_def)
    have "k = Suc (nat (jo_concurrent cfg - jr_running ?t))" using True t(3) Cons.prems by simp
    then show ?thesis using Cons.IH [OF t(1,2) refl] True Cons.prems(2) t(4) by simp
  next
    case False
    then show ?thesis using Cons.prems by (auto simp: job_abs_def waiting_def)
  qed
qed

lemma remove1_map:
  "distinct (map f xs) \<Longrightarrow> x \<in> set xs \<Longrightarrow> map f (remove1 x xs) = remove1 (f x) (map f xs)"
  by (induction xs) (auto simp: image_iff)

lemma drain_closed: "jr_closed s \<Longrightarrow> drain_loop cfg clock q s = s"
  by (cases q) (auto simp: Let_def)

lemma run_simulates:
  assumes "job_inv cfg s"
  shows "job_abs (job_step cfg clock (Run callable v) s) = job_abs s \<or>
    fifo_step (nat (jo_concurrent cfg)) (nat (jo_queue cfg)) (job_abs s) (job_abs (job_step cfg clock (Run callable v) s))"
proof -
  have a: "slots cfg s" "accounts [] s" "saturated cfg s" using assms by (auto simp: job_inv_def job_core_def)
  let ?s = "s\<lparr>jr_requests := jr_requests s + 1\<rparr>" and ?n = "jr_requests s"
  have s: "job_abs ?s = job_abs s" by (simp add: job_abs_def waiting_def)
  show ?thesis
  proof (cases "\<exists>i. \<not> jr_closed s \<and> callable \<and> validateIdentity v = Inr i")
    case False
    then have "job_abs (run_request cfg clock callable v ?n ?s) = job_abs ?s"
      by (auto simp: run_request_def split: sum.split)
    then show ?thesis using s by (simp add: job_step_def)
  next
    case True
    then obtain i where i: "\<not> jr_closed s" "callable" "validateIdentity v = Inr i" by blast
    obtain refusal t where t: "assertAccepted cfg clock i (prune cfg clock ?s) = (refusal, t)" by fastforce
    have view: "job_view t = job_view ?s" using view_accepted [OF t] view_prune by metis
    let ?t = "recordJob cfg clock (ji_job i) t"
    have rec: "job_view ?t = job_view ?s" using view view_recorded by metis
    have "job_abs (run_request cfg clock callable v ?n ?s) =
        (if refusal \<noteq> None then job_abs s
         else if jr_running s < jo_concurrent cfg then (waiting s, map fst (jr_active s) @ [?n], False)
         else if int (length (jr_queue s)) \<ge> jo_queue cfg then job_abs s
         else (waiting s @ [?n], map fst (jr_active s), False))"
      using i t abs_view [OF view] s rec view abs_start [of cfg clock ?n i ?t]
      by (cases refusal)
         (simp_all add: run_request_def job_view_def waiting_def enqueue_def job_abs_def noted_def)
    then show ?thesis
      using i a fifo_begin [of "map fst (jr_active s)" "nat (jo_concurrent cfg)" "nat (jo_queue cfg)" ?n]
        fifo_wait [of "map fst (jr_active s)" "nat (jo_concurrent cfg)" "waiting s" "nat (jo_queue cfg)" ?n]
      by (auto simp: job_step_def job_abs_def slots_def saturated_def waiting_def split: if_splits)
  qed
qed

lemma settle_simulates:
  assumes "job_inv cfg s"
  shows "job_abs (job_step cfg clock (Task_settles n) s) = job_abs s \<or>
    fifo_step (nat (jo_concurrent cfg)) (nat (jo_queue cfg)) (job_abs s) (job_abs (job_step cfg clock (Task_settles n) s))"
proof -
  have a: "slots cfg s" "accounts [] s" "saturated cfg s" using assms by (auto simp: job_inv_def job_core_def)
  show ?thesis
  proof (cases "map_of (jr_active s) n")
    case None
    then show ?thesis by (simp add: job_step_def task_settles_def)
  next
    case (Some i)
    then have m: "(n, i) \<in> set (jr_active s)" by (rule map_of_SomeD)
    have d: "distinct (map fst (jr_active s))" using accounts_open [OF a(2)] by blast
    have f: "map fst (filter (\<lambda>p. fst p \<noteq> n) (jr_active s)) = remove1 n (map fst (jr_active s))"
      using filter_key [OF d m] remove1_map [OF d m] by simp
    have r: "n \<in> set (map fst (jr_active s))" using m by force
    let ?s = "s\<lparr>jr_running := jr_running s - 1, jr_running_actors := set_remove (jr_running_actors s) (ji_actor i),
        jr_active := filter (\<lambda>p. fst p \<noteq> n) (jr_active s)\<rparr>"
    let ?k = "nat (jo_concurrent cfg) - (length (map fst (jr_active s)) - 1)"
    have k: "?k = nat (jo_concurrent cfg - jr_running ?s)" using a(1) m by (cases "jr_active s") (auto simp: slots_def)
    show ?thesis
    proof (cases "jr_closed s")
      case False
      have "job_abs (task_settles cfg clock n s) =
          (drop ?k (waiting s), remove1 n (map fst (jr_active s)) @ take ?k (waiting s), False)"
        using abs_drain [of ?s "jr_queue s" ?k cfg clock] False Some f k
        by (simp add: task_settles_def drain_def waiting_def)
      then show ?thesis
        using fifo_settle [OF r refl] False by (simp add: job_step_def job_abs_def)
    next
      case True
      then have "job_abs (task_settles cfg clock n s) = ([], remove1 n (map fst (jr_active s)), True)"
        using Some f a(1) drain_closed [of ?s] by (simp add: task_settles_def drain_def job_abs_def waiting_def slots_def noted_def)
      then show ?thesis
        using fifo_last [OF r] True a(1) by (simp add: job_step_def job_abs_def waiting_def slots_def)
    qed
  qed
qed

lemma timer_simulates:
  assumes "job_inv cfg s"
  shows "job_abs (job_step cfg clock (Timer_fires n) s) = job_abs s \<or>
    fifo_step (nat (jo_concurrent cfg)) (nat (jo_queue cfg)) (job_abs s) (job_abs (job_step cfg clock (Timer_fires n) s))"
proof -
  have a: "slots cfg s" "accounts [] s" "saturated cfg s" using assms by (auto simp: job_inv_def job_core_def)
  show ?thesis
  proof (cases "List.find (\<lambda>e. qj_request e = n) (jr_queue s)")
    case None
    then show ?thesis by (simp add: job_step_def queue_timer_def)
  next
    case (Some e)
    then have e: "e \<in> set (jr_queue s)" "qj_request e = n" by (auto simp: find_Some_iff)
    have d: "distinct (map qj_request (jr_queue s))" using accounts_open [OF a(2)] by (simp add: waiting_def)
    have "map qj_request (filter (\<lambda>e. qj_request e \<noteq> n) (jr_queue s)) = remove1 n (waiting s)"
      using filter_key [OF d e(1)] remove1_map [OF d e(1)] e(2) by (simp add: waiting_def)
    then have "job_abs (queue_timer n s) = (remove1 n (waiting s), map fst (jr_active s), jr_closed s)"
      using Some by (simp add: queue_timer_def job_abs_def waiting_def noted_def)
    moreover have "n \<in> set (waiting s)" using e by (auto simp: waiting_def)
    ultimately show ?thesis using fifo_leave by (simp add: job_step_def job_abs_def)
  qed
qed

lemma close_simulates:
  shows "job_abs (job_step cfg clock Close_runner s) = job_abs s \<or>
    fifo_step (nat (jo_concurrent cfg)) (nat (jo_queue cfg)) (job_abs s) (job_abs (job_step cfg clock Close_runner s))"
proof -
  have "job_abs (reject_all q t) = job_abs t" for q t
    by (induction q arbitrary: t) (simp_all add: job_abs_def waiting_def noted_def)
  then show ?thesis using fifo_close by (auto simp: job_step_def close_runner_def job_abs_def waiting_def)
qed

lemma step_simulates:
  assumes "job_inv cfg s"
  shows "job_abs (job_step cfg clock x s) = job_abs s \<or>
    fifo_step (nat (jo_concurrent cfg)) (nat (jo_queue cfg)) (job_abs s) (job_abs (job_step cfg clock x s))"
  using run_simulates settle_simulates timer_simulates close_simulates assms by (cases x) blast+

interpretation jobs: refinement "job_step cfg clock" "job_inv cfg" job_abs
    "fifo_step (nat (jo_concurrent cfg)) (nat (jo_queue cfg))"
  for cfg clock
  by unfold_locales (use job_step_inv step_simulates in auto)

section \<open>Properties of the queue\<close>

abbreviation job_runs :: "job_options \<Rightarrow> (nat \<Rightarrow> int) \<Rightarrow> job_op list \<Rightarrow> job_runner" where
  "job_runs cfg clock ops \<equiv> fold (job_step cfg clock) ops new_runner"

lemma runs_inv: "read_job_options v = Inr cfg \<Longrightarrow> job_inv cfg (job_runs cfg clock ops)"
  by (rule jobs.run_invar [OF new_runner_inv])


definition each_request_once :: "job_options \<Rightarrow> job_runner \<Rightarrow> bool" where
  "each_request_once cfg s \<longleftrightarrow>
     mset (map fst (jr_active s) @ waiting s @ concluded (jr_events s)) = mset [0..<jr_requests s] \<and>
     sorted_wrt (<) (begun (jr_events s)) \<and>
     distinct (map (\<lambda>p. ji_actor (snd p)) (jr_active s) @ map (\<lambda>e. ji_actor (qj_identity e)) (jr_queue s)) \<and>
     int (length (jr_active s)) \<le> jo_concurrent cfg \<and> int (length (jr_queue s)) \<le> jo_queue cfg"

lemma inv_promises: "job_inv cfg s \<Longrightarrow> each_request_once cfg s"
  by (auto simp: each_request_once_def job_inv_def core_defs sorted_wrt_append)

text \<open>Every request is running, waiting or concluded, and only one of these, once; requests begin in the order in
  which they were made; an actor has at most one request running or waiting; both bounds hold.\<close>

theorem job_runner_keeps_its_promises:
  "case read_job_options v of Inl _ \<Rightarrow> True | Inr cfg \<Rightarrow> each_request_once cfg (job_runs cfg clock ops)"
  using inv_promises runs_inv by (auto split: sum.split)

section \<open>Duplicates\<close>

definition spaced :: "int \<Rightarrow> (string \<times> int) list \<Rightarrow> bool" where
  "spaced window ps \<longleftrightarrow> sorted_wrt (\<lambda>p q. fst p = fst q \<longrightarrow> window \<le> snd q - snd p) ps"

definition remembered :: "int \<Rightarrow> int \<Rightarrow> (string, int) jsmap \<Rightarrow> string \<times> int \<Rightarrow> bool" where
  "remembered window now seen p \<longleftrightarrow> (\<exists>t. map_get seen (fst p) = Some t \<and> snd p \<le> t) \<or> window \<le> now - snd p"

definition dedupe_inv :: "job_options \<Rightarrow> (nat \<Rightarrow> int) \<Rightarrow> job_runner \<Rightarrow> bool" where
  "dedupe_inv cfg clock s \<longleftrightarrow>
     length (jr_seen s) \<le> length (jr_recorded s) \<and>
     (int (length (jr_recorded s)) \<le> jo_seen cfg \<longrightarrow>
        spaced (jo_window cfg) (jr_recorded s) \<and>
        (\<forall>p \<in> set (jr_recorded s). remembered (jo_window cfg) (clock (jr_reads s)) (jr_seen s) p))"

lemma dedupe_later:
  assumes "dedupe_inv cfg clock s" "mono clock" "jr_seen t = jr_seen s" "jr_recorded t = jr_recorded s" "jr_reads s \<le> jr_reads t"
  shows "dedupe_inv cfg clock t"
  using assms monoD [OF assms(2,5)] by (fastforce simp: dedupe_inv_def remembered_def)

lemma map_get_filter: "map_get m k = Some v \<Longrightarrow> P (k, v) \<Longrightarrow> map_get (filter P m) k = Some v"
  by (induction m) (auto simp: map_get_def split: if_splits)

lemma dedupe_prune:
  assumes "dedupe_inv cfg clock s" "mono clock"
  shows "dedupe_inv cfg clock (prune cfg clock s)"
proof -
  let ?now = "clock (jr_reads s)" and ?later = "clock (Suc (jr_reads s))"
  let ?keep = "\<lambda>p. \<not> ?now - snd p \<ge> jo_window cfg"
  have later: "?now \<le> ?later" using assms(2) by (simp add: monoD)
  have "remembered (jo_window cfg) ?later (filter ?keep (jr_seen s)) p"
    if r: "remembered (jo_window cfg) ?now (jr_seen s) p" for p
    using r map_get_filter [of "jr_seen s" "fst p" _ ?keep] later unfolding remembered_def by fastforce
  then show ?thesis
    using assms(1) unfolding dedupe_inv_def prune_def read_clock_def by (auto intro: order_trans [OF length_filter_le])
qed

text \<open>What a passed check says about the job.\<close>

definition unseen :: "job_options \<Rightarrow> (nat \<Rightarrow> int) \<Rightarrow> string \<Rightarrow> job_runner \<Rightarrow> bool" where
  "unseen cfg clock j s \<longleftrightarrow> (case map_get (jr_seen s) j of None \<Rightarrow> True | Some t \<Rightarrow> jo_window cfg \<le> clock (jr_reads s) - t)"

lemma accepted_fields:
  "assertAccepted cfg clock i s = (r, t) \<Longrightarrow>
    jr_seen t = jr_seen s \<and> jr_recorded t = jr_recorded s \<and> jr_reads t = Suc (jr_reads s)"
  by (auto simp: assertAccepted_def read_clock_def Let_def)

lemma accepted_unseen:
  assumes "assertAccepted cfg clock i s = (None, t)" "ji_job i = Some j" "jo_window cfg > 0" "mono clock"
  shows "unseen cfg clock j t"
  using assms accepted_fields [OF assms(1)] monoD [OF assms(4), of "jr_reads s" "Suc (jr_reads s)"]
  by (auto simp: unseen_def assertAccepted_def read_clock_def Let_def split: option.splits if_splits)

lemma dedupe_record:
  assumes "dedupe_inv cfg clock s" "mono clock" "\<And>j. job = Some j \<Longrightarrow> jo_window cfg > 0 \<Longrightarrow> unseen cfg clock j s"
  shows "dedupe_inv cfg clock (recordJob cfg clock job s)"
proof (cases "\<exists>j. job = Some j \<and> jo_window cfg > 0")
  case False
  then show ?thesis using assms(1) by (auto simp: recordJob_def split: option.split)
next
  case True
  then obtain j where j: "job = Some j" "jo_window cfg > 0" by blast
  let ?now = "clock (jr_reads s)" and ?m = "map_set (map_delete (jr_seen s) j) j (clock (jr_reads s))"
  have len: "length ?m \<le> Suc (length (jr_seen s))"
    using length_map_delete [of "jr_seen s" j] by (simp add: length_map_set map_has_get)
  show ?thesis
  proof (cases "int (length (jr_recorded s)) + 1 \<le> jo_seen cfg")
    case False
    then show ?thesis using j len assms(1) by (simp add: recordJob_def read_clock_def dedupe_inv_def setBounded_def Let_def)
  next
    case room: True
    then have fits: "setBounded (jr_seen s) j ?now (jo_seen cfg) = ?m"
      using len assms(1) by (simp add: setBounded_def dedupe_inv_def)
    have old: "spaced (jo_window cfg) (jr_recorded s)"
      "\<forall>p \<in> set (jr_recorded s). remembered (jo_window cfg) ?now (jr_seen s) p"
      using assms(1) room by (auto simp: dedupe_inv_def)
    have apart: "jo_window cfg \<le> ?now - snd p" if "p \<in> set (jr_recorded s)" "fst p = j" for p
      using old(2) that assms(3) [OF j] by (fastforce simp: remembered_def unseen_def)
    have later: "?now \<le> clock (Suc (jr_reads s))" using assms(2) by (simp add: monoD)
    have "remembered (jo_window cfg) (clock (Suc (jr_reads s))) ?m p" if "p \<in> set (jr_recorded s)" for p
      using old(2) that apart [OF that] later by (cases "fst p = j") (fastforce simp: remembered_def)+
    moreover have "remembered (jo_window cfg) (clock (Suc (jr_reads s))) ?m (j, ?now)" by (simp add: remembered_def)
    moreover have "spaced (jo_window cfg) (jr_recorded s @ [(j, ?now)])"
      using old(1) apart by (auto simp: spaced_def sorted_wrt_append)
    ultimately show ?thesis
      using j fits len assms(1) by (simp add: recordJob_def read_clock_def dedupe_inv_def)
  qed
qed

lemma start_fields: "jr_seen (start_job cfg clock n i s) = jr_seen s \<and> jr_recorded (start_job cfg clock n i s) = jr_recorded s \<and>
    jr_reads s \<le> jr_reads (start_job cfg clock n i s)"
  by (simp add: start_job_def read_clock_def noted_def Let_def)

lemma drain_fields: "jr_seen (drain_loop cfg clock q s) = jr_seen s \<and> jr_recorded (drain_loop cfg clock q s) = jr_recorded s \<and>
    jr_reads s \<le> jr_reads (drain_loop cfg clock q s)"
proof (induction q arbitrary: s)
  case (Cons e q)
  let ?s = "s\<lparr>jr_queue := q, jr_queued_actors := set_remove (jr_queued_actors s) (ji_actor (qj_identity e))\<rparr>"
  show ?case
    using Cons.IH [of "start_job cfg clock (qj_request e) (qj_identity e) ?s"]
      start_fields [of cfg clock "qj_request e" "qj_identity e" ?s] by simp
qed simp

lemma reject_fields: "jr_seen (reject_all q s) = jr_seen s \<and> jr_recorded (reject_all q s) = jr_recorded s \<and>
    jr_reads (reject_all q s) = jr_reads s"
  by (induction q arbitrary: s) (simp_all add: noted_def)

lemma dedupe_run:
  assumes "dedupe_inv cfg clock s" "mono clock"
  shows "dedupe_inv cfg clock (run_request cfg clock callable v n s)"
proof -
  have keep: "dedupe_inv cfg clock (noted e t)" if "dedupe_inv cfg clock t" for e t
    by (rule dedupe_later [OF that assms(2)]) (simp_all add: noted_def)
  show ?thesis
  proof (cases "\<exists>i. \<not> jr_closed s \<and> callable \<and> validateIdentity v = Inr i")
    case False
    then show ?thesis using keep [OF assms(1)] by (auto simp: run_request_def split: sum.split)
  next
    case True
    then obtain i where i: "\<not> jr_closed s" "callable" "validateIdentity v = Inr i" by blast
    obtain refusal t where t: "assertAccepted cfg clock i (prune cfg clock s) = (refusal, t)" by fastforce
    have d: "dedupe_inv cfg clock t"
      using dedupe_later [OF dedupe_prune [OF assms] assms(2)] accepted_fields [OF t] by simp
    let ?t = "recordJob cfg clock (ji_job i) t"
    have r: "dedupe_inv cfg clock ?t" if "refusal = None"
      using dedupe_record [OF d assms(2)] accepted_unseen t that assms(2) by blast
    have "dedupe_inv cfg clock (start_job cfg clock n i ?t)" if "refusal = None"
      using dedupe_later [OF r [OF that] assms(2)] start_fields by metis
    moreover have "dedupe_inv cfg clock (enqueue n i ?t)" if "refusal = None"
      by (rule dedupe_later [OF r [OF that] assms(2)]) (simp_all add: enqueue_def)
    ultimately show ?thesis using i t keep [OF d] by (cases refusal) (simp_all add: run_request_def)
  qed
qed

lemma dedupe_step: "dedupe_inv cfg clock s \<Longrightarrow> mono clock \<Longrightarrow> dedupe_inv cfg clock (job_step cfg clock x s)"
proof (cases x)
  case (Run callable v)
  assume d: "dedupe_inv cfg clock s" "mono clock"
  have "dedupe_inv cfg clock (s\<lparr>jr_requests := jr_requests s + 1\<rparr>)" by (rule dedupe_later [OF d]) simp_all
  then show ?thesis using Run dedupe_run d(2) by (simp add: job_step_def)
next
  case (Task_settles n)
  assume d: "dedupe_inv cfg clock s" "mono clock"
  show ?thesis
    unfolding Task_settles job_step_def job_op.case
    by (rule dedupe_later [OF d])
       (simp_all add: task_settles_def drain_def noted_def drain_fields order_trans [OF _ drain_fields [THEN conjunct2, THEN conjunct2]]
          split: option.split)
next
  case (Timer_fires n)
  assume d: "dedupe_inv cfg clock s" "mono clock"
  show ?thesis
    by (rule dedupe_later [OF d]) (simp_all add: Timer_fires job_step_def queue_timer_def noted_def split: option.split)
next
  case Close_runner
  assume d: "dedupe_inv cfg clock s" "mono clock"
  show ?thesis
    by (rule dedupe_later [OF d]) (simp_all add: Close_runner job_step_def close_runner_def reject_fields)
qed

text \<open>With a clock that does not step back, a job is accepted again only when the window since it was last accepted has
  passed, as long as no more jobs were accepted than the runner remembers.\<close>

theorem accepted_jobs_are_apart:
  assumes "mono clock" "int (length (jr_recorded (job_runs cfg clock ops))) \<le> jo_seen cfg"
  shows "spaced (jo_window cfg) (jr_recorded (job_runs cfg clock ops))"
proof -
  have "dedupe_inv cfg clock (fold (job_step cfg clock) ops s)" if "dedupe_inv cfg clock s" for s
    using that by (induction ops arbitrary: s) (auto intro: dedupe_step [OF _ assms(1)])
  moreover have "dedupe_inv cfg clock new_runner" by (simp add: dedupe_inv_def new_runner_def spaced_def)
  ultimately show ?thesis using assms(2) by (simp add: dedupe_inv_def)
qed

definition sample_options :: job_options where
  "sample_options = \<lparr>jo_concurrent = 1, jo_queue = 2, jo_timeout = 1, jo_cooldown = 0, jo_window = 4, jo_seen = 3, jo_actors = 4\<rparr>"

definition sample_job :: "string \<Rightarrow> string \<Rightarrow> jsval" where
  "sample_job actor job = JObj [(''actorId'', JStr actor), (''jobId'', JStr job)]"

definition sample_ops :: "job_op list" where
  "sample_ops = [Run True (sample_job ''a'' ''j''), Run True (sample_job ''b'' ''j''), Task_settles 0,
     Run True (sample_job ''b'' ''j'')]"

lemma sample_runs:
  "jr_events (job_runs sample_options int sample_ops) = [Began 0, Refused 1 Duplicate_request, Settled 0, Began 2]"
  "jr_recorded (job_runs sample_options int sample_ops) = [(''j'', 2), (''j'', 7)]"
  by code_simp+

theorem accepted_jobs_are_apart_witness:
  "spaced (jo_window sample_options) (jr_recorded (job_runs sample_options int sample_ops))"
proof (rule accepted_jobs_are_apart)
  show "mono int" by (rule monoI) simp
  show "int (length (jr_recorded (job_runs sample_options int sample_ops))) \<le> jo_seen sample_options"
    by (simp only: sample_runs) (simp add: sample_options_def)
qed

text \<open>A queued request that times out is refused with an error marked as retryable, but the retry, sent at once with the
  same job id, is refused as a duplicate: the job was recorded when it was queued.\<close>

theorem timed_out_request_is_a_duplicate:
  assumes "\<not> jr_closed s" "e \<in> set (jr_queue s)" "ji_job (qj_identity e) = Some j"
    and "map_get (jr_seen s) j = Some t" "clock (jr_reads s) - t < jo_window cfg" "clock (jr_reads s + 1) - t < jo_window cfg"
    and "validateIdentity v = Inr i" "ji_job i = Some j" "0 < jo_window cfg"
  shows "jr_events (job_step cfg clock (Run True v) (job_step cfg clock (Timer_fires (qj_request e)) s)) =
    jr_events s @ [Refused (qj_request e) Queue_timeout, Refused (jr_requests s) Duplicate_request]"
proof -
  obtain e' where "List.find (\<lambda>x. qj_request x = qj_request e) (jr_queue s) = Some e'"
    using assms(2) by (cases "List.find (\<lambda>x. qj_request x = qj_request e) (jr_queue s)") (auto simp: find_None_iff)
  then show ?thesis
    using assms map_get_filter [OF assms(4), of "\<lambda>p. clock (jr_reads s) - snd p < jo_window cfg"]
    by (simp add: job_step_def queue_timer_def noted_def run_request_def prune_def assertAccepted_def read_clock_def
        Let_def not_le)
qed

definition busy_runner :: job_runner where
  "busy_runner = job_runs sample_options (\<lambda>_. 0) [Run True (sample_job ''a'' ''j''), Run True (sample_job ''b'' ''k'')]"

definition waiting_identity :: job_identity where
  "waiting_identity = \<lparr>ji_actor = ''b'', ji_job = Some ''k''\<rparr>"

lemma busy_facts:
  "jr_queue busy_runner = [\<lparr>qj_request = 1, qj_identity = waiting_identity\<rparr>]"
  "\<not> jr_closed busy_runner" "map_get (jr_seen busy_runner) ''k'' = Some 0"
  "validateIdentity (sample_job ''b'' ''k'') = Inr waiting_identity" "ji_job waiting_identity = Some ''k''"
  by code_simp+

theorem timed_out_request_is_a_duplicate_witness:
  "jr_events (job_step sample_options (\<lambda>_. 0) (Run True (sample_job ''b'' ''k''))
      (job_step sample_options (\<lambda>_. 0) (Timer_fires 1) busy_runner)) =
   jr_events busy_runner @ [Refused 1 Queue_timeout, Refused (jr_requests busy_runner) Duplicate_request]"
  using timed_out_request_is_a_duplicate
    [of busy_runner "\<lparr>qj_request = 1, qj_identity = waiting_identity\<rparr>" "''k''" 0 "\<lambda>_. 0" sample_options
        "sample_job ''b'' ''k''" waiting_identity]
  by (simp add: busy_facts sample_options_def)

end
