(* ===== verification/DigitalEmployee.thy ===== *)
theory DigitalEmployee
  imports SessionStore JobRunner
begin

text \<open>
  packages/core/src/digital-employee.ts and packages/core/src/escalation-policy.ts: the answer loop of an employee. The
  model, the FAQ store, the retriever, the tools, the custom escalation rules and the authorization of feedback are
  functions the host provides; they answer or throw. A task runs from its first synchronous part, which writes the
  session, through the calls to the model and the tools, to a second synchronous part that writes the session again.
\<close>

section \<open>Escalation\<close>

record escalation_context =
  ec_error :: "thrown option"
  ec_response :: "model_response option"
  ec_evidence :: nat
  ec_citations :: nat

text \<open>What a custom rule answers: nothing, or a required escalation with an optional reason.\<close>

datatype rule_verdict = Rule_passes | Rule_requires "string option"

record escalation_policy =
  ep_min_confidence :: "rat option"
  ep_min_evidence :: int
  ep_min_citations :: int
  ep_on_error :: bool
  ep_target :: string
  ep_message :: string
  ep_rules :: "(escalation_context \<Rightarrow> thrown + rule_verdict) list"

text \<open>The double 0.55. A NaN passes the range check of the constructor and is kept as \<open>None\<close>; the infinities do not pass. As
  \<open>JNonFinite\<close> stands for all three, the flag \<open>nan\<close> says which it is.\<close>

definition DEFAULT_MIN_CONFIDENCE :: rat where
  "DEFAULT_MIN_CONFIDENCE = 4953959590107546 / 9007199254740992"

definition read_min_confidence :: "bool \<Rightarrow> jsval \<Rightarrow> thrown + rat option" where
  "read_min_confidence nan v = (case nullish v (JNum DEFAULT_MIN_CONFIDENCE) of
      JNum q \<Rightarrow> ensure (\<not> (q < 0 \<or> q > 1)) ValidationError (Inr (Some q))
    | JNonFinite \<Rightarrow> ensure nan ValidationError (Inr None)
    | _ \<Rightarrow> Inl ValidationError)"

definition read_minimum :: "jsval \<Rightarrow> thrown + int" where
  "read_minimum v = (case js_int (nullish v (JNum 1)) of
      None \<Rightarrow> Inl ValidationError | Some n \<Rightarrow> ensure (\<not> n < 0) ValidationError (Inr n))"

definition new_policy ::
  "bool \<Rightarrow> jsval \<Rightarrow> bool option \<Rightarrow> string option \<Rightarrow> string option \<Rightarrow> (escalation_context \<Rightarrow> thrown + rule_verdict) list \<Rightarrow>
   thrown + escalation_policy" where
  "new_policy nan v onError target message rules =
     and_then (read_min_confidence nan (js_get v ''minConfidence'')) (\<lambda>confidence.
     and_then (read_minimum (js_get v ''minEvidence'')) (\<lambda>evidence.
     and_then (read_minimum (js_get v ''minCitations'')) (\<lambda>citations.
       Inr \<lparr>ep_min_confidence = confidence, ep_min_evidence = evidence, ep_min_citations = citations,
             ep_on_error = or_default onError True, ep_target = or_default target ''human-support'',
             ep_message = or_default message ''I could not answer this reliably, so I have requested human help.'',
             ep_rules = rules\<rparr>)))"

definition below_confidence :: "escalation_policy \<Rightarrow> model_response \<Rightarrow> bool" where
  "below_confidence p r = (case (mr_confidence r, ep_min_confidence p) of
      (Some q, Some m) \<Rightarrow> q < m | _ \<Rightarrow> False)"

definition built_in_reason :: "escalation_policy \<Rightarrow> escalation_context \<Rightarrow> string option" where
  "built_in_reason p c =
     (if ec_error c \<noteq> None \<and> ep_on_error p then Some ''execution_error''
      else case ec_response c of
          None \<Rightarrow> Some ''no_answer''
        | Some r \<Rightarrow>
            if mr_escalate r then Some ''model_requested''
            else if mr_answer r = None then Some ''no_answer''
            else if below_confidence p r then Some ''low_confidence''
            else if int (ec_evidence c) < ep_min_evidence p then Some ''insufficient_evidence''
            else if int (ec_citations c) < ep_min_citations p then Some ''insufficient_citations''
            else None)"

text \<open>The first rule that requires an escalation gives the reason; a rule that throws ends the evaluation.\<close>

fun rule_reason ::
  "(escalation_context \<Rightarrow> thrown + rule_verdict) list \<Rightarrow> escalation_context \<Rightarrow> thrown + string option" where
  "rule_reason [] c = Inr None"
| "rule_reason (rule # rules) c = (case rule c of
      Inl e \<Rightarrow> Inl e
    | Inr Rule_passes \<Rightarrow> rule_reason rules c
    | Inr (Rule_requires reason) \<Rightarrow> Inr (Some (or_default reason ''custom_rule'')))"

text \<open>\<open>None\<close> is a decision that no human is required: \<open>if (!reason)\<close>, which an empty reason satisfies too.\<close>

definition evaluate_policy :: "escalation_policy \<Rightarrow> escalation_context \<Rightarrow> thrown + string option" where
  "evaluate_policy p c = (case built_in_reason p c of
      Some r \<Rightarrow> Inr (Some r)
    | None \<Rightarrow> and_then (rule_reason (ep_rules p) c) (\<lambda>r. Inr (if r = Some [] then None else r)))"

section \<open>The employee\<close>

datatype employee_effect = Model_call nat | Tool_run string bool

datatype tool_result = Tool_refused string string string | Tool_failed string string error_summary | Tool_output string string jsval

record evidence_item =
  ei_id :: string
  ei_text :: string
  ei_score :: "rat option"
  ei_citation :: jsval

record employee =
  em_read_only :: bool
  em_max_steps :: nat
  em_max_history :: nat
  em_max_evidence :: nat
  em_tools :: "(string, tool) jsmap"
  em_policy :: escalation_policy
  em_faq :: "string \<Rightarrow> nat \<Rightarrow> thrown + jsval list"
  em_search :: "string \<Rightarrow> nat \<Rightarrow> thrown + jsval list"
  em_model :: "answer_request \<Rightarrow> session_message list \<Rightarrow> nat \<Rightarrow> evidence_item list \<Rightarrow> tool_result list \<Rightarrow> thrown + jsval"
  em_execute :: "tool \<Rightarrow> jsval \<Rightarrow> tool_result list \<Rightarrow> thrown + jsval"

definition register_tool :: "bool \<Rightarrow> jsval \<Rightarrow> employee \<Rightarrow> thrown + employee" where
  "register_tool callable v d = and_then (validateTool callable v) (\<lambda>t. Inr (d\<lparr>em_tools := map_set (em_tools d) (tl_name t) t\<rparr>))"

definition unregister_tool :: "string \<Rightarrow> employee \<Rightarrow> employee" where
  "unregister_tool name d = d\<lparr>em_tools := map_delete (em_tools d) name\<rparr>"

text \<open>The constructor: the limits are checked, then the tools registered; \<open>callable\<close> is whether \<open>execute\<close> is a function.\<close>

definition read_limit :: "int \<Rightarrow> int \<Rightarrow> jsval \<Rightarrow> thrown + nat" where
  "read_limit least standard v = (case js_int (nullish v (JNum (of_int standard))) of
      None \<Rightarrow> Inl ValidationError | Some n \<Rightarrow> ensure (\<not> n < least) ValidationError (Inr (nat n)))"

fun register_tools :: "(bool \<times> jsval) list \<Rightarrow> employee \<Rightarrow> thrown + employee" where
  "register_tools [] d = Inr d"
| "register_tools (t # ts) d = and_then (register_tool (fst t) (snd t) d) (register_tools ts)"

definition new_employee :: "jsval \<Rightarrow> (bool \<times> jsval) list \<Rightarrow> employee \<Rightarrow> thrown + employee" where
  "new_employee v tools hosts =
     and_then (case nullish (js_get v ''readOnly'') (JBool True) of JBool b \<Rightarrow> Inr b | _ \<Rightarrow> Inl ValidationError) (\<lambda>readOnly.
     and_then (read_limit 1 4 (js_get v ''maxSteps'')) (\<lambda>maxSteps.
     and_then (read_limit 0 10 (js_get v ''maxHistory'')) (\<lambda>maxHistory.
     and_then (read_limit 1 5 (js_get v ''maxEvidence'')) (\<lambda>maxEvidence.
       register_tools tools
         (hosts\<lparr>em_read_only := readOnly, em_max_steps := maxSteps, em_max_history := maxHistory,
            em_max_evidence := maxEvidence, em_tools := []\<rparr>)))))"

text \<open>Items without a string id and text are skipped; a score is a number or absent.\<close>

definition read_evidence :: "jsval \<Rightarrow> evidence_item option" where
  "read_evidence v = (case (js_get v ''id'', js_get v ''text'') of
      (JStr i, JStr t) \<Rightarrow>
        Some \<lparr>ei_id = i, ei_text = t, ei_score = (case js_get v ''score'' of JNum q \<Rightarrow> Some q | _ \<Rightarrow> None),
              ei_citation = js_get v ''citation''\<rparr>
    | _ \<Rightarrow> None)"

definition score_of :: "evidence_item \<Rightarrow> rat" where
  "score_of e = or_default (ei_score e) 0"

definition better_evidence :: "evidence_item \<Rightarrow> (string, evidence_item) jsmap \<Rightarrow> (string, evidence_item) jsmap" where
  "better_evidence e m = (case map_get m (ei_id e) of
      None \<Rightarrow> map_set m (ei_id e) e
    | Some p \<Rightarrow> if score_of e > score_of p then map_set m (ei_id e) e else m)"

definition mergeEvidence :: "nat \<Rightarrow> jsval list \<Rightarrow> jsval list \<Rightarrow> evidence_item list" where
  "mergeEvidence maxEvidence faq retrieved =
     take maxEvidence (sort_key (\<lambda>e. - score_of e)
       (map_values (fold better_evidence (List.map_filter read_evidence (faq @ retrieved)) [])))"

definition resolveCitations :: "string list \<Rightarrow> evidence_item list \<Rightarrow> jsval list" where
  "resolveCitations ids evidence =
     (if ids = [] then []
      else map (\<lambda>e. sanitizeDetails (ei_citation e)) (filter (\<lambda>e. ei_id e \<in> set ids) evidence))"

definition executeTool :: "employee \<Rightarrow> tool_call \<Rightarrow> tool_result list \<Rightarrow> tool_result \<times> employee_effect list" where
  "executeTool d c results = (case map_get (em_tools d) (tc_name c) of
      None \<Rightarrow> (Tool_refused (tc_id c) (tc_name c) ''TOOL_NOT_FOUND'', [])
    | Some t \<Rightarrow>
        if em_read_only d \<and> tl_write t then (Tool_refused (tc_id c) (tc_name c) ''READ_ONLY_VIOLATION'', [])
        else (case em_execute d t (tc_input c) results of
                Inl e \<Rightarrow> Tool_failed (tc_id c) (tc_name c) (structuredError e)
              | Inr v \<Rightarrow> Tool_output (tc_id c) (tc_name c) (sanitizeDetails v),
              [Tool_run (tl_name t) (tl_write t)]))"

fun run_calls :: "employee \<Rightarrow> tool_call list \<Rightarrow> tool_result list \<Rightarrow> tool_result list \<times> employee_effect list" where
  "run_calls d [] results = (results, [])"
| "run_calls d (c # cs) results =
     (let (r, fx) = executeTool d c results; (results', fx') = run_calls d cs (results @ [r]) in (results', fx @ fx'))"

text \<open>What the loop leaves: the error thrown in it, the last valid response, the tool results, and the calls made.\<close>

record loop_result =
  lr_error :: "thrown option"
  lr_response :: "model_response option"
  lr_results :: "tool_result list"
  lr_effects :: "employee_effect list"

fun model_loop ::
  "employee \<Rightarrow> answer_request \<Rightarrow> session_message list \<Rightarrow> evidence_item list \<Rightarrow> nat \<Rightarrow> nat \<Rightarrow> model_response option \<Rightarrow>
   tool_result list \<Rightarrow> employee_effect list \<Rightarrow> loop_result" where
  "model_loop d q h ev 0 step r results fx =
     \<lparr>lr_error = None, lr_response = r, lr_results = results, lr_effects = fx\<rparr>"
| "model_loop d q h ev (Suc left) step r results fx =
     (let fx = fx @ [Model_call step]
      in case and_then (em_model d q h step ev results) validateModelResponse of
           Inl e \<Rightarrow> \<lparr>lr_error = Some e, lr_response = r, lr_results = results, lr_effects = fx\<rparr>
         | Inr r \<Rightarrow>
             if mr_calls r = [] then \<lparr>lr_error = None, lr_response = Some r, lr_results = results, lr_effects = fx\<rparr>
             else let (results, fx') = run_calls d (mr_calls r) results
                  in model_loop d q h ev left (step + 1) (Some r) results (fx @ fx'))"

definition max_steps_exceeded :: thrown where
  "max_steps_exceeded = Core \<lparr>ce_code = ''MAX_STEPS_EXCEEDED'', ce_retryable = True, ce_status = 503\<rparr>"

text \<open>The part of the \<open>try\<close> block before the session is written again, with the evidence it found.\<close>

definition think :: "employee \<Rightarrow> answer_request \<Rightarrow> session_message list \<Rightarrow> evidence_item list \<times> loop_result" where
  "think d q h =
     (case (em_faq d (ar_message q) (min 3 (em_max_evidence d)), em_search d (ar_message q) (em_max_evidence d)) of
        (Inr faq, Inr found) \<Rightarrow>
          let ev = mergeEvidence (em_max_evidence d) faq found;
              l = model_loop d q h ev (em_max_steps d) 0 None [] []
          in (ev, case (lr_error l, lr_response l) of
                (None, Some r) \<Rightarrow>
                  if mr_calls r \<noteq> [] \<and> mr_answer r = None then l\<lparr>lr_error := Some max_steps_exceeded\<rparr> else l
              | _ \<Rightarrow> l)
      | (Inl e, _) \<Rightarrow> ([], \<lparr>lr_error = Some e, lr_response = None, lr_results = [], lr_effects = []\<rparr>)
      | (Inr _, Inl e) \<Rightarrow> ([], \<lparr>lr_error = Some e, lr_response = None, lr_results = [], lr_effects = []\<rparr>))"

section \<open>The session around the loop\<close>

datatype answer_status = Answered | Escalated | Failed | Rejected

record answer_result =
  rs_status :: answer_status
  rs_request :: jsval
  rs_session :: jsval
  rs_answer :: "string option"
  rs_confidence :: "rat option"
  rs_citations :: "jsval list"
  rs_escalation :: "string option"
  rs_error :: "error_summary option"

definition rs_ok :: "answer_result \<Rightarrow> bool" where
  "rs_ok r = (rs_status r = Answered)"

definition role_message :: "string \<Rightarrow> string \<Rightarrow> (string \<times> jsval) list \<Rightarrow> jsval" where
  "role_message role content metadata = JObj [(''role'', JStr role), (''content'', JStr content), (''metadata'', JObj metadata)]"

definition request_id :: "answer_request \<Rightarrow> string" where
  "request_id q = or_default (ar_request q) []"

text \<open>The history for the model, then the question and the state \<open>working\<close>, up to the first await.\<close>

definition answer_begin ::
  "employee \<Rightarrow> (nat \<Rightarrow> int) \<Rightarrow> answer_request \<Rightarrow> session_store \<Rightarrow> (thrown + session_message list) \<times> session_store" where
  "answer_begin d clock q s0 =
     (case history clock (JStr (ar_session q)) (JNum (of_nat (em_max_history d))) s0 of
        (Inl e, s) \<Rightarrow> (Inl e, s)
      | (Inr h, s) \<Rightarrow>
          (case append_message (\<lambda>_. []) clock (JStr (ar_session q))
                  (role_message ''user'' (ar_message q) [(''requestId'', JStr (request_id q))]) s of
             (Inl e, s) \<Rightarrow> (Inl e, s)
           | (Inr _, s) \<Rightarrow>
               (case setState clock (JStr (ar_session q)) (JStr ''working'') s of
                  (Inl e, s) \<Rightarrow> (Inl e, s)
                | (Inr _, s) \<Rightarrow> (Inr h, s))))"

definition confidence_of :: "loop_result \<Rightarrow> rat option" where
  "confidence_of l = (case lr_response l of None \<Rightarrow> None | Some r \<Rightarrow> mr_confidence r)"

text \<open>The \<open>catch\<close> block.\<close>

definition fail_answer ::
  "employee \<Rightarrow> (nat \<Rightarrow> int) \<Rightarrow> answer_request \<Rightarrow> evidence_item list \<Rightarrow> loop_result \<Rightarrow> thrown \<Rightarrow> session_store \<Rightarrow>
   (thrown + answer_result) \<times> session_store" where
  "fail_answer d clock q ev l e s =
     (case evaluate_policy (em_policy d) \<lparr>ec_error = Some e, ec_response = lr_response l, ec_evidence = length ev, ec_citations = 0\<rparr> of
        Inl e' \<Rightarrow> (Inl e', s)
      | Inr decision \<Rightarrow>
          (case setState clock (JStr (ar_session q)) (JStr (if decision \<noteq> None then ''waiting_for_human'' else ''failed'')) s of
             (Inl e', s) \<Rightarrow> (Inl e', s)
           | (Inr _, s) \<Rightarrow>
              (Inr \<lparr>rs_status = (if decision \<noteq> None then Escalated else Failed), rs_request = JStr (request_id q),
                    rs_session = JStr (ar_session q),
                    rs_answer = (if decision \<noteq> None then Some (ep_message (em_policy d)) else None),
                    rs_confidence = confidence_of l, rs_citations = [], rs_escalation = decision,
                    rs_error = Some (structuredError e)\<rparr>, s)))"

definition status_string :: "answer_status \<Rightarrow> string" where
  "status_string st = (case st of
      Answered \<Rightarrow> ''answered'' | Escalated \<Rightarrow> ''escalated'' | Failed \<Rightarrow> ''failed'' | Rejected \<Rightarrow> ''rejected'')"

definition answer_metadata :: "answer_request \<Rightarrow> answer_status \<Rightarrow> jsval list \<Rightarrow> rat option \<Rightarrow> (string \<times> jsval) list" where
  "answer_metadata q st citations confidence =
     [(''requestId'', JStr (request_id q)), (''outcome'', JStr (status_string st)), (''citations'', JArr citations),
      (''confidence'', case confidence of None \<Rightarrow> JNull | Some c \<Rightarrow> JNum c)]"

text \<open>The end of the \<open>try\<close> block, once the policy has decided.\<close>

definition deliver ::
  "employee \<Rightarrow> (nat \<Rightarrow> int) \<Rightarrow> answer_request \<Rightarrow> evidence_item list \<Rightarrow> loop_result \<Rightarrow> jsval list \<Rightarrow> string option \<Rightarrow> session_store \<Rightarrow>
   (thrown + answer_result) \<times> session_store" where
  "deliver d clock q ev l citations decision s =
     (let status = (if decision \<noteq> None then Escalated else Answered);
          answer = (if decision \<noteq> None then Some (ep_message (em_policy d))
                    else case lr_response l of None \<Rightarrow> None | Some r \<Rightarrow> mr_answer r)
      in (case (if or_default answer [] = [] then (Inr (), s)
                else append_message (\<lambda>_. []) clock (JStr (ar_session q))
                  (role_message ''assistant'' (or_default answer []) (answer_metadata q status citations (confidence_of l))) s) of
            (Inl e, s) \<Rightarrow> fail_answer d clock q ev l e s
          | (Inr _, s) \<Rightarrow>
             (case setState clock (JStr (ar_session q))
                     (JStr (if decision \<noteq> None then ''waiting_for_human'' else ''idle'')) s of
                (Inl e, s) \<Rightarrow> fail_answer d clock q ev l e s
              | (Inr _, s) \<Rightarrow>
                 (Inr \<lparr>rs_status = status, rs_request = JStr (request_id q), rs_session = JStr (ar_session q),
                       rs_answer = answer, rs_confidence = confidence_of l, rs_citations = citations,
                       rs_escalation = decision, rs_error = None\<rparr>, s))))"

definition answer_finish ::
  "employee \<Rightarrow> (nat \<Rightarrow> int) \<Rightarrow> answer_request \<Rightarrow> evidence_item list \<Rightarrow> loop_result \<Rightarrow> session_store \<Rightarrow>
   (thrown + answer_result) \<times> session_store" where
  "answer_finish d clock q ev l s = (case lr_error l of
      Some e \<Rightarrow> fail_answer d clock q ev l e s
    | None \<Rightarrow>
       let citations = resolveCitations (case lr_response l of None \<Rightarrow> [] | Some r \<Rightarrow> mr_citations r) ev
       in (case evaluate_policy (em_policy d)
              \<lparr>ec_error = None, ec_response = lr_response l, ec_evidence = length ev, ec_citations = length citations\<rparr> of
             Inl e \<Rightarrow> fail_answer d clock q ev l e s
           | Inr decision \<Rightarrow> deliver d clock q ev l citations decision s))"

definition failureResult :: "jsval \<Rightarrow> jsval \<Rightarrow> thrown \<Rightarrow> answer_result" where
  "failureResult request session e = \<lparr>rs_status = (case e of Core c \<Rightarrow> if ce_status c < 500 then Rejected else Failed | Foreign \<Rightarrow> Failed),
     rs_request = nullish request JNull, rs_session = nullish session JNull, rs_answer = None, rs_confidence = None,
     rs_citations = [], rs_escalation = None, rs_error = Some (structuredError e)\<rparr>"

text \<open>\<open>answer\<close> before its task is handed to the job runner: a refused input is a result, and an accepted one has an id.\<close>

definition answer_input :: "nat \<Rightarrow> string \<Rightarrow> jsval \<Rightarrow> answer_result + answer_request" where
  "answer_input n uuid v = (case validateAnswerRequest n v of
      Inl e \<Rightarrow> Inl (failureResult (js_get v ''requestId'') (js_get v ''sessionId'') e)
    | Inr q \<Rightarrow> Inr (q\<lparr>ar_request := Some (or_default (ar_request q) uuid)\<rparr>))"

text \<open>What \<open>answer\<close> returns for what the job runner gave back: the result of the task, or what it threw.\<close>

definition answer_output :: "answer_request \<Rightarrow> thrown + answer_result \<Rightarrow> answer_result" where
  "answer_output q x = (case x of
      Inr r \<Rightarrow> r | Inl e \<Rightarrow> failureResult (JStr (request_id q)) (JStr (ar_session q)) e)"

text \<open>The whole task when nothing else touches the store in between.\<close>

definition answer_task ::
  "employee \<Rightarrow> (nat \<Rightarrow> int) \<Rightarrow> answer_request \<Rightarrow> session_store \<Rightarrow> (thrown + answer_result) \<times> session_store" where
  "answer_task d clock q s0 = (case answer_begin d clock q s0 of
      (Inl e, s) \<Rightarrow> (Inl e, s)
    | (Inr h, s) \<Rightarrow> (let (ev, l) = think d q h in answer_finish d clock q ev l s))"

section \<open>Feedback\<close>

record feedback_context =
  fc_session :: string
  fc_request :: jsval
  fc_feedback :: feedback_record
  fc_exchange :: jsval

record faq_entry =
  fe_question :: string
  fe_answer :: string
  fe_feedback :: feedback_record
  fe_citations :: jsval

datatype feedback_outcome = Not_stored string | Feedback_error error_summary | Given_to_store faq_entry

text \<open>The entry goes to the FAQ store, which decides on its own; the authorization is the host's.\<close>

definition recordFeedback ::
  "(feedback_context \<Rightarrow> thrown + bool) option \<Rightarrow> (nat \<Rightarrow> int) \<Rightarrow> jsval \<Rightarrow> session_store \<Rightarrow> feedback_outcome \<times> session_store" where
  "recordFeedback authorize clock v s0 =
     (if \<not> is_plain_object v then (Feedback_error (structuredError ValidationError), s0)
      else case trimmed_text (js_get v ''sessionId'') of
          None \<Rightarrow> (Feedback_error (structuredError ValidationError), s0)
        | Some i \<Rightarrow>
            (case validateFeedback v of
               Inl e \<Rightarrow> (Feedback_error (structuredError e), s0)
             | Inr feedback \<Rightarrow>
                if \<not> fb_verified feedback then (Not_stored ''unverified_feedback'', s0)
                else (case lastExchange clock (JStr i) s0 of
                   (Inl e, s) \<Rightarrow> (Feedback_error (structuredError e), s)
                 | (Inr None, s) \<Rightarrow> (Not_stored ''no_completed_exchange'', s)
                 | (Inr (Some x), s) \<Rightarrow>
                    let (session, s) = get_session clock i s;
                        metadata = (if is_plain_object (ex_metadata x) then ex_metadata x else JObj [])
                    in if map_option se_state session \<noteq> Some ''idle'' \<or> js_get metadata ''outcome'' \<noteq> JStr ''answered''
                       then (Not_stored ''exchange_not_answered'', s)
                       else case authorize of
                           None \<Rightarrow> (Not_stored ''feedback_not_authorized'', s)
                         | Some f \<Rightarrow>
                            (case f \<lparr>fc_session = i, fc_request = nullish (js_get metadata ''requestId'') JNull,
                                     fc_feedback = feedback,
                                     fc_exchange = sanitizeDetails (JObj [(''question'', JStr (ex_question x)),
                                       (''answer'', JStr (ex_answer x)),
                                       (''citations'', nullish (js_get metadata ''citations'') (JArr []))])\<rparr> of
                               Inl e \<Rightarrow> (Feedback_error (structuredError e), s)
                             | Inr False \<Rightarrow> (Not_stored ''feedback_not_authorized'', s)
                             | Inr True \<Rightarrow>
                                (Given_to_store \<lparr>fe_question = ex_question x, fe_answer = ex_answer x, fe_feedback = feedback,
                                   fe_citations = js_get metadata ''citations''\<rparr>, s)))))"

section \<open>Bounded, read-only work\<close>

definition is_model_call :: "employee_effect \<Rightarrow> bool" where
  "is_model_call e = (case e of Model_call _ \<Rightarrow> True | Tool_run _ _ \<Rightarrow> False)"

text \<open>A tool that runs is registered, and is no write tool of a read-only employee.\<close>

definition permitted_effect :: "employee \<Rightarrow> employee_effect \<Rightarrow> bool" where
  "permitted_effect d e = (case e of
      Model_call _ \<Rightarrow> True
    | Tool_run name w \<Rightarrow>
        (\<exists>t \<in> set (map_values (em_tools d)). tl_name t = name \<and> tl_write t = w) \<and> \<not> (em_read_only d \<and> w))"

lemma get_value: "map_get m k = Some v \<Longrightarrow> v \<in> set (map_values m)"
  by (auto simp: map_values_def dest!: map_get_mem intro: rev_image_eqI)

lemma executeTool_permitted:
  "executeTool d c results = (r, fx) \<Longrightarrow> list_all (permitted_effect d) fx \<and> filter is_model_call fx = []"
  using get_value [of "em_tools d" "tc_name c"]
  by (auto simp: executeTool_def permitted_effect_def is_model_call_def split: option.splits if_splits)

lemma run_calls_permitted:
  "run_calls d cs results = (rs, fx) \<Longrightarrow> list_all (permitted_effect d) fx \<and> filter is_model_call fx = []"
proof (induction d cs results arbitrary: rs fx rule: run_calls.induct)
  case (2 d c cs results)
  obtain r fx1 where e: "executeTool d c results = (r, fx1)" by fastforce
  obtain rs' fx2 where f: "run_calls d cs (results @ [r]) = (rs', fx2)" by fastforce
  then show ?case using 2 e executeTool_permitted [OF e] by auto
qed simp

lemma model_loop_permitted:
  assumes "list_all (permitted_effect d) fx"
  shows "list_all (permitted_effect d) (lr_effects (model_loop d q h ev n step r results fx)) \<and>
    length (filter is_model_call (lr_effects (model_loop d q h ev n step r results fx))) \<le> length (filter is_model_call fx) + n"
  using assms
proof (induction d q h ev n step r results fx rule: model_loop.induct)
  case (2 d q h ev left step r results fx)
  have call: "permitted_effect d (Model_call step)" "is_model_call (Model_call step)"
    by (simp_all add: permitted_effect_def is_model_call_def)
  show ?case
  proof (cases "and_then (em_model d q h step ev results) validateModelResponse")
    case (Inl e)
    then show ?thesis using 2(2) call by simp
  next
    case (Inr r')
    show ?thesis
    proof (cases "mr_calls r' = []")
      case True
      then show ?thesis using Inr 2(2) call by simp
    next
      case False
      obtain results' fx' where c: "run_calls d (mr_calls r') results = (results', fx')" by fastforce
      note p = run_calls_permitted [OF c]
      show ?thesis using 2(1) [OF refl Inr False c [symmetric] refl] Inr False c p 2(2) call by simp
    qed
  qed
qed simp

lemma think_cases:
  "lr_effects (snd (think d q h)) = lr_effects (model_loop d q h (fst (think d q h)) (em_max_steps d) 0 None [] []) \<or>
   lr_effects (snd (think d q h)) = []"
  by (auto simp: think_def Let_def split: sum.split option.split)

text \<open>C23: However the model answers, it is called at most as often as the step limit allows, and every tool that runs is
  registered and, for a read-only employee, no write tool.\<close>

theorem answering_is_bounded_and_permitted:
  "length (filter is_model_call (lr_effects (snd (think d q h)))) \<le> em_max_steps d \<and>
   list_all (permitted_effect d) (lr_effects (snd (think d q h)))"
  using think_cases [of d q h] model_loop_permitted [of d "[]" q h "fst (think d q h)" "em_max_steps d" 0 None "[]"]
  by auto

section \<open>What an answer rests on\<close>

lemma rule_none: "evaluate_policy p c = Inr None \<Longrightarrow> built_in_reason p c = None"
  by (auto simp: evaluate_policy_def split: option.splits)

text \<open>A confidence the model reports is compared with the minimum; a missing one, or a minimum that is NaN, is not.\<close>

definition grounded :: "employee \<Rightarrow> evidence_item list \<Rightarrow> loop_result \<Rightarrow> answer_result \<Rightarrow> bool" where
  "grounded d ev l r \<longleftrightarrow>
     lr_error l = None \<and> rs_error r = None \<and>
     (case lr_response l of
        None \<Rightarrow> False
      | Some m \<Rightarrow>
          rs_answer r = mr_answer m \<and> mr_answer m \<noteq> None \<and> \<not> mr_escalate m \<and>
          (case (mr_confidence m, ep_min_confidence (em_policy d)) of
             (Some reported, Some least) \<Rightarrow> least \<le> reported | _ \<Rightarrow> True) \<and>
          ep_min_evidence (em_policy d) \<le> int (length ev) \<and>
          ep_min_citations (em_policy d) \<le> int (length (rs_citations r)) \<and>
          rs_citations r = map (\<lambda>e. sanitizeDetails (ei_citation e)) (filter (\<lambda>e. ei_id e \<in> set (mr_citations m)) ev))"

lemma resolve_filter: "resolveCitations ids ev = map (\<lambda>e. sanitizeDetails (ei_citation e)) (filter (\<lambda>e. ei_id e \<in> set ids) ev)"
  by (simp add: resolveCitations_def)

lemma fail_not_answered: "fail_answer d clock q ev l e s = (Inr r, s') \<Longrightarrow> rs_status r \<noteq> Answered"
  by (auto simp: fail_answer_def split: sum.splits prod.splits if_splits)

lemma no_reason:
  assumes "built_in_reason p c = None" "ec_error c = None"
  shows "case ec_response c of
      None \<Rightarrow> False
    | Some m \<Rightarrow> \<not> mr_escalate m \<and> mr_answer m \<noteq> None \<and> \<not> below_confidence p m \<and>
        ep_min_evidence p \<le> int (ec_evidence c) \<and> ep_min_citations p \<le> int (ec_citations c)"
  using assms by (auto simp: built_in_reason_def not_less split: option.splits if_splits)

text \<open>Both ways to a result write the state of the session last.\<close>

definition state_of_status :: "answer_status \<Rightarrow> string" where
  "state_of_status st = (case st of
      Answered \<Rightarrow> ''idle'' | Escalated \<Rightarrow> ''waiting_for_human'' | Failed \<Rightarrow> ''failed'' | Rejected \<Rightarrow> [])"

lemma fail_last_write:
  assumes "fail_answer d clock q ev l e s = (Inr r, s')"
  shows "rs_error r \<noteq> None \<and> rs_status r \<in> {Escalated, Failed} \<and>
    setState clock (JStr (ar_session q)) (JStr (state_of_status (rs_status r))) s = (Inr (), s')"
  using assms by (auto simp: fail_answer_def state_of_status_def split: sum.splits prod.splits if_splits)

lemma deliver_last_write:
  assumes "deliver d clock q ev l citations decision s = (Inr r, s')"
  shows "(rs_error r \<noteq> None \<and> rs_status r \<in> {Escalated, Failed} \<or>
      rs_error r = None \<and> rs_citations r = citations \<and> rs_status r = (if decision = None then Answered else Escalated) \<and>
      rs_answer r = (if decision = None then (case lr_response l of None \<Rightarrow> None | Some r \<Rightarrow> mr_answer r)
        else Some (ep_message (em_policy d)))) \<and>
    (\<exists>s1. setState clock (JStr (ar_session q)) (JStr (state_of_status (rs_status r))) s1 = (Inr (), s'))"
  using assms fail_last_write unfolding deliver_def Let_def
  by (auto simp: state_of_status_def split: sum.splits prod.splits if_splits option.splits; fastforce)

lemma finish_last_write:
  assumes "answer_finish d clock q ev l s = (Inr r, s')"
  shows "\<exists>s1. setState clock (JStr (ar_session q)) (JStr (state_of_status (rs_status r))) s1 = (Inr (), s')"
  using assms fail_last_write deliver_last_write unfolding answer_finish_def Let_def
  by (auto split: sum.splits option.splits) blast+

lemma finish_answered:
  assumes "answer_finish d clock q ev l s = (Inr r, s')" "rs_status r = Answered"
  shows "grounded d ev l r"
proof -
  have f: "fail_answer d clock q ev l e t \<noteq> (Inr r, s')" for e t using fail_last_write assms(2) by fastforce
  have e: "lr_error l = None" using assms(1) f unfolding answer_finish_def by (auto split: option.splits)
  let ?c = "resolveCitations (case lr_response l of None \<Rightarrow> [] | Some r \<Rightarrow> mr_citations r) ev"
  let ?x = "\<lparr>ec_error = None, ec_response = lr_response l, ec_evidence = length ev, ec_citations = length ?c\<rparr>"
  obtain decision where p: "evaluate_policy (em_policy d) ?x = Inr decision" and v: "deliver d clock q ev l ?c decision s = (Inr r, s')"
    using assms(1) e f unfolding answer_finish_def Let_def by (auto split: sum.splits)
  have dn: "decision = None" "rs_error r = None" "rs_citations r = ?c"
    "rs_answer r = (case lr_response l of None \<Rightarrow> None | Some r \<Rightarrow> mr_answer r)"
    using deliver_last_write [OF v] assms(2) by (auto split: if_splits)
  have "built_in_reason (em_policy d) ?x = None" using rule_none p dn(1) by blast
  from no_reason [OF this] show ?thesis
    using e dn by (auto simp: grounded_def below_confidence_def resolve_filter split: option.splits)
qed

text \<open>C24: An answer is returned as answered only when the loop ended without an error, the model gave an answer and did not
  ask for a human, the evidence and the citations reach the minima of the policy, a confidence the model reported reaches a
  numeric minimum (an answer without a confidence, or a minimum that is NaN, is not held back), and the citations are exactly
  those of the retrieved evidence the model named.\<close>

theorem answered_results_are_grounded:
  "case answer_finish d clock q ev l s of
      (Inl _, _) \<Rightarrow> True
    | (Inr r, _) \<Rightarrow> if rs_status r = Answered then grounded d ev l r else True"
  using finish_answered by (auto split: prod.split sum.split)

section \<open>The session tells the outcome\<close>

definition is_id :: "string \<Rightarrow> bool" where
  "is_id i \<longleftrightarrow> validateId (JStr i) = Inr i"

lemma trimmed_id: "\<not> blank s \<Longrightarrow> is_id (js_trim s)"
  by (simp add: is_id_def validateId_def blank_def)

lemma optional_id: "validateOptionalId v = Inr (Some i) \<Longrightarrow> is_id i"
  by (auto simp: validateOptionalId_def ensure_Inr trimmed_id split: jsval.splits if_splits)

lemma anonymous_id: "is_id ''anonymous''"
  unfolding is_id_def by code_simp

lemma request_session:
  assumes "validateAnswerRequest n v = Inr q"
  shows "is_id (ar_session q)"
proof -
  obtain actor session0 where a: "validateOptionalId (js_get v ''actorId'') = Inr actor"
    "validateOptionalId (js_get v ''sessionId'') = Inr session0" "ar_session q = or_default (or_else session0 actor) ''anonymous''"
    using assms by (auto simp: validateAnswerRequest_def accepts Let_def simp del: js_get.simps split: jsval.splits)
  then show ?thesis
    using optional_id anonymous_id by (auto simp: or_default_def or_else_def split: option.splits)
qed

lemma request_message: "validateAnswerRequest n v = Inr q \<Longrightarrow> js_trim (ar_message q) = ar_message q"
  by (auto simp: validateAnswerRequest_def accepts Let_def simp del: js_get.simps split: jsval.splits)

lemma set_state_session:
  assumes "setState clock (JStr i) (JStr st) s = (Inr (), s')" "is_id i"
  shows "map_option se_state (conversations s' i) = Some (js_trim st)"
  using assms
  by (auto simp: setState_def is_id_def put_state_def trimmed_text_def Let_def split: option.splits if_splits prod.splits)

lemma status_states: "js_trim (state_of_status st) = state_of_status st"
  by (cases st) (simp_all add: state_of_status_def, code_simp+)

text \<open>When a request returns a result of its loop, the state of its session says which: idle after an answer, waiting for a
  human after an escalation, failed otherwise.\<close>

theorem session_state_tells_the_outcome:
  "case validateAnswerRequest n v of
      Inl _ \<Rightarrow> True
    | Inr q \<Rightarrow>
       (case answer_finish d clock q ev l s of
          (Inl _, _) \<Rightarrow> True
        | (Inr r, s') \<Rightarrow> map_option se_state (conversations s' (ar_session q)) = Some (state_of_status (rs_status r)))"
proof (cases "validateAnswerRequest n v")
  case (Inr q)
  have "map_option se_state (conversations s' (ar_session q)) = Some (state_of_status (rs_status r))"
    if "answer_finish d clock q ev l s = (Inr r, s')" for r s'
    using finish_last_write [OF that] set_state_session [OF _ request_session [OF Inr]] status_states by metis
  then show ?thesis using Inr by (auto split: prod.split sum.split)
qed simp

section \<open>Feedback\<close>

text \<open>An exchange is given to the FAQ store only for verified feedback that the host authorized, when the session is there
  and idle and its last exchange, the one that is stored, was answered.\<close>

theorem feedback_stores_answered_exchanges:
  "case recordFeedback authorize clock v s of
      (Given_to_store e, _) \<Rightarrow>
        authorize \<noteq> None \<and> fb_verified (fe_feedback e) \<and> js_get v ''verified'' = JBool True \<and>
        (\<exists>i x. trimmed_text (js_get v ''sessionId'') = Some i \<and> conversations s i = Some x \<and> se_state x = ''idle'' \<and>
           (\<exists>ex. exchange_in (rev (map copy_message (se_messages x))) = Some ex \<and> fe_question e = ex_question ex \<and>
              fe_answer e = ex_answer ex \<and> js_get (ex_metadata ex) ''outcome'' = JStr ''answered''))
    | _ \<Rightarrow> True"
proof -
  have get: "\<exists>y. conversations s i = Some y \<and> x = copy_session y \<and> conversations s1 = conversations s"
    if "get_session clock i s = (Some x, s1)" for i x s1 and s :: session_store
    using that by (auto simp: get_session_def isExpired_def tick_def Let_def split: option.splits if_splits)
  have id: "validateId (JStr i) = Inr i" if "trimmed_text w = Some i" for w i
    using that trimmed_id by (auto simp: trimmed_text_def is_id_def split: jsval.splits if_splits)
  show ?thesis
  proof (cases "recordFeedback authorize clock v s")
    case (Pair outcome s')
    show ?thesis
    proof (cases outcome)
      case (Given_to_store e)
      then obtain i feedback x s1 y s2 where r: "trimmed_text (js_get v ''sessionId'') = Some i" "validateFeedback v = Inr feedback"
        "fb_verified feedback" "lastExchange clock (JStr i) s = (Inr (Some x), s1)" "get_session clock i s1 = (Some y, s2)"
        "se_state y = ''idle''" "js_get (if is_plain_object (ex_metadata x) then ex_metadata x else JObj []) ''outcome'' = JStr ''answered''"
        "authorize \<noteq> None" "fe_question e = ex_question x" "fe_answer e = ex_answer x" "fe_feedback e = feedback"
        using Pair unfolding recordFeedback_def Let_def
        by (auto split: option.splits sum.splits prod.splits if_splits bool.splits simp del: js_get.simps)
      obtain z where z: "get_session clock i s = (Some z, s1)" "exchange_in (rev (se_messages z)) = Some x"
        using r(4) id [OF r(1)] by (auto simp: lastExchange_def split: prod.splits option.splits)
      from get [OF z(1)] get [OF r(5)] obtain y0 where y: "conversations s i = Some y0" "z = copy_session y0" "y = copy_session y0" by auto
      have "js_get (ex_metadata x) ''outcome'' = JStr ''answered''" using r(7) by (auto split: if_splits)
      moreover have "js_get v ''verified'' = JBool True" using r(2,3) by (auto simp: validateFeedback_def accepts)
      ultimately show ?thesis
        using Pair Given_to_store r y z(2) by (auto simp: copy_session_def rev_map)
    qed (simp_all add: Pair)
  qed
qed

section \<open>What feedback is about\<close>

text \<open>A session whose messages are all gone or end with the given question.\<close>

definition asked :: "string \<Rightarrow> string \<Rightarrow> session_store \<Rightarrow> bool" where
  "asked i content s = (case conversations s i of
      None \<Rightarrow> True
    | Some x \<Rightarrow> (case rev (se_messages x) of [] \<Rightarrow> True | m # _ \<Rightarrow> sm_role m = User \<and> sm_content m = content))"

lemma prune_get: "conversations (prune_sessions clock ps s) i = Some x \<Longrightarrow> conversations s i = Some x"
proof (induction ps arbitrary: s)
  case (Cons p ps)
  then show ?case
    using Cons.IH [of "s\<lparr>ss_reads := Suc (ss_reads s)\<rparr>"]
      Cons.IH [of "s\<lparr>ss_reads := Suc (ss_reads s), ss_sessions := map_delete (ss_sessions s) (fst p)\<rparr>"]
    by (auto simp: isExpired_def tick_def Let_def split: if_splits)
qed simp

lemma open_asked:
  assumes "getOrCreate clock i m s = (x, s')"
  shows "conversations s i = Some x \<or> se_messages x = []"
proof (cases "conversations (prune_store clock s) i")
  case (Some y)
  then show ?thesis using assms prune_get [of clock "ss_sessions s" s i y] by (auto simp: getOrCreate_def prune_store_def Let_def)
qed (use assms in \<open>auto simp: getOrCreate_def tick_def Let_def\<close>)

lemma last_part_snoc: "last_part n (xs @ [x]) = [] \<or> (\<exists>ys. last_part n (xs @ [x]) = ys @ [x] \<and> (ys = [] \<or> (\<exists>zs. xs = zs @ ys)))"
proof (cases "nat (int (length (xs @ [x])) - n) \<le> length xs")
  case True
  then have "last_part n (xs @ [x]) = drop (nat (int (length (xs @ [x])) - n)) xs @ [x]" by (simp add: last_part_def)
  then show ?thesis by (metis append_take_drop_id)
qed (simp add: last_part_def)

lemma push_user_asked:
  assumes "\<And>t. sm_role (m t) = User \<and> sm_content (m t) = content"
  shows "asked i content (push_message clock i m s)"
proof -
  obtain x s1 where o: "getOrCreate clock i (JObj []) s = (x, s1)" by fastforce
  have "case rev (last_part (ss_max_messages s1) (se_messages x @ [m t])) of
      [] \<Rightarrow> True | y # _ \<Rightarrow> sm_role y = User \<and> sm_content y = content" for t
    using assms [of t] last_part_snoc [of "ss_max_messages s1" "se_messages x" "m t"] by auto
  then show ?thesis using o by (simp add: asked_def push_message_def tick_def Let_def)
qed

lemma state_asked: "asked i content s \<Longrightarrow> asked i content (put_state clock i st s)"
proof -
  assume a: "asked i content s"
  obtain x s1 where o: "getOrCreate clock i (JObj []) s = (x, s1)" by fastforce
  then show ?thesis using a open_asked [OF o] by (auto simp: asked_def put_state_def tick_def Let_def)
qed

text \<open>After the answer is stored, the last exchange is that of the question, or there is none.\<close>

definition answered_with :: "string \<Rightarrow> string \<Rightarrow> string \<Rightarrow> session_store \<Rightarrow> bool" where
  "answered_with i question answer s = (case conversations s i of
      None \<Rightarrow> True
    | Some x \<Rightarrow> (case exchange_in (rev (se_messages x)) of
        None \<Rightarrow> True | Some e \<Rightarrow> ex_question e = question \<and> ex_answer e = answer))"

lemma push_answer_exchange:
  assumes "asked i question s" "\<And>t. sm_role (m t) = Assistant \<and> sm_content (m t) = answer"
  shows "answered_with i question answer (push_message clock i m s)"
proof -
  obtain x s1 where o: "getOrCreate clock i (JObj []) s = (x, s1)" by fastforce
  let ?m = "m (clock (ss_reads s1))" and ?n = "ss_max_messages s1"
  have x: "case rev (se_messages x) of [] \<Rightarrow> True | m # _ \<Rightarrow> sm_role m = User \<and> sm_content m = question"
    using open_asked [OF o] assms(1) by (auto simp: asked_def)
  have "case exchange_in (rev (last_part ?n (se_messages x @ [?m]))) of
      None \<Rightarrow> True | Some e \<Rightarrow> ex_question e = question \<and> ex_answer e = answer"
  proof (cases "last_part ?n (se_messages x @ [?m])" rule: rev_cases)
    case (snoc ys y)
    then have y: "y = ?m" "ys = [] \<or> (\<exists>zs. se_messages x = zs @ ys)" using last_part_snoc [of ?n "se_messages x" ?m] by auto
    show ?thesis
    proof (cases ys rule: rev_cases)
      case (snoc us u)
      then have "sm_role u = User \<and> sm_content u = question" using x y by (auto split: list.splits)
      then show ?thesis using snoc y assms(2) \<open>last_part _ _ = ys @ [y]\<close> by simp
    qed (use snoc in simp)
  qed simp
  then show ?thesis using o by (auto simp: answered_with_def push_message_def tick_def Let_def)
qed

lemma state_answered:
  "answered_with i question answer s \<Longrightarrow> answered_with i question answer (put_state clock i st s)"
proof -
  assume a: "answered_with i question answer s"
  obtain x s1 where o: "getOrCreate clock i (JObj []) s = (x, s1)" by fastforce
  then show ?thesis using a open_asked [OF o] by (auto simp: answered_with_def put_state_def tick_def Let_def)
qed

text \<open>The two synchronous parts of a task.\<close>

lemma append_role:
  assumes "append_message ts clock (JStr i) (role_message role content md) s = (Inr (), s')" "is_id i"
  shows "\<exists>m. s' = push_message clock i m s \<and>
    (\<forall>t. sm_content (m t) = js_trim content \<and> Some (sm_role (m t)) = session_role_of (JStr role))"
proof -
  obtain m where m: "read_message ts (role_message role content md) = Inr m" "s' = push_message clock i m s"
    using assms by (auto simp: append_message_def is_id_def split: sum.splits)
  have "sm_content (m t) = js_trim content \<and> Some (sm_role (m t)) = session_role_of (JStr role)" for t
    using m(1) by (auto simp: read_message_def role_message_def trimmed_text_def accepts split: option.splits if_splits)
  then show ?thesis using m(2) by blast
qed

lemma set_role: "setState clock (JStr i) v s = (Inr (), s') \<Longrightarrow> is_id i \<Longrightarrow> \<exists>st. s' = put_state clock i st s"
  by (auto simp: setState_def is_id_def split: option.splits)

lemma role_names: "session_role_of (JStr ''user'') = Some User" "session_role_of (JStr ''assistant'') = Some Assistant"
  by (simp_all add: session_role_of_def)

lemma begin_asks:
  assumes "is_id (ar_session q)" "answer_begin d clock q s = (Inr h, s1)"
  shows "asked (ar_session q) (js_trim (ar_message q)) s1"
proof -
  obtain t u ms where a: "append_message (\<lambda>_. []) clock (JStr (ar_session q))
      (role_message ''user'' (ar_message q) ms) t = (Inr (), u)"
    and b: "setState clock (JStr (ar_session q)) (JStr ''working'') u = (Inr (), s1)"
    using assms(2) by (auto simp: answer_begin_def split: sum.splits prod.splits)
  obtain m where "u = push_message clock (ar_session q) m t"
    "\<And>t. sm_role (m t) = User \<and> sm_content (m t) = js_trim (ar_message q)"
    using append_role [OF a assms(1)] by (auto simp: role_names)
  then show ?thesis using set_role [OF b assms(1)] state_asked push_user_asked by metis
qed

lemma deliver_answers:
  assumes "is_id (ar_session q)" "asked (ar_session q) question s" "deliver d clock q ev l cs dn s = (Inr r, s')"
    "rs_status r = Answered" "rs_answer r = Some a" "a \<noteq> []"
  shows "answered_with (ar_session q) question (js_trim a) s'"
proof -
  have f: "fail_answer d clock q ev l e t \<noteq> (Inr r, s')" for e t using fail_not_answered assms(4) by fastforce
  obtain u md st where a: "append_message (\<lambda>_. []) clock (JStr (ar_session q)) (role_message ''assistant'' a md) s = (Inr (), u)"
    and b: "setState clock (JStr (ar_session q)) st u = (Inr (), s')"
    using assms(3,5,6) f unfolding deliver_def Let_def
    by (auto simp: or_default_def split: sum.splits prod.splits if_splits option.splits)
  obtain m where "u = push_message clock (ar_session q) m s"
    "\<And>t. sm_role (m t) = Assistant \<and> sm_content (m t) = js_trim a"
    using append_role [OF a assms(1)] by (auto simp: role_names)
  then show ?thesis using assms(2) set_role [OF b assms(1)] state_answered push_answer_exchange by metis
qed

lemma loop_response:
  assumes "case r of None \<Rightarrow> True | Some m \<Rightarrow> response_sound m"
  shows "case lr_response (model_loop d q h ev n step r results fx) of None \<Rightarrow> True | Some m \<Rightarrow> response_sound m"
  using assms
proof (induction d q h ev n step r results fx rule: model_loop.induct)
  case (2 d q h ev left step r results fx)
  show ?case
  proof (cases "and_then (em_model d q h step ev results) validateModelResponse")
    case (Inl e)
    then show ?thesis using 2(2) by simp
  next
    case (Inr m)
    then have m: "response_sound m" using validated_response by (auto simp: accepts)
    show ?thesis
    proof (cases "mr_calls m = []")
      case False
      obtain results' fx' where c: "run_calls d (mr_calls m) results = (results', fx')" by fastforce
      show ?thesis using 2(1) [OF refl Inr False c [symmetric] refl] Inr False c m by simp
    qed (use Inr m in simp)
  qed
qed simp

lemma think_response: "lr_response (snd (think d q h)) = Some m \<Longrightarrow> response_sound m"
  using loop_response [of None d q h "fst (think d q h)" "em_max_steps d" 0 "[]" "[]"]
  by (auto simp: think_def Let_def split: sum.splits option.splits if_splits)

lemma finish_answers:
  assumes "is_id (ar_session q)" "asked (ar_session q) question s" "rs_status r = Answered"
    "answer_finish d clock q (fst (think d q h)) (snd (think d q h)) s = (Inr r, s')"
  shows "\<exists>a. rs_answer r = Some a \<and> answered_with (ar_session q) question (js_trim a) s'"
proof -
  have "grounded d (fst (think d q h)) (snd (think d q h)) r" using finish_answered assms(3,4) by blast
  then obtain m where m: "lr_response (snd (think d q h)) = Some m" "lr_error (snd (think d q h)) = None"
    "rs_answer r = mr_answer m" "mr_answer m \<noteq> None" by (auto simp: grounded_def split: option.splits)
  then obtain a where a: "rs_answer r = Some a" "a \<noteq> []"
    using think_response [OF m(1)] by (auto simp: response_sound_def)
  have f: "fail_answer d clock q ev l e t \<noteq> (Inr r, s')" for ev l e t using fail_not_answered assms(3) by fastforce
  then obtain cs dn where "deliver d clock q (fst (think d q h)) (snd (think d q h)) cs dn s = (Inr r, s')"
    using assms(4) m(2) unfolding answer_finish_def Let_def by (auto split: sum.splits)
  then show ?thesis using deliver_answers assms a by blast
qed

text \<open>The last exchange of a session, if there is one, is the given question with the given answer.\<close>

definition last_exchange_is :: "(nat \<Rightarrow> int) \<Rightarrow> string \<Rightarrow> string \<Rightarrow> string option \<Rightarrow> session_store \<Rightarrow> bool" where
  "last_exchange_is clock i question answer s = (case fst (lastExchange clock (JStr i) s) of
      Inr (Some x) \<Rightarrow> ex_question x = question \<and> Some (ex_answer x) = map_option js_trim answer
    | _ \<Rightarrow> True)"

lemma answered_last:
  assumes "answered_with i question (js_trim answer) s" "is_id i"
  shows "last_exchange_is clock i question (Some answer) s"
proof -
  have c: "sm_role (copy_message m) = sm_role m" "sm_content (copy_message m) = sm_content m" for m
    by (simp_all add: copy_message_def split: option.split)
  have k: "(case exchange_in (map copy_message ms) of None \<Rightarrow> True | Some e \<Rightarrow> ex_question e = question \<and> ex_answer e = js_trim answer) =
      (case exchange_in ms of None \<Rightarrow> True | Some e \<Rightarrow> ex_question e = question \<and> ex_answer e = js_trim answer)" for ms
    by (induction ms rule: exchange_in.induct) (simp_all add: c)
  show ?thesis
  proof (cases "conversations s i")
    case (Some x)
    have "case exchange_in (rev (se_messages x)) of None \<Rightarrow> True | Some e \<Rightarrow> ex_question e = question \<and> ex_answer e = js_trim answer"
      using assms(1) Some by (simp add: answered_with_def)
    then have "case exchange_in (rev (map copy_message (se_messages x))) of
        None \<Rightarrow> True | Some e \<Rightarrow> ex_question e = question \<and> ex_answer e = js_trim answer"
      using k [of "rev (se_messages x)"] by (simp only: rev_map)
    then show ?thesis
      using assms(2) Some
      by (auto simp: last_exchange_is_def lastExchange_def is_id_def get_session_def isExpired_def tick_def copy_session_def Let_def split: option.split)
  qed (use assms(2) in \<open>simp add: last_exchange_is_def lastExchange_def is_id_def get_session_def\<close>)
qed

text \<open>When no other task touches the store while a question is answered, the last exchange of the session afterwards, which
  is the one feedback is about, is that question with the answer that was returned, or there is none.\<close>

theorem feedback_is_about_the_answer:
  "case validateAnswerRequest n v of
      Inl _ \<Rightarrow> True
    | Inr q \<Rightarrow>
       (case answer_task d clock q s of
          (Inl _, _) \<Rightarrow> True
        | (Inr r, s') \<Rightarrow>
            if rs_status r = Answered
            then last_exchange_is clock (ar_session q) (ar_message q) (rs_answer r) s'
            else True)"
proof (cases "validateAnswerRequest n v")
  case (Inr q)
  have i: "is_id (ar_session q)" by (rule request_session [OF Inr])
  have t: "js_trim (ar_message q) = ar_message q" by (rule request_message [OF Inr])
  have "last_exchange_is clock (ar_session q) (ar_message q) (rs_answer r) s'"
    if r: "answer_task d clock q s = (Inr r, s')" "rs_status r = Answered" for r s'
  proof -
    obtain h s1 where b: "answer_begin d clock q s = (Inr h, s1)"
      "answer_finish d clock q (fst (think d q h)) (snd (think d q h)) s1 = (Inr r, s')"
      using r(1) by (auto simp: answer_task_def split: prod.splits sum.splits)
    have "asked (ar_session q) (ar_message q) s1" using begin_asks [OF i b(1)] t by simp
    then obtain a where "rs_answer r = Some a" "answered_with (ar_session q) (ar_message q) (js_trim a) s'"
      using finish_answers [OF i _ r(2) b(2)] by blast
    then show ?thesis using answered_last [OF _ i] by simp
  qed
  then show ?thesis using Inr by (auto split: prod.split)  (auto split: sum.split)
qed simp

section \<open>Two tasks on one session\<close>

text \<open>The job runner keeps the tasks of one actor apart, but several actors can name one session. What the store is given when
  a second question has entered the session before the first is answered.\<close>

definition overlapping_tasks ::
  "employee \<Rightarrow> (nat \<Rightarrow> int) \<Rightarrow> answer_request \<Rightarrow> answer_request \<Rightarrow> session_store \<Rightarrow> (thrown + answer_result) \<times> session_store" where
  "overlapping_tasks d clock a b s = (case answer_begin d clock a s of
      (Inl e, s) \<Rightarrow> (Inl e, s)
    | (Inr h, s) \<Rightarrow>
        (case answer_begin d clock b s of
           (Inl e, s) \<Rightarrow> (Inl e, s)
         | (Inr _, s) \<Rightarrow> (let (ev, l) = think d a h in answer_finish d clock a ev l s)))"

text \<open>When two questions are asked in one session and the second enters it before the first is answered, the last exchange
  after the first answer, which is the one feedback is about, is the second question with the answer to the first, or
  there is none.\<close>

theorem overlapping_tasks_mix_questions_and_answers:
  "case (validateAnswerRequest n v, validateAnswerRequest n w) of
      (Inr a, Inr b) \<Rightarrow>
        if ar_session a = ar_session b
        then (case overlapping_tasks d clock a b s of
                (Inl _, _) \<Rightarrow> True
              | (Inr r, s') \<Rightarrow>
                  if rs_status r = Answered
                  then last_exchange_is clock (ar_session a) (ar_message b) (rs_answer r) s'
                  else True)
        else True
    | _ \<Rightarrow> True"
proof -
  have "last_exchange_is clock (ar_session a) (ar_message b) (rs_answer r) s'"
    if v: "validateAnswerRequest n v = Inr a" "validateAnswerRequest n w = Inr b" "ar_session a = ar_session b"
      and r: "overlapping_tasks d clock a b s = (Inr r, s')" "rs_status r = Answered" for a b r s'
  proof -
    obtain h h' s1 s2 where b: "answer_begin d clock a s = (Inr h, s1)" "answer_begin d clock b s1 = (Inr h', s2)"
      "answer_finish d clock a (fst (think d a h)) (snd (think d a h)) s2 = (Inr r, s')"
      using r(1) by (auto simp: overlapping_tasks_def split: prod.splits sum.splits)
    have i: "is_id (ar_session a)" by (rule request_session [OF v(1)])
    have "asked (ar_session a) (ar_message b) s2" using begin_asks [OF _ b(2)] i v(3) request_message [OF v(2)] by simp
    then obtain z where "rs_answer r = Some z" "answered_with (ar_session a) (ar_message b) (js_trim z) s'"
      using finish_answers [OF i _ r(2) b(3)] by blast
    then show ?thesis using answered_last [OF _ i] by simp
  qed
  then show ?thesis by (auto split: sum.split prod.split)
qed

end
