(* ===== verification/Retrieval.thy ===== *)
theory Retrieval
  imports CoreContracts
begin

text \<open>
  packages/core/src/lexical-retriever.ts and packages/core/src/faq-store.ts: tokens and similarity, the retriever over documents,
  and the store of verified answers. Strings hold no character above U+00FF here, so the segments of Chinese text, and the two
  Chinese patterns of unsafe content, never occur. The double that \<open>overlap / Math.sqrt(product)\<close> gives is the parameter
  \<open>ratio\<close>; the order of \<open>localeCompare\<close> is that of the parameter \<open>collate\<close>; the text of metadata values is \<open>values_text\<close>.
\<close>

section \<open>Tokens\<close>

definition token_start :: "char \<Rightarrow> bool" where
  "token_start c = (is_lower c \<or> is_digit c)"

definition token_char :: "char \<Rightarrow> bool" where
  "token_char c = (is_lower c \<or> is_digit c \<or> c = CHR ''_'' \<or> c = CHR ''-'')"

text \<open>\<open>/[a-z0-9][a-z0-9_-]*/g\<close>\<close>

function word_matches :: "string \<Rightarrow> string list" where
  "word_matches [] = []"
| "word_matches (c # s) =
     (if token_start c then (c # takeWhile token_char s) # word_matches (dropWhile token_char s) else word_matches s)"
  by pat_completeness auto

termination
  by (relation "measure length") (auto simp: le_imp_less_Suc length_dropWhile_le)

definition tokenize :: "string \<Rightarrow> string list" where
  "tokenize s = remdups (word_matches (map lower_char s))"

definition lexicalSimilarity :: "(nat \<Rightarrow> nat \<Rightarrow> rat) \<Rightarrow> string list \<Rightarrow> string list \<Rightarrow> rat" where
  "lexicalSimilarity ratio left right =
     (if length left = 0 \<or> length right = 0 then 0
      else ratio (length (filter (\<lambda>t. t \<in> set right) left)) (length left * length right))"

text \<open>Filter by the least score, sort by descending score and then by the tie, cut at the limit; sorting is stable.\<close>

definition at_least :: "jsval \<Rightarrow> rat \<Rightarrow> bool" where
  "at_least least score = (case least of JNum q \<Rightarrow> score \<ge> q | _ \<Rightarrow> False)"

definition ranked :: "('a \<Rightarrow> rat) \<Rightarrow> ('a \<Rightarrow> rat) \<Rightarrow> jsval \<Rightarrow> nat \<Rightarrow> 'a list \<Rightarrow> 'a list" where
  "ranked score tie least limit xs =
     take limit (sort_key (\<lambda>x. - score x) (sort_key tie (filter (\<lambda>x. at_least least (score x)) xs)))"

definition read_search_limit :: "jsval \<Rightarrow> thrown + nat" where
  "read_search_limit v = (case js_int v of
      None \<Rightarrow> Inl ValidationError | Some n \<Rightarrow> ensure (\<not> n < 1) ValidationError (Inr (nat n)))"

text \<open>A number outside 0 to 1 is refused; a NaN is not.\<close>

definition read_min_score :: "jsval \<Rightarrow> thrown + jsval" where
  "read_min_score v = (case v of
      JNum q \<Rightarrow> ensure (\<not> (q < 0 \<or> q > 1)) ValidationError (Inr v)
    | JNonFinite \<Rightarrow> Inr v
    | _ \<Rightarrow> Inl ValidationError)"

section \<open>The retriever\<close>

record indexed_document =
  ix_document :: source_document
  ix_tokens :: "string list"

record lexical_retriever =
  lx_limit :: nat
  lx_min_score :: jsval
  lx_documents :: "(string, indexed_document) jsmap"

definition add_document :: "(jsval \<Rightarrow> string) \<Rightarrow> jsval \<Rightarrow> lexical_retriever \<Rightarrow> thrown + lexical_retriever" where
  "add_document values_text v r = and_then (validateDocument v) (\<lambda>d.
     Inr (r\<lparr>lx_documents := map_set (lx_documents r) (sd_id d)
       \<lparr>ix_document = d,
        ix_tokens = tokenize (sd_title d @ [CHR 0x0A] @ sd_text d @ [CHR 0x0A] @ values_text (sd_metadata d))\<rparr>\<rparr>))"

fun add_documents :: "(jsval \<Rightarrow> string) \<Rightarrow> jsval list \<Rightarrow> lexical_retriever \<Rightarrow> thrown + lexical_retriever" where
  "add_documents values_text [] r = Inr r"
| "add_documents values_text (v # vs) r = and_then (add_document values_text v r) (add_documents values_text vs)"

definition new_retriever :: "(jsval \<Rightarrow> string) \<Rightarrow> jsval \<Rightarrow> jsval \<Rightarrow> thrown + lexical_retriever" where
  "new_retriever values_text documents v = (case documents of
      JArr vs \<Rightarrow>
        and_then (read_search_limit (nullish (js_get v ''limit'') (JNum 5))) (\<lambda>limit.
        and_then (read_min_score (nullish (js_get v ''minScore'') (JNum (3602879701896397 / 72057594037927936)))) (\<lambda>least.
          add_documents values_text vs \<lparr>lx_limit = limit, lx_min_score = least, lx_documents = []\<rparr>))
    | _ \<Rightarrow> Inl ValidationError)"

definition remove_document :: "string \<Rightarrow> lexical_retriever \<Rightarrow> bool \<times> lexical_retriever" where
  "remove_document i r = (map_has (lx_documents r) i, r\<lparr>lx_documents := map_delete (lx_documents r) i\<rparr>)"

definition clear_documents :: "lexical_retriever \<Rightarrow> lexical_retriever" where
  "clear_documents r = r\<lparr>lx_documents := []\<rparr>"

text \<open>The results are the documents with their scores; the citation repeats the document's members.\<close>

definition search_documents ::
  "(nat \<Rightarrow> nat \<Rightarrow> rat) \<Rightarrow> (string \<Rightarrow> rat) \<Rightarrow> jsval \<Rightarrow> jsval \<Rightarrow> lexical_retriever \<Rightarrow> thrown + (source_document \<times> rat) list" where
  "search_documents ratio collate query v r = (case trimmed_text query of
      None \<Rightarrow> Inr []
    | Some _ \<Rightarrow>
        and_then (read_search_limit (nullish (js_get v ''limit'') (JNum (of_nat (lx_limit r))))) (\<lambda>limit.
        let tokens = tokenize (or_default (js_str query) [])
        in if tokens = [] then Inr []
           else Inr (ranked snd (\<lambda>p. collate (sd_id (fst p))) (nullish (js_get v ''minScore'') (lx_min_score r)) limit
             (map (\<lambda>x. (ix_document x, lexicalSimilarity ratio tokens (ix_tokens x))) (map_values (lx_documents r))))))"

section \<open>The store of verified answers\<close>

record faq_stored =
  fq_id :: string
  fq_question :: string
  fq_answer :: string
  fq_feedback :: feedback_record
  fq_citations :: "jsval list"
  fq_hits :: nat
  fq_created :: int
  fq_updated :: int

record faq_store =
  fs_max :: nat
  fs_min_score :: jsval
  fs_entries :: "(string, faq_stored) jsmap"
  fs_next :: nat
  fs_reads :: nat

definition new_faq_store :: "jsval \<Rightarrow> thrown + faq_store" where
  "new_faq_store v =
     and_then (read_search_limit (nullish (js_get v ''maxEntries'') (JNum 100))) (\<lambda>most.
     and_then (read_min_score (nullish (js_get v ''minScore'') (JNum (5404319552844595 / 18014398509481984)))) (\<lambda>least.
       Inr \<lparr>fs_max = most, fs_min_score = least, fs_entries = [], fs_next = 1, fs_reads = 0\<rparr>))"

text \<open>\<open>/ignore.{0,20}(instruction|policy|prompt|rule)/i\<close> and \<open>/system\s*prompt/i\<close> at the head of a text.\<close>

definition ignore_head :: "string \<Rightarrow> bool" where
  "ignore_head s =
     (literal_length ''ignore'' s \<noteq> None \<and>
      list_ex (\<lambda>k. list_all (\<lambda>c. c \<noteq> CHR 0x0A \<and> c \<noteq> CHR 0x0D) (take k (drop 6 s)) \<and> k \<le> length (drop 6 s) \<and>
        list_ex (\<lambda>w. literal_length w (drop (6 + k) s) \<noteq> None) [''instruction'', ''policy'', ''prompt'', ''rule''])
        [0..<21])"

definition system_head :: "string \<Rightarrow> bool" where
  "system_head s = (literal_length ''system'' s \<noteq> None \<and> literal_length ''prompt'' (dropWhile js_space (drop 6 s)) \<noteq> None)"

definition unsafe_text :: "string \<Rightarrow> bool" where
  "unsafe_text s = list_ex (\<lambda>n. ignore_head (drop n s) \<or> system_head (drop n s)) [0..<length s]"

definition normalizeCitations :: "jsval \<Rightarrow> jsval list" where
  "normalizeCitations v = (case v of
      JArr vs \<Rightarrow> map sanitizeDetails (filter (\<lambda>c. js_str (js_get c ''id'') \<noteq> None) vs)
    | _ \<Rightarrow> [])"

text \<open>The least used entry, the least recently updated one among those.\<close>

definition oldest_entry :: "faq_store \<Rightarrow> faq_stored option" where
  "oldest_entry s = (case sort_key fq_hits (sort_key fq_updated (map_values (fs_entries s))) of [] \<Rightarrow> None | e # _ \<Rightarrow> Some e)"

text \<open>\<open>#evict\<close>: each turn deletes one entry, so the number of entries is fuel enough.\<close>

fun evict_entries :: "nat \<Rightarrow> faq_store \<Rightarrow> faq_store" where
  "evict_entries 0 s = s"
| "evict_entries (Suc fuel) s =
     (if length (fs_entries s) > fs_max s
      then case oldest_entry s of
          None \<Rightarrow> s
        | Some e \<Rightarrow> evict_entries fuel (s\<lparr>fs_entries := map_delete (fs_entries s) (fq_id e)\<rparr>)
      else s)"

datatype faq_outcome = Faq_refused string | Faq_stored string bool

definition similar_entry :: "(nat \<Rightarrow> nat \<Rightarrow> rat) \<Rightarrow> string \<Rightarrow> faq_store \<Rightarrow> faq_stored option" where
  "similar_entry ratio question s =
     (case ranked snd (\<lambda>_. 0) (JNum (3 / 4)) (length (fs_entries s))
        (map (\<lambda>e. (e, lexicalSimilarity ratio (tokenize question) (tokenize (fq_question e)))) (map_values (fs_entries s))) of
        [] \<Rightarrow> None | p # _ \<Rightarrow> Some (fst p))"

definition insert_entry ::
  "int \<Rightarrow> jsval \<Rightarrow> string \<Rightarrow> string \<Rightarrow> feedback_record \<Rightarrow> faq_store \<Rightarrow> faq_outcome \<times> faq_store" where
  "insert_entry now v question answer feedback s =
     (let (i, s) = (case trimmed_text (js_get v ''id'') of
                      Some i \<Rightarrow> (i, s)
                    | None \<Rightarrow> (''faq-'' @ dec (fs_next s), s\<lparr>fs_next := fs_next s + 1\<rparr>));
          s = s\<lparr>fs_entries := map_set (fs_entries s) i
                \<lparr>fq_id = i, fq_question = question, fq_answer = answer, fq_feedback = feedback,
                 fq_citations = normalizeCitations (js_get v ''citations''), fq_hits = 0, fq_created = now, fq_updated = now\<rparr>\<rparr>
      in (Faq_stored i False, evict_entries (length (fs_entries s)) s))"

definition update_entry ::
  "int \<Rightarrow> jsval \<Rightarrow> string \<Rightarrow> feedback_record \<Rightarrow> faq_stored \<Rightarrow> faq_store \<Rightarrow> faq_outcome \<times> faq_store" where
  "update_entry now v answer feedback e s =
     (Faq_stored (fq_id e) True, s\<lparr>fs_entries := map_set (fs_entries s) (fq_id e)
       (e\<lparr>fq_answer := answer, fq_feedback := feedback, fq_citations := normalizeCitations (js_get v ''citations''),
          fq_updated := now, fq_hits := fq_hits e + 1\<rparr>)\<rparr>)"

definition faq_add ::
  "(nat \<Rightarrow> nat \<Rightarrow> rat) \<Rightarrow> (nat \<Rightarrow> int) \<Rightarrow> jsval \<Rightarrow> faq_store \<Rightarrow> (thrown + faq_outcome) \<times> faq_store" where
  "faq_add ratio clock v s =
     (if \<not> is_plain_object v then (Inl ValidationError, s)
      else case validateFeedback (nullish (js_get v ''feedback'') (JObj [])) of
          Inl e \<Rightarrow> (Inl e, s)
        | Inr feedback \<Rightarrow>
           if \<not> fb_verified feedback then (Inr (Faq_refused ''unverified_feedback''), s)
           else (case (trimmed_text (js_get v ''question''), trimmed_text (js_get v ''answer'')) of
              (Some question, Some answer) \<Rightarrow>
                if unsafe_text question \<or> unsafe_text answer then (Inr (Faq_refused ''unsafe_content''), s)
                else let now = clock (fs_reads s); s = s\<lparr>fs_reads := fs_reads s + 1\<rparr>;
                         (r, s) = (case similar_entry ratio question s of
                            Some e \<Rightarrow> update_entry now v answer feedback e s
                          | None \<Rightarrow> insert_entry now v question answer feedback s)
                     in (Inr r, s)
            | _ \<Rightarrow> (Inl ValidationError, s)))"

text \<open>\<open>{ ...input, feedback: { ...input.feedback, verified: true } }\<close>\<close>

definition own_members :: "jsval \<Rightarrow> (string \<times> jsval) list" where
  "own_members v = (case v of JObj kvs \<Rightarrow> kvs | _ \<Rightarrow> [])"

definition faq_add_verified ::
  "(nat \<Rightarrow> nat \<Rightarrow> rat) \<Rightarrow> (nat \<Rightarrow> int) \<Rightarrow> jsval \<Rightarrow> faq_store \<Rightarrow> (thrown + faq_outcome) \<times> faq_store" where
  "faq_add_verified ratio clock v s =
     faq_add ratio clock (JObj (map_set (own_members v) ''feedback''
       (JObj (map_set (own_members (js_get v ''feedback'')) ''verified'' (JBool True))))) s"

definition count_hit :: "faq_stored \<Rightarrow> (string, faq_stored) jsmap \<Rightarrow> (string, faq_stored) jsmap" where
  "count_hit e m = map_set m (fq_id e) (e\<lparr>fq_hits := fq_hits e + 1\<rparr>)"

definition faq_search ::
  "(nat \<Rightarrow> nat \<Rightarrow> rat) \<Rightarrow> jsval \<Rightarrow> jsval \<Rightarrow> faq_store \<Rightarrow> (thrown + (faq_stored \<times> rat) list) \<times> faq_store" where
  "faq_search ratio query v s = (case trimmed_text query of
      None \<Rightarrow> (Inr [], s)
    | Some _ \<Rightarrow>
        (case read_search_limit (nullish (js_get v ''limit'') (JNum 3)) of
           Inl e \<Rightarrow> (Inl e, s)
         | Inr limit \<Rightarrow>
            let results = ranked snd (\<lambda>p. - of_int (fq_updated (fst p))) (nullish (js_get v ''minScore'') (fs_min_score s)) limit
                  (map (\<lambda>e. (e, lexicalSimilarity ratio (tokenize (or_default (js_str query) [])) (tokenize (fq_question e))))
                    (map_values (fs_entries s)))
            in (Inr results, s\<lparr>fs_entries := fold count_hit (map fst results) (fs_entries s)\<rparr>)))"

definition faq_stats :: "faq_store \<Rightarrow> nat \<times> nat" where
  "faq_stats s = (length (fs_entries s), sum_list (map fq_hits (map_values (fs_entries s))))"

section \<open>What a search returns\<close>

text \<open>The results reach the least score, best first, at most as many as allowed, and nothing left out is better.\<close>

definition best_of :: "('a \<Rightarrow> rat) \<Rightarrow> jsval \<Rightarrow> nat \<Rightarrow> 'a list \<Rightarrow> 'a list \<Rightarrow> bool" where
  "best_of score least limit xs rs \<longleftrightarrow>
     length rs \<le> limit \<and> sorted (map (\<lambda>x. - score x) rs) \<and>
     list_all (\<lambda>r. at_least least (score r) \<and> r \<in> set xs) rs \<and>
     list_all (\<lambda>x. if at_least least (score x) \<and> x \<notin> set rs then length rs = limit \<and> list_all (\<lambda>r. score x \<le> score r) rs else True) xs"

lemma take_sorted_least:
  assumes "sorted (map f ys)" "y \<in> set (take n ys)" "x \<in> set ys" "x \<notin> set (take n ys)"
  shows "f y \<le> f x"
proof -
  have "ys = take n ys @ drop n ys" by simp
  then have "x \<in> set (drop n ys)" using assms(3,4) by (metis Un_iff set_append)
  moreover have "sorted (map f (take n ys) @ map f (drop n ys))" using assms(1) by (metis append_take_drop_id map_append)
  ultimately show ?thesis using assms(2) by (auto simp: sorted_append)
qed

lemma ranked_best: "best_of score least limit xs (ranked score tie least limit xs)"
proof -
  define ys where "ys = sort_key (\<lambda>x. - score x) (sort_key tie (filter (\<lambda>x. at_least least (score x)) xs))"
  have r: "ranked score tie least limit xs = take limit ys" by (simp add: ranked_def ys_def)
  have s: "sorted (map (\<lambda>x. - score x) ys)" "set ys = {x \<in> set xs. at_least least (score x)}" by (auto simp: ys_def)
  have "length (take limit ys) = limit \<and> list_all (\<lambda>r. score x \<le> score r) (take limit ys)"
    if "x \<in> set ys" "x \<notin> set (take limit ys)" for x
  proof -
    have "limit \<le> length ys" using that by (metis nat_le_linear take_all)
    then show ?thesis using take_sorted_least [OF s(1) _ that] by (auto simp: list_all_iff)
  qed
  then show ?thesis
    using s by (auto simp: r best_of_def list_all_iff take_map [symmetric] sorted_wrt_take dest: in_set_takeD)
qed

section \<open>What the store keeps\<close>

definition entry_ok :: "faq_stored \<Rightarrow> bool" where
  "entry_ok e \<longleftrightarrow> fb_verified (fq_feedback e) \<and> fq_question e \<noteq> [] \<and> fq_answer e \<noteq> [] \<and>
     \<not> unsafe_text (fq_question e) \<and> \<not> unsafe_text (fq_answer e)"

definition faq_inv :: "nat \<Rightarrow> faq_store \<Rightarrow> bool" where
  "faq_inv most s \<longleftrightarrow> fs_max s = most \<and> 1 \<le> most \<and> length (fs_entries s) \<le> most \<and> map_wf (fs_entries s) \<and>
     list_all (\<lambda>p. fq_id (snd p) = fst p \<and> entry_ok (snd p)) (fs_entries s)"

lemma keyed_value: "list_all (\<lambda>p. fq_id (snd p) = fst p \<and> P (snd p)) m \<Longrightarrow> e \<in> set (map_values m) \<Longrightarrow> map_has m (fq_id e) \<and> P e"
  by (auto simp: map_values_def map_has_def list_all_iff image_iff)

lemma oldest_member: "oldest_entry s = Some e \<Longrightarrow> e \<in> set (map_values (fs_entries s))"
  unfolding oldest_entry_def by (metis list.case_eq_if list.set_sel(1) option.distinct(1) option.inject set_sort)

lemma oldest_None: "oldest_entry s = None \<longleftrightarrow> fs_entries s = []"
  by (auto simp: oldest_entry_def map_values_def split: list.split) (metis list.map_disc_iff list.set_intros(1) set_empty set_sort)

lemma evict_ok:
  assumes "map_wf (fs_entries s)" "list_all (\<lambda>p. fq_id (snd p) = fst p \<and> P (snd p)) (fs_entries s)" "length (fs_entries s) \<le> n + fs_max s"
  shows "fs_max (evict_entries n s) = fs_max s \<and> length (fs_entries (evict_entries n s)) \<le> fs_max s \<and>
    map_wf (fs_entries (evict_entries n s)) \<and>
    list_all (\<lambda>p. fq_id (snd p) = fst p \<and> P (snd p)) (fs_entries (evict_entries n s))"
  using assms
proof (induction n s rule: evict_entries.induct)
  case (2 n s)
  show ?case
  proof (cases "length (fs_entries s) > fs_max s")
    case True
    then obtain e where e: "oldest_entry s = Some e" using oldest_None [of s] by (cases "oldest_entry s") auto
    let ?s = "s\<lparr>fs_entries := map_delete (fs_entries s) (fq_id e)\<rparr>"
    have "length (fs_entries ?s) < length (fs_entries s)"
      using keyed_value [OF 2(3) oldest_member [OF e]] by (simp add: length_map_delete_present)
    then show ?thesis using 2(1) [OF True e] 2(2-4) True e by auto
  qed (use 2 in auto)
qed simp

lemma ranked_member: "x \<in> set (ranked score tie least limit xs) \<Longrightarrow> x \<in> set xs"
  using ranked_best [of score least limit xs tie] by (auto simp: best_of_def list_all_iff)

lemma similar_member:
  assumes "similar_entry ratio q s = Some e"
  shows "e \<in> set (map_values (fs_entries s))"
proof -
  let ?xs = "map (\<lambda>e. (e, lexicalSimilarity ratio (tokenize q) (tokenize (fq_question e)))) (map_values (fs_entries s))"
  obtain p rs where p: "ranked snd (\<lambda>_. 0) (JNum (3 / 4)) (length (fs_entries s)) ?xs = p # rs" "e = fst p"
    using assms by (auto simp: similar_entry_def split: list.splits)
  have "p \<in> set ?xs" by (rule ranked_member [of p snd "\<lambda>_. 0" "JNum (3 / 4)" "length (fs_entries s)"]) (simp add: p(1))
  then show ?thesis using p(2) by auto
qed

lemma text_nonempty: "trimmed_text v = Some s \<Longrightarrow> s \<noteq> []"
  by (rule trimmed_nonempty)

lemma insert_inv:
  assumes "faq_inv most s" "fb_verified feedback" "question \<noteq> []" "answer \<noteq> []" "\<not> unsafe_text question" "\<not> unsafe_text answer"
  shows "faq_inv most (snd (insert_entry now v question answer feedback s))"
proof -
  have "faq_inv most (evict_entries (length (fs_entries u)) u)"
    if u: "fs_max u = fs_max s" "fs_entries u = map_set (fs_entries s) i x" "fq_id x = i" "entry_ok x" for u i x
  proof -
    have "list_all (\<lambda>p. fq_id (snd p) = fst p \<and> entry_ok (snd p)) (fs_entries u)"
      unfolding u(2) using assms(1) u(3,4) by (intro list_all_map_set) (auto simp: faq_inv_def)
    moreover have "map_wf (fs_entries u)" unfolding u(2) using assms(1) by (intro map_wf_set) (simp add: faq_inv_def)
    ultimately show ?thesis using evict_ok [of u entry_ok "length (fs_entries u)"] u(1) assms(1) by (simp add: faq_inv_def)
  qed
  then show ?thesis
    using assms by (auto simp: insert_entry_def Let_def entry_ok_def split: option.split)
qed

lemma update_inv:
  assumes "faq_inv most s" "e \<in> set (map_values (fs_entries s))" "fb_verified feedback" "answer \<noteq> []" "\<not> unsafe_text answer"
  shows "faq_inv most (snd (update_entry now v answer feedback e s))"
proof -
  have "map_has (fs_entries s) (fq_id e)" "entry_ok e"
    using keyed_value [OF _ assms(2), of entry_ok] assms(1) by (auto simp: faq_inv_def)
  then show ?thesis
    using assms by (auto simp: update_entry_def faq_inv_def entry_ok_def length_map_set intro!: list_all_map_set)
qed

lemma hits_inv:
  assumes "faq_inv most s" "set es \<subseteq> set (map_values (fs_entries s))"
  shows "faq_inv most (s\<lparr>fs_entries := fold count_hit es (fs_entries s)\<rparr>)"
proof -
  have "map_wf (fold count_hit es m) \<and> length (fold count_hit es m) = length m \<and>
      list_all (\<lambda>p. fq_id (snd p) = fst p \<and> entry_ok (snd p)) (fold count_hit es m)"
    if "map_wf m" "list_all (\<lambda>p. fq_id (snd p) = fst p \<and> entry_ok (snd p)) m"
      "\<forall>e \<in> set es. map_has m (fq_id e) \<and> entry_ok e" for m
    using that
  proof (induction es arbitrary: m)
    case (Cons e es)
    have "map_has (count_hit e m) k = map_has m k" if "map_has m (fq_id e)" for k
      using that by (simp add: count_hit_def map_has_get)
    moreover have "map_wf (count_hit e m)" "length (count_hit e m) = length m"
      "list_all (\<lambda>p. fq_id (snd p) = fst p \<and> entry_ok (snd p)) (count_hit e m)"
      using Cons.prems by (auto simp: count_hit_def length_map_set entry_ok_def intro!: list_all_map_set)
    ultimately show ?case using Cons.IH [of "count_hit e m"] Cons.prems by simp
  qed simp
  then show ?thesis using assms keyed_value [of entry_ok "fs_entries s"] by (fastforce simp: faq_inv_def)
qed

lemma add_inv: "faq_inv most s \<Longrightarrow> faq_inv most (snd (faq_add ratio clock v s))"
proof -
  assume i: "faq_inv most s"
  let ?s = "s\<lparr>fs_reads := fs_reads s + 1\<rparr>"
  have j: "faq_inv most ?s" using i by (simp add: faq_inv_def)
  have m: "e \<in> set (map_values (fs_entries ?s))" if "similar_entry ratio q ?s = Some e" for q e using similar_member [OF that] .
  show ?thesis
    using i insert_inv [OF j] update_inv [OF j] m text_nonempty
    by (auto simp: faq_add_def Let_def split: sum.split option.split prod.split) (metis snd_conv)+
qed

section \<open>The store over any sequence of operations\<close>

datatype faq_op = Add_entry jsval | Add_verified jsval | Search_entries jsval jsval

definition faq_step :: "(nat \<Rightarrow> nat \<Rightarrow> rat) \<Rightarrow> (nat \<Rightarrow> int) \<Rightarrow> faq_op \<Rightarrow> faq_store \<Rightarrow> faq_store" where
  "faq_step ratio clock x s = (case x of
      Add_entry v \<Rightarrow> snd (faq_add ratio clock v s)
    | Add_verified v \<Rightarrow> snd (faq_add_verified ratio clock v s)
    | Search_entries q v \<Rightarrow> snd (faq_search ratio q v s))"

lemma search_inv: "faq_inv most s \<Longrightarrow> faq_inv most (snd (faq_search ratio q v s))"
proof -
  assume i: "faq_inv most s"
  have "set (map fst (ranked snd tie least n (map (\<lambda>e. (e, f e)) (map_values (fs_entries s))))) \<subseteq> set (map_values (fs_entries s))"
    for tie least n and f :: "faq_stored \<Rightarrow> rat"
    by (auto dest: ranked_member)
  then show ?thesis using i hits_inv [OF i] by (auto simp: faq_search_def Let_def split: option.split sum.split)
qed

lemma faq_step_inv: "faq_inv most s \<Longrightarrow> faq_inv most (faq_step ratio clock x s)"
  by (cases x) (simp_all add: faq_step_def faq_add_verified_def add_inv search_inv)

lemma new_faq_inv: "new_faq_store v = Inr s \<Longrightarrow> faq_inv (fs_max s) s"
  by (auto simp: new_faq_store_def read_search_limit_def accepts faq_inv_def option_Inr)

text \<open>C28: However entries are added and searched for, the store keeps at most its maximum of entries, each under its own id, with a
  question and an answer from verified feedback, neither of them with a text that matches the patterns of unsafe content.\<close>

theorem faq_store_keeps_verified_entries:
  "case new_faq_store v of
      Inl _ \<Rightarrow> True
    | Inr s \<Rightarrow> faq_inv (fs_max s) (fold (faq_step ratio clock) ops s)"
proof (cases "new_faq_store v")
  case (Inr s)
  have "faq_inv (fs_max s) (fold (faq_step ratio clock) ops u)" if "faq_inv (fs_max s) u" for u
    using that by (induction ops arbitrary: u) (auto intro: faq_step_inv)
  then show ?thesis using Inr new_faq_inv [OF Inr] by simp
qed simp

text \<open>A search of the store and a search of the retriever return the best matches: at most as many as asked for, none below the
  least score, best first, and no match left out scores higher than one returned.\<close>

theorem searches_return_the_best:
  "(case faq_search ratio query v s of
      (Inl _, _) \<Rightarrow> True
    | (Inr rs, _) \<Rightarrow> (case read_search_limit (nullish (js_get v ''limit'') (JNum 3)) of
        Inl _ \<Rightarrow> rs = []
      | Inr n \<Rightarrow> rs = [] \<or> best_of snd (nullish (js_get v ''minScore'') (fs_min_score s)) n
          (map (\<lambda>e. (e, lexicalSimilarity ratio (tokenize (or_default (js_str query) [])) (tokenize (fq_question e))))
            (map_values (fs_entries s))) rs)) \<and>
   (case search_documents ratio collate query v r of
      Inl _ \<Rightarrow> True
    | Inr rs \<Rightarrow> (case read_search_limit (nullish (js_get v ''limit'') (JNum (of_nat (lx_limit r)))) of
        Inl _ \<Rightarrow> rs = []
      | Inr n \<Rightarrow> rs = [] \<or> best_of snd (nullish (js_get v ''minScore'') (lx_min_score r)) n
          (map (\<lambda>x. (ix_document x, lexicalSimilarity ratio (tokenize (or_default (js_str query) [])) (ix_tokens x)))
            (map_values (lx_documents r))) rs))"
  by (auto simp: faq_search_def search_documents_def Let_def ranked_best split: option.split sum.split)

section \<open>Stored and gone\<close>

text \<open>In a full store whose entries have all been used, the new entry is the least used one, and is evicted by its own insertion;
  the caller is told that it is stored.\<close>

lemma sorted_hd_least: "x \<in> set xs \<Longrightarrow> sort_key f xs = y # ys \<Longrightarrow> f y \<le> f x"
proof -
  assume x: "x \<in> set xs" and s: "sort_key f xs = y # ys"
  have "sorted (map f (y # ys))" using s sorted_sort_key [of f xs] by metis
  moreover have "x \<in> set (y # ys)" using x s by (metis set_sort)
  ultimately show ?thesis by auto
qed

lemma evict_small: "length (fs_entries s) \<le> fs_max s \<Longrightarrow> evict_entries n s = s"
  by (cases n) simp_all

lemma insert_shape:
  assumes "insert_entry now v question answer feedback s = (Faq_stored i b, s')"
  shows "\<exists>u x. fs_max u = fs_max s \<and> fs_entries u = map_set (fs_entries s) i x \<and> fq_id x = i \<and> fq_hits x = 0 \<and>
    s' = evict_entries (length (fs_entries u)) u"
proof -
  let ?x = "\<lambda>i. \<lparr>fq_id = i, fq_question = question, fq_answer = answer, fq_feedback = feedback,
    fq_citations = normalizeCitations (js_get v ''citations''), fq_hits = 0, fq_created = now, fq_updated = now\<rparr>"
  let ?u = "\<lambda>s i. s\<lparr>fs_entries := map_set (fs_entries s) i (?x i)\<rparr>"
  obtain t where t: "fs_max t = fs_max s" "fs_entries t = fs_entries s" "s' = evict_entries (length (fs_entries (?u t i))) (?u t i)"
  proof (cases "trimmed_text (js_get v ''id'')")
    case None
    then show thesis using assms that [of "s\<lparr>fs_next := fs_next s + 1\<rparr>"] by (auto simp: insert_entry_def Let_def)
  next
    case (Some j)
    then show thesis using assms that [of s] by (auto simp: insert_entry_def Let_def)
  qed
  then show ?thesis by (intro exI [of _ "?u t i"] exI [of _ "?x i"]) simp
qed

lemma insert_gone:
  assumes "length (fs_entries s) = fs_max s" "list_all (\<lambda>p. fq_hits (snd p) > 0) (fs_entries s)"
    and "insert_entry now v question answer feedback s = (Faq_stored i b, s')" "\<not> map_has (fs_entries s) i"
  shows "\<not> map_has (fs_entries s') i"
proof -
  obtain u x where u: "fs_max u = fs_max s" "fs_entries u = map_set (fs_entries s) i x" "fq_id x = i" "fq_hits x = 0"
    "s' = evict_entries (length (fs_entries u)) u"
    using insert_shape [OF assms(3)] by metis
  have e: "fs_entries u = fs_entries s @ [(i, x)]"
    using assms(4) unfolding u(2) by (rule map_set_absent)
  then have n: "length (fs_entries u) = Suc (fs_max s)" using assms(1) by simp
  obtain y where y: "oldest_entry u = Some y" using oldest_None [of u] e by (cases "oldest_entry u") auto
  then obtain ys where "sort_key fq_hits (sort_key fq_updated (map_values (fs_entries u))) = y # ys"
    by (auto simp: oldest_entry_def split: list.splits)
  from sorted_hd_least [OF _ this, of x] have "fq_hits y = 0" using u(4) e by (simp add: map_values_def)
  moreover have "y \<in> set (map_values (fs_entries u))" using oldest_member [OF y] .
  ultimately have "y = x" using assms(2) e by (auto simp: map_values_def list_all_iff)
  let ?u = "u\<lparr>fs_entries := map_delete (fs_entries u) i\<rparr>"
  have d: "map_delete (fs_entries u) i = fs_entries s"
    using assms(4) unfolding e by (auto simp: map_delete_def map_has_def intro!: filter_True)
  have "s' = evict_entries (fs_max s) ?u" using u(1,5) n y \<open>y = x\<close> u(3) by simp
  also have "\<dots> = ?u" using d u(1) assms(1) by (intro evict_small) simp
  finally show ?thesis using d assms(4) by simp
qed

text \<open>When the store is full and every entry has been used, an entry that is reported as newly stored is not in the store.\<close>

theorem a_stored_entry_can_be_gone:
  "case faq_add ratio clock v s of
      (Inr (Faq_stored i False), s') \<Rightarrow>
        if length (fs_entries s) = fs_max s \<and> list_all (\<lambda>p. fq_hits (snd p) > 0) (fs_entries s) \<and> \<not> map_has (fs_entries s) i
        then \<not> map_has (fs_entries s') i
        else True
    | _ \<Rightarrow> True"
proof -
  have "\<not> map_has (fs_entries s') i"
    if a: "faq_add ratio clock v s = (Inr (Faq_stored i False), s')"
      and h: "length (fs_entries s) = fs_max s" "list_all (\<lambda>p. fq_hits (snd p) > 0) (fs_entries s)" "\<not> map_has (fs_entries s) i" for i s'
  proof -
    let ?s = "s\<lparr>fs_reads := fs_reads s + 1\<rparr>"
    obtain now question answer feedback where "insert_entry now v question answer feedback ?s = (Faq_stored i False, s')"
      using a by (auto simp: faq_add_def update_entry_def Let_def split: if_splits sum.splits option.splits prod.splits)
    then show ?thesis using insert_gone [of ?s now v question answer feedback i False s'] h by simp
  qed
  then show ?thesis by (auto split: prod.split sum.split faq_outcome.split bool.split)
qed

end
