(* ===== verification/EmployeePackage.thy ===== *)
theory EmployeePackage
  imports PositionConnectors
begin

text \<open>
  packages/core/src/employee-package.ts and packages/core/src/agent-host.ts: the manifest of an employee package and its
  validator, the host requirements and the effective policy derived from it, and the check of a host against them. Regular
  expressions are written out as tests. Errors carry the code; a value that is no string is left out of it.
\<close>

section \<open>Hosts\<close>

definition AGENT_HOST_PROTOCOL_VERSION :: string where
  "AGENT_HOST_PROTOCOL_VERSION = ''agent-host.v1''"

definition AGENT_HOST_CAPABILITIES :: "string list" where
  "AGENT_HOST_CAPABILITIES = [''non_interactive_run'', ''event_stream'', ''session_resume'', ''attachments'', ''mcp'', ''skills'',
     ''structured_output'', ''tool_allowlist'', ''filesystem_scope'', ''network_policy'', ''sandbox'', ''approval_callback'',
     ''cancellation'', ''usage_events'']"

datatype capability_support = Supported | Documented | Unsupported | Unknown_support

datatype probe_status = Probe_installed | Probe_ready | Probe_not_ready | Probe_not_found | Probe_not_spawnable | Probe_failed

record host_issue =
  hi_code :: string
  hi_blocking :: bool

record host_probe =
  hp_protocol :: string
  hp_status :: probe_status
  hp_available :: bool
  hp_runnable :: bool
  hp_capabilities :: "string \<Rightarrow> capability_support option"
  hp_conformance :: bool
  hp_issues :: "host_issue list"

record host_compatibility =
  hc_compatible :: bool
  hc_missing :: "string list"
  hc_unknown :: "string list"
  hc_issues :: "host_issue list"

definition blocking_issue :: "string \<Rightarrow> host_issue" where
  "blocking_issue code = \<lparr>hi_code = code, hi_blocking = True\<rparr>"

definition capability_issue :: "string \<Rightarrow> string \<Rightarrow> host_issue" where
  "capability_issue code capability =
     blocking_issue (if capability = ''network_policy'' then ''network_policy_unsatisfiable'' else code)"

definition assessAgentHostCompatibility :: "host_probe \<Rightarrow> string list \<Rightarrow> host_compatibility" where
  "assessAgentHostCompatibility p required =
     (let caps = uniq required;
          missing = filter (\<lambda>c. hp_capabilities p c = Some Unsupported) caps;
          unknown = filter (\<lambda>c. hp_capabilities p c \<noteq> Some Unsupported \<and> hp_capabilities p c \<noteq> Some Supported) caps;
          issues = hp_issues p
            @ (if hp_protocol p \<noteq> AGENT_HOST_PROTOCOL_VERSION \<or> hp_status p \<noteq> Probe_ready \<or> \<not> hp_available p
               then [blocking_issue ''host_not_ready''] else [])
            @ (if \<not> hp_runnable p then [blocking_issue ''host_adapter_not_runnable''] else [])
            @ (if \<not> hp_conformance p then [blocking_issue ''host_capabilities_not_conformance_verified''] else [])
            @ map (capability_issue ''required_capability_unsupported'') missing
            @ map (capability_issue ''required_capability_unverified'') unknown
      in \<lparr>hc_compatible = (hp_available p \<and> hp_status p = Probe_ready \<and> hp_protocol p = AGENT_HOST_PROTOCOL_VERSION \<and>
            hp_runnable p \<and> hp_conformance p \<and> missing = [] \<and> unknown = [] \<and> \<not> list_ex hi_blocking issues),
          hc_missing = missing, hc_unknown = unknown, hc_issues = issues\<rparr>)"

section \<open>The manifest\<close>

datatype package_mode = Package_read_only | Package_approval_required

datatype network_mode = Network_deny | Network_host_policy | Network_allowlist

record mcp_tool =
  mt_name :: string
  mt_write :: bool

record skill_ref =
  sk_name :: string
  sk_version :: string
  sk_digest :: string
  sk_locality :: "string option"

record package_identity =
  pi_display_name :: string
  pi_avatar :: "string option"
  pi_persona :: "string option"
  pi_role_id :: "string option"
  pi_extra :: "(string \<times> jsval) list"

record entry_points =
  en_skill :: string
  en_input_schema :: string
  en_output_schema :: string
  en_mcp :: "string option"

record package_policy =
  pp_mode_of :: package_mode
  pp_network :: network_mode
  pp_hosts :: "string list option"
  pp_read_paths :: "string list"
  pp_write_paths :: "string list"
  pp_mcp_tools :: "mcp_tool list"

record manifest =
  mf_schema :: "string option"
  mf_name :: string
  mf_version :: string
  mf_description :: string
  mf_license :: string
  mf_authors :: "string list"
  mf_identity :: "package_identity option"
  mf_capabilities :: "string list"
  mf_entrypoints :: entry_points
  mf_policy :: package_policy
  mf_assets :: "string list"
  mf_skills :: "skill_ref list option"

definition EMPLOYEE_PACKAGE_SCHEMA_VERSION :: string where
  "EMPLOYEE_PACKAGE_SCHEMA_VERSION = ''employee-package.v1alpha1''"

section \<open>Patterns\<close>

definition ascii_alnum :: "char \<Rightarrow> bool" where
  "ascii_alnum c = (is_lower c \<or> is_upper c \<or> is_digit c)"

definition printable :: "char \<Rightarrow> bool" where
  "printable c = (32 \<le> (of_char c :: nat) \<and> (of_char c :: nat) \<noteq> 127)"

definition IDENTIFIER_PATTERN :: "string \<Rightarrow> bool" where
  "IDENTIFIER_PATTERN = CONNECTOR_ID_PATTERN"

definition SKILL_NAME_PATTERN :: "string \<Rightarrow> bool" where
  "SKILL_NAME_PATTERN = name_pattern"

text \<open>\<open>0|[1-9]\d*\<close>, and the optional parts after the third number.\<close>

definition semver_number :: "string \<Rightarrow> bool" where
  "semver_number s = (s = ''0'' \<or> (s \<noteq> [] \<and> list_all is_digit s \<and> hd s \<noteq> CHR ''0''))"

definition semver_char :: "char \<Rightarrow> bool" where
  "semver_char c = (ascii_alnum c \<or> c = CHR ''.'' \<or> c = CHR ''-'')"

definition semver_build :: "string \<Rightarrow> bool" where
  "semver_build s = (case s of [] \<Rightarrow> True | c # r \<Rightarrow> c = CHR ''+'' \<and> r \<noteq> [] \<and> list_all semver_char r)"

definition semver_tail :: "string \<Rightarrow> bool" where
  "semver_tail s = (case s of
      c # r \<Rightarrow> if c = CHR ''-'' then takeWhile semver_char r \<noteq> [] \<and> semver_build (dropWhile semver_char r) else semver_build s
    | [] \<Rightarrow> True)"

definition number_then :: "(string \<Rightarrow> bool) \<Rightarrow> string \<Rightarrow> bool" where
  "number_then rest s = (semver_number (takeWhile is_digit s) \<and> rest (dropWhile is_digit s))"

definition dot_then :: "(string \<Rightarrow> bool) \<Rightarrow> string \<Rightarrow> bool" where
  "dot_then rest s = (case s of [] \<Rightarrow> False | c # r \<Rightarrow> c = CHR ''.'' \<and> rest r)"

definition SEMVER_PATTERN :: "string \<Rightarrow> bool" where
  "SEMVER_PATTERN = number_then (dot_then (number_then (dot_then (number_then semver_tail))))"

definition LICENSE_PATTERN :: "string \<Rightarrow> bool" where
  "LICENSE_PATTERN s = (1 \<le> length s \<and> length s \<le> 128 \<and>
     list_all (\<lambda>c. ascii_alnum c \<or> c = CHR ''.'' \<or> c = CHR ''+'' \<or> c = CHR ''-'') s)"

text \<open>\<open>/^\.\/(?!.*\\)[^\u0000-\u001f\u007f]+$/\<close>\<close>

definition PORTABLE_PATH_PATTERN :: "string \<Rightarrow> bool" where
  "PORTABLE_PATH_PATTERN s = (starts_with s ''./'' \<and> drop 2 s \<noteq> [] \<and> list_all (\<lambda>c. printable c \<and> c \<noteq> CHR 0x5C) (drop 2 s))"

definition IDENTITY_ROLE_ID_PATTERN :: "string \<Rightarrow> bool" where
  "IDENTITY_ROLE_ID_PATTERN = bounded_name is_lower (\<lambda>c. is_lower c \<or> is_digit c \<or> c = CHR ''-'') 63"

definition host_label :: "string \<Rightarrow> bool" where
  "host_label s = (s \<noteq> [] \<and> length s \<le> 63 \<and> ascii_alnum (hd s) \<and> ascii_alnum (last s) \<and> list_all (\<lambda>c. ascii_alnum c \<or> c = CHR ''-'') s)"

definition NETWORK_HOST_PATTERN :: "string \<Rightarrow> bool" where
  "NETWORK_HOST_PATTERN s = list_all host_label (split_on (CHR ''.'') (if starts_with s ''*.'' then drop 2 s else s))"

definition AUTHOR_PATTERN :: "string \<Rightarrow> bool" where
  "AUTHOR_PATTERN s = (1 \<le> length s \<and> length s \<le> 256 \<and> list_all printable s)"

section \<open>Readers\<close>

datatype package_error =
    Package_code string
  | Unsupported_schema
  | Unsupported_protocol
  | No_object string

definition invalid_field :: "string \<Rightarrow> package_error" where
  "invalid_field label = Package_code (''employee_package_invalid_field:'' @ label)"

definition duplicate_value :: "string \<Rightarrow> package_error" where
  "duplicate_value label = Package_code (''employee_package_duplicate_value:'' @ label)"

definition assertKnownKeys :: "jsval \<Rightarrow> string list \<Rightarrow> string \<Rightarrow> package_error + jsval" where
  "assertKnownKeys v allowed label =
     ensure (is_plain_object v) (No_object label)
       (case List.find (\<lambda>k. k \<notin> set allowed) (js_keys v) of
          Some k \<Rightarrow> Inl (Package_code (''employee_package_unknown_field:'' @ label @ ''.'' @ k)) | None \<Rightarrow> Inr v)"

definition require_field :: "(string \<Rightarrow> bool) \<Rightarrow> nat \<Rightarrow> string \<Rightarrow> jsval \<Rightarrow> package_error + string" where
  "require_field pattern most label v = (case v of
      JStr s \<Rightarrow> ensure (\<not> (blank s \<or> length s > most \<or> \<not> pattern s)) (invalid_field label) (Inr (js_trim s))
    | _ \<Rightarrow> Inl (invalid_field label))"

abbreviation any_text :: "string \<Rightarrow> bool" where
  "any_text \<equiv> \<lambda>_. True"

text \<open>\<open>value.map\<close> with a reader that sees the label of the index.\<close>

fun read_each :: "(string \<Rightarrow> jsval \<Rightarrow> package_error + 'a) \<Rightarrow> string \<Rightarrow> nat \<Rightarrow> jsval list \<Rightarrow> package_error + 'a list" where
  "read_each f label n [] = Inr []"
| "read_each f label n (v # vs) =
     and_then (f (label @ ''['' @ dec n @ '']'') v) (\<lambda>x. and_then (read_each f label (n + 1) vs) (\<lambda>xs. Inr (x # xs)))"

definition unique_list :: "(string \<Rightarrow> jsval \<Rightarrow> package_error + string) \<Rightarrow> string \<Rightarrow> jsval \<Rightarrow> package_error + string list" where
  "unique_list f label v = (case v of
      JArr vs \<Rightarrow> and_then (read_each f label 0 vs) (\<lambda>xs. ensure (distinct xs) (duplicate_value label) (Inr xs))
    | _ \<Rightarrow> Inl (invalid_field label))"

definition uniqueStringList :: "(string \<Rightarrow> bool) \<Rightarrow> nat \<Rightarrow> string \<Rightarrow> jsval \<Rightarrow> package_error + string list" where
  "uniqueStringList pattern most = unique_list (require_field pattern most)"

definition segment_ok :: "string \<Rightarrow> bool" where
  "segment_ok s = (s \<noteq> [] \<and> s \<noteq> ''.'' \<and> s \<noteq> ''..'')"

definition portablePath :: "string \<Rightarrow> jsval \<Rightarrow> package_error + string" where
  "portablePath label v =
     and_then (require_field PORTABLE_PATH_PATTERN 1024 label v) (\<lambda>p.
       ensure (list_all segment_ok (split_on (CHR ''/'') (drop 2 p))) (invalid_field label) (Inr p))"

definition glob_char :: "char \<Rightarrow> bool" where
  "glob_char c = (c \<in> set ''*?[]{}!'')"

definition portableFilePath :: "string \<Rightarrow> jsval \<Rightarrow> package_error + string" where
  "portableFilePath label v =
     and_then (portablePath label v) (\<lambda>p. ensure (list_all (\<lambda>c. \<not> glob_char c) p) (invalid_field label) (Inr p))"

definition portablePathList :: "(string \<Rightarrow> jsval \<Rightarrow> package_error + string) \<Rightarrow> string \<Rightarrow> jsval \<Rightarrow> package_error + string list" where
  "portablePathList = unique_list"

definition validateRequiredCapabilities :: "jsval \<Rightarrow> package_error + string list" where
  "validateRequiredCapabilities v =
     and_then (uniqueStringList IDENTIFIER_PATTERN 128 ''host.requiredCapabilities'' v) (\<lambda>caps.
       case List.find (\<lambda>c. c \<notin> set AGENT_HOST_CAPABILITIES) caps of
         Some c \<Rightarrow> Inl (Package_code (''employee_package_unknown_host_capability:'' @ c))
       | None \<Rightarrow> Inr caps)"

fun read_mcp_tools :: "nat \<Rightarrow> string list \<Rightarrow> jsval list \<Rightarrow> package_error + mcp_tool list" where
  "read_mcp_tools n names [] = Inr []"
| "read_mcp_tools n names (v # vs) =
     (let label = ''policy.mcpTools['' @ dec n @ '']''
      in and_then (assertKnownKeys v [''name'', ''requestedMode''] label) (\<lambda>entry.
         and_then (require_field IDENTIFIER_PATTERN 128 (label @ ''.name'') (js_get entry ''name'')) (\<lambda>name.
         ensure (name \<notin> set names) (duplicate_value ''policy.mcpTools'')
        (ensure (js_get entry ''requestedMode'' = JStr ''read'' \<or> js_get entry ''requestedMode'' = JStr ''write'')
           (invalid_field (label @ ''.requestedMode''))
        (and_then (read_mcp_tools (n + 1) (names @ [name]) vs) (\<lambda>tools.
           Inr (\<lparr>mt_name = name, mt_write = (js_get entry ''requestedMode'' = JStr ''write'')\<rparr> # tools)))))))"

definition validateMcpTools :: "jsval \<Rightarrow> package_error + mcp_tool list" where
  "validateMcpTools v = (case v of JArr vs \<Rightarrow> read_mcp_tools 0 [] vs | _ \<Rightarrow> Inl (invalid_field ''policy.mcpTools''))"

definition read_locality :: "string \<Rightarrow> jsval \<Rightarrow> package_error + string option" where
  "read_locality label v =
     (if v = JUndef then Inr None
      else if v = JStr ''package'' \<or> v = JStr ''workspace'' then Inr (js_str v)
      else Inl (invalid_field (label @ ''.locality'')))"

fun read_skill_units :: "nat \<Rightarrow> string list \<Rightarrow> jsval list \<Rightarrow> package_error + skill_ref list" where
  "read_skill_units n names [] = Inr []"
| "read_skill_units n names (v # vs) =
     (let label = ''skills['' @ dec n @ '']''
      in and_then (assertKnownKeys v [''name'', ''version'', ''digest'', ''locality''] label) (\<lambda>entry.
         and_then (require_field SKILL_NAME_PATTERN 64 (label @ ''.name'') (js_get entry ''name'')) (\<lambda>name.
         ensure (name \<notin> set names) (duplicate_value ''skills'')
        (and_then (require_field SEMVER_PATTERN 128 (label @ ''.version'') (js_get entry ''version'')) (\<lambda>version.
         and_then (require_field digest_pattern 71 (label @ ''.digest'') (js_get entry ''digest'')) (\<lambda>digest.
         and_then (read_locality label (js_get entry ''locality'')) (\<lambda>locality.
         and_then (read_skill_units (n + 1) (names @ [name]) vs) (\<lambda>refs.
           Inr (\<lparr>sk_name = name, sk_version = version, sk_digest = digest, sk_locality = locality\<rparr> # refs)))))))))"

definition MAX_SKILL_UNITS :: nat where
  "MAX_SKILL_UNITS = 32"

definition validateSkillUnits :: "jsval \<Rightarrow> package_error + skill_ref list" where
  "validateSkillUnits v = (case v of
      JArr vs \<Rightarrow> ensure (\<not> length vs > MAX_SKILL_UNITS) (invalid_field ''skills'') (read_skill_units 0 [] vs)
    | _ \<Rightarrow> Inl (invalid_field ''skills''))"

definition validateNetworkHosts :: "jsval \<Rightarrow> package_error + string list" where
  "validateNetworkHosts v = (case v of
      JArr vs \<Rightarrow> ensure (\<not> length vs > 64) (invalid_field ''policy.hosts'') (uniqueStringList NETWORK_HOST_PATTERN 253 ''policy.hosts'' v)
    | _ \<Rightarrow> Inl (invalid_field ''policy.hosts''))"

text \<open>A member that may be undefined.\<close>

definition optional_field :: "(jsval \<Rightarrow> package_error + 'a) \<Rightarrow> jsval \<Rightarrow> package_error + 'a option" where
  "optional_field f v = (if v = JUndef then Inr None else and_then (f v) (\<lambda>x. Inr (Some x)))"

definition truthy_field :: "(jsval \<Rightarrow> package_error + 'a) \<Rightarrow> jsval \<Rightarrow> package_error + 'a option" where
  "truthy_field f v = (if js_truthy v then and_then (f v) (\<lambda>x. Inr (Some x)) else Inr None)"

definition IDENTITY_KNOWN_FIELDS :: "string list" where
  "IDENTITY_KNOWN_FIELDS = [''displayName'', ''avatar'', ''persona'', ''roleId'']"

definition read_avatar :: "string list \<Rightarrow> jsval \<Rightarrow> package_error + string" where
  "read_avatar assets v =
     and_then (assertKnownKeys v [''asset''] ''identity.avatar'') (\<lambda>avatar.
     and_then (portableFilePath ''identity.avatar.asset'' (js_get avatar ''asset'')) (\<lambda>asset.
       ensure (asset \<in> set assets) (Package_code ''employee_package_identity_avatar_asset_unknown'') (Inr asset)))"

text \<open>Unknown members are kept, each with a warning; assigning \<open>__proto__\<close> adds no own member.\<close>

definition validateIdentity :: "string list \<Rightarrow> jsval \<Rightarrow> package_error + (package_identity \<times> string list)" where
  "validateIdentity assets v =
     ensure (is_plain_object v) (No_object ''identity'')
    (ensure (\<not> js_has v ''reportTo'') (Package_code ''employee_package_unknown_field:identity.reportTo'')
    (let extra = filter (\<lambda>p. fst p \<notin> set IDENTITY_KNOWN_FIELDS) (object_entries v);
         warnings = map (\<lambda>p. ''employee_package_identity_unknown_field:'' @ fst p) extra
     in and_then (require_field any_text 64 ''identity.displayName'' (js_get v ''displayName'')) (\<lambda>displayName.
        and_then (optional_field (read_avatar assets) (js_get v ''avatar'')) (\<lambda>avatar.
        and_then (optional_field (require_field any_text 2048 ''identity.persona'') (js_get v ''persona'')) (\<lambda>persona.
        and_then (optional_field (require_field IDENTITY_ROLE_ID_PATTERN 64 ''identity.roleId'') (js_get v ''roleId'')) (\<lambda>roleId.
          Inr (\<lparr>pi_display_name = displayName, pi_avatar = avatar, pi_persona = persona, pi_role_id = roleId,
                pi_extra = filter (\<lambda>p. fst p \<noteq> ''__proto__'') extra\<rparr>, warnings)))))))"

definition package_mode_of :: "jsval \<Rightarrow> package_error + package_mode" where
  "package_mode_of v = (if v = JStr ''read_only'' then Inr Package_read_only
     else if v = JStr ''approval_required'' then Inr Package_approval_required else Inl (invalid_field ''policy.mode''))"

definition network_mode_of :: "jsval \<Rightarrow> package_error + network_mode" where
  "network_mode_of v = (if v = JStr ''deny'' then Inr Network_deny else if v = JStr ''host_policy'' then Inr Network_host_policy
     else if v = JStr ''allowlist'' then Inr Network_allowlist else Inl (invalid_field ''policy.network''))"

definition POLICY_KEYS :: "string list" where
  "POLICY_KEYS = [''mode'', ''network'', ''hosts'', ''filesystem'', ''mcpTools'']"

text \<open>The policy with the required capabilities, in the order of the checks.\<close>

definition read_policy :: "jsval \<Rightarrow> jsval \<Rightarrow> jsval \<Rightarrow> jsval \<Rightarrow> package_error + (string list \<times> package_policy)" where
  "read_policy caps entrypoints policy filesystem =
     and_then (package_mode_of (js_get policy ''mode'')) (\<lambda>mode.
     and_then (network_mode_of (js_get policy ''network'')) (\<lambda>network.
     ensure (\<not> (js_get policy ''hosts'' \<noteq> JUndef \<and> network \<noteq> Network_allowlist))
       (Package_code ''employee_package_network_hosts_require_allowlist'')
    (and_then (validateRequiredCapabilities caps) (\<lambda>required.
     and_then (portablePathList portablePath ''policy.filesystem.read'' (js_get filesystem ''read'')) (\<lambda>readPaths.
     and_then (portablePathList portablePath ''policy.filesystem.write'' (js_get filesystem ''write'')) (\<lambda>writePaths.
     and_then (validateMcpTools (js_get policy ''mcpTools'')) (\<lambda>tools.
     and_then (optional_field validateNetworkHosts (js_get policy ''hosts'')) (\<lambda>hosts.
     ensure (\<not> (mode = Package_read_only \<and> writePaths \<noteq> [])) (Package_code ''read_only_employee_cannot_request_write_paths'')
    (ensure (\<not> (mode = Package_read_only \<and> list_ex mt_write tools)) (Package_code ''read_only_employee_cannot_request_write_mcp_tools'')
    (ensure (\<not> (tools \<noteq> [] \<and> \<not> js_truthy (js_get entrypoints ''mcp''))) (Package_code ''mcp_tools_require_mcp_entrypoint'')
       (Inr (required, \<lparr>pp_mode_of = mode, pp_network = network, pp_hosts = hosts, pp_read_paths = readPaths,
                        pp_write_paths = writePaths, pp_mcp_tools = tools\<rparr>))))))))))))"

definition read_entrypoints :: "jsval \<Rightarrow> package_error + entry_points" where
  "read_entrypoints v =
     and_then (portableFilePath ''entrypoints.skill'' (js_get v ''skill'')) (\<lambda>skill.
     and_then (portableFilePath ''entrypoints.inputSchema'' (js_get v ''inputSchema'')) (\<lambda>inputSchema.
     and_then (portableFilePath ''entrypoints.outputSchema'' (js_get v ''outputSchema'')) (\<lambda>outputSchema.
     and_then (truthy_field (portableFilePath ''entrypoints.mcp'') (js_get v ''mcp'')) (\<lambda>mcp.
       Inr \<lparr>en_skill = skill, en_input_schema = inputSchema, en_output_schema = outputSchema, en_mcp = mcp\<rparr>))))"

definition MANIFEST_KEYS :: "string list" where
  "MANIFEST_KEYS = [''$schema'', ''schemaVersion'', ''name'', ''version'', ''description'', ''license'', ''authors'', ''identity'',
     ''host'', ''entrypoints'', ''policy'', ''assets'', ''skills'']"

text \<open>The members of the result in the order of the object literal, then identity, skills and the test of the authors.\<close>

definition read_manifest ::
  "jsval \<Rightarrow> jsval \<Rightarrow> string list \<Rightarrow> package_policy \<Rightarrow> string list \<Rightarrow> package_error + (manifest \<times> string list)" where
  "read_manifest v entrypoints required policy assets =
     and_then (truthy_field (require_field any_text 2000 ''$schema'') (js_get v ''$schema'')) (\<lambda>schema.
     and_then (require_field SKILL_NAME_PATTERN 64 ''name'' (js_get v ''name'')) (\<lambda>name.
     and_then (require_field SEMVER_PATTERN 128 ''version'' (js_get v ''version'')) (\<lambda>version.
     and_then (require_field any_text 2000 ''description'' (js_get v ''description'')) (\<lambda>description.
     and_then (require_field LICENSE_PATTERN 128 ''license'' (js_get v ''license'')) (\<lambda>license.
     and_then (uniqueStringList AUTHOR_PATTERN 256 ''authors'' (js_get v ''authors'')) (\<lambda>authors.
     and_then (read_entrypoints entrypoints) (\<lambda>points.
     and_then (optional_field (validateIdentity assets) (js_get v ''identity'')) (\<lambda>identity.
     and_then (optional_field validateSkillUnits (js_get v ''skills'')) (\<lambda>skills.
     ensure (\<not> length authors = 0) (invalid_field ''authors'')
       (Inr (\<lparr>mf_schema = schema, mf_name = name, mf_version = version, mf_description = description, mf_license = license,
              mf_authors = authors, mf_identity = map_option fst identity, mf_capabilities = required, mf_entrypoints = points,
              mf_policy = policy, mf_assets = assets, mf_skills = skills\<rparr>,
            (case identity of None \<Rightarrow> [] | Some x \<Rightarrow> snd x))))))))))))"

definition validateEmployeePackageManifest :: "jsval \<Rightarrow> package_error + (manifest \<times> string list)" where
  "validateEmployeePackageManifest input_value =
     and_then (assertKnownKeys input_value MANIFEST_KEYS ''manifest'') (\<lambda>v.
     ensure (js_get v ''schemaVersion'' = JStr EMPLOYEE_PACKAGE_SCHEMA_VERSION) Unsupported_schema
    (and_then (assertKnownKeys (js_get v ''host'') [''protocol'', ''requiredCapabilities''] ''host'') (\<lambda>host.
     ensure (js_get host ''protocol'' = JStr AGENT_HOST_PROTOCOL_VERSION) Unsupported_protocol
    (and_then (assertKnownKeys (js_get v ''entrypoints'') [''skill'', ''inputSchema'', ''outputSchema'', ''mcp''] ''entrypoints'') (\<lambda>entrypoints.
     and_then (assertKnownKeys (js_get v ''policy'') POLICY_KEYS ''policy'') (\<lambda>policy.
     and_then (assertKnownKeys (js_get policy ''filesystem'') [''read'', ''write''] ''policy.filesystem'') (\<lambda>filesystem.
     and_then (read_policy (js_get host ''requiredCapabilities'') entrypoints policy filesystem) (\<lambda>(required, pol).
     and_then (portablePathList portableFilePath ''assets'' (js_get v ''assets'')) (\<lambda>assets.
       read_manifest v entrypoints required pol assets)))))))))"

section \<open>The manifest as a value\<close>

text \<open>\<open>...(x ? { k: x } : {})\<close>\<close>

definition opt_pair :: "string \<Rightarrow> ('a \<Rightarrow> jsval) \<Rightarrow> 'a option \<Rightarrow> (string \<times> jsval) list" where
  "opt_pair k f x = (case x of None \<Rightarrow> [] | Some y \<Rightarrow> [(k, f y)])"

definition strings_value :: "string list \<Rightarrow> jsval" where
  "strings_value xs = JArr (map JStr xs)"

definition tool_value :: "mcp_tool \<Rightarrow> jsval" where
  "tool_value t = JObj [(''name'', JStr (mt_name t)), (''requestedMode'', JStr (if mt_write t then ''write'' else ''read''))]"

definition skill_value :: "skill_ref \<Rightarrow> jsval" where
  "skill_value s = JObj ([(''name'', JStr (sk_name s)), (''version'', JStr (sk_version s)), (''digest'', JStr (sk_digest s))] @
     opt_pair ''locality'' JStr (sk_locality s))"

definition identity_value :: "package_identity \<Rightarrow> jsval" where
  "identity_value i = JObj (pi_extra i @ [(''displayName'', JStr (pi_display_name i))] @
     opt_pair ''avatar'' (\<lambda>a. JObj [(''asset'', JStr a)]) (pi_avatar i) @ opt_pair ''persona'' JStr (pi_persona i) @
     opt_pair ''roleId'' JStr (pi_role_id i))"

definition entrypoints_value :: "entry_points \<Rightarrow> jsval" where
  "entrypoints_value e = JObj ([(''skill'', JStr (en_skill e)), (''inputSchema'', JStr (en_input_schema e)),
     (''outputSchema'', JStr (en_output_schema e))] @ opt_pair ''mcp'' JStr (en_mcp e))"

definition mode_text :: "package_mode \<Rightarrow> string" where
  "mode_text m = (case m of Package_read_only \<Rightarrow> ''read_only'' | Package_approval_required \<Rightarrow> ''approval_required'')"

definition network_text :: "network_mode \<Rightarrow> string" where
  "network_text n = (case n of Network_deny \<Rightarrow> ''deny'' | Network_host_policy \<Rightarrow> ''host_policy'' | Network_allowlist \<Rightarrow> ''allowlist'')"

definition filesystem_value :: "package_policy \<Rightarrow> jsval" where
  "filesystem_value p = JObj [(''read'', strings_value (pp_read_paths p)), (''write'', strings_value (pp_write_paths p))]"

definition policy_value :: "package_policy \<Rightarrow> jsval" where
  "policy_value p = JObj ([(''mode'', JStr (mode_text (pp_mode_of p))), (''network'', JStr (network_text (pp_network p)))] @
     opt_pair ''hosts'' strings_value (pp_hosts p) @
     [(''filesystem'', filesystem_value p), (''mcpTools'', JArr (map tool_value (pp_mcp_tools p)))])"

definition host_value :: "string list \<Rightarrow> jsval" where
  "host_value caps = JObj [(''protocol'', JStr AGENT_HOST_PROTOCOL_VERSION), (''requiredCapabilities'', strings_value caps)]"

definition manifest_value :: "manifest \<Rightarrow> jsval" where
  "manifest_value m = JObj (opt_pair ''$schema'' JStr (mf_schema m) @
     [(''schemaVersion'', JStr EMPLOYEE_PACKAGE_SCHEMA_VERSION), (''name'', JStr (mf_name m)), (''version'', JStr (mf_version m)),
      (''description'', JStr (mf_description m)), (''license'', JStr (mf_license m)), (''authors'', strings_value (mf_authors m)),
      (''host'', host_value (mf_capabilities m)), (''entrypoints'', entrypoints_value (mf_entrypoints m)),
      (''policy'', policy_value (mf_policy m)), (''assets'', strings_value (mf_assets m))] @
     opt_pair ''identity'' identity_value (mf_identity m) @ opt_pair ''skills'' (\<lambda>xs. JArr (map skill_value xs)) (mf_skills m))"

section \<open>Derived requirements and policy\<close>

definition set_add :: "string list \<Rightarrow> string \<Rightarrow> string list" where
  "set_add xs x = (if x \<in> set xs then xs else xs @ [x])"

definition deriveEmployeeHostRequirements :: "manifest \<Rightarrow> string list" where
  "deriveEmployeeHostRequirements m =
     (let required = set_add (uniq (mf_capabilities m)) ''tool_allowlist'';
          required = (if pp_read_paths (mf_policy m) \<noteq> [] \<or> pp_write_paths (mf_policy m) \<noteq> []
                      then set_add required ''filesystem_scope'' else required);
          required = set_add required ''network_policy'';
          required = (if en_mcp (mf_entrypoints m) \<noteq> None \<or> pp_mcp_tools (mf_policy m) \<noteq> [] then set_add required ''mcp'' else required)
      in if pp_mode_of (mf_policy m) = Package_approval_required then set_add required ''approval_callback'' else required)"

record host_policy =
  ho_allow :: "mcp_tool list"
  ho_read :: "string list"
  ho_write :: "string list"
  ho_network :: network_mode
  ho_hosts :: "string list option"
  ho_approval :: bool

definition deriveEffectiveAgentHostPolicy :: "manifest \<Rightarrow> host_policy" where
  "deriveEffectiveAgentHostPolicy m =
     (let p = mf_policy m
      in \<lparr>ho_allow = (if pp_read_paths p \<noteq> [] then [\<lparr>mt_name = ''filesystem.read'', mt_write = False\<rparr>, \<lparr>mt_name = ''filesystem.search'', mt_write = False\<rparr>] else [])
            @ (if pp_write_paths p \<noteq> [] then [\<lparr>mt_name = ''filesystem.write'', mt_write = True\<rparr>] else []) @ pp_mcp_tools p,
          ho_read = pp_read_paths p, ho_write = pp_write_paths p, ho_network = pp_network p, ho_hosts = pp_hosts p,
          ho_approval = (pp_mode_of p = Package_approval_required)\<rparr>)"

end
