(* ===== verification/PackageLaws.thy ===== *)
theory PackageLaws
  imports EmployeePackage
begin

text \<open>
  What the manifests that packages/core/src/employee-package.ts accepts hold, and what follows for the host that runs them.
\<close>

section \<open>Reading twice\<close>

text \<open>Trimming what a pattern accepts leaves something the pattern accepts.\<close>

lemma no_space_trim: "list_all (\<lambda>c. \<not> js_space c) s \<Longrightarrow> js_trim s = s"
proof -
  have d: "dropWhile js_space t = t" if "list_all (\<lambda>c. \<not> js_space c) t" for t
    using that by (cases t) auto
  assume a: "list_all (\<lambda>c. \<not> js_space c) s"
  then have "list_all (\<lambda>c. \<not> js_space c) (rev s)" by (simp add: list_all_iff)
  then show ?thesis using a by (simp add: js_trim_def d)
qed

lemma trim_prefix:
  assumes "dropWhile js_space s = s"
  shows "\<exists>t. s = js_trim s @ t \<and> list_all js_space t"
proof -
  let ?t = "rev (takeWhile js_space (rev s))"
  have "rev s = takeWhile js_space (rev s) @ dropWhile js_space (rev s)" by simp
  then have "s = js_trim s @ ?t" using assms unfolding js_trim_def by (metis rev_append rev_rev_ident)
  moreover have "list_all js_space ?t" by (auto simp: list_all_iff dest: set_takeWhileD)
  ultimately show ?thesis by blast
qed

lemma set_trim: "set (js_trim s) \<subseteq> set s"
  by (auto simp: js_trim_def dest!: set_dropWhileD)

lemma length_trim: "length (js_trim s) \<le> length s"
  unfolding js_trim_def
  by (metis length_dropWhile_le length_rev order_trans)

lemma blank_trim [simp]: "blank (js_trim s) = blank s"
  by (simp add: blank_def)

definition survives_trim :: "(string \<Rightarrow> bool) \<Rightarrow> bool" where
  "survives_trim pattern \<longleftrightarrow> (\<forall>s. pattern s \<longrightarrow> \<not> blank s \<longrightarrow> pattern (js_trim s))"

lemma survives_solid: "(\<And>s. pattern s \<Longrightarrow> list_all (\<lambda>c. \<not> js_space c) s) \<Longrightarrow> survives_trim pattern"
  by (simp add: survives_trim_def no_space_trim)

lemma solid_chars:
  "is_lower c \<Longrightarrow> \<not> js_space c" "is_upper c \<Longrightarrow> \<not> js_space c" "is_digit c \<Longrightarrow> \<not> js_space c" "ascii_alnum c \<Longrightarrow> \<not> js_space c"
  "is_hex c \<Longrightarrow> \<not> js_space c"
  by (auto simp: is_lower_def is_upper_def is_digit_def is_hex_def ascii_alnum_def js_space_def)

lemma solid_signs:
  "\<not> js_space (CHR ''.'')" "\<not> js_space (CHR ''-'')" "\<not> js_space (CHR ''_'')" "\<not> js_space (CHR ''+'')"
  "\<not> js_space (CHR ''*'')" "\<not> js_space (CHR ''/'')"
  by code_simp+

lemmas solid = solid_chars solid_signs

lemma solid_append: "list_all P s \<Longrightarrow> list_all P t \<Longrightarrow> list_all P (s @ t)"
  by simp

lemma split_on_all: "list_all (\<lambda>seg. list_all P seg) (split_on d s) \<Longrightarrow> P d \<Longrightarrow> list_all P s"
  by (induction s) (auto split: list.splits if_splits)

lemma solid_name: "name_pattern s \<Longrightarrow> list_all (\<lambda>c. \<not> js_space c) s"
  unfolding name_pattern_def
  by (rule split_on_all [where d = "CHR ''-''"])
    (auto simp: solid_signs elim!: list.pred_mono_strong dest: solid_chars)

lemma solid_bounded:
  "bounded_name first rest n s \<Longrightarrow> (\<And>c. first c \<Longrightarrow> \<not> js_space c) \<Longrightarrow> (\<And>c. rest c \<Longrightarrow> \<not> js_space c) \<Longrightarrow>
   list_all (\<lambda>c. \<not> js_space c) s"
  by (auto simp: bounded_name_def list_all_iff split: list.splits)

text \<open>The characters of a version.\<close>

definition version_char :: "char \<Rightarrow> bool" where
  "version_char c = (ascii_alnum c \<or> c = CHR ''.'' \<or> c = CHR ''-'' \<or> c = CHR ''+'')"

lemma version_chars [simp]: "version_char (CHR ''.'')" "version_char (CHR ''-'')" "version_char (CHR ''+'')"
  by (simp_all add: version_char_def)

lemma version_class: "is_digit c \<Longrightarrow> version_char c" "semver_char c \<Longrightarrow> version_char c"
  by (auto simp: version_char_def semver_char_def ascii_alnum_def)

lemma version_run: "list_all version_char (takeWhile is_digit s)" "list_all version_char (takeWhile semver_char s)"
  "list_all semver_char s \<Longrightarrow> list_all version_char s"
  by (auto simp: list_all_iff version_class dest!: set_takeWhileD)

lemma version_number:
  assumes "number_then rest s" "\<And>r. rest r \<Longrightarrow> list_all version_char r"
  shows "list_all version_char s"
proof -
  have "list_all version_char (dropWhile is_digit s)" using assms by (simp add: number_then_def)
  from solid_append [OF version_run(1) [of s] this] show ?thesis unfolding takeWhile_dropWhile_id .
qed

lemma version_dot:
  assumes "dot_then rest s" "\<And>r. rest r \<Longrightarrow> list_all version_char r"
  shows "list_all version_char s"
  using assms by (cases s) (auto simp: dot_then_def)

lemma version_build: "semver_build s \<Longrightarrow> list_all version_char s"
  by (cases s) (auto simp: semver_build_def version_run)

lemma version_tail: "semver_tail s \<Longrightarrow> list_all version_char s"
proof (cases s)
  case (Cons c r)
  assume a: "semver_tail s"
  show ?thesis
  proof (cases "c = CHR ''-''")
    case True
    have "list_all version_char (dropWhile semver_char r)"
      using a True Cons by (intro version_build) (simp add: semver_tail_def)
    from solid_append [OF version_run(2) [of r] this] have "list_all version_char r" unfolding takeWhile_dropWhile_id .
    then show ?thesis using True Cons by simp
  next
    case False
    then show ?thesis using a Cons by (intro version_build) (simp add: semver_tail_def)
  qed
qed simp

lemma semver_version: "SEMVER_PATTERN s \<Longrightarrow> list_all version_char s"
  unfolding SEMVER_PATTERN_def
  by (erule version_number, erule version_dot, erule version_number, erule version_dot, erule version_number, erule version_tail)

lemma solid_semver: "SEMVER_PATTERN s \<Longrightarrow> list_all (\<lambda>c. \<not> js_space c) s"
  using semver_version by (fastforce simp: list_all_iff version_char_def solid)

lemma solid_label: "host_label s \<Longrightarrow> list_all (\<lambda>c. \<not> js_space c) s"
  by (auto simp: host_label_def list_all_iff solid)

lemma solid_host: "NETWORK_HOST_PATTERN s \<Longrightarrow> list_all (\<lambda>c. \<not> js_space c) s"
proof -
  assume a: "NETWORK_HOST_PATTERN s"
  let ?t = "if starts_with s ''*.'' then drop 2 s else s"
  have "list_all (\<lambda>seg. list_all (\<lambda>c. \<not> js_space c) seg) (split_on (CHR ''.'') ?t)"
    using a solid_label unfolding NETWORK_HOST_PATTERN_def list_all_iff [where xs = "split_on _ _"] by blast
  from split_on_all [OF this] have t: "list_all (\<lambda>c. \<not> js_space c) ?t" by (simp add: solid)
  show ?thesis
  proof (cases "starts_with s ''*.''")
    case True
    then obtain u where "s = ''*.'' @ u" by (auto simp: starts_with_append)
    then show ?thesis using t True by (simp add: solid)
  qed (use t in simp)
qed

lemma solid_sha: "digest_pattern s \<Longrightarrow> list_all (\<lambda>c. \<not> js_space c) s"
proof -
  assume a: "digest_pattern s"
  then obtain u where u: "s = ''sha256:'' @ u" by (auto simp: digest_pattern_def starts_with_append)
  then have "list_all is_hex u" using a by (simp add: digest_pattern_def)
  then have "list_all (\<lambda>c. \<not> js_space c) u" by (auto simp: list_all_iff solid)
  moreover have "list_all (\<lambda>c. \<not> js_space c) ''sha256:''" by code_simp
  ultimately show ?thesis unfolding u by (rule solid_append [rotated])
qed

lemma survivors:
  "survives_trim any_text" "survives_trim IDENTIFIER_PATTERN" "survives_trim SKILL_NAME_PATTERN" "survives_trim SEMVER_PATTERN"
  "survives_trim LICENSE_PATTERN" "survives_trim IDENTITY_ROLE_ID_PATTERN" "survives_trim NETWORK_HOST_PATTERN"
  "survives_trim digest_pattern"
proof -
  show "survives_trim any_text" by (simp add: survives_trim_def)
  show "survives_trim IDENTIFIER_PATTERN" unfolding IDENTIFIER_PATTERN_def CONNECTOR_ID_PATTERN_def
    by (rule survives_solid) (erule solid_bounded; auto simp: solid)
  show "survives_trim SKILL_NAME_PATTERN" unfolding SKILL_NAME_PATTERN_def by (rule survives_solid) (rule solid_name)
  show "survives_trim SEMVER_PATTERN" by (rule survives_solid) (rule solid_semver)
  show "survives_trim LICENSE_PATTERN" by (rule survives_solid) (auto simp: LICENSE_PATTERN_def list_all_iff solid)
  show "survives_trim IDENTITY_ROLE_ID_PATTERN" unfolding IDENTITY_ROLE_ID_PATTERN_def
    by (rule survives_solid) (erule solid_bounded; auto simp: solid)
  show "survives_trim NETWORK_HOST_PATTERN" by (rule survives_solid) (rule solid_host)
  show "survives_trim digest_pattern" by (rule survives_solid) (rule solid_sha)
qed

lemma author_survives: "survives_trim AUTHOR_PATTERN"
  unfolding survives_trim_def AUTHOR_PATTERN_def
proof (intro allI impI conjI)
  fix s assume a: "1 \<le> length s \<and> length s \<le> 256 \<and> list_all printable s" "\<not> blank s"
  show "1 \<le> length (js_trim s)" using a(2) by (cases "js_trim s") (auto simp: blank_def)
  show "length (js_trim s) \<le> 256" using a(1) length_trim [of s] by linarith
  show "list_all printable (js_trim s)" using a(1) set_trim [of s] by (auto simp: list_all_iff)
qed

lemma take_append_two: "take 2 (''./'' @ u) = ''./''"
  by simp

lemma portable_survives:
  assumes "PORTABLE_PATH_PATTERN s" "list_all segment_ok (split_on (CHR ''/'') (drop 2 (js_trim s)))"
  shows "PORTABLE_PATH_PATTERN (js_trim s)"
proof -
  obtain u where u: "s = ''./'' @ u" using assms(1) by (auto simp: PORTABLE_PATH_PATTERN_def starts_with_append)
  have p: "list_all (\<lambda>c. printable c \<and> c \<noteq> CHR 0x5C) u" using assms(1) u by (simp add: PORTABLE_PATH_PATTERN_def)
  have "dropWhile js_space s = s" using u by (simp add: solid_signs)
  from trim_prefix [OF this] obtain t where t: "s = js_trim s @ t" "list_all js_space t" by blast
  have n: "drop 2 (js_trim s) \<noteq> []"
    using assms(2) by (cases "drop 2 (js_trim s)") (auto simp: segment_ok_def)
  let ?v = "drop 2 (js_trim s)"
  have "take 2 (js_trim s) = take 2 s" unfolding t(1) [THEN arg_cong [where f = "take 2"]] using n by simp
  then have v: "js_trim s = ''./'' @ ?v" using u by (metis append_take_drop_id take_append_two)
  have "''./'' @ u = ''./'' @ (?v @ t)" using t(1) v u by (metis append_assoc)
  then have "u = ?v @ t" by simp
  then have "set ?v \<subseteq> set u" by (metis set_append Un_upper1)
  then have "list_all (\<lambda>c. printable c \<and> c \<noteq> CHR 0x5C) ?v" using p by (auto simp: list_all_iff)
  moreover have "starts_with (js_trim s) ''./''" using v starts_with_append by blast
  ultimately show ?thesis using n by (simp add: PORTABLE_PATH_PATTERN_def)
qed

definition rereads :: "(string \<Rightarrow> jsval \<Rightarrow> package_error + string) \<Rightarrow> bool" where
  "rereads f \<longleftrightarrow> (\<forall>l l' v r. f l v = Inr r \<longrightarrow> f l' (JStr r) = Inr r)"

lemma require_Inr:
  "require_field pattern most l v = Inr r \<longleftrightarrow>
   (\<exists>s. v = JStr s \<and> \<not> blank s \<and> length s \<le> most \<and> pattern s \<and> r = js_trim s)"
  by (auto simp: require_field_def accepts split: jsval.splits)

lemma require_rereads: "survives_trim pattern \<Longrightarrow> rereads (require_field pattern most)"
  using length_trim order_trans by (fastforce simp: rereads_def require_Inr survives_trim_def)

lemma portable_Inr:
  "portablePath l v = Inr r \<longleftrightarrow> require_field PORTABLE_PATH_PATTERN 1024 l v = Inr r \<and>
     list_all segment_ok (split_on (CHR ''/'') (drop 2 r))"
  by (auto simp: portablePath_def accepts)

lemma portable_sound:
  "portablePath l v = Inr r \<Longrightarrow> PORTABLE_PATH_PATTERN r \<and> list_all segment_ok (split_on (CHR ''/'') (drop 2 r))"
  using portable_survives by (auto simp: portable_Inr require_Inr)

lemma portable_rereads: "rereads portablePath"
  unfolding rereads_def
proof (intro allI impI)
  fix l l' v r assume a: "portablePath l v = Inr r"
  then obtain s where s: "v = JStr s" "\<not> blank s" "length s \<le> 1024" "r = js_trim s" by (auto simp: portable_Inr require_Inr)
  show "portablePath l' (JStr r) = Inr r"
    using a s length_trim [of s] portable_sound [OF a] by (auto simp: portable_Inr require_Inr)
qed

lemma file_Inr: "portableFilePath l v = Inr r \<longleftrightarrow> portablePath l v = Inr r \<and> list_all (\<lambda>c. \<not> glob_char c) r"
  by (auto simp: portableFilePath_def accepts)

lemma file_rereads: "rereads portableFilePath"
  using portable_rereads unfolding rereads_def file_Inr by blast

lemma read_each_rereads:
  "rereads f \<Longrightarrow> read_each f l n vs = Inr rs \<Longrightarrow> read_each f l' n' (map JStr rs) = Inr rs"
  by (induction f l n vs arbitrary: n' rs rule: read_each.induct) (auto simp: accepts rereads_def)

lemma unique_Inr:
  "unique_list f l v = Inr rs \<longleftrightarrow> (\<exists>vs. v = JArr vs \<and> read_each f l 0 vs = Inr rs \<and> distinct rs)"
  by (auto simp: unique_list_def accepts split: jsval.splits)

lemma unique_rereads: "rereads f \<Longrightarrow> unique_list f l v = Inr rs \<Longrightarrow> unique_list f l' (JArr (map JStr rs)) = Inr rs"
  using read_each_rereads unfolding unique_Inr by blast

lemma read_each_all:
  "read_each f l n vs = Inr rs \<Longrightarrow> (\<And>l v r. f l v = Inr r \<Longrightarrow> P r) \<Longrightarrow> list_all P rs"
  by (induction f l n vs arbitrary: rs rule: read_each.induct) (auto simp: accepts)

lemma unique_all: "unique_list f l v = Inr rs \<Longrightarrow> (\<And>l v r. f l v = Inr r \<Longrightarrow> P r) \<Longrightarrow> list_all P rs \<and> distinct rs"
  using read_each_all unfolding unique_Inr by blast

lemma strings_Inr: "uniqueStringList pattern most l v = Inr rs \<Longrightarrow> survives_trim pattern \<Longrightarrow>
    uniqueStringList pattern most l' (JArr (map JStr rs)) = Inr rs"
  unfolding uniqueStringList_def using require_rereads unique_rereads by blast

lemma paths_reread:
  "portablePathList portablePath l v = Inr rs \<Longrightarrow> portablePathList portablePath l' (JArr (map JStr rs)) = Inr rs"
  "portablePathList portableFilePath l v = Inr rs \<Longrightarrow> portablePathList portableFilePath l' (JArr (map JStr rs)) = Inr rs"
  unfolding portablePathList_def using portable_rereads file_rereads unique_rereads by blast+

lemma capabilities_Inr:
  "validateRequiredCapabilities v = Inr caps \<longleftrightarrow> uniqueStringList IDENTIFIER_PATTERN 128 ''host.requiredCapabilities'' v = Inr caps \<and>
     set caps \<subseteq> set AGENT_HOST_CAPABILITIES"
proof -
  have "set caps \<subseteq> set AGENT_HOST_CAPABILITIES \<longleftrightarrow> List.find (\<lambda>c. c \<notin> set AGENT_HOST_CAPABILITIES) caps = None" for caps
    by (auto simp: find_None_iff)
  then show ?thesis by (auto simp: validateRequiredCapabilities_def accepts split: option.splits)
qed

lemma capabilities_reread: "validateRequiredCapabilities v = Inr caps \<Longrightarrow> validateRequiredCapabilities (JArr (map JStr caps)) = Inr caps"
  using strings_Inr survivors(2) unfolding capabilities_Inr by blast

section \<open>Members of the values\<close>

lemma map_of_opt: "map_of (opt_pair k f x @ kvs) j = (if j = k \<and> x \<noteq> None then map_option f x else map_of kvs j)"
  by (cases x) (auto simp: opt_pair_def)

lemma map_of_opt_end: "map_of (opt_pair k f x) j = (if j = k then map_option f x else None)"
  by (cases x) (auto simp: opt_pair_def)

lemmas member = js_get.simps map_of_opt map_of_opt_end map_of_append map_add_def

lemma assert_known: "list_all (\<lambda>k. k \<in> set allowed) (js_keys v) \<Longrightarrow> is_plain_object v \<Longrightarrow> assertKnownKeys v allowed l = Inr v"
  by (auto simp: assertKnownKeys_def list_all_iff find_Some_iff split: option.splits)

lemma known_object: "assertKnownKeys v allowed l = Inr w \<Longrightarrow> w = v \<and> is_plain_object v"
  by (auto simp: assertKnownKeys_def accepts split: option.splits)

lemma keys_opt: "map fst (opt_pair k f x) = (if x = None then [] else [k])"
  by (auto simp: opt_pair_def split: option.splits)

section \<open>Tools and skills\<close>

lemma tool_reread:
  "read_mcp_tools n names vs = Inr ts \<Longrightarrow> read_mcp_tools n' names (map tool_value ts) = Inr ts"
proof (induction n names vs arbitrary: n' ts rule: read_mcp_tools.induct)
  case (2 n names v vs)
  let ?l = "''policy.mcpTools['' @ dec n @ '']''"
  from "2.prems" obtain entry name ts' where b: "require_field IDENTIFIER_PATTERN 128 (?l @ ''.name'') (js_get entry ''name'') = Inr name"
    "name \<notin> set names" "read_mcp_tools (n + 1) (names @ [name]) vs = Inr ts'"
    "ts = \<lparr>mt_name = name, mt_write = (js_get entry ''requestedMode'' = JStr ''write'')\<rparr> # ts'"
    "assertKnownKeys v [''name'', ''requestedMode''] ?l = Inr entry"
    "js_get entry ''requestedMode'' = JStr ''read'' \<or> js_get entry ''requestedMode'' = JStr ''write''"
    unfolding read_mcp_tools.simps Let_def accepts by blast
  have i: "read_mcp_tools k (names @ [name]) (map tool_value ts') = Inr ts'" for k
    using "2.IH" [OF refl b(5) b(1) b(2) b(6) b(3)] .
  have r: "require_field IDENTIFIER_PATTERN 128 l (JStr name) = Inr name" for l
    using b(1) require_rereads [OF survivors(2)] unfolding rereads_def by blast
  have k: "assertKnownKeys (tool_value t) [''name'', ''requestedMode''] l = Inr (tool_value t)" for t l
    by (rule assert_known) (simp_all add: tool_value_def)
  have g: "js_get (tool_value t) ''name'' = JStr (mt_name t)"
    "js_get (tool_value t) ''requestedMode'' = JStr (if mt_write t then ''write'' else ''read'')" for t
    by (simp_all add: tool_value_def)
  show ?case using i r b(2) unfolding b(4) by (simp add: k g Let_def del: js_get.simps)
qed simp

lemma tools_reread: "validateMcpTools v = Inr ts \<Longrightarrow> validateMcpTools (JArr (map tool_value ts)) = Inr ts"
  using tool_reread by (auto simp: validateMcpTools_def split: jsval.splits)

lemma locality_reread:
  "read_locality l v = Inr x \<Longrightarrow> read_locality l' (case x of None \<Rightarrow> JUndef | Some s \<Rightarrow> JStr s) = Inr x"
  by (auto simp: read_locality_def split: if_splits)

lemma skill_members:
  "js_get (skill_value s) ''name'' = JStr (sk_name s)" "js_get (skill_value s) ''version'' = JStr (sk_version s)"
  "js_get (skill_value s) ''digest'' = JStr (sk_digest s)"
  "js_get (skill_value s) ''locality'' = (case sk_locality s of None \<Rightarrow> JUndef | Some x \<Rightarrow> JStr x)"
  "assertKnownKeys (skill_value s) [''name'', ''version'', ''digest'', ''locality''] l = Inr (skill_value s)"
  by (simp_all add: skill_value_def member assert_known keys_opt split: option.splits)

lemma skill_reread:
  "read_skill_units n names vs = Inr ss \<Longrightarrow> read_skill_units n' names (map skill_value ss) = Inr ss"
proof (induction n names vs arbitrary: n' ss rule: read_skill_units.induct)
  case (2 n names v vs)
  let ?l = "''skills['' @ dec n @ '']''"
  from "2.prems" obtain entry name version digest locality ss' where
    b: "assertKnownKeys v [''name'', ''version'', ''digest'', ''locality''] ?l = Inr entry"
    "require_field SKILL_NAME_PATTERN 64 (?l @ ''.name'') (js_get entry ''name'') = Inr name" "name \<notin> set names"
    "require_field SEMVER_PATTERN 128 (?l @ ''.version'') (js_get entry ''version'') = Inr version"
    "require_field digest_pattern 71 (?l @ ''.digest'') (js_get entry ''digest'') = Inr digest"
    "read_locality ?l (js_get entry ''locality'') = Inr locality" "read_skill_units (n + 1) (names @ [name]) vs = Inr ss'"
    "ss = \<lparr>sk_name = name, sk_version = version, sk_digest = digest, sk_locality = locality\<rparr> # ss'"
    unfolding read_skill_units.simps Let_def accepts by blast
  have i: "read_skill_units k (names @ [name]) (map skill_value ss') = Inr ss'" for k
    using "2.IH" [OF refl b(1) b(2) b(3) b(4) b(5) b(6) b(7)] .
  have r: "require_field SKILL_NAME_PATTERN 64 l (JStr name) = Inr name"
    "require_field SEMVER_PATTERN 128 l (JStr version) = Inr version" "require_field digest_pattern 71 l (JStr digest) = Inr digest" for l
    using b(2,4,5) require_rereads [OF survivors(3)] require_rereads [OF survivors(4)] require_rereads [OF survivors(8)]
    unfolding rereads_def by blast+
  show ?case using i r b(3) locality_reread [OF b(6)] unfolding b(8)
    by (simp add: skill_members Let_def del: js_get.simps)
qed simp

lemma skills_reread: "validateSkillUnits v = Inr ss \<Longrightarrow> validateSkillUnits (JArr (map skill_value ss)) = Inr ss"
proof -
  have n: "length ss = length vs" if "read_skill_units k names vs = Inr ss" for k names vs
    using that by (induction k names vs arbitrary: ss rule: read_skill_units.induct) (auto simp: accepts Let_def)
  assume "validateSkillUnits v = Inr ss"
  then show ?thesis using skill_reread n by (auto simp: validateSkillUnits_def accepts split: jsval.splits)
qed

section \<open>The parts of a manifest\<close>

text \<open>The value of an optional member is what the object holds for it.\<close>

definition opt_js :: "('a \<Rightarrow> jsval) \<Rightarrow> 'a option \<Rightarrow> jsval" where
  "opt_js f x = (case x of None \<Rightarrow> JUndef | Some y \<Rightarrow> f y)"

lemma optional_reread:
  assumes "optional_field r v = Inr x" "\<And>y. r v = Inr y \<Longrightarrow> r' (f y) = Inr y \<and> f y \<noteq> JUndef"
  shows "optional_field r' (opt_js f x) = Inr x"
  using assms by (auto simp: optional_field_def opt_js_def accepts split: if_splits)

lemma truthy_reread:
  assumes "truthy_field r v = Inr x" "\<And>y. r v = Inr y \<Longrightarrow> r' (f y) = Inr y \<and> js_truthy (f y)"
  shows "truthy_field r' (opt_js f x) = Inr x"
  using assms by (auto simp: truthy_field_def opt_js_def js_truthy_def accepts split: if_splits)

lemma require_again: "require_field pattern n l v = Inr x \<Longrightarrow> survives_trim pattern \<Longrightarrow> require_field pattern n l' (JStr x) = Inr x"
  using require_rereads unfolding rereads_def by blast

lemma file_again: "portableFilePath l v = Inr x \<Longrightarrow> portableFilePath l' (JStr x) = Inr x"
  using file_rereads unfolding rereads_def by blast

lemma required_truthy: "require_field pattern n l v = Inr x \<Longrightarrow> js_truthy (JStr x)"
  by (auto simp: require_Inr js_truthy_def blank_def)

lemma file_truthy: "portableFilePath l v = Inr x \<Longrightarrow> js_truthy (JStr x)"
  using required_truthy by (auto simp: file_Inr portable_Inr)

lemma entry_members:
  "js_get (entrypoints_value e) ''skill'' = JStr (en_skill e)" "js_get (entrypoints_value e) ''inputSchema'' = JStr (en_input_schema e)"
  "js_get (entrypoints_value e) ''outputSchema'' = JStr (en_output_schema e)"
  "js_get (entrypoints_value e) ''mcp'' = opt_js JStr (en_mcp e)"
  "assertKnownKeys (entrypoints_value e) [''skill'', ''inputSchema'', ''outputSchema'', ''mcp''] l = Inr (entrypoints_value e)"
  by (simp_all add: entrypoints_value_def member assert_known keys_opt opt_js_def split: option.splits)

lemma entrypoints_reread: "read_entrypoints v = Inr e \<Longrightarrow> read_entrypoints (entrypoints_value e) = Inr e"
proof -
  assume "read_entrypoints v = Inr e"
  then obtain a b c d where x: "portableFilePath ''entrypoints.skill'' (js_get v ''skill'') = Inr a"
    "portableFilePath ''entrypoints.inputSchema'' (js_get v ''inputSchema'') = Inr b"
    "portableFilePath ''entrypoints.outputSchema'' (js_get v ''outputSchema'') = Inr c"
    "truthy_field (portableFilePath ''entrypoints.mcp'') (js_get v ''mcp'') = Inr d"
    "e = \<lparr>en_skill = a, en_input_schema = b, en_output_schema = c, en_mcp = d\<rparr>"
    unfolding read_entrypoints_def accepts by blast
  have "truthy_field (portableFilePath ''entrypoints.mcp'') (opt_js JStr d) = Inr d"
    by (rule truthy_reread [OF x(4)]) (simp add: file_again file_truthy)
  then show ?thesis using x file_again [OF x(1)] file_again [OF x(2)] file_again [OF x(3)]
    by (simp add: read_entrypoints_def entry_members del: js_get.simps)
qed

lemma avatar_reread: "read_avatar assets v = Inr a \<Longrightarrow> read_avatar assets (JObj [(''asset'', JStr a)]) = Inr a"
proof -
  assume "read_avatar assets v = Inr a"
  then obtain w where "portableFilePath ''identity.avatar.asset'' (js_get w ''asset'') = Inr a" "a \<in> set assets"
    by (auto simp: read_avatar_def accepts)
  then show ?thesis using file_again by (simp add: read_avatar_def assert_known)
qed

definition extra_ok :: "(string \<times> jsval) list \<Rightarrow> bool" where
  "extra_ok kvs \<longleftrightarrow> list_all (\<lambda>p. fst p \<notin> set IDENTITY_KNOWN_FIELDS \<and> fst p \<noteq> ''reportTo'' \<and> fst p \<noteq> ''__proto__'') kvs"

lemma extra_none: "extra_ok kvs \<Longrightarrow> k \<in> set IDENTITY_KNOWN_FIELDS \<Longrightarrow> map_of kvs k = None"
  by (force simp: extra_ok_def list_all_iff map_of_eq_None_iff)

lemma identity_members:
  assumes "extra_ok (pi_extra i)"
  shows "js_get (identity_value i) ''displayName'' = JStr (pi_display_name i)"
    "js_get (identity_value i) ''avatar'' = opt_js (\<lambda>a. JObj [(''asset'', JStr a)]) (pi_avatar i)"
    "js_get (identity_value i) ''persona'' = opt_js JStr (pi_persona i)"
    "js_get (identity_value i) ''roleId'' = opt_js JStr (pi_role_id i)"
proof -
  have n: "map_of (pi_extra i) ''displayName'' = None" "map_of (pi_extra i) ''avatar'' = None"
    "map_of (pi_extra i) ''persona'' = None" "map_of (pi_extra i) ''roleId'' = None"
    by (rule extra_none [OF assms]; simp add: IDENTITY_KNOWN_FIELDS_def)+
  show "js_get (identity_value i) ''displayName'' = JStr (pi_display_name i)"
    "js_get (identity_value i) ''avatar'' = opt_js (\<lambda>a. JObj [(''asset'', JStr a)]) (pi_avatar i)"
    "js_get (identity_value i) ''persona'' = opt_js JStr (pi_persona i)"
    "js_get (identity_value i) ''roleId'' = opt_js JStr (pi_role_id i)"
    by (simp_all add: identity_value_def member n opt_js_def split: option.splits)
qed

lemma identity_extra:
  assumes "extra_ok (pi_extra i)"
  shows "filter (\<lambda>p. fst p \<notin> set IDENTITY_KNOWN_FIELDS) (object_entries (identity_value i)) = pi_extra i"
    "filter (\<lambda>p. fst p \<noteq> ''__proto__'') (pi_extra i) = pi_extra i"
    "\<not> js_has (identity_value i) ''reportTo''"
proof -
  have "filter (\<lambda>p. fst p \<notin> set IDENTITY_KNOWN_FIELDS) (pi_extra i) = pi_extra i"
    using assms by (simp add: extra_ok_def list_all_iff)
  then show "filter (\<lambda>p. fst p \<notin> set IDENTITY_KNOWN_FIELDS) (object_entries (identity_value i)) = pi_extra i"
    by (simp add: identity_value_def object_entries_def opt_pair_def IDENTITY_KNOWN_FIELDS_def split: option.splits)
  show "filter (\<lambda>p. fst p \<noteq> ''__proto__'') (pi_extra i) = pi_extra i"
    using assms by (simp add: extra_ok_def list_all_iff)
  have "''reportTo'' \<notin> fst ` set (pi_extra i)" using assms by (force simp: extra_ok_def list_all_iff)
  then show "\<not> js_has (identity_value i) ''reportTo''"
    by (simp add: js_has_def identity_value_def keys_opt)
qed

lemma identity_reread:
  assumes "validateIdentity assets v = Inr (i, w)"
  shows "\<exists>w'. validateIdentity assets (identity_value i) = Inr (i, w')"
proof -
  let ?x = "filter (\<lambda>p. fst p \<notin> set IDENTITY_KNOWN_FIELDS) (object_entries v)"
  from assms obtain a b c d where x: "\<not> js_has v ''reportTo''"
    "require_field any_text 64 ''identity.displayName'' (js_get v ''displayName'') = Inr a"
    "optional_field (read_avatar assets) (js_get v ''avatar'') = Inr b"
    "optional_field (require_field any_text 2048 ''identity.persona'') (js_get v ''persona'') = Inr c"
    "optional_field (require_field IDENTITY_ROLE_ID_PATTERN 64 ''identity.roleId'') (js_get v ''roleId'') = Inr d"
    "i = \<lparr>pi_display_name = a, pi_avatar = b, pi_persona = c, pi_role_id = d, pi_extra = filter (\<lambda>p. fst p \<noteq> ''__proto__'') ?x\<rparr>"
    unfolding validateIdentity_def Let_def accepts by blast
  have e: "extra_ok (pi_extra i)" using x(1) unfolding x(6)
    by (force simp: extra_ok_def list_all_iff js_has_def object_entries_def split: jsval.splits)
  have r: "optional_field (read_avatar assets) (opt_js (\<lambda>a. JObj [(''asset'', JStr a)]) b) = Inr b"
    "optional_field (require_field any_text 2048 ''identity.persona'') (opt_js JStr c) = Inr c"
    "optional_field (require_field IDENTITY_ROLE_ID_PATTERN 64 ''identity.roleId'') (opt_js JStr d) = Inr d"
    by (rule optional_reread [OF x(3)], simp add: avatar_reread)
      (rule optional_reread [OF x(4)], simp add: require_again survivors,
       rule optional_reread [OF x(5)], simp add: require_again survivors)
  have p: "is_plain_object (identity_value i)" by (simp add: identity_value_def)
  show ?thesis
    using r require_again [OF x(2) survivors(1)] x(6) identity_extra [OF e] p
    unfolding validateIdentity_def Let_def identity_members [OF e] by (simp del: js_get.simps)
qed

section \<open>The policy\<close>

lemma policy_members:
  "js_get (policy_value p) ''mode'' = JStr (mode_text (pp_mode_of p))"
  "js_get (policy_value p) ''network'' = JStr (network_text (pp_network p))"
  "js_get (policy_value p) ''hosts'' = opt_js strings_value (pp_hosts p)"
  "js_get (policy_value p) ''filesystem'' = filesystem_value p"
  "js_get (policy_value p) ''mcpTools'' = JArr (map tool_value (pp_mcp_tools p))"
  "js_get (filesystem_value p) ''read'' = strings_value (pp_read_paths p)"
  "js_get (filesystem_value p) ''write'' = strings_value (pp_write_paths p)"
  "assertKnownKeys (policy_value p) POLICY_KEYS l = Inr (policy_value p)"
  "assertKnownKeys (filesystem_value p) [''read'', ''write''] l = Inr (filesystem_value p)"
  by (simp_all add: policy_value_def filesystem_value_def POLICY_KEYS_def member assert_known keys_opt opt_js_def
      split: option.splits)

lemma mode_reread: "package_mode_of (JStr (mode_text m)) = Inr m"
  by (cases m) (simp_all add: package_mode_of_def mode_text_def)

lemma network_reread: "network_mode_of (JStr (network_text n)) = Inr n"
  by (cases n) (simp_all add: network_mode_of_def network_text_def)

text \<open>What the checks of the policy leave.\<close>

definition portable_ok :: "string \<Rightarrow> bool" where
  "portable_ok p = (PORTABLE_PATH_PATTERN p \<and> list_all segment_ok (split_on (CHR ''/'') (drop 2 p)))"

text \<open>A path of one file: portable, and without the characters of glob patterns.\<close>

definition file_ok :: "string \<Rightarrow> bool" where
  "file_ok p = (portable_ok p \<and> list_all (\<lambda>c. \<not> glob_char c) p)"

definition policy_sound :: "bool \<Rightarrow> package_policy \<Rightarrow> bool" where
  "policy_sound mcp p \<longleftrightarrow>
     (pp_mode_of p = Package_read_only \<longrightarrow> pp_write_paths p = [] \<and> \<not> list_ex mt_write (pp_mcp_tools p)) \<and>
     (pp_mcp_tools p \<noteq> [] \<longrightarrow> mcp) \<and> (pp_hosts p \<noteq> None \<longrightarrow> pp_network p = Network_allowlist) \<and>
     list_all portable_ok (pp_read_paths p) \<and> list_all portable_ok (pp_write_paths p) \<and>
     distinct (map mt_name (pp_mcp_tools p))"

lemma policy_Inr:
  assumes "read_policy caps points policy filesystem = Inr (required, p)"
  obtains raw where "network_mode_of raw = Inr (pp_network p)" "package_mode_of (js_get policy ''mode'') = Inr (pp_mode_of p)"
    "js_get policy ''hosts'' \<noteq> JUndef \<longrightarrow> pp_network p = Network_allowlist"
    "validateRequiredCapabilities caps = Inr required"
    "portablePathList portablePath ''policy.filesystem.read'' (js_get filesystem ''read'') = Inr (pp_read_paths p)"
    "portablePathList portablePath ''policy.filesystem.write'' (js_get filesystem ''write'') = Inr (pp_write_paths p)"
    "validateMcpTools (js_get policy ''mcpTools'') = Inr (pp_mcp_tools p)"
    "optional_field validateNetworkHosts (js_get policy ''hosts'') = Inr (pp_hosts p)"
    "\<not> (pp_mode_of p = Package_read_only \<and> pp_write_paths p \<noteq> [])"
    "\<not> (pp_mode_of p = Package_read_only \<and> list_ex mt_write (pp_mcp_tools p))"
    "\<not> (pp_mcp_tools p \<noteq> [] \<and> \<not> js_truthy (js_get points ''mcp''))"
  using assms unfolding read_policy_def accepts by (auto simp del: js_get.simps)

lemma tools_Cons:
  "read_mcp_tools n names (v # vs) = Inr ts \<Longrightarrow>
   \<exists>t ts'. mt_name t \<notin> set names \<and> read_mcp_tools (n + 1) (names @ [mt_name t]) vs = Inr ts' \<and> ts = t # ts'"
  unfolding read_mcp_tools.simps Let_def accepts by force

lemma tools_distinct:
  "read_mcp_tools n names vs = Inr ts \<Longrightarrow> distinct (map mt_name ts) \<and> set names \<inter> mt_name ` set ts = {}"
proof (induction vs arbitrary: n names ts)
  case (Cons v vs)
  from tools_Cons [OF Cons.prems] obtain t ts' where x: "mt_name t \<notin> set names"
    "read_mcp_tools (n + 1) (names @ [mt_name t]) vs = Inr ts'" "ts = t # ts'" by blast
  then show ?case using Cons.IH [OF x(2)] by auto
qed simp

lemma paths_portable: "portablePathList portablePath l v = Inr ps \<Longrightarrow> list_all portable_ok ps \<and> distinct ps"
  unfolding portablePathList_def by (rule unique_all) (auto simp: portable_ok_def dest: portable_sound)

lemma policy_read:
  assumes "read_policy caps points policy filesystem = Inr (required, p)"
  shows "policy_sound (js_truthy (js_get points ''mcp'')) p" "set required \<subseteq> set AGENT_HOST_CAPABILITIES" "distinct required"
proof -
  from assms obtain raw where x: "js_get policy ''hosts'' \<noteq> JUndef \<longrightarrow> pp_network p = Network_allowlist"
    "validateRequiredCapabilities caps = Inr required"
    "portablePathList portablePath ''policy.filesystem.read'' (js_get filesystem ''read'') = Inr (pp_read_paths p)"
    "portablePathList portablePath ''policy.filesystem.write'' (js_get filesystem ''write'') = Inr (pp_write_paths p)"
    "validateMcpTools (js_get policy ''mcpTools'') = Inr (pp_mcp_tools p)"
    "optional_field validateNetworkHosts (js_get policy ''hosts'') = Inr (pp_hosts p)"
    "\<not> (pp_mode_of p = Package_read_only \<and> pp_write_paths p \<noteq> [])"
    "\<not> (pp_mode_of p = Package_read_only \<and> list_ex mt_write (pp_mcp_tools p))"
    "\<not> (pp_mcp_tools p \<noteq> [] \<and> \<not> js_truthy (js_get points ''mcp''))"
    by (rule policy_Inr)
  have h: "pp_hosts p \<noteq> None \<longrightarrow> js_get policy ''hosts'' \<noteq> JUndef"
    using x(6) by (auto simp: optional_field_def split: if_splits)
  have t: "distinct (map mt_name (pp_mcp_tools p))"
    using x(5) tools_distinct by (auto simp: validateMcpTools_def split: jsval.splits)
  show "policy_sound (js_truthy (js_get points ''mcp'')) p"
    using x(1,7-9) h t paths_portable [OF x(3)] paths_portable [OF x(4)] unfolding policy_sound_def by blast
  show "set required \<subseteq> set AGENT_HOST_CAPABILITIES" "distinct required"
    using x(2) unfolding capabilities_Inr uniqueStringList_def unique_Inr by blast+
qed

lemma hosts_reread: "validateNetworkHosts v = Inr hs \<Longrightarrow> validateNetworkHosts (strings_value hs) = Inr hs"
proof -
  have n: "length hs = length vs" if "read_each f l k vs = Inr hs" for f l k vs
    using that by (induction f l k vs arbitrary: hs rule: read_each.induct) (auto simp: accepts)
  assume a: "validateNetworkHosts v = Inr hs"
  then obtain vs where v: "v = JArr vs" "\<not> length vs > 64" "uniqueStringList NETWORK_HOST_PATTERN 253 ''policy.hosts'' v = Inr hs"
    by (auto simp: validateNetworkHosts_def accepts split: jsval.splits)
  have "length hs = length vs" using v(1,3) n by (auto simp: uniqueStringList_def unique_Inr)
  then show ?thesis using v(2) strings_Inr [OF v(3) survivors(7)]
    by (simp add: validateNetworkHosts_def strings_value_def)
qed

lemma policy_reread:
  assumes "read_policy caps points policy filesystem = Inr (required, p)"
    and "js_truthy (js_get points' ''mcp'') = js_truthy (js_get points ''mcp'')"
  shows "read_policy (strings_value required) points' (policy_value p) (filesystem_value p) = Inr (required, p)"
proof -
  from assms(1) obtain raw where x: "js_get policy ''hosts'' \<noteq> JUndef \<longrightarrow> pp_network p = Network_allowlist"
    "validateRequiredCapabilities caps = Inr required"
    "portablePathList portablePath ''policy.filesystem.read'' (js_get filesystem ''read'') = Inr (pp_read_paths p)"
    "portablePathList portablePath ''policy.filesystem.write'' (js_get filesystem ''write'') = Inr (pp_write_paths p)"
    "validateMcpTools (js_get policy ''mcpTools'') = Inr (pp_mcp_tools p)"
    "optional_field validateNetworkHosts (js_get policy ''hosts'') = Inr (pp_hosts p)"
    "\<not> (pp_mode_of p = Package_read_only \<and> pp_write_paths p \<noteq> [])"
    "\<not> (pp_mode_of p = Package_read_only \<and> list_ex mt_write (pp_mcp_tools p))"
    "\<not> (pp_mcp_tools p \<noteq> [] \<and> \<not> js_truthy (js_get points ''mcp''))"
    by (rule policy_Inr)
  have h: "\<not> (opt_js strings_value (pp_hosts p) \<noteq> JUndef \<and> pp_network p \<noteq> Network_allowlist)"
    using x(1,6) by (auto simp: optional_field_def opt_js_def split: if_splits)
  have r: "validateRequiredCapabilities (strings_value required) = Inr required"
    "portablePathList portablePath l (strings_value (pp_read_paths p)) = Inr (pp_read_paths p)"
    "portablePathList portablePath l (strings_value (pp_write_paths p)) = Inr (pp_write_paths p)"
    "validateMcpTools (JArr (map tool_value (pp_mcp_tools p))) = Inr (pp_mcp_tools p)"
    "optional_field validateNetworkHosts (opt_js strings_value (pp_hosts p)) = Inr (pp_hosts p)" for l
    using capabilities_reread [OF x(2)] paths_reread(1) [OF x(3)] paths_reread(1) [OF x(4)] tools_reread [OF x(5)]
    by (simp_all add: strings_value_def)
      (rule optional_reread [OF x(6)], use hosts_reread in \<open>simp add: strings_value_def\<close>)
  show ?thesis unfolding read_policy_def policy_members mode_reread network_reread and_then_simps r
    using h x(7-9) assms(2) by (simp add: ensure_def)
qed

section \<open>The whole manifest\<close>

lemma manifest_members:
  "js_get (manifest_value m) ''$schema'' = opt_js JStr (mf_schema m)"
  "js_get (manifest_value m) ''schemaVersion'' = JStr EMPLOYEE_PACKAGE_SCHEMA_VERSION"
  "js_get (manifest_value m) ''name'' = JStr (mf_name m)" "js_get (manifest_value m) ''version'' = JStr (mf_version m)"
  "js_get (manifest_value m) ''description'' = JStr (mf_description m)" "js_get (manifest_value m) ''license'' = JStr (mf_license m)"
  "js_get (manifest_value m) ''authors'' = strings_value (mf_authors m)" "js_get (manifest_value m) ''host'' = host_value (mf_capabilities m)"
  "js_get (manifest_value m) ''entrypoints'' = entrypoints_value (mf_entrypoints m)"
  "js_get (manifest_value m) ''policy'' = policy_value (mf_policy m)" "js_get (manifest_value m) ''assets'' = strings_value (mf_assets m)"
  "js_get (manifest_value m) ''identity'' = opt_js identity_value (mf_identity m)"
  "js_get (manifest_value m) ''skills'' = opt_js (\<lambda>xs. JArr (map skill_value xs)) (mf_skills m)"
  by (simp_all add: manifest_value_def member opt_js_def split: option.splits)

lemma manifest_known: "assertKnownKeys (manifest_value m) MANIFEST_KEYS l = Inr (manifest_value m)"
  by (rule assert_known) (simp_all add: manifest_value_def keys_opt MANIFEST_KEYS_def)

lemma host_members:
  "js_get (host_value caps) ''protocol'' = JStr AGENT_HOST_PROTOCOL_VERSION"
  "js_get (host_value caps) ''requiredCapabilities'' = strings_value caps"
  "assertKnownKeys (host_value caps) [''protocol'', ''requiredCapabilities''] l = Inr (host_value caps)"
  by (simp_all add: host_value_def assert_known)

lemma read_manifest_Inr:
  assumes "read_manifest v points required pol assets = Inr (m, w)"
  obtains raw where
    "truthy_field (require_field any_text 2000 ''$schema'') (js_get v ''$schema'') = Inr (mf_schema m)"
    "require_field SKILL_NAME_PATTERN 64 ''name'' (js_get v ''name'') = Inr (mf_name m)"
    "require_field SEMVER_PATTERN 128 ''version'' (js_get v ''version'') = Inr (mf_version m)"
    "require_field any_text 2000 ''description'' (js_get v ''description'') = Inr (mf_description m)"
    "require_field LICENSE_PATTERN 128 ''license'' (js_get v ''license'') = Inr (mf_license m)"
    "uniqueStringList AUTHOR_PATTERN 256 ''authors'' (js_get v ''authors'') = Inr (mf_authors m)"
    "read_entrypoints points = Inr (mf_entrypoints m)"
    "optional_field (validateIdentity assets) (js_get v ''identity'') = Inr raw" "mf_identity m = map_option fst raw"
    "optional_field validateSkillUnits (js_get v ''skills'') = Inr (mf_skills m)"
    "\<not> length (mf_authors m) = 0" "mf_capabilities m = required" "mf_policy m = pol" "mf_assets m = assets"
  using assms unfolding read_manifest_def accepts by (auto simp del: js_get.simps)

lemma identity_option_reread:
  assumes "optional_field (validateIdentity assets) v = Inr raw"
  shows "\<exists>raw'. optional_field (validateIdentity assets) (opt_js identity_value (map_option fst raw)) = Inr raw' \<and>
    map_option fst raw' = map_option fst raw"
proof (cases raw)
  case (Some x)
  then have "validateIdentity assets v = Inr (fst x, snd x)" using assms by (auto simp: optional_field_def accepts split: if_splits)
  from identity_reread [OF this] obtain w' where "validateIdentity assets (identity_value (fst x)) = Inr (fst x, w')" by blast
  then show ?thesis using Some by (simp add: optional_field_def opt_js_def identity_value_def)
qed (simp add: optional_field_def opt_js_def)

lemma read_manifest_again:
  assumes "read_manifest v points required pol assets = Inr (m, w)"
  shows "\<exists>w'. read_manifest (manifest_value m) (entrypoints_value (mf_entrypoints m)) required pol assets = Inr (m, w')"
proof -
  from assms obtain raw where x:
    "truthy_field (require_field any_text 2000 ''$schema'') (js_get v ''$schema'') = Inr (mf_schema m)"
    "require_field SKILL_NAME_PATTERN 64 ''name'' (js_get v ''name'') = Inr (mf_name m)"
    "require_field SEMVER_PATTERN 128 ''version'' (js_get v ''version'') = Inr (mf_version m)"
    "require_field any_text 2000 ''description'' (js_get v ''description'') = Inr (mf_description m)"
    "require_field LICENSE_PATTERN 128 ''license'' (js_get v ''license'') = Inr (mf_license m)"
    "uniqueStringList AUTHOR_PATTERN 256 ''authors'' (js_get v ''authors'') = Inr (mf_authors m)"
    "read_entrypoints points = Inr (mf_entrypoints m)"
    "optional_field (validateIdentity assets) (js_get v ''identity'') = Inr raw" "mf_identity m = map_option fst raw"
    "optional_field validateSkillUnits (js_get v ''skills'') = Inr (mf_skills m)"
    "\<not> length (mf_authors m) = 0" "mf_capabilities m = required" "mf_policy m = pol" "mf_assets m = assets"
    by (rule read_manifest_Inr)
  obtain raw' where r: "optional_field (validateIdentity assets) (opt_js identity_value (mf_identity m)) = Inr raw'"
    "map_option fst raw' = mf_identity m"
    using identity_option_reread [OF x(8)] unfolding x(9) by blast
  have s: "truthy_field (require_field any_text 2000 ''$schema'') (opt_js JStr (mf_schema m)) = Inr (mf_schema m)"
    by (rule truthy_reread [OF x(1)]) (simp add: require_again survivors required_truthy)
  have k: "optional_field validateSkillUnits (opt_js (\<lambda>xs. JArr (map skill_value xs)) (mf_skills m)) = Inr (mf_skills m)"
    by (rule optional_reread [OF x(10)]) (simp add: skills_reread)
  have a: "uniqueStringList AUTHOR_PATTERN 256 ''authors'' (strings_value (mf_authors m)) = Inr (mf_authors m)"
    using strings_Inr [OF x(6) author_survives] by (simp add: strings_value_def)
  note q = require_again [OF x(2) survivors(3)] require_again [OF x(3) survivors(4)] require_again [OF x(4) survivors(1)]
    require_again [OF x(5) survivors(5)]
  have e: "\<lparr>mf_schema = mf_schema m, mf_name = mf_name m, mf_version = mf_version m, mf_description = mf_description m,
      mf_license = mf_license m, mf_authors = mf_authors m, mf_identity = mf_identity m, mf_capabilities = required,
      mf_entrypoints = mf_entrypoints m, mf_policy = pol, mf_assets = assets, mf_skills = mf_skills m\<rparr> = m"
    using x(12-14) by simp
  show ?thesis
    unfolding read_manifest_def manifest_members s q a k r(1) and_then_simps entrypoints_reread [OF x(7)] r(2) e
    using x(11) by (simp add: ensure_def)
qed

lemma validate_Inr:
  assumes "validateEmployeePackageManifest v = Inr (m, w)"
  obtains caps points policy filesystem assets where
    "read_policy caps points policy filesystem = Inr (mf_capabilities m, mf_policy m)"
    "portablePathList portableFilePath ''assets'' (js_get v ''assets'') = Inr (mf_assets m)"
    "read_manifest v points (mf_capabilities m) (mf_policy m) (mf_assets m) = Inr (m, w)"
proof -
  from assms obtain host points policy filesystem required pol assets where x:
    "read_policy (js_get host ''requiredCapabilities'') points policy filesystem = Inr (required, pol)"
    "portablePathList portableFilePath ''assets'' (js_get v ''assets'') = Inr assets"
    "read_manifest v points required pol assets = Inr (m, w)"
    unfolding validateEmployeePackageManifest_def accepts case_prod_beta
    by (metis known_object prod.collapse)
  from x(3) have "mf_capabilities m = required" "mf_policy m = pol" "mf_assets m = assets" by (rule read_manifest_Inr; blast)+
  then show thesis using x that by blast
qed

lemma entry_mcp: "read_entrypoints points = Inr e \<Longrightarrow> js_truthy (js_get points ''mcp'') \<longleftrightarrow> en_mcp e \<noteq> None"
  by (auto simp: read_entrypoints_def truthy_field_def accepts split: if_splits simp del: js_get.simps)

lemma entry_truthy: "read_entrypoints points = Inr e \<Longrightarrow>
    js_truthy (js_get (entrypoints_value e) ''mcp'') = js_truthy (js_get points ''mcp'')"
proof -
  assume a: "read_entrypoints points = Inr e"
  have "js_truthy (js_get (entrypoints_value e) ''mcp'') \<longleftrightarrow> en_mcp e \<noteq> None"
    by (rule entry_mcp) (rule entrypoints_reread [OF a])
  then show ?thesis using entry_mcp [OF a] by simp
qed

lemma revalidated:
  assumes "validateEmployeePackageManifest v = Inr (m, w)"
  shows "\<exists>w'. validateEmployeePackageManifest (manifest_value m) = Inr (m, w')"
proof -
  from assms obtain caps points policy filesystem assets where x:
    "read_policy caps points policy filesystem = Inr (mf_capabilities m, mf_policy m)"
    "portablePathList portableFilePath ''assets'' (js_get v ''assets'') = Inr (mf_assets m)"
    "read_manifest v points (mf_capabilities m) (mf_policy m) (mf_assets m) = Inr (m, w)"
    by (rule validate_Inr)
  have e: "read_entrypoints points = Inr (mf_entrypoints m)" using x(3) by (rule read_manifest_Inr)
  obtain w' where "read_manifest (manifest_value m) (entrypoints_value (mf_entrypoints m)) (mf_capabilities m) (mf_policy m) (mf_assets m)
      = Inr (m, w')" using read_manifest_again [OF x(3)] by blast
  moreover note policy_reread [OF x(1) entry_truthy [OF e]] paths_reread(2) [OF x(2), of "''assets''"]
  ultimately have "validateEmployeePackageManifest (manifest_value m) = Inr (m, w')"
    unfolding validateEmployeePackageManifest_def manifest_known and_then_simps manifest_members host_members entry_members(5)
      policy_members(4,8,9) by (simp add: ensure_def strings_value_def)
  then show ?thesis ..
qed

text \<open>Validating a manifest is idempotent: the manifest the validator returns, read again, is accepted and is returned
  unchanged.\<close>

theorem manifest_revalidates:
  "case validateEmployeePackageManifest v of
      Inl _ \<Rightarrow> True
    | Inr (m, _) \<Rightarrow> (case validateEmployeePackageManifest (manifest_value m) of Inl _ \<Rightarrow> False | Inr (m', _) \<Rightarrow> m' = m)"
  using revalidated by (fastforce split: sum.split prod.split)

section \<open>What an accepted manifest asks for\<close>

definition entrypoints_sound :: "entry_points \<Rightarrow> bool" where
  "entrypoints_sound e \<longleftrightarrow>
     file_ok (en_skill e) \<and> file_ok (en_input_schema e) \<and> file_ok (en_output_schema e) \<and>
     (case en_mcp e of None \<Rightarrow> True | Some p \<Rightarrow> file_ok p)"

definition manifest_sound :: "manifest \<Rightarrow> bool" where
  "manifest_sound m \<longleftrightarrow>
     policy_sound (en_mcp (mf_entrypoints m) \<noteq> None) (mf_policy m) \<and>
     set (mf_capabilities m) \<subseteq> set AGENT_HOST_CAPABILITIES \<and> distinct (mf_capabilities m) \<and>
     SKILL_NAME_PATTERN (mf_name m) \<and> SEMVER_PATTERN (mf_version m) \<and> mf_authors m \<noteq> [] \<and>
     list_all file_ok (mf_assets m) \<and> distinct (mf_assets m) \<and> entrypoints_sound (mf_entrypoints m) \<and>
     (case mf_identity m of None \<Rightarrow> True
        | Some i \<Rightarrow> case pi_avatar i of None \<Rightarrow> True | Some a \<Rightarrow> a \<in> set (mf_assets m))"

lemma require_pattern: "require_field pattern n l v = Inr x \<Longrightarrow> survives_trim pattern \<Longrightarrow> pattern x"
  by (auto simp: require_Inr survives_trim_def)

lemma file_portable: "portableFilePath l v = Inr p \<Longrightarrow> file_ok p"
  using portable_sound by (auto simp: file_Inr file_ok_def portable_ok_def)

lemma entry_portable:
  assumes "read_entrypoints points = Inr e"
  shows "entrypoints_sound e"
proof -
  from assms obtain a b c d where x: "portableFilePath ''entrypoints.skill'' (js_get points ''skill'') = Inr a"
    "portableFilePath ''entrypoints.inputSchema'' (js_get points ''inputSchema'') = Inr b"
    "portableFilePath ''entrypoints.outputSchema'' (js_get points ''outputSchema'') = Inr c"
    "truthy_field (portableFilePath ''entrypoints.mcp'') (js_get points ''mcp'') = Inr d"
    "e = \<lparr>en_skill = a, en_input_schema = b, en_output_schema = c, en_mcp = d\<rparr>"
    unfolding read_entrypoints_def accepts by blast
  have "case d of None \<Rightarrow> True | Some p \<Rightarrow> file_ok p"
    using x(4) file_portable by (auto simp: truthy_field_def accepts split: if_splits simp del: js_get.simps)
  then show ?thesis
    using file_portable [OF x(1)] file_portable [OF x(2)] file_portable [OF x(3)] x(5) by (simp add: entrypoints_sound_def)
qed

lemma identity_avatar:
  "validateIdentity assets v = Inr (i, w) \<Longrightarrow> pi_avatar i = Some a \<Longrightarrow> a \<in> set assets"
proof -
  assume a: "validateIdentity assets v = Inr (i, w)" "pi_avatar i = Some a"
  then have "optional_field (read_avatar assets) (js_get v ''avatar'') = Inr (Some a)"
    unfolding validateIdentity_def Let_def accepts by force
  then show ?thesis by (auto simp: optional_field_def read_avatar_def accepts split: if_splits simp del: js_get.simps)
qed

lemma accepted_sound:
  assumes "validateEmployeePackageManifest v = Inr (m, w)"
  shows "manifest_sound m"
proof -
  from assms obtain caps points policy filesystem assets where x:
    "read_policy caps points policy filesystem = Inr (mf_capabilities m, mf_policy m)"
    "portablePathList portableFilePath ''assets'' (js_get v ''assets'') = Inr (mf_assets m)"
    "read_manifest v points (mf_capabilities m) (mf_policy m) (mf_assets m) = Inr (m, w)"
    by (rule validate_Inr)
  from x(3) obtain raw where y:
    "require_field SKILL_NAME_PATTERN 64 ''name'' (js_get v ''name'') = Inr (mf_name m)"
    "require_field SEMVER_PATTERN 128 ''version'' (js_get v ''version'') = Inr (mf_version m)"
    "read_entrypoints points = Inr (mf_entrypoints m)"
    "optional_field (validateIdentity (mf_assets m)) (js_get v ''identity'') = Inr raw" "mf_identity m = map_option fst raw"
    "\<not> length (mf_authors m) = 0" by (rule read_manifest_Inr)
  have p: "policy_sound (en_mcp (mf_entrypoints m) \<noteq> None) (mf_policy m)"
    using policy_read(1) [OF x(1)] entry_mcp [OF y(3)] by simp
  have s: "list_all file_ok (mf_assets m) \<and> distinct (mf_assets m)"
    using x(2) unfolding portablePathList_def by (rule unique_all) (rule file_portable)
  have e: "entrypoints_sound (mf_entrypoints m)" by (rule entry_portable [OF y(3)])
  have i: "case mf_identity m of None \<Rightarrow> True
        | Some i \<Rightarrow> (case pi_avatar i of None \<Rightarrow> True | Some a \<Rightarrow> a \<in> set (mf_assets m))"
    using y(4) identity_avatar unfolding y(5)
    by (fastforce simp: optional_field_def accepts split: option.splits if_splits)
  show ?thesis
    unfolding manifest_sound_def
    using p s e i policy_read(2,3) [OF x(1)] require_pattern [OF y(1) survivors(3)] require_pattern [OF y(2) survivors(4)] y(6)
    by simp
qed

text \<open>C29: An accepted manifest is well formed: a read-only package names no path to write and no tool that writes, tools come with an
  MCP entry point, hosts with the allow list; every path of the policy, every asset and every entry point, that of the MCP server
  included, is portable and stays inside the package, and assets and entry points name single files; the capabilities are known,
  and the avatar is one of the assets.\<close>

theorem accepted_manifest_is_sound:
  "case validateEmployeePackageManifest v of Inl _ \<Rightarrow> True | Inr (m, _) \<Rightarrow> manifest_sound m"
  using accepted_sound by (auto split: sum.split prod.split)

section \<open>The host that runs the package\<close>

definition enforceable :: "host_probe \<Rightarrow> manifest \<Rightarrow> bool" where
  "enforceable p m \<longleftrightarrow>
     list_all (\<lambda>c. hp_capabilities p c = Some Supported) (mf_capabilities m @ [''tool_allowlist'', ''network_policy'']) \<and>
     (pp_read_paths (mf_policy m) = [] \<and> pp_write_paths (mf_policy m) = [] \<or> hp_capabilities p ''filesystem_scope'' = Some Supported) \<and>
     (pp_mcp_tools (mf_policy m) = [] \<or> hp_capabilities p ''mcp'' = Some Supported) \<and>
     (pp_mode_of (mf_policy m) = Package_read_only \<or> hp_capabilities p ''approval_callback'' = Some Supported) \<and>
     hp_conformance p \<and> hp_runnable p \<and> hp_status p = Probe_ready"

lemma compatible_supports:
  "hc_compatible (assessAgentHostCompatibility p caps) \<Longrightarrow> c \<in> set caps \<Longrightarrow> hp_capabilities p c = Some Supported"
  unfolding assessAgentHostCompatibility_def Let_def by (force simp: filter_empty_conv)

lemma set_add_set: "set (set_add xs x) = insert x (set xs)"
  by (auto simp: set_add_def)

lemma requirements_set:
  "set (deriveEmployeeHostRequirements m) =
     set (mf_capabilities m) \<union> {''tool_allowlist'', ''network_policy''} \<union>
     (if pp_read_paths (mf_policy m) \<noteq> [] \<or> pp_write_paths (mf_policy m) \<noteq> [] then {''filesystem_scope''} else {}) \<union>
     (if en_mcp (mf_entrypoints m) \<noteq> None \<or> pp_mcp_tools (mf_policy m) \<noteq> [] then {''mcp''} else {}) \<union>
     (if pp_mode_of (mf_policy m) = Package_approval_required then {''approval_callback''} else {})"
  unfolding deriveEmployeeHostRequirements_def Let_def by (simp add: set_add_set insert_commute)

text \<open>A host judged compatible with the derived requirements can enforce the whole policy of the package: it supports every
  capability the author listed and every one the policy needs, whatever the author listed.\<close>

theorem compatible_host_can_enforce:
  "if hc_compatible (assessAgentHostCompatibility p (deriveEmployeeHostRequirements m)) then enforceable p m else True"
proof (cases "hc_compatible (assessAgentHostCompatibility p (deriveEmployeeHostRequirements m))")
  case True
  have s: "hp_capabilities p c = Some Supported" if "c \<in> set (deriveEmployeeHostRequirements m)" for c
    using compatible_supports [OF True that] .
  have r: "hp_conformance p \<and> hp_runnable p \<and> hp_status p = Probe_ready"
    using True unfolding assessAgentHostCompatibility_def Let_def by simp
  let ?on = "\<lambda>c. hp_capabilities p c = Some Supported"
  have c: "?on c" if "c \<in> set (mf_capabilities m)" for c by (rule s) (simp add: requirements_set that)
  have t: "?on ''tool_allowlist''" "?on ''network_policy''" by (rule s, simp add: requirements_set)+
  have f: "?on ''filesystem_scope''" if "\<not> (pp_read_paths (mf_policy m) = [] \<and> pp_write_paths (mf_policy m) = [])"
    by (rule s) (use that in \<open>simp add: requirements_set\<close>)
  have x: "?on ''mcp''" if "pp_mcp_tools (mf_policy m) \<noteq> []" by (rule s) (use that in \<open>simp add: requirements_set\<close>)
  have a: "?on ''approval_callback''" if "pp_mode_of (mf_policy m) \<noteq> Package_read_only"
    by (rule s) (use that in \<open>cases "pp_mode_of (mf_policy m)"; simp add: requirements_set\<close>)
  have "enforceable p m" unfolding enforceable_def list_all_append list.pred_inject list_all_iff simp_thms
    using c t f x a r by (simp add: list_all_iff) blast
  then show ?thesis by simp
qed simp

definition read_tools :: "mcp_tool set" where
  "read_tools = {\<lparr>mt_name = ''filesystem.read'', mt_write = False\<rparr>, \<lparr>mt_name = ''filesystem.search'', mt_write = False\<rparr>}"

definition write_tools :: "mcp_tool set" where
  "write_tools = {\<lparr>mt_name = ''filesystem.write'', mt_write = True\<rparr>}"

definition least_privilege :: "manifest \<Rightarrow> host_policy \<Rightarrow> bool" where
  "least_privilege m p \<longleftrightarrow>
     (pp_mode_of (mf_policy m) = Package_read_only \<longrightarrow> \<not> list_ex mt_write (ho_allow p) \<and> ho_write p = []) \<and>
     (pp_mode_of (mf_policy m) = Package_approval_required \<longrightarrow> ho_approval p) \<and>
     set (ho_allow p) = set (pp_mcp_tools (mf_policy m)) \<union> (if ho_read p = [] then {} else read_tools) \<union>
       (if ho_write p = [] then {} else write_tools) \<and>
     (ho_hosts p \<noteq> None \<longrightarrow> ho_network p = Network_allowlist)"

lemma effective_tools:
  "set (ho_allow (deriveEffectiveAgentHostPolicy m)) = set (pp_mcp_tools (mf_policy m)) \<union>
     (if pp_read_paths (mf_policy m) = [] then {} else read_tools) \<union> (if pp_write_paths (mf_policy m) = [] then {} else write_tools)"
proof -
  have "set [\<lparr>mt_name = ''filesystem.read'', mt_write = False\<rparr>, \<lparr>mt_name = ''filesystem.search'', mt_write = False\<rparr>] = read_tools"
    "set [\<lparr>mt_name = ''filesystem.write'', mt_write = True\<rparr>] = write_tools"
    by (simp_all only: read_tools_def write_tools_def list.set)
  then show ?thesis
    by (cases "pp_read_paths (mf_policy m) = []"; cases "pp_write_paths (mf_policy m) = []")
      (simp_all only: deriveEffectiveAgentHostPolicy_def Let_def host_policy.select_convs set_append if_True if_False simp_thms
         list.set(1) Un_empty_left Un_empty_right Un_ac)
qed

text \<open>The policy given to the host is least privilege: a read-only package gets no tool that writes and no path to write, one that
  needs approval always asks for it, the file tools come only with paths, and hosts only with the allow list.\<close>

theorem effective_policy_is_least_privilege:
  "case validateEmployeePackageManifest v of
      Inl _ \<Rightarrow> True
    | Inr (m, _) \<Rightarrow> least_privilege m (deriveEffectiveAgentHostPolicy m)"
proof -
  have "least_privilege m (deriveEffectiveAgentHostPolicy m)" if "validateEmployeePackageManifest v = Inr (m, w)" for m w
  proof -
    have "policy_sound (en_mcp (mf_entrypoints m) \<noteq> None) (mf_policy m)"
      using accepted_sound [OF that] by (simp add: manifest_sound_def)
    moreover have "\<not> list_ex mt_write (ho_allow (deriveEffectiveAgentHostPolicy m))"
      if "pp_write_paths (mf_policy m) = []" "\<not> list_ex mt_write (pp_mcp_tools (mf_policy m))"
      using that by (simp add: deriveEffectiveAgentHostPolicy_def Let_def)
    ultimately show ?thesis
      unfolding least_privilege_def effective_tools policy_sound_def
      by (simp add: deriveEffectiveAgentHostPolicy_def Let_def)
  qed
  then show ?thesis by (auto split: sum.split prod.split)
qed

end
