(* ===== verification/EmployeeArchive.thy ===== *)
theory EmployeeArchive
  imports PackageLaws Assembler
begin

text \<open>
  packages/core/src/employee-package-digest.ts, employee-package-compat.ts and employee-package-archive.ts: the digest of a
  package, the classification of schema versions, the archive format with packing, inspection and verification, the install
  store, and installing, upgrading and rolling back. Bytes are the numbers 0 to 255. JSON, SHA-256, the decoder of UTF-8 and the
  sort keys of \<open>localeCompare\<close> are the members of \<open>archive_env\<close>. An installation takes its time as an argument.
\<close>

record archive_env =
  ae_parse :: "string \<Rightarrow> jsval option"
  ae_text :: "jsval \<Rightarrow> string"
  ae_sha :: "nat list \<Rightarrow> string"
  ae_decode :: "nat list \<Rightarrow> string"
  ae_collate :: "string \<Rightarrow> nat list"

datatype archive_error =
    Archive_code string
  | Archive_validation package_error
  | Archive_type_error
  | Archive_range_error

record archive_entry =
  en_path :: string
  en_bytes :: "nat list"

section \<open>The digest of a package\<close>

definition EMPLOYEE_PACKAGE_DIGEST_DOMAIN :: string where
  "EMPLOYEE_PACKAGE_DIGEST_DOMAIN = ''digital-employee.employee-package.v1''"

definition MAX_DIGEST_ENTRIES :: nat where
  "MAX_DIGEST_ENTRIES = 513"

definition MAX_TOTAL_BYTES :: nat where
  "MAX_TOTAL_BYTES = 20 * 1024 * 1024 + 256 * 1024"

text \<open>\<open>writeUInt32BE\<close> and \<open>writeBigUInt64BE\<close>\<close>

fun big_endian :: "nat \<Rightarrow> nat \<Rightarrow> nat list" where
  "big_endian 0 n = []"
| "big_endian (Suc k) n = (n div 256 ^ k) mod 256 # big_endian k n"

definition uint32 :: "nat \<Rightarrow> nat list" where
  "uint32 = big_endian 4"

definition uint64 :: "nat \<Rightarrow> nat list" where
  "uint64 = big_endian 8"

definition digest_invalid :: package_error where
  "digest_invalid = Package_code ''employee_package_digest_input_invalid''"

definition validatePath :: "string \<Rightarrow> bool" where
  "validatePath p = (length p \<le> 1024 \<and> PORTABLE_PATH_PATTERN p \<and> list_all segment_ok (split_on (CHR ''/'') (drop 2 p)))"

fun capture_entries :: "string list \<Rightarrow> nat \<Rightarrow> archive_entry list \<Rightarrow> package_error + (nat list \<times> nat list) list" where
  "capture_entries seen n [] = Inr []"
| "capture_entries seen n (e # es) =
     ensure (validatePath (en_path e)) digest_invalid
    (ensure (en_path e \<notin> set seen) digest_invalid
    (let n' = n + length (en_bytes e)
     in ensure (\<not> n' > MAX_TOTAL_BYTES) digest_invalid
       (and_then (capture_entries (en_path e # seen) n' es) (\<lambda>rest. Inr ((utf8_encode (en_path e), en_bytes e) # rest)))))"

definition digest_frame :: "nat list \<times> nat list \<Rightarrow> nat list" where
  "digest_frame p = uint32 (length (fst p)) @ fst p @ uint64 (length (snd p)) @ snd p"

definition digest_input :: "(nat list \<times> nat list) list \<Rightarrow> nat list" where
  "digest_input captured =
     utf8_encode (EMPLOYEE_PACKAGE_DIGEST_DOMAIN @ ''\<newline>'') @ uint32 (length captured) @
     concat (map digest_frame (sort_key fst captured))"

definition computeEmployeePackageDigest :: "archive_env \<Rightarrow> archive_entry list \<Rightarrow> package_error + string" where
  "computeEmployeePackageDigest env entries =
     ensure (\<not> (length entries < 1 \<or> length entries > MAX_DIGEST_ENTRIES)) digest_invalid
    (and_then (capture_entries [] 0 entries) (\<lambda>captured. Inr (''sha256:'' @ ae_sha env (digest_input captured))))"

section \<open>Schema versions\<close>

definition EMPLOYEE_PACKAGE_SCHEMA_VERSIONS :: "string list" where
  "EMPLOYEE_PACKAGE_SCHEMA_VERSIONS = [''employee-package.v1alpha1'']"

datatype compat_action = Compat_accept | Compat_migrate | Compat_reject

record compat_decision =
  cd_action :: compat_action
  cd_reason :: string
  cd_source :: "string option"
  cd_target :: "string option"

definition compat_result :: "compat_action \<Rightarrow> string \<Rightarrow> compat_decision" where
  "compat_result a reason = \<lparr>cd_action = a, cd_reason = reason, cd_source = None, cd_target = None\<rparr>"

definition classifySchemaCompatibility :: "jsval \<Rightarrow> string list \<Rightarrow> compat_decision" where
  "classifySchemaCompatibility v versions = (case v of
      JStr d \<Rightarrow>
        if d = [] then compat_result Compat_reject ''schema_version_missing''
        else if versions \<noteq> [] \<and> d = last versions then compat_result Compat_accept ''exact_match''
        else if d \<in> set versions
        then \<lparr>cd_action = Compat_migrate, cd_reason = ''known_older_version'', cd_source = Some d, cd_target = Some (last versions)\<rparr>
        else if starts_with d ''employee-package.'' then compat_result Compat_reject ''unknown_version_no_downgrade''
        else compat_result Compat_reject ''unknown_version_unrecognised''
    | _ \<Rightarrow> compat_result Compat_reject ''schema_version_missing'')"

definition EMPLOYEE_PACKAGE_KNOWN_FIELDS :: "string list" where
  "EMPLOYEE_PACKAGE_KNOWN_FIELDS = [''$schema'', ''schemaVersion'', ''name'', ''version'', ''description'', ''license'', ''authors'',
     ''identity'', ''host'', ''entrypoints'', ''policy'', ''assets'']"

definition detectUnknownManifestFields :: "jsval \<Rightarrow> bool \<times> string list" where
  "detectUnknownManifestFields v =
     (if \<not> is_plain_object v then (False, [])
      else let unknown = filter (\<lambda>k. k \<notin> set EMPLOYEE_PACKAGE_KNOWN_FIELDS) (js_keys v) in (unknown = [], unknown))"

definition isDowngradeRequired :: "string \<Rightarrow> string list \<Rightarrow> bool" where
  "isDowngradeRequired d versions = (cd_reason (classifySchemaCompatibility (JStr d) versions) = ''unknown_version_no_downgrade'')"

section \<open>The archive format\<close>

definition ARCHIVE_FORMAT_VERSION :: string where
  "ARCHIVE_FORMAT_VERSION = ''employee-archive.v1''"

definition ARCHIVE_META_NAME :: string where
  "ARCHIVE_META_NAME = ''archive-meta.json''"

definition MANIFEST_PATH :: string where
  "MANIFEST_PATH = ''./employee.json''"

definition ARCHIVE_MAX_BYTES :: nat where
  "ARCHIVE_MAX_BYTES = 20 * 1024 * 1024 + 256 * 1024"

definition validatePortablePath :: "string \<Rightarrow> archive_error + unit" where
  "validatePortablePath p =
     ensure (PORTABLE_PATH_PATTERN p) (Archive_code ''archive_invalid_path'')
    (ensure (list_all segment_ok (split_on (CHR ''/'') (drop 2 p))) (Archive_code ''archive_path_escape'') (Inr ()))"

text \<open>Where \<open>(?:^|[/])\<close> can match: the text, and what follows each slash. Each pattern is then a test of what comes there.\<close>

fun after_slashes :: "string \<Rightarrow> string list" where
  "after_slashes [] = []"
| "after_slashes (c # s) = (if c = CHR ''/'' then s # after_slashes s else after_slashes s)"

definition tail_after :: "string \<Rightarrow> string \<Rightarrow> string option" where
  "tail_after lit s = map_option (\<lambda>n. drop n s) (literal_length lit s)"

definition dot_follows :: "string option \<Rightarrow> bool" where
  "dot_follows t = (case t of Some (c # _) \<Rightarrow> c = CHR ''.'' | _ \<Rightarrow> False)"

definition plural_dot :: "string \<Rightarrow> string \<Rightarrow> bool" where
  "plural_dot lit s = (dot_follows (tail_after lit s) \<or> dot_follows (tail_after (lit @ ''s'') s))"

definition secret_head :: "string \<Rightarrow> bool" where
  "secret_head s =
     (dot_follows (tail_after ''.env'' s) \<or> tail_after ''.env'' s = Some [] \<or>
      plural_dot ''credential'' s \<or> plural_dot ''secret'' s \<or> tail_after ''.ssh/'' s \<noteq> None \<or> tail_after ''id_rsa'' s \<noteq> None \<or>
      tail_after ''.aws/'' s \<noteq> None \<or> tail_after ''privatekey'' s \<noteq> None \<or> tail_after ''private_key'' s \<noteq> None \<or>
      tail_after ''private-key'' s \<noteq> None \<or> plural_dot ''token'' s)"

definition detectSecrets :: "string \<Rightarrow> bool" where
  "detectSecrets p = list_ex secret_head (p # after_slashes p)"

definition computeArchiveDigest :: "archive_env \<Rightarrow> archive_entry list \<Rightarrow> string" where
  "computeArchiveDigest env entries =
     ''sha256:'' @ ae_sha env (utf8_encode ''employee-archive.v1\<newline>'' @
       concat (map (\<lambda>e. utf8_encode (en_path e) @ [0] @ uint32 (length (en_bytes e)) @ en_bytes e)
         (sort_key (\<lambda>e. ae_collate env (en_path e)) entries)))"

definition entry_frame :: "archive_entry \<Rightarrow> nat list" where
  "entry_frame e = uint32 (length (utf8_encode (en_path e))) @ utf8_encode (en_path e) @ uint32 (length (en_bytes e)) @ en_bytes e"

text \<open>\<open>writeUInt32BE\<close> throws for a length of 32 bits and more.\<close>

definition entry_fits :: "archive_entry \<Rightarrow> bool" where
  "entry_fits e = (length (utf8_encode (en_path e)) < 2 ^ 32 \<and> length (en_bytes e) < 2 ^ 32)"

definition serialiseArchive :: "archive_entry list \<Rightarrow> archive_error + nat list" where
  "serialiseArchive entries =
     ensure (length entries < 2 ^ 32 \<and> list_all entry_fits entries) Archive_range_error
       (Inr (uint32 (length entries) @ concat (map entry_frame entries)))"

definition archive_corrupt :: archive_error where
  "archive_corrupt = Archive_code ''archive_corrupt''"

definition read_uint32 :: "nat list \<Rightarrow> nat" where
  "read_uint32 bs = foldl (\<lambda>n b. n * 256 + b) 0 (take 4 bs)"

text \<open>A length of four bytes with what follows, and a field of that length, at most \<open>most\<close> bytes.\<close>

definition read_length :: "nat list \<Rightarrow> archive_error + (nat \<times> nat list)" where
  "read_length bs = ensure (\<not> length bs < 4) archive_corrupt (Inr (read_uint32 bs, drop 4 bs))"

definition read_field :: "nat option \<Rightarrow> nat list \<Rightarrow> archive_error + (nat list \<times> nat list)" where
  "read_field most bs =
     and_then (read_length bs) (\<lambda>(n, r).
       ensure (\<not> ((case most of None \<Rightarrow> False | Some k \<Rightarrow> n > k) \<or> n > length r)) archive_corrupt (Inr (take n r, drop n r)))"

fun read_entries :: "archive_env \<Rightarrow> nat \<Rightarrow> nat list \<Rightarrow> archive_error + archive_entry list" where
  "read_entries env 0 bs = ensure (bs = []) archive_corrupt (Inr [])"
| "read_entries env (Suc n) bs =
     and_then (read_field (Some 1024) bs) (\<lambda>(path, r).
     and_then (read_field None r) (\<lambda>(bytes, r').
     and_then (read_entries env n r') (\<lambda>es. Inr (\<lparr>en_path = ae_decode env path, en_bytes = bytes\<rparr> # es))))"

definition deserialiseArchive :: "archive_env \<Rightarrow> nat list \<Rightarrow> archive_error + archive_entry list" where
  "deserialiseArchive env data =
     and_then (read_length data) (\<lambda>(count, r).
       ensure (\<not> count > 1024) archive_corrupt (read_entries env count r))"

section \<open>Packing\<close>

record archive_signature =
  as_algorithm :: string
  as_public_key :: string
  as_value :: string

record archive_meta =
  am_package_digest :: string
  am_archive_digest :: string
  am_created :: string
  am_signature :: "archive_signature option"

record pack_input =
  pk_manifest :: jsval
  pk_files :: "archive_entry list"
  pk_created :: "string option"
  pk_signature :: "archive_signature option"

record pack_result =
  pr_archive :: "nat list"
  pr_meta :: archive_meta
  pr_manifest :: manifest

text \<open>The files into the map, one after the other.\<close>

fun collect_files :: "archive_entry list \<Rightarrow> (string, nat list) jsmap \<Rightarrow> archive_error + (string, nat list) jsmap" where
  "collect_files [] m = Inr m"
| "collect_files (f # fs) m =
     and_then (validatePortablePath (en_path f)) (\<lambda>_.
     ensure (\<not> detectSecrets (en_path f)) (Archive_code ''archive_secret_detected'')
    (ensure (\<not> map_has m (en_path f)) (Archive_code ''archive_duplicate_file'')
       (collect_files fs (map_set m (en_path f) (en_bytes f)))))"

definition declared_paths :: "manifest \<Rightarrow> string list" where
  "declared_paths m = [en_skill (mf_entrypoints m), en_input_schema (mf_entrypoints m), en_output_schema (mf_entrypoints m)] @
     (case en_mcp (mf_entrypoints m) of None \<Rightarrow> [] | Some p \<Rightarrow> [p]) @ mf_assets m"

definition json_bytes :: "archive_env \<Rightarrow> jsval \<Rightarrow> nat list" where
  "json_bytes env v = utf8_encode (ae_text env v @ ''\<newline>'')"

definition signature_value :: "archive_signature \<Rightarrow> jsval" where
  "signature_value s = JObj [(''algorithm'', JStr (as_algorithm s)), (''publicKey'', JStr (as_public_key s)),
     (''value'', JStr (as_value s))]"

definition meta_value :: "archive_meta \<Rightarrow> jsval" where
  "meta_value m = JObj ([(''formatVersion'', JStr ARCHIVE_FORMAT_VERSION), (''packageDigest'', JStr (am_package_digest m)),
     (''archiveDigest'', JStr (am_archive_digest m)), (''createdAt'', JStr (am_created m))] @
     opt_pair ''signature'' signature_value (am_signature m))"

definition entries_of :: "(string \<times> nat list) list \<Rightarrow> archive_entry list" where
  "entries_of kvs = map (\<lambda>p. \<lparr>en_path = fst p, en_bytes = snd p\<rparr>) kvs"

text \<open>The entries of the archive in the order of their paths.\<close>

definition sorted_entries :: "(string, nat list) jsmap \<Rightarrow> archive_entry list" where
  "sorted_entries m = map (\<lambda>p. \<lparr>en_path = p, en_bytes = the (map_get m p)\<rparr>) (sort (map_keys m))"

definition check_files :: "manifest \<Rightarrow> (string, nat list) jsmap \<Rightarrow> archive_error + unit" where
  "check_files manifest files =
     ensure (list_all (map_has files) (uniq (declared_paths manifest))) (Archive_code ''archive_missing_declared_file'')
    (ensure (list_all (\<lambda>p. p \<in> set (uniq (MANIFEST_PATH # declared_paths manifest))) (map_keys files))
       (Archive_code ''archive_undeclared_file'')
    (ensure (\<not> sum_list (map length (map_values files)) > ARCHIVE_MAX_BYTES) (Archive_code ''archive_too_large'') (Inr ())))"

definition validation :: "package_error + 'a \<Rightarrow> archive_error + 'a" where
  "validation r = (case r of Inl e \<Rightarrow> Inl (Archive_validation e) | Inr x \<Rightarrow> Inr x)"

definition pack_meta :: "archive_env \<Rightarrow> pack_input \<Rightarrow> (string, nat list) jsmap \<Rightarrow> string \<Rightarrow> archive_meta" where
  "pack_meta env input_value files digest =
     \<lparr>am_package_digest = digest, am_archive_digest = computeArchiveDigest env (sorted_entries files),
      am_created = (case pk_created input_value of None \<Rightarrow> ''1970-01-01T00:00:00.000Z'' | Some t \<Rightarrow> t),
      am_signature = pk_signature input_value\<rparr>"

definition packArchive :: "archive_env \<Rightarrow> pack_input \<Rightarrow> archive_error + pack_result" where
  "packArchive env input_value =
     and_then (validation (validateEmployeePackageManifest (pk_manifest input_value))) (\<lambda>(manifest, _).
     ensure (cd_action (classifySchemaCompatibility (JStr EMPLOYEE_PACKAGE_SCHEMA_VERSION) EMPLOYEE_PACKAGE_SCHEMA_VERSIONS) \<noteq> Compat_reject)
       (Archive_code ''archive_incompatible_schema'')
    (and_then (collect_files (pk_files input_value) []) (\<lambda>given.
     let files = map_set given MANIFEST_PATH (json_bytes env (manifest_value manifest))
     in and_then (check_files manifest files) (\<lambda>_.
        and_then (validation (computeEmployeePackageDigest env (entries_of files))) (\<lambda>digest.
        let meta = pack_meta env input_value files digest
        in and_then (serialiseArchive (\<lparr>en_path = ARCHIVE_META_NAME, en_bytes = json_bytes env (meta_value meta)\<rparr> # sorted_entries files))
             (\<lambda>archive. Inr \<lparr>pr_archive = archive, pr_meta = meta, pr_manifest = manifest\<rparr>))))))"

section \<open>Inspecting\<close>

record inspect_result =
  is_meta :: jsval
  is_manifest :: manifest
  is_files :: "string list"
  is_total :: nat

definition meta_of :: "archive_env \<Rightarrow> archive_entry \<Rightarrow> jsval option" where
  "meta_of env e = ae_parse env (ae_decode env (en_bytes e))"

definition content_entries :: "archive_entry list \<Rightarrow> archive_entry list" where
  "content_entries es = filter (\<lambda>e. en_path e \<noteq> ARCHIVE_META_NAME) es"

text \<open>The first entry that is the manifest, parsed and validated; what is no \<open>ValidationError\<close> becomes \<open>e\<close>.\<close>

definition read_manifest_entry :: "archive_env \<Rightarrow> archive_entry \<Rightarrow> archive_error + manifest" where
  "read_manifest_entry env e = (case ae_parse env (ae_decode env (en_bytes e)) of
      None \<Rightarrow> Inl (Archive_code ''archive_manifest_parse_error'')
    | Some v \<Rightarrow> and_then (validation (validateEmployeePackageManifest v)) (\<lambda>(m, _). Inr m))"

definition inspect_entries :: "archive_env \<Rightarrow> archive_entry list \<Rightarrow> jsval \<Rightarrow> archive_error + inspect_result" where
  "inspect_entries env entries meta =
     ensure (meta \<noteq> JNull) Archive_type_error
    (ensure (js_get meta ''formatVersion'' = JStr ARCHIVE_FORMAT_VERSION) (Archive_code ''archive_unsupported_format'')
    (case List.find (\<lambda>e. en_path e = MANIFEST_PATH) entries of
       None \<Rightarrow> Inl (Archive_code ''archive_missing_manifest'')
     | Some entry \<Rightarrow>
         and_then (read_manifest_entry env entry) (\<lambda>manifest.
           Inr \<lparr>is_meta = meta, is_manifest = manifest, is_files = map en_path (content_entries entries),
                is_total = sum_list (map (\<lambda>e. length (en_bytes e)) entries)\<rparr>)))"

definition inspectArchive :: "archive_env \<Rightarrow> nat list \<Rightarrow> archive_error + inspect_result" where
  "inspectArchive env data =
     and_then (deserialiseArchive env data) (\<lambda>entries. case entries of
       [] \<Rightarrow> Inl (Archive_code ''archive_empty'')
     | e # _ \<Rightarrow>
        ensure (en_path e = ARCHIVE_META_NAME) (Archive_code ''archive_missing_meta'')
       (case meta_of env e of
          None \<Rightarrow> Inl (Archive_code ''archive_meta_parse_error'')
        | Some meta \<Rightarrow> inspect_entries env entries meta))"

section \<open>Verifying\<close>

datatype verify_error =
    Verify_code string
  | Verify_missing string
  | Verify_undeclared string
  | Verify_manifest_invalid package_error
  | Verify_path_escape string
  | Verify_secret string

record verify_result =
  vr_valid :: bool
  vr_package_digest :: jsval
  vr_archive_digest :: jsval
  vr_errors :: "verify_error list"

definition verify_failed :: "verify_error list \<Rightarrow> verify_result" where
  "verify_failed errors = \<lparr>vr_valid = False, vr_package_digest = JStr [], vr_archive_digest = JStr [], vr_errors = errors\<rparr>"

definition manifest_errors :: "manifest \<Rightarrow> archive_entry list \<Rightarrow> verify_error list" where
  "manifest_errors manifest entries =
     (let paths = uniq (map en_path entries); required = declared_paths manifest
      in (if cd_action (classifySchemaCompatibility (JStr EMPLOYEE_PACKAGE_SCHEMA_VERSION) EMPLOYEE_PACKAGE_SCHEMA_VERSIONS) = Compat_reject
          then [Verify_code ''archive_incompatible_schema''] else []) @
         map Verify_missing (filter (\<lambda>p. p \<notin> set paths) required) @
         map Verify_undeclared (filter (\<lambda>p. p \<notin> set (MANIFEST_PATH # required)) paths))"

definition verify_manifest :: "archive_env \<Rightarrow> archive_entry list \<Rightarrow> verify_error list" where
  "verify_manifest env entries = (case List.find (\<lambda>e. en_path e = MANIFEST_PATH) entries of
      None \<Rightarrow> [Verify_code ''archive_missing_manifest'']
    | Some entry \<Rightarrow> (case read_manifest_entry env entry of
        Inl (Archive_validation e) \<Rightarrow> [Verify_manifest_invalid e]
      | Inl _ \<Rightarrow> [Verify_code ''archive_manifest_parse_error'']
      | Inr manifest \<Rightarrow> manifest_errors manifest entries))"

definition path_errors :: "string \<Rightarrow> verify_error list" where
  "path_errors p =
     (case validatePortablePath p of Inl _ \<Rightarrow> [Verify_path_escape p] | Inr _ \<Rightarrow> []) @
     (if detectSecrets p then [Verify_secret p] else [])"

definition check_error :: "bool \<Rightarrow> string \<Rightarrow> verify_error list" where
  "check_error ok code = (if ok then [] else [Verify_code code])"

definition verify_contents :: "archive_env \<Rightarrow> jsval \<Rightarrow> archive_entry list \<Rightarrow> verify_result" where
  "verify_contents env meta entries =
     (let computed = computeArchiveDigest env entries;
          early = check_error (js_get meta ''formatVersion'' = JStr ARCHIVE_FORMAT_VERSION) ''archive_unsupported_format'' @
                  check_error (js_get meta ''archiveDigest'' = JStr computed) ''archive_digest_mismatch''
      in case computeEmployeePackageDigest env entries of
           Inl _ \<Rightarrow> \<lparr>vr_valid = False, vr_package_digest = js_get meta ''packageDigest'', vr_archive_digest = js_get meta ''archiveDigest'',
                     vr_errors = early @ [Verify_code ''archive_package_digest_computation_failed'']\<rparr>
         | Inr digest \<Rightarrow>
            let errors = early @ check_error (js_get meta ''packageDigest'' = JStr digest) ''archive_package_digest_mismatch'' @
                  verify_manifest env entries @ concat (map (\<lambda>e. path_errors (en_path e)) entries)
            in \<lparr>vr_valid = (errors = []), vr_package_digest = JStr digest, vr_archive_digest = JStr computed, vr_errors = errors\<rparr>)"

definition verify_entries :: "archive_env \<Rightarrow> archive_entry list \<Rightarrow> archive_error + verify_result" where
  "verify_entries env entries = (case entries of
      [] \<Rightarrow> Inr (verify_failed [Verify_code ''archive_empty''])
    | e # _ \<Rightarrow>
        if en_path e \<noteq> ARCHIVE_META_NAME then Inr (verify_failed [Verify_code ''archive_missing_meta''])
        else (case meta_of env e of
          None \<Rightarrow> Inr (verify_failed [Verify_code ''archive_meta_parse_error''])
        | Some meta \<Rightarrow>
            if meta = JNull then Inl Archive_type_error else Inr (verify_contents env meta (content_entries entries))))"

definition verifyArchive :: "archive_env \<Rightarrow> nat list \<Rightarrow> archive_error + verify_result" where
  "verifyArchive env data = (case deserialiseArchive env data of
      Inl (Archive_code code) \<Rightarrow> Inr (verify_failed [Verify_code code])
    | Inl _ \<Rightarrow> Inr (verify_failed [Verify_code ''archive_corrupt''])
    | Inr entries \<Rightarrow> verify_entries env entries)"

section \<open>The install store\<close>

record install_record =
  ir_employee :: string
  ir_version :: string
  ir_package_digest :: string
  ir_archive_digest :: string
  ir_installed :: string
  ir_files :: "string list"

record install_store =
  st_records :: "(string, install_record) jsmap"
  st_current :: "(string, string) jsmap"

definition empty_store :: install_store where
  "empty_store = \<lparr>st_records = [], st_current = []\<rparr>"

definition store_key :: "string \<Rightarrow> string \<Rightarrow> string" where
  "store_key employee version = employee @ ''@'' @ version"

definition store_list :: "install_store \<Rightarrow> install_record list" where
  "store_list s = map_values (st_records s)"

definition store_get :: "install_store \<Rightarrow> string \<Rightarrow> string \<Rightarrow> install_record option" where
  "store_get s employee version = map_get (st_records s) (store_key employee version)"

definition store_current :: "install_store \<Rightarrow> string \<Rightarrow> install_record option" where
  "store_current s employee = (case map_get (st_current s) employee of
      None \<Rightarrow> None | Some version \<Rightarrow> if version = [] then None else store_get s employee version)"

definition store_history :: "archive_env \<Rightarrow> install_store \<Rightarrow> string \<Rightarrow> install_record list" where
  "store_history env s employee =
     sort_key (\<lambda>r. ae_collate env (ir_installed r)) (filter (\<lambda>r. ir_employee r = employee) (map_values (st_records s)))"

definition store_put :: "install_record \<Rightarrow> install_store \<Rightarrow> install_store" where
  "store_put r s = s\<lparr>st_records := map_set (st_records s) (store_key (ir_employee r) (ir_version r)) r\<rparr>"

definition store_remove :: "string \<Rightarrow> string \<Rightarrow> install_store \<Rightarrow> bool \<times> install_store" where
  "store_remove employee version s =
     (map_has (st_records s) (store_key employee version),
      s\<lparr>st_records := map_delete (st_records s) (store_key employee version)\<rparr>)"

definition store_set_current :: "string \<Rightarrow> string \<Rightarrow> install_store \<Rightarrow> archive_error + install_store" where
  "store_set_current employee version s =
     ensure (map_has (st_records s) (store_key employee version)) (Archive_code ''archive_install_not_found'')
       (Inr (s\<lparr>st_current := map_set (st_current s) employee version\<rparr>))"

section \<open>The lifecycle over any store\<close>

text \<open>\<open>InstallStorePort\<close>: what the lifecycle calls.\<close>

record 's install_port =
  ip_get :: "'s \<Rightarrow> string \<Rightarrow> string \<Rightarrow> install_record option"
  ip_current :: "'s \<Rightarrow> string \<Rightarrow> install_record option"
  ip_put :: "install_record \<Rightarrow> 's \<Rightarrow> 's"
  ip_set_current :: "string \<Rightarrow> string \<Rightarrow> 's \<Rightarrow> archive_error + 's"

definition in_memory :: "install_store install_port" where
  "in_memory = \<lparr>ip_get = store_get, ip_current = store_current, ip_put = store_put, ip_set_current = store_set_current\<rparr>"

text \<open>An archive that verifies, with what its record holds.\<close>

definition js_text :: "jsval \<Rightarrow> string" where
  "js_text v = (case v of JStr s \<Rightarrow> s | _ \<Rightarrow> [])"

definition install_record_of :: "string \<Rightarrow> verify_result \<Rightarrow> inspect_result \<Rightarrow> install_record" where
  "install_record_of now verification inspection =
     \<lparr>ir_employee = mf_name (is_manifest inspection), ir_version = mf_version (is_manifest inspection),
      ir_package_digest = js_text (vr_package_digest verification), ir_archive_digest = js_text (vr_archive_digest verification),
      ir_installed = now, ir_files = is_files inspection\<rparr>"

definition checked_archive :: "archive_env \<Rightarrow> string \<Rightarrow> string \<Rightarrow> nat list \<Rightarrow> archive_error + install_record" where
  "checked_archive env code now data =
     and_then (verifyArchive env data) (\<lambda>verification.
     ensure (vr_valid verification) (Archive_code code)
    (and_then (inspectArchive env data) (\<lambda>inspection. Inr (install_record_of now verification inspection))))"

text \<open>\<open>store.put\<close> and \<open>store.setCurrent\<close>: the put stays when the second throws.\<close>

definition put_current :: "'s install_port \<Rightarrow> install_record \<Rightarrow> 's \<Rightarrow> (archive_error + install_record) \<times> 's" where
  "put_current port r s =
     (let s' = ip_put port r s
      in case ip_set_current port (ir_employee r) (ir_version r) s' of Inl e \<Rightarrow> (Inl e, s') | Inr t \<Rightarrow> (Inr r, t))"

definition installArchive ::
  "archive_env \<Rightarrow> 's install_port \<Rightarrow> string \<Rightarrow> nat list \<Rightarrow> 's \<Rightarrow> (archive_error + install_record) \<times> 's" where
  "installArchive env port now data s = (case checked_archive env ''archive_install_verification_failed'' now data of
      Inl e \<Rightarrow> (Inl e, s) | Inr r \<Rightarrow> put_current port r s)"

definition upgradeArchive ::
  "archive_env \<Rightarrow> 's install_port \<Rightarrow> string \<Rightarrow> nat list \<Rightarrow> 's \<Rightarrow> (archive_error + install_record) \<times> 's" where
  "upgradeArchive env port now data s = (case checked_archive env ''archive_upgrade_verification_failed'' now data of
      Inl e \<Rightarrow> (Inl e, s)
    | Inr r \<Rightarrow>
        if (case ip_current port s (ir_employee r) of None \<Rightarrow> False | Some c \<Rightarrow> ir_package_digest c = ir_package_digest r)
        then (Inl (Archive_code ''archive_upgrade_same_digest''), s)
        else put_current port r s)"

definition rollbackArchive ::
  "'s install_port \<Rightarrow> string \<Rightarrow> string \<Rightarrow> 's \<Rightarrow> (archive_error + install_record) \<times> 's" where
  "rollbackArchive port employee version s = (case ip_get port s employee version of
      None \<Rightarrow> (Inl (Archive_code ''archive_rollback_target_not_found''), s)
    | Some target \<Rightarrow>
        if (case ip_current port s employee of None \<Rightarrow> False | Some c \<Rightarrow> ir_version c = version)
        then (Inl (Archive_code ''archive_rollback_already_current''), s)
        else (case ip_set_current port employee version s of Inl e \<Rightarrow> (Inl e, s) | Inr t \<Rightarrow> (Inr target, t)))"

end
