(* ===== verification/ArchiveLaws.thy ===== *)
theory ArchiveLaws
  imports EmployeeArchive "HOL-Library.Multiset"
begin

text \<open>
  What packages/core/src/employee-package-archive.ts promises: within its limits the format is read back; what verifies is, besides
  entries under the name of the envelope, what the manifest declares; and the order of the files packed does not matter.
\<close>

section \<open>Numbers and fields\<close>

lemma length_big_endian [simp]: "length (big_endian k n) = k"
  by (induction k) simp_all

lemma big_endian_value: "foldl (\<lambda>n b. n * 256 + b) m (big_endian k n) = m * 256 ^ k + n mod 256 ^ k"
proof (induction k arbitrary: m)
  case (Suc k)
  have "n mod 256 ^ Suc k = 256 ^ k * (n div 256 ^ k mod 256) + n mod 256 ^ k"
    using mod_mult2_eq [of n "256 ^ k" 256] by (simp add: mult.commute)
  then show ?case using Suc by (simp add: algebra_simps)
qed simp

lemma length_uint32 [simp]: "length (uint32 n) = 4"
  by (simp add: uint32_def)

lemma read_uint32 [simp]: "n < 2 ^ 32 \<Longrightarrow> read_uint32 (uint32 n @ r) = n"
  using big_endian_value [of 0 4 n] by (simp add: read_uint32_def uint32_def)

lemma read_length_uint32 [simp]: "n < 2 ^ 32 \<Longrightarrow> read_length (uint32 n @ r) = Inr (n, r)"
  by (simp add: read_length_def)

lemma read_field_back:
  "length b < 2 ^ 32 \<Longrightarrow> (case most of None \<Rightarrow> True | Some k \<Rightarrow> length b \<le> k) \<Longrightarrow>
   read_field most (uint32 (length b) @ b @ r) = Inr (b, r)"
  by (simp add: read_field_def ensure_def split: option.splits)

definition decodes :: "archive_env \<Rightarrow> bool" where
  "decodes env \<longleftrightarrow> (\<forall>s. ae_decode env (utf8_encode s) = s)"

text \<open>What the reader accepts of an entry, beyond what the writer can write.\<close>

definition entry_readable :: "archive_entry \<Rightarrow> bool" where
  "entry_readable e = (length (utf8_encode (en_path e)) \<le> 1024 \<and> length (en_bytes e) < 2 ^ 32)"

lemma read_entries_back:
  "decodes env \<Longrightarrow> list_all entry_readable es \<Longrightarrow> read_entries env (length es) (concat (map entry_frame es)) = Inr es"
proof (induction es)
  case (Cons e es)
  have f: "length (utf8_encode (en_path e)) \<le> 1024" "length (en_bytes e) < 2 ^ 32" using Cons.prems by (simp_all add: entry_readable_def)
  have "read_field (Some 1024) (entry_frame e @ concat (map entry_frame es)) =
      Inr (utf8_encode (en_path e), uint32 (length (en_bytes e)) @ en_bytes e @ concat (map entry_frame es))"
    using read_field_back [of "utf8_encode (en_path e)" "Some 1024"] f(1) by (simp add: entry_frame_def)
  moreover have "read_field None (uint32 (length (en_bytes e)) @ en_bytes e @ concat (map entry_frame es)) =
      Inr (en_bytes e, concat (map entry_frame es))"
    using read_field_back [of "en_bytes e" None] f(2) by simp
  ultimately show ?case using Cons by (simp add: decodes_def)
qed simp

lemma deserialise_serialise:
  assumes "decodes env" "list_all entry_readable es" "length es \<le> 1024" "serialiseArchive es = Inr data"
  shows "deserialiseArchive env data = Inr es"
  using assms read_entries_back [OF assms(1,2)] by (auto simp: serialiseArchive_def deserialiseArchive_def accepts)

text \<open>C30: An archive within the limits of the reader, at most 1024 entries, each with a path of at most 1024
  bytes and a content below 4 GiB, is written and read
  back as exactly the entries it was written from. (The writer itself accepts more: longer paths and more entries.)\<close>

theorem archive_roundtrip:
  assumes "\<forall>s. ae_decode env (utf8_encode s) = s"
  shows "if list_all entry_readable es \<and> length es \<le> 1024
    then (case serialiseArchive es of Inl _ \<Rightarrow> False | Inr data \<Rightarrow> deserialiseArchive env data = Inr es)
    else True"
proof -
  have "list_all entry_fits es" if "list_all entry_readable es"
    using that by (auto simp: list_all_iff entry_readable_def entry_fits_def)
  then show ?thesis using deserialise_serialise [of env es] assms by (auto simp: decodes_def serialiseArchive_def ensure_def)
qed

definition plain_env :: archive_env where
  "plain_env = \<lparr>ae_parse = \<lambda>_. None, ae_text = \<lambda>_. [], ae_sha = \<lambda>_. [], ae_decode = utf8_decode, ae_collate = utf8_encode\<rparr>"

theorem archive_roundtrip_witness:
  "deserialiseArchive plain_env (uint32 1 @ uint32 3 @ [46, 47, 97] @ uint32 2 @ [7, 255]) = Inr [\<lparr>en_path = ''./a'', en_bytes = [7, 255]\<rparr>]"
proof -
  have "\<forall>s. ae_decode plain_env (utf8_encode s) = s" by (simp add: plain_env_def)
  from archive_roundtrip [OF this, of "[\<lparr>en_path = ''./a'', en_bytes = [7, 255]\<rparr>]"]
  have "deserialiseArchive plain_env (uint32 1 @ uint32 (Suc (Suc (Suc 0))) @ [46, 47, 97] @ uint32 (Suc (Suc 0)) @ [7, 255]) =
      Inr [\<lparr>en_path = ''./a'', en_bytes = [7, 255]\<rparr>]"
    by (simp add: entry_readable_def serialiseArchive_def entry_fits_def entry_frame_def utf8_encode_def utf8_char_def)
  then show ?thesis by (simp add: numeral_2_eq_2 numeral_3_eq_3)
qed

section \<open>What verifies\<close>

lemma capture_paths:
  "capture_entries seen n es = Inr captured \<Longrightarrow>
   distinct (map en_path es) \<and> set seen \<inter> en_path ` set es = {} \<and> list_all (\<lambda>e. validatePath (en_path e)) es \<and>
   captured = map (\<lambda>e. (utf8_encode (en_path e), en_bytes e)) es \<and> n + sum_list (map (\<lambda>e. length (en_bytes e)) es) \<le> max n MAX_TOTAL_BYTES"
proof (induction seen n es arbitrary: captured rule: capture_entries.induct)
  case (2 seen n e es)
  from "2.prems" obtain c where x: "validatePath (en_path e)" "en_path e \<notin> set seen" "\<not> n + length (en_bytes e) > MAX_TOTAL_BYTES"
    "capture_entries (en_path e # seen) (n + length (en_bytes e)) es = Inr c" "captured = (utf8_encode (en_path e), en_bytes e) # c"
    by (auto simp: accepts Let_def)
  from "2.IH" [OF x(1,2) refl x(3,4)] show ?case using x by (auto simp: max_def split: if_splits)
qed simp

lemma digest_paths:
  "computeEmployeePackageDigest env es = Inr d \<Longrightarrow>
   distinct (map en_path es) \<and> list_all (\<lambda>e. validatePath (en_path e)) es \<and> length es \<le> MAX_DIGEST_ENTRIES"
  using capture_paths by (fastforce simp: computeEmployeePackageDigest_def accepts)

definition declares :: "archive_env \<Rightarrow> archive_entry list \<Rightarrow> bool" where
  "declares env content = (case List.find (\<lambda>e. en_path e = MANIFEST_PATH) content of
      None \<Rightarrow> False
    | Some entry \<Rightarrow> (case read_manifest_entry env entry of
        Inl _ \<Rightarrow> False
      | Inr m \<Rightarrow> set (map en_path content) = set (MANIFEST_PATH # declared_paths m)))"

definition digests_match :: "archive_env \<Rightarrow> jsval \<Rightarrow> archive_entry list \<Rightarrow> bool" where
  "digests_match env meta content =
     (js_get meta ''archiveDigest'' = JStr (computeArchiveDigest env content) \<and>
      (case computeEmployeePackageDigest env content of Inl _ \<Rightarrow> False | Inr d \<Rightarrow> js_get meta ''packageDigest'' = JStr d))"

definition content_sound :: "archive_env \<Rightarrow> archive_entry list \<Rightarrow> bool" where
  "content_sound env content \<longleftrightarrow>
     distinct (map en_path content) \<and> list_all (\<lambda>e. validatePath (en_path e) \<and> \<not> detectSecrets (en_path e)) content \<and>
     declares env content"

definition archive_sound :: "archive_env \<Rightarrow> nat list \<Rightarrow> bool" where
  "archive_sound env data = (case deserialiseArchive env data of
      Inr (e # es) \<Rightarrow> (case meta_of env e of
          None \<Rightarrow> False
        | Some meta \<Rightarrow> en_path e = ARCHIVE_META_NAME \<and> digests_match env meta (content_entries es) \<and> content_sound env (content_entries es) \<and>
            list_all (\<lambda>x. x \<in> set (content_entries es) \<or> en_path x = ARCHIVE_META_NAME) es)
    | _ \<Rightarrow> False)"

lemma manifest_errors_none:
  "manifest_errors m es = [] \<Longrightarrow> MANIFEST_PATH \<in> en_path ` set es \<Longrightarrow> set (map en_path es) = set (MANIFEST_PATH # declared_paths m)"
  unfolding manifest_errors_def Let_def by (auto simp: filter_empty_conv)

lemma verify_manifest_none: "verify_manifest env es = [] \<Longrightarrow> declares env es"
proof -
  assume a: "verify_manifest env es = []"
  then obtain entry where f: "List.find (\<lambda>e. en_path e = MANIFEST_PATH) es = Some entry"
    by (cases "List.find (\<lambda>e. en_path e = MANIFEST_PATH) es") (auto simp: verify_manifest_def)
  then have m: "MANIFEST_PATH \<in> en_path ` set es" by (auto simp: find_Some_iff image_iff) (metis nth_mem)
  obtain m' where r: "read_manifest_entry env entry = Inr m'" "manifest_errors m' es = []"
    using a f by (cases "read_manifest_entry env entry") (auto simp: verify_manifest_def split: archive_error.splits)
  show ?thesis using manifest_errors_none [OF r(2) m] f r(1) by (simp add: declares_def)
qed

lemma contents_valid:
  assumes "vr_valid (verify_contents env meta es)"
  shows "digests_match env meta es \<and> content_sound env es"
proof (cases "computeEmployeePackageDigest env es")
  case (Inr d)
  note v = assms [unfolded verify_contents_def Let_def Inr sum.case verify_result.select_convs]
  have p: "\<not> detectSecrets (en_path e)" if "e \<in> set es" for e
    using v that by (auto simp: path_errors_def split: if_splits)
  show ?thesis
    using v p digest_paths [OF Inr] verify_manifest_none [of env es] Inr
    by (auto simp: digests_match_def content_sound_def check_error_def list_all_iff split: if_splits simp del: js_get.simps)
qed (use assms in \<open>simp add: verify_contents_def Let_def\<close>)

lemma content_Cons: "en_path e = ARCHIVE_META_NAME \<Longrightarrow> content_entries (e # es) = content_entries es"
  by (simp add: content_entries_def)

lemma content_or_envelope: "list_all (\<lambda>x. x \<in> set (content_entries es) \<or> en_path x = ARCHIVE_META_NAME) es"
  by (simp add: content_entries_def list_all_iff)

text \<open>C31: In an archive that verifies, the entries under other names than that of the envelope are exactly the manifest and the files
  it declares, under paths that are valid, all different and without secrets, and both digests of the envelope are recomputed
  from them. Entries after the first that bear the name of the envelope again are not covered: nothing is checked of them.\<close>

theorem verified_archive_is_sound:
  "case verifyArchive env data of Inl _ \<Rightarrow> True | Inr r \<Rightarrow> if vr_valid r then archive_sound env data else True"
proof (cases "deserialiseArchive env data")
  case (Inl e)
  then show ?thesis by (cases e) (simp_all add: verifyArchive_def verify_failed_def)
next
  case (Inr es)
  show ?thesis
  proof (cases es)
    case (Cons e r)
    then show ?thesis using contents_valid [of env _ "content_entries r"] Inr content_or_envelope [of r]
      by (auto simp: verifyArchive_def verify_entries_def verify_failed_def archive_sound_def content_Cons split: option.splits)
  qed (use Inr in \<open>simp add: verifyArchive_def verify_entries_def verify_failed_def\<close>)
qed

section \<open>The order of the files\<close>

definition total_bytes :: "archive_entry list \<Rightarrow> nat" where
  "total_bytes es = sum_list (map (\<lambda>e. length (en_bytes e)) es)"

lemma capture_iff:
  "capture_entries seen n es =
     (if list_all (\<lambda>e. validatePath (en_path e)) es \<and> distinct (map en_path es) \<and> set seen \<inter> en_path ` set es = {} \<and>
         (es = [] \<or> n + total_bytes es \<le> MAX_TOTAL_BYTES)
      then Inr (map (\<lambda>e. (utf8_encode (en_path e), en_bytes e)) es) else Inl digest_invalid)"
proof (induction seen n es rule: capture_entries.induct)
  case (2 seen n e es)
  show ?case
  proof (cases "validatePath (en_path e) \<and> en_path e \<notin> set seen \<and> n + length (en_bytes e) \<le> MAX_TOTAL_BYTES")
    case True
    then have "capture_entries (en_path e # seen) (n + length (en_bytes e)) es =
      (if list_all (\<lambda>e. validatePath (en_path e)) es \<and> distinct (map en_path es) \<and> set (en_path e # seen) \<inter> en_path ` set es = {} \<and>
          (es = [] \<or> n + length (en_bytes e) + total_bytes es \<le> MAX_TOTAL_BYTES)
       then Inr (map (\<lambda>e. (utf8_encode (en_path e), en_bytes e)) es) else Inl digest_invalid)"
      using 2 by simp
    then show ?thesis using True by (auto simp: Let_def total_bytes_def add.assoc)
  next
    case False
    then show ?thesis by (auto simp: Let_def ensure_def total_bytes_def)
  qed
qed simp

lemma total_bytes_perm: "mset es = mset fs \<Longrightarrow> total_bytes es = total_bytes fs"
  unfolding total_bytes_def by (metis mset_map sum_mset_sum_list)

lemma digest_perm:
  assumes "mset es = mset fs"
  shows "computeEmployeePackageDigest env es = computeEmployeePackageDigest env fs"
proof -
  let ?f = "\<lambda>e. (utf8_encode (en_path e), en_bytes e)"
  have s: "set es = set fs" and l: "length es = length fs" using assms by (metis mset_eq_setD, metis mset_eq_length)
  have d: "distinct (map en_path es) = distinct (map en_path fs)" using assms by (metis mset_map mset_eq_imp_distinct_iff)
  have k: "sort_key fst (map ?f es) = sort_key fst (map ?f fs)" if "distinct (map en_path fs)"
  proof (rule sort_key_inj_key_eq)
    show "mset (map ?f es) = mset (sort_key fst (map ?f fs))" by (simp add: assms)
    have "distinct (map en_path es)" using that d by simp
    then have i: "inj_on en_path (set es)" by (simp add: distinct_map)
    have "a = b" if "a \<in> set es" "b \<in> set es" "utf8_encode (en_path a) = utf8_encode (en_path b)" for a b
      using inj_onD [OF i _ that(1,2)] utf8_inj [OF that(3)] by simp
    then show "inj_on fst (set (map ?f es))" unfolding inj_on_def set_map by (metis (no_types, lifting) fst_conv imageE)
    show "sorted (map fst (sort_key fst (map ?f fs)))" by simp
  qed
  show ?thesis
    unfolding computeEmployeePackageDigest_def capture_iff l d total_bytes_perm [OF assms]
    using s l k by (auto simp: list_all_iff digest_input_def ensure_def Let_def)
qed

lemma wf_mset: "map_wf m \<Longrightarrow> map_wf n \<Longrightarrow> set m = set n \<Longrightarrow> mset m = mset n"
  by (metis distinct_map map_wf_def set_eq_iff_mset_eq_distinct)

lemma map_get_set_eq: "map_wf m \<Longrightarrow> map_wf n \<Longrightarrow> set m = set n \<Longrightarrow> map_get m k = map_get n k"
  by (metis map_get_iff option.exhaust)

lemma sorted_entries_perm:
  assumes "map_wf m" "map_wf n" "set m = set n"
  shows "sorted_entries m = sorted_entries n"
proof -
  have "mset m = mset n" using assms by (rule wf_mset)
  then have "sort (map_keys m) = sort (map_keys n)"
    unfolding map_keys_def by (metis mset_map properties_for_sort mset_sort sorted_sort)
  then show ?thesis using map_get_set_eq [OF assms] by (simp add: sorted_entries_def)
qed

lemma mset_sorted_entries:
  assumes "map_wf m"
  shows "mset (sorted_entries m) = mset (entries_of m)"
proof -
  let ?g = "\<lambda>p. \<lparr>en_path = p, en_bytes = the (map_get m p)\<rparr>"
  have "mset (sorted_entries m) = mset (map ?g (map_keys m))" by (simp add: sorted_entries_def)
  also have "map ?g (map_keys m) = entries_of m"
    using assms by (auto simp: map_keys_def entries_of_def) (metis map_get_iff option.sel prod.collapse)
  finally show ?thesis .
qed

lemma collect_iff:
  "collect_files fs m = Inr given \<longleftrightarrow>
     list_all (\<lambda>f. validatePortablePath (en_path f) = Inr () \<and> \<not> detectSecrets (en_path f)) fs \<and> distinct (map en_path fs) \<and>
     fst ` set m \<inter> en_path ` set fs = {} \<and> given = m @ map (\<lambda>f. (en_path f, en_bytes f)) fs"
proof (induction fs arbitrary: m)
  case (Cons f fs)
  show ?case
  proof (cases "map_has m (en_path f)")
    case False
    then show ?thesis using Cons [of "map_set m (en_path f) (en_bytes f)"]
      by (simp add: accepts map_set_absent) (auto simp: map_has_def)
  qed (auto simp: accepts map_has_def)
qed auto

lemma collect_perm:
  assumes "collect_files fs [] = Inr given" "mset fs = mset gs"
  obtains given' where "collect_files gs [] = Inr given'" "set given' = set given" "map_wf given" "map_wf given'"
proof -
  have "set fs = set gs" "distinct (map en_path gs)"
    using assms by (auto simp: collect_iff dest: mset_eq_setD) (metis mset_eq_imp_distinct_iff mset_map)
  then have "collect_files gs [] = Inr (map (\<lambda>f. (en_path f, en_bytes f)) gs)"
    using assms(1) by (simp add: collect_iff list_all_iff)
  then show thesis using that assms(1) \<open>set fs = set gs\<close> \<open>distinct (map en_path gs)\<close>
    by (auto simp: collect_iff map_wf_def comp_def)
qed

lemma check_files_perm:
  assumes "map_wf m" "map_wf n" "set m = set n"
  shows "check_files manifest m = check_files manifest n"
proof -
  have "mset m = mset n" using assms by (rule wf_mset)
  then have "sum_list (map length (map_values m)) = sum_list (map length (map_values n))"
    unfolding map_values_def by (metis mset_map sum_mset_sum_list)
  then show ?thesis using assms(3) by (simp add: check_files_def map_has_def map_keys_def list_all_iff)
qed

text \<open>Packing does not depend on the order in which the files are given: the archive, its digests and its manifest are the
  same for every order.\<close>

theorem packing_ignores_file_order:
  "if mset (pk_files i) = mset fs
   then (case packArchive env i of Inl _ \<Rightarrow> True | Inr r \<Rightarrow> packArchive env (i\<lparr>pk_files := fs\<rparr>) = Inr r)
   else True"
proof -
  have "packArchive env (i\<lparr>pk_files := fs\<rparr>) = Inr r" if p: "mset (pk_files i) = mset fs" "packArchive env i = Inr r" for r
  proof -
    from p(2) obtain m w given where g: "validation (validateEmployeePackageManifest (pk_manifest i)) = Inr (m, w)"
      "collect_files (pk_files i) [] = Inr given"
      unfolding packArchive_def accepts case_prod_beta by (metis prod.collapse)
    from g(2) p(1) obtain given' where g': "collect_files fs [] = Inr given'" "set given' = set given" "map_wf given" "map_wf given'"
      by (rule collect_perm)
    let ?M = "\<lambda>x. map_set x MANIFEST_PATH (json_bytes env (manifest_value m))"
    have e: "map_wf (?M given')" "map_wf (?M given)" "set (?M given') = set (?M given)"
      using g' by (auto simp: set_map_set)
    have d: "computeEmployeePackageDigest env (entries_of (?M given')) = computeEmployeePackageDigest env (entries_of (?M given))"
      by (rule digest_perm) (use wf_mset [OF e] in \<open>simp add: entries_of_def\<close>)
    have u: "pk_manifest (i\<lparr>pk_files := fs\<rparr>) = pk_manifest i" "pk_files (i\<lparr>pk_files := fs\<rparr>) = fs"
      "pk_created (i\<lparr>pk_files := fs\<rparr>) = pk_created i" "pk_signature (i\<lparr>pk_files := fs\<rparr>) = pk_signature i" by simp_all
    show ?thesis
      using p(2) unfolding packArchive_def u g g'(1) and_then_simps prod.case Let_def pack_meta_def
        check_files_perm [OF e] sorted_entries_perm [OF e] d .
  qed
  then show ?thesis by (auto split: sum.split)
qed

end
