(* ===== verification/ArchiveLifecycle.thy ===== *)
theory ArchiveLifecycle
  imports ArchiveLaws
begin

text \<open>
  packages/core/src/employee-package-archive.ts as a whole: what is packed verifies, and the lifecycle over a store that keeps
  the laws of \<open>InstallStorePort\<close>, which the store in memory does.
\<close>

section \<open>What is packed verifies\<close>

definition reads_json :: "archive_env \<Rightarrow> jsval \<Rightarrow> bool" where
  "reads_json env v \<longleftrightarrow> ae_parse env (ae_text env v @ ''\<newline>'') = Some v"

lemma manifest_path_ok: "validatePortablePath MANIFEST_PATH = Inr ()" "\<not> detectSecrets MANIFEST_PATH"
  by code_simp+

lemma portable_no_meta: "validatePortablePath p = Inr () \<Longrightarrow> p \<noteq> ARCHIVE_META_NAME"
  by (auto simp: validatePortablePath_def PORTABLE_PATH_PATTERN_def accepts ARCHIVE_META_NAME_def starts_with_append)

lemma sorted_entry:
  "map_wf files \<Longrightarrow> e \<in> set (sorted_entries files) \<longleftrightarrow> map_get files (en_path e) = Some (en_bytes e)"
proof -
  assume w: "map_wf files"
  have "e \<in> set (sorted_entries files) \<longleftrightarrow> e \<in> set (entries_of files)"
    using mset_sorted_entries [OF w] by (metis mset_eq_setD)
  also have "\<dots> \<longleftrightarrow> (en_path e, en_bytes e) \<in> set files" by (force simp: entries_of_def)
  finally show ?thesis using map_get_iff [OF w] by simp
qed

lemma paths_of_entries: "map_wf files \<Longrightarrow> en_path ` set (sorted_entries files) = fst ` set files"
  by (simp add: sorted_entries_def map_keys_def image_image)

text \<open>The files of a packed archive.\<close>

lemma packed_parts:
  assumes "packArchive env i = Inr r"
  obtains files raw where "validateEmployeePackageManifest (pk_manifest i) = Inr (pr_manifest r, raw)" "map_wf files"
    "check_files (pr_manifest r) files = Inr ()"
    "list_all (\<lambda>p. validatePortablePath p = Inr () \<and> \<not> detectSecrets p) (map_keys files)"
    "map_get files MANIFEST_PATH = Some (json_bytes env (manifest_value (pr_manifest r)))"
    "computeEmployeePackageDigest env (sorted_entries files) = Inr (am_package_digest (pr_meta r))"
    "am_archive_digest (pr_meta r) = computeArchiveDigest env (sorted_entries files)"
    "serialiseArchive (\<lparr>en_path = ARCHIVE_META_NAME, en_bytes = json_bytes env (meta_value (pr_meta r))\<rparr> # sorted_entries files) =
       Inr (pr_archive r)"
proof -
  from assms obtain m raw given where g: "validation (validateEmployeePackageManifest (pk_manifest i)) = Inr (m, raw)"
    "collect_files (pk_files i) [] = Inr given"
    unfolding packArchive_def accepts case_prod_beta by (metis prod.collapse)
  let ?files = "map_set given MANIFEST_PATH (json_bytes env (manifest_value m))"
  from assms g obtain digest archive where x: "check_files m ?files = Inr ()"
    "validation (computeEmployeePackageDigest env (entries_of ?files)) = Inr digest"
    "serialiseArchive (\<lparr>en_path = ARCHIVE_META_NAME, en_bytes = json_bytes env (meta_value (pack_meta env i ?files digest))\<rparr> #
       sorted_entries ?files) = Inr archive"
    "r = \<lparr>pr_archive = archive, pr_meta = pack_meta env i ?files digest, pr_manifest = m\<rparr>"
    unfolding packArchive_def Let_def by (auto simp: accepts)
  have v: "validateEmployeePackageManifest (pk_manifest i) = Inr (m, raw)"
    using g(1) by (auto simp: validation_def split: sum.splits)
  have w: "map_wf given" using g(2) by (auto simp: collect_iff map_wf_def comp_def)
  then have wf: "map_wf ?files" by (rule map_wf_set)
  have k: "list_all (\<lambda>p. validatePortablePath p = Inr () \<and> \<not> detectSecrets p) (map_keys ?files)"
  proof -
    have "fst ` set given = en_path ` set (pk_files i)" using g(2) by (auto simp: collect_iff image_image)
    then have "set (map_keys ?files) = insert MANIFEST_PATH (en_path ` set (pk_files i))"
      by (simp add: map_keys_def keys_map_set)
    then show ?thesis using g(2) manifest_path_ok by (simp add: collect_iff list_all_iff)
  qed
  have "computeEmployeePackageDigest env (sorted_entries ?files) = Inr digest"
    using x(2) digest_perm [OF mset_sorted_entries [OF wf], of env]
    by (simp add: validation_def split: sum.splits)
  then show thesis using that [of raw ?files] v wf x k by (simp add: pack_meta_def)
qed

lemma meta_members:
  "js_get (meta_value m) ''formatVersion'' = JStr ARCHIVE_FORMAT_VERSION"
  "js_get (meta_value m) ''packageDigest'' = JStr (am_package_digest m)"
  "js_get (meta_value m) ''archiveDigest'' = JStr (am_archive_digest m)"
  by (simp_all add: meta_value_def member)

lemma find_entry:
  assumes "map_wf files" "map_get files p = Some b"
  shows "List.find (\<lambda>e. en_path e = p) (sorted_entries files) = Some \<lparr>en_path = p, en_bytes = b\<rparr>"
proof (cases "List.find (\<lambda>e. en_path e = p) (sorted_entries files)")
  case None
  then show ?thesis using sorted_entry [OF assms(1), of "\<lparr>en_path = p, en_bytes = b\<rparr>"] assms(2)
    by (auto simp: find_None_iff)
next
  case (Some e)
  then have "en_path e = p" "e \<in> set (sorted_entries files)" by (auto simp: find_Some_iff)
  then show ?thesis using Some sorted_entry [OF assms(1), of e] assms(2) by simp
qed

lemma packed_manifest_errors:
  assumes "map_wf files" "check_files m files = Inr ()"
  shows "manifest_errors m (sorted_entries files) = []"
proof -
  have p: "set (uniq (map en_path (sorted_entries files))) = set (map_keys files)"
    using paths_of_entries [OF assms(1)] by (simp add: map_keys_def)
  have a: "cd_action (classifySchemaCompatibility (JStr EMPLOYEE_PACKAGE_SCHEMA_VERSION) EMPLOYEE_PACKAGE_SCHEMA_VERSIONS) \<noteq> Compat_reject"
    by code_simp
  have "set (declared_paths m) \<subseteq> set (map_keys files)" "set (map_keys files) \<subseteq> set (MANIFEST_PATH # declared_paths m)"
    using assms(2) by (auto simp: check_files_def accepts list_all_iff map_has_def map_keys_def)
  then show ?thesis unfolding manifest_errors_def Let_def p using a by (auto simp: filter_empty_conv p simp del: set_uniq)
qed

lemma packed_contents_valid:
  assumes "map_wf files" "check_files m files = Inr ()"
    "list_all (\<lambda>p. validatePortablePath p = Inr () \<and> \<not> detectSecrets p) (map_keys files)"
    "map_get files MANIFEST_PATH = Some (json_bytes env (manifest_value m))"
    "computeEmployeePackageDigest env (sorted_entries files) = Inr (am_package_digest meta)"
    "am_archive_digest meta = computeArchiveDigest env (sorted_entries files)"
    "decodes env" "reads_json env (manifest_value m)" "validateEmployeePackageManifest v = Inr (m, raw)"
  shows "vr_valid (verify_contents env (meta_value meta) (sorted_entries files))"
proof -
  obtain w where "validateEmployeePackageManifest (manifest_value m) = Inr (m, w)" using revalidated [OF assms(9)] by blast
  then have r: "read_manifest_entry env \<lparr>en_path = MANIFEST_PATH, en_bytes = json_bytes env (manifest_value m)\<rparr> = Inr m"
    using assms(7,8) by (simp add: read_manifest_entry_def json_bytes_def decodes_def reads_json_def validation_def)
  have v: "verify_manifest env (sorted_entries files) = []"
    using packed_manifest_errors [OF assms(1,2)] r by (simp add: verify_manifest_def find_entry [OF assms(1,4)])
  have "path_errors (en_path e) = []" if "e \<in> set (sorted_entries files)" for e
  proof -
    have "en_path e \<in> set (map_keys files)" using that paths_of_entries [OF assms(1)] by (auto simp: map_keys_def)
    then have "validatePortablePath (en_path e) = Inr () \<and> \<not> detectSecrets (en_path e)"
      using assms(3) by (simp add: list_all_iff)
    then show ?thesis by (simp add: path_errors_def)
  qed
  then have p: "concat (map (\<lambda>e. path_errors (en_path e)) (sorted_entries files)) = []" by simp
  show ?thesis
    unfolding verify_contents_def Let_def assms(5) sum.case meta_members v p assms(6) by (simp add: check_error_def)
qed

lemma packed_readable:
  assumes "map_wf files" "check_files m files = Inr ()" "list_all (\<lambda>p. utf8_len p \<le> 1024) (declared_paths m)"
    "serialiseArchive (e # sorted_entries files) = Inr data"
  shows "list_all entry_readable (sorted_entries files)"
  unfolding list_all_iff
proof
  fix x assume x: "x \<in> set (sorted_entries files)"
  then have "en_path x \<in> fst ` set files" using paths_of_entries [OF assms(1)] by blast
  then have "en_path x = MANIFEST_PATH \<or> en_path x \<in> set (declared_paths m)"
    using assms(2) by (auto simp: check_files_def accepts list_all_iff map_keys_def)
  moreover have "utf8_len MANIFEST_PATH \<le> 1024" by code_simp
  ultimately have "utf8_len (en_path x) \<le> 1024" using assms(3) by (auto simp: list_all_iff)
  moreover have "entry_fits x" using assms(4) x by (auto simp: serialiseArchive_def accepts list_all_iff)
  ultimately show "entry_readable x" by (simp add: entry_readable_def entry_fits_def length_utf8_encode)
qed

text \<open>Every packed archive verifies, when no path is longer than the reader accepts.\<close>

theorem packed_archive_verifies:
  assumes "\<forall>s. ae_decode env (utf8_encode s) = s"
    and "packArchive env i = Inr r"
    and "reads_json env (manifest_value (pr_manifest r))" "reads_json env (meta_value (pr_meta r))"
    and "list_all (\<lambda>p. utf8_len p \<le> 1024) (declared_paths (pr_manifest r))"
  shows "case verifyArchive env (pr_archive r) of Inl _ \<Rightarrow> False | Inr v \<Rightarrow> vr_valid v"
proof -
  have d: "decodes env" using assms(1) by (simp add: decodes_def)
  from assms(2) obtain files raw where x: "validateEmployeePackageManifest (pk_manifest i) = Inr (pr_manifest r, raw)" "map_wf files"
    "check_files (pr_manifest r) files = Inr ()"
    "list_all (\<lambda>p. validatePortablePath p = Inr () \<and> \<not> detectSecrets p) (map_keys files)"
    "map_get files MANIFEST_PATH = Some (json_bytes env (manifest_value (pr_manifest r)))"
    "computeEmployeePackageDigest env (sorted_entries files) = Inr (am_package_digest (pr_meta r))"
    "am_archive_digest (pr_meta r) = computeArchiveDigest env (sorted_entries files)"
    "serialiseArchive (\<lparr>en_path = ARCHIVE_META_NAME, en_bytes = json_bytes env (meta_value (pr_meta r))\<rparr> # sorted_entries files) =
       Inr (pr_archive r)"
    by (rule packed_parts)
  let ?e = "\<lparr>en_path = ARCHIVE_META_NAME, en_bytes = json_bytes env (meta_value (pr_meta r))\<rparr>"
  have n: "length (sorted_entries files) \<le> 513" using digest_paths [OF x(6)] by (simp add: MAX_DIGEST_ENTRIES_def)
  have "utf8_len ARCHIVE_META_NAME \<le> 1024" by code_simp
  then have "entry_readable ?e"
    using x(8) by (auto simp: entry_readable_def length_utf8_encode serialiseArchive_def accepts entry_fits_def)
  then have l: "list_all entry_readable (?e # sorted_entries files)" using packed_readable [OF x(2,3) assms(5) x(8)] by simp
  have b: "deserialiseArchive env (pr_archive r) = Inr (?e # sorted_entries files)"
    by (rule deserialise_serialise [OF d l _ x(8)]) (use n in simp)
  have m: "meta_of env ?e = Some (meta_value (pr_meta r))"
    using d assms(4) by (simp add: meta_of_def json_bytes_def decodes_def reads_json_def)
  have "en_path e \<noteq> ARCHIVE_META_NAME" if "e \<in> set (sorted_entries files)" for e
  proof -
    have "en_path e \<in> set (map_keys files)" using that paths_of_entries [OF x(2)] by (auto simp: map_keys_def)
    then show ?thesis using x(4) portable_no_meta by (auto simp: list_all_iff)
  qed
  then have c: "content_entries (?e # sorted_entries files) = sorted_entries files"
    by (simp add: content_entries_def)
  have "meta_value (pr_meta r) \<noteq> JNull" by (simp add: meta_value_def)
  then have "verifyArchive env (pr_archive r) = Inr (verify_contents env (meta_value (pr_meta r)) (sorted_entries files))"
    using b m c by (simp add: verifyArchive_def verify_entries_def)
  then show ?thesis using packed_contents_valid [OF x(2-7) d assms(3) x(1)] by simp
qed

definition sample_manifest :: manifest where
  "sample_manifest = \<lparr>mf_schema = None, mf_name = ''a'', mf_version = ''1.0.0'', mf_description = ''d'', mf_license = ''M'',
     mf_authors = [''x''], mf_identity = None, mf_capabilities = [],
     mf_entrypoints = \<lparr>en_skill = ''./s'', en_input_schema = ''./i'', en_output_schema = ''./o'', en_mcp = None\<rparr>,
     mf_policy = \<lparr>pp_mode_of = Package_read_only, pp_network = Network_deny, pp_hosts = None, pp_read_paths = [], pp_write_paths = [],
       pp_mcp_tools = []\<rparr>, mf_assets = [], mf_skills = None\<rparr>"

definition sample_meta :: archive_meta where
  "sample_meta = \<lparr>am_package_digest = ''sha256:d'', am_archive_digest = ''sha256:d'', am_created = ''t'', am_signature = None\<rparr>"

definition sample_env :: archive_env where
  "sample_env = \<lparr>ae_parse = \<lambda>s. if hd s = CHR ''m'' then Some (manifest_value sample_manifest) else Some (meta_value sample_meta),
     ae_text = \<lambda>v. if js_has v ''formatVersion'' then ''j'' else ''m'', ae_sha = \<lambda>_. ''d'', ae_decode = utf8_decode,
     ae_collate = utf8_encode\<rparr>"

definition sample_input :: pack_input where
  "sample_input = \<lparr>pk_manifest = manifest_value sample_manifest,
     pk_files = map (\<lambda>p. \<lparr>en_path = p, en_bytes = [7]\<rparr>) [''./s'', ''./o'', ''./i''], pk_created = Some ''t'', pk_signature = None\<rparr>"

lemma sample_manifest_accepted: "validateEmployeePackageManifest (manifest_value sample_manifest) = Inr (sample_manifest, [])"
  by code_simp

definition sample_files :: "(string, nat list) jsmap" where
  "sample_files = [(''./s'', [7]), (''./o'', [7]), (''./i'', [7]), (MANIFEST_PATH, [109, 10])]"

lemma sample_collected: "collect_files (pk_files sample_input) [] = Inr [(''./s'', [7]), (''./o'', [7]), (''./i'', [7])]"
  by code_simp

lemma sample_manifest_bytes: "json_bytes sample_env (manifest_value sample_manifest) = [109, 10]"
  by (simp add: json_bytes_def sample_env_def js_has_def manifest_value_def keys_opt utf8_encode_def utf8_char_def)

lemma sample_meta_bytes: "json_bytes sample_env (meta_value m) = [106, 10]"
  by (simp add: json_bytes_def sample_env_def js_has_def meta_value_def keys_opt utf8_encode_def utf8_char_def)

lemma sample_checked: "check_files sample_manifest sample_files = Inr ()"
  by (simp add: check_files_def declared_paths_def sample_manifest_def sample_files_def uniq_def map_has_def map_keys_def map_values_def
      MANIFEST_PATH_def ARCHIVE_MAX_BYTES_def ensure_def)

lemma sample_reads: "reads_json sample_env (manifest_value sample_manifest)" "reads_json sample_env (meta_value sample_meta)"
  by (simp_all add: reads_json_def sample_env_def js_has_def manifest_value_def [of sample_manifest, THEN arg_cong [of _ _ js_keys]]
      meta_value_def [of sample_meta, THEN arg_cong [of _ _ js_keys]] keys_opt)

lemma sample_paths: "list_all (\<lambda>p. utf8_len p \<le> 1024) (declared_paths sample_manifest)"
  by code_simp

lemma sample_valid_paths: "list_all validatePath (map fst sample_files)"
  by code_simp

lemma sample_digest: "computeEmployeePackageDigest sample_env (entries_of sample_files) = Inr ''sha256:d''"
proof -
  have "list_all (\<lambda>e. validatePath (en_path e)) (entries_of sample_files)"
    using sample_valid_paths by (simp add: entries_of_def list_all_iff)
  moreover have "distinct (map en_path (entries_of sample_files))" "total_bytes (entries_of sample_files) \<le> MAX_TOTAL_BYTES"
    "length (entries_of sample_files) = 4"
    by (simp_all add: entries_of_def sample_files_def MANIFEST_PATH_def total_bytes_def MAX_TOTAL_BYTES_def)
  ultimately show ?thesis
    by (simp add: computeEmployeePackageDigest_def capture_iff MAX_DIGEST_ENTRIES_def sample_env_def ensure_def)
qed

lemma sample_sorted: "sorted_entries sample_files =
    [\<lparr>en_path = MANIFEST_PATH, en_bytes = [109, 10]\<rparr>, \<lparr>en_path = ''./i'', en_bytes = [7]\<rparr>, \<lparr>en_path = ''./o'', en_bytes = [7]\<rparr>,
     \<lparr>en_path = ''./s'', en_bytes = [7]\<rparr>]"
  by code_simp

lemma sample_packed: "\<exists>r. packArchive sample_env sample_input = Inr r \<and> pr_manifest r = sample_manifest \<and> pr_meta r = sample_meta"
proof -
  let ?given = "[(''./s'', [7]), (''./o'', [7]), (''./i'', [7::nat])]"
  have f: "map_set ?given MANIFEST_PATH [109, 10] = sample_files"
    by (simp add: sample_files_def MANIFEST_PATH_def)
  have m: "pack_meta sample_env sample_input sample_files ''sha256:d'' = sample_meta"
    by (simp add: pack_meta_def sample_meta_def sample_input_def computeArchiveDigest_def sample_env_def)
  have "length (utf8_encode MANIFEST_PATH) < 2 ^ 32" "length (utf8_encode ARCHIVE_META_NAME) < 2 ^ 32"
    "length (utf8_encode ''./i'') < 2 ^ 32" "length (utf8_encode ''./o'') < 2 ^ 32" "length (utf8_encode ''./s'') < 2 ^ 32"
    unfolding length_utf8_encode by (simp_all add: utf8_len_def MANIFEST_PATH_def ARCHIVE_META_NAME_def)
  then obtain data where s: "serialiseArchive (\<lparr>en_path = ARCHIVE_META_NAME, en_bytes = [106, 10]\<rparr> # sorted_entries sample_files) = Inr data"
    by (simp add: serialiseArchive_def sample_sorted entry_fits_def)
  have c: "cd_action (classifySchemaCompatibility (JStr EMPLOYEE_PACKAGE_SCHEMA_VERSION) EMPLOYEE_PACKAGE_SCHEMA_VERSIONS) \<noteq> Compat_reject"
    by code_simp
  have i: "pk_manifest sample_input = manifest_value sample_manifest" by (simp add: sample_input_def)
  have "packArchive sample_env sample_input = Inr \<lparr>pr_archive = data, pr_meta = sample_meta, pr_manifest = sample_manifest\<rparr>"
    unfolding packArchive_def i sample_manifest_accepted validation_def sum.case and_then_simps prod.case sample_collected Let_def sample_manifest_bytes f
      sample_checked sample_digest m sample_meta_bytes s using c by (simp add: ensure_def)
  then show ?thesis by simp
qed

theorem packed_archive_verifies_witness:
  "\<exists>r. packArchive sample_env sample_input = Inr r \<and>
     (case verifyArchive sample_env (pr_archive r) of Inl _ \<Rightarrow> False | Inr v \<Rightarrow> vr_valid v)"
proof -
  obtain r where r: "packArchive sample_env sample_input = Inr r" "pr_manifest r = sample_manifest" "pr_meta r = sample_meta"
    using sample_packed by blast
  have "\<forall>s. ae_decode sample_env (utf8_encode s) = s" by (simp add: sample_env_def)
  from packed_archive_verifies [OF this r(1)] show ?thesis using r sample_reads sample_paths by auto
qed

section \<open>The store\<close>

text \<open>The laws a client of \<open>InstallStorePort\<close> relies on, for the ids and versions of packages.\<close>

definition package_key :: "string \<Rightarrow> string \<Rightarrow> bool" where
  "package_key employee version \<longleftrightarrow> SKILL_NAME_PATTERN employee \<and> SEMVER_PATTERN version"

locale install_store_laws =
  fixes port :: "'s install_port"
  assumes get_put: "package_key (ir_employee r) (ir_version r) \<Longrightarrow> package_key e v \<Longrightarrow>
      ip_get port (ip_put port r s) e v = (if e = ir_employee r \<and> v = ir_version r then Some r else ip_get port s e v)"
    and set_current: "ip_get port s e v \<noteq> None \<Longrightarrow> package_key e v \<Longrightarrow>
      \<exists>t. ip_set_current port e v s = Inr t \<and> ip_current port t e = ip_get port s e v \<and>
        (\<forall>e' v'. ip_get port t e' v' = ip_get port s e' v') \<and> (\<forall>e'. e' \<noteq> e \<longrightarrow> ip_current port t e' = ip_current port s e')"
    and current_put: "package_key (ir_employee r) (ir_version r) \<Longrightarrow> e \<noteq> ir_employee r \<Longrightarrow> SKILL_NAME_PATTERN e \<Longrightarrow>
      ip_current port (ip_put port r s) e = ip_current port s e"
begin

lemma put_current_done:
  assumes "package_key (ir_employee r) (ir_version r)"
  obtains t where "put_current port r s = (Inr r, t)" "ip_current port t (ir_employee r) = Some r"
    "ip_get port t (ir_employee r) (ir_version r) = Some r"
    "\<And>e v. package_key e v \<Longrightarrow> (e, v) \<noteq> (ir_employee r, ir_version r) \<Longrightarrow> ip_get port t e v = ip_get port s e v"
    "\<And>e. e \<noteq> ir_employee r \<Longrightarrow> SKILL_NAME_PATTERN e \<Longrightarrow> ip_current port t e = ip_current port s e"
proof -
  let ?s = "ip_put port r s"
  have g: "ip_get port ?s (ir_employee r) (ir_version r) = Some r" using get_put [OF assms assms] by simp
  then obtain t where t: "ip_set_current port (ir_employee r) (ir_version r) ?s = Inr t" "ip_current port t (ir_employee r) = Some r"
    "\<forall>e' v'. ip_get port t e' v' = ip_get port ?s e' v'" "\<forall>e'. e' \<noteq> ir_employee r \<longrightarrow> ip_current port t e' = ip_current port ?s e'"
    using set_current [of ?s "ir_employee r" "ir_version r"] assms by auto
  show thesis
  proof (rule that [of t])
    show "put_current port r s = (Inr r, t)" using t(1) by (simp add: put_current_def)
    show "ip_current port t (ir_employee r) = Some r" by (rule t(2))
    show "ip_get port t (ir_employee r) (ir_version r) = Some r" using t(3) g by simp
    show "ip_get port t e v = ip_get port s e v" if "package_key e v" "(e, v) \<noteq> (ir_employee r, ir_version r)" for e v
      using t(3) get_put [OF assms that(1)] that(2) by auto
    show "ip_current port t e = ip_current port s e" if "e \<noteq> ir_employee r" "SKILL_NAME_PATTERN e" for e
      using t(4) current_put [OF assms that] that(1) by simp
  qed
qed

text \<open>Rolling back to what was current before the upgrade, when the versions differ.\<close>

lemma rollback_restores:
  assumes "package_key (ir_employee r) (ir_version r)" "package_key (ir_employee r) (ir_version c)" "ir_version c \<noteq> ir_version r"
    and "ip_get port s (ir_employee r) (ir_version c) = Some c" "put_current port r s = (Inr r, t)"
  obtains u where "rollbackArchive port (ir_employee r) (ir_version c) t = (Inr c, u)" "ip_current port u (ir_employee r) = Some c"
    "ip_get port u (ir_employee r) (ir_version r) = Some r"
proof -
  from assms(1) obtain t' where p: "put_current port r s = (Inr r, t')" "ip_current port t' (ir_employee r) = Some r"
    "ip_get port t' (ir_employee r) (ir_version r) = Some r"
    "\<And>e v. package_key e v \<Longrightarrow> (e, v) \<noteq> (ir_employee r, ir_version r) \<Longrightarrow> ip_get port t' e v = ip_get port s e v"
    by (rule put_current_done [of r s]) blast
  have t: "t' = t" using p(1) assms(5) by simp
  have g: "ip_get port t (ir_employee r) (ir_version c) = Some c" using p(4) [OF assms(2)] assms(3,4) t by simp
  obtain u where u: "ip_set_current port (ir_employee r) (ir_version c) t = Inr u" "ip_current port u (ir_employee r) = Some c"
    "\<forall>e' v'. ip_get port u e' v' = ip_get port t e' v'"
    using set_current [of t "ir_employee r" "ir_version c"] g assms(2) by auto
  show thesis
    by (rule that [of u]) (use g p(2,3) t u assms(3) in \<open>auto simp: rollbackArchive_def\<close>)
qed

end

lemma name_no_at: "SKILL_NAME_PATTERN e \<Longrightarrow> CHR ''@'' \<notin> set e"
proof -
  assume "SKILL_NAME_PATTERN e"
  then have "list_all (\<lambda>run. list_all (\<lambda>c. is_lower c \<or> is_digit c) run) (split_on (CHR ''-'') e)"
    by (auto simp: SKILL_NAME_PATTERN_def name_pattern_def list_all_iff)
  moreover have "\<not> is_lower (CHR ''@'')" "\<not> is_digit (CHR ''@'')" by code_simp+
  ultimately have "list_all (\<lambda>run. list_all (\<lambda>c. c \<noteq> CHR ''@'') run) (split_on (CHR ''-'') e)"
    unfolding list_all_iff by metis
  from split_on_all [OF this] show ?thesis by (auto simp: list_all_iff)
qed

lemma key_inj:
  assumes "SKILL_NAME_PATTERN e" "SKILL_NAME_PATTERN e'"
  shows "store_key e v = store_key e' v' \<longleftrightarrow> e = e' \<and> v = v'"
proof
  assume a: "store_key e v = store_key e' v'"
  have "takeWhile (\<lambda>c. c \<noteq> CHR ''@'') (x @ ''@'' @ y) = x" if "CHR ''@'' \<notin> set x" for x y
    using that by (induction x) auto
  from this [OF name_no_at [OF assms(1)], of v] this [OF name_no_at [OF assms(2)], of v']
  have "e = e'" using a by (simp add: store_key_def)
  then show "e = e' \<and> v = v'" using a by (simp add: store_key_def)
qed simp

lemma semver_ne: "SEMVER_PATTERN v \<Longrightarrow> v \<noteq> []"
  by (auto simp: SEMVER_PATTERN_def number_then_def semver_number_def)

interpretation memory: install_store_laws in_memory
proof
  fix r :: install_record and s :: install_store and e v
  assume "package_key (ir_employee r) (ir_version r)" "package_key e v"
  then show "ip_get in_memory (ip_put in_memory r s) e v =
      (if e = ir_employee r \<and> v = ir_version r then Some r else ip_get in_memory s e v)"
    by (auto simp: in_memory_def store_get_def store_put_def package_key_def key_inj)
next
  fix s e v
  assume "ip_get in_memory s e v \<noteq> None" "package_key e v"
  then show "\<exists>t. ip_set_current in_memory e v s = Inr t \<and> ip_current in_memory t e = ip_get in_memory s e v \<and>
      (\<forall>e' v'. ip_get in_memory t e' v' = ip_get in_memory s e' v') \<and>
      (\<forall>e'. e' \<noteq> e \<longrightarrow> ip_current in_memory t e' = ip_current in_memory s e')"
    using semver_ne by (auto simp: in_memory_def store_get_def store_set_current_def store_current_def map_has_get package_key_def
        split: option.splits)
next
  fix r :: install_record and s :: install_store and e
  assume "package_key (ir_employee r) (ir_version r)" "e \<noteq> ir_employee r" "SKILL_NAME_PATTERN e"
  then show "ip_current in_memory (ip_put in_memory r s) e = ip_current in_memory s e"
    by (auto simp: in_memory_def store_current_def store_get_def store_put_def package_key_def key_inj split: option.splits)
qed

section \<open>The store over a history\<close>

definition store_ok :: "install_store \<Rightarrow> bool" where
  "store_ok s \<longleftrightarrow>
     list_all (\<lambda>(k, r). k = store_key (ir_employee r) (ir_version r) \<and> package_key (ir_employee r) (ir_version r)) (st_records s) \<and>
     list_all (\<lambda>(e, v). package_key e v \<and> map_has (st_records s) (store_key e v)) (st_current s)"

datatype store_operation =
    Install string "nat list"
  | Upgrade string "nat list"
  | Rollback string string

definition apply_operation :: "archive_env \<Rightarrow> store_operation \<Rightarrow> install_store \<Rightarrow> install_store" where
  "apply_operation env op s = (case op of
      Install now data \<Rightarrow> snd (installArchive env in_memory now data s)
    | Upgrade now data \<Rightarrow> snd (upgradeArchive env in_memory now data s)
    | Rollback e v \<Rightarrow> snd (rollbackArchive in_memory e v s))"

definition history :: "archive_env \<Rightarrow> store_operation list \<Rightarrow> install_store" where
  "history env ops = fold (apply_operation env) ops empty_store"

lemma inspected_key: "inspectArchive env data = Inr x \<Longrightarrow> package_key (mf_name (is_manifest x)) (mf_version (is_manifest x))"
proof -
  assume "inspectArchive env data = Inr x"
  then obtain entries where e: "(case entries of
       [] \<Rightarrow> Inl (Archive_code ''archive_empty'')
     | e # _ \<Rightarrow>
        ensure (en_path e = ARCHIVE_META_NAME) (Archive_code ''archive_missing_meta'')
       (case meta_of env e of
          None \<Rightarrow> Inl (Archive_code ''archive_meta_parse_error'')
        | Some meta \<Rightarrow> inspect_entries env entries meta)) = Inr x"
    unfolding inspectArchive_def accepts by blast
  then obtain meta where "inspect_entries env entries meta = Inr x"
    by (cases entries) (auto simp: accepts split: option.splits)
  then obtain entry where "read_manifest_entry env entry = Inr (is_manifest x)"
    by (auto simp: inspect_entries_def accepts split: option.splits simp del: js_get.simps)
  then obtain v w where "validateEmployeePackageManifest v = Inr (is_manifest x, w)"
    by (auto simp: read_manifest_entry_def validation_def accepts split: option.splits sum.splits)
  from accepted_sound [OF this] show ?thesis by (simp add: manifest_sound_def package_key_def)
qed

lemma checked_key: "checked_archive env code now data = Inr r \<Longrightarrow> package_key (ir_employee r) (ir_version r)"
  using inspected_key by (auto simp: checked_archive_def install_record_of_def accepts)

lemma put_current_ok: "store_ok s \<Longrightarrow> package_key (ir_employee r) (ir_version r) \<Longrightarrow> store_ok (snd (put_current in_memory r s))"
proof -
  assume a: "store_ok s" "package_key (ir_employee r) (ir_version r)"
  let ?k = "store_key (ir_employee r) (ir_version r)"
  have r: "list_all (\<lambda>(k, r). k = store_key (ir_employee r) (ir_version r) \<and> package_key (ir_employee r) (ir_version r))
      (map_set (st_records s) ?k r)"
    using a by (intro list_all_map_set) (simp_all add: store_ok_def)
  have h: "map_has (map_set (st_records s) ?k r) j \<longleftrightarrow> j = ?k \<or> map_has (st_records s) j" for j
    by (simp add: map_has_def keys_map_set)
  have c: "list_all (\<lambda>(e, v). package_key e v \<and> map_has (map_set (st_records s) ?k r) (store_key e v)) (st_current s)"
    using a(1) unfolding store_ok_def h by (auto simp: list_all_iff)
  have "list_all (\<lambda>(e, v). package_key e v \<and> map_has (map_set (st_records s) ?k r) (store_key e v))
      (map_set (st_current s) (ir_employee r) (ir_version r))"
    using c a(2) h by (intro list_all_map_set) simp_all
  then show ?thesis using r h
    by (simp add: put_current_def in_memory_def store_put_def store_set_current_def store_ok_def)
qed

lemma store_set_current_ok: "store_ok s \<Longrightarrow> package_key e v \<Longrightarrow> store_set_current e v s = Inr t \<Longrightarrow> store_ok t"
  unfolding store_ok_def store_set_current_def by (auto simp: accepts intro!: list_all_map_set)

lemma semver_no_at: "SEMVER_PATTERN v \<Longrightarrow> CHR ''@'' \<notin> set v"
  using semver_version [of v] by (auto simp: list_all_iff version_char_def ascii_alnum_def is_lower_def is_upper_def is_digit_def)

text \<open>A key that some record has names the employee and the version of that record.\<close>

lemma key_split:
  assumes "store_key e v = store_key e' v'" "package_key e' v'"
  shows "e = e' \<and> v = v'"
proof -
  have "count_list (store_key e' v') (CHR ''@'') = 1"
    using name_no_at [of e'] semver_no_at [of v'] assms(2)
    by (simp add: store_key_def package_key_def count_list_append count_list_0_iff)
  then have "count_list e (CHR ''@'') = 0"
    unfolding assms(1) [symmetric] by (simp add: store_key_def count_list_append)
  then have n: "CHR ''@'' \<notin> set e" by (simp add: count_list_0_iff)
  have t: "takeWhile (\<lambda>c. c \<noteq> CHR ''@'') (x @ ''@'' @ y) = x" if "CHR ''@'' \<notin> set x" for x y
    using that by (induction x) auto
  have "e = e'" using assms t [OF n, of v] t [of e' v'] name_no_at [of e'] by (simp add: store_key_def package_key_def)
  then show ?thesis using assms(1) by (simp add: store_key_def)
qed

lemma found_key: "store_ok s \<Longrightarrow> store_get s e v = Some r \<Longrightarrow> ir_employee r = e \<and> ir_version r = v \<and> package_key e v"
proof -
  assume "store_ok s" "store_get s e v = Some r"
  then have "store_key e v = store_key (ir_employee r) (ir_version r)" "package_key (ir_employee r) (ir_version r)"
    unfolding store_ok_def store_get_def by (auto dest: list_all_map_get)
  from key_split [OF this] this(2) show ?thesis by simp
qed

lemma rollback_ok:
  assumes "store_ok s"
  shows "store_ok (snd (rollbackArchive in_memory e v s))"
proof (cases "store_get s e v")
  case (Some r)
  have k: "package_key e v" using found_key [OF assms Some] by simp
  show ?thesis
  proof (cases "store_set_current e v s")
    case (Inr t)
    then show ?thesis using store_set_current_ok [OF assms k Inr] assms Some
      by (simp add: rollbackArchive_def in_memory_def)
  qed (use assms Some in \<open>simp add: rollbackArchive_def in_memory_def\<close>)
qed (use assms in \<open>simp add: rollbackArchive_def in_memory_def\<close>)

lemma install_ok: "store_ok s \<Longrightarrow> store_ok (snd (installArchive env in_memory now data s))"
  using put_current_ok checked_key by (simp add: installArchive_def split: sum.split)

lemma upgrade_ok: "store_ok s \<Longrightarrow> store_ok (snd (upgradeArchive env in_memory now data s))"
  using put_current_ok checked_key by (simp add: upgradeArchive_def split: sum.split)

lemma operation_ok: "store_ok s \<Longrightarrow> store_ok (apply_operation env op s)"
  by (cases op) (simp_all add: apply_operation_def install_ok upgrade_ok rollback_ok)

text \<open>Whatever is installed, upgraded and rolled back, every record stands under its own key, and the current version of an
  employee is one that is installed.\<close>

theorem install_store_stays_consistent: "store_ok (history env ops)"
proof -
  have "store_ok (fold (apply_operation env) ops s)" if "store_ok s" for s
    using that by (induction ops arbitrary: s) (simp_all add: operation_ok)
  then show ?thesis by (simp add: history_def empty_store_def store_ok_def)
qed

lemma current_found:
  assumes "store_ok s" "store_current s e = Some c"
  shows "ir_employee c = e \<and> package_key e (ir_version c) \<and> store_get s e (ir_version c) = Some c"
proof -
  obtain v where v: "store_get s e v = Some c" using assms(2) by (auto simp: store_current_def split: option.splits if_splits)
  from found_key [OF assms(1) v] v show ?thesis by simp
qed

definition rolled_back :: "install_store \<Rightarrow> install_record \<Rightarrow> install_store \<Rightarrow> bool" where
  "rolled_back s r t = (case store_current s (ir_employee r) of
      None \<Rightarrow> True
    | Some c \<Rightarrow>
        if ir_version c = ir_version r then True
        else (case rollbackArchive in_memory (ir_employee r) (ir_version c) t of
          (Inl _, _) \<Rightarrow> False
        | (Inr x, u) \<Rightarrow> x = c \<and> store_current u (ir_employee r) = Some c \<and>
            store_get u (ir_employee r) (ir_version r) = Some r))"

lemma upgraded_rolls_back:
  assumes "store_ok s" "upgradeArchive env in_memory now data s = (Inr r, t)"
  shows "rolled_back s r t"
proof (cases "store_current s (ir_employee r)")
  case (Some c)
  have p: "put_current in_memory r s = (Inr r, t)" and k: "package_key (ir_employee r) (ir_version r)"
    using assms(2) checked_key by (auto simp: upgradeArchive_def put_current_def Let_def split: sum.splits if_splits)
  note f = current_found [OF assms(1) Some]
  show ?thesis
  proof (cases "ir_version c = ir_version r")
    case False
    have g: "ip_get in_memory s (ir_employee r) (ir_version c) = Some c" using f by (simp add: in_memory_def)
    obtain u where "rollbackArchive in_memory (ir_employee r) (ir_version c) t = (Inr c, u)"
      "ip_current in_memory u (ir_employee r) = Some c" "ip_get in_memory u (ir_employee r) (ir_version r) = Some r"
      using memory.rollback_restores [OF k _ False g p] f by blast
    then show ?thesis using Some False by (simp add: rolled_back_def) (simp add: in_memory_def)
  qed (simp add: rolled_back_def Some)
qed (simp add: rolled_back_def)

text \<open>C32: After any history an upgrade to another version can be rolled back: the version that was current before becomes current
  again, with its record unchanged, and the version rolled back from stays installed.\<close>

theorem upgrade_can_be_rolled_back:
  "case upgradeArchive env in_memory now data (history env ops) of
      (Inl _, _) \<Rightarrow> True
    | (Inr r, t) \<Rightarrow> rolled_back (history env ops) r t"
proof -
  have "store_ok (fold (apply_operation env) ops s)" if "store_ok s" for s
    using that by (induction ops arbitrary: s) (simp_all add: operation_ok)
  then have "store_ok (history env ops)" by (simp add: history_def empty_store_def store_ok_def)
  then show ?thesis using upgraded_rolls_back by (auto split: prod.split sum.split)
qed

text \<open>An upgrade to other bytes under the version that is current replaces its record: there is nothing to roll back to.\<close>

lemma same_version_is_lost:
  assumes "store_ok s" "upgradeArchive env in_memory now data s = (Inr r, t)" "store_current s (ir_employee r) = Some c"
    "ir_version c = ir_version r"
  shows "store_get t (ir_employee r) (ir_version c) = Some r"
proof -
  have p: "put_current in_memory r s = (Inr r, t)" and k: "package_key (ir_employee r) (ir_version r)"
    using assms(2) checked_key by (auto simp: upgradeArchive_def put_current_def Let_def split: sum.splits if_splits)
  from k obtain t' where t: "put_current in_memory r s = (Inr r, t')"
    "ip_get in_memory t' (ir_employee r) (ir_version r) = Some r"
    by (rule memory.put_current_done [of r s]) blast
  then show ?thesis using p assms(4) by (simp add: in_memory_def)
qed

section \<open>Entries nobody looks at\<close>

text \<open>A further entry under the name of the envelope is neither hashed nor checked.\<close>

lemma hidden_entry_verifies:
  "verify_entries env (e # es @ [\<lparr>en_path = ARCHIVE_META_NAME, en_bytes = hidden\<rparr>]) = verify_entries env (e # es)"
proof -
  have c: "content_entries (e # es @ [\<lparr>en_path = ARCHIVE_META_NAME, en_bytes = hidden\<rparr>]) = content_entries (e # es)"
    by (simp add: content_entries_def)
  show ?thesis unfolding verify_entries_def list.case c ..
qed

end
