(* ===== verification/UsageEvidence.thy ===== *)
theory UsageEvidence
  imports PositionConnectors "HOL-Library.Multiset"
begin

text \<open>
  packages/core/src/runner-usage-evidence.ts: the validation of usage evidence, the normalization of the records of an attempt,
  the classification of a proof and the binding to a receipt. Dates (\<open>Date.parse\<close>, \<open>toISOString\<close>) are
  parameters; where a record has an invalid date the order after sorting is the engine's, the parameter \<open>ue_disorder\<close>. Counts are exact
  integers, which JavaScript's sums are up to 2^53. Errors carry the field.
\<close>

record usage_env =
  ue_date :: "string \<Rightarrow> int option"
  ue_iso :: "int \<Rightarrow> string"

datatype usage_source = Runner_self_report | Provider_signed_source | Gateway_trusted | Unknown_source

datatype proof_quality = Unverified | Runner_attested | Provider_signed | Gateway_verified

record usage_tokens =
  ut_input :: int
  ut_output :: int
  ut_cached :: "int option"

record usage_requests =
  ur_count :: int
  ur_tool_calls :: "int option"

record time_bounds =
  tb_started :: string
  tb_completed :: string

record usage_record =
  us_evidence :: string
  us_task :: string
  us_run :: string
  us_attempt :: int
  us_runner :: string
  us_timestamp :: string
  us_provider :: "(string, jsval) jsmap"
  us_tokens :: usage_tokens
  us_requests :: usage_requests
  us_bounds :: time_bounds
  us_source :: usage_source
  us_quality :: proof_quality
  us_reference :: "string option"
  us_redactions :: "string list option"

datatype usage_error = Usage_field string | Usage_empty | Usage_mixed | Usage_range_error

section \<open>Validation\<close>

definition USAGE_EVIDENCE_VERSION :: string where
  "USAGE_EVIDENCE_VERSION = ''usage-evidence.v1''"

definition usage_id_head :: "char \<Rightarrow> bool" where
  "usage_id_head c = (is_upper c \<or> is_lower c \<or> is_digit c)"

text \<open>\<open>/^[A-Za-z0-9][A-Za-z0-9._:/-]{0,199}$/\<close>\<close>

definition USAGE_ID_PATTERN :: "string \<Rightarrow> bool" where
  "USAGE_ID_PATTERN = bounded_name usage_id_head (\<lambda>c. usage_id_head c \<or> c \<in> set ''._:/-'') 199"

text \<open>\<open>/^\d{4}-\d{2}-\d{2}T\d{2}:\d{2}:\d{2}(\.\d{1,3})?Z$/\<close>: a digit where the shape has \<open>9\<close>.\<close>

definition has_shape :: "string \<Rightarrow> string \<Rightarrow> bool" where
  "has_shape shape s = list_all2 (\<lambda>x c. if x = CHR ''9'' then is_digit c else c = x) shape s"

definition ISO_TIMESTAMP_PATTERN :: "string \<Rightarrow> bool" where
  "ISO_TIMESTAMP_PATTERN s = list_ex (\<lambda>fraction. has_shape (''9999-99-99T99:99:99'' @ fraction @ ''Z'') s) [[], ''.9'', ''.99'', ''.999'']"

definition VALID_SOURCES :: "(string \<times> usage_source) list" where
  "VALID_SOURCES = [(''runner_self_report'', Runner_self_report), (''provider_signed'', Provider_signed_source),
     (''gateway_trusted'', Gateway_trusted), (''unknown'', Unknown_source)]"

definition VALID_PROOF_QUALITIES :: "(string \<times> proof_quality) list" where
  "VALID_PROOF_QUALITIES = [(''unverified'', Unverified), (''runner_attested'', Runner_attested),
     (''provider_signed'', Provider_signed), (''gateway_verified'', Gateway_verified)]"

definition assertString :: "string \<Rightarrow> jsval \<Rightarrow> usage_error + string" where
  "assertString field v = (case js_str v of
      None \<Rightarrow> Inl (Usage_field field) | Some s \<Rightarrow> ensure (s \<noteq> []) (Usage_field field) (Inr s))"

definition assert_matching :: "(string \<Rightarrow> bool) \<Rightarrow> string \<Rightarrow> jsval \<Rightarrow> usage_error + string" where
  "assert_matching pattern field v = and_then (assertString field v) (\<lambda>s. ensure (pattern s) (Usage_field field) (Inr s))"

definition usage_id :: "string \<Rightarrow> jsval \<Rightarrow> usage_error + string" where
  "usage_id = assert_matching USAGE_ID_PATTERN"

definition usage_timestamp :: "string \<Rightarrow> jsval \<Rightarrow> usage_error + string" where
  "usage_timestamp = assert_matching ISO_TIMESTAMP_PATTERN"

definition assert_int :: "int \<Rightarrow> string \<Rightarrow> jsval \<Rightarrow> usage_error + int" where
  "assert_int least field v = (case js_int v of
      None \<Rightarrow> Inl (Usage_field field) | Some n \<Rightarrow> ensure (\<not> n < least) (Usage_field field) (Inr n))"

definition assert_object :: "string \<Rightarrow> jsval \<Rightarrow> usage_error + jsval" where
  "assert_object field v = ensure (is_plain_object v) (Usage_field field) (Inr v)"

definition optional_value :: "(jsval \<Rightarrow> usage_error + 'a) \<Rightarrow> jsval \<Rightarrow> usage_error + 'a option" where
  "optional_value f v = (if v = JUndef then Inr None else and_then (f v) (\<lambda>x. Inr (Some x)))"

definition assert_one_of :: "(string \<times> 'a) list \<Rightarrow> string \<Rightarrow> jsval \<Rightarrow> usage_error + 'a" where
  "assert_one_of table field v =
     and_then (assertString field v) (\<lambda>s. case map_of table s of None \<Rightarrow> Inl (Usage_field field) | Some x \<Rightarrow> Inr x)"

text \<open>\<open>{ ...providerRaw, id, model }\<close>, then the region set or deleted.\<close>

definition read_provider :: "jsval \<Rightarrow> usage_error + (string, jsval) jsmap" where
  "read_provider v =
     and_then (assert_object ''provider'' v) (\<lambda>raw.
     and_then (assertString ''provider.id'' (js_get raw ''id'')) (\<lambda>i.
     and_then (assertString ''provider.model'' (js_get raw ''model'')) (\<lambda>model.
     and_then (optional_value (assertString ''provider.region'') (js_get raw ''region'')) (\<lambda>region.
     let provider = map_set (map_set (object_entries raw) ''id'' (JStr i)) ''model'' (JStr model)
     in Inr (case region of
          None \<Rightarrow> map_delete provider ''region'' | Some r \<Rightarrow> map_set provider ''region'' (JStr r))))))"

definition read_tokens :: "jsval \<Rightarrow> usage_error + usage_tokens" where
  "read_tokens v =
     and_then (assert_object ''tokens'' v) (\<lambda>raw.
     and_then (assert_int 0 ''tokens.input'' (js_get raw ''input'')) (\<lambda>i.
     and_then (assert_int 0 ''tokens.output'' (js_get raw ''output'')) (\<lambda>o'.
     and_then (optional_value (assert_int 0 ''tokens.cached'') (js_get raw ''cached'')) (\<lambda>cached.
       Inr \<lparr>ut_input = i, ut_output = o', ut_cached = cached\<rparr>))))"

definition read_requests :: "jsval \<Rightarrow> usage_error + usage_requests" where
  "read_requests v =
     and_then (assert_object ''requests'' v) (\<lambda>raw.
     and_then (assert_int 1 ''requests.count'' (js_get raw ''count'')) (\<lambda>count.
     and_then (optional_value (assert_int 0 ''requests.toolCalls'') (js_get raw ''toolCalls'')) (\<lambda>calls.
       Inr \<lparr>ur_count = count, ur_tool_calls = calls\<rparr>)))"

text \<open>\<open>completed < started\<close> is false when one of them is NaN.\<close>

definition ends_early :: "usage_env \<Rightarrow> string \<Rightarrow> string \<Rightarrow> bool" where
  "ends_early env started completed = (case ue_date env completed of
      None \<Rightarrow> False | Some c \<Rightarrow> (case ue_date env started of None \<Rightarrow> False | Some s \<Rightarrow> c < s))"

definition read_bounds :: "usage_env \<Rightarrow> jsval \<Rightarrow> usage_error + time_bounds" where
  "read_bounds env v =
     and_then (assert_object ''timeBounds'' v) (\<lambda>raw.
     and_then (usage_timestamp ''timeBounds.startedAt'' (js_get raw ''startedAt'')) (\<lambda>started.
     and_then (usage_timestamp ''timeBounds.completedAt'' (js_get raw ''completedAt'')) (\<lambda>completed.
     ensure (\<not> ends_early env started completed)
       (Usage_field ''timeBounds.completedAt'')
       (Inr \<lparr>tb_started = started, tb_completed = completed\<rparr>))))"

fun read_strings :: "jsval list \<Rightarrow> usage_error + string list" where
  "read_strings [] = Inr []"
| "read_strings (v # vs) = and_then (assertString ''redactions'' v) (\<lambda>s. and_then (read_strings vs) (\<lambda>ss. Inr (s # ss)))"

definition read_redactions :: "jsval \<Rightarrow> usage_error + string list" where
  "read_redactions v = (case v of JArr vs \<Rightarrow> read_strings vs | _ \<Rightarrow> Inl (Usage_field ''redactions''))"

definition validateUsageEvidence :: "usage_env \<Rightarrow> jsval \<Rightarrow> usage_error + usage_record" where
  "validateUsageEvidence env v =
     and_then (assert_object ''Evidence'' v) (\<lambda>raw.
     and_then (usage_id ''evidenceId'' (js_get raw ''evidenceId'')) (\<lambda>evidenceId.
     and_then (assert_matching (\<lambda>s. s = USAGE_EVIDENCE_VERSION) ''version'' (js_get raw ''version'')) (\<lambda>_.
     and_then (usage_id ''taskId'' (js_get raw ''taskId'')) (\<lambda>taskId.
     and_then (usage_id ''runId'' (js_get raw ''runId'')) (\<lambda>runId.
     and_then (assert_int 1 ''attempt'' (js_get raw ''attempt'')) (\<lambda>attempt.
     and_then (usage_id ''runnerId'' (js_get raw ''runnerId'')) (\<lambda>runnerId.
     and_then (usage_timestamp ''timestamp'' (js_get raw ''timestamp'')) (\<lambda>timestamp.
     and_then (read_provider (js_get raw ''provider'')) (\<lambda>provider.
     and_then (read_tokens (js_get raw ''tokens'')) (\<lambda>tokens.
     and_then (read_requests (js_get raw ''requests'')) (\<lambda>requests.
     and_then (read_bounds env (js_get raw ''timeBounds'')) (\<lambda>bounds.
     and_then (assert_one_of VALID_SOURCES ''source'' (js_get raw ''source'')) (\<lambda>source.
     and_then (assert_one_of VALID_PROOF_QUALITIES ''proofQuality'' (js_get raw ''proofQuality'')) (\<lambda>quality.
     and_then (optional_value (assertString ''proofReference'') (js_get raw ''proofReference'')) (\<lambda>reference.
     and_then (optional_value read_redactions (js_get raw ''redactions'')) (\<lambda>redactions.
       Inr \<lparr>us_evidence = evidenceId, us_task = taskId, us_run = runId, us_attempt = attempt, us_runner = runnerId,
            us_timestamp = timestamp, us_provider = provider, us_tokens = tokens, us_requests = requests, us_bounds = bounds,
            us_source = source, us_quality = quality, us_reference = reference, us_redactions = redactions\<rparr>))))))))))))))))"

section \<open>Normalization\<close>

definition same_attempt :: "usage_record \<Rightarrow> usage_record \<Rightarrow> bool" where
  "same_attempt first e \<longleftrightarrow> us_task e = us_task first \<and> us_run e = us_run first \<and> us_attempt e = us_attempt first"

definition dated :: "usage_env \<Rightarrow> usage_record \<Rightarrow> bool" where
  "dated env e \<longleftrightarrow> ue_date env (us_timestamp e) \<noteq> None"

definition by_timestamp :: "usage_env \<Rightarrow> (usage_record list \<Rightarrow> usage_record list) \<Rightarrow> usage_record list \<Rightarrow> usage_record list" where
  "by_timestamp env disorder events =
     (if list_all (dated env) events then sort_key (\<lambda>e. the (ue_date env (us_timestamp e))) events else disorder events)"

text \<open>One violation for each counter that decreases, with the record where it does.\<close>

fun token_violations :: "usage_record list \<Rightarrow> (string \<times> string) list" where
  "token_violations (p # c # es) =
     (if ut_input (us_tokens c) < ut_input (us_tokens p) then [(''tokens.input'', us_evidence c)] else []) @
     (if ut_output (us_tokens c) < ut_output (us_tokens p) then [(''tokens.output'', us_evidence c)] else []) @
     token_violations (c # es)"
| "token_violations _ = []"

definition present :: "('a \<Rightarrow> 'b option) \<Rightarrow> 'a list \<Rightarrow> 'b list" where
  "present f xs = concat (map (\<lambda>x. case f x of None \<Rightarrow> [] | Some y \<Rightarrow> [y]) xs)"

definition max_list :: "int list \<Rightarrow> int" where
  "max_list xs = foldl max (hd xs) (tl xs)"

definition min_list_int :: "int list \<Rightarrow> int" where
  "min_list_int xs = foldl min (hd xs) (tl xs)"

definition aggregated_tokens :: "usage_record list \<Rightarrow> usage_tokens" where
  "aggregated_tokens es =
     (let cached = present (\<lambda>e. ut_cached (us_tokens e)) es
      in \<lparr>ut_input = max_list (map (\<lambda>e. ut_input (us_tokens e)) es), ut_output = max_list (map (\<lambda>e. ut_output (us_tokens e)) es),
          ut_cached = (if cached = [] then None else Some (max_list cached))\<rparr>)"

definition aggregated_requests :: "usage_record list \<Rightarrow> usage_requests" where
  "aggregated_requests es =
     (let calls = present (\<lambda>e. ur_tool_calls (us_requests e)) es
      in \<lparr>ur_count = sum_list (map (\<lambda>e. ur_count (us_requests e)) es),
          ur_tool_calls = (if calls = [] then None else Some (sum_list calls))\<rparr>)"

definition qualityRank :: "proof_quality \<Rightarrow> nat" where
  "qualityRank q = (case q of Unverified \<Rightarrow> 0 | Runner_attested \<Rightarrow> 1 | Provider_signed \<Rightarrow> 2 | Gateway_verified \<Rightarrow> 3)"

definition best_quality :: "usage_record list \<Rightarrow> proof_quality" where
  "best_quality es = foldl (\<lambda>best e. if qualityRank (us_quality e) > qualityRank best then us_quality e else best) (us_quality (hd es)) es"

text \<open>\<open>toISOString\<close> of a NaN throws.\<close>

definition aggregated_bounds :: "usage_env \<Rightarrow> usage_record list \<Rightarrow> usage_error + time_bounds" where
  "aggregated_bounds env es =
     (let started = map (\<lambda>e. ue_date env (tb_started (us_bounds e))) es;
          completed = map (\<lambda>e. ue_date env (tb_completed (us_bounds e))) es
      in ensure (None \<notin> set started \<and> None \<notin> set completed) Usage_range_error
           (Inr \<lparr>tb_started = ue_iso env (min_list_int (map the started)), tb_completed = ue_iso env (max_list (map the completed))\<rparr>))"

definition normalizeUsageEvidence ::
  "usage_env \<Rightarrow> (usage_record list \<Rightarrow> usage_record list) \<Rightarrow> usage_record list \<Rightarrow> usage_error + usage_record" where
  "normalizeUsageEvidence env disorder events = (case events of
      [] \<Rightarrow> Inl Usage_empty
    | [e] \<Rightarrow> Inr e
    | first # _ \<Rightarrow>
       ensure (list_all (same_attempt first) events) Usage_mixed
      (let sorted = by_timestamp env disorder events; latest = last sorted
       in and_then (aggregated_bounds env sorted) (\<lambda>bounds.
          Inr \<lparr>us_evidence = us_evidence latest, us_task = us_task first, us_run = us_run first, us_attempt = us_attempt first,
               us_runner = us_runner first, us_timestamp = us_timestamp latest, us_provider = us_provider latest,
               us_tokens = aggregated_tokens sorted, us_requests = aggregated_requests sorted, us_bounds = bounds,
               us_source = us_source latest,
               us_quality = (if token_violations sorted \<noteq> [] then Unverified else best_quality sorted),
               us_reference = us_reference latest, us_redactions = us_redactions latest\<rparr>)))"

section \<open>Classification and binding\<close>

definition classifyProofQuality :: "usage_record \<Rightarrow> proof_quality" where
  "classifyProofQuality r = (case us_source r of
      Runner_self_report \<Rightarrow> Unverified
    | Unknown_source \<Rightarrow> Unverified
    | Provider_signed_source \<Rightarrow> if us_quality r = Provider_signed then Provider_signed else Runner_attested
    | Gateway_trusted \<Rightarrow> if us_quality r = Gateway_verified then Gateway_verified else Runner_attested)"

record usage_receipt =
  rc_task :: string
  rc_run :: string
  rc_attempt :: int

definition bindEvidenceToReceipt :: "usage_record \<Rightarrow> usage_receipt \<Rightarrow> bool" where
  "bindEvidenceToReceipt e r = (us_task e = rc_task r \<and> us_run e = rc_run r \<and> us_attempt e = rc_attempt r)"

section \<open>What an accepted record holds\<close>

definition usage_sound :: "usage_env \<Rightarrow> usage_record \<Rightarrow> bool" where
  "usage_sound env r \<longleftrightarrow>
     list_all USAGE_ID_PATTERN [us_evidence r, us_task r, us_run r, us_runner r] \<and> us_attempt r \<ge> 1 \<and>
     ut_input (us_tokens r) \<ge> 0 \<and> ut_output (us_tokens r) \<ge> 0 \<and> ur_count (us_requests r) \<ge> 1 \<and>
     \<not> ends_early env (tb_started (us_bounds r)) (tb_completed (us_bounds r)) \<and>
     map_get (us_provider r) ''region'' \<noteq> Some JUndef"

lemma matching_Inr: "assert_matching pattern field v = Inr s \<Longrightarrow> pattern s"
  by (auto simp: assert_matching_def accepts)

lemma int_Inr: "assert_int least field v = Inr n \<Longrightarrow> least \<le> n"
  by (auto simp: assert_int_def accepts split: option.splits)

lemma tokens_Inr: "read_tokens v = Inr t \<Longrightarrow> ut_input t \<ge> 0 \<and> ut_output t \<ge> 0"
  using int_Inr by (force simp: read_tokens_def accepts simp del: js_get.simps)

lemma requests_Inr: "read_requests v = Inr t \<Longrightarrow> ur_count t \<ge> 1"
  using int_Inr by (force simp: read_requests_def accepts simp del: js_get.simps)

lemma bounds_Inr: "read_bounds env v = Inr b \<Longrightarrow> \<not> ends_early env (tb_started b) (tb_completed b)"
  by (auto simp: read_bounds_def accepts simp del: js_get.simps)

lemma provider_Inr: "read_provider v = Inr p \<Longrightarrow> map_get p ''region'' \<noteq> Some JUndef"
  by (auto simp: read_provider_def accepts Let_def split: option.splits simp del: js_get.simps)

lemma usage_accepted:
  assumes "validateUsageEvidence env v = Inr r"
  shows "usage_sound env r"
proof -
  from assms obtain raw where x: "usage_id ''evidenceId'' (js_get raw ''evidenceId'') = Inr (us_evidence r)"
    "usage_id ''taskId'' (js_get raw ''taskId'') = Inr (us_task r)" "usage_id ''runId'' (js_get raw ''runId'') = Inr (us_run r)"
    "assert_int 1 ''attempt'' (js_get raw ''attempt'') = Inr (us_attempt r)"
    "usage_id ''runnerId'' (js_get raw ''runnerId'') = Inr (us_runner r)"
    "read_provider (js_get raw ''provider'') = Inr (us_provider r)" "read_tokens (js_get raw ''tokens'') = Inr (us_tokens r)"
    "read_requests (js_get raw ''requests'') = Inr (us_requests r)" "read_bounds env (js_get raw ''timeBounds'') = Inr (us_bounds r)"
    unfolding validateUsageEvidence_def accepts by force
  show ?thesis
    using x(1-3,5) [unfolded usage_id_def, THEN matching_Inr] int_Inr [OF x(4)] tokens_Inr [OF x(7)] requests_Inr [OF x(8)]
      bounds_Inr [OF x(9)] provider_Inr [OF x(6)]
    by (simp add: usage_sound_def)
qed

text \<open>Accepted usage evidence names its task, run and runner by well-formed ids, counts at least one attempt and one request and no
  negative tokens, and did not complete before it started.\<close>

theorem accepted_usage_is_sound:
  "case validateUsageEvidence env v of Inl _ \<Rightarrow> True | Inr r \<Rightarrow> usage_sound env r"
  using usage_accepted by (auto split: sum.split)

section \<open>What normalization keeps\<close>

lemma foldl_max: "foldl max (m::int) xs = Max (set (m # xs))"
proof (induction xs arbitrary: m)
  case (Cons x xs)
  have "Max (set (max m x # xs)) = Max (set (m # x # xs))"
    by (cases "xs = []") (simp_all add: max.assoc)
  then show ?case using Cons by simp
qed simp

lemma foldl_min: "foldl min (m::int) xs = Min (set (m # xs))"
proof (induction xs arbitrary: m)
  case (Cons x xs)
  have "Min (set (min m x # xs)) = Min (set (m # x # xs))"
    by (cases "xs = []") (simp_all add: min.assoc)
  then show ?case using Cons by simp
qed simp

lemma max_list_Max: "xs \<noteq> [] \<Longrightarrow> max_list xs = Max (set xs)"
  by (cases xs) (simp_all only: max_list_def list.sel foldl_max simp_thms)

lemma min_list_Min: "xs \<noteq> [] \<Longrightarrow> min_list_int xs = Min (set xs)"
  by (cases xs) (simp_all only: min_list_int_def list.sel foldl_min simp_thms)

lemma mset_present: "mset es = mset fs \<Longrightarrow> mset (present f es) = mset (present f fs)"
proof -
  have "mset (present f es) = (\<Sum>x \<in># mset es. mset (case f x of None \<Rightarrow> [] | Some y \<Rightarrow> [y]))" for es
    by (induction es) (simp_all add: present_def)
  then show "mset es = mset fs \<Longrightarrow> ?thesis" by metis
qed

lemma max_list_perm: "mset xs = mset ys \<Longrightarrow> max_list xs = max_list ys"
  by (metis max_list_Max mset_eq_setD mset_zero_iff mset.simps(1))

lemma min_list_perm: "mset xs = mset ys \<Longrightarrow> min_list_int xs = min_list_int ys"
  by (metis min_list_Min mset_eq_setD mset_zero_iff mset.simps(1))

lemma sum_list_perm: "mset xs = mset ys \<Longrightarrow> sum_list xs = sum_list (ys :: int list)"
  by (metis sum_mset_sum_list)

lemma mset_map_perm: "mset es = mset fs \<Longrightarrow> mset (map f es) = mset (map f fs)"
  by simp

lemma tokens_perm: "mset es = mset fs \<Longrightarrow> aggregated_tokens es = aggregated_tokens fs"
proof -
  assume a: "mset es = mset fs"
  note p = mset_present [OF a, of "\<lambda>e. ut_cached (us_tokens e)"]
  then have "(present (\<lambda>e. ut_cached (us_tokens e)) es = []) = (present (\<lambda>e. ut_cached (us_tokens e)) fs = [])"
    by (metis mset_zero_iff)
  then show ?thesis
    using max_list_perm [OF p] max_list_perm [OF mset_map_perm [OF a]] by (simp add: aggregated_tokens_def Let_def)
qed

lemma requests_perm: "mset es = mset fs \<Longrightarrow> aggregated_requests es = aggregated_requests fs"
proof -
  assume a: "mset es = mset fs"
  note p = mset_present [OF a, of "\<lambda>e. ur_tool_calls (us_requests e)"]
  then have "(present (\<lambda>e. ur_tool_calls (us_requests e)) es = []) = (present (\<lambda>e. ur_tool_calls (us_requests e)) fs = [])"
    by (metis mset_zero_iff)
  then show ?thesis
    using sum_list_perm [OF p] sum_list_perm [OF mset_map_perm [OF a]] by (simp add: aggregated_requests_def Let_def)
qed

lemma bounds_perm: "mset es = mset fs \<Longrightarrow> aggregated_bounds env es = aggregated_bounds env fs"
proof -
  assume a: "mset es = mset fs"
  then have s: "set (map f es) = set (map f fs)" for f by (metis mset_eq_setD mset_map_perm)
  show ?thesis
    using min_list_perm [OF mset_map_perm [OF a]] max_list_perm [OF mset_map_perm [OF a]]
    unfolding aggregated_bounds_def Let_def s map_map by simp
qed

lemma by_timestamp_perm: "list_all (dated env) es \<Longrightarrow> mset (by_timestamp env disorder es) = mset es"
  by (simp add: by_timestamp_def)

text \<open>What two normalizations agree on.\<close>

definition same_totals :: "usage_error + usage_record \<Rightarrow> usage_error + usage_record \<Rightarrow> bool" where
  "same_totals a b = (case (a, b) of
      (Inr r, Inr s) \<Rightarrow> us_tokens r = us_tokens s \<and> us_requests r = us_requests s \<and> us_bounds r = us_bounds s \<and>
        us_task r = us_task s \<and> us_run r = us_run s \<and> us_attempt r = us_attempt s
    | (Inl e, Inl f) \<Rightarrow> e = f
    | _ \<Rightarrow> False)"

lemma normalize_many:
  "2 \<le> length events \<Longrightarrow> normalizeUsageEvidence env disorder events =
     ensure (list_all (same_attempt (hd events)) events) Usage_mixed
      (let sorted = by_timestamp env disorder events; latest = last sorted
       in and_then (aggregated_bounds env sorted) (\<lambda>bounds.
          Inr \<lparr>us_evidence = us_evidence latest, us_task = us_task (hd events), us_run = us_run (hd events),
               us_attempt = us_attempt (hd events), us_runner = us_runner (hd events), us_timestamp = us_timestamp latest,
               us_provider = us_provider latest, us_tokens = aggregated_tokens sorted, us_requests = aggregated_requests sorted,
               us_bounds = bounds, us_source = us_source latest,
               us_quality = (if token_violations sorted \<noteq> [] then Unverified else best_quality sorted),
               us_reference = us_reference latest, us_redactions = us_redactions latest\<rparr>))"
  by (cases events rule: remdups_adj.cases) (simp_all add: normalizeUsageEvidence_def)

lemma same_attempt_head:
  assumes "mset es = mset fs" "es \<noteq> []"
  shows "list_all (same_attempt (hd es)) es = list_all (same_attempt (hd fs)) fs"
    "list_all (same_attempt (hd es)) es \<Longrightarrow> same_attempt (hd es) (hd fs)"
proof -
  have s: "set es = set fs" using assms(1) by (rule mset_eq_setD)
  have n: "fs \<noteq> []" using assms by auto
  have h: "hd es \<in> set fs" "hd fs \<in> set es" using s assms(2) n hd_in_set by metis+
  then show "list_all (same_attempt (hd es)) es = list_all (same_attempt (hd fs)) fs"
    unfolding list_all_iff same_attempt_def s by metis
  show "list_all (same_attempt (hd es)) es \<Longrightarrow> same_attempt (hd es) (hd fs)"
    using h by (simp add: list_all_iff)
qed

text \<open>The totals of an attempt do not depend on the order in which its records arrive.\<close>

theorem usage_totals_ignore_order:
  "if mset es = mset fs \<and> list_all (dated env) es
   then same_totals (normalizeUsageEvidence env disorder es) (normalizeUsageEvidence env disorder fs) else True"
proof (cases "mset es = mset fs \<and> list_all (dated env) es")
  case True
  then have m: "mset es = mset fs" and d: "list_all (dated env) es" by simp_all
  have d': "list_all (dated env) fs" using d mset_eq_setD [OF m] by (simp add: list_all_iff)
  have l: "length es = length fs" using m by (rule mset_eq_length)
  have p: "mset (by_timestamp env disorder es) = mset (by_timestamp env disorder fs)"
    using by_timestamp_perm [OF d] by_timestamp_perm [OF d'] m by simp
  show ?thesis
  proof (cases "2 \<le> length es")
    case True
    then have n: "es \<noteq> []" by auto
    note h = same_attempt_head [OF m n]
    show ?thesis
      using h(2) unfolding normalize_many [OF True] normalize_many [OF True [unfolded l]] h(1) Let_def
        tokens_perm [OF p] requests_perm [OF p] bounds_perm [OF p] same_attempt_def
      by (cases "aggregated_bounds env (by_timestamp env disorder fs)") (auto simp: ensure_def same_totals_def h(1))
  next
    case False
    then consider "es = []" | e where "es = [e]" by (cases es rule: remdups_adj.cases) auto
    then show ?thesis
    proof cases
      case 2
      then have "fs = [e]" using m by simp
      then show ?thesis using 2 by (simp add: normalizeUsageEvidence_def same_totals_def)
    qed (use m in \<open>simp add: normalizeUsageEvidence_def same_totals_def\<close>)
  qed
qed auto

text \<open>Counters that never fall.\<close>

definition not_falling :: "usage_record \<Rightarrow> usage_record \<Rightarrow> bool" where
  "not_falling a b \<longleftrightarrow> ut_input (us_tokens a) \<le> ut_input (us_tokens b) \<and> ut_output (us_tokens a) \<le> ut_output (us_tokens b)"

lemma no_violations: "token_violations es = [] \<longleftrightarrow> sorted_wrt not_falling es"
proof -
  have t: "transp not_falling" by (rule transpI) (auto simp: not_falling_def)
  have "token_violations es = [] \<longleftrightarrow> successively not_falling es"
    by (induction es rule: token_violations.induct) (auto simp: not_falling_def)
  then show ?thesis by (simp add: successively_conv_sorted_wrt [OF t])
qed

text \<open>What the counters of an attempt add up to: the highest token counts and the sums of the requests; a counter that no record
  reports is absent.\<close>

definition highest :: "(usage_record \<Rightarrow> int option) \<Rightarrow> usage_record list \<Rightarrow> int option" where
  "highest f es = (if list_all (\<lambda>e. f e = None) es then None else Some (Max {n. \<exists>e \<in> set es. f e = Some n}))"

definition summed :: "(usage_record \<Rightarrow> int option) \<Rightarrow> usage_record list \<Rightarrow> int option" where
  "summed f es =
     (if list_all (\<lambda>e. f e = None) es then None else Some (sum_list (map (\<lambda>e. case f e of None \<Rightarrow> 0 | Some n \<Rightarrow> n) es)))"

definition high_water :: "usage_env \<Rightarrow> usage_record list \<Rightarrow> usage_record \<Rightarrow> bool" where
  "high_water env es r \<longleftrightarrow>
     list_all (same_attempt r) es \<and>
     ut_input (us_tokens r) = Max (set (map (\<lambda>e. ut_input (us_tokens e)) es)) \<and>
     ut_output (us_tokens r) = Max (set (map (\<lambda>e. ut_output (us_tokens e)) es)) \<and>
     ut_cached (us_tokens r) = highest (\<lambda>e. ut_cached (us_tokens e)) es \<and>
     ur_count (us_requests r) = sum_list (map (\<lambda>e. ur_count (us_requests e)) es) \<and>
     ur_tool_calls (us_requests r) = summed (\<lambda>e. ur_tool_calls (us_requests e)) es \<and>
     (if sorted_wrt not_falling (sort_key (\<lambda>e. the (ue_date env (us_timestamp e))) es)
      then qualityRank (us_quality r) = Max (set (map (\<lambda>e. qualityRank (us_quality e)) es))
      else us_quality r = Unverified)"

lemma set_present: "set (present f es) = {n. \<exists>e \<in> set es. f e = Some n}"
  by (auto simp: present_def split: option.splits)

lemma present_Nil: "present f es = [] \<longleftrightarrow> list_all (\<lambda>e. f e = None) es"
  by (auto simp: present_def list_all_iff split: option.splits)

lemma sum_present: "sum_list (present f es) = sum_list (map (\<lambda>e. case f e of None \<Rightarrow> 0 | Some n \<Rightarrow> n) es)" for f :: "'a \<Rightarrow> int option"
  by (induction es) (auto simp: present_def split: option.split)

lemma aggregated_cached: "ut_cached (aggregated_tokens es) = highest (\<lambda>e. ut_cached (us_tokens e)) es"
  using max_list_Max [of "present (\<lambda>e. ut_cached (us_tokens e)) es"]
  by (auto simp: aggregated_tokens_def Let_def highest_def present_Nil set_present)

lemma aggregated_calls: "ur_tool_calls (aggregated_requests es) = summed (\<lambda>e. ur_tool_calls (us_requests e)) es"
  by (simp add: aggregated_requests_def Let_def summed_def present_Nil sum_present)

lemma aggregated_sums:
  assumes "es \<noteq> []"
  shows "ut_input (aggregated_tokens es) = Max (set (map (\<lambda>e. ut_input (us_tokens e)) es))"
    "ut_output (aggregated_tokens es) = Max (set (map (\<lambda>e. ut_output (us_tokens e)) es))"
    "ur_count (aggregated_requests es) = sum_list (map (\<lambda>e. ur_count (us_requests e)) es)"
  using assms max_list_Max [of "map (\<lambda>e. ut_input (us_tokens e)) es"] max_list_Max [of "map (\<lambda>e. ut_output (us_tokens e)) es"]
  by (simp_all add: aggregated_tokens_def aggregated_requests_def Let_def)

lemma best_rank_foldl:
  "qualityRank (foldl (\<lambda>best e. if qualityRank (us_quality e) > qualityRank best then us_quality e else best) q es) =
   Max (insert (qualityRank q) ((\<lambda>e. qualityRank (us_quality e)) ` set es))"
proof (induction es arbitrary: q)
  case (Cons e es)
  show ?case
  proof (cases "es = []")
    case False
    then show ?thesis by (simp add: Cons.IH max_def)
  qed (simp add: max_def)
qed simp

lemma best_rank:
  assumes "es \<noteq> []"
  shows "qualityRank (best_quality es) = Max (set (map (\<lambda>e. qualityRank (us_quality e)) es))"
proof -
  have "insert (qualityRank (us_quality (hd es))) ((\<lambda>e. qualityRank (us_quality e)) ` set es) = (\<lambda>e. qualityRank (us_quality e)) ` set es"
    using assms by (intro insert_absorb) (metis hd_in_set image_eqI)
  then show ?thesis by (simp only: best_quality_def best_rank_foldl set_map)
qed

lemma single_high_water: "high_water env [e] e"
  by (cases "ut_cached (us_tokens e)"; cases "ur_tool_calls (us_requests e)")
    (simp_all add: high_water_def highest_def summed_def same_attempt_def)

text \<open>C33: When all records of an attempt are dated, their normalized record belongs to the same attempt, carries the highest input,
  output and cached token counters any of them reports and the sums of their requests and tool calls, and has the best proof
  quality among them, or is unverified when the input or output counter fell between two of them in the order of time.\<close>

theorem usage_normalization_is_high_water:
  "if list_all (dated env) es
   then (case normalizeUsageEvidence env disorder es of Inl _ \<Rightarrow> True | Inr r \<Rightarrow> high_water env es r) else True"
proof (cases "list_all (dated env) es")
  case True
  show ?thesis
  proof (cases "2 \<le> length es")
    case n: True
    then have ne: "es \<noteq> []" "map f es \<noteq> []" for f by auto
    let ?s = "by_timestamp env disorder es"
    have m: "mset ?s = mset es" by (rule by_timestamp_perm [OF True])
    have s: "?s = sort_key (\<lambda>e. the (ue_date env (us_timestamp e))) es" using True by (simp add: by_timestamp_def)
    have set: "set ?s = set es" using m by (rule mset_eq_setD)
    then have b: "qualityRank (best_quality ?s) = Max (set (map (\<lambda>e. qualityRank (us_quality e)) es))"
      using best_rank [of ?s] ne(1) by (metis set_empty set_map)
    note t = tokens_perm [OF m] requests_perm [OF m]
    have "high_water env es r" if r: "normalizeUsageEvidence env disorder es = Inr r" for r
    proof -
      from r have x: "list_all (same_attempt (hd es)) es" "us_tokens r = aggregated_tokens es" "us_requests r = aggregated_requests es"
        "us_task r = us_task (hd es)" "us_run r = us_run (hd es)" "us_attempt r = us_attempt (hd es)"
        "us_quality r = (if token_violations ?s \<noteq> [] then Unverified else best_quality ?s)"
        unfolding normalize_many [OF n] Let_def t by (auto simp: accepts)
      have a: "list_all (same_attempt r) es" using x(1,4-6) by (simp add: same_attempt_def list_all_iff)
      show ?thesis
        unfolding high_water_def x(2,3,7) no_violations s [symmetric] aggregated_cached aggregated_calls aggregated_sums [OF ne(1)]
        using a b by simp
    qed
    then show ?thesis using True by (auto split: sum.split)
  next
    case False
    then consider "es = []" | e where "es = [e]" by (cases es rule: remdups_adj.cases) auto
    then show ?thesis using single_high_water by cases (auto simp: normalizeUsageEvidence_def)
  qed
qed simp

text \<open>A self-report is never more than unverified, but after normalization with a later record of a gateway its claim counts.\<close>

lemma self_report_is_unverified: "us_source r = Runner_self_report \<Longrightarrow> classifyProofQuality r = Unverified"
  by (simp add: classifyProofQuality_def)

lemma normalization_launders_claims:
  assumes "same_attempt a b" "ue_date env (us_timestamp a) = Some s" "ue_date env (us_timestamp b) = Some t" "s < t" "not_falling a b"
    and "us_source a = Runner_self_report" "us_quality a = Gateway_verified" "us_source b = Gateway_trusted" "us_quality b = Unverified"
    and "normalizeUsageEvidence env disorder [a, b] = Inr r"
  shows "classifyProofQuality r = Gateway_verified"
proof -
  have s: "by_timestamp env disorder [a, b] = [a, b]" using assms(2-4) by (simp add: by_timestamp_def dated_def)
  have v: "token_violations [a, b] = []" using assms(5) by (simp add: not_falling_def)
  have "us_source r = Gateway_trusted" "us_quality r = Gateway_verified"
    using assms(10) unfolding normalizeUsageEvidence_def Let_def list.case s v
    by (auto simp: accepts best_quality_def qualityRank_def assms(7-9))
  then show ?thesis by (simp add: classifyProofQuality_def)
qed

text \<open>A record that was made unverified because its counters fell is classified as attested again.\<close>

lemma falling_counters_are_attested:
  "us_source r = Provider_signed_source \<Longrightarrow> us_quality r = Unverified \<Longrightarrow> classifyProofQuality r = Runner_attested"
  by (simp add: classifyProofQuality_def)

end
