(* ===== verification/AgentHostWire.thy ===== *)
theory AgentHostWire
  imports PackageLaws UsageEvidence Assembler
begin

text \<open>
  packages/core/src/agent-host-wire.ts, agent-host-stdio.ts and agent-host-stdio-config.ts: the validators of what crosses the
  boundary to an agent host, the classification of event streams and probes, the line protocol over standard input and output,
  and the configuration of an external adapter. JSON is a parameter. An accepted value is returned as it is; an error is its code.
\<close>

section \<open>Shapes\<close>

definition keys_within :: "string list \<Rightarrow> jsval \<Rightarrow> bool" where
  "keys_within ks v = list_all (\<lambda>k. k \<in> set ks) (js_keys v)"

definition record_of :: "string list \<Rightarrow> jsval \<Rightarrow> bool" where
  "record_of ks v = (is_plain_object v \<and> keys_within ks v)"

text \<open>\<open>/[\u0000-\u0008\u000b\u000c\u000e-\u001f\u007f]/\<close>\<close>

definition control_char :: "char \<Rightarrow> bool" where
  "control_char c = (let n = of_char c :: nat in n \<le> 8 \<or> n = 11 \<or> n = 12 \<or> (14 \<le> n \<and> n \<le> 31) \<or> n = 127)"

definition bounded_text :: "nat \<Rightarrow> bool \<Rightarrow> jsval \<Rightarrow> bool" where
  "bounded_text maximum allowEmpty v = (case js_str v of
      None \<Rightarrow> False
    | Some s \<Rightarrow> (allowEmpty \<or> s \<noteq> []) \<and> length s \<le> maximum \<and> list_all (\<lambda>c. \<not> control_char c) s)"

definition list_within :: "nat \<Rightarrow> (jsval \<Rightarrow> bool) \<Rightarrow> jsval \<Rightarrow> bool" where
  "list_within n f v = (case v of JArr vs \<Rightarrow> length vs \<le> n \<and> list_all f vs | _ \<Rightarrow> False)"

definition text_array :: "nat \<Rightarrow> jsval \<Rightarrow> bool" where
  "text_array maximum = list_within maximum (bounded_text 1024 False)"

definition one_of :: "string list \<Rightarrow> jsval \<Rightarrow> bool" where
  "one_of names v = (case js_str v of None \<Rightarrow> False | Some s \<Rightarrow> s \<in> set names)"

definition absent_or :: "(jsval \<Rightarrow> bool) \<Rightarrow> jsval \<Rightarrow> bool" where
  "absent_or f v = (v = JUndef \<or> f v)"

definition is_boolean :: "jsval \<Rightarrow> bool" where
  "is_boolean v = (js_bool v \<noteq> None)"

definition is_number :: "jsval \<Rightarrow> bool" where
  "is_number v = (case v of JNum _ \<Rightarrow> True | JNonFinite \<Rightarrow> True | _ \<Rightarrow> False)"

definition int_between :: "int \<Rightarrow> int \<Rightarrow> jsval \<Rightarrow> bool" where
  "int_between low high v = (case js_int v of None \<Rightarrow> False | Some n \<Rightarrow> low \<le> n \<and> n \<le> high)"

definition matches_text :: "(string \<Rightarrow> bool) \<Rightarrow> jsval \<Rightarrow> bool" where
  "matches_text pattern v = (case js_str v of None \<Rightarrow> False | Some s \<Rightarrow> pattern s)"

definition WIRE_TIMESTAMP_PATTERN :: "string \<Rightarrow> bool" where
  "WIRE_TIMESTAMP_PATTERN = has_shape ''9999-99-99T99:99:99.999Z''"

definition WIRE_ERROR_CODE_PATTERN :: "string \<Rightarrow> bool" where
  "WIRE_ERROR_CODE_PATTERN = bounded_name (\<lambda>c. is_lower c \<or> is_digit c)
     (\<lambda>c. is_lower c \<or> is_digit c \<or> c = CHR ''.'' \<or> c = CHR ''_'' \<or> c = CHR ''-'') 127"

section \<open>Probes\<close>

definition AGENT_HOST_PROBE_WIRE_KEYS :: "string list" where
  "AGENT_HOST_PROBE_WIRE_KEYS = [''protocolVersion'', ''hostId'', ''displayName'', ''status'', ''available'', ''adapterStatus'',
     ''version'', ''capabilities'', ''capabilitySource'', ''issues'']"

definition PROBE_STATUSES :: "string list" where
  "PROBE_STATUSES = [''installed'', ''ready'', ''not_ready'', ''not_found'', ''probe_failed'']"

definition CAPABILITY_SUPPORT :: "string list" where
  "CAPABILITY_SUPPORT = [''supported'', ''documented'', ''unsupported'', ''unknown'']"

definition issue_wire :: "jsval \<Rightarrow> bool" where
  "issue_wire v = (record_of [''code'', ''message'', ''blocking''] v \<and> bounded_text 128 False (js_get v ''code'') \<and>
     bounded_text 2000 True (js_get v ''message'') \<and> is_boolean (js_get v ''blocking''))"

definition capabilities_wire :: "jsval \<Rightarrow> bool" where
  "capabilities_wire v = (record_of AGENT_HOST_CAPABILITIES v \<and>
     list_all (\<lambda>c. one_of CAPABILITY_SUPPORT (js_get v c)) AGENT_HOST_CAPABILITIES)"

definition probe_shape :: "jsval \<Rightarrow> string \<Rightarrow> bool" where
  "probe_shape v host = (bounded_text 64 False (js_get v ''protocolVersion'') \<and> js_get v ''hostId'' = JStr host \<and>
     bounded_text 256 False (js_get v ''displayName'') \<and> one_of PROBE_STATUSES (js_get v ''status'') \<and>
     is_boolean (js_get v ''available'') \<and> one_of [''probe_only'', ''runnable''] (js_get v ''adapterStatus'') \<and>
     absent_or (bounded_text 256 False) (js_get v ''version'') \<and> capabilities_wire (js_get v ''capabilities'') \<and>
     one_of [''adapter_declaration'', ''conformance_test''] (js_get v ''capabilitySource'') \<and>
     list_within 256 issue_wire (js_get v ''issues''))"

definition validateAgentHostProbeWire :: "jsval \<Rightarrow> string \<Rightarrow> string + jsval" where
  "validateAgentHostProbeWire v host =
     ensure (record_of AGENT_HOST_PROBE_WIRE_KEYS v) ''AGENT_HOST_PROBE_INVALID''
    (ensure (probe_shape v host) ''AGENT_HOST_PROBE_INVALID'' (Inr v))"

section \<open>Run requests\<close>

definition tools_wire :: "jsval \<Rightarrow> bool" where
  "tools_wire v = (record_of [''default'', ''allow''] v \<and> js_get v ''default'' = JStr ''deny'' \<and>
     list_within 256 (\<lambda>e. record_of [''name'', ''mode''] e \<and> bounded_text 256 False (js_get e ''name'') \<and>
       one_of [''read'', ''write''] (js_get e ''mode'')) (js_get v ''allow''))"

definition filesystem_wire :: "jsval \<Rightarrow> bool" where
  "filesystem_wire v = (record_of [''read'', ''write''] v \<and> text_array 1024 (js_get v ''read'') \<and> text_array 1024 (js_get v ''write''))"

definition network_wire :: "jsval \<Rightarrow> bool" where
  "network_wire v = (record_of [''mode'', ''hosts''] v \<and> one_of [''deny'', ''host_policy'', ''allowlist''] (js_get v ''mode'') \<and>
     absent_or (text_array 1024) (js_get v ''hosts''))"

definition approval_wire :: "jsval \<Rightarrow> bool" where
  "approval_wire v = (record_of [''mode''] v \<and> one_of [''never'', ''required''] (js_get v ''mode''))"

definition validatePolicyWire :: "jsval \<Rightarrow> bool" where
  "validatePolicyWire v = (record_of [''tools'', ''filesystem'', ''network'', ''approval'', ''maxTurns''] v \<and>
     tools_wire (js_get v ''tools'') \<and> filesystem_wire (js_get v ''filesystem'') \<and> network_wire (js_get v ''network'') \<and>
     approval_wire (js_get v ''approval'') \<and> absent_or (int_between 1 10000) (js_get v ''maxTurns''))"

definition validateAttachmentWire :: "jsval \<Rightarrow> bool" where
  "validateAttachmentWire v = (record_of [''mediaType'', ''name'', ''source'', ''path'', ''uri''] v \<and>
     absent_or (bounded_text 256 False) (js_get v ''mediaType'') \<and> absent_or (bounded_text 256 False) (js_get v ''name'') \<and>
     one_of [''path'', ''uri''] (js_get v ''source'') \<and>
     (if js_get v ''source'' = JStr ''path'' then js_get v ''uri'' = JUndef \<and> bounded_text 2048 False (js_get v ''path'')
      else js_get v ''path'' = JUndef \<and> bounded_text 2048 False (js_get v ''uri'')))"

definition header_wire :: "jsval \<Rightarrow> bool" where
  "header_wire e = (record_of [''name'', ''valueFromEnv''] e \<and> bounded_text 256 False (js_get e ''name'') \<and>
     bounded_text 256 False (js_get e ''valueFromEnv''))"

definition validateMcpServerWire :: "jsval \<Rightarrow> bool" where
  "validateMcpServerWire v =
     (record_of [''name'', ''transport'', ''command'', ''args'', ''environment'', ''url'', ''headers''] v \<and>
      bounded_text 256 False (js_get v ''name'') \<and> one_of [''stdio'', ''http''] (js_get v ''transport'') \<and>
      (if js_get v ''transport'' = JStr ''stdio''
       then js_get v ''url'' = JUndef \<and> js_get v ''headers'' = JUndef \<and> bounded_text 2048 False (js_get v ''command'') \<and>
         absent_or (text_array 256) (js_get v ''args'') \<and> absent_or (text_array 256) (js_get v ''environment'')
       else js_get v ''command'' = JUndef \<and> js_get v ''args'' = JUndef \<and> js_get v ''environment'' = JUndef \<and>
         bounded_text 2048 False (js_get v ''url'') \<and> absent_or (list_within 256 header_wire) (js_get v ''headers'')))"

definition RUN_REQUEST_WIRE_KEYS :: "string list" where
  "RUN_REQUEST_WIRE_KEYS = [''runId'', ''employeeId'', ''workingDirectory'', ''workspaceFiles'', ''prompt'', ''instructions'',
     ''session'', ''attachments'', ''mcpServers'', ''outputSchema'', ''policy'', ''metadata'', ''deadline'']"

definition session_wire :: "jsval \<Rightarrow> bool" where
  "session_wire v = (record_of [''mode'', ''ref''] v \<and> one_of [''new'', ''resume''] (js_get v ''mode'') \<and>
     (if js_get v ''mode'' = JStr ''new'' then js_get v ''ref'' = JUndef else bounded_text 512 False (js_get v ''ref'')))"

definition run_request_wire :: "jsval \<Rightarrow> bool" where
  "run_request_wire v = (record_of RUN_REQUEST_WIRE_KEYS v \<and>
     bounded_text 256 False (js_get v ''runId'') \<and> bounded_text 256 False (js_get v ''employeeId'') \<and>
     bounded_text 2048 False (js_get v ''workingDirectory'') \<and> absent_or (text_array 4096) (js_get v ''workspaceFiles'') \<and>
     bounded_text 65536 False (js_get v ''prompt'') \<and> absent_or (bounded_text 65536 False) (js_get v ''instructions'') \<and>
     absent_or session_wire (js_get v ''session'') \<and>
     absent_or (list_within 256 validateAttachmentWire) (js_get v ''attachments'') \<and>
     absent_or (list_within 64 validateMcpServerWire) (js_get v ''mcpServers'') \<and>
     validatePolicyWire (js_get v ''policy'') \<and> absent_or is_plain_object (js_get v ''metadata'') \<and>
     absent_or (matches_text WIRE_TIMESTAMP_PATTERN) (js_get v ''deadline''))"

definition validateAgentHostRunRequestWire :: "jsval \<Rightarrow> string + jsval" where
  "validateAgentHostRunRequestWire v = ensure (run_request_wire v) ''agent_host_preflight_invalid'' (Inr v)"

section \<open>Events\<close>

definition EVENT_KEY_SETS :: "(string \<times> string list) list" where
  "EVENT_KEY_SETS = map (\<lambda>p. (fst p, [''runId'', ''timestamp'', ''type''] @ snd p))
     [(''run.started'', [''sessionRef'']), (''assistant.delta'', [''text'']),
      (''tool.started'', [''toolCallId'', ''toolName'', ''input'']),
      (''tool.completed'', [''toolCallId'', ''toolName'', ''output'', ''isError'']),
      (''approval.required'', [''approvalId'', ''toolName'', ''input'']),
      (''usage'', [''inputTokens'', ''outputTokens'', ''totalTokens'', ''reportedCost'', ''currency'']),
      (''run.completed'', [''output'', ''sessionRef'']), (''run.failed'', [''error''])]"

definition error_wire :: "jsval \<Rightarrow> bool" where
  "error_wire v = (record_of [''code'', ''message'', ''retryable''] v \<and> matches_text WIRE_ERROR_CODE_PATTERN (js_get v ''code'') \<and>
     bounded_text 4096 False (js_get v ''message'') \<and> is_boolean (js_get v ''retryable''))"

definition event_body :: "string \<Rightarrow> jsval \<Rightarrow> bool" where
  "event_body type v =
     (if type = ''run.started'' then absent_or (bounded_text 512 False) (js_get v ''sessionRef'')
      else if type = ''assistant.delta'' then bounded_text 1048576 True (js_get v ''text'')
      else if type = ''tool.started'' \<or> type = ''approval.required''
      then bounded_text 256 False (js_get v (if type = ''tool.started'' then ''toolCallId'' else ''approvalId'')) \<and>
        bounded_text 256 False (js_get v ''toolName'')
      else if type = ''tool.completed''
      then bounded_text 256 False (js_get v ''toolCallId'') \<and> bounded_text 256 False (js_get v ''toolName'') \<and>
        is_boolean (js_get v ''isError'')
      else if type = ''usage''
      then list_all (\<lambda>k. absent_or is_number (js_get v k)) [''inputTokens'', ''outputTokens'', ''totalTokens'', ''reportedCost''] \<and>
        absent_or (bounded_text 16 False) (js_get v ''currency'')
      else if type = ''run.completed''
      then js_get v ''output'' \<noteq> JUndef \<and> absent_or (bounded_text 512 False) (js_get v ''sessionRef'')
      else type = ''run.failed'' \<and> error_wire (js_get v ''error''))"

definition event_wire :: "jsval \<Rightarrow> bool" where
  "event_wire v = (is_plain_object v \<and> (case js_str (js_get v ''type'') of
      None \<Rightarrow> False
    | Some type \<Rightarrow> (case map_of EVENT_KEY_SETS type of
        None \<Rightarrow> False
      | Some ks \<Rightarrow> keys_within ks v \<and> bounded_text 256 False (js_get v ''runId'') \<and>
          matches_text WIRE_TIMESTAMP_PATTERN (js_get v ''timestamp'') \<and> event_body type v)))"

definition validateAgentHostEventWire :: "jsval \<Rightarrow> string + jsval" where
  "validateAgentHostEventWire v = ensure (event_wire v) ''agent_host_stream_failed'' (Inr v)"

section \<open>Classification\<close>

datatype classification = Wire_accept | Wire_reject string

definition terminal_event :: "jsval \<Rightarrow> bool" where
  "terminal_event v = one_of [''run.completed'', ''run.failed''] (js_get v ''type'')"

text \<open>The loop over the events: the index of the terminal event, if any; no result when there is a second one.\<close>

fun terminal_scan :: "nat option \<Rightarrow> nat \<Rightarrow> jsval list \<Rightarrow> nat option option" where
  "terminal_scan found n [] = Some found"
| "terminal_scan found n (e # es) =
     (if terminal_event e then (if found \<noteq> None then None else terminal_scan (Some n) (n + 1) es)
      else terminal_scan found (n + 1) es)"

definition cancelled_terminal :: "jsval \<Rightarrow> bool" where
  "cancelled_terminal v = (js_get v ''type'' = JStr ''run.failed'' \<and> js_get (js_get v ''error'') ''code'' = JStr ''agent_host_cancelled'')"

definition classifyAgentHostEventStream :: "jsval list \<Rightarrow> bool \<Rightarrow> bool \<Rightarrow> classification" where
  "classifyAgentHostEventStream events cancelled deadlineExpired =
     (if \<not> list_all event_wire events then Wire_reject ''agent_host_stream_failed''
      else case terminal_scan None 0 events of
        None \<Rightarrow> Wire_reject ''agent_host_terminal_contract_violated''
      | Some None \<Rightarrow> Wire_reject ''agent_host_terminal_contract_violated''
      | Some (Some i) \<Rightarrow>
          if i + 1 \<noteq> length events then Wire_reject ''agent_host_terminal_contract_violated''
          else if (cancelled \<or> deadlineExpired) \<and> \<not> cancelled_terminal (events ! i) then Wire_reject ''agent_host_cancelled''
          else Wire_accept)"

definition probe_text :: "jsval \<Rightarrow> string" where
  "probe_text v = (case v of JStr s \<Rightarrow> s | _ \<Rightarrow> [])"

definition status_of :: "jsval \<Rightarrow> probe_status" where
  "status_of v = (if v = JStr ''installed'' then Probe_installed else if v = JStr ''ready'' then Probe_ready
     else if v = JStr ''not_ready'' then Probe_not_ready else if v = JStr ''not_found'' then Probe_not_found
     else if v = JStr ''not_spawnable'' then Probe_not_spawnable else Probe_failed)"

definition support_of :: "jsval \<Rightarrow> capability_support option" where
  "support_of v = (if v = JStr ''supported'' then Some Supported else if v = JStr ''documented'' then Some Documented
     else if v = JStr ''unsupported'' then Some Unsupported else if v = JStr ''unknown'' then Some Unknown_support else None)"

text \<open>The accepted value as a probe result.\<close>

definition probe_of :: "jsval \<Rightarrow> host_probe" where
  "probe_of v = \<lparr>hp_protocol = probe_text (js_get v ''protocolVersion''), hp_status = status_of (js_get v ''status''),
     hp_available = (js_get v ''available'' = JBool True), hp_runnable = (js_get v ''adapterStatus'' = JStr ''runnable''),
     hp_capabilities = (\<lambda>c. support_of (js_get (js_get v ''capabilities'') c)),
     hp_conformance = (js_get v ''capabilitySource'' = JStr ''conformance_test''),
     hp_issues = (case js_get v ''issues'' of
       JArr es \<Rightarrow> map (\<lambda>e. \<lparr>hi_code = probe_text (js_get e ''code''), hi_blocking = (js_get e ''blocking'' = JBool True)\<rparr>) es
     | _ \<Rightarrow> [])\<rparr>"

definition classifyAgentHostCompatibility :: "jsval \<Rightarrow> string list \<Rightarrow> string \<Rightarrow> classification" where
  "classifyAgentHostCompatibility v required host = (case validateAgentHostProbeWire v host of
      Inl _ \<Rightarrow> Wire_reject ''AGENT_HOST_PROBE_INVALID''
    | Inr p \<Rightarrow> if hc_compatible (assessAgentHostCompatibility (probe_of p) required) then Wire_accept
        else Wire_reject ''agent_host_incompatible'')"

section \<open>The line protocol\<close>

definition AGENT_HOST_STDIO_PROTOCOL_VERSION :: string where
  "AGENT_HOST_STDIO_PROTOCOL_VERSION = ''agent-host-stdio.v1''"

definition AGENT_HOST_STDIO_MAX_LINE_BYTES :: nat where
  "AGENT_HOST_STDIO_MAX_LINE_BYTES = 1048576"

definition bad_framing :: string where
  "bad_framing = ''agent_host_stdio_bad_framing''"

definition unknown_message :: string where
  "unknown_message = ''agent_host_stdio_unknown_message''"

definition bad_response :: string where
  "bad_response = ''agent_host_stdio_bad_response''"

text \<open>\<open>text_of\<close> is \<open>JSON.stringify\<close>, which may give undefined, and \<open>parse\<close> is \<open>JSON.parse\<close>.\<close>

definition encodeAgentHostStdioLine :: "(jsval \<Rightarrow> string option) \<Rightarrow> jsval \<Rightarrow> string + string" where
  "encodeAgentHostStdioLine text_of v = (case text_of v of
      None \<Rightarrow> Inl bad_framing
    | Some text \<Rightarrow> ensure (\<not> utf8_len text > AGENT_HOST_STDIO_MAX_LINE_BYTES) bad_framing (Inr text))"

definition parseLine :: "(string \<Rightarrow> jsval option) \<Rightarrow> string \<Rightarrow> string + jsval" where
  "parseLine parse line =
     (let text = js_trim line
      in ensure (\<not> length text = 0) bad_framing
        (ensure (\<not> utf8_len text > AGENT_HOST_STDIO_MAX_LINE_BYTES) bad_framing
        (case parse text of None \<Rightarrow> Inl bad_framing | Some v \<Rightarrow> Inr v)))"

definition stdio_id :: "jsval \<Rightarrow> bool" where
  "stdio_id = matches_text (\<lambda>s. 0 < length s \<and> length s \<le> 256)"

definition checkEnvelope :: "jsval \<Rightarrow> string + jsval" where
  "checkEnvelope v =
     ensure (record_of [''protocol'', ''id'', ''kind'', ''payload'', ''ok'', ''result'', ''error'', ''event''] v) unknown_message
    (ensure (js_get v ''protocol'' = JStr AGENT_HOST_STDIO_PROTOCOL_VERSION) ''agent_host_stdio_protocol_mismatch''
    (ensure (stdio_id (js_get v ''id'')) unknown_message (Inr v)))"

definition request_payload :: "jsval \<Rightarrow> string + jsval" where
  "request_payload v =
     (let payload = js_get v ''payload''
      in if js_get v ''kind'' = JStr ''run'' \<or> js_get v ''kind'' = JStr ''preflight''
         then and_then (validateAgentHostRunRequestWire payload) (\<lambda>_. Inr v)
         else if js_get v ''kind'' = JStr ''cancel''
         then ensure (record_of [''runId''] payload \<and> stdio_id (js_get payload ''runId'')) unknown_message (Inr v)
         else ensure (payload = JUndef) unknown_message (Inr v))"

definition parseAgentHostStdioRequest :: "(string \<Rightarrow> jsval option) \<Rightarrow> string \<Rightarrow> string + jsval" where
  "parseAgentHostStdioRequest parse line =
     and_then (parseLine parse line) (\<lambda>parsed.
     and_then (checkEnvelope parsed) (\<lambda>v.
     ensure (keys_within [''protocol'', ''id'', ''kind'', ''payload''] v \<and>
         one_of [''probe'', ''preflight'', ''run'', ''cancel''] (js_get v ''kind'')) unknown_message
       (request_payload v)))"

definition stdio_event :: "jsval \<Rightarrow> jsval \<Rightarrow> jsval" where
  "stdio_event i event = JObj [(''protocol'', JStr AGENT_HOST_STDIO_PROTOCOL_VERSION), (''id'', i), (''kind'', JStr ''event''),
     (''event'', event)]"

definition refusal_wire :: "jsval \<Rightarrow> bool" where
  "refusal_wire e = (record_of [''code'', ''message'', ''retryable''] e \<and> matches_text WIRE_ERROR_CODE_PATTERN (js_get e ''code'') \<and>
     matches_text (\<lambda>s. length s \<le> 4096) (js_get e ''message'') \<and> is_boolean (js_get e ''retryable''))"

definition host_response :: "jsval \<Rightarrow> string + jsval" where
  "host_response v =
     (if js_get v ''ok'' = JBool True
      then ensure (keys_within [''protocol'', ''id'', ''kind'', ''ok'', ''result''] v) bad_response
          (ensure (absent_or is_plain_object (js_get v ''result'')) bad_response (Inr v))
      else ensure (js_get v ''ok'' = JBool False) bad_response
          (ensure (keys_within [''protocol'', ''id'', ''kind'', ''ok'', ''error''] v) bad_response
          (ensure (refusal_wire (js_get v ''error'')) bad_response (Inr v))))"

text \<open>The expected host is not used.\<close>

definition parseAgentHostStdioHostLine :: "(string \<Rightarrow> jsval option) \<Rightarrow> string \<Rightarrow> string + jsval" where
  "parseAgentHostStdioHostLine parse line =
     and_then (parseLine parse line) (\<lambda>parsed.
     and_then (checkEnvelope parsed) (\<lambda>v.
       if js_get v ''kind'' = JStr ''event''
       then ensure (keys_within [''protocol'', ''id'', ''kind'', ''event''] v) unknown_message
           (and_then (validateAgentHostEventWire (js_get v ''event'')) (\<lambda>event. Inr (stdio_event (js_get v ''id'') event)))
       else ensure (js_get v ''kind'' = JStr ''response'') unknown_message (host_response v)))"

definition probeResultFromStdioResponse :: "jsval \<Rightarrow> string \<Rightarrow> string + jsval" where
  "probeResultFromStdioResponse message host =
     ensure (js_get message ''kind'' = JStr ''response'') bad_response
    (ensure (js_get message ''ok'' = JBool True) ''agent_host_stdio_host_error''
       (validateAgentHostProbeWire (js_get message ''result'') host))"

section \<open>The configuration of an external adapter\<close>

definition CONFIG_KEYS :: "string list" where
  "CONFIG_KEYS = [''schema'', ''hostId'', ''displayName'', ''executable'', ''args'', ''digest'', ''envAllowlist'',
     ''workingDirectoryPolicy'', ''timeoutMs'', ''maxStderrBytes'']"

definition host_id_char :: "char \<Rightarrow> bool" where
  "host_id_char c = (is_lower c \<or> is_digit c)"

text \<open>\<open>/^[a-z0-9](?:[a-z0-9._-]{0,126}[a-z0-9])?$/\<close>\<close>

definition HOST_ID_PATTERN :: "string \<Rightarrow> bool" where
  "HOST_ID_PATTERN s = (s \<noteq> [] \<and> length s \<le> 128 \<and> host_id_char (hd s) \<and> host_id_char (last s) \<and>
     list_all (\<lambda>c. host_id_char c \<or> c = CHR ''.'' \<or> c = CHR ''_'' \<or> c = CHR ''-'') s)"

definition HEX_64_PATTERN :: "string \<Rightarrow> bool" where
  "HEX_64_PATTERN s = (length s = 64 \<and> list_all is_hex s)"

definition STDIO_ENV_NAME_PATTERN :: "string \<Rightarrow> bool" where
  "STDIO_ENV_NAME_PATTERN = bounded_name (\<lambda>c. is_upper c \<or> c = CHR ''_'') (\<lambda>c. is_upper c \<or> is_digit c \<or> c = CHR ''_'') 127"

definition rejectsExpansion :: "string \<Rightarrow> bool" where
  "rejectsExpansion s = list_all (\<lambda>c. c \<notin> set (''$`~*?{}[]<>|'' @ [CHR 0x26] @ '';'')) s"

definition literal_text :: "jsval \<Rightarrow> bool" where
  "literal_text v = (bounded_text 2048 False v \<and> matches_text rejectsExpansion v)"

fun env_names :: "string list \<Rightarrow> jsval list \<Rightarrow> bool" where
  "env_names seen [] = True"
| "env_names seen (v # vs) = (case js_str v of
      None \<Rightarrow> False | Some n \<Rightarrow> STDIO_ENV_NAME_PATTERN n \<and> n \<notin> set seen \<and> env_names (n # seen) vs)"

definition config_digest :: "jsval \<Rightarrow> bool" where
  "config_digest v = (record_of [''algorithm'', ''hex''] v \<and> js_get v ''algorithm'' = JStr ''sha256'' \<and>
     matches_text HEX_64_PATTERN (js_get v ''hex''))"

definition env_allowlist :: "jsval \<Rightarrow> bool" where
  "env_allowlist v = (case v of JArr vs \<Rightarrow> length vs \<le> 128 \<and> env_names [] vs | _ \<Rightarrow> False)"

definition stdio_config :: "jsval \<Rightarrow> bool" where
  "stdio_config v = (record_of CONFIG_KEYS v \<and> js_get v ''schema'' = JStr ''agent-host-stdio-config.v1'' \<and>
     matches_text HOST_ID_PATTERN (js_get v ''hostId'') \<and> bounded_text 256 False (js_get v ''displayName'') \<and>
     literal_text (js_get v ''executable'') \<and> list_within 64 literal_text (js_get v ''args'') \<and> config_digest (js_get v ''digest'') \<and>
     env_allowlist (js_get v ''envAllowlist'') \<and>
     one_of [''request'', ''config_directory''] (js_get v ''workingDirectoryPolicy'') \<and>
     int_between 1000 600000 (js_get v ''timeoutMs'') \<and> int_between 1024 262144 (js_get v ''maxStderrBytes''))"

definition validateStdioAdapterConfig :: "jsval \<Rightarrow> string + jsval" where
  "validateStdioAdapterConfig v = ensure (stdio_config v) ''AGENT_HOST_STDIO_CONFIG_INVALID'' (Inr v)"

definition config_env :: "jsval \<Rightarrow> string list" where
  "config_env v = (case js_get v ''envAllowlist'' of JArr vs \<Rightarrow> map probe_text vs | _ \<Rightarrow> [])"

definition stdioAdapterEnvironment :: "jsval \<Rightarrow> (string \<Rightarrow> string option) \<Rightarrow> (string, string) jsmap" where
  "stdioAdapterEnvironment config source =
     foldl (\<lambda>env name. case source name of None \<Rightarrow> env | Some entry \<Rightarrow> map_set env name entry) [] (config_env config)"

section \<open>Streams\<close>

lemma terminal_scan_found:
  "terminal_scan (Some i) n es = (if list_all (\<lambda>e. \<not> terminal_event e) es then Some (Some i) else None)"
  by (induction es arbitrary: n) auto

lemma terminal_scan_last:
  "terminal_scan None n es = Some (Some i) \<and> i + 1 = n + length es \<longleftrightarrow>
   es \<noteq> [] \<and> terminal_event (last es) \<and> list_all (\<lambda>e. \<not> terminal_event e) (butlast es) \<and> i + 1 = n + length es"
proof (induction es arbitrary: n)
  case (Cons e es)
  show ?case
  proof (cases "terminal_event e")
    case True
    then show ?thesis
      by (cases es) (auto simp: terminal_scan_found)
  next
    case False
    then show ?thesis using Cons.IH [of "n + 1"] by (cases "es = []") auto
  qed
qed simp

definition one_terminal :: "jsval list \<Rightarrow> bool" where
  "one_terminal es \<longleftrightarrow> es \<noteq> [] \<and> terminal_event (last es) \<and> list_all (\<lambda>e. \<not> terminal_event e) (butlast es)"

text \<open>C34: An event stream is accepted exactly when every event has its shape, the last event is the only terminal one, and, when the
  run was cancelled or its deadline passed, that event is the failure with the code of cancellation.\<close>

theorem stream_acceptance:
  "(classifyAgentHostEventStream es cancelled deadlineExpired = Wire_accept) =
   (list_all event_wire es \<and> one_terminal es \<and> (if cancelled \<or> deadlineExpired then cancelled_terminal (last es) else True))"
proof (cases "\<exists>i. terminal_scan None 0 es = Some (Some i) \<and> i + 1 = length es")
  case True
  then obtain i where i: "terminal_scan None 0 es = Some (Some i)" "i + 1 = length es" by blast
  then have o: "one_terminal es" using terminal_scan_last [of 0 es i] by (simp add: one_terminal_def)
  have "es \<noteq> []" "length es - 1 = i" using i(2) by auto
  then have "es ! i = last es" by (simp add: last_conv_nth)
  then show ?thesis using i o by (auto simp: classifyAgentHostEventStream_def)
next
  case False
  then have "\<not> one_terminal es"
    using terminal_scan_last [of 0 es "length es - 1"] by (cases es) (auto simp: one_terminal_def)
  then show ?thesis using False by (auto simp: classifyAgentHostEventStream_def split: option.splits if_splits)
qed

section \<open>Probes\<close>

lemma one_of_support: "one_of CAPABILITY_SUPPORT v \<Longrightarrow> support_of v \<noteq> None"
  by (cases v) (auto simp: one_of_def CAPABILITY_SUPPORT_def support_of_def)

text \<open>What a compatible probe said on the wire.\<close>

definition probe_qualifies :: "jsval \<Rightarrow> string list \<Rightarrow> string \<Rightarrow> bool" where
  "probe_qualifies v required host \<longleftrightarrow>
     js_get v ''hostId'' = JStr host \<and> js_get v ''protocolVersion'' = JStr AGENT_HOST_PROTOCOL_VERSION \<and>
     js_get v ''status'' = JStr ''ready'' \<and> js_get v ''adapterStatus'' = JStr ''runnable'' \<and>
     js_get v ''capabilitySource'' = JStr ''conformance_test'' \<and>
     list_all (\<lambda>c. js_get (js_get v ''capabilities'') c = JStr ''supported'') required"

lemma compatible_parts:
  assumes "hc_compatible (assessAgentHostCompatibility p required)"
  shows "hp_protocol p = AGENT_HOST_PROTOCOL_VERSION" "hp_status p = Probe_ready" "hp_runnable p" "hp_conformance p"
    "list_all (\<lambda>c. hp_capabilities p c = Some Supported) required"
  using assms compatible_supports [OF assms] unfolding assessAgentHostCompatibility_def Let_def by (simp_all add: list_all_iff)

lemma supported_text: "support_of v = Some Supported \<Longrightarrow> v = JStr ''supported''"
  by (auto simp: support_of_def split: if_splits)

lemma ready_text: "status_of v = Probe_ready \<Longrightarrow> v = JStr ''ready''"
  by (auto simp: status_of_def split: if_splits)

text \<open>A probe classified as compatible came from the expected host and said, on the wire, that it is ready, runnable, verified by
  the conformance test, of this protocol, and supports every required capability.\<close>

theorem compatible_probes_qualify:
  "if classifyAgentHostCompatibility v required host = Wire_accept then probe_qualifies v required host else True"
proof (cases "classifyAgentHostCompatibility v required host = Wire_accept")
  case True
  then have a: "validateAgentHostProbeWire v host = Inr v" and c: "hc_compatible (assessAgentHostCompatibility (probe_of v) required)"
    by (auto simp: classifyAgentHostCompatibility_def validateAgentHostProbeWire_def accepts split: sum.splits if_splits)
  from a have s: "probe_shape v host" by (simp add: validateAgentHostProbeWire_def accepts)
  note p = compatible_parts [OF c]
  have "probe_text (js_get v ''protocolVersion'') = AGENT_HOST_PROTOCOL_VERSION" using p(1) by (simp add: probe_of_def)
  then have "js_get v ''protocolVersion'' = JStr AGENT_HOST_PROTOCOL_VERSION"
    using s by (cases "js_get v ''protocolVersion''") (simp_all add: probe_shape_def probe_text_def bounded_text_def del: js_get.simps)
  moreover have "js_get v ''status'' = JStr ''ready''" using p(2) by (intro ready_text) (simp add: probe_of_def)
  moreover have "js_get v ''adapterStatus'' = JStr ''runnable''" "js_get v ''capabilitySource'' = JStr ''conformance_test''"
    using p(3,4) by (simp_all add: probe_of_def)
  moreover have "list_all (\<lambda>c. js_get (js_get v ''capabilities'') c = JStr ''supported'') required"
    using p(5) by (auto simp: probe_of_def list_all_iff dest: supported_text)
  moreover have "js_get v ''hostId'' = JStr host" using s by (simp add: probe_shape_def)
  ultimately show ?thesis by (simp add: probe_qualifies_def)
qed simp

section \<open>The policy of a package on the wire\<close>

definition host_tools_value :: "mcp_tool list \<Rightarrow> jsval" where
  "host_tools_value ts = JObj [(''default'', JStr ''deny''), (''allow'', JArr (map (\<lambda>t.
     JObj [(''name'', JStr (mt_name t)), (''mode'', JStr (if mt_write t then ''write'' else ''read''))]) ts))]"

definition host_network_value :: "host_policy \<Rightarrow> jsval" where
  "host_network_value p = JObj ((''mode'', JStr (network_text (ho_network p))) # opt_pair ''hosts'' strings_value (ho_hosts p))"

definition host_policy_value :: "host_policy \<Rightarrow> jsval" where
  "host_policy_value p = JObj [(''tools'', host_tools_value (ho_allow p)),
     (''filesystem'', JObj [(''read'', strings_value (ho_read p)), (''write'', strings_value (ho_write p))]),
     (''network'', host_network_value p),
     (''approval'', JObj [(''mode'', JStr (if ho_approval p then ''required'' else ''never''))])]"

lemma no_control:
  "is_lower c \<Longrightarrow> \<not> control_char c" "is_upper c \<Longrightarrow> \<not> control_char c" "is_digit c \<Longrightarrow> \<not> control_char c"
  "printable c \<Longrightarrow> \<not> control_char c"
  by (auto simp: control_char_def is_lower_def is_upper_def is_digit_def printable_def Let_def)

lemma no_control_signs:
  "\<not> control_char (CHR ''.'')" "\<not> control_char (CHR ''-'')" "\<not> control_char (CHR ''_'')" "\<not> control_char (CHR ''*'')"
  "\<not> control_char (CHR ''/'')"
  by code_simp+

definition clean_text :: "nat \<Rightarrow> string \<Rightarrow> bool" where
  "clean_text n s \<longleftrightarrow> s \<noteq> [] \<and> length s \<le> n \<and> list_all (\<lambda>c. \<not> control_char c) s"

lemma clean_bounded: "clean_text k s \<Longrightarrow> k \<le> n \<Longrightarrow> bounded_text n False (JStr s)"
  by (simp add: clean_text_def bounded_text_def)

lemma path_clean: "portablePath l v = Inr p \<Longrightarrow> clean_text 1024 p"
proof -
  assume a: "portablePath l v = Inr p"
  then have n: "length p \<le> 1024" by (auto simp: portable_Inr require_Inr intro: order_trans [OF length_trim])
  from portable_sound [OF a] have "starts_with p ''./''" "list_all (\<lambda>c. \<not> control_char c) (drop 2 p)"
    by (auto simp: PORTABLE_PATH_PATTERN_def list_all_iff no_control)
  moreover from this(1) obtain u where "p = ''./'' @ u" by (auto simp: starts_with_append)
  ultimately show ?thesis using n by (simp add: clean_text_def no_control_signs)
qed

lemma identifier_clean: "IDENTIFIER_PATTERN s \<Longrightarrow> clean_text 128 s"
  by (auto simp: IDENTIFIER_PATTERN_def CONNECTOR_ID_PATTERN_def bounded_name_def clean_text_def list_all_iff no_control no_control_signs
      split: list.splits)

lemma tools_clean: "read_mcp_tools n names vs = Inr ts \<Longrightarrow> list_all (\<lambda>t. clean_text 128 (mt_name t)) ts"
proof (induction vs arbitrary: n names ts)
  case (Cons v vs)
  from Cons.prems obtain l w t ts' where x: "require_field IDENTIFIER_PATTERN 128 l w = Inr (mt_name t)"
    "read_mcp_tools (n + 1) (names @ [mt_name t]) vs = Inr ts'" "ts = t # ts'"
    unfolding read_mcp_tools.simps Let_def accepts by force
  show ?case
    using Cons.IH [OF x(2)] identifier_clean [OF require_pattern [OF x(1) survivors(2)]] x(3) by simp
qed simp

lemma label_clean: "host_label s \<Longrightarrow> list_all (\<lambda>c. \<not> control_char c) s"
  by (auto simp: host_label_def list_all_iff ascii_alnum_def no_control no_control_signs)

lemma host_clean: "NETWORK_HOST_PATTERN s \<Longrightarrow> list_all (\<lambda>c. \<not> control_char c) s"
proof -
  assume a: "NETWORK_HOST_PATTERN s"
  let ?t = "if starts_with s ''*.'' then drop 2 s else s"
  have "list_all (\<lambda>seg. list_all (\<lambda>c. \<not> control_char c) seg) (split_on (CHR ''.'') ?t)"
    using a label_clean unfolding NETWORK_HOST_PATTERN_def list_all_iff [where xs = "split_on _ _"] by blast
  from split_on_all [OF this no_control_signs(1)] have t: "list_all (\<lambda>c. \<not> control_char c) ?t" .
  show ?thesis
  proof (cases "starts_with s ''*.''")
    case True
    then obtain u where "s = ''*.'' @ u" by (auto simp: starts_with_append)
    then show ?thesis using t True by (simp add: no_control_signs)
  qed (use t in simp)
qed

lemma hosts_clean: "validateNetworkHosts v = Inr hs \<Longrightarrow> length hs \<le> 64 \<and> list_all (clean_text 253) hs"
proof -
  have n: "length hs = length vs" if "read_each f l k vs = Inr hs" for f l k vs
    using that by (induction f l k vs arbitrary: hs rule: read_each.induct) (auto simp: accepts)
  assume a: "validateNetworkHosts v = Inr hs"
  then obtain vs where v: "v = JArr vs" "\<not> length vs > 64" "uniqueStringList NETWORK_HOST_PATTERN 253 ''policy.hosts'' v = Inr hs"
    by (auto simp: validateNetworkHosts_def accepts split: jsval.splits)
  have "clean_text 253 r" if "require_field NETWORK_HOST_PATTERN 253 l w = Inr r" for l w r
    using that host_clean [OF require_pattern [OF that survivors(7)]]
    by (auto simp: require_Inr clean_text_def blank_def intro: order_trans [OF length_trim])
  then have "list_all (clean_text 253) hs"
    using unique_all [OF v(3) [unfolded uniqueStringList_def], of "clean_text 253"] by blast
  moreover have "length hs = length vs" using v(1,3) n by (auto simp: uniqueStringList_def unique_Inr)
  ultimately show ?thesis using v(2) by simp
qed

lemma strings_wire: "list_all (clean_text n) ss \<Longrightarrow> n \<le> 1024 \<Longrightarrow> length ss \<le> k \<Longrightarrow> text_array k (strings_value ss)"
  by (auto simp: text_array_def strings_value_def list_within_def list_all_iff clean_bounded)

definition policy_clean :: "package_policy \<Rightarrow> bool" where
  "policy_clean p \<longleftrightarrow> list_all (\<lambda>t. clean_text 128 (mt_name t)) (pp_mcp_tools p) \<and> list_all (clean_text 1024) (pp_read_paths p) \<and>
     list_all (clean_text 1024) (pp_write_paths p) \<and>
     (case pp_hosts p of None \<Rightarrow> True | Some hs \<Rightarrow> length hs \<le> 64 \<and> list_all (clean_text 253) hs)"

lemma accepted_policy_clean:
  assumes "validateEmployeePackageManifest v = Inr (m, w)"
  shows "policy_clean (mf_policy m)"
proof -
  from assms obtain caps points policy filesystem assets where
    "read_policy caps points policy filesystem = Inr (mf_capabilities m, mf_policy m)"
    by (rule validate_Inr)
  then obtain raw where x:
    "portablePathList portablePath ''policy.filesystem.read'' (js_get filesystem ''read'') = Inr (pp_read_paths (mf_policy m))"
    "portablePathList portablePath ''policy.filesystem.write'' (js_get filesystem ''write'') = Inr (pp_write_paths (mf_policy m))"
    "validateMcpTools (js_get policy ''mcpTools'') = Inr (pp_mcp_tools (mf_policy m))"
    "optional_field validateNetworkHosts (js_get policy ''hosts'') = Inr (pp_hosts (mf_policy m))"
    by (rule policy_Inr)
  have "list_all (clean_text 1024) (pp_read_paths (mf_policy m))" "list_all (clean_text 1024) (pp_write_paths (mf_policy m))"
    using x(1,2) unique_all path_clean unfolding portablePathList_def by blast+
  moreover have "list_all (\<lambda>t. clean_text 128 (mt_name t)) (pp_mcp_tools (mf_policy m))"
    using x(3) tools_clean by (auto simp: validateMcpTools_def split: jsval.splits)
  moreover have "case pp_hosts (mf_policy m) of None \<Rightarrow> True | Some hs \<Rightarrow> length hs \<le> 64 \<and> list_all (clean_text 253) hs"
    using x(4) hosts_clean by (auto simp: optional_field_def accepts split: option.splits if_splits)
  ultimately show ?thesis by (simp add: policy_clean_def)
qed

lemma effective_names:
  "policy_clean (mf_policy m) \<Longrightarrow> list_all (\<lambda>t. clean_text 128 (mt_name t)) (ho_allow (deriveEffectiveAgentHostPolicy m))"
proof -
  have "clean_text 128 ''filesystem.read''" "clean_text 128 ''filesystem.search''" "clean_text 128 ''filesystem.write''"
    unfolding clean_text_def by code_simp+
  then show "policy_clean (mf_policy m) \<Longrightarrow> ?thesis"
    by (simp add: deriveEffectiveAgentHostPolicy_def Let_def policy_clean_def)
qed

text \<open>C35: The policy derived from an accepted manifest passes the wire check of run requests, as long as the package names no more tools
  and paths than a request may carry.\<close>

theorem derived_policy_passes_the_wire:
  "case validateEmployeePackageManifest v of
      Inl _ \<Rightarrow> True
    | Inr (m, _) \<Rightarrow>
        if length (pp_mcp_tools (mf_policy m)) \<le> 253 \<and> length (pp_read_paths (mf_policy m)) \<le> 1024 \<and>
           length (pp_write_paths (mf_policy m)) \<le> 1024
        then validatePolicyWire (host_policy_value (deriveEffectiveAgentHostPolicy m)) else True"
proof -
  have "validatePolicyWire (host_policy_value (deriveEffectiveAgentHostPolicy m))"
    if a: "validateEmployeePackageManifest v = Inr (m, w)" "length (pp_mcp_tools (mf_policy m)) \<le> 253"
      "length (pp_read_paths (mf_policy m)) \<le> 1024" "length (pp_write_paths (mf_policy m)) \<le> 1024" for m w
  proof -
    let ?p = "deriveEffectiveAgentHostPolicy m"
    have c: "policy_clean (mf_policy m)" by (rule accepted_policy_clean [OF a(1)])
    have l: "length (ho_allow ?p) \<le> 256" using a(2) by (simp add: deriveEffectiveAgentHostPolicy_def Let_def)
    have n: "list_all (\<lambda>t. bounded_text 256 False (JStr (mt_name t))) (ho_allow ?p)"
      using effective_names [OF c] clean_bounded [of 128 _ 256] by (simp add: list_all_iff)
    have t: "tools_wire (host_tools_value (ho_allow ?p))"
      using l n
      by (simp add: tools_wire_def host_tools_value_def record_of_def keys_within_def list_within_def list_all_iff one_of_def)
    have f: "ho_read ?p = pp_read_paths (mf_policy m)" "ho_write ?p = pp_write_paths (mf_policy m)" "ho_hosts ?p = pp_hosts (mf_policy m)"
      by (simp_all add: deriveEffectiveAgentHostPolicy_def Let_def)
    have fs: "filesystem_wire (JObj [(''read'', strings_value (ho_read ?p)), (''write'', strings_value (ho_write ?p))])"
      using c a(3,4) by (simp add: filesystem_wire_def record_of_def keys_within_def f policy_clean_def strings_wire [of 1024])
    have "network_wire (host_network_value ?p)"
      using c strings_wire [of 253]
      by (cases "pp_hosts (mf_policy m)"; cases "ho_network ?p")
        (simp_all add: f(3) network_wire_def host_network_value_def record_of_def keys_within_def opt_pair_def network_text_def one_of_def
          absent_or_def policy_clean_def)
    then show ?thesis using t fs
      by (simp add: validatePolicyWire_def host_policy_value_def record_of_def keys_within_def approval_wire_def one_of_def absent_or_def)
  qed
  then show ?thesis by (auto split: sum.split prod.split)
qed

end
