(* ===== verification/AgentHostRegistry.thy ===== *)
theory AgentHostRegistry
  imports AgentHostWire
begin

text \<open>
  packages/core/src/agent-host-registry.ts: the registry of agent host adapters. The functions a registration holds are values of
  types of their own; what a call of one settles with, or that it rejects, is an argument.
\<close>

section \<open>Registrations\<close>

text \<open>A member of an object that is expected to be a function.\<close>

datatype 'f member = Function_member 'f | Undefined_member | Other_member

record ('p, 'c) host_registration =
  hr_id :: jsval
  hr_aliases :: jsval
  hr_probe :: "'p member"
  hr_create :: "'c member"

record ('p, 'c) stored_registration =
  sr_id :: string
  sr_aliases :: "string list"
  sr_probe :: 'p
  sr_create :: "'c option"

record ('p, 'c) host_registry =
  rg_registrations :: "(string, ('p, 'c) stored_registration) jsmap"
  rg_identifiers :: "(string, string) jsmap"

datatype registry_error = Registry_error string | Callback_error

definition new_registry :: "('p, 'c) host_registry" where
  "new_registry = \<lparr>rg_registrations = [], rg_identifiers = []\<rparr>"

definition validateAgentHostId :: "jsval \<Rightarrow> registry_error + string" where
  "validateAgentHostId v = (case js_str v of
      None \<Rightarrow> Inl (Registry_error ''INVALID_AGENT_HOST_ID'')
    | Some s \<Rightarrow> ensure (HOST_ID_PATTERN s) (Registry_error ''INVALID_AGENT_HOST_ID'') (Inr s))"

fun host_ids :: "jsval list \<Rightarrow> registry_error + string list" where
  "host_ids [] = Inr []"
| "host_ids (v # vs) = and_then (validateAgentHostId v) (\<lambda>i. and_then (host_ids vs) (\<lambda>is. Inr (i # is)))"

definition registered_create :: "'c member \<Rightarrow> 'c option" where
  "registered_create m = (case m of Function_member f \<Rightarrow> Some f | _ \<Rightarrow> None)"

definition read_aliases :: "jsval \<Rightarrow> registry_error + string list" where
  "read_aliases v = (case v of
      JUndef \<Rightarrow> Inr []
    | JArr vs \<Rightarrow> and_then (host_ids vs) (\<lambda>aliases. Inr (sort aliases))
    | _ \<Rightarrow> Inl (Registry_error ''INVALID_AGENT_HOST_REGISTRATION''))"

text \<open>No registration stands for a value that is not an object.\<close>

definition validateRegistration ::
  "('p, 'c) host_registration option \<Rightarrow> registry_error + ('p, 'c) stored_registration" where
  "validateRegistration given = (case given of
      None \<Rightarrow> Inl (Registry_error ''INVALID_AGENT_HOST_REGISTRATION'')
    | Some r \<Rightarrow> and_then (validateAgentHostId (hr_id r)) (\<lambda>host.
        (case hr_probe r of
           Function_member p \<Rightarrow>
             ensure (hr_create r \<noteq> Other_member) (Registry_error ''INVALID_AGENT_HOST_REGISTRATION'')
               (and_then (read_aliases (hr_aliases r)) (\<lambda>aliases.
                  Inr \<lparr>sr_id = host, sr_aliases = aliases, sr_probe = p, sr_create = registered_create (hr_create r)\<rparr>))
         | _ \<Rightarrow> Inl (Registry_error ''INVALID_AGENT_HOST_REGISTRATION''))))"

section \<open>Operations\<close>

definition claimed :: "('p, 'c) stored_registration \<Rightarrow> string list" where
  "claimed s = sr_id s # sr_aliases s"

text \<open>The first loop of \<open>register\<close>: the identifier in conflict, if there is one.\<close>

fun identifier_conflict :: "(string, string) jsmap \<Rightarrow> string list \<Rightarrow> string list \<Rightarrow> string option" where
  "identifier_conflict taken here [] = None"
| "identifier_conflict taken here (i # is) =
     (if i \<in> set here \<or> map_get taken i \<noteq> None then Some i else identifier_conflict taken (i # here) is)"

definition claim_all :: "string \<Rightarrow> string list \<Rightarrow> (string, string) jsmap \<Rightarrow> (string, string) jsmap" where
  "claim_all host is taken = fold (\<lambda>i m. map_set m i host) is taken"

definition register ::
  "('p, 'c) host_registry \<Rightarrow> ('p, 'c) host_registration option \<Rightarrow> registry_error + ('p, 'c) host_registry" where
  "register g given = and_then (validateRegistration given) (\<lambda>s.
     ensure (identifier_conflict (rg_identifiers g) [] (claimed s) = None) (Registry_error ''AGENT_HOST_IDENTIFIER_CONFLICT'')
       (Inr \<lparr>rg_registrations = map_set (rg_registrations g) (sr_id s) s,
             rg_identifiers = claim_all (sr_id s) (claimed s) (rg_identifiers g)\<rparr>))"

definition list_hosts :: "('p, 'c) host_registry \<Rightarrow> string list" where
  "list_hosts g = sort (map_keys (rg_registrations g))"

definition resolve :: "('p, 'c) host_registry \<Rightarrow> jsval \<Rightarrow> registry_error + string" where
  "resolve g v = and_then (validateAgentHostId v) (\<lambda>i. case map_get (rg_identifiers g) i of
      None \<Rightarrow> Inl (Registry_error ''AGENT_HOST_NOT_REGISTERED'') | Some host \<Rightarrow> Inr host)"

definition hasAdapter :: "('p, 'c) host_registry \<Rightarrow> jsval \<Rightarrow> registry_error + bool" where
  "hasAdapter g v = and_then (validateAgentHostId v) (\<lambda>i. case map_get (rg_identifiers g) i of
      None \<Rightarrow> Inr False
    | Some host \<Rightarrow> (case map_get (rg_registrations g) host of None \<Rightarrow> Inr False | Some s \<Rightarrow> Inr (sr_create s \<noteq> None)))"

definition registered :: "('p, 'c) host_registry \<Rightarrow> jsval \<Rightarrow> registry_error + ('p, 'c) stored_registration" where
  "registered g v = and_then (resolve g v) (\<lambda>host. case map_get (rg_registrations g) host of
      None \<Rightarrow> Inl (Registry_error ''AGENT_HOST_NOT_REGISTERED'') | Some s \<Rightarrow> Inr s)"

definition registry_issue :: "jsval \<Rightarrow> bool" where
  "registry_issue v = (is_plain_object v \<and> list_all (\<lambda>k. k \<in> set [''code'', ''message'', ''blocking'']) (js_keys v) \<and>
     bounded_text 128 False (js_get v ''code'') \<and> bounded_text 2000 True (js_get v ''message'') \<and>
     is_boolean (js_get v ''blocking''))"

definition PROBE_RESULT_KEYS :: "string list" where
  "PROBE_RESULT_KEYS = [''protocolVersion'', ''hostId'', ''displayName'', ''status'', ''available'', ''adapterStatus'',
     ''version'', ''capabilities'', ''capabilitySource'', ''issues'']"

definition probe_result_ok :: "jsval \<Rightarrow> string \<Rightarrow> bool" where
  "probe_result_ok v host =
     (is_plain_object v \<and> list_all (\<lambda>k. k \<in> set PROBE_RESULT_KEYS) (js_keys v) \<and>
      bounded_text 64 False (js_get v ''protocolVersion'') \<and> js_get v ''hostId'' = JStr host \<and>
      bounded_text 256 False (js_get v ''displayName'') \<and>
      one_of [''installed'', ''ready'', ''not_ready'', ''not_found'', ''probe_failed''] (js_get v ''status'') \<and>
      is_boolean (js_get v ''available'') \<and> one_of [''probe_only'', ''runnable''] (js_get v ''adapterStatus'') \<and>
      (js_get v ''version'' = JUndef \<or> bounded_text 256 False (js_get v ''version'')) \<and>
      is_plain_object (js_get v ''capabilities'') \<and>
      list_all (\<lambda>k. k \<in> set AGENT_HOST_CAPABILITIES) (js_keys (js_get v ''capabilities'')) \<and>
      list_all (\<lambda>c. one_of [''supported'', ''documented'', ''unsupported'', ''unknown''] (js_get (js_get v ''capabilities'') c))
        AGENT_HOST_CAPABILITIES \<and>
      one_of [''adapter_declaration'', ''conformance_test''] (js_get v ''capabilitySource'') \<and>
      (case js_get v ''issues'' of JArr es \<Rightarrow> length es \<le> 256 \<and> list_all registry_issue es | _ \<Rightarrow> False))"

definition validateAgentHostProbeResult :: "jsval \<Rightarrow> string \<Rightarrow> registry_error + jsval" where
  "validateAgentHostProbeResult v host = ensure (probe_result_ok v host) (Registry_error ''AGENT_HOST_PROBE_INVALID'') (Inr v)"

text \<open>What the factory returned: whether it is an object, and the members the check reads.\<close>

record 'f adapter_value =
  av_host :: jsval
  av_probe :: "'f member"
  av_preflight :: "'f member"
  av_run :: "'f member"
  av_respond :: "'f member"
  av_cancel :: "'f member"

definition is_function :: "'f member \<Rightarrow> bool" where
  "is_function m = (case m of Function_member _ \<Rightarrow> True | _ \<Rightarrow> False)"

definition adapter_ok :: "'f adapter_value \<Rightarrow> string \<Rightarrow> bool" where
  "adapter_ok a host = (av_host a = JStr host \<and> is_function (av_probe a) \<and> is_function (av_preflight a) \<and> is_function (av_run a) \<and>
     (av_respond a = Undefined_member \<or> is_function (av_respond a)) \<and> (av_cancel a = Undefined_member \<or> is_function (av_cancel a)))"

definition validateAdapterIdentity :: "'f adapter_value option \<Rightarrow> string \<Rightarrow> registry_error + 'f adapter_value" where
  "validateAdapterIdentity given host = (case given of
      None \<Rightarrow> Inl (Registry_error ''AGENT_HOST_ADAPTER_INVALID'')
    | Some a \<Rightarrow> ensure (adapter_ok a host) (Registry_error ''AGENT_HOST_ADAPTER_INVALID'') (Inr a))"

text \<open>\<open>settle\<close> says what a call of a function settles with; no value for a rejection.\<close>

definition probe_host :: "('p \<Rightarrow> jsval option) \<Rightarrow> ('p, 'c) host_registry \<Rightarrow> jsval \<Rightarrow> registry_error + jsval" where
  "probe_host settle g v = and_then (registered g v) (\<lambda>s. case settle (sr_probe s) of
      None \<Rightarrow> Inl Callback_error | Some result \<Rightarrow> validateAgentHostProbeResult result (sr_id s))"

definition create_host ::
  "('c \<Rightarrow> 'f adapter_value option option) \<Rightarrow> ('p, 'c) host_registry \<Rightarrow> jsval \<Rightarrow> registry_error + 'f adapter_value" where
  "create_host settle g v = and_then (registered g v) (\<lambda>s. case sr_create s of
      None \<Rightarrow> Inl (Registry_error ''AGENT_HOST_ADAPTER_NOT_RUNNABLE'')
    | Some f \<Rightarrow> (case settle f of None \<Rightarrow> Inl Callback_error | Some a \<Rightarrow> validateAdapterIdentity a (sr_id s)))"

section \<open>The invariant\<close>

text \<open>
  Every identifier points to a registration that claims it, every claim of a registration is an identifier that points back, and
  all of them are well-formed.
\<close>

definition registry_ok :: "('p, 'c) host_registry \<Rightarrow> bool" where
  "registry_ok g \<longleftrightarrow> map_wf (rg_registrations g) \<and> map_wf (rg_identifiers g) \<and>
     (\<forall>i host. map_get (rg_identifiers g) i = Some host \<longrightarrow> HOST_ID_PATTERN i \<and>
        (\<exists>s. map_get (rg_registrations g) host = Some s \<and> i \<in> set (claimed s))) \<and>
     (\<forall>host s. map_get (rg_registrations g) host = Some s \<longrightarrow> sr_id s = host \<and> distinct (claimed s) \<and>
        (\<forall>i \<in> set (claimed s). map_get (rg_identifiers g) i = Some host))"

lemma identifier_points:
  assumes "registry_ok g" "map_get (rg_identifiers g) i = Some host"
  obtains s where "HOST_ID_PATTERN i" "map_get (rg_registrations g) host = Some s" "i \<in> set (claimed s)"
  using assms unfolding registry_ok_def by blast

lemma registration_points:
  assumes "registry_ok g" "map_get (rg_registrations g) host = Some s"
  shows "sr_id s = host" "distinct (claimed s)" "\<And>i. i \<in> set (claimed s) \<Longrightarrow> map_get (rg_identifiers g) i = Some host"
  using assms unfolding registry_ok_def by blast+

lemma own_claim [simp]: "sr_id s \<in> set (claimed s)"
  by (simp add: claimed_def)

lemma registration_points_own:
  "registry_ok g \<Longrightarrow> map_get (rg_registrations g) host = Some s \<Longrightarrow> map_get (rg_identifiers g) host = Some host"
  using registration_points(1) [of g host s] registration_points(3) [of g host s "sr_id s"] own_claim [of s] by simp

lemma host_ids_pattern: "host_ids vs = Inr is \<Longrightarrow> list_all HOST_ID_PATTERN is"
  by (induction vs arbitrary: "is") (auto simp: accepts validateAgentHostId_def split: option.splits)

lemma id_pattern: "validateAgentHostId v = Inr i \<Longrightarrow> v = JStr i \<and> HOST_ID_PATTERN i"
  by (cases v) (auto simp: validateAgentHostId_def accepts)

lemma aliases_pattern: "read_aliases v = Inr is \<Longrightarrow> list_all HOST_ID_PATTERN is"
  by (cases v) (auto simp: read_aliases_def accepts list_all_iff dest!: host_ids_pattern)

lemma registration_pattern:
  assumes "validateRegistration given = Inr s"
  shows "list_all HOST_ID_PATTERN (claimed s)"
proof -
  obtain r where r: "given = Some r" using assms by (cases given) (auto simp: validateRegistration_def)
  then obtain p where p: "hr_probe r = Function_member p"
    using assms by (cases "hr_probe r") (auto simp: validateRegistration_def and_then_Inr)
  show ?thesis
    using assms aliases_pattern [of "hr_aliases r"]
    by (auto simp: r p validateRegistration_def accepts claimed_def dest!: id_pattern)
qed

lemma no_conflict:
  "identifier_conflict taken here is = None \<longleftrightarrow>
   distinct is \<and> set is \<inter> set here = {} \<and> (\<forall>i \<in> set is. map_get taken i = None)"
  by (induction "is" arbitrary: here) auto

lemma claim_all_get:
  "map_get (claim_all host is taken) i = (if i \<in> set is then Some host else map_get taken i)"
  by (induction "is" arbitrary: taken) (auto simp: claim_all_def)

lemma claim_all_wf: "map_wf taken \<Longrightarrow> map_wf (claim_all host is taken)"
  by (induction "is" arbitrary: taken) (auto simp: claim_all_def)

lemma register_Inr:
  assumes "register g given = Inr g'"
  obtains s where "list_all HOST_ID_PATTERN (claimed s)" "distinct (claimed s)"
    "\<And>i. i \<in> set (claimed s) \<Longrightarrow> map_get (rg_identifiers g) i = None"
    "g' = \<lparr>rg_registrations = map_set (rg_registrations g) (sr_id s) s,
           rg_identifiers = claim_all (sr_id s) (claimed s) (rg_identifiers g)\<rparr>"
  using assms registration_pattern by (fastforce simp: register_def accepts no_conflict)

lemma register_ok: "registry_ok g \<Longrightarrow> register g given = Inr g' \<Longrightarrow> registry_ok g'"
proof (erule register_Inr)
  fix s
  assume g: "registry_ok g" and s: "list_all HOST_ID_PATTERN (claimed s)" "distinct (claimed s)"
    and free: "\<And>i. i \<in> set (claimed s) \<Longrightarrow> map_get (rg_identifiers g) i = None"
    and g': "g' = \<lparr>rg_registrations = map_set (rg_registrations g) (sr_id s) s,
      rg_identifiers = claim_all (sr_id s) (claimed s) (rg_identifiers g)\<rparr>"
  have new: "map_get (rg_registrations g) (sr_id s) = None"
    using registration_points_own [OF g] free [OF own_claim] by (cases "map_get (rg_registrations g) (sr_id s)") auto
  have "HOST_ID_PATTERN i \<and> (\<exists>t. map_get (rg_registrations g') host = Some t \<and> i \<in> set (claimed t))"
    if i: "map_get (rg_identifiers g') i = Some host" for i host
  proof (cases "i \<in> set (claimed s)")
    case True
    then show ?thesis using i s(1) by (auto simp: g' claim_all_get list_all_iff)
  next
    case False
    then have "map_get (rg_identifiers g) i = Some host" using i by (simp add: g' claim_all_get)
    then show ?thesis using new by (elim identifier_points [OF g]) (auto simp: g')
  qed
  moreover have "sr_id t = host \<and> distinct (claimed t) \<and> (\<forall>i \<in> set (claimed t). map_get (rg_identifiers g') i = Some host)"
    if t: "map_get (rg_registrations g') host = Some t" for host t
  proof (cases "host = sr_id s")
    case True
    then show ?thesis using t s(2) by (simp add: g' claim_all_get)
  next
    case False
    then have "map_get (rg_registrations g) host = Some t" using t by (simp add: g')
    note p = registration_points [OF g this]
    have "i \<notin> set (claimed s)" if "i \<in> set (claimed t)" for i using p(3) [OF that] free [of i] by auto
    then show ?thesis using p by (simp add: g' claim_all_get)
  qed
  moreover have "map_wf (rg_registrations g')" "map_wf (rg_identifiers g')"
    using g by (simp_all add: g' claim_all_wf map_wf_set registry_ok_def)
  ultimately show "registry_ok g'" unfolding registry_ok_def by blast
qed

section \<open>Runs of registrations\<close>

text \<open>A registration that throws leaves the registry as it was.\<close>

definition register_step :: "('p, 'c) host_registration option \<Rightarrow> ('p, 'c) host_registry \<Rightarrow> ('p, 'c) host_registry" where
  "register_step given g = (case register g given of Inl _ \<Rightarrow> g | Inr g' \<Rightarrow> g')"

definition extends_registry :: "('p, 'c) host_registry \<Rightarrow> ('p, 'c) host_registry \<Rightarrow> bool" where
  "extends_registry g h \<longleftrightarrow>
     (\<forall>i host. map_get (rg_identifiers g) i = Some host \<longrightarrow> map_get (rg_identifiers h) i = Some host) \<and>
     (\<forall>host s. map_get (rg_registrations g) host = Some s \<longrightarrow> map_get (rg_registrations h) host = Some s)"

lemma new_registry_ok: "registry_ok new_registry"
  by (simp add: registry_ok_def new_registry_def)

lemma register_extends: "registry_ok g \<Longrightarrow> register g given = Inr g' \<Longrightarrow> extends_registry g g'"
proof (erule register_Inr)
  fix s
  assume g: "registry_ok g" and free: "\<And>i. i \<in> set (claimed s) \<Longrightarrow> map_get (rg_identifiers g) i = None"
    and g': "g' = \<lparr>rg_registrations = map_set (rg_registrations g) (sr_id s) s,
      rg_identifiers = claim_all (sr_id s) (claimed s) (rg_identifiers g)\<rparr>"
  have "map_get (rg_registrations g) host = Some t \<Longrightarrow> host \<noteq> sr_id s" for host t
    using registration_points_own [OF g] free [OF own_claim] by auto
  then show "extends_registry g g'"
    using free by (fastforce simp: extends_registry_def g' claim_all_get)
qed

interpretation registrations: mono_machine "new_registry :: ('p, 'c) host_registry" register_step registry_ok extends_registry
proof unfold_locales
  show "registry_ok (new_registry :: ('p, 'c) host_registry)" by (rule new_registry_ok)
  show "registry_ok g \<Longrightarrow> registry_ok (register_step x g)" for g :: "('p, 'c) host_registry" and x
    by (auto simp: register_step_def intro: register_ok split: sum.split)
  show "extends_registry g g" for g :: "('p, 'c) host_registry" by (simp add: extends_registry_def)
  show "extends_registry g h \<Longrightarrow> extends_registry h k \<Longrightarrow> extends_registry g k" for g h k :: "('p, 'c) host_registry"
    by (simp add: extends_registry_def)
  show "registry_ok g \<Longrightarrow> extends_registry g (register_step x g)" for g :: "('p, 'c) host_registry" and x
    using register_extends by (fastforce simp: register_step_def extends_registry_def split: sum.split)
qed

definition registry_after :: "('p, 'c) host_registration option list \<Rightarrow> ('p, 'c) host_registry" where
  "registry_after rs = fold register_step rs new_registry"

lemma registered_Inr:
  assumes "registry_ok g" "registered g v = Inr s"
  obtains i where "v = JStr i" "HOST_ID_PATTERN i" "map_get (rg_identifiers g) i = Some (sr_id s)"
    "map_get (rg_registrations g) (sr_id s) = Some s"
proof -
  from assms(2) obtain i host where x: "validateAgentHostId v = Inr i" "map_get (rg_identifiers g) i = Some host"
    "map_get (rg_registrations g) host = Some s"
    by (auto simp: registered_def resolve_def accepts split: option.splits)
  then show ?thesis
    using that [of i] id_pattern [OF x(1)] registration_points(1) [OF assms(1) x(3)] by simp
qed

text \<open>C36: Whatever is registered, an identifier that resolves once resolves to the same host ever after, and that host is registered
  under its own identifier with the same callbacks.\<close>

theorem identifiers_are_never_shadowed:
  "case registered (registry_after rs) v of
      Inl _ \<Rightarrow> True
    | Inr s \<Rightarrow> registered (registry_after (rs @ later)) v = Inr s \<and> resolve (registry_after (rs @ later)) (JStr (sr_id s)) = Inr (sr_id s)"
proof (cases "registered (registry_after rs) v")
  case (Inr s)
  let ?g = "registry_after rs" and ?h = "registry_after (rs @ later)"
  have ok: "registry_ok ?g" "registry_ok ?h" by (simp_all add: registry_after_def registrations.invar_run del: fold_append)
  have e: "extends_registry ?g ?h" using registrations.below_later [of rs later] by (simp add: registry_after_def)
  obtain i where i: "v = JStr i" "HOST_ID_PATTERN i" "map_get (rg_identifiers ?g) i = Some (sr_id s)"
    "map_get (rg_registrations ?g) (sr_id s) = Some s"
    by (rule registered_Inr [OF ok(1) Inr])
  then have h: "map_get (rg_registrations ?h) (sr_id s) = Some s" "map_get (rg_identifiers ?h) i = Some (sr_id s)"
    using e by (simp_all add: extends_registry_def)
  have own: "map_get (rg_identifiers ?h) (sr_id s) = Some (sr_id s)" by (rule registration_points_own [OF ok(2) h(1)])
  then have "HOST_ID_PATTERN (sr_id s)" by (rule identifier_points [OF ok(2)])
  then show ?thesis using Inr i(1,2) h own by (simp add: registered_def resolve_def validateAgentHostId_def)
qed simp

text \<open>A created adapter carries the identity the identifier resolves to, whatever alias was used, and it can probe, check and run.\<close>

theorem created_adapters_carry_the_resolved_identity:
  "case create_host settle (registry_after rs) v of
      Inl _ \<Rightarrow> True
    | Inr a \<Rightarrow> (case resolve (registry_after rs) v of Inl _ \<Rightarrow> False | Inr host \<Rightarrow> av_host a = JStr host) \<and>
        hasAdapter (registry_after rs) v = Inr True \<and> is_function (av_probe a) \<and> is_function (av_preflight a) \<and> is_function (av_run a)"
proof (cases "create_host settle (registry_after rs) v")
  case (Inr a)
  let ?g = "registry_after rs"
  have ok: "registry_ok ?g" by (simp add: registry_after_def registrations.invar_run)
  from Inr obtain s f where s: "registered ?g v = Inr s" "sr_create s = Some f" and "adapter_ok a (sr_id s)"
    by (auto simp: create_host_def validateAdapterIdentity_def accepts option_Inr)
  obtain i where i: "v = JStr i" "HOST_ID_PATTERN i" "map_get (rg_identifiers ?g) i = Some (sr_id s)"
    "map_get (rg_registrations ?g) (sr_id s) = Some s"
    by (rule registered_Inr [OF ok s(1)])
  show ?thesis
    using Inr \<open>adapter_ok a (sr_id s)\<close> s(2) i by (simp add: adapter_ok_def resolve_def hasAdapter_def validateAgentHostId_def)
qed simp

section \<open>The two probe validators\<close>

lemma issue_shapes: "registry_issue v = issue_wire v"
  by (simp add: registry_issue_def issue_wire_def record_of_def keys_within_def)

lemma probe_validators_agree:
  "probe_result_ok v host \<longleftrightarrow> record_of AGENT_HOST_PROBE_WIRE_KEYS v \<and> probe_shape v host"
  by (auto simp: probe_result_ok_def probe_shape_def record_of_def keys_within_def PROBE_RESULT_KEYS_def capabilities_wire_def
      AGENT_HOST_PROBE_WIRE_KEYS_def PROBE_STATUSES_def CAPABILITY_SUPPORT_def absent_or_def list_within_def issue_shapes [abs_def]
      simp del: js_get.simps split: jsval.splits)

text \<open>A probe through the registry is one the wire accepts for the host the identifier resolves to.\<close>

lemma registry_probe_passes_the_wire:
  assumes "probe_host settle (registry_after rs) v = Inr result"
  obtains host where "resolve (registry_after rs) v = Inr host" "validateAgentHostProbeWire result host = Inr result"
proof -
  let ?g = "registry_after rs"
  have ok: "registry_ok ?g" by (simp add: registry_after_def registrations.invar_run)
  from assms obtain s where s: "registered ?g v = Inr s" and r: "probe_result_ok result (sr_id s)"
    by (auto simp: probe_host_def validateAgentHostProbeResult_def accepts split: option.splits)
  obtain i where i: "v = JStr i" "HOST_ID_PATTERN i" "map_get (rg_identifiers ?g) i = Some (sr_id s)"
    by (rule registered_Inr [OF ok s])
  have "resolve ?g v = Inr (sr_id s)" using i by (simp add: resolve_def validateAgentHostId_def)
  moreover have "validateAgentHostProbeWire result (sr_id s) = Inr result"
    using r by (simp add: probe_validators_agree validateAgentHostProbeWire_def)
  ultimately show ?thesis by (rule that)
qed

end
