(* ===== verification/HireRequest.thy ===== *)
theory HireRequest
  imports OrgModel EmployeePackage
begin

text \<open>
  packages/core/src/hire-request.ts: the validator of hire requests, and what an accepted request promises to the components that
  read its budget. \<open>parses\<close> says whether \<open>Date.parse\<close> knows a text. An error is its code.
\<close>

section \<open>The request\<close>

record hire_package_ref =
  hk_name :: string
  hk_version :: string
  hk_digest :: string

record hire_request =
  hq_workspace :: string
  hq_package :: hire_package_ref
  hq_parent :: string
  hq_budget :: position_budget
  hq_requested_by :: string
  hq_deadline :: "string option"
  hq_envelope :: string

definition HIRE_REQUEST_SCHEMA_VERSION :: string where
  "HIRE_REQUEST_SCHEMA_VERSION = ''hire-request.v1alpha1''"

definition MAX_ID_LENGTH :: nat where
  "MAX_ID_LENGTH = 256"

definition MIN_DIGEST_LENGTH :: nat where
  "MIN_DIGEST_LENGTH = 16"

text \<open>\<open>/^v1alpha1(\.[0-9]+)?$/\<close>\<close>

definition PACKAGE_VERSION_PATTERN :: "string \<Rightarrow> bool" where
  "PACKAGE_VERSION_PATTERN s =
     (s = ''v1alpha1'' \<or> (starts_with s ''v1alpha1.'' \<and> length s > 9 \<and> list_all is_digit (drop 9 s)))"

definition HIRE_REQUEST_KNOWN_FIELDS :: "string list" where
  "HIRE_REQUEST_KNOWN_FIELDS = [''schemaVersion'', ''workspaceRef'', ''packageRef'', ''targetParentId'', ''budget'',
     ''requestedBy'', ''deadline'', ''envelopeDigest'']"

definition dotted :: "string \<Rightarrow> string" where
  "dotted path = (if path = [] then [] else path @ ''.'')"

definition invalid_field :: "string \<Rightarrow> string" where
  "invalid_field path = ''hire_request_invalid_field:'' @ path"

fun assertKnownFields :: "string list \<Rightarrow> string \<Rightarrow> string list \<Rightarrow> string + unit" where
  "assertKnownFields allowed path [] = Inr ()"
| "assertKnownFields allowed path (k # ks) =
     (if k \<notin> set allowed then Inl (''hire_request_unknown_field:'' @ dotted path @ k) else assertKnownFields allowed path ks)"

definition assertBoundedId :: "string \<Rightarrow> jsval \<Rightarrow> string + string" where
  "assertBoundedId path v = (case js_str v of
      None \<Rightarrow> Inl (invalid_field path)
    | Some s \<Rightarrow> ensure (\<not> blank s) (invalid_field path)
        (ensure (\<not> length s > MAX_ID_LENGTH) (invalid_field path) (Inr s)))"

definition assertDigest :: "string \<Rightarrow> jsval \<Rightarrow> string + string" where
  "assertDigest path v = (case js_str v of
      None \<Rightarrow> Inl (invalid_field path)
    | Some s \<Rightarrow> ensure (\<not> length s < MIN_DIGEST_LENGTH) (invalid_field path) (Inr s))"

definition scope_entry :: "string \<Rightarrow> jsval \<Rightarrow> string + int option" where
  "scope_entry path v = (if v = JUndef then Inr None else (case js_int v of
      None \<Rightarrow> Inl (invalid_field path)
    | Some n \<Rightarrow> ensure (\<not> n < 1 \<and> \<not> n > MAX_BUDGET_CAP) (invalid_field path) (Inr (Some n))))"

definition validateBudgetScope :: "string \<Rightarrow> jsval \<Rightarrow> string + budget_scope" where
  "validateBudgetScope path v =
     ensure (is_plain_object v) (invalid_field path)
    (and_then (assertKnownFields [''tokens'', ''iterations''] path (js_keys v)) (\<lambda>_.
     and_then (scope_entry (path @ ''.tokens'') (js_get v ''tokens'')) (\<lambda>tokens.
     and_then (scope_entry (path @ ''.iterations'') (js_get v ''iterations'')) (\<lambda>iterations.
     ensure (\<not> (tokens = None \<and> iterations = None)) (invalid_field path)
       (Inr \<lparr>scope_tokens = tokens, scope_iterations = iterations\<rparr>)))))"

definition optional_scope :: "string \<Rightarrow> jsval \<Rightarrow> string + budget_scope option" where
  "optional_scope path v = (if v = JUndef then Inr None else and_then (validateBudgetScope path v) (\<lambda>s. Inr (Some s)))"

definition validateBudget :: "jsval \<Rightarrow> string + position_budget" where
  "validateBudget v =
     ensure (is_plain_object v) (invalid_field ''budget'')
    (and_then (assertKnownFields [''perTask'', ''perDay''] ''budget'' (js_keys v)) (\<lambda>_.
     and_then (optional_scope ''budget.perTask'' (js_get v ''perTask'')) (\<lambda>perTask.
     and_then (optional_scope ''budget.perDay'' (js_get v ''perDay'')) (\<lambda>perDay.
       (case perTask of
          None \<Rightarrow> Inl (invalid_field ''budget.perTask'')
        | Some t \<Rightarrow> (case perDay of
            None \<Rightarrow> Inl (invalid_field ''budget.perDay'')
          | Some d \<Rightarrow> Inr \<lparr>per_task = t, per_day = d\<rparr>))))))"

definition package_version :: "jsval \<Rightarrow> string + string" where
  "package_version v = (case js_str v of
      None \<Rightarrow> Inl (invalid_field ''packageRef.version'')
    | Some s \<Rightarrow> ensure (PACKAGE_VERSION_PATTERN s) (invalid_field ''packageRef.version'') (Inr s))"

definition validatePackageRef :: "jsval \<Rightarrow> string + hire_package_ref" where
  "validatePackageRef v =
     ensure (is_plain_object v) (invalid_field ''packageRef'')
    (and_then (assertKnownFields [''name'', ''version'', ''digest''] ''packageRef'' (js_keys v)) (\<lambda>_.
     and_then (assertBoundedId ''packageRef.name'' (js_get v ''name'')) (\<lambda>name.
     and_then (package_version (js_get v ''version'')) (\<lambda>version.
     and_then (assertDigest ''packageRef.digest'' (js_get v ''digest'')) (\<lambda>digest.
       Inr \<lparr>hk_name = name, hk_version = version, hk_digest = digest\<rparr>)))))"

definition hire_deadline :: "(string \<Rightarrow> bool) \<Rightarrow> jsval \<Rightarrow> string + string option" where
  "hire_deadline parses v = (if v = JUndef then Inr None else (case js_str v of
      None \<Rightarrow> Inl (invalid_field ''deadline'')
    | Some s \<Rightarrow> ensure (parses s) (invalid_field ''deadline'') (Inr (Some s))))"

definition validateHireRequest :: "(string \<Rightarrow> bool) \<Rightarrow> jsval \<Rightarrow> string + hire_request" where
  "validateHireRequest parses v =
     ensure (is_plain_object v) (invalid_field ''hireRequest'')
    (and_then (assertKnownFields HIRE_REQUEST_KNOWN_FIELDS [] (js_keys v)) (\<lambda>_.
     ensure (js_get v ''schemaVersion'' = JStr HIRE_REQUEST_SCHEMA_VERSION) (invalid_field ''schemaVersion'')
    (and_then (assertBoundedId ''workspaceRef'' (js_get v ''workspaceRef'')) (\<lambda>workspace.
     and_then (validatePackageRef (js_get v ''packageRef'')) (\<lambda>package.
     and_then (assertBoundedId ''targetParentId'' (js_get v ''targetParentId'')) (\<lambda>parent.
     ensure (js_get v ''budget'' \<noteq> JUndef) ''hire_request_missing_budget''
    (and_then (validateBudget (js_get v ''budget'')) (\<lambda>budget.
     and_then (assertBoundedId ''requestedBy'' (js_get v ''requestedBy'')) (\<lambda>requested.
     and_then (hire_deadline parses (js_get v ''deadline'')) (\<lambda>deadline.
     and_then (assertDigest ''envelopeDigest'' (js_get v ''envelopeDigest'')) (\<lambda>envelope.
       Inr \<lparr>hq_workspace = workspace, hq_package = package, hq_parent = parent, hq_budget = budget, hq_requested_by = requested,
            hq_deadline = deadline, hq_envelope = envelope\<rparr>)))))))))))"

section \<open>Accepted requests\<close>

definition hire_id :: "string \<Rightarrow> bool" where
  "hire_id s \<longleftrightarrow> \<not> blank s \<and> length s \<le> MAX_ID_LENGTH"

definition hire_digest :: "string \<Rightarrow> bool" where
  "hire_digest s \<longleftrightarrow> MIN_DIGEST_LENGTH \<le> length s"

definition limit_bounded :: "int option \<Rightarrow> bool" where
  "limit_bounded x \<longleftrightarrow> (case x of None \<Rightarrow> True | Some n \<Rightarrow> 1 \<le> n \<and> n \<le> MAX_BUDGET_CAP)"

definition scope_bounded :: "budget_scope \<Rightarrow> bool" where
  "scope_bounded s \<longleftrightarrow> limit_bounded (scope_tokens s) \<and> limit_bounded (scope_iterations s) \<and>
     \<not> (scope_tokens s = None \<and> scope_iterations s = None)"

definition hire_package_ok :: "hire_package_ref \<Rightarrow> bool" where
  "hire_package_ok p \<longleftrightarrow> hire_id (hk_name p) \<and> PACKAGE_VERSION_PATTERN (hk_version p) \<and> hire_digest (hk_digest p)"

definition hire_ok :: "(string \<Rightarrow> bool) \<Rightarrow> hire_request \<Rightarrow> bool" where
  "hire_ok parses r \<longleftrightarrow> hire_id (hq_workspace r) \<and> hire_package_ok (hq_package r) \<and> hire_id (hq_parent r) \<and>
     scope_bounded (per_task (hq_budget r)) \<and> scope_bounded (per_day (hq_budget r)) \<and> hire_id (hq_requested_by r) \<and>
     (case hq_deadline r of None \<Rightarrow> True | Some s \<Rightarrow> parses s) \<and> hire_digest (hq_envelope r)"

text \<open>The request as JSON.\<close>

definition package_ref_json :: "hire_package_ref \<Rightarrow> jsval" where
  "package_ref_json p = JObj [(''name'', JStr (hk_name p)), (''version'', JStr (hk_version p)), (''digest'', JStr (hk_digest p))]"

definition hire_json :: "hire_request \<Rightarrow> jsval" where
  "hire_json r = JObj ([(''schemaVersion'', JStr HIRE_REQUEST_SCHEMA_VERSION), (''workspaceRef'', JStr (hq_workspace r)),
     (''packageRef'', package_ref_json (hq_package r)), (''targetParentId'', JStr (hq_parent r)),
     (''budget'', budget_json (hq_budget r)), (''requestedBy'', JStr (hq_requested_by r))] @
     opt_pair ''deadline'' JStr (hq_deadline r) @ [(''envelopeDigest'', JStr (hq_envelope r))])"

lemma bounded_id_Inr: "assertBoundedId p v = Inr s \<longleftrightarrow> v = JStr s \<and> hire_id s"
  by (cases v) (auto simp: assertBoundedId_def hire_id_def accepts)

lemma digest_Inr: "assertDigest p v = Inr s \<longleftrightarrow> v = JStr s \<and> hire_digest s"
  by (cases v) (auto simp: assertDigest_def hire_digest_def accepts)

lemma version_Inr: "package_version v = Inr s \<longleftrightarrow> v = JStr s \<and> PACKAGE_VERSION_PATTERN s"
  by (cases v) (auto simp: package_version_def accepts)

lemma deadline_Inr: "hire_deadline parses v = Inr x \<longleftrightarrow>
  (case x of None \<Rightarrow> v = JUndef | Some s \<Rightarrow> v = JStr s \<and> parses s)"
  by (cases v; cases x) (auto simp: hire_deadline_def accepts)

lemma known_Inr: "assertKnownFields allowed path ks = Inr u \<longleftrightarrow> set ks \<subseteq> set allowed"
  by (induction ks) auto

lemma entry_Inr: "scope_entry p v = Inr x \<longleftrightarrow>
  (case x of None \<Rightarrow> v = JUndef | Some n \<Rightarrow> v \<noteq> JUndef \<and> js_int v = Some n) \<and> limit_bounded x"
  by (cases x) (auto simp: scope_entry_def limit_bounded_def accepts option_Inr)

lemma scope_Inr: "validateBudgetScope p v = Inr s \<longleftrightarrow>
  is_plain_object v \<and> set (js_keys v) \<subseteq> {''tokens'', ''iterations''} \<and> scope_bounded s \<and>
  scope_entry (p @ ''.tokens'') (js_get v ''tokens'') = Inr (scope_tokens s) \<and>
  scope_entry (p @ ''.iterations'') (js_get v ''iterations'') = Inr (scope_iterations s)"
  by (cases s) (auto simp: validateBudgetScope_def accepts known_Inr scope_bounded_def entry_Inr)

lemma optional_scope_Inr: "optional_scope p v = Inr x \<longleftrightarrow>
  (case x of None \<Rightarrow> v = JUndef | Some s \<Rightarrow> v \<noteq> JUndef \<and> validateBudgetScope p v = Inr s)"
  by (cases x) (auto simp: optional_scope_def accepts)

lemma budget_Inr: "validateBudget v = Inr b \<longleftrightarrow>
  is_plain_object v \<and> set (js_keys v) \<subseteq> {''perTask'', ''perDay''} \<and>
  optional_scope ''budget.perTask'' (js_get v ''perTask'') = Inr (Some (per_task b)) \<and>
  optional_scope ''budget.perDay'' (js_get v ''perDay'') = Inr (Some (per_day b))"
  by (cases b) (auto simp: validateBudget_def accepts known_Inr option_Inr)

lemma package_ref_Inr: "validatePackageRef v = Inr p \<longleftrightarrow>
  is_plain_object v \<and> set (js_keys v) \<subseteq> {''name'', ''version'', ''digest''} \<and> js_get v ''name'' = JStr (hk_name p) \<and>
  js_get v ''version'' = JStr (hk_version p) \<and> js_get v ''digest'' = JStr (hk_digest p) \<and> hire_package_ok p"
  by (cases p) (auto simp: validatePackageRef_def accepts known_Inr bounded_id_Inr version_Inr digest_Inr hire_package_ok_def)

lemma hire_Inr: "validateHireRequest parses v = Inr r \<longleftrightarrow>
  is_plain_object v \<and> set (js_keys v) \<subseteq> set HIRE_REQUEST_KNOWN_FIELDS \<and>
  js_get v ''schemaVersion'' = JStr HIRE_REQUEST_SCHEMA_VERSION \<and>
  assertBoundedId ''workspaceRef'' (js_get v ''workspaceRef'') = Inr (hq_workspace r) \<and>
  validatePackageRef (js_get v ''packageRef'') = Inr (hq_package r) \<and>
  assertBoundedId ''targetParentId'' (js_get v ''targetParentId'') = Inr (hq_parent r) \<and>
  js_get v ''budget'' \<noteq> JUndef \<and> validateBudget (js_get v ''budget'') = Inr (hq_budget r) \<and>
  assertBoundedId ''requestedBy'' (js_get v ''requestedBy'') = Inr (hq_requested_by r) \<and>
  hire_deadline parses (js_get v ''deadline'') = Inr (hq_deadline r) \<and>
  assertDigest ''envelopeDigest'' (js_get v ''envelopeDigest'') = Inr (hq_envelope r)"
  by (cases r) (auto simp: validateHireRequest_def accepts known_Inr simp del: js_get.simps)

lemma accepted_hire_ok: "validateHireRequest parses v = Inr r \<Longrightarrow> hire_ok parses r"
  unfolding hire_Inr hire_ok_def bounded_id_Inr digest_Inr deadline_Inr package_ref_Inr budget_Inr optional_scope_Inr scope_Inr
  by (auto split: option.splits)

section \<open>Round trips\<close>

lemma hire_scope_read:
  "js_get (scope_json s) ''tokens'' = (case scope_tokens s of None \<Rightarrow> JUndef | Some n \<Rightarrow> JNum (of_int n))"
  "js_get (scope_json s) ''iterations'' = (case scope_iterations s of None \<Rightarrow> JUndef | Some n \<Rightarrow> JNum (of_int n))"
  "is_plain_object (scope_json s)" "set (js_keys (scope_json s)) \<subseteq> {''tokens'', ''iterations''}"
  by (auto simp: scope_json_def limit_member_def split: option.splits)

lemma scope_json_validates: "scope_bounded s \<Longrightarrow> validateBudgetScope p (scope_json s) = Inr s"
  unfolding scope_Inr by (auto simp: hire_scope_read entry_Inr scope_bounded_def split: option.splits)

lemma budget_json_validates:
  "scope_bounded (per_task b) \<Longrightarrow> scope_bounded (per_day b) \<Longrightarrow> validateBudget (budget_json b) = Inr b"
  unfolding budget_Inr by (simp add: budget_json_def optional_scope_Inr scope_json_validates) (simp add: scope_json_def)

lemma hire_json_validates: "hire_ok parses r \<Longrightarrow> validateHireRequest parses (hire_json r) = Inr r"
  unfolding hire_Inr
  by (cases "hq_deadline r")
    (simp_all add: hire_ok_def hire_json_def opt_pair_def bounded_id_Inr digest_Inr deadline_Inr package_ref_Inr package_ref_json_def
      budget_json_validates HIRE_REQUEST_KNOWN_FIELDS_def, simp_all add: budget_json_def)

text \<open>What is accepted is canonical: written back as JSON it is accepted again, as the same request.\<close>

theorem hire_request_round_trip:
  "case validateHireRequest parses v of Inl _ \<Rightarrow> True | Inr r \<Rightarrow> validateHireRequest parses (hire_json r) = Inr r"
  using hire_json_validates accepted_hire_ok by (auto split: sum.split)

section \<open>The budget vocabulary\<close>

lemma limit_positive: "limit_bounded (Some n) \<longleftrightarrow> isPositiveBoundedInt (JNum (of_int n))"
  by (auto simp: limit_bounded_def isPositiveBoundedInt_def)

lemma engine_reads_scope:
  assumes "scope_bounded s"
  shows "scope_keys_legal (scope_json s)" "scopeAllocated (scope_json s)" "scope_of (scope_json s) = s"
  using assms
  by (cases s; auto simp: scope_bounded_def scope_keys_legal_def scopeAllocated_def scope_of_def hire_scope_read limit_positive
      split: option.splits; simp add: scope_json_def limit_member_def limit_positive split: option.splits)+

lemma engine_reads_budget:
  assumes "scope_bounded (per_task b)" "scope_bounded (per_day b)"
  shows "validatePositionBudgetDeclaration (budget_json b) = Inr b"
  using engine_reads_scope [OF assms(1)] engine_reads_scope [OF assms(2)]
  by (simp add: validatePositionBudgetDeclaration_def budget_json_def hire_scope_read(3))

lemma limit_organization: "limit_bounded (Some n) \<longleftrightarrow> limit_ok (JNum (of_int n))"
  by (auto simp: limit_bounded_def limit_ok_def MAX_BUDGET_CAP_def BUDGET_LIMIT_MAX_def)

lemma organization_reads_scope:
  assumes "scope_bounded s" "js_has v n" "js_get v n = scope_json s"
  shows "validate_scope i v n = Inr s"
  using assms
  by (cases s; auto simp: validate_scope_def Let_def BUDGET_LIMIT_KEYS_def scope_bounded_def limit_organization
      scope_json_def limit_member_def js_has_def split: option.splits)

lemma organization_reads_budget:
  assumes "scope_bounded (per_task b)" "scope_bounded (per_day b)"
  shows "validatePositionBudget i (budget_json b) = Inr b"
  using organization_reads_scope [OF assms(1), of "budget_json b" "''perTask''" i]
    organization_reads_scope [OF assms(2), of "budget_json b" "''perDay''" i]
  by (simp add: validatePositionBudget_def budget_json_def js_has_def BUDGET_SCOPE_KEYS_def)

text \<open>C37: The budget of an accepted hire request means the same to the turn engine and to the organization: both accept it, as the same
  limits.\<close>

theorem hired_budget_is_understood_everywhere:
  "case validateHireRequest parses v of
      Inl _ \<Rightarrow> True
    | Inr r \<Rightarrow> validatePositionBudgetDeclaration (budget_json (hq_budget r)) = Inr (hq_budget r) \<and>
        validatePositionBudget position (budget_json (hq_budget r)) = Inr (hq_budget r)"
proof (cases "validateHireRequest parses v")
  case (Inr r)
  then have "scope_bounded (per_task (hq_budget r))" "scope_bounded (per_day (hq_budget r))"
    using accepted_hire_ok [OF Inr] by (simp_all add: hire_ok_def)
  then show ?thesis by (simp add: Inr engine_reads_budget organization_reads_budget)
qed simp

end
