(* ===== verification/Qualification.thy ===== *)
theory Qualification
  imports AgentHostRegistry JsonText
begin

text \<open>
  packages/core/src/adapter-qualification.ts, records and snapshots: the frozen case contracts of the kit versions, the scanner for the
  credential sentinel, the validators of qualification records and of release snapshots, the derivation of a snapshot from a
  record, and the comparison of two releases. SHA-256 is a parameter. Values are trees without accessors; the keys of an object
  are visited in the order of the list. An error is its code.
\<close>

section \<open>Kit versions\<close>

definition ADAPTER_QUALIFICATION_SCHEMA_ID :: string where
  "ADAPTER_QUALIFICATION_SCHEMA_ID = ''adapter-qualification-record.v1''"

definition ADAPTER_QUALIFICATION_KIT_VERSION :: string where
  "ADAPTER_QUALIFICATION_KIT_VERSION = ''1.3.0''"

definition PRIOR_ADAPTER_QUALIFICATION_KIT_VERSION :: string where
  "PRIOR_ADAPTER_QUALIFICATION_KIT_VERSION = ''1.2.0''"

definition SUPERSEDED_ADAPTER_QUALIFICATION_KIT_VERSION :: string where
  "SUPERSEDED_ADAPTER_QUALIFICATION_KIT_VERSION = ''1.1.0''"

definition LEGACY_ADAPTER_QUALIFICATION_KIT_VERSION :: string where
  "LEGACY_ADAPTER_QUALIFICATION_KIT_VERSION = ''1.0.0''"

definition PRIOR_QUALIFICATION_DOMAINS :: "string list" where
  "PRIOR_QUALIFICATION_DOMAINS = [''capability_negotiation'', ''native_event_validation'', ''single_terminal_outcome'',
     ''deadline_cancel'', ''process_tree_cleanup'', ''credential_boundaries'', ''filesystem_network_enforcement'',
     ''tool_mcp_enforcement'', ''output_schema'']"

definition QUALIFICATION_DOMAINS :: "string list" where
  "QUALIFICATION_DOMAINS = PRIOR_QUALIFICATION_DOMAINS @ [''readonly_projection'']"

definition LEGACY_QUALIFICATION_CASE_CONTRACT :: "(string \<times> string) list" where
  "LEGACY_QUALIFICATION_CASE_CONTRACT =
     [(''capability_negotiation'', ''probe_contract''),
      (''native_event_validation'', ''events_well_formed''),
      (''single_terminal_outcome'', ''exactly_one_terminal''),
      (''deadline_cancel'', ''cancel_stops_run''),
      (''process_tree_cleanup'', ''stream_terminates''),
      (''credential_boundaries'', ''no_metadata_echo''),
      (''filesystem_network_enforcement'', ''hostile_write_refused''),
      (''tool_mcp_enforcement'', ''tool_allowlist_respected''),
      (''output_schema'', ''terminal_output_matches_schema'')]"

definition enforcement_cases :: "(string \<times> string) list" where
  "enforcement_cases =
     [(''capability_negotiation'', ''probe_contract''),
      (''native_event_validation'', ''events_well_formed''),
      (''single_terminal_outcome'', ''exactly_one_terminal''),
      (''deadline_cancel'', ''cancel_stops_active_run''),
      (''process_tree_cleanup'', ''descendants_disposed_normal''),
      (''process_tree_cleanup'', ''descendants_disposed_timeout''),
      (''process_tree_cleanup'', ''descendants_disposed_cancel''),
      (''credential_boundaries'', ''no_metadata_echo''),
      (''filesystem_network_enforcement'', ''hostile_write_refused''),
      (''filesystem_network_enforcement'', ''network_deny_refused''),
      (''tool_mcp_enforcement'', ''tool_allowlist_respected''),
      (''tool_mcp_enforcement'', ''mcp_deny_refused'')]"

definition SUPERSEDED_QUALIFICATION_CASE_CONTRACT :: "(string \<times> string) list" where
  "SUPERSEDED_QUALIFICATION_CASE_CONTRACT = enforcement_cases @ [(''output_schema'', ''terminal_output_matches_schema'')]"

definition PRIOR_QUALIFICATION_CASE_CONTRACT :: "(string \<times> string) list" where
  "PRIOR_QUALIFICATION_CASE_CONTRACT = enforcement_cases @
     [(''output_schema'', ''valid_json''), (''output_schema'', ''non_json''), (''output_schema'', ''schema_mismatch''),
      (''output_schema'', ''invalid_schema_preflight''), (''output_schema'', ''cancel_buffered''),
      (''output_schema'', ''secret_rejected'')]"

definition CURRENT_QUALIFICATION_CASE_CONTRACT :: "(string \<times> string) list" where
  "CURRENT_QUALIFICATION_CASE_CONTRACT = PRIOR_QUALIFICATION_CASE_CONTRACT @
     [(''readonly_projection'', ''read_search_only''), (''readonly_projection'', ''write_tool_refused'')]"

definition kit_versions :: "string list" where
  "kit_versions = [LEGACY_ADAPTER_QUALIFICATION_KIT_VERSION, SUPERSEDED_ADAPTER_QUALIFICATION_KIT_VERSION,
     PRIOR_ADAPTER_QUALIFICATION_KIT_VERSION, ADAPTER_QUALIFICATION_KIT_VERSION]"

definition qualificationKitCaseContract :: "string \<Rightarrow> string + (string \<times> string) list" where
  "qualificationKitCaseContract version =
     (if version = LEGACY_ADAPTER_QUALIFICATION_KIT_VERSION then Inr LEGACY_QUALIFICATION_CASE_CONTRACT
      else if version = SUPERSEDED_ADAPTER_QUALIFICATION_KIT_VERSION then Inr SUPERSEDED_QUALIFICATION_CASE_CONTRACT
      else if version = PRIOR_ADAPTER_QUALIFICATION_KIT_VERSION then Inr PRIOR_QUALIFICATION_CASE_CONTRACT
      else if version = ADAPTER_QUALIFICATION_KIT_VERSION then Inr CURRENT_QUALIFICATION_CASE_CONTRACT
      else Inl ''INVALID_QUALIFICATION_RECORD'')"

definition kit_contract :: "string \<Rightarrow> (string \<times> string) list" where
  "kit_contract version = (case qualificationKitCaseContract version of Inl _ \<Rightarrow> [] | Inr c \<Rightarrow> c)"

definition qualificationKitDomains :: "string \<Rightarrow> string list" where
  "qualificationKitDomains version =
     (if version = ADAPTER_QUALIFICATION_KIT_VERSION then QUALIFICATION_DOMAINS else PRIOR_QUALIFICATION_DOMAINS)"

section \<open>Patterns\<close>

fun lower_words :: "(char \<Rightarrow> bool) \<Rightarrow> bool \<Rightarrow> string \<Rightarrow> bool" where
  "lower_words sep fresh [] = (\<not> fresh)"
| "lower_words sep fresh (c # s) =
     (if host_id_char c then lower_words sep False s else sep c \<and> \<not> fresh \<and> lower_words sep True s)"

text \<open>\<open>/^[a-z0-9]+(?:_[a-z0-9]+)*$/\<close>, and the same with other separators\<close>

definition CASE_ID_PATTERN :: "string \<Rightarrow> bool" where
  "CASE_ID_PATTERN = lower_words (\<lambda>c. c = CHR ''_'') True"

definition CASE_CODE_PATTERN :: "string \<Rightarrow> bool" where
  "CASE_CODE_PATTERN = lower_words (\<lambda>c. c = CHR ''.'' \<or> c = CHR ''_'' \<or> c = CHR ''-'') True"

definition ENVIRONMENT_ID_PATTERN :: "string \<Rightarrow> bool" where
  "ENVIRONMENT_ID_PATTERN = lower_words (\<lambda>c. c = CHR ''-'' \<or> c = CHR ''_'') True"

text \<open>\<open>/^\d{4}-\d{2}-\d{2}T\d{2}:\d{2}:\d{2}(?:\.\d+)?Z$/\<close>\<close>

definition iso_tail :: "string \<Rightarrow> bool" where
  "iso_tail s = (s = ''Z'' \<or> (length s > 2 \<and> hd s = CHR ''.'' \<and> last s = CHR ''Z'' \<and> list_all is_digit (butlast (tl s))))"

definition ISO_PATTERN :: "string \<Rightarrow> bool" where
  "ISO_PATTERN s = (has_shape ''9999-99-99T99:99:99'' (take 19 s) \<and> iso_tail (drop 19 s))"

text \<open>\<open>/^\d+\.\d+\.\d+$/\<close>\<close>

definition STABLE_RELEASE_PATTERN :: "string \<Rightarrow> bool" where
  "STABLE_RELEASE_PATTERN s =
     (let parts = split_on (CHR ''.'') s in length parts = 3 \<and> list_all (\<lambda>p. p \<noteq> [] \<and> list_all is_digit p) parts)"

section \<open>Digests\<close>

text \<open>Undefined gives no text; as a member it reads \<open>undefined\<close>, as an element nothing.\<close>

fun qualification_json :: "(rat \<Rightarrow> string) \<Rightarrow> jsval \<Rightarrow> string option" where
  "qualification_json fraction JUndef = None"
| "qualification_json fraction JNonFinite = Some ''null''"
| "qualification_json fraction JNull = Some ''null''"
| "qualification_json fraction (JBool b) = Some (if b then ''true'' else ''false'')"
| "qualification_json fraction (JStr s) = Some (json_quote s)"
| "qualification_json fraction (JNum q) = Some (case js_safe_int (JNum q) of Some n \<Rightarrow> json_int n | None \<Rightarrow> fraction q)"
| "qualification_json fraction (JArr vs) =
     Some (''['' @ join_with '','' (map (\<lambda>v. case qualification_json fraction v of None \<Rightarrow> [] | Some t \<Rightarrow> t) vs) @ '']'')"
| "qualification_json fraction (JObj kvs) =
     Some (''{'' @ join_with '',''
       (map (\<lambda>p. json_quote (fst p) @ '':'' @ (case snd p of None \<Rightarrow> ''undefined'' | Some t \<Rightarrow> t))
         (sort_key fst (map (\<lambda>p. (fst p, qualification_json fraction (snd p))) kvs))) @ ''}'')"

definition contract_value :: "(string \<times> string) list \<Rightarrow> jsval" where
  "contract_value c = JArr (map (\<lambda>p. JArr [JStr (fst p), JStr (snd p)]) c)"

text \<open>\<open>hash\<close> is the SHA-256 digest of a text in hexadecimal.\<close>

definition qualificationFixtureCorpusDigest :: "(string \<Rightarrow> string) \<Rightarrow> string \<Rightarrow> string" where
  "qualificationFixtureCorpusDigest hash version =
     hash (case qualification_json (\<lambda>_. []) (contract_value (kit_contract version)) of None \<Rightarrow> [] | Some t \<Rightarrow> t)"

section \<open>The scanner\<close>

datatype scan_state = Scan_clean | Scan_detected | Scan_incomplete

definition QUALIFICATION_SENTINEL :: string where
  "QUALIFICATION_SENTINEL = ''qualification-sentinel-do-not-leak''"

definition QUALIFICATION_SCAN_BUDGET :: nat where
  "QUALIFICATION_SCAN_BUDGET = 4096"

definition markIncomplete :: "scan_state \<Rightarrow> scan_state" where
  "markIncomplete st = (if st = Scan_clean then Scan_incomplete else st)"

text \<open>The own keys of an object; an array also has its length.\<close>

definition own_entries :: "jsval \<Rightarrow> (string \<times> jsval) list" where
  "own_entries v = (case v of
      JObj kvs \<Rightarrow> kvs
    | JArr vs \<Rightarrow> zip (map dec [0..<length vs]) vs @ [(''length'', JNum (of_nat (length vs)))]
    | _ \<Rightarrow> [])"

text \<open>The loop over the keys: the values are pushed; nothing when a key holds the sentinel.\<close>

fun scan_entries :: "(string \<times> jsval) list \<Rightarrow> jsval list \<Rightarrow> jsval list option" where
  "scan_entries [] pending = Some pending"
| "scan_entries (p # ps) pending =
     (if has_substring (fst p) QUALIFICATION_SENTINEL then None else scan_entries ps (snd p # pending))"

fun scan_loop :: "nat \<Rightarrow> jsval list \<Rightarrow> scan_state \<Rightarrow> scan_state" where
  "scan_loop budget [] st = st"
| "scan_loop 0 (v # pending) st = markIncomplete st"
| "scan_loop (Suc budget) (v # pending) st = (case js_str v of
      Some s \<Rightarrow> if has_substring s QUALIFICATION_SENTINEL then Scan_detected else scan_loop budget pending st
    | None \<Rightarrow> (case scan_entries (own_entries v) pending of
        None \<Rightarrow> Scan_detected | Some pending' \<Rightarrow> scan_loop budget pending' st))"

definition observe :: "jsval \<Rightarrow> scan_state \<Rightarrow> scan_state" where
  "observe v st = (if st = Scan_detected then st else scan_loop QUALIFICATION_SCAN_BUDGET [v] st)"

definition scanned :: "jsval \<Rightarrow> string + 'a \<Rightarrow> string + 'a" where
  "scanned v k = (case observe v Scan_clean of
      Scan_detected \<Rightarrow> Inl ''QUALIFICATION_EVIDENCE_SECRET_DETECTED''
    | Scan_incomplete \<Rightarrow> Inl ''QUALIFICATION_EVIDENCE_SCAN_INCOMPLETE''
    | Scan_clean \<Rightarrow> k)"

section \<open>Records\<close>

definition record_keys :: "string list" where
  "record_keys = [''schema'', ''hostId'', ''hostVersion'', ''policyDigest'', ''kitVersion'', ''generatedAt'', ''axes'',
     ''domains'', ''cases'', ''liveEvidence'']"

definition validHostVersion :: "jsval \<Rightarrow> bool" where
  "validHostVersion = matches_text (\<lambda>s. length s > 0 \<and> length s \<le> 256)"

definition axes_shape :: "jsval \<Rightarrow> bool" where
  "axes_shape v = (record_of [''implemented'', ''fixtureConformant'', ''liveQualified''] v \<and> is_boolean (js_get v ''implemented'') \<and>
     is_boolean (js_get v ''fixtureConformant'') \<and> is_boolean (js_get v ''liveQualified''))"

definition axis :: "jsval \<Rightarrow> string \<Rightarrow> bool" where
  "axis axes name = (js_get axes name = JBool True)"

definition live_evidence :: "jsval \<Rightarrow> bool" where
  "live_evidence v = (record_of [''environment'', ''evidenceDigest''] v \<and>
     matches_text ENVIRONMENT_ID_PATTERN (js_get v ''environment'') \<and> matches_text HEX_64_PATTERN (js_get v ''evidenceDigest''))"

definition record_head :: "jsval \<Rightarrow> bool" where
  "record_head v = (record_of record_keys v \<and> js_get v ''schema'' = JStr ADAPTER_QUALIFICATION_SCHEMA_ID \<and>
     matches_text HOST_ID_PATTERN (js_get v ''hostId'') \<and> validHostVersion (js_get v ''hostVersion'') \<and>
     matches_text HEX_64_PATTERN (js_get v ''policyDigest'') \<and> one_of kit_versions (js_get v ''kitVersion'') \<and>
     matches_text ISO_PATTERN (js_get v ''generatedAt''))"

definition axes_consistent :: "jsval \<Rightarrow> jsval \<Rightarrow> bool" where
  "axes_consistent axes evidence = (axes_shape axes \<and> \<not> (axis axes ''fixtureConformant'' \<and> \<not> axis axes ''implemented'') \<and>
     \<not> (axis axes ''liveQualified'' \<and> evidence = JUndef) \<and> absent_or live_evidence evidence)"

definition count_ok :: "jsval \<Rightarrow> bool" where
  "count_ok v = (case js_int v of None \<Rightarrow> False | Some n \<Rightarrow> \<not> n < 0)"

definition domain_counts :: "jsval \<Rightarrow> bool" where
  "domain_counts v = (record_of [''passed'', ''failed''] v \<and> count_ok (js_get v ''passed'') \<and> count_ok (js_get v ''failed''))"

definition domains_shape :: "string list \<Rightarrow> jsval \<Rightarrow> bool" where
  "domains_shape domains v = (is_plain_object v \<and> list_all (\<lambda>k. k \<in> set domains) (js_keys v) \<and>
     list_all (\<lambda>d. domain_counts (js_get v d)) domains)"

definition expected_domain :: "(string \<times> string) list \<Rightarrow> string \<Rightarrow> string option" where
  "expected_domain contract case_id = map_of (rev (map (\<lambda>p. (snd p, fst p)) contract)) case_id"

definition case_shape :: "string list \<Rightarrow> jsval \<Rightarrow> bool" where
  "case_shape domains v = (record_of [''domain'', ''id'', ''passed'', ''code''] v \<and> one_of domains (js_get v ''domain'') \<and>
     matches_text CASE_ID_PATTERN (js_get v ''id''))"

fun cases_ok :: "(string \<times> string) list \<Rightarrow> string list \<Rightarrow> string list \<Rightarrow> jsval list \<Rightarrow> bool" where
  "cases_ok contract domains seen [] = True"
| "cases_ok contract domains seen (v # vs) =
     (case_shape domains v \<and>
      (let case_id = probe_text (js_get v ''id'')
       in \<not> (case_id \<in> set seen \<or> expected_domain contract case_id \<noteq> js_str (js_get v ''domain'')) \<and>
          is_boolean (js_get v ''passed'') \<and> matches_text (\<lambda>s. \<not> length s > 128 \<and> CASE_CODE_PATTERN s) (js_get v ''code'') \<and>
          cases_ok contract domains (case_id # seen) vs))"

definition in_domain :: "string \<Rightarrow> jsval \<Rightarrow> bool" where
  "in_domain d v = (js_get v ''domain'' = JStr d)"

definition case_passed :: "jsval \<Rightarrow> bool" where
  "case_passed v = (js_get v ''passed'' = JBool True)"

definition summary_matches :: "jsval \<Rightarrow> jsval list \<Rightarrow> string \<Rightarrow> bool" where
  "summary_matches domains entries d =
     (let own = filter (in_domain d) entries; passed = length (filter case_passed own)
      in js_int (js_get (js_get domains d) ''passed'') = Some (int passed) \<and>
         js_int (js_get (js_get domains d) ''failed'') = Some (int (length own) - int passed))"

definition probe_passed :: "jsval list \<Rightarrow> bool" where
  "probe_passed entries = (case find (\<lambda>v. js_get v ''id'' = JStr ''probe_contract'') entries of
      None \<Rightarrow> False | Some v \<Rightarrow> case_passed v)"

definition axes_derived :: "jsval \<Rightarrow> jsval list \<Rightarrow> jsval \<Rightarrow> bool" where
  "axes_derived axes entries evidence =
     (axis axes ''implemented'' = probe_passed entries \<and>
      axis axes ''fixtureConformant'' = (probe_passed entries \<and> list_all case_passed entries) \<and>
      axis axes ''liveQualified'' = (evidence \<noteq> JUndef))"

definition record_cases :: "string \<Rightarrow> jsval \<Rightarrow> jsval list \<Rightarrow> bool" where
  "record_cases version domains entries =
     (entries \<noteq> [] \<and> length entries = length (kit_contract version) \<and>
      cases_ok (kit_contract version) (qualificationKitDomains version) [] entries \<and>
      list_all (\<lambda>d. list_ex (in_domain d) entries) (qualificationKitDomains version) \<and>
      list_all (summary_matches domains entries) (qualificationKitDomains version))"

definition record_ok :: "jsval \<Rightarrow> bool" where
  "record_ok v = (record_head v \<and> axes_consistent (js_get v ''axes'') (js_get v ''liveEvidence'') \<and>
     (let version = probe_text (js_get v ''kitVersion'')
      in domains_shape (qualificationKitDomains version) (js_get v ''domains'') \<and>
         (case js_get v ''cases'' of
            JArr entries \<Rightarrow> record_cases version (js_get v ''domains'') entries \<and>
              axes_derived (js_get v ''axes'') entries (js_get v ''liveEvidence'')
          | _ \<Rightarrow> False)))"

definition validateAdapterQualificationRecord :: "jsval \<Rightarrow> string + jsval" where
  "validateAdapterQualificationRecord v = scanned v (ensure (record_ok v) ''INVALID_QUALIFICATION_RECORD'' (Inr v))"

section \<open>Snapshots\<close>

definition ADAPTER_QUALIFICATION_SNAPSHOT_SCHEMA_ID :: string where
  "ADAPTER_QUALIFICATION_SNAPSHOT_SCHEMA_ID = ''adapter-qualification-snapshot.v1''"

definition snapshot_keys :: "string list" where
  "snapshot_keys = [''schema'', ''release'', ''hostId'', ''hostVersion'', ''kitVersion'', ''fixtureCorpusDigest'',
     ''generatedAt'', ''axes'', ''domains'']"

definition snapshotDomainStatus :: "int \<Rightarrow> int \<Rightarrow> string" where
  "snapshotDomainStatus passed failed = (if failed = 0 \<and> passed > 0 then ''supported'' else ''unsupported'')"

definition snapshot_head :: "(string \<Rightarrow> string) \<Rightarrow> jsval \<Rightarrow> bool" where
  "snapshot_head hash v = (record_of snapshot_keys v \<and> js_get v ''schema'' = JStr ADAPTER_QUALIFICATION_SNAPSHOT_SCHEMA_ID \<and>
     matches_text STABLE_RELEASE_PATTERN (js_get v ''release'') \<and> matches_text HOST_ID_PATTERN (js_get v ''hostId'') \<and>
     validHostVersion (js_get v ''hostVersion'') \<and> one_of kit_versions (js_get v ''kitVersion'') \<and>
     matches_text HEX_64_PATTERN (js_get v ''fixtureCorpusDigest'') \<and>
     js_get v ''fixtureCorpusDigest'' = JStr (qualificationFixtureCorpusDigest hash (probe_text (js_get v ''kitVersion''))) \<and>
     matches_text ISO_PATTERN (js_get v ''generatedAt''))"

definition corpus_count :: "string \<Rightarrow> string \<Rightarrow> nat" where
  "corpus_count version d = length (filter (\<lambda>p. fst p = d) (kit_contract version))"

definition row_counts :: "string \<Rightarrow> jsval \<Rightarrow> bool" where
  "row_counts version v = (case js_safe_int (js_get v ''passed'') of
      None \<Rightarrow> False
    | Some passed \<Rightarrow> (case js_safe_int (js_get v ''failed'') of
        None \<Rightarrow> False
      | Some failed \<Rightarrow> \<not> passed < 0 \<and> \<not> failed < 0 \<and>
          passed + failed = int (corpus_count version (probe_text (js_get v ''domain''))) \<and>
          js_get v ''status'' = JStr (snapshotDomainStatus passed failed)))"

fun rows_ok :: "string \<Rightarrow> string list \<Rightarrow> jsval list \<Rightarrow> bool" where
  "rows_ok version seen [] = True"
| "rows_ok version seen (v # vs) =
     (record_of [''domain'', ''status'', ''passed'', ''failed''] v \<and> one_of (qualificationKitDomains version) (js_get v ''domain'') \<and>
      probe_text (js_get v ''domain'') \<notin> set seen \<and> one_of [''supported'', ''unsupported''] (js_get v ''status'') \<and>
      row_counts version v \<and> rows_ok version (probe_text (js_get v ''domain'') # seen) vs)"

definition row_supported :: "jsval \<Rightarrow> bool" where
  "row_supported v = (js_get v ''status'' = JStr ''supported'')"

definition negotiation_supported :: "jsval list \<Rightarrow> bool" where
  "negotiation_supported rows = (case find (in_domain ''capability_negotiation'') rows of
      None \<Rightarrow> False | Some v \<Rightarrow> row_supported v)"

definition snapshot_rows :: "string \<Rightarrow> jsval \<Rightarrow> jsval list \<Rightarrow> bool" where
  "snapshot_rows version axes rows = (rows \<noteq> [] \<and> rows_ok version [] rows \<and>
     list_all (\<lambda>d. list_ex (in_domain d) rows) (qualificationKitDomains version) \<and>
     axis axes ''implemented'' = negotiation_supported rows \<and>
     axis axes ''fixtureConformant'' = (negotiation_supported rows \<and> list_all row_supported rows))"

definition snapshot_ok :: "(string \<Rightarrow> string) \<Rightarrow> jsval \<Rightarrow> bool" where
  "snapshot_ok hash v = (snapshot_head hash v \<and> axes_shape (js_get v ''axes'') \<and>
     (case js_get v ''domains'' of
        JArr rows \<Rightarrow> snapshot_rows (probe_text (js_get v ''kitVersion'')) (js_get v ''axes'') rows
      | _ \<Rightarrow> False))"

definition validateAdapterQualificationSnapshot :: "(string \<Rightarrow> string) \<Rightarrow> jsval \<Rightarrow> string + jsval" where
  "validateAdapterQualificationSnapshot hash v = scanned v (ensure (snapshot_ok hash v) ''INVALID_QUALIFICATION_SNAPSHOT'' (Inr v))"

definition snapshot_row :: "jsval \<Rightarrow> string \<Rightarrow> jsval" where
  "snapshot_row domains d =
     (let count = (\<lambda>k. case js_int (js_get (js_get domains d) k) of None \<Rightarrow> 0 | Some n \<Rightarrow> n)
      in JObj [(''domain'', JStr d), (''status'', JStr (snapshotDomainStatus (count ''passed'') (count ''failed''))),
           (''passed'', js_get (js_get domains d) ''passed''), (''failed'', js_get (js_get domains d) ''failed'')])"

text \<open>\<open>{ ...v }\<close>\<close>

definition spread :: "jsval \<Rightarrow> jsval" where
  "spread v = JObj (map (\<lambda>k. (k, js_get v k)) (uniq (js_keys v)))"

definition snapshot_value :: "(string \<Rightarrow> string) \<Rightarrow> jsval \<Rightarrow> string \<Rightarrow> jsval" where
  "snapshot_value hash v release =
     (let version = probe_text (js_get v ''kitVersion'')
      in JObj [(''schema'', JStr ADAPTER_QUALIFICATION_SNAPSHOT_SCHEMA_ID), (''release'', JStr release),
           (''hostId'', js_get v ''hostId''), (''hostVersion'', js_get v ''hostVersion''), (''kitVersion'', js_get v ''kitVersion''),
           (''fixtureCorpusDigest'', JStr (qualificationFixtureCorpusDigest hash version)),
           (''generatedAt'', js_get v ''generatedAt''), (''axes'', spread (js_get v ''axes'')),
           (''domains'', JArr (map (snapshot_row (js_get v ''domains'')) (qualificationKitDomains version)))])"

definition createQualificationSnapshot :: "(string \<Rightarrow> string) \<Rightarrow> jsval \<Rightarrow> jsval \<Rightarrow> string + jsval" where
  "createQualificationSnapshot hash v release =
     and_then (validateAdapterQualificationRecord v) (\<lambda>record.
     ensure (matches_text STABLE_RELEASE_PATTERN release) ''INVALID_QUALIFICATION_SNAPSHOT''
       (validateAdapterQualificationSnapshot hash (snapshot_value hash record (probe_text release))))"

section \<open>Comparing releases\<close>

fun version_order :: "nat list \<Rightarrow> nat list \<Rightarrow> int" where
  "version_order (a # as) (b # bs) = (if a \<noteq> b then (if a < b then - 1 else 1) else version_order as bs)"
| "version_order _ _ = 0"

definition compareKitVersions :: "string \<Rightarrow> string \<Rightarrow> int" where
  "compareKitVersions left right =
     version_order (map undec (split_on (CHR ''.'') left)) (map undec (split_on (CHR ''.'') right))"

definition count_of :: "jsval \<Rightarrow> string \<Rightarrow> int" where
  "count_of v k = (case js_int (js_get v k) of None \<Rightarrow> 0 | Some n \<Rightarrow> n)"

definition arrow :: "string \<Rightarrow> string \<Rightarrow> string" where
  "arrow a b = a @ ''->'' @ b"

definition row_regressions :: "jsval list \<Rightarrow> jsval \<Rightarrow> string list" where
  "row_regressions nextRows base =
     (let d = probe_text (js_get base ''domain'')
      in case find (in_domain d) (rev nextRows) of
           None \<Rightarrow> [''capability_row_disappeared:'' @ d]
         | Some row \<Rightarrow>
             (if row_supported base \<and> \<not> row_supported row
              then [''capability_row_weakened:'' @ d @ '':'' @ arrow ''supported'' (probe_text (js_get row ''status''))] else []) @
             (if count_of row ''passed'' < count_of base ''passed''
              then [''evidence_count_shrunk:'' @ d @ '':'' @ arrow (json_int (count_of base ''passed'')) (json_int (count_of row ''passed''))]
              else []) @
             (if count_of row ''failed'' > count_of base ''failed''
              then [''failure_count_grew:'' @ d @ '':'' @ arrow (json_int (count_of base ''failed'')) (json_int (count_of row ''failed''))]
              else []))"

definition rows_of :: "jsval \<Rightarrow> jsval list" where
  "rows_of v = (case js_get v ''domains'' of JArr rows \<Rightarrow> rows | _ \<Rightarrow> [])"

definition field_text :: "jsval \<Rightarrow> string \<Rightarrow> string" where
  "field_text v k = probe_text (js_get v k)"

definition snapshot_regressions :: "jsval \<Rightarrow> jsval \<Rightarrow> string list" where
  "snapshot_regressions base later =
     (if field_text base ''hostId'' \<noteq> field_text later ''hostId''
      then [''host_identity_changed:'' @ arrow (field_text base ''hostId'') (field_text later ''hostId'')] else []) @
     (if field_text base ''hostVersion'' \<noteq> field_text later ''hostVersion''
      then [''host_version_drifted:'' @ arrow (field_text base ''hostVersion'') (field_text later ''hostVersion'')] else []) @
     (if compareKitVersions (field_text later ''kitVersion'') (field_text base ''kitVersion'') < 0
      then [''kit_version_regressed:'' @ arrow (field_text base ''kitVersion'') (field_text later ''kitVersion'')] else []) @
     concat (map (\<lambda>name. if axis (js_get base ''axes'') name \<and> \<not> axis (js_get later ''axes'') name
       then [''evidence_axis_weakened:'' @ name] else []) [''implemented'', ''fixtureConformant'', ''liveQualified'']) @
     concat (map (row_regressions (rows_of later)) (rows_of base))"

definition compareQualificationSnapshots :: "(string \<Rightarrow> string) \<Rightarrow> jsval \<Rightarrow> jsval \<Rightarrow> string + string list" where
  "compareQualificationSnapshots hash baseline current =
     and_then (validateAdapterQualificationSnapshot hash baseline) (\<lambda>base.
     and_then (validateAdapterQualificationSnapshot hash current) (\<lambda>later. Inr (snapshot_regressions base later)))"

section \<open>Chains of releases\<close>

text \<open>What a comparison without regressions says.\<close>

definition row_kept :: "jsval list \<Rightarrow> jsval \<Rightarrow> bool" where
  "row_kept rows base \<longleftrightarrow> (\<exists>row \<in> set rows. js_get row ''domain'' = js_get base ''domain'' \<and> (row_supported base \<longrightarrow> row_supported row) \<and>
     count_of base ''passed'' \<le> count_of row ''passed'' \<and> count_of row ''failed'' \<le> count_of base ''failed'')"

definition evidence_kept :: "jsval \<Rightarrow> jsval \<Rightarrow> bool" where
  "evidence_kept base later \<longleftrightarrow> field_text base ''hostId'' = field_text later ''hostId'' \<and> field_text base ''hostVersion'' = field_text later ''hostVersion'' \<and>
     \<not> compareKitVersions (field_text later ''kitVersion'') (field_text base ''kitVersion'') < 0 \<and>
     (\<forall>name \<in> {''implemented'', ''fixtureConformant'', ''liveQualified''}.
        axis (js_get base ''axes'') name \<longrightarrow> axis (js_get later ''axes'') name) \<and>
     (\<forall>row \<in> set (rows_of base). row_kept (rows_of later) row)"

lemma rows_ok_distinct:
  "rows_ok version seen rows \<Longrightarrow> distinct (map (\<lambda>r. js_get r ''domain'') rows) \<and>
   (\<forall>r \<in> set rows. \<exists>d. js_get r ''domain'' = JStr d \<and> d \<notin> set seen)"
proof (induction rows arbitrary: seen)
  case (Cons v vs)
  obtain d where d: "js_get v ''domain'' = JStr d" using Cons.prems by (cases "js_get v ''domain''") (auto simp: one_of_def)
  have "rows_ok version (d # seen) vs" "d \<notin> set seen" using Cons.prems d by (simp_all add: probe_text_def)
  with Cons.IH [of "d # seen"] show ?case using d by force
qed simp

lemma find_domain:
  "distinct (map (\<lambda>r. js_get r ''domain'') rows) \<Longrightarrow> r \<in> set rows \<Longrightarrow> js_get r ''domain'' = JStr d \<Longrightarrow>
   find (in_domain d) (rev rows) = Some r"
proof -
  assume a: "distinct (map (\<lambda>r. js_get r ''domain'') rows)" "r \<in> set rows" "js_get r ''domain'' = JStr d"
  then obtain x where x: "find (in_domain d) (rev rows) = Some x"
    by (cases "find (in_domain d) (rev rows)") (auto simp: find_None_iff in_domain_def)
  then obtain i where "i < length (rev rows)" "x = rev rows ! i" "in_domain d x" by (auto simp: find_Some_iff)
  then have "x \<in> set (rev rows)" "js_get x ''domain'' = JStr d" by (simp_all only: nth_mem in_domain_def)
  then have "x \<in> set rows" "js_get x ''domain'' = JStr d" by simp_all
  then show ?thesis using a x by (simp add: distinct_map inj_on_def)
qed

lemma if_nil: "(if c then [x] else []) = [] \<longleftrightarrow> \<not> c"
  by simp

lemma row_regressions_nil:
  assumes "rows_ok version [] rows" "js_get base ''domain'' = JStr d"
  shows "row_regressions rows base = [] \<longleftrightarrow> row_kept rows base"
proof -
  have u: "distinct (map (\<lambda>r. js_get r ''domain'') rows)" using rows_ok_distinct [OF assms(1)] by blast
  show ?thesis
  proof (cases "\<exists>r \<in> set rows. js_get r ''domain'' = JStr d")
    case True
    then obtain r where r: "r \<in> set rows" "js_get r ''domain'' = JStr d" by blast
    have only: "x = r" if "x \<in> set rows" "js_get x ''domain'' = JStr d" for x
      using u r that by (simp add: distinct_map inj_on_def)
    have kept: "row_kept rows base \<longleftrightarrow> (row_supported base \<longrightarrow> row_supported r) \<and> count_of base ''passed'' \<le> count_of r ''passed'' \<and>
        count_of r ''failed'' \<le> count_of base ''failed''"
      unfolding row_kept_def assms(2) using r only by fast
    show ?thesis
      unfolding row_regressions_def assms(2) probe_text_def jsval.case Let_def find_domain [OF u r] option.case append_is_Nil_conv if_nil
        kept not_less
      by blast
  next
    case False
    then have n: "find (in_domain d) (rev rows) = None" by (auto simp: find_None_iff in_domain_def)
    show ?thesis
      unfolding row_regressions_def row_kept_def assms(2) probe_text_def Let_def jsval.case n using False by auto
  qed
qed

lemma regressions_nil:
  assumes "snapshot_ok hash base" "snapshot_ok hash later"
  shows "snapshot_regressions base later = [] \<longleftrightarrow> evidence_kept base later"
proof -
  obtain vs ws where v: "rows_ok vs [] (rows_of base)" and w: "rows_ok ws [] (rows_of later)"
    using assms by (auto simp: snapshot_ok_def snapshot_rows_def rows_of_def split: jsval.splits)
  have "row_regressions (rows_of later) row = [] \<longleftrightarrow> row_kept (rows_of later) row" if "row \<in> set (rows_of base)" for row
    using rows_ok_distinct [OF v] that row_regressions_nil [OF w] by blast
  then have "concat (map (row_regressions (rows_of later)) (rows_of base)) = [] \<longleftrightarrow> (\<forall>row \<in> set (rows_of base). row_kept (rows_of later) row)"
    by (auto simp: concat_eq_Nil_conv)
  then show ?thesis
    unfolding snapshot_regressions_def evidence_kept_def append_is_Nil_conv if_nil list.map concat.simps by blast
qed

lemma compare_nil:
  "compareQualificationSnapshots hash base later = Inr [] \<longleftrightarrow>
   validateAdapterQualificationSnapshot hash base = Inr base \<and> validateAdapterQualificationSnapshot hash later = Inr later \<and>
   evidence_kept base later"
proof -
  have ok: "validateAdapterQualificationSnapshot hash v = Inr w \<Longrightarrow> w = v \<and> snapshot_ok hash v" for v w
    by (auto simp: validateAdapterQualificationSnapshot_def scanned_def accepts split: scan_state.splits)
  show ?thesis
    unfolding compareQualificationSnapshots_def accepts using ok regressions_nil by (metis Inr_inject)
qed

lemma version_order_trans:
  "length as = length bs \<Longrightarrow> length bs = length cs \<Longrightarrow> \<not> version_order bs as < 0 \<Longrightarrow> \<not> version_order cs bs < 0 \<Longrightarrow>
   \<not> version_order cs as < 0"
proof (induction "as" arbitrary: bs cs)
  case (Cons a as)
  then obtain b bs' c cs' where l: "bs = b # bs'" "cs = c # cs'" by (metis length_Suc_conv)
  show ?case using Cons.prems Cons.IH [of bs' cs'] by (auto simp: l split: if_splits)
qed simp

lemma kit_version_length: "v \<in> set kit_versions \<Longrightarrow> length (split_on (CHR ''.'') v) = 3"
proof -
  have "list_all (\<lambda>v. length (split_on (CHR ''.'') v) = 3) kit_versions" by code_simp
  then show "v \<in> set kit_versions \<Longrightarrow> ?thesis" by (simp add: list_all_iff)
qed

lemma snapshot_version: "snapshot_ok hash v \<Longrightarrow> field_text v ''kitVersion'' \<in> set kit_versions"
  by (cases "js_get v ''kitVersion''") (auto simp: snapshot_ok_def snapshot_head_def one_of_def field_text_def probe_text_def)

lemma evidence_kept_trans:
  assumes "snapshot_ok hash a" "snapshot_ok hash b" "snapshot_ok hash c" "evidence_kept a b" "evidence_kept b c"
  shows "evidence_kept a c"
proof -
  have "\<not> compareKitVersions (field_text c ''kitVersion'') (field_text a ''kitVersion'') < 0"
    unfolding compareKitVersions_def
  proof (rule version_order_trans [where bs = "map undec (split_on (CHR ''.'') (field_text b ''kitVersion''))"])
    note l = kit_version_length [OF snapshot_version]
    show "length (map undec (split_on (CHR ''.'') (field_text a ''kitVersion''))) = length (map undec (split_on (CHR ''.'') (field_text b ''kitVersion'')))"
      "length (map undec (split_on (CHR ''.'') (field_text b ''kitVersion''))) = length (map undec (split_on (CHR ''.'') (field_text c ''kitVersion'')))"
      unfolding length_map l [OF assms(1)] l [OF assms(2)] l [OF assms(3)] by (rule refl)+
  qed (use assms(4,5) in \<open>unfold evidence_kept_def compareKitVersions_def, blast\<close>)+
  moreover have "row_kept (rows_of c) row" if row: "row \<in> set (rows_of a)" for row
  proof -
    obtain r where r: "r \<in> set (rows_of b)" "js_get r ''domain'' = js_get row ''domain''" "row_supported row \<longrightarrow> row_supported r"
      "count_of row ''passed'' \<le> count_of r ''passed''" "count_of r ''failed'' \<le> count_of row ''failed''"
      using assms(4) row by (auto simp: evidence_kept_def row_kept_def)
    then have "row_kept (rows_of c) r" using assms(5) by (simp add: evidence_kept_def)
    then show ?thesis using r by (fastforce simp: row_kept_def)
  qed
  ultimately show ?thesis using assms(4,5) by (auto simp: evidence_kept_def)
qed

text \<open>C38: Evidence never weakens along a chain of releases: when each release compares clean with the one before, the last compares
  clean with the first, so the host and its version are the same, the kit only advanced, no axis was lost and no row shrank.\<close>

theorem evidence_survives_chains_of_releases:
  "if compareQualificationSnapshots hash first middle = Inr [] \<and> compareQualificationSnapshots hash middle last_one = Inr []
   then compareQualificationSnapshots hash first last_one = Inr [] \<and> evidence_kept first last_one else True"
proof -
  have "snapshot_ok hash v" if "validateAdapterQualificationSnapshot hash v = Inr v" for v
    using that by (auto simp: validateAdapterQualificationSnapshot_def scanned_def accepts split: scan_state.splits)
  note ok = this
  show ?thesis
  proof (cases "compareQualificationSnapshots hash first middle = Inr [] \<and> compareQualificationSnapshots hash middle last_one = Inr []")
    case True
    then have k: "evidence_kept first middle" "evidence_kept middle last_one"
      and v: "validateAdapterQualificationSnapshot hash first = Inr first" "validateAdapterQualificationSnapshot hash middle = Inr middle"
        "validateAdapterQualificationSnapshot hash last_one = Inr last_one"
      by (simp_all add: compare_nil)
    have "evidence_kept first last_one" by (rule evidence_kept_trans [OF ok ok ok, OF v k])
    then show ?thesis using True v by (simp add: compare_nil)
  qed auto
qed

section \<open>What the scanner sees\<close>

fun sentinel_free :: "jsval \<Rightarrow> bool" where
  "sentinel_free (JStr s) = (\<not> has_substring s QUALIFICATION_SENTINEL)"
| "sentinel_free (JArr vs) = list_all sentinel_free vs"
| "sentinel_free (JObj kvs) = list_all (\<lambda>p. \<not> has_substring (fst p) QUALIFICATION_SENTINEL \<and> sentinel_free (snd p)) kvs"
| "sentinel_free v = True"

fun scan_size :: "jsval \<Rightarrow> nat" where
  "scan_size (JArr vs) = 2 + sum_list (map scan_size vs)"
| "scan_size (JObj kvs) = 1 + sum_list (map (\<lambda>p. scan_size (snd p)) kvs)"
| "scan_size v = 1"

lemma has_substring_set: "has_substring s p \<Longrightarrow> set p \<subseteq> set s"
proof (induction s p rule: has_substring.induct)
  case (3 c s p ps)
  show ?case
  proof (cases "starts_with (c # s) (p # ps)")
    case True
    then obtain t where "c # s = (p # ps) @ t" by (auto simp: starts_with_append)
    then show ?thesis by (metis set_append Un_upper1)
  qed (use 3 in auto)
qed auto

lemma no_sentinel: "CHR ''q'' \<notin> set s \<Longrightarrow> \<not> has_substring s QUALIFICATION_SENTINEL"
  using has_substring_set [of s QUALIFICATION_SENTINEL] by (auto simp: QUALIFICATION_SENTINEL_def)

lemma no_sentinel_class: "list_all P s \<Longrightarrow> \<not> P (CHR ''q'') \<Longrightarrow> \<not> has_substring s QUALIFICATION_SENTINEL"
  using no_sentinel by (auto simp: list_all_iff)

lemma no_sentinel_dec: "\<not> has_substring (dec n) QUALIFICATION_SENTINEL"
proof -
  have "\<not> is_digit (CHR ''q'')" by code_simp
  then show ?thesis using no_sentinel [of "dec n"] dec_is_digit by blast
qed

lemma scan_entries_Some: "scan_entries ps pending = Some q \<longleftrightarrow>
  list_all (\<lambda>p. \<not> has_substring (fst p) QUALIFICATION_SENTINEL) ps \<and> q = rev (map snd ps) @ pending"
  by (induction ps arbitrary: pending) auto

lemma own_entries_free:
  assumes "sentinel_free v"
  shows "scan_entries (own_entries v) pending = Some (rev (map snd (own_entries v)) @ pending)"
    "list_all sentinel_free (map snd (own_entries v))"
proof -
  have l: "\<not> has_substring ''length'' QUALIFICATION_SENTINEL" by code_simp
  have z: "\<not> has_substring (fst p) QUALIFICATION_SENTINEL" if "p \<in> set (zip (map dec ns) (vs :: jsval list))" for p ns vs
  proof -
    have "fst p \<in> set (map dec ns)" using set_zip_leftD [of "fst p" "snd p" "map dec ns" vs] that by simp
    then show ?thesis using no_sentinel_dec by auto
  qed
  show "scan_entries (own_entries v) pending = Some (rev (map snd (own_entries v)) @ pending)"
    unfolding scan_entries_Some using assms l z by (cases v) (auto simp: own_entries_def list_all_iff)
  show "list_all sentinel_free (map snd (own_entries v))"
    using assms by (cases v) (auto simp: own_entries_def list_all_iff)
qed

lemma own_entries_size: "js_str v = None \<Longrightarrow> sum_list (map scan_size (map snd (own_entries v))) + 1 = scan_size v"
  by (cases v) (auto simp: own_entries_def comp_def)

lemma scan_size_pos: "1 \<le> scan_size v"
  by (cases v) auto

lemma scan_loop_clean:
  "list_all sentinel_free pending \<Longrightarrow> sum_list (map scan_size pending) \<le> n \<Longrightarrow> scan_loop n pending Scan_clean = Scan_clean"
proof (induction n arbitrary: pending)
  case 0
  then have "pending = []" using scan_size_pos [of "hd pending"] by (cases pending) simp_all
  then show ?case by simp
next
  case (Suc n)
  show ?case
  proof (cases pending)
    case (Cons v vs)
    show ?thesis
    proof (cases "js_str v")
      case None
      have f: "sentinel_free v" using Suc.prems Cons by simp
      let ?q = "rev (map snd (own_entries v)) @ vs"
      have "list_all sentinel_free ?q" using own_entries_free(2) [OF f] Suc.prems(1) Cons by simp
      moreover have "sum_list (map scan_size ?q) \<le> n"
        using own_entries_size [OF None] Suc.prems(2) Cons by (simp add: rev_map [symmetric] sum_list_rev)
      ultimately show ?thesis using None Cons own_entries_free(1) [OF f] Suc.IH by simp
    next
      case (Some s)
      then have "v = JStr s" by (cases v) simp_all
      then show ?thesis using Suc.prems Cons Suc.IH [of vs] by simp
    qed
  qed simp
qed

lemma scan_loop_sound: "scan_loop n pending st = Scan_clean \<Longrightarrow> st = Scan_clean \<and> list_all sentinel_free pending"
proof (induction n pending st rule: scan_loop.induct)
  case (2 v pending st)
  then show ?case by (cases st) (auto simp: markIncomplete_def)
next
  case (3 n v pending st)
  show ?case
  proof (cases "js_str v")
    case None
    then obtain q where q: "scan_entries (own_entries v) pending = Some q"
      using 3(3) by (cases "scan_entries (own_entries v) pending") auto
    then have "st = Scan_clean \<and> list_all sentinel_free q" using 3 None by auto
    then show ?thesis
      using q None unfolding scan_entries_Some by (cases v) (auto simp: own_entries_def list_all_iff set_zip in_set_conv_nth)
  next
    case (Some s)
    then have "v = JStr s" by (cases v) simp_all
    then show ?thesis using 3 by (auto split: if_splits)
  qed
qed simp

text \<open>Within the budget the scan is clean exactly when no string and no key holds the sentinel.\<close>

lemma observe_clean: "scan_size v \<le> QUALIFICATION_SCAN_BUDGET \<Longrightarrow> observe v Scan_clean = Scan_clean \<longleftrightarrow> sentinel_free v"
  using scan_loop_clean [of "[v]"] scan_loop_sound [of _ "[v]"] by (auto simp: observe_def)

lemma observe_sound: "observe v Scan_clean = Scan_clean \<Longrightarrow> sentinel_free v"
  using scan_loop_sound [of _ "[v]"] by (auto simp: observe_def)

section \<open>The cases of an accepted record\<close>

definition case_key :: "jsval \<Rightarrow> string \<times> string" where
  "case_key v = (probe_text (js_get v ''domain''), probe_text (js_get v ''id''))"

lemma one_of_text: "one_of names v \<Longrightarrow> v = JStr (probe_text v) \<and> probe_text v \<in> set names"
  by (cases v) (auto simp: one_of_def probe_text_def)

lemma matches_JStr: "matches_text f v \<Longrightarrow> v = JStr (probe_text v) \<and> f (probe_text v)"
  by (cases v) (auto simp: matches_text_def probe_text_def)

lemma expected_domain_contract: "expected_domain contract i = Some d \<Longrightarrow> (d, i) \<in> set contract"
  by (auto simp: expected_domain_def dest!: map_of_SomeD)

definition case_sound :: "(string \<times> string) list \<Rightarrow> string list \<Rightarrow> jsval \<Rightarrow> bool" where
  "case_sound contract domains v \<longleftrightarrow> js_get v ''domain'' = JStr (fst (case_key v)) \<and> js_get v ''id'' = JStr (snd (case_key v)) \<and>
     fst (case_key v) \<in> set domains \<and> case_key v \<in> set contract \<and> is_boolean (js_get v ''passed'')"

lemma cases_ok_sound:
  "cases_ok contract domains seen vs \<Longrightarrow> distinct (map (\<lambda>v. snd (case_key v)) vs) \<and>
   (\<forall>v \<in> set vs. snd (case_key v) \<notin> set seen \<and> case_sound contract domains v)"
proof (induction vs arbitrary: seen)
  case (Cons v vs)
  have i: "js_get v ''id'' = JStr (snd (case_key v))" and d: "js_get v ''domain'' = JStr (fst (case_key v))" "fst (case_key v) \<in> set domains"
    using Cons.prems one_of_text [of domains "js_get v ''domain''"] matches_JStr [of CASE_ID_PATTERN "js_get v ''id''"]
    by (simp_all add: case_shape_def case_key_def)
  have n: "snd (case_key v) \<notin> set seen" and e: "expected_domain contract (snd (case_key v)) = js_str (js_get v ''domain'')"
    and b: "is_boolean (js_get v ''passed'')" and r: "cases_ok contract domains (snd (case_key v) # seen) vs"
    using Cons.prems by (simp_all add: Let_def case_key_def)
  have "case_key v \<in> set contract" using expected_domain_contract e d(1) by (metis js_str.simps(1) prod.collapse)
  with Cons.IH [OF r] i d n b show ?case by (auto simp: case_sound_def)
qed simp

lemma record_cases_complete:
  assumes "record_cases version domains vs"
  shows "mset (map case_key vs) = mset (kit_contract version)"
    "\<And>v. v \<in> set vs \<Longrightarrow> case_sound (kit_contract version) (qualificationKitDomains version) v"
proof -
  have c: "cases_ok (kit_contract version) (qualificationKitDomains version) [] vs" and l: "length vs = length (kit_contract version)"
    using assms by (simp_all add: record_cases_def)
  note s = cases_ok_sound [OF c]
  then show "\<And>v. v \<in> set vs \<Longrightarrow> case_sound (kit_contract version) (qualificationKitDomains version) v" by blast
  have "distinct (map snd (map case_key vs))" using s by (simp add: comp_def)
  then have dk: "distinct (map case_key vs)" by (simp only: distinct_map)
  have sub: "set (map case_key vs) \<subseteq> set (kit_contract version)" using s by (auto simp: case_sound_def)
  have "card (set (map case_key vs)) = length (kit_contract version)" using distinct_card [OF dk] l by simp
  moreover have "card (set (map case_key vs)) \<le> card (set (kit_contract version))" using sub by (intro card_mono) simp_all
  ultimately have ck: "card (set (kit_contract version)) = length (kit_contract version)"
    and eq: "set (map case_key vs) = set (kit_contract version)"
    using card_length [of "kit_contract version"] card_subset_eq [OF _ sub] by auto
  show "mset (map case_key vs) = mset (kit_contract version)"
    using set_eq_iff_mset_eq_distinct [OF dk card_distinct [OF ck]] eq by blast
qed

lemma domain_of_sound: "case_sound contract domains v \<Longrightarrow> in_domain d v \<longleftrightarrow> fst (case_key v) = d"
  by (auto simp: case_sound_def in_domain_def)

lemma own_cases_count:
  assumes "record_cases version domains vs"
  shows "length (filter (in_domain d) vs) = corpus_count version d"
proof -
  have "filter (in_domain d) vs = filter (\<lambda>v. fst (case_key v) = d) vs"
    by (intro filter_cong refl domain_of_sound [OF record_cases_complete(2) [OF assms]])
  then have "length (filter (in_domain d) vs) = length (filter (\<lambda>p. fst p = d) (map case_key vs))"
    by (simp add: filter_map comp_def)
  also have "\<dots> = size (filter_mset (\<lambda>p. fst p = d) (mset (map case_key vs)))" by (simp only: mset_filter [symmetric] size_mset)
  also have "\<dots> = corpus_count version d"
    by (simp only: record_cases_complete(1) [OF assms] corpus_count_def mset_filter [symmetric] size_mset)
  finally show ?thesis .
qed

text \<open>In every contract the domain of capability negotiation has the one case \<open>probe_contract\<close>.\<close>

lemma contract_probe:
  assumes "version \<in> set kit_versions"
  shows "(d, i) \<in> set (kit_contract version) \<Longrightarrow> d = ''capability_negotiation'' \<longleftrightarrow> i = ''probe_contract''"
    "(''capability_negotiation'', ''probe_contract'') \<in> set (kit_contract version)"
    "length (kit_contract version) \<le> 20" "length (qualificationKitDomains version) \<le> 10" "distinct (qualificationKitDomains version)"
    "''capability_negotiation'' \<in> set (qualificationKitDomains version)"
proof -
  have "list_all (\<lambda>v. list_all (\<lambda>p. (fst p = ''capability_negotiation'') = (snd p = ''probe_contract'')) (kit_contract v) \<and>
      (''capability_negotiation'', ''probe_contract'') \<in> set (kit_contract v) \<and> length (kit_contract v) \<le> 20 \<and>
      length (qualificationKitDomains v) \<le> 10 \<and> distinct (qualificationKitDomains v) \<and>
      ''capability_negotiation'' \<in> set (qualificationKitDomains v)) kit_versions"
    by code_simp
  then have *: "list_all (\<lambda>p. (fst p = ''capability_negotiation'') = (snd p = ''probe_contract'')) (kit_contract version) \<and>
      (''capability_negotiation'', ''probe_contract'') \<in> set (kit_contract version) \<and> length (kit_contract version) \<le> 20 \<and>
      length (qualificationKitDomains version) \<le> 10 \<and> distinct (qualificationKitDomains version) \<and>
      ''capability_negotiation'' \<in> set (qualificationKitDomains version)"
    using assms unfolding list_all_iff [of _ kit_versions] by blast
  then show "(''capability_negotiation'', ''probe_contract'') \<in> set (kit_contract version)"
    "length (kit_contract version) \<le> 20" "length (qualificationKitDomains version) \<le> 10" "distinct (qualificationKitDomains version)"
    "''capability_negotiation'' \<in> set (qualificationKitDomains version)"
    by blast+
  show "(d, i) \<in> set (kit_contract version) \<Longrightarrow> d = ''capability_negotiation'' \<longleftrightarrow> i = ''probe_contract''"
    using * unfolding list_all_iff by (metis fst_conv snd_conv)
qed

lemma length_filter_all: "length (filter f xs) = length xs \<longleftrightarrow> (\<forall>x \<in> set xs. f x)"
proof (induction xs)
  case (Cons x xs)
  have "length (filter f xs) < Suc (length xs)" by (rule le_imp_less_Suc [OF length_filter_le])
  then show ?case using Cons.IH by auto
qed simp

lemma own_cases_supported:
  assumes "record_cases version domains vs" "d \<in> set (qualificationKitDomains version)" "version \<in> set kit_versions"
  shows "row_supported (snapshot_row domains d) \<longleftrightarrow> (\<forall>v \<in> set vs. in_domain d v \<longrightarrow> case_passed v)"
    "row_counts version (snapshot_row domains d)"
proof -
  let ?own = "filter (in_domain d) vs" and ?r = "snapshot_row domains d"
  let ?p = "length (filter case_passed ?own)"
  have m: "js_int (js_get (js_get domains d) ''passed'') = Some (int ?p)"
    "js_int (js_get (js_get domains d) ''failed'') = Some (int (length ?own) - int ?p)"
    and ne: "?own \<noteq> []"
    using assms(1,2) by (auto simp: record_cases_def list_all_iff list_ex_iff summary_matches_def Let_def filter_empty_conv)
  have le: "?p \<le> length ?own" by (rule length_filter_le)
  have all: "?p = length ?own \<longleftrightarrow> (\<forall>v \<in> set vs. in_domain d v \<longrightarrow> case_passed v)"
    unfolding length_filter_all by auto
  have "length ?own \<le> 20"
    by (rule order_trans [OF length_filter_le]) (use contract_probe(3) [OF assms(3)] assms(1) in \<open>simp add: record_cases_def\<close>)
  then have safe: "js_safe_int (js_get ?r ''passed'') = Some (int ?p)" "js_safe_int (js_get ?r ''failed'') = Some (int (length ?own) - int ?p)"
    using m le by (simp_all add: snapshot_row_def Let_def js_safe_int_def max_safe_integer_def)
  have st: "js_get ?r ''status'' = JStr (snapshotDomainStatus (int ?p) (int (length ?own) - int ?p))"
    using m by (simp add: snapshot_row_def Let_def)
  have dom: "probe_text (js_get ?r ''domain'') = d" by (simp add: snapshot_row_def Let_def probe_text_def)
  have pos: "0 < length ?own" using ne by blast
  show "row_supported ?r \<longleftrightarrow> (\<forall>v \<in> set vs. in_domain d v \<longrightarrow> case_passed v)"
    unfolding row_supported_def st all [symmetric] snapshotDomainStatus_def using le pos by auto
  show "row_counts version ?r"
    unfolding row_counts_def safe st dom option.case own_cases_count [OF assms(1), of d, symmetric] using le by simp
qed

section \<open>Publishing a record\<close>

lemma snapshot_rows_ok:
  assumes "record_cases version domains vs" "version \<in> set kit_versions"
  shows "distinct ds \<Longrightarrow> set ds \<subseteq> set (qualificationKitDomains version) \<Longrightarrow> set ds \<inter> set seen = {} \<Longrightarrow>
    rows_ok version seen (map (snapshot_row domains) ds)"
proof (induction ds arbitrary: seen)
  case (Cons d ds)
  have d: "js_get (snapshot_row domains d) ''domain'' = JStr d" by (simp add: snapshot_row_def Let_def)
  have k: "record_of [''domain'', ''status'', ''passed'', ''failed''] (snapshot_row domains d)"
    by (simp add: snapshot_row_def Let_def record_of_def keys_within_def)
  have s: "one_of [''supported'', ''unsupported''] (js_get (snapshot_row domains d) ''status'')"
    by (simp add: snapshot_row_def Let_def one_of_def snapshotDomainStatus_def)
  show ?case
    using Cons.prems Cons.IH [of "d # seen"] own_cases_supported(2) [OF assms(1) _ assms(2), of d] k s
    by (simp add: d one_of_def probe_text_def del: js_get.simps)
qed simp

lemma snapshot_axes:
  assumes "record_cases version domains vs" "version \<in> set kit_versions"
  shows "negotiation_supported (map (snapshot_row domains) (qualificationKitDomains version)) = probe_passed vs"
    "list_all row_supported (map (snapshot_row domains) (qualificationKitDomains version)) = list_all case_passed vs"
proof -
  let ?cap = "''capability_negotiation''" and ?ds = "qualificationKitDomains version"
  note sound = record_cases_complete(2) [OF assms(1)] and contract = contract_probe [OF assms(2)]
  have dom: "in_domain d (snapshot_row domains e) \<longleftrightarrow> d = e" for d e
    by (auto simp: snapshot_row_def Let_def in_domain_def)
  have "?cap \<in> set ds \<Longrightarrow> find (in_domain ?cap) (map (snapshot_row domains) ds) = Some (snapshot_row domains ?cap)" for ds
    by (induction ds) (auto simp: dom)
  then have neg: "negotiation_supported (map (snapshot_row domains) ?ds) \<longleftrightarrow> (\<forall>v \<in> set vs. in_domain ?cap v \<longrightarrow> case_passed v)"
    using contract(6) own_cases_supported(1) [OF assms(1) contract(6) assms(2)] by (simp add: negotiation_supported_def)
  have cap: "in_domain ?cap v \<longleftrightarrow> js_get v ''id'' = JStr ''probe_contract''" if "v \<in> set vs" for v
    using sound [OF that] contract(1) [of "fst (case_key v)" "snd (case_key v)"]
    by (auto simp: case_sound_def in_domain_def)
  have "(?cap, ''probe_contract'') \<in> set (map case_key vs)"
    using contract(2) record_cases_complete(1) [OF assms(1)] by (metis set_mset_mset)
  then obtain p where p: "p \<in> set vs" "case_key p = (?cap, ''probe_contract'')" by auto
  then have pid: "js_get p ''id'' = JStr ''probe_contract''" using sound [OF p(1)] by (simp add: case_sound_def)
  have c: "cases_ok (kit_contract version) ?ds [] vs" using assms(1) by (simp add: record_cases_def)
  have only: "v = p" if "v \<in> set vs" "js_get v ''id'' = JStr ''probe_contract''" for v
    using cases_ok_sound [OF c] that p(1) pid sound [OF that(1)] p(2) by (auto simp: distinct_map inj_on_def case_sound_def)
  obtain x where x: "find (\<lambda>v. js_get v ''id'' = JStr ''probe_contract'') vs = Some x"
    using p(1) pid by (cases "find (\<lambda>v. js_get v ''id'' = JStr ''probe_contract'') vs") (auto simp: find_None_iff)
  then have "x = p" using only by (auto simp: find_Some_iff)
  then have "probe_passed vs \<longleftrightarrow> case_passed p" using x by (simp add: probe_passed_def)
  then show "negotiation_supported (map (snapshot_row domains) ?ds) = probe_passed vs"
    unfolding neg using cap p(1) pid only by blast
  have "fst (case_key v) \<in> set ?ds \<and> in_domain (fst (case_key v)) v" if "v \<in> set vs" for v
    using sound [OF that] by (simp add: case_sound_def in_domain_def)
  then show "list_all row_supported (map (snapshot_row domains) ?ds) = list_all case_passed vs"
    using own_cases_supported(1) [OF assms(1) _ assms(2)] by (auto simp: list_all_iff)
qed

lemma spread_get: "js_get (spread v) k = js_get v k"
proof (cases v)
  case (JObj kvs)
  have "map_of (map (\<lambda>k. (k, js_get v k)) ks) k = (if k \<in> set ks then Some (js_get v k) else None)" for ks
    by (induction ks) auto
  moreover have "k \<notin> fst ` set kvs \<Longrightarrow> map_of kvs k = None" by (simp add: map_of_eq_None_iff)
  ultimately show ?thesis by (simp add: spread_def JObj)
qed (simp_all add: spread_def uniq_def)

lemma spread_keys: "is_plain_object (spread v)" "js_keys (spread v) = uniq (js_keys v)"
  by (simp_all add: spread_def comp_def)

lemma spread_axes:
  assumes "axes_shape a"
  shows "axes_shape (spread a)" "scan_size (spread a) \<le> 4" "sentinel_free a \<Longrightarrow> sentinel_free (spread a)"
proof -
  let ?ns = "[''implemented'', ''fixtureConformant'', ''liveQualified'']"
  have k: "set (js_keys a) \<subseteq> set ?ns" and b: "list_all (\<lambda>n. is_boolean (js_get a n)) ?ns"
    using assms by (auto simp: axes_shape_def record_of_def keys_within_def list_all_iff)
  show "axes_shape (spread a)"
    using assms by (simp add: axes_shape_def record_of_def keys_within_def spread_keys spread_get list_all_iff del: js_get.simps)
  have "length (uniq (js_keys a)) = card (set (uniq (js_keys a)))" by (rule distinct_card [symmetric]) simp
  also have "\<dots> \<le> card (set ?ns)" using k by (intro card_mono) simp_all
  also have "\<dots> \<le> length ?ns" by (rule card_length)
  finally have l: "length (uniq (js_keys a)) \<le> 3" by simp
  have one: "scan_size (js_get a n) = 1" "sentinel_free (js_get a n)" if "n \<in> set (uniq (js_keys a))" for n
  proof -
    have "is_boolean (js_get a n)" using that k b unfolding list_all_iff by auto
    then show "scan_size (js_get a n) = 1" "sentinel_free (js_get a n)" by (cases "js_get a n"; simp add: is_boolean_def)+
  qed
  have "sum_list (map (\<lambda>n. scan_size (js_get a n)) ns) = length ns" if "set ns \<subseteq> set (uniq (js_keys a))" for ns
    using that one(1) by (induction ns) auto
  from this [of "uniq (js_keys a)"] show "scan_size (spread a) \<le> 4"
    using l by (simp add: spread_def comp_def del: js_get.simps)
  show "sentinel_free (spread a)" if f: "sentinel_free a"
  proof -
    have "\<not> has_substring n QUALIFICATION_SENTINEL" if "n \<in> set (js_keys a)" for n
      using f that by (cases a) (auto simp: list_all_iff)
    then show ?thesis using one(2) by (auto simp: spread_def list_all_iff)
  qed
qed

lemma free_member: "sentinel_free v \<Longrightarrow> sentinel_free (js_get v k)"
  by (cases v) (auto simp: list_all_iff split: option.splits dest!: map_of_SomeD)

lemma release_free: "STABLE_RELEASE_PATTERN s \<Longrightarrow> \<not> has_substring s QUALIFICATION_SENTINEL"
proof -
  assume "STABLE_RELEASE_PATTERN s"
  then have "list_all (list_all (\<lambda>c. is_digit c \<or> c = CHR ''.'')) (split_on (CHR ''.'') s)"
    by (auto simp: STABLE_RELEASE_PATTERN_def Let_def list_all_iff)
  then have "list_all (\<lambda>c. is_digit c \<or> c = CHR ''.'') s" by (rule split_on_all) simp
  moreover have "\<not> (is_digit (CHR ''q'') \<or> CHR ''q'' = CHR ''.'')" by code_simp
  ultimately show ?thesis by (rule no_sentinel_class)
qed

lemma hex_free: "HEX_64_PATTERN s \<Longrightarrow> \<not> has_substring s QUALIFICATION_SENTINEL"
proof -
  have "\<not> is_hex (CHR ''q'')" by code_simp
  then show "HEX_64_PATTERN s \<Longrightarrow> ?thesis" using no_sentinel_class [of is_hex s] by (simp add: HEX_64_PATTERN_def)
qed

lemma constants_free:
  "list_all (\<lambda>k. \<not> has_substring k QUALIFICATION_SENTINEL) ([ADAPTER_QUALIFICATION_SNAPSHOT_SCHEMA_ID, ''supported'', ''unsupported'',
     ''domain'', ''status'', ''passed'', ''failed''] @ snapshot_keys @ QUALIFICATION_DOMAINS)"
  by code_simp

lemma record_parts:
  assumes "record_ok v"
  obtains vs where "js_get v ''cases'' = JArr vs" "record_cases (field_text v ''kitVersion'') (js_get v ''domains'') vs"
    "axes_derived (js_get v ''axes'') vs (js_get v ''liveEvidence'')" "axes_shape (js_get v ''axes'')" "record_head v"
    "domains_shape (qualificationKitDomains (field_text v ''kitVersion'')) (js_get v ''domains'')" "field_text v ''kitVersion'' \<in> set kit_versions"
  using assms one_of_text [of kit_versions "js_get v ''kitVersion''"]
  by (cases "js_get v ''cases''") (auto simp: record_ok_def record_head_def axes_consistent_def field_text_def Let_def)

definition row_clean :: "jsval \<Rightarrow> bool" where
  "row_clean r \<longleftrightarrow> sentinel_free r \<and> scan_size r = 5"

lemma snapshot_row_clean:
  assumes "domain_counts (js_get domains d)" "d \<in> set QUALIFICATION_DOMAINS"
  shows "row_clean (snapshot_row domains d)"
proof -
  have n: "sentinel_free (js_get (js_get domains d) k) \<and> scan_size (js_get (js_get domains d) k) = 1" if "k = ''passed'' \<or> k = ''failed''" for k
    using assms(1) that by (cases "js_get (js_get domains d) k") (auto simp: domain_counts_def count_ok_def)
  have "\<not> has_substring d QUALIFICATION_SENTINEL" using constants_free assms(2) by (auto simp: list_all_iff)
  then show ?thesis
    using n constants_free by (simp add: row_clean_def snapshot_row_def Let_def snapshotDomainStatus_def del: js_get.simps)
qed

lemma snapshot_value_clean:
  assumes "record_ok v" "sentinel_free v" "STABLE_RELEASE_PATTERN release"
    "HEX_64_PATTERN (qualificationFixtureCorpusDigest hash (field_text v ''kitVersion''))"
  shows "observe (snapshot_value hash v release) Scan_clean = Scan_clean"
proof -
  obtain vs where a: "axes_shape (js_get v ''axes'')" and h: "record_head v"
    and d: "domains_shape (qualificationKitDomains (field_text v ''kitVersion'')) (js_get v ''domains'')"
    and k: "field_text v ''kitVersion'' \<in> set kit_versions"
    by (rule record_parts [OF assms(1)])
  let ?rows = "map (snapshot_row (js_get v ''domains'')) (qualificationKitDomains (field_text v ''kitVersion''))"
  have "e \<in> set QUALIFICATION_DOMAINS" if "e \<in> set (qualificationKitDomains w)" for e w
    using that by (auto simp: qualificationKitDomains_def QUALIFICATION_DOMAINS_def split: if_splits)
  then have r: "list_all row_clean ?rows"
    using d unfolding domains_shape_def list_all_iff by (auto intro!: snapshot_row_clean)
  have "sum_list (map scan_size rs) = 5 * length rs" if "list_all row_clean rs" for rs
    using that by (induction rs) (auto simp: row_clean_def)
  from this [OF r] have sr: "scan_size (JArr ?rows) \<le> 52" using contract_probe(4) [OF k] by simp
  have t: "scan_size (js_get v n) = 1" if "n \<in> set [''hostId'', ''hostVersion'', ''kitVersion'', ''generatedAt'']" for n
    using h that by (cases "js_get v n") (auto simp: record_head_def matches_text_def validHostVersion_def one_of_def)
  have "sentinel_free (JArr ?rows)" using r by (simp add: list_all_iff row_clean_def)
  then have "sentinel_free (snapshot_value hash v release)"
    using free_member [OF assms(2)] spread_axes(3) [OF a free_member [OF assms(2)]] release_free [OF assms(3)] hex_free [OF assms(4)]
      constants_free
    by (simp add: snapshot_value_def Let_def field_text_def [symmetric] snapshot_keys_def del: js_get.simps)
  moreover have "scan_size (snapshot_value hash v release) \<le> QUALIFICATION_SCAN_BUDGET"
    using t spread_axes(2) [OF a] sr
    by (simp add: snapshot_value_def Let_def field_text_def [symmetric] QUALIFICATION_SCAN_BUDGET_def del: js_get.simps)
  ultimately show ?thesis by (simp add: observe_clean)
qed

lemma snapshot_value_ok:
  assumes "record_ok v" "STABLE_RELEASE_PATTERN release"
    "HEX_64_PATTERN (qualificationFixtureCorpusDigest hash (field_text v ''kitVersion''))"
  shows "snapshot_ok hash (snapshot_value hash v release)"
proof -
  obtain vs where c: "record_cases (field_text v ''kitVersion'') (js_get v ''domains'') vs"
    and x: "axes_derived (js_get v ''axes'') vs (js_get v ''liveEvidence'')" and a: "axes_shape (js_get v ''axes'')" and h: "record_head v"
    and k: "field_text v ''kitVersion'' \<in> set kit_versions"
    by (rule record_parts [OF assms(1)])
  let ?s = "snapshot_value hash v release" and ?ds = "qualificationKitDomains (field_text v ''kitVersion'')"
  let ?rows = "map (snapshot_row (js_get v ''domains'')) ?ds"
  have g: "js_get ?s ''kitVersion'' = js_get v ''kitVersion''" "js_get ?s ''axes'' = spread (js_get v ''axes'')"
    "js_get ?s ''domains'' = JArr ?rows" "js_get ?s ''hostId'' = js_get v ''hostId''" "js_get ?s ''hostVersion'' = js_get v ''hostVersion''"
    "js_get ?s ''generatedAt'' = js_get v ''generatedAt''" "js_get ?s ''release'' = JStr release"
    "js_get ?s ''schema'' = JStr ADAPTER_QUALIFICATION_SNAPSHOT_SCHEMA_ID"
    "js_get ?s ''fixtureCorpusDigest'' = JStr (qualificationFixtureCorpusDigest hash (field_text v ''kitVersion''))"
    by (simp_all add: snapshot_value_def Let_def field_text_def [symmetric])
  have "record_of snapshot_keys ?s"
    by (simp add: snapshot_value_def Let_def record_of_def keys_within_def snapshot_keys_def)
  then have "snapshot_head hash ?s"
    using h assms(2,3) unfolding snapshot_head_def g record_head_def field_text_def by (simp add: matches_text_def)
  moreover have "snapshot_rows (field_text v ''kitVersion'') (spread (js_get v ''axes'')) ?rows"
    unfolding snapshot_rows_def
  proof (intro conjI)
    show "?rows \<noteq> []" using contract_probe(6) [OF k] by auto
    show "rows_ok (field_text v ''kitVersion'') [] ?rows" by (rule snapshot_rows_ok [OF c k contract_probe(5) [OF k]]) simp_all
    show "list_all (\<lambda>d. list_ex (in_domain d) ?rows) ?ds"
      by (auto simp: list_all_iff list_ex_iff in_domain_def snapshot_row_def Let_def)
    show "axis (spread (js_get v ''axes'')) ''implemented'' = negotiation_supported ?rows"
      "axis (spread (js_get v ''axes'')) ''fixtureConformant'' = (negotiation_supported ?rows \<and> list_all row_supported ?rows)"
      using x unfolding axes_derived_def axis_def spread_get snapshot_axes [OF c k] by blast+
  qed
  ultimately show ?thesis
    using spread_axes(1) [OF a] unfolding snapshot_ok_def g by (simp add: field_text_def)
qed

text \<open>Every accepted record can be published for every stable release: the derived snapshot passes the snapshot validator, which
  recomputes the corpus digest, the counts of every row and the axes.\<close>

theorem accepted_records_can_be_published:
  "if STABLE_RELEASE_PATTERN release \<and> HEX_64_PATTERN (qualificationFixtureCorpusDigest hash (field_text v ''kitVersion''))
   then (case validateAdapterQualificationRecord v of
       Inl _ \<Rightarrow> True
     | Inr _ \<Rightarrow> createQualificationSnapshot hash v (JStr release) = Inr (snapshot_value hash v release))
   else True"
proof (cases "STABLE_RELEASE_PATTERN release \<and> HEX_64_PATTERN (qualificationFixtureCorpusDigest hash (field_text v ''kitVersion''))")
  case True
  then have r: "STABLE_RELEASE_PATTERN release" "HEX_64_PATTERN (qualificationFixtureCorpusDigest hash (field_text v ''kitVersion''))" by simp_all
  show ?thesis
  proof (cases "validateAdapterQualificationRecord v")
    case (Inr w)
    then have s: "observe v Scan_clean = Scan_clean" and ok: "record_ok v" and w: "w = v"
      by (auto simp: validateAdapterQualificationRecord_def scanned_def accepts split: scan_state.splits)
    have "validateAdapterQualificationSnapshot hash (snapshot_value hash v release) = Inr (snapshot_value hash v release)"
      using snapshot_value_clean [OF ok observe_sound [OF s] r] snapshot_value_ok [OF ok r]
      by (simp add: validateAdapterQualificationSnapshot_def scanned_def)
    then show ?thesis using True Inr w by (simp add: createQualificationSnapshot_def matches_text_def probe_text_def)
  qed (use True in simp)
qed auto

end
