(* ===== verification/QualificationCases.thy ===== *)
theory QualificationCases
  imports Qualification
begin

text \<open>
  packages/core/src/adapter-qualification.ts, the suite: the cases an adapter is put through, each bounded in time and cleaned up,
  and the record made of their results. What the adapter does is an argument: what its probe returns, what its preflight throws,
  which events a run yields and how it ends. How the time bound and the cleanup of a case went is an argument, too, and so are the
  observations of processes. A thrown value is what the scanner sees of it and what the checks read.
\<close>

section \<open>What an adapter does\<close>

record thrown =
  th_value :: jsval
  th_core :: bool
  th_code :: string
  th_retryable :: bool
  th_details :: jsval

record host_stream =
  hs_events :: "jsval list"
  hs_thrown :: "thrown option"

text \<open>A run is known by its identifier; the identity and the cancellation are optional functions.\<close>

record qualified_host =
  qh_id :: string
  qh_probe :: "thrown + jsval"
  qh_identity :: "(thrown + jsval) option"
  qh_preflight :: "string \<Rightarrow> thrown option"
  qh_run :: "string \<Rightarrow> thrown + host_stream"
  qh_cancel :: "(string \<Rightarrow> thrown option) option"

record case_result =
  cr_domain :: string
  cr_id :: string
  cr_passed :: bool
  cr_code :: string

definition caseResult :: "string \<Rightarrow> string \<Rightarrow> bool \<Rightarrow> string \<Rightarrow> case_result" where
  "caseResult d i passed code = \<lparr>cr_domain = d, cr_id = i, cr_passed = passed, cr_code = code\<rparr>"

record collected =
  co_events :: "jsval list"
  co_failed :: bool
  co_overflow :: bool

definition event_limit :: nat where
  "event_limit = 256"

fun collectFromIterator :: "scan_state \<Rightarrow> jsval list \<Rightarrow> jsval list \<Rightarrow> thrown option \<Rightarrow> scan_state \<times> collected" where
  "collectFromIterator sc acc [] e = (case e of
      None \<Rightarrow> (sc, \<lparr>co_events = acc, co_failed = False, co_overflow = False\<rparr>)
    | Some t \<Rightarrow> (observe (th_value t) sc, \<lparr>co_events = acc, co_failed = True, co_overflow = False\<rparr>))"
| "collectFromIterator sc acc (v # vs) e =
     (let sc1 = observe v sc; acc1 = acc @ [v]
      in if sc1 = Scan_incomplete then (sc1, \<lparr>co_events = acc, co_failed = True, co_overflow = False\<rparr>)
         else if length acc1 > event_limit then (sc1, \<lparr>co_events = acc1, co_failed = True, co_overflow = True\<rparr>)
         else collectFromIterator sc1 acc1 vs e)"

text \<open>A case is a step on the state of the scanner that gives a result or throws.\<close>

type_synonym 'a case_step = "scan_state \<Rightarrow> scan_state \<times> (thrown + 'a)"

definition run_id :: "string \<Rightarrow> string" where
  "run_id caseId = ''qualification-'' @ caseId"

definition collectEvents :: "qualified_host \<Rightarrow> string \<Rightarrow> (scan_state \<Rightarrow> collected \<Rightarrow> 'a) \<Rightarrow> 'a case_step" where
  "collectEvents h caseId judge sc = (case qh_run h (run_id caseId) of
      Inl t \<Rightarrow> (sc, Inl t)
    | Inr st \<Rightarrow> (let (sc1, c) = collectFromIterator sc [] (hs_events st) (hs_thrown st) in (sc1, Inr (judge sc1 c))))"

definition event_type :: "jsval \<Rightarrow> jsval" where
  "event_type v = js_get v ''type''"

definition typed :: "string \<Rightarrow> jsval \<Rightarrow> bool" where
  "typed name v = (event_type v = JStr name)"

definition terminals :: "jsval list \<Rightarrow> jsval list" where
  "terminals events = filter terminal_event events"

definition ends_terminally :: "jsval list \<Rightarrow> bool" where
  "ends_terminally events = (events \<noteq> [] \<and> terminal_event (last events))"

text \<open>One terminal event of the given type, and it is the last event.\<close>

definition only_terminal :: "string \<Rightarrow> jsval list \<Rightarrow> bool" where
  "only_terminal name events = (length (terminals events) = 1 \<and> typed name (hd (terminals events)) \<and> ends_terminally events)"

section \<open>The probe\<close>

definition probeContractValid :: "jsval \<Rightarrow> string \<Rightarrow> bool" where
  "probeContractValid v host =
     (is_plain_object v \<and> js_get v ''protocolVersion'' = JStr AGENT_HOST_PROTOCOL_VERSION \<and> js_get v ''hostId'' = JStr host \<and>
      js_get v ''status'' = JStr ''ready'' \<and> js_get v ''available'' = JBool True \<and> js_get v ''adapterStatus'' = JStr ''runnable'' \<and>
      validHostVersion (js_get v ''version'') \<and>
      one_of [''adapter_declaration'', ''conformance_test''] (js_get v ''capabilitySource'') \<and>
      is_plain_object (js_get v ''capabilities'') \<and>
      list_all (\<lambda>c. one_of [''supported'', ''documented'', ''unsupported'', ''unknown''] (js_get (js_get v ''capabilities'') c))
        AGENT_HOST_CAPABILITIES)"

record host_identity =
  hi_digest :: string
  hi_pid :: int

record capability_outcome =
  ca_result :: case_result
  ca_probe :: "jsval option"
  ca_fingerprint :: "string option"
  ca_version :: jsval
  ca_identity :: "host_identity option"

definition readable_identity :: "jsval \<Rightarrow> host_identity option" where
  "readable_identity v =
     (if matches_text HEX_64_PATTERN (js_get v ''configurationDigest'')
      then (case js_safe_int (js_get v ''ownerPid'') of
          None \<Rightarrow> None
        | Some n \<Rightarrow> if n > 0 then Some \<lparr>hi_digest = probe_text (js_get v ''configurationDigest''), hi_pid = n\<rparr> else None)
      else None)"

definition read_identity :: "qualified_host \<Rightarrow> scan_state \<Rightarrow> scan_state \<times> host_identity option" where
  "read_identity h sc = (case qh_identity h of
      None \<Rightarrow> (sc, None)
    | Some (Inl t) \<Rightarrow> (observe (th_value t) sc, None)
    | Some (Inr v) \<Rightarrow> (let sc1 = observe v sc in (sc1, if sc1 = Scan_incomplete then None else readable_identity v)))"

record qualification_env =
  qe_hash :: "string \<Rightarrow> string"
  qe_fraction :: "rat \<Rightarrow> string"
  qe_stringify :: "jsval \<Rightarrow> string option"
  qe_parse :: "string \<Rightarrow> jsval option"
  qe_type_error :: thrown

definition capability_case :: "bool \<Rightarrow> string \<Rightarrow> case_result" where
  "capability_case = caseResult ''capability_negotiation'' ''probe_contract''"

definition capability_failure :: "string \<Rightarrow> capability_outcome" where
  "capability_failure code = \<lparr>ca_result = capability_case False code, ca_probe = None, ca_fingerprint = None, ca_version = JUndef,
     ca_identity = None\<rparr>"

text \<open>The fingerprint of an undefined probe and the version of null throw.\<close>

definition runCapabilityCase :: "qualification_env \<Rightarrow> qualified_host \<Rightarrow> capability_outcome case_step" where
  "runCapabilityCase env h sc = (case qh_probe h of
      Inl t \<Rightarrow> (observe (th_value t) sc, Inr (capability_failure ''probe_unavailable''))
    | Inr v \<Rightarrow>
        (let sc1 = observe v sc
         in if sc1 = Scan_incomplete then (sc1, Inr (capability_failure ''qualification_evidence_scan_incomplete''))
            else let passed = probeContractValid v (qh_id h); (sc2, identity) = read_identity h sc1
              in if v = JUndef \<or> v = JNull then (sc2, Inl (qe_type_error env))
                 else (sc2, Inr \<lparr>ca_result = capability_case passed (if passed then ''probe_contract_ok'' else ''probe_contract_violation''),
                   ca_probe = Some v, ca_fingerprint = map_option (qe_hash env) (qualification_json (qe_fraction env) v),
                   ca_version = js_get v ''version'', ca_identity = identity\<rparr>)))"

section \<open>Event streams\<close>

definition KNOWN_EVENT_TYPES :: "string list" where
  "KNOWN_EVENT_TYPES = [''run.started'', ''assistant.delta'', ''tool.started'', ''tool.completed'', ''approval.required'',
     ''usage'', ''run.completed'', ''run.failed'']"

definition well_formed_event :: "string \<Rightarrow> jsval \<Rightarrow> bool" where
  "well_formed_event run v = (is_plain_object v \<and> js_get v ''runId'' = JStr run \<and> matches_text ISO_PATTERN (js_get v ''timestamp'') \<and>
     one_of KNOWN_EVENT_TYPES (js_get v ''type''))"

definition failed_code :: "collected \<Rightarrow> string \<Rightarrow> string" where
  "failed_code c code = (if co_overflow c then ''qualification_event_overflow'' else code)"

definition event_results :: "bool \<Rightarrow> string \<Rightarrow> bool \<Rightarrow> string \<Rightarrow> case_result list" where
  "event_results a x b y = [caseResult ''native_event_validation'' ''events_well_formed'' a x,
     caseResult ''single_terminal_outcome'' ''exactly_one_terminal'' b y]"

definition judge_events :: "scan_state \<Rightarrow> collected \<Rightarrow> case_result list" where
  "judge_events sc c =
     (if co_failed c then (let code = failed_code c ''event_stream_unavailable'' in event_results False code False code)
      else let es = co_events c; good = list_all (well_formed_event (run_id ''event_stream'')) es;
           single = length (terminals es) = 1 \<and> ends_terminally es
        in event_results good (if good then ''events_well_formed_ok'' else ''malformed_native_event'')
             single (if single then ''single_terminal_ok'' else if terminals es = [] then ''missing_terminal_event''
               else if length (terminals es) > 1 then ''duplicate_terminal_event'' else ''event_after_terminal''))"

definition runEventCases :: "qualified_host \<Rightarrow> case_result list case_step" where
  "runEventCases h = collectEvents h ''event_stream'' judge_events"

section \<open>Cancellation\<close>

definition cancel_case :: "bool \<Rightarrow> string \<Rightarrow> case_result" where
  "cancel_case = caseResult ''deadline_cancel'' ''cancel_stops_active_run''"

definition judge_cancel :: "collected \<Rightarrow> case_result" where
  "judge_cancel c =
     (if co_failed c then cancel_case False (failed_code c ''cancel_path_unavailable'')
      else let es = co_events c; passed = only_terminal ''run.failed'' es
        in cancel_case passed (if passed then ''cancel_stops_active_run_ok''
             else if terminals es = [] then ''cancel_leaves_stream_open''
             else if length (terminals es) > 1 then ''cancel_terminal_contract_violation''
             else if typed ''run.completed'' (hd (terminals es)) then ''cancel_completed_terminal'' else ''cancel_event_after_terminal''))"

definition runCancelCase :: "qualified_host \<Rightarrow> case_result case_step" where
  "runCancelCase h sc = (case qh_cancel h of
      None \<Rightarrow> (sc, Inr (cancel_case False ''cancel_not_supported''))
    | Some cancel \<Rightarrow> (case qh_run h (run_id ''cancel'') of
        Inl t \<Rightarrow> (sc, Inl t)
      | Inr st \<Rightarrow> (case hs_events st of
          [] \<Rightarrow> (case hs_thrown st of
              None \<Rightarrow> (sc, Inr (cancel_case False ''cancel_never_started''))
            | Some t \<Rightarrow> (observe (th_value t) sc, Inr (cancel_case False ''cancel_path_unavailable'')))
        | v # vs \<Rightarrow>
            (let sc1 = observe v sc
             in if \<not> typed ''run.started'' v then (sc1, Inr (cancel_case False ''cancel_never_started''))
                else (case cancel (run_id ''cancel'') of
                    Some t \<Rightarrow> (observe (th_value t) sc1, Inr (cancel_case False ''cancel_path_unavailable''))
                  | None \<Rightarrow> (let (sc2, c) = collectFromIterator sc1 [v] vs (hs_thrown st) in (sc2, Inr (judge_cancel c))))))))"

section \<open>Credentials\<close>

definition credential_case :: "bool \<Rightarrow> string \<Rightarrow> case_result" where
  "credential_case = caseResult ''credential_boundaries'' ''no_metadata_echo''"

definition judge_credential :: "scan_state \<Rightarrow> collected \<Rightarrow> case_result" where
  "judge_credential sc c =
     (if sc = Scan_detected then credential_case False ''metadata_secret_echoed''
      else if sc = Scan_incomplete then credential_case False ''metadata_secret_scan_incomplete''
      else if co_failed c then credential_case False (failed_code c ''credential_case_unavailable'')
      else credential_case True ''no_metadata_echo_ok'')"

definition runCredentialCase :: "qualified_host \<Rightarrow> case_result case_step" where
  "runCredentialCase h = collectEvents h ''credential'' judge_credential"

section \<open>Denials\<close>

definition QUALIFICATION_FILESYSTEM_DENIAL_CODE :: string where
  "QUALIFICATION_FILESYSTEM_DENIAL_CODE = ''qualification_filesystem_policy_denied''"

definition QUALIFICATION_NETWORK_DENIAL_CODE :: string where
  "QUALIFICATION_NETWORK_DENIAL_CODE = ''qualification_network_policy_denied''"

definition QUALIFICATION_MCP_DENIAL_CODE :: string where
  "QUALIFICATION_MCP_DENIAL_CODE = ''qualification_mcp_policy_denied''"

definition qualificationPolicyDenialMatches :: "thrown \<Rightarrow> string \<Rightarrow> bool" where
  "qualificationPolicyDenialMatches t code =
     (th_core t \<and> \<not> th_retryable t \<and>
      (th_code t = code \<or>
       (th_code t = ''agent_host_stdio_host_error'' \<and> js_get (th_details t) ''code'' = JStr code \<and>
        js_get (th_details t) ''retryable'' = JBool False)))"

definition denied_stream :: "string \<Rightarrow> jsval list \<Rightarrow> bool" where
  "denied_stream code es =
     (length es \<ge> 2 \<and> typed ''run.started'' (hd es) \<and> only_terminal ''run.failed'' es \<and>
      (let error = js_get (hd (terminals es)) ''error''
       in js_get error ''code'' = JStr code \<and> js_get error ''retryable'' = JBool False))"

definition completed_first :: "jsval list \<Rightarrow> bool" where
  "completed_first es = (terminals es \<noteq> [] \<and> typed ''run.completed'' (hd (terminals es)))"

datatype denial = Deny_filesystem | Deny_network | Deny_mcp

definition denial_kind :: "denial \<Rightarrow> string" where
  "denial_kind k = (case k of Deny_filesystem \<Rightarrow> ''filesystem'' | Deny_network \<Rightarrow> ''network'' | Deny_mcp \<Rightarrow> ''mcp'')"

definition denial_code :: "denial \<Rightarrow> string" where
  "denial_code k = (case k of Deny_filesystem \<Rightarrow> QUALIFICATION_FILESYSTEM_DENIAL_CODE
     | Deny_network \<Rightarrow> QUALIFICATION_NETWORK_DENIAL_CODE | Deny_mcp \<Rightarrow> QUALIFICATION_MCP_DENIAL_CODE)"

definition denial_case :: "denial \<Rightarrow> bool \<Rightarrow> string \<Rightarrow> case_result" where
  "denial_case k passed code =
     caseResult (case k of Deny_mcp \<Rightarrow> ''tool_mcp_enforcement'' | _ \<Rightarrow> ''filesystem_network_enforcement'')
       (case k of Deny_filesystem \<Rightarrow> ''hostile_write_refused'' | _ \<Rightarrow> denial_kind k @ ''_deny_refused'') passed (denial_kind k @ code)"

definition judge_denial :: "denial \<Rightarrow> scan_state \<Rightarrow> collected \<Rightarrow> case_result" where
  "judge_denial k sc c =
     (if co_failed c
      then (if co_overflow c then (denial_case k False [])\<lparr>cr_code := ''qualification_event_overflow''\<rparr>
        else denial_case k False ''_deny_case_unavailable'')
      else let refused = denied_stream (denial_code k) (co_events c)
        in denial_case k refused (if refused then ''_deny_refused_ok'' else if completed_first (co_events c) then ''_deny_accepted''
             else ''_deny_policy_evidence_invalid''))"

definition runDirectDenyCase :: "denial \<Rightarrow> qualified_host \<Rightarrow> case_result case_step" where
  "runDirectDenyCase k h sc =
     (let caseId = denial_kind k @ ''_deny''
      in case qh_preflight h (run_id caseId) of
           Some t \<Rightarrow>
             (let sc1 = observe (th_value t) sc; refused = sc1 \<noteq> Scan_incomplete \<and> qualificationPolicyDenialMatches t (denial_code k)
              in (sc1, Inr (denial_case k refused (if refused then ''_deny_refused_ok'' else ''_deny_policy_evidence_invalid''))))
         | None \<Rightarrow> collectEvents h caseId (judge_denial k) sc)"

section \<open>Tools\<close>

text \<open>\<open>String(v)\<close>; \<open>fraction\<close> is the text of a number that is no safe integer.\<close>

fun js_string :: "(rat \<Rightarrow> string) \<Rightarrow> jsval \<Rightarrow> string" where
  "js_string fraction JUndef = ''undefined''"
| "js_string fraction JNull = ''null''"
| "js_string fraction (JBool b) = (if b then ''true'' else ''false'')"
| "js_string fraction (JNum q) = (case js_safe_int (JNum q) of Some n \<Rightarrow> json_int n | None \<Rightarrow> fraction q)"
| "js_string fraction JNonFinite = ''NaN''"
| "js_string fraction (JStr s) = s"
| "js_string fraction (JArr vs) =
     join_with '','' (map (\<lambda>v. if v = JUndef \<or> v = JNull then [] else js_string fraction v) vs)"
| "js_string fraction (JObj kvs) = ''[object Object]''"

definition policy_tools :: "string list" where
  "policy_tools = [''noop'', ''read_file'', ''search_workspace'']"

definition tool_event :: "jsval \<Rightarrow> bool" where
  "tool_event v = (typed ''tool.started'' v \<or> typed ''tool.completed'' v)"

definition tool_name :: "qualification_env \<Rightarrow> jsval \<Rightarrow> string" where
  "tool_name env v = js_string (qe_fraction env) (js_get v ''toolName'')"

definition tool_case :: "bool \<Rightarrow> string \<Rightarrow> case_result" where
  "tool_case = caseResult ''tool_mcp_enforcement'' ''tool_allowlist_respected''"

definition judge_tools :: "qualification_env \<Rightarrow> scan_state \<Rightarrow> collected \<Rightarrow> case_result" where
  "judge_tools env sc c =
     (if co_failed c then tool_case False (failed_code c ''tool_case_unavailable'')
      else let violation = list_ex (\<lambda>v. tool_event v \<and> tool_name env v \<notin> set policy_tools) (co_events c)
        in tool_case (\<not> violation) (if violation then ''disallowed_tool_event'' else ''tool_allowlist_respected_ok''))"

definition runToolCase :: "qualification_env \<Rightarrow> qualified_host \<Rightarrow> case_result case_step" where
  "runToolCase env h = collectEvents h ''tool_enforcement'' (judge_tools env)"

definition READONLY_PROJECTION_TOOL_NAMES :: "string list" where
  "READONLY_PROJECTION_TOOL_NAMES = [''read_file'', ''search_workspace'']"

definition projectionToolEvents :: "qualification_env \<Rightarrow> jsval list \<Rightarrow> string list" where
  "projectionToolEvents env es = map (tool_name env) (filter tool_event es)"

definition projection_case :: "string \<Rightarrow> bool \<Rightarrow> string \<Rightarrow> case_result" where
  "projection_case = caseResult ''readonly_projection''"

definition judge_read_search :: "qualification_env \<Rightarrow> scan_state \<Rightarrow> collected \<Rightarrow> case_result" where
  "judge_read_search env sc c =
     (let result = projection_case ''read_search_only'';
          es = co_events c; ts = terminals es; tools = projectionToolEvents env es
      in if co_failed c then result False (failed_code c ''read_search_only_path_unavailable'')
         else if \<not> only_terminal ''run.completed'' es
         then result False (if ts = [] then ''read_search_only_missing_terminal''
           else if length ts > 1 then ''read_search_only_duplicate_terminal''
           else if typed ''run.failed'' (hd ts) then ''read_search_only_failed_terminal'' else ''read_search_only_event_after_terminal'')
         else if \<not> list_all (\<lambda>n. n \<in> set READONLY_PROJECTION_TOOL_NAMES) tools then result False ''read_search_only_tool_violation''
         else let passed = list_all (\<lambda>n. n \<in> set tools) READONLY_PROJECTION_TOOL_NAMES
           in result passed (if passed then ''read_search_only_ok'' else ''read_search_only_read_tool_missing''))"

definition runReadSearchOnlyCase :: "qualification_env \<Rightarrow> qualified_host \<Rightarrow> case_result case_step" where
  "runReadSearchOnlyCase env h = collectEvents h ''projection_read_search_only'' (judge_read_search env)"

definition judge_write_tool :: "qualification_env \<Rightarrow> scan_state \<Rightarrow> collected \<Rightarrow> case_result" where
  "judge_write_tool env sc c =
     (let result = projection_case ''write_tool_refused''
      in if co_failed c then result False (failed_code c ''write_tool_case_unavailable'')
         else let executed = projectionToolEvents env (co_events c) \<noteq> [];
             refused = denied_stream QUALIFICATION_FILESYSTEM_DENIAL_CODE (co_events c) \<and> \<not> executed
           in result refused (if refused then ''write_tool_refused_ok'' else if executed then ''write_tool_executed''
                else if completed_first (co_events c) then ''write_tool_accepted'' else ''write_tool_policy_evidence_invalid''))"

definition runWriteToolRefusedCase :: "qualification_env \<Rightarrow> qualified_host \<Rightarrow> case_result case_step" where
  "runWriteToolRefusedCase env h sc = (case qh_preflight h (run_id ''projection_write_tool_refused'') of
      Some t \<Rightarrow>
        (let sc1 = observe (th_value t) sc;
             refused = sc1 \<noteq> Scan_incomplete \<and> qualificationPolicyDenialMatches t QUALIFICATION_FILESYSTEM_DENIAL_CODE
         in (sc1, Inr (projection_case ''write_tool_refused'' refused
              (if refused then ''write_tool_refused_ok'' else ''write_tool_policy_evidence_invalid''))))
    | None \<Rightarrow> collectEvents h ''projection_write_tool_refused'' (judge_write_tool env) sc)"

section \<open>Output schemas\<close>

definition output_case :: "string \<Rightarrow> bool \<Rightarrow> string \<Rightarrow> case_result" where
  "output_case = caseResult ''output_schema''"

definition outputConformsToCaseSchema :: "jsval \<Rightarrow> bool" where
  "outputConformsToCaseSchema v = (is_plain_object v \<and> js_keys v = [''answer''] \<and> js_str (js_get v ''answer'') \<noteq> None)"

definition isStrictJsonValue :: "qualification_env \<Rightarrow> jsval \<Rightarrow> bool" where
  "isStrictJsonValue env v = (case qe_stringify env v of
      None \<Rightarrow> False
    | Some text \<Rightarrow> (case qe_parse env text of
        None \<Rightarrow> False
      | Some parsed \<Rightarrow> qualification_json (qe_fraction env) v = qualification_json (qe_fraction env) parsed))"

definition typedTerminalFailureCode :: "jsval \<Rightarrow> bool" where
  "typedTerminalFailureCode v = matches_text CASE_CODE_PATTERN (js_get (js_get v ''error'') ''code'')"

text \<open>The last event is the only terminal one and a failure with a code of its own.\<close>

definition typed_failure :: "jsval list \<Rightarrow> bool" where
  "typed_failure es = (only_terminal ''run.failed'' es \<and> typedTerminalFailureCode (hd (terminals es)))"

definition judge_valid_json :: "qualification_env \<Rightarrow> scan_state \<Rightarrow> collected \<Rightarrow> case_result" where
  "judge_valid_json env sc c =
     (let result = output_case ''valid_json''; es = co_events c; ts = terminals es; out = js_get (hd ts) ''output''
      in if co_failed c then result False (failed_code c ''valid_json_path_unavailable'')
         else if \<not> only_terminal ''run.completed'' es
         then result False (if ts = [] then ''missing_terminal_event'' else if length ts > 1 then ''duplicate_terminal_event''
           else if typed ''run.failed'' (hd ts) then ''valid_json_failed_terminal'' else ''event_after_terminal'')
         else if \<not> outputConformsToCaseSchema out then result False ''output_schema_violation''
         else if \<not> isStrictJsonValue env out then result False ''output_not_strict_json''
         else result True ''valid_json_ok'')"

definition runValidJsonCase :: "qualification_env \<Rightarrow> qualified_host \<Rightarrow> case_result case_step" where
  "runValidJsonCase env h = collectEvents h ''output_schema_valid_json'' (judge_valid_json env)"

datatype rejection = Reject_non_json | Reject_schema_mismatch | Reject_secret

definition rejection_id :: "rejection \<Rightarrow> string" where
  "rejection_id k = (case k of Reject_non_json \<Rightarrow> ''non_json'' | Reject_schema_mismatch \<Rightarrow> ''schema_mismatch''
     | Reject_secret \<Rightarrow> ''secret_rejected'')"

definition judge_rejected :: "rejection \<Rightarrow> scan_state \<Rightarrow> collected \<Rightarrow> case_result" where
  "judge_rejected k sc c =
     (let i = rejection_id k; result = (\<lambda>passed code. output_case i passed (i @ code)); es = co_events c; ts = terminals es;
          completed = list_ex (typed ''run.completed'') es; passed = \<not> completed \<and> typed_failure es
      in if co_failed c
         then (if co_overflow c then output_case i False ''qualification_event_overflow'' else result False ''_path_unavailable'')
         else result passed (if passed then ''_ok'' else if completed then ''_forwarded_bad_terminal''
           else if ts = [] then ''_missing_terminal'' else if length ts > 1 then ''_duplicate_terminal''
           else if typed ''run.completed'' (hd ts) then ''_completed_terminal''
           else if \<not> ends_terminally es then ''_event_after_terminal'' else ''_untyped_failure''))"

definition runRejectedTerminalCase :: "rejection \<Rightarrow> qualified_host \<Rightarrow> case_result case_step" where
  "runRejectedTerminalCase k h = collectEvents h (''output_schema_'' @ rejection_id k) (judge_rejected k)"

definition judge_invalid_schema :: "scan_state \<Rightarrow> collected \<Rightarrow> case_result" where
  "judge_invalid_schema sc c =
     (let i = ''invalid_schema_preflight''; result = (\<lambda>passed code. output_case i passed (i @ code)); es = co_events c;
          ts = terminals es; started = list_ex (typed ''run.started'') es; passed = \<not> started \<and> typed_failure es
      in if co_failed c
         then (if co_overflow c then output_case i False ''qualification_event_overflow'' else result False ''_path_unavailable'')
         else result passed (if passed then ''_ok'' else if started then ''_ran_model_process''
           else if ts = [] then ''_missing_terminal'' else if length ts > 1 then ''_duplicate_terminal''
           else if \<not> ends_terminally es then ''_event_after_terminal'' else ''_untyped_failure''))"

definition runInvalidSchemaPreflightCase :: "qualified_host \<Rightarrow> case_result case_step" where
  "runInvalidSchemaPreflightCase h = collectEvents h ''output_schema_invalid_schema_preflight'' judge_invalid_schema"

text \<open>Reading until output is buffered: the events so far and the rest, or whether there were too many.\<close>

fun buffer_events :: "scan_state \<Rightarrow> jsval list \<Rightarrow> jsval list \<Rightarrow> thrown option \<Rightarrow>
    scan_state \<times> (bool + jsval list \<times> jsval list)" where
  "buffer_events sc acc [] e = (case e of None \<Rightarrow> (sc, Inl False) | Some t \<Rightarrow> (observe (th_value t) sc, Inl False))"
| "buffer_events sc acc (v # vs) e =
     (let sc1 = observe v sc; acc1 = acc @ [v]
      in if sc1 = Scan_incomplete then (sc1, Inl False)
         else if length acc1 > event_limit then (sc1, Inl True)
         else if typed ''assistant.delta'' v \<or> typed ''run.completed'' v then (sc1, Inr (acc1, vs))
         else buffer_events sc1 acc1 vs e)"

definition judge_buffered :: "collected \<Rightarrow> case_result" where
  "judge_buffered c =
     (let i = ''cancel_buffered''; result = (\<lambda>passed code. output_case i passed (i @ code)); es = co_events c;
          ts = terminals es; flushed = list_ex (typed ''run.completed'') es; passed = \<not> flushed \<and> typed_failure es
      in if co_failed c
         then (if co_overflow c then output_case i False ''qualification_event_overflow'' else result False ''_path_unavailable'')
         else result passed (if passed then ''_ok'' else if flushed then ''_buffer_flushed''
           else if ts = [] then ''_leaves_stream_open'' else if length ts > 1 then ''_duplicate_terminal''
           else if \<not> ends_terminally es then ''_event_after_terminal'' else ''_untyped_failure''))"

definition runCancelBufferedCase :: "qualified_host \<Rightarrow> case_result case_step" where
  "runCancelBufferedCase h sc = (case qh_cancel h of
      None \<Rightarrow> (sc, Inr (output_case ''cancel_buffered'' False ''cancel_not_supported''))
    | Some cancel \<Rightarrow> (case qh_run h (run_id ''output_schema_cancel_buffered'') of
        Inl t \<Rightarrow> (sc, Inl t)
      | Inr st \<Rightarrow> (case buffer_events sc [] (hs_events st) (hs_thrown st) of
          (sc1, Inl overflow) \<Rightarrow> (sc1, Inr (output_case ''cancel_buffered'' False
             (if overflow then ''qualification_event_overflow'' else ''cancel_buffered_never_buffered'')))
        | (sc1, Inr (acc, rest)) \<Rightarrow> (case cancel (run_id ''output_schema_cancel_buffered'') of
            Some t \<Rightarrow> (observe (th_value t) sc1, Inr (output_case ''cancel_buffered'' False ''cancel_buffered_path_unavailable''))
          | None \<Rightarrow> (let (sc2, c) = collectFromIterator sc1 acc rest (hs_thrown st) in (sc2, Inr (judge_buffered c)))))))"

section \<open>Process trees\<close>

record process_identity =
  pi_parent :: int
  pi_group :: int
  pi_start :: string

text \<open>
  The fixture of one scenario: whether its adapter is the one under qualification, what that adapter does now, what is observed of
  processes, whether the timer fired before the next event, and whether the descendants were gone after disposal.
\<close>

record tree_fixture =
  tf_created :: "thrown option"
  tf_same_adapter :: bool
  tf_probe :: "thrown + jsval"
  tf_identity :: "(thrown + jsval) option"
  tf_run :: "thrown + host_stream"
  tf_cancel :: "thrown option option"
  tf_descendants :: "thrown + jsval"
  tf_own_pid :: int
  tf_alive :: "int \<Rightarrow> bool"
  tf_processes :: "int \<Rightarrow> process_identity option"
  tf_delayed :: bool
  tf_gone :: bool

datatype tree_scenario = Tree_normal | Tree_timeout | Tree_cancel

definition scenario_name :: "tree_scenario \<Rightarrow> string" where
  "scenario_name k = (case k of Tree_normal \<Rightarrow> ''normal'' | Tree_timeout \<Rightarrow> ''timeout'' | Tree_cancel \<Rightarrow> ''cancel'')"

definition truthy :: "jsval \<Rightarrow> bool" where
  "truthy v = (v \<noteq> JUndef \<and> v \<noteq> JNull \<and> v \<noteq> JNonFinite \<and> v \<noteq> JBool False \<and> v \<noteq> JNum 0 \<and> v \<noteq> JStr [])"

definition same_identity :: "jsval \<Rightarrow> host_identity \<Rightarrow> bool" where
  "same_identity v i = (js_get v ''configurationDigest'' = JStr (hi_digest i) \<and> js_get v ''ownerPid'' = JNum (of_int (hi_pid i)))"

definition pid_of :: "jsval \<Rightarrow> string \<Rightarrow> int" where
  "pid_of v k = (case js_safe_int (js_get v k) of None \<Rightarrow> 0 | Some n \<Rightarrow> n)"

definition validDescendants :: "int \<Rightarrow> jsval \<Rightarrow> bool" where
  "validDescendants own v =
     (let child = pid_of v ''childPid''; grandchild = pid_of v ''grandchildPid''
      in child > 0 \<and> grandchild > 0 \<and> child \<noteq> grandchild \<and> child \<noteq> own \<and> grandchild \<noteq> own)"

definition processTreeLineageValid :: "(int \<Rightarrow> process_identity option) \<Rightarrow> int \<Rightarrow> int \<Rightarrow> int \<Rightarrow> bool" where
  "processTreeLineageValid processes ownerPid childPid grandchildPid =
     (case processes ownerPid of
        None \<Rightarrow> False
      | Some owner \<Rightarrow> (case processes childPid of
          None \<Rightarrow> False
        | Some child \<Rightarrow> (case processes grandchildPid of
            None \<Rightarrow> False
          | Some grandchild \<Rightarrow> pi_parent child = ownerPid \<and> pi_parent grandchild = childPid \<and> pi_group owner > 0 \<and>
              pi_group child = pi_group owner \<and> pi_group grandchild = pi_group owner \<and>
              pi_start owner \<noteq> [] \<and> pi_start child \<noteq> [] \<and> pi_start grandchild \<noteq> [])))"

definition deadline_failure :: "jsval \<Rightarrow> bool" where
  "deadline_failure v = (typed ''run.failed'' v \<and>
     matches_text (\<lambda>s. has_substring s ''deadline'' \<or> has_substring s ''timeout'') (js_get (js_get v ''error'') ''code''))"

text \<open>The code of a failure, or nothing when the lifecycle of the scenario passed.\<close>

definition tree_lifecycle :: "tree_scenario \<Rightarrow> tree_fixture \<Rightarrow> jsval \<Rightarrow> jsval list \<Rightarrow> thrown option \<Rightarrow> scan_state \<Rightarrow>
    scan_state \<times> string option" where
  "tree_lifecycle k f v vs e sc =
     (let finish = (\<lambda>sc0 acc rest e0 good code. let (sc1, c) = collectFromIterator sc0 acc rest e0
                    in (sc1, if \<not> co_failed c \<and> good (co_events c) then None else Some code))
      in if k = Tree_normal then finish sc [v] vs e (only_terminal ''run.completed'') ''process_tree_lifecycle_violation''
         else case tf_cancel f of
           None \<Rightarrow> (sc, Some ''process_tree_cancel_not_supported'')
         | Some cancelled \<Rightarrow>
             if k = Tree_cancel
             then (case cancelled of
                 Some t \<Rightarrow> (observe (th_value t) sc, Some ''process_tree_descendants_unavailable'')
               | None \<Rightarrow> finish sc [v] vs e (only_terminal ''run.failed'') ''process_tree_lifecycle_violation'')
             else case (if tf_delayed f then cancelled else None) of
                 Some t \<Rightarrow> (observe (th_value t) sc, Some ''process_tree_descendants_unavailable'')
               | None \<Rightarrow> (case vs of
                   w # ws \<Rightarrow> finish (observe w sc) [v, w] ws e
                     (\<lambda>es. (tf_delayed f \<or> deadline_failure w) \<and> only_terminal ''run.failed'' es) ''process_tree_timeout_not_observed''
                 | [] \<Rightarrow> (case e of
                     Some t \<Rightarrow> finish (observe (th_value t) sc) [v] [] None
                       (\<lambda>es. tf_delayed f \<and> only_terminal ''run.failed'' es) ''process_tree_timeout_not_observed''
                   | None \<Rightarrow> finish sc [v] [] None
                       (\<lambda>es. tf_delayed f \<and> only_terminal ''run.failed'' es) ''process_tree_timeout_not_observed'')))"

definition tree_descendants :: "tree_scenario \<Rightarrow> tree_fixture \<Rightarrow> host_identity \<Rightarrow> jsval \<Rightarrow> jsval list \<Rightarrow> thrown option \<Rightarrow> scan_state \<Rightarrow>
    scan_state \<times> string option" where
  "tree_descendants k f identity v vs e sc = (case tf_descendants f of
      Inl t \<Rightarrow> (observe (th_value t) sc, Some ''process_tree_descendants_unavailable'')
    | Inr d \<Rightarrow>
        (let sc1 = observe d sc; child = pid_of d ''childPid''; grandchild = pid_of d ''grandchildPid''
         in if d = JUndef \<or> d = JNull then (sc1, Some ''process_tree_descendants_unavailable'')
            else if \<not> validDescendants (tf_own_pid f) d then (sc1, Some ''process_tree_descendants_invalid'')
            else if \<not> tf_alive f child \<or> \<not> tf_alive f grandchild then (sc1, Some ''process_tree_descendants_not_running'')
            else if \<not> processTreeLineageValid (tf_processes f) (hi_pid identity) child grandchild
            then (sc1, Some ''process_tree_lineage_unverified'')
            else tree_lifecycle k f v vs e sc1))"

definition tree_run :: "tree_scenario \<Rightarrow> tree_fixture \<Rightarrow> host_identity \<Rightarrow> scan_state \<Rightarrow> scan_state \<times> string option" where
  "tree_run k f identity sc = (case tf_run f of
      Inl t \<Rightarrow> (observe (th_value t) sc, Some ''process_tree_case_unavailable'')
    | Inr st \<Rightarrow> (case hs_events st of
        [] \<Rightarrow> (case hs_thrown st of
            None \<Rightarrow> (sc, Some ''process_tree_run_not_started'')
          | Some t \<Rightarrow> (observe (th_value t) sc, Some ''process_tree_run_unavailable''))
      | v # vs \<Rightarrow>
          (let sc1 = observe v sc
           in if \<not> typed ''run.started'' v then (sc1, Some ''process_tree_run_not_started'')
              else tree_descendants k f identity v vs (hs_thrown st) sc1)))"

definition tree_binding :: "qualification_env \<Rightarrow> tree_scenario \<Rightarrow> tree_fixture \<Rightarrow> string \<Rightarrow> jsval \<Rightarrow> host_identity \<Rightarrow> scan_state \<Rightarrow>
    scan_state \<times> string option" where
  "tree_binding env k f fingerprint version identity sc = (case tf_probe f of
      Inl t \<Rightarrow> (observe (th_value t) sc, Some ''process_tree_case_unavailable'')
    | Inr probe \<Rightarrow>
        (let sc1 = observe probe sc
         in case tf_identity f of
              Some (Inl t) \<Rightarrow> (observe (th_value t) sc1, Some ''process_tree_case_unavailable'')
            | current \<Rightarrow>
                (let now = (case current of Some (Inr v) \<Rightarrow> v | _ \<Rightarrow> JUndef); sc2 = observe now sc1
                 in if sc2 = Scan_incomplete \<or> \<not> truthy now then (sc2, Some ''process_tree_binding_mismatch'')
                    else if probe = JUndef \<or> probe = JNull then (sc2, Some ''process_tree_case_unavailable'')
                    else if js_get probe ''version'' \<noteq> version \<or>
                        map_option (qe_hash env) (qualification_json (qe_fraction env) probe) \<noteq> Some fingerprint \<or>
                        \<not> same_identity now identity
                    then (sc2, Some ''process_tree_binding_mismatch'')
                    else tree_run k f identity sc2)))"

definition tree_outcome :: "qualification_env \<Rightarrow> tree_scenario \<Rightarrow> capability_outcome \<Rightarrow> tree_fixture option \<Rightarrow> scan_state \<Rightarrow>
    scan_state \<times> string option" where
  "tree_outcome env k capability fixture sc = (case fixture of
      None \<Rightarrow> (sc, Some ''process_tree_fixture_unavailable'')
    | Some f \<Rightarrow> (case tf_created f of
        Some t \<Rightarrow> (observe (th_value t) sc, Some ''process_tree_fixture_create_failed'')
      | None \<Rightarrow>
          if \<not> tf_same_adapter f then (sc, Some ''process_tree_adapter_mismatch'')
          else case ca_fingerprint capability of
            None \<Rightarrow> (sc, Some ''process_tree_binding_unavailable'')
          | Some fingerprint \<Rightarrow> (case ca_identity capability of
              None \<Rightarrow> (sc, Some ''process_tree_binding_unavailable'')
            | Some identity \<Rightarrow>
                if fingerprint = [] \<or> \<not> truthy (ca_version capability) then (sc, Some ''process_tree_binding_unavailable'')
                else tree_binding env k f fingerprint (ca_version capability) identity sc)))"

definition tree_case :: "tree_scenario \<Rightarrow> bool \<Rightarrow> string \<Rightarrow> case_result" where
  "tree_case k = caseResult ''process_tree_cleanup'' (''descendants_disposed_'' @ scenario_name k)"

definition runProcessTreeCase :: "qualification_env \<Rightarrow> tree_scenario \<Rightarrow> capability_outcome \<Rightarrow> tree_fixture option \<Rightarrow> case_result case_step" where
  "runProcessTreeCase env k capability fixture sc =
     (let (sc1, failure) = tree_outcome env k capability fixture sc
      in (sc1, Inr (case failure of
           Some code \<Rightarrow> tree_case k False code
         | None \<Rightarrow> (let gone = (case fixture of None \<Rightarrow> False | Some f \<Rightarrow> tf_gone f)
             in tree_case k gone (if gone then ''descendants_disposed_'' @ scenario_name k @ ''_ok'' else ''process_tree_descendants_survived'')))))"

section \<open>The suite\<close>

text \<open>
  How the bounds of a case went: the cleanup never settled, or it threw these values, and whether the case was out of time before
  it settled.
\<close>

record case_fate =
  fa_stuck :: bool
  fa_cleanup_errors :: "jsval list"
  fa_timed_out :: bool

definition runBoundedCase :: "case_fate \<Rightarrow> (string \<Rightarrow> 'a) \<Rightarrow> 'a case_step \<Rightarrow> scan_state \<Rightarrow> scan_state \<times> (string + 'a)" where
  "runBoundedCase fate fallback body sc =
     (let (sc1, out) = body sc;
          sc2 = (case out of Inl t \<Rightarrow> observe (th_value t) sc1 | Inr _ \<Rightarrow> sc1);
          sc3 = fold observe (fa_cleanup_errors fate) sc2
      in (sc3, if fa_stuck fate then Inl ''QUALIFICATION_CLEANUP_TIMEOUT''
          else Inr (if fa_cleanup_errors fate \<noteq> [] then fallback ''qualification_cleanup_failed''
            else if fa_timed_out fate then fallback ''qualification_case_timeout''
            else case out of Inl _ \<Rightarrow> fallback ''qualification_case_unavailable'' | Inr a \<Rightarrow> a)))"

definition single :: "case_result case_step \<Rightarrow> case_result list case_step" where
  "single body sc = (let (sc1, out) = body sc in (sc1, case out of Inl t \<Rightarrow> Inl t | Inr r \<Rightarrow> Inr [r]))"

type_synonym suite_step = "(string \<Rightarrow> case_result list) \<times> case_result list case_step"

definition single_step :: "string \<Rightarrow> string \<Rightarrow> case_result case_step \<Rightarrow> suite_step" where
  "single_step d i body = (\<lambda>code. [caseResult d i False code], single body)"

definition suite_steps :: "qualification_env \<Rightarrow> qualified_host \<Rightarrow> (tree_scenario \<Rightarrow> tree_fixture option) \<Rightarrow> capability_outcome \<Rightarrow>
    suite_step list" where
  "suite_steps env h fixtures capability =
     [(\<lambda>code. event_results False code False code, runEventCases h),
      single_step ''deadline_cancel'' ''cancel_stops_active_run'' (runCancelCase h)] @
     map (\<lambda>k. single_step ''process_tree_cleanup'' (''descendants_disposed_'' @ scenario_name k)
         (runProcessTreeCase env k capability (fixtures k))) [Tree_normal, Tree_timeout, Tree_cancel] @
     [single_step ''credential_boundaries'' ''no_metadata_echo'' (runCredentialCase h),
      single_step ''filesystem_network_enforcement'' ''hostile_write_refused'' (runDirectDenyCase Deny_filesystem h),
      single_step ''filesystem_network_enforcement'' ''network_deny_refused'' (runDirectDenyCase Deny_network h),
      single_step ''tool_mcp_enforcement'' ''tool_allowlist_respected'' (runToolCase env h),
      single_step ''tool_mcp_enforcement'' ''mcp_deny_refused'' (runDirectDenyCase Deny_mcp h),
      single_step ''output_schema'' ''valid_json'' (runValidJsonCase env h),
      single_step ''output_schema'' ''non_json'' (runRejectedTerminalCase Reject_non_json h),
      single_step ''output_schema'' ''schema_mismatch'' (runRejectedTerminalCase Reject_schema_mismatch h),
      single_step ''output_schema'' ''invalid_schema_preflight'' (runInvalidSchemaPreflightCase h),
      single_step ''output_schema'' ''cancel_buffered'' (runCancelBufferedCase h),
      single_step ''output_schema'' ''secret_rejected'' (runRejectedTerminalCase Reject_secret h),
      single_step ''readonly_projection'' ''read_search_only'' (runReadSearchOnlyCase env h),
      single_step ''readonly_projection'' ''write_tool_refused'' (runWriteToolRefusedCase env h)]"

fun run_steps :: "(nat \<Rightarrow> case_fate) \<Rightarrow> nat \<Rightarrow> suite_step list \<Rightarrow> scan_state \<Rightarrow> scan_state \<times> (string + case_result list)" where
  "run_steps fates n [] sc = (sc, Inr [])"
| "run_steps fates n ((fallback, body) # steps) sc = (case runBoundedCase (fates n) fallback body sc of
      (sc1, Inl e) \<Rightarrow> (sc1, Inl e)
    | (sc1, Inr rs) \<Rightarrow> (case run_steps fates (n + 1) steps sc1 of
        (sc2, Inl e) \<Rightarrow> (sc2, Inl e)
      | (sc2, Inr ss) \<Rightarrow> (sc2, Inr (rs @ ss))))"

record suite_options =
  so_generated :: string
  so_timeout :: jsval
  so_live :: "(string \<times> string) option"
  so_fixtures :: "tree_scenario \<Rightarrow> tree_fixture option"

definition valid_timeout :: "jsval \<Rightarrow> bool" where
  "valid_timeout v = (v = JUndef \<or> v = JNull \<or> int_between 1000 600000 v)"

fun taint_credentials :: "string \<Rightarrow> case_result list \<Rightarrow> case_result list" where
  "taint_credentials code [] = []"
| "taint_credentials code (r # rs) =
     (if cr_domain r = ''credential_boundaries'' then credential_case False code # rs else r # taint_credentials code rs)"

definition final_cases :: "scan_state \<Rightarrow> case_result list \<Rightarrow> case_result list" where
  "final_cases sc rs = (case sc of
      Scan_clean \<Rightarrow> rs
    | Scan_detected \<Rightarrow> taint_credentials ''metadata_secret_echoed'' rs
    | Scan_incomplete \<Rightarrow> taint_credentials ''metadata_secret_scan_incomplete'' rs)"

definition default_policy :: jsval where
  "default_policy = JObj
     [(''tools'', JObj [(''default'', JStr ''deny''), (''allow'', JArr (map (\<lambda>n. JObj [(''name'', JStr n), (''mode'', JStr ''read'')]) policy_tools))]),
      (''filesystem'', JObj [(''read'', JArr [JStr ''.'']), (''write'', JArr [])]), (''network'', JObj [(''mode'', JStr ''deny'')]),
      (''approval'', JObj [(''mode'', JStr ''never'')]), (''maxTurns'', JNum 4)]"

definition canonicalPolicyDigest :: "qualification_env \<Rightarrow> jsval \<Rightarrow> string" where
  "canonicalPolicyDigest env v = qe_hash env (case qualification_json (qe_fraction env) v of None \<Rightarrow> [] | Some t \<Rightarrow> t)"

definition case_value :: "case_result \<Rightarrow> jsval" where
  "case_value r = JObj [(''domain'', JStr (cr_domain r)), (''id'', JStr (cr_id r)), (''passed'', JBool (cr_passed r)),
     (''code'', JStr (cr_code r))]"

definition domain_summary :: "case_result list \<Rightarrow> string \<Rightarrow> jsval" where
  "domain_summary rs d =
     (let own = filter (\<lambda>r. cr_domain r = d) rs
      in JObj [(''passed'', JNum (of_nat (length (filter cr_passed own)))),
           (''failed'', JNum (of_nat (length (filter (\<lambda>r. \<not> cr_passed r) own))))])"

definition live_value :: "string \<times> string \<Rightarrow> jsval" where
  "live_value l = JObj [(''environment'', JStr (fst l)), (''evidenceDigest'', JStr (snd l))]"

definition suite_record :: "qualification_env \<Rightarrow> qualified_host \<Rightarrow> suite_options \<Rightarrow> jsval option \<Rightarrow> case_result list \<Rightarrow> jsval" where
  "suite_record env h opts probe rs =
     (let implemented = (case probe of None \<Rightarrow> False | Some p \<Rightarrow> probeContractValid p (qh_id h))
      in JObj ([(''schema'', JStr ADAPTER_QUALIFICATION_SCHEMA_ID), (''hostId'', JStr (qh_id h)),
           (''hostVersion'', case probe of None \<Rightarrow> JStr ''unknown'' | Some p \<Rightarrow> js_get p ''version''),
           (''policyDigest'', JStr (canonicalPolicyDigest env default_policy)), (''kitVersion'', JStr ADAPTER_QUALIFICATION_KIT_VERSION),
           (''generatedAt'', JStr (so_generated opts)),
           (''axes'', JObj [(''implemented'', JBool implemented), (''fixtureConformant'', JBool (implemented \<and> list_all cr_passed rs)),
              (''liveQualified'', JBool (so_live opts \<noteq> None))]),
           (''domains'', JObj (map (\<lambda>d. (d, domain_summary rs d)) QUALIFICATION_DOMAINS)), (''cases'', JArr (map case_value rs))] @
         opt_pair ''liveEvidence'' live_value (so_live opts)))"

definition finish_suite :: "qualification_env \<Rightarrow> qualified_host \<Rightarrow> suite_options \<Rightarrow> jsval option \<Rightarrow> case_result list \<Rightarrow> string + jsval" where
  "finish_suite env h opts probe rs =
     ensure (case probe of None \<Rightarrow> True | Some p \<Rightarrow> validHostVersion (js_get p ''version'')) ''INVALID_QUALIFICATION_HOST_VERSION''
    (ensure (case so_live opts of None \<Rightarrow> True | Some l \<Rightarrow> ENVIRONMENT_ID_PATTERN (fst l) \<and> HEX_64_PATTERN (snd l))
       ''INVALID_QUALIFICATION_LIVE_EVIDENCE''
    (let record = suite_record env h opts probe rs
     in scanned record (and_then (validateAdapterQualificationRecord record) (\<lambda>_. Inr record))))"

definition runQualificationSuite :: "qualification_env \<Rightarrow> qualified_host \<Rightarrow> suite_options \<Rightarrow> (nat \<Rightarrow> case_fate) \<Rightarrow> string + jsval" where
  "runQualificationSuite env h opts fates =
     ensure (HOST_ID_PATTERN (qh_id h)) ''INVALID_QUALIFICATION_HOST_ID''
    (ensure (ISO_PATTERN (so_generated opts)) ''INVALID_QUALIFICATION_TIMESTAMP''
    (ensure (valid_timeout (so_timeout opts)) ''INVALID_QUALIFICATION_CASE_TIMEOUT''
    (case runBoundedCase (fates 0) capability_failure (runCapabilityCase env h) Scan_clean of
       (sc0, Inl e) \<Rightarrow> Inl e
     | (sc0, Inr capability) \<Rightarrow>
         (case run_steps fates 1 (suite_steps env h (so_fixtures opts) capability) sc0 of
            (sc1, Inl e) \<Rightarrow> Inl e
          | (sc1, Inr rs) \<Rightarrow> finish_suite env h opts (ca_probe capability) (final_cases sc1 (ca_result capability # rs))))))"

end
