(* ===== verification/QualificationLaws.thy ===== *)
theory QualificationLaws
  imports QualificationCases
begin

text \<open>
  What the qualification suite guarantees: whatever an adapter does, the suite ends in a record the validator accepts or in a named
  error, and a record that says the adapter conforms was earned by its refusals and its event stream.
\<close>

section \<open>The results of the cases\<close>

definition code_ok :: "string \<Rightarrow> bool" where
  "code_ok s \<longleftrightarrow> length s \<le> 128 \<and> CASE_CODE_PATTERN s"

lemma code_letters:
  "list_all host_id_char ''abcdefghijklmnopqrstuvwxy''" "\<not> host_id_char (CHR ''_'')"
  by code_simp+

lemma machine_codes: "list_all code_ok
   [''cancel_buffered_buffer_flushed'', ''cancel_buffered_duplicate_terminal'', ''cancel_buffered_event_after_terminal'',
     ''cancel_buffered_leaves_stream_open'', ''cancel_buffered_never_buffered'', ''cancel_buffered_ok'',
     ''cancel_buffered_path_unavailable'', ''cancel_buffered_untyped_failure'', ''cancel_completed_terminal'',
     ''cancel_event_after_terminal'', ''cancel_leaves_stream_open'', ''cancel_never_started'', ''cancel_not_supported'',
     ''cancel_path_unavailable'', ''cancel_stops_active_run_ok'', ''cancel_terminal_contract_violation'', ''credential_case_unavailable'',
     ''descendants_disposed_cancel_ok'', ''descendants_disposed_normal_ok'', ''descendants_disposed_timeout_ok'',
     ''disallowed_tool_event'', ''duplicate_terminal_event'', ''event_after_terminal'', ''event_stream_unavailable'',
     ''events_well_formed_ok'', ''filesystem_deny_accepted'', ''filesystem_deny_case_unavailable'',
     ''filesystem_deny_policy_evidence_invalid'', ''filesystem_deny_refused_ok'', ''invalid_schema_preflight_duplicate_terminal'',
     ''invalid_schema_preflight_event_after_terminal'', ''invalid_schema_preflight_missing_terminal'', ''invalid_schema_preflight_ok'',
     ''invalid_schema_preflight_path_unavailable'', ''invalid_schema_preflight_ran_model_process'',
     ''invalid_schema_preflight_untyped_failure'', ''malformed_native_event'', ''mcp_deny_accepted'', ''mcp_deny_case_unavailable'',
     ''mcp_deny_policy_evidence_invalid'', ''mcp_deny_refused_ok'', ''metadata_secret_echoed'', ''metadata_secret_scan_incomplete'',
     ''missing_terminal_event'', ''network_deny_accepted'', ''network_deny_case_unavailable'', ''network_deny_policy_evidence_invalid'',
     ''network_deny_refused_ok'', ''no_metadata_echo_ok'', ''non_json_completed_terminal'', ''non_json_duplicate_terminal'',
     ''non_json_event_after_terminal'', ''non_json_forwarded_bad_terminal'', ''non_json_missing_terminal'', ''non_json_ok'',
     ''non_json_path_unavailable'', ''non_json_untyped_failure'', ''output_not_strict_json'', ''output_schema_violation'',
     ''probe_contract_ok'', ''probe_contract_violation'', ''probe_unavailable'', ''process_tree_adapter_mismatch'',
     ''process_tree_binding_mismatch'', ''process_tree_binding_unavailable'', ''process_tree_cancel_not_supported'',
     ''process_tree_case_unavailable'', ''process_tree_descendants_invalid'', ''process_tree_descendants_not_running'',
     ''process_tree_descendants_survived'', ''process_tree_descendants_unavailable'', ''process_tree_fixture_create_failed'',
     ''process_tree_fixture_unavailable'', ''process_tree_lifecycle_violation'', ''process_tree_lineage_unverified'',
     ''process_tree_run_not_started'', ''process_tree_run_unavailable'', ''process_tree_timeout_not_observed'',
     ''qualification_case_timeout'', ''qualification_case_unavailable'', ''qualification_cleanup_failed'',
     ''qualification_event_overflow'', ''qualification_evidence_scan_incomplete'', ''read_search_only_duplicate_terminal'',
     ''read_search_only_event_after_terminal'', ''read_search_only_failed_terminal'', ''read_search_only_missing_terminal'',
     ''read_search_only_ok'', ''read_search_only_path_unavailable'', ''read_search_only_read_tool_missing'',
     ''read_search_only_tool_violation'', ''schema_mismatch_completed_terminal'', ''schema_mismatch_duplicate_terminal'',
     ''schema_mismatch_event_after_terminal'', ''schema_mismatch_forwarded_bad_terminal'', ''schema_mismatch_missing_terminal'',
     ''schema_mismatch_ok'', ''schema_mismatch_path_unavailable'', ''schema_mismatch_untyped_failure'',
     ''secret_rejected_completed_terminal'', ''secret_rejected_duplicate_terminal'', ''secret_rejected_event_after_terminal'',
     ''secret_rejected_forwarded_bad_terminal'', ''secret_rejected_missing_terminal'', ''secret_rejected_ok'',
     ''secret_rejected_path_unavailable'', ''secret_rejected_untyped_failure'', ''single_terminal_ok'', ''tool_allowlist_respected_ok'',
     ''tool_case_unavailable'', ''valid_json_failed_terminal'', ''valid_json_ok'', ''valid_json_path_unavailable'',
     ''write_tool_accepted'', ''write_tool_case_unavailable'', ''write_tool_executed'', ''write_tool_policy_evidence_invalid'',
     ''write_tool_refused_ok'']"
  by (simp add: code_ok_def CASE_CODE_PATTERN_def code_letters [simplified])

lemmas code_oks = machine_codes [unfolded list.pred_inject]

lemma code_fallback [simp]:
  "code_ok ''qualification_cleanup_failed''" "code_ok ''qualification_case_timeout''" "code_ok ''qualification_case_unavailable''"
  by (simp_all add: code_oks)

definition result_is :: "string \<Rightarrow> string \<Rightarrow> case_result \<Rightarrow> bool" where
  "result_is d i r \<longleftrightarrow> cr_domain r = d \<and> cr_id r = i \<and> code_ok (cr_code r)"

lemma result_is_case [simp]: "result_is d i (caseResult d' i' passed code) \<longleftrightarrow> d' = d \<and> i' = i \<and> code_ok code"
  by (auto simp: result_is_def caseResult_def)

definition yields :: "('a \<Rightarrow> bool) \<Rightarrow> 'a case_step \<Rightarrow> bool" where
  "yields f body \<longleftrightarrow> (\<forall>sc. case snd (body sc) of Inl _ \<Rightarrow> True | Inr a \<Rightarrow> f a)"

lemma yields_mono: "yields f body \<Longrightarrow> (\<And>a. f a \<Longrightarrow> g a) \<Longrightarrow> yields g body"
  unfolding yields_def by (simp split: sum.splits)

lemma yields_collect: "(\<And>sc c. f (judge sc c)) \<Longrightarrow> yields f (collectEvents h i judge)"
  by (simp add: yields_def collectEvents_def split: sum.split prod.split)

lemma yields_single: "yields f body \<Longrightarrow> yields (\<lambda>rs. \<exists>r. rs = [r] \<and> f r) (single body)"
proof (unfold yields_def, intro allI)
  fix sc
  assume "\<forall>sc. case snd (body sc) of Inl _ \<Rightarrow> True | Inr a \<Rightarrow> f a"
  then have "case snd (body sc) of Inl _ \<Rightarrow> True | Inr a \<Rightarrow> f a" by blast
  then show "case snd (single body sc) of Inl _ \<Rightarrow> True | Inr rs \<Rightarrow> \<exists>r. rs = [r] \<and> f r"
    by (cases "body sc"; cases "snd (body sc)") (auto simp: single_def)
qed

lemma events_yield:
  "yields (\<lambda>rs. list_all2 (\<lambda>p r. result_is (fst p) (snd p) r)
     [(''native_event_validation'', ''events_well_formed''), (''single_terminal_outcome'', ''exactly_one_terminal'')] rs) (runEventCases h)"
  unfolding runEventCases_def by (rule yields_collect) (simp add: judge_events_def Let_def event_results_def failed_code_def code_oks)

lemma judge_cancel_is: "result_is ''deadline_cancel'' ''cancel_stops_active_run'' (judge_cancel c)"
  by (simp add: judge_cancel_def Let_def cancel_case_def failed_code_def code_oks)

lemma cancel_yields: "yields (result_is ''deadline_cancel'' ''cancel_stops_active_run'') (runCancelCase h)"
  by (simp add: yields_def runCancelCase_def Let_def cancel_case_def code_oks judge_cancel_is
      split: option.split sum.split list.split prod.split)

lemma credential_yields: "yields (result_is ''credential_boundaries'' ''no_metadata_echo'') (runCredentialCase h)"
  unfolding runCredentialCase_def
  by (rule yields_collect) (simp add: judge_credential_def credential_case_def failed_code_def code_oks)

lemma denial_is:
  "code \<in> set [''_deny_case_unavailable'', ''_deny_refused_ok'', ''_deny_accepted'', ''_deny_policy_evidence_invalid''] \<Longrightarrow>
   code_ok (cr_code (denial_case k passed code))"
  by (cases k) (auto simp: denial_case_def denial_kind_def caseResult_def code_oks)

definition denial_key :: "denial \<Rightarrow> string \<times> string" where
  "denial_key k = (case k of Deny_filesystem \<Rightarrow> (''filesystem_network_enforcement'', ''hostile_write_refused'')
     | Deny_network \<Rightarrow> (''filesystem_network_enforcement'', ''network_deny_refused'')
     | Deny_mcp \<Rightarrow> (''tool_mcp_enforcement'', ''mcp_deny_refused''))"

lemma denial_result: "cr_domain (denial_case k passed code) = fst (denial_key k)" "cr_id (denial_case k passed code) = snd (denial_key k)"
  by (cases k; simp add: denial_case_def denial_key_def denial_kind_def caseResult_def)+

lemma denial_yields: "yields (result_is (fst (denial_key k)) (snd (denial_key k))) (runDirectDenyCase k h)"
proof -
  have j: "result_is (fst (denial_key k)) (snd (denial_key k)) (judge_denial k sc c)" for sc c
    by (simp add: judge_denial_def Let_def result_is_def denial_result denial_is code_oks)
  show ?thesis
    using yields_collect [where f = "result_is (fst (denial_key k)) (snd (denial_key k))" and judge = "judge_denial k", OF j,
        of h "denial_kind k @ ''_deny''"]
    by (simp add: yields_def runDirectDenyCase_def Let_def result_is_def denial_result denial_is split: option.split)
qed

lemma tools_yield: "yields (result_is ''tool_mcp_enforcement'' ''tool_allowlist_respected'') (runToolCase env h)"
  unfolding runToolCase_def
  by (rule yields_collect) (simp add: judge_tools_def Let_def tool_case_def failed_code_def code_oks)

lemma read_search_yields: "yields (result_is ''readonly_projection'' ''read_search_only'') (runReadSearchOnlyCase env h)"
  unfolding runReadSearchOnlyCase_def
  by (rule yields_collect) (simp add: judge_read_search_def Let_def projection_case_def failed_code_def code_oks)

lemma write_tool_yields: "yields (result_is ''readonly_projection'' ''write_tool_refused'') (runWriteToolRefusedCase env h)"
proof -
  have j: "result_is ''readonly_projection'' ''write_tool_refused'' (judge_write_tool env sc c)" for sc c
    by (simp add: judge_write_tool_def Let_def projection_case_def failed_code_def code_oks)
  show ?thesis
    using yields_collect [where f = "result_is ''readonly_projection'' ''write_tool_refused''" and judge = "judge_write_tool env", OF j,
        of h "''projection_write_tool_refused''"]
    by (simp add: yields_def runWriteToolRefusedCase_def Let_def projection_case_def code_oks split: option.split)
qed

lemma valid_json_yields: "yields (result_is ''output_schema'' ''valid_json'') (runValidJsonCase env h)"
  unfolding runValidJsonCase_def
  by (rule yields_collect) (simp add: judge_valid_json_def Let_def output_case_def failed_code_def code_oks)

lemma rejected_yields: "yields (result_is ''output_schema'' (rejection_id k)) (runRejectedTerminalCase k h)"
  unfolding runRejectedTerminalCase_def
  by (rule yields_collect, cases k) (simp_all add: judge_rejected_def Let_def output_case_def rejection_id_def code_oks)

lemma invalid_schema_yields: "yields (result_is ''output_schema'' ''invalid_schema_preflight'') (runInvalidSchemaPreflightCase h)"
  unfolding runInvalidSchemaPreflightCase_def
  by (rule yields_collect) (simp add: judge_invalid_schema_def Let_def output_case_def code_oks)

lemma judge_buffered_is: "result_is ''output_schema'' ''cancel_buffered'' (judge_buffered c)"
  by (simp add: judge_buffered_def Let_def output_case_def code_oks)

lemma buffered_yields: "yields (result_is ''output_schema'' ''cancel_buffered'') (runCancelBufferedCase h)"
  by (simp add: yields_def runCancelBufferedCase_def output_case_def code_oks judge_buffered_is
      split: option.split sum.split prod.split)

definition code_or_none :: "'a \<times> string option \<Rightarrow> bool" where
  "code_or_none x \<longleftrightarrow> (case snd x of None \<Rightarrow> True | Some c \<Rightarrow> code_ok c)"

lemma code_or_none_simps [simp]: "code_or_none (sc, None)" "code_or_none (sc, Some c) = code_ok c"
  by (simp_all add: code_or_none_def)

lemma code_or_none_let: "code_ok code \<Longrightarrow> code_or_none (let (sc1, c) = collectFromIterator sc acc vs e in (sc1, if good c then None else Some code))"
  by (simp split: prod.split)

lemma tree_lifecycle_codes: "code_or_none (tree_lifecycle k f v vs e sc)"
proof -
  have c: "code_ok ''process_tree_lifecycle_violation''" "code_ok ''process_tree_timeout_not_observed''"
    "code_ok ''process_tree_cancel_not_supported''" "code_ok ''process_tree_descendants_unavailable''"
    by (simp_all add: code_oks)
  show ?thesis
    unfolding tree_lifecycle_def Let_def
    by (cases k; cases "tf_cancel f"; cases vs; cases e) (simp_all add: c split: option.split prod.split)
qed

lemma tree_descendants_codes: "code_or_none (tree_descendants k f i v vs e sc)"
  by (simp add: tree_descendants_def Let_def tree_lifecycle_codes code_oks split: sum.split)

lemma tree_run_codes: "code_or_none (tree_run k f i sc)"
  by (simp add: tree_run_def Let_def tree_descendants_codes code_oks split: sum.split list.split option.split)

lemma tree_binding_codes: "code_or_none (tree_binding env k f fp v i sc)"
  by (simp add: tree_binding_def Let_def tree_run_codes code_oks split: sum.split option.split)

lemma tree_outcome_codes: "code_or_none (tree_outcome env k ca fx sc)"
  by (simp add: tree_outcome_def tree_binding_codes code_oks split: option.split)

lemma tree_yields: "yields (result_is ''process_tree_cleanup'' (''descendants_disposed_'' @ scenario_name k)) (runProcessTreeCase env k ca fx)"
proof -
  have c: "code_ok (''descendants_disposed_'' @ scenario_name k @ ''_ok'')" by (cases k) (simp_all add: scenario_name_def code_oks)
  have "result_is ''process_tree_cleanup'' (''descendants_disposed_'' @ scenario_name k)
      (case f of Some code \<Rightarrow> tree_case k False code
       | None \<Rightarrow> (let gone = (case fx of None \<Rightarrow> False | Some f \<Rightarrow> tf_gone f)
           in tree_case k gone (if gone then ''descendants_disposed_'' @ scenario_name k @ ''_ok'' else ''process_tree_descendants_survived'')))"
    if "tree_outcome env k ca fx sc = (sc1, f)" for sc sc1 f
    using tree_outcome_codes [of env k ca fx sc] c that by (cases f) (simp_all add: tree_case_def Let_def code_oks)
  then show ?thesis unfolding yields_def runProcessTreeCase_def by (simp split: prod.split)
qed

definition capability_ok :: "string \<Rightarrow> capability_outcome \<Rightarrow> bool" where
  "capability_ok host ca \<longleftrightarrow> result_is ''capability_negotiation'' ''probe_contract'' (ca_result ca) \<and>
     cr_passed (ca_result ca) = (case ca_probe ca of None \<Rightarrow> False | Some p \<Rightarrow> probeContractValid p host)"

lemma capability_failure_ok: "code_ok code \<Longrightarrow> capability_ok host (capability_failure code)"
  by (simp add: capability_ok_def capability_failure_def capability_case_def) (simp add: caseResult_def)

lemma capability_success_ok:
  "probeContractValid v host = b \<Longrightarrow> code_ok code \<Longrightarrow> capability_ok host \<lparr>ca_result = capability_case b code, ca_probe = Some v,
     ca_fingerprint = x, ca_version = y, ca_identity = z\<rparr>"
  by (simp add: capability_ok_def capability_case_def) (simp add: caseResult_def)

lemma capability_yields: "yields (capability_ok (qh_id h)) (runCapabilityCase env h)"
proof -
  have c: "code_ok ''probe_contract_ok''" "code_ok ''probe_contract_violation''" "code_ok ''probe_unavailable''"
    "code_ok ''qualification_evidence_scan_incomplete''"
    by (simp_all add: code_oks)
  show ?thesis
    unfolding yields_def runCapabilityCase_def Let_def
    by (simp add: capability_failure_ok capability_success_ok c split: sum.split prod.split)
qed

section \<open>Bounded cases in sequence\<close>

lemma bounded_Inr:
  assumes "runBoundedCase fate fallback body sc = (sc1, Inr a)" "yields f body" "\<And>code. code_ok code \<Longrightarrow> f (fallback code)"
  shows "f a"
proof -
  obtain s out where b: "body sc = (s, out)" by (cases "body sc")
  then have "case out of Inl _ \<Rightarrow> True | Inr a \<Rightarrow> f a" using assms(2) by (metis yields_def snd_conv)
  then show ?thesis
    using assms(1,3) by (auto simp: runBoundedCase_def b Let_def split: if_splits sum.splits)
qed

definition keyed :: "(string \<times> string) list \<Rightarrow> case_result list \<Rightarrow> bool" where
  "keyed ks rs \<longleftrightarrow> map (\<lambda>r. (cr_domain r, cr_id r)) rs = ks \<and> list_all (\<lambda>r. code_ok (cr_code r)) rs"

definition step_keyed :: "(string \<times> string) list \<Rightarrow> suite_step \<Rightarrow> bool" where
  "step_keyed ks st \<longleftrightarrow> yields (keyed ks) (snd st) \<and> (\<forall>code. code_ok code \<longrightarrow> keyed ks (fst st code))"

lemma run_steps_Cons:
  assumes "run_steps fates n ((fallback, body) # steps) sc = (sc1, Inr rs)"
  obtains sc2 as bs where "runBoundedCase (fates n) fallback body sc = (sc2, Inr as)"
    "run_steps fates (n + 1) steps sc2 = (sc1, Inr bs)" "rs = as @ bs"
proof -
  obtain sc2 x where x: "runBoundedCase (fates n) fallback body sc = (sc2, x)" by (cases "runBoundedCase (fates n) fallback body sc")
  with assms obtain as where as: "x = Inr as" by (cases x) simp_all
  obtain sc3 y where y: "run_steps fates (n + 1) steps sc2 = (sc3, y)" by (cases "run_steps fates (n + 1) steps sc2")
  with assms x as obtain bs where "y = Inr bs" by (cases y) simp_all
  then show ?thesis using that [of sc2 as bs] assms x as y by simp
qed

lemma run_steps_keyed:
  "list_all2 step_keyed kss steps \<Longrightarrow> run_steps fates n steps sc = (sc1, Inr rs) \<Longrightarrow> keyed (concat kss) rs"
proof (induction steps arbitrary: kss n sc rs)
  case Nil
  then show ?case by (simp add: keyed_def)
next
  case (Cons st steps)
  obtain fallback body where st: "st = (fallback, body)" by (cases st)
  obtain ks kss' where k: "kss = ks # kss'" "step_keyed ks st" "list_all2 step_keyed kss' steps"
    using Cons.prems(1) by (auto simp: list_all2_Cons2)
  obtain sc2 as bs where a: "runBoundedCase (fates n) fallback body sc = (sc2, Inr as)"
    and b: "run_steps fates (n + 1) steps sc2 = (sc1, Inr bs)" "rs = as @ bs"
    by (rule run_steps_Cons [OF Cons.prems(2) [unfolded st]])
  have "keyed ks as" using k(2) by (intro bounded_Inr [OF a, where f = "keyed ks"]) (simp_all add: step_keyed_def st)
  moreover have "keyed (concat kss') bs" by (rule Cons.IH [OF k(3) b(1)])
  ultimately show ?case by (simp add: keyed_def k(1) b(2))
qed

lemma single_step_keyed: "yields (result_is d i) body \<Longrightarrow> step_keyed [(d, i)] (single_step d i body)"
proof -
  assume y: "yields (result_is d i) body"
  have "yields (keyed [(d, i)]) (single body)"
    by (rule yields_mono [OF yields_single [OF y]]) (auto simp: keyed_def result_is_def)
  then show ?thesis by (simp add: step_keyed_def single_step_def keyed_def) (simp add: caseResult_def)
qed

section \<open>The record of a suite\<close>

lemma event_step_keyed:
  "step_keyed [(''native_event_validation'', ''events_well_formed''), (''single_terminal_outcome'', ''exactly_one_terminal'')]
     (\<lambda>code. event_results False code False code, runEventCases h)"
proof -
  have "keyed [(''native_event_validation'', ''events_well_formed''), (''single_terminal_outcome'', ''exactly_one_terminal'')] rs"
    if "list_all2 (\<lambda>p r. result_is (fst p) (snd p) r)
      [(''native_event_validation'', ''events_well_formed''), (''single_terminal_outcome'', ''exactly_one_terminal'')] rs" for rs
    using that by (auto simp: list_all2_Cons1 keyed_def result_is_def)
  then have "yields (keyed [(''native_event_validation'', ''events_well_formed''), (''single_terminal_outcome'', ''exactly_one_terminal'')])
      (runEventCases h)"
    by (rule yields_mono [OF events_yield])
  then show ?thesis by (simp add: step_keyed_def keyed_def event_results_def) (simp add: caseResult_def)
qed

definition suite_keys :: "(string \<times> string) list list" where
  "suite_keys = [(''native_event_validation'', ''events_well_formed''), (''single_terminal_outcome'', ''exactly_one_terminal'')] #
     map (\<lambda>p. [p]) (drop 3 CURRENT_QUALIFICATION_CASE_CONTRACT)"

lemma suite_keys_concat: "(''capability_negotiation'', ''probe_contract'') # concat suite_keys = CURRENT_QUALIFICATION_CASE_CONTRACT"
  by code_simp

lemma suite_keys_unfold:
  "suite_keys = [(''native_event_validation'', ''events_well_formed''), (''single_terminal_outcome'', ''exactly_one_terminal'')] #
     map (\<lambda>p. [p])
     [(''deadline_cancel'', ''cancel_stops_active_run''),
      (''process_tree_cleanup'', ''descendants_disposed_'' @ scenario_name Tree_normal),
      (''process_tree_cleanup'', ''descendants_disposed_'' @ scenario_name Tree_timeout),
      (''process_tree_cleanup'', ''descendants_disposed_'' @ scenario_name Tree_cancel),
      (''credential_boundaries'', ''no_metadata_echo''), denial_key Deny_filesystem, denial_key Deny_network,
      (''tool_mcp_enforcement'', ''tool_allowlist_respected''), denial_key Deny_mcp, (''output_schema'', ''valid_json''),
      (''output_schema'', rejection_id Reject_non_json), (''output_schema'', rejection_id Reject_schema_mismatch),
      (''output_schema'', ''invalid_schema_preflight''), (''output_schema'', ''cancel_buffered''),
      (''output_schema'', rejection_id Reject_secret), (''readonly_projection'', ''read_search_only''),
      (''readonly_projection'', ''write_tool_refused'')]"
  by code_simp

lemma suite_steps_keyed: "list_all2 step_keyed suite_keys (suite_steps env h fixtures ca)"
proof -
  have d: "step_keyed [denial_key k] (single_step (fst (denial_key k)) (snd (denial_key k)) (runDirectDenyCase k h))" for k
    using single_step_keyed [OF denial_yields [of k h]] by simp
  have t: "step_keyed [(''process_tree_cleanup'', ''descendants_disposed_'' @ scenario_name k)]
      (single_step ''process_tree_cleanup'' (''descendants_disposed_'' @ scenario_name k) (runProcessTreeCase env k ca (fixtures k)))" for k
    by (rule single_step_keyed [OF tree_yields])
  have r: "step_keyed [(''output_schema'', rejection_id k)] (single_step ''output_schema'' (rejection_id k) (runRejectedTerminalCase k h))" for k
    by (rule single_step_keyed [OF rejected_yields])
  note d1 = d [of Deny_filesystem, unfolded denial_key_def denial.case fst_conv snd_conv]
    and d2 = d [of Deny_network, unfolded denial_key_def denial.case fst_conv snd_conv]
    and d3 = d [of Deny_mcp, unfolded denial_key_def denial.case fst_conv snd_conv]
    and t' = t [unfolded append_Cons append_Nil]
    and r1 = r [of Reject_non_json, unfolded rejection_id_def rejection.case]
    and r2 = r [of Reject_schema_mismatch, unfolded rejection_id_def rejection.case]
    and r3 = r [of Reject_secret, unfolded rejection_id_def rejection.case]
  show ?thesis
    unfolding suite_keys_unfold suite_steps_def list.map append_Cons append_Nil denial_key_def denial.case rejection_id_def rejection.case
    by (intro list_all2_Cons [THEN iffD2] conjI list.rel_intros(1) event_step_keyed d1 d2 d3 r1 r2 r3 t' single_step_keyed
        cancel_yields credential_yields tools_yield valid_json_yields invalid_schema_yields buffered_yields read_search_yields write_tool_yields)
qed

lemma taint_keyed:
  "keyed ks rs \<Longrightarrow> list_all (\<lambda>p. fst p = ''credential_boundaries'' \<longrightarrow> snd p = ''no_metadata_echo'') ks \<Longrightarrow> code_ok code \<Longrightarrow>
   keyed ks (taint_credentials code rs)"
proof (induction rs arbitrary: ks)
  case (Cons r rs)
  then obtain k ks' where k: "ks = k # ks'" "k = (cr_domain r, cr_id r)" "keyed ks' rs" "code_ok (cr_code r)"
    by (auto simp: keyed_def)
  show ?case
  proof (cases "cr_domain r = ''credential_boundaries''")
    case True
    then show ?thesis using k Cons.prems by (simp add: keyed_def credential_case_def) (simp add: caseResult_def)
  next
    case False
    then show ?thesis using k Cons.prems Cons.IH [OF k(3)] by (simp add: keyed_def)
  qed
qed (simp add: keyed_def)

lemma taint_hd: "rs \<noteq> [] \<Longrightarrow> cr_domain (hd rs) \<noteq> ''credential_boundaries'' \<Longrightarrow> hd (taint_credentials code rs) = hd rs"
  by (cases rs) simp_all

lemma contract_facts:
  "list_all (\<lambda>p. CASE_ID_PATTERN (snd p) \<and> fst p \<in> set QUALIFICATION_DOMAINS \<and>
     expected_domain CURRENT_QUALIFICATION_CASE_CONTRACT (snd p) = Some (fst p) \<and>
     (fst p = ''credential_boundaries'' \<longrightarrow> snd p = ''no_metadata_echo'')) CURRENT_QUALIFICATION_CASE_CONTRACT"
  "distinct (map snd CURRENT_QUALIFICATION_CASE_CONTRACT)"
  "list_all (\<lambda>d. d \<in> set (map fst CURRENT_QUALIFICATION_CASE_CONTRACT)) QUALIFICATION_DOMAINS"
  "length CURRENT_QUALIFICATION_CASE_CONTRACT = 20" "distinct QUALIFICATION_DOMAINS"
  "kit_contract ADAPTER_QUALIFICATION_KIT_VERSION = CURRENT_QUALIFICATION_CASE_CONTRACT"
  "qualificationKitDomains ADAPTER_QUALIFICATION_KIT_VERSION = QUALIFICATION_DOMAINS"
  "ADAPTER_QUALIFICATION_KIT_VERSION \<in> set kit_versions"
  by code_simp+

lemma case_value_get:
  "js_get (case_value r) ''domain'' = JStr (cr_domain r)" "js_get (case_value r) ''id'' = JStr (cr_id r)"
  "js_get (case_value r) ''passed'' = JBool (cr_passed r)" "js_get (case_value r) ''code'' = JStr (cr_code r)"
  "record_of [''domain'', ''id'', ''passed'', ''code''] (case_value r)"
  by (simp_all add: case_value_def record_of_def keys_within_def)

lemma case_value_tests: "in_domain d (case_value r) = (cr_domain r = d)" "case_passed (case_value r) = cr_passed r"
  by (simp_all add: in_domain_def case_passed_def case_value_get)

lemma keyed_cases_ok:
  assumes "list_all (\<lambda>p. CASE_ID_PATTERN (snd p) \<and> fst p \<in> set domains \<and> expected_domain contract (snd p) = Some (fst p)) ks"
  shows "keyed ks rs \<Longrightarrow> distinct (map snd ks) \<Longrightarrow> set (map snd ks) \<inter> set seen = {} \<Longrightarrow>
    cases_ok contract domains seen (map case_value rs)"
  using assms
proof (induction rs arbitrary: ks seen)
  case (Cons r rs)
  then obtain k ks' where k: "ks = k # ks'" "k = (cr_domain r, cr_id r)" "keyed ks' rs" "code_ok (cr_code r)"
    by (auto simp: keyed_def)
  have "cases_ok contract domains (cr_id r # seen) (map case_value rs)"
    using Cons.prems k by (intro Cons.IH [OF k(3)]) auto
  moreover have "CASE_ID_PATTERN (cr_id r)" "cr_domain r \<in> set domains" "expected_domain contract (cr_id r) = Some (cr_domain r)"
    "cr_id r \<notin> set seen"
    using Cons.prems k by auto
  ultimately show ?case
    using k(4) by (simp add: case_shape_def case_value_get one_of_def matches_text_def probe_text_def is_boolean_def code_ok_def Let_def)
qed simp

lemma suite_summary:
  "js_int (js_get (domain_summary rs d) ''passed'') = Some (int (length (filter cr_passed (filter (\<lambda>r. cr_domain r = d) rs))))"
  "js_int (js_get (domain_summary rs d) ''failed'') = Some (int (length (filter (\<lambda>r. \<not> cr_passed r) (filter (\<lambda>r. cr_domain r = d) rs))))"
  "domain_counts (domain_summary rs d)"
proof -
  have n: "js_int (JNum (of_nat n)) = Some (int n)" for n using js_int_of_int [of "int n"] by simp
  show "js_int (js_get (domain_summary rs d) ''passed'') = Some (int (length (filter cr_passed (filter (\<lambda>r. cr_domain r = d) rs))))"
    "js_int (js_get (domain_summary rs d) ''failed'') = Some (int (length (filter (\<lambda>r. \<not> cr_passed r) (filter (\<lambda>r. cr_domain r = d) rs))))"
    by (simp_all add: domain_summary_def Let_def n del: js_int.simps filter_filter)
  show "domain_counts (domain_summary rs d)"
    by (simp add: domain_counts_def domain_summary_def Let_def record_of_def keys_within_def count_ok_def n del: js_int.simps filter_filter)
qed

lemma suite_summary_matches:
  assumes "js_get domains d = domain_summary rs d"
  shows "summary_matches domains (map case_value rs) d"
proof -
  let ?own = "filter (\<lambda>r. cr_domain r = d) rs"
  have own: "filter (in_domain d) (map case_value rs) = map case_value ?own"
    by (simp add: filter_map comp_def case_value_tests)
  have p: "length (filter case_passed (map case_value ?own)) = length (filter cr_passed ?own)"
    by (simp add: filter_map comp_def case_value_tests del: filter_filter)
  have "int (length ?own) - int (length (filter cr_passed ?own)) = int (length (filter (\<lambda>r. \<not> cr_passed r) ?own))"
    using sum_length_filter_compl [of cr_passed ?own] by linarith
  then show ?thesis
    unfolding summary_matches_def Let_def own p assms suite_summary length_map by simp
qed

lemma suite_cases:
  assumes "keyed CURRENT_QUALIFICATION_CASE_CONTRACT rs"
    and "\<And>d. d \<in> set QUALIFICATION_DOMAINS \<Longrightarrow> js_get domains d = domain_summary rs d"
  shows "record_cases ADAPTER_QUALIFICATION_KIT_VERSION domains (map case_value rs)"
proof -
  have k: "map (\<lambda>r. (cr_domain r, cr_id r)) rs = CURRENT_QUALIFICATION_CASE_CONTRACT" using assms(1) by (simp add: keyed_def)
  then have l: "length rs = 20" using contract_facts(4) by (metis length_map)
  have c: "cases_ok CURRENT_QUALIFICATION_CASE_CONTRACT QUALIFICATION_DOMAINS [] (map case_value rs)"
    using contract_facts(1) by (intro keyed_cases_ok [OF _ assms(1) contract_facts(2)]) (auto simp: list_all_iff)
  have d: "list_ex (in_domain d) (map case_value rs)" if d: "d \<in> set QUALIFICATION_DOMAINS" for d
  proof -
    have "d \<in> set (map fst (map (\<lambda>r. (cr_domain r, cr_id r)) rs))" using contract_facts(3) d unfolding k list_all_iff by blast
    then show ?thesis by (auto simp: list_ex_iff case_value_tests)
  qed
  show ?thesis
    unfolding record_cases_def contract_facts(6,7) length_map l contract_facts(4)
    using c d suite_summary_matches [OF assms(2)] l by (auto simp: list_all_iff)
qed

lemma suite_probe_passed:
  assumes "keyed CURRENT_QUALIFICATION_CASE_CONTRACT rs"
  shows "probe_passed (map case_value rs) = cr_passed (hd rs)" "rs \<noteq> []" "cr_domain (hd rs) = ''capability_negotiation''"
proof -
  have k: "map (\<lambda>r. (cr_domain r, cr_id r)) rs = (''capability_negotiation'', ''probe_contract'') # concat suite_keys"
    using assms by (simp add: keyed_def suite_keys_concat)
  then obtain r rs' where r: "rs = r # rs'" "cr_domain r = ''capability_negotiation''" "cr_id r = ''probe_contract''" by (cases rs) auto
  then show "probe_passed (map case_value rs) = cr_passed (hd rs)" "rs \<noteq> []" "cr_domain (hd rs) = ''capability_negotiation''"
    by (simp_all add: probe_passed_def case_value_get case_value_tests)
qed

lemma domains_get:
  "d \<in> set ds \<Longrightarrow> distinct ds \<Longrightarrow> js_get (JObj (map (\<lambda>d. (d, f d)) ds)) d = f d"
  by (induction ds) auto

lemma suite_record_fields:
  "js_get (suite_record env h opts probe rs) ''hostId'' = JStr (qh_id h)"
  "js_get (suite_record env h opts probe rs) ''hostVersion'' = (case probe of None \<Rightarrow> JStr ''unknown'' | Some p \<Rightarrow> js_get p ''version'')"
  "js_get (suite_record env h opts probe rs) ''kitVersion'' = JStr ADAPTER_QUALIFICATION_KIT_VERSION"
  "js_get (suite_record env h opts probe rs) ''schema'' = JStr ADAPTER_QUALIFICATION_SCHEMA_ID"
  "js_get (suite_record env h opts probe rs) ''policyDigest'' = JStr (canonicalPolicyDigest env default_policy)"
  "js_get (suite_record env h opts probe rs) ''generatedAt'' = JStr (so_generated opts)"
  "js_get (suite_record env h opts probe rs) ''domains'' = JObj (map (\<lambda>d. (d, domain_summary rs d)) QUALIFICATION_DOMAINS)"
  "js_get (suite_record env h opts probe rs) ''cases'' = JArr (map case_value rs)"
  "js_get (suite_record env h opts probe rs) ''liveEvidence'' = (case so_live opts of None \<Rightarrow> JUndef | Some l \<Rightarrow> live_value l)"
  "record_of record_keys (suite_record env h opts probe rs)"
  by (simp_all add: suite_record_def Let_def opt_pair_def record_of_def keys_within_def record_keys_def split: option.split)

lemma suite_record_axes:
  assumes "implemented = (case probe of None \<Rightarrow> False | Some p \<Rightarrow> probeContractValid p (qh_id h))"
  shows "js_get (suite_record env h opts probe rs) ''axes'' =
    JObj [(''implemented'', JBool implemented), (''fixtureConformant'', JBool (implemented \<and> list_all cr_passed rs)),
      (''liveQualified'', JBool (so_live opts \<noteq> None))]"
  by (simp add: suite_record_def Let_def assms)

lemma suite_record_ok:
  assumes "keyed CURRENT_QUALIFICATION_CASE_CONTRACT rs" "HOST_ID_PATTERN (qh_id h)" "ISO_PATTERN (so_generated opts)"
    and "cr_passed (hd rs) = (case probe of None \<Rightarrow> False | Some p \<Rightarrow> probeContractValid p (qh_id h))"
    and "case probe of None \<Rightarrow> True | Some p \<Rightarrow> validHostVersion (js_get p ''version'')"
    and "case so_live opts of None \<Rightarrow> True | Some l \<Rightarrow> ENVIRONMENT_ID_PATTERN (fst l) \<and> HEX_64_PATTERN (snd l)"
    and "HEX_64_PATTERN (canonicalPolicyDigest env default_policy)"
  shows "record_ok (suite_record env h opts probe rs)"
proof -
  let ?r = "suite_record env h opts probe rs"
  note f = suite_record_fields [of env h opts probe rs] and a = suite_record_axes [OF assms(4), of env opts rs]
  have tx: "matches_text g (JStr s) = g s" for g s by (simp add: matches_text_def)
  have "validHostVersion (JStr ''unknown'')" by (simp add: validHostVersion_def tx)
  then have "validHostVersion (case probe of None \<Rightarrow> JStr ''unknown'' | Some p \<Rightarrow> js_get p ''version'')"
    using assms(5) by (cases probe) simp_all
  then have head: "record_head ?r"
    using assms(2,3,7) contract_facts(8) unfolding record_head_def f(1-6) tx by (simp add: one_of_def f(10))
  have live: "absent_or live_evidence (case so_live opts of None \<Rightarrow> JUndef | Some l \<Rightarrow> live_value l)"
    using assms(6) by (cases "so_live opts") (simp_all add: absent_or_def live_evidence_def live_value_def record_of_def keys_within_def tx)
  have "axes_consistent (js_get ?r ''axes'') (js_get ?r ''liveEvidence'')"
    using live unfolding axes_consistent_def a f
    by (cases "so_live opts")
      (simp_all add: axes_shape_def axis_def record_of_def keys_within_def is_boolean_def live_value_def)
  moreover have "domains_shape QUALIFICATION_DOMAINS (js_get ?r ''domains'')"
    unfolding f domains_shape_def list_all_iff
  proof (intro conjI ballI)
    show "domain_counts (js_get (JObj (map (\<lambda>d. (d, domain_summary rs d)) QUALIFICATION_DOMAINS)) d)" if "d \<in> set QUALIFICATION_DOMAINS" for d
      unfolding domains_get [OF that contract_facts(5)] by (rule suite_summary(3))
  qed (auto simp: comp_def)
  moreover have "record_cases ADAPTER_QUALIFICATION_KIT_VERSION (js_get ?r ''domains'') (map case_value rs)"
    unfolding f by (rule suite_cases [OF assms(1) domains_get [OF _ contract_facts(5)]])
  moreover have "axes_derived (js_get ?r ''axes'') (map case_value rs) (js_get ?r ''liveEvidence'')"
    unfolding axes_derived_def a f suite_probe_passed(1) [OF assms(1)]
    by (cases "so_live opts") (simp_all add: axis_def live_value_def list_all_iff case_value_tests)
  ultimately show ?thesis
    using head unfolding record_ok_def by (simp add: f(3,8) probe_text_def contract_facts(7) Let_def)
qed

section \<open>The guarantees\<close>

lemma final_cases_keyed:
  assumes "keyed CURRENT_QUALIFICATION_CASE_CONTRACT rs"
  shows "keyed CURRENT_QUALIFICATION_CASE_CONTRACT (final_cases sc rs)" "hd (final_cases sc rs) = hd rs"
proof -
  have c: "list_all (\<lambda>p. fst p = ''credential_boundaries'' \<longrightarrow> snd p = ''no_metadata_echo'') CURRENT_QUALIFICATION_CASE_CONTRACT"
    using contract_facts(1) by (simp add: list_all_iff)
  have k: "code_ok ''metadata_secret_echoed''" "code_ok ''metadata_secret_scan_incomplete''" by (simp_all add: code_oks)
  show "keyed CURRENT_QUALIFICATION_CASE_CONTRACT (final_cases sc rs)"
    using assms taint_keyed [OF assms c k(1)] taint_keyed [OF assms c k(2)] by (cases sc) (simp_all add: final_cases_def)
  have "cr_domain (hd rs) \<noteq> ''credential_boundaries''" using suite_probe_passed(3) [OF assms] by simp
  then show "hd (final_cases sc rs) = hd rs"
    using taint_hd [OF suite_probe_passed(2) [OF assms]] by (cases sc) (simp_all add: final_cases_def)
qed

text \<open>The ways the suite can end without a record; a record its own validator refuses is none of them.\<close>

definition suite_errors :: "string list" where
  "suite_errors = [''INVALID_QUALIFICATION_HOST_ID'', ''INVALID_QUALIFICATION_TIMESTAMP'', ''INVALID_QUALIFICATION_CASE_TIMEOUT'',
     ''QUALIFICATION_CLEANUP_TIMEOUT'', ''INVALID_QUALIFICATION_HOST_VERSION'', ''INVALID_QUALIFICATION_LIVE_EVIDENCE'',
     ''QUALIFICATION_EVIDENCE_SECRET_DETECTED'', ''QUALIFICATION_EVIDENCE_SCAN_INCOMPLETE'']"

definition suite_result_ok :: "string + jsval \<Rightarrow> bool" where
  "suite_result_ok r = (case r of
      Inl e \<Rightarrow> e \<in> set suite_errors
    | Inr record \<Rightarrow> validateAdapterQualificationRecord record = Inr record)"

lemma finish_suite_record:
  assumes "record_ok (suite_record env h opts probe rs)"
  shows "suite_result_ok (finish_suite env h opts probe rs)"
proof -
  let ?r = "suite_record env h opts probe rs"
  have v: "validateAdapterQualificationRecord ?r = scanned ?r (Inr ?r)"
    using assms by (simp add: validateAdapterQualificationRecord_def ensure_def)
  have "suite_result_ok (scanned ?r (and_then (validateAdapterQualificationRecord ?r) (\<lambda>_. Inr ?r)))"
    using v by (simp add: suite_result_ok_def suite_errors_def scanned_def split: scan_state.split)
  moreover have "suite_result_ok (ensure c e k)" if "e \<in> set suite_errors" "suite_result_ok k" for c e k
    using that by (simp add: ensure_def suite_result_ok_def)
  moreover have "''INVALID_QUALIFICATION_HOST_VERSION'' \<in> set suite_errors" "''INVALID_QUALIFICATION_LIVE_EVIDENCE'' \<in> set suite_errors"
    by (simp_all add: suite_errors_def)
  ultimately show ?thesis unfolding finish_suite_def Let_def by blast
qed

lemma suite_error_codes:
  "runBoundedCase fate fallback body sc = (sc1, Inl e) \<Longrightarrow> e = ''QUALIFICATION_CLEANUP_TIMEOUT''"
  "run_steps fates n steps sc = (sc1, Inl e) \<Longrightarrow> e = ''QUALIFICATION_CLEANUP_TIMEOUT''"
proof -
  show b: "e = ''QUALIFICATION_CLEANUP_TIMEOUT''" if "runBoundedCase fate fallback body sc = (sc1, Inl e)"
    for fate and fallback :: "string \<Rightarrow> 'b" and body sc sc1 e
    using that by (cases "body sc") (simp add: runBoundedCase_def Let_def split: if_splits)
  show "run_steps fates n steps sc = (sc1, Inl e) \<Longrightarrow> e = ''QUALIFICATION_CLEANUP_TIMEOUT''"
  proof (induction steps arbitrary: n sc)
    case (Cons st steps)
    obtain fallback body where st: "st = (fallback, body)" by (cases st)
    obtain sc2 x where x: "runBoundedCase (fates n) fallback body sc = (sc2, x)" by (cases "runBoundedCase (fates n) fallback body sc")
    show ?case
    proof (cases x)
      case (Inl d)
      have "d = ''QUALIFICATION_CLEANUP_TIMEOUT''"
        using x Inl by (cases "body sc") (simp add: runBoundedCase_def Let_def split: if_splits)
      then show ?thesis using Cons.prems st x Inl by simp
    next
      case (Inr as)
      obtain sc3 y where y: "run_steps fates (n + 1) steps sc2 = (sc3, y)" by (cases "run_steps fates (n + 1) steps sc2")
      then show ?thesis using Cons.prems Cons.IH st x Inr by (cases y) simp_all
    qed
  qed simp
qed

text \<open>What the suite made its record of: all the cases, in the order of the contract, and the probe that decided the first.\<close>

lemma suite_outcome:
  assumes "runQualificationSuite env h opts fates = r"
  obtains (refused) "r \<in> Inl ` {''INVALID_QUALIFICATION_HOST_ID'', ''INVALID_QUALIFICATION_TIMESTAMP'',
      ''INVALID_QUALIFICATION_CASE_TIMEOUT'', ''QUALIFICATION_CLEANUP_TIMEOUT''}"
  | (finished) capability sc0 sc1 rs where "HOST_ID_PATTERN (qh_id h)" "ISO_PATTERN (so_generated opts)"
      "capability_ok (qh_id h) capability"
      "run_steps fates 1 (suite_steps env h (so_fixtures opts) capability) sc0 = (sc1, Inr rs)"
      "keyed CURRENT_QUALIFICATION_CASE_CONTRACT (ca_result capability # rs)"
      "r = finish_suite env h opts (ca_probe capability) (final_cases sc1 (ca_result capability # rs))"
proof (cases "HOST_ID_PATTERN (qh_id h) \<and> ISO_PATTERN (so_generated opts) \<and> valid_timeout (so_timeout opts)")
  case True
  obtain sc0 x where x: "runBoundedCase (fates 0) capability_failure (runCapabilityCase env h) Scan_clean = (sc0, x)"
    by (cases "runBoundedCase (fates 0) capability_failure (runCapabilityCase env h) Scan_clean")
  show ?thesis
  proof (cases x)
    case (Inl e)
    then have "r = Inl ''QUALIFICATION_CLEANUP_TIMEOUT''"
      using assms True x suite_error_codes(1) [of "fates 0" capability_failure] by (simp add: runQualificationSuite_def)
    then show ?thesis by (intro refused) simp
  next
    case (Inr capability)
    have c: "capability_ok (qh_id h) capability"
      by (rule bounded_Inr [OF x [unfolded Inr] capability_yields capability_failure_ok])
    obtain sc1 y where y: "run_steps fates 1 (suite_steps env h (so_fixtures opts) capability) sc0 = (sc1, y)"
      by (cases "run_steps fates 1 (suite_steps env h (so_fixtures opts) capability) sc0")
    show ?thesis
    proof (cases y)
      case (Inl e)
      then have "r = Inl ''QUALIFICATION_CLEANUP_TIMEOUT''"
        using assms True x \<open>x = Inr capability\<close> y suite_error_codes(2) by (simp add: runQualificationSuite_def)
      then show ?thesis by (intro refused) simp
    next
      case (Inr rs)
      have "keyed (concat suite_keys) rs" by (rule run_steps_keyed [OF suite_steps_keyed y [unfolded Inr]])
      then have "keyed CURRENT_QUALIFICATION_CASE_CONTRACT (ca_result capability # rs)"
        using c unfolding suite_keys_concat [symmetric] by (simp add: keyed_def capability_ok_def result_is_def)
      then show ?thesis
        using assms [symmetric] True x \<open>x = Inr capability\<close> y Inr c by (intro finished) (simp_all add: runQualificationSuite_def)
    qed
  qed
next
  case False
  then have "r \<in> Inl ` {''INVALID_QUALIFICATION_HOST_ID'', ''INVALID_QUALIFICATION_TIMESTAMP'', ''INVALID_QUALIFICATION_CASE_TIMEOUT''}"
    unfolding assms [symmetric] runQualificationSuite_def ensure_def
    by (cases "HOST_ID_PATTERN (qh_id h)"; cases "ISO_PATTERN (so_generated opts)") simp_all
  then show ?thesis by (intro refused) blast
qed

text \<open>A case that passed was really carried out and judged: no fallback passes.\<close>

lemma bounded_passed:
  assumes "runBoundedCase fate fallback body sc = (sc1, Inr rs)" "list_all cr_passed rs" "\<And>code. \<not> list_all cr_passed (fallback code)"
  shows "snd (body sc) = Inr rs"
  using assms by (cases "body sc"; cases "snd (body sc)") (auto simp: runBoundedCase_def Let_def split: if_splits)

lemma run_steps_passed:
  "run_steps fates n steps sc = (sc1, Inr rs) \<Longrightarrow> list_all cr_passed rs \<Longrightarrow>
   list_all (\<lambda>st. \<forall>code. \<not> list_all cr_passed (fst st code)) steps \<Longrightarrow>
   (fallback, body) \<in> set steps \<Longrightarrow> \<exists>sc2 rs2. snd (body sc2) = Inr rs2 \<and> list_all cr_passed rs2"
proof (induction steps arbitrary: n sc rs)
  case (Cons st steps)
  obtain fb bd where st: "st = (fb, bd)" by (cases st)
  obtain sc2 x where x: "runBoundedCase (fates n) fb bd sc = (sc2, x)" by (cases "runBoundedCase (fates n) fb bd sc")
  obtain as where a: "x = Inr as" using Cons.prems(1) st x by (cases x) simp_all
  obtain sc3 y where y: "run_steps fates (n + 1) steps sc2 = (sc3, y)" by (cases "run_steps fates (n + 1) steps sc2")
  obtain bs where b: "run_steps fates (n + 1) steps sc2 = (sc1, Inr bs)" "rs = as @ bs"
    using Cons.prems(1) st x a y by (cases y) simp_all
  have p: "list_all cr_passed as" "list_all cr_passed bs" using Cons.prems(2) b(2) by simp_all
  show ?case
  proof (cases "(fallback, body) = st")
    case True
    have "snd (bd sc) = Inr as"
      using Cons.prems(3) st by (intro bounded_passed [OF x [unfolded a] p(1)]) simp
    then show ?thesis using True st p(1) by blast
  next
    case False
    then show ?thesis using Cons.IH [OF b(1) p(2)] Cons.prems(3,4) by simp
  qed
qed simp

lemma suite_fallbacks_fail:
  "list_all (\<lambda>st. \<forall>code. \<not> list_all cr_passed (fst st code)) (suite_steps env h fixtures capability)"
  by (simp add: suite_steps_def single_step_def event_results_def caseResult_def)

lemma single_passed:
  assumes "snd (single body sc) = Inr rs" "list_all cr_passed rs"
  obtains r where "snd (body sc) = Inr r" "cr_passed r"
  using assms by (cases "body sc"; cases "snd (body sc)") (auto simp: single_def)

lemma collected_in_full:
  "collectFromIterator sc acc vs e = (sc1, c) \<Longrightarrow> \<not> co_failed c \<Longrightarrow> length acc \<le> event_limit \<Longrightarrow>
   co_events c = acc @ vs \<and> e = None \<and> length (acc @ vs) \<le> event_limit"
proof (induction vs arbitrary: sc acc)
  case Nil
  then show ?case by (cases e) auto
next
  case (Cons v vs)
  show ?case
  proof (cases "observe v sc = Scan_incomplete \<or> length (acc @ [v]) > event_limit")
    case True
    then show ?thesis using Cons.prems by (auto simp: Let_def split: if_splits)
  next
    case False
    then have "collectFromIterator (observe v sc) (acc @ [v]) vs e = (sc1, c)" using Cons.prems(1) by (simp add: Let_def)
    then show ?thesis using Cons.IH Cons.prems(2) False by fastforce
  qed
qed

definition stream_satisfies :: "(jsval list \<Rightarrow> bool) \<Rightarrow> thrown + host_stream \<Rightarrow> bool" where
  "stream_satisfies f r = (case r of Inl _ \<Rightarrow> False
     | Inr st \<Rightarrow> hs_thrown st = None \<and> length (hs_events st) \<le> event_limit \<and> f (hs_events st))"

lemma collect_passed:
  assumes "snd (collectEvents h caseId judge sc) = Inr r" "\<And>sc1 c. good (judge sc1 c) \<Longrightarrow> \<not> co_failed c \<and> f (co_events c)" "good r"
  shows "stream_satisfies f (qh_run h (run_id caseId))"
proof (cases "qh_run h (run_id caseId)")
  case (Inr st)
  obtain sc1 c where c: "collectFromIterator sc [] (hs_events st) (hs_thrown st) = (sc1, c)"
    by (cases "collectFromIterator sc [] (hs_events st) (hs_thrown st)")
  have "good (judge sc1 c)" using assms(1,3) Inr c by (simp add: collectEvents_def)
  then have "\<not> co_failed c" "f (co_events c)" using assms(2) by blast+
  then show ?thesis using collected_in_full [OF c] Inr by (simp add: stream_satisfies_def)
qed (use assms(1) in \<open>simp add: collectEvents_def\<close>)

text \<open>What a conformant adapter has shown: it refuses the three denied policies, in its preflight or as the outcome of the run, and its
  event stream is well formed, with one terminal event at its end.\<close>

definition denial_refused :: "qualified_host \<Rightarrow> denial \<Rightarrow> bool" where
  "denial_refused h k = (let run = run_id (denial_kind k @ ''_deny'')
     in case qh_preflight h run of
          Some t \<Rightarrow> qualificationPolicyDenialMatches t (denial_code k)
        | None \<Rightarrow> stream_satisfies (denied_stream (denial_code k)) (qh_run h run))"

definition stream_valid :: "qualified_host \<Rightarrow> bool" where
  "stream_valid h = stream_satisfies (\<lambda>es. list_all (well_formed_event (run_id ''event_stream'')) es \<and> length (terminals es) = 1 \<and>
     ends_terminally es) (qh_run h (run_id ''event_stream''))"

lemma denial_earned:
  assumes "snd (runDirectDenyCase k h sc) = Inr r" "cr_passed r"
  shows "denial_refused h k"
proof (cases "qh_preflight h (run_id (denial_kind k @ ''_deny''))")
  case None
  have "cr_passed (judge_denial k sc1 c) \<Longrightarrow> \<not> co_failed c \<and> denied_stream (denial_code k) (co_events c)" for sc1 c
    by (simp add: judge_denial_def denial_case_def caseResult_def Let_def split: if_splits)
  moreover have "snd (collectEvents h (denial_kind k @ ''_deny'') (judge_denial k) sc) = Inr r"
    using assms(1) None by (simp add: runDirectDenyCase_def)
  ultimately have "stream_satisfies (denied_stream (denial_code k)) (qh_run h (run_id (denial_kind k @ ''_deny'')))"
    using assms(2) by (intro collect_passed [where good = cr_passed])
  then show ?thesis using None by (simp add: denial_refused_def)
next
  case (Some t)
  then show ?thesis
    using assms by (auto simp: runDirectDenyCase_def denial_refused_def Let_def denial_case_def caseResult_def)
qed

lemma stream_earned:
  assumes "snd (runEventCases h sc) = Inr rs" "list_all cr_passed rs"
  shows "stream_valid h"
proof -
  have "list_all cr_passed (judge_events sc1 c) \<Longrightarrow> \<not> co_failed c \<and>
      (list_all (well_formed_event (run_id ''event_stream'')) (co_events c) \<and> length (terminals (co_events c)) = 1 \<and>
       ends_terminally (co_events c))" for sc1 c
    by (simp add: judge_events_def event_results_def caseResult_def Let_def split: if_splits)
  then show ?thesis
    unfolding stream_valid_def using assms by (intro collect_passed [where good = "list_all cr_passed"]) (simp_all add: runEventCases_def)
qed

lemma taint_passed: "list_all cr_passed (taint_credentials code rs) \<Longrightarrow> list_all cr_passed rs"
  by (induction rs) (auto simp: credential_case_def caseResult_def split: if_splits)

lemma final_passed: "list_all cr_passed (final_cases sc rs) \<Longrightarrow> list_all cr_passed rs"
  by (cases sc) (auto simp: final_cases_def intro: taint_passed)

lemma finish_suite_Inr:
  assumes "finish_suite env h opts probe rs = Inr r"
  shows "r = suite_record env h opts probe rs"
  using assms unfolding finish_suite_def Let_def ensure_Inr
  by (auto simp: scanned_def and_then_Inr split: scan_state.splits)

lemma conformance_axis:
  "axis (js_get (suite_record env h opts probe rs) ''axes'') ''fixtureConformant'' \<Longrightarrow> list_all cr_passed rs"
  by (simp add: suite_record_def Let_def axis_def)

text \<open>C39: With digests of 64 hexadecimal digits, the suite, whatever the adapter does, ends with a record that the validator accepts, or
  with one of eight named errors: bad options, a cleanup that never settles, a reported version or live evidence of the wrong form,
  or evidence that holds the credential sentinel or is too large to scan. It never ends because a record it built is malformed.\<close>

theorem suite_records_are_valid:
  assumes "HEX_64_PATTERN (canonicalPolicyDigest env default_policy)"
  shows "suite_result_ok (runQualificationSuite env h opts fates)"
proof -
  obtain r where r: "runQualificationSuite env h opts fates = r" by blast
  then have "suite_result_ok r"
  proof (cases rule: suite_outcome)
    case (finished capability sc0 sc1 rs)
    let ?rs = "final_cases sc1 (ca_result capability # rs)" and ?p = "ca_probe capability"
    note k = final_cases_keyed [OF finished(5), of sc1]
    show ?thesis
    proof (cases "(case ?p of None \<Rightarrow> True | Some p \<Rightarrow> validHostVersion (js_get p ''version'')) \<and>
        (case so_live opts of None \<Rightarrow> True | Some l \<Rightarrow> ENVIRONMENT_ID_PATTERN (fst l) \<and> HEX_64_PATTERN (snd l))")
      case True
      have "cr_passed (hd ?rs) = (case ?p of None \<Rightarrow> False | Some p \<Rightarrow> probeContractValid p (qh_id h))"
        using finished(3) k(2) by (simp add: capability_ok_def)
      then have "record_ok (suite_record env h opts ?p ?rs)"
        using True assms finished(1,2) by (intro suite_record_ok [OF k(1)]) simp_all
      then show ?thesis unfolding finished(6) by (rule finish_suite_record)
    next
      case False
      then show ?thesis unfolding finished(6)
        by (auto simp: finish_suite_def ensure_def suite_result_ok_def suite_errors_def)
    qed
  qed (auto simp: suite_result_ok_def suite_errors_def)
  then show ?thesis using r by simp
qed

text \<open>An adapter that cannot be reached: every case fails, and the record that says so is accepted.\<close>

definition unreachable :: thrown where
  "unreachable = \<lparr>th_value = JNull, th_core = False, th_code = [], th_retryable = False, th_details = JUndef\<rparr>"

definition sample_host :: qualified_host where
  "sample_host = \<lparr>qh_id = ''echo'', qh_probe = Inl unreachable, qh_identity = None, qh_preflight = (\<lambda>_. None),
     qh_run = (\<lambda>_. Inl unreachable), qh_cancel = None\<rparr>"

definition digest_env :: qualification_env where
  "digest_env = \<lparr>qe_hash = (\<lambda>_. replicate 64 CHR ''a''), qe_fraction = (\<lambda>_. []), qe_stringify = (\<lambda>_. None), qe_parse = (\<lambda>_. None),
     qe_type_error = unreachable\<rparr>"

definition sample_options :: suite_options where
  "sample_options = \<lparr>so_generated = ''2026-01-02T03:04:05Z'', so_timeout = JUndef, so_live = None, so_fixtures = (\<lambda>_. None)\<rparr>"

definition calm :: "nat \<Rightarrow> case_fate" where
  "calm n = \<lparr>fa_stuck = False, fa_cleanup_errors = [], fa_timed_out = False\<rparr>"

lemma digest_env_hex: "HEX_64_PATTERN (canonicalPolicyDigest digest_env default_policy)"
  by (simp add: canonicalPolicyDigest_def digest_env_def HEX_64_PATTERN_def is_hex_def is_digit_def list_all_iff)

theorem suite_records_are_valid_witness:
  "suite_result_ok (runQualificationSuite digest_env sample_host sample_options calm)"
  by (rule suite_records_are_valid [OF digest_env_hex])

text \<open>C40: A record that says an adapter conforms was earned: the adapter refused the policies that deny writing, the network and the
  tool servers, and its event stream was well formed with one terminal event at its end.\<close>

theorem conformance_is_earned:
  "case runQualificationSuite env h opts fates of
     Inl e \<Rightarrow> True
   | Inr r \<Rightarrow> if axis (js_get r ''axes'') ''fixtureConformant''
       then list_all (denial_refused h) [Deny_filesystem, Deny_network, Deny_mcp] \<and> stream_valid h else True"
proof (cases "runQualificationSuite env h opts fates")
  case (Inr r)
  show ?thesis
  proof (cases "axis (js_get r ''axes'') ''fixtureConformant''")
    case conformant: True
    have "list_all (denial_refused h) [Deny_filesystem, Deny_network, Deny_mcp] \<and> stream_valid h"
      using Inr
    proof (cases rule: suite_outcome)
      case (finished capability sc0 sc1 rs)
      have "r = suite_record env h opts (ca_probe capability) (final_cases sc1 (ca_result capability # rs))"
        using finished(6) by (intro finish_suite_Inr) simp
      then have "list_all cr_passed rs" using conformant conformance_axis final_passed by fastforce
      note passed = run_steps_passed [OF finished(4) this suite_fallbacks_fail]
      have "denial_refused h k" if "single_step d i (runDirectDenyCase k h) \<in> set (suite_steps env h (so_fixtures opts) capability)" for d i k
        using passed [OF that [unfolded single_step_def]] by (auto elim!: single_passed intro: denial_earned)
      moreover have "stream_valid h"
        using passed [of "\<lambda>code. event_results False code False code" "runEventCases h"]
        by (auto simp: suite_steps_def intro: stream_earned)
      ultimately show ?thesis unfolding suite_steps_def by simp blast
    qed auto
    then show ?thesis using Inr by simp
  qed (use Inr in simp)
qed simp

end
