(* ===== verification/Spec2Isabelle.thy ===== *)
theory Spec2Isabelle
  imports OrgModel TurnSafety TurnEvidence Delegation WriteApproval DurableStore TaskIntake RunnerSealing RunnerLease RunnerLifecycle
    MemHttp DigitalEmployee Retrieval ArchiveLifecycle AgentHostRegistry HireRequest QualificationLaws
begin

text \<open>
  Digital employees: the governed core of the repository, modelled and verified.

  The program runs \<open>turns\<close> of digital employees. Employees come as packages; an owner hires them into an organization, a
  directory tree that is applied to an organization document (apps/cli/org), from which a permission table is derived. The engine
  (packages/engine) runs one turn under those permissions, under budgets and behind an approval gate, and records evidence of how it
  ended; a task can be delegated to a direct report. A remote runner receives signed tasks under a lease, and what it reports is
  bound to its task by signatures and digests. The core package (packages/core) holds the contracts of all of this, the answer loop
  of an employee with its sessions, its queue and its FAQ store, and the suite that qualifies the adapters of agent hosts.

  Foundations:

  \<^item> \<open>Prelude\<close>: JavaScript values, strings and patterns, fallible steps (\<open>and_then\<close>, \<open>ensure\<close>), and the
    locales \<open>op_machine\<close> (a state with operations and an invariant) and \<open>mono_machine\<close> (one whose
    operations climb a preorder), from which the results about all reachable states are obtained.
  \<^item> \<open>JsMap\<close>: the language's \<open>Map\<close> behind the locale \<open>keyed_store\<close>, and plain objects used as dictionaries.
  \<^item> \<open>JsonText\<close>: the canonical JSON text that is signed and hashed, and its injectivity.

  The engine (packages/engine/src):

  \<^item> \<open>Budget\<close>, \<open>DoomLoop\<close>, \<open>Escalation\<close>, \<open>Freshness\<close>, \<open>Assembler\<close>: budget.ts, doom-loop.ts, escalation.ts,
    context-freshness.ts, context-assembler.ts.
  \<^item> \<open>OrgPermissions\<close>: org-permissions.ts: tool and context decisions, the per-turn gate (an
    interpretation of \<open>mono_machine\<close>), the artifact validator and its round trip.
  \<^item> \<open>TurnContract\<close>, \<open>TurnExecutor\<close>, \<open>TurnSafety\<close>: contracts.ts, approval.ts, output-schema-guard.ts and
    turn-executor.ts. The asynchronous generator \<open>executeTurn\<close> is a function from an environment of
    oracles (model, ports, ledger, sinks, clocks) and a request to the trace of its effects and its
    exit. Each part of the generator is a stage on a state that carries the trace; a stage goes on or
    halts. \<open>TurnSafety\<close> states the contract of the trace as a predicate on each effect and the trace before
    it (\<open>allowed\<close>, \<open>legal\<close>), proves it stage by stage, and derives the properties from it.
  \<^item> \<open>TurnEvidence\<close>: turn-evidence.ts: the conformance check of the record of a turn, and that the executor's records pass it.
  \<^item> \<open>Delegation\<close>: delegation.ts: envelopes, scopes, history and admission (an \<open>op_machine\<close>), routes, and
    the event stream of one delegation.

  Organizations (apps/cli/org and packages/core/src):

  \<^item> \<open>OrgDocument\<close>, \<open>OrgDerivation\<close>: budget.ts and permissions.ts: documents, reporting lines, derived permissions.
  \<^item> \<open>PositionConnectors\<close>, \<open>OrgModel\<close>: position-connectors.ts and model.ts: the scan of the directory tree, the difference to the
    current organization, applying it with its writes in order, and the reporting tree.
  \<^item> \<open>HireRequest\<close>: hire-request.ts, and that the engine and the organization read its budget alike.
  \<^item> \<open>EmployeePackage\<close>, \<open>PackageLaws\<close>: employee-package.ts and agent-host.ts: the manifest, the policy derived from it, the check of a
    host, and what an accepted manifest holds.
  \<^item> \<open>EmployeeArchive\<close>, \<open>ArchiveLaws\<close>, \<open>ArchiveLifecycle\<close>: employee-package-digest.ts, employee-package-compat.ts and
    employee-package-archive.ts: the digest, the archive format, verification, and installing, upgrading and rolling back over the
    locale \<open>install_store_laws\<close>, which the store in memory interprets.

  The runner and its approvals (packages/core/src):

  \<^item> \<open>WriteApproval\<close>: write-approval.ts and write-approval-engine.ts, a \<open>mono_machine\<close>.
    \<open>execute\<close> is split at its await, so that other operations interleave with a running executor.
  \<^item> \<open>TaskIntake\<close>: task-intake-approval.ts, an \<open>op_machine\<close>.
  \<^item> \<open>ReplayGuard\<close>, \<open>DurableStore\<close>: runner-replay-guard.ts and runner-durable-store.ts. The locale \<open>claim_guard\<close>
    is the contract of a replay guard; both guards interpret it. The outbox is a \<open>mono_machine\<close>.
  \<^item> \<open>RunnerProtocol\<close>, \<open>RunnerBundle\<close>, \<open>RunnerFits\<close>, \<open>RunnerSample\<close>, \<open>RunnerSealing\<close>: runner-protocol.ts: envelopes, tasks, events,
    receipts and bundles with their signatures and the chain of digests; a task that is accepted fits its envelope and reads back.
  \<^item> \<open>RunnerLease\<close>: runner-lease.ts, with renewal split at its await, refining a grant whose time only moves forward.
  \<^item> \<open>RunnerDevice\<close>, \<open>RunnerLifecycle\<close>: runner-device.ts, runner-transport.ts and runner-lifecycle.ts: enrollment and rotation of keys, and
    the outbound loop as steps between its awaits.
  \<^item> \<open>UsageEvidence\<close>: runner-usage-evidence.ts: validation, normalization of an attempt, grading of proofs.

  Answering and adapters (packages/core/src):

  \<^item> \<open>ContextPort\<close>, \<open>MemoryPort\<close>, \<open>MemHttp\<close>: context-port.ts, memory-port.ts and mem-http-memory-adapter.ts: what is recalled from and
    written to durable memory, and the adapter that talks to a server it checks first.
  \<^item> \<open>CoreContracts\<close>, \<open>JobRunner\<close>, \<open>SessionStore\<close>: contracts.ts, job-runner.ts and session-store.ts. The queue refines a scheduler that
    serves first come first, the sessions a bounded map of conversations.
  \<^item> \<open>DigitalEmployee\<close>, \<open>Retrieval\<close>: digital-employee.ts, escalation-policy.ts, lexical-retriever.ts and faq-store.ts. A task is a first part
    that writes the session, the loop of model and tool calls, and a last part that writes the session again.
  \<^item> \<open>AgentHostWire\<close>, \<open>AgentHostRegistry\<close>: agent-host-wire.ts, agent-host-stdio.ts, agent-host-stdio-config.ts and
    agent-host-registry.ts: validators, event streams, probes, registration (a \<open>mono_machine\<close>).
  \<^item> \<open>Qualification\<close>, \<open>QualificationCases\<close>, \<open>QualificationLaws\<close>: adapter-qualification.ts: records, snapshots, the comparison of
    releases, the cases of the suite, and what the suite guarantees whatever the adapter does.

  Modelling conventions. Strings are HOL strings over the code units U+0000 to U+00FF; what the code does for other characters (the
  segments and two patterns for Chinese text in the retriever and the FAQ store) cannot occur. Numbers that the code checks to be
  integers are \<open>int\<close>, other finite numbers rational; NaN and the infinities are the one value \<open>JNonFinite\<close>. The token
  counts the model port reports to the engine are \<open>int\<close> (negative ones included), although the executor would take any number.
  \<open>unknown\<close> inputs are \<open>jsval\<close>, trees without proxies, accessors and cycles. Thrown errors are the left of a sum; their messages are
  left out. \<open>Date.parse\<close>, \<open>toISOString\<close>, SHA-256, Ed25519, \<open>JSON.stringify\<close>, \<open>JSON.parse\<close>, Ajv, the UTF-8 decoder, collation,
  clocks, random identifiers and all ports are arguments; no theorem assumes anything of them that it does not state, and a theorem
  with such an assumption has a witness at concrete functions.
  An asynchronous operation is split at the awaits at which other operations can interleave with it. Loops are structural recursions
  or have a termination proof. The attempt loop of a turn counts down from the request's validated \<open>maxIterations\<close>, the answer loop
  from the step limit of the employee, and the fuel of the reporting tree is the number of positions, which its property shows to be
  enough.

  Not modelled: the command line, deployment and the servers, which read arguments and files around the modelled core; the adapters
  that drive the processes of external agents, and the connectors and clients of external services (their protocols are modelled);
  reading packages from disk; the builders of published JSON Schemas and the tables of test vectors; and the matrices that compare
  adapters in tests.
\<close>

end
